(* ===== verification/Prelude.thy ===== *)
theory Prelude
  imports Main "HOL-Library.Word"
begin

text \<open>
  Shared vocabulary of the development.  C code that can stop the program (a failed
  \<open>assert\<close> or \<open>KASSERT\<close>, a NULL dereference, \<open>exit\<close>, \<open>panic\<close>) is modelled by functions
  into a sum type: \<open>Inl\<close> holds the reason the program stopped, \<open>Inr\<close> the value and the
  new state.  Error codes the code \<^emph>\<open>returns\<close> are ordinary integers in the \<open>Inr\<close> part.
  The combinators below sequence such functions; the named collections gather the
  rewrite rules of the components.
\<close>

named_theorems seq_simps \<open>rules that run a sequence of fallible calls\<close>
named_theorems rep_rules \<open>what an operation does to the abstract value it implements\<close>

text \<open>\<open>bnd m f\<close> runs \<open>m\<close> and, unless the program stopped, goes on with \<open>f\<close>.\<close>

definition bnd :: "'e + 'a \<Rightarrow> ('a \<Rightarrow> 'e + 'b) \<Rightarrow> 'e + 'b" where
  "bnd m f = (case m of Inl e \<Rightarrow> Inl e | Inr x \<Rightarrow> f x)"

text \<open>\<open>check b e m\<close> is \<open>assert(b); m\<close> where a failing assertion stops with reason \<open>e\<close>.\<close>

definition check :: "bool \<Rightarrow> 'e \<Rightarrow> 'e + 'a \<Rightarrow> 'e + 'a" where
  "check b e m = (if b then m else Inl e)"

text \<open>\<open>deref p e f\<close> reads through a pointer that must not be NULL.\<close>

definition deref :: "'p option \<Rightarrow> 'e \<Rightarrow> ('p \<Rightarrow> 'e + 'a) \<Rightarrow> 'e + 'a" where
  "deref p e f = (case p of None \<Rightarrow> Inl e | Some x \<Rightarrow> f x)"

lemma bnd_Inr [simp, seq_simps]: "bnd (Inr x) f = f x"
  by (simp add: bnd_def)

lemma bnd_Inl [simp, seq_simps]: "bnd (Inl e) f = Inl e"
  by (simp add: bnd_def)

lemma bnd_eq_Inr: "bnd m f = Inr y \<longleftrightarrow> (\<exists>x. m = Inr x \<and> f x = Inr y)"
  by (cases m) auto

lemma bnd_InrE:
  assumes "bnd m f = Inr y"
  obtains x where "m = Inr x" and "f x = Inr y"
  using assms by (auto simp: bnd_eq_Inr)

lemma bnd_cong [fundef_cong]:
  assumes "m = m'" and "\<And>x. m' = Inr x \<Longrightarrow> f x = f' x"
  shows "bnd m f = bnd m' f'"
  using assms by (cases m') auto

lemma bnd_assoc: "bnd (bnd m f) g = bnd m (\<lambda>x. bnd (f x) g)"
  by (cases m) auto

lemma check_True [simp, seq_simps]: "check True e m = m"
  by (simp add: check_def)

lemma check_False [simp, seq_simps]: "check False e m = Inl e"
  by (simp add: check_def)

lemma check_eq_Inr: "check b e m = Inr y \<longleftrightarrow> b \<and> m = Inr y"
  by (simp add: check_def)

lemma check_InrD: "check b e m = Inr y \<Longrightarrow> m = Inr y"
  by (simp add: check_eq_Inr)

lemma deref_Some [simp, seq_simps]: "deref (Some x) e f = f x"
  by (simp add: deref_def)

lemma deref_None [simp, seq_simps]: "deref None e f = Inl e"
  by (simp add: deref_def)

lemma deref_eq_Inr: "deref p e f = Inr y \<longleftrightarrow> (\<exists>x. p = Some x \<and> f x = Inr y)"
  by (cases p) auto

lemma deref_cong [fundef_cong]:
  assumes "p = p'" and "\<And>x. p' = Some x \<Longrightarrow> f x = f' x"
  shows "deref p e f = deref p' e f'"
  using assms by (cases p') auto

lemmas run_eq = bnd_eq_Inr check_eq_Inr deref_eq_Inr

text \<open>\<open>ends m Q\<close>: if the call \<open>m\<close> returns, its result satisfies \<open>Q\<close>.  The rules follow the body of
  a call from its first statement on.\<close>

definition ends :: "'e + 'a \<Rightarrow> ('a \<Rightarrow> bool) \<Rightarrow> bool" where
  "ends m Q \<longleftrightarrow> (\<forall>y. m = Inr y \<longrightarrow> Q y)"

lemma ends_InrD: "ends m Q \<Longrightarrow> m = Inr y \<Longrightarrow> Q y"
  by (simp add: ends_def)

lemma ends_Inr: "Q y \<Longrightarrow> ends (Inr y) Q"
  by (simp add: ends_def)

lemma ends_Inl: "ends (Inl e) Q"
  by (simp add: ends_def)

lemma ends_bnd: "(\<And>x. m = Inr x \<Longrightarrow> ends (f x) Q) \<Longrightarrow> ends (bnd m f) Q"
  by (auto simp: ends_def bnd_eq_Inr)

lemma ends_check: "(b \<Longrightarrow> ends m Q) \<Longrightarrow> ends (check b e m) Q"
  by (simp add: ends_def check_eq_Inr)

lemma ends_deref: "(\<And>x. p = Some x \<Longrightarrow> ends (f x) Q) \<Longrightarrow> ends (deref p e f) Q"
  by (auto simp: ends_def deref_eq_Inr)

lemma ends_if: "(b \<Longrightarrow> ends m Q) \<Longrightarrow> (\<not> b \<Longrightarrow> ends m' Q) \<Longrightarrow> ends (if b then m else m') Q"
  by simp

lemma ends_option:
  "(p = None \<Longrightarrow> ends m Q) \<Longrightarrow> (\<And>x. p = Some x \<Longrightarrow> ends (f x) Q) \<Longrightarrow>
   ends (case p of None \<Rightarrow> m | Some x \<Rightarrow> f x) Q"
  by (cases p) auto

lemma ends_case_None: "ends m Q \<Longrightarrow> ends (case None of None \<Rightarrow> m | Some x \<Rightarrow> f x) Q"
  by simp

lemma ends_case_Some: "ends (f a) Q \<Longrightarrow> ends (case Some a of None \<Rightarrow> m | Some x \<Rightarrow> f x) Q"
  by simp

text \<open>A few facts about lists read from their far end, the end the queues serve first.\<close>

lemma snoc_exhaust:
  assumes "xs \<noteq> []"
  obtains ys y where "xs = ys @ [y]"
  using assms by (cases xs rule: rev_cases) auto

lemma remove1_split:
  assumes "distinct (xs @ x # ys)"
  shows "remove1 x (xs @ x # ys) = xs @ ys"
  using assms by (simp add: remove1_append)

lemma in_set_splitE:
  assumes "x \<in> set xs"
  obtains ys zs where "xs = ys @ x # zs"
  using assms by (auto simp: in_set_conv_decomp)

end
