(* ===== verification/Ulist.thy ===== *)
theory Ulist
  imports Prelude
begin

text \<open>
  The intrusive circular doubly linked lists of \<open>uthreads_final/list.h\<close>.  A \<open>list_t\<close> and a
  \<open>list_link_t\<close> are the same C struct, a pair of pointers; a heap maps the address of every
  such struct to its two fields, \<open>None\<close> being the NULL pointer.  Each macro of the header is
  a function on that heap, with the assignments in the header's order; following a NULL
  pointer stops the program.  The second half says what the macros do to the sequence of
  nodes a list head stands for (\<open>dll\<close>).
\<close>

subsection \<open>The macros\<close>

record 'a link =
  l_next :: "'a option"
  l_prev :: "'a option"

type_synonym 'a lheap = "'a \<Rightarrow> 'a link"

datatype fault =
    Assertion_failed
  | Null_pointer
  | Exited int
  | Panicked
  | Never_returns

definition null_link :: "'a link" where
  "null_link = \<lparr>l_next = None, l_prev = None\<rparr>"

definition set_next :: "'a \<Rightarrow> 'a option \<Rightarrow> 'a lheap \<Rightarrow> 'a lheap" where
  "set_next a v h = h(a := (h a)\<lparr>l_next := v\<rparr>)"

definition set_prev :: "'a \<Rightarrow> 'a option \<Rightarrow> 'a lheap \<Rightarrow> 'a lheap" where
  "set_prev a v h = h(a := (h a)\<lparr>l_prev := v\<rparr>)"

definition list_init :: "'a \<Rightarrow> 'a lheap \<Rightarrow> 'a lheap" where
  "list_init lst h = set_next lst (Some lst) (set_prev lst (Some lst) h)"

definition list_link_init :: "'a \<Rightarrow> 'a lheap \<Rightarrow> 'a lheap" where
  "list_link_init lnk h = set_next lnk None (set_prev lnk None h)"

definition list_empty :: "'a \<Rightarrow> 'a lheap \<Rightarrow> bool" where
  "list_empty lst h \<longleftrightarrow> l_next (h lst) = Some lst"

definition list_insert_before :: "'a \<Rightarrow> 'a \<Rightarrow> 'a lheap \<Rightarrow> fault + 'a lheap" where
  "list_insert_before old new h =
     (let h = set_next new (Some old) h;
          h = set_prev new (l_prev (h old)) h
      in deref (l_prev (h old)) Null_pointer (\<lambda>p.
         let h = set_next p (Some new) h
         in Inr (set_prev old (Some new) h)))"

definition list_insert_head :: "'a \<Rightarrow> 'a \<Rightarrow> 'a lheap \<Rightarrow> fault + 'a lheap" where
  "list_insert_head lst lnk h =
     deref (l_next (h lst)) Null_pointer (\<lambda>old. list_insert_before old lnk h)"

definition list_insert_tail :: "'a \<Rightarrow> 'a \<Rightarrow> 'a lheap \<Rightarrow> fault + 'a lheap" where
  "list_insert_tail lst lnk h = list_insert_before lst lnk h"

definition list_remove :: "'a \<Rightarrow> 'a lheap \<Rightarrow> fault + 'a lheap" where
  "list_remove ll h =
     deref (l_prev (h ll)) Null_pointer (\<lambda>prev.
     deref (l_next (h ll)) Null_pointer (\<lambda>next.
     let h = set_next prev (Some next) h;
         h = set_prev next (Some prev) h
     in Inr (set_next ll None (set_prev ll None h))))"

definition list_remove_head :: "'a \<Rightarrow> 'a lheap \<Rightarrow> fault + 'a lheap" where
  "list_remove_head lst h = deref (l_next (h lst)) Null_pointer (\<lambda>x. list_remove x h)"

definition list_remove_tail :: "'a \<Rightarrow> 'a lheap \<Rightarrow> fault + 'a lheap" where
  "list_remove_tail lst h = deref (l_prev (h lst)) Null_pointer (\<lambda>x. list_remove x h)"

subsection \<open>The sequence of nodes a list head stands for\<close>

text \<open>\<open>lseg h a xs b\<close>: following \<open>l_next\<close> from \<open>a\<close> visits \<open>xs\<close> and then \<open>b\<close>, and \<open>l_prev\<close>
  leads the same way back.\<close>

fun lseg :: "'a lheap \<Rightarrow> 'a \<Rightarrow> 'a list \<Rightarrow> 'a \<Rightarrow> bool" where
  "lseg h a [] b \<longleftrightarrow> l_next (h a) = Some b \<and> l_prev (h b) = Some a"
| "lseg h a (x # xs) b \<longleftrightarrow> l_next (h a) = Some x \<and> l_prev (h x) = Some a \<and> lseg h x xs b"

definition dll :: "'a lheap \<Rightarrow> 'a \<Rightarrow> 'a list \<Rightarrow> bool" where
  "dll h q xs \<longleftrightarrow> lseg h q xs q \<and> distinct (q # xs)"

lemma lseg_append [simp]: "lseg h a (xs @ x # ys) b \<longleftrightarrow> lseg h a xs x \<and> lseg h x ys b"
  by (induction xs arbitrary: a) auto

lemma lseg_frame:
  assumes "\<And>x. x \<in> set (a # xs) \<Longrightarrow> l_next (h' x) = l_next (h x)"
    and "\<And>x. x \<in> set (xs @ [b]) \<Longrightarrow> l_prev (h' x) = l_prev (h x)"
  shows "lseg h' a xs b = lseg h a xs b"
  using assms by (induction xs arbitrary: a) auto

lemma dll_frame:
  assumes "\<And>x. x \<in> set (q # xs) \<Longrightarrow> h' x = h x"
  shows "dll h' q xs = dll h q xs"
  unfolding dll_def using assms by (subst lseg_frame [where h = h]) auto

lemma lseg_last_prev: "lseg h a xs b \<Longrightarrow> l_prev (h b) = Some (last (a # xs))"
  by (induction xs arbitrary: a) auto

lemma lseg_first_next: "lseg h a xs b \<Longrightarrow> l_next (h a) = Some (hd (xs @ [b]))"
  by (cases xs) auto

lemma dll_linked:
  assumes "dll h q xs" and "x \<in> set (q # xs)"
  shows "l_next (h x) \<noteq> None" and "l_prev (h x) \<noteq> None"
proof -
  have "l_next (h x) \<noteq> None \<and> l_prev (h x) \<noteq> None"
  proof (cases "x = q")
    case True
    with assms show ?thesis by (auto simp: dll_def dest: lseg_first_next lseg_last_prev)
  next
    case False
    with assms(2) obtain ys zs where "xs = ys @ x # zs" by (auto elim: in_set_splitE)
    with assms(1) show ?thesis by (auto simp: dll_def dest: lseg_first_next lseg_last_prev)
  qed
  then show "l_next (h x) \<noteq> None" and "l_prev (h x) \<noteq> None" by simp_all
qed

lemma dll_init [rep_rules]: "dll (list_init q h) q []"
  by (simp add: dll_def list_init_def set_next_def set_prev_def)

lemma list_init_other: "x \<noteq> q \<Longrightarrow> list_init q h x = h x"
  by (simp add: list_init_def set_next_def set_prev_def)

lemma list_empty_dll [rep_rules]: "dll h q xs \<Longrightarrow> list_empty q h \<longleftrightarrow> xs = []"
  by (cases xs) (auto simp: dll_def list_empty_def)

lemma dll_last: "dll h q xs \<Longrightarrow> xs \<noteq> [] \<Longrightarrow> l_prev (h q) = Some (last xs)"
  by (auto simp: dll_def dest: lseg_last_prev)

text \<open>Insertion before \<open>old\<close>, the node that follows the prefix \<open>xs\<close>.\<close>

lemma lseg_insert_aux:
  assumes "lseg h q xs old" and "lseg h old ys e"
    and "distinct (q # xs)" and "old \<notin> set xs" and "new \<notin> {q, old} \<union> set xs \<union> set ys"
  shows "\<exists>h' p. list_insert_before old new h = Inr h' \<and> l_prev (h old) = Some p
           \<and> p \<in> set (q # xs) \<and> lseg h' q (xs @ [new]) old
           \<and> (\<forall>x. x \<notin> {p, new, old} \<longrightarrow> h' x = h x)
           \<and> (\<forall>x. x \<notin> {p, new} \<longrightarrow> l_next (h' x) = l_next (h x))
           \<and> (\<forall>x. x \<notin> {new, old} \<longrightarrow> l_prev (h' x) = l_prev (h x))"
proof -
  define p where "p = last (q # xs)"
  have prev: "l_prev (h old) = Some p"
    using lseg_last_prev [OF assms(1)] by (simp add: p_def)
  have pin: "p \<in> set (q # xs)" unfolding p_def by (rule last_in_set) simp
  define h' where "h' = set_prev old (Some new)
       (set_next p (Some new) (set_prev new (Some p) (set_next new (Some old) h)))"
  have ins: "list_insert_before old new h = Inr h'"
    using assms(5) prev
    by (auto simp: list_insert_before_def h'_def Let_def set_next_def set_prev_def)
  have nx: "\<forall>x. x \<notin> {p, new} \<longrightarrow> l_next (h' x) = l_next (h x)"
    by (simp add: h'_def set_next_def set_prev_def)
  have pv: "\<forall>x. x \<notin> {new, old} \<longrightarrow> l_prev (h' x) = l_prev (h x)"
    by (simp add: h'_def set_next_def set_prev_def)
  have other: "\<forall>x. x \<notin> {p, new, old} \<longrightarrow> h' x = h x"
    by (simp add: h'_def set_next_def set_prev_def)
  have pnew: "p \<noteq> new" using pin assms(5) by auto
  have last3: "l_next (h' p) = Some new" "l_prev (h' new) = Some p"
      "l_next (h' new) = Some old" "l_prev (h' old) = Some new"
    using pnew assms(5) by (auto simp: h'_def set_next_def set_prev_def)
  have "lseg h' q (xs @ [new]) old"
  proof (cases xs rule: rev_cases)
    case Nil
    with last3 show ?thesis by (simp add: p_def)
  next
    case (snoc zs z)
    with p_def have pz: "p = z" by simp
    have "lseg h q zs z" using assms(1) snoc by simp
    then have "lseg h' q zs z"
      using nx pv assms(3,4,5) snoc pz by (subst lseg_frame [where h = h]) auto
    with last3 snoc pz show ?thesis by simp
  qed
  with ins prev pin other nx pv show ?thesis by blast
qed

lemma list_insert_before_dll [rep_rules]:
  assumes d: "dll h q (xs @ ys)" and new: "new \<noteq> q" "new \<notin> set (xs @ ys)"
  shows "\<exists>h'. list_insert_before (hd (ys @ [q])) new h = Inr h'
           \<and> dll h' q (xs @ new # ys)
           \<and> (\<forall>x. x \<notin> set (q # new # xs @ ys) \<longrightarrow> h' x = h x)"
proof (cases ys)
  case Nil
  have "lseg h q xs q" using d Nil by (simp add: dll_def)
  define p where "p = last (q # xs)"
  have prev: "l_prev (h q) = Some p"
    using lseg_last_prev [OF \<open>lseg h q xs q\<close>] by (simp add: p_def)
  have pin: "p \<in> set (q # xs)" unfolding p_def by (rule last_in_set) simp
  define h' where "h' = set_prev q (Some new)
       (set_next p (Some new) (set_prev new (Some p) (set_next new (Some q) h)))"
  have ins: "list_insert_before q new h = Inr h'"
    using new prev
    by (auto simp: list_insert_before_def h'_def Let_def set_next_def set_prev_def)
  have pnew: "p \<noteq> new" using pin new by auto
  have "lseg h' q (xs @ [new]) q"
  proof (cases xs rule: rev_cases)
    case Nil
    with new pnew show ?thesis
      by (auto simp: h'_def set_next_def set_prev_def p_def)
  next
    case (snoc zs z)
    then have pz: "p = z" by (simp add: p_def)
    have dis: "q \<notin> set xs" "distinct xs" using d by (auto simp: dll_def)
    have "lseg h q zs z" using \<open>lseg h q xs q\<close> snoc by simp
    then have "lseg h' q zs z"
      using dis new snoc pz
      by (subst lseg_frame [where h = h]) (auto simp: h'_def set_next_def set_prev_def)
    with new dis snoc pz show ?thesis by (auto simp: h'_def set_next_def set_prev_def)
  qed
  moreover have "\<forall>x. x \<notin> set (q # new # xs) \<longrightarrow> h' x = h x"
    using pin by (auto simp: h'_def set_next_def set_prev_def)
  ultimately show ?thesis using Nil ins d new by (auto simp: dll_def)
next
  case (Cons old zs)
  have segs: "lseg h q xs old" "lseg h old zs q" and dis: "distinct (q # xs @ old # zs)"
    using d Cons by (auto simp: dll_def)
  from lseg_insert_aux [OF segs, of new] dis new Cons
  obtain h' p where h': "list_insert_before old new h = Inr h'" "p \<in> set (q # xs)"
      "lseg h' q (xs @ [new]) old" "\<forall>x. x \<notin> {p, new, old} \<longrightarrow> h' x = h x"
      "\<forall>x. x \<notin> {p, new} \<longrightarrow> l_next (h' x) = l_next (h x)"
      "\<forall>x. x \<notin> {new, old} \<longrightarrow> l_prev (h' x) = l_prev (h x)"
    by auto
  have "lseg h' old zs q"
    using segs(2) h'(2,5,6) dis new Cons
    by (subst lseg_frame [where h = h]) auto
  then have "dll h' q (xs @ new # ys)"
    using h'(3) dis new Cons by (auto simp: dll_def)
  moreover have "\<forall>x. x \<notin> set (q # new # xs @ ys) \<longrightarrow> h' x = h x"
    using h'(2,4) Cons by auto
  ultimately show ?thesis using h'(1) Cons by auto
qed

lemma list_insert_head_dll [rep_rules]:
  assumes d: "dll h q xs" and new: "new \<noteq> q" "new \<notin> set xs"
  shows "\<exists>h'. list_insert_head q new h = Inr h' \<and> dll h' q (new # xs)
           \<and> (\<forall>x. x \<notin> set (q # new # xs) \<longrightarrow> h' x = h x)"
proof -
  have "l_next (h q) = Some (hd (xs @ [q]))"
    using d lseg_first_next by (auto simp: dll_def)
  then show ?thesis
    using list_insert_before_dll [of h q "[]" xs new] d new
    by (simp add: list_insert_head_def)
qed

lemma list_insert_tail_dll [rep_rules]:
  assumes d: "dll h q xs" and new: "new \<noteq> q" "new \<notin> set xs"
  shows "\<exists>h'. list_insert_tail q new h = Inr h' \<and> dll h' q (xs @ [new])
           \<and> (\<forall>x. x \<notin> set (q # new # xs) \<longrightarrow> h' x = h x)"
  using list_insert_before_dll [of h q xs "[]" new] d new
  by (simp add: list_insert_tail_def)

lemma list_remove_dll [rep_rules]:
  assumes d: "dll h q (xs @ x # ys)"
  shows "\<exists>h'. list_remove x h = Inr h' \<and> dll h' q (xs @ ys) \<and> h' x = null_link
           \<and> (\<forall>y. y \<notin> set (q # xs @ x # ys) \<longrightarrow> h' y = h y)"
proof -
  have segs: "lseg h q xs x" "lseg h x ys q" and dis: "distinct (q # xs @ x # ys)"
    using d by (auto simp: dll_def)
  define p where "p = last (q # xs)"
  define n where "n = hd (ys @ [q])"
  have pv: "l_prev (h x) = Some p" using lseg_last_prev [OF segs(1)] by (simp add: p_def)
  have nx: "l_next (h x) = Some n" using lseg_first_next [OF segs(2)] by (simp add: n_def)
  have pin: "p \<in> set (q # xs)" unfolding p_def by (rule last_in_set) simp
  have nin: "n \<in> set (ys @ [q])" unfolding n_def by (rule hd_in_set) simp
  define h' where "h' = set_next x None (set_prev x None
       (set_prev n (Some p) (set_next p (Some n) h)))"
  have rem: "list_remove x h = Inr h'"
    by (simp add: list_remove_def pv nx h'_def Let_def)
  have neq: "x \<noteq> p" "x \<noteq> n" using pin nin dis by auto
  have xn: "h' x = null_link"
    using neq by (simp add: h'_def set_next_def set_prev_def null_link_def)
  have pn: "l_next (h' p) = Some n" "l_prev (h' n) = Some p"
    using neq by (auto simp: h'_def set_next_def set_prev_def)
  have keep_nx: "\<And>y. y \<notin> {p, x} \<Longrightarrow> l_next (h' y) = l_next (h y)"
    and keep_pv: "\<And>y. y \<notin> {n, x} \<Longrightarrow> l_prev (h' y) = l_prev (h y)"
    by (auto simp: h'_def set_next_def set_prev_def)
  have tail: "lseg h' p ys q"
  proof (cases ys)
    case Nil
    with pn show ?thesis by (simp add: n_def)
  next
    case (Cons z zs)
    have nz: "n = z" using Cons by (simp add: n_def)
    have "lseg h z zs q" using segs(2) Cons by simp
    then have "lseg h' z zs q"
      using dis Cons pin nz
      by (subst lseg_frame [where h = h]) (auto intro: keep_nx keep_pv)
    with pn Cons nz show ?thesis by simp
  qed
  have "lseg h' q (xs @ ys) q"
  proof (cases xs rule: rev_cases)
    case Nil
    with tail show ?thesis by (simp add: p_def)
  next
    case (snoc zs z)
    have pz: "p = z" using snoc by (simp add: p_def)
    have "lseg h q zs z" using segs(1) snoc by simp
    then have "lseg h' q zs z"
      using dis snoc pz nin
      by (subst lseg_frame [where h = h]) (auto intro: keep_nx keep_pv)
    with tail snoc pz show ?thesis by simp
  qed
  moreover have "\<forall>y. y \<notin> set (q # xs @ x # ys) \<longrightarrow> h' y = h y"
    using pin nin by (auto simp: h'_def set_next_def set_prev_def)
  ultimately show ?thesis using rem xn dis by (auto simp: dll_def)
qed

end
