(* ===== verification/Uqueue.thy ===== *)
theory Uqueue
  imports Ulist
begin

text \<open>
  Queues of threads: \<open>uthreads_final/uthread_queue.c\<close>.  Threads are linked into queues
  through their own \<open>ut_link\<close> field, so all queues of the program live in one heap of links.
  A queue is named by what it belongs to: a priority run queue of the scheduler, the wait
  queue of a mutex or of a condition variable, and the (bare) list of dead threads of the
  reaper.  The locale \<open>thread_queues\<close> states what the scheduler, the mutexes and the
  condition variables rely on; the interpretation at the end discharges it for the code.
\<close>

subsection \<open>Addresses\<close>

text \<open>\<open>Thr i\<close> is \<open>&uthreads[i]\<close>, \<open>Hack\<close> the temporary \<open>uthread_t\<close> on the stack of
  \<open>create_first_thr\<close>.\<close>

datatype taddr = Thr nat | Hack

datatype qid = RunQ nat | MtxQ nat | CondQ nat | ReapQ

datatype laddr = Head qid | TLink taddr

record qheap =
  links :: "laddr lheap"
  tq_size :: "qid \<Rightarrow> int"

subsection \<open>Operations\<close>

definition utqueue_init :: "qid \<Rightarrow> qheap \<Rightarrow> qheap" where
  "utqueue_init q s =
     s\<lparr>tq_size := (tq_size s)(q := 0), links := list_init (Head q) (links s)\<rparr>"

definition utqueue_empty :: "qid \<Rightarrow> qheap \<Rightarrow> fault + bool" where
  "utqueue_empty q s =
     check (list_empty (Head q) (links s) = (tq_size s q = 0)) Assertion_failed
       (Inr (tq_size s q = 0))"

definition utqueue_enqueue :: "qid \<Rightarrow> taddr \<Rightarrow> qheap \<Rightarrow> fault + qheap" where
  "utqueue_enqueue q thr s =
     check (l_next (links s (TLink thr)) = None \<and> l_prev (links s (TLink thr)) = None)
       Assertion_failed
     (bnd (list_insert_head (Head q) (TLink thr) (links s)) (\<lambda>h.
        Inr (s\<lparr>links := h, tq_size := (tq_size s)(q := tq_size s q + 1)\<rparr>)))"

text \<open>\<open>list_item(link, uthread_t, ut_link)\<close>: the thread a link belongs to.  A list head is not
  part of a \<open>uthread_t\<close>; reaching one here would be a wild pointer.\<close>

fun link_thread :: "laddr \<Rightarrow> fault + taddr" where
  "link_thread (TLink t) = Inr t"
| "link_thread (Head q) = Inl Null_pointer"

definition utqueue_dequeue :: "qid \<Rightarrow> qheap \<Rightarrow> fault + (taddr option \<times> qheap)" where
  "utqueue_dequeue q s =
     bnd (utqueue_empty q s) (\<lambda>e.
     if e then Inr (None, s)
     else
       deref (l_prev (links s (Head q))) Null_pointer (\<lambda>lnk.
       bnd (link_thread lnk) (\<lambda>thr.
       bnd (list_remove lnk (links s)) (\<lambda>h.
         Inr (Some thr, s\<lparr>links := h, tq_size := (tq_size s)(q := tq_size s q - 1)\<rparr>)))))"

definition utqueue_remove :: "qid \<Rightarrow> taddr \<Rightarrow> qheap \<Rightarrow> fault + qheap" where
  "utqueue_remove q thr s =
     check (l_next (links s (TLink thr)) \<noteq> None \<and> l_prev (links s (TLink thr)) \<noteq> None)
       Assertion_failed
     (bnd (list_remove (TLink thr) (links s)) (\<lambda>h.
        Inr (s\<lparr>links := h, tq_size := (tq_size s)(q := tq_size s q - 1)\<rparr>)))"

subsection \<open>The queues a heap stands for\<close>

text \<open>
  \<open>qrep s Q\<close>: in heap \<open>s\<close> every queue \<open>q\<close> is the well-formed circular list of the threads
  \<open>Q q\<close> (front first), the size fields agree, no thread is linked twice, and a thread in no
  queue has a NULL link.  The reaper's list is a bare \<open>list_t\<close> and has no size field.
\<close>

definition qrep :: "qheap \<Rightarrow> (qid \<Rightarrow> taddr list) \<Rightarrow> bool" where
  "qrep s Q \<longleftrightarrow>
     (\<forall>q. dll (links s) (Head q) (map TLink (Q q)))
     \<and> (\<forall>q. q \<noteq> ReapQ \<longrightarrow> tq_size s q = int (length (Q q)))
     \<and> (\<forall>q q' t. t \<in> set (Q q) \<longrightarrow> t \<in> set (Q q') \<longrightarrow> q = q')
     \<and> (\<forall>t. (\<forall>q. t \<notin> set (Q q)) \<longrightarrow> links s (TLink t) = null_link)"

lemma qrepD:
  assumes "qrep s Q"
  shows "dll (links s) (Head q) (map TLink (Q q))"
    and "q \<noteq> ReapQ \<Longrightarrow> tq_size s q = int (length (Q q))"
    and "t \<in> set (Q q) \<Longrightarrow> t \<in> set (Q q') \<Longrightarrow> q = q'"
    and "\<forall>q. t \<notin> set (Q q) \<Longrightarrow> links s (TLink t) = null_link"
    and "distinct (Q q)"
proof -
  show *: "dll (links s) (Head q) (map TLink (Q q))" using assms by (simp add: qrep_def)
  show "distinct (Q q)" using * by (auto simp: dll_def distinct_map)
qed (use assms in \<open>auto simp: qrep_def\<close>)

lemma qrep_link_null_iff:
  assumes "qrep s Q"
  shows "l_next (links s (TLink t)) = None \<longleftrightarrow> (\<forall>q. t \<notin> set (Q q))"
    and "l_prev (links s (TLink t)) = None \<longleftrightarrow> (\<forall>q. t \<notin> set (Q q))"
proof -
  have "l_next (links s (TLink t)) \<noteq> None \<and> l_prev (links s (TLink t)) \<noteq> None"
    if "t \<in> set (Q q)" for q
    using dll_linked [OF qrepD(1) [OF assms, of q], of "TLink t"] that by auto
  moreover have "l_next (links s (TLink t)) = None \<and> l_prev (links s (TLink t)) = None"
    if "\<forall>q. t \<notin> set (Q q)"
    using qrepD(4) [OF assms that] by (simp add: null_link_def)
  ultimately show "l_next (links s (TLink t)) = None \<longleftrightarrow> (\<forall>q. t \<notin> set (Q q))"
    and "l_prev (links s (TLink t)) = None \<longleftrightarrow> (\<forall>q. t \<notin> set (Q q))" by blast+
qed

text \<open>The frame argument all operations share: a change to the links of queue \<open>q\<close> and of one
  thread \<open>t\<close> that is in no other queue leaves the other queues as they are.\<close>

lemma qrep_update:
  assumes R: "qrep s Q"
    and dq: "dll h (Head q) (map TLink xs)"
    and other: "\<forall>x. x \<notin> set (Head q # map TLink (Q q)) \<and> x \<noteq> TLink t \<longrightarrow> h x = links s x"
    and free: "\<forall>q'. q' \<noteq> q \<longrightarrow> t \<notin> set (Q q')"
    and xs: "set xs \<subseteq> insert t (set (Q q))" "set (Q q) \<subseteq> insert t (set xs)"
    and tn: "t \<notin> set xs \<Longrightarrow> h (TLink t) = null_link"
    and sz: "\<forall>q'. q' \<noteq> ReapQ \<longrightarrow> z q' = int (length ((Q(q := xs)) q'))"
  shows "qrep (s\<lparr>links := h, tq_size := z\<rparr>) (Q(q := xs))"
proof -
  have lists: "dll h (Head q') (map TLink (Q q'))" if "q' \<noteq> q" for q'
    using qrepD(1) [OF R, of q'] that free qrepD(3) [OF R]
    by (subst dll_frame [where h = "links s"]) (auto intro!: other [rule_format])
  have nul: "h (TLink t') = null_link" if t': "\<forall>q'. t' \<notin> set ((Q(q := xs)) q')" for t'
  proof (cases "t' = t")
    case True
    with t' tn show ?thesis by (metis fun_upd_same)
  next
    case False
    have nin: "t' \<notin> set (Q q')" for q'
      using t' [rule_format, of q'] False xs(2) by (cases "q' = q") auto
    with qrepD(4) [OF R] have "links s (TLink t') = null_link" by blast
    moreover have "h (TLink t') = links s (TLink t')"
      using nin [of q] False by (intro other [rule_format]) auto
    ultimately show ?thesis by simp
  qed
  have uniq: "q1 = q2" if "t' \<in> set ((Q(q := xs)) q1)" "t' \<in> set ((Q(q := xs)) q2)" for t' q1 q2
  proof -
    have "(t' = t \<and> q0 = q) \<or> (t' \<noteq> t \<and> t' \<in> set (Q q0))"
      if "t' \<in> set ((Q(q := xs)) q0)" for q0
      using that xs(1) free by (cases "q0 = q") auto
    from this [OF that(1)] this [OF that(2)] show ?thesis by (blast dest: qrepD(3) [OF R])
  qed
  have "dll h (Head q') (map TLink ((Q(q := xs)) q'))" for q'
    using dq lists by (cases "q' = q") simp_all
  moreover have "\<forall>q1 q2 t'. t' \<in> set ((Q(q := xs)) q1) \<longrightarrow> t' \<in> set ((Q(q := xs)) q2) \<longrightarrow> q1 = q2"
    by (intro allI impI) (rule uniq)
  moreover have "\<forall>t'. (\<forall>q'. t' \<notin> set ((Q(q := xs)) q')) \<longrightarrow> h (TLink t') = null_link"
    by (intro allI impI) (rule nul)
  ultimately show ?thesis using sz unfolding qrep_def by (simp del: fun_upd_apply)
qed

lemma utqueue_empty_rep [rep_rules]:
  assumes "qrep s Q" and "q \<noteq> ReapQ"
  shows "utqueue_empty q s = Inr (Q q = [])"
  using qrepD(1,2) [OF assms(1), of q] assms(2)
  by (auto simp: utqueue_empty_def check_def list_empty_dll)

lemma utqueue_enqueue_rep [rep_rules]:
  assumes R: "qrep s Q" and q: "q \<noteq> ReapQ" and free: "\<forall>q. t \<notin> set (Q q)"
  shows "\<exists>s'. utqueue_enqueue q t s = Inr s' \<and> qrep s' (Q(q := t # Q q))"
proof -
  have nul: "links s (TLink t) = null_link" by (rule qrepD(4) [OF R free])
  have "TLink t \<notin> set (map TLink (Q q))" using free by auto
  with list_insert_head_dll [OF qrepD(1) [OF R, of q], of "TLink t"]
  obtain h where h: "list_insert_head (Head q) (TLink t) (links s) = Inr h"
      "dll h (Head q) (map TLink (t # Q q))"
      "\<forall>x. x \<notin> set (Head q # TLink t # map TLink (Q q)) \<longrightarrow> h x = links s x"
    by auto
  have "qrep (s\<lparr>links := h, tq_size := (tq_size s)(q := tq_size s q + 1)\<rparr>) (Q(q := t # Q q))"
    by (rule qrep_update [OF R h(2), of t]) (use h(3) free q qrepD(2) [OF R] in auto)
  with h(1) nul show ?thesis by (simp add: utqueue_enqueue_def null_link_def)
qed

lemma qrep_remove_aux:
  assumes R: "qrep s Q" and Qq: "Q q = xs @ t # ys"
    and sz: "\<forall>q'. q' \<noteq> ReapQ \<longrightarrow> z q' = int (length ((Q(q := xs @ ys)) q'))"
  shows "\<exists>h. list_remove (TLink t) (links s) = Inr h
           \<and> qrep (s\<lparr>links := h, tq_size := z\<rparr>) (Q(q := xs @ ys)) \<and> h (TLink t) = null_link"
proof -
  have "dll (links s) (Head q) (map TLink xs @ TLink t # map TLink ys)"
    using qrepD(1) [OF R, of q] Qq by simp
  from list_remove_dll [OF this]
  obtain h where h: "list_remove (TLink t) (links s) = Inr h"
      "dll h (Head q) (map TLink (xs @ ys))" "h (TLink t) = null_link"
      "\<forall>y. y \<notin> set (Head q # map TLink (Q q)) \<longrightarrow> h y = links s y"
    using Qq by auto
  have "t \<in> set (Q q)" using Qq by simp
  then have "qrep (s\<lparr>links := h, tq_size := z\<rparr>) (Q(q := xs @ ys))"
    using qrepD(3) [OF R] by (intro qrep_update [OF R h(2), of t] sz) (use h(3,4) Qq in auto)
  with h(1,3) show ?thesis by blast
qed

lemma utqueue_dequeue_empty [rep_rules]:
  assumes "qrep s Q" and "q \<noteq> ReapQ" and "Q q = []"
  shows "utqueue_dequeue q s = Inr (None, s)"
  using utqueue_empty_rep [OF assms(1,2)] assms(3) by (simp add: utqueue_dequeue_def)

lemma utqueue_dequeue_rep [rep_rules]:
  assumes R: "qrep s Q" and q: "q \<noteq> ReapQ" and Qq: "Q q = xs @ [t]"
  shows "\<exists>s'. utqueue_dequeue q s = Inr (Some t, s') \<and> qrep s' (Q(q := xs))"
proof -
  have prev: "l_prev (links s (Head q)) = Some (TLink t)"
    using dll_last [OF qrepD(1) [OF R, of q]] Qq by simp
  have "\<forall>q'. q' \<noteq> ReapQ \<longrightarrow>
      ((tq_size s)(q := tq_size s q - 1)) q' = int (length ((Q(q := xs @ [])) q'))"
    using qrepD(2) [OF R] Qq q by auto
  from qrep_remove_aux [OF R Qq this]
  obtain h where "list_remove (TLink t) (links s) = Inr h"
      "qrep (s\<lparr>links := h, tq_size := (tq_size s)(q := tq_size s q - 1)\<rparr>) (Q(q := xs))"
    by (auto simp del: fun_upd_apply)
  then show ?thesis
    using utqueue_empty_rep [OF R q] Qq prev
    by (simp add: utqueue_dequeue_def del: fun_upd_apply)
qed

lemma utqueue_remove_rep [rep_rules]:
  assumes R: "qrep s Q" and q: "q \<noteq> ReapQ" and t: "t \<in> set (Q q)"
  shows "\<exists>s'. utqueue_remove q t s = Inr s' \<and> qrep s' (Q(q := remove1 t (Q q)))"
proof -
  obtain xs ys where Qq: "Q q = xs @ t # ys" using t by (auto elim: in_set_splitE)
  have rm: "remove1 t (Q q) = xs @ ys"
    using remove1_split qrepD(5) [OF R, of q] Qq by metis
  have "\<forall>q'. q' \<noteq> ReapQ \<longrightarrow>
      ((tq_size s)(q := tq_size s q - 1)) q' = int (length ((Q(q := xs @ ys)) q'))"
    using qrepD(2) [OF R] Qq q by auto
  from qrep_remove_aux [OF R Qq this]
  obtain h where "list_remove (TLink t) (links s) = Inr h"
      "qrep (s\<lparr>links := h, tq_size := (tq_size s)(q := tq_size s q - 1)\<rparr>) (Q(q := xs @ ys))"
    by (auto simp del: fun_upd_apply)
  moreover have "l_next (links s (TLink t)) \<noteq> None" "l_prev (links s (TLink t)) \<noteq> None"
    using qrep_link_null_iff [OF R, of t] t by blast+
  ultimately show ?thesis
    by (simp add: utqueue_remove_def rm check_def del: fun_upd_apply)
qed

text \<open>The reaper's list: insertion at the tail and removal of a given node.\<close>

lemma reapq_insert_rep [rep_rules]:
  assumes R: "qrep s Q" and free: "\<forall>q. t \<notin> set (Q q)"
  shows "\<exists>h. list_insert_tail (Head ReapQ) (TLink t) (links s) = Inr h
           \<and> qrep (s\<lparr>links := h\<rparr>) (Q(ReapQ := Q ReapQ @ [t]))"
proof -
  have "TLink t \<notin> set (map TLink (Q ReapQ))" using free by auto
  with list_insert_tail_dll [OF qrepD(1) [OF R, of ReapQ], of "TLink t"]
  obtain h where h: "list_insert_tail (Head ReapQ) (TLink t) (links s) = Inr h"
      "dll h (Head ReapQ) (map TLink (Q ReapQ @ [t]))"
      "\<forall>x. x \<notin> set (Head ReapQ # TLink t # map TLink (Q ReapQ)) \<longrightarrow> h x = links s x"
    by auto
  have "qrep (s\<lparr>links := h, tq_size := tq_size s\<rparr>) (Q(ReapQ := Q ReapQ @ [t]))"
    by (rule qrep_update [OF R h(2), of t]) (use h(3) free qrepD(2) [OF R] in auto)
  with h(1) show ?thesis by auto
qed

lemma reapq_remove_rep [rep_rules]:
  assumes R: "qrep s Q" and Qq: "Q ReapQ = t # ys"
  shows "\<exists>h. list_remove (TLink t) (links s) = Inr h
           \<and> qrep (s\<lparr>links := h\<rparr>) (Q(ReapQ := ys)) \<and> h (TLink t) = null_link"
proof -
  have "\<forall>q'. q' \<noteq> ReapQ \<longrightarrow> tq_size s q' = int (length ((Q(ReapQ := [] @ ys)) q'))"
    using qrepD(2) [OF R] by auto
  from qrep_remove_aux [OF R _ this, of t] Qq show ?thesis by auto
qed

text \<open>Zeroing the link of a thread that is in no queue changes nothing.\<close>

lemma qrep_clear_link:
  assumes "qrep s Q" and "\<forall>q. t \<notin> set (Q q)"
  shows "s\<lparr>links := (links s)(TLink t := null_link)\<rparr> = s"
  using qrepD(4) [OF assms] by (simp add: fun_upd_idem)

subsection \<open>The queue interface\<close>

text \<open>
  What the clients of the queues rely on.  \<open>rep s Q\<close> relates a state of the implementation
  to the contents of all queues; \<open>ok q\<close> says which queues may be used with the size-keeping
  operations.  Threads enter at the front and leave at the back.
\<close>

locale thread_queues =
  fixes enq :: "'q \<Rightarrow> 't \<Rightarrow> 's \<Rightarrow> 'e + 's"
    and deq :: "'q \<Rightarrow> 's \<Rightarrow> 'e + ('t option \<times> 's)"
    and rem :: "'q \<Rightarrow> 't \<Rightarrow> 's \<Rightarrow> 'e + 's"
    and emp :: "'q \<Rightarrow> 's \<Rightarrow> 'e + bool"
    and ok :: "'q \<Rightarrow> bool"
    and rep :: "'s \<Rightarrow> ('q \<Rightarrow> 't list) \<Rightarrow> bool"
  assumes enq_rep: "rep s Q \<Longrightarrow> ok q \<Longrightarrow> \<forall>q. t \<notin> set (Q q) \<Longrightarrow>
      \<exists>s'. enq q t s = Inr s' \<and> rep s' (Q(q := t # Q q))"
    and deq_rep: "rep s Q \<Longrightarrow> ok q \<Longrightarrow> Q q = xs @ [t] \<Longrightarrow>
      \<exists>s'. deq q s = Inr (Some t, s') \<and> rep s' (Q(q := xs))"
    and deq_none: "rep s Q \<Longrightarrow> ok q \<Longrightarrow> Q q = [] \<Longrightarrow> deq q s = Inr (None, s)"
    and rem_rep: "rep s Q \<Longrightarrow> ok q \<Longrightarrow> t \<in> set (Q q) \<Longrightarrow>
      \<exists>s'. rem q t s = Inr s' \<and> rep s' (Q(q := remove1 t (Q q)))"
    and emp_rep: "rep s Q \<Longrightarrow> ok q \<Longrightarrow> emp q s = Inr (Q q = [])"
    and rep_unique: "rep s Q \<Longrightarrow> t \<in> set (Q q) \<Longrightarrow> t \<in> set (Q q') \<Longrightarrow> q = q'"
    and rep_distinct: "rep s Q \<Longrightarrow> distinct (Q q)"
begin

text \<open>Entering a queue and leaving it again restores all queues when it was empty.\<close>

lemma enq_deq_empty:
  assumes "rep s Q" and "ok q" and "\<forall>q. t \<notin> set (Q q)" and "Q q = []"
  shows "\<exists>s' s''. enq q t s = Inr s' \<and> deq q s' = Inr (Some t, s'') \<and> rep s'' Q"
proof -
  obtain s' where s': "enq q t s = Inr s'" "rep s' (Q(q := t # Q q))"
    using enq_rep [OF assms(1-3)] by blast
  obtain s'' where s'': "deq q s' = Inr (Some t, s'')" "rep s'' ((Q(q := t # Q q))(q := []))"
    using deq_rep [OF s'(2) assms(2), of "[]" t] assms(4) by auto
  have "(Q(q := t # Q q))(q := []) = Q" using assms(4) by auto
  with s'(1) s'' show ?thesis by auto
qed

text \<open>First in, first out: a thread that enters behind \<open>t\<close> does not leave before \<open>t\<close>.\<close>

lemma fifo_front:
  assumes "rep s Q" and "ok q" and "\<forall>q. u \<notin> set (Q q)" and "Q q = xs @ [t]"
  shows "\<exists>s' s''. enq q u s = Inr s' \<and> deq q s' = Inr (Some t, s'') \<and> rep s'' (Q(q := u # xs))"
proof -
  obtain s' where s': "enq q u s = Inr s'" "rep s' (Q(q := u # Q q))"
    using enq_rep [OF assms(1-3)] by blast
  obtain s'' where "deq q s' = Inr (Some t, s'')" "rep s'' ((Q(q := u # Q q))(q := u # xs))"
    using deq_rep [OF s'(2) assms(2), of "u # xs" t] assms(4) by auto
  with s'(1) show ?thesis by auto
qed

text \<open>A thread removed from the middle is in no queue afterwards.\<close>

lemma rem_free:
  assumes "rep s Q" and "ok q" and "t \<in> set (Q q)"
  shows "\<exists>s'. rem q t s = Inr s' \<and> rep s' (Q(q := remove1 t (Q q)))
           \<and> (\<forall>q'. t \<notin> set ((Q(q := remove1 t (Q q))) q'))"
  using rem_rep [OF assms] rep_unique [OF assms(1) assms(3)] rep_distinct [OF assms(1), of q]
  by fastforce

text \<open>Moving a thread from queue \<open>q\<close> to the front of queue \<open>q'\<close>.\<close>

lemma move_rep:
  assumes "rep s Q" and "ok q" and "ok q'" and "t \<in> set (Q q)"
  shows "\<exists>s' s''. rem q t s = Inr s' \<and> enq q' t s' = Inr s''
           \<and> rep s'' ((Q(q := remove1 t (Q q)))(q' := t # (Q(q := remove1 t (Q q))) q'))"
  using rem_free [OF assms(1,2,4)] enq_rep [OF _ assms(3)] by blast

end

interpretation tq: thread_queues utqueue_enqueue utqueue_dequeue utqueue_remove utqueue_empty
    "\<lambda>q. q \<noteq> ReapQ" qrep
  by unfold_locales
    (blast intro: utqueue_enqueue_rep utqueue_dequeue_rep utqueue_dequeue_empty
       utqueue_remove_rep utqueue_empty_rep qrepD(3,5))+

end
