(* ===== verification/Usched.thy ===== *)
theory Usched
  imports Uqueue
begin

text \<open>
  The thread table and the scheduler: \<open>uthreads_final/uthread.h\<close>, \<open>uthread_sched.c\<close>,
  \<open>uthread_mtx.c\<close> and \<open>uthread_cond.c\<close>.

  \<open>swapcontext\<close> suspends the caller in the middle of a C function.  A suspended thread is
  modelled by the C frames it still has to run (\<open>frame\<close>, innermost first), kept in its saved
  context \<open>ut_ctx\<close>; the empty list is application code.  A function that may suspend takes
  the frames \<open>k\<close> that are left to run when it returns, and leaves them in the context of the
  calling thread.  The library calls \<open>malloc\<close> and \<open>makecontext\<close> are taken to succeed.
\<close>

subsection \<open>State\<close>

definition UTH_MAXPRIO :: nat where "UTH_MAXPRIO = 7"
definition UTH_MAX_UTHREADS :: nat where "UTH_MAX_UTHREADS = 64"

definition ESRCH :: int where "ESRCH = 3"
definition EINVAL :: int where "EINVAL = 22"
definition EDEADLK :: int where "EDEADLK = 35"

lemmas uconst = UTH_MAXPRIO_def UTH_MAX_UTHREADS_def ESRCH_def EINVAL_def EDEADLK_def

datatype uthread_state = UT_NO_STATE | UT_ON_CPU | UT_RUNNABLE | UT_WAIT | UT_ZOMBIE

text \<open>The task of a thread: the reaper, an application function, or NULL (the first thread).\<close>

datatype uthread_func = Reaper | App | Null_func

datatype frame =
    In_block              \<comment> \<open>in \<open>uthread_block\<close>, after its first \<open>uthread_switch\<close>\<close>
  | In_join int           \<comment> \<open>in the loop of \<open>uthread_join(uid, ..)\<close>\<close>
  | In_cond_wait nat      \<comment> \<open>in \<open>uthread_cond_wait(.., mtx)\<close>, after \<open>uthread_block\<close>\<close>
  | In_reaper             \<comment> \<open>in the loop of \<open>reaper\<close>, after \<open>uthread_block\<close>\<close>
  | In_exit               \<comment> \<open>in \<open>uthread_exit\<close>, after \<open>uthread_switch\<close>\<close>
  | At_start uthread_func \<comment> \<open>about to enter \<open>thread_start(func, ..)\<close>\<close>
  | In_first int          \<comment> \<open>in \<open>create_first_thr\<close>, after \<open>uthread_getcontext\<close>\<close>

record uthread =
  ut_ctx :: "frame list"
  ut_ret :: int              \<comment> \<open>return value of the call the thread last made\<close>
  ut_out :: int              \<comment> \<open>\<open>*return_value\<close> of its last \<open>uthread_join\<close>\<close>
  ut_stack :: "nat option"
  ut_id :: int
  ut_state :: uthread_state
  ut_prio :: int
  ut_errno :: int
  ut_has_exited :: bool
  ut_exit :: int
  ut_detached :: bool
  ut_waiter :: "taddr option"

definition zero_uthread :: uthread where
  "zero_uthread = \<lparr>ut_ctx = [], ut_ret = 0, ut_out = 0, ut_stack = None, ut_id = 0,
     ut_state = UT_NO_STATE, ut_prio = 0, ut_errno = 0, ut_has_exited = False, ut_exit = 0,
     ut_detached = False, ut_waiter = None\<rparr>"

record usys =
  qh :: qheap                       \<comment> \<open>\<open>ut_link\<close> of every thread and all queues\<close>
  thr :: "taddr \<Rightarrow> uthread"         \<comment> \<open>\<open>uthreads[]\<close> and \<open>hack\<close>\<close>
  ut_curthr :: "taddr option"
  reaper_thr_id :: int
  m_owner :: "nat \<Rightarrow> taddr option"  \<comment> \<open>owner of every mutex\<close>
  stacks :: "nat set"               \<comment> \<open>stacks allocated on the heap\<close>
  next_stack :: nat

definition upd_thr :: "taddr \<Rightarrow> (uthread \<Rightarrow> uthread) \<Rightarrow> usys \<Rightarrow> usys" where
  "upd_thr t f s = s\<lparr>thr := (thr s)(t := f (thr s t))\<rparr>"

text \<open>\<open>errno\<close> is a macro for \<open>ut_curthr->ut_errno\<close>.\<close>

definition set_errno :: "int \<Rightarrow> usys \<Rightarrow> fault + usys" where
  "set_errno e s = deref (ut_curthr s) Null_pointer (\<lambda>c. Inr (upd_thr c (ut_errno_update (\<lambda>_. e)) s))"

definition valid_uid :: "int \<Rightarrow> bool" where
  "valid_uid uid \<longleftrightarrow> 0 \<le> uid \<and> uid < int UTH_MAX_UTHREADS"

definition on_qh :: "(qheap \<Rightarrow> fault + qheap) \<Rightarrow> usys \<Rightarrow> fault + usys" where
  "on_qh f s = bnd (f (qh s)) (\<lambda>h. Inr (s\<lparr>qh := h\<rparr>))"

subsection \<open>uthread_sched.c\<close>

definition uthread_setprio :: "int \<Rightarrow> int \<Rightarrow> usys \<Rightarrow> fault + (int \<times> usys)" where
  "uthread_setprio uid prio s =
     (if prio < 0 \<or> prio > int UTH_MAXPRIO then
        bnd (set_errno EINVAL s) (\<lambda>s. Inr (EINVAL, s))
      else if \<not> valid_uid uid \<or> ut_state (thr s (Thr (nat uid))) = UT_NO_STATE
           \<or> ut_state (thr s (Thr (nat uid))) = UT_ZOMBIE then
        bnd (set_errno ESRCH s) (\<lambda>s. Inr (ESRCH, s))
      else
        let t = Thr (nat uid) in
        if ut_state (thr s t) = UT_RUNNABLE then
          bnd (if l_prev (links (qh s) (TLink t)) \<noteq> None \<and> l_next (links (qh s) (TLink t)) \<noteq> None
               then on_qh (utqueue_remove (RunQ (nat (ut_prio (thr s t)))) t) s
               else Inr s) (\<lambda>s.
          let s = upd_thr t (ut_prio_update (\<lambda>_. prio)) s in
          bnd (on_qh (utqueue_enqueue (RunQ (nat prio)) t) s) (\<lambda>s.
          Inr (0, s)))
        else Inr (0, upd_thr t (ut_prio_update (\<lambda>_. prio)) s))"

text \<open>The \<open>for\<close> loop of \<open>uthread_switch\<close>: the highest priority with a non-empty run queue.\<close>

fun pick_runq :: "nat \<Rightarrow> usys \<Rightarrow> fault + nat option" where
  "pick_runq 0 s = bnd (utqueue_empty (RunQ 0) (qh s)) (\<lambda>e. Inr (if e then None else Some 0))"
| "pick_runq (Suc i) s =
     bnd (utqueue_empty (RunQ (Suc i)) (qh s)) (\<lambda>e.
       if e then pick_runq i s else Inr (Some (Suc i)))"

text \<open>When no thread is runnable the \<open>while (1)\<close> finds the same queues in every round, since
  nothing else runs in the process: the call never returns.\<close>

definition uthread_switch :: "frame list \<Rightarrow> usys \<Rightarrow> fault + usys" where
  "uthread_switch k s =
     bnd (pick_runq UTH_MAXPRIO s) (\<lambda>p.
     case p of None \<Rightarrow> Inl Never_returns
     | Some i \<Rightarrow>
       deref (ut_curthr s) Null_pointer (\<lambda>backup.
       bnd (utqueue_dequeue (RunQ i) (qh s)) (\<lambda>(n, h).
       deref n Null_pointer (\<lambda>new_thread.
       let s = s\<lparr>qh := h\<rparr> in
       check (ut_state (thr s new_thread) = UT_RUNNABLE) Assertion_failed (
       check (links h (TLink new_thread) = null_link) Assertion_failed (
       let s = s\<lparr>ut_curthr := Some new_thread\<rparr>;
           s = upd_thr new_thread (ut_state_update (\<lambda>_. UT_ON_CPU)) s
       in Inr (upd_thr backup (ut_ctx_update (\<lambda>_. k)) s)))))))"

text \<open>The result of \<open>uthread_setprio\<close> where the callers turn an error into
  \<open>exit(EXIT_FAILURE)\<close>.\<close>

definition setprio_or_exit :: "int \<Rightarrow> int \<Rightarrow> usys \<Rightarrow> fault + usys" where
  "setprio_or_exit uid prio s =
     bnd (uthread_setprio uid prio s) (\<lambda>(rv, s). check (rv = 0) (Exited 1) (Inr s))"

text \<open>\<open>ut_curthr - &uthreads[0]\<close> is an index of the table unless the thread is \<open>hack\<close>.\<close>

fun in_table :: "taddr \<Rightarrow> bool" where
  "in_table (Thr i) = (i < UTH_MAX_UTHREADS)"
| "in_table Hack = False"

definition uthread_yield :: "frame list \<Rightarrow> usys \<Rightarrow> fault + usys" where
  "uthread_yield k s =
     deref (ut_curthr s) Null_pointer (\<lambda>c.
     bnd (if in_table c \<and> ut_state (thr s c) = UT_ON_CPU then
            let s = upd_thr c (ut_state_update (\<lambda>_. UT_RUNNABLE)) s
            in setprio_or_exit (ut_id (thr s c)) (ut_prio (thr s c)) s
          else Inr s) (\<lambda>s.
     uthread_switch k s))"

text \<open>The part of \<open>uthread_block\<close> after its first \<open>if\<close>.\<close>

definition uthread_block_rest :: "frame list \<Rightarrow> usys \<Rightarrow> fault + usys" where
  "uthread_block_rest k s =
     deref (ut_curthr s) Null_pointer (\<lambda>c.
     if ut_state (thr s c) = UT_ON_CPU then
       uthread_switch k (upd_thr c (ut_state_update (\<lambda>_. UT_WAIT)) s)
     else if ut_state (thr s c) = UT_RUNNABLE then
       let s = upd_thr c (ut_state_update (\<lambda>_. UT_WAIT)) s in
       bnd (on_qh (utqueue_remove (RunQ (nat (ut_prio (thr s c)))) c) s) (\<lambda>s.
       Inr (upd_thr c (ut_ctx_update (\<lambda>_. k)) s))
     else Inr (upd_thr c (ut_ctx_update (\<lambda>_. k)) s))"

definition uthread_block :: "frame list \<Rightarrow> usys \<Rightarrow> fault + usys" where
  "uthread_block k s =
     deref (ut_curthr s) Null_pointer (\<lambda>c.
     if ut_state (thr s c) = UT_WAIT then uthread_switch (In_block # k) s
     else uthread_block_rest k s)"

definition uthread_wake :: "taddr option \<Rightarrow> usys \<Rightarrow> fault + usys" where
  "uthread_wake uthr s =
     deref uthr Assertion_failed (\<lambda>u.
     check (ut_state (thr s u) \<noteq> UT_NO_STATE) Assertion_failed (
     if ut_state (thr s u) = UT_WAIT then
       let s = upd_thr u (ut_state_update (\<lambda>_. UT_RUNNABLE)) s
       in setprio_or_exit (ut_id (thr s u)) (ut_prio (thr s u)) s
     else Inr s))"

fun init_runqs :: "nat \<Rightarrow> qheap \<Rightarrow> qheap" where
  "init_runqs 0 h = h"
| "init_runqs (Suc n) h = utqueue_init (RunQ n) (init_runqs n h)"

definition uthread_sched_init :: "usys \<Rightarrow> usys" where
  "uthread_sched_init s = s\<lparr>qh := init_runqs (UTH_MAXPRIO + 1) (qh s)\<rparr>"

subsection \<open>uthread_mtx.c\<close>

text \<open>A call that returns at once hands its value to the caller and leaves the frames \<open>k\<close>.\<close>

definition ret :: "int \<Rightarrow> frame list \<Rightarrow> usys \<Rightarrow> fault + usys" where
  "ret v k s = deref (ut_curthr s) Null_pointer (\<lambda>c.
     Inr (upd_thr c (\<lambda>u. u\<lparr>ut_ctx := k, ut_ret := v\<rparr>) s))"

definition uthread_mtx_init :: "nat \<Rightarrow> usys \<Rightarrow> usys" where
  "uthread_mtx_init m s =
     s\<lparr>m_owner := (m_owner s)(m := None), qh := utqueue_init (MtxQ m) (qh s)\<rparr>"

definition uthread_mtx_lock :: "nat \<Rightarrow> frame list \<Rightarrow> usys \<Rightarrow> fault + usys" where
  "uthread_mtx_lock m k s =
     (case m_owner s m of
        None \<Rightarrow> ret 0 k (s\<lparr>m_owner := (m_owner s)(m := ut_curthr s)\<rparr>)
      | Some _ \<Rightarrow>
          bnd (if ut_curthr s \<noteq> m_owner s m
               then deref (ut_curthr s) Null_pointer (\<lambda>c. on_qh (utqueue_enqueue (MtxQ m) c) s)
               else Inr s) (\<lambda>s.
          uthread_block k s))"

definition uthread_mtx_trylock :: "nat \<Rightarrow> frame list \<Rightarrow> usys \<Rightarrow> fault + usys" where
  "uthread_mtx_trylock m k s =
     (if m_owner s m = None then ret 1 k (s\<lparr>m_owner := (m_owner s)(m := ut_curthr s)\<rparr>)
      else ret 0 k s)"

definition mtx_release :: "nat \<Rightarrow> usys \<Rightarrow> fault + usys" where
  "mtx_release m s =
     check (m_owner s m = ut_curthr s) Assertion_failed (
     bnd (utqueue_empty (MtxQ m) (qh s)) (\<lambda>e.
     if e then Inr (s\<lparr>m_owner := (m_owner s)(m := None)\<rparr>)
     else
       bnd (utqueue_dequeue (MtxQ m) (qh s)) (\<lambda>(next, h).
       uthread_wake next (s\<lparr>qh := h, m_owner := (m_owner s)(m := next)\<rparr>))))"

definition uthread_mtx_unlock :: "nat \<Rightarrow> frame list \<Rightarrow> usys \<Rightarrow> fault + usys" where
  "uthread_mtx_unlock m k s = bnd (mtx_release m s) (ret 0 k)"

subsection \<open>uthread_cond.c\<close>

definition uthread_cond_init :: "nat \<Rightarrow> usys \<Rightarrow> usys" where
  "uthread_cond_init c s = s\<lparr>qh := utqueue_init (CondQ c) (qh s)\<rparr>"

definition uthread_cond_wait :: "nat \<Rightarrow> nat \<Rightarrow> frame list \<Rightarrow> usys \<Rightarrow> fault + usys" where
  "uthread_cond_wait c m k s =
     check (m_owner s m = ut_curthr s) Assertion_failed (
     deref (ut_curthr s) Null_pointer (\<lambda>t.
     bnd (on_qh (utqueue_enqueue (CondQ c) t) s) (\<lambda>s.
     bnd (mtx_release m s) (\<lambda>s.
     uthread_block (In_cond_wait m # k) s))))"

text \<open>The loop wakes one waiter per round; \<open>cond_drain\<close> spends one unit of fuel per round.\<close>

fun cond_drain :: "nat \<Rightarrow> nat \<Rightarrow> usys \<Rightarrow> fault + usys" where
  "cond_drain 0 c s = Inl Never_returns"
| "cond_drain (Suc fuel) c s =
     bnd (utqueue_empty (CondQ c) (qh s)) (\<lambda>e.
     if e then Inr s
     else
       bnd (utqueue_dequeue (CondQ c) (qh s)) (\<lambda>(w, h).
       bnd (uthread_wake w (s\<lparr>qh := h\<rparr>)) (\<lambda>s.
       cond_drain fuel c s)))"

definition uthread_cond_broadcast :: "nat \<Rightarrow> frame list \<Rightarrow> usys \<Rightarrow> fault + usys" where
  "uthread_cond_broadcast c k s = bnd (cond_drain (UTH_MAX_UTHREADS + 2) c s) (ret 0 k)"

definition uthread_cond_signal :: "nat \<Rightarrow> frame list \<Rightarrow> usys \<Rightarrow> fault + usys" where
  "uthread_cond_signal c k s =
     bnd (bnd (utqueue_empty (CondQ c) (qh s)) (\<lambda>e.
          if \<not> e then
            bnd (utqueue_dequeue (CondQ c) (qh s)) (\<lambda>(w, h). uthread_wake w (s\<lparr>qh := h\<rparr>))
          else Inr s)) (ret 0 k)"

end
