(* ===== verification/Uthread.thy ===== *)
theory Uthread
  imports Usched
begin

text \<open>
  Thread creation, termination, join, detach and the reaper: \<open>uthreads_final/uthread.c\<close>, and
  the machine that runs the threads: the current thread either goes on with the C frames it
  was suspended in or, in application code, makes one call of the library.
\<close>

subsection \<open>uthread.c\<close>

fun find_no_state :: "nat \<Rightarrow> nat \<Rightarrow> usys \<Rightarrow> int" where
  "find_no_state 0 i s = -1"
| "find_no_state (Suc n) i s =
     (if ut_state (thr s (Thr i)) = UT_NO_STATE then int i else find_no_state n (Suc i) s)"

definition uthread_alloc :: "usys \<Rightarrow> int" where
  "uthread_alloc s = find_no_state UTH_MAX_UTHREADS 0 s"

definition alloc_stack :: "usys \<Rightarrow> nat \<times> usys" where
  "alloc_stack s = (next_stack s,
     s\<lparr>stacks := insert (next_stack s) (stacks s), next_stack := Suc (next_stack s)\<rparr>)"

text \<open>\<open>free(NULL)\<close> does nothing.\<close>

definition free_stack :: "nat option \<Rightarrow> usys \<Rightarrow> usys" where
  "free_stack p s = (case p of None \<Rightarrow> s | Some n \<Rightarrow> s\<lparr>stacks := stacks s - {n}\<rparr>)"

text \<open>\<open>memset(uth, 0, sizeof(uthread_t))\<close> clears the link of the thread as well.\<close>

definition clear_thread :: "taddr \<Rightarrow> usys \<Rightarrow> usys" where
  "clear_thread t s = s\<lparr>thr := (thr s)(t := zero_uthread),
     qh := (qh s)\<lparr>links := (links (qh s))(TLink t := null_link)\<rparr>\<rparr>"

definition uthread_create :: "uthread_func \<Rightarrow> int \<Rightarrow> usys \<Rightarrow> fault + (int \<times> int \<times> usys)" where
  "uthread_create func prio s =
     (let rv = uthread_alloc s in
      if rv = -1 then Inr (-1, -1, s)
      else
        let t = Thr (nat rv);
            s = clear_thread t s;
            s = upd_thr t (\<lambda>u. u\<lparr>ut_id := rv, ut_state := UT_RUNNABLE\<rparr>) s
        in bnd (setprio_or_exit rv prio s) (\<lambda>s.
           let (stk, s) = alloc_stack s
           in Inr (0, rv, upd_thr t (ut_ctx_update (\<lambda>_. [At_start func])) s)))"

definition make_reapable :: "taddr \<Rightarrow> usys \<Rightarrow> fault + usys" where
  "make_reapable uth s =
     check (ut_detached (thr s uth)) Assertion_failed (
     check (ut_state (thr s uth) = UT_ZOMBIE) Assertion_failed (
     bnd (list_insert_tail (Head ReapQ) (TLink uth) (links (qh s))) (\<lambda>h.
     uthread_wake (Some (Thr (nat (reaper_thr_id s)))) (s\<lparr>qh := (qh s)\<lparr>links := h\<rparr>\<rparr>))))"

definition uthread_exit :: "int \<Rightarrow> usys \<Rightarrow> fault + usys" where
  "uthread_exit status s =
     deref (ut_curthr s) Assertion_failed (\<lambda>c.
     check (ut_state (thr s c) = UT_ON_CPU) Assertion_failed (
     let s = upd_thr c (\<lambda>u. u\<lparr>ut_state := UT_ZOMBIE, ut_exit := status, ut_has_exited := True\<rparr>) s in
     bnd (if ut_detached (thr s c) then make_reapable c s
          else if ut_waiter (thr s c) \<noteq> None then uthread_wake (ut_waiter (thr s c)) s
          else Inr s) (\<lambda>s.
     uthread_switch [In_exit] s)))"

text \<open>The loop of \<open>uthread_join\<close> and what follows it; also where a woken joiner goes on.\<close>

definition join_loop :: "int \<Rightarrow> frame list \<Rightarrow> usys \<Rightarrow> fault + usys" where
  "join_loop uid k s =
     (let t = Thr (nat uid) in
      if \<not> ut_has_exited (thr s t) then uthread_block (In_join uid # k) s
      else
        deref (ut_curthr s) Null_pointer (\<lambda>c.
        let s = upd_thr c (ut_out_update (\<lambda>_. ut_exit (thr s t))) s;
            s = upd_thr t (ut_detached_update (\<lambda>_. True)) s
        in bnd (make_reapable t s) (ret 0 k)))"

definition uthread_join :: "int \<Rightarrow> frame list \<Rightarrow> usys \<Rightarrow> fault + usys" where
  "uthread_join uid k s =
     deref (ut_curthr s) Assertion_failed (\<lambda>c.
     check (ut_state (thr s c) = UT_ON_CPU) Assertion_failed (
     if \<not> valid_uid uid \<or> ut_state (thr s (Thr (nat uid))) = UT_NO_STATE then
       bnd (set_errno ESRCH s) (ret ESRCH k)
     else if ut_waiter (thr s c) = Some (Thr (nat uid)) then
       bnd (set_errno EDEADLK s) (ret EDEADLK k)
     else if ut_waiter (thr s c) \<noteq> None \<or> ut_detached (thr s (Thr (nat uid))) then
       bnd (set_errno EINVAL s) (ret EINVAL k)
     else join_loop uid k (upd_thr (Thr (nat uid)) (ut_waiter_update (\<lambda>_. Some c)) s)))"

text \<open>The body of \<open>uthread_detach\<close>; \<open>create_first_thr\<close> calls it too.\<close>

definition detach :: "int \<Rightarrow> usys \<Rightarrow> fault + (int \<times> usys)" where
  "detach uid s =
     (if \<not> valid_uid uid \<or> ut_state (thr s (Thr (nat uid))) = UT_NO_STATE then
        bnd (set_errno ESRCH s) (\<lambda>s. Inr (ESRCH, s))
      else
        deref (ut_curthr s) Null_pointer (\<lambda>c.
        let t = Thr (nat uid) in
        if ut_detached (thr s t) \<or> ut_waiter (thr s c) \<noteq> None then
          bnd (set_errno EINVAL s) (\<lambda>s. Inr (EINVAL, s))
        else if ut_state (thr s t) = UT_ZOMBIE then
          bnd (make_reapable t s) (\<lambda>s. Inr (0, s))
        else Inr (0, upd_thr t (ut_detached_update (\<lambda>_. True)) s)))"

definition uthread_detach :: "int \<Rightarrow> frame list \<Rightarrow> usys \<Rightarrow> fault + usys" where
  "uthread_detach uid k s = bnd (detach uid s) (\<lambda>(rv, s). ret rv k s)"

definition uthread_self :: "usys \<Rightarrow> fault + int" where
  "uthread_self s = deref (ut_curthr s) Assertion_failed (\<lambda>c. Inr (ut_id (thr s c)))"

definition uthread_destroy :: "taddr \<Rightarrow> usys \<Rightarrow> usys" where
  "uthread_destroy uth s = clear_thread uth (free_stack (ut_stack (thr s uth)) s)"

text \<open>The iteration of the reaper over the dead threads.  The macro reads the successor of a
  node before the body unlinks it; \<open>fuel\<close> bounds the rounds.\<close>

fun reap_iter :: "nat \<Rightarrow> laddr option \<Rightarrow> usys \<Rightarrow> fault + usys" where
  "reap_iter 0 lnk s = Inl Never_returns"
| "reap_iter (Suc fuel) lnk s =
     deref lnk Null_pointer (\<lambda>l.
     if l = Head ReapQ then Inr s
     else
       bnd (link_thread l) (\<lambda>thread.
       let nxt = l_next (links (qh s) l) in
       check (ut_state (thr s thread) = UT_ZOMBIE) Assertion_failed (
       bnd (list_remove l (links (qh s))) (\<lambda>h.
       reap_iter fuel nxt (uthread_destroy thread (s\<lparr>qh := (qh s)\<lparr>links := h\<rparr>\<rparr>))))))"

text \<open>One round of the reaper's loop after it was woken.\<close>

definition reaper_round :: "frame list \<Rightarrow> usys \<Rightarrow> fault + usys" where
  "reaper_round k s =
     bnd (reap_iter (UTH_MAX_UTHREADS + 2) (l_next (links (qh s) (Head ReapQ))) s) (\<lambda>s.
     if \<forall>th < UTH_MAX_UTHREADS. int th = reaper_thr_id s \<or> ut_state (thr s (Thr th)) = UT_NO_STATE
     then Inl (Exited 0)
     else uthread_block (In_reaper # k) s)"

subsection \<open>Start-up\<close>

text \<open>The end of \<open>create_first_thr\<close>, from \<open>uthread_getcontext\<close> on: run once by the boot code,
  and again when the first thread is switched to.\<close>

definition first_thr_rest :: "int \<Rightarrow> frame list \<Rightarrow> usys \<Rightarrow> fault + usys" where
  "first_thr_rest main_thr k s =
     (if ut_curthr s = Some Hack then uthread_switch k s
      else bnd (uthread_self s) (\<lambda>i. check (i = main_thr) Assertion_failed (ret 0 k s)))"

text \<open>Memory before \<open>uthread_init\<close>: zeroed globals, every mutex and condition variable of the
  application already through \<open>uthread_mtx_init\<close> or \<open>uthread_cond_init\<close>.  \<open>RunQ p\<close> with
  \<open>p\<close> beyond the highest priority names no object of the program; it stands for an empty queue.\<close>

definition boot_links :: "laddr \<Rightarrow> laddr link" where
  "boot_links a = (case a of
       Head (MtxQ m) \<Rightarrow> \<lparr>l_next = Some a, l_prev = Some a\<rparr>
     | Head (CondQ c) \<Rightarrow> \<lparr>l_next = Some a, l_prev = Some a\<rparr>
     | Head (RunQ p) \<Rightarrow> if p \<le> UTH_MAXPRIO then null_link else \<lparr>l_next = Some a, l_prev = Some a\<rparr>
     | _ \<Rightarrow> null_link)"

definition boot_state :: usys where
  "boot_state = \<lparr>qh = \<lparr>links = boot_links, tq_size = (\<lambda>_. 0)\<rparr>, thr = (\<lambda>_. zero_uthread),
     ut_curthr = None, reaper_thr_id = 0, m_owner = (\<lambda>_. None), stacks = {}, next_stack = 0\<rparr>"

definition reaper_init :: "usys \<Rightarrow> fault + usys" where
  "reaper_init s =
     (let s = s\<lparr>qh := (qh s)\<lparr>links := list_init (Head ReapQ) (links (qh s))\<rparr>\<rparr> in
      bnd (uthread_create Reaper (int UTH_MAXPRIO) s) (\<lambda>(rv, uid, s).
      let s = (if rv = 0 then s\<lparr>reaper_thr_id := uid\<rparr> else s)
      in check (reaper_thr_id s \<noteq> -1) Assertion_failed (Inr s)))"

definition create_first_thr :: "usys \<Rightarrow> fault + usys" where
  "create_first_thr s =
     (let s = s\<lparr>thr := (thr s)(Hack := zero_uthread),
                qh := (qh s)\<lparr>links := (links (qh s))(TLink Hack := null_link)\<rparr>,
                ut_curthr := Some Hack\<rparr>;
          s = upd_thr Hack (ut_state_update (\<lambda>_. UT_ON_CPU)) s
      in bnd (uthread_create Null_func (int UTH_MAXPRIO) s) (\<lambda>(rv, main_thr, s).
         check (main_thr \<noteq> -1) Assertion_failed (
         bnd (detach main_thr s) (\<lambda>(_, s).
         let s = upd_thr (Thr (nat main_thr)) (ut_ctx_update (\<lambda>_. [In_first main_thr])) s
         in first_thr_rest main_thr [] s))))"

definition uthread_init :: "usys \<Rightarrow> fault + usys" where
  "uthread_init s = bnd (reaper_init (uthread_sched_init s)) create_first_thr"

subsection \<open>Running\<close>

datatype ucall =
    Create int
  | Exit int
  | Join int
  | Detach int
  | Yield
  | Set_prio int int
  | Mtx_lock nat
  | Mtx_trylock nat
  | Mtx_unlock nat
  | Cond_wait nat nat
  | Cond_signal nat
  | Cond_broadcast nat

fun exec_call :: "ucall \<Rightarrow> usys \<Rightarrow> fault + usys" where
  "exec_call (Create prio) s = bnd (uthread_create App prio s) (\<lambda>(rv, uid, s). ret rv [] s)"
| "exec_call (Exit st) s = uthread_exit st s"
| "exec_call (Join uid) s = uthread_join uid [] s"
| "exec_call (Detach uid) s = uthread_detach uid [] s"
| "exec_call Yield s = uthread_yield [] s"
| "exec_call (Set_prio uid prio) s = bnd (uthread_setprio uid prio s) (\<lambda>(rv, s). ret rv [] s)"
| "exec_call (Mtx_lock m) s = uthread_mtx_lock m [] s"
| "exec_call (Mtx_trylock m) s = uthread_mtx_trylock m [] s"
| "exec_call (Mtx_unlock m) s = uthread_mtx_unlock m [] s"
| "exec_call (Cond_wait c m) s = uthread_cond_wait c m [] s"
| "exec_call (Cond_signal c) s = uthread_cond_signal c [] s"
| "exec_call (Cond_broadcast c) s = uthread_cond_broadcast c [] s"

fun run_frame :: "frame \<Rightarrow> frame list \<Rightarrow> usys \<Rightarrow> fault + usys" where
  "run_frame In_block k s = uthread_block_rest k s"
| "run_frame (In_join uid) k s = join_loop uid k s"
| "run_frame (In_cond_wait m) k s = uthread_mtx_lock m k s"
| "run_frame In_reaper k s = reaper_round k s"
| "run_frame In_exit k s = Inl Panicked"
| "run_frame (At_start Reaper) k s = uthread_block (In_reaper # k) s"
| "run_frame (At_start App) k s = ret 0 k s"
| "run_frame (At_start Null_func) k s = Inl Assertion_failed"
| "run_frame (In_first main_thr) k s = first_thr_rest main_thr k s"

text \<open>One step of the current thread: \<open>c\<close> is the call application code makes next.\<close>

definition ustep :: "ucall \<Rightarrow> usys \<Rightarrow> fault + usys" where
  "ustep c s =
     deref (ut_curthr s) Null_pointer (\<lambda>t.
     case ut_ctx (thr s t) of
       [] \<Rightarrow> exec_call c s
     | f # k \<Rightarrow> run_frame f k s)"

fun urun :: "ucall list \<Rightarrow> usys \<Rightarrow> fault + usys" where
  "urun [] s = Inr s"
| "urun (c # cs) s = bnd (ustep c s) (urun cs)"

end
