(* ===== verification/Uinv.thy ===== *)
theory Uinv
  imports Uthread
begin

text \<open>
  The system invariant of the thread library and its preservation by every step.  \<open>base E s Q\<close>
  collects what holds of the queues \<open>Q\<close> the links stand for and of the thread table whenever a
  library function runs, also while the current thread is between two states (\<open>E\<close> holds the
  threads that have entered a wait queue but are not yet marked as waiting, or have left the
  loop of a join but not the function); \<open>uinv\<close> adds that
  exactly one thread of the table is on the processor, the current one.
\<close>

subsection \<open>The parts\<close>

definition alive :: "usys \<Rightarrow> taddr \<Rightarrow> bool" where
  "alive s t \<longleftrightarrow> in_table t \<and> ut_state (thr s t) \<noteq> UT_NO_STATE"

definition can_run :: "usys \<Rightarrow> taddr \<Rightarrow> bool" where
  "can_run s t \<longleftrightarrow> alive s t \<and> ut_state (thr s t) \<noteq> UT_ZOMBIE"

definition free_in :: "(qid \<Rightarrow> taddr list) \<Rightarrow> taddr \<Rightarrow> bool" where
  "free_in Q t \<longleftrightarrow> (\<forall>q. t \<notin> set (Q q))"

definition thread_ok :: "taddr \<Rightarrow> uthread \<Rightarrow> bool" where
  "thread_ok t u \<longleftrightarrow>
     t = Thr (nat (ut_id u)) \<and> 0 \<le> ut_id u \<and> 0 \<le> ut_prio u \<and> ut_prio u \<le> int UTH_MAXPRIO
     \<and> (ut_has_exited u \<longleftrightarrow> ut_state u = UT_ZOMBIE)"

definition threads_ok :: "usys \<Rightarrow> bool" where
  "threads_ok s \<longleftrightarrow> (\<forall>t. alive s t \<longrightarrow> thread_ok t (thr s t))"

fun member_ok :: "taddr set \<Rightarrow> taddr \<Rightarrow> uthread \<Rightarrow> qid \<Rightarrow> bool" where
  "member_ok E t u (RunQ p) \<longleftrightarrow> ut_state u = UT_RUNNABLE \<and> ut_prio u = int p"
| "member_ok E t u ReapQ \<longleftrightarrow> ut_state u = UT_ZOMBIE \<and> ut_detached u"
| "member_ok E t u (MtxQ m) \<longleftrightarrow> ut_state u = UT_WAIT"
| "member_ok E t u (CondQ c) \<longleftrightarrow> ut_state u = UT_WAIT \<or> t \<in> E"

definition queues_ok :: "taddr set \<Rightarrow> usys \<Rightarrow> (qid \<Rightarrow> taddr list) \<Rightarrow> bool" where
  "queues_ok E s Q \<longleftrightarrow>
     (\<forall>t q. t \<in> set (Q q) \<longrightarrow> in_table t \<and> member_ok E t (thr s t) q)
     \<and> (\<forall>t. in_table t \<longrightarrow> ut_state (thr s t) = UT_RUNNABLE \<longrightarrow>
           t \<in> set (Q (RunQ (nat (ut_prio (thr s t))))))"

definition mtx_ok :: "usys \<Rightarrow> (qid \<Rightarrow> taddr list) \<Rightarrow> bool" where
  "mtx_ok s Q \<longleftrightarrow> (\<forall>m. Q (MtxQ m) \<noteq> [] \<longrightarrow> m_owner s m \<noteq> None)"

text \<open>A thread that has not exited and is waited for is waited for by a blocked joiner, and a
  joiner is the recorded, undisturbed waiter of its target.\<close>

definition joins_ok :: "taddr set \<Rightarrow> usys \<Rightarrow> (qid \<Rightarrow> taddr list) \<Rightarrow> bool" where
  "joins_ok E s Q \<longleftrightarrow>
     (\<forall>t w. alive s t \<longrightarrow> ut_waiter (thr s t) = Some w \<longrightarrow> \<not> ut_has_exited (thr s t) \<longrightarrow>
        in_table w \<and> ut_state (thr s w) = UT_WAIT \<and> free_in Q w
        \<and> ut_ctx (thr s w) = [In_join (ut_id (thr s t))])
     \<and> (\<forall>w uid. can_run s w \<longrightarrow> w \<notin> E \<longrightarrow> ut_ctx (thr s w) = [In_join uid] \<longrightarrow>
        valid_uid uid \<and> alive s (Thr (nat uid))
        \<and> ut_waiter (thr s (Thr (nat uid))) = Some w \<and> \<not> ut_detached (thr s (Thr (nat uid))))"

definition reaper_ok :: "usys \<Rightarrow> (qid \<Rightarrow> taddr list) \<Rightarrow> bool" where
  "reaper_ok s Q \<longleftrightarrow> valid_uid (reaper_thr_id s)
     \<and> (let r = Thr (nat (reaper_thr_id s)) in
        can_run s r \<and> (\<forall>n. r \<notin> set (Q (MtxQ n)) \<and> r \<notin> set (Q (CondQ n)))
        \<and> (ut_ctx (thr s r) = [At_start Reaper] \<or> ut_ctx (thr s r) = [In_reaper]))"

fun frames_ok1 :: "int \<Rightarrow> frame list \<Rightarrow> bool" where
  "frames_ok1 i [] \<longleftrightarrow> True"
| "frames_ok1 i [In_join _] \<longleftrightarrow> True"
| "frames_ok1 i [In_cond_wait _] \<longleftrightarrow> True"
| "frames_ok1 i [In_reaper] \<longleftrightarrow> True"
| "frames_ok1 i [At_start f] \<longleftrightarrow> f \<noteq> Null_func"
| "frames_ok1 i [In_first j] \<longleftrightarrow> j = i"
| "frames_ok1 i _ \<longleftrightarrow> False"

definition frames_ok :: "usys \<Rightarrow> bool" where
  "frames_ok s \<longleftrightarrow> (\<forall>t. can_run s t \<longrightarrow> frames_ok1 (ut_id (thr s t)) (ut_ctx (thr s t)))"

definition base :: "taddr set \<Rightarrow> usys \<Rightarrow> (qid \<Rightarrow> taddr list) \<Rightarrow> bool" where
  "base E s Q \<longleftrightarrow> qrep (qh s) Q \<and> queues_ok E s Q \<and> threads_ok s \<and> mtx_ok s Q
     \<and> joins_ok E s Q \<and> reaper_ok s Q \<and> frames_ok s"

definition idle_cpu :: "usys \<Rightarrow> bool" where
  "idle_cpu s \<longleftrightarrow> (\<forall>t. in_table t \<longrightarrow> ut_state (thr s t) \<noteq> UT_ON_CPU)"

definition cur_ok :: "usys \<Rightarrow> bool" where
  "cur_ok s \<longleftrightarrow> (\<exists>c. ut_curthr s = Some c \<and> in_table c \<and> ut_state (thr s c) = UT_ON_CPU
     \<and> (\<forall>t. in_table t \<longrightarrow> ut_state (thr s t) = UT_ON_CPU \<longrightarrow> t = c))"

definition uinv :: "usys \<Rightarrow> bool" where
  "uinv s \<longleftrightarrow> (\<exists>Q. base {} s Q) \<and> cur_ok s"

text \<open>The ways a step may legitimately stop the program.\<close>

definition safe :: "fault + usys \<Rightarrow> bool" where
  "safe r \<longleftrightarrow> (case r of Inr s \<Rightarrow> uinv s
     | Inl f \<Rightarrow> f \<noteq> Assertion_failed \<and> f \<noteq> Null_pointer \<and> f \<noteq> Panicked)"

lemma safe_simps [simp]:
  "safe (Inr s) = uinv s" "safe (Inl Never_returns)" "safe (Inl (Exited n))"
  by (simp_all add: safe_def)

subsection \<open>Reading the state\<close>

lemma upd_thr_simps [simp]:
  "thr (upd_thr t f s) = (thr s)(t := f (thr s t))"
  "qh (upd_thr t f s) = qh s"
  "ut_curthr (upd_thr t f s) = ut_curthr s"
  "reaper_thr_id (upd_thr t f s) = reaper_thr_id s"
  "m_owner (upd_thr t f s) = m_owner s"
  "stacks (upd_thr t f s) = stacks s"
  "next_stack (upd_thr t f s) = next_stack s"
  by (simp_all add: upd_thr_def)

lemma upd_thr_qh [simp]: "upd_thr t f s\<lparr>qh := h\<rparr> = upd_thr t f (s\<lparr>qh := h\<rparr>)"
  by (simp add: upd_thr_def)

lemma upd_thr_upd_thr [simp]: "upd_thr t f (upd_thr t g s) = upd_thr t (\<lambda>u. f (g u)) s"
  by (simp add: upd_thr_def)

lemma upd_thr_more [simp]:
  "upd_thr t f s\<lparr>ut_curthr := c\<rparr> = upd_thr t f (s\<lparr>ut_curthr := c\<rparr>)"
  "upd_thr t f s\<lparr>m_owner := o'\<rparr> = upd_thr t f (s\<lparr>m_owner := o'\<rparr>)"
  by (simp_all add: upd_thr_def)

lemma upd_thr_commute:
  assumes "\<And>u. f (g u) = g (f u)"
  shows "upd_thr c f (upd_thr t g s) = upd_thr t g (upd_thr c f s)"
  using assms by (cases "c = t") (simp_all add: upd_thr_def fun_upd_twist)

lemma in_table_Thr: "in_table t \<Longrightarrow> \<exists>i. t = Thr i \<and> i < UTH_MAX_UTHREADS"
  by (cases t) auto

lemma thread_okD:
  assumes "threads_ok s" and "alive s t"
  shows "0 \<le> ut_id (thr s t)" "t = Thr (nat (ut_id (thr s t)))" "valid_uid (ut_id (thr s t))"
    "0 \<le> ut_prio (thr s t)" "ut_prio (thr s t) \<le> int UTH_MAXPRIO"
    "ut_has_exited (thr s t) = (ut_state (thr s t) = UT_ZOMBIE)"
proof -
  have ok: "thread_ok t (thr s t)" using assms by (simp add: threads_ok_def)
  then show "0 \<le> ut_id (thr s t)" "t = Thr (nat (ut_id (thr s t)))"
    "0 \<le> ut_prio (thr s t)" "ut_prio (thr s t) \<le> int UTH_MAXPRIO"
    "ut_has_exited (thr s t) = (ut_state (thr s t) = UT_ZOMBIE)"
    by (simp_all add: thread_ok_def)
  have "in_table (Thr (nat (ut_id (thr s t))))"
    using ok assms(2) unfolding thread_ok_def alive_def by metis
  then show "valid_uid (ut_id (thr s t))" using ok by (simp add: valid_uid_def thread_ok_def)
qed

lemma queues_okD:
  assumes "queues_ok E s Q"
  shows "t \<in> set (Q q) \<Longrightarrow> in_table t"
    and "t \<in> set (Q q) \<Longrightarrow> member_ok E t (thr s t) q"
    and "in_table t \<Longrightarrow> ut_state (thr s t) = UT_RUNNABLE \<Longrightarrow>
      t \<in> set (Q (RunQ (nat (ut_prio (thr s t)))))"
  using assms by (simp_all add: queues_ok_def)

text \<open>A thread that is on the processor, waits for a joined thread or has no state is in no
  queue; this is what lets it enter one.\<close>

lemma on_cpu_free:
  assumes "queues_ok {} s Q" and "ut_state (thr s t) = UT_ON_CPU"
  shows "free_in Q t"
  unfolding free_in_def
proof
  fix q show "t \<notin> set (Q q)"
    using queues_okD(2) [OF assms(1), of t q] assms(2) by (cases q) auto
qed

lemma no_state_free:
  assumes "queues_ok {} s Q" and "ut_state (thr s t) = UT_NO_STATE"
  shows "free_in Q t"
  unfolding free_in_def
proof
  fix q show "t \<notin> set (Q q)"
    using queues_okD(2) [OF assms(1), of t q] assms(2) by (cases q) auto
qed

lemma zombie_free:
  assumes "queues_ok E s Q" and "ut_state (thr s t) = UT_ZOMBIE" and "\<not> ut_detached (thr s t)"
    and "t \<notin> E"
  shows "free_in Q t"
  unfolding free_in_def
proof
  fix q show "t \<notin> set (Q q)"
    using queues_okD(2) [OF assms(1), of t q] assms(2-4) by (cases q) auto
qed

lemma reaper_wait_free:
  assumes "reaper_ok s Q" and "queues_ok E s Q" and "r = Thr (nat (reaper_thr_id s))"
    and "ut_state (thr s r) = UT_WAIT"
  shows "free_in Q r"
  unfolding free_in_def
proof
  fix q show "r \<notin> set (Q q)"
    using queues_okD(2) [OF assms(2), of r q] assms(1,3,4)
    by (cases q) (auto simp: reaper_ok_def Let_def)
qed

lemma deq_leaves_free:
  assumes "qrep h Q" and "Q q = xs @ [t]"
  shows "free_in (Q(q := xs)) t"
proof -
  have t: "t \<in> set (Q q)" using assms(2) by simp
  have "t \<notin> set xs" using qrepD(5) [OF assms(1), of q] assms(2) by simp
  moreover have "t \<notin> set (Q q')" if "q' \<noteq> q" for q'
    using qrepD(3) [OF assms(1) t, of q'] that by blast
  ultimately show ?thesis by (simp add: free_in_def)
qed

subsection \<open>Priorities and waking\<close>

text \<open>\<open>uthread_setprio\<close> on a thread that was just made runnable puts it on its run queue.\<close>

lemma setprio_enqueue:
  assumes R: "qrep (qh s) Q" and free: "free_in Q t" and t: "t = Thr (nat uid)"
    and uid: "valid_uid uid" and prio: "0 \<le> prio" "prio \<le> int UTH_MAXPRIO"
    and st: "ut_state (thr s t) = UT_RUNNABLE"
  shows "\<exists>h. uthread_setprio uid prio s
              = Inr (0, upd_thr t (ut_prio_update (\<lambda>_. prio)) (s\<lparr>qh := h\<rparr>))
           \<and> qrep h (Q(RunQ (nat prio) := t # Q (RunQ (nat prio))))"
proof -
  have "links (qh s) (TLink t) = null_link"
    using qrepD(4) [OF R] free by (simp add: free_in_def)
  moreover obtain h where "utqueue_enqueue (RunQ (nat prio)) t (qh s) = Inr h"
      "qrep h (Q(RunQ (nat prio) := t # Q (RunQ (nat prio))))"
    using tq.enq_rep [OF R, of "RunQ (nat prio)" t] free by (auto simp: free_in_def)
  ultimately show ?thesis
    using uid prio st t
    by (intro exI [of _ h]) (simp add: uthread_setprio_def null_link_def on_qh_def Let_def)
qed

lemma wake_waiting:
  assumes R: "qrep (qh s) Q" and free: "free_in Q t" and ok: "threads_ok s" "alive s t"
    and st: "ut_state (thr s t) = UT_WAIT"
  defines "p \<equiv> nat (ut_prio (thr s t))"
  shows "\<exists>h. uthread_wake (Some t) s
              = Inr (upd_thr t (ut_state_update (\<lambda>_. UT_RUNNABLE)) (s\<lparr>qh := h\<rparr>))
           \<and> qrep h (Q(RunQ p := t # Q (RunQ p)))"
proof -
  let ?s = "upd_thr t (ut_state_update (\<lambda>_. UT_RUNNABLE)) s"
  note d = thread_okD [OF ok]
  obtain h where h: "uthread_setprio (ut_id (thr s t)) (ut_prio (thr s t)) ?s
        = Inr (0, upd_thr t (ut_prio_update (\<lambda>_. ut_prio (thr s t))) (?s\<lparr>qh := h\<rparr>))"
      "qrep h (Q(RunQ p := t # Q (RunQ p)))"
    using setprio_enqueue [of ?s Q t "ut_id (thr s t)" "ut_prio (thr s t)"] R free d st
    unfolding p_def by auto
  have "upd_thr t (ut_prio_update (\<lambda>_. ut_prio (thr s t))) (?s\<lparr>qh := h\<rparr>)
      = upd_thr t (ut_state_update (\<lambda>_. UT_RUNNABLE)) (s\<lparr>qh := h\<rparr>)"
    by (simp add: upd_thr_def)
  with h st show ?thesis
    by (intro exI [of _ h]) (simp add: uthread_wake_def setprio_or_exit_def Let_def)
qed

lemma wake_other:
  assumes "ut_state (thr s t) \<noteq> UT_WAIT" and "ut_state (thr s t) \<noteq> UT_NO_STATE"
  shows "uthread_wake (Some t) s = Inr s"
  using assms by (simp add: uthread_wake_def)


subsection \<open>Waking keeps the invariant\<close>

lemma free_in_other:
  "free_in (Q(q := t # Q q)) w \<longleftrightarrow> free_in Q w \<and> w \<noteq> t"
  by (auto simp: free_in_def split: if_splits)

definition woken :: "taddr \<Rightarrow> usys \<Rightarrow> usys \<Rightarrow> bool" where
  "woken t s s' \<longleftrightarrow>
     thr s' = (thr s)(t := (thr s t)\<lparr>ut_state :=
        if ut_state (thr s t) = UT_WAIT then UT_RUNNABLE else ut_state (thr s t)\<rparr>)
     \<and> ut_curthr s' = ut_curthr s \<and> m_owner s' = m_owner s \<and> reaper_thr_id s' = reaper_thr_id s
     \<and> stacks s' = stacks s \<and> next_stack s' = next_stack s"

lemma wake_base:
  assumes B: "base E s Q" and al: "alive s t"
    and w: "ut_state (thr s t) = UT_WAIT \<Longrightarrow> free_in Q t"
    and nj: "\<And>t'. ut_state (thr s t) = UT_WAIT \<Longrightarrow> alive s t' \<Longrightarrow> ut_waiter (thr s t') = Some t
       \<Longrightarrow> ut_has_exited (thr s t')"
  shows "\<exists>s' Q'. uthread_wake (Some t) s = Inr s' \<and> base E s' Q' \<and> woken t s s'
           \<and> (\<forall>q. (\<forall>p. q \<noteq> RunQ p) \<longrightarrow> Q' q = Q q)"
proof (cases "ut_state (thr s t) = UT_WAIT")
  case False
  then show ?thesis
    using B al by (auto simp: wake_other alive_def woken_def)
next
  case True
  have parts: "qrep (qh s) Q" "queues_ok E s Q" "threads_ok s" "mtx_ok s Q" "joins_ok E s Q"
      "reaper_ok s Q" "frames_ok s"
    using B by (simp_all add: base_def)
  define p where "p = nat (ut_prio (thr s t))"
  obtain h where h: "uthread_wake (Some t) s
        = Inr (upd_thr t (ut_state_update (\<lambda>_. UT_RUNNABLE)) (s\<lparr>qh := h\<rparr>))"
      "qrep h (Q(RunQ p := t # Q (RunQ p)))"
    using wake_waiting [OF parts(1) w parts(3) al] True unfolding p_def by blast
  let ?s = "upd_thr t (ut_state_update (\<lambda>_. UT_RUNNABLE)) (s\<lparr>qh := h\<rparr>)"
  let ?Q = "Q(RunQ p := t # Q (RunQ p))"
  have al': "alive ?s x = alive s x" "can_run ?s x = can_run s x" for x
    using True by (auto simp: alive_def can_run_def)
  have "queues_ok E ?s ?Q"
    unfolding queues_ok_def
  proof (intro conjI allI impI)
    fix x q assume x: "x \<in> set (?Q q)"
    show "in_table x"
      using x queues_okD(1) [OF parts(2)] al by (auto simp: alive_def split: if_splits)
    show "member_ok E x (thr ?s x) q"
    proof (cases "x = t")
      case True
      then have "q = RunQ p" using x w \<open>ut_state (thr s t) = UT_WAIT\<close>
        by (auto simp: free_in_def split: if_splits)
      with True show ?thesis
        using thread_okD(4) [OF parts(3) al] by (simp add: p_def)
    next
      case False
      then have "x \<in> set (Q q)" using x by (auto split: if_splits)
      with False queues_okD(2) [OF parts(2)] show ?thesis by simp
    qed
  next
    fix x assume "in_table x" and "ut_state (thr ?s x) = UT_RUNNABLE"
    then show "x \<in> set (?Q (RunQ (nat (ut_prio (thr ?s x)))))"
      using queues_okD(3) [OF parts(2), of x] by (cases "x = t") (auto simp: p_def)
  qed
  moreover have "threads_ok ?s"
    using parts(3) True al by (auto simp: threads_ok_def al' thread_ok_def)
  moreover have "mtx_ok ?s ?Q" using parts(4) by (simp add: mtx_ok_def)
  moreover have "joins_ok E ?s ?Q"
    using parts(5) nj [OF True] unfolding joins_ok_def al' free_in_other
    by (auto split: if_splits)
  moreover have "reaper_ok ?s ?Q"
    using parts(6) by (auto simp: reaper_ok_def Let_def al')
  moreover have "frames_ok ?s"
    using parts(7) by (auto simp: frames_ok_def al')
  ultimately have "base E ?s ?Q" using h(2) by (simp add: base_def)
  moreover have "woken t s ?s" using True by (simp add: woken_def)
  ultimately show ?thesis using h(1) by fastforce
qed


subsection \<open>Switching\<close>

lemma pick_runq_rep:
  assumes "qrep (qh s) Q"
  shows "\<exists>r. pick_runq n s = Inr r \<and>
    (case r of None \<Rightarrow> \<forall>i\<le>n. Q (RunQ i) = []
     | Some i \<Rightarrow> i \<le> n \<and> Q (RunQ i) \<noteq> [] \<and> (\<forall>j. i < j \<longrightarrow> j \<le> n \<longrightarrow> Q (RunQ j) = []))"
proof (induction n)
  case 0
  show ?case using tq.emp_rep [OF assms, of "RunQ 0"] by auto
next
  case (Suc n)
  show ?case
  proof (cases "Q (RunQ (Suc n)) = []")
    case True
    with Suc tq.emp_rep [OF assms, of "RunQ (Suc n)"] show ?thesis
      by (auto simp: le_Suc_eq split: option.splits)
  next
    case False
    with tq.emp_rep [OF assms, of "RunQ (Suc n)"] show ?thesis
      by (intro exI [of _ "Some (Suc n)"]) simp
  qed
qed

text \<open>The thread at the back of run queue \<open>i\<close> takes the processor.\<close>

lemma dispatch_base:
  assumes B: "base {} s Q" and Qi: "Q (RunQ i) = xs @ [t]" and R: "qrep h (Q(RunQ i := xs))"
  shows "base {} (upd_thr t (ut_state_update (\<lambda>_. UT_ON_CPU)) (s\<lparr>qh := h, ut_curthr := c\<rparr>))
           (Q(RunQ i := xs))" (is "base {} ?s ?Q")
proof -
  have parts: "qrep (qh s) Q" "queues_ok {} s Q" "threads_ok s" "mtx_ok s Q" "joins_ok {} s Q"
      "reaper_ok s Q" "frames_ok s"
    using B by (simp_all add: base_def)
  have tin: "t \<in> set (Q (RunQ i))" using Qi by simp
  have tab: "in_table t" and st: "ut_state (thr s t) = UT_RUNNABLE"
    and pr: "ut_prio (thr s t) = int i"
    using queues_okD(1,2) [OF parts(2) tin] by simp_all
  have free: "free_in ?Q t" by (rule deq_leaves_free [OF parts(1) Qi])
  have sub: "x \<in> set (?Q q) \<Longrightarrow> x \<in> set (Q q)" for x q
    using Qi by (auto split: if_splits)
  have al: "alive ?s x = alive s x" "can_run ?s x = can_run s x" for x
    using st by (auto simp: alive_def can_run_def)
  have "queues_ok {} ?s ?Q"
    unfolding queues_ok_def
  proof (intro conjI allI impI)
    fix x q assume x: "x \<in> set (?Q q)"
    then have "x \<noteq> t" using free by (auto simp: free_in_def)
    then show "member_ok {} x (thr ?s x) q"
      using queues_okD(2) [OF parts(2) sub [OF x]] by simp
    show "in_table x" by (rule queues_okD(1) [OF parts(2) sub [OF x]])
  next
    fix x assume x: "in_table x" "ut_state (thr ?s x) = UT_RUNNABLE"
    then have xt: "x \<noteq> t" by auto
    with x have "x \<in> set (Q (RunQ (nat (ut_prio (thr s x)))))"
      using queues_okD(3) [OF parts(2), of x] by simp
    with xt Qi show "x \<in> set (?Q (RunQ (nat (ut_prio (thr ?s x)))))" by auto
  qed
  moreover have "threads_ok ?s"
    using parts(3) st by (auto simp: threads_ok_def al thread_ok_def alive_def)
  moreover have "mtx_ok ?s ?Q" using parts(4) by (simp add: mtx_ok_def)
  moreover have "joins_ok {} ?s ?Q"
  proof -
    have "free_in ?Q w" if "free_in Q w" for w using that sub unfolding free_in_def by blast
    moreover have "w \<noteq> t" if "ut_state (thr s w) = UT_WAIT" for w using that st by auto
    ultimately show ?thesis
      using parts(5) unfolding joins_ok_def al by (auto split: if_splits)
  qed
  moreover have "reaper_ok ?s ?Q"
    using parts(6) by (auto simp: reaper_ok_def Let_def al)
  moreover have "frames_ok ?s"
    using parts(7) by (auto simp: frames_ok_def al)
  ultimately show ?thesis using R by (simp add: base_def)
qed

text \<open>What a switch does: the back of the highest non-empty run queue runs next.\<close>

lemma uthread_switch_rep:
  assumes c: "ut_curthr s = Some c"
    and B: "base {} (upd_thr c (ut_ctx_update (\<lambda>_. k)) s) Q"
  shows "(\<exists>i xs t h. i \<le> UTH_MAXPRIO \<and> Q (RunQ i) = xs @ [t]
            \<and> (\<forall>j. i < j \<longrightarrow> j \<le> UTH_MAXPRIO \<longrightarrow> Q (RunQ j) = [])
            \<and> uthread_switch k s = Inr (upd_thr t (ut_state_update (\<lambda>_. UT_ON_CPU))
                ((upd_thr c (ut_ctx_update (\<lambda>_. k)) s)\<lparr>qh := h, ut_curthr := Some t\<rparr>))
            \<and> qrep h (Q(RunQ i := xs)))
         \<or> (\<forall>i\<le>UTH_MAXPRIO. Q (RunQ i) = []) \<and> uthread_switch k s = Inl Never_returns"
proof -
  have R: "qrep (qh s) Q" and QO: "queues_ok {} (upd_thr c (ut_ctx_update (\<lambda>_. k)) s) Q"
    using B by (simp_all add: base_def)
  obtain r where r: "pick_runq UTH_MAXPRIO s = Inr r"
      "case r of None \<Rightarrow> \<forall>i\<le>UTH_MAXPRIO. Q (RunQ i) = []
       | Some i \<Rightarrow> i \<le> UTH_MAXPRIO \<and> Q (RunQ i) \<noteq> []
           \<and> (\<forall>j. i < j \<longrightarrow> j \<le> UTH_MAXPRIO \<longrightarrow> Q (RunQ j) = [])"
    using pick_runq_rep [OF R] by blast
  show ?thesis
  proof (cases r)
    case None
    with r show ?thesis by (simp add: uthread_switch_def)
  next
    case (Some i)
    obtain xs t where Qi: "Q (RunQ i) = xs @ [t]" using r(2) Some by (auto elim: snoc_exhaust)
    obtain h where h: "utqueue_dequeue (RunQ i) (qh s) = Inr (Some t, h)"
        "qrep h (Q(RunQ i := xs))"
      using tq.deq_rep [OF R _ Qi] by auto
    have free: "free_in (Q(RunQ i := xs)) t" by (rule deq_leaves_free [OF R Qi])
    have st: "ut_state (thr s t) = UT_RUNNABLE"
      using queues_okD(2) [OF QO, of t "RunQ i"] Qi by (auto split: if_splits)
    have nul: "links h (TLink t) = null_link"
      using qrepD(4) [OF h(2)] free by (simp add: free_in_def)
    have "uthread_switch k s = Inr (upd_thr t (ut_state_update (\<lambda>_. UT_ON_CPU))
          ((upd_thr c (ut_ctx_update (\<lambda>_. k)) s)\<lparr>qh := h, ut_curthr := Some t\<rparr>))"
      using r(1) Some c h(1) st nul
      by (simp add: uthread_switch_def Let_def upd_thr_commute [of "ut_ctx_update (\<lambda>_. k)"]
          split: if_splits)
    with r(2) Some Qi h(2) show ?thesis by auto
  qed
qed

lemma switch_safe:
  assumes c: "ut_curthr s = Some c"
    and B: "base {} (upd_thr c (ut_ctx_update (\<lambda>_. k)) s) Q"
    and idle: "idle_cpu s"
  shows "safe (uthread_switch k s)"
  using uthread_switch_rep [OF c B]
proof (elim disjE exE conjE)
  fix i xs t h
  assume Qi: "Q (RunQ i) = xs @ [t]" and h: "qrep h (Q(RunQ i := xs))"
    and sw: "uthread_switch k s = Inr (upd_thr t (ut_state_update (\<lambda>_. UT_ON_CPU))
          ((upd_thr c (ut_ctx_update (\<lambda>_. k)) s)\<lparr>qh := h, ut_curthr := Some t\<rparr>))"
      (is "_ = Inr ?s'")
  have "base {} ?s' (Q(RunQ i := xs))" by (rule dispatch_base [OF B Qi h])
  moreover have "queues_ok {} (upd_thr c (ut_ctx_update (\<lambda>_. k)) s) Q" using B by (simp add: base_def)
  then have "in_table t" by (rule queues_okD(1) [of _ _ _ _ "RunQ i"]) (simp add: Qi)
  then have "cur_ok ?s'" using idle by (auto simp: cur_ok_def idle_cpu_def)
  ultimately show ?thesis using sw by (auto simp: uinv_def)
next
  assume "uthread_switch k s = Inl Never_returns"
  then show ?thesis by simp
qed

lemma idle_after:
  assumes "cur_ok s" and "ut_curthr s = Some c" and "ut_state (f (thr s c)) \<noteq> UT_ON_CPU"
  shows "idle_cpu (upd_thr c f s)"
  using assms by (auto simp: idle_cpu_def cur_ok_def)

lemma block_safe:
  assumes cur: "cur_ok s" and c: "ut_curthr s = Some c"
    and B: "base {} (upd_thr c (\<lambda>u. u\<lparr>ut_state := UT_WAIT, ut_ctx := k\<rparr>) s) Q"
  shows "safe (uthread_block k s)"
proof -
  have st: "ut_state (thr s c) = UT_ON_CPU" using cur c by (auto simp: cur_ok_def)
  let ?s = "upd_thr c (ut_state_update (\<lambda>_. UT_WAIT)) s"
  have eq: "upd_thr c (ut_ctx_update (\<lambda>_. k)) ?s
      = upd_thr c (\<lambda>u. u\<lparr>ut_state := UT_WAIT, ut_ctx := k\<rparr>) s"
    by (simp add: upd_thr_def)
  have "safe (uthread_switch k ?s)"
    by (rule switch_safe [of _ c _ Q]) (use B c idle_after [OF cur c] eq in auto)
  then show ?thesis
    using c st by (simp add: uthread_block_def uthread_block_rest_def)
qed

end
