(* ===== verification/Usafe.thy ===== *)
theory Usafe
  imports Uinv
begin

text \<open>
  Every step of the library keeps the invariant: one lemma for each way a function changes the
  queues or the table, then one per function, then the step itself.  The client contract
  \<open>good_call\<close> is what the documentation of the library asks of its callers.
\<close>

lemma baseD:
  assumes "base E s Q"
  shows "qrep (qh s) Q" "queues_ok E s Q" "threads_ok s" "mtx_ok s Q" "joins_ok E s Q"
    "reaper_ok s Q" "frames_ok s"
  using assms by (simp_all add: base_def)

lemma joins_okD1:
  assumes "joins_ok E s Q" "alive s t" "ut_waiter (thr s t) = Some w" "\<not> ut_has_exited (thr s t)"
  shows "in_table w" "ut_state (thr s w) = UT_WAIT" "free_in Q w"
    "ut_ctx (thr s w) = [In_join (ut_id (thr s t))]"
  using assms by (auto simp: joins_ok_def)

lemma joins_okD2:
  assumes "joins_ok E s Q" "can_run s w" "w \<notin> E" "ut_ctx (thr s w) = [In_join uid]"
  shows "valid_uid uid" "alive s (Thr (nat uid))" "ut_waiter (thr s (Thr (nat uid))) = Some w"
    "\<not> ut_detached (thr s (Thr (nat uid)))"
  using assms by (auto simp: joins_ok_def)

text \<open>The parts that do not read a field do not change with it.\<close>

lemma field_simps1 [simp]:
  "alive (s\<lparr>qh := h\<rparr>) = alive s" "can_run (s\<lparr>qh := h\<rparr>) = can_run s"
  "threads_ok (s\<lparr>qh := h\<rparr>) = threads_ok s" "frames_ok (s\<lparr>qh := h\<rparr>) = frames_ok s"
  "queues_ok E (s\<lparr>qh := h\<rparr>) Q = queues_ok E s Q" "mtx_ok (s\<lparr>qh := h\<rparr>) Q = mtx_ok s Q"
  "joins_ok E (s\<lparr>qh := h\<rparr>) Q = joins_ok E s Q" "reaper_ok (s\<lparr>qh := h\<rparr>) Q = reaper_ok s Q"
  by (simp_all add: fun_eq_iff alive_def can_run_def threads_ok_def frames_ok_def queues_ok_def
      mtx_ok_def joins_ok_def reaper_ok_def)

lemma field_simps2 [simp]:
  "alive (s\<lparr>m_owner := o'\<rparr>) = alive s" "can_run (s\<lparr>m_owner := o'\<rparr>) = can_run s"
  "threads_ok (s\<lparr>m_owner := o'\<rparr>) = threads_ok s" "frames_ok (s\<lparr>m_owner := o'\<rparr>) = frames_ok s"
  "queues_ok E (s\<lparr>m_owner := o'\<rparr>) Q = queues_ok E s Q"
  "joins_ok E (s\<lparr>m_owner := o'\<rparr>) Q = joins_ok E s Q"
  "reaper_ok (s\<lparr>m_owner := o'\<rparr>) Q = reaper_ok s Q"
  by (simp_all add: fun_eq_iff alive_def can_run_def threads_ok_def frames_ok_def queues_ok_def
      joins_ok_def reaper_ok_def)

lemma cur_ok_qh [simp]: "cur_ok (s\<lparr>qh := h\<rparr>) = cur_ok s" "cur_ok (s\<lparr>m_owner := o'\<rparr>) = cur_ok s"
  by (simp_all add: cur_ok_def)

lemma cur_ok_cong:
  assumes "cur_ok s" and "ut_curthr s' = ut_curthr s"
    and "\<And>t. in_table t \<Longrightarrow> ut_state (thr s' t) = UT_ON_CPU \<longleftrightarrow> ut_state (thr s t) = UT_ON_CPU"
  shows "cur_ok s'"
  using assms unfolding cur_ok_def by metis

lemma cur_ok_upd:
  assumes "cur_ok s" and "\<And>u. ut_state (f u) = ut_state u"
  shows "cur_ok (upd_thr t f s)"
  by (rule cur_ok_cong [OF assms(1)]) (use assms(2) in auto)

lemma member_ok_mono: "member_ok E x u q \<Longrightarrow> E \<subseteq> E' \<Longrightarrow> member_ok E' x u q"
  by (cases q) auto

lemma queues_ok_upd:
  assumes "queues_ok E s Q" and "E \<subseteq> E'" and "\<forall>p. q \<noteq> RunQ p"
    and "\<And>x. x \<in> set xs \<Longrightarrow> x \<in> set (Q q) \<or> in_table x \<and> member_ok E' x (thr s x) q"
  shows "queues_ok E' s (Q(q := xs))"
  unfolding queues_ok_def
proof (intro conjI allI impI)
  fix x q' assume x: "x \<in> set ((Q(q := xs)) q')"
  then have "x \<in> set (Q q') \<or> in_table x \<and> member_ok E' x (thr s x) q'"
    using assms(4) by (cases "q' = q") auto
  then show "in_table x" "member_ok E' x (thr s x) q'"
    using queues_okD(1,2) [OF assms(1)] member_ok_mono [OF _ assms(2)] by blast+
next
  fix x assume "in_table x" "ut_state (thr s x) = UT_RUNNABLE"
  then have "x \<in> set (Q (RunQ (nat (ut_prio (thr s x)))))" by (rule queues_okD(3) [OF assms(1)])
  then show "x \<in> set ((Q(q := xs)) (RunQ (nat (ut_prio (thr s x)))))"
    using assms(3) by (metis fun_upd_other)
qed

lemma joins_ok_frame:
  assumes "joins_ok E s Q" and "E \<subseteq> E'"
    and "\<And>w. free_in Q w \<Longrightarrow> ut_state (thr s w) = UT_WAIT \<Longrightarrow> free_in Q' w"
  shows "joins_ok E' s Q'"
  using assms unfolding joins_ok_def by blast

subsection \<open>Updates of the current thread\<close>

text \<open>The current thread gives up the processor and waits, possibly on a mutex queue.\<close>

lemma park_base:
  assumes B: "base E s Q" and E: "E \<subseteq> {c}" and tab: "in_table c"
    and st: "ut_state (thr s c) = UT_ON_CPU"
    and R: "qrep h Q'"
    and Q': "\<forall>q. Q' q = Q q \<or> (\<exists>m. q = MtxQ m \<and> Q' q = c # Q q \<and> m_owner s m \<noteq> None)"
    and k: "frames_ok1 (ut_id (thr s c)) k" "\<forall>uid. k \<noteq> [In_join uid]"
    and rp: "c = Thr (nat (reaper_thr_id s)) \<Longrightarrow> k = [In_reaper] \<and> Q' = Q"
  shows "base {} (upd_thr c (\<lambda>u. u\<lparr>ut_state := UT_WAIT, ut_ctx := k\<rparr>) (s\<lparr>qh := h\<rparr>)) Q'"
    (is "base {} ?s Q'")
proof -
  note p = baseD [OF B]
  have al: "alive ?s x = alive s x" "can_run ?s x = can_run s x" for x
    using st by (auto simp: alive_def can_run_def)
  have mem: "x \<in> set (Q' q) \<Longrightarrow> x \<in> set (Q q) \<or> x = c \<and> (\<exists>m. q = MtxQ m)" for x q
    using Q' [rule_format, of q] by auto
  have run: "Q' (RunQ n) = Q (RunQ n)" for n using Q' [rule_format, of "RunQ n"] by auto
  have "queues_ok {} ?s Q'"
    unfolding queues_ok_def
  proof (intro conjI allI impI)
    fix x q assume "x \<in> set (Q' q)"
    from mem [OF this] show "in_table x" using queues_okD(1) [OF p(2)] tab by auto
    from mem [OF \<open>x \<in> set (Q' q)\<close>] show "member_ok {} x (thr ?s x) q"
      using queues_okD(2) [OF p(2), of x q] st E
      by (cases q; cases "x = c") auto
  next
    fix x assume "in_table x" and "ut_state (thr ?s x) = UT_RUNNABLE"
    then show "x \<in> set (Q' (RunQ (nat (ut_prio (thr ?s x)))))"
      using queues_okD(3) [OF p(2), of x] by (cases "x = c") (auto simp: run)
  qed
  moreover have "threads_ok ?s"
    using p(3) st by (auto simp: threads_ok_def al thread_ok_def)
  moreover have "mtx_ok ?s Q'"
    using p(4) Q' unfolding mtx_ok_def by (metis upd_thr_simps(5) qid.inject(2) usys.select_convs(5)
      usys.surjective usys.update_convs(1))
  moreover have "joins_ok {} ?s Q'"
  proof -
    have "free_in Q' w" if "free_in Q w" "w \<noteq> c" for w
      using that mem by (auto simp: free_in_def)
    moreover have "w \<noteq> c" if "ut_state (thr s w) = UT_WAIT" for w using that st by auto
    ultimately show ?thesis
      using p(5) k(2) E unfolding joins_ok_def al by (auto split: if_splits)
  qed
  moreover have "reaper_ok ?s Q'"
  proof (cases "c = Thr (nat (reaper_thr_id s))")
    case True
    then have rr: "Thr (nat (reaper_thr_id s)) = c" by (rule sym)
    have kQ: "k = [In_reaper]" "Q' = Q" using rp [OF True] by simp_all
    show ?thesis
      using p(6) al(2) [of c, unfolded kQ(1)] unfolding reaper_ok_def Let_def
      by (simp add: rr kQ)
  next
    case False
    with p(6) mem show ?thesis unfolding reaper_ok_def Let_def al by fastforce
  qed
  moreover have "frames_ok ?s"
    using p(7) k(1) by (auto simp: frames_ok_def al)
  ultimately show ?thesis using R by (simp add: base_def)
qed

text \<open>The current thread changes its own registers and frames and goes on.\<close>

lemma own_base:
  assumes B: "base E s Q" and E: "E \<subseteq> {c}" and st: "ut_state (thr s c) = UT_ON_CPU"
    and nr: "c \<noteq> Thr (nat (reaper_thr_id s))"
    and f: "\<And>u. ut_state (f u) = ut_state u" "\<And>u. ut_id (f u) = ut_id u"
      "\<And>u. ut_prio (f u) = ut_prio u" "\<And>u. ut_has_exited (f u) = ut_has_exited u"
      "\<And>u. ut_detached (f u) = ut_detached u" "\<And>u. ut_waiter (f u) = ut_waiter u"
    and k: "ut_ctx (f (thr s c)) = []" and E': "E' = E \<or> E' = {} \<and> free_in Q c"
  shows "base E' (upd_thr c f s) Q" (is "base E' ?s Q")
proof -
  note p = baseD [OF B]
  have al: "alive ?s x = alive s x" "can_run ?s x = can_run s x" for x
    using f by (auto simp: alive_def can_run_def)
  have "queues_ok E' ?s Q"
    unfolding queues_ok_def
  proof (intro conjI allI impI)
    fix x q assume x: "x \<in> set (Q q)"
    show "in_table x" by (rule queues_okD(1) [OF p(2) x])
    have "x \<in> E \<Longrightarrow> x \<in> E'" using E' E x by (auto simp: free_in_def)
    then show "member_ok E' x (thr ?s x) q"
      using queues_okD(2) [OF p(2) x] f by (cases q; cases "x = c") auto
  next
    fix x assume "in_table x" and "ut_state (thr ?s x) = UT_RUNNABLE"
    then show "x \<in> set (Q (RunQ (nat (ut_prio (thr ?s x)))))"
      using queues_okD(3) [OF p(2), of x] f by (cases "x = c") auto
  qed
  moreover have "threads_ok ?s"
    using p(3) f by (auto simp: threads_ok_def al thread_ok_def)
  moreover have "mtx_ok ?s Q" using p(4) by (simp add: mtx_ok_def)
  moreover have "joins_ok E' ?s Q"
  proof -
    have "w \<noteq> c" if "ut_state (thr s w) = UT_WAIT" for w using that st by auto
    then show ?thesis
      using p(5) k E E' f unfolding joins_ok_def al by (auto split: if_splits)
  qed
  moreover have "reaper_ok ?s Q"
    using p(6) nr by (auto simp: reaper_ok_def Let_def al)
  moreover have "frames_ok ?s"
    using p(7) k f by (auto simp: frames_ok_def al)
  ultimately show ?thesis using p(1) by (simp add: base_def)
qed

text \<open>A live thread may change its frames when they are no join and it is not the reaper.\<close>

lemma own_ctx_base:
  assumes B: "base {} s Q" and k: "frames_ok1 (ut_id (thr s c)) k" "\<forall>uid. k \<noteq> [In_join uid]"
    and nr: "c \<noteq> Thr (nat (reaper_thr_id s))" and st: "ut_state (thr s c) = UT_ON_CPU"
  shows "base {} (upd_thr c (ut_ctx_update (\<lambda>_. k)) s) Q" (is "base {} ?s Q")
proof -
  note p = baseD [OF B]
  have al: "alive ?s x = alive s x" "can_run ?s x = can_run s x" for x
    by (auto simp: alive_def can_run_def)
  have "queues_ok {} ?s Q"
    unfolding queues_ok_def
  proof (intro conjI allI impI)
    fix x q assume x: "x \<in> set (Q q)"
    show "in_table x" by (rule queues_okD(1) [OF p(2) x])
    show "member_ok {} x (thr ?s x) q"
      using queues_okD(2) [OF p(2) x] by (cases q; cases "x = c") auto
  next
    fix x assume "in_table x" and "ut_state (thr ?s x) = UT_RUNNABLE"
    then show "x \<in> set (Q (RunQ (nat (ut_prio (thr ?s x)))))"
      using queues_okD(3) [OF p(2), of x] by (cases "x = c") auto
  qed
  moreover have "threads_ok ?s" using p(3) by (auto simp: threads_ok_def al thread_ok_def)
  moreover have "mtx_ok ?s Q" using p(4) by (simp add: mtx_ok_def)
  moreover have "joins_ok {} ?s Q"
  proof -
    have "w \<noteq> c" if "ut_state (thr s w) = UT_WAIT" for w using that st by auto
    then show ?thesis
      using p(5) k(2) unfolding joins_ok_def al by (auto split: if_splits)
  qed
  moreover have "reaper_ok ?s Q" using p(6) nr by (auto simp: reaper_ok_def Let_def al)
  moreover have "frames_ok ?s" using p(7) k(1) by (auto simp: frames_ok_def al)
  ultimately show ?thesis using p(1) by (simp add: base_def)
qed

lemma ret_safe:
  assumes B: "base E s Q" and E: "E \<subseteq> {c}" and cur: "cur_ok s" and c: "ut_curthr s = Some c"
    and nr: "c \<noteq> Thr (nat (reaper_thr_id s))" and free: "E = {} \<or> free_in Q c"
  shows "safe (ret v [] s)"
proof -
  have st: "ut_state (thr s c) = UT_ON_CPU" using cur c by (auto simp: cur_ok_def)
  have "base {} (upd_thr c (\<lambda>u. u\<lparr>ut_ctx := [], ut_ret := v\<rparr>) s) Q"
    by (rule own_base [OF B E st nr]) (use free in auto)
  moreover have "cur_ok (upd_thr c (\<lambda>u. u\<lparr>ut_ctx := [], ut_ret := v\<rparr>) s)"
    using cur c by (auto simp: cur_ok_def)
  ultimately show ?thesis using c by (auto simp: ret_def uinv_def)
qed

text \<open>Dead and never running threads may have any context.\<close>

lemma dead_ctx_base:
  assumes B: "base E s Q" and st: "ut_state (thr s c) = UT_ZOMBIE"
  shows "base E (upd_thr c (ut_ctx_update (\<lambda>_. k)) s) Q" (is "base E ?s Q")
proof -
  note p = baseD [OF B]
  have al: "alive ?s x = alive s x" "can_run ?s x = can_run s x" for x
    by (auto simp: alive_def can_run_def)
  have nc: "can_run s x \<Longrightarrow> x \<noteq> c" for x using st by (auto simp: can_run_def)
  have "queues_ok E ?s Q"
    unfolding queues_ok_def
  proof (intro conjI allI impI)
    fix x q assume x: "x \<in> set (Q q)"
    show "in_table x" by (rule queues_okD(1) [OF p(2) x])
    show "member_ok E x (thr ?s x) q"
      using queues_okD(2) [OF p(2) x] by (cases q; cases "x = c") auto
  next
    fix x assume "in_table x" and "ut_state (thr ?s x) = UT_RUNNABLE"
    then show "x \<in> set (Q (RunQ (nat (ut_prio (thr ?s x)))))"
      using queues_okD(3) [OF p(2), of x] by (cases "x = c") auto
  qed
  moreover have "threads_ok ?s"
    using p(3) by (auto simp: threads_ok_def al thread_ok_def)
  moreover have "mtx_ok ?s Q" using p(4) by (simp add: mtx_ok_def)
  moreover have "joins_ok E ?s Q"
  proof -
    have "w \<noteq> c" if "ut_state (thr s w) = UT_WAIT" for w using that st by auto
    then show ?thesis
      using p(5) nc unfolding joins_ok_def al by (auto split: if_splits)
  qed
  moreover have "reaper_ok ?s Q"
    using p(6) nc by (auto simp: reaper_ok_def Let_def al)
  moreover have "frames_ok ?s"
    using p(7) nc by (auto simp: frames_ok_def al)
  ultimately show ?thesis using p(1) by (simp add: base_def)
qed


subsection \<open>Updates of the queues and of other threads\<close>

text \<open>Taking the longest-waiting thread off a mutex or condition queue.\<close>

lemma dequeue_wait_base:
  assumes B: "base E s Q" and q: "q = MtxQ n \<or> q = CondQ n" and Qq: "Q q = xs @ [t]"
    and R: "qrep h (Q(q := xs))"
  shows "base E (s\<lparr>qh := h\<rparr>) (Q(q := xs))" (is "base E ?s ?Q")
proof -
  note p = baseD [OF B]
  have sub: "x \<in> set (?Q q') \<Longrightarrow> x \<in> set (Q q')" for x q'
    using Qq by (auto split: if_splits)
  have "queues_ok E s ?Q"
    by (rule queues_ok_upd [OF p(2)]) (use q Qq in auto)
  moreover have "mtx_ok s ?Q" using p(4) Qq unfolding mtx_ok_def by auto
  moreover have "joins_ok E s ?Q"
    by (rule joins_ok_frame [OF p(5)]) (use sub in \<open>auto simp: free_in_def simp del: fun_upd_apply\<close>)
  moreover have "reaper_ok s ?Q"
    using p(6) sub unfolding reaper_ok_def Let_def by blast
  ultimately show ?thesis using R p(3,7) by (simp add: base_def)
qed

lemma owner_base:
  assumes "base E s Q" and "v \<noteq> None \<or> Q (MtxQ m) = []"
  shows "base E (s\<lparr>m_owner := (m_owner s)(m := v)\<rparr>) Q"
proof -
  have "mtx_ok (s\<lparr>m_owner := (m_owner s)(m := v)\<rparr>) Q"
    using baseD(4) [OF assms(1)] assms(2) by (auto simp: mtx_ok_def)
  with assms(1) show ?thesis by (simp add: base_def)
qed

text \<open>The current thread enters a condition queue.\<close>

lemma enter_cond_base:
  assumes B: "base {} s Q" and st: "ut_state (thr s c) = UT_ON_CPU" and tab: "in_table c"
    and nr: "c \<noteq> Thr (nat (reaper_thr_id s))"
    and R: "qrep h (Q(CondQ n := c # Q (CondQ n)))"
  shows "base {c} (s\<lparr>qh := h\<rparr>) (Q(CondQ n := c # Q (CondQ n)))" (is "base _ ?s ?Q")
proof -
  note p = baseD [OF B]
  have "queues_ok {c} s ?Q"
    by (rule queues_ok_upd [OF p(2)]) (use tab in auto)
  moreover have "mtx_ok s ?Q" using p(4) unfolding mtx_ok_def by auto
  moreover have "joins_ok {c} s ?Q"
    by (rule joins_ok_frame [OF p(5)]) (use st in \<open>auto simp: free_in_other\<close>)
  moreover have "reaper_ok s ?Q"
    using p(6) nr unfolding reaper_ok_def Let_def by auto
  ultimately show ?thesis using R p(3,7) by (simp add: base_def)
qed

text \<open>A dead thread is put on the reaper's list.\<close>

lemma reapq_base:
  assumes B: "base E s Q" and al: "alive s t" and z: "ut_state (thr s t) = UT_ZOMBIE"
    and d: "ut_detached (thr s t)" and R: "qrep h (Q(ReapQ := Q ReapQ @ [t]))"
  shows "base E (s\<lparr>qh := h\<rparr>) (Q(ReapQ := Q ReapQ @ [t]))" (is "base _ ?s ?Q")
proof -
  note p = baseD [OF B]
  have "queues_ok E s ?Q"
    by (rule queues_ok_upd [OF p(2)]) (use z d al in \<open>auto simp: alive_def\<close>)
  moreover have "mtx_ok s ?Q" using p(4) unfolding mtx_ok_def by auto
  moreover have "joins_ok E s ?Q"
    by (rule joins_ok_frame [OF p(5)]) (use z in \<open>auto simp: free_in_def\<close>)
  moreover have "reaper_ok s ?Q"
    using p(6) unfolding reaper_ok_def Let_def by auto
  ultimately show ?thesis using R p(3,7) by (simp add: base_def)
qed

lemma make_reapable_base:
  assumes B: "base E s Q" and al: "alive s t" and z: "ut_state (thr s t) = UT_ZOMBIE"
    and d: "ut_detached (thr s t)" and free: "free_in Q t"
  shows "\<exists>s' Q'. make_reapable t s = Inr s' \<and> base E s' Q'
           \<and> woken (Thr (nat (reaper_thr_id s))) s s'
           \<and> (\<forall>q. (\<forall>p. q \<noteq> RunQ p) \<longrightarrow> Q' q = (Q(ReapQ := Q ReapQ @ [t])) q)"
proof -
  note p = baseD [OF B]
  obtain h where h: "list_insert_tail (Head ReapQ) (TLink t) (links (qh s)) = Inr h"
      "qrep ((qh s)\<lparr>links := h\<rparr>) (Q(ReapQ := Q ReapQ @ [t]))"
    using reapq_insert_rep [OF p(1)] free unfolding free_in_def by blast
  let ?s = "s\<lparr>qh := (qh s)\<lparr>links := h\<rparr>\<rparr>"
  let ?Q = "Q(ReapQ := Q ReapQ @ [t])"
  have B': "base E ?s ?Q" by (rule reapq_base [OF B al z d h(2)])
  define r where "r = Thr (nat (reaper_thr_id s))"
  have al_r: "alive ?s r" using p(6) by (simp add: reaper_ok_def Let_def r_def can_run_def alive_def)
  have fr: "free_in ?Q r" if "ut_state (thr ?s r) = UT_WAIT"
    using reaper_wait_free [OF _ _ _ that] baseD [OF B'] by (simp add: r_def)
  have nj: "ut_has_exited (thr ?s t')"
    if "alive ?s t'" "ut_waiter (thr ?s t') = Some r" for t'
  proof (rule ccontr)
    assume n: "\<not> ut_has_exited (thr ?s t')"
    have "ut_ctx (thr ?s r) = [In_join (ut_id (thr ?s t'))]"
      by (rule joins_okD1(4) [OF baseD(5) [OF B'] that n])
    with p(6) show False by (auto simp: reaper_ok_def Let_def r_def)
  qed
  from wake_base [OF B' al_r fr nj] obtain s' Q' where
    "uthread_wake (Some r) ?s = Inr s'" "base E s' Q'" "woken r ?s s'"
    "\<forall>q. (\<forall>p. q \<noteq> RunQ p) \<longrightarrow> Q' q = ?Q q" by blast
  moreover from this(3) have "woken r s s'" by (simp add: woken_def)
  moreover have "make_reapable t s = uthread_wake (Some r) ?s"
    using z d h(1) by (simp add: make_reapable_def r_def)
  ultimately show ?thesis unfolding r_def by metis
qed


subsection \<open>Changing priorities\<close>

lemma setprio_other_base:
  assumes B: "base {} s Q" and v: "0 \<le> prio" "prio \<le> int UTH_MAXPRIO"
    and nr: "ut_state (thr s t) \<noteq> UT_RUNNABLE"
  shows "base {} (upd_thr t (ut_prio_update (\<lambda>_. prio)) s) Q" (is "base {} ?s Q")
proof -
  note p = baseD [OF B]
  have al: "alive ?s x = alive s x" "can_run ?s x = can_run s x" for x
    by (auto simp: alive_def can_run_def)
  have "queues_ok {} ?s Q"
    unfolding queues_ok_def
  proof (intro conjI allI impI)
    fix x q assume x: "x \<in> set (Q q)"
    show "in_table x" by (rule queues_okD(1) [OF p(2) x])
    show "member_ok {} x (thr ?s x) q"
      using queues_okD(2) [OF p(2) x] nr by (cases q; cases "x = t") auto
  next
    fix x assume "in_table x" and "ut_state (thr ?s x) = UT_RUNNABLE"
    then show "x \<in> set (Q (RunQ (nat (ut_prio (thr ?s x)))))"
      using queues_okD(3) [OF p(2), of x] nr by (cases "x = t") auto
  qed
  moreover have "threads_ok ?s"
    using p(3) v by (auto simp: threads_ok_def al thread_ok_def)
  moreover have "mtx_ok ?s Q" using p(4) by (simp add: mtx_ok_def)
  moreover have "joins_ok {} ?s Q"
    using p(5) unfolding joins_ok_def al by (auto split: if_splits)
  moreover have "reaper_ok ?s Q"
    using p(6) by (auto simp: reaper_ok_def Let_def al)
  moreover have "frames_ok ?s"
    using p(7) by (auto simp: frames_ok_def al)
  ultimately show ?thesis using p(1) by (simp add: base_def)
qed

text \<open>A runnable thread moves to the front of the run queue of its new priority.\<close>

lemma setprio_runnable_base:
  assumes B: "base {} s Q" and v: "0 \<le> prio" "prio \<le> int UTH_MAXPRIO"
    and tab: "in_table t" and st: "ut_state (thr s t) = UT_RUNNABLE"
  defines "q \<equiv> RunQ (nat (ut_prio (thr s t)))" and "q' \<equiv> RunQ (nat prio)"
  defines "Q1 \<equiv> Q(q := remove1 t (Q q))"
  defines "Q' \<equiv> Q1(q' := t # Q1 q')"
  assumes R: "qrep h Q'"
  shows "base {} (upd_thr t (ut_prio_update (\<lambda>_. prio)) (s\<lparr>qh := h\<rparr>)) Q'" (is "base {} ?s Q'")
proof -
  note p = baseD [OF B]
  have al: "alive ?s x = alive s x" "can_run ?s x = can_run s x" for x
    by (auto simp: alive_def can_run_def)
  have tq: "t \<in> set (Q q)" unfolding q_def by (rule queues_okD(3) [OF p(2) tab st])
  have other: "x \<in> set (Q' y) \<longleftrightarrow> x \<in> set (Q y)" if "x \<noteq> t" for x y
    using that by (auto simp: Q'_def Q1_def in_set_remove1)
  have nt: "t \<notin> set (Q1 y)" for y
  proof (cases "y = q")
    case True
    then show ?thesis using tq.rep_distinct [OF p(1), of q] by (simp add: Q1_def)
  next
    case False
    have "t \<notin> set (Q y)" using tq.rep_unique [OF p(1) tq, of y] False by blast
    with False show ?thesis by (simp add: Q1_def)
  qed
  then have self: "t \<in> set (Q' y) \<longleftrightarrow> y = q'" for y by (simp add: Q'_def)
  have "queues_ok {} ?s Q'"
    unfolding queues_ok_def
  proof (intro conjI allI impI)
    fix x y assume x: "x \<in> set (Q' y)"
    show "in_table x"
      using x queues_okD(1) [OF p(2)] tab other by (cases "x = t") auto
    show "member_ok {} x (thr ?s x) y"
      using x queues_okD(2) [OF p(2), of x y] other self st v
      by (cases "x = t") (auto simp: q'_def)
  next
    fix x assume "in_table x" and "ut_state (thr ?s x) = UT_RUNNABLE"
    then show "x \<in> set (Q' (RunQ (nat (ut_prio (thr ?s x)))))"
      using queues_okD(3) [OF p(2), of x] other self by (cases "x = t") (auto simp: q'_def)
  qed
  moreover have "threads_ok ?s"
    using p(3) v by (auto simp: threads_ok_def al thread_ok_def)
  moreover have "mtx_ok ?s Q'" using p(4) by (simp add: mtx_ok_def Q'_def Q1_def q_def q'_def)
  moreover have "joins_ok {} ?s Q'"
  proof -
    have "w \<noteq> t" if "ut_state (thr s w) = UT_WAIT" for w using that st by auto
    then have "free_in Q' w" if "free_in Q w" "ut_state (thr s w) = UT_WAIT" for w
      using that other by (auto simp: free_in_def)
    then show ?thesis
      using p(5) unfolding joins_ok_def al by (auto split: if_splits)
  qed
  moreover have "reaper_ok ?s Q'"
    using p(6) by (auto simp: reaper_ok_def Let_def al Q'_def Q1_def q_def q'_def)
  moreover have "frames_ok ?s"
    using p(7) by (auto simp: frames_ok_def al)
  ultimately show ?thesis using R by (simp add: base_def)
qed

text \<open>The invariant does not read the error number, the result or the stack of a thread.\<close>

lemma base_cong:
  assumes B: "base E s Q" and "qh s' = qh s" and "m_owner s' = m_owner s"
    and "reaper_thr_id s' = reaper_thr_id s"
    and f: "\<And>t. ut_state (thr s' t) = ut_state (thr s t)" "\<And>t. ut_id (thr s' t) = ut_id (thr s t)"
      "\<And>t. ut_prio (thr s' t) = ut_prio (thr s t)" "\<And>t. ut_ctx (thr s' t) = ut_ctx (thr s t)"
      "\<And>t. ut_has_exited (thr s' t) = ut_has_exited (thr s t)"
      "\<And>t. ut_detached (thr s' t) = ut_detached (thr s t)"
      "\<And>t. ut_waiter (thr s' t) = ut_waiter (thr s t)"
  shows "base E s' Q"
proof -
  have al: "alive s' = alive s" "can_run s' = can_run s"
    by (simp_all add: fun_eq_iff alive_def can_run_def f)
  have "member_ok E t (thr s' t) q = member_ok E t (thr s t) q" for t q
    by (cases q) (simp_all add: f)
  then show ?thesis
    using assms(1-4) by (simp add: base_def queues_ok_def threads_ok_def thread_ok_def mtx_ok_def
        joins_ok_def reaper_ok_def frames_ok_def al f)
qed

text \<open>\<open>uthread_setprio\<close> in a state of the invariant: an error code, or the new priority in
  place with the run queues in step.\<close>

lemma setprio_base:
  assumes B: "base {} s Q" and cur: "cur_ok s" and c: "ut_curthr s = Some c"
  shows "\<exists>rv s' Q'. uthread_setprio uid prio s = Inr (rv, s') \<and> base {} s' Q' \<and> cur_ok s'
           \<and> ut_curthr s' = Some c \<and> reaper_thr_id s' = reaper_thr_id s
           \<and> (\<forall>t. ut_ctx (thr s' t) = ut_ctx (thr s t))"
proof -
  note p = baseD [OF B]
  have st: "ut_state (thr s c) = UT_ON_CPU" using cur c by (auto simp: cur_ok_def)
  have err: "base {} (upd_thr c (ut_errno_update (\<lambda>_. e)) s) Q
      \<and> cur_ok (upd_thr c (ut_errno_update (\<lambda>_. e)) s)" for e
  proof
    show "cur_ok (upd_thr c (ut_errno_update (\<lambda>_. e)) s)"
      by (rule cur_ok_upd [OF cur]) simp
    show "base {} (upd_thr c (ut_errno_update (\<lambda>_. e)) s) Q"
      by (rule base_cong [OF B]) simp_all
  qed
  show ?thesis
  proof (cases "prio < 0 \<or> prio > int UTH_MAXPRIO")
    case True
    then show ?thesis using err [of EINVAL] c
      by (auto simp: uthread_setprio_def set_errno_def)
  next
    case False
    then have v: "0 \<le> prio" "prio \<le> int UTH_MAXPRIO" by auto
    let ?t = "Thr (nat uid)"
    show ?thesis
    proof (cases "\<not> valid_uid uid \<or> ut_state (thr s ?t) = UT_NO_STATE
        \<or> ut_state (thr s ?t) = UT_ZOMBIE")
      case True
      then show ?thesis using False err [of ESRCH] c
        by (auto simp: uthread_setprio_def set_errno_def)
    next
      case live: False
      then have tab: "in_table ?t" by (auto simp: valid_uid_def)
      show ?thesis
      proof (cases "ut_state (thr s ?t) = UT_RUNNABLE")
        case True
        define q where "q = RunQ (nat (ut_prio (thr s ?t)))"
        define Q1 where "Q1 = Q(q := remove1 ?t (Q q))"
        have tq: "?t \<in> set (Q q)" unfolding q_def by (rule queues_okD(3) [OF p(2) tab True])
        have lnk: "l_next (links (qh s) (TLink ?t)) \<noteq> None" "l_prev (links (qh s) (TLink ?t)) \<noteq> None"
          using qrep_link_null_iff [OF p(1), of ?t] tq by blast+
        obtain h h' where h: "utqueue_remove q ?t (qh s) = Inr h"
            "utqueue_enqueue (RunQ (nat prio)) ?t h = Inr h'"
            "qrep h' (Q1(RunQ (nat prio) := ?t # Q1 (RunQ (nat prio))))"
          using tq.move_rep [OF p(1), of q "RunQ (nat prio)" ?t] tq unfolding Q1_def q_def by auto
        have "uthread_setprio uid prio s
            = Inr (0, upd_thr ?t (ut_prio_update (\<lambda>_. prio)) (s\<lparr>qh := h'\<rparr>))"
          using v live True lnk h(1,2)
          by (simp add: uthread_setprio_def Let_def on_qh_def q_def)
        moreover have "base {} (upd_thr ?t (ut_prio_update (\<lambda>_. prio)) (s\<lparr>qh := h'\<rparr>))
            (Q1(RunQ (nat prio) := ?t # Q1 (RunQ (nat prio))))"
          using setprio_runnable_base [OF B v tab True] h(3) by (simp add: Q1_def q_def)
        moreover have "cur_ok (upd_thr ?t (ut_prio_update (\<lambda>_. prio)) (s\<lparr>qh := h'\<rparr>))"
          by (rule cur_ok_upd) (use cur in auto)
        ultimately show ?thesis using c by auto
      next
        case False
        have "cur_ok (upd_thr ?t (ut_prio_update (\<lambda>_. prio)) s)"
          by (rule cur_ok_upd [OF cur]) simp
        then show ?thesis
          using False live v setprio_other_base [OF B v False] c
          by (auto simp: uthread_setprio_def)
      qed
    qed
  qed
qed

end
