(* ===== verification/Ustep.thy ===== *)
theory Ustep
  imports Usafe
begin

text \<open>
  One lemma for every function of the library: run in a state of the invariant, and under the
  contract of its documentation, it ends in a state of the invariant, suspends for good or
  exits the process.  They combine to the safety of \<open>ustep\<close>.
\<close>

subsection \<open>What a wake-up leaves alone\<close>

definition keeps :: "usys \<Rightarrow> usys \<Rightarrow> bool" where
  "keeps s s' \<longleftrightarrow> ut_curthr s' = ut_curthr s \<and> reaper_thr_id s' = reaper_thr_id s
     \<and> (\<forall>t. ut_state (thr s' t) = UT_ON_CPU \<longleftrightarrow> ut_state (thr s t) = UT_ON_CPU)
     \<and> (\<forall>t. ut_state (thr s t) = UT_ON_CPU \<or> ut_state (thr s t) = UT_ZOMBIE \<longrightarrow> thr s' t = thr s t)"

lemma keeps_refl [simp]: "keeps s s" "keeps s (s\<lparr>qh := h\<rparr>)" "keeps s (s\<lparr>m_owner := o'\<rparr>)"
  "keeps s (s\<lparr>qh := h, m_owner := o'\<rparr>)"
  by (simp_all add: keeps_def)

lemma keeps_trans: "keeps s s' \<Longrightarrow> keeps s' s'' \<Longrightarrow> keeps s s''"
  unfolding keeps_def by metis

lemma keeps_cur_ok: "cur_ok s \<Longrightarrow> keeps s s' \<Longrightarrow> cur_ok s'"
  by (rule cur_ok_cong) (auto simp: keeps_def)

lemma keepsD:
  assumes "keeps s s'"
  shows "ut_curthr s' = ut_curthr s" "reaper_thr_id s' = reaper_thr_id s"
    "ut_state (thr s t) = UT_ON_CPU \<Longrightarrow> thr s' t = thr s t"
    "ut_state (thr s t) = UT_ZOMBIE \<Longrightarrow> thr s' t = thr s t"
  using assms by (simp_all add: keeps_def)

lemma woken_keeps: "woken t s s' \<Longrightarrow> keeps s s'"
  by (auto simp: woken_def keeps_def)

lemma cur_state:
  assumes "cur_ok s" and "ut_curthr s = Some c"
  shows "in_table c" "ut_state (thr s c) = UT_ON_CPU"
  using assms by (auto simp: cur_ok_def)

lemma cur_free:
  assumes "base {} s Q" and "cur_ok s" and "ut_curthr s = Some c"
  shows "free_in Q c"
  by (rule on_cpu_free [OF baseD(2) [OF assms(1)] cur_state(2) [OF assms(2,3)]])

lemma set_errno_base:
  assumes "base {} s Q" and "cur_ok s" and "ut_curthr s = Some c"
  shows "\<exists>s'. set_errno e s = Inr s' \<and> base {} s' Q \<and> cur_ok s' \<and> ut_curthr s' = Some c
           \<and> reaper_thr_id s' = reaper_thr_id s"
proof -
  have "base {} (upd_thr c (ut_errno_update (\<lambda>_. e)) s) Q"
    by (rule base_cong [OF assms(1)]) simp_all
  moreover have "cur_ok (upd_thr c (ut_errno_update (\<lambda>_. e)) s)"
    by (rule cur_ok_upd [OF assms(2)]) simp
  ultimately show ?thesis using assms(3) by (simp add: set_errno_def)
qed

lemma errno_ret_safe:
  assumes "base {} s Q" and "cur_ok s" and "ut_curthr s = Some c"
    and "c \<noteq> Thr (nat (reaper_thr_id s))"
  shows "safe (bnd (set_errno e s) (ret e []))"
proof -
  obtain s' where s': "set_errno e s = Inr s'" "base {} s' Q" "cur_ok s'" "ut_curthr s' = Some c"
      "reaper_thr_id s' = reaper_thr_id s"
    using set_errno_base [OF assms(1-3)] by blast
  have "safe (ret e [] s')" by (rule ret_safe [OF s'(2) _ s'(3,4)]) (use assms(4) s'(5) in auto)
  then show ?thesis by (simp add: s'(1))
qed

text \<open>\<open>distinct\<close> threads of the table: no queue is longer than the table.\<close>

lemma queue_length:
  assumes "queues_ok E s Q" and "qrep (qh s) Q"
  shows "length (Q q) \<le> UTH_MAX_UTHREADS"
proof -
  have "set (Q q) \<subseteq> Thr ` {..<UTH_MAX_UTHREADS}"
    using queues_okD(1) [OF assms(1)] in_table_Thr by fastforce
  then have "card (set (Q q)) \<le> card (Thr ` {..<UTH_MAX_UTHREADS})" by (intro card_mono) simp_all
  also have "\<dots> \<le> UTH_MAX_UTHREADS" using card_image_le [of "{..<UTH_MAX_UTHREADS}" Thr] by simp
  finally show ?thesis using tq.rep_distinct [OF assms(2)] by (simp add: distinct_card)
qed

subsection \<open>Mutexes and condition variables\<close>

text \<open>The thread at the back of a mutex or condition queue is taken out and woken.\<close>

lemma deq_wake_base:
  assumes B: "base E s Q" and q: "q = MtxQ n \<or> q = CondQ n \<and> E = {}" and Qq: "Q q = xs @ [t]"
    and R: "qrep h (Q(q := xs))" and own: "\<forall>m. (Q(q := xs)) (MtxQ m) \<noteq> [] \<longrightarrow> o' m \<noteq> None"
  shows "\<exists>s' Q'. uthread_wake (Some t) (s\<lparr>qh := h, m_owner := o'\<rparr>) = Inr s' \<and> base E s' Q'
           \<and> keeps s s' \<and> woken t (s\<lparr>qh := h, m_owner := o'\<rparr>) s'
           \<and> (\<forall>q'. (\<forall>p. q' \<noteq> RunQ p) \<longrightarrow> Q' q' = (Q(q := xs)) q')"
proof -
  let ?s = "s\<lparr>qh := h, m_owner := o'\<rparr>"
  note p = baseD [OF B]
  have "base E (s\<lparr>qh := h\<rparr>) (Q(q := xs))" by (rule dequeue_wait_base [OF B _ Qq R]) (use q in auto)
  then have B': "base E ?s (Q(q := xs))" using own by (simp add: base_def mtx_ok_def)
  have tin: "t \<in> set (Q q)" using Qq by simp
  have st: "ut_state (thr s t) = UT_WAIT" using queues_okD(2) [OF p(2) tin] q by auto
  have al: "alive ?s t" using queues_okD(1) [OF p(2) tin] st by (simp add: alive_def)
  have free: "free_in (Q(q := xs)) t" by (rule deq_leaves_free [OF p(1) Qq])
  have nj: "ut_has_exited (thr ?s t')" if "alive ?s t'" "ut_waiter (thr ?s t') = Some t" for t'
    using joins_okD1(3) [OF p(5), of t' t] that tin by (auto simp: free_in_def)
  from wake_base [OF B' al free nj] obtain s' Q' where w:
    "uthread_wake (Some t) ?s = Inr s'" "base E s' Q'" "woken t ?s s'"
    "\<forall>q'. (\<forall>p. q' \<noteq> RunQ p) \<longrightarrow> Q' q' = (Q(q := xs)) q'" by blast
  have "keeps s s'" by (rule keeps_trans [OF _ woken_keeps [OF w(3)]]) simp
  with w show ?thesis by blast
qed

lemma mtx_release_base:
  assumes B: "base E s Q" and own: "m_owner s m = ut_curthr s"
  shows "\<exists>s' Q'. mtx_release m s = Inr s' \<and> base E s' Q' \<and> keeps s s'
           \<and> (\<forall>n. Q' (CondQ n) = Q (CondQ n))"
proof (cases "Q (MtxQ m) = []")
  case True
  then have "base E (s\<lparr>m_owner := (m_owner s)(m := None)\<rparr>) Q" by (intro owner_base [OF B]) simp
  then show ?thesis
    using True own tq.emp_rep [OF baseD(1) [OF B], of "MtxQ m"] by (auto simp: mtx_release_def)
next
  case False
  then obtain xs t where Qq: "Q (MtxQ m) = xs @ [t]" by (rule snoc_exhaust)
  obtain h where h: "utqueue_dequeue (MtxQ m) (qh s) = Inr (Some t, h)" "qrep h (Q(MtxQ m := xs))"
    using tq.deq_rep [OF baseD(1) [OF B] _ Qq] by auto
  have "\<forall>m'. (Q(MtxQ m := xs)) (MtxQ m') \<noteq> [] \<longrightarrow> ((m_owner s)(m := Some t)) m' \<noteq> None"
    using baseD(4) [OF B] by (auto simp: mtx_ok_def)
  from deq_wake_base [OF B _ Qq h(2) this] obtain s' Q' where
    "uthread_wake (Some t) (s\<lparr>qh := h, m_owner := (m_owner s)(m := Some t)\<rparr>) = Inr s'"
    "base E s' Q'" "keeps s s'" "\<forall>q'. (\<forall>p. q' \<noteq> RunQ p) \<longrightarrow> Q' q' = (Q(MtxQ m := xs)) q'"
    by blast
  then show ?thesis
    using Qq h(1) own tq.emp_rep [OF baseD(1) [OF B], of "MtxQ m"]
    by (auto simp: mtx_release_def)
qed

lemma mtx_unlock_safe:
  assumes B: "base {} s Q" and cur: "cur_ok s" and c: "ut_curthr s = Some c"
    and nr: "c \<noteq> Thr (nat (reaper_thr_id s))" and own: "m_owner s m = Some c"
  shows "safe (uthread_mtx_unlock m [] s)"
proof -
  have "m_owner s m = ut_curthr s" using own c by simp
  from mtx_release_base [OF B this]
  obtain s' Q' where s': "mtx_release m s = Inr s'" "base {} s' Q'" "keeps s s'" by blast
  have "safe (ret 0 [] s')"
    by (rule ret_safe [OF s'(2) _ keeps_cur_ok [OF cur s'(3)]])
      (use keepsD(1,2) [OF s'(3)] c nr in auto)
  then show ?thesis by (simp add: uthread_mtx_unlock_def s'(1))
qed

lemma take_owner_safe:
  assumes B: "base {} s Q" and cur: "cur_ok s" and c: "ut_curthr s = Some c"
    and nr: "c \<noteq> Thr (nat (reaper_thr_id s))"
  shows "safe (ret v [] (s\<lparr>m_owner := (m_owner s)(m := Some c)\<rparr>))"
  by (rule ret_safe [OF owner_base [OF B]]) (use cur c nr in auto)

lemma mtx_lock_safe:
  assumes B: "base {} s Q" and cur: "cur_ok s" and c: "ut_curthr s = Some c"
    and nr: "c \<noteq> Thr (nat (reaper_thr_id s))"
  shows "safe (uthread_mtx_lock m [] s)"
proof (cases "m_owner s m")
  case None
  then show ?thesis using take_owner_safe [OF assms] c by (simp add: uthread_mtx_lock_def)
next
  case (Some w)
  note st = cur_state [OF cur c]
  have park: "base {} (upd_thr c (\<lambda>u. u\<lparr>ut_state := UT_WAIT, ut_ctx := []\<rparr>) (s\<lparr>qh := h\<rparr>)) Q'"
    if "qrep h Q'" "\<forall>q. Q' q = Q q \<or> (\<exists>m. q = MtxQ m \<and> Q' q = c # Q q \<and> m_owner s m \<noteq> None)"
    for h Q' by (rule park_base [OF B _ st that]) (use nr in auto)
  show ?thesis
  proof (cases "w = c")
    case True
    have "safe (uthread_block [] s)"
      by (rule block_safe [OF cur c]) (use park [of "qh s" Q] baseD(1) [OF B] in auto)
    then show ?thesis using Some True c by (simp add: uthread_mtx_lock_def)
  next
    case False
    have "\<forall>q. c \<notin> set (Q q)" using cur_free [OF B cur c] by (simp add: free_in_def)
    with tq.enq_rep [OF baseD(1) [OF B], of "MtxQ m" c]
    obtain h where h: "utqueue_enqueue (MtxQ m) c (qh s) = Inr h"
        "qrep h (Q(MtxQ m := c # Q (MtxQ m)))" by auto
    have "safe (uthread_block [] (s\<lparr>qh := h\<rparr>))"
      by (rule block_safe [where c = c, OF _ _ park [OF h(2)]]) (use cur c Some in auto)
    then show ?thesis using Some False c h(1) by (simp add: uthread_mtx_lock_def on_qh_def)
  qed
qed

lemma mtx_trylock_safe:
  assumes B: "base {} s Q" and cur: "cur_ok s" and c: "ut_curthr s = Some c"
    and nr: "c \<noteq> Thr (nat (reaper_thr_id s))"
  shows "safe (uthread_mtx_trylock m [] s)"
  using take_owner_safe [OF assms] ret_safe [OF B _ cur c nr] c
  by (simp add: uthread_mtx_trylock_def)

lemma cond_wait_safe:
  assumes B: "base {} s Q" and cur: "cur_ok s" and c: "ut_curthr s = Some c"
    and nr: "c \<noteq> Thr (nat (reaper_thr_id s))" and own: "m_owner s m = Some c"
  shows "safe (uthread_cond_wait n m [] s)"
proof -
  note st = cur_state [OF cur c]
  have "\<forall>q. c \<notin> set (Q q)" using cur_free [OF B cur c] by (simp add: free_in_def)
  with tq.enq_rep [OF baseD(1) [OF B], of "CondQ n" c]
  obtain h where h: "utqueue_enqueue (CondQ n) c (qh s) = Inr h"
      "qrep h (Q(CondQ n := c # Q (CondQ n)))" by auto
  have B1: "base {c} (s\<lparr>qh := h\<rparr>) (Q(CondQ n := c # Q (CondQ n)))"
    by (rule enter_cond_base [OF B st(2,1) nr h(2)])
  have "m_owner (s\<lparr>qh := h\<rparr>) m = ut_curthr (s\<lparr>qh := h\<rparr>)" using own c by simp
  from mtx_release_base [OF B1 this] obtain s' Q' where
    s': "mtx_release m (s\<lparr>qh := h\<rparr>) = Inr s'" "base {c} s' Q'" "keeps (s\<lparr>qh := h\<rparr>) s'" by blast
  have k: "keeps s s'" by (rule keeps_trans [OF _ s'(3)]) simp
  have tc: "thr s' c = thr s c" by (rule keepsD(3) [OF k st(2)])
  have "base {} (upd_thr c (\<lambda>u. u\<lparr>ut_state := UT_WAIT, ut_ctx := [In_cond_wait m]\<rparr>)
      (s'\<lparr>qh := qh s'\<rparr>)) Q'"
    by (rule park_base [OF s'(2) _ st(1)]) (use tc st baseD(1) [OF s'(2)] nr keepsD(2) [OF k] in auto)
  then have "safe (uthread_block [In_cond_wait m] s')"
    using block_safe [OF keeps_cur_ok [OF cur k], of c "[In_cond_wait m]" Q'] keepsD(1) [OF k] c
    by simp
  then show ?thesis using own c h(1) s'(1) by (simp add: uthread_cond_wait_def on_qh_def)
qed

lemma cond_signal_base:
  assumes B: "base {} s Q" and Qq: "Q (CondQ n) = xs @ [t]"
  shows "\<exists>s1 Q1 h. utqueue_dequeue (CondQ n) (qh s) = Inr (Some t, h)
      \<and> uthread_wake (Some t) (s\<lparr>qh := h\<rparr>) = Inr s1 \<and> base {} s1 Q1 \<and> keeps s s1
      \<and> woken t (s\<lparr>qh := h\<rparr>) s1 \<and> Q1 (CondQ n) = xs"
proof -
  obtain h where h: "utqueue_dequeue (CondQ n) (qh s) = Inr (Some t, h)"
      "qrep h (Q(CondQ n := xs))"
    using tq.deq_rep [OF baseD(1) [OF B] _ Qq] by auto
  have "\<forall>m. (Q(CondQ n := xs)) (MtxQ m) \<noteq> [] \<longrightarrow> m_owner s m \<noteq> None"
    using baseD(4) [OF B] by (auto simp: mtx_ok_def)
  from deq_wake_base [OF B _ Qq h(2) this] obtain s1 Q1 where
    "uthread_wake (Some t) (s\<lparr>qh := h\<rparr>) = Inr s1" "base {} s1 Q1" "keeps s s1"
    "woken t (s\<lparr>qh := h\<rparr>) s1" "Q1 (CondQ n) = xs" by auto
  with h(1) show ?thesis by blast
qed

lemma cond_drain_base:
  assumes "base {} s Q" and "length (Q (CondQ n)) < fuel"
  shows "\<exists>s' Q'. cond_drain fuel n s = Inr s' \<and> base {} s' Q' \<and> keeps s s' \<and> Q' (CondQ n) = []
           \<and> (\<forall>t \<in> set (Q (CondQ n)). ut_state (thr s' t) = UT_RUNNABLE)
           \<and> (\<forall>t. t \<notin> set (Q (CondQ n)) \<longrightarrow> thr s' t = thr s t)"
  using assms
proof (induction fuel arbitrary: s Q)
  case 0 then show ?case by simp
next
  case (Suc fuel)
  note B = Suc.prems(1) and e = tq.emp_rep [OF baseD(1) [OF Suc.prems(1)], of "CondQ n"]
  show ?case
  proof (cases "Q (CondQ n) = []")
    case True
    with B e show ?thesis by auto
  next
    case False
    then obtain xs t where Qq: "Q (CondQ n) = xs @ [t]" by (rule snoc_exhaust)
    from cond_signal_base [OF B Qq] obtain s1 Q1 h where
      h: "utqueue_dequeue (CondQ n) (qh s) = Inr (Some t, h)" and s1:
      "uthread_wake (Some t) (s\<lparr>qh := h\<rparr>) = Inr s1" "base {} s1 Q1" "keeps s s1"
      "woken t (s\<lparr>qh := h\<rparr>) s1" "Q1 (CondQ n) = xs" by blast
    have "length (Q1 (CondQ n)) < fuel" using s1(5) Suc.prems(2) Qq by simp
    from Suc.IH [OF s1(2) this] obtain s' Q' where s':
      "cond_drain fuel n s1 = Inr s'" "base {} s' Q'" "keeps s1 s'" "Q' (CondQ n) = []"
      "\<forall>t \<in> set xs. ut_state (thr s' t) = UT_RUNNABLE"
      "\<forall>t. t \<notin> set xs \<longrightarrow> thr s' t = thr s1 t" by (auto simp: s1(5))
    have tx: "t \<notin> set xs" using tq.rep_distinct [OF baseD(1) [OF B], of "CondQ n"] Qq by simp
    have st: "ut_state (thr s t) = UT_WAIT"
      using queues_okD(2) [OF baseD(2) [OF B], of t "CondQ n"] Qq by simp
    have "cond_drain (Suc fuel) n s = Inr s'" using e False h s1(1) s'(1) by simp
    moreover have "keeps s s'" by (rule keeps_trans [OF s1(3) s'(3)])
    moreover have "\<forall>x \<in> set (Q (CondQ n)). ut_state (thr s' x) = UT_RUNNABLE"
      using s'(5,6) tx st s1(4) Qq by (auto simp: woken_def)
    moreover have "\<forall>x. x \<notin> set (Q (CondQ n)) \<longrightarrow> thr s' x = thr s x"
      using s'(6) s1(4) Qq by (auto simp: woken_def)
    ultimately show ?thesis using s'(2,4) by blast
  qed
qed

lemma ret_keeps_safe:
  assumes "base {} s' Q'" and "keeps s s'" and "cur_ok s" and "ut_curthr s = Some c"
    and "c \<noteq> Thr (nat (reaper_thr_id s))"
  shows "safe (ret v [] s')"
  by (rule ret_safe [OF assms(1) _ keeps_cur_ok [OF assms(3,2)]])
    (use keepsD(1,2) [OF assms(2)] assms(4,5) in auto)

lemma cond_broadcast_safe:
  assumes B: "base {} s Q" and cur: "cur_ok s" and c: "ut_curthr s = Some c"
    and nr: "c \<noteq> Thr (nat (reaper_thr_id s))"
  shows "safe (uthread_cond_broadcast n [] s)"
proof -
  have "length (Q (CondQ n)) < UTH_MAX_UTHREADS + 2"
    using queue_length [OF baseD(2,1) [OF B], of "CondQ n"] by simp
  from cond_drain_base [OF B this] obtain s' Q' where
    "cond_drain (UTH_MAX_UTHREADS + 2) n s = Inr s'" "base {} s' Q'" "keeps s s'" by blast
  then show ?thesis
    using ret_keeps_safe [OF _ _ cur c nr] by (simp add: uthread_cond_broadcast_def)
qed

lemma cond_signal_safe:
  assumes B: "base {} s Q" and cur: "cur_ok s" and c: "ut_curthr s = Some c"
    and nr: "c \<noteq> Thr (nat (reaper_thr_id s))"
  shows "safe (uthread_cond_signal n [] s)"
proof (cases "Q (CondQ n) = []")
  case True
  with tq.emp_rep [OF baseD(1) [OF B], of "CondQ n"] ret_safe [OF B _ cur c nr]
  show ?thesis by (simp add: uthread_cond_signal_def)
next
  case False
  then obtain xs t where Qq: "Q (CondQ n) = xs @ [t]" by (rule snoc_exhaust)
  from cond_signal_base [OF B Qq] obtain s1 Q1 h where
    "utqueue_dequeue (CondQ n) (qh s) = Inr (Some t, h)"
    "uthread_wake (Some t) (s\<lparr>qh := h\<rparr>) = Inr s1" "base {} s1 Q1" "keeps s s1" by blast
  then show ?thesis
    using ret_keeps_safe [OF _ _ cur c nr] Qq tq.emp_rep [OF baseD(1) [OF B], of "CondQ n"]
    by (simp add: uthread_cond_signal_def)
qed

end
