(* ===== verification/Ulife.thy ===== *)
theory Ulife
  imports Ustep
begin

text \<open>
  Yielding and the life of a thread: creation, exit, join, detach and the reaper keep the
  invariant.
\<close>

subsection \<open>Yield and create\<close>

lemma yield_base:
  assumes B: "base {} s Q" and st: "in_table c" "ut_state (thr s c) = UT_ON_CPU"
    and k: "frames_ok1 (ut_id (thr s c)) k" "\<forall>uid. k \<noteq> [In_join uid]"
    and nr: "c \<noteq> Thr (nat (reaper_thr_id s))" and pr: "p = nat (ut_prio (thr s c))"
    and R: "qrep h (Q(RunQ p := c # Q (RunQ p)))"
  shows "base {} (upd_thr c (\<lambda>u. u\<lparr>ut_state := UT_RUNNABLE, ut_ctx := k\<rparr>) (s\<lparr>qh := h\<rparr>))
           (Q(RunQ p := c # Q (RunQ p)))" (is "base {} ?s ?Q")
proof -
  note p = baseD [OF B]
  have al: "alive ?s x = alive s x" "can_run ?s x = can_run s x" for x
    using st by (auto simp: alive_def can_run_def)
  have ok: "alive s c" using st by (simp add: alive_def)
  have free: "c \<notin> set (Q q)" for q
    using on_cpu_free [OF p(2) st(2)] by (simp add: free_in_def)
  have "queues_ok {} ?s ?Q"
    unfolding queues_ok_def
  proof (intro conjI allI impI)
    fix x q assume x: "x \<in> set (?Q q)"
    then show "in_table x" using queues_okD(1) [OF p(2)] st(1) by (auto split: if_splits)
    show "member_ok {} x (thr ?s x) q"
      using x queues_okD(2) [OF p(2), of x q] free thread_okD(4) [OF p(3) ok] pr
      by (cases "x = c"; cases "q = RunQ p") auto
  next
    fix x assume "in_table x" and "ut_state (thr ?s x) = UT_RUNNABLE"
    then show "x \<in> set (?Q (RunQ (nat (ut_prio (thr ?s x)))))"
      using queues_okD(3) [OF p(2), of x] pr by (cases "x = c") auto
  qed
  moreover have "threads_ok ?s"
    using p(3) st by (auto simp: threads_ok_def al thread_ok_def)
  moreover have "mtx_ok ?s ?Q" using p(4) by (simp add: mtx_ok_def)
  moreover have "joins_ok {} ?s ?Q"
  proof -
    have "w \<noteq> c" if "ut_state (thr s w) = UT_WAIT" for w using that st by auto
    then show ?thesis
      using p(5) k(2) unfolding joins_ok_def al free_in_other by (auto split: if_splits)
  qed
  moreover have "reaper_ok ?s ?Q"
    using p(6) nr by (auto simp: reaper_ok_def Let_def al)
  moreover have "frames_ok ?s"
    using p(7) k(1) by (auto simp: frames_ok_def al)
  ultimately show ?thesis using R by (simp add: base_def)
qed

text \<open>What a yield does before it switches: the thread is put behind the others of its priority.\<close>

lemma yield_requeue:
  assumes B: "base {} s Q" and cur: "cur_ok s" and c: "ut_curthr s = Some c"
  defines "p \<equiv> nat (ut_prio (thr s c))"
  shows "\<exists>h. setprio_or_exit (ut_id (thr s c)) (ut_prio (thr s c))
             (upd_thr c (ut_state_update (\<lambda>_. UT_RUNNABLE)) s)
           = Inr (upd_thr c (ut_state_update (\<lambda>_. UT_RUNNABLE)) (s\<lparr>qh := h\<rparr>))
         \<and> qrep h (Q(RunQ p := c # Q (RunQ p)))"
proof -
  note st = cur_state [OF cur c] and b = baseD [OF B]
  have al: "alive s c" using st by (simp add: alive_def)
  note d = thread_okD [OF b(3) al]
  let ?s = "upd_thr c (ut_state_update (\<lambda>_. UT_RUNNABLE)) s"
  obtain h where h: "uthread_setprio (ut_id (thr s c)) (ut_prio (thr s c)) ?s
        = Inr (0, upd_thr c (ut_prio_update (\<lambda>_. ut_prio (thr s c))) (?s\<lparr>qh := h\<rparr>))"
      "qrep h (Q(RunQ p := c # Q (RunQ p)))"
    using setprio_enqueue [of ?s Q c "ut_id (thr s c)" "ut_prio (thr s c)"]
      b(1) cur_free [OF B cur c] d unfolding p_def by auto
  have "upd_thr c (ut_prio_update (\<lambda>_. ut_prio (thr s c))) (?s\<lparr>qh := h\<rparr>)
      = upd_thr c (ut_state_update (\<lambda>_. UT_RUNNABLE)) (s\<lparr>qh := h\<rparr>)"
    by (simp add: upd_thr_def)
  with h show ?thesis by (intro exI [of _ h]) (simp add: setprio_or_exit_def)
qed

lemma yield_safe:
  assumes B: "base {} s Q" and cur: "cur_ok s" and c: "ut_curthr s = Some c"
    and nr: "c \<noteq> Thr (nat (reaper_thr_id s))"
  shows "safe (uthread_yield [] s)"
proof -
  note st = cur_state [OF cur c]
  define p where "p = nat (ut_prio (thr s c))"
  obtain h where h: "setprio_or_exit (ut_id (thr s c)) (ut_prio (thr s c))
             (upd_thr c (ut_state_update (\<lambda>_. UT_RUNNABLE)) s)
           = Inr (upd_thr c (ut_state_update (\<lambda>_. UT_RUNNABLE)) (s\<lparr>qh := h\<rparr>))"
      "qrep h (Q(RunQ p := c # Q (RunQ p)))"
    using yield_requeue [OF assms(1-3)] unfolding p_def by blast
  let ?s = "upd_thr c (ut_state_update (\<lambda>_. UT_RUNNABLE)) (s\<lparr>qh := h\<rparr>)"
  have "upd_thr c (ut_ctx_update (\<lambda>_. [])) ?s
      = upd_thr c (\<lambda>u. u\<lparr>ut_state := UT_RUNNABLE, ut_ctx := []\<rparr>) (s\<lparr>qh := h\<rparr>)"
    by (simp add: upd_thr_def)
  then have "base {} (upd_thr c (ut_ctx_update (\<lambda>_. [])) ?s) (Q(RunQ p := c # Q (RunQ p)))"
    using yield_base [OF B st _ _ nr p_def h(2), of "[]"] by simp
  moreover have "idle_cpu ?s" by (rule idle_after [where c = c]) (use cur c in auto)
  ultimately have "safe (uthread_switch [] ?s)" by (intro switch_safe [of _ c]) (use c in auto)
  then show ?thesis using h(1) c st by (simp add: uthread_yield_def)
qed

lemma find_no_state_cases:
  "find_no_state n i s = -1 \<and> (\<forall>j. i \<le> j \<longrightarrow> j < i + n \<longrightarrow> ut_state (thr s (Thr j)) \<noteq> UT_NO_STATE)
   \<or> (\<exists>j. find_no_state n i s = int j \<and> i \<le> j \<and> j < i + n \<and> ut_state (thr s (Thr j)) = UT_NO_STATE
        \<and> (\<forall>j'. i \<le> j' \<longrightarrow> j' < j \<longrightarrow> ut_state (thr s (Thr j')) \<noteq> UT_NO_STATE))"
proof (induction n arbitrary: i)
  case 0 then show ?case by simp
next
  case (Suc n)
  show ?case
  proof (cases "ut_state (thr s (Thr i)) = UT_NO_STATE")
    case True
    then show ?thesis by (intro disjI2 exI [of _ i]) auto
  next
    case False
    have split: "i \<le> j \<longleftrightarrow> j = i \<or> Suc i \<le> j" for j by auto
    show ?thesis
    proof (cases "find_no_state n (Suc i) s = -1")
      case True
      with Suc [of "Suc i"] False show ?thesis by (auto simp: split)
    next
      case False': False
      with Suc [of "Suc i"] obtain j where "find_no_state n (Suc i) s = int j" "Suc i \<le> j"
        "j < Suc i + n" "ut_state (thr s (Thr j)) = UT_NO_STATE"
        "\<forall>j'. Suc i \<le> j' \<longrightarrow> j' < j \<longrightarrow> ut_state (thr s (Thr j')) \<noteq> UT_NO_STATE" by auto
      with False show ?thesis by (intro disjI2 exI [of _ j]) (auto simp: split)
    qed
  qed
qed

lemma uthread_alloc_cases:
  obtains "uthread_alloc s = -1"
      "\<forall>j < UTH_MAX_UTHREADS. ut_state (thr s (Thr j)) \<noteq> UT_NO_STATE"
  | j where "uthread_alloc s = int j" "j < UTH_MAX_UTHREADS" "ut_state (thr s (Thr j)) = UT_NO_STATE"
      "\<forall>j' < j. ut_state (thr s (Thr j')) \<noteq> UT_NO_STATE"
  using find_no_state_cases [of UTH_MAX_UTHREADS 0 s] unfolding uthread_alloc_def by auto

definition new_thread :: "int \<Rightarrow> int \<Rightarrow> uthread_func \<Rightarrow> uthread" where
  "new_thread i prio f = zero_uthread
     \<lparr>ut_id := i, ut_state := UT_RUNNABLE, ut_prio := prio, ut_ctx := [At_start f]\<rparr>"

text \<open>Creation in closed form: the first free slot becomes a runnable thread on its run queue.\<close>

lemma create_eq:
  assumes R: "qrep (qh s) Q" and al: "uthread_alloc s = int j" "j < UTH_MAX_UTHREADS"
    and free: "free_in Q (Thr j)" and prio: "0 \<le> prio" "prio \<le> int UTH_MAXPRIO"
  shows "\<exists>h. uthread_create f prio s = Inr (0, int j,
             s\<lparr>thr := (thr s)(Thr j := new_thread (int j) prio f), qh := h,
               stacks := insert (next_stack s) (stacks s), next_stack := Suc (next_stack s)\<rparr>)
           \<and> qrep h (Q(RunQ (nat prio) := Thr j # Q (RunQ (nat prio))))"
proof -
  let ?u = "zero_uthread\<lparr>ut_id := int j, ut_state := UT_RUNNABLE\<rparr>"
  let ?s = "s\<lparr>thr := (thr s)(Thr j := ?u)\<rparr>"
  have cl: "upd_thr (Thr j) (\<lambda>u. u\<lparr>ut_id := int j, ut_state := UT_RUNNABLE\<rparr>) (clear_thread (Thr j) s)
      = ?s"
  proof -
    have "(qh s)\<lparr>links := (links (qh s))(TLink (Thr j) := null_link)\<rparr> = qh s"
      using qrep_clear_link [OF R] free unfolding free_in_def by blast
    then show ?thesis unfolding clear_thread_def upd_thr_def by simp
  qed
  have v: "valid_uid (int j)" using al(2) by (simp add: valid_uid_def)
  have r: "qrep (qh ?s) Q" using R by simp
  have st: "ut_state (thr ?s (Thr j)) = UT_RUNNABLE" by simp
  have jj: "Thr j = Thr (nat (int j))" by simp
  obtain h where h: "uthread_setprio (int j) prio ?s
        = Inr (0, upd_thr (Thr j) (ut_prio_update (\<lambda>_. prio)) (?s\<lparr>qh := h\<rparr>))"
      "qrep h (Q(RunQ (nat prio) := Thr j # Q (RunQ (nat prio))))"
    using setprio_enqueue [OF r free jj v prio st] by blast
  show ?thesis
  proof (intro exI [of _ h] conjI h(2))
    have "setprio_or_exit (int j) prio ?s
        = Inr (upd_thr (Thr j) (ut_prio_update (\<lambda>_. prio)) (?s\<lparr>qh := h\<rparr>))"
      by (simp only: setprio_or_exit_def h(1) bnd_Inr prod.case simp_thms check_True)
    then have "uthread_create f prio s = (let (stk, s) =
          alloc_stack (upd_thr (Thr j) (ut_prio_update (\<lambda>_. prio)) (?s\<lparr>qh := h\<rparr>))
        in Inr (0, int j, upd_thr (Thr j) (ut_ctx_update (\<lambda>_. [At_start f])) s))"
      unfolding uthread_create_def al(1) Let_def nat_int cl by simp
    then show "uthread_create f prio s = Inr (0, int j,
             s\<lparr>thr := (thr s)(Thr j := new_thread (int j) prio f), qh := h,
               stacks := insert (next_stack s) (stacks s), next_stack := Suc (next_stack s)\<rparr>)"
      by (simp add: alloc_stack_def upd_thr_def new_thread_def Let_def)
  qed
qed

lemma create_base:
  assumes B: "base {} s Q" and j: "j < UTH_MAX_UTHREADS" "ut_state (thr s (Thr j)) = UT_NO_STATE"
    and prio: "0 \<le> prio" "prio \<le> int UTH_MAXPRIO"
    and u: "ut_id u = int j" "ut_state u = UT_RUNNABLE" "ut_prio u = prio" "\<not> ut_has_exited u"
      "ut_waiter u = None" "frames_ok1 (int j) (ut_ctx u)" "\<forall>uid. ut_ctx u \<noteq> [In_join uid]"
    and R: "qrep h (Q(RunQ (nat prio) := Thr j # Q (RunQ (nat prio))))"
  shows "base {} (s\<lparr>thr := (thr s)(Thr j := u), qh := h, stacks := S,
           next_stack := N\<rparr>) (Q(RunQ (nat prio) := Thr j # Q (RunQ (nat prio))))"
    (is "base {} ?s ?Q")
proof -
  note p = baseD [OF B]
  have free: "Thr j \<notin> set (Q q)" for q
    using no_state_free [OF p(2) j(2)] by (simp add: free_in_def)
  have na: "\<not> alive s (Thr j)" using j(2) by (simp add: alive_def)
  have al: "alive ?s x \<longleftrightarrow> x = Thr j \<or> alive s x" "can_run ?s x \<longleftrightarrow> x = Thr j \<or> can_run s x" for x
    using j by (auto simp: alive_def can_run_def u)
  have "queues_ok {} ?s ?Q"
    unfolding queues_ok_def
  proof (intro conjI allI impI)
    fix x q assume x: "x \<in> set (?Q q)"
    then show "in_table x" using queues_okD(1) [OF p(2)] j(1) by (auto split: if_splits)
    show "member_ok {} x (thr ?s x) q"
      using x queues_okD(2) [OF p(2), of x q] free prio
      by (cases "x = Thr j"; cases "q = RunQ (nat prio)") (auto simp: u)
  next
    fix x assume "in_table x" and "ut_state (thr ?s x) = UT_RUNNABLE"
    then show "x \<in> set (?Q (RunQ (nat (ut_prio (thr ?s x)))))"
      using queues_okD(3) [OF p(2), of x] by (cases "x = Thr j") (auto simp: u)
  qed
  moreover have "threads_ok ?s"
  proof -
    have "thread_ok (Thr j) u" using prio u by (simp add: thread_ok_def)
    then show ?thesis using p(3) by (simp add: threads_ok_def al)
  qed
  moreover have "mtx_ok ?s ?Q" using p(4) by (simp add: mtx_ok_def)
  moreover have "joins_ok {} ?s ?Q"
    unfolding joins_ok_def free_in_other
  proof (intro conjI allI impI)
    fix t w assume t: "alive ?s t" "ut_waiter (thr ?s t) = Some w" "\<not> ut_has_exited (thr ?s t)"
    then have tj: "t \<noteq> Thr j" using u by auto
    then have o: "alive s t" "ut_waiter (thr s t) = Some w" "\<not> ut_has_exited (thr s t)"
      using t al by auto
    note w = joins_okD1 [OF p(5) o]
    have wj: "w \<noteq> Thr j" using w(2) j(2) by auto
    then show "in_table w" "ut_state (thr ?s w) = UT_WAIT" "free_in Q w" "w \<noteq> Thr j"
      "ut_ctx (thr ?s w) = [In_join (ut_id (thr ?s t))]"
      using w tj by simp_all
  next
    fix w uid assume w: "can_run ?s w" "ut_ctx (thr ?s w) = [In_join uid]"
    then have "w \<noteq> Thr j" by (auto simp: u)
    then have o: "can_run s w" "ut_ctx (thr s w) = [In_join uid]" using w al by auto
    note d = joins_okD2 [OF p(5) o(1) _ o(2), simplified]
    have "Thr (nat uid) \<noteq> Thr j" using d(2) na by metis
    then show "valid_uid uid" "alive ?s (Thr (nat uid))"
      "ut_waiter (thr ?s (Thr (nat uid))) = Some w" "\<not> ut_detached (thr ?s (Thr (nat uid)))"
      using d al by simp_all
  qed
  moreover have "reaper_ok ?s ?Q"
    using p(6) na by (auto simp: reaper_ok_def Let_def al can_run_def)
  moreover have "frames_ok ?s"
    using p(7) u by (simp add: frames_ok_def al)
  ultimately show ?thesis using R by (simp add: base_def)
qed

lemma create_safe:
  assumes B: "base {} s Q" and cur: "cur_ok s" and c: "ut_curthr s = Some c"
    and nr: "c \<noteq> Thr (nat (reaper_thr_id s))"
  shows "safe (bnd (uthread_create App prio s) (\<lambda>(rv, uid, s). ret rv [] s))"
proof (cases s rule: uthread_alloc_cases)
  case 1
  then show ?thesis using ret_safe [OF B _ cur c nr] by (simp add: uthread_create_def Let_def)
next
  case (2 j)
  note p = baseD [OF B]
  show ?thesis
  proof (cases "0 \<le> prio \<and> prio \<le> int UTH_MAXPRIO")
    case False
    then show ?thesis
      using 2(1) c by (auto simp: uthread_create_def setprio_or_exit_def uthread_setprio_def
          set_errno_def clear_thread_def upd_thr_def EINVAL_def Let_def)
  next
    case True
    have free: "free_in Q (Thr j)" by (rule no_state_free [OF p(2) 2(3)])
    from create_eq [OF p(1) 2(1,2) free, of prio App] True
    obtain h where h: "uthread_create App prio s = Inr (0, int j,
             s\<lparr>thr := (thr s)(Thr j := new_thread (int j) prio App), qh := h,
               stacks := insert (next_stack s) (stacks s), next_stack := Suc (next_stack s)\<rparr>)"
           (is "_ = Inr (0, _, ?s)")
        "qrep h (Q(RunQ (nat prio) := Thr j # Q (RunQ (nat prio))))" by blast
    have B': "base {} ?s (Q(RunQ (nat prio) := Thr j # Q (RunQ (nat prio))))"
      by (rule create_base [OF B 2(2,3) _ _ _ _ _ _ _ _ _ h(2)])
        (use True in \<open>auto simp: new_thread_def zero_uthread_def\<close>)
    have "cur_ok ?s"
      by (rule cur_ok_cong [OF cur]) (use 2(3) in \<open>auto simp: new_thread_def\<close>)
    then have "safe (ret 0 [] ?s)" using ret_safe [OF B' _ _ _ _, of c] c nr by simp
    then show ?thesis by (simp add: h(1))
  qed
qed

end
