(* ===== verification/Uexit.thy ===== *)
theory Uexit
  imports Ulife
begin

text \<open>
  The end of a thread: exit, join, detach and the reaper keep the invariant.
\<close>

subsection \<open>Exit\<close>

lemma zombie_base:
  assumes B: "base {} s Q" and st: "in_table c" "ut_state (thr s c) = UT_ON_CPU"
    and nr: "c \<noteq> Thr (nat (reaper_thr_id s))"
  shows "base {} (upd_thr c (\<lambda>u. u\<lparr>ut_state := UT_ZOMBIE, ut_exit := v, ut_has_exited := True\<rparr>) s) Q"
    (is "base {} ?s Q")
proof -
  note p = baseD [OF B]
  have al: "alive ?s x = alive s x" "can_run ?s x \<longleftrightarrow> can_run s x \<and> x \<noteq> c" for x
    using st by (auto simp: alive_def can_run_def)
  have free: "c \<notin> set (Q q)" for q
    using on_cpu_free [OF p(2) st(2)] by (simp add: free_in_def)
  have "queues_ok {} ?s Q"
    unfolding queues_ok_def
  proof (intro conjI allI impI)
    fix x q assume x: "x \<in> set (Q q)"
    then show "in_table x" by (rule queues_okD(1) [OF p(2)])
    have "x \<noteq> c" using x free by blast
    then show "member_ok {} x (thr ?s x) q" using queues_okD(2) [OF p(2) x] by simp
  next
    fix x assume "in_table x" and "ut_state (thr ?s x) = UT_RUNNABLE"
    then show "x \<in> set (Q (RunQ (nat (ut_prio (thr ?s x)))))"
      using queues_okD(3) [OF p(2), of x] by (cases "x = c") auto
  qed
  moreover have "threads_ok ?s"
    using p(3) st by (auto simp: threads_ok_def al thread_ok_def)
  moreover have "mtx_ok ?s Q" using p(4) by (simp add: mtx_ok_def)
  moreover have "joins_ok {} ?s Q"
  proof -
    have "w \<noteq> c" if "ut_state (thr s w) = UT_WAIT" for w using that st by auto
    then show ?thesis
      using p(5) unfolding joins_ok_def al by (auto split: if_splits)
  qed
  moreover have "reaper_ok ?s Q"
    using p(6) nr by (auto simp: reaper_ok_def Let_def al)
  moreover have "frames_ok ?s"
    using p(7) by (auto simp: frames_ok_def al)
  ultimately show ?thesis using p(1) by (simp add: base_def)
qed

text \<open>A dead thread leaves the processor for good.\<close>

lemma exit_switch_safe:
  assumes B: "base {} s' Q'" and k: "keeps s1 s'" and c: "ut_curthr s1 = Some c"
    and z: "ut_state (thr s1 c) = UT_ZOMBIE" and idle: "idle_cpu s1"
  shows "safe (uthread_switch [In_exit] s')"
proof -
  have "thr s' c = thr s1 c" by (rule keepsD(4) [OF k z])
  then have "base {} (upd_thr c (ut_ctx_update (\<lambda>_. [In_exit])) s') Q'"
    using dead_ctx_base [OF B] z by simp
  moreover have "idle_cpu s'" using idle k by (auto simp: idle_cpu_def keeps_def)
  ultimately show ?thesis using c keepsD(1) [OF k] by (intro switch_safe [of _ c]) auto
qed

text \<open>The wake-up of the joiner of a thread that has just died.\<close>

lemma wake_joiner:
  assumes B: "base {} s Q" and st: "in_table c" "ut_state (thr s c) = UT_ON_CPU"
    and w: "ut_waiter (thr s c) = Some w"
    and s1: "s1 = upd_thr c (\<lambda>u. u\<lparr>ut_state := UT_ZOMBIE, ut_exit := v, ut_has_exited := True\<rparr>) s"
    and B1: "base {} s1 Q"
  shows "\<exists>s' Q'. uthread_wake (Some w) s1 = Inr s' \<and> base {} s' Q' \<and> keeps s1 s'
           \<and> ut_state (thr s' w) = UT_RUNNABLE"
proof -
  note p = baseD [OF B]
  have al: "alive s c" using st by (simp add: alive_def)
  have nx: "\<not> ut_has_exited (thr s c)" using thread_okD(6) [OF p(3) al] st(2) by simp
  note j = joins_okD1 [OF p(5) al w nx]
  have wc: "w \<noteq> c" using j(2) st(2) by auto
  have st1: "ut_state (thr s1 w) = UT_WAIT" using j(2) wc by (simp add: s1)
  have alw: "alive s1 w" using j(1) st1 by (simp add: alive_def)
  have nj: "ut_has_exited (thr s1 t)" if t: "alive s1 t" "ut_waiter (thr s1 t) = Some w" for t
  proof (rule ccontr)
    assume n: "\<not> ut_has_exited (thr s1 t)"
    then have tc: "t \<noteq> c" by (auto simp: s1)
    have alt: "alive s t" using t(1) tc by (simp add: s1 alive_def)
    have "ut_ctx (thr s w) = [In_join (ut_id (thr s t))]"
      by (rule joins_okD1(4) [OF p(5) alt]) (use t n tc in \<open>auto simp: s1\<close>)
    with j(4) have "ut_id (thr s t) = ut_id (thr s c)" by simp
    then show False using thread_okD(2) [OF p(3) al] thread_okD(2) [OF p(3) alt] tc by simp
  qed
  from wake_base [OF B1 alw j(3) nj] obtain s' Q' where
    "uthread_wake (Some w) s1 = Inr s'" "base {} s' Q'" "woken w s1 s'" by blast
  moreover from this(3) have "ut_state (thr s' w) = UT_RUNNABLE" using st1 by (simp add: woken_def)
  ultimately show ?thesis using woken_keeps by blast
qed

lemma exit_safe:
  assumes B: "base {} s Q" and cur: "cur_ok s" and c: "ut_curthr s = Some c"
    and nr: "c \<noteq> Thr (nat (reaper_thr_id s))"
  shows "safe (uthread_exit v s)"
proof -
  note st = cur_state [OF cur c]
  let ?f = "\<lambda>u. u\<lparr>ut_state := UT_ZOMBIE, ut_exit := v, ut_has_exited := True\<rparr>"
  define s1 where "s1 = upd_thr c ?f s"
  have B1: "base {} s1 Q" unfolding s1_def by (rule zombie_base [OF B st nr])
  have z: "ut_state (thr s1 c) = UT_ZOMBIE" and c1: "ut_curthr s1 = Some c"
    by (simp_all add: s1_def c)
  have idle: "idle_cpu s1" unfolding s1_def by (rule idle_after [OF cur c]) simp
  have ex: "uthread_exit v s = bnd (if ut_detached (thr s1 c) then make_reapable c s1
          else if ut_waiter (thr s1 c) \<noteq> None then uthread_wake (ut_waiter (thr s1 c)) s1
          else Inr s1) (uthread_switch [In_exit])"
    using c st by (simp add: uthread_exit_def Let_def s1_def)
  have "\<exists>s' Q'. (if ut_detached (thr s1 c) then make_reapable c s1
          else if ut_waiter (thr s1 c) \<noteq> None then uthread_wake (ut_waiter (thr s1 c)) s1
          else Inr s1) = Inr s' \<and> base {} s' Q' \<and> keeps s1 s'"
  proof (cases "ut_detached (thr s1 c)")
    case True
    have "alive s1 c" using st z by (simp add: alive_def)
    from make_reapable_base [OF B1 this z True cur_free [OF B cur c]] True show ?thesis
      using woken_keeps by auto
  next
    case False
    show ?thesis
    proof (cases "ut_waiter (thr s1 c)")
      case None
      with False B1 show ?thesis by auto
    next
      case (Some w)
      then have "ut_waiter (thr s c) = Some w" by (simp add: s1_def)
      from wake_joiner [OF B st this s1_def B1] False Some show ?thesis by auto
    qed
  qed
  then show ?thesis using exit_switch_safe [OF _ _ c1 z idle] ex by auto
qed

subsection \<open>Join\<close>

text \<open>The caller becomes the waiter of a thread that has not exited and waits.\<close>

lemma join_wait_base:
  assumes B: "base {} s Q" and st: "in_table c" "ut_state (thr s c) = UT_ON_CPU"
    and nr: "c \<noteq> Thr (nat (reaper_thr_id s))" and t: "t = Thr (nat uid)"
    and uid: "valid_uid uid" "alive s t"
    and d: "\<not> ut_detached (thr s t)" and w: "ut_waiter (thr s t) = None"
  shows "base {} (upd_thr c (\<lambda>u. u\<lparr>ut_state := UT_WAIT, ut_ctx := [In_join uid]\<rparr>)
           (upd_thr t (ut_waiter_update (\<lambda>_. Some c)) s)) Q" (is "base {} ?s Q")
proof -
  note p = baseD [OF B]
  have sel: "ut_id (thr ?s x) = ut_id (thr s x)" "ut_prio (thr ?s x) = ut_prio (thr s x)"
    "ut_has_exited (thr ?s x) = ut_has_exited (thr s x)"
    "ut_detached (thr ?s x) = ut_detached (thr s x)"
    "ut_waiter (thr ?s x) = (if x = t then Some c else ut_waiter (thr s x))"
    "ut_state (thr ?s x) = (if x = c then UT_WAIT else ut_state (thr s x))"
    "ut_ctx (thr ?s x) = (if x = c then [In_join uid] else ut_ctx (thr s x))" for x
    by auto
  have oth: "qh ?s = qh s" "m_owner ?s = m_owner s" "reaper_thr_id ?s = reaper_thr_id s" by simp_all
  define s' where "s' = ?s"
  note sel = sel [folded s'_def] and oth = oth [folded s'_def]
  have al: "alive s' x = alive s x" "can_run s' x = can_run s x" for x
    using st by (auto simp: alive_def can_run_def sel)
  have free: "c \<notin> set (Q q)" for q
    using on_cpu_free [OF p(2) st(2)] by (simp add: free_in_def)
  have idt: "nat (ut_id (thr s t)) = nat uid" "0 \<le> ut_id (thr s t)"
    using thread_okD(1,2) [OF p(3) uid(2)] t by auto
  then have idt: "ut_id (thr s t) = uid" using uid(1) by (simp add: valid_uid_def eq_nat_nat_iff)
  have "queues_ok {} s' Q"
    unfolding queues_ok_def
  proof (intro conjI allI impI)
    fix x q assume x: "x \<in> set (Q q)"
    then show "in_table x" by (rule queues_okD(1) [OF p(2)])
    have "x \<noteq> c" using x free by blast
    then show "member_ok {} x (thr s' x) q"
      using queues_okD(2) [OF p(2) x] by (cases q) (simp_all add: sel)
  next
    fix x assume "in_table x" and "ut_state (thr s' x) = UT_RUNNABLE"
    then show "x \<in> set (Q (RunQ (nat (ut_prio (thr s' x)))))"
      using queues_okD(3) [OF p(2), of x] by (auto simp: sel split: if_splits)
  qed
  moreover have "threads_ok s'"
    using p(3) st by (auto simp: threads_ok_def al thread_ok_def sel)
  moreover have "mtx_ok s' Q" using p(4) by (simp add: mtx_ok_def oth)
  moreover have "joins_ok {} s' Q"
    unfolding joins_ok_def
  proof (intro conjI allI impI)
    fix x y assume x: "alive s' x" "ut_waiter (thr s' x) = Some y" "\<not> ut_has_exited (thr s' x)"
    have "in_table y \<and> ut_state (thr s' y) = UT_WAIT \<and> free_in Q y
        \<and> ut_ctx (thr s' y) = [In_join (ut_id (thr s' x))]"
    proof (cases "x = t")
      case True
      then have "y = c" using x(2) by (simp add: sel)
      with True st free idt show ?thesis by (simp add: sel free_in_def)
    next
      case False
      with x have o: "alive s x" "ut_waiter (thr s x) = Some y" "\<not> ut_has_exited (thr s x)"
        by (simp_all add: al sel)
      note j = joins_okD1 [OF p(5) o]
      with st(2) have "y \<noteq> c" by auto
      with j show ?thesis by (simp add: sel)
    qed
    then show "in_table y" "ut_state (thr s' y) = UT_WAIT" "free_in Q y"
      "ut_ctx (thr s' y) = [In_join (ut_id (thr s' x))]" by simp_all
  next
    fix y u assume y: "can_run s' y" "ut_ctx (thr s' y) = [In_join u]"
    have "valid_uid u \<and> alive s' (Thr (nat u)) \<and> ut_waiter (thr s' (Thr (nat u))) = Some y
        \<and> \<not> ut_detached (thr s' (Thr (nat u)))"
    proof (cases "y = c")
      case True
      then show ?thesis using y(2) uid d by (simp add: sel al t)
    next
      case False
      with y have o: "can_run s y" "ut_ctx (thr s y) = [In_join u]" by (simp_all add: al sel)
      note j = joins_okD2 [OF p(5) o(1) _ o(2), simplified]
      with w have "Thr (nat u) \<noteq> t" by auto
      with j show ?thesis by (simp add: sel al)
    qed
    then show "valid_uid u" "alive s' (Thr (nat u))" "ut_waiter (thr s' (Thr (nat u))) = Some y"
      "\<not> ut_detached (thr s' (Thr (nat u)))" by simp_all
  qed
  moreover have "reaper_ok s' Q"
    using p(6) nr by (auto simp: reaper_ok_def Let_def al sel oth)
  moreover have "frames_ok s'"
    using p(7) by (auto simp: frames_ok_def al sel)
  ultimately have "base {} s' Q" using p(1) oth by (simp add: base_def)
  then show ?thesis by (simp add: s'_def)
qed

text \<open>The joined thread is dead: it is marked as detached, and the joiner reads its status.\<close>

lemma join_done_base:
  assumes B: "base {} s Q" and st: "ut_state (thr s c) = UT_ON_CPU"
    and z: "ut_state (thr s t) = UT_ZOMBIE" "in_table t"
    and w: "\<And>x uid. can_run s x \<Longrightarrow> x \<noteq> c \<Longrightarrow> ut_ctx (thr s x) = [In_join uid] \<Longrightarrow> Thr (nat uid) \<noteq> t"
  shows "base {c} (upd_thr t (\<lambda>u. u\<lparr>ut_waiter := Some c, ut_detached := True\<rparr>)
           (upd_thr c (ut_out_update (\<lambda>_. v)) s)) Q" (is "base {c} ?s Q")
proof -
  note p = baseD [OF B]
  have ct: "c \<noteq> t" using st z(1) by auto
  have sel: "ut_id (thr ?s x) = ut_id (thr s x)" "ut_prio (thr ?s x) = ut_prio (thr s x)"
    "ut_has_exited (thr ?s x) = ut_has_exited (thr s x)"
    "ut_detached (thr ?s x) = (x = t \<or> ut_detached (thr s x))"
    "ut_waiter (thr ?s x) = (if x = t then Some c else ut_waiter (thr s x))"
    "ut_state (thr ?s x) = ut_state (thr s x)" "ut_ctx (thr ?s x) = ut_ctx (thr s x)" for x
    by auto
  have oth: "qh ?s = qh s" "m_owner ?s = m_owner s" "reaper_thr_id ?s = reaper_thr_id s" by simp_all
  define s' where "s' = ?s"
  note sel = sel [folded s'_def] and oth = oth [folded s'_def]
  have al: "alive s' x = alive s x" "can_run s' x = can_run s x" for x
    by (auto simp: alive_def can_run_def sel)
  have tal: "alive s t" using z by (simp add: alive_def)
  have tx: "ut_has_exited (thr s t)" using thread_okD(6) [OF p(3) tal] z(1) by simp
  have "queues_ok {c} s' Q"
    unfolding queues_ok_def
  proof (intro conjI allI impI)
    fix x q assume x: "x \<in> set (Q q)"
    then show "in_table x" by (rule queues_okD(1) [OF p(2)])
    show "member_ok {c} x (thr s' x) q"
      using queues_okD(2) [OF p(2) x] by (cases q) (auto simp: sel)
  next
    fix x assume "in_table x" and "ut_state (thr s' x) = UT_RUNNABLE"
    then show "x \<in> set (Q (RunQ (nat (ut_prio (thr s' x)))))"
      using queues_okD(3) [OF p(2), of x] by (simp add: sel)
  qed
  moreover have "threads_ok s'"
    using p(3) st by (auto simp: threads_ok_def al thread_ok_def sel)
  moreover have "mtx_ok s' Q" using p(4) by (simp add: mtx_ok_def oth)
  moreover have "joins_ok {c} s' Q"
    using p(5) w tx unfolding joins_ok_def al sel by (auto split: if_splits)
  moreover have "reaper_ok s' Q"
    using p(6) by (simp add: reaper_ok_def Let_def al sel oth)
  moreover have "frames_ok s'"
    using p(7) by (simp add: frames_ok_def al sel)
  ultimately have "base {c} s' Q" using p(1) oth by (simp add: base_def)
  then show ?thesis by (simp add: s'_def)
qed

text \<open>Joining a dead thread: status out, thread on the reaper's list, reaper woken.\<close>

lemma join_done_run:
  assumes B: "base {} s Q" and cur: "cur_ok s" and c: "ut_curthr s = Some c"
    and t: "t = Thr (nat uid)" "in_table t"
    and z: "ut_state (thr s t) = UT_ZOMBIE" and d: "\<not> ut_detached (thr s t)"
    and w: "\<And>x uid. can_run s x \<Longrightarrow> x \<noteq> c \<Longrightarrow> ut_ctx (thr s x) = [In_join uid] \<Longrightarrow> Thr (nat uid) \<noteq> t"
  shows "\<exists>s' Q'. join_loop uid [] (upd_thr t (ut_waiter_update (\<lambda>_. Some c)) s) = ret 0 [] s'
      \<and> base {c} s' Q' \<and> cur_ok s' \<and> ut_curthr s' = Some c \<and> reaper_thr_id s' = reaper_thr_id s
      \<and> free_in Q' c \<and> Q' ReapQ = Q ReapQ @ [t]
      \<and> thr s' c = (thr s c)\<lparr>ut_out := ut_exit (thr s t)\<rparr>"
proof -
  note st = cur_state [OF cur c] and p = baseD [OF B]
  have ct: "c \<noteq> t" using st z by auto
  have tal: "alive s t" using t z by (simp add: alive_def)
  have tx: "ut_has_exited (thr s t)" using thread_okD(6) [OF p(3) tal] z by simp
  let ?s = "upd_thr t (\<lambda>u. u\<lparr>ut_waiter := Some c, ut_detached := True\<rparr>)
           (upd_thr c (ut_out_update (\<lambda>_. ut_exit (thr s t))) s)"
  have eq: "upd_thr t (ut_detached_update (\<lambda>_. True)) (upd_thr c (ut_out_update (\<lambda>_. ut_exit (thr s t)))
      (upd_thr t (ut_waiter_update (\<lambda>_. Some c)) s)) = ?s"
    using ct by (simp add: upd_thr_def fun_upd_twist)
  have B1: "base {c} ?s Q" by (rule join_done_base [OF B st(2) z t(2) w])
  have fr: "free_in Q t" by (rule zombie_free [OF p(2) z d]) simp
  have "alive ?s t" "ut_state (thr ?s t) = UT_ZOMBIE" "ut_detached (thr ?s t)"
    using tal z ct by (simp_all add: alive_def)
  from make_reapable_base [OF B1 this fr] obtain s' Q' where
    s': "make_reapable t ?s = Inr s'" "base {c} s' Q'" "woken (Thr (nat (reaper_thr_id ?s))) ?s s'"
      "\<forall>q. (\<forall>p. q \<noteq> RunQ p) \<longrightarrow> Q' q = (Q(ReapQ := Q ReapQ @ [t])) q"
    by blast
  have k: "keeps ?s s'" by (rule woken_keeps [OF s'(3)])
  have "cur_ok ?s" by (intro cur_ok_upd cur) simp_all
  then have cur': "cur_ok s'" by (rule keeps_cur_ok [OF _ k])
  have c': "ut_curthr s' = Some c" using keepsD(1) [OF k] c by simp
  have "Q' (CondQ n) = Q (CondQ n)" for n using s'(4) by simp
  then have fc: "free_in Q' c"
    unfolding free_in_def
    using queues_okD(2) [OF baseD(2) [OF s'(2)], of c] cur_state(2) [OF cur' c']
      cur_free [OF B cur c]
    by (intro allI, rename_tac q, case_tac q) (fastforce simp: free_in_def)+
  have out: "thr s' c = (thr s c)\<lparr>ut_out := ut_exit (thr s t)\<rparr>"
    using keepsD(3) [OF k, of c] st(2) ct by simp
  have "join_loop uid [] (upd_thr t (ut_waiter_update (\<lambda>_. Some c)) s)
      = bnd (make_reapable t ?s) (ret 0 [])"
    using c tx ct by (simp add: join_loop_def Let_def t(1) [symmetric] eq)
  moreover have "Q' ReapQ = Q ReapQ @ [t]" "reaper_thr_id s' = reaper_thr_id s"
    using s'(4) keepsD(2) [OF k] by simp_all
  ultimately show ?thesis using s'(1,2) cur' c' fc out by auto
qed

lemma join_done_safe:
  assumes B: "base {} s Q" and cur: "cur_ok s" and c: "ut_curthr s = Some c"
    and nr: "c \<noteq> Thr (nat (reaper_thr_id s))" and t: "t = Thr (nat uid)" "in_table t"
    and z: "ut_state (thr s t) = UT_ZOMBIE" and d: "\<not> ut_detached (thr s t)"
    and w: "\<And>x uid. can_run s x \<Longrightarrow> x \<noteq> c \<Longrightarrow> ut_ctx (thr s x) = [In_join uid] \<Longrightarrow> Thr (nat uid) \<noteq> t"
  shows "safe (join_loop uid [] (upd_thr t (ut_waiter_update (\<lambda>_. Some c)) s))"
proof -
  obtain s' Q' where
    s': "join_loop uid [] (upd_thr t (ut_waiter_update (\<lambda>_. Some c)) s) = ret 0 [] s'"
      "base {c} s' Q'" "cur_ok s'" "ut_curthr s' = Some c" "reaper_thr_id s' = reaper_thr_id s"
      "free_in Q' c"
    using join_done_run [OF B cur c t z d] w by blast
  show ?thesis unfolding s'(1)
    by (rule ret_safe [OF s'(2) _ s'(3,4)]) (use nr s'(5,6) in auto)
qed

definition join_contract :: "int \<Rightarrow> usys \<Rightarrow> bool" where
  "join_contract uid s \<longleftrightarrow> valid_uid uid \<and> alive s (Thr (nat uid)) \<longrightarrow> ut_waiter (thr s (Thr (nat uid))) = None"

lemma join_safe:
  assumes B: "base {} s Q" and cur: "cur_ok s" and c: "ut_curthr s = Some c"
    and nr: "c \<noteq> Thr (nat (reaper_thr_id s))" and con: "join_contract uid s"
  shows "safe (uthread_join uid [] s)"
proof -
  note st = cur_state [OF cur c] and p = baseD [OF B] and er = errno_ret_safe [OF B cur c nr]
  let ?t = "Thr (nat uid)"
  have "safe (join_loop uid [] (upd_thr ?t (ut_waiter_update (\<lambda>_. Some c)) s))"
    if v: "valid_uid uid" "ut_state (thr s ?t) \<noteq> UT_NO_STATE" and d: "\<not> ut_detached (thr s ?t)"
  proof -
    have tab: "in_table ?t" using v(1) by (auto simp: valid_uid_def)
    then have al: "alive s ?t" using v by (simp add: alive_def)
    then have w: "ut_waiter (thr s ?t) = None" using con v by (simp add: join_contract_def)
    show ?thesis
    proof (cases "ut_state (thr s ?t) = UT_ZOMBIE")
      case True
      show ?thesis
        by (rule join_done_safe [OF B cur c nr refl tab True d])
          (use joins_okD2(3) [OF p(5)] w in fastforce)
    next
      case False
      then have nx: "\<not> ut_has_exited (thr s ?t)" using thread_okD(6) [OF p(3) al] by simp
      let ?s = "upd_thr ?t (ut_waiter_update (\<lambda>_. Some c)) s"
      have "safe (uthread_block [In_join uid] ?s)"
      proof (rule block_safe [OF _ _ join_wait_base [OF B st nr refl v(1) al d w]])
        show "cur_ok ?s" by (rule cur_ok_upd [OF cur]) simp
      qed (simp add: c)
      then show ?thesis using nx by (simp add: join_loop_def Let_def)
    qed
  qed
  then show ?thesis using er c st by (simp add: uthread_join_def)
qed

text \<open>A joiner that was woken finds its target dead.\<close>

lemma join_resume_safe:
  assumes B: "base {} s Q" and cur: "cur_ok s" and c: "ut_curthr s = Some c"
    and k: "ut_ctx (thr s c) = [In_join uid]"
  shows "safe (join_loop uid [] s)"
proof -
  note st = cur_state [OF cur c] and p = baseD [OF B]
  let ?t = "Thr (nat uid)"
  have run: "can_run s c" using st by (simp add: can_run_def alive_def)
  have nr: "c \<noteq> Thr (nat (reaper_thr_id s))" using p(6) k by (auto simp: reaper_ok_def Let_def)
  note j = joins_okD2 [OF p(5) run _ k, simplified]
  have tx: "ut_has_exited (thr s ?t)"
    using joins_okD1(2) [OF p(5) j(2,3)] st(2) by auto
  then have z: "ut_state (thr s ?t) = UT_ZOMBIE" using thread_okD(6) [OF p(3) j(2)] by simp
  have same: "upd_thr ?t (ut_waiter_update (\<lambda>_. Some c)) s = s"
  proof -
    have "(thr s ?t)\<lparr>ut_waiter := Some c\<rparr> = thr s ?t" using j(3) by (cases "thr s ?t") simp
    then show ?thesis by (simp add: upd_thr_def)
  qed
  have "safe (join_loop uid [] (upd_thr ?t (ut_waiter_update (\<lambda>_. Some c)) s))"
    by (rule join_done_safe [OF B cur c nr refl _ z j(4)])
      (use joins_okD2(3) [OF p(5)] j in \<open>fastforce simp: alive_def\<close>)+
  then show ?thesis by (simp only: same)
qed

end
