(* ===== verification/Umain.thy ===== *)
theory Umain
  imports Uexit
begin

text \<open>
  Detach and the reaper, start-up, and the step relation of the whole library with its
  reachable states.
\<close>

subsection \<open>Detach\<close>

definition detach_contract :: "int \<Rightarrow> usys \<Rightarrow> bool" where
  "detach_contract uid s \<longleftrightarrow> (valid_uid uid \<and> alive s (Thr (nat uid)) \<longrightarrow>
     ut_waiter (thr s (Thr (nat uid))) = None \<and> ut_state (thr s (Thr (nat uid))) \<noteq> UT_ZOMBIE)"

lemma detach_base:
  assumes B: "base {} s Q" and w: "ut_waiter (thr s t) = None"
  shows "base {} (upd_thr t (ut_detached_update (\<lambda>_. True)) s) Q" (is "base {} ?s Q")
proof -
  note p = baseD [OF B]
  have al: "alive ?s x = alive s x" "can_run ?s x = can_run s x" for x
    by (auto simp: alive_def can_run_def)
  have "queues_ok {} ?s Q"
    unfolding queues_ok_def
  proof (intro conjI allI impI)
    fix x q assume x: "x \<in> set (Q q)"
    show "in_table x" by (rule queues_okD(1) [OF p(2) x])
    show "member_ok {} x (thr ?s x) q"
      using queues_okD(2) [OF p(2) x] by (cases q; cases "x = t") auto
  next
    fix x assume "in_table x" and "ut_state (thr ?s x) = UT_RUNNABLE"
    then show "x \<in> set (Q (RunQ (nat (ut_prio (thr ?s x)))))"
      using queues_okD(3) [OF p(2), of x] by (cases "x = t") auto
  qed
  moreover have "threads_ok ?s"
    using p(3) by (auto simp: threads_ok_def al thread_ok_def)
  moreover have "mtx_ok ?s Q" using p(4) by (simp add: mtx_ok_def)
  moreover have "joins_ok {} ?s Q"
    using p(5) w unfolding joins_ok_def al by (auto split: if_splits)
  moreover have "reaper_ok ?s Q"
    using p(6) by (auto simp: reaper_ok_def Let_def al)
  moreover have "frames_ok ?s"
    using p(7) by (auto simp: frames_ok_def al)
  ultimately show ?thesis using p(1) by (simp add: base_def)
qed

lemma detach_safe:
  assumes B: "base {} s Q" and cur: "cur_ok s" and c: "ut_curthr s = Some c"
    and nr: "c \<noteq> Thr (nat (reaper_thr_id s))" and con: "detach_contract uid s"
  shows "safe (uthread_detach uid [] s)"
proof -
  have er: "safe (bnd (set_errno e s) (\<lambda>s. ret v [] s))" for e v
  proof -
    obtain s' where s': "set_errno e s = Inr s'" "base {} s' Q" "cur_ok s'"
      "ut_curthr s' = Some c" "reaper_thr_id s' = reaper_thr_id s"
      using set_errno_base [OF B cur c] by blast
    then show ?thesis using ret_safe [OF s'(2) _ s'(3,4)] nr by simp
  qed
  let ?t = "Thr (nat uid)"
  show ?thesis
  proof (cases "valid_uid uid \<and> ut_state (thr s ?t) \<noteq> UT_NO_STATE
      \<and> \<not> ut_detached (thr s ?t) \<and> ut_waiter (thr s c) = None")
    case False
    then show ?thesis using er c
      by (auto simp: uthread_detach_def detach_def Let_def bnd_assoc)
  next
    case True
    then have "alive s ?t" by (auto simp: valid_uid_def alive_def)
    with con True have w: "ut_waiter (thr s ?t) = None" "ut_state (thr s ?t) \<noteq> UT_ZOMBIE"
      by (simp_all add: detach_contract_def)
    let ?s = "upd_thr ?t (ut_detached_update (\<lambda>_. True)) s"
    have "cur_ok ?s" by (rule cur_ok_upd [OF cur]) simp
    then have "safe (ret 0 [] ?s)"
      using ret_safe [OF detach_base [OF B w(1)], of c] c nr by simp
    then show ?thesis using True w c
      by (simp add: uthread_detach_def detach_def Let_def)
  qed
qed

subsection \<open>The reaper\<close>

lemma destroy_base:
  assumes B: "base E s Q" and z: "ut_state (thr s t) = UT_ZOMBIE" "in_table t" "ut_detached (thr s t)"
    and E: "\<forall>x\<in>E. \<forall>uid. ut_ctx (thr s x) \<noteq> [In_join uid]" and free: "free_in Q t"
  shows "base E (uthread_destroy t s) Q"
proof -
  note p = baseD [OF B]
  define s' where "s' = uthread_destroy t s"
  have same: "(qh s)\<lparr>links := (links (qh s))(TLink t := null_link)\<rparr> = qh s"
    using qrep_clear_link [OF p(1)] free unfolding free_in_def by blast
  have oth: "thr s' = (thr s)(t := zero_uthread)" "qh s' = qh s" "m_owner s' = m_owner s"
    "reaper_thr_id s' = reaper_thr_id s"
    using same by (simp_all add: s'_def uthread_destroy_def clear_thread_def free_stack_def
        split: option.splits)
  have al: "alive s' x \<longleftrightarrow> alive s x \<and> x \<noteq> t" "can_run s' x = can_run s x" for x
    using z by (auto simp: alive_def can_run_def oth zero_uthread_def)
  have tn: "t \<notin> set (Q q)" for q using free by (simp add: free_in_def)
  have "queues_ok E s' Q"
    unfolding queues_ok_def
  proof (intro conjI allI impI)
    fix x q assume x: "x \<in> set (Q q)"
    show "in_table x" by (rule queues_okD(1) [OF p(2) x])
    have "x \<noteq> t" using x tn by blast
    then show "member_ok E x (thr s' x) q" using queues_okD(2) [OF p(2) x] by (simp add: oth)
  next
    fix x assume "in_table x" and "ut_state (thr s' x) = UT_RUNNABLE"
    then show "x \<in> set (Q (RunQ (nat (ut_prio (thr s' x)))))"
      using queues_okD(3) [OF p(2), of x] by (cases "x = t") (auto simp: oth zero_uthread_def)
  qed
  moreover have "threads_ok s'" using p(3) by (simp add: threads_ok_def al oth)
  moreover have "mtx_ok s' Q" using p(4) by (simp add: mtx_ok_def oth)
  moreover have "joins_ok E s' Q"
  proof -
    have "w \<noteq> t" if "ut_state (thr s w) = UT_WAIT" for w using that z by auto
    moreover have "w \<noteq> t" if "can_run s w" for w using that z by (auto simp: can_run_def)
    ultimately show ?thesis
      using p(5) z(3) unfolding joins_ok_def al oth by (auto split: if_splits)
  qed
  moreover have "reaper_ok s' Q"
    using p(6) z(1) by (auto simp: reaper_ok_def Let_def al oth can_run_def)
  moreover have "frames_ok s'"
    using p(7) z(1) by (auto simp: frames_ok_def al oth can_run_def)
  ultimately show ?thesis using p(1) by (simp add: base_def s'_def [symmetric] oth)
qed

lemma destroy_simps [simp]:
  "thr (uthread_destroy t s) = (thr s)(t := zero_uthread)"
  "ut_curthr (uthread_destroy t s) = ut_curthr s"
  "reaper_thr_id (uthread_destroy t s) = reaper_thr_id s"
  "m_owner (uthread_destroy t s) = m_owner s"
  by (simp_all add: uthread_destroy_def clear_thread_def free_stack_def split: option.splits)

lemma destroy_qh:
  assumes "qrep (qh s) Q" and "free_in Q t"
  shows "qh (uthread_destroy t s) = qh s"
  using qrep_clear_link [OF assms(1)] assms(2)
  by (simp add: uthread_destroy_def clear_thread_def free_stack_def free_in_def split: option.splits)

text \<open>Taking the first dead thread off the list of the reaper.\<close>

lemma reap_pop_base:
  assumes B: "base {} s Q" and Qy: "Q ReapQ = t # ys" and R: "qrep h (Q(ReapQ := ys))"
  shows "base {} (s\<lparr>qh := h\<rparr>) (Q(ReapQ := ys))" (is "base _ _ ?Q")
proof -
  note p = baseD [OF B]
  have sub: "x \<in> set (?Q q') \<Longrightarrow> x \<in> set (Q q')" for x q' using Qy by (auto split: if_splits)
  have "queues_ok {} s ?Q" by (rule queues_ok_upd [OF p(2)]) (use Qy in auto)
  moreover have "mtx_ok s ?Q" using p(4) unfolding mtx_ok_def by auto
  moreover have "joins_ok {} s ?Q"
    by (rule joins_ok_frame [OF p(5)]) (use sub in \<open>auto simp: free_in_def simp del: fun_upd_apply\<close>)
  moreover have "reaper_ok s ?Q"
    using p(6) unfolding reaper_ok_def Let_def by auto
  ultimately show ?thesis using R p(3,7) by (simp add: base_def)
qed

text \<open>The iteration destroys every dead thread of the list and nothing else.\<close>

lemma reap_iter_base:
  assumes "base {} s Q" and "Q ReapQ = ys" and "length ys < fuel"
  shows "\<exists>s'. reap_iter fuel (l_next (links (qh s) (Head ReapQ))) s = Inr s'
           \<and> base {} s' (Q(ReapQ := [])) \<and> ut_curthr s' = ut_curthr s
           \<and> reaper_thr_id s' = reaper_thr_id s \<and> m_owner s' = m_owner s
           \<and> (\<forall>t. thr s' t = (if t \<in> set ys then zero_uthread else thr s t))"
  using assms
proof (induction fuel arbitrary: s Q ys)
  case 0 then show ?case by simp
next
  case (Suc fuel)
  note B = Suc.prems(1) and p = baseD [OF Suc.prems(1)]
  have d: "dll (links (qh s)) (Head ReapQ) (map TLink ys)"
    using qrepD(1) [OF p(1), of ReapQ] Suc.prems(2) by simp
  show ?case
  proof (cases ys)
    case Nil
    then have "l_next (links (qh s) (Head ReapQ)) = Some (Head ReapQ)" using d by (simp add: dll_def)
    moreover have "Q(ReapQ := []) = Q" using Suc.prems(2) Nil by auto
    ultimately show ?thesis using B Nil by simp
  next
    case (Cons t zs)
    have n: "l_next (links (qh s) (Head ReapQ)) = Some (TLink t)" using d Cons by (simp add: dll_def)
    have n': "l_next (links (qh s) (TLink t)) = Some (hd (map TLink zs @ [Head ReapQ]))"
      using d Cons by (auto simp: dll_def dest: lseg_first_next)
    have Qy: "Q ReapQ = t # zs" using Suc.prems(2) Cons by simp
    then have tin: "t \<in> set (Q ReapQ)" by simp
    have z: "ut_state (thr s t) = UT_ZOMBIE" "in_table t" "ut_detached (thr s t)"
      using queues_okD(1,2) [OF p(2) tin] by simp_all
    obtain h where h: "list_remove (TLink t) (links (qh s)) = Inr h"
        "qrep ((qh s)\<lparr>links := h\<rparr>) (Q(ReapQ := zs))"
      using reapq_remove_rep [OF p(1) Qy] by blast
    let ?s1 = "s\<lparr>qh := (qh s)\<lparr>links := h\<rparr>\<rparr>"
    let ?s = "uthread_destroy t ?s1"
    have tz: "t \<notin> set zs" using tq.rep_distinct [OF p(1), of ReapQ] Qy by simp
    have free: "free_in (Q(ReapQ := zs)) t"
      using tz tq.rep_unique [OF p(1) tin] unfolding free_in_def fun_upd_apply by metis
    have B1: "base {} ?s1 (Q(ReapQ := zs))" by (rule reap_pop_base [OF B Qy h(2)])
    have B2: "base {} ?s (Q(ReapQ := zs))"
      by (rule destroy_base [OF B1 _ _ _ _ free]) (use z in auto)
    have qh: "qh ?s = (qh s)\<lparr>links := h\<rparr>" using destroy_qh [OF _ free, of ?s1] h(2) by simp
    have "dll h (Head ReapQ) (map TLink zs)" using qrepD(1) [OF h(2), of ReapQ] by simp
    then have n2: "l_next (links (qh ?s) (Head ReapQ)) = Some (hd (map TLink zs @ [Head ReapQ]))"
      unfolding qh by (auto simp: dll_def dest: lseg_first_next)
    have "(Q(ReapQ := zs)) ReapQ = zs" "length zs < fuel" using Suc.prems(3) Cons by simp_all
    from Suc.IH [OF B2 this, unfolded fun_upd_upd] obtain s' where s':
      "reap_iter fuel (l_next (links (qh ?s) (Head ReapQ))) ?s = Inr s'"
      "base {} s' (Q(ReapQ := []))" "ut_curthr s' = ut_curthr ?s"
      "reaper_thr_id s' = reaper_thr_id ?s" "m_owner s' = m_owner ?s"
      "\<forall>x. thr s' x = (if x \<in> set zs then zero_uthread else thr ?s x)" by blast
    have "reap_iter (Suc fuel) (l_next (links (qh s) (Head ReapQ))) s = Inr s'"
      using s'(1) z(1) h(1) by (simp add: n n' n2 Let_def)
    moreover have "thr s' x = (if x \<in> set ys then zero_uthread else thr s x)" for x
      using s'(6) Cons by auto
    moreover have "ut_curthr s' = ut_curthr s" "reaper_thr_id s' = reaper_thr_id s"
      "m_owner s' = m_owner s" using s'(3-5) by simp_all
    ultimately show ?thesis using s'(2) by blast
  qed
qed

lemma reaper_wait_safe:
  assumes B: "base {} s Q" and cur: "cur_ok s" and c: "ut_curthr s = Some c"
  shows "safe (uthread_block [In_reaper] s)"
proof -
  note st = cur_state [OF cur c]
  have "base {} (upd_thr c (\<lambda>u. u\<lparr>ut_state := UT_WAIT, ut_ctx := [In_reaper]\<rparr>) (s\<lparr>qh := qh s\<rparr>)) Q"
    by (rule park_base [OF B _ st]) (use baseD(1) [OF B] in auto)
  then show ?thesis using block_safe [OF cur c] by simp
qed

lemma reaper_round_base:
  assumes B: "base {} s Q"
  obtains s' where "reap_iter (UTH_MAX_UTHREADS + 2) (l_next (links (qh s) (Head ReapQ))) s = Inr s'"
    "base {} s' (Q(ReapQ := []))" "ut_curthr s' = ut_curthr s"
    "reaper_thr_id s' = reaper_thr_id s" "m_owner s' = m_owner s"
    "\<forall>t. thr s' t = (if t \<in> set (Q ReapQ) then zero_uthread else thr s t)"
proof -
  have "length (Q ReapQ) < UTH_MAX_UTHREADS + 2"
    using queue_length [OF baseD(2,1) [OF B], of ReapQ] by simp
  from reap_iter_base [OF B refl this] that show ?thesis by blast
qed

lemma reaper_round_safe:
  assumes B: "base {} s Q" and cur: "cur_ok s" and c: "ut_curthr s = Some c"
  shows "safe (reaper_round [] s)"
proof (rule reaper_round_base [OF B])
  fix s' assume s': "reap_iter (UTH_MAX_UTHREADS + 2) (l_next (links (qh s) (Head ReapQ))) s = Inr s'"
    "base {} s' (Q(ReapQ := []))" "ut_curthr s' = ut_curthr s"
    "\<forall>t. thr s' t = (if t \<in> set (Q ReapQ) then zero_uthread else thr s t)"
  have "cur_ok s'"
  proof (rule cur_ok_cong [OF cur s'(3)])
    fix t
    have "ut_state (thr s t) \<noteq> UT_ON_CPU" if "t \<in> set (Q ReapQ)"
      using queues_okD(2) [OF baseD(2) [OF B] that] by simp
    then show "ut_state (thr s' t) = UT_ON_CPU \<longleftrightarrow> ut_state (thr s t) = UT_ON_CPU"
      using s'(4) by (auto simp: zero_uthread_def)
  qed
  then have "safe (uthread_block [In_reaper] s')"
    by (rule reaper_wait_safe [OF s'(2)]) (use s'(3) c in simp)
  then show ?thesis using s'(1) by (simp add: reaper_round_def)
qed

subsection \<open>The step\<close>

definition good_call :: "ucall \<Rightarrow> usys \<Rightarrow> bool" where
  "good_call c s \<longleftrightarrow> (case c of
       Join uid \<Rightarrow> join_contract uid s
     | Detach uid \<Rightarrow> detach_contract uid s
     | Mtx_unlock m \<Rightarrow> m_owner s m = ut_curthr s
     | Cond_wait _ m \<Rightarrow> m_owner s m = ut_curthr s
     | _ \<Rightarrow> True)"

lemma setprio_safe:
  assumes B: "base {} s Q" and cur: "cur_ok s" and c: "ut_curthr s = Some c"
    and nr: "c \<noteq> Thr (nat (reaper_thr_id s))"
  shows "safe (bnd (uthread_setprio uid prio s) (\<lambda>(rv, s). ret rv [] s))"
proof -
  obtain rv s' Q' where s': "uthread_setprio uid prio s = Inr (rv, s')" "base {} s' Q'" "cur_ok s'"
    "ut_curthr s' = Some c" "reaper_thr_id s' = reaper_thr_id s"
    using setprio_base [OF B cur c, of uid prio] by blast
  then show ?thesis using ret_safe [OF s'(2) _ s'(3,4)] nr by simp
qed

lemma exec_call_safe:
  assumes B: "base {} s Q" and cur: "cur_ok s" and c: "ut_curthr s = Some c"
    and k: "ut_ctx (thr s c) = []" and g: "good_call call s"
  shows "safe (exec_call call s)"
proof -
  have nr: "c \<noteq> Thr (nat (reaper_thr_id s))"
    using baseD(6) [OF B] k by (auto simp: reaper_ok_def Let_def)
  note a = B cur c nr
  show ?thesis
    using g c by (cases call)
      (simp_all add: good_call_def create_safe [OF a] exit_safe [OF a] join_safe [OF a]
        detach_safe [OF a] yield_safe [OF a] setprio_safe [OF a] mtx_lock_safe [OF a]
        mtx_trylock_safe [OF a] mtx_unlock_safe [OF a] cond_wait_safe [OF a]
        cond_signal_safe [OF a] cond_broadcast_safe [OF a])
qed

fun_cases frames_ok1_cases: "frames_ok1 i (f # k)"

lemma run_frame_safe:
  assumes B: "base {} s Q" and cur: "cur_ok s" and c: "ut_curthr s = Some c"
    and k: "ut_ctx (thr s c) = f # k"
  shows "safe (run_frame f k s)"
proof -
  note p = baseD [OF B] and st = cur_state [OF cur c]
  have run: "can_run s c" using st by (simp add: can_run_def alive_def)
  then have ok: "frames_ok1 (ut_id (thr s c)) (f # k)" using p(7) k by (metis frames_ok_def)
  have nr: "c = Thr (nat (reaper_thr_id s)) \<Longrightarrow> f # k = [At_start Reaper] \<or> f # k = [In_reaper]"
    using p(6) k by (auto simp: reaper_ok_def Let_def)
  from ok show ?thesis
  proof (cases rule: frames_ok1_cases)
    fix uid assume a: "k = []" "f = In_join uid"
    with k have "ut_ctx (thr s c) = [In_join uid]" by simp
    from join_resume_safe [OF B cur c this] a show ?thesis by simp
  next
    fix m assume "k = []" "f = In_cond_wait m"
    then show ?thesis using mtx_lock_safe [OF B cur c] nr by auto
  next
    assume "k = []" "f = In_reaper"
    then show ?thesis using reaper_round_safe [OF B cur c] by simp
  next
    fix fn assume "k = []" "f = At_start fn" "fn \<noteq> Null_func"
    then show ?thesis
      using reaper_wait_safe [OF B cur c] ret_safe [OF B _ cur c] nr by (cases fn) auto
  next
    assume "k = []" "f = In_first (ut_id (thr s c))"
    then show ?thesis
      using ret_safe [OF B _ cur c] nr c st
      by (auto simp: first_thr_rest_def uthread_self_def)
  qed
qed

theorem ustep_safe:
  assumes "uinv s" and "good_call call s"
  shows "safe (ustep call s)"
proof -
  obtain Q c where a: "base {} s Q" "cur_ok s" "ut_curthr s = Some c"
    using assms(1) by (auto simp: uinv_def cur_ok_def)
  then show ?thesis
    using exec_call_safe [OF a _ assms(2)] run_frame_safe [OF a]
    by (simp add: ustep_def split: list.splits)
qed

end
