(* ===== verification/Uboot.thy ===== *)
theory Uboot
  imports Umain
begin

text \<open>
  Start-up establishes the invariant, and with \<open>ustep_safe\<close> it holds in every state that an
  application can reach.
\<close>

subsection \<open>uthread_init\<close>

lemma init_runqs_eq:
  "links (init_runqs n h) a = (case a of Head (RunQ p) \<Rightarrow>
      if p < n then \<lparr>l_next = Some a, l_prev = Some a\<rparr> else links h a | _ \<Rightarrow> links h a)"
  "tq_size (init_runqs n h) q = (case q of RunQ p \<Rightarrow> if p < n then 0 else tq_size h q | _ \<Rightarrow> tq_size h q)"
  by (induction n)
    (auto simp: utqueue_init_def list_init_def set_next_def set_prev_def less_Suc_eq
      split: laddr.splits qid.splits)

text \<open>The state after \<open>uthread_sched_init\<close> and the initialisation of the reaper's list.\<close>

definition boot1 :: usys where
  "boot1 = (let s = uthread_sched_init boot_state
     in s\<lparr>qh := (qh s)\<lparr>links := list_init (Head ReapQ) (links (qh s))\<rparr>\<rparr>)"

lemma boot1_simps [simp]:
  "thr boot1 = (\<lambda>_. zero_uthread)" "ut_curthr boot1 = None" "m_owner boot1 = (\<lambda>_. None)"
  "reaper_thr_id boot1 = 0" "stacks boot1 = {}" "next_stack boot1 = 0"
  by (simp_all add: boot1_def uthread_sched_init_def boot_state_def Let_def)

lemma boot1_links:
  "links (qh boot1) (Head q) = \<lparr>l_next = Some (Head q), l_prev = Some (Head q)\<rparr>"
  "links (qh boot1) (TLink t) = null_link" "tq_size (qh boot1) q = 0"
proof -
  let ?h = "init_runqs (UTH_MAXPRIO + 1) \<lparr>links = boot_links, tq_size = (\<lambda>_. 0)\<rparr>"
  have eq: "qh boot1 = ?h\<lparr>links := list_init (Head ReapQ) (links ?h)\<rparr>"
    by (simp add: boot1_def uthread_sched_init_def boot_state_def Let_def del: init_runqs.simps)
  have li: "list_init l h = h(l := \<lparr>l_next = Some l, l_prev = Some l\<rparr>)" for l :: laddr and h
    by (simp add: list_init_def set_next_def set_prev_def fun_eq_iff)
  show "links (qh boot1) (Head q) = \<lparr>l_next = Some (Head q), l_prev = Some (Head q)\<rparr>"
    by (cases q) (simp_all add: eq li init_runqs_eq boot_links_def del: init_runqs.simps)
  show "links (qh boot1) (TLink t) = null_link" "tq_size (qh boot1) q = 0"
    by (simp_all add: eq li init_runqs_eq boot_links_def del: init_runqs.simps split: qid.splits)
qed

lemma boot1_rep: "qrep (qh boot1) (\<lambda>_. [])"
  by (simp add: qrep_def dll_def boot1_links)

lemma alloc_first:
  assumes "\<And>i. i < j \<Longrightarrow> ut_state (thr s (Thr i)) \<noteq> UT_NO_STATE" and "j < UTH_MAX_UTHREADS"
    and "ut_state (thr s (Thr j)) = UT_NO_STATE"
  shows "uthread_alloc s = int j"
proof (cases s rule: uthread_alloc_cases)
  case 1 with assms(2,3) show ?thesis by blast
next
  case (2 k)
  then have "k = j" using assms(1) [of k] assms(3) by (metis linorder_neqE_nat)
  with 2 show ?thesis by simp
qed

text \<open>After the reaper was created the table satisfies the invariant; nothing is on the processor.\<close>

lemma reaper_init_boot:
  "\<exists>h. reaper_init (uthread_sched_init boot_state)
      = Inr (boot1\<lparr>thr := (\<lambda>_. zero_uthread)(Thr 0 := new_thread 0 (int UTH_MAXPRIO) Reaper), qh := h,
          stacks := {0}, next_stack := 1\<rparr>)
    \<and> qrep h ((\<lambda>_. [])(RunQ UTH_MAXPRIO := [Thr 0]))"
proof -
  have al: "uthread_alloc boot1 = int 0"
    by (rule alloc_first) (simp_all add: UTH_MAX_UTHREADS_def zero_uthread_def)
  have "\<exists>h. uthread_create Reaper (int UTH_MAXPRIO) boot1 = Inr (0, int 0,
      boot1\<lparr>thr := (thr boot1)(Thr 0 := new_thread (int 0) (int UTH_MAXPRIO) Reaper), qh := h,
        stacks := insert (next_stack boot1) (stacks boot1), next_stack := Suc (next_stack boot1)\<rparr>)
    \<and> qrep h ((\<lambda>_. [])(RunQ (nat (int UTH_MAXPRIO)) := [Thr 0]))"
    using create_eq [OF boot1_rep al, of "int UTH_MAXPRIO" Reaper]
    by (simp add: UTH_MAX_UTHREADS_def free_in_def)
  then obtain h where h: "uthread_create Reaper (int UTH_MAXPRIO) boot1 = Inr (0, 0,
      boot1\<lparr>thr := (\<lambda>_. zero_uthread)(Thr 0 := new_thread 0 (int UTH_MAXPRIO) Reaper), qh := h,
        stacks := {0}, next_stack := 1\<rparr>)"
      "qrep h ((\<lambda>_. [])(RunQ UTH_MAXPRIO := [Thr 0]))" by auto
  let ?s = "boot1\<lparr>thr := (\<lambda>_. zero_uthread)(Thr 0 := new_thread 0 (int UTH_MAXPRIO) Reaper), qh := h,
          stacks := {0}, next_stack := 1\<rparr>"
  have "?s\<lparr>reaper_thr_id := 0\<rparr> = ?s" by simp
  then have "reaper_init (uthread_sched_init boot_state) = Inr ?s"
    unfolding reaper_init_def Let_def boot1_def [unfolded Let_def, symmetric] h(1) by simp
  with h(2) show ?thesis by blast
qed

lemma boot_base:
  assumes R: "qrep (qh s) ((\<lambda>_. [])(RunQ UTH_MAXPRIO := [Thr 0]))" and id: "reaper_thr_id s = 0"
    and T: "\<And>t. in_table t \<Longrightarrow> t \<noteq> Thr 0 \<Longrightarrow> thr s t = zero_uthread"
    and T0: "thr s (Thr 0) = new_thread 0 (int UTH_MAXPRIO) Reaper"
  shows "base {} s ((\<lambda>_. [])(RunQ UTH_MAXPRIO := [Thr 0]))" (is "base {} s ?Q")
proof -
  have al: "alive s t \<longleftrightarrow> t = Thr 0" "can_run s t \<longleftrightarrow> t = Thr 0" for t
    using T [of t] T0
    by (cases "t = Thr 0"; auto simp: alive_def can_run_def new_thread_def zero_uthread_def
        UTH_MAX_UTHREADS_def)+
  have st: "ut_state (thr s t) = UT_NO_STATE" if "in_table t" "t \<noteq> Thr 0" for t
    using T [OF that] by (simp add: zero_uthread_def)
  have run: "t = Thr 0" if "in_table t" "ut_state (thr s t) = UT_RUNNABLE" for t
    using st [of t] that by (cases "t = Thr 0") auto
  have "queues_ok {} s ?Q"
    unfolding queues_ok_def
  proof (intro conjI allI impI)
    fix t q assume "t \<in> set (?Q q)"
    then have "t = Thr 0" "q = RunQ UTH_MAXPRIO" by (auto split: if_splits)
    then show "in_table t" "member_ok {} t (thr s t) q"
      using T0 by (simp_all add: new_thread_def UTH_MAX_UTHREADS_def)
  next
    fix t assume "in_table t" "ut_state (thr s t) = UT_RUNNABLE"
    then have "t = Thr 0" by (rule run)
    then show "t \<in> set (?Q (RunQ (nat (ut_prio (thr s t)))))" using T0 by (simp add: new_thread_def)
  qed
  moreover have "threads_ok s"
    using T0 by (simp add: threads_ok_def al thread_ok_def new_thread_def zero_uthread_def)
  moreover have "mtx_ok s ?Q" by (simp add: mtx_ok_def)
  moreover have "joins_ok {} s ?Q"
    using T0 by (simp add: joins_ok_def al new_thread_def zero_uthread_def)
  moreover have "reaper_ok s ?Q"
    using T0 by (simp add: reaper_ok_def Let_def al id valid_uid_def UTH_MAX_UTHREADS_def
        new_thread_def)
  moreover have "frames_ok s" using T0 by (simp add: frames_ok_def al new_thread_def)
  ultimately show ?thesis using R by (simp add: base_def)
qed

text \<open>The first thread before it is switched to.\<close>

definition first_thread :: uthread where
  "first_thread = (new_thread 1 (int UTH_MAXPRIO) Null_func)
     \<lparr>ut_detached := True, ut_ctx := [In_first 1]\<rparr>"

lemma switch_picks:
  assumes c: "ut_curthr s = Some c"
    and B: "base {} (upd_thr c (ut_ctx_update (\<lambda>_. k)) s) Q"
    and i: "i \<le> UTH_MAXPRIO" "Q (RunQ i) = xs @ [t]"
      "\<And>j. i < j \<Longrightarrow> j \<le> UTH_MAXPRIO \<Longrightarrow> Q (RunQ j) = []"
  shows "\<exists>s'. uthread_switch k s = Inr s' \<and> ut_curthr s' = Some t"
  using uthread_switch_rep [OF c B]
proof (elim disjE exE conjE)
  fix i' xs' t' h
  assume i': "i' \<le> UTH_MAXPRIO" "Q (RunQ i') = xs' @ [t']"
      "\<forall>j. i' < j \<longrightarrow> j \<le> UTH_MAXPRIO \<longrightarrow> Q (RunQ j) = []"
    and sw: "uthread_switch k s = Inr (upd_thr t' (ut_state_update (\<lambda>_. UT_ON_CPU))
                ((upd_thr c (ut_ctx_update (\<lambda>_. k)) s)\<lparr>qh := h, ut_curthr := Some t'\<rparr>))"
  have "\<not> i < i'" "\<not> i' < i" using i i' by fastforce+
  then have "i' = i" by simp
  with i i' have "t' = t" by simp
  with sw show ?thesis by simp
qed (use i in simp)

lemma create_first_boot:
  assumes s: "s = boot1\<lparr>thr := (\<lambda>_. zero_uthread)(Thr 0 := new_thread 0 (int UTH_MAXPRIO) Reaper),
      qh := h, stacks := {0}, next_stack := 1\<rparr>"
    and R: "qrep h ((\<lambda>_. [])(RunQ UTH_MAXPRIO := [Thr 0]))"
  shows "\<exists>s'. create_first_thr s = Inr s' \<and> uinv s' \<and> ut_curthr s' = Some (Thr 0)"
proof -
  let ?Q = "(\<lambda>_. [])(RunQ UTH_MAXPRIO := [Thr 0])"
  let ?hack = "zero_uthread\<lparr>ut_state := UT_ON_CPU\<rparr>"
  define s1 where "s1 = s\<lparr>thr := (thr s)(Hack := ?hack), ut_curthr := Some Hack\<rparr>"
  have "h\<lparr>links := (links h)(TLink Hack := null_link)\<rparr> = h"
    using qrep_clear_link [OF R, of Hack] by simp
  then have s1: "upd_thr Hack (ut_state_update (\<lambda>_. UT_ON_CPU)) (s\<lparr>thr := (thr s)(Hack := zero_uthread),
        qh := (qh s)\<lparr>links := (links (qh s))(TLink Hack := null_link)\<rparr>, ut_curthr := Some Hack\<rparr>) = s1"
    by (simp add: s1_def s upd_thr_def)
  have R1: "qrep (qh s1) ?Q" using R by (simp add: s1_def s)
  have B1: "base {} s1 ?Q"
    by (rule boot_base [OF R1]) (auto simp: s1_def s)
  have al: "uthread_alloc s1 = int 1"
    by (rule alloc_first) (auto simp: s1_def s UTH_MAX_UTHREADS_def zero_uthread_def new_thread_def)
  have one: "1 < UTH_MAX_UTHREADS" by (simp add: UTH_MAX_UTHREADS_def)
  have ns: "ut_state (thr s1 (Thr 1)) = UT_NO_STATE" by (simp add: s1_def s zero_uthread_def)
  have free: "free_in ?Q (Thr 1)" by (simp add: free_in_def)
  obtain h1 where h1: "uthread_create Null_func (int UTH_MAXPRIO) s1 = Inr (0, int 1,
      s1\<lparr>thr := (thr s1)(Thr 1 := new_thread (int 1) (int UTH_MAXPRIO) Null_func), qh := h1,
        stacks := insert (next_stack s1) (stacks s1), next_stack := Suc (next_stack s1)\<rparr>)"
      (is "_ = Inr (0, _, ?s2)")
      "qrep h1 (?Q(RunQ (nat (int UTH_MAXPRIO)) := Thr 1 # ?Q (RunQ (nat (int UTH_MAXPRIO)))))"
      (is "qrep h1 ?Q1")
    using create_eq [OF R1 al one free, of "int UTH_MAXPRIO" Null_func] by auto
  have det: "detach 1 ?s2 = Inr (0, upd_thr (Thr 1) (ut_detached_update (\<lambda>_. True)) ?s2)"
    using one by (simp add: detach_def valid_uid_def new_thread_def zero_uthread_def Let_def s1_def s)
  let ?s3 = "s1\<lparr>thr := (thr s1)(Thr 1 := first_thread), qh := h1,
        stacks := insert (next_stack s1) (stacks s1), next_stack := Suc (next_stack s1)\<rparr>"
  have s3: "upd_thr (Thr 1) (ut_ctx_update (\<lambda>_. [In_first 1]))
      (upd_thr (Thr 1) (ut_detached_update (\<lambda>_. True)) ?s2) = ?s3"
    by (simp add: upd_thr_def first_thread_def)
  have run: "create_first_thr s = uthread_switch [] ?s3"
    unfolding create_first_thr_def Let_def s1 h1(1)
    using det s3 by (simp add: first_thr_rest_def s1_def)
  have B3: "base {} ?s3 ?Q1"
    by (rule create_base [OF B1 one ns _ _ _ _ _ _ _ _ _ h1(2)])
      (simp_all add: first_thread_def new_thread_def zero_uthread_def)
  let ?s4 = "upd_thr Hack (ut_ctx_update (\<lambda>_. [])) ?s3"
  have B4: "base {} ?s4 ?Q1"
    by (rule base_cong [OF B3]) (simp_all add: s1_def zero_uthread_def)
  have idle: "idle_cpu ?s3"
    by (auto simp: idle_cpu_def s1_def s first_thread_def new_thread_def zero_uthread_def)
  have c3: "ut_curthr ?s3 = Some Hack" by (simp add: s1_def)
  have sw: "safe (uthread_switch [] ?s3)" by (rule switch_safe [OF c3 B4 idle])
  have "\<exists>s'. uthread_switch [] ?s3 = Inr s' \<and> ut_curthr s' = Some (Thr 0)"
    by (rule switch_picks [OF c3 B4, of UTH_MAXPRIO "[Thr 1]"]) simp_all
  with sw show ?thesis unfolding run by auto
qed

theorem uthread_init_boots:
  "\<exists>s. uthread_init boot_state = Inr s \<and> uinv s \<and> ut_curthr s = Some (Thr 0)"
proof -
  obtain h where h: "reaper_init (uthread_sched_init boot_state)
      = Inr (boot1\<lparr>thr := (\<lambda>_. zero_uthread)(Thr 0 := new_thread 0 (int UTH_MAXPRIO) Reaper), qh := h,
          stacks := {0}, next_stack := 1\<rparr>)"
      "qrep h ((\<lambda>_. [])(RunQ UTH_MAXPRIO := [Thr 0]))"
    using reaper_init_boot by blast
  from create_first_boot [OF refl h(2)] show ?thesis by (simp add: uthread_init_def h(1))
qed

end
