(* ===== verification/Uprops.thy ===== *)
theory Uprops
  imports Uboot
begin

text \<open>
  What the thread library promises, as properties of the functions of \<open>Usched\<close> and
  \<open>Uthread\<close>, each with a concrete state at which its hypotheses hold.
\<close>

subsection \<open>Reachable states\<close>

text \<open>\<open>ureach s\<close>: a program that keeps the contract \<open>good_call\<close> can be in state \<open>s\<close>.\<close>

inductive ureach :: "usys \<Rightarrow> bool" where
  boot: "uthread_init boot_state = Inr s \<Longrightarrow> ureach s"
| step: "ureach s \<Longrightarrow> good_call c s \<Longrightarrow> ustep c s = Inr s' \<Longrightarrow> ureach s'"

lemma ureach_uinv: "ureach s \<Longrightarrow> uinv s"
proof (induction rule: ureach.induct)
  case (boot s)
  then show ?case using uthread_init_boots by auto
next
  case (step s c s')
  then show ?case using ustep_safe [of s c] by simp
qed

lemma uinvE:
  assumes "uinv s"
  obtains Q c where "base {} s Q" "cur_ok s" "ut_curthr s = Some c"
  using assms by (auto simp: uinv_def cur_ok_def)

text \<open>A heap of links stands for one assignment of queues only.\<close>

lemma lseg_unique:
  assumes "lseg h a xs b" and "lseg h a ys b" and "b \<notin> set xs" and "b \<notin> set ys"
  shows "xs = ys"
  using assms
proof (induction xs arbitrary: a ys)
  case Nil then show ?case by (cases ys) auto
next
  case (Cons x xs) then show ?case by (cases ys) auto
qed

lemma qrep_unique:
  assumes "qrep h Q" and "qrep h Q'"
  shows "Q = Q'"
proof
  fix q
  have "map TLink (Q q) = map TLink (Q' q)"
    using qrepD(1) [OF assms(1), of q] qrepD(1) [OF assms(2), of q]
    by (auto simp: dll_def intro: lseg_unique)
  then show "Q q = Q' q" by (rule map_injective) (simp add: inj_def)
qed

lemma base_unique: "base E s Q \<Longrightarrow> qrep (qh s) Q' \<Longrightarrow> Q' = Q"
  using baseD(1) qrep_unique by blast

subsection \<open>Concrete states\<close>

text \<open>The reaper sleeps, the main thread runs, a third thread is in the state \<open>u\<close>.\<close>

definition demo :: "uthread \<Rightarrow> uthread \<Rightarrow> qheap \<Rightarrow> (nat \<Rightarrow> taddr option) \<Rightarrow> usys" where
  "demo m u h own = \<lparr>qh = h,
     thr = (\<lambda>_. zero_uthread)
       (Thr 0 := zero_uthread\<lparr>ut_state := UT_WAIT, ut_prio := 7, ut_ctx := [In_reaper]\<rparr>,
        Thr 1 := m, Thr 2 := u),
     ut_curthr = Some (Thr 1), reaper_thr_id = 0, m_owner = own, stacks = {}, next_stack = 3\<rparr>"

definition main_u :: uthread where
  "main_u = zero_uthread\<lparr>ut_id := 1, ut_state := UT_ON_CPU, ut_prio := 7, ut_detached := True\<rparr>"

definition third_u :: "uthread_state \<Rightarrow> uthread" where
  "third_u st = zero_uthread\<lparr>ut_id := 2, ut_state := st, ut_prio := 3,
     ut_has_exited := (st = UT_ZOMBIE)\<rparr>"

definition none_q :: "qid \<Rightarrow> taddr list" where "none_q q = []"

lemma none_rep: "qrep (qh boot1) none_q"
  using boot1_rep by (simp add: none_q_def [abs_def])

lemma one_rep:
  assumes "q \<noteq> ReapQ"
  shows "\<exists>h. utqueue_enqueue q (Thr 2) (qh boot1) = Inr h \<and> qrep h (none_q(q := [Thr 2]))"
  using tq.enq_rep [OF none_rep assms, of "Thr 2"] by (simp add: none_q_def)

lemma demo_thr [simp]:
  "thr (demo m u h own) (Thr 0)
    = zero_uthread\<lparr>ut_state := UT_WAIT, ut_prio := 7, ut_ctx := [In_reaper]\<rparr>"
  "thr (demo m u h own) (Thr (Suc 0)) = m" "thr (demo m u h own) (Thr 1) = m"
  "thr (demo m u h own) (Thr 2) = u"
  "t \<noteq> Thr 0 \<Longrightarrow> t \<noteq> Thr (Suc 0) \<Longrightarrow> t \<noteq> Thr 2 \<Longrightarrow> thr (demo m u h own) t = zero_uthread"
  "qh (demo m u h own) = h" "ut_curthr (demo m u h own) = Some (Thr 1)"
  "m_owner (demo m u h own) = own" "reaper_thr_id (demo m u h own) = 0"
  by (simp_all add: demo_def)

lemma demo_uinv:
  assumes R: "qrep h Q"
    and m: "ut_id m = 1" "ut_state m = UT_ON_CPU" "ut_prio m = 7" "ut_ctx m = []"
      "\<not> ut_has_exited m"
    and u: "ut_id u = 2" "0 \<le> ut_prio u" "ut_prio u \<le> 7"
      "ut_has_exited u \<longleftrightarrow> ut_state u = UT_ZOMBIE" "ut_state u \<noteq> UT_ON_CPU"
      "ut_state u \<noteq> UT_NO_STATE" "frames_ok1 2 (ut_ctx u)" "ut_waiter u = None"
    and Q: "\<And>t q. t \<in> set (Q q) \<Longrightarrow> t = Thr 2 \<and> member_ok {} (Thr 2) u q"
    and r: "ut_state u = UT_RUNNABLE \<Longrightarrow> Thr 2 \<in> set (Q (RunQ (nat (ut_prio u))))"
    and o: "\<And>n. Q (MtxQ n) \<noteq> [] \<Longrightarrow> own n \<noteq> None"
    and j: "ut_waiter m = None \<and> (\<forall>uid. ut_ctx u \<noteq> [In_join uid] \<or> ut_state u = UT_ZOMBIE)
      \<or> ut_waiter m = Some (Thr 2) \<and> ut_ctx u = [In_join 1] \<and> ut_state u = UT_WAIT \<and> Q = none_q
        \<and> \<not> ut_detached m"
  shows "base {} (demo m u h own) Q" and "cur_ok (demo m u h own)"
proof -
  let ?s = "demo m u h own"
  have ne: "Thr 1 \<noteq> Thr 0" "Thr 2 \<noteq> Thr 0" "Thr 2 \<noteq> Thr 1" by simp_all
  have cs: "t = Thr 0 \<or> t = Thr 1 \<or> t = Thr 2 \<or> thr ?s t = zero_uthread" for t
    by (cases "t = Thr 0 \<or> t = Thr 1 \<or> t = Thr 2") auto
  have z: "ut_state zero_uthread = UT_NO_STATE" by (simp add: zero_uthread_def)
  have al: "alive ?s t \<longleftrightarrow> t = Thr 0 \<or> t = Thr 1 \<or> t = Thr 2" for t
    using m(2) u(6) z
    by (cases "t = Thr 0 \<or> t = Thr 1 \<or> t = Thr 2") (auto simp: alive_def UTH_MAX_UTHREADS_def)
  have run: "can_run ?s t \<longleftrightarrow> t = Thr 0 \<or> t = Thr 1 \<or> t = Thr 2 \<and> ut_state u \<noteq> UT_ZOMBIE" for t
    using m(2) by (auto simp: can_run_def al)
  have "queues_ok {} ?s Q"
    unfolding queues_ok_def
  proof (intro conjI allI impI)
    fix t q assume "t \<in> set (Q q)"
    from Q [OF this] show "in_table t" "member_ok {} t (thr ?s t) q"
      by (auto simp: UTH_MAX_UTHREADS_def)
  next
    fix t assume "in_table t" "ut_state (thr ?s t) = UT_RUNNABLE"
    then have "t = Thr 2" using cs [of t] m(2) z by auto
    then show "t \<in> set (Q (RunQ (nat (ut_prio (thr ?s t)))))"
      using r \<open>ut_state (thr ?s t) = UT_RUNNABLE\<close> by simp
  qed
  moreover have "threads_ok ?s"
    using m u by (auto simp: threads_ok_def al thread_ok_def zero_uthread_def UTH_MAXPRIO_def)
  moreover have "mtx_ok ?s Q" using o by (simp add: mtx_ok_def)
  moreover have "joins_ok {} ?s Q"
    unfolding joins_ok_def al run using j m u
    by (auto simp: zero_uthread_def UTH_MAX_UTHREADS_def free_in_def none_q_def valid_uid_def)
  moreover have "Thr 0 \<notin> set (Q q)" for q using Q [of "Thr 0" q] by auto
  then have "reaper_ok ?s Q"
    by (auto simp: reaper_ok_def Let_def run valid_uid_def UTH_MAX_UTHREADS_def)
  moreover have "frames_ok ?s" using m u by (auto simp: frames_ok_def run)
  ultimately show "base {} ?s Q" using R by (simp add: base_def)
  have "t = Thr 1" if "ut_state (thr ?s t) = UT_ON_CPU" for t
    using cs [of t] that u(5) z by auto
  then show "cur_ok ?s" using m(2) by (simp add: cur_ok_def UTH_MAX_UTHREADS_def)
qed

lemma demo_qh [simp]: "demo m u h own\<lparr>qh := h'\<rparr> = demo m u h' own"
  by (simp add: demo_def)

text \<open>The main thread alone, with an empty table otherwise but for the idle reaper and a third
  thread that waits for a mutex, a condition or nothing at all.\<close>

lemma demo_idle: "base {} (demo main_u (third_u UT_WAIT) (qh boot1) own) none_q"
  "cur_ok (demo main_u (third_u UT_WAIT) (qh boot1) own)"
  using demo_uinv [OF none_rep, of main_u "third_u UT_WAIT" own]
  by (simp_all add: main_u_def third_u_def zero_uthread_def none_q_def)

lemma demo_idle_uinv: "uinv (demo main_u (third_u UT_WAIT) (qh boot1) own)"
  using demo_idle by (auto simp: uinv_def)

lemma demo_one:
  assumes "qrep h (none_q(q := [Thr 2]))" and "member_ok {} (Thr 2) (third_u st) q"
    and "q = RunQ 3 \<and> st = UT_RUNNABLE \<or> (\<exists>n. q = CondQ n) \<and> st = UT_WAIT
      \<or> (\<exists>n. q = MtxQ n \<and> own n \<noteq> None) \<and> st = UT_WAIT"
  shows "base {} (demo main_u (third_u st) h own) (none_q(q := [Thr 2]))"
    "cur_ok (demo main_u (third_u st) h own)"
  by (rule demo_uinv [OF assms(1)];
      use assms in \<open>auto simp: main_u_def third_u_def zero_uthread_def none_q_def split: if_splits\<close>)+


subsection \<open>Safety\<close>

text \<open>Claim C8.  In every state a program can reach under the contract, every next call ends in
  a state of the invariant or legitimately leaves the processor: no assertion of the library
  fails, no NULL pointer is read and \<open>panic\<close> is not reached.\<close>

theorem reachable_calls_safe:
  assumes "ureach s" and "good_call c s"
  shows "ustep c s \<noteq> Inl Assertion_failed \<and> ustep c s \<noteq> Inl Null_pointer
    \<and> ustep c s \<noteq> Inl Panicked \<and> (\<forall>s'. ustep c s = Inr s' \<longrightarrow> uinv s')"
  using ustep_safe [OF ureach_uinv [OF assms(1)] assms(2)]
  by (auto simp: safe_def split: sum.splits)


lemma reachable_calls_safe_witness:
  "\<exists>s. uthread_init boot_state = Inr s \<and> ustep Yield s \<noteq> Inl Assertion_failed"
proof -
  obtain s where s: "uthread_init boot_state = Inr s" using uthread_init_boots by blast
  have "good_call Yield s" by (simp add: good_call_def)
  from reachable_calls_safe [OF ureach.boot [OF s] this] s show ?thesis by blast
qed

text \<open>In every reachable state exactly one thread of the table is on the processor,
  the current one.\<close>

theorem one_thread_on_cpu:
  assumes "ureach s"
  shows "\<exists>c. ut_curthr s = Some c \<and> {t. in_table t \<and> ut_state (thr s t) = UT_ON_CPU} = {c}"
  using ureach_uinv [OF assms] unfolding uinv_def cur_ok_def by blast

lemma one_thread_on_cpu_witness:
  "\<exists>s c. uthread_init boot_state = Inr s
     \<and> {t. in_table t \<and> ut_state (thr s t) = UT_ON_CPU} = {c}"
proof -
  obtain s where s: "uthread_init boot_state = Inr s" using uthread_init_boots by blast
  from one_thread_on_cpu [OF ureach.boot [OF s]] s show ?thesis by blast
qed

text \<open>Claim C9.  In every reachable state a thread is runnable exactly when it stands in the run
  queue of its own priority, it stands in no other queue, and the threads of a mutex queue are
  waiting while the mutex has an owner: no thread is lost and none is queued twice.\<close>

theorem reachable_queues:
  assumes "ureach s" and "qrep (qh s) Q" and "in_table t"
  shows "(ut_state (thr s t) = UT_RUNNABLE
        \<longleftrightarrow> (\<exists>p. t \<in> set (Q (RunQ p)) \<and> ut_prio (thr s t) = int p))
    \<and> (\<forall>q q'. t \<in> set (Q q) \<longrightarrow> t \<in> set (Q q') \<longrightarrow> q = q')
    \<and> (\<forall>m. t \<in> set (Q (MtxQ m)) \<longrightarrow> ut_state (thr s t) = UT_WAIT \<and> m_owner s m \<noteq> None)"
proof (intro conjI allI impI iffI)
  obtain Q0 where "base {} s Q0" using ureach_uinv [OF assms(1)] by (auto simp: uinv_def)
  with assms(2) have "base {} s Q" using base_unique by blast
  note p = baseD [OF this]
  show "\<exists>p. t \<in> set (Q (RunQ p)) \<and> ut_prio (thr s t) = int p" if "ut_state (thr s t) = UT_RUNNABLE"
  proof -
    have "alive s t" using assms(3) that by (simp add: alive_def)
    then have "int (nat (ut_prio (thr s t))) = ut_prio (thr s t)"
      using thread_okD(4) [OF p(3)] by simp
    then show ?thesis using queues_okD(3) [OF p(2) assms(3) that] by metis
  qed
  show "ut_state (thr s t) = UT_RUNNABLE"
    if "\<exists>p. t \<in> set (Q (RunQ p)) \<and> ut_prio (thr s t) = int p"
    using that queues_okD(2) [OF p(2)] by force
  show "q = q'" if "t \<in> set (Q q)" "t \<in> set (Q q')" for q q' by (rule tq.rep_unique [OF p(1) that])
  show "ut_state (thr s t) = UT_WAIT" "m_owner s m \<noteq> None" if m: "t \<in> set (Q (MtxQ m))" for m
    using queues_okD(2) [OF p(2) m] p(4) m by (force simp: mtx_ok_def)+
qed

lemma reachable_queues_witness:
  "\<exists>s Q. uthread_init boot_state = Inr s \<and> qrep (qh s) Q
     \<and> (ut_state (thr s (Thr 1)) = UT_RUNNABLE
        \<longleftrightarrow> (\<exists>p. Thr 1 \<in> set (Q (RunQ p)) \<and> ut_prio (thr s (Thr 1)) = int p))"
proof -
  obtain s where s: "uthread_init boot_state = Inr s" "uinv s" using uthread_init_boots by blast
  obtain Q where "base {} s Q" using s(2) by (auto simp: uinv_def)
  then have Q: "qrep (qh s) Q" by (rule baseD)
  have "in_table (Thr 1)" by (simp add: UTH_MAX_UTHREADS_def)
  from reachable_queues [OF ureach.boot [OF s(1)] Q this] s(1) Q show ?thesis by blast
qed

subsection \<open>Scheduling\<close>

text \<open>Claim C10.  A yield from application code never stops the program: the caller goes to the
  front of the run queue of its priority and the thread at the back (the longest waiting) of
  the highest non-empty run queue takes the processor; nothing else changes queue.\<close>

theorem yield_schedules:
  assumes I: "uinv s" and R: "qrep (qh s) Q" and c: "ut_curthr s = Some c"
    and k: "ut_ctx (thr s c) = []"
  defines "Q1 \<equiv> Q(RunQ (nat (ut_prio (thr s c))) := c # Q (RunQ (nat (ut_prio (thr s c)))))"
  shows "\<exists>i xs t s'. ustep Yield s = Inr s' \<and> Q1 (RunQ i) = xs @ [t] \<and> i \<le> UTH_MAXPRIO
    \<and> (\<forall>j. i < j \<longrightarrow> j \<le> UTH_MAXPRIO \<longrightarrow> Q1 (RunQ j) = [])
    \<and> ut_curthr s' = Some t \<and> ut_state (thr s' t) = UT_ON_CPU
    \<and> (t \<noteq> c \<longrightarrow> ut_state (thr s' c) = UT_RUNNABLE) \<and> qrep (qh s') (Q1(RunQ i := xs))"
proof -
  obtain Q0 where "base {} s Q0" and cur: "cur_ok s" using I by (auto simp: uinv_def)
  then have B: "base {} s Q" using base_unique [OF _ R] by blast
  note st = cur_state [OF cur c] and p = baseD [OF B]
  have nr: "c \<noteq> Thr (nat (reaper_thr_id s))" using p(6) k by (auto simp: reaper_ok_def Let_def)
  obtain h where h: "setprio_or_exit (ut_id (thr s c)) (ut_prio (thr s c))
             (upd_thr c (ut_state_update (\<lambda>_. UT_RUNNABLE)) s)
           = Inr (upd_thr c (ut_state_update (\<lambda>_. UT_RUNNABLE)) (s\<lparr>qh := h\<rparr>))" "qrep h Q1"
    using yield_requeue [OF B cur c] unfolding Q1_def by blast
  let ?s = "upd_thr c (ut_state_update (\<lambda>_. UT_RUNNABLE)) (s\<lparr>qh := h\<rparr>)"
  have "upd_thr c (ut_ctx_update (\<lambda>_. [])) ?s
      = upd_thr c (\<lambda>u. u\<lparr>ut_state := UT_RUNNABLE, ut_ctx := []\<rparr>) (s\<lparr>qh := h\<rparr>)"
    by (simp add: upd_thr_def)
  then have B1: "base {} (upd_thr c (ut_ctx_update (\<lambda>_. [])) ?s) Q1"
    using yield_base [OF B st _ _ nr refl h(2) [unfolded Q1_def], of "[]"] by (simp add: Q1_def)
  have al: "alive s c" using st by (simp add: alive_def)
  have "nat (ut_prio (thr s c)) \<le> UTH_MAXPRIO" using thread_okD(4,5) [OF p(3) al] by simp
  moreover have "Q1 (RunQ (nat (ut_prio (thr s c)))) \<noteq> []" by (simp add: Q1_def)
  ultimately have ne: "\<not> (\<forall>i\<le>UTH_MAXPRIO. Q1 (RunQ i) = [])" by blast
  have "ustep Yield s = uthread_switch [] ?s"
    using c k st h(1) by (simp add: ustep_def uthread_yield_def)
  moreover have "ut_curthr ?s = Some c" by (simp add: c)
  ultimately show ?thesis using uthread_switch_rep [OF _ B1] ne by fastforce
qed

lemma yield_schedules_witness:
  "\<exists>h s' t. qrep h (none_q(RunQ 3 := [Thr 2]))
     \<and> ustep Yield (demo main_u (third_u UT_RUNNABLE) h (\<lambda>_. None)) = Inr s'
     \<and> ut_curthr s' = Some t \<and> ut_state (thr s' t) = UT_ON_CPU"
proof -
  obtain h where h: "qrep h (none_q(RunQ 3 := [Thr 2]))" using one_rep [of "RunQ 3"] by auto
  let ?s = "demo main_u (third_u UT_RUNNABLE) h (\<lambda>_. None)"
  have I: "uinv ?s" using demo_one [OF h, of UT_RUNNABLE] by (auto simp: uinv_def third_u_def)
  have "ut_ctx (thr ?s (Thr 1)) = []" by (simp add: main_u_def zero_uthread_def)
  then obtain s' t where "ustep Yield ?s = Inr s'" "ut_curthr s' = Some t"
      "ut_state (thr s' t) = UT_ON_CPU"
    using yield_schedules [OF I, of "none_q(RunQ 3 := [Thr 2])" "Thr 1"] h
    unfolding demo_thr by blast
  with h show ?thesis by blast
qed


subsection \<open>Mutexes and condition variables\<close>

text \<open>Claim C35.  Unlocking a mutex with waiters hands it to the one that has waited longest, which
  becomes runnable and leaves the wait queue: the mutex is never free in between.\<close>

theorem unlock_hands_off:
  assumes I: "uinv s" and R: "qrep (qh s) Q" and own: "m_owner s m = ut_curthr s"
    and Qm: "Q (MtxQ m) = xs @ [t]"
  shows "\<exists>s'. mtx_release m s = Inr s' \<and> m_owner s' m = Some t
    \<and> ut_state (thr s' t) = UT_RUNNABLE \<and> (\<exists>Q'. qrep (qh s') Q' \<and> Q' (MtxQ m) = xs)
    \<and> (\<forall>m'. m' \<noteq> m \<longrightarrow> m_owner s' m' = m_owner s m')
    \<and> (\<forall>t'. t' \<noteq> t \<longrightarrow> thr s' t' = thr s t')"
proof -
  obtain Q0 where "base {} s Q0" using I by (auto simp: uinv_def)
  then have B: "base {} s Q" using base_unique [OF _ R] by blast
  obtain h where h: "utqueue_dequeue (MtxQ m) (qh s) = Inr (Some t, h)" "qrep h (Q(MtxQ m := xs))"
    using tq.deq_rep [OF R _ Qm] by auto
  have "\<forall>m'. (Q(MtxQ m := xs)) (MtxQ m') \<noteq> [] \<longrightarrow> ((m_owner s)(m := Some t)) m' \<noteq> None"
    using baseD(4) [OF B] by (auto simp: mtx_ok_def)
  from deq_wake_base [OF B _ Qm h(2) this] obtain s' Q' where
    s': "uthread_wake (Some t) (s\<lparr>qh := h, m_owner := (m_owner s)(m := Some t)\<rparr>) = Inr s'"
    "base {} s' Q'" "woken t (s\<lparr>qh := h, m_owner := (m_owner s)(m := Some t)\<rparr>) s'"
    "\<forall>q'. (\<forall>p. q' \<noteq> RunQ p) \<longrightarrow> Q' q' = (Q(MtxQ m := xs)) q'" by blast
  have Qx: "Q' (MtxQ m) = xs" using s'(4) by simp
  have "ut_state (thr s t) = UT_WAIT"
    using queues_okD(2) [OF baseD(2) [OF B], of t "MtxQ m"] Qm by simp
  moreover have "mtx_release m s = Inr s'"
    using Qm h(1) own s'(1) tq.emp_rep [OF R, of "MtxQ m"] by (simp add: mtx_release_def)
  ultimately show ?thesis
    using s'(3) Qx baseD(1) [OF s'(2)] by (auto simp: woken_def)
qed

lemma unlock_hands_off_witness:
  "\<exists>h s'. mtx_release 0 (demo main_u (third_u UT_WAIT) h (\<lambda>_. Some (Thr 1))) = Inr s'
     \<and> m_owner s' 0 = Some (Thr 2) \<and> ut_state (thr s' (Thr 2)) = UT_RUNNABLE"
proof -
  obtain h where h: "qrep h (none_q(MtxQ 0 := [Thr 2]))" using one_rep [of "MtxQ 0"] by auto
  let ?s = "demo main_u (third_u UT_WAIT) h (\<lambda>_. Some (Thr 1))"
  have I: "uinv ?s"
    using demo_one [OF h, of UT_WAIT "\<lambda>_. Some (Thr 1)"] by (auto simp: uinv_def third_u_def)
  have "qrep (qh ?s) (none_q(MtxQ 0 := [Thr 2]))" "m_owner ?s 0 = ut_curthr ?s"
    "(none_q(MtxQ 0 := [Thr 2])) (MtxQ 0) = [] @ [Thr 2]" using h by simp_all
  from unlock_hands_off [OF I this] show ?thesis by blast
qed

text \<open>Locking a mutex that another thread owns does not change the owner: the caller
  is queued behind the other waiters, waits, and leaves the processor.\<close>

theorem lock_contended:
  assumes I: "uinv s" and R: "qrep (qh s) Q" and c: "ut_curthr s = Some c"
    and k: "ut_ctx (thr s c) = []" and own: "m_owner s m = Some w" "w \<noteq> c"
  shows "ustep (Mtx_lock m) s = Inl Never_returns \<and> (\<forall>i\<le>UTH_MAXPRIO. Q (RunQ i) = [])
    \<or> (\<exists>s' i xs t. ustep (Mtx_lock m) s = Inr s' \<and> m_owner s' = m_owner s
        \<and> Q (RunQ i) = xs @ [t] \<and> ut_curthr s' = Some t \<and> t \<noteq> c
        \<and> ut_state (thr s' c) = UT_WAIT \<and> ut_ctx (thr s' c) = []
        \<and> qrep (qh s') (Q(MtxQ m := c # Q (MtxQ m), RunQ i := xs)))"
proof -
  obtain Q0 where "base {} s Q0" and cur: "cur_ok s" using I by (auto simp: uinv_def)
  then have B: "base {} s Q" using base_unique [OF _ R] by blast
  note st = cur_state [OF cur c] and p = baseD [OF B]
  have nr: "c \<noteq> Thr (nat (reaper_thr_id s))" using p(6) k by (auto simp: reaper_ok_def Let_def)
  have free: "\<forall>q. c \<notin> set (Q q)" using cur_free [OF B cur c] by (simp add: free_in_def)
  with tq.enq_rep [OF R, of "MtxQ m" c]
  obtain h where h: "utqueue_enqueue (MtxQ m) c (qh s) = Inr h"
      "qrep h (Q(MtxQ m := c # Q (MtxQ m)))" by auto
  let ?Q = "Q(MtxQ m := c # Q (MtxQ m))"
  let ?s = "upd_thr c (ut_state_update (\<lambda>_. UT_WAIT)) (s\<lparr>qh := h\<rparr>)"
  have "upd_thr c (ut_ctx_update (\<lambda>_. [])) ?s
      = upd_thr c (\<lambda>u. u\<lparr>ut_state := UT_WAIT, ut_ctx := []\<rparr>) (s\<lparr>qh := h\<rparr>)"
    by (simp add: upd_thr_def)
  then have B1: "base {} (upd_thr c (ut_ctx_update (\<lambda>_. [])) ?s) ?Q"
    using park_base [OF B _ st h(2), of "[]"] nr own by simp
  have run: "ustep (Mtx_lock m) s = uthread_switch [] ?s"
    using c k own st h(1)
    by (simp add: ustep_def uthread_mtx_lock_def on_qh_def uthread_block_def uthread_block_rest_def)
  have "ut_curthr ?s = Some c" by (simp add: c)
  from uthread_switch_rep [OF this B1] show ?thesis
  proof (elim disjE exE conjE)
    fix i xs t h'
    assume i: "?Q (RunQ i) = xs @ [t]" and h': "qrep h' (?Q(RunQ i := xs))"
      and sw: "uthread_switch [] ?s = Inr (upd_thr t (ut_state_update (\<lambda>_. UT_ON_CPU))
        ((upd_thr c (ut_ctx_update (\<lambda>_. [])) ?s)\<lparr>qh := h', ut_curthr := Some t\<rparr>))" (is "_ = Inr ?s'")
    have it: "Q (RunQ i) = xs @ [t]" using i by simp
    then have "t \<noteq> c" using free by (metis in_set_conv_decomp)
    then have "ut_curthr ?s' = Some t" "m_owner ?s' = m_owner s" "ut_state (thr ?s' c) = UT_WAIT"
      "ut_ctx (thr ?s' c) = []" "qh ?s' = h'" by simp_all
    with run sw it \<open>t \<noteq> c\<close> h' show ?thesis by metis
  next
    assume "\<forall>i\<le>UTH_MAXPRIO. ?Q (RunQ i) = []" "uthread_switch [] ?s = Inl Never_returns"
    with run show ?thesis by simp
  qed
qed

lemma lock_contended_witness:
  "ustep (Mtx_lock 0) (demo main_u (third_u UT_WAIT) (qh boot1) (\<lambda>_. Some (Thr 2)))
     = Inl Never_returns"
proof -
  let ?s = "demo main_u (third_u UT_WAIT) (qh boot1) (\<lambda>_. Some (Thr 2))"
  have "qrep (qh ?s) none_q" "ut_curthr ?s = Some (Thr 1)" "ut_ctx (thr ?s (Thr 1)) = []"
    "m_owner ?s 0 = Some (Thr 2)" "Thr 2 \<noteq> Thr 1"
    using none_rep by (simp_all add: main_u_def zero_uthread_def)
  from lock_contended [OF demo_idle_uinv this] show ?thesis by (auto simp: none_q_def)
qed

text \<open>A thread that locks a mutex it already owns waits without entering any queue; no
  unlock can wake it again.\<close>

theorem recursive_lock_strands:
  assumes I: "uinv s" and R: "qrep (qh s) Q" and c: "ut_curthr s = Some c"
    and k: "ut_ctx (thr s c) = []" and own: "m_owner s m = Some c"
    and ret: "ustep (Mtx_lock m) s = Inr s'"
  shows "ut_state (thr s' c) = UT_WAIT \<and> m_owner s' m = Some c
    \<and> (\<exists>Q'. qrep (qh s') Q' \<and> (\<forall>q. c \<notin> set (Q' q)))"
proof -
  obtain Q0 where "base {} s Q0" and cur: "cur_ok s" using I by (auto simp: uinv_def)
  then have B: "base {} s Q" using base_unique [OF _ R] by blast
  note st = cur_state [OF cur c] and p = baseD [OF B]
  have nr: "c \<noteq> Thr (nat (reaper_thr_id s))" using p(6) k by (auto simp: reaper_ok_def Let_def)
  have free: "\<forall>q. c \<notin> set (Q q)" using cur_free [OF B cur c] by (simp add: free_in_def)
  let ?s = "upd_thr c (ut_state_update (\<lambda>_. UT_WAIT)) s"
  have "upd_thr c (ut_ctx_update (\<lambda>_. [])) ?s
      = upd_thr c (\<lambda>u. u\<lparr>ut_state := UT_WAIT, ut_ctx := []\<rparr>) (s\<lparr>qh := qh s\<rparr>)"
    by (simp add: upd_thr_def)
  then have B1: "base {} (upd_thr c (ut_ctx_update (\<lambda>_. [])) ?s) Q"
    using park_base [OF B _ st R, of "[]"] nr by simp
  have run: "ustep (Mtx_lock m) s = uthread_switch [] ?s"
    using c k own st
    by (simp add: ustep_def uthread_mtx_lock_def uthread_block_def uthread_block_rest_def)
  have "ut_curthr ?s = Some c" by (simp add: c)
  from uthread_switch_rep [OF this B1] show ?thesis
  proof (elim disjE exE conjE)
    fix i xs t h'
    assume i: "Q (RunQ i) = xs @ [t]" and h': "qrep h' (Q(RunQ i := xs))"
      and sw: "uthread_switch [] ?s = Inr (upd_thr t (ut_state_update (\<lambda>_. UT_ON_CPU))
        ((upd_thr c (ut_ctx_update (\<lambda>_. [])) ?s)\<lparr>qh := h', ut_curthr := Some t\<rparr>))" (is "_ = Inr ?s'")
    have s': "s' = ?s'" using run sw ret by simp
    have "c \<notin> set (xs @ [t])" using free i by metis
    then have "t \<noteq> c" "\<forall>q. c \<notin> set ((Q(RunQ i := xs)) q)" using free by auto
    then show ?thesis using own h' unfolding s'
      by (intro conjI exI [of _ "Q(RunQ i := xs)"]) simp_all
  qed (use run ret in simp)
qed

lemma recursive_lock_strands_witness:
  "\<exists>h s'. qrep h (none_q(RunQ 3 := [Thr 2]))
     \<and> ustep (Mtx_lock 0) (demo main_u (third_u UT_RUNNABLE) h (\<lambda>_. Some (Thr 1))) = Inr s'
     \<and> ut_state (thr s' (Thr 1)) = UT_WAIT"
proof -
  obtain h where h: "qrep h (none_q(RunQ 3 := [Thr 2]))" using one_rep [of "RunQ 3"] by auto
  let ?s = "demo main_u (third_u UT_RUNNABLE) h (\<lambda>_. Some (Thr 1))"
  let ?Q = "none_q(RunQ 3 := [Thr 2])"
  have B: "base {} ?s ?Q" "cur_ok ?s"
    using demo_one [OF h, of UT_RUNNABLE] by (simp_all add: third_u_def)
  then have I: "uinv ?s" by (auto simp: uinv_def)
  have ctx: "ut_ctx (thr ?s (Thr 1)) = []" by (simp add: main_u_def zero_uthread_def)
  have st: "ut_state (thr ?s (Thr 1)) = UT_ON_CPU" by (simp add: main_u_def)
  let ?s1 = "upd_thr (Thr 1) (ut_state_update (\<lambda>_. UT_WAIT)) ?s"
  have "upd_thr (Thr 1) (ut_ctx_update (\<lambda>_. [])) ?s1
      = upd_thr (Thr 1) (\<lambda>u. u\<lparr>ut_state := UT_WAIT, ut_ctx := []\<rparr>) (?s\<lparr>qh := qh ?s\<rparr>)"
    by (simp add: upd_thr_def)
  then have "base {} (upd_thr (Thr 1) (ut_ctx_update (\<lambda>_. [])) ?s1) ?Q"
    using park_base [OF B(1) _ _ st, of "qh ?s" ?Q "[]"] h by (simp add: UTH_MAX_UTHREADS_def)
  from switch_picks [OF _ this, of 3 "[]" "Thr 2"] obtain s' where "uthread_switch [] ?s1 = Inr s'"
    by (auto simp: none_q_def UTH_MAXPRIO_def)
  then have run: "ustep (Mtx_lock 0) ?s = Inr s'"
    using ctx st by (simp add: ustep_def uthread_mtx_lock_def uthread_block_def uthread_block_rest_def)
  have "qrep (qh ?s) ?Q" "ut_curthr ?s = Some (Thr 1)" "m_owner ?s 0 = Some (Thr 1)"
    using h by simp_all
  from recursive_lock_strands [OF I this(1,2) ctx this(3) run] run h show ?thesis by blast
qed

text \<open>A broadcast returns, empties the queue of the condition and makes every thread
  that waited in it runnable; all other threads are left alone (the caller gets its result).\<close>

theorem broadcast_wakes_all:
  assumes I: "uinv s" and R: "qrep (qh s) Q" and c: "ut_curthr s = Some c"
  shows "\<exists>s' Q'. uthread_cond_broadcast n [] s = Inr s' \<and> qrep (qh s') Q' \<and> Q' (CondQ n) = []
    \<and> (\<forall>t \<in> set (Q (CondQ n)). ut_state (thr s' t) = UT_RUNNABLE)
    \<and> (\<forall>t. t \<notin> set (Q (CondQ n)) \<longrightarrow> t \<noteq> c \<longrightarrow> thr s' t = thr s t) \<and> ut_curthr s' = Some c"
proof -
  obtain Q0 where "base {} s Q0" and cur: "cur_ok s" using I by (auto simp: uinv_def)
  then have B: "base {} s Q" using base_unique [OF _ R] by blast
  have len: "length (Q (CondQ n)) < UTH_MAX_UTHREADS + 2"
    using queue_length [OF baseD(2,1) [OF B], of "CondQ n"] by simp
  obtain s1 Q1 where s1: "cond_drain (UTH_MAX_UTHREADS + 2) n s = Inr s1" "base {} s1 Q1"
      "keeps s s1" "Q1 (CondQ n) = []"
      "\<forall>t \<in> set (Q (CondQ n)). ut_state (thr s1 t) = UT_RUNNABLE"
      "\<forall>t. t \<notin> set (Q (CondQ n)) \<longrightarrow> thr s1 t = thr s t"
    using cond_drain_base [OF B len] by blast
  have c1: "ut_curthr s1 = Some c" using keepsD(1) [OF s1(3)] c by simp
  let ?s = "upd_thr c (\<lambda>u. u\<lparr>ut_ctx := [], ut_ret := 0\<rparr>) s1"
  have "uthread_cond_broadcast n [] s = Inr ?s"
    unfolding uthread_cond_broadcast_def s1(1) by (simp add: ret_def c1)
  moreover have "\<forall>t \<in> set (Q (CondQ n)). ut_state (thr ?s t) = UT_RUNNABLE" using s1(5) by simp
  moreover have "\<forall>t. t \<notin> set (Q (CondQ n)) \<longrightarrow> t \<noteq> c \<longrightarrow> thr ?s t = thr s t" using s1(6) by simp
  ultimately show ?thesis using baseD(1) [OF s1(2)] s1(4) c1 by fastforce
qed

lemma broadcast_wakes_all_witness:
  "\<exists>h s'. qrep h (none_q(CondQ 0 := [Thr 2]))
     \<and> uthread_cond_broadcast 0 [] (demo main_u (third_u UT_WAIT) h (\<lambda>_. None)) = Inr s'
     \<and> ut_state (thr s' (Thr 2)) = UT_RUNNABLE"
proof -
  obtain h where h: "qrep h (none_q(CondQ 0 := [Thr 2]))" using one_rep [of "CondQ 0"] by auto
  let ?s = "demo main_u (third_u UT_WAIT) h (\<lambda>_. None)"
  have I: "uinv ?s"
    using demo_one [OF h, of UT_WAIT "\<lambda>_. None"] by (auto simp: uinv_def third_u_def)
  have "qrep (qh ?s) (none_q(CondQ 0 := [Thr 2]))" "ut_curthr ?s = Some (Thr 1)"
    using h by simp_all
  from broadcast_wakes_all [OF I this, of 0] h show ?thesis by auto
qed

end
