(* ===== verification/Ulifeprops.thy ===== *)
theory Ulifeprops
  imports Uprops
begin

text \<open>
  The life of a thread as properties: creation, exit, join, detach, the reaper, priorities, and
  the order of the queues.
\<close>

lemma uinv_base:
  assumes "uinv s" and "qrep (qh s) Q"
  shows "base {} s Q" and "cur_ok s"
proof -
  obtain Q0 where "base {} s Q0" using assms(1) by (auto simp: uinv_def)
  then show "base {} s Q" using base_unique [OF _ assms(2)] by blast
  show "cur_ok s" using assms(1) by (simp add: uinv_def)
qed

lemma not_reaper:
  assumes "base {} s Q" and "ut_ctx (thr s c) = []"
  shows "c \<noteq> Thr (nat (reaper_thr_id s))"
  using baseD(6) [OF assms(1)] assms(2) by (auto simp: reaper_ok_def Let_def)

subsection \<open>Creation\<close>

text \<open>With a valid priority, \<open>uthread_create\<close> either finds the table full and returns
  -1 without touching another thread, or turns the first free slot into a zeroed, runnable
  thread at the front of the run queue of its priority and returns 0.\<close>

theorem create_first_free:
  assumes I: "uinv s" and R: "qrep (qh s) Q" and c: "ut_curthr s = Some c"
    and k: "ut_ctx (thr s c) = []" and prio: "0 \<le> prio" "prio \<le> int UTH_MAXPRIO"
  shows "(\<forall>j < UTH_MAX_UTHREADS. ut_state (thr s (Thr j)) \<noteq> UT_NO_STATE)
      \<and> ustep (Create prio) s = Inr (upd_thr c (\<lambda>u. u\<lparr>ut_ctx := [], ut_ret := -1\<rparr>) s)
    \<or> (\<exists>j s'. j < UTH_MAX_UTHREADS \<and> ut_state (thr s (Thr j)) = UT_NO_STATE
      \<and> (\<forall>j' < j. ut_state (thr s (Thr j')) \<noteq> UT_NO_STATE)
      \<and> ustep (Create prio) s = Inr s' \<and> ut_ret (thr s' c) = 0
      \<and> thr s' (Thr j) = new_thread (int j) prio App
      \<and> qrep (qh s') (Q(RunQ (nat prio) := Thr j # Q (RunQ (nat prio))))
      \<and> (\<forall>t. t \<noteq> c \<longrightarrow> t \<noteq> Thr j \<longrightarrow> thr s' t = thr s t))"
proof (cases s rule: uthread_alloc_cases)
  case 1
  then show ?thesis using c k by (simp add: ustep_def uthread_create_def Let_def ret_def)
next
  case (2 j)
  note B = uinv_base [OF I R]
  have free: "free_in Q (Thr j)" by (rule no_state_free [OF baseD(2) [OF B(1)] 2(3)])
  obtain h where h: "uthread_create App prio s = Inr (0, int j,
             s\<lparr>thr := (thr s)(Thr j := new_thread (int j) prio App), qh := h,
               stacks := insert (next_stack s) (stacks s), next_stack := Suc (next_stack s)\<rparr>)"
        "qrep h (Q(RunQ (nat prio) := Thr j # Q (RunQ (nat prio))))"
    using create_eq [OF R 2(1,2) free prio] by blast
  have "c \<noteq> Thr j" using cur_state(2) [OF B(2) c] 2(3) by auto
  with h c k have "\<exists>s'. ustep (Create prio) s = Inr s' \<and> ut_ret (thr s' c) = 0
      \<and> thr s' (Thr j) = new_thread (int j) prio App
      \<and> qrep (qh s') (Q(RunQ (nat prio) := Thr j # Q (RunQ (nat prio))))
      \<and> (\<forall>t. t \<noteq> c \<longrightarrow> t \<noteq> Thr j \<longrightarrow> thr s' t = thr s t)"
    by (simp add: ustep_def ret_def)
  with 2 show ?thesis by blast
qed

lemma create_first_free_witness:
  "\<exists>s'. ustep (Create 4) (demo main_u (third_u UT_WAIT) (qh boot1) (\<lambda>_. None)) = Inr s'
     \<and> thr s' (Thr 3) = new_thread 3 4 App"
proof -
  let ?s = "demo main_u (third_u UT_WAIT) (qh boot1) (\<lambda>_. None)"
  have a: "qrep (qh ?s) none_q" "ut_curthr ?s = Some (Thr 1)" "ut_ctx (thr ?s (Thr 1)) = []"
    "(0::int) \<le> 4" "(4::int) \<le> int UTH_MAXPRIO"
    using none_rep by (simp_all add: main_u_def zero_uthread_def UTH_MAXPRIO_def)
  have z: "ut_state (thr ?s (Thr 3)) = UT_NO_STATE" by (simp add: zero_uthread_def)
  have lt: "3 < UTH_MAX_UTHREADS" by (simp add: UTH_MAX_UTHREADS_def)
  have occ: "\<not> j < 3" if "ut_state (thr ?s (Thr j)) = UT_NO_STATE" for j
  proof
    assume "j < 3"
    then have "j = 0 \<or> j = 1 \<or> j = 2" by arith
    with that show False by (auto simp: main_u_def third_u_def)
  qed
  from create_first_free [OF demo_idle_uinv a] z lt obtain j s' where
    j: "ut_state (thr ?s (Thr j)) = UT_NO_STATE" "\<forall>j' < j. ut_state (thr ?s (Thr j')) \<noteq> UT_NO_STATE"
      "ustep (Create 4) ?s = Inr s'" "thr s' (Thr j) = new_thread (int j) 4 App" by blast
  have "j = 3" using occ [OF j(1)] j(2) z by (metis linorder_neqE_nat)
  with j(3,4) show ?thesis by auto
qed

subsection \<open>Exit and join\<close>

text \<open>Claim C40.  When a thread that is joined exits, its status is kept in the dead thread, the
  joiner becomes runnable and some thread takes the processor: the exit never hangs.\<close>

theorem exit_wakes_joiner:
  assumes I: "uinv s" and c: "ut_curthr s = Some c" and k: "ut_ctx (thr s c) = []"
    and d: "\<not> ut_detached (thr s c)" and w: "ut_waiter (thr s c) = Some w"
  shows "\<exists>s'. ustep (Exit v) s = Inr s' \<and> uinv s' \<and> ut_state (thr s' c) = UT_ZOMBIE
    \<and> ut_exit (thr s' c) = v \<and> (ut_state (thr s' w) = UT_RUNNABLE \<or> ut_curthr s' = Some w)"
proof -
  obtain Q where B: "base {} s Q" and cur: "cur_ok s" using I by (auto simp: uinv_def)
  note st = cur_state [OF cur c] and nr = not_reaper [OF B k]
  define s1 where "s1 = upd_thr c (\<lambda>u. u\<lparr>ut_state := UT_ZOMBIE, ut_exit := v, ut_has_exited := True\<rparr>) s"
  have B1: "base {} s1 Q" unfolding s1_def by (rule zombie_base [OF B st nr])
  have z: "ut_state (thr s1 c) = UT_ZOMBIE" "ut_exit (thr s1 c) = v" by (simp_all add: s1_def)
  obtain s2 Q2 where s2: "uthread_wake (Some w) s1 = Inr s2" "base {} s2 Q2" "keeps s1 s2"
      "ut_state (thr s2 w) = UT_RUNNABLE"
    using wake_joiner [OF B st w s1_def B1] by blast
  have run: "ustep (Exit v) s = uthread_switch [In_exit] s2"
    using c k st d w s2(1) by (simp add: ustep_def uthread_exit_def Let_def s1_def [symmetric])
      (simp add: s1_def)
  have c2: "ut_curthr s2 = Some c" using keepsD(1) [OF s2(3)] c by (simp add: s1_def)
  have t2: "thr s2 c = thr s1 c" by (rule keepsD(4) [OF s2(3) z(1)])
  have B3: "base {} (upd_thr c (ut_ctx_update (\<lambda>_. [In_exit])) s2) Q2"
    using dead_ctx_base [OF s2(2)] z t2 by simp
  have tabw: "in_table w"
    using joins_okD1(1) [OF baseD(5) [OF B], of c w] st w thread_okD(6) [OF baseD(3) [OF B], of c]
    by (simp add: alive_def)
  have ok: "safe (ustep (Exit v) s)" by (rule ustep_safe [OF I]) (simp add: good_call_def)
  have wr: "w \<in> set (Q2 (RunQ (nat (ut_prio (thr s2 w)))))"
    by (rule queues_okD(3) [OF baseD(2) [OF s2(2)] tabw s2(4)])
  have "alive s2 w" using tabw s2(4) by (simp add: alive_def)
  then have "nat (ut_prio (thr s2 w)) \<le> UTH_MAXPRIO"
    using thread_okD(4,5) [OF baseD(3) [OF s2(2)]] by fastforce
  with wr have ne: "\<not> (\<forall>i\<le>UTH_MAXPRIO. Q2 (RunQ i) = [])" by (metis empty_iff list.set(1))
  then obtain i xs t h where t: "Q2 (RunQ i) = xs @ [t]"
      "uthread_switch [In_exit] s2 = Inr (upd_thr t (ut_state_update (\<lambda>_. UT_ON_CPU))
        ((upd_thr c (ut_ctx_update (\<lambda>_. [In_exit])) s2)\<lparr>qh := h, ut_curthr := Some t\<rparr>))"
    using uthread_switch_rep [OF c2 B3] by blast
  have "ut_state (thr s2 t) = UT_RUNNABLE"
    using queues_okD(2) [OF baseD(2) [OF s2(2)], of t "RunQ i"] t(1) by simp
  then have tc: "t \<noteq> c" using t2 z by auto
  have wc: "w \<noteq> c" using s2(4) t2 z by auto
  show ?thesis using ok run t(2) tc wc t2 z s2(4) by (auto simp: safe_def)
qed

lemma exit_wakes_joiner_witness:
  "\<exists>m u s'. ut_waiter m = Some (Thr 2) \<and> ut_ctx u = [In_join 1]
     \<and> ustep (Exit 9) (demo m u (qh boot1) (\<lambda>_. None)) = Inr s' \<and> ut_exit (thr s' (Thr 1)) = 9"
proof -
  let ?m = "main_u\<lparr>ut_detached := False, ut_waiter := Some (Thr 2)\<rparr>"
  let ?u = "(third_u UT_WAIT)\<lparr>ut_ctx := [In_join 1]\<rparr>"
  let ?s = "demo ?m ?u (qh boot1) (\<lambda>_. None)"
  have "uinv ?s"
    using demo_uinv [OF none_rep, of ?m ?u "\<lambda>_. None"]
    by (simp add: uinv_def main_u_def third_u_def zero_uthread_def none_q_def) blast
  moreover have "ut_curthr ?s = Some (Thr 1)" "ut_ctx (thr ?s (Thr 1)) = []"
    "\<not> ut_detached (thr ?s (Thr 1))" "ut_waiter (thr ?s (Thr 1)) = Some (Thr 2)"
    by (simp_all add: main_u_def zero_uthread_def)
  ultimately obtain s' where "ustep (Exit 9) ?s = Inr s'" "ut_exit (thr s' (Thr 1)) = 9"
    using exit_wakes_joiner by blast
  then show ?thesis by (intro exI [of _ ?m] exI [of _ ?u] exI [of _ s']) simp
qed

text \<open>Joining a thread that has exited, is not detached and has no other joiner returns
  0 at once with its exit status, and leaves the dead thread at the end of the list of the
  reaper.\<close>

theorem join_returns_status:
  assumes I: "uinv s" and R: "qrep (qh s) Q" and c: "ut_curthr s = Some c"
    and k: "ut_ctx (thr s c) = []" and wc: "ut_waiter (thr s c) = None"
    and t: "valid_uid uid" "t = Thr (nat uid)" "ut_state (thr s t) = UT_ZOMBIE"
      "\<not> ut_detached (thr s t)" "ut_waiter (thr s t) = None"
  shows "\<exists>s' Q'. ustep (Join uid) s = Inr s' \<and> ut_ret (thr s' c) = 0
    \<and> ut_out (thr s' c) = ut_exit (thr s t) \<and> ut_curthr s' = Some c
    \<and> qrep (qh s') Q' \<and> Q' ReapQ = Q ReapQ @ [t]"
proof -
  note B = uinv_base [OF I R]
  note st = cur_state [OF B(2) c] and p = baseD [OF B(1)]
  have tab: "in_table t" using t(1,2) by (auto simp: valid_uid_def)
  have w: "Thr (nat u) \<noteq> t" if "can_run s x" "x \<noteq> c" "ut_ctx (thr s x) = [In_join u]" for x u
    using joins_okD2(3) [OF p(5) that(1) _ that(3)] t(5) by auto
  obtain s' Q' where
    s': "join_loop uid [] (upd_thr t (ut_waiter_update (\<lambda>_. Some c)) s) = ret 0 [] s'"
      "base {c} s' Q'" "ut_curthr s' = Some c" "Q' ReapQ = Q ReapQ @ [t]"
      "thr s' c = (thr s c)\<lparr>ut_out := ut_exit (thr s t)\<rparr>"
    using join_done_run [OF B c t(2) tab t(3,4)] w by blast
  have "ustep (Join uid) s = ret 0 [] s'"
    using c k st t wc s'(1) by (simp add: ustep_def uthread_join_def)
  then show ?thesis using s'(2-5) baseD(1) [OF s'(2)] by (auto simp: ret_def)
qed

definition dead_u :: uthread where "dead_u = (third_u UT_ZOMBIE)\<lparr>ut_exit := 42, ut_ctx := []\<rparr>"

lemma demo_dead_uinv: "uinv (demo main_u dead_u (qh boot1) (\<lambda>_. None))"
  using demo_uinv [OF none_rep, of main_u dead_u "\<lambda>_. None"]
  by (simp add: uinv_def main_u_def third_u_def dead_u_def zero_uthread_def none_q_def) blast

lemma join_returns_status_witness:
  "\<exists>s'. ustep (Join 2) (demo main_u dead_u (qh boot1) (\<lambda>_. None)) = Inr s'
     \<and> ut_out (thr s' (Thr 1)) = 42"
proof -
  let ?s = "demo main_u dead_u (qh boot1) (\<lambda>_. None)"
  have a: "qrep (qh ?s) none_q" "ut_curthr ?s = Some (Thr 1)" "ut_ctx (thr ?s (Thr 1)) = []"
    "ut_waiter (thr ?s (Thr 1)) = None" "valid_uid 2" "Thr 2 = Thr (nat 2)"
    "ut_state (thr ?s (Thr 2)) = UT_ZOMBIE" "\<not> ut_detached (thr ?s (Thr 2))"
    "ut_waiter (thr ?s (Thr 2)) = None" "ut_exit (thr ?s (Thr 2)) = 42"
    using none_rep by (simp_all add: main_u_def third_u_def dead_u_def zero_uthread_def
        valid_uid_def UTH_MAX_UTHREADS_def)
  from join_returns_status [OF demo_dead_uinv a(1-9)] a(10) show ?thesis by metis
qed

text \<open>Detaching a thread that has exited stops the program: \<open>make_reapable\<close> asserts that
  the thread is marked as detached, and this branch of \<open>uthread_detach\<close> never marks it.\<close>

theorem detach_zombie_asserts:
  assumes "ut_curthr s = Some c" and "ut_waiter (thr s c) = None" and "valid_uid uid"
    and "ut_state (thr s (Thr (nat uid))) = UT_ZOMBIE" and "\<not> ut_detached (thr s (Thr (nat uid)))"
  shows "uthread_detach uid k s = Inl Assertion_failed"
  using assms by (simp add: uthread_detach_def detach_def make_reapable_def Let_def)

lemma detach_zombie_asserts_witness:
  "uthread_detach 2 [] (demo main_u dead_u (qh boot1) (\<lambda>_. None)) = Inl Assertion_failed"
  by (rule detach_zombie_asserts [where c = "Thr 1"])
    (simp_all add: main_u_def third_u_def dead_u_def zero_uthread_def valid_uid_def
      UTH_MAX_UTHREADS_def)

lemma switch_returns:
  assumes R: "qrep (qh s) Q" and c: "ut_curthr s = Some c" and i: "i \<le> UTH_MAXPRIO" "Q (RunQ i) \<noteq> []"
    and st: "\<And>i t. t \<in> set (Q (RunQ i)) \<Longrightarrow> ut_state (thr s t) = UT_RUNNABLE"
  shows "\<exists>s'. uthread_switch k s = Inr s'"
proof -
  obtain r where r: "pick_runq UTH_MAXPRIO s = Inr r"
      "case r of None \<Rightarrow> \<forall>i\<le>UTH_MAXPRIO. Q (RunQ i) = []
       | Some i \<Rightarrow> i \<le> UTH_MAXPRIO \<and> Q (RunQ i) \<noteq> []
           \<and> (\<forall>j. i < j \<longrightarrow> j \<le> UTH_MAXPRIO \<longrightarrow> Q (RunQ j) = [])"
    using pick_runq_rep [OF R] by blast
  then obtain i where ri: "r = Some i" "Q (RunQ i) \<noteq> []" using i by (cases r) auto
  obtain xs t where Qi: "Q (RunQ i) = xs @ [t]" using ri(2) by (rule snoc_exhaust)
  obtain h where h: "utqueue_dequeue (RunQ i) (qh s) = Inr (Some t, h)"
      "qrep h (Q(RunQ i := xs))"
    using tq.deq_rep [OF R _ Qi] by auto
  have free: "free_in (Q(RunQ i := xs)) t" by (rule deq_leaves_free [OF R Qi])
  have nul: "links h (TLink t) = null_link"
    using qrepD(4) [OF h(2)] free by (simp add: free_in_def)
  have "ut_state (thr s t) = UT_RUNNABLE" using st [of t i] Qi by simp
  with r(1) ri(1) c h(1) nul show ?thesis by (simp add: uthread_switch_def Let_def)
qed

lemma switch_keeps_waiter:
  "uthread_switch k s = Inr s' \<Longrightarrow> ut_waiter (thr s' x) = ut_waiter (thr s x)"
  by (auto simp: uthread_switch_def run_eq Let_def split: option.splits)

lemma second_join_run:
  assumes c: "ut_curthr s = Some c" "ut_ctx (thr s c) = []" "ut_state (thr s c) = UT_ON_CPU"
      "ut_waiter (thr s c) = None"
    and t: "valid_uid uid" "t = Thr (nat uid)" "ut_state (thr s t) \<noteq> UT_NO_STATE"
      "\<not> ut_has_exited (thr s t)" "\<not> ut_detached (thr s t)" "ut_waiter (thr s t) = Some w"
  shows "ustep (Join uid) s = uthread_switch [In_join uid]
    (upd_thr c (ut_state_update (\<lambda>_. UT_WAIT)) (upd_thr t (ut_waiter_update (\<lambda>_. Some c)) s))"
proof -
  have "t \<noteq> c" using c(4) t(6) by auto
  then show ?thesis
    using c t(1,3-6) by (simp add: ustep_def uthread_join_def join_loop_def Let_def
        uthread_block_def uthread_block_rest_def t(2) [symmetric])
qed

text \<open>A second join on a live thread is not refused: \<open>uthread_join\<close> looks at the waiter
  of the caller, so it overwrites the first joiner, whom nobody will wake.\<close>

theorem second_join_overwrites:
  assumes c: "ut_curthr s = Some c" "ut_ctx (thr s c) = []" "ut_state (thr s c) = UT_ON_CPU"
      "ut_waiter (thr s c) = None"
    and t: "valid_uid uid" "t = Thr (nat uid)" "ut_state (thr s t) \<noteq> UT_NO_STATE"
      "\<not> ut_has_exited (thr s t)" "\<not> ut_detached (thr s t)" "ut_waiter (thr s t) = Some w"
    and ret: "ustep (Join uid) s = Inr s'"
  shows "ut_waiter (thr s' t) = Some c"
  using switch_keeps_waiter [OF ret [unfolded second_join_run [OF c t]]] by simp

lemma second_join_overwrites_witness:
  "\<exists>h s'. qrep h (none_q(RunQ 3 := [Thr 2]))
    \<and> ustep (Join 2) (demo main_u ((third_u UT_RUNNABLE)\<lparr>ut_waiter := Some (Thr 5)\<rparr>) h (\<lambda>_. None)) = Inr s'
    \<and> ut_waiter (thr s' (Thr 2)) = Some (Thr 1)"
proof -
  obtain h where h: "qrep h (none_q(RunQ 3 := [Thr 2]))" using one_rep [of "RunQ 3"] by auto
  let ?u = "(third_u UT_RUNNABLE)\<lparr>ut_waiter := Some (Thr 5)\<rparr>"
  let ?s = "demo main_u ?u h (\<lambda>_. None)"
  have c: "ut_curthr ?s = Some (Thr 1)" "ut_ctx (thr ?s (Thr 1)) = []"
    "ut_state (thr ?s (Thr 1)) = UT_ON_CPU" "ut_waiter (thr ?s (Thr 1)) = None"
    by (simp_all add: main_u_def zero_uthread_def)
  have t: "valid_uid 2" "Thr 2 = Thr (nat 2)" "ut_state (thr ?s (Thr 2)) \<noteq> UT_NO_STATE"
    "\<not> ut_has_exited (thr ?s (Thr 2))" "\<not> ut_detached (thr ?s (Thr 2))"
    "ut_waiter (thr ?s (Thr 2)) = Some (Thr 5)"
    by (simp_all add: third_u_def zero_uthread_def valid_uid_def UTH_MAX_UTHREADS_def)
  let ?s1 = "upd_thr (Thr 1) (ut_state_update (\<lambda>_. UT_WAIT))
    (upd_thr (Thr 2) (ut_waiter_update (\<lambda>_. Some (Thr 1))) ?s)"
  have "\<exists>s'. uthread_switch [In_join 2] ?s1 = Inr s'"
    by (rule switch_returns [of _ "none_q(RunQ 3 := [Thr 2])" "Thr 1" 3])
      (use h in \<open>auto simp: none_q_def third_u_def UTH_MAXPRIO_def split: if_splits\<close>)
  then obtain s' where "uthread_switch [In_join 2] ?s1 = Inr s'" by blast
  then have ret: "ustep (Join 2) ?s = Inr s'" unfolding second_join_run [OF c t] .
  from second_join_overwrites [OF c t ret] ret h show ?thesis by blast
qed


subsection \<open>The reaper\<close>

text \<open>Claim C39.  When the reaper runs, it destroys exactly the threads on its list (their slots
  become free, all other threads are untouched), its list is empty afterwards, and it ends the
  process when only the reaper is left, else it waits again.\<close>

theorem reaper_reclaims:
  assumes I: "uinv s" and R: "qrep (qh s) Q" and c: "ut_curthr s = Some c"
    and k: "ut_ctx (thr s c) = [In_reaper]"
  shows "\<exists>s1. qrep (qh s1) (Q(ReapQ := []))
    \<and> (\<forall>t. thr s1 t = (if t \<in> set (Q ReapQ) then zero_uthread else thr s t))
    \<and> ustep call s = (if \<forall>th < UTH_MAX_UTHREADS. int th = reaper_thr_id s
             \<or> ut_state (thr s1 (Thr th)) = UT_NO_STATE
        then Inl (Exited 0) else uthread_block [In_reaper] s1)"
proof (rule reaper_round_base [OF uinv_base(1) [OF I R]])
  fix s1 assume s1: "reap_iter (UTH_MAX_UTHREADS + 2) (l_next (links (qh s) (Head ReapQ))) s = Inr s1"
    "base {} s1 (Q(ReapQ := []))" "reaper_thr_id s1 = reaper_thr_id s"
    "\<forall>t. thr s1 t = (if t \<in> set (Q ReapQ) then zero_uthread else thr s t)"
  then show ?thesis using c k baseD(1) [OF s1(2)]
    by (intro exI [of _ s1]) (simp add: ustep_def reaper_round_def del: reap_iter.simps)
qed

lemma reaper_reclaims_witness:
  "\<exists>h s1. qrep h (none_q(ReapQ := [Thr 2])) \<and> thr s1 (Thr 2) = zero_uthread
     \<and> ustep Yield ((demo (main_u\<lparr>ut_ctx := [In_reaper]\<rparr>) (dead_u\<lparr>ut_detached := True\<rparr>) h (\<lambda>_. None)))
        = uthread_block [In_reaper] s1"
proof -
  have "\<forall>q. Thr 2 \<notin> set (none_q q)" by (simp add: none_q_def)
  from reapq_insert_rep [OF none_rep this] obtain h where
    h: "qrep h (none_q(ReapQ := [Thr 2]))" by (auto simp: none_q_def [of ReapQ])
  let ?m = "main_u\<lparr>ut_ctx := [In_reaper]\<rparr>" and ?u = "dead_u\<lparr>ut_detached := True\<rparr>"
  let ?s = "demo ?m ?u h (\<lambda>_. None)" and ?Q = "none_q(ReapQ := [Thr 2])"
  have "base {} (demo main_u ?u h (\<lambda>_. None)) ?Q" "cur_ok (demo main_u ?u h (\<lambda>_. None))"
    by (rule demo_uinv [OF h]; auto simp: main_u_def third_u_def dead_u_def zero_uthread_def
        none_q_def split: if_splits)+
  moreover have eq: "upd_thr (Thr 1) (ut_ctx_update (\<lambda>_. [In_reaper])) (demo main_u ?u h (\<lambda>_. None)) = ?s"
    by (simp add: demo_def upd_thr_def fun_upd_twist)
  moreover have "base {} (upd_thr (Thr 1) (ut_ctx_update (\<lambda>_. [In_reaper]))
      (demo main_u ?u h (\<lambda>_. None))) ?Q"
    by (rule own_ctx_base [OF calculation(1)]) (simp_all add: main_u_def)
  ultimately have "base {} ?s ?Q" "cur_ok ?s"
    using cur_ok_upd [of "demo main_u ?u h (\<lambda>_. None)" "ut_ctx_update (\<lambda>_. [In_reaper])" "Thr 1"]
    by simp_all
  then have I: "uinv ?s" by (auto simp: uinv_def)
  have a: "qrep (qh ?s) ?Q" "ut_curthr ?s = Some (Thr 1)" "ut_ctx (thr ?s (Thr 1)) = [In_reaper]"
    using h by simp_all
  have m: "ut_state (thr ?s (Thr 1)) \<noteq> UT_NO_STATE" "Thr 1 \<notin> set (?Q ReapQ)" "reaper_thr_id ?s = 0"
    "(1::nat) < UTH_MAX_UTHREADS" by (simp_all add: main_u_def UTH_MAX_UTHREADS_def)
  from reaper_reclaims [OF I a, of Yield] obtain s1 where
    s1: "\<forall>t. thr s1 t = (if t \<in> set (?Q ReapQ) then zero_uthread else thr ?s t)"
      "ustep Yield ?s = (if \<forall>th < UTH_MAX_UTHREADS. int th = reaper_thr_id ?s
             \<or> ut_state (thr s1 (Thr th)) = UT_NO_STATE
        then Inl (Exited 0) else uthread_block [In_reaper] s1)" by blast
  have "\<not> (\<forall>th < UTH_MAX_UTHREADS. int th = reaper_thr_id ?s
             \<or> ut_state (thr s1 (Thr th)) = UT_NO_STATE)"
    using m s1(1) by (metis of_nat_1 zero_neq_one)
  moreover have "thr s1 (Thr 2) = zero_uthread" using s1(1) by simp
  ultimately show ?thesis using s1(2) h by metis
qed

subsection \<open>Priorities and queues\<close>

text \<open>\<open>uthread_setprio\<close> on a runnable thread takes it from its place in the run queue
  of its old priority and puts it at the front of the run queue of the new one.\<close>

theorem setprio_moves:
  assumes I: "uinv s" and R: "qrep (qh s) Q" and prio: "0 \<le> prio" "prio \<le> int UTH_MAXPRIO"
    and t: "valid_uid uid" "t = Thr (nat uid)" "ut_state (thr s t) = UT_RUNNABLE"
  defines "q \<equiv> RunQ (nat (ut_prio (thr s t)))"
  defines "Q1 \<equiv> Q(q := remove1 t (Q q))"
  shows "\<exists>s'. uthread_setprio uid prio s = Inr (0, s')
    \<and> qrep (qh s') (Q1(RunQ (nat prio) := t # Q1 (RunQ (nat prio))))
    \<and> thr s' = (thr s)(t := (thr s t)\<lparr>ut_prio := prio\<rparr>)"
proof -
  note p = baseD [OF uinv_base(1) [OF I R]]
  have tab: "in_table t" using t(1,2) by (auto simp: valid_uid_def)
  have tq: "t \<in> set (Q q)" unfolding q_def by (rule queues_okD(3) [OF p(2) tab t(3)])
  have lnk: "l_next (links (qh s) (TLink t)) \<noteq> None" "l_prev (links (qh s) (TLink t)) \<noteq> None"
    using qrep_link_null_iff [OF p(1), of t] tq by blast+
  obtain h h' where h: "utqueue_remove q t (qh s) = Inr h"
      "utqueue_enqueue (RunQ (nat prio)) t h = Inr h'"
      "qrep h' (Q1(RunQ (nat prio) := t # Q1 (RunQ (nat prio))))"
    using tq.move_rep [OF p(1), of q "RunQ (nat prio)" t] tq unfolding Q1_def q_def by auto
  have "uthread_setprio uid prio s = Inr (0, upd_thr t (ut_prio_update (\<lambda>_. prio)) (s\<lparr>qh := h'\<rparr>))"
    using prio t(1,3) lnk h(1,2)
    by (simp add: uthread_setprio_def Let_def on_qh_def q_def t(2) [symmetric])
  with h(3) show ?thesis by simp
qed

lemma setprio_moves_witness:
  "\<exists>h s'. qrep h (none_q(RunQ 3 := [Thr 2]))
    \<and> uthread_setprio 2 5 (demo main_u (third_u UT_RUNNABLE) h (\<lambda>_. None)) = Inr (0, s')
    \<and> ut_prio (thr s' (Thr 2)) = 5"
proof -
  obtain h where h: "qrep h (none_q(RunQ 3 := [Thr 2]))" using one_rep [of "RunQ 3"] by auto
  let ?s = "demo main_u (third_u UT_RUNNABLE) h (\<lambda>_. None)"
  have I: "uinv ?s" using demo_one [OF h, of UT_RUNNABLE] by (auto simp: uinv_def third_u_def)
  have a: "qrep (qh ?s) (none_q(RunQ 3 := [Thr 2]))" "(0::int) \<le> 5" "(5::int) \<le> int UTH_MAXPRIO"
    "valid_uid 2" "Thr 2 = Thr (nat 2)" "ut_state (thr ?s (Thr 2)) = UT_RUNNABLE"
    using h by (simp_all add: UTH_MAXPRIO_def valid_uid_def UTH_MAX_UTHREADS_def third_u_def)
  from setprio_moves [OF I a] h show ?thesis by auto
qed

text \<open>The queues are first in, first out: when a thread enters a non-empty queue, the
  next thread to leave is the one that was at its back, and the newcomer stays.\<close>

theorem queue_fifo:
  assumes "qrep h Q" and "q \<noteq> ReapQ" and "\<forall>q. u \<notin> set (Q q)" and "Q q = xs @ [t]"
  shows "\<exists>h1 h2. utqueue_enqueue q u h = Inr h1 \<and> utqueue_dequeue q h1 = Inr (Some t, h2)
    \<and> qrep h2 (Q(q := u # xs))"
  by (rule tq.fifo_front [OF assms])

lemma queue_fifo_witness:
  "\<exists>h h1 h2. utqueue_enqueue (MtxQ 0) (Thr 2) (qh boot1) = Inr h
     \<and> utqueue_enqueue (MtxQ 0) (Thr 3) h = Inr h1 \<and> utqueue_dequeue (MtxQ 0) h1 = Inr (Some (Thr 2), h2)"
proof -
  obtain h where h: "utqueue_enqueue (MtxQ 0) (Thr 2) (qh boot1) = Inr h"
      "qrep h (none_q(MtxQ 0 := [Thr 2]))" using one_rep [of "MtxQ 0"] by auto
  have "\<forall>q. Thr 3 \<notin> set ((none_q(MtxQ 0 := [Thr 2])) q)"
    "(none_q(MtxQ 0 := [Thr 2])) (MtxQ 0) = [] @ [Thr 2]" by (simp_all add: none_q_def)
  from queue_fifo [OF h(2) _ this] h(1) show ?thesis by blast
qed

text \<open>Removing a thread from the middle of a queue leaves the others in their order,
  with the size field in step and every other queue untouched.\<close>

theorem queue_remove_refines:
  assumes "qrep h Q" and "q \<noteq> ReapQ" and "t \<in> set (Q q)"
  shows "\<exists>h'. utqueue_remove q t h = Inr h' \<and> qrep h' (Q(q := remove1 t (Q q)))
    \<and> (\<forall>q'. t \<notin> set ((Q(q := remove1 t (Q q))) q'))"
  by (rule tq.rem_free [OF assms])

lemma queue_remove_refines_witness:
  "\<exists>h h'. utqueue_enqueue (MtxQ 0) (Thr 2) (qh boot1) = Inr h
     \<and> utqueue_remove (MtxQ 0) (Thr 2) h = Inr h' \<and> qrep h' (none_q(MtxQ 0 := []))"
proof -
  obtain h where h: "utqueue_enqueue (MtxQ 0) (Thr 2) (qh boot1) = Inr h"
      "qrep h (none_q(MtxQ 0 := [Thr 2]))" using one_rep [of "MtxQ 0"] by auto
  have "Thr 2 \<in> set ((none_q(MtxQ 0 := [Thr 2])) (MtxQ 0))" by simp
  from queue_remove_refines [OF h(2) _ this] obtain h' where
    "utqueue_remove (MtxQ 0) (Thr 2) h = Inr h'" "qrep h' (none_q(MtxQ 0 := []))"
    by (auto simp del: fun_upd_apply simp: fun_upd_same fun_upd_upd)
  with h(1) show ?thesis by blast
qed

end
