(* ===== verification/Kbase.thy ===== *)
theory Kbase
  imports Prelude
begin

unbundle bit_operations_syntax

text \<open>
  The data of the Weenix virtual file system (\<open>S5FS_wrapper/Weenix/kernel\<close>): the constants of
  \<open>include/errno.h\<close>, \<open>include/fs/stat.h\<close>, \<open>include/fs/fcntl.h\<close>, \<open>include/fs/file.h\<close> and
  \<open>include/config.h\<close>, vnodes (\<open>include/fs/vnode.h\<close>), open files (\<open>include/fs/file.h\<close>), and the
  tables of operations a file system provides (\<open>include/fs/vfs.h\<close>, \<open>include/fs/vnode.h\<close>).

  The kernel has one root file system (\<open>__MOUNTING__\<close> is off) and one running process; its
  private data is the type parameter \<open>'f\<close> of the state.  A table of function pointers is a
  record of functions on the state, \<open>None\<close> for a NULL entry.  Functions return \<open>Inl\<close> where the
  kernel stops: a failed \<open>KASSERT\<close>, a NULL pointer read, \<open>panic\<close>, arithmetic outside the range
  of \<open>int\<close>, an access outside an object, a thread that sleeps with nobody to wake it, or a
  loop that runs out of the bound the model gives it.
\<close>

subsection \<open>Constants\<close>

datatype kfault = Kassert_failed | Null_deref | Kernel_panic | Int_overflow | Wild_access
  | Sleeps_forever | Loops_forever

definition ENOENT :: int where "ENOENT = 2"
definition EBADF :: int where "EBADF = 9"
definition ENOMEM :: int where "ENOMEM = 12"
definition EBUSY :: int where "EBUSY = 16"
definition EEXIST :: int where "EEXIST = 17"
definition ENOTDIR :: int where "ENOTDIR = 20"
definition EISDIR :: int where "EISDIR = 21"
definition KEINVAL :: int where "KEINVAL = 22"
definition EMFILE :: int where "EMFILE = 24"
definition ENOSPC :: int where "ENOSPC = 28"
definition ENAMETOOLONG :: int where "ENAMETOOLONG = 36"
definition ENOTEMPTY :: int where "ENOTEMPTY = 39"
definition ENOTSUP :: int where "ENOTSUP = 95"

lemmas errno_defs = ENOENT_def EBADF_def ENOMEM_def EBUSY_def EEXIST_def ENOTDIR_def EISDIR_def
  KEINVAL_def EMFILE_def ENOSPC_def ENAMETOOLONG_def ENOTEMPTY_def ENOTSUP_def

definition NFILES :: nat where "NFILES = 32"
definition NAME_LEN :: nat where "NAME_LEN = 28"
definition MAXPATHLEN :: nat where "MAXPATHLEN = 1024"
definition PAGE_SIZE :: nat where "PAGE_SIZE = 4096"

definition S_IFCHR :: int where "S_IFCHR = 0x0100"
definition S_IFDIR :: int where "S_IFDIR = 0x0200"
definition S_IFBLK :: int where "S_IFBLK = 0x0400"
definition S_IFREG :: int where "S_IFREG = 0x0800"

definition S_TYPE :: "int \<Rightarrow> int" where "S_TYPE m = m AND 0xFF00"
definition S_ISCHR :: "int \<Rightarrow> bool" where "S_ISCHR m \<longleftrightarrow> S_TYPE m = S_IFCHR"
definition S_ISDIR :: "int \<Rightarrow> bool" where "S_ISDIR m \<longleftrightarrow> S_TYPE m = S_IFDIR"
definition S_ISBLK :: "int \<Rightarrow> bool" where "S_ISBLK m \<longleftrightarrow> S_TYPE m = S_IFBLK"
definition S_ISREG :: "int \<Rightarrow> bool" where "S_ISREG m \<longleftrightarrow> S_TYPE m = S_IFREG"

definition O_RDONLY :: int where "O_RDONLY = 0"
definition O_WRONLY :: int where "O_WRONLY = 1"
definition O_RDWR :: int where "O_RDWR = 2"
definition O_CREAT :: int where "O_CREAT = 0x100"
definition O_TRUNC :: int where "O_TRUNC = 0x200"
definition O_APPEND :: int where "O_APPEND = 0x400"

definition O_ISVALID :: "int \<Rightarrow> bool" where
  "O_ISVALID n \<longleftrightarrow> 0 \<le> n \<and> n \<le> (0x700 OR 1 OR 2)"

definition FMODE_READ :: int where "FMODE_READ = 1"
definition FMODE_WRITE :: int where "FMODE_WRITE = 2"
definition FMODE_APPEND :: int where "FMODE_APPEND = 4"

definition FMODE_ISREAD :: "int \<Rightarrow> bool" where "FMODE_ISREAD m \<longleftrightarrow> m AND FMODE_READ \<noteq> 0"
definition FMODE_ISWRITE :: "int \<Rightarrow> bool" where "FMODE_ISWRITE m \<longleftrightarrow> m AND FMODE_WRITE \<noteq> 0"
definition FMODE_ISAPPEND :: "int \<Rightarrow> bool" where "FMODE_ISAPPEND m \<longleftrightarrow> m AND FMODE_APPEND \<noteq> 0"

definition SEEK_SET :: int where "SEEK_SET = 0"
definition SEEK_CUR :: int where "SEEK_CUR = 1"
definition SEEK_END :: int where "SEEK_END = 2"

subsection \<open>Machine integers\<close>

text \<open>Signed 32-bit arithmetic: a result outside the range is undefined in C and stops the model.\<close>

definition in_int :: "int \<Rightarrow> bool" where
  "in_int x \<longleftrightarrow> - (2 ^ 31) \<le> x \<and> x < 2 ^ 31"

definition sint32 :: "int \<Rightarrow> kfault + int" where
  "sint32 x = check (in_int x) Int_overflow (Inr x)"

text \<open>The conversion of a \<open>size_t\<close> to \<open>off_t\<close> wraps around.\<close>

definition to_off :: "nat \<Rightarrow> int" where
  "to_off n = sint (word_of_nat n :: 32 word)"

lemma to_off_small: "n < 2 ^ 31 \<Longrightarrow> to_off n = int n"
  by (simp add: to_off_def signed_of_nat signed_take_bit_int_eq_self)

subsection \<open>Objects\<close>

datatype vops = Dir_vops | File_vops | Bytedev_vops | Blockdev_vops

record vnode =
  vn_ops :: "vops option"
  vn_vno :: nat
  vn_mode :: int
  vn_len :: int
  vn_refcount :: int
  vn_nrespages :: int
  vn_i :: nat               \<comment> \<open>address of the inode of the file system\<close>
  vn_devid :: nat
  vn_cdev :: "nat option"
  vn_bdev :: "nat option"
  vn_busy :: bool           \<comment> \<open>\<open>VN_BUSY\<close> in \<open>vn_flags\<close>\<close>

definition zero_vnode :: vnode where
  "zero_vnode = \<lparr>vn_ops = None, vn_vno = 0, vn_mode = 0, vn_len = 0, vn_refcount = 0,
     vn_nrespages = 0, vn_i = 0, vn_devid = 0, vn_cdev = None, vn_bdev = None, vn_busy = False\<rparr>"

record kfile =
  f_pos :: int
  f_mode :: int
  f_refcount :: int
  f_vnode :: "nat option"

definition zero_file :: kfile where
  "zero_file = \<lparr>f_pos = 0, f_mode = 0, f_refcount = 0, f_vnode = None\<rparr>"

record dirent =
  d_ino :: nat
  d_name :: string

record kstat =
  st_mode :: int
  st_ino :: int
  st_rdev :: int
  st_nlink :: int
  st_size :: int
  st_blksize :: int
  st_blocks :: int

text \<open>\<open>vnode_t\<close> and \<open>file_t\<close> objects live at addresses handed out by the slab allocators;
  allocation is taken to succeed.\<close>

record 'f kstate =
  vnodes :: "nat \<Rightarrow> vnode option"
  vnode_inuse_list :: "nat list"
  next_vnode :: nat
  kfiles :: "nat \<Rightarrow> kfile option"
  next_file :: nat
  p_files :: "nat \<Rightarrow> nat option"
  p_cwd :: nat
  vfs_root_vn :: nat
  fs_data :: 'f

text \<open>Reading and writing an object through a pointer.\<close>

definition vn_get :: "nat \<Rightarrow> 'f kstate \<Rightarrow> kfault + vnode" where
  "vn_get a s = deref (vnodes s a) Null_deref Inr"

definition vn_upd :: "nat \<Rightarrow> (vnode \<Rightarrow> vnode) \<Rightarrow> 'f kstate \<Rightarrow> 'f kstate" where
  "vn_upd a f s = s\<lparr>vnodes := (vnodes s)(a := map_option f (vnodes s a))\<rparr>"

definition file_get :: "nat \<Rightarrow> 'f kstate \<Rightarrow> kfault + kfile" where
  "file_get a s = deref (kfiles s a) Null_deref Inr"

definition file_upd :: "nat \<Rightarrow> (kfile \<Rightarrow> kfile) \<Rightarrow> 'f kstate \<Rightarrow> 'f kstate" where
  "file_upd a f s = s\<lparr>kfiles := (kfiles s)(a := map_option f (kfiles s a))\<rparr>"

subsection \<open>Tables of operations\<close>

record 'k vnode_ops =
  op_read :: "(nat \<Rightarrow> int \<Rightarrow> nat \<Rightarrow> 'k \<Rightarrow> kfault + (int \<times> string \<times> 'k)) option"
  op_write :: "(nat \<Rightarrow> int \<Rightarrow> string \<Rightarrow> nat \<Rightarrow> 'k \<Rightarrow> kfault + (int \<times> 'k)) option"
  op_create :: "(nat \<Rightarrow> string \<Rightarrow> nat \<Rightarrow> 'k \<Rightarrow> kfault + (int \<times> nat option \<times> 'k)) option"
  op_mknod :: "(nat \<Rightarrow> string \<Rightarrow> nat \<Rightarrow> int \<Rightarrow> nat \<Rightarrow> 'k \<Rightarrow> kfault + (int \<times> 'k)) option"
  op_lookup :: "(nat \<Rightarrow> string \<Rightarrow> nat \<Rightarrow> 'k \<Rightarrow> kfault + (int \<times> nat option \<times> 'k)) option"
  op_link :: "(nat \<Rightarrow> nat \<Rightarrow> string \<Rightarrow> nat \<Rightarrow> 'k \<Rightarrow> kfault + (int \<times> 'k)) option"
  op_unlink :: "(nat \<Rightarrow> string \<Rightarrow> nat \<Rightarrow> 'k \<Rightarrow> kfault + (int \<times> 'k)) option"
  op_mkdir :: "(nat \<Rightarrow> string \<Rightarrow> nat \<Rightarrow> 'k \<Rightarrow> kfault + (int \<times> 'k)) option"
  op_rmdir :: "(nat \<Rightarrow> string \<Rightarrow> nat \<Rightarrow> 'k \<Rightarrow> kfault + (int \<times> 'k)) option"
  op_readdir :: "(nat \<Rightarrow> int \<Rightarrow> 'k \<Rightarrow> kfault + (int \<times> dirent option \<times> 'k)) option"
  op_stat :: "(nat \<Rightarrow> 'k \<Rightarrow> kfault + (int \<times> kstat \<times> 'k)) option"
  op_acquire :: "(nat \<Rightarrow> nat \<Rightarrow> 'k \<Rightarrow> kfault + 'k) option"
  op_release :: "(nat \<Rightarrow> nat \<Rightarrow> 'k \<Rightarrow> kfault + 'k) option"

definition no_vops :: "'k vnode_ops" where
  "no_vops = \<lparr>op_read = None, op_write = None, op_create = None, op_mknod = None, op_lookup = None,
     op_link = None, op_unlink = None, op_mkdir = None, op_rmdir = None, op_readdir = None,
     op_stat = None, op_acquire = None, op_release = None\<rparr>"

text \<open>What the virtual file system is linked with: \<open>fs_op\<close> of the root file system, its vnode
  operations, the loop of \<open>vput\<close> that frees the resident pages of a vnode (\<open>uncache\<close>), and the
  device drivers, whose sources are not in the repository.\<close>

record 'k kenv =
  read_vnode :: "nat \<Rightarrow> 'k \<Rightarrow> kfault + 'k"
  delete_vnode :: "(nat \<Rightarrow> 'k \<Rightarrow> kfault + 'k) option"
  query_vnode :: "nat \<Rightarrow> 'k \<Rightarrow> kfault + bool"
  uncache :: "nat \<Rightarrow> 'k \<Rightarrow> kfault + 'k"
  vops_of :: "vops \<Rightarrow> 'k vnode_ops"
  bytedev_lookup :: "nat \<Rightarrow> nat option"
  blockdev_lookup :: "nat \<Rightarrow> nat option"

lemmas mode_defs = S_ISCHR_def S_ISDIR_def S_ISBLK_def S_ISREG_def S_TYPE_def
  S_IFCHR_def S_IFDIR_def S_IFBLK_def S_IFREG_def

end
