(* ===== verification/Kstring.thy ===== *)
theory Kstring
  imports Kbase
begin

text \<open>
  The string functions of the kernel, \<open>util/string.c\<close>.  Two views of a C string are used.  The
  functions below that only read strings take them without their terminator: reading at the end
  of the list yields NUL, as the memory behind the list does.  The functions that search, copy or
  cut work on memory (\<open>char list\<close>, terminator included); \<open>None\<close> is an access outside the object.
\<close>

definition NUL :: char where "NUL = CHR 0x00"

definition hdc :: "string \<Rightarrow> char" where
  "hdc s = (case s of [] \<Rightarrow> NUL | c # _ \<Rightarrow> c)"

lemma hdc_simps [simp]: "hdc [] = NUL" "hdc (c # s) = c"
  by (simp_all add: hdc_def)

text \<open>The difference of two characters as a \<open>signed char\<close>.\<close>

definition chdiff :: "char \<Rightarrow> char \<Rightarrow> int" where
  "chdiff a b = sint ((of_char a :: 8 word) - of_char b)"

lemma char_word_inject: "(of_char a :: 8 word) = of_char b \<longleftrightarrow> a = b"
proof
  assume "(of_char a :: 8 word) = of_char b"
  then have "unat (word_of_nat (of_char a) :: 8 word) = unat (word_of_nat (of_char b) :: 8 word)"
    by (simp add: of_nat_of_char)
  moreover have "(of_char c :: nat) < 2 ^ 8" for c :: char
    using nat_of_char_less_256 [of c] by simp
  ultimately have "(of_char a :: nat) = of_char b"
    by (simp add: unsigned_of_nat take_bit_nat_eq_self)
  then show "a = b" by (simp add: of_char_eq_iff)
qed simp

lemma chdiff_eq_0 [simp]: "chdiff a b = 0 \<longleftrightarrow> a = b"
  by (simp add: chdiff_def signed_eq_0_iff char_word_inject)

subsection \<open>Comparing\<close>

fun strncmp :: "string \<Rightarrow> string \<Rightarrow> nat \<Rightarrow> int" where
  "strncmp cs ct 0 = 0"
| "strncmp cs ct (Suc count) =
     (let res = chdiff (hdc cs) (hdc ct) in
      if res \<noteq> 0 \<or> hdc cs = NUL then res else strncmp (tl cs) (tl ct) count)"

text \<open>Behind the end of both strings the loop has stopped, so the lengths bound it.\<close>

fun strcmp :: "string \<Rightarrow> string \<Rightarrow> int" where
  "strcmp [] ct = chdiff NUL (hdc ct)"
| "strcmp (c # cs) ct =
     (let res = chdiff c (hdc ct) in
      if res \<noteq> 0 \<or> c = NUL then res else strcmp cs (tl ct))"

definition name_match :: "string \<Rightarrow> string \<Rightarrow> nat \<Rightarrow> bool" where
  "name_match fname name namelen \<longleftrightarrow> length fname = namelen \<and> strncmp fname name namelen = 0"

lemma strncmp_eq_0:
  assumes "NUL \<notin> set cs" and "NUL \<notin> set ct"
  shows "strncmp cs ct n = 0 \<longleftrightarrow> take n cs = take n ct"
  using assms
proof (induction cs ct n rule: strncmp.induct)
  case (2 cs ct n)
  then show ?case by (cases cs; cases ct) (auto simp: Let_def)
qed simp

lemma strcmp_eq_0:
  assumes "NUL \<notin> set cs" and "NUL \<notin> set ct"
  shows "strcmp cs ct = 0 \<longleftrightarrow> cs = ct"
  using assms
proof (induction cs ct rule: strcmp.induct)
  case (1 ct) then show ?case by (cases ct) auto
next
  case (2 c cs ct) then show ?case by (cases ct) (auto simp: Let_def)
qed

lemma name_match_iff:
  assumes "NUL \<notin> set fname" and "NUL \<notin> set name" and "length name = n"
  shows "name_match fname name n \<longleftrightarrow> fname = name"
  using strncmp_eq_0 [OF assms(1,2), of n] assms(3) by (auto simp: name_match_def)

text \<open>Names a directory entry can hold: not empty, at most 27 characters, no NUL.\<close>

definition okname :: "string \<Rightarrow> bool" where
  "okname n \<longleftrightarrow> n \<noteq> [] \<and> length n < NAME_LEN \<and> NUL \<notin> set n"

text \<open>\<open>memcmp\<close>: \<open>repe cmpsb\<close> stops at the first difference; the result is the sign of the 8-bit
  difference of the two bytes.\<close>

fun memcmp :: "string \<Rightarrow> string \<Rightarrow> nat \<Rightarrow> int option" where
  "memcmp cs ct 0 = Some 0"
| "memcmp (c # cs) (d # ct) (Suc count) =
     (if c = d then memcmp cs ct count else Some (if chdiff c d < 0 then -1 else 1))"
| "memcmp _ _ (Suc count) = None"

subsection \<open>Searching\<close>

fun strlen :: "string \<Rightarrow> nat option" where
  "strlen [] = None"
| "strlen (c # m) = (if c = NUL then Some 0 else map_option Suc (strlen m))"

fun strnlen :: "string \<Rightarrow> nat \<Rightarrow> nat option" where
  "strnlen m 0 = Some 0"
| "strnlen [] (Suc count) = None"
| "strnlen (c # m) (Suc count) = (if c = NUL then Some 0 else map_option Suc (strnlen m count))"

text \<open>The results of the searches are offsets from the start; the outer \<open>None\<close> is an access
  outside the object, the inner one NULL.\<close>

fun strchr :: "string \<Rightarrow> char \<Rightarrow> nat option option" where
  "strchr [] c = None"
| "strchr (x # m) c = (if x = c then Some (Some 0) else if x = NUL then Some None
     else map_option (map_option Suc) (strchr m c))"

fun strrchr_loop :: "string \<Rightarrow> char \<Rightarrow> nat \<Rightarrow> nat option \<Rightarrow> nat option option" where
  "strrchr_loop [] c i r = None"
| "strrchr_loop (x # m) c i r =
     (if x = NUL then Some r else strrchr_loop m c (Suc i) (if x = c then Some i else r))"

definition strrchr :: "string \<Rightarrow> char \<Rightarrow> nat option option" where
  "strrchr m c = strrchr_loop m c 0 None"

text \<open>\<open>strstr\<close> keeps the lengths in variables of type \<open>int\<close>: the results of \<open>strlen\<close> are converted, and
  the \<open>int\<close> that is the count of \<open>memcmp\<close> is converted back.\<close>

function strstr_loop :: "int \<Rightarrow> int \<Rightarrow> string \<Rightarrow> string \<Rightarrow> nat \<Rightarrow> nat option option" where
  "strstr_loop l1 l2 s1 s2 i =
     (if l2 \<le> l1 then
        if \<not> in_int (l1 - 1) then None
        else case memcmp s1 s2 (nat (l2 mod 2 ^ 32)) of
          None \<Rightarrow> None
        | Some r \<Rightarrow> if r = 0 then Some (Some i)
            else strstr_loop (l1 - 1) l2 (tl s1) s2 (Suc i)
      else Some None)"
  by pat_completeness auto
termination by (relation "measure (\<lambda>(l1, l2, s1, s2, i). nat (l1 - l2 + 1))") auto

declare strstr_loop.simps [simp del]

definition strstr :: "string \<Rightarrow> string \<Rightarrow> nat option option" where
  "strstr s1 s2 =
     (case strlen s2 of None \<Rightarrow> None
      | Some n2 \<Rightarrow>
          let l2 = to_off n2 in
          if l2 = 0 then Some (Some 0)
          else (case strlen s1 of None \<Rightarrow> None | Some n1 \<Rightarrow> strstr_loop (to_off n1) l2 s1 s2 0))"

text \<open>\<open>strpbrk\<close> and \<open>strspn\<close> ask whether a character is in a string that ends in NUL.\<close>

fun in_brk :: "string \<Rightarrow> char \<Rightarrow> bool option" where
  "in_brk [] c = None"
| "in_brk (p # ps) c = (if p = NUL then Some False else if p = c then Some True else in_brk ps c)"

fun strpbrk :: "string \<Rightarrow> string \<Rightarrow> nat option option" where
  "strpbrk [] brkset = None"
| "strpbrk (c # m) brkset =
     (case in_brk brkset c of None \<Rightarrow> None
      | Some True \<Rightarrow> Some (Some 0)
      | Some False \<Rightarrow> if c = NUL then Some None
          else map_option (map_option Suc) (strpbrk m brkset))"

fun strspn :: "string \<Rightarrow> string \<Rightarrow> nat option" where
  "strspn [] charset = None"
| "strspn (c # m) charset =
     (if c = NUL then Some 0
      else case in_brk charset c of None \<Rightarrow> None
      | Some False \<Rightarrow> Some 0
      | Some True \<Rightarrow> map_option Suc (strspn m charset))"

subsection \<open>Copying and cutting\<close>

fun memcpy :: "string \<Rightarrow> string \<Rightarrow> nat \<Rightarrow> string option" where
  "memcpy dest src 0 = Some dest"
| "memcpy (d # dest) (c # src) (Suc count) = map_option (Cons c) (memcpy dest src count)"
| "memcpy _ _ (Suc count) = None"

fun memset :: "string \<Rightarrow> char \<Rightarrow> nat \<Rightarrow> string option" where
  "memset m c 0 = Some m"
| "memset (d # m) c (Suc count) = map_option (Cons c) (memset m c count)"
| "memset [] c (Suc count) = None"

fun strcpy :: "string \<Rightarrow> string \<Rightarrow> string option" where
  "strcpy (d # dest) (c # src) =
     (if c = NUL then Some (c # dest) else map_option (Cons c) (strcpy dest src))"
| "strcpy _ _ = None"

fun strncpy :: "string \<Rightarrow> string \<Rightarrow> nat \<Rightarrow> string option" where
  "strncpy dest src 0 = Some dest"
| "strncpy (d # dest) (c # src) (Suc count) =
     (if c = NUL then Some (c # dest) else map_option (Cons c) (strncpy dest src count))"
| "strncpy _ _ (Suc count) = None"

fun strcat :: "string \<Rightarrow> string \<Rightarrow> string option" where
  "strcat [] src = None"
| "strcat (d # dest) src =
     (if d = NUL then strcpy (d # dest) src else map_option (Cons d) (strcat dest src))"

text \<open>\<open>strtok\<close> on the memory that holds its string: the argument and \<open>savept\<close> are offsets into
  it or NULL; the result is the offset of the token or NULL, the memory and the new \<open>savept\<close>.\<close>

definition strtok :: "string \<Rightarrow> nat option \<Rightarrow> nat option \<Rightarrow> string
    \<Rightarrow> (nat option \<times> string \<times> nat option) option" where
  "strtok m string savept sepset =
     (case (if string = None then savept else string) of
        None \<Rightarrow> Some (None, m, savept)
      | Some p \<Rightarrow>
         (case strspn (drop p m) sepset of None \<Rightarrow> None
          | Some k \<Rightarrow>
             let q = p + k in
             if m ! q = NUL then Some (None, m, savept)
             else (case strpbrk (drop q m) sepset of
                 None \<Rightarrow> None
               | Some None \<Rightarrow> Some (Some q, m, None)
               | Some (Some r) \<Rightarrow> Some (Some q, m[q + r := NUL], Some (q + r + 1)))))"

end
