(* ===== verification/Kstrprops.thy ===== *)
theory Kstrprops
  imports Kstring "HOL-Library.Sublist"
begin

text \<open>
  The searches of \<open>util/string.c\<close> against reference definitions on lists.
\<close>

lemma strlen_end: "NUL \<notin> set a \<Longrightarrow> strlen (a @ NUL # x) = Some (length a)"
  by (induction a) auto

text \<open>\<open>memcmp\<close> on bytes that are there.\<close>

lemma memcmp_prefix:
  assumes "length b \<le> length a"
  shows "\<exists>r. memcmp (a @ x) (b @ y) (length b) = Some r \<and> (r = 0 \<longleftrightarrow> prefix b a)"
  using assms
proof (induction b arbitrary: a)
  case (Cons c b)
  then obtain d a' where a: "a = d # a'" by (cases a) auto
  with Cons show ?case by auto
qed simp

text \<open>The first place at which a list occurs in another one.\<close>

definition first_occ :: "'a list \<Rightarrow> 'a list \<Rightarrow> nat option" where
  "first_occ b a = find (\<lambda>i. prefix b (drop i a)) [0..<Suc (length a)]"

lemma find_map: "find P (map f xs) = map_option f (find (P \<circ> f) xs)"
  by (induction xs) auto

lemma first_occ_Nil: "b \<noteq> [] \<Longrightarrow> first_occ b [] = None"
  by (simp add: first_occ_def)

lemma first_occ_Cons:
  "first_occ b (c # a) = (if prefix b (c # a) then Some 0 else map_option Suc (first_occ b a))"
proof -
  have "[0..<Suc (length (c # a))] = 0 # map Suc [0..<Suc (length a)]"
    by (simp add: map_Suc_upt upt_conv_Cons [of 0 "Suc (Suc (length a))"] del: upt_Suc)
  then show ?thesis by (simp add: first_occ_def find_map comp_def del: upt_Suc)
qed

lemma first_occ_short: "length a < length b \<Longrightarrow> first_occ b a = None"
proof (induction a)
  case (Cons c a)
  then show ?case by (auto simp: first_occ_Cons dest: prefix_length_le)
qed (auto simp: first_occ_Nil)

lemma strstr_loop_first:
  assumes "b \<noteq> []" and "length a < 2 ^ 31" and "length b < 2 ^ 31"
  shows "strstr_loop (int (length a)) (int (length b)) (a @ x) (b @ y) i = Some (map_option (\<lambda>k. i + k) (first_occ b a))"
  using assms(2)
proof (induction a arbitrary: i)
  case Nil
  then show ?case using assms(1) by (simp add: strstr_loop.simps first_occ_Nil)
next
  case (Cons c a)
  have n: "nat (int (length b) mod 2 ^ 32) = length b" "in_int (int (length (c # a)) - 1)"
    using assms(3) Cons.prems by (simp_all add: in_int_def)
  show ?case
  proof (cases "length b \<le> length (c # a)")
    case False
    then show ?thesis using first_occ_short [of "c # a" b] by (simp add: strstr_loop.simps)
  next
    case True
    from memcmp_prefix [OF this, of x y] obtain r where
      r: "memcmp ((c # a) @ x) (b @ y) (length b) = Some r" "r = 0 \<longleftrightarrow> prefix b (c # a)" by blast
    have IH: "strstr_loop (int (length (c # a)) - 1) (int (length b)) (a @ x) (b @ y) (Suc i)
        = Some (map_option (\<lambda>k. Suc i + k) (first_occ b a))"
      using Cons.IH [of "Suc i"] Cons.prems by simp
    show ?thesis
      using True r IH n
      by (subst strstr_loop.simps) (auto simp: first_occ_Cons option.map_comp comp_def simp del: length_Cons)
  qed
qed

text \<open>A length of \<open>2 ^ 31\<close> or more is a negative \<open>int\<close>.\<close>

lemma to_off_large: "2 ^ 31 \<le> n \<Longrightarrow> n < 2 ^ 32 \<Longrightarrow> to_off n = int n - 2 ^ 32"
proof -
  assume n: "2 ^ 31 \<le> n" "n < 2 ^ 32"
  have "to_off n = signed_take_bit 31 (int n)" by (simp add: to_off_def signed_of_nat)
  also have "\<dots> = (int n + 2 ^ 31) mod 2 ^ 32 - 2 ^ 31" by (simp add: signed_take_bit_eq_take_bit_shift take_bit_eq_mod)
  also have "(int n + 2 ^ 31) mod 2 ^ 32 = int n + 2 ^ 31 - 2 ^ 32"
  proof -
    have "(int n + 2 ^ 31) mod 2 ^ 32 = (int n + 2 ^ 31 - 2 ^ 32) mod 2 ^ 32" by (rule minus_mod_self2 [symmetric])
    also have "\<dots> = int n + 2 ^ 31 - 2 ^ 32" using n by (intro mod_pos_pos_trivial) auto
    finally show ?thesis .
  qed
  finally show ?thesis by simp
qed

lemma in_brk_end: "NUL \<notin> set cs \<Longrightarrow> c \<noteq> NUL \<Longrightarrow> in_brk (cs @ NUL # y) c = Some (c \<in> set cs)"
  by (induction cs) auto

text \<open>Claim C18. \<open>strstr\<close> and \<open>strspn\<close> compute their reference definitions: \<open>strstr\<close> returns the first place at
  which the second string occurs in the first one, or NULL, and \<open>strspn\<close> the length of the longest
  prefix with characters of the set.  Neither reads behind the terminators, whatever stands there.
  As \<open>strstr\<close> keeps lengths in an \<open>int\<close>, this is for strings shorter than \<open>2 ^ 31\<close>; in a longer first
  string it finds nothing, whatever is in it.\<close>

lemma strings_search:
  assumes "NUL \<notin> set a" and "NUL \<notin> set b" and "length a < 2 ^ 32" and "length b < 2 ^ 31"
  shows "strstr (a @ NUL # x) (b @ NUL # y) =
      Some (if b = [] \<or> length a < 2 ^ 31 then find (\<lambda>i. prefix b (drop i a)) [0..<Suc (length a)] else None)
    \<and> strspn (a @ NUL # x) (b @ NUL # y) = Some (length (takeWhile (\<lambda>c. c \<in> set b) a))"
proof
  have l2: "to_off (length b) = int (length b)" using assms(4) by (rule to_off_small)
  show "strstr (a @ NUL # x) (b @ NUL # y) =
      Some (if b = [] \<or> length a < 2 ^ 31 then find (\<lambda>i. prefix b (drop i a)) [0..<Suc (length a)] else None)"
  proof (cases b)
    case Nil
    have "[0..<Suc (length a)] = 0 # [1..<Suc (length a)]" by (simp add: upt_conv_Cons [of 0] del: upt_Suc)
    then show ?thesis using Nil l2 by (simp add: strstr_def del: upt_Suc)
  next
    case (Cons c b')
    then have b: "b \<noteq> []" "int (length b) \<noteq> 0" by simp_all
    have run: "strstr (a @ NUL # x) (b @ NUL # y) = strstr_loop (to_off (length a)) (int (length b)) (a @ NUL # x) (b @ NUL # y) 0"
      using b(2) l2 assms by (simp add: strstr_def strlen_end)
    show ?thesis
    proof (cases "length a < 2 ^ 31")
      case True
      then show ?thesis using run strstr_loop_first [OF b(1) True assms(4), of "NUL # x" "NUL # y" 0] to_off_small [OF True]
        by (simp add: first_occ_def option.map_ident del: upt_Suc)
    next
      case False
      then have "to_off (length a) < 0" using to_off_large [of "length a"] assms(3) by simp
      then have "\<not> int (length b) \<le> to_off (length a)" by linarith
      then show ?thesis using run False b(1) by (subst (asm) strstr_loop.simps) simp
    qed
  qed
  show "strspn (a @ NUL # x) (b @ NUL # y) = Some (length (takeWhile (\<lambda>c. c \<in> set b) a))"
    using assms(1,2) by (induction a) (auto simp: in_brk_end)
qed

lemma strings_search_witness:
  "strstr (''bananas'' @ NUL # ''nan'') (''nan'' @ NUL # []) = Some (Some 2)
   \<and> strspn (''bananas'' @ NUL # []) (''ban'' @ NUL # []) = Some 6"
proof -
  have n: "NUL \<notin> set ''bananas''" "NUL \<notin> set ''nan''" "NUL \<notin> set ''ban''" by (simp_all add: NUL_def)
  have l: "length ''bananas'' < 2 ^ 31" "length ''bananas'' < 2 ^ 32" "length ''nan'' < 2 ^ 31" "length ''ban'' < 2 ^ 31" by simp_all
  have "find (\<lambda>i. prefix ''nan'' (drop i ''bananas'')) [0..<Suc (length ''bananas'')] = Some 2" by (simp add: numeral_eq_Suc)
  moreover have "length (takeWhile (\<lambda>c. c \<in> set ''ban'') ''bananas'') = 6" by simp
  ultimately show ?thesis
    using strings_search [OF n(1,2) l(2,3), of "''nan''" "[]"] strings_search [OF n(1,3) l(2,4), of "[]" "[]"] l(1) by simp
qed

end
