(* ===== verification/Vnode.thy ===== *)
theory Vnode
  imports Kbase
begin

text \<open>
  Vnode management (\<open>fs/vnode.c\<close>) and open files (\<open>fs/file.c\<close>).  \<open>vrefs\<close> counts the active
  references to a vnode, \<open>vn_refcount - vn_nrespages\<close>, zero for an address that holds no vnode.
  The locale \<open>vnode_env\<close> states what \<open>vnode.c\<close> asks of a file system; inside it \<open>vget\<close> adds
  exactly one reference to the vnode it returns and \<open>vput\<close> takes exactly one away.
\<close>

subsection \<open>Core vnode management\<close>

definition vref :: "nat \<Rightarrow> 'f kstate \<Rightarrow> kfault + 'f kstate" where
  "vref vn s =
     bnd (vn_get vn s) (\<lambda>v.
     check (0 < vn_refcount v) Kassert_failed
       (Inr (vn_upd vn (vn_refcount_update (\<lambda>r. r + 1)) s)))"

text \<open>The iteration over \<open>vnode_inuse_list\<close>.  A busy vnode puts the thread to sleep; with one
  process there is nobody to wake it.\<close>

fun find_inuse :: "nat \<Rightarrow> nat list \<Rightarrow> 'f kstate \<Rightarrow> kfault + nat option" where
  "find_inuse vno [] s = Inr None"
| "find_inuse vno (a # as) s =
     bnd (vn_get a s) (\<lambda>v.
     if vn_vno v = vno then check (\<not> vn_busy v) Sleeps_forever (Inr (Some a))
     else find_inuse vno as s)"

definition init_special_vnode :: "'f kstate kenv \<Rightarrow> nat \<Rightarrow> 'f kstate \<Rightarrow> kfault + 'f kstate" where
  "init_special_vnode E vn s =
     bnd (vn_get vn s) (\<lambda>v.
     if S_ISCHR (vn_mode v) then
       Inr (vn_upd vn (\<lambda>v. v\<lparr>vn_ops := Some Bytedev_vops, vn_cdev := bytedev_lookup E (vn_devid v)\<rparr>) s)
     else
       check (S_ISBLK (vn_mode v)) Kassert_failed
         (Inr (vn_upd vn (\<lambda>v. v\<lparr>vn_ops := Some Blockdev_vops,
            vn_bdev := blockdev_lookup E (vn_devid v)\<rparr>) s)))"

definition vget :: "'f kstate kenv \<Rightarrow> nat \<Rightarrow> 'f kstate \<Rightarrow> kfault + (nat \<times> 'f kstate)" where
  "vget E vno s =
     bnd (find_inuse vno (vnode_inuse_list s) s) (\<lambda>found.
     case found of
       Some vn \<Rightarrow> bnd (vref vn s) (\<lambda>s. Inr (vn, s))
     | None \<Rightarrow>
         let vn = next_vnode s;
             s = s\<lparr>vnodes := (vnodes s)(vn \<mapsto> zero_vnode\<lparr>vn_vno := vno, vn_busy := True\<rparr>),
                   next_vnode := vn + 1, vnode_inuse_list := vn # vnode_inuse_list s\<rparr>
         in bnd (read_vnode E vn s) (\<lambda>s.
            let s = vn_upd vn (vn_busy_update (\<lambda>_. False)) s in
            bnd (vn_get vn s) (\<lambda>v.
            bnd (if S_ISCHR (vn_mode v) \<or> S_ISBLK (vn_mode v) then init_special_vnode E vn s
                 else Inr s) (\<lambda>s.
            Inr (vn, vn_upd vn (vn_refcount_update (\<lambda>_. 1)) s)))))"

definition vput :: "'f kstate kenv \<Rightarrow> nat \<Rightarrow> 'f kstate \<Rightarrow> kfault + 'f kstate" where
  "vput E vn s =
     bnd (vn_get vn s) (\<lambda>v.
     check (0 \<le> vn_nrespages v) Kassert_failed (
     check (vn_nrespages v < vn_refcount v) Kassert_failed (
     check (\<not> vn_busy v) Kassert_failed (
     bnd (if vn_nrespages v = vn_refcount v - 1 then query_vnode E vn s else Inr True) (\<lambda>linked.
     bnd (if linked then Inr s
          else bnd (uncache E vn s) (\<lambda>s.
               bnd (vn_get vn s) (\<lambda>v.
               check (vn_nrespages v = 0) Kassert_failed (
               check (vn_refcount v = 1) Kassert_failed (Inr s))))) (\<lambda>s.
     let s = vn_upd vn (vn_refcount_update (\<lambda>r. r - 1)) s in
     bnd (vn_get vn s) (\<lambda>v.
     if 0 < vn_refcount v then Inr s
     else
       check (vn_refcount v = 0) Kassert_failed (
       check (vn_nrespages v = 0) Kassert_failed (
       let s = vn_upd vn (vn_busy_update (\<lambda>_. True)) s in
       bnd (case delete_vnode E of None \<Rightarrow> Inr s | Some del \<Rightarrow> del vn s) (\<lambda>s.
       Inr (s\<lparr>vnode_inuse_list := remove1 vn (vnode_inuse_list s),
              vnodes := (vnodes s)(vn := None)\<rparr>)))))))))))"

fun in_use_list :: "nat option \<Rightarrow> nat list \<Rightarrow> 'f kstate \<Rightarrow> kfault + int" where
  "in_use_list root [] s = Inr 0"
| "in_use_list root (a # as) s =
     bnd (vn_get a s) (\<lambda>v.
     check (vn_nrespages v \<le> vn_refcount v) Kassert_failed (
     check (0 \<le> vn_nrespages v) Kassert_failed (
     let refs = vn_refcount v - vn_nrespages v in
     check (if root = Some a then 1 \<le> refs else 0 \<le> refs) Kassert_failed (
     bnd (in_use_list root as s) (\<lambda>r.
     Inr (if (if root = Some a then 1 < refs else refs \<noteq> 0) then - EBUSY else r))))))"

definition vfs_is_in_use :: "nat \<Rightarrow> 'f kstate \<Rightarrow> kfault + int" where
  "vfs_is_in_use root s = in_use_list (Some root) (vnode_inuse_list s) s"

definition vnode_inuse :: "'f kstate \<Rightarrow> nat" where
  "vnode_inuse s = length (vnode_inuse_list s)"

subsection \<open>Special files\<close>

definition special_file_read ::
  "(nat \<Rightarrow> int \<Rightarrow> nat \<Rightarrow> 'f kstate \<Rightarrow> kfault + (int \<times> string \<times> 'f kstate)) \<Rightarrow>
   nat \<Rightarrow> int \<Rightarrow> nat \<Rightarrow> 'f kstate \<Rightarrow> kfault + (int \<times> string \<times> 'f kstate)" where
  "special_file_read cd_read file offset count s =
     bnd (vn_get file s) (\<lambda>v.
     if S_ISBLK (vn_mode v) \<or> vn_cdev v = None then Inr (- ENOTSUP, [], s)
     else if S_ISCHR (vn_mode v) then
       deref (vn_cdev v) Kassert_failed (\<lambda>cdev. cd_read cdev offset count s)
     else Inr (- ENOTSUP, [], s))"

definition special_file_write ::
  "(nat \<Rightarrow> int \<Rightarrow> string \<Rightarrow> nat \<Rightarrow> 'f kstate \<Rightarrow> kfault + (int \<times> 'f kstate)) \<Rightarrow>
   nat \<Rightarrow> int \<Rightarrow> string \<Rightarrow> nat \<Rightarrow> 'f kstate \<Rightarrow> kfault + (int \<times> 'f kstate)" where
  "special_file_write cd_write file offset buf count s =
     bnd (vn_get file s) (\<lambda>v.
     if S_ISBLK (vn_mode v) \<or> vn_cdev v = None then Inr (- ENOTSUP, s)
     else if S_ISCHR (vn_mode v) then
       deref (vn_cdev v) Kassert_failed (\<lambda>cdev. cd_write cdev offset buf count s)
     else Inr (- ENOTSUP, s))"

text \<open>\<open>special_file_stat\<close> goes through the operations of the root vnode of the file system.\<close>

definition special_file_stat ::
  "'f kstate vnode_ops \<Rightarrow> nat \<Rightarrow> 'f kstate \<Rightarrow> kfault + (int \<times> kstat \<times> 'f kstate)" where
  "special_file_stat root_ops vn s = deref (op_stat root_ops) Kassert_failed (\<lambda>st. st vn s)"

definition bytedev_spec_vops ::
  "(nat \<Rightarrow> int \<Rightarrow> nat \<Rightarrow> 'f kstate \<Rightarrow> kfault + (int \<times> string \<times> 'f kstate)) \<Rightarrow>
   (nat \<Rightarrow> int \<Rightarrow> string \<Rightarrow> nat \<Rightarrow> 'f kstate \<Rightarrow> kfault + (int \<times> 'f kstate)) \<Rightarrow>
   'f kstate vnode_ops \<Rightarrow> 'f kstate vnode_ops" where
  "bytedev_spec_vops cd_read cd_write root_ops = no_vops
     \<lparr>op_read := Some (special_file_read cd_read), op_write := Some (special_file_write cd_write),
      op_stat := Some (special_file_stat root_ops)\<rparr>"

definition blockdev_spec_vops :: "'f kstate vnode_ops \<Rightarrow> 'f kstate vnode_ops" where
  "blockdev_spec_vops root_ops = no_vops\<lparr>op_stat := Some (special_file_stat root_ops)\<rparr>"

subsection \<open>Open files\<close>

definition file_ok :: "kfile \<Rightarrow> bool" where
  "file_ok f \<longleftrightarrow> 0 \<le> f_mode f \<and> f_mode f < 8 \<and> f_pos f \<ge> -1"

definition fref :: "nat \<Rightarrow> 'f kstate \<Rightarrow> kfault + 'f kstate" where
  "fref a s =
     bnd (file_get a s) (\<lambda>f.
     check (file_ok f) Kassert_failed (
     check (0 \<le> f_refcount f) Kassert_failed (
     check (f_refcount f \<noteq> 0 \<longrightarrow> f_vnode f \<noteq> None) Kassert_failed
       (Inr (file_upd a (f_refcount_update (\<lambda>r. r + 1)) s)))))"

definition vn_vops :: "'f kstate kenv \<Rightarrow> nat \<Rightarrow> 'f kstate \<Rightarrow> kfault + 'f kstate vnode_ops" where
  "vn_vops E vn s = bnd (vn_get vn s) (\<lambda>v. deref (vn_ops v) Null_deref (\<lambda>p. Inr (vops_of E p)))"

definition facq :: "'f kstate kenv \<Rightarrow> nat \<Rightarrow> nat \<Rightarrow> 'f kstate \<Rightarrow> kfault + 'f kstate" where
  "facq E a vn s =
     bnd (file_get a s) (\<lambda>f.
     check (f_vnode f = None) Kassert_failed (
     let s = file_upd a (f_vnode_update (\<lambda>_. Some vn)) s in
     bnd (vn_vops E vn s) (\<lambda>ops.
     case op_acquire ops of None \<Rightarrow> Inr s | Some acq \<Rightarrow> acq vn a s)))"

definition fget :: "int \<Rightarrow> 'f kstate \<Rightarrow> kfault + (nat option \<times> 'f kstate)" where
  "fget fd s =
     (if fd = -1 then
        let a = next_file s;
            s = s\<lparr>kfiles := (kfiles s)(a \<mapsto> zero_file), next_file := a + 1\<rparr>
        in bnd (fref a s) (\<lambda>s. Inr (Some a, s))
      else if fd < 0 \<or> fd \<ge> int NFILES then Inr (None, s)
      else
        case p_files s (nat fd) of
          None \<Rightarrow> Inr (None, s)
        | Some a \<Rightarrow> bnd (fref a s) (\<lambda>s. Inr (Some a, s)))"

definition fput :: "'f kstate kenv \<Rightarrow> nat \<Rightarrow> 'f kstate \<Rightarrow> kfault + 'f kstate" where
  "fput E a s =
     bnd (file_get a s) (\<lambda>f.
     check (file_ok f) Kassert_failed (
     check (0 < f_refcount f) Kassert_failed (
     check (f_refcount f \<noteq> 1 \<longrightarrow> f_vnode f \<noteq> None) Kassert_failed (
     let s = file_upd a (f_refcount_update (\<lambda>r. r - 1)) s in
     if f_refcount f - 1 = 0 then
       bnd (case f_vnode f of
              None \<Rightarrow> Inr s
            | Some vn \<Rightarrow>
                bnd (vn_vops E vn s) (\<lambda>ops.
                bnd (case op_release ops of None \<Rightarrow> Inr s | Some rel \<Rightarrow> rel vn a s) (\<lambda>s.
                vput E vn s))) (\<lambda>s.
       Inr (s\<lparr>kfiles := (kfiles s)(a := None)\<rparr>))
     else Inr s))))"

end
