(* ===== verification/Knamev.thy ===== *)
theory Knamev
  imports Vnode Kstring
begin

text \<open>
  Path names: \<open>fs/namev.c\<close>.  A path is a string without its terminator.  The out-parameters of the
  C functions are results: \<open>dir_namev\<close> returns the error code, the length and the text of the last
  component, and the vnode stored in \<open>*res_vnode\<close> (\<open>None\<close> when it is left NULL).
\<close>

definition lookup :: "'f kstate kenv \<Rightarrow> nat \<Rightarrow> string \<Rightarrow> nat \<Rightarrow> 'f kstate
    \<Rightarrow> kfault + (int \<times> nat option \<times> 'f kstate)" where
  "lookup E dir name len s =
     bnd (vn_get dir s) (\<lambda>v.
     deref (vn_ops v) Kassert_failed (\<lambda>p.
     case op_lookup (vops_of E p) of
       None \<Rightarrow> Inr (- ENOTDIR, None, s)
     | Some f \<Rightarrow>
         bnd (f dir name len s) (\<lambda>(ret, result, s).
         if ret < 0 then Inr (ret, result, s) else Inr (0, result, s))))"

text \<open>The two inner loops: the end of a component, and the end of a run of slashes.\<close>

function scan_end :: "string \<Rightarrow> nat \<Rightarrow> nat" where
  "scan_end path e = (if e < length path \<and> path ! e \<noteq> CHR ''/'' then scan_end path (Suc e) else e)"
  by pat_completeness auto
termination by (relation "measure (\<lambda>(path, e). length path - e)") auto

function scan_slash :: "string \<Rightarrow> nat \<Rightarrow> nat" where
  "scan_slash path e = (if e < length path \<and> path ! e = CHR ''/'' then scan_slash path (Suc e) else e)"
  by pat_completeness auto
termination by (relation "measure (\<lambda>(path, e). length path - e)") auto

declare scan_end.simps [simp del] scan_slash.simps [simp del]

lemma scan_end_ge: "e \<le> scan_end path e"
  by (induction path e rule: scan_end.induct) (subst scan_end.simps, auto)

lemma scan_end_le: "e \<le> length path \<Longrightarrow> scan_end path e \<le> length path"
  by (induction path e rule: scan_end.induct) (subst scan_end.simps, auto)

function dir_namev_loop :: "'f kstate kenv \<Rightarrow> string \<Rightarrow> nat \<Rightarrow> nat \<Rightarrow> 'f kstate
    \<Rightarrow> kfault + (int \<times> nat \<times> string \<times> nat option \<times> 'f kstate)" where
  "dir_namev_loop E path i parent s =
     (if i < length path then
        if path ! i = CHR ''/'' then dir_namev_loop E path (Suc i) parent s
        else
          let e = scan_end path (Suc i); len = e - i in
          if len > NAME_LEN then
            bnd (vput E parent s) (\<lambda>s. Inr (- ENAMETOOLONG, 0, [], None, s))
          else
            let tmp_name = take len (drop i path) in
            if e = length path \<or> scan_slash path e = length path then
              bnd (vn_get parent s) (\<lambda>v.
              if \<not> S_ISDIR (vn_mode v) then
                bnd (vput E parent s) (\<lambda>s. Inr (- ENOTDIR, 0, [], None, s))
              else Inr (0, len, tmp_name, Some parent, s))
            else
              bnd (lookup E parent tmp_name len s) (\<lambda>(ret, next, s).
              if ret < 0 then bnd (vput E parent s) (\<lambda>s. Inr (ret, 0, [], None, s))
              else
                bnd (vput E parent s) (\<lambda>s.
                deref next Null_deref (\<lambda>n. dir_namev_loop E path e n s)))
      else Inr (0, 0, [], Some parent, s))"
  by pat_completeness auto
termination
proof (relation "measure (\<lambda>(E, path, i, parent, s). length path - i)", goal_cases)
  case (3 E path i parent s e len tmp)
  then show ?case using scan_end_ge [of "Suc i" path] by auto
qed auto

declare dir_namev_loop.simps [simp del]

definition dir_namev :: "'f kstate kenv \<Rightarrow> string \<Rightarrow> nat option \<Rightarrow> 'f kstate
    \<Rightarrow> kfault + (int \<times> nat \<times> string \<times> nat option \<times> 'f kstate)" where
  "dir_namev E pathname base s =
     (if length pathname \<ge> MAXPATHLEN then Inr (- ENAMETOOLONG, 0, [], None, s)
      else
        let parent = (if pathname \<noteq> [] \<and> pathname ! 0 = CHR ''/'' then vfs_root_vn s
                      else case base of Some b \<Rightarrow> b | None \<Rightarrow> p_cwd s)
        in bnd (vref parent s) (\<lambda>s. dir_namev_loop E pathname 0 parent s))"

definition open_namev :: "'f kstate kenv \<Rightarrow> string \<Rightarrow> int \<Rightarrow> nat option \<Rightarrow> 'f kstate
    \<Rightarrow> kfault + (int \<times> nat option \<times> 'f kstate)" where
  "open_namev E pathname flag base s =
     bnd (dir_namev E pathname base s) (\<lambda>(ret, name_len, name, dir, s).
     if ret < 0 then
       bnd (case dir of None \<Rightarrow> Inr s | Some d \<Rightarrow> vput E d s) (\<lambda>s. Inr (ret, None, s))
     else
       deref dir Kassert_failed (\<lambda>dir.
       bnd (lookup E dir name name_len s) (\<lambda>(ret2, target, s).
       if ret2 = 0 then bnd (vput E dir s) (\<lambda>s. Inr (0, target, s))
       else if ret2 < 0 then
         if ret2 = - ENOENT \<and> flag AND O_CREAT \<noteq> 0 then
           bnd (vn_get dir s) (\<lambda>v.
           deref (vn_ops v) Kassert_failed (\<lambda>p.
           deref (op_create (vops_of E p)) Kassert_failed (\<lambda>create.
           bnd (create dir name name_len s) (\<lambda>(ret3, target, s).
           bnd (if ret3 < 0 then case target of None \<Rightarrow> Inr s | Some t \<Rightarrow> vput E t s else Inr s) (\<lambda>s.
           bnd (vput E dir s) (\<lambda>s. Inr (ret3, target, s)))))))
         else bnd (vput E dir s) (\<lambda>s. Inr (ret2, None, s))
       else Inl Kassert_failed)))"

end
