(* ===== verification/Ksyscall.thy ===== *)
theory Ksyscall
  imports Knamev
begin

text \<open>
  The system calls of the virtual file system: \<open>fs/open.c\<close> and \<open>fs/vfs_syscall.c\<close>.  \<open>curproc\<close> is
  the one process of the state.  \<open>do_read\<close> returns the bytes stored in the user buffer beside the
  result; \<open>do_getdent\<close> and \<open>do_stat\<close> return what they store behind their pointer argument.
\<close>

subsection \<open>open.c\<close>

fun find_empty_fd :: "nat \<Rightarrow> nat \<Rightarrow> 'f kstate \<Rightarrow> int" where
  "find_empty_fd 0 fd s = - EMFILE"
| "find_empty_fd (Suc n) fd s =
     (if p_files s fd = None then int fd else find_empty_fd n (Suc fd) s)"

definition get_empty_fd :: "'f kstate \<Rightarrow> int" where
  "get_empty_fd s = find_empty_fd NFILES 0 s"

definition set_fd :: "int \<Rightarrow> nat option \<Rightarrow> 'f kstate \<Rightarrow> 'f kstate" where
  "set_fd fd f s = s\<lparr>p_files := (p_files s)(nat fd := f)\<rparr>"

definition put_opt :: "'f kstate kenv \<Rightarrow> nat option \<Rightarrow> 'f kstate \<Rightarrow> kfault + 'f kstate" where
  "put_opt E vn s = (case vn of None \<Rightarrow> Inr s | Some a \<Rightarrow> vput E a s)"

definition open_mode :: "int \<Rightarrow> int" where
  "open_mode oflags =
     (let is_rw = oflags AND O_RDWR \<noteq> 0; is_w = oflags AND O_WRONLY \<noteq> 0;
          mode = (if is_w then FMODE_WRITE
                  else if is_rw then FMODE_WRITE OR FMODE_READ else FMODE_READ)
      in if oflags AND O_APPEND \<noteq> 0 then mode OR FMODE_APPEND else mode)"

definition do_open :: "'f kstate kenv \<Rightarrow> string \<Rightarrow> int \<Rightarrow> 'f kstate \<Rightarrow> kfault + (int \<times> 'f kstate)" where
  "do_open E filename oflags s =
     (if \<not> O_ISVALID oflags then Inr (- KEINVAL, s)
      else
        let is_rw = oflags AND O_RDWR \<noteq> 0; is_w = oflags AND O_WRONLY \<noteq> 0;
            is_r = (\<not> is_rw \<and> \<not> is_w) in
        if is_rw \<and> is_w then Inr (- KEINVAL, s)
        else if oflags AND O_TRUNC \<noteq> 0 \<and> is_r then Inr (- KEINVAL, s)
        else
          let fd = get_empty_fd s in
          if fd < 0 then Inr (fd, s)
          else
            bnd (fget (-1) s) (\<lambda>(f, s).
            case f of None \<Rightarrow> Inr (- ENOMEM, s)
            | Some file \<Rightarrow>
                let s = set_fd fd (Some file) s in
                bnd (file_get file s) (\<lambda>fl.
                check (f_pos fl = 0) Kassert_failed (
                let s = file_upd file (f_mode_update (\<lambda>_. open_mode oflags)) s in
                bnd (open_namev E filename oflags None s) (\<lambda>(ret, target, s).
                if ret < 0 then
                  bnd (put_opt E target (set_fd fd None s)) (\<lambda>s.
                  bnd (fput E file s) (\<lambda>s. Inr (ret, s)))
                else
                  deref target Kassert_failed (\<lambda>target.
                  bnd (vn_get target s) (\<lambda>v.
                  if (is_w \<or> is_rw) \<and> S_ISDIR (vn_mode v) then
                    bnd (vput E target (set_fd fd None s)) (\<lambda>s.
                    bnd (fput E file s) (\<lambda>s. Inr (- EISDIR, s)))
                  else Inr (fd, file_upd file (f_vnode_update (\<lambda>_. Some target)) s))))))))"

subsection \<open>Reading, writing, seeking\<close>

definition valid_fd :: "int \<Rightarrow> bool" where
  "valid_fd fd \<longleftrightarrow> 0 \<le> fd \<and> fd < int NFILES"

definition do_read :: "'f kstate kenv \<Rightarrow> int \<Rightarrow> nat \<Rightarrow> 'f kstate
    \<Rightarrow> kfault + (int \<times> string \<times> 'f kstate)" where
  "do_read E fd nbytes s =
     (if \<not> valid_fd fd then Inr (- EBADF, [], s)
      else
        bnd (fget fd s) (\<lambda>(f, s).
        case f of None \<Rightarrow> Inr (- EBADF, [], s)
        | Some file \<Rightarrow>
            bnd (file_get file s) (\<lambda>fl.
            if \<not> FMODE_ISREAD (f_mode fl) then
              bnd (fput E file s) (\<lambda>s. Inr (- EBADF, [], s))
            else
              deref (f_vnode fl) Kassert_failed (\<lambda>vn.
              bnd (vn_get vn s) (\<lambda>v.
              if S_ISDIR (vn_mode v) then bnd (fput E file s) (\<lambda>s. Inr (- EISDIR, [], s))
              else
                deref (vn_ops v) Kassert_failed (\<lambda>p.
                deref (op_read (vops_of E p)) Kassert_failed (\<lambda>read.
                bnd (read vn (f_pos fl) nbytes s) (\<lambda>(byte_count, bytes, s).
                bnd (sint32 (f_pos fl + byte_count)) (\<lambda>pos.
                bnd (fput E file (file_upd file (f_pos_update (\<lambda>_. pos)) s)) (\<lambda>s.
                Inr (byte_count, bytes, s)))))))))))"

definition seek_pos :: "int \<Rightarrow> int \<Rightarrow> int \<Rightarrow> int \<Rightarrow> kfault + int option" where
  "seek_pos pos len offset whence =
     (if whence = SEEK_SET then Inr (if offset < 0 then None else Some offset)
      else if whence = SEEK_CUR then
        bnd (sint32 (- offset)) (\<lambda>neg.
        if pos < neg then Inr None else bnd (sint32 (pos + offset)) (\<lambda>p. Inr (Some p)))
      else if whence = SEEK_END then
        bnd (sint32 (offset + len)) (\<lambda>p. Inr (if p < 0 then None else Some p))
      else Inr None)"

definition do_lseek :: "'f kstate kenv \<Rightarrow> int \<Rightarrow> int \<Rightarrow> int \<Rightarrow> 'f kstate
    \<Rightarrow> kfault + (int \<times> 'f kstate)" where
  "do_lseek E fd offset whence s =
     (if \<not> valid_fd fd then Inr (- EBADF, s)
      else
        bnd (fget fd s) (\<lambda>(f, s).
        case f of None \<Rightarrow> Inr (- EBADF, s)
        | Some file \<Rightarrow>
            bnd (file_get file s) (\<lambda>fl.
            deref (f_vnode fl) Kassert_failed (\<lambda>vn.
            bnd (vn_get vn s) (\<lambda>v.
            bnd (seek_pos (f_pos fl) (vn_len v) offset whence) (\<lambda>p.
            case p of None \<Rightarrow> bnd (fput E file s) (\<lambda>s. Inr (- KEINVAL, s))
            | Some pos \<Rightarrow>
                bnd (fput E file (file_upd file (f_pos_update (\<lambda>_. pos)) s)) (\<lambda>s.
                Inr (pos, s))))))))"

definition do_write :: "'f kstate kenv \<Rightarrow> int \<Rightarrow> string \<Rightarrow> nat \<Rightarrow> 'f kstate
    \<Rightarrow> kfault + (int \<times> 'f kstate)" where
  "do_write E fd buf nbytes s =
     (if \<not> valid_fd fd then Inr (- EBADF, s)
      else
        bnd (fget fd s) (\<lambda>(f, s).
        case f of None \<Rightarrow> Inr (- EBADF, s)
        | Some file \<Rightarrow>
            bnd (file_get file s) (\<lambda>fl.
            if FMODE_ISREAD (f_mode fl) \<and> \<not> FMODE_ISWRITE (f_mode fl) then
              bnd (fput E file s) (\<lambda>s. Inr (- EBADF, s))
            else
              bnd (if FMODE_ISAPPEND (f_mode fl) then do_lseek E fd 0 SEEK_END s
                   else Inr (0, s)) (\<lambda>(ret, s).
              if ret < 0 then bnd (fput E file s) (\<lambda>s. Inr (ret, s))
              else
                bnd (file_get file s) (\<lambda>fl.
                deref (f_vnode fl) Kassert_failed (\<lambda>vn.
                bnd (vn_get vn s) (\<lambda>v.
                deref (vn_ops v) Kassert_failed (\<lambda>p.
                deref (op_write (vops_of E p)) Kassert_failed (\<lambda>write.
                bnd (write vn (f_pos fl) buf nbytes s) (\<lambda>(bytes_count, s).
                bnd (sint32 (f_pos fl + bytes_count)) (\<lambda>pos.
                bnd (fput E file (file_upd file (f_pos_update (\<lambda>_. pos)) s)) (\<lambda>s.
                Inr (bytes_count, s)))))))))))))"

definition do_getdent :: "'f kstate kenv \<Rightarrow> int \<Rightarrow> 'f kstate
    \<Rightarrow> kfault + (int \<times> dirent option \<times> 'f kstate)" where
  "do_getdent E fd s =
     (if \<not> valid_fd fd then Inr (- EBADF, None, s)
      else
        bnd (fget fd s) (\<lambda>(f, s).
        case f of None \<Rightarrow> Inr (- EBADF, None, s)
        | Some file \<Rightarrow>
            bnd (file_get file s) (\<lambda>fl.
            deref (f_vnode fl) Kassert_failed (\<lambda>vn.
            bnd (vn_get vn s) (\<lambda>v.
            if \<not> S_ISDIR (vn_mode v) then bnd (fput E file s) (\<lambda>s. Inr (- ENOTDIR, None, s))
            else
              deref (vn_ops v) Kassert_failed (\<lambda>p.
              deref (op_readdir (vops_of E p)) Kassert_failed (\<lambda>readdir.
              bnd (readdir vn (f_pos fl) s) (\<lambda>(ret, d, s).
              bnd (sint32 (f_pos fl + ret)) (\<lambda>pos.
              bnd (fput E file (file_upd file (f_pos_update (\<lambda>_. pos)) s)) (\<lambda>s.
              Inr (if ret = 0 then 0 else 40, d, s)))))))))))"

subsection \<open>File descriptors\<close>

definition do_close :: "'f kstate kenv \<Rightarrow> int \<Rightarrow> 'f kstate \<Rightarrow> kfault + (int \<times> 'f kstate)" where
  "do_close E fd s =
     (if \<not> valid_fd fd then Inr (- EBADF, s)
      else
        bnd (fget fd s) (\<lambda>(f, s).
        case f of None \<Rightarrow> Inr (- EBADF, s)
        | Some file \<Rightarrow>
            bnd (fput E file s) (\<lambda>s.
            bnd (fput E file s) (\<lambda>s.
            Inr (0, set_fd fd None s)))))"

definition do_dup :: "'f kstate kenv \<Rightarrow> int \<Rightarrow> 'f kstate \<Rightarrow> kfault + (int \<times> 'f kstate)" where
  "do_dup E fd s =
     (if \<not> valid_fd fd then Inr (- EBADF, s)
      else
        bnd (fget fd s) (\<lambda>(f, s).
        case f of None \<Rightarrow> Inr (- EBADF, s)
        | Some file \<Rightarrow>
            let id = get_empty_fd s in
            if id < 0 then bnd (fput E file s) (\<lambda>s. Inr (id, s))
            else Inr (id, set_fd id (Some file) s)))"

definition do_dup2 :: "'f kstate kenv \<Rightarrow> int \<Rightarrow> int \<Rightarrow> 'f kstate \<Rightarrow> kfault + (int \<times> 'f kstate)" where
  "do_dup2 E ofd nfd s =
     (if \<not> valid_fd ofd \<or> \<not> valid_fd nfd then Inr (- EBADF, s)
      else
        bnd (fget ofd s) (\<lambda>(f, s).
        case f of None \<Rightarrow> Inr (- EBADF, s)
        | Some file \<Rightarrow>
            check (p_files s (nat ofd) = Some file) Kassert_failed (
            if p_files s (nat nfd) \<noteq> None \<and> nfd = ofd then
              bnd (fput E file s) (\<lambda>s. Inr (ofd, s))
            else
              bnd (if p_files s (nat nfd) \<noteq> None then do_close E nfd s else Inr (0, s)) (\<lambda>(_, s).
              Inr (nfd, set_fd nfd (p_files s (nat ofd)) s)))))"

subsection \<open>Names\<close>

definition do_mknod :: "'f kstate kenv \<Rightarrow> string \<Rightarrow> int \<Rightarrow> nat \<Rightarrow> 'f kstate
    \<Rightarrow> kfault + (int \<times> 'f kstate)" where
  "do_mknod E path mode devid s =
     (if \<not> S_ISCHR mode \<and> \<not> S_ISBLK mode then Inr (- KEINVAL, s)
      else
        bnd (dir_namev E path None s) (\<lambda>(ret, name_len, name, dir, s).
        if ret < 0 then bnd (put_opt E dir s) (\<lambda>s. Inr (ret, s))
        else
          deref dir Null_deref (\<lambda>dir.
          bnd (lookup E dir name name_len s) (\<lambda>(ret, target, s).
          if ret = 0 then
            deref target Kassert_failed (\<lambda>t.
            bnd (vput E t s) (\<lambda>s. bnd (vput E dir s) (\<lambda>s. Inr (- EEXIST, s))))
          else if ret \<noteq> - ENOENT then
            bnd (put_opt E target s) (\<lambda>s. bnd (vput E dir s) (\<lambda>s. Inr (ret, s)))
          else
            check (target = None) Kassert_failed (
            bnd (vn_get dir s) (\<lambda>v.
            deref (vn_ops v) Kassert_failed (\<lambda>p.
            deref (op_mknod (vops_of E p)) Kassert_failed (\<lambda>mknod.
            bnd (mknod dir name name_len mode devid s) (\<lambda>(ret2, s).
            bnd (vput E dir s) (\<lambda>s. Inr (ret2, s)))))))))))"

definition do_mkdir :: "'f kstate kenv \<Rightarrow> string \<Rightarrow> 'f kstate \<Rightarrow> kfault + (int \<times> 'f kstate)" where
  "do_mkdir E path s =
     (if path = [] then Inr (- ENOENT, s)
      else
        bnd (dir_namev E path None s) (\<lambda>(ret, name_len, name, dir, s).
        if ret < 0 then bnd (put_opt E dir s) (\<lambda>s. Inr (ret, s))
        else
          deref dir Null_deref (\<lambda>dir.
          bnd (lookup E dir name name_len s) (\<lambda>(ret, target, s).
          if ret = - ENOENT then
            check (target = None) Kassert_failed (
            bnd (vn_get dir s) (\<lambda>v.
            deref (vn_ops v) Kassert_failed (\<lambda>p.
            deref (op_mkdir (vops_of E p)) Kassert_failed (\<lambda>mkdir.
            bnd (mkdir dir name name_len s) (\<lambda>(ret, s).
            bnd (vput E dir s) (\<lambda>s. Inr (ret, s)))))))
          else if ret = 0 then
            deref target Kassert_failed (\<lambda>t.
            bnd (vput E t s) (\<lambda>s. bnd (vput E dir s) (\<lambda>s. Inr (- EEXIST, s))))
          else
            bnd (put_opt E target s) (\<lambda>s. bnd (vput E dir s) (\<lambda>s. Inr (ret, s)))))))"

definition do_rmdir :: "'f kstate kenv \<Rightarrow> string \<Rightarrow> 'f kstate \<Rightarrow> kfault + (int \<times> 'f kstate)" where
  "do_rmdir E path s =
     (if path = [] then Inr (- ENOENT, s)
      else
        bnd (dir_namev E path None s) (\<lambda>(ret, name_len, name, dir, s).
        if ret < 0 then bnd (put_opt E dir s) (\<lambda>s. Inr (ret, s))
        else
          deref dir Null_deref (\<lambda>dir.
          if strncmp name ''.'' 1 = 0 \<and> length name = 1 then
            bnd (vput E dir s) (\<lambda>s. Inr (- KEINVAL, s))
          else if strncmp name ''..'' 2 = 0 \<and> length name = 2 then
            bnd (vput E dir s) (\<lambda>s. Inr (- ENOTEMPTY, s))
          else
            bnd (vn_get dir s) (\<lambda>v.
            deref (vn_ops v) Kassert_failed (\<lambda>p.
            deref (op_rmdir (vops_of E p)) Kassert_failed (\<lambda>rmdir.
            bnd (rmdir dir name name_len s) (\<lambda>(ret, s).
            bnd (vput E dir s) (\<lambda>s. Inr (ret, s)))))))))"

definition do_unlink :: "'f kstate kenv \<Rightarrow> string \<Rightarrow> 'f kstate \<Rightarrow> kfault + (int \<times> 'f kstate)" where
  "do_unlink E path s =
     (if path = [] then Inr (- ENOENT, s)
      else
        bnd (dir_namev E path None s) (\<lambda>(ret, name_len, name, dir, s).
        if ret < 0 then bnd (put_opt E dir s) (\<lambda>s. Inr (ret, s))
        else
          deref dir Null_deref (\<lambda>dir.
          bnd (lookup E dir name name_len s) (\<lambda>(ret2, target, s).
          if ret2 < 0 then
            bnd (put_opt E target s) (\<lambda>s. bnd (vput E dir s) (\<lambda>s. Inr (ret2, s)))
          else
            deref target Null_deref (\<lambda>t.
            bnd (vn_get t s) (\<lambda>tv.
            if S_ISDIR (vn_mode tv) then
              bnd (vput E t s) (\<lambda>s. bnd (vput E dir s) (\<lambda>s. Inr (- EISDIR, s)))
            else
              bnd (vn_get dir s) (\<lambda>v.
              deref (vn_ops v) Kassert_failed (\<lambda>p.
              deref (op_unlink (vops_of E p)) Kassert_failed (\<lambda>unlink.
              bnd (unlink dir name name_len s) (\<lambda>(ret3, s).
              bnd (vput E dir s) (\<lambda>s.
              bnd (vput E t s) (\<lambda>s. Inr (ret3, s)))))))))))))"

definition do_link :: "'f kstate kenv \<Rightarrow> string \<Rightarrow> string \<Rightarrow> 'f kstate
    \<Rightarrow> kfault + (int \<times> 'f kstate)" where
  "do_link E from to s =
     (if from = [] \<or> to = [] then Inr (- ENOENT, s)
      else
        bnd (open_namev E from O_RDONLY None s) (\<lambda>(ret, from_node, s).
        if ret < 0 then bnd (put_opt E from_node s) (\<lambda>s. Inr (ret, s))
        else
          deref from_node Null_deref (\<lambda>from_node.
          bnd (vn_get from_node s) (\<lambda>fv.
          if \<not> S_ISDIR (vn_mode fv) then bnd (vput E from_node s) (\<lambda>s. Inr (- ENOTDIR, s))
          else
            bnd (dir_namev E to None s) (\<lambda>(ret, name_len, name, to_node, s).
            if ret < 0 then
              bnd (vput E from_node s) (\<lambda>s. bnd (put_opt E to_node s) (\<lambda>s. Inr (ret, s)))
            else
              deref to_node Null_deref (\<lambda>to_node.
              bnd (lookup E to_node name name_len s) (\<lambda>(ret, tmp_node, s).
              if ret < 0 then
                if ret = ENOENT then
                  bnd (vn_get from_node s) (\<lambda>fv.
                  deref (vn_ops fv) Kassert_failed (\<lambda>p.
                  deref (op_link (vops_of E p)) Null_deref (\<lambda>link.
                  bnd (link from_node to_node name name_len s) (\<lambda>(ret2, s).
                  bnd (vput E from_node s) (\<lambda>s.
                  bnd (vput E to_node s) (\<lambda>s. Inr (ret2, s)))))))
                else
                  bnd (vput E from_node s) (\<lambda>s.
                  bnd (vput E to_node s) (\<lambda>s.
                  bnd (put_opt E tmp_node s) (\<lambda>s. Inr (ret, s))))
              else
                bnd (vput E from_node s) (\<lambda>s.
                bnd (vput E to_node s) (\<lambda>s.
                bnd (put_opt E tmp_node s) (\<lambda>s. Inr (- EEXIST, s)))))))))))"

definition do_rename :: "'f kstate kenv \<Rightarrow> string \<Rightarrow> string \<Rightarrow> 'f kstate
    \<Rightarrow> kfault + (int \<times> 'f kstate)" where
  "do_rename E oldname newname s =
     bnd (do_link E oldname newname s) (\<lambda>(ret, s).
     if ret < 0 then Inr (ret, s) else do_unlink E oldname s)"

definition do_chdir :: "'f kstate kenv \<Rightarrow> string \<Rightarrow> 'f kstate \<Rightarrow> kfault + (int \<times> 'f kstate)" where
  "do_chdir E path s =
     (if path = [] then Inr (- ENOENT, s)
      else
        bnd (open_namev E path O_RDONLY None s) (\<lambda>(ret, target, s).
        if ret < 0 then bnd (put_opt E target s) (\<lambda>s. Inr (ret, s))
        else
          deref target Null_deref (\<lambda>t.
          bnd (vn_get t s) (\<lambda>v.
          if \<not> S_ISDIR (vn_mode v) then bnd (vput E t s) (\<lambda>s. Inr (- ENOTDIR, s))
          else
            let old = p_cwd s in
            bnd (vput E old (s\<lparr>p_cwd := t\<rparr>)) (\<lambda>s. Inr (0, s))))))"

definition do_stat :: "'f kstate kenv \<Rightarrow> string \<Rightarrow> 'f kstate
    \<Rightarrow> kfault + (int \<times> kstat option \<times> 'f kstate)" where
  "do_stat E path s =
     (if path = [] then Inr (- ENOENT, None, s)
      else
        bnd (open_namev E path O_RDWR None s) (\<lambda>(ret, target, s).
        if ret < 0 then bnd (put_opt E target s) (\<lambda>s. Inr (ret, None, s))
        else
          deref target Kassert_failed (\<lambda>t.
          bnd (vn_get t s) (\<lambda>v.
          deref (vn_ops v) Kassert_failed (\<lambda>p.
          deref (op_stat (vops_of E p)) Kassert_failed (\<lambda>stat.
          bnd (stat t s) (\<lambda>(ret, st, s).
          bnd (vput E t s) (\<lambda>s. Inr (ret, Some st, s)))))))))"

end
