(* ===== verification/Ramfs.thy ===== *)
theory Ramfs
  imports Ksyscall
begin

text \<open>
  The in-memory file system, \<open>fs/ramfs/ramfs.c\<close>.  Inodes live at addresses of their own and the
  table \<open>rfs_inodes\<close> holds 64 pointers to them.  The one page of an inode is read in three ways,
  by its type: the bytes of a file, an array of 128 directory entries, or (for a device) no page
  at all but the device number.  A directory entry is free when its name is empty.
  \<open>kmalloc\<close> and \<open>page_alloc\<close> are taken to succeed.  \<open>ramfs_env D\<close> is the table of operations the
  virtual file system is linked with; \<open>D\<close> are the device drivers.
\<close>

subsection \<open>Data\<close>

record ramfs_dirent =
  rd_ino :: nat
  rd_name :: string

datatype ramfs_mem = Page string | Dirents "ramfs_dirent list" | Devid nat

record ramfs_inode =
  rf_size :: int
  rf_ino :: nat
  rf_mem :: ramfs_mem
  rf_mode :: nat
  rf_linkcount :: int

definition RAMFS_TYPE_DATA :: nat where "RAMFS_TYPE_DATA = 0"
definition RAMFS_TYPE_DIR :: nat where "RAMFS_TYPE_DIR = 1"
definition RAMFS_TYPE_CHR :: nat where "RAMFS_TYPE_CHR = 2"
definition RAMFS_TYPE_BLK :: nat where "RAMFS_TYPE_BLK = 3"
definition RAMFS_MAX_FILES :: nat where "RAMFS_MAX_FILES = 64"
definition RAMFS_MAX_DIRENT :: nat where "RAMFS_MAX_DIRENT = 128"
definition RD_SIZE :: nat where "RD_SIZE = 32"  \<comment> \<open>\<open>sizeof(ramfs_dirent_t)\<close>\<close>

lemmas ramfs_consts = RAMFS_TYPE_DATA_def RAMFS_TYPE_DIR_def RAMFS_TYPE_CHR_def RAMFS_TYPE_BLK_def

record ramfs =
  rfs_inodes :: "nat \<Rightarrow> nat option"
  rf_heap :: "nat \<Rightarrow> ramfs_inode option"
  next_inode :: nat
  fs_root :: "nat option"

type_synonym rstate = "ramfs kstate"

record devs =
  dv_byte :: "nat \<Rightarrow> nat option"
  dv_block :: "nat \<Rightarrow> nat option"
  dv_read :: "nat \<Rightarrow> int \<Rightarrow> nat \<Rightarrow> kfault + (int \<times> string)"
  dv_write :: "nat \<Rightarrow> int \<Rightarrow> string \<Rightarrow> nat \<Rightarrow> kfault + int"

definition rf_get :: "nat \<Rightarrow> rstate \<Rightarrow> kfault + ramfs_inode" where
  "rf_get a s = deref (rf_heap (fs_data s) a) Null_deref Inr"

definition rf_upd :: "nat \<Rightarrow> (ramfs_inode \<Rightarrow> ramfs_inode) \<Rightarrow> rstate \<Rightarrow> rstate" where
  "rf_upd a f s = s\<lparr>fs_data := (fs_data s)\<lparr>rf_heap :=
     (rf_heap (fs_data s))(a := map_option f (rf_heap (fs_data s) a))\<rparr>\<rparr>"

definition vnode_inode :: "nat \<Rightarrow> rstate \<Rightarrow> kfault + (nat \<times> ramfs_inode)" where
  "vnode_inode vn s =
     bnd (vn_get vn s) (\<lambda>v. bnd (rf_get (vn_i v) s) (\<lambda>i. Inr (vn_i v, i)))"

definition as_dirents :: "ramfs_inode \<Rightarrow> kfault + ramfs_dirent list" where
  "as_dirents i = (case rf_mem i of Dirents ds \<Rightarrow> Inr ds | _ \<Rightarrow> Inl Wild_access)"

definition as_page :: "ramfs_inode \<Rightarrow> kfault + string" where
  "as_page i = (case rf_mem i of Page p \<Rightarrow> Inr p | _ \<Rightarrow> Inl Wild_access)"

definition free_dirent :: ramfs_dirent where "free_dirent = \<lparr>rd_ino = 0, rd_name = []\<rparr>"

subsection \<open>Inodes\<close>

fun find_free_inode :: "nat \<Rightarrow> nat \<Rightarrow> ramfs \<Rightarrow> nat option" where
  "find_free_inode 0 i r = None"
| "find_free_inode (Suc n) i r =
     (if rfs_inodes r i = None then Some i else find_free_inode n (Suc i) r)"

definition ramfs_alloc_inode :: "nat \<Rightarrow> nat \<Rightarrow> rstate \<Rightarrow> kfault + (int \<times> rstate)" where
  "ramfs_alloc_inode type devid s =
     check (type = RAMFS_TYPE_DATA \<or> type = RAMFS_TYPE_DIR \<or> type = RAMFS_TYPE_CHR
            \<or> type = RAMFS_TYPE_BLK) Kassert_failed
     (let r = fs_data s in
      case find_free_inode RAMFS_MAX_FILES 0 r of
        None \<Rightarrow> Inr (- ENOSPC, s)
      | Some i \<Rightarrow>
          let mem = (if type = RAMFS_TYPE_CHR \<or> type = RAMFS_TYPE_BLK then Devid devid
                     else if type = RAMFS_TYPE_DIR then Dirents (replicate RAMFS_MAX_DIRENT free_dirent)
                     else Page (replicate PAGE_SIZE NUL));
              inode = \<lparr>rf_size = 0, rf_ino = i, rf_mem = mem, rf_mode = type, rf_linkcount = 1\<rparr>
          in Inr (int i, s\<lparr>fs_data := r\<lparr>rfs_inodes := (rfs_inodes r)(i \<mapsto> next_inode r),
               rf_heap := (rf_heap r)(next_inode r \<mapsto> inode), next_inode := next_inode r + 1\<rparr>\<rparr>))"

definition ramfs_read_vnode :: "nat \<Rightarrow> rstate \<Rightarrow> kfault + rstate" where
  "ramfs_read_vnode vn s =
     bnd (vn_get vn s) (\<lambda>v.
     check (vn_vno v < RAMFS_MAX_FILES) Wild_access (
     deref (rfs_inodes (fs_data s) (vn_vno v)) Kassert_failed (\<lambda>a.
     bnd (rf_get a s) (\<lambda>i.
     check (rf_ino i = vn_vno v) Kassert_failed (
     let s = rf_upd a (rf_linkcount_update (\<lambda>n. n + 1)) s;
         s = vn_upd vn (\<lambda>v. v\<lparr>vn_i := a, vn_len := rf_size i\<rparr>) s
     in
     if rf_mode i = RAMFS_TYPE_DATA then
       Inr (vn_upd vn (\<lambda>v. v\<lparr>vn_mode := S_IFREG, vn_ops := Some File_vops\<rparr>) s)
     else if rf_mode i = RAMFS_TYPE_DIR then
       Inr (vn_upd vn (\<lambda>v. v\<lparr>vn_mode := S_IFDIR, vn_ops := Some Dir_vops\<rparr>) s)
     else case rf_mem i of
       Devid d \<Rightarrow>
         if rf_mode i = RAMFS_TYPE_CHR then
           Inr (vn_upd vn (\<lambda>v. v\<lparr>vn_mode := S_IFCHR, vn_ops := None, vn_devid := d\<rparr>) s)
         else if rf_mode i = RAMFS_TYPE_BLK then
           Inr (vn_upd vn (\<lambda>v. v\<lparr>vn_mode := S_IFBLK, vn_ops := None, vn_devid := d\<rparr>) s)
         else Inl Kernel_panic
     | _ \<Rightarrow> Inl Kernel_panic)))))"

definition ramfs_delete_vnode :: "nat \<Rightarrow> rstate \<Rightarrow> kfault + rstate" where
  "ramfs_delete_vnode vn s =
     bnd (vn_get vn s) (\<lambda>v.
     bnd (rf_get (vn_i v) s) (\<lambda>i.
     let s = rf_upd (vn_i v) (rf_linkcount_update (\<lambda>n. n - 1)) s in
     if rf_linkcount i - 1 = 0 then
       check (rfs_inodes (fs_data s) (vn_vno v) = Some (vn_i v)) Kassert_failed
         (Inr (s\<lparr>fs_data := (fs_data s)\<lparr>
            rfs_inodes := (rfs_inodes (fs_data s))(vn_vno v := None),
            rf_heap := (rf_heap (fs_data s))(vn_i v := None)\<rparr>\<rparr>))
     else Inr s))"

definition ramfs_query_vnode :: "nat \<Rightarrow> rstate \<Rightarrow> kfault + bool" where
  "ramfs_query_vnode vn s = bnd (vnode_inode vn s) (\<lambda>(a, i). Inr (rf_linkcount i > 1))"

text \<open>The vnode layer under the operations; no page of a ramfs vnode is ever resident.\<close>

definition ramfs_vn :: "devs \<Rightarrow> rstate kenv" where
  "ramfs_vn D = \<lparr>read_vnode = ramfs_read_vnode, delete_vnode = Some ramfs_delete_vnode,
     query_vnode = ramfs_query_vnode, uncache = (\<lambda>_. Inr), vops_of = (\<lambda>_. no_vops),
     bytedev_lookup = dv_byte D, blockdev_lookup = dv_block D\<rparr>"

subsection \<open>Directories\<close>

fun find_entry :: "ramfs_dirent list \<Rightarrow> string \<Rightarrow> nat \<Rightarrow> nat option" where
  "find_entry [] name len = None"
| "find_entry (d # ds) name len =
     (if name_match (rd_name d) name len then Some 0 else map_option Suc (find_entry ds name len))"

fun find_space :: "ramfs_dirent list \<Rightarrow> nat option" where
  "find_space [] = None"
| "find_space (d # ds) = (if rd_name d = [] then Some 0 else map_option Suc (find_space ds))"

definition ramfs_lookup :: "devs \<Rightarrow> nat \<Rightarrow> string \<Rightarrow> nat \<Rightarrow> rstate
    \<Rightarrow> kfault + (int \<times> nat option \<times> rstate)" where
  "ramfs_lookup D dir name namelen s =
     bnd (vnode_inode dir s) (\<lambda>(_, inode).
     bnd (as_dirents inode) (\<lambda>ds.
     case find_entry ds name namelen of
       None \<Rightarrow> Inr (- ENOENT, None, s)
     | Some i \<Rightarrow> bnd (vget (ramfs_vn D) (rd_ino (ds ! i)) s) (\<lambda>(vn, s). Inr (0, Some vn, s))))"

text \<open>Entry \<open>i\<close> of directory \<open>dir\<close> is set to inode \<open>ino\<close> under a name; names are cut to 27
  characters.  The size of the directory grows by one entry.\<close>

definition set_entry :: "nat \<Rightarrow> nat \<Rightarrow> nat \<Rightarrow> string \<Rightarrow> nat \<Rightarrow> rstate \<Rightarrow> kfault + rstate" where
  "set_entry dir i ino name name_len s =
     bnd (vnode_inode dir s) (\<lambda>(a, inode).
     bnd (as_dirents inode) (\<lambda>ds.
     let e = \<lparr>rd_ino = ino, rd_name = take (min name_len (NAME_LEN - 1)) name\<rparr> in
     Inr (rf_upd a (\<lambda>n. n\<lparr>rf_mem := Dirents (ds[i := e]), rf_size := rf_size n + int RD_SIZE\<rparr>) s)))"

text \<open>The entry of a name is freed and the directory shrinks.\<close>

definition clear_entry :: "nat \<Rightarrow> string \<Rightarrow> nat \<Rightarrow> rstate \<Rightarrow> kfault + rstate" where
  "clear_entry dir name namelen s =
     bnd (vnode_inode dir s) (\<lambda>(a, inode).
     bnd (as_dirents inode) (\<lambda>ds.
     let ds' = (case find_entry ds name namelen of None \<Rightarrow> ds
                | Some i \<Rightarrow> ds[i := (ds ! i)\<lparr>rd_name := []\<rparr>]) in
     Inr (rf_upd a (\<lambda>n. n\<lparr>rf_mem := Dirents ds', rf_size := rf_size n - int RD_SIZE\<rparr>) s)))"

text \<open>\<open>KASSERT(0 != ramfs_lookup(dir, name, name_len, &vn))\<close>, then the search for space.\<close>

definition dir_space :: "devs \<Rightarrow> nat \<Rightarrow> string \<Rightarrow> nat \<Rightarrow> rstate \<Rightarrow> kfault + (nat option \<times> rstate)" where
  "dir_space D dir name name_len s =
     bnd (ramfs_lookup D dir name name_len s) (\<lambda>(ret, _, s).
     check (ret \<noteq> 0) Kassert_failed (
     bnd (vnode_inode dir s) (\<lambda>(_, inode).
     bnd (as_dirents inode) (\<lambda>ds. Inr (find_space ds, s)))))"

definition ramfs_create :: "devs \<Rightarrow> nat \<Rightarrow> string \<Rightarrow> nat \<Rightarrow> rstate
    \<Rightarrow> kfault + (int \<times> nat option \<times> rstate)" where
  "ramfs_create D dir name name_len s =
     bnd (dir_space D dir name name_len s) (\<lambda>(space, s).
     case space of None \<Rightarrow> Inr (- ENOSPC, None, s)
     | Some i \<Rightarrow>
         bnd (ramfs_alloc_inode RAMFS_TYPE_DATA 0 s) (\<lambda>(ino, s).
         if ino < 0 then Inr (ino, None, s)
         else
           bnd (vget (ramfs_vn D) (nat ino) s) (\<lambda>(vn, s).
           bnd (vn_get vn s) (\<lambda>v.
           bnd (set_entry dir i (vn_vno v) name name_len s) (\<lambda>s.
           Inr (0, Some vn, s))))))"

definition ramfs_mknod :: "devs \<Rightarrow> nat \<Rightarrow> string \<Rightarrow> nat \<Rightarrow> int \<Rightarrow> nat \<Rightarrow> rstate
    \<Rightarrow> kfault + (int \<times> rstate)" where
  "ramfs_mknod D dir name name_len mode devid s =
     bnd (dir_space D dir name name_len s) (\<lambda>(space, s).
     case space of None \<Rightarrow> Inr (- ENOSPC, s)
     | Some i \<Rightarrow>
         bnd (if S_ISCHR mode then ramfs_alloc_inode RAMFS_TYPE_CHR devid s
              else if S_ISBLK mode then ramfs_alloc_inode RAMFS_TYPE_BLK devid s
              else Inl Kernel_panic) (\<lambda>(ino, s).
         if ino < 0 then Inr (ino, s)
         else bnd (set_entry dir i (nat ino) name name_len s) (\<lambda>s. Inr (0, s))))"

definition ramfs_link :: "devs \<Rightarrow> nat \<Rightarrow> nat \<Rightarrow> string \<Rightarrow> nat \<Rightarrow> rstate \<Rightarrow> kfault + (int \<times> rstate)" where
  "ramfs_link D oldvnode dir name name_len s =
     bnd (dir_space D dir name name_len s) (\<lambda>(space, s).
     case space of None \<Rightarrow> Inr (- ENOSPC, s)
     | Some i \<Rightarrow>
         bnd (vn_get oldvnode s) (\<lambda>ov.
         bnd (set_entry dir i (vn_vno ov) name name_len s) (\<lambda>s.
         bnd (rf_get (vn_i ov) s) (\<lambda>_.
         Inr (0, rf_upd (vn_i ov) (rf_linkcount_update (\<lambda>n. n + 1)) s)))))"

definition drop_link :: "nat \<Rightarrow> rstate \<Rightarrow> kfault + rstate" where
  "drop_link vn s =
     bnd (vnode_inode vn s) (\<lambda>(a, _). Inr (rf_upd a (rf_linkcount_update (\<lambda>n. n - 1)) s))"

definition ramfs_unlink :: "devs \<Rightarrow> nat \<Rightarrow> string \<Rightarrow> nat \<Rightarrow> rstate \<Rightarrow> kfault + (int \<times> rstate)" where
  "ramfs_unlink D dir name namelen s =
     bnd (ramfs_lookup D dir name namelen s) (\<lambda>(ret, vn, s).
     check (ret = 0) Kassert_failed (
     deref vn Null_deref (\<lambda>vn.
     bnd (vn_get vn s) (\<lambda>v.
     check (\<not> S_ISDIR (vn_mode v)) Kassert_failed (
     bnd (clear_entry dir name namelen s) (\<lambda>s.
     bnd (drop_link vn s) (\<lambda>s.
     bnd (vput (ramfs_vn D) vn s) (\<lambda>s. Inr (0, s)))))))))"

definition ramfs_mkdir :: "devs \<Rightarrow> nat \<Rightarrow> string \<Rightarrow> nat \<Rightarrow> rstate \<Rightarrow> kfault + (int \<times> rstate)" where
  "ramfs_mkdir D dir name name_len s =
     bnd (dir_space D dir name name_len s) (\<lambda>(space, s).
     case space of None \<Rightarrow> Inr (- ENOSPC, s)
     | Some i \<Rightarrow>
         bnd (ramfs_alloc_inode RAMFS_TYPE_DIR 0 s) (\<lambda>(ino, s).
         if ino < 0 then Inr (ino, s)
         else
           bnd (set_entry dir i (nat ino) name name_len s) (\<lambda>s.
           bnd (vn_get dir s) (\<lambda>dv.
           deref (rfs_inodes (fs_data s) (nat ino)) Null_deref (\<lambda>a.
           bnd (rf_get a s) (\<lambda>inode.
           bnd (as_dirents inode) (\<lambda>ds.
           let ds = ds[0 := \<lparr>rd_ino = nat ino, rd_name = ''.''\<rparr>,
                       1 := \<lparr>rd_ino = vn_vno dv, rd_name = ''..''\<rparr>] in
           Inr (0, rf_upd a (\<lambda>n. n\<lparr>rf_mem := Dirents ds, rf_size := 2 * int RD_SIZE\<rparr>) s))))))))"

definition dir_is_empty :: "ramfs_dirent list \<Rightarrow> bool" where
  "dir_is_empty ds \<longleftrightarrow>
     list_all (\<lambda>d. strcmp (rd_name d) ''.'' = 0 \<or> strcmp (rd_name d) ''..'' = 0 \<or> rd_name d = []) ds"

definition ramfs_rmdir :: "devs \<Rightarrow> nat \<Rightarrow> string \<Rightarrow> nat \<Rightarrow> rstate \<Rightarrow> kfault + (int \<times> rstate)" where
  "ramfs_rmdir D dir name name_len s =
     check (\<not> name_match ''.'' name name_len \<and> \<not> name_match ''..'' name name_len) Kassert_failed (
     bnd (ramfs_lookup D dir name name_len s) (\<lambda>(ret, vn, s).
     if ret \<noteq> 0 then Inr (ret, s)
     else
       deref vn Null_deref (\<lambda>vn.
       bnd (vn_get vn s) (\<lambda>v.
       if \<not> S_ISDIR (vn_mode v) then bnd (vput (ramfs_vn D) vn s) (\<lambda>s. Inr (- ENOTDIR, s))
       else
         bnd (vnode_inode vn s) (\<lambda>(_, inode).
         bnd (as_dirents inode) (\<lambda>ds.
         if \<not> dir_is_empty ds then bnd (vput (ramfs_vn D) vn s) (\<lambda>s. Inr (- ENOTEMPTY, s))
         else
           bnd (clear_entry dir name name_len s) (\<lambda>s.
           bnd (drop_link vn s) (\<lambda>s.
           bnd (vput (ramfs_vn D) vn s) (\<lambda>s. Inr (0, s))))))))))"

fun next_entry :: "ramfs_dirent list \<Rightarrow> nat option" where
  "next_entry [] = None"
| "next_entry (d # ds) = (if rd_name d = [] then map_option Suc (next_entry ds) else Some 0)"

definition ramfs_readdir :: "nat \<Rightarrow> int \<Rightarrow> rstate \<Rightarrow> kfault + (int \<times> dirent option \<times> rstate)" where
  "ramfs_readdir dir offset s =
     bnd (vn_get dir s) (\<lambda>v.
     check (S_ISDIR (vn_mode v)) Kassert_failed (
     check (offset mod int RD_SIZE = 0) Kassert_failed (
     check (0 \<le> offset) Wild_access (
     bnd (vnode_inode dir s) (\<lambda>(_, inode).
     bnd (as_dirents inode) (\<lambda>ds.
     let i = nat offset div RD_SIZE in
     case next_entry (drop i ds) of
       None \<Rightarrow> Inr (0, None, s)
     | Some k \<Rightarrow>
         let e = ds ! (i + k) in
         Inr (int (RD_SIZE + k * RD_SIZE),
              Some \<lparr>d_ino = rd_ino e, d_name = take (NAME_LEN - 1) (rd_name e)\<rparr>, s)))))))"

subsection \<open>Files\<close>

definition ramfs_read :: "nat \<Rightarrow> int \<Rightarrow> nat \<Rightarrow> rstate \<Rightarrow> kfault + (int \<times> string \<times> rstate)" where
  "ramfs_read file offset count s =
     bnd (vn_get file s) (\<lambda>v.
     bnd (rf_get (vn_i v) s) (\<lambda>inode.
     check (\<not> S_ISDIR (vn_mode v)) Kassert_failed (
     bnd (sint32 (rf_size inode - offset)) (\<lambda>left.
     let ret = max 0 (min (to_off count) left) in
     if ret = 0 then Inr (0, [], s)
     else
       bnd (as_page inode) (\<lambda>page.
       check (0 \<le> offset \<and> offset + ret \<le> int PAGE_SIZE) Wild_access
         (Inr (ret, take (nat ret) (drop (nat offset) page), s)))))))"

definition write_page :: "string \<Rightarrow> nat \<Rightarrow> string \<Rightarrow> string" where
  "write_page page off bytes = take off page @ bytes @ drop (off + length bytes) page"

definition ramfs_write :: "nat \<Rightarrow> int \<Rightarrow> string \<Rightarrow> nat \<Rightarrow> rstate \<Rightarrow> kfault + (int \<times> rstate)" where
  "ramfs_write file offset buf count s =
     bnd (vn_get file s) (\<lambda>v.
     bnd (rf_get (vn_i v) s) (\<lambda>inode.
     check (\<not> S_ISDIR (vn_mode v)) Kassert_failed (
     bnd (sint32 (int PAGE_SIZE - offset)) (\<lambda>room.
     let ret = min (to_off count) room in
     check (0 \<le> ret \<and> 0 \<le> offset \<and> nat ret \<le> length buf) Wild_access (
     bnd (as_page inode) (\<lambda>page.
     let s = rf_upd (vn_i v) (\<lambda>i. i\<lparr>rf_mem := Page (write_page page (nat offset) (take (nat ret) buf))\<rparr>) s
     in check (vn_len v = rf_size inode) Kassert_failed (
     let len = max (vn_len v) (offset + ret);
         s = vn_upd file (vn_len_update (\<lambda>_. len)) s
     in Inr (ret, rf_upd (vn_i v) (rf_size_update (\<lambda>_. len)) s))))))))"

definition ramfs_stat :: "nat \<Rightarrow> rstate \<Rightarrow> kfault + (int \<times> kstat \<times> rstate)" where
  "ramfs_stat file s =
     bnd (vn_get file s) (\<lambda>v.
     bnd (rf_get (vn_i v) s) (\<lambda>i.
     Inr (0, \<lparr>st_mode = vn_mode v, st_ino = int (vn_vno v),
        st_rdev = (if vn_mode v = S_IFCHR \<or> vn_mode v = S_IFBLK
                   then (case rf_mem i of Devid d \<Rightarrow> int d | _ \<Rightarrow> 0) else 0),
        st_nlink = rf_linkcount i - 1, st_size = rf_size i, st_blksize = int PAGE_SIZE,
        st_blocks = 1\<rparr>, s)))"

subsection \<open>Linking with the virtual file system\<close>

definition ramfs_dir_vops :: "devs \<Rightarrow> rstate vnode_ops" where
  "ramfs_dir_vops D = no_vops\<lparr>op_create := Some (ramfs_create D), op_mknod := Some (ramfs_mknod D),
     op_lookup := Some (ramfs_lookup D), op_link := Some (ramfs_link D),
     op_unlink := Some (ramfs_unlink D), op_mkdir := Some (ramfs_mkdir D),
     op_rmdir := Some (ramfs_rmdir D), op_readdir := Some ramfs_readdir, op_stat := Some ramfs_stat\<rparr>"

definition ramfs_file_vops :: "rstate vnode_ops" where
  "ramfs_file_vops = no_vops\<lparr>op_read := Some ramfs_read, op_write := Some ramfs_write,
     op_stat := Some ramfs_stat\<rparr>"

definition ramfs_vops :: "devs \<Rightarrow> vops \<Rightarrow> rstate vnode_ops" where
  "ramfs_vops D p = (case p of
       Dir_vops \<Rightarrow> ramfs_dir_vops D
     | File_vops \<Rightarrow> ramfs_file_vops
     | Bytedev_vops \<Rightarrow> bytedev_spec_vops
         (\<lambda>c off n s. bnd (dv_read D c off n) (\<lambda>(r, b). Inr (r, b, s)))
         (\<lambda>c off b n s. bnd (dv_write D c off b n) (\<lambda>r. Inr (r, s))) (ramfs_dir_vops D)
     | Blockdev_vops \<Rightarrow> blockdev_spec_vops (ramfs_dir_vops D))"

definition ramfs_env :: "devs \<Rightarrow> rstate kenv" where
  "ramfs_env D = (ramfs_vn D)\<lparr>vops_of := ramfs_vops D\<rparr>"

definition no_ramfs :: ramfs where
  "no_ramfs = \<lparr>rfs_inodes = (\<lambda>_. None), rf_heap = (\<lambda>_. None), next_inode = 0, fs_root = None\<rparr>"

definition ramfs_mount :: "devs \<Rightarrow> rstate \<Rightarrow> kfault + (int \<times> rstate)" where
  "ramfs_mount D s =
     bnd (ramfs_alloc_inode RAMFS_TYPE_DIR 0 (s\<lparr>fs_data := no_ramfs\<rparr>)) (\<lambda>(root_ino, s).
     if root_ino < 0 then Inr (root_ino, s)
     else
       check (root_ino = 0) Kassert_failed (
       deref (rfs_inodes (fs_data s) 0) Null_deref (\<lambda>a.
       bnd (rf_get a s) (\<lambda>root.
       bnd (as_dirents root) (\<lambda>ds.
       let ds = ds[0 := \<lparr>rd_ino = 0, rd_name = ''.''\<rparr>, 1 := \<lparr>rd_ino = 0, rd_name = ''..''\<rparr>];
           s = rf_upd a (\<lambda>n. n\<lparr>rf_mem := Dirents ds, rf_size := 2 * int RD_SIZE\<rparr>) s
       in bnd (vget (ramfs_vn D) 0 s) (\<lambda>(vn, s).
          Inr (0, s\<lparr>fs_data := (fs_data s)\<lparr>fs_root := Some vn\<rparr>\<rparr>)))))))"

text \<open>The loop of \<open>ramfs_umount\<close> over the inode table.\<close>

fun free_inodes :: "nat \<Rightarrow> ramfs \<Rightarrow> ramfs" where
  "free_inodes 0 r = r"
| "free_inodes (Suc n) r =
     (let r = free_inodes n r in
      case rfs_inodes r n of None \<Rightarrow> r | Some a \<Rightarrow> r\<lparr>rf_heap := (rf_heap r)(a := None)\<rparr>)"

definition ramfs_umount :: "devs \<Rightarrow> rstate \<Rightarrow> kfault + (int \<times> rstate)" where
  "ramfs_umount D s =
     deref (fs_root (fs_data s)) Null_deref (\<lambda>root.
     bnd (vput (ramfs_vn D) root s) (\<lambda>s.
     Inr (0, s\<lparr>fs_data := free_inodes RAMFS_MAX_FILES (fs_data s)\<rparr>)))"

text \<open>\<open>vfs_init\<close> with the ramfs, and the first process: its working directory is the root.\<close>

definition boot_kernel :: rstate where
  "boot_kernel = \<lparr>vnodes = (\<lambda>_. None), vnode_inuse_list = [], next_vnode = 0, kfiles = (\<lambda>_. None),
     next_file = 0, p_files = (\<lambda>_. None), p_cwd = 0, vfs_root_vn = 0, fs_data = no_ramfs\<rparr>"

definition vfs_init :: "devs \<Rightarrow> rstate \<Rightarrow> kfault + rstate" where
  "vfs_init D s =
     bnd (ramfs_mount D s) (\<lambda>(err, s).
     check (0 \<le> err) Kernel_panic (
     deref (fs_root (fs_data s)) Null_deref (\<lambda>root. Inr (s\<lparr>vfs_root_vn := root\<rparr>))))"

definition vfs_shutdown :: "devs \<Rightarrow> rstate \<Rightarrow> kfault + (int \<times> rstate)" where
  "vfs_shutdown D s =
     bnd (vfs_is_in_use (vfs_root_vn s) s) (\<lambda>r.
     check (0 \<le> r) Kernel_panic (
     bnd (ramfs_umount D s) (\<lambda>(ret, s).
     check (vnode_inuse s = 0) Kassert_failed (Inr (ret, s)))))"

end
