(* ===== verification/Krefs.thy ===== *)
theory Krefs
  imports Ksyscall
begin

text \<open>
  Reference counting of vnodes across the virtual file system.  \<open>moves d s s'\<close> says that a piece
  of kernel code changed the number of active references of every vnode \<open>a\<close> by exactly \<open>d a\<close> and
  touched neither the open files nor the process.  The locales state what the kernel expects of a
  file system in these terms; inside them every path function and system call is shown to give
  back every reference it takes.
\<close>

subsection \<open>Active references\<close>

definition vrefs :: "'f kstate \<Rightarrow> nat \<Rightarrow> int" where
  "vrefs s a = (case vnodes s a of None \<Rightarrow> 0 | Some v \<Rightarrow> vn_refcount v - vn_nrespages v)"

definition counts :: "'f kstate \<Rightarrow> nat \<Rightarrow> (int \<times> int) option" where
  "counts s a = map_option (\<lambda>v. (vn_refcount v, vn_nrespages v)) (vnodes s a)"

definition vn_fresh :: "'f kstate \<Rightarrow> bool" where
  "vn_fresh s \<longleftrightarrow> (\<forall>a \<ge> next_vnode s. vnodes s a = None)"

definition vfs_same :: "'f kstate \<Rightarrow> 'f kstate \<Rightarrow> bool" where
  "vfs_same s s' \<longleftrightarrow> kfiles s' = kfiles s \<and> next_file s' = next_file s \<and> p_files s' = p_files s
     \<and> p_cwd s' = p_cwd s \<and> vfs_root_vn s' = vfs_root_vn s"

definition moves :: "(nat \<Rightarrow> int) \<Rightarrow> 'f kstate \<Rightarrow> 'f kstate \<Rightarrow> bool" where
  "moves d s s' \<longleftrightarrow> (vn_fresh s \<longrightarrow> vn_fresh s' \<and> vfs_same s s' \<and> (\<forall>a. vrefs s' a = vrefs s a + d a))"

definition one :: "nat \<Rightarrow> nat \<Rightarrow> int" where
  "one a x = (if x = a then 1 else 0)"

definition none :: "nat \<Rightarrow> int" where
  "none x = 0"

text \<open>The result of a function that may store a referenced vnode behind a pointer.\<close>

definition found :: "int \<Rightarrow> nat option \<Rightarrow> 'f kstate \<Rightarrow> 'f kstate \<Rightarrow> bool" where
  "found r res s s' \<longleftrightarrow>
     r = 0 \<and> (\<exists>a. res = Some a \<and> moves (one a) s s') \<or> r < 0 \<and> res = None \<and> moves none s s'"

lemma moves_refl [simp]: "moves none s s"
  by (simp add: moves_def none_def vfs_same_def)

lemma moves_zero: "(\<And>x. e x = 0) \<Longrightarrow> moves e s s"
  by (simp add: moves_def vfs_same_def)

lemma vfs_same_trans: "vfs_same s s' \<Longrightarrow> vfs_same s' s'' \<Longrightarrow> vfs_same s s''"
  by (simp add: vfs_same_def)

lemma moves_trans:
  assumes "moves d s s'" and "moves d' s' s''" and "\<And>a. e a = d a + d' a"
  shows "moves e s s''"
  using assms unfolding moves_def by (auto intro: vfs_same_trans)

lemma moves_trans_none: "moves d s s' \<Longrightarrow> moves none s' s'' \<Longrightarrow> moves d s s''"
  by (rule moves_trans [where d = d and d' = none]) (simp_all add: none_def)

lemma moves_none_trans: "moves none s s' \<Longrightarrow> moves d s' s'' \<Longrightarrow> moves d s s''"
  by (rule moves_trans [where d = none and d' = d]) (simp_all add: none_def)

text \<open>The counts of every vnode stay as they are.\<close>

definition same_counts :: "'f kstate \<Rightarrow> 'f kstate \<Rightarrow> bool" where
  "same_counts s s' \<longleftrightarrow> counts s' = counts s \<and> next_vnode s' = next_vnode s \<and> vfs_same s s'"

lemma same_counts_trans: "same_counts s s' \<Longrightarrow> same_counts s' s'' \<Longrightarrow> same_counts s s''"
  unfolding same_counts_def using vfs_same_trans by metis

lemma same_counts_refl [simp]: "same_counts s s"
  by (simp add: same_counts_def vfs_same_def)

text \<open>A reference taken and given back.\<close>

lemma moves_back:
  assumes "moves (one a) s s'" and "moves (\<lambda>x. - one a x) s' s''"
  shows "moves none s s''"
  by (rule moves_trans [OF assms]) (simp add: none_def)

lemma vrefs_counts: "vrefs s a = (case counts s a of None \<Rightarrow> 0 | Some (r, n) \<Rightarrow> r - n)"
  by (simp add: vrefs_def counts_def split: option.splits)

lemma vn_fresh_counts: "vn_fresh s \<longleftrightarrow> (\<forall>a \<ge> next_vnode s. counts s a = None)"
  by (simp add: vn_fresh_def counts_def)

lemma vn_upd_simps [simp]:
  "vnodes (vn_upd a f s) = (vnodes s)(a := map_option f (vnodes s a))"
  "next_vnode (vn_upd a f s) = next_vnode s" "vnode_inuse_list (vn_upd a f s) = vnode_inuse_list s"
  "kfiles (vn_upd a f s) = kfiles s" "next_file (vn_upd a f s) = next_file s"
  "p_files (vn_upd a f s) = p_files s" "p_cwd (vn_upd a f s) = p_cwd s"
  "vfs_root_vn (vn_upd a f s) = vfs_root_vn s" "fs_data (vn_upd a f s) = fs_data s"
  by (simp_all add: vn_upd_def)

lemma file_upd_simps [simp]:
  "kfiles (file_upd a f s) = (kfiles s)(a := map_option f (kfiles s a))"
  "vnodes (file_upd a f s) = vnodes s"
  "next_vnode (file_upd a f s) = next_vnode s" "vnode_inuse_list (file_upd a f s) = vnode_inuse_list s"
  "next_file (file_upd a f s) = next_file s"
  "p_files (file_upd a f s) = p_files s" "p_cwd (file_upd a f s) = p_cwd s"
  "vfs_root_vn (file_upd a f s) = vfs_root_vn s" "fs_data (file_upd a f s) = fs_data s"
  by (simp_all add: file_upd_def)

lemma vn_get_eq [simp]: "vn_get a s = Inr v \<longleftrightarrow> vnodes s a = Some v"
  by (auto simp: vn_get_def deref_def split: option.splits)

lemma file_get_eq [simp]: "file_get a s = Inr f \<longleftrightarrow> kfiles s a = Some f"
  by (auto simp: file_get_def deref_def split: option.splits)

lemma same_counts_upd:
  assumes "\<And>v. vn_refcount (f v) = vn_refcount v" "\<And>v. vn_nrespages (f v) = vn_nrespages v"
  shows "same_counts s (vn_upd a f s)"
  using assms by (auto simp: same_counts_def counts_def vfs_same_def fun_eq_iff option.map_comp o_def)

lemma init_special_same:
  assumes "init_special_vnode E a s = Inr s'"
  shows "same_counts s s'"
  using assms by (auto simp: init_special_vnode_def run_eq intro!: same_counts_upd split: if_splits)

lemma vref_moves:
  assumes "vref a s = Inr s'"
  shows "moves (one a) s s'"
  using assms by (auto simp: vref_def run_eq moves_def vn_fresh_def vfs_same_def vrefs_def one_def
      split: option.splits)

subsection \<open>The vnode layer of a file system\<close>

locale vnode_env =
  fixes E :: "'f kstate kenv"
  assumes read_law: "read_vnode E vn s = Inr s' \<Longrightarrow>
      same_counts s s'"
    and delete_law: "delete_vnode E = Some del \<Longrightarrow> del vn s = Inr s' \<Longrightarrow> same_counts s s'"
    and uncache_law: "uncache E vn s = Inr s' \<Longrightarrow> moves none s s'"
begin

lemma vget_moves:
  assumes "vget E vno s = Inr (a, s')"
  shows "moves (one a) s s'"
proof -
  from assms obtain found where f: "find_inuse vno (vnode_inuse_list s) s = Inr found"
    and r: "(case found of Some vn \<Rightarrow> bnd (vref vn s) (\<lambda>s. Inr (vn, s)) | None \<Rightarrow>
         let vn = next_vnode s;
             s = s\<lparr>vnodes := (vnodes s)(vn \<mapsto> zero_vnode\<lparr>vn_vno := vno, vn_busy := True\<rparr>),
                   next_vnode := vn + 1, vnode_inuse_list := vn # vnode_inuse_list s\<rparr>
         in bnd (read_vnode E vn s) (\<lambda>s.
            let s = vn_upd vn (vn_busy_update (\<lambda>_. False)) s in
            bnd (vn_get vn s) (\<lambda>v.
            bnd (if S_ISCHR (vn_mode v) \<or> S_ISBLK (vn_mode v) then init_special_vnode E vn s
                 else Inr s) (\<lambda>s.
            Inr (vn, vn_upd vn (vn_refcount_update (\<lambda>_. 1)) s))))) = Inr (a, s')"
    by (auto simp: vget_def bnd_eq_Inr)
  show ?thesis
  proof (cases found)
    case (Some vn)
    with r show ?thesis by (auto simp: bnd_eq_Inr intro: vref_moves)
  next
    case None
    define vn where "vn = next_vnode s"
    define s1 where "s1 = s\<lparr>vnodes := (vnodes s)(vn \<mapsto> zero_vnode\<lparr>vn_vno := vno, vn_busy := True\<rparr>),
                   next_vnode := vn + 1, vnode_inuse_list := vn # vnode_inuse_list s\<rparr>"
    let ?clear = "vn_upd vn (vn_busy_update (\<lambda>_. False))"
    from r have "bnd (read_vnode E vn s1) (\<lambda>s. bnd (vn_get vn (?clear s)) (\<lambda>v.
            bnd (if S_ISCHR (vn_mode v) \<or> S_ISBLK (vn_mode v) then init_special_vnode E vn (?clear s)
                 else Inr (?clear s)) (\<lambda>s.
            Inr (vn, vn_upd vn (vn_refcount_update (\<lambda>_. 1)) s)))) = Inr (a, s')"
      by (simp only: None option.case Let_def vn_def s1_def)
    then obtain s2 where s2: "read_vnode E vn s1 = Inr s2" and
      r2: "bnd (vn_get vn (?clear s2)) (\<lambda>v.
            bnd (if S_ISCHR (vn_mode v) \<or> S_ISBLK (vn_mode v) then init_special_vnode E vn (?clear s2)
                 else Inr (?clear s2)) (\<lambda>s.
            Inr (vn, vn_upd vn (vn_refcount_update (\<lambda>_. 1)) s))) = Inr (a, s')"
      by (rule bnd_InrE)
    obtain v :: vnode where
      r3: "bnd (if S_ISCHR (vn_mode v) \<or> S_ISBLK (vn_mode v) then init_special_vnode E vn (?clear s2)
                 else Inr (?clear s2)) (\<lambda>s.
            Inr (vn, vn_upd vn (vn_refcount_update (\<lambda>_. 1)) s)) = Inr (a, s')"
      using r2 by (rule bnd_InrE) (erule that)
    then obtain s4 where
      s4: "(if S_ISCHR (vn_mode v) \<or> S_ISBLK (vn_mode v) then init_special_vnode E vn (?clear s2)
                 else Inr (?clear s2)) = Inr s4"
      and res: "a = vn" "s' = vn_upd vn (vn_refcount_update (\<lambda>_. 1)) s4"
      by (auto elim: bnd_InrE)
    have "same_counts s2 (?clear s2)" by (rule same_counts_upd) simp_all
    moreover have "same_counts (?clear s2) s4"
      using s4 init_special_same by (cases "S_ISCHR (vn_mode v) \<or> S_ISBLK (vn_mode v)") auto
    ultimately have law: "same_counts s1 s4"
      using read_law [OF s2] same_counts_trans by blast
    have c1: "counts s1 = (counts s)(vn \<mapsto> (0, 0))"
      by (auto simp: counts_def s1_def zero_vnode_def)
    have c': "counts s' = (counts s)(vn \<mapsto> (1, 0))"
    proof
      fix x
      have "counts s4 x = ((counts s)(vn \<mapsto> (0, 0))) x" using law c1 by (simp add: same_counts_def)
      then show "counts s' x = ((counts s)(vn \<mapsto> (1, 0))) x"
        unfolding res by (cases "x = vn") (auto simp: counts_def)
    qed
    have "vfs_same s s4" using law by (simp add: vfs_same_def s1_def same_counts_def)
    then have same: "vfs_same s s'" unfolding res by (simp add: vfs_same_def)
    have nx: "next_vnode s' = Suc vn" unfolding res using law by (simp add: s1_def same_counts_def)
    show ?thesis
      unfolding moves_def
    proof (intro impI conjI allI same)
      assume fr: "vn_fresh s"
      then have z: "counts s vn = None" by (simp add: vn_fresh_counts vn_def)
      show "vn_fresh s'" using fr unfolding vn_fresh_counts c' nx by (auto simp: vn_def)
      show "vrefs s' x = vrefs s x + one a x" for x
        unfolding vrefs_counts c' using z res(1) by (simp add: one_def)
    qed
  qed
qed

lemma vput_moves:
  assumes "vput E a s = Inr s'"
  shows "moves (\<lambda>x. - one a x) s s'"
proof -
  let ?dec = "\<lambda>s. vn_upd a (vn_refcount_update (\<lambda>r. r - 1)) s"
  let ?rest = "\<lambda>s. bnd (vn_get a (?dec s)) (\<lambda>v.
     if 0 < vn_refcount v then Inr (?dec s)
     else
       check (vn_refcount v = 0) Kassert_failed (
       check (vn_nrespages v = 0) Kassert_failed (
       bnd (case delete_vnode E of None \<Rightarrow> Inr (vn_upd a (vn_busy_update (\<lambda>_. True)) (?dec s))
            | Some del \<Rightarrow> del a (vn_upd a (vn_busy_update (\<lambda>_. True)) (?dec s))) (\<lambda>s.
       Inr (s\<lparr>vnode_inuse_list := remove1 a (vnode_inuse_list s),
              vnodes := (vnodes s)(a := None)\<rparr>)))))"
  let ?drop = "\<lambda>linked. if linked then Inr s
          else bnd (uncache E a s) (\<lambda>s.
               bnd (vn_get a s) (\<lambda>v.
               check (vn_nrespages v = 0) Kassert_failed (
               check (vn_refcount v = 1) Kassert_failed (Inr s))))"
  obtain v :: vnode where "bnd (if vn_nrespages v = vn_refcount v - 1 then query_vnode E a s
      else Inr True) (\<lambda>linked. bnd (?drop linked) ?rest) = Inr s'"
  proof -
    from assms [unfolded vput_def Let_def] show thesis
      by (rule bnd_InrE) (drule check_InrD, drule check_InrD, drule check_InrD, erule that)
  qed
  then obtain linked where "bnd (?drop linked) ?rest = Inr s'" by (rule bnd_InrE)
  then obtain s1 where d: "?drop linked = Inr s1" and r: "?rest s1 = Inr s'" by (rule bnd_InrE)
  have s1: "moves none s s1"
    using d uncache_law by (cases linked) (auto simp: bnd_eq_Inr check_eq_Inr)
  from r obtain w where w': "vn_get a (?dec s1) = Inr w" and
    fin: "(if 0 < vn_refcount w then Inr (?dec s1)
     else
       check (vn_refcount w = 0) Kassert_failed (
       check (vn_nrespages w = 0) Kassert_failed (
       bnd (case delete_vnode E of None \<Rightarrow> Inr (vn_upd a (vn_busy_update (\<lambda>_. True)) (?dec s1))
            | Some del \<Rightarrow> del a (vn_upd a (vn_busy_update (\<lambda>_. True)) (?dec s1))) (\<lambda>s.
       Inr (s\<lparr>vnode_inuse_list := remove1 a (vnode_inuse_list s),
              vnodes := (vnodes s)(a := None)\<rparr>))))) = Inr s'"
    by (rule bnd_InrE)
  have w: "vnodes (?dec s1) a = Some w" using w' by (simp only: vn_get_eq)
  obtain v1 where v1: "vnodes s1 a = Some v1" using w by auto
  have dec: "moves (\<lambda>x. - one a x) s1 (?dec s1)"
    using v1 by (auto simp: moves_def vn_fresh_def vfs_same_def vrefs_def one_def split: option.splits)
  show ?thesis
  proof (cases "0 < vn_refcount w")
    case True
    with fin have "s' = ?dec s1" by simp
    then show ?thesis using moves_none_trans [OF s1 dec] by simp
  next
    case False
    let ?s2 = "vn_upd a (vn_busy_update (\<lambda>_. True)) (?dec s1)"
    from fin False obtain s3 where
      z: "vn_refcount w = 0" "vn_nrespages w = 0"
      and s3: "(case delete_vnode E of None \<Rightarrow> Inr ?s2 | Some del \<Rightarrow> del a ?s2) = Inr s3"
      and s': "s' = s3\<lparr>vnode_inuse_list := remove1 a (vnode_inuse_list s3),
              vnodes := (vnodes s3)(a := None)\<rparr>"
      by (auto simp: bnd_eq_Inr check_eq_Inr simp del: vn_upd_simps)
    have "same_counts (?dec s1) ?s2" by (rule same_counts_upd) simp_all
    moreover have "same_counts ?s2 s3" using s3 delete_law by (cases "delete_vnode E") auto
    ultimately have c3: "same_counts (?dec s1) s3" by (rule same_counts_trans)
    have ca: "counts (?dec s1) a = Some (0, 0)" unfolding counts_def w using z by simp
    have c': "counts s' = (counts (?dec s1))(a := None)"
    proof
      fix x
      have "counts s3 x = counts (?dec s1) x" using c3 by (simp add: same_counts_def)
      then show "counts s' x = ((counts (?dec s1))(a := None)) x"
        unfolding s' by (cases "x = a") (auto simp: counts_def)
    qed
    have same: "vfs_same (?dec s1) s'" unfolding s' using c3 by (simp add: same_counts_def vfs_same_def)
    have nx: "next_vnode s' = next_vnode (?dec s1)" unfolding s' using c3 by (simp add: same_counts_def)
    have "moves none (?dec s1) s'"
      unfolding moves_def
    proof (intro impI conjI allI same)
      assume fr: "vn_fresh (?dec s1)"
      show "vn_fresh s'" using fr unfolding vn_fresh_counts c' nx by simp
      show "vrefs s' x = vrefs (?dec s1) x + none x" for x
        unfolding vrefs_counts c' using ca by (simp add: none_def)
    qed
    with moves_none_trans [OF s1 dec] show ?thesis by (rule moves_trans_none)
  qed
qed

lemma put_opt_None: "put_opt E None s = Inr s"
  by (simp add: put_opt_def)

end

subsection \<open>What the path functions ask of a file system\<close>

locale vfs_env = vnode_env E for E :: "'f kstate kenv" +
  assumes lookup_law: "op_lookup (vops_of E p) = Some f \<Longrightarrow> f d n l s = Inr (r, res, s') \<Longrightarrow>
      found r res s s'"
    and create_law: "op_create (vops_of E p) = Some f \<Longrightarrow> f d n l s = Inr (r, res, s') \<Longrightarrow>
      found r res s s'"
    and mknod_law: "op_mknod (vops_of E p) = Some g \<Longrightarrow> g d n l m v s = Inr (r, s') \<Longrightarrow> moves none s s'"
    and link_law: "op_link (vops_of E p) = Some h \<Longrightarrow> h c d n l s = Inr (r, s') \<Longrightarrow> moves none s s'"
    and unlink_law: "op_unlink (vops_of E p) = Some k \<Longrightarrow> k d n l s = Inr (r, s') \<Longrightarrow> moves none s s'"
    and mkdir_law: "op_mkdir (vops_of E p) = Some k \<Longrightarrow> k d n l s = Inr (r, s') \<Longrightarrow> moves none s s'"
    and rmdir_law: "op_rmdir (vops_of E p) = Some k \<Longrightarrow> k d n l s = Inr (r, s') \<Longrightarrow> moves none s s'"
    and stat_law: "op_stat (vops_of E p) = Some st \<Longrightarrow> st c s = Inr (r, buf, s') \<Longrightarrow> moves none s s'"
    and read_op_law: "op_read (vops_of E p) = Some rd \<Longrightarrow> rd c off cnt s = Inr (r, b, s') \<Longrightarrow>
      moves none s s'"
    and write_op_law: "op_write (vops_of E p) = Some wr \<Longrightarrow> wr c off b cnt s = Inr (r, s') \<Longrightarrow>
      moves none s s'"
    and readdir_law: "op_readdir (vops_of E p) = Some dr \<Longrightarrow> dr c off s = Inr (r, de, s') \<Longrightarrow>
      moves none s s'"
    and release_law: "op_release (vops_of E p) = Some rl \<Longrightarrow> rl c fl s = Inr s' \<Longrightarrow> moves none s s'"
begin

lemma lookup_found:
  assumes "lookup E d n l s = Inr (r, res, s')"
  shows "found r res s s'"
proof -
  from assms obtain p where "(case op_lookup (vops_of E p) of
       None \<Rightarrow> Inr (- ENOTDIR, None, s)
     | Some f \<Rightarrow>
         bnd (f d n l s) (\<lambda>(ret, result, s).
         if ret < 0 then Inr (ret, result, s) else Inr (0, result, s))) = Inr (r, res, s')"
    by (auto simp: lookup_def bnd_eq_Inr [of "vn_get d s"] deref_eq_Inr)
  then show ?thesis
    using lookup_law by (cases "op_lookup (vops_of E p)")
      (fastforce simp: bnd_eq_Inr found_def ENOTDIR_def split: if_splits prod.splits)+
qed

text \<open>The walk gives up its reference to \<open>parent\<close> and holds one to the vnode it stores.\<close>

definition walked :: "nat \<Rightarrow> int \<Rightarrow> nat option \<Rightarrow> 'f kstate \<Rightarrow> 'f kstate \<Rightarrow> bool" where
  "walked parent r res s s' \<longleftrightarrow>
     r = 0 \<and> (\<exists>a. res = Some a \<and> moves (\<lambda>x. one a x - one parent x) s s')
     \<or> r < 0 \<and> res = None \<and> moves (\<lambda>x. - one parent x) s s'"

lemma walked_err:
  assumes "bnd (vput E parent s) (\<lambda>s. Inr (r0, 0::nat, [] :: string, None, s)) = Inr (r, nl, nm, res, s')"
    and "r0 < 0"
  shows "walked parent r res s s'"
  using assms vput_moves by (auto simp: bnd_eq_Inr walked_def)

lemma walked_self: "walked parent 0 (Some parent) s s"
  by (simp add: walked_def moves_def vfs_same_def)

lemma dir_namev_loop_walked:
  assumes "dir_namev_loop E path i parent s = Inr (r, nl, nm, res, s')"
  shows "walked parent r res s s'"
  using assms
proof (induction "length path - i" arbitrary: i parent s rule: less_induct)
  case less
  note run = less.prems [unfolded dir_namev_loop.simps [of E path i parent s]]
  show ?case
  proof (cases "i < length path")
    case False
    with run walked_self show ?thesis by auto
  next
    case i: True
    show ?thesis
    proof (cases "path ! i = CHR ''/''")
      case True
      with run i have "dir_namev_loop E path (Suc i) parent s = Inr (r, nl, nm, res, s')" by simp
      then show ?thesis by (rule less.hyps [rotated]) (use i in simp)
    next
      case comp: False
      define e where "e = scan_end path (Suc i)"
      define nm0 where "nm0 = take (e - i) (drop i path)"
      have "Suc i \<le> e" unfolding e_def by (rule scan_end_ge)
      then have dec: "length path - e < length path - i" using i by simp
      show ?thesis
      proof (cases "e - i > NAME_LEN")
        case True
        with run i comp show ?thesis
          by (intro walked_err [of parent s "- ENAMETOOLONG"])
            (simp_all add: Let_def e_def [symmetric] ENAMETOOLONG_def)
      next
        case short: False
        show ?thesis
        proof (cases "e = length path \<or> scan_slash path e = length path")
          case True
          with run i comp short obtain v :: vnode where
            "(if \<not> S_ISDIR (vn_mode v) then
                bnd (vput E parent s) (\<lambda>s. Inr (- ENOTDIR, 0, [], None, s))
              else Inr (0, e - i, nm0, Some parent, s)) = Inr (r, nl, nm, res, s')"
            by (auto simp: Let_def e_def [symmetric] nm0_def [symmetric] elim!: bnd_InrE simp del: split_paired_Ex)
          then show ?thesis
            using walked_err [of parent s "- ENOTDIR"] walked_self
            by (auto simp: ENOTDIR_def split: if_splits)
        next
          case more: False
          with run i comp short have
            "bnd (lookup E parent nm0 (e - i) s) (\<lambda>(ret, next, s).
              if ret < 0 then bnd (vput E parent s) (\<lambda>s. Inr (ret, 0, [], None, s))
              else
                bnd (vput E parent s) (\<lambda>s.
                deref next Null_deref (\<lambda>n. dir_namev_loop E path e n s))) = Inr (r, nl, nm, res, s')"
            by (simp add: Let_def e_def [symmetric] nm0_def [symmetric])
          then obtain ret nxt s1 where l: "lookup E parent nm0 (e - i) s = Inr (ret, nxt, s1)"
            and rest: "(if ret < 0 then bnd (vput E parent s1) (\<lambda>s. Inr (ret, 0, [], None, s))
              else
                bnd (vput E parent s1) (\<lambda>s.
                deref nxt Null_deref (\<lambda>n. dir_namev_loop E path e n s))) = Inr (r, nl, nm, res, s')"
            by (auto simp: bnd_eq_Inr)
          from lookup_found [OF l] show ?thesis
            unfolding found_def
          proof (elim disjE conjE exE)
            fix n assume n: "ret = 0" "nxt = Some n" "moves (one n) s s1"
            with rest obtain s2 where s2: "vput E parent s1 = Inr s2"
              and d: "dir_namev_loop E path e n s2 = Inr (r, nl, nm, res, s')"
              by (auto elim!: bnd_InrE)
            have m: "moves (\<lambda>x. one n x - one parent x) s s2"
              by (rule moves_trans [OF n(3) vput_moves [OF s2]]) simp
            from less.hyps [OF dec d] show ?thesis
              unfolding walked_def
              by (elim disjE conjE exE) (auto intro: moves_trans [OF m])
          next
            assume n: "ret < 0" "nxt = None" "moves none s s1"
            with rest have "bnd (vput E parent s1) (\<lambda>s. Inr (ret, 0, [], None, s))
                = Inr (r, nl, nm, res, s')" by simp
            from walked_err [OF this n(1)] show ?thesis
              unfolding walked_def
              by (elim disjE conjE exE) (auto intro: moves_none_trans [OF n(3)])
          qed
        qed
      qed
    qed
  qed
qed

lemma dir_namev_found:
  assumes "dir_namev E path base s = Inr (r, nl, nm, res, s')"
  shows "found r res s s'"
proof (cases "length path \<ge> MAXPATHLEN")
  case True
  with assms show ?thesis by (auto simp: dir_namev_def found_def ENAMETOOLONG_def)
next
  case False
  with assms obtain parent s1 where s1: "vref parent s = Inr s1"
    and l: "dir_namev_loop E path 0 parent s1 = Inr (r, nl, nm, res, s')"
    by (auto simp: dir_namev_def Let_def bnd_eq_Inr)
  from dir_namev_loop_walked [OF l] show ?thesis
    unfolding walked_def found_def
    by (elim disjE conjE exE)
      (auto intro: moves_trans [OF vref_moves [OF s1]] simp: none_def)
qed

text \<open>The caller of a successful \<open>dir_namev\<close> holds a reference that \<open>vput\<close> gives back.\<close>

lemma put_back:
  assumes "moves (one a) s s1" and "moves none s1 s2" and "vput E a s2 = Inr s'"
  shows "moves none s s'"
  by (rule moves_back [OF moves_trans_none [OF assms(1,2)] vput_moves [OF assms(3)]])

lemma open_namev_found:
  assumes "open_namev E path flag base s = Inr (r, res, s')"
  shows "found r res s s'"
proof -
  obtain ret nl nm dir s1 where d: "dir_namev E path base s = Inr (ret, nl, nm, dir, s1)"
    and rest: "(if ret < 0 then
       bnd (case dir of None \<Rightarrow> Inr s1 | Some d \<Rightarrow> vput E d s1) (\<lambda>s. Inr (ret, None, s))
     else
       deref dir Kassert_failed (\<lambda>dir.
       bnd (lookup E dir nm nl s1) (\<lambda>(ret2, target, s).
       if ret2 = 0 then bnd (vput E dir s) (\<lambda>s. Inr (0, target, s))
       else if ret2 < 0 then
         if ret2 = - ENOENT \<and> flag AND O_CREAT \<noteq> 0 then
           bnd (vn_get dir s) (\<lambda>v.
           deref (vn_ops v) Kassert_failed (\<lambda>p.
           deref (op_create (vops_of E p)) Kassert_failed (\<lambda>create.
           bnd (create dir nm nl s) (\<lambda>(ret3, target, s).
           bnd (if ret3 < 0 then case target of None \<Rightarrow> Inr s | Some t \<Rightarrow> vput E t s else Inr s) (\<lambda>s.
           bnd (vput E dir s) (\<lambda>s. Inr (ret3, target, s)))))))
         else bnd (vput E dir s) (\<lambda>s. Inr (ret2, None, s))
       else Inl Kassert_failed))) = Inr (r, res, s')"
    using assms by (auto simp: open_namev_def bnd_eq_Inr [of "dir_namev E path base s"])
  from dir_namev_found [OF d] show ?thesis
    unfolding found_def [of ret]
  proof (elim disjE conjE exE)
    assume "ret < 0" "dir = None" "moves none s s1"
    with rest show ?thesis by (auto simp: found_def)
  next
    fix a assume a: "ret = 0" "dir = Some a" "moves (one a) s s1"
    from rest a obtain ret2 target s2 where l: "lookup E a nm nl s1 = Inr (ret2, target, s2)"
      and rest2: "(if ret2 = 0 then bnd (vput E a s2) (\<lambda>s. Inr (0, target, s))
       else if ret2 < 0 then
         if ret2 = - ENOENT \<and> flag AND O_CREAT \<noteq> 0 then
           bnd (vn_get a s2) (\<lambda>v.
           deref (vn_ops v) Kassert_failed (\<lambda>p.
           deref (op_create (vops_of E p)) Kassert_failed (\<lambda>create.
           bnd (create a nm nl s2) (\<lambda>(ret3, target, s).
           bnd (if ret3 < 0 then case target of None \<Rightarrow> Inr s | Some t \<Rightarrow> vput E t s else Inr s) (\<lambda>s.
           bnd (vput E a s) (\<lambda>s. Inr (ret3, target, s)))))))
         else bnd (vput E a s2) (\<lambda>s. Inr (ret2, None, s))
       else Inl Kassert_failed) = Inr (r, res, s')"
      by (auto simp: bnd_eq_Inr [of "lookup E a nm nl s1"])
    from lookup_found [OF l] show ?thesis
      unfolding found_def [of ret2]
    proof (elim disjE conjE exE)
      fix t assume t: "ret2 = 0" "target = Some t" "moves (one t) s1 s2"
      with rest2 obtain s3 where s3: "vput E a s2 = Inr s3" "r = 0" "res = Some t" "s' = s3"
        by (auto elim!: bnd_InrE)
      have "moves (one t) s s3"
        by (rule moves_trans [OF moves_trans [OF a(3) t(3) refl] vput_moves [OF s3(1)]]) simp
      with s3 show ?thesis by (auto simp: found_def)
    next
      assume t: "ret2 < 0" "target = None" "moves none s1 s2"
      show ?thesis
      proof (cases "ret2 = - ENOENT \<and> flag AND O_CREAT \<noteq> 0")
        case False
        with t rest2 obtain s3 where s3: "vput E a s2 = Inr s3" "r = ret2" "res = None" "s' = s3"
          by (auto elim!: bnd_InrE)
        from put_back [OF a(3) t(3) s3(1)] s3 t(1) show ?thesis by (auto simp: found_def)
      next
        case True
        with t rest2 obtain v p create ret3 tg s3 s4 s5 where
          c: "op_create (vops_of E p) = Some create" "create a nm nl s2 = Inr (ret3, tg, s3)"
            "(if ret3 < 0 then case tg of None \<Rightarrow> Inr s3 | Some t \<Rightarrow> vput E t s3 else Inr s3) = Inr s4"
            "vput E a s4 = Inr s5" "r = ret3" "res = tg" "s' = s5"
          by (auto simp: run_eq simp del: split_paired_Ex)
        from create_law [OF c(1,2)] show ?thesis
          unfolding found_def [of ret3]
        proof (elim disjE conjE exE)
          fix n assume n: "ret3 = 0" "tg = Some n" "moves (one n) s2 s3"
          then have eq: "s4 = s3" using c(3) by simp
          have m: "moves (one n) s1 s3" by (rule moves_none_trans [OF t(3) n(3)])
          have "moves (one n) s s5"
            by (rule moves_trans [OF moves_trans [OF a(3) m refl] vput_moves [OF c(4) [unfolded eq]]])
              simp
          with c n show ?thesis by (auto simp: found_def)
        next
          assume n: "ret3 < 0" "tg = None" "moves none s2 s3"
          then have "s4 = s3" using c(3) by simp
          with put_back [OF a(3) moves_trans_none [OF t(3) n(3)]] c n show ?thesis
            by (auto simp: found_def)
        qed
      qed
    qed
  qed
qed

end

end
