(* ===== verification/Kcalls.thy ===== *)
theory Kcalls
  imports Krefs
begin

text \<open>
  Every system call that works on names gives back all the references it takes.  The rules at the
  start walk through the body of a call: the hypothesis \<open>moves e s t\<close> records that the call, begun
  in \<open>s\<close>, holds \<open>e\<close> references in the state \<open>t\<close> it has reached.
\<close>

lemma ends_vn_get:
  "(\<And>v :: vnode. vnodes s a = Some v \<Longrightarrow> ends (K v) Q) \<Longrightarrow> ends (bnd (vn_get a s) K) Q"
  by (rule ends_bnd) simp

lemma ends_moved: "moves e s t \<Longrightarrow> (\<And>x. e x = d x) \<Longrightarrow> ends (Inr (r, t)) (\<lambda>(r, s'). moves d s s')"
proof -
  assume "moves e s t" and "\<And>x. e x = d x"
  then have "moves d s t" by (simp add: moves_def)
  then show ?thesis by (simp add: ends_Inr)
qed

lemma ends_moved2:
  "moves e s t \<Longrightarrow> (\<And>x. e x = d x) \<Longrightarrow> ends (Inr (r, b, t)) (\<lambda>(r, b, s'). moves d s s')"
proof -
  assume "moves e s t" and "\<And>x. e x = d x"
  then have "moves d s t" by (simp add: moves_def)
  then show ?thesis by (simp add: ends_Inr)
qed

lemma same_counts_fs: "same_counts s (s\<lparr>fs_data := x\<rparr>)"
  by (simp add: same_counts_def counts_def vfs_same_def fun_eq_iff)

lemma moves_same: "same_counts s s' \<Longrightarrow> moves none s s'"
  by (simp add: moves_def same_counts_def vn_fresh_counts vrefs_counts none_def)

lemmas moves_fs = moves_same [OF same_counts_fs]

lemma ends_same:
  assumes "moves e s t" and "\<And>s1. m = Inr s1 \<Longrightarrow> same_counts t s1"
    and "\<And>s1. moves e s s1 \<Longrightarrow> ends (K s1) Q"
  shows "ends (bnd m K) Q"
  by (rule ends_bnd, rule assms(3), rule moves_trans_none [OF assms(1)], rule moves_same, rule assms(2))

lemma found_end:
  assumes "moves e s t" and "\<And>x. e x = one a x"
  shows "ends (Inr (0, Some a, t)) (\<lambda>(r, res, s'). found r res s s')"
proof -
  have "moves (one a) s t" using assms by (simp add: moves_def)
  then show ?thesis by (simp add: ends_def found_def)
qed

lemma not_found_end:
  assumes "moves e s t" and "\<And>x. e x = none x" and "r < 0"
  shows "ends (Inr (r, None, t)) (\<lambda>(r, res, s'). found r res s s')"
proof -
  have "moves none s t" using assms by (simp add: moves_def)
  with assms(3) show ?thesis by (simp add: ends_def found_def)
qed

lemma special_read_state:
  "special_file_read (\<lambda>c off n s. bnd (g c off n) (\<lambda>(r, b). Inr (r, b, s))) c off n s = Inr (r, b, s') \<Longrightarrow>
   s' = s"
  by (auto simp: special_file_read_def run_eq split: if_splits)

lemma special_write_state:
  "special_file_write (\<lambda>c off b n s. bnd (g c off b n) (\<lambda>r. Inr (r, s))) c off b n s = Inr (r, s') \<Longrightarrow>
   s' = s"
  by (auto simp: special_file_write_def run_eq split: if_splits)

context vnode_env
begin

lemma vput_ends:
  assumes "moves e s t" and "\<And>s1. moves (\<lambda>x. e x - one a x) s s1 \<Longrightarrow> ends (K s1) Q"
  shows "ends (bnd (vput E a t) K) Q"
  by (rule ends_bnd) (rule assms(2), rule moves_trans [OF assms(1) vput_moves], simp_all)

lemma vget_ends:
  assumes "moves e s t" and "\<And>a s1. moves (\<lambda>x. e x + one a x) s s1 \<Longrightarrow> ends (K a s1) Q"
  shows "ends (bnd (vget E n t) (\<lambda>(a, s). K a s)) Q"
proof (rule ends_bnd)
  fix y assume y: "vget E n t = Inr y"
  obtain a s1 where eq: "y = (a, s1)" by (cases y)
  show "ends (case y of (a, s) \<Rightarrow> K a s) Q"
    unfolding eq prod.case
    by (rule assms(2), rule moves_trans [OF assms(1) vget_moves [OF y [unfolded eq]]]) simp
qed

lemma put_opt_Some_ends:
  assumes "moves e s t" and "\<And>s1. moves (\<lambda>x. e x - one a x) s s1 \<Longrightarrow> ends (K s1) Q"
  shows "ends (bnd (put_opt E (Some a) t) K) Q"
  using vput_ends [OF assms] by (simp add: put_opt_def)

lemma put_opt_None_ends: "ends (K s) Q \<Longrightarrow> ends (bnd (put_opt E None s) K) Q"
  by (simp add: put_opt_def)

end

context vfs_env
begin

lemma found_ends:
  assumes "moves e s t" and "m = Inr (ret, res, t1)" and "found ret res t t1"
    and "\<And>a s1. moves (\<lambda>x. e x + one a x) s s1 \<Longrightarrow> ends (K 0 (Some a) s1) Q"
    and "\<And>r s1. r < 0 \<Longrightarrow> moves e s s1 \<Longrightarrow> ends (K r None s1) Q"
  shows "ends (K ret res t1) Q"
  using assms(3) unfolding found_def
proof (elim disjE conjE exE)
  fix a assume a: "ret = 0" "res = Some a" "moves (one a) t t1"
  have "ends (K 0 (Some a) t1) Q" by (rule assms(4), rule moves_trans [OF assms(1) a(3)]) simp
  with a show ?thesis by simp
next
  assume a: "ret < 0" "res = None" "moves none t t1"
  have "ends (K ret None t1) Q" by (rule assms(5) [OF a(1) moves_trans_none [OF assms(1) a(3)]])
  with a show ?thesis by simp
qed

lemma lookup_ends:
  assumes "moves e s t"
    and "\<And>a s1. moves (\<lambda>x. e x + one a x) s s1 \<Longrightarrow> ends (K 0 (Some a) s1) Q"
    and "\<And>r s1. r < 0 \<Longrightarrow> moves e s s1 \<Longrightarrow> ends (K r None s1) Q"
  shows "ends (bnd (lookup E d n l t) (\<lambda>(ret, t, s). K ret t s)) Q"
proof (rule ends_bnd)
  fix y assume y: "lookup E d n l t = Inr y"
  obtain ret res s1 where eq: "y = (ret, res, s1)" by (cases y)
  show "ends (case y of (ret, t, s) \<Rightarrow> K ret t s) Q"
    unfolding eq prod.case
    by (rule found_ends [where K = K, OF assms(1) refl lookup_found [OF y [unfolded eq]] assms(2,3)])
qed

lemma open_namev_ends:
  assumes "moves e s t"
    and "\<And>a s1. moves (\<lambda>x. e x + one a x) s s1 \<Longrightarrow> ends (K 0 (Some a) s1) Q"
    and "\<And>r s1. r < 0 \<Longrightarrow> moves e s s1 \<Longrightarrow> ends (K r None s1) Q"
  shows "ends (bnd (open_namev E path flag base t) (\<lambda>(ret, t, s). K ret t s)) Q"
proof (rule ends_bnd)
  fix y assume y: "open_namev E path flag base t = Inr y"
  obtain ret res s1 where eq: "y = (ret, res, s1)" by (cases y)
  show "ends (case y of (ret, t, s) \<Rightarrow> K ret t s) Q"
    unfolding eq prod.case
    by (rule found_ends [where K = K, OF assms(1) refl open_namev_found [OF y [unfolded eq]] assms(2,3)])
qed

lemma dir_namev_ends:
  assumes "moves e s t"
    and "\<And>nl nm a s1. moves (\<lambda>x. e x + one a x) s s1 \<Longrightarrow> ends (K 0 nl nm (Some a) s1) Q"
    and "\<And>r nl nm s1. r < 0 \<Longrightarrow> moves e s s1 \<Longrightarrow> ends (K r nl nm None s1) Q"
  shows "ends (bnd (dir_namev E path base t) (\<lambda>(ret, nl, nm, t, s). K ret nl nm t s)) Q"
proof (rule ends_bnd)
  fix y assume y: "dir_namev E path base t = Inr y"
  obtain ret nl nm res s1 where eq: "y = (ret, nl, nm, res, s1)" by (cases y)
  show "ends (case y of (ret, nl, nm, t, s) \<Rightarrow> K ret nl nm t s) Q"
    unfolding eq prod.case
    by (rule found_ends [where K = "\<lambda>ret res s. K ret nl nm res s",
          OF assms(1) refl dir_namev_found [OF y [unfolded eq]] assms(2,3)])
qed

lemma op_ends:
  assumes "moves e s t" and "\<And>r s1. m = Inr (r, s1) \<Longrightarrow> moves none t s1"
    and "\<And>r s1. moves e s s1 \<Longrightarrow> ends (K r s1) Q"
  shows "ends (bnd m (\<lambda>(r, s). K r s)) Q"
proof (rule ends_bnd)
  fix y assume y: "m = Inr y"
  obtain r s1 where eq: "y = (r, s1)" by (cases y)
  show "ends (case y of (r, s) \<Rightarrow> K r s) Q"
    unfolding eq prod.case by (rule assms(3), rule moves_trans_none [OF assms(1)], rule assms(2), simp add: y eq)
qed

lemma stat_ends:
  assumes "moves e s t" and "\<And>r b s1. moves e s s1 \<Longrightarrow> ends (K r b s1) Q"
  shows "ends (deref (op_stat (vops_of E p)) ft (\<lambda>st. bnd (st c t) (\<lambda>(r, b, s). K r b s))) Q"
proof (rule ends_deref, rule ends_bnd)
  fix st y assume st: "op_stat (vops_of E p) = Some st" and y: "st c t = Inr y"
  obtain r b s1 where eq: "y = (r, b, s1)" by (cases y)
  show "ends (case y of (r, b, s) \<Rightarrow> K r b s) Q"
    unfolding eq prod.case
    by (rule assms(2), rule moves_trans_none [OF assms(1)], rule stat_law [OF st y [unfolded eq]])
qed

lemma mkdir_ends:
  assumes "moves e s t" and "\<And>r s1. moves e s s1 \<Longrightarrow> ends (K r s1) Q"
  shows "ends (deref (op_mkdir (vops_of E p)) ft (\<lambda>f. bnd (f d n l t) (\<lambda>(r, s). K r s))) Q"
  by (rule ends_deref) (auto intro: op_ends [OF assms(1) _ assms(2)] mkdir_law)

lemma rmdir_ends:
  assumes "moves e s t" and "\<And>r s1. moves e s s1 \<Longrightarrow> ends (K r s1) Q"
  shows "ends (deref (op_rmdir (vops_of E p)) ft (\<lambda>f. bnd (f d n l t) (\<lambda>(r, s). K r s))) Q"
  by (rule ends_deref) (auto intro: op_ends [OF assms(1) _ assms(2)] rmdir_law)

lemma unlink_ends:
  assumes "moves e s t" and "\<And>r s1. moves e s s1 \<Longrightarrow> ends (K r s1) Q"
  shows "ends (deref (op_unlink (vops_of E p)) ft (\<lambda>f. bnd (f d n l t) (\<lambda>(r, s). K r s))) Q"
  by (rule ends_deref) (auto intro: op_ends [OF assms(1) _ assms(2)] unlink_law)

lemma mknod_ends:
  assumes "moves e s t" and "\<And>r s1. moves e s s1 \<Longrightarrow> ends (K r s1) Q"
  shows "ends (deref (op_mknod (vops_of E p)) ft (\<lambda>f. bnd (f d n l m v t) (\<lambda>(r, s). K r s))) Q"
  by (rule ends_deref) (auto intro: op_ends [OF assms(1) _ assms(2)] mknod_law)

lemma link_ends:
  assumes "moves e s t" and "\<And>r s1. moves e s s1 \<Longrightarrow> ends (K r s1) Q"
  shows "ends (deref (op_link (vops_of E p)) ft (\<lambda>f. bnd (f c d n l t) (\<lambda>(r, s). K r s))) Q"
  by (rule ends_deref) (auto intro: op_ends [OF assms(1) _ assms(2)] link_law)

lemmas takes = vput_ends put_opt_Some_ends lookup_ends open_namev_ends dir_namev_ends stat_ends mkdir_ends rmdir_ends
  unlink_ends mknod_ends link_ends

lemmas passes = put_opt_None_ends ends_vn_get ends_if ends_check ends_deref

lemma do_mkdir_moves: "ends (do_mkdir E path s) (\<lambda>(r, s'). moves none s s')"
  unfolding do_mkdir_def
  by (insert moves_refl [of s])
    (erule takes | rule passes | (erule ends_moved, force simp: none_def errno_defs))+

lemma do_mknod_moves: "ends (do_mknod E path mode devid s) (\<lambda>(r, s'). moves none s s')"
  unfolding do_mknod_def
  by (insert moves_refl [of s])
    (erule takes | rule passes | (erule ends_moved, force simp: none_def errno_defs))+

lemma do_rmdir_moves: "ends (do_rmdir E path s) (\<lambda>(r, s'). moves none s s')"
  unfolding do_rmdir_def
  by (insert moves_refl [of s])
    (erule takes | rule passes | (erule ends_moved, force simp: none_def errno_defs))+

lemma do_unlink_moves: "ends (do_unlink E path s) (\<lambda>(r, s'). moves none s s')"
  unfolding do_unlink_def
  by (insert moves_refl [of s])
    (erule takes | rule passes | (erule ends_moved, force simp: none_def errno_defs))+

lemma do_link_moves: "ends (do_link E from to s) (\<lambda>(r, s'). moves none s s')"
  unfolding do_link_def
  by (insert moves_refl [of s])
    (erule takes | rule passes | (erule ends_moved, force simp: none_def errno_defs))+

lemma do_stat_moves: "ends (do_stat E path s) (\<lambda>(r, b, s'). moves none s s')"
  unfolding do_stat_def
  by (insert moves_refl [of s])
    (erule takes | rule passes | (erule ends_moved2, force simp: none_def errno_defs))+

lemma do_rename_moves: "ends (do_rename E old new s) (\<lambda>(r, s'). moves none s s')"
proof -
  have "moves none s s''" if "do_link E old new s = Inr (r, s')" "do_unlink E old s' = Inr (r', s'')"
    for r s' r' s''
    using ends_InrD [OF do_link_moves that(1)] ends_InrD [OF do_unlink_moves that(2)]
    by (auto intro: moves_trans_none)
  moreover have "moves none s s'" if "do_link E old new s = Inr (r, s')" for r s'
    using ends_InrD [OF do_link_moves that] by simp
  ultimately show ?thesis
    unfolding do_rename_def ends_def by (auto simp: bnd_eq_Inr split: if_splits)
qed

lemma ends_neg: "moves e s t \<Longrightarrow> r < 0 \<Longrightarrow> ends (Inr (r, t)) (\<lambda>(r, s'). r < (0::int))"
  by (simp add: ends_Inr)

lemma do_link_negative: "ends (do_link E from to s) (\<lambda>(r, s'). r < 0)"
  unfolding do_link_def
  by (insert moves_refl [of s])
    (erule takes | rule passes | (erule ends_neg, force simp: errno_defs))+

end

end
