(* ===== verification/Kfiles.thy ===== *)
theory Kfiles
  imports Kcalls
begin

text \<open>
  The counts of open files and vnodes are exact.  \<open>kinv X Y W Z s\<close>: the reference count of every
  open file is the number of descriptors that point to it plus the \<open>Y\<close> references a call holds,
  and the active references to every vnode are the open files on it, the working directory, for
  the root the mount and the working directory of the idle process, and the \<open>X\<close> references a call holds.  The files of \<open>W\<close> have no vnode yet, every
  other file has a reference, and the
  descriptors of \<open>Z\<close> are being closed.  Between calls \<open>X\<close>, \<open>Y\<close>, \<open>W\<close> and \<open>Z\<close> are empty.
\<close>

definition files_on :: "'f kstate \<Rightarrow> nat \<Rightarrow> nat set" where
  "files_on s a = {f. \<exists>fl. kfiles s f = Some fl \<and> f_vnode fl = Some a}"

definition fds_of :: "nat set \<Rightarrow> 'f kstate \<Rightarrow> nat \<Rightarrow> nat set" where
  "fds_of Z s f = {d. d \<notin> Z \<and> p_files s d = Some f}"

definition is_at :: "nat \<Rightarrow> nat \<Rightarrow> int" where
  "is_at p a = (if p = a then 1 else 0)"

definition files_ok :: "nat set \<Rightarrow> 'f kstate \<Rightarrow> bool" where
  "files_ok W s \<longleftrightarrow> (\<forall>f fl. kfiles s f = Some fl \<longrightarrow>
     (f \<in> W \<longleftrightarrow> f_vnode fl = None) \<and> (f \<in> W \<or> 0 < f_refcount fl))"

definition kinv :: "(nat \<Rightarrow> int) \<Rightarrow> (nat \<Rightarrow> int) \<Rightarrow> nat set \<Rightarrow> nat set \<Rightarrow> 'f kstate \<Rightarrow> bool" where
  "kinv X Y W Z s \<longleftrightarrow> vn_fresh s
     \<and> (\<forall>f \<ge> next_file s. kfiles s f = None)
     \<and> (\<forall>d f. p_files s d = Some f \<longrightarrow> d < NFILES \<and> (d \<notin> Z \<longrightarrow> kfiles s f \<noteq> None))
     \<and> (\<forall>a. vrefs s a = int (card (files_on s a)) + is_at (p_cwd s) a + 2 * is_at (vfs_root_vn s) a + X a)
     \<and> (\<forall>f fl. kfiles s f = Some fl \<longrightarrow> f_refcount fl = int (card (fds_of Z s f)) + Y f)
     \<and> files_ok W s"

definition zero :: "nat \<Rightarrow> int" where
  "zero x = 0"

text \<open>Between calls.\<close>

definition kernel_ok :: "'f kstate \<Rightarrow> bool" where
  "kernel_ok s \<longleftrightarrow> kinv zero zero {} {} s"

lemma finite_files_on:
  assumes "kinv X Y W Z s"
  shows "finite (files_on s a)"
proof (rule finite_subset)
  show "files_on s a \<subseteq> {..< next_file s}"
    using assms by (auto simp: kinv_def files_on_def not_le [symmetric])
qed simp

lemma finite_fds_of:
  assumes "kinv X Y W Z s"
  shows "finite (fds_of Z s f)"
proof (rule finite_subset)
  show "fds_of Z s f \<subseteq> {..< NFILES}" using assms by (auto simp: kinv_def fds_of_def)
qed simp

lemma files_ok_cong: "kfiles s' = kfiles s \<Longrightarrow> files_ok W s' = files_ok W s"
  by (simp add: files_ok_def)

lemma kinv_files_ok:
  "kinv X Y W Z s \<Longrightarrow> kfiles s f = Some fl \<Longrightarrow> (f \<in> W \<longleftrightarrow> f_vnode fl = None) \<and> (f \<in> W \<or> 0 < f_refcount fl)"
  unfolding kinv_def files_ok_def by blast

lemma kinv_cong:
  assumes "kinv X Y W Z s" and "\<And>a. X' a = X a" and "\<And>a. Y' a = Y a"
  shows "kinv X' Y' W Z s"
  using assms by (simp add: kinv_def)

lemma kinv_moves:
  assumes "kinv X Y W Z s" and "moves d s s'"
  shows "kinv (\<lambda>a. X a + d a) Y W Z s'"
  using assms files_ok_cong [of s' s W]
  by (simp add: kinv_def moves_def vfs_same_def files_on_def fds_of_def)

text \<open>A file is changed in a way the counts do not see.\<close>

lemma kinv_file_upd:
  assumes "kinv X Y W Z s" and "\<And>f. f_refcount (u f) = f_refcount f" "\<And>f. f_vnode (u f) = f_vnode f"
  shows "kinv X Y W Z (file_upd b u s)"
proof -
  have f: "files_on (file_upd b u s) a = files_on s a" for a
    unfolding files_on_def using assms(3) by (auto split: if_splits)
  have g: "fds_of Z (file_upd b u s) a = fds_of Z s a" for a
    by (simp add: fds_of_def)
  have v: "vrefs (file_upd b u s) a = vrefs s a" for a by (simp add: vrefs_def)
  have k: "files_ok W (file_upd b u s)"
    using assms(2,3) by (auto simp: files_ok_def split: if_splits dest!: kinv_files_ok [OF assms(1)])
  show ?thesis
    using k assms unfolding kinv_def f g v by (auto simp: vn_fresh_def split: if_splits)
qed

lemma fref_kinv:
  assumes inv: "kinv X Y W Z s" and ref: "fref b s = Inr s'"
  shows "kinv X (\<lambda>x. Y x + one b x) W Z s'"
proof -
  have s': "s' = file_upd b (f_refcount_update (\<lambda>r. r + 1)) s"
    and pos: "kfiles s b = Some fl \<Longrightarrow> 0 \<le> f_refcount fl" for fl
    using ref by (auto simp: fref_def run_eq)
  have f: "files_on s' a = files_on s a" for a unfolding files_on_def s' by (auto split: if_splits)
  have g: "fds_of Z s' a = fds_of Z s a" for a by (simp add: fds_of_def s')
  have v: "vrefs s' a = vrefs s a" for a by (simp add: vrefs_def s')
  have k: "files_ok W s'"
    using pos unfolding s' by (auto simp: files_ok_def split: if_splits dest!: kinv_files_ok [OF inv])
  show ?thesis
    using k inv pos unfolding kinv_def f g v one_def
    by (auto simp: vn_fresh_def s' split: if_splits)
qed

text \<open>The last reference to a file aside, \<open>fput\<close> only takes one away.\<close>

lemma fput_ref_kinv:
  assumes inv: "kinv X Y W Z s" and b: "kfiles s b = Some fl" "1 < f_refcount fl"
  shows "kinv X (\<lambda>x. Y x - one b x) W Z (file_upd b (f_refcount_update (\<lambda>r. r - 1)) s)"
proof -
  let ?s = "file_upd b (f_refcount_update (\<lambda>r. r - 1)) s"
  have f: "files_on ?s a = files_on s a" for a unfolding files_on_def by (auto split: if_splits)
  have g: "fds_of Z ?s a = fds_of Z s a" for a by (simp add: fds_of_def)
  have v: "vrefs ?s a = vrefs s a" for a by (simp add: vrefs_def)
  have k: "files_ok W ?s"
    using b by (auto simp: files_ok_def split: if_splits dest!: kinv_files_ok [OF inv])
  show ?thesis
    using k inv b unfolding kinv_def f g v one_def
    by (auto simp: vn_fresh_def split: if_splits)
qed

text \<open>A descriptor that is being closed.\<close>

lemma fds_of_insert:
  assumes "p_files s d = Some b" and "d \<notin> Z"
  shows "fds_of Z s x = (if x = b then insert d (fds_of (insert d Z) s x) else fds_of (insert d Z) s x)"
  using assms by (auto simp: fds_of_def)

lemma kinv_closing:
  assumes inv: "kinv X Y W Z s" and d: "p_files s d = Some b" "d \<notin> Z"
  shows "kinv X (\<lambda>x. Y x + one b x) W (insert d Z) s"
proof -
  have c: "int (card (fds_of Z s x)) = int (card (fds_of (insert d Z) s x)) + one b x" for x
  proof -
    have "finite (fds_of (insert d Z) s x)"
      by (rule finite_subset [OF _ finite_fds_of [OF inv, of x]]) (auto simp: fds_of_def)
    moreover have "d \<notin> fds_of (insert d Z) s x" by (simp add: fds_of_def)
    ultimately show ?thesis unfolding fds_of_insert [OF d] by (cases "x = b") (auto simp: one_def)
  qed
  show ?thesis using inv unfolding kinv_def c by auto
qed

lemma set_fd_simps [simp]:
  "p_files (set_fd d f s) = (p_files s)(nat d := f)" "kfiles (set_fd d f s) = kfiles s"
  "vnodes (set_fd d f s) = vnodes s" "next_file (set_fd d f s) = next_file s"
  "next_vnode (set_fd d f s) = next_vnode s" "p_cwd (set_fd d f s) = p_cwd s"
  "vfs_root_vn (set_fd d f s) = vfs_root_vn s" "fs_data (set_fd d f s) = fs_data s"
  by (simp_all add: set_fd_def)

lemma kinv_closed:
  assumes "kinv X Y W (insert (nat d) Z) s" and "nat d \<notin> Z"
  shows "kinv X Y W Z (set_fd d None s)"
proof -
  have g: "fds_of Z (set_fd d None s) x = fds_of (insert (nat d) Z) s x" for x
    using assms(2) by (auto simp: fds_of_def)
  have f: "files_on (set_fd d None s) a = files_on s a" for a by (simp add: files_on_def)
  have v: "vrefs (set_fd d None s) a = vrefs s a" for a by (simp add: vrefs_def)
  have k: "files_ok W (set_fd d None s)"
    using assms(1) files_ok_cong [of "set_fd d None s" s W] by (simp add: kinv_def)
  show ?thesis
    using k assms(1) unfolding kinv_def f g v by (auto simp: vn_fresh_def)
qed

lemma kinv_set_fd:
  assumes inv: "kinv X Y W {} s" and free: "p_files s (nat d) = None" "nat d < NFILES"
    and "kfiles s b \<noteq> None"
  shows "kinv X (\<lambda>x. Y x - one b x) W {} (set_fd d (Some b) s)"
proof -
  let ?s = "set_fd d (Some b) s"
  have g: "int (card (fds_of {} ?s x)) = int (card (fds_of {} s x)) + one b x" for x
  proof -
    have "fds_of {} ?s x = (if x = b then insert (nat d) (fds_of {} s x) else fds_of {} s x)"
      using free by (auto simp: fds_of_def)
    moreover have "nat d \<notin> fds_of {} s x" using free by (simp add: fds_of_def)
    ultimately show ?thesis using finite_fds_of [OF inv, of x] by (cases "x = b") (auto simp: one_def)
  qed
  have f: "files_on ?s a = files_on s a" for a by (simp add: files_on_def)
  have v: "vrefs ?s a = vrefs s a" for a by (simp add: vrefs_def)
  have k: "files_ok W ?s"
    using inv files_ok_cong [of ?s s W] by (simp add: kinv_def)
  show ?thesis
    using k assms unfolding kinv_def f g v by (auto simp: vn_fresh_def)
qed

text \<open>A new file, and the vnode it is opened on.\<close>

lemma kinv_new_file:
  assumes inv: "kinv X Y W Z s" and s': "s' = s\<lparr>kfiles := (kfiles s)(next_file s \<mapsto> zero_file),
      next_file := next_file s + 1\<rparr>" and Y: "Y (next_file s) = 0"
  shows "kinv X Y (insert (next_file s) W) Z s'"
proof -
  let ?b = "next_file s"
  have n: "kfiles s ?b = None" using inv by (simp add: kinv_def)
  have f: "files_on s' a = files_on s a" for a
    using n by (auto simp: files_on_def s' zero_file_def)
  have g: "fds_of Z s' x = fds_of Z s x" for x by (simp add: fds_of_def s')
  have e: "fds_of Z s ?b = {}" using inv n by (fastforce simp: kinv_def fds_of_def)
  have v: "vrefs s' a = vrefs s a" for a by (simp add: vrefs_def s')
  have k: "files_ok (insert (next_file s) W) s'"
    using n unfolding s' zero_file_def by (auto simp: files_ok_def split: if_splits dest!: kinv_files_ok [OF inv])
  show ?thesis
    using k inv Y e unfolding kinv_def f g v by (auto simp: vn_fresh_def s' zero_file_def)
qed

lemma kinv_set_vnode:
  assumes inv: "kinv X Y W Z s" and b: "b \<in> W" "kfiles s b = Some fl" "0 < f_refcount fl"
  shows "kinv (\<lambda>x. X x - one a x) Y (W - {b}) Z (file_upd b (f_vnode_update (\<lambda>_. Some a)) s)"
proof -
  let ?s = "file_upd b (f_vnode_update (\<lambda>_. Some a)) s"
  have no: "f_vnode fl = None" using kinv_files_ok [OF inv b(2)] b(1) by simp
  have f: "int (card (files_on ?s x)) = int (card (files_on s x)) + one a x" for x
  proof -
    have "files_on ?s x = (if x = a then insert b (files_on s x) else files_on s x)"
      using b no by (auto simp: files_on_def)
    moreover have "b \<notin> files_on s x" using b no by (simp add: files_on_def)
    ultimately show ?thesis using finite_files_on [OF inv, of x] by (cases "x = a") (auto simp: one_def)
  qed
  have g: "fds_of Z ?s x = fds_of Z s x" for x by (simp add: fds_of_def)
  have v: "vrefs ?s x = vrefs s x" for x by (simp add: vrefs_def)
  have k: "files_ok (W - {b}) ?s"
    using b by (auto simp: files_ok_def split: if_splits dest!: kinv_files_ok [OF inv])
  show ?thesis
    using k inv b unfolding kinv_def f g v by (auto simp: vn_fresh_def split: if_splits)
qed

lemma kinv_free:
  assumes inv: "kinv X Y W Z s" and b: "kfiles s b = Some fl" "f_refcount fl = 1" and pos: "0 < Y b"
  shows "kinv (\<lambda>x. X x + (if f_vnode fl = Some x then 1 else 0)) (\<lambda>x. Y x - one b x) (W - {b}) Z
           (s\<lparr>kfiles := (kfiles s)(b := None)\<rparr>)"
proof -
  let ?s = "s\<lparr>kfiles := (kfiles s)(b := None)\<rparr>"
  have "int (card (fds_of Z s b)) + Y b = 1" using inv b by (auto simp: kinv_def)
  with pos have "card (fds_of Z s b) = 0" by linarith
  with finite_fds_of [OF inv] have e: "fds_of Z s b = {}" by simp
  have f: "int (card (files_on s x)) = int (card (files_on ?s x)) + (if f_vnode fl = Some x then 1 else 0)"
    for x
  proof (cases "f_vnode fl = Some x")
    case True
    then have "files_on s x = insert b (files_on ?s x)" using b by (auto simp: files_on_def)
    moreover have "b \<notin> files_on ?s x" by (simp add: files_on_def)
    moreover have "finite (files_on ?s x)"
      by (rule finite_subset [OF _ finite_files_on [OF inv, of x]]) (auto simp: files_on_def split: if_splits)
    ultimately show ?thesis using True by simp
  next
    case False
    then have "files_on s x = files_on ?s x" using b by (auto simp: files_on_def)
    with False show ?thesis by simp
  qed
  have g: "fds_of Z ?s x = fds_of Z s x" for x by (simp add: fds_of_def)
  have v: "vrefs ?s x = vrefs s x" for x by (simp add: vrefs_def)
  have nz: "p_files s d = Some f \<Longrightarrow> d \<notin> Z \<Longrightarrow> f \<noteq> b" for d f using e by (auto simp: fds_of_def)
  have k: "files_ok (W - {b}) ?s"
    by (auto simp: files_ok_def split: if_splits dest!: kinv_files_ok [OF inv])
  show ?thesis
    using k inv nz unfolding kinv_def f g v one_def by (auto simp: vn_fresh_def)
qed

lemma moves_file_upd: "moves d s t \<Longrightarrow> moves d (file_upd b u s) (file_upd b u t)"
  by (simp add: moves_def vn_fresh_def vfs_same_def vrefs_def)

lemma file_upd_back:
  "file_upd b (f_refcount_update (\<lambda>r. r + 1)) (file_upd b (f_refcount_update (\<lambda>r. r - 1)) s) = s"
  by (cases "kfiles s b") (simp_all add: file_upd_def fun_upd_idem)

lemma ends_sint32: "(\<And>x. ends (K x) Q) \<Longrightarrow> ends (bnd (sint32 y) K) Q"
  by (rule ends_bnd) simp

lemma find_empty_fd_cases:
  "find_empty_fd n d s = - EMFILE \<and> (\<forall>k. d \<le> k \<longrightarrow> k < d + n \<longrightarrow> p_files s k \<noteq> None)
   \<or> (\<exists>k. d \<le> k \<and> k < d + n \<and> find_empty_fd n d s = int k \<and> p_files s k = None
        \<and> (\<forall>j. d \<le> j \<longrightarrow> j < k \<longrightarrow> p_files s j \<noteq> None))"
proof (induction n arbitrary: d)
  case (Suc n)
  show ?case
  proof (cases "p_files s d = None")
    case False
    from Suc.IH [of "Suc d"] show ?thesis
    proof (elim disjE exE conjE)
      assume a: "find_empty_fd n (Suc d) s = - EMFILE"
        "\<forall>k. Suc d \<le> k \<longrightarrow> k < Suc d + n \<longrightarrow> p_files s k \<noteq> None"
      have "p_files s k \<noteq> None" if "d \<le> k" "k < d + Suc n" for k
        using that a(2) False by (cases "k = d") auto
      with a(1) False show ?thesis by auto
    next
      fix k assume a: "Suc d \<le> k" "k < Suc d + n" "find_empty_fd n (Suc d) s = int k"
        "p_files s k = None" "\<forall>j. Suc d \<le> j \<longrightarrow> j < k \<longrightarrow> p_files s j \<noteq> None"
      have "p_files s j \<noteq> None" if "d \<le> j" "j < k" for j
        using that a(5) False by (cases "j = d") auto
      with a False show ?thesis by (intro disjI2 exI [of _ k]) auto
    qed
  qed simp
qed simp

lemma get_empty_fd_free:
  assumes "\<not> get_empty_fd s < 0"
  shows "p_files s (nat (get_empty_fd s)) = None" "nat (get_empty_fd s) < NFILES"
  using assms find_empty_fd_cases [of NFILES 0 s] unfolding get_empty_fd_def by (auto simp: EMFILE_def)

context vfs_env
begin

lemma fput_kinv:
  assumes inv: "kinv X Y W Z s" and put: "fput E b s = Inr s'" and pos: "0 < Y b"
  shows "kinv X (\<lambda>x. Y x - one b x) (W - {b}) Z s' \<and> p_files s' = p_files s"
proof -
  let ?s1 = "file_upd b (f_refcount_update (\<lambda>r. r - 1)) s"
  from put obtain fl where fl: "kfiles s b = Some fl"
    and v: "f_refcount fl \<noteq> 1 \<longrightarrow> f_vnode fl \<noteq> None"
    and rest: "(if f_refcount fl - 1 = 0 then
       bnd (case f_vnode fl of
              None \<Rightarrow> Inr ?s1
            | Some vn \<Rightarrow>
                bnd (vn_vops E vn ?s1) (\<lambda>ops.
                bnd (case op_release ops of None \<Rightarrow> Inr ?s1 | Some rel \<Rightarrow> rel vn b ?s1) (\<lambda>s.
                vput E vn s))) (\<lambda>s.
       Inr (s\<lparr>kfiles := (kfiles s)(b := None)\<rparr>))
     else Inr ?s1) = Inr s'"
    by (auto simp: fput_def bnd_eq_Inr [of "file_get b s"] check_eq_Inr Let_def)
  show ?thesis
  proof (cases "f_refcount fl = 1")
    case False
    with rest have s': "s' = ?s1" by simp
    moreover have "b \<notin> W" using False v kinv_files_ok [OF inv fl] by auto
    moreover from this False have "1 < f_refcount fl" using kinv_files_ok [OF inv fl] by auto
    ultimately show ?thesis using fput_ref_kinv [OF inv fl] by simp
  next
    case last: True
    with rest obtain s2 where s2: "(case f_vnode fl of
              None \<Rightarrow> Inr ?s1
            | Some vn \<Rightarrow>
                bnd (vn_vops E vn ?s1) (\<lambda>ops.
                bnd (case op_release ops of None \<Rightarrow> Inr ?s1 | Some rel \<Rightarrow> rel vn b ?s1) (\<lambda>s.
                vput E vn s))) = Inr s2" and s': "s' = s2\<lparr>kfiles := (kfiles s2)(b := None)\<rparr>"
      by (auto elim: bnd_InrE)
    let ?d = "\<lambda>x. - (if f_vnode fl = Some x then 1 else 0 :: int)"
    have "moves ?d ?s1 s2"
    proof (cases "f_vnode fl")
      case None
      with s2 show ?thesis by (simp add: moves_zero)
    next
      case (Some vn)
      with s2 obtain p s3 where
        s3: "(case op_release (vops_of E p) of None \<Rightarrow> Inr ?s1 | Some rel \<Rightarrow> rel vn b ?s1) = Inr s3"
        and p: "vput E vn s3 = Inr s2"
        by (auto simp: vn_vops_def run_eq simp del: file_upd_simps)
      have "moves none ?s1 s3"
        using s3 by (auto intro: release_law split: option.splits)
      then have "moves (\<lambda>x. - one vn x) ?s1 s2" by (rule moves_none_trans) (rule vput_moves [OF p])
      moreover have "?d = (\<lambda>x. - one vn x)" using Some by (auto simp: one_def)
      ultimately show ?thesis by simp
    qed
    then have "moves ?d (file_upd b (f_refcount_update (\<lambda>r. r + 1)) ?s1)
        (file_upd b (f_refcount_update (\<lambda>r. r + 1)) s2)" by (rule moves_file_upd)
    then have m: "moves ?d s (file_upd b (f_refcount_update (\<lambda>r. r + 1)) s2)"
      by (simp only: file_upd_back)
    let ?t = "file_upd b (f_refcount_update (\<lambda>r. r + 1)) s2"
    have i: "kinv (\<lambda>x. X x + ?d x) Y W Z ?t" by (rule kinv_moves [OF inv m])
    have same: "kfiles ?t = kfiles s" "p_files ?t = p_files s"
      using m inv unfolding moves_def vfs_same_def kinv_def by blast+
    have "s' = ?t\<lparr>kfiles := (kfiles ?t)(b := None)\<rparr>" unfolding s' by (simp add: file_upd_def)
    moreover have "kinv (\<lambda>x. X x + ?d x + (if f_vnode fl = Some x then 1 else 0)) (\<lambda>x. Y x - one b x)
        (W - {b}) Z (?t\<lparr>kfiles := (kfiles ?t)(b := None)\<rparr>)"
      by (rule kinv_free [OF i _ last pos]) (simp only: same fl)
    ultimately have "kinv X (\<lambda>x. Y x - one b x) (W - {b}) Z s'" by (auto elim: kinv_cong)
    with same(2) show ?thesis unfolding s' by simp
  qed
qed

lemma fput_ends:
  assumes "kinv X Y W Z t" and "0 < Y b"
    and "\<And>s1. p_files s1 = p_files t \<Longrightarrow> kinv X (\<lambda>x. Y x - one b x) (W - {b}) Z s1 \<Longrightarrow> ends (K s1) Q"
  shows "ends (bnd (fput E b t) K) Q"
  by (rule ends_bnd, rule assms(3)) (simp_all add: fput_kinv [OF assms(1) _ assms(2)])

lemma fput_pos_ends:
  assumes "kinv X Y W Z t" and "0 < Y b"
    and "\<And>s1. p_files s1 = p_files t \<Longrightarrow> kinv X (\<lambda>x. Y x - one b x) (W - {b}) Z s1 \<Longrightarrow> ends (K s1) Q"
  shows "ends (bnd (fput E b (file_upd b (f_pos_update u) t)) K) Q"
proof -
  have "kinv X Y W Z (file_upd b (f_pos_update u) t)" by (rule kinv_file_upd [OF assms(1)]) simp_all
  then show ?thesis by (rule fput_ends) (use assms(2,3) in simp_all)
qed

lemma fget_ends:
  assumes "kinv X Y W Z t" and "valid_fd fd"
    and "p_files t (nat fd) = None \<Longrightarrow> kinv X Y W Z t \<Longrightarrow> ends (K None t) Q"
    and "\<And>a s1. p_files t (nat fd) = Some a \<Longrightarrow> p_files s1 = p_files t \<Longrightarrow>
           kinv X (\<lambda>x. Y x + one a x) W Z s1 \<Longrightarrow> ends (K (Some a) s1) Q"
  shows "ends (bnd (fget fd t) (\<lambda>(f, s). K f s)) Q"
proof (cases "p_files t (nat fd)")
  case None
  then show ?thesis using assms(1-3) by (simp add: fget_def valid_fd_def)
next
  case (Some a)
  have "ends (K (Some a) s1) Q" if f: "fref a t = Inr s1" for s1
  proof (rule assms(4) [OF Some])
    show "p_files s1 = p_files t" using f by (auto simp: fref_def run_eq)
    show "kinv X (\<lambda>x. Y x + one a x) W Z s1" by (rule fref_kinv [OF assms(1) f])
  qed
  then have "ends (bnd (fref a t) (\<lambda>s. K (Some a) s)) Q" by (rule ends_bnd)
  then show ?thesis using assms(2) Some by (simp add: fget_def valid_fd_def bnd_assoc)
qed

lemma file_get_ends:
  "(\<And>f :: kfile. kfiles s a = Some f \<Longrightarrow> ends (K f) Q) \<Longrightarrow> ends (bnd (file_get a s) K) Q"
  by (rule ends_bnd) simp

lemma kinv_none: "kinv X Y W Z s \<Longrightarrow> moves none s s' \<Longrightarrow> kinv X Y W Z s'"
  by (drule (1) kinv_moves) (erule kinv_cong, simp_all add: none_def)

lemma kinv_frame: "kinv X Y W Z s \<Longrightarrow> moves d s s' \<Longrightarrow> p_files s' = p_files s \<and> kfiles s' = kfiles s \<and> p_cwd s' = p_cwd s"
  by (simp add: kinv_def moves_def vfs_same_def)

lemma read_ends:
  assumes "kinv X Y W Z t" and "\<And>r b s1. kinv X Y W Z s1 \<Longrightarrow> ends (K r b s1) Q"
  shows "ends (deref (op_read (vops_of E p)) ft (\<lambda>f. bnd (f c off n t) (\<lambda>(r, b, s). K r b s))) Q"
proof (rule ends_deref, rule ends_bnd)
  fix f y assume f: "op_read (vops_of E p) = Some f" and y: "f c off n t = Inr y"
  obtain r b s1 where eq: "y = (r, b, s1)" by (cases y)
  show "ends (case y of (r, b, s) \<Rightarrow> K r b s) Q"
    unfolding eq prod.case
    by (rule assms(2), rule kinv_none [OF assms(1)], rule read_op_law [OF f y [unfolded eq]])
qed

lemma readdir_ends:
  assumes "kinv X Y W Z t" and "\<And>r b s1. kinv X Y W Z s1 \<Longrightarrow> ends (K r b s1) Q"
  shows "ends (deref (op_readdir (vops_of E p)) ft (\<lambda>f. bnd (f c off t) (\<lambda>(r, b, s). K r b s))) Q"
proof (rule ends_deref, rule ends_bnd)
  fix f y assume f: "op_readdir (vops_of E p) = Some f" and y: "f c off t = Inr y"
  obtain r b s1 where eq: "y = (r, b, s1)" by (cases y)
  show "ends (case y of (r, b, s) \<Rightarrow> K r b s) Q"
    unfolding eq prod.case
    by (rule assms(2), rule kinv_none [OF assms(1)], rule readdir_law [OF f y [unfolded eq]])
qed

lemma write_ends:
  assumes "kinv X Y W Z t" and "\<And>r s1. kinv X Y W Z s1 \<Longrightarrow> ends (K r s1) Q"
  shows "ends (deref (op_write (vops_of E p)) ft (\<lambda>f. bnd (f c off b n t) (\<lambda>(r, s). K r s))) Q"
proof (rule ends_deref, rule ends_bnd)
  fix f y assume f: "op_write (vops_of E p) = Some f" and y: "f c off b n t = Inr y"
  obtain r s1 where eq: "y = (r, s1)" by (cases y)
  show "ends (case y of (r, s) \<Rightarrow> K r s) Q"
    unfolding eq prod.case
    by (rule assms(2), rule kinv_none [OF assms(1)], rule write_op_law [OF f y [unfolded eq]])
qed

text \<open>\<open>kept X Y s\<close>: between two calls, or inside one that holds \<open>Y\<close> references to files.\<close>

lemma kinv_end:
  assumes "kinv X Y W Z t" and "\<And>x. X x = X' x" "\<And>x. Y x = Y' x" "W = W'"
  shows "ends (Inr (r, t)) (\<lambda>(r, s). kinv X' Y' W' Z s)"
  using kinv_cong [OF assms(1), of X' Y'] assms(2-4) by (simp add: ends_Inr)

lemma kinv_end2:
  assumes "kinv X Y W Z t" and "\<And>x. X x = X' x" "\<And>x. Y x = Y' x" "W = W'"
  shows "ends (Inr (r, b, t)) (\<lambda>(r, b, s). kinv X' Y' W' Z s)"
  using kinv_cong [OF assms(1), of X' Y'] assms(2-4) by (simp add: ends_Inr)

lemmas fd_passes = ends_case_None ends_case_Some file_get_ends ends_vn_get ends_if ends_check ends_deref
  ends_option ends_sint32

lemma do_read_kinv:
  assumes "kinv zero zero {} {} s"
  shows "ends (do_read E fd n s) (\<lambda>(r, b, s'). kinv zero zero {} {} s')"
  unfolding do_read_def
  by (insert assms)
    (erule read_ends | (erule fget_ends, force) | rule fd_passes
      | (erule fput_ends fput_pos_ends, force simp: one_def zero_def)
      | (erule kinv_end2, force simp: one_def, force simp: one_def, force))+

lemma do_getdent_kinv:
  assumes "kinv zero zero {} {} s"
  shows "ends (do_getdent E fd s) (\<lambda>(r, b, s'). kinv zero zero {} {} s')"
  unfolding do_getdent_def
  by (insert assms)
    (erule readdir_ends | (erule fget_ends, force) | rule fd_passes
      | (erule fput_ends fput_pos_ends, force simp: one_def zero_def)
      | (erule kinv_end2, force simp: one_def, force simp: one_def, force))+

lemma do_lseek_kinv:
  assumes "kinv zero Y {} {} s" and "\<And>x. 0 \<le> Y x"
  shows "ends (do_lseek E fd off wh s) (\<lambda>(r, s'). kinv zero Y {} {} s')"
proof -
  have pos: "0 < Y x + one x x" for x using assms(2) [of x] by (simp add: one_def)
  show ?thesis
    unfolding do_lseek_def
    by (insert assms(1))
      ((erule fget_ends, force) | rule fd_passes
      | (erule fput_ends fput_pos_ends, rule pos)
      | (erule kinv_end, force simp: one_def, force simp: one_def, force)
      | (rule ends_bnd [of "seek_pos p l off wh" for p l]))+
qed

lemma do_lseek_ends:
  assumes "kinv zero Y {} {} s" and "\<And>x. 0 \<le> Y x" and "\<And>r s1. kinv zero Y {} {} s1 \<Longrightarrow> ends (K r s1) Q"
  shows "ends (bnd (if b then do_lseek E fd off wh s else Inr (r0, s)) (\<lambda>(r, s). K r s)) Q"
proof (cases b)
  case True
  have "ends (K r s1) Q" if "do_lseek E fd off wh s = Inr (r, s1)" for r s1
    using ends_InrD [OF do_lseek_kinv [OF assms(1,2)] that] assms(3) by simp
  with True show ?thesis by (auto intro: ends_bnd)
qed (use assms in simp)

lemma do_write_kinv:
  assumes "kinv zero zero {} {} s"
  shows "ends (do_write E fd buf n s) (\<lambda>(r, s'). kinv zero zero {} {} s')"
  unfolding do_write_def
  by (insert assms)
    (erule write_ends | (erule fget_ends, force) | (erule do_lseek_ends, simp add: one_def zero_def)
      | rule fd_passes
      | (erule fput_ends fput_pos_ends, force simp: one_def zero_def)
      | (erule kinv_end, force simp: one_def, force simp: one_def, force))+

lemma do_close_kinv:
  assumes inv: "kinv zero Y {} {} s" and nn: "\<And>x. 0 \<le> Y x" and run: "do_close E fd s = Inr (r, s')"
  shows "kinv zero Y {} {} s' \<and>
    p_files s' = (if valid_fd fd then (p_files s)(nat fd := None) else p_files s)"
proof (cases "valid_fd fd \<and> p_files s (nat fd) \<noteq> None")
  case False
  with run have "s' = s" by (auto simp: do_close_def fget_def valid_fd_def split: if_splits)
  with False inv show ?thesis by auto
next
  case True
  then obtain b where b: "p_files s (nat fd) = Some b" and v: "valid_fd fd" by auto
  with run obtain s1 s2 s3 where s1: "fref b s = Inr s1" and s2: "fput E b s1 = Inr s2"
    and s3: "fput E b s2 = Inr s3" and s': "s' = set_fd fd None s3"
    by (auto simp: do_close_def fget_def valid_fd_def bnd_eq_Inr split: if_splits)
  have i1: "kinv zero (\<lambda>x. Y x + one b x) {} {} s1" by (rule fref_kinv [OF inv s1])
  have p1: "p_files s1 = p_files s" using s1 by (auto simp: fref_def run_eq)
  have pos: "0 < Y b + one b b" using nn [of b] by (simp add: one_def)
  from fput_kinv [OF i1 s2 pos] have i2: "kinv zero (\<lambda>x. Y x + one b x - one b x) ({} - {b}) {} s2"
    and p2: "p_files s2 = p_files s" by (simp_all only: p1)
  have i2: "kinv zero Y {} {} s2" by (rule kinv_cong [OF i2 [unfolded Diff_empty empty_Diff]]) simp_all
  have j2: "kinv zero (\<lambda>x. Y x + one b x) {} (insert (nat fd) {}) s2"
    by (rule kinv_closing [OF i2]) (simp_all add: p2 b)
  from fput_kinv [OF j2 s3 pos]
  have i3: "kinv zero (\<lambda>x. Y x + one b x - one b x) ({} - {b}) (insert (nat fd) {}) s3"
    and p3: "p_files s3 = p_files s" by (simp_all only: p2)
  have "kinv zero Y {} (insert (nat fd) {}) s3"
    by (rule kinv_cong [OF i3 [unfolded Diff_empty empty_Diff]]) simp_all
  then have "kinv zero Y {} {} s'" unfolding s' by (rule kinv_closed) simp
  then show ?thesis using p3 v by (simp add: s')
qed

lemma do_dup_kinv:
  assumes inv: "kinv zero zero {} {} s" and run: "do_dup E fd s = Inr (r, s')"
  shows "kinv zero zero {} {} s'"
proof (cases "valid_fd fd \<and> p_files s (nat fd) \<noteq> None")
  case False
  with run have "s' = s" by (auto simp: do_dup_def fget_def valid_fd_def split: if_splits)
  with inv show ?thesis by simp
next
  case True
  then obtain b s1 where b: "p_files s (nat fd) = Some b" and s1: "fref b s = Inr s1"
    and rest: "(let id = get_empty_fd s1 in
            if id < 0 then bnd (fput E b s1) (\<lambda>s. Inr (id, s))
            else Inr (id, set_fd id (Some b) s1)) = Inr (r, s')"
    using run by (auto simp: do_dup_def fget_def valid_fd_def bnd_eq_Inr split: if_splits)
  have i1: "kinv zero (\<lambda>x. zero x + one b x) {} {} s1" by (rule fref_kinv [OF inv s1])
  have p1: "p_files s1 = p_files s" using s1 by (auto simp: fref_def run_eq)
  show ?thesis
  proof (cases "get_empty_fd s1 < 0")
    case True
    with rest have "fput E b s1 = Inr s'" by (auto simp: Let_def elim: bnd_InrE)
    from fput_kinv [OF i1 this] have "kinv zero (\<lambda>x. zero x + one b x - one b x) ({} - {b}) {} s'"
      by (simp add: zero_def one_def)
    then show ?thesis by (auto elim: kinv_cong)
  next
    case False
    with rest have s': "s' = set_fd (get_empty_fd s1) (Some b) s1" by (auto simp: Let_def)
    have "kinv zero (\<lambda>x. zero x + one b x - one b x) {} {} s'"
      unfolding s' using get_empty_fd_free [OF False] i1 p1 b
      by (intro kinv_set_fd) (auto simp: kinv_def)
    then show ?thesis by (rule kinv_cong) simp_all
  qed
qed

lemma do_dup2_kinv:
  assumes inv: "kinv zero zero {} {} s" and run: "do_dup2 E ofd nfd s = Inr (r, s')"
  shows "kinv zero zero {} {} s'"
proof (cases "valid_fd ofd \<and> valid_fd nfd \<and> p_files s (nat ofd) \<noteq> None")
  case False
  with run have "s' = s" by (auto simp: do_dup2_def fget_def valid_fd_def split: if_splits)
  with inv show ?thesis by simp
next
  case True
  then obtain b s1 where b: "p_files s (nat ofd) = Some b" and s1: "fref b s = Inr s1"
    and nfd: "valid_fd nfd" and rest: "(if p_files s1 (nat nfd) \<noteq> None \<and> nfd = ofd then
              bnd (fput E b s1) (\<lambda>s. Inr (ofd, s))
            else
              bnd (if p_files s1 (nat nfd) \<noteq> None then do_close E nfd s1 else Inr (0, s1)) (\<lambda>(_, s).
              Inr (nfd, set_fd nfd (p_files s (nat ofd)) s))) = Inr (r, s')"
    using run by (auto simp: do_dup2_def fget_def valid_fd_def bnd_eq_Inr check_eq_Inr split: if_splits)
  have i1: "kinv zero (\<lambda>x. zero x + one b x) {} {} s1" by (rule fref_kinv [OF inv s1])
  have p1: "p_files s1 = p_files s" using s1 by (auto simp: fref_def run_eq)
  show ?thesis
  proof (cases "p_files s1 (nat nfd) \<noteq> None \<and> nfd = ofd")
    case True
    with rest have "fput E b s1 = Inr s'" by (auto elim: bnd_InrE)
    from fput_kinv [OF i1 this] have "kinv zero (\<lambda>x. zero x + one b x - one b x) ({} - {b}) {} s'"
      by (simp add: zero_def one_def)
    then show ?thesis by (auto elim: kinv_cong)
  next
    case False
    with rest obtain r2 s2 where
      s2: "(if p_files s1 (nat nfd) \<noteq> None then do_close E nfd s1 else Inr (0, s1)) = Inr (r2, s2)"
      and s': "s' = set_fd nfd (p_files s2 (nat ofd)) s2"
      by (auto simp: bnd_eq_Inr)
    have "kinv zero (\<lambda>x. zero x + one b x) {} {} s2 \<and> p_files s2 = (p_files s)(nat nfd := None)"
    proof (cases "p_files s1 (nat nfd) \<noteq> None")
      case True
      with s2 have c: "do_close E nfd s1 = Inr (r2, s2)" by simp
      have "0 \<le> zero x + one b x" for x by (simp add: zero_def one_def)
      from do_close_kinv [OF i1 this c] nfd p1 show ?thesis by simp
    next
      case False
      with s2 i1 p1 show ?thesis by auto
    qed
    then have i2: "kinv zero (\<lambda>x. zero x + one b x) {} {} s2"
      and p2: "p_files s2 = (p_files s)(nat nfd := None)" by auto
    have "ofd \<noteq> nfd" using False b p1 by auto
    then have "nat ofd \<noteq> nat nfd" using True nfd by (auto simp: valid_fd_def)
    then have o: "p_files s2 (nat ofd) = Some b" using p2 b by simp
    with i2 have "kfiles s2 b \<noteq> None" by (auto simp: kinv_def)
    then have "kinv zero (\<lambda>x. zero x + one b x - one b x) {} {} s'"
      unfolding s' o using i2 p2 nfd by (intro kinv_set_fd) (auto simp: valid_fd_def)
    then show ?thesis by (rule kinv_cong) simp_all
  qed
qed

text \<open>A failed \<open>do_open\<close> takes the new file out of the table and drops it.\<close>

lemma kinv_drop:
  assumes inv: "kinv X zero {b} {} s" and fd: "p_files s (nat fd) = Some b"
    and put: "fput E b (set_fd fd None s) = Inr s'"
  shows "kinv X zero {} {} s'"
proof -
  have "kinv X (\<lambda>x. zero x + one b x) {b} (insert (nat fd) {}) s"
    by (rule kinv_closing [OF inv fd]) simp
  then have "kinv X (\<lambda>x. zero x + one b x) {b} {} (set_fd fd None s)" by (rule kinv_closed) simp
  moreover have "0 < zero b + one b b" by (simp add: zero_def one_def)
  ultimately have "kinv X (\<lambda>x. zero x + one b x - one b x) ({b} - {b}) {} s'"
    using fput_kinv [OF _ put] by blast
  then show ?thesis by (auto elim: kinv_cong)
qed

lemma set_fd_moves: "moves d s t \<Longrightarrow> moves d (set_fd fd f s) (set_fd fd f t)"
  by (simp add: moves_def vn_fresh_def vfs_same_def vrefs_def)

lemma fget_new_kinv:
  assumes inv: "kinv zero zero {} {} s" and new: "fget (-1) s = Inr (f, s1)"
    and fd: "\<not> get_empty_fd s < 0"
  shows "f = Some (next_file s) \<and> kinv zero zero {next_file s} {} (set_fd (get_empty_fd s) f s1)"
proof -
  let ?b = "next_file s"
  let ?s0 = "s\<lparr>kfiles := (kfiles s)(?b \<mapsto> zero_file), next_file := next_file s + 1\<rparr>"
  from new have f: "f = Some ?b" and s1: "fref ?b ?s0 = Inr s1"
    by (auto simp: fget_def Let_def elim: bnd_InrE)
  have "kinv zero zero (insert ?b {}) {} ?s0" by (rule kinv_new_file [OF inv refl]) (simp add: zero_def)
  then have i1: "kinv zero (\<lambda>x. zero x + one ?b x) {?b} {} s1" by (rule fref_kinv) (rule s1)
  have p1: "p_files s1 = p_files s" and "kfiles s1 ?b \<noteq> None"
    using s1 by (auto simp: fref_def run_eq)
  with get_empty_fd_free [OF fd]
  have "kinv zero (\<lambda>x. zero x + one ?b x - one ?b x) {?b} {} (set_fd (get_empty_fd s) (Some ?b) s1)"
    by (intro kinv_set_fd [OF i1]) simp_all
  then show ?thesis using f by (auto elim: kinv_cong)
qed

lemma do_open_kinv:
  assumes inv: "kinv zero zero {} {} s" and run: "do_open E path fl s = Inr (r, s')"
  shows "kinv zero zero {} {} s'"
proof (cases "s' = s")
  case False
  let ?fd = "get_empty_fd s"
  from run False have fd: "\<not> ?fd < 0"
    by (auto simp: do_open_def Let_def split: if_splits)
  define wr where "wr \<longleftrightarrow> fl AND O_WRONLY \<noteq> 0 \<or> fl AND O_RDWR \<noteq> 0"
  from run False fd obtain f s1 where new: "fget (-1) s = Inr (f, s1)"
    and rest: "(case f of None \<Rightarrow> Inr (- ENOMEM, s1)
            | Some file \<Rightarrow>
                let s = set_fd ?fd (Some file) s1 in
                bnd (file_get file s) (\<lambda>f0.
                check (f_pos f0 = 0) Kassert_failed (
                let s = file_upd file (f_mode_update (\<lambda>_. open_mode fl)) s in
                bnd (open_namev E path fl None s) (\<lambda>(ret, target, s).
                if ret < 0 then
                  bnd (put_opt E target (set_fd ?fd None s)) (\<lambda>s.
                  bnd (fput E file s) (\<lambda>s. Inr (ret, s)))
                else
                  deref target Kassert_failed (\<lambda>target.
                  bnd (vn_get target s) (\<lambda>v.
                  if wr \<and> S_ISDIR (vn_mode v) then
                    bnd (vput E target (set_fd ?fd None s)) (\<lambda>s.
                    bnd (fput E file s) (\<lambda>s. Inr (- EISDIR, s)))
                  else Inr (?fd, file_upd file (f_vnode_update (\<lambda>_. Some target)) s))))))) = Inr (r, s')"
    unfolding wr_def by (auto simp: do_open_def Let_def bnd_eq_Inr [of "fget (-1) s"] split: if_splits)
  let ?b = "next_file s"
  from fget_new_kinv [OF inv new fd] have f: "f = Some ?b"
    and i1: "kinv zero zero {?b} {} (set_fd ?fd (Some ?b) s1)" by auto
  let ?s2 = "file_upd ?b (f_mode_update (\<lambda>_. open_mode fl)) (set_fd ?fd (Some ?b) s1)"
  have i2: "kinv zero zero {?b} {} ?s2" by (rule kinv_file_upd [OF i1]) simp_all
  from rest f obtain ret target s3 where name: "open_namev E path fl None ?s2 = Inr (ret, target, s3)"
    and rest: "(if ret < 0 then
                  bnd (put_opt E target (set_fd ?fd None s3)) (\<lambda>s.
                  bnd (fput E ?b s) (\<lambda>s. Inr (ret, s)))
                else
                  deref target Kassert_failed (\<lambda>target.
                  bnd (vn_get target s3) (\<lambda>v.
                  if wr \<and> S_ISDIR (vn_mode v) then
                    bnd (vput E target (set_fd ?fd None s3)) (\<lambda>s.
                    bnd (fput E ?b s) (\<lambda>s. Inr (- EISDIR, s)))
                  else Inr (?fd, file_upd ?b (f_vnode_update (\<lambda>_. Some target)) s3)))) = Inr (r, s')"
    by (auto simp: Let_def bnd_eq_Inr [of "file_get a t" for a t] check_eq_Inr
        bnd_eq_Inr [of "open_namev E path fl None t" for t] simp del: file_upd_simps)
  from open_namev_found [OF name] consider
    "ret < 0" "target = None" "moves none ?s2 s3" |
    t where "ret = 0" "target = Some t" "moves (one t) ?s2 s3"
    by (auto simp: found_def)
  then show ?thesis
  proof cases
    case 1
    have i3: "kinv zero zero {?b} {} s3" by (rule kinv_none [OF i2 1(3)])
    have p3: "p_files s3 (nat ?fd) = Some ?b" using kinv_frame [OF i2 1(3)] by simp
    from rest 1 have "fput E ?b (set_fd ?fd None s3) = Inr s'"
      by (auto simp: put_opt_def elim: bnd_InrE)
    then show ?thesis by (rule kinv_drop [OF i3 p3])
  next
    case 2
    have i3: "kinv (\<lambda>a. zero a + one t a) zero {?b} {} s3" by (rule kinv_moves [OF i2 2(3)])
    have p3: "p_files s3 (nat ?fd) = Some ?b" and k3: "kfiles s3 ?b = kfiles ?s2 ?b"
      using kinv_frame [OF i2 2(3)] by simp_all
    from rest 2 obtain v :: vnode where
      rest: "(if wr \<and> S_ISDIR (vn_mode v) then
                    bnd (vput E t (set_fd ?fd None s3)) (\<lambda>s.
                    bnd (fput E ?b s) (\<lambda>s. Inr (- EISDIR, s)))
                  else Inr (?fd, file_upd ?b (f_vnode_update (\<lambda>_. Some t)) s3)) = Inr (r, s')"
      by (auto elim: bnd_InrE)
    show ?thesis
    proof (cases "wr \<and> S_ISDIR (vn_mode v)")
      case False
      have "p_files (set_fd ?fd (Some ?b) s1) (nat ?fd) = Some ?b" by simp
      then have "kfiles (set_fd ?fd (Some ?b) s1) ?b \<noteq> None" using i1 unfolding kinv_def by blast
      then have "kfiles s1 ?b \<noteq> None" by simp
      then obtain fl3 where k: "kfiles s3 ?b = Some fl3" using k3 by auto
      have "nat ?fd \<in> fds_of {} s3 ?b" using p3 by (simp add: fds_of_def)
      then have "0 < card (fds_of {} s3 ?b)" using finite_fds_of [OF i3] card_gt_0_iff by blast
      then have "0 < f_refcount fl3" using i3 k by (auto simp: kinv_def zero_def)
      from kinv_set_vnode [OF i3 _ k this, of t]
      have "kinv (\<lambda>x. zero x + one t x - one t x) zero {} {} s'"
        using rest False by auto
      then show ?thesis by (auto elim: kinv_cong)
    next
      case True
      with rest obtain s4 where s4: "vput E t (set_fd ?fd None s3) = Inr s4" "fput E ?b s4 = Inr s'"
        by (auto elim!: bnd_InrE)
      have "moves (\<lambda>x. - one t x) (set_fd ?fd (Some ?b) (set_fd ?fd None s3)) (set_fd ?fd (Some ?b) s4)"
        by (rule set_fd_moves [OF vput_moves [OF s4(1)]])
      moreover have "set_fd ?fd (Some ?b) (set_fd ?fd None s3) = s3"
        using p3 by (simp add: set_fd_def fun_upd_idem)
      ultimately have m: "moves (\<lambda>x. - one t x) s3 (set_fd ?fd (Some ?b) s4)" by simp
      have "kinv (\<lambda>a. zero a + one t a + - one t a) zero {?b} {} (set_fd ?fd (Some ?b) s4)"
        by (rule kinv_moves [OF i3 m])
      then have i4: "kinv zero zero {?b} {} (set_fd ?fd (Some ?b) s4)" by (rule kinv_cong) simp_all
      have "vn_fresh (set_fd ?fd None s3)" using i3 by (simp add: kinv_def vn_fresh_def)
      then have "p_files s4 (nat ?fd) = None"
        using vput_moves [OF s4(1)] by (simp add: moves_def vfs_same_def)
      then have eq: "set_fd ?fd None (set_fd ?fd (Some ?b) s4) = s4"
        by (simp add: set_fd_def fun_upd_idem)
      show ?thesis
        by (rule kinv_drop [OF i4, of ?fd]) (simp_all add: eq s4(2))
    qed
  qed
qed (use inv in simp)

lemma do_chdir_kinv:
  assumes inv: "kinv zero zero {} {} s" and run: "do_chdir E path s = Inr (r, s')"
  shows "kinv zero zero {} {} s'"
proof (cases "path = []")
  case False
  with run obtain ret target s1 where name: "open_namev E path O_RDONLY None s = Inr (ret, target, s1)"
    and rest: "(if ret < 0 then bnd (put_opt E target s1) (\<lambda>s. Inr (ret, s))
        else
          deref target Null_deref (\<lambda>t.
          bnd (vn_get t s1) (\<lambda>v.
          if \<not> S_ISDIR (vn_mode v) then bnd (vput E t s1) (\<lambda>s. Inr (- ENOTDIR, s))
          else
            let old = p_cwd s1 in
            bnd (vput E old (s1\<lparr>p_cwd := t\<rparr>)) (\<lambda>s. Inr (0, s))))) = Inr (r, s')"
    by (auto simp: do_chdir_def bnd_eq_Inr [of "open_namev E path O_RDONLY None s"])
  from open_namev_found [OF name] consider
    "ret < 0" "target = None" "moves none s s1" | t where "ret = 0" "target = Some t" "moves (one t) s s1"
    by (auto simp: found_def)
  then show ?thesis
  proof cases
    case 1
    with rest have "s' = s1" by (simp add: put_opt_def)
    then show ?thesis using kinv_none [OF inv 1(3)] by simp
  next
    case 2
    have i1: "kinv (\<lambda>a. zero a + one t a) zero {} {} s1" by (rule kinv_moves [OF inv 2(3)])
    from rest 2 consider "vput E t s1 = Inr s'" | "vput E (p_cwd s1) (s1\<lparr>p_cwd := t\<rparr>) = Inr s'"
      by (auto simp: run_eq Let_def split: if_splits)
    then show ?thesis
    proof cases
      case 1
      have "kinv (\<lambda>a. zero a + one t a + - one t a) zero {} {} s'"
        by (rule kinv_moves [OF i1 vput_moves [OF 1]])
      then show ?thesis by (rule kinv_cong) simp_all
    next
      case 2
      let ?s2 = "s1\<lparr>p_cwd := t\<rparr>"
      have "kinv (\<lambda>a. one (p_cwd s1) a) zero {} {} ?s2"
        using i1 files_ok_cong [of ?s2 s1 "{}"] unfolding kinv_def
        by (simp add: vn_fresh_def vrefs_def files_on_def fds_of_def is_at_def one_def zero_def)
      from kinv_moves [OF this vput_moves [OF 2]] show ?thesis
        by (rule kinv_cong) (simp_all add: zero_def)
    qed
  qed
qed (use assms in \<open>simp add: do_chdir_def\<close>)

text \<open>What a successful \<open>do_open\<close> does to the table of descriptors and the open files.\<close>

lemma do_open_success:
  assumes inv: "kinv zero zero {} {} s" and run: "do_open E path fl s = Inr (r, s')" and ok: "0 \<le> r"
  shows "r = get_empty_fd s \<and> p_files s' = (p_files s)(nat r \<mapsto> next_file s)
    \<and> (\<exists>a. kfiles s' = (kfiles s)(next_file s \<mapsto> \<lparr>f_pos = 0, f_mode = open_mode fl, f_refcount = 1, f_vnode = Some a\<rparr>))"
proof -
  let ?fd = "get_empty_fd s" and ?b = "next_file s"
  have efd: "- EMFILE < 0" "- KEINVAL < 0" by (simp_all add: errno_defs)
  from run ok efd have fd: "\<not> ?fd < 0"
    by (auto simp: do_open_def Let_def split: if_splits)
  define wr where "wr \<longleftrightarrow> fl AND O_WRONLY \<noteq> 0 \<or> fl AND O_RDWR \<noteq> 0"
  have new: "\<exists>s1. fget (-1) s = Inr (Some ?b, s1) \<and> kfiles s1 = (kfiles s)(?b \<mapsto> zero_file\<lparr>f_refcount := 1\<rparr>)
      \<and> p_files s1 = p_files s"
    by (simp add: fget_def fref_def file_get_def zero_file_def file_ok_def Let_def)
  then obtain s1 where s1: "fget (-1) s = Inr (Some ?b, s1)" "p_files s1 = p_files s"
    "kfiles s1 = (kfiles s)(?b \<mapsto> zero_file\<lparr>f_refcount := 1\<rparr>)" by blast
  let ?s2 = "file_upd ?b (f_mode_update (\<lambda>_. open_mode fl)) (set_fd ?fd (Some ?b) s1)"
  from run ok efd fd s1(1) obtain ret target s3 where
    name: "open_namev E path fl None ?s2 = Inr (ret, target, s3)"
    and rest: "(if ret < 0 then
                  bnd (put_opt E target (set_fd ?fd None s3)) (\<lambda>s.
                  bnd (fput E ?b s) (\<lambda>s. Inr (ret, s)))
                else
                  deref target Kassert_failed (\<lambda>target.
                  bnd (vn_get target s3) (\<lambda>v.
                  if wr \<and> S_ISDIR (vn_mode v) then
                    bnd (vput E target (set_fd ?fd None s3)) (\<lambda>s.
                    bnd (fput E ?b s) (\<lambda>s. Inr (- EISDIR, s)))
                  else Inr (?fd, file_upd ?b (f_vnode_update (\<lambda>_. Some target)) s3)))) = Inr (r, s')"
    unfolding wr_def
    by (auto simp: do_open_def Let_def bnd_eq_Inr [of "file_get a t" for a t] check_eq_Inr
        bnd_eq_Inr [of "open_namev E path fl None t" for t] simp del: file_upd_simps split: if_splits)
  from rest ok obtain t where t: "r = ?fd" "s' = file_upd ?b (f_vnode_update (\<lambda>_. Some t)) s3" "\<not> ret < 0"
    by (auto simp: run_eq errno_defs split: if_splits)
  from fget_new_kinv [OF inv s1(1) fd]
  have "kinv zero zero {?b} {} (set_fd ?fd (Some ?b) s1)" by simp
  then have i2: "kinv zero zero {?b} {} ?s2" by (rule kinv_file_upd) simp_all
  from open_namev_found [OF name] t(3) obtain a where "moves (one a) ?s2 s3" by (auto simp: found_def)
  from kinv_frame [OF i2 this] have "p_files s3 = p_files ?s2" "kfiles s3 = kfiles ?s2" by auto
  then show ?thesis by (simp add: t s1(2,3) zero_file_def) blast
qed

text \<open>\<open>fget\<close> and \<open>fput\<close> on a file that stays open cancel, around an update of the position.\<close>

lemma fget_fput:
  assumes fd: "valid_fd fd" "p_files s (nat fd) = Some b" and b: "kfiles s b = Some f" "0 < f_refcount f"
    and get: "fget fd s = Inr (Some b', s1)" and put: "fput E b' (file_upd b' (f_pos_update (\<lambda>_. p)) s1) = Inr s2"
  shows "b' = b \<and> kfiles s1 b = Some (f\<lparr>f_refcount := f_refcount f + 1\<rparr>) \<and> vnodes s1 = vnodes s
    \<and> s2 = file_upd b (f_pos_update (\<lambda>_. p)) s"
proof -
  from get fd have b': "b' = b" and s1: "s1 = file_upd b (f_refcount_update (\<lambda>r. r + 1)) s"
    by (auto simp: fget_def valid_fd_def fref_def run_eq split: if_splits)
  from put b have "s2 = file_upd b (f_refcount_update (\<lambda>r. r - 1)) (file_upd b (f_pos_update (\<lambda>_. p)) s1)"
    by (auto simp: fput_def run_eq Let_def s1 b')
  also have "\<dots> = file_upd b (f_pos_update (\<lambda>_. p)) s"
    using b(1) by (cases f) (simp add: s1 file_upd_def o_def)
  finally show ?thesis using b(1) by (simp add: b' s1)
qed

end

end
