(* ===== verification/Ksys.thy ===== *)
theory Ksys
  imports Kfiles
begin

text \<open>
  The system calls of the virtual file system, and that each of them keeps the reference counts
  exact, over any file system that obeys the laws of \<open>vfs_env\<close>.
\<close>

datatype syscall =
    Sys_open string int | Sys_close int | Sys_dup int | Sys_dup2 int int
  | Sys_read int nat | Sys_write int string nat | Sys_lseek int int int | Sys_getdent int
  | Sys_mknod string int nat | Sys_mkdir string | Sys_rmdir string | Sys_unlink string
  | Sys_link string string | Sys_rename string string | Sys_chdir string | Sys_stat string

fun sys :: "'f kstate kenv \<Rightarrow> syscall \<Rightarrow> 'f kstate \<Rightarrow> kfault + (int \<times> 'f kstate)" where
  "sys E (Sys_open p fl) s = do_open E p fl s"
| "sys E (Sys_close fd) s = do_close E fd s"
| "sys E (Sys_dup fd) s = do_dup E fd s"
| "sys E (Sys_dup2 ofd nfd) s = do_dup2 E ofd nfd s"
| "sys E (Sys_read fd n) s = bnd (do_read E fd n s) (\<lambda>(r, _, s). Inr (r, s))"
| "sys E (Sys_write fd b n) s = do_write E fd b n s"
| "sys E (Sys_lseek fd off wh) s = do_lseek E fd off wh s"
| "sys E (Sys_getdent fd) s = bnd (do_getdent E fd s) (\<lambda>(r, _, s). Inr (r, s))"
| "sys E (Sys_mknod p m d) s = do_mknod E p m d s"
| "sys E (Sys_mkdir p) s = do_mkdir E p s"
| "sys E (Sys_rmdir p) s = do_rmdir E p s"
| "sys E (Sys_unlink p) s = do_unlink E p s"
| "sys E (Sys_link a b) s = do_link E a b s"
| "sys E (Sys_rename a b) s = do_rename E a b s"
| "sys E (Sys_chdir p) s = do_chdir E p s"
| "sys E (Sys_stat p) s = bnd (do_stat E p s) (\<lambda>(r, _, s). Inr (r, s))"

context vfs_env
begin

lemma sys_kinv:
  assumes "kernel_ok s" and "sys E c s = Inr (r, s')"
  shows "kernel_ok s'"
proof (cases "\<exists>p m d a b. c \<in> {Sys_mknod p m d, Sys_mkdir p, Sys_rmdir p, Sys_unlink p, Sys_link a b,
    Sys_rename a b, Sys_stat p}")
  case True
  with assms(2) have "moves none s s'"
    using ends_InrD [OF do_mknod_moves] ends_InrD [OF do_mkdir_moves] ends_InrD [OF do_rmdir_moves]
      ends_InrD [OF do_unlink_moves] ends_InrD [OF do_link_moves] ends_InrD [OF do_rename_moves]
      ends_InrD [OF do_stat_moves]
    by (fastforce elim!: bnd_InrE)
  with assms(1) show ?thesis unfolding kernel_ok_def by (rule kinv_none)
next
  case False
  have inv: "kinv zero zero {} {} s" using assms(1) by (simp add: kernel_ok_def)
  have nn: "0 \<le> zero x" for x by (simp add: zero_def)
  from False assms(2) show ?thesis
    unfolding kernel_ok_def
    using do_open_kinv [OF inv] do_close_kinv [OF inv nn] do_dup_kinv [OF inv] do_dup2_kinv [OF inv]
      ends_InrD [OF do_read_kinv [OF inv]] ends_InrD [OF do_write_kinv [OF inv]]
      ends_InrD [OF do_lseek_kinv [OF inv nn]] ends_InrD [OF do_getdent_kinv [OF inv]]
      do_chdir_kinv [OF inv]
    by (cases c) (fastforce elim!: bnd_InrE)+
qed

end

end
