(* ===== verification/Ramrefs.thy ===== *)
theory Ramrefs
  imports Ramfs Ksys
begin

text \<open>
  The ramfs provides the two interfaces of the virtual file system: its vnode operations
  (\<open>vnode_env\<close>) and its tables of operations (\<open>vfs_env\<close>).  Every operation of the ramfs gives back
  the references it takes, on every branch.
\<close>

lemma rf_upd_simps [simp]:
  "vnodes (rf_upd a f s) = vnodes s" "next_vnode (rf_upd a f s) = next_vnode s"
  "vnode_inuse_list (rf_upd a f s) = vnode_inuse_list s" "kfiles (rf_upd a f s) = kfiles s"
  "next_file (rf_upd a f s) = next_file s" "p_files (rf_upd a f s) = p_files s"
  "p_cwd (rf_upd a f s) = p_cwd s" "vfs_root_vn (rf_upd a f s) = vfs_root_vn s"
  "rf_heap (fs_data (rf_upd a f s)) = (rf_heap (fs_data s))(a := map_option f (rf_heap (fs_data s) a))"
  "rfs_inodes (fs_data (rf_upd a f s)) = rfs_inodes (fs_data s)"
  "next_inode (fs_data (rf_upd a f s)) = next_inode (fs_data s)"
  "fs_root (fs_data (rf_upd a f s)) = fs_root (fs_data s)"
  by (simp_all add: rf_upd_def)

lemma rf_get_eq [simp]: "rf_get a s = Inr i \<longleftrightarrow> rf_heap (fs_data s) a = Some i"
  by (auto simp: rf_get_def deref_def split: option.splits)

lemma same_counts_rf: "same_counts s (rf_upd a f s)"
  unfolding rf_upd_def by (rule same_counts_fs)

lemmas moves_rf = moves_same [OF same_counts_rf]

subsection \<open>The vnode layer\<close>

lemma ramfs_read_vnode_same:
  assumes "ramfs_read_vnode vn s = Inr s'"
  shows "same_counts s s'"
proof -
  have two: "same_counts s (vn_upd vn f (vn_upd vn g (rf_upd a h s)))"
    if "\<And>v. vn_refcount (f v) = vn_refcount v" "\<And>v. vn_nrespages (f v) = vn_nrespages v"
      "\<And>v. vn_refcount (g v) = vn_refcount v" "\<And>v. vn_nrespages (g v) = vn_nrespages v" for f g a h
    by (rule same_counts_trans [OF same_counts_trans [OF same_counts_rf]]; rule same_counts_upd)
      (simp_all add: that)
  from assms show ?thesis
    by (auto simp: ramfs_read_vnode_def run_eq Let_def intro!: two
        simp del: vn_upd_simps rf_upd_simps split: if_splits ramfs_mem.splits)
qed

lemma ramfs_delete_vnode_same:
  assumes "ramfs_delete_vnode vn s = Inr s'"
  shows "same_counts s s'"
  using assms
  by (auto simp: ramfs_delete_vnode_def run_eq Let_def split: if_splits
      intro: same_counts_rf same_counts_trans [OF same_counts_rf same_counts_fs])

interpretation ramvn: vnode_env "ramfs_vn D" for D
  by unfold_locales (auto simp: ramfs_vn_def ramfs_read_vnode_same ramfs_delete_vnode_same)

interpretation ramenv: vnode_env "ramfs_env D" for D
  by unfold_locales
    (auto simp: ramfs_env_def ramfs_vn_def ramfs_read_vnode_same ramfs_delete_vnode_same)

subsection \<open>Operations\<close>

lemma set_entry_same: "set_entry d i n nm l s = Inr s' \<Longrightarrow> same_counts s s'"
  by (auto simp: set_entry_def run_eq Let_def intro: same_counts_rf)

lemma clear_entry_same: "clear_entry d nm l s = Inr s' \<Longrightarrow> same_counts s s'"
  by (auto simp: clear_entry_def run_eq Let_def intro: same_counts_rf)

lemma drop_link_same: "drop_link vn s = Inr s' \<Longrightarrow> same_counts s s'"
  by (auto simp: drop_link_def run_eq intro: same_counts_rf)

lemma alloc_inode_same: "ramfs_alloc_inode ty dv s = Inr (r, s') \<Longrightarrow> same_counts s s'"
  by (auto simp: ramfs_alloc_inode_def run_eq Let_def intro: same_counts_fs split: option.splits)

lemma set_entry_ends:
  "moves e s t \<Longrightarrow> (\<And>s1. moves e s s1 \<Longrightarrow> ends (K s1) Q) \<Longrightarrow> ends (bnd (set_entry d i n nm l t) K) Q"
  by (erule ends_same) (erule set_entry_same)

lemma clear_entry_ends:
  "moves e s t \<Longrightarrow> (\<And>s1. moves e s s1 \<Longrightarrow> ends (K s1) Q) \<Longrightarrow> ends (bnd (clear_entry d nm l t) K) Q"
  by (erule ends_same) (erule clear_entry_same)

lemma drop_link_ends:
  "moves e s t \<Longrightarrow> (\<And>s1. moves e s s1 \<Longrightarrow> ends (K s1) Q) \<Longrightarrow> ends (bnd (drop_link a t) K) Q"
  by (erule ends_same) (erule drop_link_same)

lemma alloc_inode_ends:
  assumes "moves e s t" and "\<And>r s1. moves e s s1 \<Longrightarrow> ends (K r s1) Q"
  shows "ends (bnd (ramfs_alloc_inode ty dv t) (\<lambda>(r, s). K r s)) Q"
proof (rule ends_bnd)
  fix y assume y: "ramfs_alloc_inode ty dv t = Inr y"
  obtain r s1 where eq: "y = (r, s1)" by (cases y)
  show "ends (case y of (r, s) \<Rightarrow> K r s) Q"
    unfolding eq prod.case
    by (rule assms(2), rule moves_trans_none [OF assms(1)], rule moves_same,
        rule alloc_inode_same [OF y [unfolded eq]])
qed

lemma ramfs_lookup_cases:
  assumes "ramfs_lookup D d n l s = Inr (r, res, s')"
  shows "r = - ENOENT \<and> res = None \<and> s' = s \<or> r = 0 \<and> (\<exists>a. res = Some a \<and> moves (one a) s s')"
  using assms ramvn.vget_moves
  by (auto simp: ramfs_lookup_def bnd_eq_Inr split: option.splits)

lemma ramfs_lookup_found:
  "ramfs_lookup D d n l s = Inr (r, res, s') \<Longrightarrow> found r res s s'"
  using ramfs_lookup_cases by (fastforce simp: found_def ENOENT_def)

lemma dir_space_state: "dir_space D d n l s = Inr (sp, s') \<Longrightarrow> s' = s"
  by (auto simp: dir_space_def run_eq dest!: ramfs_lookup_cases)

lemma dir_space_ends:
  assumes "moves e s t" and "\<And>sp. moves e s t \<Longrightarrow> ends (K sp t) Q"
  shows "ends (bnd (dir_space D d n l t) (\<lambda>(sp, s). K sp s)) Q"
  using assms by (auto intro!: ends_bnd dest!: dir_space_state)

lemma ramfs_lookup_ends:
  assumes "moves e s t"
    and "\<And>a s1. moves (\<lambda>x. e x + one a x) s s1 \<Longrightarrow> ends (K 0 (Some a) s1) Q"
    and "moves e s t \<Longrightarrow> ends (K (- ENOENT) None t) Q"
  shows "ends (bnd (ramfs_lookup D d n l t) (\<lambda>(ret, t, s). K ret t s)) Q"
proof (rule ends_bnd)
  fix y assume y: "ramfs_lookup D d n l t = Inr y"
  obtain r res s1 where eq: "y = (r, res, s1)" by (cases y)
  from ramfs_lookup_cases [OF y [unfolded eq]]
  show "ends (case y of (ret, t, s) \<Rightarrow> K ret t s) Q"
    unfolding eq prod.case
  proof (elim disjE conjE exE)
    fix a assume a: "r = 0" "res = Some a" "moves (one a) t s1"
    show "ends (K r res s1) Q"
      unfolding a(1,2) by (rule assms(2), rule moves_trans [OF assms(1) a(3)]) simp
  qed (use assms(1,3) in simp)
qed

lemma vnode_inode_ends:
  "(\<And>a i. ends (K a i) Q) \<Longrightarrow> ends (bnd (vnode_inode d t) (\<lambda>(a, i). K a i)) Q"
  by (rule ends_bnd) auto

lemmas ram_takes = ramvn.vput_ends set_entry_ends clear_entry_ends drop_link_ends alloc_inode_ends
  dir_space_ends ramfs_lookup_ends ramvn.vget_ends

lemmas ram_passes = ends_case_None ends_case_Some ends_vn_get vnode_inode_ends ends_if ends_check
  ends_deref ends_option

lemmas ram_pure = ends_bnd [of "as_dirents i" for i] ends_bnd [of "rf_get a s" for a s]

lemma ramfs_create_found: "ends (ramfs_create D d n l s) (\<lambda>(r, res, s'). found r res s s')"
  unfolding ramfs_create_def
  by (insert moves_refl [of s])
    (erule ram_takes | rule ram_passes ram_pure | (erule found_end, force simp: none_def)
      | (erule not_found_end, force, force simp: errno_defs))+

lemma ramfs_unlink_moves: "ends (ramfs_unlink D d n l s) (\<lambda>(r, s'). moves none s s')"
  unfolding ramfs_unlink_def
  by (insert moves_refl [of s])
    (erule ram_takes | rule ram_passes ram_pure | (erule ends_moved, force simp: none_def errno_defs))+

lemma ramfs_rmdir_moves: "ends (ramfs_rmdir D d n l s) (\<lambda>(r, s'). moves none s s')"
  unfolding ramfs_rmdir_def
  by (insert moves_refl [of s])
    (erule ram_takes | rule ram_passes ram_pure | (erule ends_moved, force simp: none_def errno_defs))+

lemma ends_rf: "moves e s t \<Longrightarrow> (\<And>x. e x = d x) \<Longrightarrow> ends (Inr (r, rf_upd a f t)) (\<lambda>(r, s'). moves d s s')"
  by (rule ends_moved) (rule moves_trans_none [OF _ moves_rf])

lemma ramfs_mkdir_moves: "ends (ramfs_mkdir D d n l s) (\<lambda>(r, s'). moves none s s')"
  unfolding ramfs_mkdir_def Let_def
  by (insert moves_refl [of s])
    (erule ram_takes | rule ram_passes ram_pure | (erule ends_moved ends_rf, force simp: none_def))+

lemma mknod_alloc_ends:
  assumes "moves e s t" and "\<And>r s1. moves e s s1 \<Longrightarrow> ends (K r s1) Q"
  shows "ends (bnd (if a then ramfs_alloc_inode ty dv t else if b then ramfs_alloc_inode ty' dv t
    else Inl ft) (\<lambda>(r, s). K r s)) Q"
  using alloc_inode_ends [OF assms] by (auto simp: ends_Inl)

lemma ramfs_mknod_moves: "ends (ramfs_mknod D d n l m v s) (\<lambda>(r, s'). moves none s s')"
  unfolding ramfs_mknod_def
  by (insert moves_refl [of s])
    (erule ram_takes mknod_alloc_ends | rule ram_passes ram_pure | (erule ends_moved, force simp: none_def))+

lemma ramfs_link_moves: "ends (ramfs_link D c d n l s) (\<lambda>(r, s'). moves none s s')"
  unfolding ramfs_link_def
  by (insert moves_refl [of s])
    (erule ram_takes | rule ram_passes ram_pure | (erule ends_moved ends_rf, force simp: none_def))+

lemma ramfs_read_state: "ramfs_read c off n s = Inr (r, b, s') \<Longrightarrow> s' = s"
  by (auto simp: ramfs_read_def run_eq Let_def split: if_splits)

lemma ramfs_stat_state: "ramfs_stat c s = Inr (r, b, s') \<Longrightarrow> s' = s"
  by (auto simp: ramfs_stat_def run_eq)

lemma ramfs_readdir_state: "ramfs_readdir c off s = Inr (r, b, s') \<Longrightarrow> s' = s"
  by (auto simp: ramfs_readdir_def run_eq Let_def split: option.splits)

lemma ramfs_write_moves: "ramfs_write c off b n s = Inr (r, s') \<Longrightarrow> moves none s s'"
  by (auto simp: ramfs_write_def run_eq Let_def simp del: rf_upd_simps vn_upd_simps
      intro!: moves_same same_counts_trans [OF same_counts_trans [OF same_counts_rf] same_counts_rf]
        same_counts_upd)

lemmas ramfs_tables = ramfs_env_def ramfs_vops_def ramfs_dir_vops_def ramfs_file_vops_def
  bytedev_spec_vops_def blockdev_spec_vops_def no_vops_def

lemma ramfs_op_split:
  "op_lookup (ramfs_vops D p) = Some f \<longleftrightarrow> p = Dir_vops \<and> f = ramfs_lookup D"
  "op_create (ramfs_vops D p) = Some f \<longleftrightarrow> p = Dir_vops \<and> f = ramfs_create D"
  "op_mknod (ramfs_vops D p) = Some g \<longleftrightarrow> p = Dir_vops \<and> g = ramfs_mknod D"
  "op_link (ramfs_vops D p) = Some h \<longleftrightarrow> p = Dir_vops \<and> h = ramfs_link D"
  "op_unlink (ramfs_vops D p) = Some k \<longleftrightarrow> p = Dir_vops \<and> k = ramfs_unlink D"
  "op_mkdir (ramfs_vops D p) = Some k \<longleftrightarrow> p = Dir_vops \<and> k = ramfs_mkdir D"
  "op_rmdir (ramfs_vops D p) = Some k \<longleftrightarrow> p = Dir_vops \<and> k = ramfs_rmdir D"
  "op_readdir (ramfs_vops D p) = Some dr \<longleftrightarrow> p = Dir_vops \<and> dr = ramfs_readdir"
  "op_release (ramfs_vops D p) = None" "op_acquire (ramfs_vops D p) = None"
  by (auto simp: ramfs_tables split: vops.splits)

lemma ramfs_stat_op:
  "op_stat (ramfs_vops D p) = Some st \<Longrightarrow> st c s = Inr (r, b, s') \<Longrightarrow> s' = s"
  by (cases p) (auto simp: ramfs_tables special_file_stat_def dest: ramfs_stat_state)

lemma ramfs_read_op:
  "op_read (ramfs_vops D p) = Some rd \<Longrightarrow> rd c off n s = Inr (r, b, s') \<Longrightarrow> s' = s"
  by (cases p) (auto simp: ramfs_tables dest: ramfs_read_state special_read_state)

lemma ramfs_write_op:
  "op_write (ramfs_vops D p) = Some wr \<Longrightarrow> wr c off b n s = Inr (r, s') \<Longrightarrow> moves none s s'"
  by (cases p) (auto simp: ramfs_tables dest: ramfs_write_moves special_write_state)

lemma ramfs_env_vops [simp]: "vops_of (ramfs_env D) = ramfs_vops D"
  by (simp add: ramfs_env_def)

lemmas ramfs_moves = ends_InrD [OF ramfs_create_found] ends_InrD [OF ramfs_mknod_moves]
  ends_InrD [OF ramfs_link_moves] ends_InrD [OF ramfs_unlink_moves] ends_InrD [OF ramfs_mkdir_moves]
  ends_InrD [OF ramfs_rmdir_moves]

interpretation ramvfs: vfs_env "ramfs_env D" for D
proof unfold_locales
qed (use ramfs_moves in \<open>fastforce simp: ramfs_op_split intro: ramfs_lookup_found ramfs_write_op
      dest!: ramfs_stat_op ramfs_read_op ramfs_readdir_state\<close>)+

end
