(* ===== verification/Kreach.thy ===== *)
theory Kreach
  imports Ramrefs
begin

text \<open>
  The kernel as a state machine: it boots with an empty ramfs, mounts it, starts the first process
  in the root directory (\<open>main/kmain.c\<close>; the idle process stays in the root too and holds the
  other reference), and then runs system calls one after the other.  A call
  that stops the kernel has no successor state.
\<close>

definition kstart :: "devs \<Rightarrow> kfault + rstate" where
  "kstart D =
     bnd (vfs_init D boot_kernel) (\<lambda>s.
     bnd (vref (vfs_root_vn s) s) (\<lambda>s.
     bnd (vref (vfs_root_vn s) s) (\<lambda>s. Inr (s\<lparr>p_cwd := vfs_root_vn s\<rparr>))))"

inductive kreach :: "devs \<Rightarrow> rstate \<Rightarrow> bool" for D where
  kreach_start: "kstart D = Inr s \<Longrightarrow> kreach D s"
| kreach_sys: "kreach D s \<Longrightarrow> sys (ramfs_env D) c s = Inr (r, s') \<Longrightarrow> kreach D s'"

subsection \<open>The booted kernel\<close>

definition root_dirents :: "ramfs_dirent list" where
  "root_dirents = (replicate RAMFS_MAX_DIRENT free_dirent)
     [0 := \<lparr>rd_ino = 0, rd_name = ''.''\<rparr>, 1 := \<lparr>rd_ino = 0, rd_name = ''..''\<rparr>]"

definition root_inode :: ramfs_inode where
  "root_inode = \<lparr>rf_size = 64, rf_ino = 0, rf_mem = Dirents root_dirents, rf_mode = RAMFS_TYPE_DIR,
     rf_linkcount = 2\<rparr>"

definition root_vnode :: vnode where
  "root_vnode = zero_vnode\<lparr>vn_ops := Some Dir_vops, vn_mode := S_IFDIR, vn_len := 64, vn_refcount := 3\<rparr>"

definition booted :: rstate where
  "booted = boot_kernel\<lparr>vnodes := [0 \<mapsto> root_vnode], vnode_inuse_list := [0], next_vnode := 1,
     fs_data := \<lparr>rfs_inodes = [0 \<mapsto> 0], rf_heap = [0 \<mapsto> root_inode], next_inode = 1, fs_root = Some 0\<rparr>\<rparr>"

lemma find_free_inode_first: "rfs_inodes r i = None \<Longrightarrow> 0 < n \<Longrightarrow> find_free_inode n i r = Some i"
  by (cases n) auto

lemma S_IFDIR_type [simp]:
  "S_ISDIR S_IFDIR" "\<not> S_ISCHR S_IFDIR" "\<not> S_ISBLK S_IFDIR" "\<not> S_ISREG S_IFDIR"
  by (simp_all add: mode_defs)

lemma S_IFREG_type [simp]:
  "S_ISREG S_IFREG" "\<not> S_ISCHR S_IFREG" "\<not> S_ISBLK S_IFREG" "\<not> S_ISDIR S_IFREG"
  by (simp_all add: mode_defs)

lemma kstart_booted: "kstart D = Inr booted"
proof -
  let ?i1 = "\<lparr>rf_size = 0, rf_ino = 0, rf_mem = Dirents (replicate RAMFS_MAX_DIRENT free_dirent),
     rf_mode = RAMFS_TYPE_DIR, rf_linkcount = 1\<rparr>"
  let ?s1 = "boot_kernel\<lparr>fs_data := \<lparr>rfs_inodes = [0 \<mapsto> 0], rf_heap = [0 \<mapsto> ?i1], next_inode = 1,
     fs_root = None\<rparr>\<rparr>"
  have a: "ramfs_alloc_inode RAMFS_TYPE_DIR 0 (boot_kernel\<lparr>fs_data := no_ramfs\<rparr>) = Inr (0, ?s1)"
    by (simp add: ramfs_alloc_inode_def find_free_inode_first no_ramfs_def RAMFS_MAX_FILES_def
        ramfs_consts boot_kernel_def)
  let ?s2 = "boot_kernel\<lparr>fs_data := \<lparr>rfs_inodes = [0 \<mapsto> 0], rf_heap = [0 \<mapsto> root_inode\<lparr>rf_linkcount := 1\<rparr>],
     next_inode = 1, fs_root = None\<rparr>\<rparr>"
  have up: "rf_upd 0 (\<lambda>n. n\<lparr>rf_mem := Dirents root_dirents, rf_size := 2 * int RD_SIZE\<rparr>) ?s1 = ?s2"
    by (simp add: rf_upd_def root_inode_def RD_SIZE_def)
  have g: "vget (ramfs_vn D) 0 ?s2 = Inr (0, booted\<lparr>vnodes := [0 \<mapsto> root_vnode\<lparr>vn_refcount := 1\<rparr>],
      fs_data := (fs_data booted)\<lparr>fs_root := None\<rparr>\<rparr>)"
    by (simp add: vget_def boot_kernel_def ramfs_vn_def ramfs_read_vnode_def RAMFS_MAX_FILES_def
        root_inode_def ramfs_consts zero_vnode_def booted_def root_vnode_def vn_upd_def rf_upd_def
        vn_get_def rf_get_def)
  have m: "ramfs_mount D boot_kernel = Inr (0, booted\<lparr>vnodes := [0 \<mapsto> root_vnode\<lparr>vn_refcount := 1\<rparr>]\<rparr>)"
    unfolding ramfs_mount_def a
    using up g by (simp add: rf_get_def as_dirents_def root_dirents_def booted_def)
  show ?thesis
    unfolding kstart_def vfs_init_def m
    by (simp add: booted_def vref_def vn_get_def vn_upd_def root_vnode_def zero_vnode_def boot_kernel_def)
qed

lemma booted_ok: "kernel_ok booted"
  by (auto simp: kernel_ok_def kinv_def vn_fresh_def booted_def boot_kernel_def vrefs_def files_on_def
      fds_of_def is_at_def zero_def root_vnode_def zero_vnode_def files_ok_def)

lemma kreach_ok: "kreach D s \<Longrightarrow> kernel_ok s"
  by (induction rule: kreach.induct) (auto simp: kstart_booted booted_ok intro: ramvfs.sys_kinv)

lemma kreach_booted: "kreach D booted"
  by (rule kreach_start) (rule kstart_booted)

end
