(* ===== verification/Ramdir.thy ===== *)
theory Ramdir
  imports Kreach
begin

text \<open>
  What the directories and files of the ramfs hold.  A directory implements a map from names to
  inode numbers, \<open>dmap\<close>; entering a name updates the map, clearing an entry deletes from it.  A
  write followed by a read of the same range returns the bytes written.
\<close>

subsection \<open>A directory as a map\<close>

definition names_ok :: "ramfs_dirent list \<Rightarrow> bool" where
  "names_ok ds \<longleftrightarrow> list_all (\<lambda>d. NUL \<notin> set (rd_name d)) ds
     \<and> distinct (filter (\<lambda>n. n \<noteq> []) (map rd_name ds))"

definition dmap :: "ramfs_dirent list \<Rightarrow> string \<Rightarrow> nat option" where
  "dmap ds n = (if okname n then map_option (\<lambda>i. rd_ino (ds ! i)) (find_entry ds n (length n)) else None)"

definition dir_entries :: "nat \<Rightarrow> rstate \<Rightarrow> ramfs_dirent list option" where
  "dir_entries dir s = (case vnode_inode dir s of
      Inl _ \<Rightarrow> None
    | Inr (_, i) \<Rightarrow> (case rf_mem i of Dirents ds \<Rightarrow> Some ds | _ \<Rightarrow> None))"

lemma find_entry_None:
  assumes "list_all (\<lambda>d. NUL \<notin> set (rd_name d)) ds" and "NUL \<notin> set n"
  shows "find_entry ds n (length n) = None \<longleftrightarrow> n \<notin> rd_name ` set ds"
  using assms by (induction ds) (auto simp: name_match_iff)

lemma find_entry_Some:
  assumes "list_all (\<lambda>d. NUL \<notin> set (rd_name d)) ds" and "NUL \<notin> set n"
    and "find_entry ds n (length n) = Some i"
  shows "i < length ds \<and> rd_name (ds ! i) = n"
  using assms by (induction ds arbitrary: i) (auto simp: name_match_iff split: if_splits)

lemma names_ok_unique:
  assumes "names_ok ds" and "i < length ds" "j < length ds"
    and "rd_name (ds ! i) = rd_name (ds ! j)" "rd_name (ds ! i) \<noteq> []"
  shows "i = j"
  using assms
proof (induction ds arbitrary: i j)
  case (Cons d ds)
  have ok: "names_ok ds" using Cons.prems(1) by (auto simp: names_ok_def split: if_splits)
  have no: "rd_name d \<noteq> [] \<Longrightarrow> k < length ds \<Longrightarrow> rd_name (ds ! k) \<noteq> rd_name d" for k
  proof -
    assume d: "rd_name d \<noteq> []" and k: "k < length ds"
    have "rd_name (ds ! k) \<in> rd_name ` set ds" using k by simp
    moreover have "rd_name d \<notin> rd_name ` set ds" using Cons.prems(1) d by (auto simp: names_ok_def)
    ultimately show ?thesis by metis
  qed
  show ?case
    using Cons.prems no Cons.IH [OF ok] by (cases i; cases j) auto
qed simp

lemma find_entry_eq:
  assumes ok: "names_ok ds" and n: "okname n"
  shows "find_entry ds n (length n) = Some i \<longleftrightarrow> i < length ds \<and> rd_name (ds ! i) = n"
proof
  assume "find_entry ds n (length n) = Some i"
  with find_entry_Some ok n show "i < length ds \<and> rd_name (ds ! i) = n"
    by (auto simp: names_ok_def okname_def)
next
  assume i: "i < length ds \<and> rd_name (ds ! i) = n"
  then have "n \<in> rd_name ` set ds" by force
  then obtain j where j: "find_entry ds n (length n) = Some j"
    using find_entry_None [of ds n] ok n by (auto simp: names_ok_def okname_def)
  with find_entry_Some [of ds n j] ok n have "j < length ds" "rd_name (ds ! j) = n"
    by (auto simp: names_ok_def okname_def)
  with i names_ok_unique [OF ok, of i j] n j show "find_entry ds n (length n) = Some i"
    by (auto simp: okname_def)
qed

lemma dmap_eq:
  assumes "names_ok ds" and "okname n"
  shows "dmap ds n = Some ino \<longleftrightarrow> (\<exists>i < length ds. rd_name (ds ! i) = n \<and> rd_ino (ds ! i) = ino)"
  using assms find_entry_eq [OF assms] by (auto simp: dmap_def)

lemma option_eqI: "(\<And>x. a = Some x \<longleftrightarrow> b = Some x) \<Longrightarrow> a = b"
  by (cases a; cases b) auto

lemma find_space_free: "find_space ds = Some i \<Longrightarrow> i < length ds \<and> rd_name (ds ! i) = []"
  by (induction ds arbitrary: i) (auto split: if_splits)

lemma filter_update_names:
  assumes "i < length ds" and "rd_name (ds ! i) = []"
  shows "\<exists>xs ys. filter (\<lambda>n. n \<noteq> []) (map rd_name ds) = xs @ ys \<and>
    filter (\<lambda>n. n \<noteq> []) (map rd_name (ds[i := e])) = xs @ (if rd_name e = [] then [] else [rd_name e]) @ ys"
proof -
  have ds: "ds = take i ds @ ds ! i # drop (Suc i) ds" by (rule id_take_nth_drop [OF assms(1)])
  have up: "ds[i := e] = take i ds @ e # drop (Suc i) ds"
    by (rule upd_conv_take_nth_drop [OF assms(1)])
  show ?thesis
    by (rule exI [of _ "filter (\<lambda>n. n \<noteq> []) (map rd_name (take i ds))"],
        rule exI [of _ "filter (\<lambda>n. n \<noteq> []) (map rd_name (drop (Suc i) ds))"])
      (subst ds, subst up, simp add: assms(2))
qed

text \<open>Entering a name that is not there, at a free place.\<close>

lemma names_ok_enter:
  assumes ok: "names_ok ds" and n: "okname n" and new: "n \<notin> rd_name ` set ds"
    and i: "i < length ds" "rd_name (ds ! i) = []"
  shows "names_ok (ds[i := \<lparr>rd_ino = ino, rd_name = n\<rparr>])"
proof -
  let ?e = "\<lparr>rd_ino = ino, rd_name = n\<rparr>"
  obtain xs ys where eq: "filter (\<lambda>n. n \<noteq> []) (map rd_name ds) = xs @ ys"
    and eq': "filter (\<lambda>n. n \<noteq> []) (map rd_name (ds[i := ?e])) = xs @ (if rd_name ?e = [] then [] else [rd_name ?e]) @ ys"
    using filter_update_names [OF i, of ?e] by blast
  have "set (xs @ ys) \<subseteq> rd_name ` set ds" unfolding eq [symmetric] by auto
  with new have "n \<notin> set xs" "n \<notin> set ys" by auto
  moreover have "distinct (xs @ ys)" using ok by (simp add: names_ok_def eq)
  ultimately have "distinct (filter (\<lambda>n. n \<noteq> []) (map rd_name (ds[i := ?e])))"
    unfolding eq' by auto
  moreover have "list_all (\<lambda>d. NUL \<notin> set (rd_name d)) (ds[i := ?e])"
    using ok n i by (auto simp: names_ok_def okname_def list_all_length nth_list_update)
  ultimately show ?thesis by (simp add: names_ok_def)
qed

lemma dmap_enter:
  assumes ok: "names_ok ds" and n: "okname n" and new: "n \<notin> rd_name ` set ds"
    and i: "i < length ds" "rd_name (ds ! i) = []"
  shows "dmap (ds[i := \<lparr>rd_ino = ino, rd_name = n\<rparr>]) = (dmap ds)(n \<mapsto> ino)"
proof
  fix m
  let ?ds = "ds[i := \<lparr>rd_ino = ino, rd_name = n\<rparr>]"
  show "dmap ?ds m = ((dmap ds)(n \<mapsto> ino)) m"
  proof (cases "okname m")
    case False
    with n show ?thesis by (auto simp: dmap_def)
  next
    case True
    have ne: "k < length ds \<Longrightarrow> rd_name (ds ! k) \<noteq> n" for k using new nth_mem [of k ds] by blast
    have at: "?ds ! k = (if k = i then \<lparr>rd_ino = ino, rd_name = n\<rparr> else ds ! k)" if "k < length ds" for k
      using that by (simp add: nth_list_update)
    have "dmap ?ds m = Some x \<longleftrightarrow> ((dmap ds)(n \<mapsto> ino)) m = Some x" for x
    proof (cases "m = n")
      case True
      then show ?thesis
        using dmap_eq [OF names_ok_enter [OF assms, of ino] n, of x] i ne at
        by (auto simp: nth_list_update)
    next
      case False
      have "(\<exists>k < length ds. rd_name (?ds ! k) = m \<and> rd_ino (?ds ! k) = x) \<longleftrightarrow>
            (\<exists>k < length ds. rd_name (ds ! k) = m \<and> rd_ino (ds ! k) = x)"
        using False True i by (intro iff_exI) (auto simp: at okname_def)
      then show ?thesis
        using False dmap_eq [OF names_ok_enter [OF assms] True] dmap_eq [OF ok True] by simp
    qed
    then show ?thesis by (rule option_eqI)
  qed
qed

text \<open>Clearing the entry of a name.\<close>

lemma names_ok_clear:
  assumes ok: "names_ok ds" and i: "i < length ds"
  shows "names_ok (ds[i := (ds ! i)\<lparr>rd_name := []\<rparr>])"
proof -
  let ?e = "(ds ! i)\<lparr>rd_name := []\<rparr>" let ?ds = "ds[i := ?e]"
  have "ds = ?ds[i := ds ! i]" by simp
  moreover obtain xs ys where "filter (\<lambda>n. n \<noteq> []) (map rd_name ?ds) = xs @ ys"
    and "filter (\<lambda>n. n \<noteq> []) (map rd_name (?ds[i := ds ! i])) =
      xs @ (if rd_name (ds ! i) = [] then [] else [rd_name (ds ! i)]) @ ys"
    using filter_update_names [of i ?ds "ds ! i"] i by auto
  ultimately have "distinct (filter (\<lambda>n. n \<noteq> []) (map rd_name ?ds))"
    using ok by (auto simp: names_ok_def)
  moreover have "list_all (\<lambda>d. NUL \<notin> set (rd_name d)) ?ds"
    using ok i by (auto simp: names_ok_def list_all_length nth_list_update)
  ultimately show ?thesis by (simp add: names_ok_def)
qed

lemma dmap_clear:
  assumes ok: "names_ok ds" and n: "okname n" and i: "find_entry ds n (length n) = Some i"
  shows "dmap (ds[i := (ds ! i)\<lparr>rd_name := []\<rparr>]) = (dmap ds)(n := None)"
proof
  fix m
  let ?ds = "ds[i := (ds ! i)\<lparr>rd_name := []\<rparr>]"
  from i have l: "i < length ds" and nm: "rd_name (ds ! i) = n" unfolding find_entry_eq [OF ok n] by auto
  show "dmap ?ds m = ((dmap ds)(n := None)) m"
  proof (cases "okname m")
    case False
    then show ?thesis by (auto simp: dmap_def)
  next
    case True
    have at: "?ds ! k = (if k = i then (ds ! i)\<lparr>rd_name := []\<rparr> else ds ! k)" if "k < length ds" for k
      using that by (simp add: nth_list_update)
    have "n \<noteq> []" using n by (simp add: okname_def)
    have "dmap ?ds m = Some x \<longleftrightarrow> ((dmap ds)(n := None)) m = Some x" for x
    proof (cases "m = n")
      case True
      have "rd_name (?ds ! k) \<noteq> n" if "k < length ds" for k
      proof (cases "k = i")
        case False
        with names_ok_unique [OF ok l that] nm \<open>n \<noteq> []\<close> at [OF that] show ?thesis by metis
      qed (use \<open>n \<noteq> []\<close> at [OF that] in simp)
      then show ?thesis using True dmap_eq [OF names_ok_clear [OF ok l] n] by auto
    next
      case False
      have "(\<exists>k < length ds. rd_name (?ds ! k) = m \<and> rd_ino (?ds ! k) = x) \<longleftrightarrow>
            (\<exists>k < length ds. rd_name (ds ! k) = m \<and> rd_ino (ds ! k) = x)"
        using False True nm by (intro iff_exI) (auto simp: at okname_def)
      then show ?thesis
        using False dmap_eq [OF names_ok_clear [OF ok l] True] dmap_eq [OF ok True] by simp
    qed
    then show ?thesis by (rule option_eqI)
  qed
qed

subsection \<open>Operations on directories\<close>

text \<open>The heap of inodes has nothing where the next inode will be.\<close>

definition rf_fresh :: "rstate \<Rightarrow> bool" where
  "rf_fresh s \<longleftrightarrow> (\<forall>a \<ge> next_inode (fs_data s). rf_heap (fs_data s) a = None)"

lemma vnode_inode_eq [simp]:
  "vnode_inode d s = Inr (a, i) \<longleftrightarrow> (\<exists>v. vnodes s d = Some v \<and> vn_i v = a \<and> rf_heap (fs_data s) a = Some i)"
  by (auto simp: vnode_inode_def bnd_eq_Inr)

lemma as_dirents_eq [simp]: "as_dirents i = Inr ds \<longleftrightarrow> rf_mem i = Dirents ds"
  by (auto simp: as_dirents_def split: ramfs_mem.splits)

lemma as_page_eq [simp]: "as_page i = Inr p \<longleftrightarrow> rf_mem i = Page p"
  by (auto simp: as_page_def split: ramfs_mem.splits)

lemma dir_entries_eq:
  "dir_entries d s = Some ds \<longleftrightarrow>
   (\<exists>v i. vnodes s d = Some v \<and> rf_heap (fs_data s) (vn_i v) = Some i \<and> rf_mem i = Dirents ds)"
proof -
  have "vnode_inode d s = Inl e \<Longrightarrow> vnodes s d = Some v \<Longrightarrow> rf_heap (fs_data s) (vn_i v) = None" for e v
    by (auto simp: vnode_inode_def vn_get_def rf_get_def deref_def split: option.splits)
  then show ?thesis
    by (fastforce simp: dir_entries_def split: sum.splits ramfs_mem.splits)
qed

text \<open>What \<open>KASSERT\<close> and the search for space leave: the name is new and the place is free.\<close>

lemma dir_space_new:
  assumes "dir_space D d n (length n) s = Inr (Some i, s')" and "dir_entries d s = Some ds"
    and "names_ok ds" and "okname n"
  shows "s' = s \<and> n \<notin> rd_name ` set ds \<and> i < length ds \<and> rd_name (ds ! i) = []"
proof -
  from assms(1) have "s' = s" by (rule dir_space_state)
  moreover from assms(1,2) have "find_entry ds n (length n) = None" and "find_space ds = Some i"
    by (auto simp: dir_space_def ramfs_lookup_def run_eq dir_entries_eq split: option.splits)
  ultimately show ?thesis
    using find_space_free [of ds i] find_entry_None [of ds n] assms(3,4)
    by (auto simp: names_ok_def okname_def)
qed

lemma set_entry_enters:
  assumes "set_entry d i ino n (length n) s = Inr s'" and "dir_entries d s = Some ds" and "okname n"
  shows "dir_entries d s' = Some (ds[i := \<lparr>rd_ino = ino, rd_name = n\<rparr>])
     \<and> vnodes s' = vnodes s \<and> rfs_inodes (fs_data s') = rfs_inodes (fs_data s)
     \<and> next_inode (fs_data s') = next_inode (fs_data s)
     \<and> (\<forall>a. (\<forall>v. vnodes s d = Some v \<longrightarrow> vn_i v \<noteq> a) \<longrightarrow> rf_heap (fs_data s') a = rf_heap (fs_data s) a)"
proof -
  have "length n \<le> NAME_LEN - 1" using assms(3) by (simp add: okname_def NAME_LEN_def)
  then have "take (min (length n) (NAME_LEN - 1)) n = n" by simp
  with assms(1,2) show ?thesis
    by (auto simp: set_entry_def run_eq Let_def dir_entries_eq)
qed

lemma find_free_inode_Some: "find_free_inode n i r = Some j \<Longrightarrow> rfs_inodes r j = None \<and> j < i + n"
  by (induction n arbitrary: i) (fastforce split: if_splits)+

lemma alloc_inode_new:
  assumes "ramfs_alloc_inode ty dv s = Inr (r, s')" and "\<not> r < 0"
  obtains j where "r = int j" "rfs_inodes (fs_data s) j = None" "j < RAMFS_MAX_FILES"
    "vnodes s' = vnodes s" "rfs_inodes (fs_data s') = (rfs_inodes (fs_data s))(j \<mapsto> next_inode (fs_data s))"
    "rf_heap (fs_data s') = (rf_heap (fs_data s))(next_inode (fs_data s) \<mapsto>
       \<lparr>rf_size = 0, rf_ino = j, rf_mem = (if ty = RAMFS_TYPE_CHR \<or> ty = RAMFS_TYPE_BLK then Devid dv
          else if ty = RAMFS_TYPE_DIR then Dirents (replicate RAMFS_MAX_DIRENT free_dirent)
          else Page (replicate PAGE_SIZE NUL)), rf_mode = ty, rf_linkcount = 1\<rparr>)"
  using assms find_free_inode_Some [of RAMFS_MAX_FILES 0]
  by (auto simp: ramfs_alloc_inode_def check_eq_Inr Let_def errno_defs split: option.splits)

lemma dir_entries_alloc:
  assumes "ramfs_alloc_inode ty dv s = Inr (r, s')" and "\<not> r < 0" and "rf_fresh s"
    and "dir_entries d s = Some ds"
  shows "dir_entries d s' = Some ds"
proof -
  from assms(1,2) obtain i where "vnodes s' = vnodes s"
    "rf_heap (fs_data s') = (rf_heap (fs_data s))(next_inode (fs_data s) \<mapsto> i)"
    by (rule alloc_inode_new) blast
  with assms(3,4) show ?thesis by (auto simp: dir_entries_eq rf_fresh_def)
qed

text \<open>A device is entered under its name; nothing else in the directory changes.\<close>

lemma mknod_enters:
  assumes run: "ramfs_mknod D d n (length n) m dv s = Inr (0, s')"
    and ds: "dir_entries d s = Some ds" "names_ok ds" and n: "okname n" and fr: "rf_fresh s"
  shows "\<exists>ds' ino a i. dir_entries d s' = Some ds' \<and> names_ok ds' \<and> dmap ds n = None \<and>
    dmap ds' = (dmap ds)(n \<mapsto> ino) \<and> rfs_inodes (fs_data s) ino = None \<and>
    rfs_inodes (fs_data s') ino = Some a \<and> rf_heap (fs_data s') a = Some i \<and> rf_mem i = Devid dv"
proof -
  from run obtain k s1 ty r s2 where sp: "dir_space D d n (length n) s = Inr (Some k, s1)"
    and al: "ramfs_alloc_inode ty dv s1 = Inr (r, s2)" "\<not> r < 0" "ty \<in> {RAMFS_TYPE_CHR, RAMFS_TYPE_BLK}"
    and se: "set_entry d k (nat r) n (length n) s2 = Inr s'"
    by (auto simp: ramfs_mknod_def bnd_eq_Inr errno_defs split: option.splits if_splits)
  from dir_space_new [OF sp ds n] have s1: "s1 = s" and new: "n \<notin> rd_name ` set ds"
    and k: "k < length ds" "rd_name (ds ! k) = []" by auto
  have ds2: "dir_entries d s2 = Some ds" by (rule dir_entries_alloc [OF al(1,2)]) (simp_all add: s1 fr ds)
  from set_entry_enters [OF se ds2 n]
  have e: "dir_entries d s' = Some (ds[k := \<lparr>rd_ino = nat r, rd_name = n\<rparr>])"
    "rfs_inodes (fs_data s') = rfs_inodes (fs_data s2)"
    "\<And>a. (\<forall>v. vnodes s2 d = Some v \<longrightarrow> vn_i v \<noteq> a) \<Longrightarrow> rf_heap (fs_data s') a = rf_heap (fs_data s2) a" by auto
  from al(1,2) obtain j i where j: "r = int j" "rfs_inodes (fs_data s) j = None" "vnodes s2 = vnodes s"
    "rfs_inodes (fs_data s2) j = Some (next_inode (fs_data s))"
    "rf_heap (fs_data s2) (next_inode (fs_data s)) = Some i" "rf_mem i = Devid dv"
    using al(3) s1 by (elim alloc_inode_new) auto
  have "vn_i v \<noteq> next_inode (fs_data s)" if "vnodes s2 d = Some v" for v
    using that fr ds(1) j(3) by (auto simp: dir_entries_eq rf_fresh_def)
  with e(3) j(5) have "rf_heap (fs_data s') (next_inode (fs_data s)) = Some i" by simp
  moreover have "dmap ds n = None" using new find_entry_None [of ds n] ds n
    by (auto simp: dmap_def names_ok_def okname_def)
  ultimately show ?thesis
    using e(1,2) j names_ok_enter [OF ds(2) n new k] dmap_enter [OF ds(2) n new k] by auto
qed

text \<open>A new directory holds the two entries of every directory.\<close>

definition dot_entries :: "nat \<Rightarrow> nat \<Rightarrow> ramfs_dirent list" where
  "dot_entries ino up = (replicate RAMFS_MAX_DIRENT free_dirent)
     [0 := \<lparr>rd_ino = ino, rd_name = ''.''\<rparr>, 1 := \<lparr>rd_ino = up, rd_name = ''..''\<rparr>]"

lemma dot_entries_map:
  "names_ok (dot_entries ino up) \<and> dmap (dot_entries ino up) = [''.'' \<mapsto> ino, ''..'' \<mapsto> up]"
proof -
  let ?d0 = "replicate RAMFS_MAX_DIRENT free_dirent"
  let ?d1 = "?d0[0 := \<lparr>rd_ino = ino, rd_name = ''.''\<rparr>]"
  have free: "?d0 ! k = free_dirent" if "k < length ?d0" for k using that by simp
  have l: "2 < RAMFS_MAX_DIRENT" by (simp add: RAMFS_MAX_DIRENT_def)
  have ok: "okname ''.''" "okname ''..''" by (simp_all add: okname_def NAME_LEN_def NUL_def)
  have n0: "names_ok ?d0" by (simp add: names_ok_def free_dirent_def list_all_length)
  have new: "''.'' \<notin> rd_name ` set ?d0" by (auto simp: free_dirent_def)
  have "dmap ?d0 m = Some x \<longleftrightarrow> Map.empty m = Some x" for m x
    using dmap_eq [OF n0, of m x] by (cases "okname m") (auto simp: dmap_def free_dirent_def okname_def)
  then have m0: "dmap ?d0 = Map.empty" by (intro ext option_eqI) simp
  have i0: "0 < length ?d0" "rd_name (?d0 ! 0) = []" using l by (simp_all add: free_dirent_def)
  note one = names_ok_enter [OF n0 ok(1) new i0] dmap_enter [OF n0 ok(1) new i0]
  have new1: "''..'' \<notin> rd_name ` set ?d1"
    by (auto simp: free_dirent_def dest!: set_update_subset_insert [THEN subsetD])
  have i1: "1 < length ?d1" "rd_name (?d1 ! 1) = []" using l by (simp_all add: free_dirent_def)
  show ?thesis
    using names_ok_enter [OF one(1) ok(2) new1 i1] dmap_enter [OF one(1) ok(2) new1 i1] one(2) m0
    by (simp add: dot_entries_def)
qed

lemma mkdir_enters:
  assumes run: "ramfs_mkdir D d n (length n) s = Inr (0, s')"
    and ds: "dir_entries d s = Some ds" "names_ok ds" and n: "okname n" and fr: "rf_fresh s"
  shows "\<exists>ds' ino a i v es. dir_entries d s' = Some ds' \<and> names_ok ds' \<and> dmap ds n = None \<and>
    dmap ds' = (dmap ds)(n \<mapsto> ino) \<and> rfs_inodes (fs_data s) ino = None \<and>
    rfs_inodes (fs_data s') ino = Some a \<and> rf_heap (fs_data s') a = Some i \<and> rf_mem i = Dirents es \<and>
    vnodes s d = Some v \<and> names_ok es \<and> dmap es = [''.'' \<mapsto> ino, ''..'' \<mapsto> vn_vno v]"
proof -
  from run obtain k s1 r s2 s3 v a i es0 where sp: "dir_space D d n (length n) s = Inr (Some k, s1)"
    and al: "ramfs_alloc_inode RAMFS_TYPE_DIR 0 s1 = Inr (r, s2)" "\<not> r < 0"
    and se: "set_entry d k (nat r) n (length n) s2 = Inr s3"
    and a: "vnodes s3 d = Some v" "rfs_inodes (fs_data s3) (nat r) = Some a"
      "rf_heap (fs_data s3) a = Some i" "rf_mem i = Dirents es0"
    and s': "s' = rf_upd a (\<lambda>m. m\<lparr>rf_mem := Dirents (es0[0 := \<lparr>rd_ino = nat r, rd_name = ''.''\<rparr>,
                       1 := \<lparr>rd_ino = vn_vno v, rd_name = ''..''\<rparr>]), rf_size := 2 * int RD_SIZE\<rparr>) s3"
    by (auto simp: ramfs_mkdir_def run_eq Let_def errno_defs split: option.splits if_splits
        simp del: split_paired_Ex rf_upd_simps)
  from dir_space_new [OF sp ds n] have s1: "s1 = s" and new: "n \<notin> rd_name ` set ds"
    and k: "k < length ds" "rd_name (ds ! k) = []" by auto
  have ds2: "dir_entries d s2 = Some ds" by (rule dir_entries_alloc [OF al]) (simp_all add: s1 fr ds)
  from set_entry_enters [OF se ds2 n]
  have e: "dir_entries d s3 = Some (ds[k := \<lparr>rd_ino = nat r, rd_name = n\<rparr>])" "vnodes s3 = vnodes s2"
    "rfs_inodes (fs_data s3) = rfs_inodes (fs_data s2)"
    "\<And>a. (\<forall>v. vnodes s2 d = Some v \<longrightarrow> vn_i v \<noteq> a) \<Longrightarrow> rf_heap (fs_data s3) a = rf_heap (fs_data s2) a" by auto
  from al obtain j i0 where j: "r = int j" "rfs_inodes (fs_data s) j = None" "vnodes s2 = vnodes s"
    "rfs_inodes (fs_data s2) j = Some (next_inode (fs_data s))"
    "rf_heap (fs_data s2) (next_inode (fs_data s)) = Some i0"
    "rf_mem i0 = Dirents (replicate RAMFS_MAX_DIRENT free_dirent)"
    using s1 by (elim alloc_inode_new) (auto simp: ramfs_consts)
  have far: "vn_i w \<noteq> next_inode (fs_data s)" if "vnodes s2 d = Some w" for w
    using that fr ds(1) j(3) by (auto simp: dir_entries_eq rf_fresh_def)
  have aeq: "a = next_inode (fs_data s)" using a(2) e(3) j(1,4) by simp
  then have "i = i0" using e(4) far j(5) a(3) by auto
  with a(4) j(6) have es0: "es0 = replicate RAMFS_MAX_DIRENT free_dirent" by simp
  have "dir_entries d s' = Some (ds[k := \<lparr>rd_ino = nat r, rd_name = n\<rparr>])"
    using e(1,2) far aeq by (auto simp: dir_entries_eq s')
  moreover have "rf_heap (fs_data s') a = Some (i\<lparr>rf_mem := Dirents (dot_entries (nat r) (vn_vno v)),
      rf_size := 2 * int RD_SIZE\<rparr>)"
    using a(3) by (simp add: s' es0 dot_entries_def)
  moreover have "dmap ds n = None" using new find_entry_None [of ds n] ds n
    by (auto simp: dmap_def names_ok_def okname_def)
  moreover have "rfs_inodes (fs_data s') (nat r) = Some a" "vnodes s d = Some v"
    using a e(2) j(3) by (simp_all add: s')
  ultimately show ?thesis
    using names_ok_enter [OF ds(2) n new k] dmap_enter [OF ds(2) n new k] j(1,2)
      dot_entries_map [of "nat r" "vn_vno v"]
    by (intro exI [of _ "ds[k := \<lparr>rd_ino = nat r, rd_name = n\<rparr>]"] exI [of _ "nat r"] exI [of _ a]
        exI [of _ "i\<lparr>rf_mem := Dirents (dot_entries (nat r) (vn_vno v)), rf_size := 2 * int RD_SIZE\<rparr>"]
        exI [of _ v] exI [of _ "dot_entries (nat r) (vn_vno v)"]) simp
qed

text \<open>Clearing the entry of a name deletes it from the map.\<close>

lemma clear_entry_deletes:
  assumes run: "clear_entry d n (length n) s = Inr s'" and ds: "dir_entries d s = Some ds" "names_ok ds"
    and n: "okname n"
  shows "\<exists>ds'. dir_entries d s' = Some ds' \<and> names_ok ds' \<and> dmap ds' = (dmap ds)(n := None)"
proof (cases "find_entry ds n (length n)")
  case None
  with run ds have "dir_entries d s' = Some ds" by (auto simp: clear_entry_def run_eq dir_entries_eq)
  moreover have "dmap ds = (dmap ds)(n := None)" using None by (auto simp: dmap_def)
  ultimately show ?thesis using ds by metis
next
  case (Some i)
  with run ds have "dir_entries d s' = Some (ds[i := (ds ! i)\<lparr>rd_name := []\<rparr>])"
    by (auto simp: clear_entry_def run_eq dir_entries_eq)
  moreover have "i < length ds" using Some unfolding find_entry_eq [OF ds(2) n] by simp
  ultimately show ?thesis using names_ok_clear [OF ds(2)] dmap_clear [OF ds(2) n Some] by metis
qed

subsection \<open>Files\<close>

lemma write_page_spec:
  assumes "off + length b \<le> length p"
  shows "length (write_page p off b) = length p \<and> take (length b) (drop off (write_page p off b)) = b
     \<and> (\<forall>k < length p. k < off \<or> off + length b \<le> k \<longrightarrow> write_page p off b ! k = p ! k)"
proof (intro conjI allI impI)
  fix k assume k: "k < length p" "k < off \<or> off + length b \<le> k"
  from k(2) show "write_page p off b ! k = p ! k"
  proof
    assume "k < off"
    with assms show ?thesis by (simp add: write_page_def nth_append)
  next
    assume ge: "off + length b \<le> k"
    then have "\<not> k < off" "\<not> k - off < length b" "off + length b + (k - off - length b) = k" by auto
    with assms k(1) show ?thesis by (simp add: write_page_def nth_append)
  qed
qed (use assms in \<open>simp_all add: write_page_def\<close>)

lemma ramfs_write_spec:
  assumes run: "ramfs_write f off b n s = Inr (r, s')" and v: "vnodes s f = Some v"
    and i: "rf_heap (fs_data s) (vn_i v) = Some i" "rf_mem i = Page p" and p: "length p = PAGE_SIZE"
  shows "0 \<le> r \<and> nat r \<le> length b \<and> 0 \<le> off \<and> off + r \<le> int PAGE_SIZE \<and> r = min (to_off n) (int PAGE_SIZE - off)
     \<and> vnodes s' f = Some (v\<lparr>vn_len := max (rf_size i) (off + r)\<rparr>)
     \<and> rf_heap (fs_data s') (vn_i v) = Some (i\<lparr>rf_mem := Page (write_page p (nat off) (take (nat r) b)),
          rf_size := max (rf_size i) (off + r)\<rparr>)"
proof -
  have e: "sint32 x = Inr y \<Longrightarrow> y = x" for x y by (auto simp: sint32_def check_eq_Inr)
  from run v i show ?thesis
    by (auto simp: ramfs_write_def run_eq Let_def dest!: e)
qed

lemma ramfs_write_read:
  assumes run: "ramfs_write f off b n s = Inr (r, s')" and v: "vnodes s f = Some v"
    and i: "rf_heap (fs_data s) (vn_i v) = Some i" "rf_mem i = Page p" and p: "length p = PAGE_SIZE"
    and size: "0 \<le> rf_size i" "rf_size i \<le> int PAGE_SIZE" and nd: "\<not> S_ISDIR (vn_mode v)"
  shows "ramfs_read f off (nat r) s' = Inr (r, take (nat r) b, s')"
proof -
  note w = ramfs_write_spec [OF run v i p]
  let ?p = "write_page p (nat off) (take (nat r) b)" and ?len = "max (rf_size i) (off + r)"
  from w have r: "0 \<le> r" "nat r \<le> length b" "0 \<le> off" "off + r \<le> int PAGE_SIZE"
    and v': "vnodes s' f = Some (v\<lparr>vn_len := ?len\<rparr>)"
    and i': "rf_heap (fs_data s') (vn_i v) = Some (i\<lparr>rf_mem := Page ?p, rf_size := ?len\<rparr>)" by auto
  have "to_off (nat r) = r" using r by (simp add: to_off_small PAGE_SIZE_def)
  moreover have "in_int (?len - off)" using r size by (simp add: in_int_def PAGE_SIZE_def max_def)
  then have "sint32 (?len - off) = Inr (?len - off)" by (simp add: sint32_def)
  moreover have "max 0 (min r (?len - off)) = r" using r by auto
  moreover have "take (nat r) (drop (nat off) ?p) = take (nat r) b"
    using write_page_spec [of "nat off" "take (nat r) b" p] r p by (simp add: nat_add_distrib [symmetric] min_absorb2)
  ultimately show ?thesis
    using v' i' nd r by (simp add: ramfs_read_def vn_get_def rf_get_def as_page_def)
qed

end
