(* ===== verification/Kprops.thy ===== *)
theory Kprops
  imports Ramdir
begin

text \<open>
  The properties of the virtual file system and the ramfs, each with a run of the code on which its
  hypotheses hold.
\<close>

subsection \<open>Runs on the booted kernel\<close>

definition no_devs :: devs where
  "no_devs = \<lparr>dv_byte = (\<lambda>_. None), dv_block = (\<lambda>_. None), dv_read = (\<lambda>_ _ _. Inr (0, [])),
     dv_write = (\<lambda>_ _ _ _. Inr 0)\<rparr>"

lemma dot_entries_list:
  "dot_entries ino up = \<lparr>rd_ino = ino, rd_name = ''.''\<rparr> # \<lparr>rd_ino = up, rd_name = ''..''\<rparr>
     # replicate 126 free_dirent"
proof -
  have "RAMFS_MAX_DIRENT = Suc (Suc 126)" by (simp add: RAMFS_MAX_DIRENT_def)
  show ?thesis unfolding dot_entries_def \<open>RAMFS_MAX_DIRENT = Suc (Suc 126)\<close> replicate_Suc by simp
qed

lemma root_dirents_eq: "root_dirents = dot_entries 0 0"
  by (simp add: root_dirents_def dot_entries_def)

lemma find_entry_free: "n \<noteq> 0 \<Longrightarrow> find_entry (replicate k free_dirent) nm n = None"
  by (induction k) (simp_all add: name_match_def free_dirent_def)

lemma find_space_free_dirent: "0 < k \<Longrightarrow> find_space (replicate k free_dirent) = Some 0"
  by (cases k) (simp_all add: free_dirent_def)

lemma find_space_dots: "find_space (dot_entries ino up) = Some 2"
  by (simp add: dot_entries_list find_space_free_dirent)

lemma find_entry_dots:
  "okname n \<Longrightarrow> n \<noteq> ''.'' \<Longrightarrow> n \<noteq> ''..'' \<Longrightarrow> find_entry (dot_entries ino up) n (length n) = None"
  by (simp add: dot_entries_list name_match_iff find_entry_free okname_def NUL_def)

lemma booted_simps [simp]:
  "vnodes booted = [0 \<mapsto> root_vnode]" "vnode_inuse_list booted = [0]" "next_vnode booted = 1"
  "kfiles booted = (\<lambda>_. None)" "next_file booted = 0" "p_files booted = (\<lambda>_. None)" "p_cwd booted = 0"
  "vfs_root_vn booted = 0"
  "fs_data booted = \<lparr>rfs_inodes = [0 \<mapsto> 0], rf_heap = [0 \<mapsto> root_inode], next_inode = 1, fs_root = Some 0\<rparr>"
  by (simp_all add: booted_def boot_kernel_def)

lemma root_vnode_simps [simp]:
  "vn_ops root_vnode = Some Dir_vops" "vn_mode root_vnode = S_IFDIR" "vn_len root_vnode = 64"
  "vn_refcount root_vnode = 3" "vn_i root_vnode = 0" "vn_vno root_vnode = 0" "vn_nrespages root_vnode = 0"
  "vn_busy root_vnode = False"
  by (simp_all add: root_vnode_def zero_vnode_def)

lemma booted_lookup:
  assumes "okname n" "n \<noteq> ''.''" "n \<noteq> ''..''"
  shows "ramfs_lookup D 0 n (length n) booted = Inr (- ENOENT, None, booted)"
  using find_entry_dots [OF assms]
  by (simp add: ramfs_lookup_def vnode_inode_def vn_get_def rf_get_def as_dirents_def root_inode_def
      root_dirents_eq)

lemma booted_space:
  assumes "okname n" "n \<noteq> ''.''" "n \<noteq> ''..''"
  shows "dir_space D 0 n (length n) booted = Inr (Some 2, booted)"
  using booted_lookup [OF assms, of D]
  by (simp add: dir_space_def vnode_inode_def vn_get_def rf_get_def as_dirents_def root_inode_def
      root_dirents_eq find_space_dots ENOENT_def)

lemma okname_examples: "okname ''tty0''" "okname ''tmp''"
  by (simp_all add: okname_def NAME_LEN_def NUL_def)

lemma booted_entries: "dir_entries 0 booted = Some (dot_entries 0 0)"
  by (simp add: dir_entries_eq root_inode_def root_dirents_eq)

lemma booted_fresh: "rf_fresh booted"
  by (simp add: rf_fresh_def)

lemma unlink_missing:
  "\<exists>s. sys (ramfs_env no_devs) (Sys_unlink ''tty0'') booted = Inr (- ENOENT, s)"
  by (simp add: do_unlink_def dir_namev_def MAXPATHLEN_def vref_def vn_get_def dir_namev_loop.simps
      scan_end.simps NAME_LEN_def vn_upd_def lookup_def ramfs_op_split
      ramfs_dir_vops_def ramfs_vops_def ramfs_lookup_def vnode_inode_def rf_get_def as_dirents_def
      root_inode_def root_dirents_eq dot_entries_list find_entry_free name_match_def put_opt_def vput_def
      ramfs_env_def ramfs_vn_def errno_defs)

subsection \<open>Reference counts\<close>

text \<open>Claim C1. In every state the kernel reaches from boot by system calls that return, the
  reference counts are exact.  The active references to a vnode are the open files on it, plus one
  for the working directory and, on the root, two for the mount and the idle process; the reference count of an open file is
  the number of descriptors that point to it, which is not zero, and the file has a vnode.  So no
  call leaks a vnode or a file, or gives one back twice, on any branch.\<close>

lemma kernel_counts_exact:
  assumes "kreach D s"
  shows "(\<forall>a. vrefs s a = int (card {f. \<exists>fl. kfiles s f = Some fl \<and> f_vnode fl = Some a})
            + (if p_cwd s = a then 1 else 0) + (if vfs_root_vn s = a then 2 else 0))
    \<and> (\<forall>f fl. kfiles s f = Some fl \<longrightarrow> f_vnode fl \<noteq> None \<and> 0 < f_refcount fl
            \<and> f_refcount fl = int (card {d. p_files s d = Some f}))
    \<and> (\<forall>d f. p_files s d = Some f \<longrightarrow> d < NFILES \<and> kfiles s f \<noteq> None)"
proof -
  have ok: "kinv zero zero {} {} s" using kreach_ok [OF assms] by (simp add: kernel_ok_def)
  have a: "\<forall>f fl. kfiles s f = Some fl \<longrightarrow> f_vnode fl \<noteq> None \<and> 0 < f_refcount fl"
    using kinv_files_ok [OF ok] by blast
  have b: "\<forall>f fl. kfiles s f = Some fl \<longrightarrow> f_refcount fl = int (card {d. p_files s d = Some f})"
    using ok by (simp add: kinv_def fds_of_def zero_def)
  show ?thesis
    using ok a b unfolding kinv_def files_on_def is_at_def zero_def by auto
qed

lemma kernel_counts_exact_witness:
  "(\<forall>a. vrefs booted a = int (card {f. \<exists>fl. kfiles booted f = Some fl \<and> f_vnode fl = Some a})
            + (if p_cwd booted = a then 1 else 0) + (if vfs_root_vn booted = a then 2 else 0))
    \<and> vrefs booted 0 = 3"
proof
  show "vrefs booted 0 = 3" by (simp add: vrefs_def)
qed (use kernel_counts_exact [OF kreach_booted [of no_devs]] in blast)

text \<open>A system call that works on names and returns, with or without an error, leaves the
  number of references to every vnode, the open files, the descriptors and the working directory
  as they were: every vnode that \<open>dir_namev\<close>, \<open>lookup\<close> or \<open>open_namev\<close> hands to the call is put
  back exactly once on each path through it.\<close>

lemma name_calls_keep_refs:
  assumes "kreach D s" and "sys (ramfs_env D) c s = Inr (r, s')"
    and "c \<in> {Sys_mknod p m d, Sys_mkdir p, Sys_rmdir p, Sys_unlink p, Sys_link p q, Sys_rename p q,
      Sys_stat p}"
  shows "vrefs s' = vrefs s \<and> kfiles s' = kfiles s \<and> p_files s' = p_files s \<and> p_cwd s' = p_cwd s"
proof -
  from assms(2,3) have "moves none s s'"
    using ends_InrD [OF ramvfs.do_mknod_moves] ends_InrD [OF ramvfs.do_mkdir_moves]
      ends_InrD [OF ramvfs.do_rmdir_moves] ends_InrD [OF ramvfs.do_unlink_moves]
      ends_InrD [OF ramvfs.do_link_moves] ends_InrD [OF ramvfs.do_rename_moves]
      ends_InrD [OF ramvfs.do_stat_moves]
    by (fastforce elim!: bnd_InrE)
  moreover have "vn_fresh s" using kreach_ok [OF assms(1)] by (simp add: kernel_ok_def kinv_def)
  ultimately show ?thesis by (auto simp: moves_def vfs_same_def none_def)
qed

lemma name_calls_keep_refs_witness:
  "\<exists>s. sys (ramfs_env no_devs) (Sys_unlink ''tty0'') booted = Inr (- ENOENT, s) \<and> vrefs s = vrefs booted"
proof -
  obtain s where s: "sys (ramfs_env no_devs) (Sys_unlink ''tty0'') booted = Inr (- ENOENT, s)"
    using unlink_missing by blast
  have "Sys_unlink ''tty0'' \<in> {Sys_mknod ''tty0'' m d, Sys_mkdir ''tty0'', Sys_rmdir ''tty0'',
      Sys_unlink ''tty0'', Sys_link ''tty0'' q, Sys_rename ''tty0'' q, Sys_stat ''tty0''}" for m d q by simp
  from name_calls_keep_refs [OF kreach_booted s this] s show ?thesis by blast
qed

subsection \<open>Descriptors\<close>

text \<open>Claim C37. A successful \<open>do_open\<close> returns the lowest free descriptor and points it to a new open
  file at position 0, with the mode of the flags, one reference and a vnode; the other descriptors
  and files stay as they are.\<close>

lemma open_lowest_descriptor:
  assumes "kreach D s" and "do_open (ramfs_env D) path fl s = Inr (r, s')" and "0 \<le> r"
  shows "nat r < NFILES \<and> p_files s (nat r) = None \<and> (\<forall>d < nat r. p_files s d \<noteq> None)
    \<and> p_files s' = (p_files s)(nat r \<mapsto> next_file s)
    \<and> (\<exists>a. kfiles s' = (kfiles s)(next_file s \<mapsto>
           \<lparr>f_pos = 0, f_mode = open_mode fl, f_refcount = 1, f_vnode = Some a\<rparr>))"
proof -
  have inv: "kinv zero zero {} {} s" using kreach_ok [OF assms(1)] by (simp add: kernel_ok_def)
  note ok = ramvfs.do_open_success [OF inv assms(2,3)]
  with assms(3) have "find_empty_fd NFILES 0 s \<noteq> - EMFILE" by (auto simp: get_empty_fd_def EMFILE_def)
  with find_empty_fd_cases [of NFILES 0 s] ok show ?thesis by (auto simp: get_empty_fd_def)
qed

lemma open_root_runs: "\<exists>s'. do_open (ramfs_env no_devs) ''.'' 0 booted = Inr (0, s')"
  by (simp add: do_open_def O_ISVALID_def O_RDWR_def O_WRONLY_def O_TRUNC_def get_empty_fd_def NFILES_def
      numeral_eq_Suc fget_def fref_def file_get_def zero_file_def file_ok_def set_fd_def file_upd_def
      open_namev_def dir_namev_def MAXPATHLEN_def vref_def vn_get_def
      dir_namev_loop.simps scan_end.simps NAME_LEN_def vn_upd_def lookup_def ramfs_op_split
      ramfs_dir_vops_def ramfs_vops_def ramfs_lookup_def vnode_inode_def rf_get_def as_dirents_def
      root_inode_def root_dirents_eq dot_entries_list name_match_def vput_def
      ramfs_env_def ramfs_vn_def errno_defs vget_def Let_def)

lemma open_lowest_descriptor_witness:
  "\<exists>s' a. do_open (ramfs_env no_devs) ''.'' 0 booted = Inr (0, s') \<and> p_files s' = [0 \<mapsto> 0]
     \<and> kfiles s' = [0 \<mapsto> \<lparr>f_pos = 0, f_mode = open_mode 0, f_refcount = 1, f_vnode = Some a\<rparr>]"
proof -
  obtain s' where run: "do_open (ramfs_env no_devs) ''.'' 0 booted = Inr (0, s')"
    using open_root_runs by blast
  from open_lowest_descriptor [OF kreach_booted run] run show ?thesis by auto
qed

text \<open>\<open>do_lseek\<close> on an open file moves the position to the offset counted from the start,
  the current position or the end of the file and returns it; a negative target or an unknown
  \<open>whence\<close> gives \<open>-EINVAL\<close> and changes nothing.\<close>

lemma lseek_moves_position:
  assumes fd: "valid_fd fd" "p_files s (nat fd) = Some b" and b: "kfiles s b = Some f" "0 < f_refcount f"
    and v: "f_vnode f = Some a" "vnodes s a = Some w"
    and run: "do_lseek (ramfs_env D) fd off wh s = Inr (r, s')"
  shows "let from = (if wh = SEEK_SET then Some 0 else if wh = SEEK_CUR then Some (f_pos f)
                     else if wh = SEEK_END then Some (vn_len w) else None)
         in case from of
              Some x \<Rightarrow> if 0 \<le> x + off then r = x + off \<and> s' = file_upd b (f_pos_update (\<lambda>_. x + off)) s
                        else r = - KEINVAL \<and> s' = s
            | None \<Rightarrow> r = - KEINVAL \<and> s' = s"
proof -
  have s32: "sint32 x = Inr y \<Longrightarrow> y = x" for x y by (auto simp: sint32_def check_eq_Inr)
  have g: "fget fd s = bnd (fref b s) (\<lambda>s. Inr (Some b, s))"
    using fd by (simp add: fget_def valid_fd_def)
  from run fd(1) obtain s1 where s1: "fref b s = Inr s1"
    and rest: "bnd (file_get b s1) (\<lambda>fl.
            deref (f_vnode fl) Kassert_failed (\<lambda>vn.
            bnd (vn_get vn s1) (\<lambda>v.
            bnd (seek_pos (f_pos fl) (vn_len v) off wh) (\<lambda>p.
            case p of None \<Rightarrow> bnd (fput (ramfs_env D) b s1) (\<lambda>s. Inr (- KEINVAL, s))
            | Some pos \<Rightarrow>
                bnd (fput (ramfs_env D) b (file_upd b (f_pos_update (\<lambda>_. pos)) s1)) (\<lambda>s.
                Inr (pos, s)))))) = Inr (r, s')"
    unfolding do_lseek_def g by (auto simp: bnd_assoc elim!: bnd_InrE [of "fref b s"])
  from s1 have get: "fget fd s = Inr (Some b, s1)" by (simp add: g)
  from s1 b have k1: "kfiles s1 b = Some (f\<lparr>f_refcount := f_refcount f + 1\<rparr>)" and v1: "vnodes s1 = vnodes s"
    by (auto simp: fref_def run_eq)
  have same: "file_upd b (f_pos_update (\<lambda>_. f_pos f)) s1 = s1"
    using k1 by (simp add: file_upd_def fun_upd_idem)
  from rest k1 v v1 obtain p where p: "seek_pos (f_pos f) (vn_len w) off wh = Inr p"
    and rest: "(case p of None \<Rightarrow> bnd (fput (ramfs_env D) b s1) (\<lambda>s. Inr (- KEINVAL, s))
            | Some pos \<Rightarrow>
                bnd (fput (ramfs_env D) b (file_upd b (f_pos_update (\<lambda>_. pos)) s1)) (\<lambda>s.
                Inr (pos, s))) = Inr (r, s')"
    by (auto simp: bnd_eq_Inr [of "file_get a t" for a t] bnd_eq_Inr [of "vn_get a t" for a t]
        bnd_eq_Inr [of "seek_pos q l off wh" for q l])
  have undo: "file_upd b (f_pos_update (\<lambda>_. f_pos f)) s = s"
    using b(1) by (simp add: file_upd_def fun_upd_idem)
  show ?thesis
  proof (cases p)
    case None
    with rest have "r = - KEINVAL" "fput (ramfs_env D) b (file_upd b (f_pos_update (\<lambda>_. f_pos f)) s1) = Inr s'"
      unfolding same by (auto elim: bnd_InrE)
    with ramvfs.fget_fput [OF fd b get this(2)] undo have "r = - KEINVAL \<and> s' = s" by simp
    with p None show ?thesis
      by (auto simp: seek_pos_def bnd_eq_Inr SEEK_SET_def SEEK_CUR_def SEEK_END_def dest!: s32 split: if_splits)
  next
    case (Some q)
    with rest have "r = q" "fput (ramfs_env D) b (file_upd b (f_pos_update (\<lambda>_. q)) s1) = Inr s'"
      by (auto elim: bnd_InrE)
    with ramvfs.fget_fput [OF fd b get this(2)] have "r = q \<and> s' = file_upd b (f_pos_update (\<lambda>_. q)) s" by simp
    with p Some show ?thesis
      by (auto simp: seek_pos_def bnd_eq_Inr add.commute SEEK_SET_def SEEK_CUR_def SEEK_END_def dest!: s32 split: if_splits)
  qed
qed

definition one_open :: rstate where
  "one_open = booted\<lparr>kfiles := [0 \<mapsto> \<lparr>f_pos = 10, f_mode = 1, f_refcount = 1, f_vnode = Some 0\<rparr>],
     next_file := 1, p_files := [0 \<mapsto> 0]\<rparr>"

lemma lseek_moves_position_witness:
  "\<exists>s'. do_lseek (ramfs_env no_devs) 0 (-4) SEEK_END one_open = Inr (60, s')
     \<and> s' = file_upd 0 (f_pos_update (\<lambda>_. 60)) one_open"
proof -
  have "\<exists>s'. do_lseek (ramfs_env no_devs) 0 (-4) SEEK_END one_open = Inr (60, s')"
    by (simp add: do_lseek_def valid_fd_def NFILES_def fget_def one_open_def fref_def file_get_def
        file_ok_def file_upd_def vn_get_def seek_pos_def SEEK_SET_def SEEK_CUR_def SEEK_END_def sint32_def
        in_int_def fput_def Let_def)
  then obtain s' where run: "do_lseek (ramfs_env no_devs) 0 (-4) SEEK_END one_open = Inr (60, s')" by blast
  have "valid_fd 0" "p_files one_open (nat 0) = Some 0"
    "kfiles one_open 0 = Some \<lparr>f_pos = 10, f_mode = 1, f_refcount = 1, f_vnode = Some 0\<rparr>"
    "vnodes one_open 0 = Some root_vnode"
    by (simp_all add: valid_fd_def NFILES_def one_open_def)
  from lseek_moves_position [OF this(1,2,3) _ _ this(4) run] run show ?thesis
    by (simp add: SEEK_SET_def SEEK_CUR_def SEEK_END_def)
qed

subsection \<open>Directories\<close>

text \<open>Claim C11. A directory of the ramfs implements a map from names to inode numbers.  When
  \<open>ramfs_mkdir\<close> returns 0 the name was not in the directory, the map of the directory is the old
  one with the name mapped to an inode number that was free, and the new inode is a directory that
  maps exactly \<open>.\<close> to itself and \<open>..\<close> to the directory it was made in.\<close>

lemma mkdir_updates_map:
  assumes "ramfs_mkdir D d n (length n) s = Inr (0, s')"
    and "dir_entries d s = Some ds" "names_ok ds" and "okname n" and "rf_fresh s"
  shows "\<exists>ds' ino a i v es. dir_entries d s' = Some ds' \<and> names_ok ds' \<and> dmap ds n = None \<and>
    dmap ds' = (dmap ds)(n \<mapsto> ino) \<and> rfs_inodes (fs_data s) ino = None \<and>
    rfs_inodes (fs_data s') ino = Some a \<and> rf_heap (fs_data s') a = Some i \<and> rf_mem i = Dirents es \<and>
    vnodes s d = Some v \<and> names_ok es \<and> dmap es = [''.'' \<mapsto> ino, ''..'' \<mapsto> vn_vno v]"
  by (rule mkdir_enters [OF assms])

lemma mkdir_runs: "\<exists>s'. ramfs_mkdir no_devs 0 ''tmp'' (length ''tmp'') booted = Inr (0, s')"
  using booted_space [of "''tmp''" no_devs] okname_examples
  by (simp add: ramfs_mkdir_def ramfs_alloc_inode_def RAMFS_MAX_FILES_def numeral_eq_Suc Let_def
      ramfs_consts set_entry_def vnode_inode_def vn_get_def rf_get_def as_dirents_def root_inode_def
      rf_upd_def)

lemma mkdir_updates_map_witness:
  "\<exists>s' ds'. ramfs_mkdir no_devs 0 ''tmp'' (length ''tmp'') booted = Inr (0, s')
     \<and> dir_entries 0 s' = Some ds' \<and> dmap ds' ''tmp'' \<noteq> None"
proof -
  obtain s' where run: "ramfs_mkdir no_devs 0 ''tmp'' (length ''tmp'') booted = Inr (0, s')"
    using mkdir_runs by blast
  have ok: "names_ok (dot_entries 0 0)" by (simp add: dot_entries_map)
  obtain ds' ino where "dir_entries 0 s' = Some ds'" "dmap ds' = (dmap (dot_entries 0 0))(''tmp'' \<mapsto> ino)"
    using mkdir_updates_map [OF run booted_entries ok okname_examples(2) booted_fresh] by blast
  with run show ?thesis by auto
qed

text \<open>When \<open>ramfs_mknod\<close> returns 0 the directory maps the new name to a free inode number
  that now holds the device, and every other name as before.\<close>

lemma mknod_updates_map:
  assumes "ramfs_mknod D d n (length n) m dv s = Inr (0, s')"
    and "dir_entries d s = Some ds" "names_ok ds" and "okname n" and "rf_fresh s"
  shows "\<exists>ds' ino a i. dir_entries d s' = Some ds' \<and> names_ok ds' \<and> dmap ds n = None \<and>
    dmap ds' = (dmap ds)(n \<mapsto> ino) \<and> rfs_inodes (fs_data s) ino = None \<and>
    rfs_inodes (fs_data s') ino = Some a \<and> rf_heap (fs_data s') a = Some i \<and> rf_mem i = Devid dv"
  by (rule mknod_enters [OF assms])

lemma mknod_runs: "\<exists>s'. ramfs_mknod no_devs 0 ''tty0'' (length ''tty0'') S_IFCHR 7 booted = Inr (0, s')"
  using booted_space [of "''tty0''" no_devs] okname_examples
  by (simp add: ramfs_mknod_def ramfs_alloc_inode_def RAMFS_MAX_FILES_def numeral_eq_Suc Let_def
      ramfs_consts set_entry_def vnode_inode_def vn_get_def rf_get_def as_dirents_def root_inode_def
      rf_upd_def mode_defs)

lemma mknod_updates_map_witness:
  "\<exists>s' ds' ino. ramfs_mknod no_devs 0 ''tty0'' (length ''tty0'') S_IFCHR 7 booted = Inr (0, s')
     \<and> dir_entries 0 s' = Some ds' \<and> dmap ds' = (dmap (dot_entries 0 0))(''tty0'' \<mapsto> ino)"
proof -
  obtain s' where run: "ramfs_mknod no_devs 0 ''tty0'' (length ''tty0'') S_IFCHR 7 booted = Inr (0, s')"
    using mknod_runs by blast
  have ok: "names_ok (dot_entries 0 0)" by (simp add: dot_entries_map)
  from mknod_updates_map [OF run booted_entries ok okname_examples(1) booted_fresh] run
  show ?thesis by blast
qed

text \<open>Freeing the entry of a name, as \<open>ramfs_unlink\<close> and \<open>ramfs_rmdir\<close> do, deletes the
  name from the map of the directory and nothing else.\<close>

lemma clear_entry_deletes_name:
  assumes "clear_entry d n (length n) s = Inr s'" and "dir_entries d s = Some ds" "names_ok ds"
    and "okname n"
  shows "\<exists>ds'. dir_entries d s' = Some ds' \<and> names_ok ds' \<and> dmap ds' = (dmap ds)(n := None)"
  by (rule clear_entry_deletes [OF assms])

lemma clear_entry_deletes_name_witness:
  "\<exists>s' ds'. clear_entry 0 ''..'' (length ''..'') booted = Inr s' \<and> dir_entries 0 s' = Some ds'
     \<and> dmap ds' = [''.'' \<mapsto> 0]"
proof -
  have "\<exists>s'. clear_entry 0 ''..'' (length ''..'') booted = Inr s'"
    by (simp add: clear_entry_def vnode_inode_def vn_get_def rf_get_def as_dirents_def root_inode_def)
  then obtain s' where run: "clear_entry 0 ''..'' (length ''..'') booted = Inr s'" by blast
  have n: "okname ''..''" by (simp add: okname_def NAME_LEN_def NUL_def)
  have d: "names_ok (dot_entries 0 0)" "(dmap (dot_entries 0 0))(''..'' := None) = [''.'' \<mapsto> 0]"
    by (simp_all add: dot_entries_map)
  from clear_entry_deletes_name [OF run booted_entries d(1) n] d(2) run show ?thesis by auto
qed

text \<open>Claim C38. The name of a new entry is cut to 27 characters while \<open>dir_namev\<close> lets names of 28
  characters through.  After \<open>ramfs_mknod\<close> returned 0 for such a name, looking the name up finds
  nothing, so the file it made cannot be reached, and the same call succeeds again.\<close>

lemma long_name_lost:
  assumes run: "ramfs_mknod D d n (length n) m dv s = Inr (0, s')" and ds: "dir_entries d s = Some ds"
    and len: "NAME_LEN \<le> length n" and old: "list_all (\<lambda>d. length (rd_name d) < NAME_LEN) ds"
    and fr: "rf_fresh s"
  shows "ramfs_lookup D d n (length n) s' = Inr (- ENOENT, None, s')"
proof -
  from run obtain k s1 ty r s2 where sp: "dir_space D d n (length n) s = Inr (Some k, s1)"
    and al: "ramfs_alloc_inode ty dv s1 = Inr (r, s2)" "\<not> r < 0"
    and se: "set_entry d k (nat r) n (length n) s2 = Inr s'"
    by (auto simp: ramfs_mknod_def bnd_eq_Inr errno_defs split: option.splits if_splits)
  have "dir_entries d s2 = Some ds"
    by (rule dir_entries_alloc [OF al]) (simp_all add: dir_space_state [OF sp] fr ds)
  with se have e: "dir_entries d s' = Some (ds[k := \<lparr>rd_ino = nat r, rd_name = take (min (length n) (NAME_LEN - 1)) n\<rparr>])"
    by (auto simp: set_entry_def run_eq Let_def dir_entries_eq)
  have none: "find_entry es n (length n) = None" if "list_all (\<lambda>d. length (rd_name d) < NAME_LEN) es" for es
    using that len by (induction es) (auto simp: name_match_def)
  have "list_all (\<lambda>d. length (rd_name d) < NAME_LEN)
      (ds[k := \<lparr>rd_ino = nat r, rd_name = take (min (length n) (NAME_LEN - 1)) n\<rparr>])"
    using old by (auto simp: list_all_iff NAME_LEN_def dest!: set_update_subset_insert [THEN subsetD])
  from none [OF this] e show ?thesis
    by (auto simp: dir_entries_eq ramfs_lookup_def vnode_inode_def vn_get_def rf_get_def as_dirents_def)
qed

lemma long_name_lost_witness:
  "\<exists>s'. ramfs_mknod no_devs 0 (replicate 28 CHR ''a'') (length (replicate 28 CHR ''a'')) S_IFCHR 7 booted
      = Inr (0, s')
     \<and> ramfs_lookup no_devs 0 (replicate 28 CHR ''a'') (length (replicate 28 CHR ''a'')) s' = Inr (- ENOENT, None, s')"
proof -
  let ?n = "replicate 28 CHR ''a''"
  have fe: "find_entry (dot_entries 0 0) ?n (length ?n) = None"
    by (simp add: dot_entries_list find_entry_free name_match_def)
  then have lk: "ramfs_lookup no_devs 0 ?n (length ?n) booted = Inr (- ENOENT, None, booted)"
    by (simp add: ramfs_lookup_def vnode_inode_def vn_get_def rf_get_def as_dirents_def root_inode_def
        root_dirents_eq)
  then have sp: "dir_space no_devs 0 ?n (length ?n) booted = Inr (Some 2, booted)"
    by (simp add: dir_space_def vnode_inode_def vn_get_def rf_get_def as_dirents_def root_inode_def
        root_dirents_eq find_space_dots ENOENT_def)
  have "\<exists>s'. ramfs_mknod no_devs 0 ?n (length ?n) S_IFCHR 7 booted = Inr (0, s')"
    unfolding ramfs_mknod_def sp
    by (simp add: ramfs_alloc_inode_def RAMFS_MAX_FILES_def numeral_eq_Suc Let_def
        ramfs_consts set_entry_def vnode_inode_def vn_get_def rf_get_def as_dirents_def root_inode_def
        rf_upd_def mode_defs)
  then obtain s' where run: "ramfs_mknod no_devs 0 ?n (length ?n) S_IFCHR 7 booted = Inr (0, s')" by blast
  have "list_all (\<lambda>d. length (rd_name d) < NAME_LEN) (dot_entries 0 0)"
    by (simp add: dot_entries_list NAME_LEN_def free_dirent_def list_all_iff)
  from long_name_lost [OF run booted_entries _ this booted_fresh] run show ?thesis
    by (auto simp: NAME_LEN_def)
qed

text \<open>\<open>do_link\<close> never makes a link and \<open>do_rename\<close> never renames: whenever they return, they
  return an error.  The code turns away every source that is not a directory, and for a directory
  it compares the negative result of \<open>lookup\<close> with the positive \<open>ENOENT\<close>.\<close>

lemma link_never_succeeds:
  assumes "sys (ramfs_env D) c s = Inr (r, s')" and "c = Sys_link a b \<or> c = Sys_rename a b"
  shows "r < 0"
proof -
  have neg: "do_link (ramfs_env D) a b t = Inr (q, t') \<Longrightarrow> q < 0" for t q t'
    using ends_InrD [OF ramvfs.do_link_negative, of D a b t "(q, t')"] by simp
  from assms show ?thesis by (auto simp: do_rename_def bnd_eq_Inr dest: neg split: if_splits)
qed

lemma link_never_succeeds_witness:
  "\<exists>r s'. sys (ramfs_env no_devs) (Sys_rename ''.'' ''x'') booted = Inr (r, s') \<and> r < 0"
proof -
  have "\<exists>s'. sys (ramfs_env no_devs) (Sys_rename ''.'' ''x'') booted = Inr (- ENOENT, s')"
    by (simp add: do_rename_def do_link_def open_namev_def dir_namev_def MAXPATHLEN_def vref_def vn_get_def
      dir_namev_loop.simps scan_end.simps NAME_LEN_def vn_upd_def lookup_def ramfs_op_split
      ramfs_dir_vops_def ramfs_vops_def ramfs_lookup_def vnode_inode_def rf_get_def as_dirents_def
      root_inode_def root_dirents_eq dot_entries_list find_entry_free name_match_def put_opt_def vput_def
      ramfs_env_def ramfs_vn_def errno_defs vget_def)
  then obtain s' where run: "sys (ramfs_env no_devs) (Sys_rename ''.'' ''x'') booted = Inr (- ENOENT, s')"
    by blast
  have "Sys_rename ''.'' ''x'' = Sys_link ''.'' ''x'' \<or> Sys_rename ''.'' ''x'' = Sys_rename ''.'' ''x''" by simp
  from link_never_succeeds [OF run this] run show ?thesis by blast
qed

subsection \<open>Files\<close>

text \<open>Claim C12. A write to a file of the ramfs followed by a read of the range it reports returns
  exactly the bytes written; the length reported is cut at the end of the one page of the file.\<close>

lemma write_read_roundtrip:
  assumes "ramfs_write f off b n s = Inr (r, s')" and "vnodes s f = Some v"
    and "rf_heap (fs_data s) (vn_i v) = Some i" "rf_mem i = Page p" and "length p = PAGE_SIZE"
    and "0 \<le> rf_size i" "rf_size i \<le> int PAGE_SIZE" and "\<not> S_ISDIR (vn_mode v)"
  shows "ramfs_read f off (nat r) s' = Inr (r, take (nat r) b, s')"
  by (rule ramfs_write_read [OF assms])

definition one_file :: rstate where
  "one_file = booted\<lparr>vnodes := [1 \<mapsto> zero_vnode\<lparr>vn_ops := Some File_vops, vn_mode := S_IFREG, vn_len := 3, vn_i := 5\<rparr>],
     fs_data := no_ramfs\<lparr>rf_heap := [5 \<mapsto> \<lparr>rf_size = 3, rf_ino = 1, rf_mem = Page (replicate PAGE_SIZE NUL),
       rf_mode = RAMFS_TYPE_DATA, rf_linkcount = 2\<rparr>]\<rparr>\<rparr>"

lemma write_read_roundtrip_witness:
  "\<exists>s'. ramfs_write 1 2 ''abc'' 3 one_file = Inr (3, s') \<and> ramfs_read 1 2 3 s' = Inr (3, ''abc'', s')"
proof -
  have "\<exists>s'. ramfs_write 1 2 ''abc'' 3 one_file = Inr (3, s')"
    by (simp add: ramfs_write_def one_file_def vn_get_def rf_get_def zero_vnode_def no_ramfs_def
        sint32_def in_int_def PAGE_SIZE_def to_off_small as_page_def booted_def)
  then obtain s' where run: "ramfs_write 1 2 ''abc'' 3 one_file = Inr (3, s')" by blast
  from write_read_roundtrip [OF this] run show ?thesis
    by (auto simp: one_file_def zero_vnode_def no_ramfs_def PAGE_SIZE_def)
qed

end
