(* ===== verification/S5block.thy ===== *)
theory S5block
  imports Kstring
begin

text \<open>
  The System V file system on a disk: its data (\<open>include/fs/s5fs/s5fs.h\<close>) and the part of
  \<open>fs/s5fs/s5fs_subr.c\<close> that allocates blocks and inodes and maps a position in a file to a block
  of the disk.

  A page is a list of 4096 characters; words in it are little endian.  The superblock (pinned in
  memory while the file system is mounted) and the table of inodes are kept in decoded form; the
  other blocks are bytes.  \<open>bdpages\<close> holds the pages of the block device that are resident,
  \<open>disk\<close> what \<open>read_block\<close> returns, \<open>None\<close> for a block the device does not have.  \<open>fpages\<close> holds
  the resident pages of each file with their dirty bit.  Page frames are taken to be available, and
  the page-out daemon does not run.  A \<open>uint32_t\<close> is a natural number; where the code converts it
  to \<open>int\<close> the model applies \<open>to_off\<close>.  The drivers are the record \<open>bdev\<close>: the character devices,
  what flushing the block device does, and the negative error code of a block the device does not have.
\<close>

subsection \<open>Data\<close>

definition S5_SUPER_BLOCK :: nat where "S5_SUPER_BLOCK = 0"
definition S5_NBLKS_PER_FNODE :: nat where "S5_NBLKS_PER_FNODE = 30"
definition S5_BLOCK_SIZE :: nat where "S5_BLOCK_SIZE = 4096"
definition S5_NDIRECT_BLOCKS :: nat where "S5_NDIRECT_BLOCKS = 28"
definition S5_NIDIRECT_BLOCKS :: nat where "S5_NIDIRECT_BLOCKS = 1024"
definition S5_MAX_FILE_BLOCKS :: nat where "S5_MAX_FILE_BLOCKS = 1052"
definition S5_NAME_LEN :: nat where "S5_NAME_LEN = 28"
definition S5_MAGIC :: nat where "S5_MAGIC = 29311"   \<comment> \<open>octal \<open>071177\<close>\<close>
definition S5_CURRENT_VERSION :: nat where "S5_CURRENT_VERSION = 3"

definition S5_TYPE_FREE :: nat where "S5_TYPE_FREE = 0"
definition S5_TYPE_DATA :: nat where "S5_TYPE_DATA = 1"
definition S5_TYPE_DIR :: nat where "S5_TYPE_DIR = 2"
definition S5_TYPE_CHR :: nat where "S5_TYPE_CHR = 4"
definition S5_TYPE_BLK :: nat where "S5_TYPE_BLK = 8"

lemmas s5_types = S5_TYPE_FREE_def S5_TYPE_DATA_def S5_TYPE_DIR_def S5_TYPE_CHR_def S5_TYPE_BLK_def

lemmas s5_sizes = S5_NBLKS_PER_FNODE_def S5_BLOCK_SIZE_def S5_NDIRECT_BLOCKS_def S5_NIDIRECT_BLOCKS_def
  S5_MAX_FILE_BLOCKS_def S5_NAME_LEN_def

definition NO_INODE :: nat where "NO_INODE = 2 ^ 32 - 1"  \<comment> \<open>\<open>(uint32_t) -1\<close>\<close>

record s5_super =
  s5s_magic :: nat
  s5s_free_inode :: nat
  s5s_nfree :: nat
  s5s_free_blocks :: "nat list"
  s5s_root_inode :: nat
  s5s_num_inodes :: nat
  s5s_version :: nat

text \<open>\<open>s5_un\<close> is the union of \<open>s5_next_free\<close> and \<open>s5_size\<close>.\<close>

record s5_inode =
  s5_un :: nat
  s5_number :: nat
  s5_type :: nat
  s5_linkcount :: int
  s5_direct_blocks :: "nat list"
  s5_indirect_block :: nat

record s5fs =
  s5f_super :: s5_super
  s5f_mutex :: bool
  inodes :: "nat \<Rightarrow> s5_inode"
  bdpages :: "nat \<Rightarrow> string option"
  disk :: "nat \<Rightarrow> string option"
  fpages :: "nat \<Rightarrow> nat \<Rightarrow> (string \<times> bool) option"
  vn_mutexes :: "nat set"
  s5_root_vn :: "nat option"

record bdev =
  bd_chars_byte :: "nat \<Rightarrow> nat option"
  bd_chars_block :: "nat \<Rightarrow> nat option"
  bd_char_read :: "nat \<Rightarrow> int \<Rightarrow> nat \<Rightarrow> kfault + (int \<times> string)"
  bd_char_write :: "nat \<Rightarrow> int \<Rightarrow> string \<Rightarrow> nat \<Rightarrow> kfault + int"
  bd_err :: int
  bd_flush :: "s5fs \<Rightarrow> s5fs"   \<comment> \<open>\<open>blockdev_flush_all\<close>\<close>
  bd_garbage :: string   \<comment> \<open>what the stack holds behind the terminator of a name\<close>

definition inode_upd :: "nat \<Rightarrow> (s5_inode \<Rightarrow> s5_inode) \<Rightarrow> s5fs \<Rightarrow> s5fs" where
  "inode_upd n f fs = fs\<lparr>inodes := (inodes fs)(n := f (inodes fs n))\<rparr>"

definition super_upd :: "(s5_super \<Rightarrow> s5_super) \<Rightarrow> s5fs \<Rightarrow> s5fs" where
  "super_upd f fs = fs\<lparr>s5f_super := f (s5f_super fs)\<rparr>"

subsection \<open>Words in a page\<close>

definition enc32 :: "nat \<Rightarrow> string" where
  "enc32 w = map (\<lambda>k. char_of (w div 256 ^ k)) [0..<4]"

definition dec32 :: "string \<Rightarrow> nat" where
  "dec32 b = (\<Sum>k<4. of_char (b ! k) * 256 ^ k)"

definition get32 :: "string \<Rightarrow> nat \<Rightarrow> nat" where
  "get32 p i = dec32 (take 4 (drop (4 * i) p))"

definition put32 :: "nat \<Rightarrow> nat \<Rightarrow> string \<Rightarrow> string" where
  "put32 i w p = take (4 * i) p @ enc32 w @ drop (4 * i + 4) p"

definition words :: "nat \<Rightarrow> string \<Rightarrow> nat list" where
  "words n p = map (get32 p) [0..<n]"

definition put_words :: "nat list \<Rightarrow> string \<Rightarrow> string" where
  "put_words ws p = concat (map enc32 ws) @ drop (4 * length ws) p"

definition zero_page :: string where
  "zero_page = replicate S5_BLOCK_SIZE NUL"

subsection \<open>The block device\<close>

definition enc_super :: "s5_super \<Rightarrow> string" where
  "enc_super s = concat (map enc32 ([s5s_magic s, s5s_free_inode s, s5s_nfree s] @ s5s_free_blocks s
     @ [s5s_root_inode s, s5s_num_inodes s, s5s_version s]))"

text \<open>\<open>pframe_get\<close> on the block device: the resident page, or the block is read.  Block 0 is the
  superblock.\<close>

definition bd_get :: "nat \<Rightarrow> s5fs \<Rightarrow> string option \<times> s5fs" where
  "bd_get b fs =
     (if b = S5_SUPER_BLOCK then
        (let sb = enc_super (s5f_super fs)
         in (map_option (\<lambda>p. sb @ drop (length sb) p) (disk fs b), fs))
      else case bdpages fs b of
        Some p \<Rightarrow> (Some p, fs)
      | None \<Rightarrow> (case disk fs b of
            None \<Rightarrow> (None, fs)
          | Some p \<Rightarrow> (Some p, fs\<lparr>bdpages := (bdpages fs)(b \<mapsto> p)\<rparr>)))"

definition bd_set :: "nat \<Rightarrow> string \<Rightarrow> s5fs \<Rightarrow> s5fs" where
  "bd_set b p fs = fs\<lparr>bdpages := (bdpages fs)(b \<mapsto> p)\<rparr>"

definition lock_s5 :: "s5fs \<Rightarrow> kfault + s5fs" where
  "lock_s5 fs = check (\<not> s5f_mutex fs) Sleeps_forever (Inr (fs\<lparr>s5f_mutex := True\<rparr>))"

definition unlock_s5 :: "s5fs \<Rightarrow> s5fs" where
  "unlock_s5 fs = fs\<lparr>s5f_mutex := False\<rparr>"

subsection \<open>Blocks\<close>

text \<open>The free blocks: the first \<open>s5s_nfree\<close> entries of the superblock, and behind the last entry
  a block that holds the next 30 entries.\<close>

definition s5_alloc_block :: "s5fs \<Rightarrow> kfault + (int \<times> s5fs)" where
  "s5_alloc_block fs =
     bnd (lock_s5 fs) (\<lambda>fs.
     let sb = s5f_super fs in
     if s5s_nfree sb = 0 then
       let b = s5s_free_blocks sb ! (S5_NBLKS_PER_FNODE - 1) in
       case bd_get b fs of
         (None, fs) \<Rightarrow> Inr (- ENOSPC, unlock_s5 fs)
       | (Some page, fs) \<Rightarrow>
           let fs = super_upd (\<lambda>sb. sb\<lparr>s5s_free_blocks := words S5_NBLKS_PER_FNODE page\<rparr>) fs;
               fs = fs\<lparr>disk := (disk fs)(b := map_option (\<lambda>_. zero_page) (disk fs b)),
                       bdpages := (bdpages fs)(b := None)\<rparr>;
               fs = super_upd (\<lambda>sb. sb\<lparr>s5s_nfree := S5_NBLKS_PER_FNODE - 1\<rparr>) fs
           in Inr (to_off b, unlock_s5 fs)
     else
       check (s5s_nfree sb \<le> S5_NBLKS_PER_FNODE) Wild_access (
       let b = s5s_free_blocks sb ! (s5s_nfree sb - 1);
           fs = super_upd (\<lambda>sb. sb\<lparr>s5s_nfree := s5s_nfree sb - 1\<rparr>) fs
       in Inr (to_off b, unlock_s5 fs)))"

definition s5_free_block :: "nat \<Rightarrow> s5fs \<Rightarrow> kfault + s5fs" where
  "s5_free_block blockno fs =
     bnd (lock_s5 fs) (\<lambda>fs.
     let sb = s5f_super fs in
     check (s5s_nfree sb < S5_NBLKS_PER_FNODE) Kassert_failed (
     if s5s_nfree sb = S5_NBLKS_PER_FNODE - 1 then
       case bd_get blockno fs of
         (None, fs) \<Rightarrow> Inl Wild_access
       | (Some page, fs) \<Rightarrow>
           let fs = bd_set blockno (put_words (s5s_free_blocks sb) page) fs;
               fs = super_upd (\<lambda>sb. sb\<lparr>s5s_nfree := 0,
                 s5s_free_blocks := (s5s_free_blocks sb)[S5_NBLKS_PER_FNODE - 1 := blockno]\<rparr>) fs
           in Inr (unlock_s5 fs)
     else
       Inr (unlock_s5 (super_upd (\<lambda>sb. sb\<lparr>s5s_nfree := s5s_nfree sb + 1,
         s5s_free_blocks := (s5s_free_blocks sb)[s5s_nfree sb := blockno]\<rparr>) fs))))"

text \<open>The page of the indirect block of an inode, allocated and zeroed when there is none.\<close>

definition indirect_page :: "bdev \<Rightarrow> nat \<Rightarrow> s5fs \<Rightarrow> kfault + (int \<times> string option \<times> s5fs)" where
  "indirect_page D ino fs =
     (if s5_indirect_block (inodes fs ino) = 0 then
        bnd (s5_alloc_block fs) (\<lambda>(block_num, fs).
        if block_num < 0 then Inr (block_num, None, fs)
        else case bd_get (nat block_num) fs of
            (None, fs) \<Rightarrow> Inr (bd_err D, None, fs)
          | (Some _, fs) \<Rightarrow>
              Inr (0, Some zero_page, inode_upd ino (s5_indirect_block_update (\<lambda>_. nat block_num))
                (bd_set (nat block_num) zero_page fs)))
      else case bd_get (s5_indirect_block (inodes fs ino)) fs of
          (None, fs) \<Rightarrow> Inr (bd_err D, None, fs)
        | (Some page, fs) \<Rightarrow> Inr (0, Some page, fs))"

definition s5_seek_to_block :: "bdev \<Rightarrow> nat \<Rightarrow> int \<Rightarrow> bool \<Rightarrow> s5fs \<Rightarrow> kfault + (int \<times> s5fs)" where
  "s5_seek_to_block D ino seekptr alloc fs =
     check (0 \<le> seekptr) Kassert_failed (
     let b = nat seekptr div S5_BLOCK_SIZE in
     if S5_NIDIRECT_BLOCKS + S5_NDIRECT_BLOCKS \<le> b then Inr (-1, fs)
     else if b < S5_NDIRECT_BLOCKS then
       let here = s5_direct_blocks (inodes fs ino) ! b in
       if here = 0 then
         if \<not> alloc then Inr (0, fs)
         else
           bnd (s5_alloc_block fs) (\<lambda>(block_num, fs).
           if block_num < 0 then Inr (block_num, fs)
           else Inr (block_num, inode_upd ino (\<lambda>i. i\<lparr>s5_direct_blocks :=
             (s5_direct_blocks i)[b := nat block_num]\<rparr>) fs))
       else Inr (to_off here, fs)
     else
       bnd (indirect_page D ino fs) (\<lambda>(ret, page, fs).
       case page of None \<Rightarrow> Inr (ret, fs)
       | Some page \<Rightarrow>
           let off = b - S5_NDIRECT_BLOCKS; here = get32 page off in
           if here = 0 then
             if \<not> alloc then Inr (0, fs)
             else
               bnd (s5_alloc_block fs) (\<lambda>(block_num, fs).
               if block_num < 0 then Inr (block_num, fs)
               else
                 Inr (block_num, bd_set (s5_indirect_block (inodes fs ino))
                   (put32 off (nat block_num) page) fs))
           else Inr (to_off here, fs)))"

end
