(* ===== verification/S5file.thy ===== *)
theory S5file
  imports S5block Vnode "HOL-Library.Signed_Division"
begin

text \<open>
  Inodes, vnodes and file pages of the System V file system: the inode and file functions of
  \<open>fs/s5fs/s5fs_subr.c\<close>, the \<open>fs_t\<close> and page entry points of \<open>fs/s5fs/s5fs.c\<close>, and \<open>pframe_get\<close>
  and \<open>pframe_dirty\<close> of \<open>mm/pframe.c\<close> on a vnode.

  \<open>vn_i\<close> of a vnode is the number of its inode.  An inode number outside the table of inodes stops
  the model.  A page of a file is named by its inode and its number in the file; bringing one in
  takes a reference to the vnode and counts as a resident page.
\<close>

type_synonym sstate = "s5fs kstate"

definition fs_upd :: "(s5fs \<Rightarrow> s5fs) \<Rightarrow> sstate \<Rightarrow> sstate" where
  "fs_upd f s = s\<lparr>fs_data := f (fs_data s)\<rparr>"

definition on_fs :: "(s5fs \<Rightarrow> kfault + ('a \<times> s5fs)) \<Rightarrow> sstate \<Rightarrow> kfault + ('a \<times> sstate)" where
  "on_fs f s = bnd (f (fs_data s)) (\<lambda>(x, fs). Inr (x, s\<lparr>fs_data := fs\<rparr>))"

definition to_s16 :: "int \<Rightarrow> int" where
  "to_s16 n = sint (word_of_int n :: 16 word)"

text \<open>\<open>vn_mutex\<close>; a thread that locks a mutex it holds sleeps with nobody to wake it.\<close>

definition vn_lock :: "nat \<Rightarrow> sstate \<Rightarrow> kfault + sstate" where
  "vn_lock vn s = check (vn \<notin> vn_mutexes (fs_data s)) Sleeps_forever
     (Inr (fs_upd (\<lambda>fs. fs\<lparr>vn_mutexes := insert vn (vn_mutexes fs)\<rparr>) s))"

definition vn_unlock :: "nat \<Rightarrow> sstate \<Rightarrow> sstate" where
  "vn_unlock vn s = fs_upd (\<lambda>fs. fs\<lparr>vn_mutexes := vn_mutexes fs - {vn}\<rparr>) s"

text \<open>\<open>VNODE_TO_S5INODE\<close>.\<close>

definition vn_inode :: "nat \<Rightarrow> sstate \<Rightarrow> kfault + (nat \<times> s5_inode)" where
  "vn_inode vn s = bnd (vn_get vn s) (\<lambda>v. Inr (vn_i v, inodes (fs_data s) (vn_i v)))"

subsection \<open>Inodes\<close>

definition s5_alloc_inode :: "nat \<Rightarrow> nat \<Rightarrow> s5fs \<Rightarrow> kfault + (int \<times> s5fs)" where
  "s5_alloc_inode type devid fs =
     check (type \<in> {S5_TYPE_DATA, S5_TYPE_DIR, S5_TYPE_CHR, S5_TYPE_BLK}) Kassert_failed (
     bnd (lock_s5 fs) (\<lambda>fs.
     let ino = s5s_free_inode (s5f_super fs) in
     if ino = NO_INODE then Inr (- ENOSPC, unlock_s5 fs)
     else
       check (ino < s5s_num_inodes (s5f_super fs)) Wild_access (
       let inode = inodes fs ino in
       check (s5_number inode = ino) Kassert_failed (
       let fs = super_upd (s5s_free_inode_update (\<lambda>_. s5_un inode)) fs;
           fs = inode_upd ino (\<lambda>i. i\<lparr>s5_un := 0, s5_type := type, s5_linkcount := 0,
                  s5_direct_blocks := replicate S5_NDIRECT_BLOCKS 0,
                  s5_indirect_block := (if type = S5_TYPE_CHR \<or> type = S5_TYPE_BLK then devid else 0)\<rparr>) fs
       in Inr (to_off (s5_number inode), unlock_s5 fs)))))"

text \<open>The loops of \<open>s5_free_inode\<close> over the direct blocks and over the words of the indirect block.\<close>

fun free_direct :: "nat \<Rightarrow> nat list \<Rightarrow> s5fs \<Rightarrow> kfault + s5fs" where
  "free_direct ino [] fs = Inr fs"
| "free_direct ino (i # is) fs =
     (let b = s5_direct_blocks (inodes fs ino) ! i in
      if b = 0 then free_direct ino is fs
      else
        bnd (s5_free_block b fs) (\<lambda>fs.
        free_direct ino is (inode_upd ino (\<lambda>n. n\<lparr>s5_direct_blocks := (s5_direct_blocks n)[i := 0]\<rparr>) fs)))"

fun free_words :: "nat \<Rightarrow> nat list \<Rightarrow> s5fs \<Rightarrow> kfault + s5fs" where
  "free_words indirect [] fs = Inr fs"
| "free_words indirect (b # bs) fs =
     check (b \<noteq> indirect) Kassert_failed (
     bnd (if b \<noteq> 0 then s5_free_block b fs else Inr fs) (\<lambda>fs. free_words indirect bs fs))"

definition s5_free_inode :: "nat \<Rightarrow> s5fs \<Rightarrow> kfault + s5fs" where
  "s5_free_inode ino fs =
     check (s5_type (inodes fs ino) \<in> {S5_TYPE_DATA, S5_TYPE_DIR, S5_TYPE_CHR, S5_TYPE_BLK}) Kassert_failed (
     bnd (free_direct ino [0..<S5_NDIRECT_BLOCKS] fs) (\<lambda>fs.
     let i = inodes fs ino; ind = s5_indirect_block i in
     bnd (if (s5_type i = S5_TYPE_DATA \<or> s5_type i = S5_TYPE_DIR) \<and> ind \<noteq> 0 then
            (case bd_get ind fs of
               (None, fs) \<Rightarrow> Inl Wild_access
             | (Some page, fs) \<Rightarrow>
                 bnd (free_words ind (words S5_NIDIRECT_BLOCKS page) fs) (\<lambda>fs. s5_free_block ind fs))
          else Inr fs) (\<lambda>fs.
     let fs = inode_upd ino (\<lambda>n. n\<lparr>s5_indirect_block := 0, s5_type := S5_TYPE_FREE\<rparr>) fs in
     bnd (lock_s5 fs) (\<lambda>fs.
     let fs = inode_upd ino (s5_un_update (\<lambda>_. s5s_free_inode (s5f_super fs))) fs;
         fs = super_upd (s5s_free_inode_update (\<lambda>_. s5_number (inodes fs ino))) fs
     in Inr (unlock_s5 fs)))))"

subsection \<open>Vnodes\<close>

definition s5fs_read_vnode :: "bdev \<Rightarrow> nat \<Rightarrow> sstate \<Rightarrow> kfault + sstate" where
  "s5fs_read_vnode D vn s =
     bnd (vn_lock vn s) (\<lambda>s.
     bnd (vn_get vn s) (\<lambda>v.
     let ino = vn_vno v in
     check (ino < s5s_num_inodes (s5f_super (fs_data s))) Wild_access (
     let s = fs_upd (inode_upd ino (s5_linkcount_update (\<lambda>n. to_s16 (n + 1)))) s;
         inode = inodes (fs_data s) ino;
         s = vn_upd vn (\<lambda>v. v\<lparr>vn_i := ino, vn_len := to_off (s5_un inode)\<rparr>) s in
     bnd (if s5_type inode = S5_TYPE_DIR then
            Inr (vn_upd vn (\<lambda>v. v\<lparr>vn_mode := S_IFDIR, vn_ops := Some Dir_vops\<rparr>) s)
          else if s5_type inode = S5_TYPE_DATA then
            Inr (vn_upd vn (\<lambda>v. v\<lparr>vn_mode := S_IFREG, vn_ops := Some File_vops\<rparr>) s)
          else if s5_type inode = S5_TYPE_CHR then
            Inr (vn_upd vn (\<lambda>v. v\<lparr>vn_mode := S_IFCHR, vn_ops := None, vn_devid := s5_indirect_block inode,
              vn_cdev := bd_chars_byte D (s5_indirect_block inode)\<rparr>) s)
          else if s5_type inode = S5_TYPE_BLK then
            Inr (vn_upd vn (\<lambda>v. v\<lparr>vn_mode := S_IFBLK, vn_ops := None, vn_devid := s5_indirect_block inode,
              vn_bdev := bd_chars_block D (s5_indirect_block inode)\<rparr>) s)
          else Inl Kernel_panic) (\<lambda>s.
     Inr (vn_unlock vn s)))))"

definition s5fs_delete_vnode :: "nat \<Rightarrow> sstate \<Rightarrow> kfault + sstate" where
  "s5fs_delete_vnode vn s =
     bnd (vn_lock vn s) (\<lambda>s.
     bnd (vn_get vn s) (\<lambda>v.
     let ino = vn_vno v;
         s = fs_upd (inode_upd ino (s5_linkcount_update (\<lambda>n. to_s16 (n - 1)))) s;
         inode = inodes (fs_data s) ino in
     check (vn_i v = ino) Kassert_failed (
     check (0 \<le> s5_linkcount inode) Kassert_failed (
     bnd (if s5_linkcount inode = 0 then s5_free_inode ino (fs_data s) else Inr (fs_data s)) (\<lambda>fs.
     Inr (vn_unlock vn (s\<lparr>fs_data := fs\<rparr>)))))))"

definition s5fs_query_vnode :: "nat \<Rightarrow> sstate \<Rightarrow> kfault + bool" where
  "s5fs_query_vnode vn s = bnd (vn_inode vn s) (\<lambda>(_, i). Inr (1 < s5_linkcount i))"

text \<open>\<open>pframe_free\<close> on every resident page of a vnode: each gives back its reference.\<close>

definition resident :: "nat \<Rightarrow> s5fs \<Rightarrow> nat list" where
  "resident ino fs = filter (\<lambda>b. fpages fs ino b \<noteq> None) [0..<S5_MAX_FILE_BLOCKS]"

definition s5_uncache :: "nat \<Rightarrow> sstate \<Rightarrow> kfault + sstate" where
  "s5_uncache vn s =
     bnd (vn_get vn s) (\<lambda>v.
     let n = int (length (resident (vn_i v) (fs_data s)));
         s = fs_upd (\<lambda>fs. fs\<lparr>fpages := (fpages fs)(vn_i v := (\<lambda>_. None))\<rparr>) s
     in Inr (vn_upd vn (\<lambda>v. v\<lparr>vn_refcount := vn_refcount v - n, vn_nrespages := vn_nrespages v - n\<rparr>) s))"

definition s5_vn :: "bdev \<Rightarrow> sstate kenv" where
  "s5_vn D = \<lparr>read_vnode = s5fs_read_vnode D, delete_vnode = Some s5fs_delete_vnode,
     query_vnode = s5fs_query_vnode, uncache = s5_uncache, vops_of = (\<lambda>_. no_vops),
     bytedev_lookup = bd_chars_byte D, blockdev_lookup = bd_chars_block D\<rparr>"

subsection \<open>Pages of a file\<close>

definition s5fs_fillpage :: "bdev \<Rightarrow> nat \<Rightarrow> int \<Rightarrow> sstate \<Rightarrow> kfault + (int \<times> string \<times> sstate)" where
  "s5fs_fillpage D vn offset s =
     bnd (vn_inode vn s) (\<lambda>(ino, _).
     bnd (on_fs (s5_seek_to_block D ino offset False) s) (\<lambda>(disk_number, s).
     if disk_number < 0 then Inr (disk_number, [], s)
     else if disk_number = 0 then Inr (0, zero_page, s)
     else case disk (fs_data s) (nat disk_number) of
         None \<Rightarrow> Inr (bd_err D, [], s)
       | Some page \<Rightarrow> Inr (0, page, s)))"

definition s5fs_dirtypage :: "bdev \<Rightarrow> nat \<Rightarrow> int \<Rightarrow> sstate \<Rightarrow> kfault + (int \<times> sstate)" where
  "s5fs_dirtypage D vn offset s =
     bnd (vn_inode vn s) (\<lambda>(ino, _).
     bnd (on_fs (s5_seek_to_block D ino offset False) s) (\<lambda>(sparse, s).
     if sparse < 0 then Inr (sparse, s)
     else if 0 < sparse then Inr (0, s)
     else
       bnd (on_fs (s5_seek_to_block D ino offset True) s) (\<lambda>(disk_number, s).
       if disk_number < 0 then Inr (disk_number, s) else Inr (0, s))))"

definition s5fs_cleanpage :: "bdev \<Rightarrow> nat \<Rightarrow> int \<Rightarrow> string \<Rightarrow> sstate \<Rightarrow> kfault + (int \<times> sstate)" where
  "s5fs_cleanpage D vn offset pagebuf s =
     bnd (vn_inode vn s) (\<lambda>(ino, _).
     bnd (on_fs (s5_seek_to_block D ino offset False) s) (\<lambda>(disk_number, s).
     if disk_number < 0 then Inr (disk_number, s)
     else case disk (fs_data s) (nat disk_number) of
         None \<Rightarrow> Inr (bd_err D, s)
       | Some _ \<Rightarrow> Inr (0, fs_upd (\<lambda>fs. fs\<lparr>disk := (disk fs)(nat disk_number \<mapsto> pagebuf)\<rparr>) s)))"

definition set_page :: "nat \<Rightarrow> nat \<Rightarrow> (string \<times> bool) option \<Rightarrow> s5fs \<Rightarrow> s5fs" where
  "set_page ino b p fs = fs\<lparr>fpages := (fpages fs)(ino := (fpages fs ino)(b := p))\<rparr>"

text \<open>\<open>pframe_get\<close> on a vnode.  The page number comes from a division of an \<open>off_t\<close>; a negative one
  makes the offset of the page negative, and \<open>s5_seek_to_block\<close> asserts that it is not.\<close>

definition pframe_get :: "bdev \<Rightarrow> nat \<Rightarrow> int \<Rightarrow> sstate \<Rightarrow> kfault + (int \<times> sstate)" where
  "pframe_get D vn pagenum s =
     bnd (vn_inode vn s) (\<lambda>(ino, _).
     check (0 \<le> pagenum) Kassert_failed (
     if fpages (fs_data s) ino (nat pagenum) \<noteq> None then Inr (0, s)
     else
       bnd (vref vn s) (\<lambda>s.
       let s = vn_upd vn (vn_nrespages_update (\<lambda>n. n + 1)) s in
       bnd (s5fs_fillpage D vn (pagenum * int PAGE_SIZE) s) (\<lambda>(ret, page, s).
       if ret < 0 then
         bnd (vput (s5_vn D) vn (vn_upd vn (vn_nrespages_update (\<lambda>n. n - 1)) s)) (\<lambda>s. Inr (ret, s))
       else Inr (0, fs_upd (set_page ino (nat pagenum) (Some (page, False))) s)))))"

definition pframe_dirty :: "bdev \<Rightarrow> nat \<Rightarrow> nat \<Rightarrow> sstate \<Rightarrow> kfault + (int \<times> sstate)" where
  "pframe_dirty D vn pagenum s =
     bnd (vn_inode vn s) (\<lambda>(ino, _).
     deref (fpages (fs_data s) ino pagenum) Wild_access (\<lambda>(page, dirty).
     bnd (if dirty then Inr (0, s) else s5fs_dirtypage D vn (int pagenum * int PAGE_SIZE) s) (\<lambda>(ret, s).
     Inr (ret, if ret = 0 then fs_upd (set_page ino pagenum (Some (page, True))) s else s))))"

end
