(* ===== verification/S5rw.thy ===== *)
theory S5rw
  imports S5file
begin

text \<open>
  \<open>s5_write_file\<close> and \<open>s5_read_file\<close> of \<open>fs/s5fs/s5fs_subr.c\<close>.  The user buffer of a write is the
  string \<open>bytes\<close>; a read returns the bytes it stored.  A copy that leaves a page or a buffer stops
  with \<open>Wild_access\<close>, as does the use of a page frame that \<open>pframe_get\<close> has freed again after an
  error (it leaves a pointer to it behind, so the tests for NULL do not see the error).  Division
  and remainder of an \<open>off_t\<close> round towards zero.
\<close>

definition S5_MAX_FILE_SIZE :: int where
  "S5_MAX_FILE_SIZE = int S5_MAX_FILE_BLOCKS * int S5_BLOCK_SIZE"

definition S5_DATA_BLOCK :: "int \<Rightarrow> int" where "S5_DATA_BLOCK pos = pos sdiv int S5_BLOCK_SIZE"
definition S5_DATA_OFFSET :: "int \<Rightarrow> int" where "S5_DATA_OFFSET pos = pos smod int S5_BLOCK_SIZE"

text \<open>Conversion of an \<open>off_t\<close> to \<open>uint32_t\<close>.\<close>

definition to_u32 :: "int \<Rightarrow> nat" where
  "to_u32 n = nat (n mod 2 ^ 32)"

text \<open>\<open>KASSERT((uint32_t) vnode->vn_len == VNODE_TO_S5INODE(vnode)->s5_size)\<close>.\<close>

definition len_agrees :: "vnode \<Rightarrow> s5_inode \<Rightarrow> bool" where
  "len_agrees v i \<longleftrightarrow> to_u32 (vn_len v) = s5_un i"

definition page_of :: "nat \<Rightarrow> nat \<Rightarrow> sstate \<Rightarrow> kfault + string" where
  "page_of vn b s = bnd (vn_inode vn s) (\<lambda>(ino, _).
     deref (fpages (fs_data s) ino b) Wild_access (\<lambda>(page, _). Inr page))"

definition put_bytes :: "nat \<Rightarrow> string \<Rightarrow> string \<Rightarrow> string" where
  "put_bytes off bytes page = take off page @ bytes @ drop (off + length bytes) page"

text \<open>\<open>memcpy\<close> into a resident page, then \<open>pframe_dirty\<close>, whose result the code ignores.\<close>

definition store :: "bdev \<Rightarrow> nat \<Rightarrow> nat \<Rightarrow> nat \<Rightarrow> string \<Rightarrow> sstate \<Rightarrow> kfault + sstate" where
  "store D vn b off bytes s =
     check (off + length bytes \<le> S5_BLOCK_SIZE) Wild_access (
     bnd (vn_inode vn s) (\<lambda>(ino, _).
     deref (fpages (fs_data s) ino b) Wild_access (\<lambda>(page, dirty).
     let s = fs_upd (set_page ino b (Some (put_bytes off bytes page, dirty))) s in
     bnd (pframe_dirty D vn b s) (\<lambda>(_, s). Inr s))))"

text \<open>\<open>s5_size\<close> and \<open>vn_len\<close> are set together.\<close>

definition set_size :: "nat \<Rightarrow> nat \<Rightarrow> sstate \<Rightarrow> kfault + sstate" where
  "set_size vn n s =
     bnd (vn_inode vn s) (\<lambda>(ino, _).
     Inr (vn_upd vn (vn_len_update (\<lambda>_. to_off n)) (fs_upd (inode_upd ino (s5_un_update (\<lambda>_. n))) s)))"

text \<open>The loop of \<open>s5_write_file\<close> over the \<open>n\<close> whole pages between the first and the last one.\<close>

fun write_mid :: "bdev \<Rightarrow> nat \<Rightarrow> nat \<Rightarrow> nat \<Rightarrow> string \<Rightarrow> sstate \<Rightarrow> kfault + (string \<times> sstate)" where
  "write_mid D vn b 0 bytes s = Inr (bytes, s)"
| "write_mid D vn b (Suc n) bytes s =
     bnd (pframe_get D vn (int b) s) (\<lambda>(ret, s).
     check (0 \<le> ret) Wild_access (
     check (S5_BLOCK_SIZE \<le> length bytes) Wild_access (
     bnd (store D vn b 0 (take S5_BLOCK_SIZE bytes) s) (\<lambda>s.
     write_mid D vn (Suc b) n (drop S5_BLOCK_SIZE bytes) s))))"

definition s5_write_file :: "bdev \<Rightarrow> nat \<Rightarrow> int \<Rightarrow> string \<Rightarrow> nat \<Rightarrow> sstate \<Rightarrow> kfault + (int \<times> sstate)" where
  "s5_write_file D vn seek bytes len s =
     bnd (vn_get vn s) (\<lambda>v.
     bnd (vn_inode vn s) (\<lambda>(_, i).
     check (len_agrees v i) Kassert_failed (
     let end_pos = min (int (to_u32 (seek + int len))) S5_MAX_FILE_SIZE;
         start_block = S5_DATA_BLOCK seek; start_block_offset = S5_DATA_OFFSET seek;
         end_block = S5_DATA_BLOCK end_pos; end_block_offset = S5_DATA_OFFSET end_pos in
     bnd (pframe_get D vn start_block s) (\<lambda>(ret, s).
     if ret < 0 then Inr (ret, s)
     else
       bnd (pframe_get D vn end_block s) (\<lambda>(ret, s).
       if ret < 0 then Inr (ret, s)
       else if start_block = end_block then
         check (0 \<le> start_block_offset \<and> len \<le> length bytes
                \<and> nat start_block_offset + len \<le> S5_BLOCK_SIZE) Wild_access (
         check (start_block_offset + int len = end_block_offset) Kassert_failed (
         bnd (store D vn (nat start_block) (nat start_block_offset) (take len bytes) s) (\<lambda>s.
         bnd (set_size vn (to_u32 (max end_pos (vn_len v))) s) (\<lambda>s.
         Inr (to_off len, s)))))
       else
         check (0 \<le> start_block_offset \<and> start_block < end_block) Wild_access (
         let first = S5_BLOCK_SIZE - nat start_block_offset;
             mid = nat (end_block - start_block - 1);
             num_bytes = first + mid * S5_BLOCK_SIZE in
         check (first \<le> length bytes) Wild_access (
         bnd (store D vn (nat start_block) (nat start_block_offset) (take first bytes) s) (\<lambda>s.
         bnd (set_size vn (max (to_u32 (seek + int first)) (to_u32 (vn_len v))) s) (\<lambda>s.
         bnd (write_mid D vn (Suc (nat start_block)) mid (drop first bytes) s) (\<lambda>(bytes, s).
         check (num_bytes \<le> len \<and> len - num_bytes \<le> length bytes) Wild_access (
         bnd (store D vn (nat end_block) 0 (take (len - num_bytes) bytes) s) (\<lambda>s.
         bnd (vn_get vn s) (\<lambda>v.
         bnd (set_size vn (to_u32 (max end_pos (vn_len v))) s) (\<lambda>s.
         Inr (to_off len, s)))))))))))))))"

text \<open>\<open>memcpy\<close> of \<open>n\<close> bytes at \<open>off\<close> of a page to the destination, which has \<open>len\<close> bytes; \<open>out\<close> is
  what has been copied so far.\<close>

definition copy_out :: "nat \<Rightarrow> int \<Rightarrow> int \<Rightarrow> string \<Rightarrow> string \<Rightarrow> kfault + string" where
  "copy_out len off n page out =
     check (0 \<le> off \<and> 0 \<le> n \<and> off + n \<le> int (length page) \<and> int (length out) + n \<le> int len) Wild_access
       (Inr (out @ take (nat n) (drop (nat off) page)))"

lemma copy_out_eq_Inr:
  "copy_out len off n page out = Inr out' \<longleftrightarrow>
     0 \<le> off \<and> 0 \<le> n \<and> off + n \<le> int (length page) \<and> int (length out) + n \<le> int len
     \<and> out' = out @ take (nat n) (drop (nat off) page)"
  by (auto simp: copy_out_def check_eq_Inr)

text \<open>The loop \<open>while(1)\<close> of \<open>s5_read_file\<close>, at the position \<open>off\<close>, which it does not change.  It goes on
  for ever where the page at \<open>off\<close> is not the last one, but for the end of the destination.\<close>

function read_mid :: "bdev \<Rightarrow> nat \<Rightarrow> int \<Rightarrow> int \<Rightarrow> nat \<Rightarrow> string \<Rightarrow> sstate \<Rightarrow> kfault + (string \<times> sstate)" where
  "read_mid D vn off end_block len out s =
     (let block_number = S5_DATA_BLOCK off in
      bnd (pframe_get D vn block_number s) (\<lambda>(ret, s).
      check (0 \<le> ret) Wild_access (
      if block_number = end_block then Inr (out, s)
      else
        bnd (page_of vn (nat block_number) s) (\<lambda>tmp.
        bnd (copy_out len 0 (int S5_BLOCK_SIZE) tmp out) (\<lambda>out.
        read_mid D vn off end_block len out s)))))"
  by pat_completeness auto
termination
  by (relation "measure (\<lambda>(D, vn, off, end_block, len, out, s). len - length out)")
    (auto simp: copy_out_eq_Inr S5_BLOCK_SIZE_def)

declare read_mid.simps [simp del]

definition s5_read_file :: "bdev \<Rightarrow> nat \<Rightarrow> int \<Rightarrow> nat \<Rightarrow> sstate \<Rightarrow> kfault + (int \<times> string \<times> sstate)" where
  "s5_read_file D vn seek len s =
     bnd (vn_get vn s) (\<lambda>v.
     bnd (vn_inode vn s) (\<lambda>(_, i).
     check (len_agrees v i) Kassert_failed (
     if vn_len v \<le> seek then Inr (0, [], s)
     else
       let start_block = S5_DATA_BLOCK seek in
       bnd (pframe_get D vn start_block s) (\<lambda>(ret, s).
       if ret < 0 then Inr (ret, [], s)
       else
         bnd (sint32 (seek + to_off len)) (\<lambda>e.
         let end_pos = min e (vn_len v); end_block = S5_DATA_BLOCK end_pos in
         bnd (pframe_get D vn end_block s) (\<lambda>(ret, s).
         if ret < 0 then Inr (ret, [], s)
         else
           bnd (page_of vn (nat start_block) s) (\<lambda>start.
           if start_block = end_block then
             bnd (copy_out len (S5_DATA_OFFSET seek) (end_pos - seek) start []) (\<lambda>out.
             Inr (end_pos - seek, out, s))
           else
             bnd (copy_out len (S5_DATA_OFFSET seek) (int S5_BLOCK_SIZE - S5_DATA_OFFSET seek) start []) (\<lambda>out.
             bnd (sint32 (seek + int S5_BLOCK_SIZE - S5_DATA_OFFSET seek)) (\<lambda>off.
             bnd (read_mid D vn off end_block len out s) (\<lambda>(out, s).
             bnd (page_of vn (nat end_block) s) (\<lambda>last.
             bnd (copy_out len 0 (int len - int (length out)) last out) (\<lambda>out.
             Inr (to_off len, out, s)))))))))))))"

end
