(* ===== verification/S5dir.thy ===== *)
theory S5dir
  imports S5rw
begin

text \<open>
  Directories of the System V file system: the directory functions of \<open>fs/s5fs/s5fs_subr.c\<close>.  A
  directory is a file of entries of 32 bytes, an inode number and a name of 28 bytes.  A name is a
  string without its terminator; where the code copies 28 bytes behind a name, the bytes behind the
  terminator are the parameter \<open>bd_garbage\<close>.
\<close>

definition DIRENT_SIZE :: nat where "DIRENT_SIZE = 32"  \<comment> \<open>\<open>sizeof(s5_dirent_t)\<close>\<close>

definition KDIRENT_SIZE :: nat where "KDIRENT_SIZE = 40"  \<comment> \<open>\<open>sizeof(dirent_t)\<close>\<close>

text \<open>The string at the start of a block of memory; without a terminator \<open>strlen\<close> leaves the block.\<close>

definition cstr :: "string \<Rightarrow> kfault + string" where
  "cstr m = check (NUL \<in> set m) Wild_access (Inr (takeWhile (\<lambda>c. c \<noteq> NUL) m))"

definition dirent_ino :: "string \<Rightarrow> nat" where "dirent_ino d = dec32 (take 4 d)"
definition dirent_name :: "string \<Rightarrow> string" where "dirent_name d = take S5_NAME_LEN (drop 4 d)"

definition name_bytes :: "bdev \<Rightarrow> string \<Rightarrow> string" where
  "name_bytes D name = take S5_NAME_LEN (name @ [NUL] @ bd_garbage D)"

text \<open>The search for an entry, from \<open>offset\<close> on: the code of \<open>s5_find_dirent\<close> and
  \<open>s5_remove_dirent\<close>.  The result is an error code, or the entry and its offset.  The search reads
  at most one entry more than there are; \<open>fuel\<close> counts the rounds.\<close>

fun scan_dirents :: "nat \<Rightarrow> bdev \<Rightarrow> nat \<Rightarrow> string \<Rightarrow> nat \<Rightarrow> int \<Rightarrow> sstate
    \<Rightarrow> kfault + ((int + (string \<times> int)) \<times> sstate)" where
  "scan_dirents 0 D vn name namelen offset s = Inl Loops_forever"
| "scan_dirents (Suc fuel) D vn name namelen offset s =
     bnd (s5_read_file D vn offset DIRENT_SIZE s) (\<lambda>(bytes, tmp, s).
     if bytes < 0 then Inr (Inl bytes, s)
     else if bytes = 0 then Inr (Inl (- ENOENT), s)
     else if bytes \<noteq> int DIRENT_SIZE then Inr (Inl (-1), s)
     else
       bnd (cstr (dirent_name tmp)) (\<lambda>fname.
       if name_match fname name namelen then Inr (Inr (tmp, offset), s)
       else scan_dirents fuel D vn name namelen (offset + int DIRENT_SIZE) s))"

definition dir_fuel :: "vnode \<Rightarrow> nat" where
  "dir_fuel v = nat (vn_len v) div DIRENT_SIZE + 2"

definition s5_find_dirent :: "bdev \<Rightarrow> nat \<Rightarrow> string \<Rightarrow> nat \<Rightarrow> sstate \<Rightarrow> kfault + (int \<times> sstate)" where
  "s5_find_dirent D vn name namelen s =
     check (namelen \<le> S5_NAME_LEN - 1) Kassert_failed (
     bnd (vn_get vn s) (\<lambda>v.
     bnd (vn_inode vn s) (\<lambda>(_, i).
     check (len_agrees v i) Kassert_failed (
     if namelen = 0 then Inr (0, s)
     else
       bnd (scan_dirents (dir_fuel v) D vn name namelen 0 s) (\<lambda>(r, s).
       case r of Inl err \<Rightarrow> Inr (err, s)
       | Inr (tmp, _) \<Rightarrow> Inr (to_off (dirent_ino tmp), s))))))"

text \<open>The entry at \<open>offset\<close> is overwritten with the last one, unless it is the last one itself.  The
  result is negative when the code returns early.\<close>

definition move_last :: "bdev \<Rightarrow> nat \<Rightarrow> int \<Rightarrow> sstate \<Rightarrow> kfault + (int \<times> sstate)" where
  "move_last D vn offset s =
     bnd (vn_get vn s) (\<lambda>v.
     if offset + int DIRENT_SIZE < vn_len v then
       bnd (s5_read_file D vn (vn_len v - int DIRENT_SIZE) DIRENT_SIZE s) (\<lambda>(bytes2, last, s).
       if bytes2 < 0 then Inr (bytes2, s)
       else if bytes2 \<noteq> int DIRENT_SIZE then Inr (-1, s)
       else
         bnd (s5_write_file D vn offset last DIRENT_SIZE s) (\<lambda>(bytes2, s).
         Inr (if bytes2 < 0 then bytes2 else 0, s)))
     else Inr (0, s))"

definition s5_remove_dirent :: "bdev \<Rightarrow> nat \<Rightarrow> string \<Rightarrow> nat \<Rightarrow> sstate \<Rightarrow> kfault + (int \<times> sstate)" where
  "s5_remove_dirent D vn name namelen s =
     check (namelen \<le> S5_NAME_LEN - 1) Kassert_failed (
     bnd (vn_get vn s) (\<lambda>v.
     bnd (vn_inode vn s) (\<lambda>(_, i).
     check (len_agrees v i) Kassert_failed (
     check (to_u32 (vn_len v) mod DIRENT_SIZE = 0) Kassert_failed (
     bnd (scan_dirents (dir_fuel v) D vn name namelen 0 s) (\<lambda>(r, s).
     case r of Inl err \<Rightarrow> Inr (err, s)
     | Inr (tmp, offset) \<Rightarrow>
         bnd (move_last D vn offset s) (\<lambda>(ret, s).
         if ret < 0 then Inr (ret, s)
         else
           bnd (vn_get vn s) (\<lambda>v.
           bnd (set_size vn (to_u32 (vn_len v - int DIRENT_SIZE)) s) (\<lambda>s.
           bnd (vget (s5_vn D) (dirent_ino tmp) s) (\<lambda>(a, s).
           bnd (vn_inode a s) (\<lambda>(ino, _).
           let s = fs_upd (inode_upd ino (s5_linkcount_update (\<lambda>n. to_s16 (n - 1)))) s in
           bnd (vput (s5_vn D) a s) (\<lambda>s. Inr (0, s)))))))))))))"

definition s5_link :: "bdev \<Rightarrow> nat \<Rightarrow> nat \<Rightarrow> string \<Rightarrow> nat \<Rightarrow> sstate \<Rightarrow> kfault + (int \<times> sstate)" where
  "s5_link D parent child name namelen s =
     bnd (vn_get parent s) (\<lambda>pv.
     check (S_ISDIR (vn_mode pv)) Kassert_failed (
     bnd (vn_inode parent s) (\<lambda>(_, pi).
     check (len_agrees pv pi) Kassert_failed (
     bnd (vn_get child s) (\<lambda>cv.
     bnd (vn_inode child s) (\<lambda>(_, ci).
     check (len_agrees cv ci) Kassert_failed (
     bnd (s5_find_dirent D parent name namelen s) (\<lambda>(exist, s).
     if 0 \<le> exist then Inr (-1, s)
     else
       bnd (vn_inode child s) (\<lambda>(cino, ci).
       bnd (vn_get child s) (\<lambda>cv.
       check (s5_number ci = vn_vno cv) Kassert_failed (
       check (name_bytes D name ! namelen = NUL) Kassert_failed (
       bnd (vn_get parent s) (\<lambda>pv.
       bnd (vn_inode parent s) (\<lambda>(_, pi).
       check (len_agrees pv pi) Kassert_failed (
       bnd (s5_write_file D parent (to_off (s5_un pi))
              (enc32 (s5_number ci) @ name_bytes D name) DIRENT_SIZE s) (\<lambda>(bytes, s).
       if bytes = int DIRENT_SIZE then
         Inr (0, if name_match name ''.'' 1 then s
                 else fs_upd (inode_upd cino (s5_linkcount_update (\<lambda>n. to_s16 (n + 1)))) s)
       else Inr (bytes, s)))))))))))))))))"

definition s5_inode_blocks :: "nat \<Rightarrow> sstate \<Rightarrow> kfault + (int \<times> sstate)" where
  "s5_inode_blocks vn s =
     bnd (vn_inode vn s) (\<lambda>(_, i).
     let num = length (filter (\<lambda>b. b \<noteq> 0) (s5_direct_blocks i)) in
     case bd_get (s5_indirect_block i) (fs_data s) of
       (None, fs) \<Rightarrow> Inl Kassert_failed
     | (Some page, fs) \<Rightarrow>
         Inr (int (num + length (filter (\<lambda>w. w \<noteq> 0) (words S5_NIDIRECT_BLOCKS page))),
              s\<lparr>fs_data := fs\<rparr>))"

end
