(* ===== verification/S5fs.thy ===== *)
theory S5fs
  imports S5dir Ksyscall
begin

text \<open>
  The entry points of the System V file system: \<open>fs/s5fs/s5fs.c\<close>, with \<open>vnode_flush_all\<close> of
  \<open>fs/vnode.c\<close>, and the tables that link it with the virtual file system.
\<close>

subsection \<open>Directories\<close>

definition s5fs_lookup :: "bdev \<Rightarrow> nat \<Rightarrow> string \<Rightarrow> nat \<Rightarrow> sstate
    \<Rightarrow> kfault + (int \<times> nat option \<times> sstate)" where
  "s5fs_lookup D base name namelen s =
     check (namelen \<le> S5_NAME_LEN - 1) Kassert_failed (
     bnd (vn_lock base s) (\<lambda>s.
     bnd (s5_find_dirent D base name namelen s) (\<lambda>(inode_number, s).
     if inode_number < 0 then Inr (inode_number, None, vn_unlock base s)
     else
       bnd (vget (s5_vn D) (nat inode_number) s) (\<lambda>(a, s).
       Inr (0, Some a, vn_unlock base s)))))"

definition s5fs_create :: "bdev \<Rightarrow> nat \<Rightarrow> string \<Rightarrow> nat \<Rightarrow> sstate
    \<Rightarrow> kfault + (int \<times> nat option \<times> sstate)" where
  "s5fs_create D dir name namelen s =
     check (namelen \<le> NAME_LEN - 1) Kassert_failed (
     bnd (s5fs_lookup D dir name namelen s) (\<lambda>(r, _, s).
     check (r \<noteq> 0) Kassert_failed (
     bnd (vn_lock dir s) (\<lambda>s.
     bnd (on_fs (s5_alloc_inode S5_TYPE_DATA 0) s) (\<lambda>(ino, s).
     if ino < 0 then Inr (ino, None, vn_unlock dir s)
     else
       bnd (vget (s5_vn D) (nat ino) s) (\<lambda>(vn, s).
       bnd (s5_link D dir vn name namelen s) (\<lambda>(ret, s).
       if ret < 0 then
         bnd (vput (s5_vn D) vn s) (\<lambda>s. Inr (ret, None, vn_unlock dir s))
       else
         bnd (vn_inode vn s) (\<lambda>(_, i).
         check (s5_linkcount i = 2) Kassert_failed (
         bnd (vn_get vn s) (\<lambda>v.
         check (vn_refcount v = 1) Kassert_failed (
         Inr (0, Some vn, vn_unlock dir s))))))))))))"

definition s5fs_mknod :: "bdev \<Rightarrow> nat \<Rightarrow> string \<Rightarrow> nat \<Rightarrow> int \<Rightarrow> nat \<Rightarrow> sstate
    \<Rightarrow> kfault + (int \<times> sstate)" where
  "s5fs_mknod D dir name namelen mode devid s =
     check (S_ISCHR mode \<or> S_ISBLK mode) Kassert_failed (
     check (namelen \<le> S5_NAME_LEN - 1) Kassert_failed (
     bnd (s5fs_lookup D dir name namelen s) (\<lambda>(r, _, s).
     check (r \<noteq> 0) Kassert_failed (
     bnd (vn_lock dir s) (\<lambda>s.
     bnd (on_fs (s5_alloc_inode (if S_ISCHR mode then S5_TYPE_CHR else S5_TYPE_BLK) devid) s) (\<lambda>(ino, s).
     if ino < 0 then Inr (ino, vn_unlock dir s)
     else
       bnd (vget (s5_vn D) (nat ino) s) (\<lambda>(vn, s).
       bnd (s5_link D dir vn name namelen s) (\<lambda>(ret, s).
       if ret < 0 then
         bnd (vput (s5_vn D) vn s) (\<lambda>s. Inr (ret, vn_unlock dir s))
       else
         bnd (vn_get vn s) (\<lambda>v.
         check (vn_refcount v = 1) Kassert_failed (
         bnd (vput (s5_vn D) vn s) (\<lambda>s. Inr (0, vn_unlock dir s))))))))))))"

definition s5fs_link :: "bdev \<Rightarrow> nat \<Rightarrow> nat \<Rightarrow> string \<Rightarrow> nat \<Rightarrow> sstate \<Rightarrow> kfault + (int \<times> sstate)" where
  "s5fs_link D src dir name namelen s =
     check (namelen \<le> S5_NAME_LEN - 1) Kassert_failed (
     bnd (s5fs_lookup D dir name namelen s) (\<lambda>(r, _, s).
     check (r < 0) Kassert_failed (
     bnd (vn_lock dir s) (\<lambda>s.
     bnd (vn_lock src s) (\<lambda>s.
     bnd (vn_inode src s) (\<lambda>(_, i).
     bnd (s5_link D dir src name namelen s) (\<lambda>(ret, s).
     bnd (vn_inode src s) (\<lambda>(_, i').
     check (s5_linkcount i + 1 = s5_linkcount i') Kassert_failed (
     Inr (ret, vn_unlock dir (vn_unlock src s)))))))))))"

definition s5fs_unlink :: "bdev \<Rightarrow> nat \<Rightarrow> string \<Rightarrow> nat \<Rightarrow> sstate \<Rightarrow> kfault + (int \<times> sstate)" where
  "s5fs_unlink D dir name namelen s =
     check (namelen \<le> S5_NAME_LEN - 1) Kassert_failed (
     bnd (vn_lock dir s) (\<lambda>s.
     bnd (s5_remove_dirent D dir name namelen s) (\<lambda>(ret, s).
     Inr (ret, vn_unlock dir s))))"

text \<open>\<open>s5fs_mkdir\<close> links the new directory three times; after an error it gives up at once.\<close>

definition s5fs_mkdir :: "bdev \<Rightarrow> nat \<Rightarrow> string \<Rightarrow> nat \<Rightarrow> sstate \<Rightarrow> kfault + (int \<times> sstate)" where
  "s5fs_mkdir D dir name namelen s =
     check (namelen \<le> NAME_LEN - 1) Kassert_failed (
     bnd (s5fs_lookup D dir name namelen s) (\<lambda>(r, _, s).
     check (r < 0) Kassert_failed (
     bnd (vn_lock dir s) (\<lambda>s.
     bnd (vn_inode dir s) (\<lambda>(dino, di).
     let parent_link = s5_linkcount di in
     bnd (on_fs (s5_alloc_inode S5_TYPE_DIR 0) s) (\<lambda>(ino, s).
     if ino < 0 then Inr (ino, vn_unlock dir s)
     else
       bnd (vget (s5_vn D) (nat ino) s) (\<lambda>(vn, s).
       bnd (s5_link D dir vn name namelen s) (\<lambda>(ret, s).
       if ret < 0 then bnd (vput (s5_vn D) vn s) (\<lambda>s. Inr (-1, vn_unlock dir s))
       else
         bnd (s5_link D vn vn ''.'' 1 s) (\<lambda>(ret, s).
         if ret < 0 then bnd (vput (s5_vn D) vn s) (\<lambda>s. Inr (-1, vn_unlock dir s))
         else
           bnd (vn_inode vn s) (\<lambda>(_, ia).
           bnd (s5_link D vn dir ''..'' 2 s) (\<lambda>(ret, s).
           if ret < 0 then bnd (vput (s5_vn D) vn s) (\<lambda>s. Inr (-1, vn_unlock dir s))
           else
             bnd (vn_inode vn s) (\<lambda>(_, ib).
             check (s5_direct_blocks ia ! 0 = s5_direct_blocks ib ! 0) Kassert_failed (
             check (s5_linkcount ib = 2) Kassert_failed (
             check (parent_link + 1 = s5_linkcount (inodes (fs_data s) dino)) Kassert_failed (
             bnd (vput (s5_vn D) vn s) (\<lambda>s.
             check (ret = 0) Kassert_failed (Inr (ret, vn_unlock dir s))))))))))))))))))"

text \<open>The test for an empty directory compares with the size of two \<open>struct dirent\<close>, which are
  larger than the entries on the disk.\<close>

definition s5fs_rmdir :: "bdev \<Rightarrow> nat \<Rightarrow> string \<Rightarrow> nat \<Rightarrow> sstate \<Rightarrow> kfault + (int \<times> sstate)" where
  "s5fs_rmdir D parent name namelen s =
     check (namelen \<le> NAME_LEN - 1) Kassert_failed (
     bnd (vn_get parent s) (\<lambda>pv.
     bnd (vn_inode parent s) (\<lambda>(pino, pi).
     check (len_agrees pv pi) Kassert_failed (
     bnd (vn_lock parent s) (\<lambda>s.
     bnd (s5_find_dirent D parent name namelen s) (\<lambda>(inode_number, s).
     if inode_number < 0 then Inr (inode_number, vn_unlock parent s)
     else
       bnd (vget (s5_vn D) (nat inode_number) s) (\<lambda>(vn, s).
       bnd (vn_get vn s) (\<lambda>v.
       bnd (vn_inode vn s) (\<lambda>(_, i).
       if \<not> S_ISDIR (vn_mode v) then
         bnd (vput (s5_vn D) vn s) (\<lambda>s. Inr (- ENOTDIR, vn_unlock parent s))
       else if KDIRENT_SIZE * 2 < s5_un i then
         bnd (vput (s5_vn D) vn s) (\<lambda>s. Inr (- ENOTEMPTY, vn_unlock parent s))
       else
         bnd (s5_remove_dirent D parent name namelen s) (\<lambda>(ret, s).
         if ret < 0 then bnd (vput (s5_vn D) vn s) (\<lambda>s. Inr (ret, vn_unlock parent s))
         else
           let s = fs_upd (inode_upd pino (s5_linkcount_update (\<lambda>n. to_s16 (n - 1)))) s in
           bnd (vput (s5_vn D) vn s) (\<lambda>s. Inr (ret, vn_unlock parent s))))))))))))"

definition s5fs_readdir :: "bdev \<Rightarrow> nat \<Rightarrow> int \<Rightarrow> sstate \<Rightarrow> kfault + (int \<times> dirent option \<times> sstate)" where
  "s5fs_readdir D vn offset s =
     bnd (vn_get vn s) (\<lambda>v.
     check (S_ISDIR (vn_mode v)) Kassert_failed (
     bnd (s5_read_file D vn offset DIRENT_SIZE s) (\<lambda>(bytes, tmp, s).
     if bytes \<le> 0 then Inr (bytes, None, s)
     else Inr (bytes, Some \<lparr>d_ino = dirent_ino tmp,
            d_name = takeWhile (\<lambda>c. c \<noteq> NUL) (dirent_name tmp)\<rparr>, s))))"

subsection \<open>Files\<close>

definition s5fs_read :: "bdev \<Rightarrow> nat \<Rightarrow> int \<Rightarrow> nat \<Rightarrow> sstate \<Rightarrow> kfault + (int \<times> string \<times> sstate)" where
  "s5fs_read D vn offset len s =
     bnd (vn_lock vn s) (\<lambda>s.
     bnd (s5_read_file D vn offset len s) (\<lambda>(ret, buf, s). Inr (ret, buf, vn_unlock vn s)))"

definition s5fs_write :: "bdev \<Rightarrow> nat \<Rightarrow> int \<Rightarrow> string \<Rightarrow> nat \<Rightarrow> sstate \<Rightarrow> kfault + (int \<times> sstate)" where
  "s5fs_write D vn offset buf len s =
     bnd (vn_lock vn s) (\<lambda>s.
     bnd (s5_write_file D vn offset buf len s) (\<lambda>(ret, s). Inr (ret, vn_unlock vn s)))"

definition s5fs_stat :: "bdev \<Rightarrow> nat \<Rightarrow> sstate \<Rightarrow> kfault + (int \<times> kstat \<times> sstate)" where
  "s5fs_stat D vn s =
     bnd (vn_lock vn s) (\<lambda>s.
     bnd (vn_get vn s) (\<lambda>v.
     bnd (vn_inode vn s) (\<lambda>(_, i).
     bnd (s5_inode_blocks vn s) (\<lambda>(blocks, s).
     Inr (0, \<lparr>st_mode = vn_mode v, st_ino = to_off (vn_vno v), st_rdev = 0,
        st_nlink = s5_linkcount i - 1, st_size = to_off (s5_un i), st_blksize = int PAGE_SIZE,
        st_blocks = blocks\<rparr>, vn_unlock vn s)))))"

subsection \<open>Linking with the virtual file system\<close>

definition s5fs_dir_vops :: "bdev \<Rightarrow> sstate vnode_ops" where
  "s5fs_dir_vops D = no_vops\<lparr>op_create := Some (s5fs_create D), op_mknod := Some (s5fs_mknod D),
     op_lookup := Some (s5fs_lookup D), op_link := Some (s5fs_link D),
     op_unlink := Some (s5fs_unlink D), op_mkdir := Some (s5fs_mkdir D),
     op_rmdir := Some (s5fs_rmdir D), op_readdir := Some (s5fs_readdir D),
     op_stat := Some (s5fs_stat D)\<rparr>"

definition s5fs_file_vops :: "bdev \<Rightarrow> sstate vnode_ops" where
  "s5fs_file_vops D = no_vops\<lparr>op_read := Some (s5fs_read D), op_write := Some (s5fs_write D),
     op_stat := Some (s5fs_stat D)\<rparr>"

definition s5fs_vops :: "bdev \<Rightarrow> vops \<Rightarrow> sstate vnode_ops" where
  "s5fs_vops D p = (case p of
       Dir_vops \<Rightarrow> s5fs_dir_vops D
     | File_vops \<Rightarrow> s5fs_file_vops D
     | Bytedev_vops \<Rightarrow> bytedev_spec_vops
         (\<lambda>c off n s. bnd (bd_char_read D c off n) (\<lambda>(r, b). Inr (r, b, s)))
         (\<lambda>c off b n s. bnd (bd_char_write D c off b n) (\<lambda>r. Inr (r, s))) (s5fs_dir_vops D)
     | Blockdev_vops \<Rightarrow> blockdev_spec_vops (s5fs_dir_vops D))"

definition s5fs_env :: "bdev \<Rightarrow> sstate kenv" where
  "s5fs_env D = (s5_vn D)\<lparr>vops_of := s5fs_vops D\<rparr>"

subsection \<open>Mounting\<close>

text \<open>\<open>s5_check_super\<close>: true when the superblock is sound.\<close>

definition s5_check_super :: "s5_super \<Rightarrow> int" where
  "s5_check_super super =
     (if \<not> (s5s_magic super = S5_MAGIC
            \<and> (s5s_free_inode super < s5s_num_inodes super \<or> s5s_free_inode super = NO_INODE)
            \<and> s5s_root_inode super < s5s_num_inodes super) then -1
      else if s5s_version super \<noteq> S5_CURRENT_VERSION then -1
      else 0)"

text \<open>\<open>s5fs_mount\<close> on a device that was found; the state holds its contents.\<close>

definition s5fs_mount :: "bdev \<Rightarrow> sstate \<Rightarrow> kfault + (int \<times> sstate)" where
  "s5fs_mount D s =
     (if s5_check_super (s5f_super (fs_data s)) \<noteq> 0 then Inr (- KEINVAL, s)
      else
        let s = fs_upd (\<lambda>fs. fs\<lparr>s5f_mutex := False\<rparr>) s in
        bnd (vget (s5_vn D) (s5s_root_inode (s5f_super (fs_data s))) s) (\<lambda>(vn, s).
        Inr (0, fs_upd (\<lambda>fs. fs\<lparr>s5_root_vn := Some vn\<rparr>) s)))"

text \<open>\<open>calculate_refcounts\<close> on a directory and on its entries from \<open>offset\<close> on.  A directory is
  entered once, so the walk ends; \<open>fuel\<close> bounds the rounds of the model.\<close>

datatype walk = Node nat | Entries nat int

fun calculate_refcounts :: "nat \<Rightarrow> bdev \<Rightarrow> walk \<Rightarrow> (nat \<Rightarrow> int) \<Rightarrow> sstate
    \<Rightarrow> kfault + ((nat \<Rightarrow> int) \<times> sstate)" where
  "calculate_refcounts 0 D w counts s = Inl Loops_forever"
| "calculate_refcounts (Suc fuel) D (Node vn) counts s =
     bnd (vn_get vn s) (\<lambda>v.
     let counts = counts(vn_vno v := counts (vn_vno v) + 1) in
     if counts (vn_vno v) = 1 \<and> S_ISDIR (vn_mode v)
     then calculate_refcounts fuel D (Entries vn 0) counts s
     else Inr (counts, s))"
| "calculate_refcounts (Suc fuel) D (Entries vn offset) counts s =
     bnd (s5fs_readdir D vn offset s) (\<lambda>(ret, d, s).
     if ret \<le> 0 then check (ret = 0) Kassert_failed (Inr (counts, s))
     else
       deref d Wild_access (\<lambda>d.
       bnd (if strcmp (d_name d) ''.'' \<noteq> 0 then
              bnd (vget (s5_vn D) (d_ino d) s) (\<lambda>(child, s).
              bnd (calculate_refcounts fuel D (Node child) counts s) (\<lambda>(counts, s).
              bnd (vput (s5_vn D) child s) (\<lambda>s. Inr (counts, s))))
            else Inr (counts, s)) (\<lambda>(counts, s).
       bnd (sint32 (offset + ret)) (\<lambda>offset.
       calculate_refcounts fuel D (Entries vn offset) counts s))))"

text \<open>The comparison with the link counts of the inodes that were seen.\<close>

fun compare_counts :: "bdev \<Rightarrow> nat list \<Rightarrow> (nat \<Rightarrow> int) \<Rightarrow> sstate \<Rightarrow> kfault + (int \<times> sstate)" where
  "compare_counts D [] counts s = Inr (0, s)"
| "compare_counts D (i # is) counts s =
     (if counts i = 0 then compare_counts D is counts s
      else
        bnd (vget (s5_vn D) i s) (\<lambda>(vn, s).
        bnd (vn_inode vn s) (\<lambda>(_, inode).
        bnd (vput (s5_vn D) vn s) (\<lambda>s.
        bnd (compare_counts D is counts s) (\<lambda>(ret, s).
        Inr (if counts i \<noteq> s5_linkcount inode - 1 then -1 else ret, s))))))"

definition s5fs_check_refcounts :: "nat \<Rightarrow> bdev \<Rightarrow> sstate \<Rightarrow> kfault + (int \<times> sstate)" where
  "s5fs_check_refcounts fuel D s =
     deref (s5_root_vn (fs_data s)) Null_deref (\<lambda>root.
     bnd (calculate_refcounts fuel D (Node root) (\<lambda>_. 0) s) (\<lambda>(refcounts, s).
     bnd (vn_get root s) (\<lambda>v.
     let refcounts = refcounts(vn_vno v := refcounts (vn_vno v) - 1) in
     compare_counts D [0..<s5s_num_inodes (s5f_super (fs_data s))] refcounts s)))"

text \<open>\<open>vnode_flush_all\<close>: every dirty page of every vnode is written, then every page is freed, which
  gives back the references of the pages and may delete the vnode.\<close>

fun clean_pages :: "bdev \<Rightarrow> nat \<Rightarrow> nat list \<Rightarrow> sstate \<Rightarrow> kfault + sstate" where
  "clean_pages D vn [] s = Inr s"
| "clean_pages D vn (b # bs) s =
     bnd (vn_inode vn s) (\<lambda>(ino, _).
     bnd (case fpages (fs_data s) ino b of
            Some (page, True) \<Rightarrow>
              bnd (s5fs_cleanpage D vn (int b * int PAGE_SIZE) page s) (\<lambda>(err, s).
              check (err = 0) Kassert_failed (Inr (fs_upd (set_page ino b (Some (page, False))) s)))
          | _ \<Rightarrow> Inr s) (\<lambda>s.
     clean_pages D vn bs s))"

fun free_pages :: "bdev \<Rightarrow> nat \<Rightarrow> nat \<Rightarrow> nat list \<Rightarrow> sstate \<Rightarrow> kfault + sstate" where
  "free_pages D vn ino [] s = Inr s"
| "free_pages D vn ino (b # bs) s =
     bnd (vput (s5_vn D) vn (vn_upd vn (vn_nrespages_update (\<lambda>n. n - 1)) (fs_upd (set_page ino b None) s)))
       (\<lambda>s. free_pages D vn ino bs s)"

fun flush_vnodes :: "bdev \<Rightarrow> nat list \<Rightarrow> sstate \<Rightarrow> kfault + sstate" where
  "flush_vnodes D [] s = Inr s"
| "flush_vnodes D (vn # vns) s =
     bnd (vn_inode vn s) (\<lambda>(ino, _).
     bnd (clean_pages D vn (resident ino (fs_data s)) s) (flush_vnodes D vns))"

fun uncache_vnodes :: "bdev \<Rightarrow> nat list \<Rightarrow> sstate \<Rightarrow> kfault + sstate" where
  "uncache_vnodes D [] s = Inr s"
| "uncache_vnodes D (vn # vns) s =
     bnd (vn_inode vn s) (\<lambda>(ino, _).
     bnd (free_pages D vn ino (resident ino (fs_data s)) s) (uncache_vnodes D vns))"

definition vnode_flush_all :: "bdev \<Rightarrow> sstate \<Rightarrow> kfault + sstate" where
  "vnode_flush_all D s =
     bnd (flush_vnodes D (vnode_inuse_list s) s) (\<lambda>s. uncache_vnodes D (vnode_inuse_list s) s)"

definition s5fs_umount :: "nat \<Rightarrow> bdev \<Rightarrow> sstate \<Rightarrow> kfault + (int \<times> sstate)" where
  "s5fs_umount fuel D s =
     bnd (s5fs_check_refcounts fuel D s) (\<lambda>(_, s).
     bnd (vnode_flush_all D s) (\<lambda>s.
     deref (s5_root_vn (fs_data s)) Null_deref (\<lambda>root.
     bnd (vput (s5_vn D) root s) (\<lambda>s.
     Inr (0, fs_upd (bd_flush D) s)))))"

end
