(* ===== verification/S5refs.thy ===== *)
theory S5refs
  imports S5fs Ksys
begin

text \<open>
  The System V file system provides the interfaces of the virtual file system: \<open>vnode_env\<close> with its
  vnode operations and \<open>vfs_env\<close> with its tables.  A resident page holds a reference that is not an
  active one, so bringing a page in or dropping it moves no active reference, and every operation
  gives back the references it takes.
\<close>

subsection \<open>Operations on the data of the file system\<close>

lemma fs_upd_simps [simp]:
  "vnodes (fs_upd f s) = vnodes s" "next_vnode (fs_upd f s) = next_vnode s"
  "vnode_inuse_list (fs_upd f s) = vnode_inuse_list s" "kfiles (fs_upd f s) = kfiles s"
  "next_file (fs_upd f s) = next_file s" "p_files (fs_upd f s) = p_files s"
  "p_cwd (fs_upd f s) = p_cwd s" "vfs_root_vn (fs_upd f s) = vfs_root_vn s"
  "fs_data (fs_upd f s) = f (fs_data s)"
  by (simp_all add: fs_upd_def)

lemma same_counts_fs_upd: "same_counts s (fs_upd f s)"
  unfolding fs_upd_def by (rule same_counts_fs)

lemma moves_fs_upd: "moves e s t \<Longrightarrow> moves e s (fs_upd f t)"
  by (erule moves_trans_none) (rule moves_same [OF same_counts_fs_upd])

lemma moves_unlock: "moves e s t \<Longrightarrow> moves e s (vn_unlock a t)"
  unfolding vn_unlock_def by (rule moves_fs_upd)

lemma moves_fs_data: "moves e s t \<Longrightarrow> moves e s (t\<lparr>fs_data := fs\<rparr>)"
  by (erule moves_trans_none) (rule moves_fs)

lemmas s5_keep = moves_fs_upd moves_unlock moves_fs_data

lemma vn_inode_eq: "vn_inode vn s = Inr (ino, i) \<longleftrightarrow>
    (\<exists>v. vnodes s vn = Some v \<and> ino = vn_i v \<and> i = inodes (fs_data s) ino)"
  by (auto simp: vn_inode_def run_eq)

lemma vn_lock_eq: "vn_lock vn s = Inr s' \<longleftrightarrow> vn \<notin> vn_mutexes (fs_data s) \<and>
    s' = fs_upd (\<lambda>fs. fs\<lparr>vn_mutexes := insert vn (vn_mutexes fs)\<rparr>) s"
  by (auto simp: vn_lock_def check_eq_Inr)

lemma on_fs_eq: "on_fs f s = Inr (x, s') \<longleftrightarrow> (\<exists>fs. f (fs_data s) = Inr (x, fs) \<and> s' = s\<lparr>fs_data := fs\<rparr>)"
  by (auto simp: on_fs_def bnd_eq_Inr)

subsection \<open>The vnode layer\<close>

lemma s5fs_read_vnode_same:
  assumes "s5fs_read_vnode D vn s = Inr s'"
  shows "same_counts s s'"
proof -
  have u: "same_counts a (vn_upd vn f b)" if "same_counts a b"
    "\<And>v. vn_refcount (f v) = vn_refcount v" "\<And>v. vn_nrespages (f v) = vn_nrespages v" for a b f
    by (rule same_counts_trans [OF that(1) same_counts_upd]) (simp_all add: that)
  have w: "same_counts a (fs_upd f b)" if "same_counts a b" for a b f
    by (rule same_counts_trans [OF that same_counts_fs_upd])
  from assms show ?thesis
    by (auto simp: s5fs_read_vnode_def run_eq Let_def vn_lock_eq vn_unlock_def
        simp del: vn_upd_simps fs_upd_simps intro!: u w split: if_splits)
qed

lemma s5fs_delete_vnode_same:
  assumes "s5fs_delete_vnode vn s = Inr s'"
  shows "same_counts s s'"
proof -
  have w: "same_counts a (fs_upd f b)" if "same_counts a b" for a b f
    by (rule same_counts_trans [OF that same_counts_fs_upd])
  have x: "same_counts a (b\<lparr>fs_data := fs\<rparr>)" if "same_counts a b" for a :: sstate and b fs
    by (rule same_counts_trans [OF that same_counts_fs])
  from assms show ?thesis
    by (auto simp: s5fs_delete_vnode_def run_eq Let_def vn_lock_eq vn_unlock_def
        simp del: vn_upd_simps fs_upd_simps intro!: w x split: if_splits)
qed

lemma shift_moves:
  assumes "vnodes s vn = Some v" and "\<And>v. vn_refcount (f v) - vn_nrespages (f v)
      = vn_refcount v - vn_nrespages v + d"
  shows "moves (\<lambda>x. d * one vn x) s (vn_upd vn f s)"
  using assms by (auto simp: moves_def vn_fresh_def vfs_same_def vrefs_def one_def split: option.splits)

lemma s5_uncache_moves:
  assumes "s5_uncache vn s = Inr s'"
  shows "moves none s s'"
proof -
  from assms [unfolded s5_uncache_def] obtain v where v: "vn_get vn s = Inr v" and
    s': "(let n = int (length (resident (vn_i v) (fs_data s)));
         s = fs_upd (\<lambda>fs. fs\<lparr>fpages := (fpages fs)(vn_i v := (\<lambda>_. None))\<rparr>) s
     in Inr (vn_upd vn (\<lambda>v. v\<lparr>vn_refcount := vn_refcount v - n, vn_nrespages := vn_nrespages v - n\<rparr>) s))
       = (Inr s' :: kfault + sstate)"
    by (rule bnd_InrE)
  let ?n = "int (length (resident (vn_i v) (fs_data s)))"
  let ?s = "fs_upd (\<lambda>fs. fs\<lparr>fpages := (fpages fs)(vn_i v := (\<lambda>_. None))\<rparr>) s"
  have eq: "s' = vn_upd vn (\<lambda>v. v\<lparr>vn_refcount := vn_refcount v - ?n, vn_nrespages := vn_nrespages v - ?n\<rparr>) ?s"
    using s' by (simp only: Let_def sum.inject)
  have "vnodes ?s vn = Some v" using v by (simp only: vn_get_eq fs_upd_simps)
  then have "moves (\<lambda>x. 0 * one vn x) ?s s'" unfolding eq by (rule shift_moves) simp
  with moves_fs_upd [OF moves_refl] show ?thesis by (rule moves_trans) (simp add: none_def)
qed

interpretation s5vn: vnode_env "s5_vn D" for D
  by unfold_locales (auto simp: s5_vn_def s5fs_read_vnode_same s5fs_delete_vnode_same s5_uncache_moves)

interpretation s5env: vnode_env "s5fs_env D" for D
  by unfold_locales
    (auto simp: s5fs_env_def s5_vn_def s5fs_read_vnode_same s5fs_delete_vnode_same s5_uncache_moves)

subsection \<open>Pages\<close>

definition only_fs :: "sstate \<Rightarrow> sstate \<Rightarrow> bool" where
  "only_fs s s' \<longleftrightarrow> (\<exists>fs. s' = s\<lparr>fs_data := fs\<rparr>)"

lemma only_fs_refl: "only_fs s s"
  by (auto simp: only_fs_def intro: exI [of _ "fs_data s"])

lemma only_fs_data: "only_fs s t \<Longrightarrow> only_fs s (t\<lparr>fs_data := fs\<rparr>)"
  by (auto simp: only_fs_def)

lemma only_fs_upd: "only_fs s t \<Longrightarrow> only_fs s (fs_upd f t)"
  unfolding fs_upd_def by (rule only_fs_data)

lemma only_fs_trans: "only_fs s t \<Longrightarrow> only_fs t u \<Longrightarrow> only_fs s u"
  by (auto simp: only_fs_def)

lemmas only_rules = ends_bnd ends_if ends_option ends_Inr ends_check ends_deref
  only_fs_refl only_fs_data only_fs_upd

lemma s5fs_fillpage_state: "ends (s5fs_fillpage D vn off s) (\<lambda>(r, p, s'). only_fs s s')"
  unfolding s5fs_fillpage_def by (auto intro!: only_rules simp: on_fs_eq)

lemma s5fs_dirtypage_state: "ends (s5fs_dirtypage D vn off s) (\<lambda>(r, s'). only_fs s s')"
  unfolding s5fs_dirtypage_def by (auto intro!: only_rules simp: on_fs_eq)

lemma pframe_dirty_state: "ends (pframe_dirty D vn b s) (\<lambda>(r, s'). only_fs s s')"
  unfolding pframe_dirty_def
  by (auto intro!: only_rules split: if_splits dest: ends_InrD [OF s5fs_dirtypage_state])

lemma store_state: "ends (store D vn b off bytes s) (\<lambda>s'. only_fs s s')"
  unfolding store_def Let_def
  by (auto intro!: only_rules dest!: ends_InrD [OF pframe_dirty_state]
      intro: only_fs_trans [OF only_fs_upd [OF only_fs_refl]])

lemma pframe_get_moves:
  assumes "pframe_get D vn b s = Inr (r, s')"
  shows "moves none s s'"
proof (cases "s' = s")
  case False
  let ?up = "vn_upd vn (vn_nrespages_update (\<lambda>n. n + 1))"
  let ?down = "vn_upd vn (vn_nrespages_update (\<lambda>n. n - 1))"
  from assms False obtain ino i s1 ret page s2 where s1: "vref vn s = Inr s1"
    and f: "s5fs_fillpage D vn (b * int PAGE_SIZE) (?up s1) = Inr (ret, page, s2)"
    and r: "(if ret < 0 then bnd (vput (s5_vn D) vn (?down s2)) (\<lambda>s. Inr (ret, s))
       else Inr (0, fs_upd (set_page ino (nat b) (Some (page, False))) s2)) = Inr (r, s')"
    by (auto simp: pframe_get_def run_eq Let_def vn_inode_eq split: if_splits)
  obtain v1 where v1: "vnodes s1 vn = Some v1"
    using s1 by (auto simp: vref_def run_eq)
  have up: "moves (\<lambda>x. (- 1) * one vn x) s1 (?up s1)"
    by (rule shift_moves [OF v1]) simp
  have a: "moves none s (?up s1)"
    by (rule moves_trans [OF vref_moves [OF s1] up]) (simp add: none_def)
  obtain fs where s2: "s2 = (?up s1)\<lparr>fs_data := fs\<rparr>"
    using ends_InrD [OF s5fs_fillpage_state f] by (auto simp: only_fs_def)
  have b: "moves none s s2"
    unfolding s2 by (rule moves_fs_data [OF a])
  show ?thesis
  proof (cases "ret < 0")
    case True
    with r obtain s3 where s3: "vput (s5_vn D) vn (?down s2) = Inr s3" and s': "s' = s3"
      by (auto simp: bnd_eq_Inr)
    have v2: "\<exists>v. vnodes s2 vn = Some v"
      using v1 by (simp add: s2)
    then have down: "moves (\<lambda>x. 1 * one vn x) s2 (?down s2)"
      by (elim exE) (rule shift_moves, auto)
    have "moves (one vn) s (?down s2)"
      by (rule moves_trans [OF b down]) (simp add: none_def)
    from moves_back [OF this s5vn.vput_moves [OF s3]] show ?thesis by (simp add: s')
  next
    case False
    with r have "s' = fs_upd (set_page ino (nat b) (Some (page, False))) s2" by simp
    then show ?thesis using moves_fs_upd [OF b] by simp
  qed
qed simp

subsection \<open>Files and directories\<close>

lemma moves_if: "moves e s t \<Longrightarrow> moves e s u \<Longrightarrow> moves e s (if c then t else u)"
  by simp

lemmas s5_keep' = s5_keep moves_if

text \<open>A step that moves no reference, then the rest.\<close>

lemma ends_then:
  assumes "moves e s t" and "ends m (\<lambda>(r, s1). moves none t s1)"
    and "\<And>r s1. moves e s s1 \<Longrightarrow> ends (K r s1) Q"
  shows "ends (bnd m (\<lambda>(r, s). K r s)) Q"
proof (rule ends_bnd)
  fix y assume y: "m = Inr y"
  obtain r s1 where eq: "y = (r, s1)" by (cases y)
  from ends_InrD [OF assms(2) y] have "moves none t s1" by (simp add: eq)
  from assms(3) [OF moves_trans_none [OF assms(1) this]]
  show "ends (case y of (r, s) \<Rightarrow> K r s) Q" by (simp add: eq)
qed

lemma ends_then1:
  assumes "moves e s t" and "ends m (\<lambda>s1. moves none t s1)"
    and "\<And>s1. moves e s s1 \<Longrightarrow> ends (K s1) Q"
  shows "ends (bnd m K) Q"
  by (rule ends_bnd) (rule assms(3), rule moves_trans_none [OF assms(1)], rule ends_InrD [OF assms(2)])

lemma ends_then3:
  assumes "moves e s t" and "ends m (\<lambda>(r, b, s1). moves none t s1)"
    and "\<And>r b s1. moves e s s1 \<Longrightarrow> ends (K r b s1) Q"
  shows "ends (bnd m (\<lambda>(r, b, s). K r b s)) Q"
proof (rule ends_bnd)
  fix y assume y: "m = Inr y"
  obtain r b s1 where eq: "y = (r, b, s1)" by (cases y)
  from ends_InrD [OF assms(2) y] have "moves none t s1" by (simp add: eq)
  from assms(3) [OF moves_trans_none [OF assms(1) this]]
  show "ends (case y of (r, b, s) \<Rightarrow> K r b s) Q" by (simp add: eq)
qed

lemma on_fs_moves: "ends (on_fs f s) (\<lambda>(r, s'). moves none s s')"
  by (auto simp: on_fs_eq ends_def intro: moves_fs_data)

lemma vn_lock_moves: "ends (vn_lock vn s) (\<lambda>s'. moves none s s')"
  by (auto simp: vn_lock_eq ends_def intro: moves_fs_upd)

lemma only_fs_moves: "only_fs s s' \<Longrightarrow> moves none s s'"
  by (auto simp: only_fs_def intro: moves_fs_data)

lemma store_moves: "ends (store D vn b off bytes s) (\<lambda>s'. moves none s s')"
  using store_state [of D vn b off bytes s] by (auto simp: ends_def intro: only_fs_moves)

lemma pframe_get_ends: "ends (pframe_get D vn b s) (\<lambda>(r, s'). moves none s s')"
  by (auto simp: ends_def intro: pframe_get_moves)

lemma set_size_moves: "ends (set_size vn n s) (\<lambda>s'. moves none s s')"
proof -
  have "moves none s (vn_upd vn (vn_len_update f) (fs_upd g s))" for f g
    by (rule moves_trans_none [OF moves_fs_upd [OF moves_refl]], rule moves_same, rule same_counts_upd)
      simp_all
  then show ?thesis by (auto simp: set_size_def ends_def bnd_eq_Inr vn_inode_eq)
qed

lemma vn_inode_ends: "(\<And>a i. ends (K a i) Q) \<Longrightarrow> ends (bnd (vn_inode d t) (\<lambda>(a, i). K a i)) Q"
  by (rule ends_bnd) auto

lemmas s5_pages = ends_then [OF _ pframe_get_ends] ends_then [OF _ on_fs_moves]
  ends_then1 [OF _ vn_lock_moves] ends_then1 [OF _ store_moves] ends_then1 [OF _ set_size_moves]
  s5vn.vput_ends s5vn.vget_ends

lemmas s5_passes = ends_case_None ends_case_Some ends_vn_get vn_inode_ends ends_if ends_check
  ends_deref ends_option

lemmas s5_pure = ends_bnd [of "sint32 x" for x] ends_bnd [of "page_of a b s" for a b s]
  ends_bnd [of "cstr m" for m] ends_bnd [of "copy_out l off n p m" for l off n p m]

lemma write_mid_moves: "ends (write_mid D vn b n bytes s) (\<lambda>(r, s'). moves none s s')"
proof (induction n arbitrary: b bytes s)
  case 0
  show ?case by (simp add: ends_Inr)
next
  case (Suc n)
  have tail: "ends (write_mid D vn c n d t) (\<lambda>(r, s'). moves none s s')" if "moves none s t" for c d t
    using Suc.IH [of c d t] moves_trans_none [OF that] by (fastforce simp: ends_def)
  show ?case
    unfolding write_mid.simps
    by (insert moves_refl [of s]) (((rule s5_pages, assumption) | rule s5_passes | rule tail, assumption)+)
qed

lemma s5_write_file_moves: "ends (s5_write_file D vn seek bytes len s) (\<lambda>(r, s'). moves none s s')"
  unfolding s5_write_file_def Let_def
  by (insert moves_refl [of s])
    (((rule s5_pages ends_then [OF _ write_mid_moves], assumption) | rule s5_passes
      | (erule ends_moved, simp))+)

lemma read_mid_moves: "ends (read_mid D vn off b len out s) (\<lambda>(r, s'). moves none s s')"
proof (induction "len - length out" arbitrary: out s rule: less_induct)
  case less
  have tail: "ends (read_mid D vn off b len out' t) (\<lambda>(r, s'). moves none s s')"
    if "copy_out len 0 (int S5_BLOCK_SIZE) p out = Inr out'" and "moves none s t" for p out' t
  proof -
    have "len - length out' < len - length out" using that(1) by (auto simp: copy_out_eq_Inr S5_BLOCK_SIZE_def)
    from less [OF this, of t] moves_trans_none [OF that(2)] show ?thesis by (fastforce simp: ends_def)
  qed
  show ?case
    unfolding read_mid.simps [of D vn off b len out s] Let_def
    by (insert moves_refl [of s])
      (((rule s5_pages, assumption) | rule s5_passes s5_pure | (rule tail, assumption, assumption) | (erule ends_moved, simp))+)
qed

lemma s5_read_file_moves: "ends (s5_read_file D vn seek len s) (\<lambda>(r, b, s'). moves none s s')"
  unfolding s5_read_file_def Let_def
  by (insert moves_refl [of s])
    (((rule s5_pages ends_then [OF _ read_mid_moves], assumption) | rule s5_passes s5_pure | (erule ends_moved2, simp))+)

lemma scan_dirents_moves: "ends (scan_dirents n D vn nm l off s) (\<lambda>(r, s'). moves none s s')"
proof (induction n arbitrary: off s)
  case 0
  show ?case by (simp add: ends_Inl)
next
  case (Suc n)
  have tail: "ends (scan_dirents n D vn nm l c t) (\<lambda>(r, s'). moves none s s')" if "moves none s t" for c t
    using Suc.IH [of c t] moves_trans_none [OF that] by (fastforce simp: ends_def)
  show ?case
    unfolding scan_dirents.simps
    by (insert moves_refl [of s])
      (((rule s5_pages ends_then3 [OF _ s5_read_file_moves] tail, assumption) | rule s5_passes s5_pure
        | (erule ends_moved, simp))+)
qed

lemma ends_sum:
  "(\<And>e. r = Inl e \<Longrightarrow> ends (f e) Q) \<Longrightarrow> (\<And>a b. r = Inr (a, b) \<Longrightarrow> ends (g a b) Q) \<Longrightarrow>
   ends (case r of Inl e \<Rightarrow> f e | Inr (a, b) \<Rightarrow> g a b) Q"
  by (cases r) auto

lemmas s5_calls = s5_pages ends_then3 [OF _ s5_read_file_moves] ends_then [OF _ s5_write_file_moves]
  ends_then [OF _ scan_dirents_moves]

lemma s5_find_dirent_moves: "ends (s5_find_dirent D vn nm l s) (\<lambda>(r, s'). moves none s s')"
  unfolding s5_find_dirent_def
  by (insert moves_refl [of s])
    (((rule s5_calls, assumption) | rule s5_passes ends_sum | (erule ends_moved, simp))+)

lemma move_last_moves: "ends (move_last D vn off s) (\<lambda>(r, s'). moves none s s')"
  unfolding move_last_def
  by (insert moves_refl [of s])
    (((rule s5_calls, assumption) | rule s5_passes | (erule ends_moved, simp))+)

lemma s5_remove_dirent_moves: "ends (s5_remove_dirent D vn nm l s) (\<lambda>(r, s'). moves none s s')"
  unfolding s5_remove_dirent_def Let_def
  by (insert moves_refl [of s])
    (((rule s5_calls ends_then [OF _ move_last_moves], (rule s5_keep)?, assumption)
      | rule s5_passes ends_sum | (erule ends_moved, force simp: none_def))+)

lemma s5_inode_blocks_moves: "ends (s5_inode_blocks vn s) (\<lambda>(r, s'). moves none s s')"
  unfolding s5_inode_blocks_def Let_def
  by (rule vn_inode_ends)
    (auto simp: ends_def intro: moves_fs_data [OF moves_refl] split: prod.split option.split)

lemma s5_link_moves: "ends (s5_link D p c nm l s) (\<lambda>(r, s'). moves none s s')"
  unfolding s5_link_def
  by (insert moves_refl [of s])
    (((rule s5_calls ends_then [OF _ s5_find_dirent_moves], assumption)
      | rule s5_passes | (rule ends_moved, ((rule s5_keep')+)?, assumption+, force simp: none_def)
      | (rule ends_moved, rule moves_if, assumption, rule moves_fs_upd, assumption, simp))+)

subsection \<open>Entry points\<close>

lemma s5fs_lookup_found: "ends (s5fs_lookup D d nm l s) (\<lambda>(r, res, s'). found r res s s')"
  unfolding s5fs_lookup_def
  by (insert moves_refl [of s])
    (((rule s5_calls ends_then [OF _ s5_find_dirent_moves], assumption) | rule s5_passes
      | (rule found_end, (rule s5_keep)?, assumption, force simp: none_def)
      | (rule not_found_end, (rule s5_keep)?, assumption, force, assumption))+)

lemma s5fs_lookup_ends:
  assumes "moves e s t"
    and "\<And>a s1. moves (\<lambda>x. e x + one a x) s s1 \<Longrightarrow> ends (K 0 (Some a) s1) Q"
    and "\<And>r s1. r < 0 \<Longrightarrow> moves e s s1 \<Longrightarrow> ends (K r None s1) Q"
  shows "ends (bnd (s5fs_lookup D d nm l t) (\<lambda>(ret, t, s). K ret t s)) Q"
proof (rule ends_bnd)
  fix y assume y: "s5fs_lookup D d nm l t = Inr y"
  obtain ret res s1 where eq: "y = (ret, res, s1)" by (cases y)
  have "found ret res t s1" using ends_InrD [OF s5fs_lookup_found y] by (simp add: eq)
  then show "ends (case y of (ret, t, s) \<Rightarrow> K ret t s) Q"
    unfolding eq prod.case found_def
  proof (elim disjE conjE exE)
    fix a assume a: "ret = 0" "res = Some a" "moves (one a) t s1"
    show "ends (K ret res s1) Q"
      unfolding a(1,2) by (rule assms(2), rule moves_trans [OF assms(1) a(3)]) simp
  next
    assume a: "ret < 0" "res = None" "moves none t s1"
    show "ends (K ret res s1) Q"
      unfolding a(2) by (rule assms(3) [OF a(1) moves_trans_none [OF assms(1) a(3)]])
  qed
qed

lemmas s5_ops = s5fs_lookup_ends s5_calls ends_then [OF _ s5_link_moves]
  ends_then [OF _ s5_find_dirent_moves] ends_then [OF _ s5_remove_dirent_moves]
  ends_then [OF _ s5_inode_blocks_moves]

lemma s5fs_create_found: "ends (s5fs_create D d nm l s) (\<lambda>(r, res, s'). found r res s s')"
  unfolding s5fs_create_def
  by (insert moves_refl [of s])
    (((rule s5_ops, assumption) | rule s5_passes
      | (rule found_end, (rule s5_keep)?, assumption, force simp: none_def)
      | (rule not_found_end, (rule s5_keep)?, assumption, force simp: none_def, assumption))+)

lemma s5fs_mknod_moves: "ends (s5fs_mknod D d nm l m v s) (\<lambda>(r, s'). moves none s s')"
  unfolding s5fs_mknod_def
  by (insert moves_refl [of s])
    (((rule s5_ops, assumption) | rule s5_passes
      | (rule ends_moved, (rule s5_keep)?, assumption, force simp: none_def))+)

lemma s5fs_link_moves: "ends (s5fs_link D c d nm l s) (\<lambda>(r, s'). moves none s s')"
  unfolding s5fs_link_def
  by (insert moves_refl [of s])
    (((rule s5_ops, assumption) | rule s5_passes
      | (rule ends_moved, rule moves_unlock, rule moves_unlock, assumption, force simp: none_def))+)

lemma s5fs_unlink_moves: "ends (s5fs_unlink D d nm l s) (\<lambda>(r, s'). moves none s s')"
  unfolding s5fs_unlink_def
  by (insert moves_refl [of s])
    (((rule s5_ops, assumption) | rule s5_passes
      | (rule ends_moved, rule moves_unlock, assumption, force simp: none_def))+)

lemma s5fs_mkdir_moves: "ends (s5fs_mkdir D d nm l s) (\<lambda>(r, s'). moves none s s')"
  unfolding s5fs_mkdir_def Let_def
  by (insert moves_refl [of s])
    (((rule s5_ops, assumption) | rule s5_passes
      | (rule ends_moved, rule moves_unlock, assumption, force simp: none_def))+)

lemma s5fs_rmdir_moves: "ends (s5fs_rmdir D d nm l s) (\<lambda>(r, s'). moves none s s')"
  unfolding s5fs_rmdir_def Let_def
  by (insert moves_refl [of s])
    (((rule s5_ops, (rule s5_keep)?, assumption) | rule s5_passes
      | (rule ends_moved, rule moves_unlock, assumption, force simp: none_def))+)

lemma s5fs_readdir_moves: "ends (s5fs_readdir D d off s) (\<lambda>(r, de, s'). moves none s s')"
  unfolding s5fs_readdir_def
  by (insert moves_refl [of s])
    (((rule s5_ops, assumption) | rule s5_passes | (erule ends_moved2, simp))+)

lemma s5fs_read_moves: "ends (s5fs_read D d off n s) (\<lambda>(r, b, s'). moves none s s')"
  unfolding s5fs_read_def
  by (insert moves_refl [of s])
    (((rule s5_ops, assumption) | rule s5_passes | (rule ends_moved2, rule moves_unlock, assumption, simp))+)

lemma s5fs_write_moves: "ends (s5fs_write D d off b n s) (\<lambda>(r, s'). moves none s s')"
  unfolding s5fs_write_def
  by (insert moves_refl [of s])
    (((rule s5_ops, assumption) | rule s5_passes | (rule ends_moved, rule moves_unlock, assumption, simp))+)

lemma s5fs_stat_moves: "ends (s5fs_stat D d s) (\<lambda>(r, b, s'). moves none s s')"
  unfolding s5fs_stat_def
  by (insert moves_refl [of s])
    (((rule s5_ops, assumption) | rule s5_passes | (rule ends_moved2, rule moves_unlock, assumption, simp))+)

lemmas s5fs_tables = s5fs_vops_def s5fs_dir_vops_def s5fs_file_vops_def
  bytedev_spec_vops_def blockdev_spec_vops_def no_vops_def

lemma s5fs_op_split:
  "op_lookup (s5fs_vops D p) = Some f \<longleftrightarrow> p = Dir_vops \<and> f = s5fs_lookup D"
  "op_create (s5fs_vops D p) = Some f \<longleftrightarrow> p = Dir_vops \<and> f = s5fs_create D"
  "op_mknod (s5fs_vops D p) = Some g \<longleftrightarrow> p = Dir_vops \<and> g = s5fs_mknod D"
  "op_link (s5fs_vops D p) = Some h \<longleftrightarrow> p = Dir_vops \<and> h = s5fs_link D"
  "op_unlink (s5fs_vops D p) = Some k \<longleftrightarrow> p = Dir_vops \<and> k = s5fs_unlink D"
  "op_mkdir (s5fs_vops D p) = Some k \<longleftrightarrow> p = Dir_vops \<and> k = s5fs_mkdir D"
  "op_rmdir (s5fs_vops D p) = Some k \<longleftrightarrow> p = Dir_vops \<and> k = s5fs_rmdir D"
  "op_readdir (s5fs_vops D p) = Some dr \<longleftrightarrow> p = Dir_vops \<and> dr = s5fs_readdir D"
  "op_release (s5fs_vops D p) = None" "op_acquire (s5fs_vops D p) = None"
  by (auto simp: s5fs_tables split: vops.splits)

lemma s5fs_stat_op:
  "op_stat (s5fs_vops D p) = Some st \<Longrightarrow> st c s = Inr (r, b, s') \<Longrightarrow> moves none s s'"
  using ends_InrD [OF s5fs_stat_moves]
  by (cases p) (fastforce simp: s5fs_tables special_file_stat_def)+

lemma s5fs_read_op:
  "op_read (s5fs_vops D p) = Some rd \<Longrightarrow> rd c off n s = Inr (r, b, s') \<Longrightarrow> moves none s s'"
  using ends_InrD [OF s5fs_read_moves]
  by (cases p) (auto simp: s5fs_tables dest!: special_read_state)

lemma s5fs_write_op:
  "op_write (s5fs_vops D p) = Some wr \<Longrightarrow> wr c off b n s = Inr (r, s') \<Longrightarrow> moves none s s'"
  using ends_InrD [OF s5fs_write_moves]
  by (cases p) (auto simp: s5fs_tables dest!: special_write_state)

lemma s5fs_env_vops [simp]: "vops_of (s5fs_env D) = s5fs_vops D"
  by (simp add: s5fs_env_def)

lemmas s5fs_moves = ends_InrD [OF s5fs_create_found] ends_InrD [OF s5fs_mknod_moves]
  ends_InrD [OF s5fs_link_moves] ends_InrD [OF s5fs_unlink_moves] ends_InrD [OF s5fs_mkdir_moves]
  ends_InrD [OF s5fs_rmdir_moves] ends_InrD [OF s5fs_lookup_found] ends_InrD [OF s5fs_readdir_moves]

interpretation s5vfs: vfs_env "s5fs_env D" for D
proof unfold_locales
qed (use s5fs_moves in \<open>fastforce simp: s5fs_op_split
      intro: s5fs_stat_op s5fs_read_op s5fs_write_op\<close>)+

end
