(* ===== verification/S5list.thy ===== *)
theory S5list
  imports S5block
begin

text \<open>
  Words in pages, and the free list.  The free blocks of a System V file system form a stack that is
  spread over the superblock and over the free blocks themselves: \<open>free_list fs xs\<close> says that the
  structure on the disk represents the stack \<open>xs\<close>.  \<open>s5_alloc_block\<close> pops it and \<open>s5_free_block\<close>
  pushes on it.
\<close>

subsection \<open>Words\<close>

lemma upt4: "[0..<4] = [0, 1, 2, 3::nat]"
  by (simp add: upt_rec numeral_eq_Suc)

lemma lessThan4: "{..<4::nat} = {0, 1, 2, 3}"
  by (auto simp: numeral_eq_Suc less_Suc_eq)

lemma length_enc32 [simp]: "length (enc32 w) = 4"
  by (simp add: enc32_def)

lemma bytes_sum:
  "(w::nat) mod 256 + w div 256 mod 256 * 256 + w div 65536 mod 256 * 65536
     + w div 16777216 mod 256 * 16777216 = w mod 4294967296"
proof -
  have a: "w mod 4294967296 = 256 * (w div 256 mod 16777216) + w mod 256"
    using mod_mult2_eq [of w 256 16777216] by simp
  have b: "w div 256 mod 16777216 = 256 * (w div 65536 mod 65536) + w div 256 mod 256"
    using mod_mult2_eq [of "w div 256" 256 65536] div_mult2_eq [of w 256 256] by simp
  have c: "w div 65536 mod 65536 = 256 * (w div 16777216 mod 256) + w div 65536 mod 256"
    using mod_mult2_eq [of "w div 65536" 256 256] div_mult2_eq [of w 65536 256] by simp
  show ?thesis unfolding a b c by simp
qed

lemma dec_enc32: "w < 2 ^ 32 \<Longrightarrow> dec32 (enc32 w) = w"
  using bytes_sum [of w] by (simp add: dec32_def enc32_def upt4 lessThan4)

lemma of_char_byte: "(of_char c :: nat) \<le> 255"
proof -
  have "(of_char c :: nat) = of_char c mod 256" by simp
  then show ?thesis using mod_less_divisor [of 256 "of_char c :: nat"] by linarith
qed

lemma dec32_bound: "length b = 4 \<Longrightarrow> dec32 b < 2 ^ 32"
  using of_char_byte [of "b ! 0"] of_char_byte [of "b ! 1"] of_char_byte [of "b ! 2"]
    of_char_byte [of "b ! 3"]
  by (simp add: dec32_def lessThan4)

lemma get32_bound: "4 * i + 4 \<le> length p \<Longrightarrow> get32 p i < 2 ^ 32"
  unfolding get32_def by (rule dec32_bound) simp

lemma get_put32: "4 * i + 4 \<le> length p \<Longrightarrow> w < 2 ^ 32 \<Longrightarrow> get32 (put32 i w p) i = w"
  by (simp add: get32_def put32_def dec_enc32)

lemma get_put32_other:
  assumes "i \<noteq> j" and "4 * i + 4 \<le> length p" and "4 * j + 4 \<le> length p"
  shows "get32 (put32 i w p) j = get32 p j"
proof (cases "i < j")
  case True
  have "drop (4 * j) (put32 i w p) = drop (4 * j) p"
    using True assms by (simp add: put32_def)
  then show ?thesis by (simp add: get32_def)
next
  case False
  then have "4 * j + 4 \<le> 4 * i" using assms(1) by simp
  then have four: "4 \<le> 4 * i - 4 * j" using assms(1) by simp
  then have "take 4 (drop (4 * j) (put32 i w p)) = take 4 (drop (4 * j) p)"
    using assms by (simp add: put32_def drop_take min_def)
  then show ?thesis by (simp add: get32_def)
qed

lemma length_put32 [simp]: "4 * i + 4 \<le> length p \<Longrightarrow> length (put32 i w p) = length p"
  by (simp add: put32_def)

lemma length_words [simp]: "length (words n p) = n"
  by (simp add: words_def)

lemma words_bound: "4 * n \<le> length p \<Longrightarrow> w \<in> set (words n p) \<Longrightarrow> w < 2 ^ 32"
  using get32_bound [of _ p] by (auto simp: words_def)

lemma take_drop_words:
  "i < length ws \<Longrightarrow> take 4 (drop (4 * i) (concat (map enc32 ws) @ r)) = enc32 (ws ! i)"
proof (induction ws arbitrary: i)
  case (Cons w ws)
  then show ?case by (cases i) auto
qed simp

lemma words_put_words:
  assumes "\<forall>w\<in>set ws. w < 2 ^ 32"
  shows "words (length ws) (put_words ws p) = ws"
  by (rule nth_equalityI)
    (use assms in \<open>simp_all add: words_def put_words_def get32_def take_drop_words dec_enc32 del: drop_append take_append\<close>)

lemma length_concat_enc [simp]: "length (concat (map enc32 ws)) = 4 * length ws"
  by (induction ws) simp_all

lemma length_put_words [simp]: "4 * length ws \<le> length p \<Longrightarrow> length (put_words ws p) = length p"
  by (simp add: put_words_def)

subsection \<open>Pages of the device\<close>

text \<open>The contents of a block as the kernel sees them.\<close>

definition blk :: "s5fs \<Rightarrow> nat \<Rightarrow> string option" where
  "blk fs b = (case bdpages fs b of Some p \<Rightarrow> Some p | None \<Rightarrow> disk fs b)"

lemma bd_get_blk:
  assumes "b \<noteq> 0" and "bd_get b fs = (r, fs')"
  shows "r = blk fs b" and "blk fs' = blk fs" and "s5f_super fs' = s5f_super fs"
    and "s5f_mutex fs' = s5f_mutex fs" and "disk fs' = disk fs" and "inodes fs' = inodes fs"
    and "fpages fs' = fpages fs" and "vn_mutexes fs' = vn_mutexes fs"
  using assms by (auto simp: bd_get_def S5_SUPER_BLOCK_def blk_def fun_eq_iff split: option.splits if_splits)

lemma blk_super_upd [simp]: "blk (super_upd f fs) = blk fs"
  by (auto simp: blk_def super_upd_def fun_eq_iff split: option.split)

lemma blk_mutex [simp]: "blk (unlock_s5 fs) = blk fs" "blk (fs\<lparr>s5f_mutex := m\<rparr>) = blk fs"
  by (auto simp: blk_def unlock_s5_def fun_eq_iff split: option.split)

lemma blk_bd_set: "blk (bd_set b p fs) = (blk fs)(b \<mapsto> p)"
  by (auto simp: blk_def bd_set_def fun_eq_iff split: option.split)

lemma blk_forget:
  "blk (fs\<lparr>s5f_super := x, disk := (disk fs)(b := v), bdpages := (bdpages fs)(b := None)\<rparr>) = (blk fs)(b := v)"
  by (auto simp: blk_def fun_eq_iff split: option.split)

lemma super_simps [simp]:
  "s5f_super (super_upd f fs) = f (s5f_super fs)" "s5f_super (unlock_s5 fs) = s5f_super fs"
  "s5f_super (bd_set b p fs) = s5f_super fs" "s5f_mutex (unlock_s5 fs) = False"
  "s5f_super (inode_upd i g fs) = s5f_super fs" "s5f_mutex (super_upd f fs) = s5f_mutex fs"
  "s5f_mutex (inode_upd i g fs) = s5f_mutex fs" "blk (inode_upd i g fs) = blk fs"
  by (auto simp: super_upd_def unlock_s5_def bd_set_def inode_upd_def blk_def fun_eq_iff split: option.split)

lemma lock_s5_eq: "lock_s5 fs = Inr fs' \<longleftrightarrow> \<not> s5f_mutex fs \<and> fs' = fs\<lparr>s5f_mutex := True\<rparr>"
  by (auto simp: lock_s5_def check_eq_Inr)

subsection \<open>The stack of free blocks\<close>

text \<open>The nodes of the free list from block \<open>b\<close> on; the list ends at a block the device does not
  have.\<close>

fun chain :: "(nat \<Rightarrow> string option) \<Rightarrow> nat \<Rightarrow> nat list list \<Rightarrow> bool" where
  "chain R b [] \<longleftrightarrow> b \<noteq> 0 \<and> R b = None"
| "chain R b (n # ns) \<longleftrightarrow> b \<noteq> 0
     \<and> (\<exists>p. R b = Some p \<and> length p = S5_BLOCK_SIZE \<and> words S5_NBLKS_PER_FNODE p = n)
     \<and> chain R (n ! (S5_NBLKS_PER_FNODE - 1)) ns"

fun chain_blocks :: "nat \<Rightarrow> nat list list \<Rightarrow> nat list" where
  "chain_blocks b [] = []"
| "chain_blocks b (n # ns) =
     b # rev (take (S5_NBLKS_PER_FNODE - 1) n) @ chain_blocks (n ! (S5_NBLKS_PER_FNODE - 1)) ns"

definition super_ok :: "s5_super \<Rightarrow> bool" where
  "super_ok sb \<longleftrightarrow> length (s5s_free_blocks sb) = S5_NBLKS_PER_FNODE \<and> s5s_nfree sb < S5_NBLKS_PER_FNODE
     \<and> (\<forall>w\<in>set (s5s_free_blocks sb). w < 2 ^ 32)"

definition free_list :: "s5fs \<Rightarrow> nat list \<Rightarrow> bool" where
  "free_list fs xs \<longleftrightarrow> super_ok (s5f_super fs) \<and> \<not> s5f_mutex fs \<and> distinct xs
     \<and> (\<exists>ns. chain (blk fs) (s5s_free_blocks (s5f_super fs) ! (S5_NBLKS_PER_FNODE - 1)) ns
         \<and> xs = rev (take (s5s_nfree (s5f_super fs)) (s5s_free_blocks (s5f_super fs)))
                @ chain_blocks (s5s_free_blocks (s5f_super fs) ! (S5_NBLKS_PER_FNODE - 1)) ns)"

lemma chain_upd:
  assumes "chain R b ns" and "c \<notin> set (chain_blocks b ns)" and "R c \<noteq> None"
  shows "chain (R(c := v)) b ns"
  using assms
proof (induction ns arbitrary: b)
  case Nil
  then show ?case by auto
next
  case (Cons n ns)
  have "c \<noteq> b" and "c \<notin> set (chain_blocks (n ! (S5_NBLKS_PER_FNODE - 1)) ns)"
    using Cons.prems(2) by auto
  with Cons.prems(1) Cons.IH [of "n ! (S5_NBLKS_PER_FNODE - 1)"] Cons.prems(3) show ?case by simp
qed

lemma take_snoc_update: "n < length xs \<Longrightarrow> take (Suc n) (xs[n := x]) = take n xs @ [x]"
  by (simp add: take_Suc_conv_app_nth)

lemma alloc_pops:
  assumes "free_list fs (b # xs)"
  shows "\<exists>fs'. s5_alloc_block fs = Inr (to_off b, fs') \<and> free_list fs' xs"
proof -
  let ?sb = "s5f_super fs"
  from assms obtain ns where ok: "super_ok ?sb" and un: "\<not> s5f_mutex fs" and d: "distinct (b # xs)"
    and ch: "chain (blk fs) (s5s_free_blocks ?sb ! (S5_NBLKS_PER_FNODE - 1)) ns"
    and eq: "b # xs = rev (take (s5s_nfree ?sb) (s5s_free_blocks ?sb))
      @ chain_blocks (s5s_free_blocks ?sb ! (S5_NBLKS_PER_FNODE - 1)) ns"
    unfolding free_list_def by blast
  have lock: "lock_s5 fs = Inr (fs\<lparr>s5f_mutex := True\<rparr>)" using un by (simp add: lock_s5_eq)
  show ?thesis
  proof (cases "s5s_nfree ?sb")
    case 0
    let ?b = "s5s_free_blocks ?sb ! (S5_NBLKS_PER_FNODE - 1)"
    from eq 0 obtain n ns' where ns: "ns = n # ns'" by (cases ns) auto
    from ch ns obtain p where b0: "?b \<noteq> 0" and p: "blk fs ?b = Some p" "length p = S5_BLOCK_SIZE"
      and n: "words S5_NBLKS_PER_FNODE p = n" and ch': "chain (blk fs) (n ! (S5_NBLKS_PER_FNODE - 1)) ns'"
      by auto
    have b: "b = ?b" and xs: "xs = rev (take (S5_NBLKS_PER_FNODE - 1) n)
        @ chain_blocks (n ! (S5_NBLKS_PER_FNODE - 1)) ns'"
      using eq 0 ns by auto
    obtain r fs1 where g: "bd_get ?b (fs\<lparr>s5f_mutex := True\<rparr>) = (r, fs1)"
      by (cases "bd_get ?b (fs\<lparr>s5f_mutex := True\<rparr>)")
    note gb = bd_get_blk [OF b0 g]
    have r: "r = Some p" using gb(1) p by simp
    let ?clean = "fs1\<lparr>s5f_super := ?sb\<lparr>s5s_nfree := S5_NBLKS_PER_FNODE - 1, s5s_free_blocks := n\<rparr>,
        disk := (disk fs1)(?b := map_option (\<lambda>_. zero_page) (disk fs1 ?b)),
        bdpages := (bdpages fs1)(?b := None)\<rparr>"
    have run: "s5_alloc_block fs = Inr (to_off ?b, unlock_s5 ?clean)"
      using g r lock 0 n gb(3)
      by (simp add: s5_alloc_block_def Let_def super_upd_def unlock_s5_def)
    have blk: "blk ?clean = (blk fs)(?b := map_option (\<lambda>_. zero_page) (disk fs ?b))"
      using gb(2,5) blk_forget [of fs1] by simp
    have "?b \<notin> set (chain_blocks (n ! (S5_NBLKS_PER_FNODE - 1)) ns')"
      using d b xs by auto
    then have "chain (blk ?clean) (n ! (S5_NBLKS_PER_FNODE - 1)) ns'"
      unfolding blk using ch' p(1) by (intro chain_upd) simp_all
    moreover have "super_ok (?sb\<lparr>s5s_nfree := S5_NBLKS_PER_FNODE - 1, s5s_free_blocks := n\<rparr>)"
      using words_bound [of S5_NBLKS_PER_FNODE p] p(2) n by (auto simp: super_ok_def s5_sizes)
    ultimately have "free_list (unlock_s5 ?clean) xs"
      using d xs unfolding free_list_def by auto
    then show ?thesis using run b by blast
  next
    case (Suc k)
    let ?fb = "s5s_free_blocks ?sb"
    have k: "k < length ?fb" "Suc k < S5_NBLKS_PER_FNODE" using ok Suc by (auto simp: super_ok_def)
    have t: "rev (take (Suc k) ?fb) = ?fb ! k # rev (take k ?fb)"
      using k by (simp add: take_Suc_conv_app_nth)
    have b: "b = ?fb ! k" and xs: "xs = rev (take k ?fb)
        @ chain_blocks (?fb ! (S5_NBLKS_PER_FNODE - 1)) ns"
      using eq t Suc by auto
    let ?fs = "super_upd (\<lambda>sb. sb\<lparr>s5s_nfree := k\<rparr>) (fs\<lparr>s5f_mutex := True\<rparr>)"
    have run: "s5_alloc_block fs = Inr (to_off b, unlock_s5 ?fs)"
      using lock Suc k b by (simp add: s5_alloc_block_def Let_def super_upd_def)
    have "free_list (unlock_s5 ?fs) xs"
      using ok d ch xs Suc by (auto simp: free_list_def super_ok_def)
    then show ?thesis using run by blast
  qed
qed

lemma alloc_empty:
  assumes "free_list fs []"
  shows "\<exists>fs'. s5_alloc_block fs = Inr (- ENOSPC, fs') \<and> free_list fs' []"
proof -
  let ?sb = "s5f_super fs"
  let ?b = "s5s_free_blocks ?sb ! (S5_NBLKS_PER_FNODE - 1)"
  from assms obtain ns where ok: "super_ok ?sb" and un: "\<not> s5f_mutex fs"
    and ch: "chain (blk fs) ?b ns"
    and eq: "[] = rev (take (s5s_nfree ?sb) (s5s_free_blocks ?sb)) @ chain_blocks ?b ns"
    unfolding free_list_def by blast
  have ns: "ns = []" using eq by (cases ns) auto
  have z: "s5s_nfree ?sb = 0" using eq ok by (auto simp: super_ok_def S5_NBLKS_PER_FNODE_def)
  have b: "?b \<noteq> 0" "blk fs ?b = None" using ch ns by auto
  obtain r fs1 where g: "bd_get ?b (fs\<lparr>s5f_mutex := True\<rparr>) = (r, fs1)"
    by (cases "bd_get ?b (fs\<lparr>s5f_mutex := True\<rparr>)")
  note gb = bd_get_blk [OF b(1) g]
  have "s5_alloc_block fs = Inr (- ENOSPC, unlock_s5 fs1)"
    using g gb(1) b un z by (simp add: s5_alloc_block_def Let_def lock_s5_def)
  moreover have "free_list (unlock_s5 fs1) []"
    using ok gb(2,3) ch ns z by (auto simp: free_list_def intro!: exI [of _ "[]"])
  ultimately show ?thesis by blast
qed

lemma free_pushes:
  assumes "free_list fs xs" and "b \<notin> set xs" and "b \<noteq> 0" and "b < 2 ^ 32"
    and "blk fs b = Some p" and "length p = S5_BLOCK_SIZE"
  shows "\<exists>fs'. s5_free_block b fs = Inr fs' \<and> free_list fs' (b # xs)"
proof -
  let ?sb = "s5f_super fs" and ?fb = "s5s_free_blocks (s5f_super fs)"
  from assms(1) obtain ns where ok: "super_ok ?sb" and un: "\<not> s5f_mutex fs" and d: "distinct xs"
    and ch: "chain (blk fs) (?fb ! (S5_NBLKS_PER_FNODE - 1)) ns"
    and xs: "xs = rev (take (s5s_nfree ?sb) ?fb) @ chain_blocks (?fb ! (S5_NBLKS_PER_FNODE - 1)) ns"
    unfolding free_list_def by blast
  have lock: "lock_s5 fs = Inr (fs\<lparr>s5f_mutex := True\<rparr>)" using un by (simp add: lock_s5_eq)
  have len: "length ?fb = S5_NBLKS_PER_FNODE" using ok by (simp add: super_ok_def)
  show ?thesis
  proof (cases "s5s_nfree ?sb = S5_NBLKS_PER_FNODE - 1")
    case True
    obtain r fs1 where g: "bd_get b (fs\<lparr>s5f_mutex := True\<rparr>) = (r, fs1)"
      by (cases "bd_get b (fs\<lparr>s5f_mutex := True\<rparr>)")
    note gb = bd_get_blk [OF assms(3) g]
    let ?q = "put_words ?fb p"
    let ?fs = "super_upd (\<lambda>sb. sb\<lparr>s5s_nfree := 0,
        s5s_free_blocks := ?fb[S5_NBLKS_PER_FNODE - 1 := b]\<rparr>) (bd_set b ?q fs1)"
    have run: "s5_free_block b fs = Inr (unlock_s5 ?fs)"
      using g gb(1,3) assms(5) lock True
      by (simp add: s5_free_block_def Let_def S5_NBLKS_PER_FNODE_def super_upd_def bd_set_def)
    have w: "words S5_NBLKS_PER_FNODE ?q = ?fb"
      using words_put_words [of ?fb p] ok len by (simp add: super_ok_def)
    have "chain ((blk fs)(b := Some ?q)) (?fb ! (S5_NBLKS_PER_FNODE - 1)) ns"
      using ch assms(2,5) xs by (intro chain_upd) auto
    then have "chain (blk ?fs) b (?fb # ns)"
      using w assms(3,6) len gb(2) by (simp add: blk_bd_set s5_sizes)
    moreover have "super_ok (?sb\<lparr>s5s_nfree := 0, s5s_free_blocks := ?fb[S5_NBLKS_PER_FNODE - 1 := b]\<rparr>)"
      using ok assms(4) by (auto simp: super_ok_def S5_NBLKS_PER_FNODE_def dest!: set_update_subset_insert [THEN subsetD])
    ultimately have "free_list (unlock_s5 ?fs) (b # xs)"
      using d assms(2) xs True len gb(3)
      by (auto simp: free_list_def S5_NBLKS_PER_FNODE_def intro!: exI [of _ "?fb # ns"])
    then show ?thesis using run by blast
  next
    case False
    let ?n = "s5s_nfree ?sb"
    have n: "?n < S5_NBLKS_PER_FNODE - 1" using ok False by (simp add: super_ok_def S5_NBLKS_PER_FNODE_def)
    let ?fs = "super_upd (\<lambda>sb. sb\<lparr>s5s_nfree := Suc ?n, s5s_free_blocks := ?fb[?n := b]\<rparr>)
        (fs\<lparr>s5f_mutex := True\<rparr>)"
    have run: "s5_free_block b fs = Inr (unlock_s5 ?fs)"
      using lock False n ok by (simp add: s5_free_block_def Let_def super_upd_def super_ok_def)
    have t: "take (Suc ?n) (?fb[?n := b]) = take ?n ?fb @ [b]"
      using n len by (intro take_snoc_update) simp
    have l: "?fb[?n := b] ! (S5_NBLKS_PER_FNODE - 1) = ?fb ! (S5_NBLKS_PER_FNODE - 1)"
      using n by simp
    have "super_ok (?sb\<lparr>s5s_nfree := Suc ?n, s5s_free_blocks := ?fb[?n := b]\<rparr>)"
      using ok assms(4) n by (auto simp: super_ok_def dest!: set_update_subset_insert [THEN subsetD])
    then have "free_list (unlock_s5 ?fs) (b # xs)"
      using d assms(2) ch xs t l by (auto simp: free_list_def)
    then show ?thesis using run by blast
  qed
qed

end
