(* ===== verification/S5data.thy ===== *)
theory S5data
  imports S5refs S5list
begin

text \<open>
  What \<open>s5_write_file\<close> and \<open>s5_read_file\<close> do to the data of a file.  Bringing a page in keeps the
  pages that are there and the lengths and types of all files (\<open>fs_kept\<close>, \<open>file_kept\<close>); a store
  changes one page.
\<close>

lemma NDIRECT_BLOCK_SIZE [simp]: "S5_BLOCK_SIZE = 4096" "PAGE_SIZE = 4096"
  by (simp_all add: S5_BLOCK_SIZE_def PAGE_SIZE_def)

lemma zero_page_length [simp]: "length zero_page = 4096"
  by (simp add: zero_page_def)

subsection \<open>What the mapping of blocks keeps\<close>

definition fs_kept :: "s5fs \<Rightarrow> s5fs \<Rightarrow> bool" where
  "fs_kept fs fs' \<longleftrightarrow> fpages fs' = fpages fs \<and> vn_mutexes fs' = vn_mutexes fs \<and> s5_root_vn fs' = s5_root_vn fs
     \<and> (\<forall>i. s5_un (inodes fs' i) = s5_un (inodes fs i) \<and> s5_type (inodes fs' i) = s5_type (inodes fs i)
          \<and> s5_linkcount (inodes fs' i) = s5_linkcount (inodes fs i)
          \<and> s5_number (inodes fs' i) = s5_number (inodes fs i))"

definition disk_ok :: "s5fs \<Rightarrow> bool" where
  "disk_ok fs \<longleftrightarrow> (\<forall>b p. disk fs b = Some p \<longrightarrow> length p = 4096)"

lemma fs_kept_refl [simp]: "fs_kept fs fs"
  by (simp add: fs_kept_def)

lemma fs_kept_trans: "fs_kept a b \<Longrightarrow> fs_kept b c \<Longrightarrow> fs_kept a c"
  by (simp add: fs_kept_def)

lemma bd_get_kept: "bd_get b fs = (r, fs') \<Longrightarrow> fs_kept fs fs' \<and> disk fs' = disk fs"
  by (auto simp: bd_get_def fs_kept_def Let_def split: if_splits option.splits)

lemma bd_set_kept [simp]: "fs_kept fs (bd_set b p fs')= fs_kept fs fs'" "disk (bd_set b p fs') = disk fs'"
  by (simp_all add: bd_set_def fs_kept_def)

lemma alloc_block_kept:
  assumes "s5_alloc_block fs = Inr (r, fs')"
  shows "fs_kept fs fs'" and "disk_ok fs \<Longrightarrow> disk_ok fs'"
proof -
  from assms have "fs_kept fs fs' \<and> (disk_ok fs \<longrightarrow> disk_ok fs')"
    by (auto simp: s5_alloc_block_def bnd_eq_Inr lock_s5_eq Let_def super_upd_def unlock_s5_def
        fs_kept_def disk_ok_def check_eq_Inr dest!: bd_get_kept split: if_splits prod.splits option.splits)
  then show "fs_kept fs fs'" "disk_ok fs \<Longrightarrow> disk_ok fs'" by auto
qed

lemma inode_blocks_kept:
  "fs_kept fs (inode_upd i (\<lambda>n. n\<lparr>s5_direct_blocks := f n\<rparr>) fs') = fs_kept fs fs'"
  "fs_kept fs (inode_upd i (s5_indirect_block_update g) fs') = fs_kept fs fs'"
  "disk (inode_upd i h fs') = disk fs'"
  by (auto simp: fs_kept_def inode_upd_def)

definition kept :: "s5fs \<Rightarrow> s5fs \<Rightarrow> bool" where
  "kept fs fs' \<longleftrightarrow> fs_kept fs fs' \<and> (disk_ok fs \<longrightarrow> disk_ok fs')"

lemma kept_refl [simp]: "kept fs fs"
  by (simp add: kept_def)

lemma kept_trans: "kept a b \<Longrightarrow> kept b c \<Longrightarrow> kept a c"
  by (auto simp: kept_def intro: fs_kept_trans)

lemma disk_ok_cong: "disk fs' = disk fs \<Longrightarrow> disk_ok fs' = disk_ok fs"
  by (simp add: disk_ok_def)

lemma alloc_block_k: "s5_alloc_block fs = Inr (r, fs') \<Longrightarrow> kept fs fs'"
  using alloc_block_kept by (auto simp: kept_def)

lemma bd_get_k: "bd_get b fs = (r, fs') \<Longrightarrow> kept fs fs'"
  using bd_get_kept [of b fs r fs'] disk_ok_cong [of fs' fs] by (auto simp: kept_def)

lemma kept_upd:
  "kept fs (inode_upd i (\<lambda>n. n\<lparr>s5_direct_blocks := f n\<rparr>) fs') = kept fs fs'"
  "kept fs (inode_upd i (s5_indirect_block_update g) fs') = kept fs fs'"
  "kept fs (bd_set b p fs') = kept fs fs'"
  by (simp_all add: kept_def inode_blocks_kept disk_ok_def)

lemma indirect_page_k: "indirect_page D ino fs = Inr (r, p, fs') \<Longrightarrow> kept fs fs'"
  by (auto simp: indirect_page_def bnd_eq_Inr kept_upd dest!: alloc_block_k bd_get_k
      split: if_splits prod.splits option.splits intro: kept_trans)

lemma seek_k:
  assumes "s5_seek_to_block D ino off a fs = Inr (r, fs')" shows "kept fs fs'"
proof -
  have "ends (s5_seek_to_block D ino off a fs) (\<lambda>(r, fs'). kept fs fs')"
    unfolding s5_seek_to_block_def Let_def
    by (auto intro!: ends_check ends_if ends_bnd ends_option ends_Inr simp: kept_upd
        dest!: indirect_page_k alloc_block_k intro: kept_trans)
  from ends_InrD [OF this assms] show ?thesis by simp
qed

subsection \<open>Bringing pages in\<close>

definition pages_ok :: "sstate \<Rightarrow> bool" where
  "pages_ok s \<longleftrightarrow> disk_ok (fs_data s)
     \<and> (\<forall>i b p d. fpages (fs_data s) i b = Some (p, d) \<longrightarrow> length p = 4096)"

text \<open>No vnode comes or goes, and none changes its inode or its mode.\<close>

definition ids_kept :: "sstate \<Rightarrow> sstate \<Rightarrow> bool" where
  "ids_kept s s' \<longleftrightarrow> next_vnode s' = next_vnode s
     \<and> (\<forall>a. map_option (\<lambda>v. (vn_i v, vn_vno v, vn_mode v)) (vnodes s' a)
          = map_option (\<lambda>v. (vn_i v, vn_vno v, vn_mode v)) (vnodes s a))"

lemma ids_kept_trans: "ids_kept a b \<Longrightarrow> ids_kept b c \<Longrightarrow> ids_kept a c"
  by (simp add: ids_kept_def)

lemma ids_kept_upd:
  "(\<And>v. vn_i (f v) = vn_i v \<and> vn_vno (f v) = vn_vno v \<and> vn_mode (f v) = vn_mode v) \<Longrightarrow>
   ids_kept s (vn_upd a f t) = ids_kept s t"
  by (auto simp: ids_kept_def option.map_comp comp_def)

lemma ids_kept_fs [simp]:
  "ids_kept s (fs_upd f t) = ids_kept s t" "ids_kept s (t\<lparr>fs_data := fs\<rparr>) = ids_kept s t" "ids_kept s s"
  by (simp_all add: ids_kept_def fs_upd_def)

definition vn_kept :: "sstate \<Rightarrow> sstate \<Rightarrow> bool" where
  "vn_kept s s' \<longleftrightarrow> ids_kept s s' \<and> (\<forall>a v. vnodes s a = Some v \<longrightarrow> (\<exists>v'. vnodes s' a = Some v' \<and> vn_i v' = vn_i v
     \<and> vn_len v' = vn_len v \<and> vn_mode v' = vn_mode v \<and> vn_vno v' = vn_vno v))"

definition inodes_kept :: "sstate \<Rightarrow> sstate \<Rightarrow> bool" where
  "inodes_kept s s' \<longleftrightarrow> vn_mutexes (fs_data s') = vn_mutexes (fs_data s)
     \<and> (\<forall>i. s5_un (inodes (fs_data s') i) = s5_un (inodes (fs_data s) i)
          \<and> s5_type (inodes (fs_data s') i) = s5_type (inodes (fs_data s) i)
          \<and> s5_linkcount (inodes (fs_data s') i) = s5_linkcount (inodes (fs_data s) i)
          \<and> s5_number (inodes (fs_data s') i) = s5_number (inodes (fs_data s) i))"

text \<open>Nothing but pages came in.\<close>

definition got :: "sstate \<Rightarrow> sstate \<Rightarrow> bool" where
  "got s s' \<longleftrightarrow> vn_kept s s' \<and> inodes_kept s s' \<and> (pages_ok s \<longrightarrow> pages_ok s')
     \<and> (\<forall>i b x. fpages (fs_data s) i b = Some x \<longrightarrow> fpages (fs_data s') i b = Some x)"

lemma got_refl [simp]: "got s s"
  by (simp add: got_def vn_kept_def inodes_kept_def)

lemma got_trans: "got a b \<Longrightarrow> got b c \<Longrightarrow> got a c"
proof -
  assume ab: "got a b" and bc: "got b c"
  have "ids_kept a c" using ab bc ids_kept_trans [of a b c] by (simp add: got_def vn_kept_def)
  then have "vn_kept a c" using ab bc unfolding got_def vn_kept_def by fastforce
  moreover have "inodes_kept a c" using ab bc unfolding got_def inodes_kept_def by simp
  ultimately show ?thesis using ab bc unfolding got_def by blast
qed

lemma fillpage_ok:
  "ends (s5fs_fillpage D vn off s) (\<lambda>(r, p, s'). only_fs s s' \<and> kept (fs_data s) (fs_data s')
     \<and> (bd_err D < 0 \<longrightarrow> r \<le> 0) \<and> (0 \<le> r \<longrightarrow> bd_err D < 0 \<longrightarrow> disk_ok (fs_data s) \<longrightarrow> length p = 4096))"
  unfolding s5fs_fillpage_def
  by (auto intro!: ends_if ends_bnd ends_option ends_Inr only_fs_data only_fs_refl
      simp: on_fs_eq dest!: seek_k) (auto simp: kept_def disk_ok_def)

lemma only_fs_eq: "only_fs s s' \<Longrightarrow> s' = s\<lparr>fs_data := fs_data s'\<rparr>"
  by (auto simp: only_fs_def)

lemma set_page_simps [simp]:
  "fpages (set_page i b x fs) = (fpages fs)(i := (fpages fs i)(b := x))"
  "inodes (set_page i b x fs) = inodes fs" "disk (set_page i b x fs) = disk fs"
  "vn_mutexes (set_page i b x fs) = vn_mutexes fs"
  by (simp_all add: set_page_def)

lemma pframe_get_ok:
  assumes "pframe_get D vn b s = Inr (r, s')" and "0 \<le> r" and "bd_err D < 0"
  shows "r = 0 \<and> 0 \<le> b \<and> got s s' \<and> (\<exists>v p d. vnodes s vn = Some v
      \<and> fpages (fs_data s') (vn_i v) (nat b) = Some (p, d))"
proof -
  let ?up = "vn_upd vn (vn_nrespages_update (\<lambda>n. n + 1))"
  from assms(1) obtain v where v: "vnodes s vn = Some v" and b: "0 \<le> b"
    by (auto simp: pframe_get_def run_eq Let_def vn_inode_eq simp del: vn_upd_simps)
  have vi: "vn_inode vn s = Inr (vn_i v, inodes (fs_data s) (vn_i v))" using v by (simp add: vn_inode_eq)
  show ?thesis
  proof (cases "fpages (fs_data s) (vn_i v) (nat b) = None")
    case False
    then have "r = 0 \<and> s' = s" using assms(1) b by (simp add: pframe_get_def vi)
    then show ?thesis using v b False by auto
  next
    case True
    let ?fill = "\<lambda>s. s5fs_fillpage D vn (b * int PAGE_SIZE) (?up s)"
    let ?fin = "\<lambda>(ret, page, s). if ret < 0
         then bnd (vput (s5_vn D) vn (vn_upd vn (vn_nrespages_update (\<lambda>n. n - 1)) s)) (\<lambda>s. Inr (ret, s))
         else Inr (0, fs_upd (set_page (vn_i v) (nat b) (Some (page, False))) s)"
    from True assms(1) b have "bnd (vref vn s) (\<lambda>s. bnd (?fill s) ?fin) = Inr (r, s')"
      by (simp add: pframe_get_def vi Let_def)
    then obtain s1 where s1: "vref vn s = Inr s1" and "bnd (?fill s1) ?fin = Inr (r, s')"
      by (rule bnd_InrE)
    then obtain y where y: "?fill s1 = Inr y" "?fin y = Inr (r, s')" by (elim bnd_InrE)
    obtain ret p s2 where yy: "y = (ret, p, s2)" by (cases y)
    have f: "?fill s1 = Inr (ret, p, s2)" using y(1) yy by simp
    have ret: "0 \<le> ret"
      using y(2) assms(2) unfolding yy prod.case by (cases "ret < 0") (auto simp: bnd_eq_Inr)
    then have r: "r = 0" and s': "s' = fs_upd (set_page (vn_i v) (nat b) (Some (p, False))) s2"
      using y(2) by (simp_all add: yy)
    note n = True
    note f' = ends_InrD [OF fillpage_ok f, unfolded prod.case]
    have s1': "s1 = vn_upd vn (vn_refcount_update (\<lambda>r. r + 1)) s"
      using s1 by (auto simp: vref_def run_eq)
    define fs where "fs = fs_data s2"
    have s2: "s2 = (?up s1)\<lparr>fs_data := fs\<rparr>" using only_fs_eq f' unfolding fs_def by blast
    have k: "kept (fs_data s) fs" and l: "disk_ok (fs_data s) \<Longrightarrow> length p = 4096"
      using f' ret assms(3) by (auto simp: s1' fs_def)
    have vk: "vn_kept s s'" by (auto simp: vn_kept_def s' s2 s1' ids_kept_upd)
    have ik: "inodes_kept s s'" using k by (simp add: inodes_kept_def s' s2 s1' kept_def fs_kept_def)
    have pk: "pages_ok s \<longrightarrow> pages_ok s'"
      using k l by (auto simp: pages_ok_def s' s2 s1' kept_def fs_kept_def disk_ok_def split: if_splits)
    have fk: "\<forall>i b x. fpages (fs_data s) i b = Some x \<longrightarrow> fpages (fs_data s') i b = Some x"
      using k n by (auto simp: s' s2 s1' kept_def fs_kept_def)
    show ?thesis using v b r vk ik pk fk by (auto simp: got_def s')
  qed
qed

lemma pframe_get_resident:
  "vnodes s vn = Some v \<Longrightarrow> 0 \<le> b \<Longrightarrow> fpages (fs_data s) (vn_i v) (nat b) \<noteq> None \<Longrightarrow>
   pframe_get D vn b s = Inr (0, s)"
  by (simp add: pframe_get_def vn_inode_def vn_get_def)

subsection \<open>Storing in a page\<close>

lemma dirtypage_ok:
  "ends (s5fs_dirtypage D vn off s) (\<lambda>(r, s'). only_fs s s' \<and> kept (fs_data s) (fs_data s'))"
  unfolding s5fs_dirtypage_def
  by (auto intro!: ends_if ends_bnd ends_Inr only_fs_data only_fs_refl
      simp: on_fs_eq dest!: seek_k) (erule (1) kept_trans)+

text \<open>The new contents of the page, with some value of the dirty bit.\<close>

definition stored :: "nat \<Rightarrow> nat \<Rightarrow> string \<Rightarrow> sstate \<Rightarrow> sstate \<Rightarrow> bool" where
  "stored ino b page s s' \<longleftrightarrow> only_fs s s' \<and> inodes_kept s s' \<and> (disk_ok (fs_data s) \<longrightarrow> disk_ok (fs_data s'))
     \<and> (\<exists>d. fpages (fs_data s') = (fpages (fs_data s))(ino := (fpages (fs_data s) ino)(b \<mapsto> (page, d))))"

lemma pframe_dirty_ok:
  assumes "pframe_dirty D vn b s = Inr (r, s')" and "vnodes s vn = Some v"
  shows "\<exists>p d. fpages (fs_data s) (vn_i v) b = Some (p, d) \<and> stored (vn_i v) b p s s'"
proof -
  from assms obtain p d where p: "fpages (fs_data s) (vn_i v) b = Some (p, d)"
    by (auto simp: pframe_dirty_def run_eq vn_inode_eq)
  have vi: "vn_inode vn s = Inr (vn_i v, inodes (fs_data s) (vn_i v))"
    using assms(2) by (simp add: vn_inode_eq)
  from assms(1) obtain ret s1 where
    a: "(if d then Inr (0, s) else s5fs_dirtypage D vn (int b * int PAGE_SIZE) s) = Inr (ret, s1)"
    and s': "s' = (if ret = 0 then fs_upd (set_page (vn_i v) b (Some (p, True))) s1 else s1)"
    by (auto simp: pframe_dirty_def vi p bnd_eq_Inr simp del: fs_upd_simps)
  have o: "only_fs s s1" and k: "kept (fs_data s) (fs_data s1)"
    using a ends_InrD [OF dirtypage_ok, of D vn "int b * int PAGE_SIZE" s "(ret, s1)"]
    by (auto split: if_splits intro: only_fs_refl)
  have "only_fs s s'" using o by (auto simp: s' intro: only_fs_upd)
  moreover have "inodes_kept s s'"
    using k by (auto simp: s' inodes_kept_def kept_def fs_kept_def)
  moreover have "disk_ok (fs_data s) \<longrightarrow> disk_ok (fs_data s')"
    using k by (auto simp: s' kept_def disk_ok_def)
  moreover have "\<exists>e. fpages (fs_data s') = (fpages (fs_data s))(vn_i v := (fpages (fs_data s) (vn_i v))(b \<mapsto> (p, e)))"
  proof -
    have "(fpages (fs_data s))(vn_i v := (fpages (fs_data s) (vn_i v))(b \<mapsto> (p, d))) = fpages (fs_data s)"
      using p by (simp add: fun_upd_idem)
    then show ?thesis using k by (cases "ret = 0") (auto simp: s' kept_def fs_kept_def intro: exI [of _ d])
  qed
  ultimately show ?thesis using p by (auto simp: stored_def)
qed

lemma store_ok:
  assumes "store D vn b off bytes s = Inr s'" and "vnodes s vn = Some v"
  shows "\<exists>p d. fpages (fs_data s) (vn_i v) b = Some (p, d) \<and> off + length bytes \<le> 4096
    \<and> stored (vn_i v) b (put_bytes off bytes p) s s'"
proof -
  from assms obtain p d r where p: "fpages (fs_data s) (vn_i v) b = Some (p, d)"
    and l: "off + length bytes \<le> 4096" and
    f: "pframe_dirty D vn b (fs_upd (set_page (vn_i v) b (Some (put_bytes off bytes p, d))) s) = Inr (r, s')"
    by (auto simp: store_def run_eq vn_inode_eq Let_def simp del: fs_upd_simps)
  from pframe_dirty_ok [OF f, of v] assms(2)
  have "stored (vn_i v) b (put_bytes off bytes p)
      (fs_upd (set_page (vn_i v) b (Some (put_bytes off bytes p, d))) s) s'" by auto
  then have "stored (vn_i v) b (put_bytes off bytes p) s s'"
    by (auto simp: stored_def only_fs_def fs_upd_def inodes_kept_def disk_ok_def)
  then show ?thesis using p l by blast
qed

lemma put_bytes_length: "off + length bytes \<le> length p \<Longrightarrow> length (put_bytes off bytes p) = length p"
  by (simp add: put_bytes_def)

lemma drop_put_bytes:
  "off + length bytes \<le> length p \<Longrightarrow> drop off (put_bytes off bytes p) = bytes @ drop (off + length bytes) p"
  by (simp add: put_bytes_def)

lemma take_put_bytes:
  "off \<le> length p \<Longrightarrow> take off (put_bytes off bytes p) = take off p"
  by (simp add: put_bytes_def)

text \<open>Only the page and, later, the size of the file change.\<close>

lemma stored_got_pages:
  assumes "stored ino b page s s'" and "pages_ok s" and "length page = 4096"
  shows "pages_ok s'"
  using assms unfolding stored_def pages_ok_def by (fastforce split: if_splits)

lemma set_size_ok:
  assumes "set_size vn n s = Inr s'" and "vnodes s vn = Some v"
  shows "s' = vn_upd vn (vn_len_update (\<lambda>_. to_off n)) (fs_upd (inode_upd (vn_i v) (s5_un_update (\<lambda>_. n))) s)"
  using assms by (auto simp: set_size_def vn_inode_eq bnd_eq_Inr)

subsection \<open>Writing\<close>

lemma data_block [simp]: "0 \<le> pos \<Longrightarrow> S5_DATA_BLOCK pos = pos div 4096"
  by (auto simp: S5_DATA_BLOCK_def signed_divide_int_def sgn_if)

lemma data_offset [simp]: "0 \<le> pos \<Longrightarrow> S5_DATA_OFFSET pos = pos mod 4096"
  by (simp add: S5_DATA_OFFSET_def signed_modulo_int_def signed_divide_int_def sgn_if
      minus_div_mult_eq_mod split: if_splits)

lemma to_u32_small: "0 \<le> n \<Longrightarrow> n < 2 ^ 32 \<Longrightarrow> to_u32 n = nat n"
  by (simp add: to_u32_def)

lemma to_off_int: "0 \<le> n \<Longrightarrow> n < 2 ^ 31 \<Longrightarrow> to_off (nat n) = n"
  by (simp add: to_off_small)

text \<open>A vnode of a file or directory of \<open>L\<close> bytes.\<close>

definition has_len :: "sstate \<Rightarrow> nat \<Rightarrow> nat \<Rightarrow> int \<Rightarrow> bool" where
  "has_len s vn ino L \<longleftrightarrow> 0 \<le> L \<and> L < 2 ^ 31 \<and> s5_un (inodes (fs_data s) ino) = nat L
     \<and> (\<exists>v. vnodes s vn = Some v \<and> vn_i v = ino \<and> vn_len v = L)"

lemma has_len_agrees:
  assumes "has_len s vn ino L" and "vnodes s vn = Some v"
  shows "len_agrees v (inodes (fs_data s) ino)"
  using assms by (auto simp: has_len_def len_agrees_def to_u32_small)

lemma has_len_got: "has_len s vn ino L \<Longrightarrow> got s s' \<Longrightarrow> has_len s' vn ino L"
  by (fastforce simp: has_len_def got_def vn_kept_def inodes_kept_def)

lemma has_len_stored: "has_len s vn ino L \<Longrightarrow> stored i b p s s' \<Longrightarrow> has_len s' vn ino L"
  by (auto simp: has_len_def stored_def only_fs_def inodes_kept_def)

lemma has_len_set:
  assumes "has_len s vn ino L" and "set_size vn n s = Inr s'" and "n < 2 ^ 31"
  shows "has_len s' vn ino (int n)" and "fpages (fs_data s') = fpages (fs_data s)"
    and "pages_ok s \<Longrightarrow> pages_ok s'"
    and "\<forall>i. s5_linkcount (inodes (fs_data s') i) = s5_linkcount (inodes (fs_data s) i)
     \<and> s5_type (inodes (fs_data s') i) = s5_type (inodes (fs_data s) i)
     \<and> s5_number (inodes (fs_data s') i) = s5_number (inodes (fs_data s) i)"
    and "ids_kept s s'"
proof -
  from assms(1) obtain v where v: "vnodes s vn = Some v" "vn_i v = ino" by (auto simp: has_len_def)
  note s' = set_size_ok [OF assms(2) v(1)]
  show "has_len s' vn ino (int n)"
    using assms(3) v by (simp add: s' has_len_def inode_upd_def to_off_small)
  show "fpages (fs_data s') = fpages (fs_data s)" by (simp add: s' inode_upd_def)
  then show "pages_ok s \<Longrightarrow> pages_ok s'" by (simp add: pages_ok_def s' inode_upd_def disk_ok_def)
  show "\<forall>i. s5_linkcount (inodes (fs_data s') i) = s5_linkcount (inodes (fs_data s) i)
     \<and> s5_type (inodes (fs_data s') i) = s5_type (inodes (fs_data s) i)
     \<and> s5_number (inodes (fs_data s') i) = s5_number (inodes (fs_data s) i)"
    by (simp add: s' inode_upd_def)
  show "ids_kept s s'" by (simp add: s' ids_kept_upd)
qed

lemma page_end: "4096 * q + m = s \<Longrightarrow> m < 4096 \<Longrightarrow> 4096 * Suc q = s + (4096 - m)" for q :: nat
  by simp

lemma whole_pages:
  "s = 4096 * q + m \<Longrightarrow> F = 4096 - m \<Longrightarrow> M = E - q - 1 \<Longrightarrow> s + (F + M * 4096) = 4096 * E" for s :: int
  by simp

lemma bytes_left:
  "n = f + m \<Longrightarrow> m \<le> b - f \<Longrightarrow> f \<le> b \<Longrightarrow> r = b - f - m \<Longrightarrow> l - n \<le> r \<Longrightarrow> n \<le> l \<Longrightarrow> l \<le> b" for l :: nat
  by simp

lemma pages_between:
  assumes "(x + j) div 4096 = x div 4096 + i" shows "(x::nat) mod 4096 + j = i * 4096 + (x + j) mod 4096"
proof -
  have "x + j = 4096 * (x div 4096 + i) + (x + j) mod 4096" using assms by (metis mult_div_mod_eq)
  moreover have "x = 4096 * (x div 4096) + x mod 4096" by (simp only: mult_div_mod_eq)
  moreover have "i * 4096 = 4096 * i" by simp
  ultimately show ?thesis unfolding distrib_left by linarith
qed

lemma same_page:
  assumes "x mod 4096 + j < (4096::nat)"
  shows "(x + j) div 4096 = x div 4096" and "(x + j) mod 4096 = x mod 4096 + j"
proof -
  have "x + j = (x mod 4096 + j) + (x div 4096) * 4096" by simp
  then show "(x + j) div 4096 = x div 4096" and "(x + j) mod 4096 = x mod 4096 + j"
    using assms div_mult_self1 [of 4096 "x mod 4096 + j" "x div 4096"]
      mod_mult_self1 [of "x mod 4096 + j" "x div 4096" 4096] by simp_all
qed

text \<open>A byte of a resident page of a file.\<close>

definition byte_at :: "sstate \<Rightarrow> nat \<Rightarrow> nat \<Rightarrow> char option" where
  "byte_at s ino pos = map_option (\<lambda>(p, d). p ! (pos mod 4096)) (fpages (fs_data s) ino (pos div 4096))"

definition links_kept :: "sstate \<Rightarrow> sstate \<Rightarrow> bool" where
  "links_kept s s' \<longleftrightarrow> ids_kept s s' \<and> (\<forall>i. s5_linkcount (inodes (fs_data s') i) = s5_linkcount (inodes (fs_data s) i)
     \<and> s5_type (inodes (fs_data s') i) = s5_type (inodes (fs_data s) i)
     \<and> s5_number (inodes (fs_data s') i) = s5_number (inodes (fs_data s) i))"

lemma links_kept_refl [simp]: "links_kept s s"
  by (simp add: links_kept_def)

lemma links_kept_trans: "links_kept a b \<Longrightarrow> links_kept b c \<Longrightarrow> links_kept a c"
  using ids_kept_trans [of a b c] by (simp add: links_kept_def)

lemma links_kept_inodes: "inodes_kept s s' \<Longrightarrow> ids_kept s s' \<Longrightarrow> links_kept s s'"
  by (simp add: links_kept_def inodes_kept_def)

text \<open>\<open>bytes\<close> were put into a file at \<open>off\<close>, and nothing else changed.\<close>

definition puts :: "nat \<Rightarrow> nat \<Rightarrow> string \<Rightarrow> sstate \<Rightarrow> sstate \<Rightarrow> bool" where
  "puts ino off bytes s s' \<longleftrightarrow> pages_ok s' \<and> links_kept s s'
     \<and> (\<forall>k<length bytes. byte_at s' ino (off + k) = Some (bytes ! k))
     \<and> (\<forall>pos c. byte_at s ino pos = Some c \<longrightarrow> pos < off \<or> off + length bytes \<le> pos \<longrightarrow> byte_at s' ino pos = Some c)
     \<and> (\<forall>i b. fpages (fs_data s) i b \<noteq> None \<longrightarrow> fpages (fs_data s') i b \<noteq> None)
     \<and> (\<forall>i b x. i \<noteq> ino \<longrightarrow> fpages (fs_data s) i b = Some x \<longrightarrow> fpages (fs_data s') i b = Some x)"

lemma puts_trans:
  assumes a: "puts ino off bs s t" and b: "puts ino (off + length bs) cs t u"
  shows "puts ino off (bs @ cs) s u"
proof -
  have "byte_at u ino (off + k) = Some ((bs @ cs) ! k)" if "k < length (bs @ cs)" for k
  proof (cases "k < length bs")
    case True
    then show ?thesis using a b by (simp add: puts_def nth_append)
  next
    case False
    then have "k - length bs < length cs" using that by simp
    then have "byte_at u ino (off + length bs + (k - length bs)) = Some (cs ! (k - length bs))"
      using b unfolding puts_def by blast
    then show ?thesis using False by (simp add: nth_append)
  qed
  moreover have "byte_at u ino pos = Some c"
    if "byte_at s ino pos = Some c" and "pos < off \<or> off + length (bs @ cs) \<le> pos" for pos c
  proof -
    from that(2) have o: "pos < off \<or> off + length bs \<le> pos"
      "pos < off + length bs \<or> off + length bs + length cs \<le> pos" by auto
    have "byte_at t ino pos = Some c" using a that(1) o(1) unfolding puts_def by blast
    then show ?thesis using b o(2) unfolding puts_def by blast
  qed
  moreover have "pages_ok u" "\<forall>i b. fpages (fs_data s) i b \<noteq> None \<longrightarrow> fpages (fs_data u) i b \<noteq> None"
      "\<forall>i b x. i \<noteq> ino \<longrightarrow> fpages (fs_data s) i b = Some x \<longrightarrow> fpages (fs_data u) i b = Some x"
    using a b unfolding puts_def by (blast, meson, meson)
  moreover have "links_kept s u" using a b links_kept_trans [of s t u] unfolding puts_def by simp
  ultimately show ?thesis unfolding puts_def by simp
qed

lemma got_links: "got s s' \<Longrightarrow> links_kept s s'"
  by (simp add: got_def vn_kept_def links_kept_inodes)

lemma puts_got: "got s s' \<Longrightarrow> pages_ok s \<Longrightarrow> puts ino off [] s s'"
  using got_links [of s s']
  unfolding puts_def got_def byte_at_def by (auto; blast)

lemma puts_same_pages:
  "fpages (fs_data s') = fpages (fs_data s) \<Longrightarrow> pages_ok s' \<Longrightarrow> links_kept s s' \<Longrightarrow>
   puts ino off [] s s'"
  by (simp add: puts_def byte_at_def)

lemma puts_pages: "puts ino off bs s s' \<Longrightarrow> pages_ok s'"
  by (simp add: puts_def)

lemma puts_resident: "puts ino off bs s s' \<Longrightarrow> fpages (fs_data s) i b \<noteq> None \<Longrightarrow> fpages (fs_data s') i b \<noteq> None"
  by (simp add: puts_def)

lemma nth_put_bytes:
  "off + length bs \<le> length p \<Longrightarrow> i < length p \<Longrightarrow>
   put_bytes off bs p ! i = (if off \<le> i \<and> i < off + length bs then bs ! (i - off) else p ! i)"
  by (auto simp: put_bytes_def nth_append min_def)

lemma store_puts:
  assumes s': "store D vn b off bs s = Inr s'" and v: "vnodes s vn = Some v" "vn_i v = ino"
    and ok: "pages_ok s"
  shows "puts ino (4096 * b + off) bs s s'" and "stored ino b (put_bytes off bs (fst (the (fpages (fs_data s) ino b)))) s s'"
proof -
  from store_ok [OF s' v(1)] v(2) obtain p d where p: "fpages (fs_data s) ino b = Some (p, d)"
    and le: "off + length bs \<le> 4096" and st: "stored ino b (put_bytes off bs p) s s'" by blast
  have lp: "length p = 4096" using ok p by (auto simp: pages_ok_def)
  from st obtain e where f: "fpages (fs_data s') =
      (fpages (fs_data s))(ino := (fpages (fs_data s) ino)(b \<mapsto> (put_bytes off bs p, e)))"
    by (auto simp: stored_def)
  have "byte_at s' ino (4096 * b + off + k) = Some (bs ! k)" if "k < length bs" for k
  proof -
    have m: "(4096 * b + off + k) div 4096 = b" "(4096 * b + off + k) mod 4096 = off + k"
      using that le by (simp_all add: add.assoc del: add_mult_distrib2)
    show ?thesis using that le lp by (simp add: byte_at_def f m nth_put_bytes)
  qed
  moreover have "byte_at s' ino pos = Some c"
    if c: "byte_at s ino pos = Some c" and out: "pos < 4096 * b + off \<or> 4096 * b + off + length bs \<le> pos" for pos c
  proof (cases "pos div 4096 = b")
    case True
    then have pos: "pos = 4096 * b + pos mod 4096" by auto
    have "\<not> (off \<le> pos mod 4096 \<and> pos mod 4096 < off + length bs)" using out pos by linarith
    then show ?thesis using c True p le lp by (auto simp: byte_at_def f nth_put_bytes)
  next
    case False
    then show ?thesis using c by (simp add: byte_at_def f)
  qed
  moreover have "pages_ok s'"
    using stored_got_pages [OF st ok] le lp by (simp add: put_bytes_length)
  moreover have "links_kept s s'" using st by (auto simp: stored_def only_fs_def intro: links_kept_inodes)
  ultimately show "puts ino (4096 * b + off) bs s s'"
    unfolding puts_def by (simp add: f)
  show "stored ino b (put_bytes off bs (fst (the (fpages (fs_data s) ino b)))) s s'"
    using st p by simp
qed

text \<open>The steps of a write: a page comes in, bytes are stored, the size is set.\<close>

definition wrote :: "nat \<Rightarrow> nat \<Rightarrow> int \<Rightarrow> nat \<Rightarrow> string \<Rightarrow> sstate \<Rightarrow> sstate \<Rightarrow> bool" where
  "wrote vn ino L off bs s s' \<longleftrightarrow> has_len s' vn ino L \<and> puts ino off bs s s'"

lemma wrote_get:
  assumes "pframe_get D vn b t = Inr (r, t')" and "0 \<le> r" and "bd_err D < 0" and "wrote vn ino L off bs s t"
  shows "wrote vn ino L off bs s t'" and "0 \<le> b" and "fpages (fs_data t') ino (nat b) \<noteq> None"
proof -
  note g = pframe_get_ok [OF assms(1-3)]
  have "puts ino (off + length bs) [] t t'"
    using g assms(4) by (intro puts_got) (auto simp: wrote_def puts_def)
  with assms(4) have "puts ino off (bs @ []) s t'" unfolding wrote_def by (blast intro: puts_trans)
  then show "wrote vn ino L off bs s t'" using g assms(4) by (auto simp: wrote_def intro: has_len_got)
  show "0 \<le> b" using g by simp
  from assms(4) obtain v where "vnodes t vn = Some v" "vn_i v = ino" by (auto simp: wrote_def has_len_def)
  with g show "fpages (fs_data t') ino (nat b) \<noteq> None" by auto
qed

lemma wrote_store:
  assumes "store D vn b o' cs t = Inr t'" and "wrote vn ino L off bs s t" and "4096 * b + o' = off + length bs"
  shows "wrote vn ino L off (bs @ cs) s t'"
proof -
  from assms(2) obtain v where v: "vnodes t vn = Some v" "vn_i v = ino" by (auto simp: wrote_def has_len_def)
  have ok: "pages_ok t" using assms(2) by (simp add: wrote_def puts_def)
  note p = store_puts [OF assms(1) v ok]
  show ?thesis
    using p assms(2,3) has_len_stored [OF _ p(2)] by (auto simp: wrote_def intro: puts_trans)
qed

lemma wrote_size:
  assumes "set_size vn n t = Inr t'" and "wrote vn ino L off bs s t" and "n < 2 ^ 31"
  shows "wrote vn ino (int n) off bs s t'"
proof -
  have h: "has_len t vn ino L" and ok: "pages_ok t" using assms(2) by (auto simp: wrote_def puts_def)
  note n = has_len_set [OF h assms(1,3)]
  have "puts ino (off + length bs) [] t t'" using n(2-5) ok by (intro puts_same_pages) (auto simp: links_kept_def)
  with assms(2) have "puts ino off (bs @ []) s t'" unfolding wrote_def by (blast intro: puts_trans)
  with n(1) show ?thesis by (simp add: wrote_def)
qed

lemma wrote_size_int:
  assumes "set_size vn (to_u32 n) t = Inr t'" and "wrote vn ino L off bs s t" and "0 \<le> n" and "n < 2 ^ 31"
  shows "wrote vn ino n off bs s t'"
proof -
  have "to_u32 n = nat n" using assms(3,4) by (intro to_u32_small) auto
  with wrote_size [OF assms(1,2)] assms(3,4) show ?thesis by (simp add: nat_less_iff)
qed

lemma wrote_resident:
  "wrote vn ino L off bs s t \<Longrightarrow> fpages (fs_data s) i b \<noteq> None \<Longrightarrow> fpages (fs_data t) i b \<noteq> None"
  by (auto simp: wrote_def dest: puts_resident)

lemma write_mid_wrote:
  assumes "write_mid D vn b n bytes t = Inr (rest, t')" and "wrote vn ino L off bs s t"
    and "bd_err D < 0" and "4096 * b = off + length bs"
  shows "n * 4096 \<le> length bytes \<and> rest = drop (n * 4096) bytes
    \<and> wrote vn ino L off (bs @ take (n * 4096) bytes) s t'"
  using assms
proof (induction n arbitrary: b bs t bytes)
  case 0
  then show ?case by simp
next
  case (Suc n)
  from Suc.prems(1) obtain r t1 t2 where g: "pframe_get D vn (int b) t = Inr (r, t1)" "0 \<le> r"
    and l: "4096 \<le> length bytes" and st: "store D vn b 0 (take 4096 bytes) t1 = Inr t2"
    and rest: "write_mid D vn (Suc b) n (drop 4096 bytes) t2 = Inr (rest, t')"
    by (auto simp: bnd_eq_Inr check_eq_Inr)
  have w1: "wrote vn ino L off bs s t1" by (rule wrote_get(1) [OF g(1,2) Suc.prems(3,2)])
  have w2: "wrote vn ino L off (bs @ take 4096 bytes) s t2"
    using wrote_store [OF st w1] Suc.prems(4) by simp
  from Suc.IH [OF rest w2 Suc.prems(3)] Suc.prems(4) l
  have "n * 4096 \<le> length bytes - 4096 \<and> rest = drop (4096 + n * 4096) bytes
      \<and> wrote vn ino L off (bs @ take 4096 bytes @ take (n * 4096) (drop 4096 bytes)) s t'"
    by (simp add: add.commute)
  with l show ?case by (auto simp: take_add)
qed

lemma write_file_wrote:
  assumes w: "s5_write_file D vn seek bytes len s = Inr (r, s')" and r: "0 \<le> r"
    and err: "bd_err D < 0" and L: "has_len s vn ino L" and ok: "pages_ok s"
    and pos: "0 \<le> seek" "seek + int len \<le> S5_MAX_FILE_SIZE"
  shows "r = int len \<and> len \<le> length bytes
    \<and> wrote vn ino (max (seek + int len) L) (nat seek) (take len bytes) s s'
    \<and> fpages (fs_data s') ino (nat ((seek + int len) div 4096)) \<noteq> None"
proof -
  let ?e = "seek + int len"
  from L obtain v where v: "vnodes s vn = Some v" "vn_i v = ino" "vn_len v = L" and L31: "0 \<le> L" "L < 2 ^ 31"
    by (auto simp: has_len_def)
  have e: "?e \<le> 4308992" using pos(2) by (simp add: S5_MAX_FILE_SIZE_def S5_MAX_FILE_BLOCKS_def)
  have u: "to_u32 ?e = nat ?e" using pos(1) e by (intro to_u32_small) auto
  have clip: "min (int (to_u32 ?e)) S5_MAX_FILE_SIZE = ?e" using pos u by simp
  have len: "to_off len = int len" using pos(1) e by (intro to_off_small) simp
  have vi: "vn_inode vn s = Inr (ino, inodes (fs_data s) ino)" using v by (simp add: vn_inode_eq)
  define K where "K = (\<lambda>s. if seek div 4096 = ?e div 4096 then
         check (0 \<le> seek mod 4096 \<and> len \<le> length bytes
                \<and> nat (seek mod 4096) + len \<le> 4096) Wild_access (
         check (seek mod 4096 + int len = ?e mod 4096) Kassert_failed (
         bnd (store D vn (nat (seek div 4096)) (nat (seek mod 4096)) (take len bytes) s) (\<lambda>s.
         bnd (set_size vn (to_u32 (max ?e L)) s) (\<lambda>s.
         Inr (int len, s)))))
       else
         check (0 \<le> seek mod 4096 \<and> seek div 4096 < ?e div 4096) Wild_access (
         let first = 4096 - nat (seek mod 4096);
             mid = nat (?e div 4096 - seek div 4096 - 1);
             num_bytes = first + mid * 4096 in
         check (first \<le> length bytes) Wild_access (
         bnd (store D vn (nat (seek div 4096)) (nat (seek mod 4096)) (take first bytes) s) (\<lambda>s.
         bnd (set_size vn (max (to_u32 (seek + int first)) (to_u32 L)) s) (\<lambda>s.
         bnd (write_mid D vn (Suc (nat (seek div 4096))) mid (drop first bytes) s) (\<lambda>(bytes, s).
         check (num_bytes \<le> len \<and> len - num_bytes \<le> length bytes) Wild_access (
         bnd (store D vn (nat (?e div 4096)) 0 (take (len - num_bytes) bytes) s) (\<lambda>s.
         bnd (vn_get vn s) (\<lambda>v.
         bnd (set_size vn (to_u32 (max ?e (vn_len v))) s) (\<lambda>s.
         Inr (int len, s)))))))))))"
  have e0: "0 \<le> ?e" using pos(1) by simp
  have "bnd (pframe_get D vn (seek div 4096) s) (\<lambda>(ret, s). if ret < 0 then Inr (ret, s)
      else bnd (pframe_get D vn (?e div 4096) s) (\<lambda>(ret, s). if ret < 0 then Inr (ret, s) else K s)) = Inr (r, s')"
    using w has_len_agrees [OF L v(1)]
    unfolding s5_write_file_def K_def Let_def clip len
    by (simp add: vn_get_def v vi data_block [OF e0] data_offset [OF e0] data_block [OF pos(1)]
        data_offset [OF pos(1)] cong: if_cong)
  with r obtain r1 s1 r2 s2 where g1: "pframe_get D vn (seek div 4096) s = Inr (r1, s1)" "0 \<le> r1"
    and g2: "pframe_get D vn (?e div 4096) s1 = Inr (r2, s2)" "0 \<le> r2" and K: "K s2 = Inr (r, s')"
    by (auto simp: bnd_eq_Inr split: if_splits)
  have w0: "wrote vn ino L (nat seek) [] s s" using L ok by (simp add: wrote_def puts_def)
  have w1: "wrote vn ino L (nat seek) [] s s1" by (rule wrote_get(1) [OF g1 err w0])
  have w2: "wrote vn ino L (nat seek) [] s s2" by (rule wrote_get(1) [OF g2 err w1])
  have res: "fpages (fs_data s2) ino (nat (?e div 4096)) \<noteq> None" by (rule wrote_get(3) [OF g2 err w1])
  have start: "4096 * nat (seek div 4096) + nat (seek mod 4096) = nat seek"
    using pos(1) by (simp add: nat_div_distrib nat_mod_distrib)
  have b2: "wrote vn ino L (nat seek) [] s2 s2" using w2 by (simp add: wrote_def puts_def)
  have max: "0 \<le> max ?e M" "max ?e M < 2 ^ 31" if "M < 2 ^ 31" for M using that e e0 by auto
  have fin: "r = int len \<and> len \<le> length bytes
      \<and> wrote vn ino (max ?e L) (nat seek) (take len bytes) s2 s'"
  proof (cases "seek div 4096 = ?e div 4096")
    case True
    with K obtain s3 where lb: "len \<le> length bytes" and r: "r = int len"
      and st: "store D vn (nat (seek div 4096)) (nat (seek mod 4096)) (take len bytes) s2 = Inr s3"
      and sz: "set_size vn (to_u32 (max ?e L)) s3 = Inr s'"
      by (auto simp: K_def run_eq)
    have w3: "wrote vn ino L (nat seek) (take len bytes) s2 s3"
      using wrote_store [OF st b2] start by simp
    show ?thesis using wrote_size_int [OF sz w3 max [OF L31(2)]] r lb by simp
  next
    case False
    let ?f = "4096 - nat (seek mod 4096)"
    let ?mid = "nat (?e div 4096 - seek div 4096 - 1)"
    let ?n = "?f + ?mid * 4096"
    note run = K [unfolded K_def if_not_P [OF False] Let_def run_eq vn_get_eq split_paired_Ex prod.case sum.inject prod.inject]
    from run obtain s3 s4 s5 rest s6 s7 v' where lt: "seek div 4096 < ?e div 4096" and r: "int len = r"
      and f: "?f \<le> length bytes"
      and st: "store D vn (nat (seek div 4096)) (nat (seek mod 4096)) (take ?f bytes) s2 = Inr s3"
      and sz: "set_size vn (max (to_u32 (seek + int ?f)) (to_u32 L)) s3 = Inr s4"
      and mid: "write_mid D vn (Suc (nat (seek div 4096))) ?mid (drop ?f bytes) s4 = Inr (rest, s5)"
      and nb: "?n \<le> len" "len - ?n \<le> length rest"
      and st2: "store D vn (nat (?e div 4096)) 0 (take (len - ?n) rest) s5 = Inr s6"
      and v': "vnodes s6 vn = Some (v' :: vnode)" and sz2: "set_size vn (to_u32 (max ?e (vn_len v'))) s6 = Inr s7" and s7: "s7 = s'"
      by (elim exE conjE) (rule that; assumption)
    have fe: "seek + int ?f \<le> ?e" "0 \<le> seek + int ?f" using nb(1) pos(1) by auto
    have mod: "nat (seek mod 4096) < 4096" using pos(1) by (simp add: nat_less_iff)
    have w3: "wrote vn ino L (nat seek) (take ?f bytes) s2 s3"
      using wrote_store [OF st b2] start by simp
    have "max (to_u32 (seek + int ?f)) (to_u32 L) = to_u32 (max (seek + int ?f) L)"
      using fe L31 e by (simp add: to_u32_small max_def)
    with sz have sz1: "set_size vn (to_u32 (max (seek + int ?f) L)) s3 = Inr s4" by simp
    let ?L = "max (seek + int ?f) L"
    have L1: "0 \<le> ?L" "?L < 2 ^ 31" using fe L31 e by auto
    have w4: "wrote vn ino ?L (nat seek) (take ?f bytes) s2 s4" by (rule wrote_size_int [OF sz1 w3 L1])
    have second: "4096 * Suc (nat (seek div 4096)) = nat seek + length (take ?f bytes)"
    proof -
      have "length (take ?f bytes) = ?f" using f by simp
      with page_end [OF start mod] show ?thesis by (simp only:)
    qed
    note w5 = write_mid_wrote [OF mid w4 err second]
    have whole: "seek + int ?n = 4096 * (?e div 4096)"
    proof -
      have f1: "int ?f = 4096 - seek mod 4096" using mod pos(1) by (simp add: nat_less_iff of_nat_diff)
      have m1: "int ?mid = ?e div 4096 - seek div 4096 - 1" using lt by simp
      have s1: "seek = 4096 * (seek div 4096) + seek mod 4096" by (simp only: mult_div_mod_eq)
      show ?thesis unfolding of_nat_add of_nat_mult of_nat_numeral by (rule whole_pages [OF s1 f1 m1])
    qed
    have third: "4096 * nat (?e div 4096) + 0 = nat seek
        + length (take ?f bytes @ take (?mid * 4096) (drop ?f bytes))"
    proof -
      have "length (take ?f bytes @ take (?mid * 4096) (drop ?f bytes)) = ?n" using w5 f by simp
      moreover have "nat (seek + int ?n) = nat seek + ?n"
        using pos(1) by (simp only: nat_add_distrib of_nat_0_le_iff nat_int)
      moreover have "nat (4096 * (?e div 4096)) = 4096 * nat (?e div 4096)"
        by (simp add: nat_mult_distrib)
      ultimately show ?thesis using whole by (simp only: add_0_right)
    qed
    have w6: "wrote vn ino ?L (nat seek)
        ((take ?f bytes @ take (?mid * 4096) (drop ?f bytes)) @ take (len - ?n) rest) s2 s6"
      by (rule wrote_store [OF st2 _ third]) (use w5 in simp)
    have "(take ?f bytes @ take (?mid * 4096) (drop ?f bytes)) @ take (len - ?n) rest = take len bytes"
    proof -
      have "?n + (len - ?n) = len" by (rule le_add_diff_inverse [OF nb(1)])
      then have "take len bytes = take (?f + (?mid * 4096 + (len - ?n))) bytes" by (simp only: add.assoc)
      also have "\<dots> = take ?f bytes @ take (?mid * 4096) (drop ?f bytes)
          @ take (len - ?n) (drop (?mid * 4096) (drop ?f bytes))"
        by (simp only: take_add append_assoc)
      finally show ?thesis using w5 by (simp only: append_assoc)
    qed
    with w6 have w6': "wrote vn ino ?L (nat seek) (take len bytes) s2 s6" by (simp only:)
    then have "vn_len v' = ?L" using v' by (auto simp: wrote_def has_len_def)
    with sz2 have "set_size vn (to_u32 (max ?e L)) s6 = Inr s'" unfolding s7 [symmetric]
      using max.absorb1 [OF fe(1)] by (simp only: max.assoc [symmetric])
    note wrote_size_int [OF this w6' max [OF L31(2)]]
    moreover have "len \<le> length bytes"
      by (rule bytes_left [OF refl _ f _ nb(2,1)]) (use w5 in \<open>simp_all only: length_drop\<close>)
    ultimately show ?thesis using r by simp
  qed
  have "wrote vn ino (max ?e L) (nat seek) ([] @ take len bytes) s s'"
    using fin w2 puts_trans [of ino "nat seek" "[]" s s2] by (auto simp: wrote_def)
  moreover have "fpages (fs_data s') ino (nat (?e div 4096)) \<noteq> None"
    using fin res wrote_resident by blast
  ultimately show ?thesis using fin by simp
qed

subsection \<open>Reading\<close>

text \<open>The bytes \<open>bytes\<close> stand in the resident pages of a file at \<open>off\<close>.\<close>

definition holds :: "sstate \<Rightarrow> nat \<Rightarrow> nat \<Rightarrow> string \<Rightarrow> bool" where
  "holds s ino off bytes \<longleftrightarrow> (\<forall>k<length bytes. byte_at s ino (off + k) = Some (bytes ! k))"

lemma holds_page:
  assumes "holds s ino off bytes" and "pages_ok s" and "k + n \<le> length bytes"
    and "(off + k) mod 4096 + n \<le> 4096" and "fpages (fs_data s) ino ((off + k) div 4096) = Some (p, d)"
  shows "take n (drop ((off + k) mod 4096) p) = take n (drop k bytes)"
proof (rule nth_equalityI)
  have lp: "length p = 4096" using assms(2,5) by (auto simp: pages_ok_def)
  show len: "length (take n (drop ((off + k) mod 4096) p)) = length (take n (drop k bytes))"
    using assms(3,4) lp by simp
  fix j assume "j < length (take n (drop ((off + k) mod 4096) p))"
  then have j: "j < n" by simp
  have lt: "(off + k) mod 4096 + j < 4096" using j assms(4) by simp
  have m: "(off + (k + j)) div 4096 = (off + k) div 4096" "(off + (k + j)) mod 4096 = (off + k) mod 4096 + j"
    using same_page [OF lt] by (simp_all add: add.assoc)
  have "byte_at s ino (off + (k + j)) = Some (bytes ! (k + j))"
    using assms(1,3) j by (simp add: holds_def)
  then have "p ! ((off + k) mod 4096 + j) = bytes ! (k + j)"
    using assms(5) m by (simp add: byte_at_def)
  then show "take n (drop ((off + k) mod 4096) p) ! j = take n (drop k bytes) ! j"
    using j assms(3,4) lp by simp
qed

lemma holds_resident:
  "holds s ino off bytes \<Longrightarrow> off \<le> pos \<Longrightarrow> pos < off + length bytes \<Longrightarrow>
   \<exists>p d. fpages (fs_data s) ino (pos div 4096) = Some (p, d)"
  by (auto simp: holds_def byte_at_def dest!: spec [of _ "pos - off"])

lemma page_of_resident:
  "vnodes s vn = Some v \<Longrightarrow> fpages (fs_data s) (vn_i v) b = Some (p, d) \<Longrightarrow> page_of vn b s = Inr p"
  by (simp add: page_of_def vn_inode_def vn_get_def)

text \<open>The loop over the middle pages, on a resident page: it ends at the last page, and overruns the
  destination on every other one.\<close>

lemma read_mid_last:
  assumes "pframe_get D vn (S5_DATA_BLOCK off) s = Inr (0, s)" and "S5_DATA_BLOCK off = end_block"
  shows "read_mid D vn off end_block len out s = Inr (out, s)"
  using assms by (subst read_mid.simps) simp

lemma read_mid_overruns:
  assumes "pframe_get D vn (S5_DATA_BLOCK off) s = Inr (0, s)" and "page_of vn (nat (S5_DATA_BLOCK off)) s = Inr p"
    and "S5_DATA_BLOCK off \<noteq> end_block"
  shows "read_mid D vn off end_block len out s = Inl Wild_access"
proof (induction "len - length out" arbitrary: out rule: less_induct)
  case less
  show ?case
  proof (cases "copy_out len 0 (int S5_BLOCK_SIZE) p out")
    case (Inl e)
    then have "e = Wild_access" by (auto simp: copy_out_def check_def split: if_splits)
    then show ?thesis using assms Inl by (subst read_mid.simps) (simp add: Let_def)
  next
    case (Inr out')
    then have "len - length out' < len - length out" by (auto simp: copy_out_eq_Inr S5_BLOCK_SIZE_def)
    from less [OF this] show ?thesis using assms Inr by (subst read_mid.simps) (simp add: Let_def)
  qed
qed

lemma page_sums:
  assumes "b * 4096 + m = n" and "e * 4096 + r = n + l" and "m < 4096" and "r < (4096 :: nat)"
  shows "b < e \<Longrightarrow> 4096 - m \<le> l" and "b < e \<Longrightarrow> (b + 1) * 4096 \<le> n + l"
    and "e = b + 1 \<Longrightarrow> l - (4096 - m) \<le> 4096" and "int n + 4096 - int m = int ((b + 1) * 4096)"
  by (insert assms) (auto simp: algebra_simps)

lemma read_file_run:
  assumes L: "has_len s vn ino L" and ok: "pages_ok s" and pos: "0 \<le> seek" "seek + int len \<le> L" "0 < len"
    and p: "fpages (fs_data s) ino (nat seek div 4096) = Some (p, d)"
    and q: "fpages (fs_data s) ino ((nat seek + len) div 4096) = Some (q, d')"
    and nxt: "fpages (fs_data s) ino (nat seek div 4096 + 1) \<noteq> None \<or> (nat seek + len) div 4096 = nat seek div 4096"
  shows "s5_read_file D vn seek len s =
    (if (nat seek + len) div 4096 = nat seek div 4096 then
       Inr (int len, take len (drop (nat seek mod 4096) p), s)
     else if (nat seek + len) div 4096 = nat seek div 4096 + 1 then
       Inr (int len, drop (nat seek mod 4096) p @ take (len - (4096 - nat seek mod 4096)) q, s)
     else Inl Wild_access)"
proof -
  obtain n where n: "seek = int n" using pos(1) by (metis nonneg_int_cases)
  let ?b = "n div 4096" and ?e = "(n + len) div 4096" and ?m = "n mod 4096"
  from L obtain v where v: "vnodes s vn = Some v" "vn_i v = ino" "vn_len v = L" "0 \<le> L" "L < 2 ^ 31"
    by (auto simp: has_len_def)
  have vi: "vn_inode vn s = Inr (ino, inodes (fs_data s) ino)" using v by (simp add: vn_inode_eq)
  have len: "to_off len = int len" using pos v(5) n by (intro to_off_small) simp
  have e: "sint32 (int n + int len) = Inr (int n + int len)"
    using pos v(4,5) n by (simp add: sint32_def in_int_def)
  have m: "min (int n + int len) L = int n + int len" using pos(2) n by simp
  have blocks: "S5_DATA_BLOCK (int n) = int ?b" "S5_DATA_OFFSET (int n) = int ?m"
    "S5_DATA_BLOCK (int n + int len) = int ?e"
    using data_block [of "int n"] data_block [of "int n + int len"] data_offset [of "int n"] by (simp_all add: zdiv_int zmod_int)
  have get: "pframe_get D vn (int b) s = Inr (0, s)" if "fpages (fs_data s) ino b \<noteq> None" for b
    using pframe_get_resident [OF v(1)] that v(2) by simp
  have pg: "page_of vn b s = Inr x" if "fpages (fs_data s) ino b = Some (x, f)" for b x f
    using page_of_resident [OF v(1)] that v(2) by simp
  have lp: "length p = 4096" "length q = 4096" using ok p q by (auto simp: pages_ok_def)
  have g1: "pframe_get D vn (int ?b) s = Inr (0, s)" using p n by (intro get) simp
  have g2: "pframe_get D vn (int ?e) s = Inr (0, s)" using q n by (intro get) simp
  have pp: "page_of vn ?b s = Inr p" using p n by (intro pg) simp
  have pq: "page_of vn ?e s = Inr q" using q n by (intro pg) simp
  have md: "?m < 4096" "(n + len) mod 4096 < 4096" by simp_all
  have run: "s5_read_file D vn (int n) len s =
    (if ?b = ?e then
       bnd (copy_out len (int ?m) (int len) p []) (\<lambda>out. Inr (int len, out, s))
     else
       bnd (copy_out len (int ?m) (4096 - int ?m) p []) (\<lambda>out.
       bnd (sint32 (int n + 4096 - int ?m)) (\<lambda>off.
       bnd (read_mid D vn off (int ?e) len out s) (\<lambda>(out, s).
       bnd (page_of vn ?e s) (\<lambda>last.
       bnd (copy_out len 0 (int len - int (length out)) last out) (\<lambda>out.
       Inr (int len, out, s)))))))"
    using has_len_agrees [OF L v(1)] pos n v(3)
    by (simp add: s5_read_file_def vn_get_def v vi len Let_def m blocks g1 g2 pp e S5_BLOCK_SIZE_def del: of_nat_add of_nat_div of_nat_mod)
  show ?thesis
  proof (cases "?b = ?e")
    case True
    have "?m + len \<le> 4096" using pages_between [of n len 0] True md(2) by simp
    then have "copy_out len (int ?m) (int len) p [] = Inr (take len (drop ?m p))" using lp by (simp add: copy_out_eq_Inr)
    then show ?thesis using True run by (simp add: n)
  next
    case False
    have le: "?b < ?e" using False div_le_mono [of n "n + len" 4096] by simp
    have mn: "?b * 4096 + ?m = n" "?e * 4096 + (n + len) mod 4096 = n + len" by (rule div_mult_mod_eq)+
    note ps = page_sums [OF mn md]
    have f: "4096 - ?m \<le> len" using ps(1) le by blast
    have first: "copy_out len (int ?m) (4096 - int ?m) p [] = Inr (drop ?m p)"
      using lp f md by (auto simp: copy_out_eq_Inr nat_diff_distrib)
    have "int n + 4096 - int ?m = int ((?b + 1) * 4096)" by (rule ps(4))
    moreover have "int ((?b + 1) * 4096) < 2 ^ 31" using ps(2) [OF le] pos(2) v(5) n by linarith
    ultimately have off: "sint32 (int n + 4096 - int ?m) = Inr (int ((?b + 1) * 4096))"
      by (simp add: sint32_def in_int_def)
    have blk: "S5_DATA_BLOCK (int ((?b + 1) * 4096)) = int (?b + 1)" using data_block [of "int ((?b + 1) * 4096)"] by simp
    have "fpages (fs_data s) ino (?b + 1) \<noteq> None" using nxt False n by simp
    then obtain r fr where r: "fpages (fs_data s) ino (?b + 1) = Some (r, fr)" by auto
    have g3: "pframe_get D vn (S5_DATA_BLOCK (int ((?b + 1) * 4096))) s = Inr (0, s)" unfolding blk using r by (intro get) simp
    have p3: "page_of vn (nat (S5_DATA_BLOCK (int ((?b + 1) * 4096)))) s = Inr r" unfolding blk nat_int using r by (intro pg)
    show ?thesis
    proof (cases "?e = ?b + 1")
      case True
      have "S5_DATA_BLOCK (int ((?b + 1) * 4096)) = int ?e" unfolding blk True ..
      note mid = read_mid_last [OF g3 this, of len "drop ?m p"]
      have t: "len - (4096 - ?m) \<le> 4096" using ps(3) [OF True] .
      have "copy_out len 0 (int len - int (length (drop ?m p))) q (drop ?m p) = Inr (drop ?m p @ take (len - (4096 - ?m)) q)"
        using lp f t md by (auto simp: copy_out_eq_Inr nat_diff_distrib)
      then show ?thesis using run False True first off mid pq by (simp add: n del: of_nat_add of_nat_mult)
    next
      case far: False
      have "S5_DATA_BLOCK (int ((?b + 1) * 4096)) \<noteq> int ?e" unfolding blk using far by (simp del: of_nat_add)
      note mid = read_mid_overruns [OF g3 p3 this, of len "drop ?m p"]
      show ?thesis using run False far first off mid by (simp add: n del: of_nat_add of_nat_mult)
    qed
  qed
qed

end
