(* ===== verification/S5total.thy ===== *)
theory S5total
  imports S5data
begin

text \<open>
  Writes that touch only resident dirty pages always return: no block has to be found for them.
\<close>

definition dirty_range :: "sstate \<Rightarrow> nat \<Rightarrow> nat \<Rightarrow> nat \<Rightarrow> bool" where
  "dirty_range s ino a e \<longleftrightarrow> (\<forall>b. a \<le> b \<and> b \<le> e \<longrightarrow> (\<exists>p. fpages (fs_data s) ino b = Some (p, True)))"

lemma store_dirty:
  assumes "vnodes s vn = Some v" and "fpages (fs_data s) (vn_i v) b = Some (p, True)"
    and "off + length bs \<le> 4096"
  shows "store D vn b off bs s = Inr (fs_upd (set_page (vn_i v) b (Some (put_bytes off bs p, True))) s)"
  using assms by (simp add: store_def vn_inode_def vn_get_def pframe_dirty_def) (simp add: fs_upd_def set_page_def)

lemma store_total:
  assumes "vnodes s vn = Some v" and "vn_i v = ino" and "dirty_range s ino a e" and "a \<le> b" "b \<le> e"
    and "off + length bs \<le> 4096"
  shows "\<exists>s'. store D vn b off bs s = Inr s' \<and> vnodes s' = vnodes s \<and> dirty_range s' ino a e"
proof -
  from assms obtain p where "fpages (fs_data s) ino b = Some (p, True)" by (auto simp: dirty_range_def)
  with store_dirty [OF assms(1) _ assms(6), of b p D] assms(2,3) show ?thesis
    by (auto simp: dirty_range_def)
qed

lemma set_size_total:
  assumes "vnodes s vn = Some v" and "vn_i v = ino" and "dirty_range s ino a e"
  shows "\<exists>s' v'. set_size vn n s = Inr s' \<and> vnodes s' vn = Some v' \<and> vn_i v' = ino \<and> dirty_range s' ino a e"
  using assms by (auto simp: set_size_def vn_inode_def vn_get_def dirty_range_def inode_upd_def)

lemma write_mid_total:
  assumes "vnodes s vn = Some v" and "vn_i v = ino" and "dirty_range s ino a e" and "a \<le> b" and "b + n \<le> Suc e"
    and "n * 4096 \<le> length bytes"
  shows "\<exists>s'. write_mid D vn b n bytes s = Inr (drop (n * 4096) bytes, s') \<and> vnodes s' = vnodes s
    \<and> dirty_range s' ino a e"
  using assms
proof (induction n arbitrary: b bytes s)
  case 0
  then show ?case by simp
next
  case (Suc n)
  have be: "b \<le> e" using Suc.prems by simp
  then have "fpages (fs_data s) (vn_i v) (nat (int b)) \<noteq> None"
    using Suc.prems(2,3,4) unfolding dirty_range_def by fastforce
  then have g: "pframe_get D vn (int b) s = Inr (0, s)"
    using Suc.prems(1) by (intro pframe_get_resident) simp_all
  obtain s1 where s1: "store D vn b 0 (take 4096 bytes) s = Inr s1" "vnodes s1 = vnodes s" "dirty_range s1 ino a e"
    using store_total [OF Suc.prems(1-4) be, of 0 "take 4096 bytes" D] by auto
  have v1: "vnodes s1 vn = Some v" using s1(2) Suc.prems(1) by simp
  have ab: "a \<le> Suc b" "Suc b + n \<le> Suc e" "n * 4096 \<le> length (drop 4096 bytes)"
    using Suc.prems(4-6) by simp_all
  obtain s2 where "write_mid D vn (Suc b) n (drop 4096 bytes) s1 = Inr (drop (n * 4096) (drop 4096 bytes), s2)"
      "vnodes s2 = vnodes s1" "dirty_range s2 ino a e"
    using Suc.IH [OF v1 Suc.prems(2) s1(3) ab] by blast
  then show ?case using g s1 Suc.prems(6) by (simp add: add.commute)
qed

lemma write_file_total:
  assumes L: "has_len s vn ino L" and pos: "0 \<le> seek" "seek + int len \<le> S5_MAX_FILE_SIZE"
    and bytes: "len \<le> length bytes"
    and d: "dirty_range s ino (nat seek div 4096) ((nat seek + len) div 4096)"
  shows "\<exists>s'. s5_write_file D vn seek bytes len s = Inr (int len, s')"
proof -
  obtain n where n: "seek = int n" using pos(1) by (metis nonneg_int_cases)
  let ?a = "n div 4096" and ?e = "(n + len) div 4096"
  from L obtain v where v: "vnodes s vn = Some v" "vn_i v = ino" "vn_len v = L" "0 \<le> L" "L < 2 ^ 31"
    by (auto simp: has_len_def)
  have e: "n + len \<le> 4308992" using pos(2) n by (simp add: S5_MAX_FILE_SIZE_def S5_MAX_FILE_BLOCKS_def)
  have u: "to_u32 (int n + int len) = n + len" using e by (subst to_u32_small) auto
  have clip: "min (int (to_u32 (int n + int len))) S5_MAX_FILE_SIZE = int (n + len)" using pos n u by simp
  have len: "to_off len = int len" using e by (intro to_off_small) simp
  have vi: "vn_inode vn s = Inr (ino, inodes (fs_data s) ino)" using v by (simp add: vn_inode_eq)
  have blocks: "int n div 4096 = int ?a" "int n mod 4096 = int (n mod 4096)"
    "int (n + len) div 4096 = int ?e" "int (n + len) mod 4096 = int ((n + len) mod 4096)"
    by (simp_all only: zdiv_int zmod_int of_nat_numeral)
  have ae: "?a \<le> ?e" by (simp add: div_le_mono)
  have d': "dirty_range s ino ?a ?e" using d n by simp
  have get: "pframe_get D vn (int b) s = Inr (0, s)" if "?a \<le> b" "b \<le> ?e" for b
  proof (rule pframe_get_resident [OF v(1)])
    show "fpages (fs_data s) (vn_i v) (nat (int b)) \<noteq> None"
      using that v(2) d' unfolding dirty_range_def by fastforce
  qed simp
  have pre: "s5_write_file D vn seek bytes len s =
      (if int ?a = int ?e then
         check (0 \<le> int (n mod 4096) \<and> len \<le> length bytes \<and> nat (int (n mod 4096)) + len \<le> 4096) Wild_access (
         check (int (n mod 4096) + int len = int ((n + len) mod 4096)) Kassert_failed (
         bnd (store D vn (nat (int ?a)) (nat (int (n mod 4096))) (take len bytes) s) (\<lambda>s.
         bnd (set_size vn (to_u32 (max (int (n + len)) L)) s) (\<lambda>s. Inr (int len, s)))))
       else
         check (0 \<le> int (n mod 4096) \<and> int ?a < int ?e) Wild_access (
         let first = 4096 - nat (int (n mod 4096));
             mid = nat (int ?e - int ?a - 1);
             num_bytes = first + mid * 4096 in
         check (first \<le> length bytes) Wild_access (
         bnd (store D vn (nat (int ?a)) (nat (int (n mod 4096))) (take first bytes) s) (\<lambda>s.
         bnd (set_size vn (max (to_u32 (int n + int first)) (to_u32 L)) s) (\<lambda>s.
         bnd (write_mid D vn (Suc (nat (int ?a))) mid (drop first bytes) s) (\<lambda>(bytes, s).
         check (num_bytes \<le> len \<and> len - num_bytes \<le> length bytes) Wild_access (
         bnd (store D vn (nat (int ?e)) 0 (take (len - num_bytes) bytes) s) (\<lambda>s.
         bnd (vn_get vn s) (\<lambda>v.
         bnd (set_size vn (to_u32 (max (int (n + len)) (vn_len v))) s) (\<lambda>s.
         Inr (int len, s)))))))))))"
    using has_len_agrees [OF L v(1)] get [OF order_refl ae] get [OF ae order_refl]
    unfolding s5_write_file_def Let_def n clip len
    by (simp only: vn_get_def v vi data_block data_offset of_nat_0_le_iff blocks bnd_Inr check_True deref_Some
        prod.case if_False if_True NDIRECT_BLOCK_SIZE less_irrefl)
  show ?thesis
  proof (cases "?a = ?e")
    case True
    have m: "n mod 4096 + len = (n + len) mod 4096" using pages_between [of n len 0] True by simp
    have le: "n mod 4096 + length (take len bytes) \<le> 4096"
      using m mod_less_divisor [of 4096 "n + len"] bytes by simp
    obtain s1 where s1: "store D vn ?a (n mod 4096) (take len bytes) s = Inr s1" "vnodes s1 = vnodes s"
        "dirty_range s1 ino ?a ?e"
      using store_total [OF v(1,2) d' order_refl ae le] by blast
    obtain s2 where "set_size vn (to_u32 (max (int (n + len)) L)) s1 = Inr s2"
      using set_size_total [of s1 vn v ino ?a ?e] v(1,2) s1(2,3) by auto
    then show ?thesis unfolding pre using s1(1) True m bytes le by simp
  next
    case False
    with ae have lt: "?a < ?e" by simp
    define f where "f = 4096 - n mod 4096"
    define mid where "mid = ?e - ?a - 1"
    have md: "n mod 4096 < 4096" by simp
    have i: "?e = ?a + (mid + 1)" using lt by (simp add: mid_def)
    have t: "n mod 4096 + len = (mid + 1) * 4096 + (n + len) mod 4096" by (rule pages_between [OF i])
    have r: "(n + len) mod 4096 < 4096" by simp
    have fl: "f + mid * 4096 \<le> len" "len - (f + mid * 4096) < 4096" using t md r by (simp_all add: f_def)
    have fb: "f \<le> length bytes" "mid * 4096 \<le> length (drop f bytes)"
      "len - (f + mid * 4096) \<le> length (drop (mid * 4096) (drop f bytes))"
      using fl(1) bytes by simp_all
    have nn: "nat (int ?a) = ?a" "nat (int ?e) = ?e" "nat (int (n mod 4096)) = n mod 4096"
      "nat (int ?e - int ?a - 1) = mid" using lt by (simp_all add: mid_def)
    have "n mod 4096 + length (take f bytes) \<le> 4096" using md fb(1) by (simp add: f_def)
    from store_total [OF v(1,2) d' order_refl ae this]
    obtain s1 where s1: "store D vn ?a (n mod 4096) (take f bytes) s = Inr s1" "vnodes s1 = vnodes s"
        "dirty_range s1 ino ?a ?e" by blast
    have v1: "vnodes s1 vn = Some v" using s1(2) v(1) by simp
    obtain s2 v2 where s2: "set_size vn (max (to_u32 (int n + int f)) (to_u32 L)) s1 = Inr s2"
        "vnodes s2 vn = Some v2" "vn_i v2 = ino" "dirty_range s2 ino ?a ?e"
      using set_size_total [OF v1 v(2) s1(3)] by blast
    have b1: "?a \<le> Suc ?a" "Suc ?a + mid \<le> Suc ?e" using i by simp_all
    obtain s3 where s3: "write_mid D vn (Suc ?a) mid (drop f bytes) s2 = Inr (drop (mid * 4096) (drop f bytes), s3)"
        "vnodes s3 = vnodes s2" "dirty_range s3 ino ?a ?e"
      using write_mid_total [OF s2(2-4) b1 fb(2)] by blast
    have v3: "vnodes s3 vn = Some v2" using s2(2) s3(2) by simp
    have "0 + length (take (len - (f + mid * 4096)) (drop (mid * 4096) (drop f bytes))) \<le> 4096"
      using fl(2) by simp
    from store_total [OF v3 s2(3) s3(3) ae order_refl this]
    obtain s4 where s4: "store D vn ?e 0 (take (len - (f + mid * 4096)) (drop (mid * 4096) (drop f bytes))) s3
        = Inr s4" "vnodes s4 = vnodes s3" "dirty_range s4 ino ?a ?e" by blast
    have v4: "vnodes s4 vn = Some v2" using s4(2) v3 by simp
    obtain s5 where s5: "set_size vn (to_u32 (max (int (n + len)) (vn_len v2))) s4 = Inr s5"
      using set_size_total [OF v4 s2(3) s4(3)] by blast
    show ?thesis
      unfolding pre nn Let_def f_def [symmetric]
      using lt s1(1) s2(1) s3(1) s4(1) s5 v4 fb fl by (simp add: vn_get_def)
  qed
qed

end
