(* ===== verification/S5entries.thy ===== *)
theory S5entries
  imports S5total
begin

text \<open>
  A directory of the System V file system as a map from names to inode numbers.  \<open>dir_holds s vn ino ds\<close>
  says that the pages of the directory are resident and hold the entries \<open>ds\<close>.  Searching a
  directory looks a name up, \<open>s5_link\<close> adds a name, and \<open>s5_remove_dirent\<close> overwrites an entry with
  the last one.
\<close>

lemma page_rest: "m + l = 4096 + r \<Longrightarrow> m < 4096 \<Longrightarrow> l - (4096 - m) = r" for l :: nat
  by simp

lemma next_page: "b \<le> e \<Longrightarrow> e \<le> a + 1 \<Longrightarrow> \<not> b \<le> a \<Longrightarrow> b = e" for b :: nat
  by simp

lemma read_file_holds:
  assumes L: "has_len s vn ino L" and ok: "pages_ok s" and pos: "0 \<le> seek" "seek + int (length bs) \<le> L"
    and bs: "bs \<noteq> []" "holds s ino (nat seek) bs"
    and q: "fpages (fs_data s) ino ((nat seek + length bs) div 4096) \<noteq> None"
  shows "s5_read_file D vn seek (length bs) s =
    (if (nat seek + length bs) div 4096 \<le> nat seek div 4096 + 1 then Inr (int (length bs), bs, s)
     else Inl Wild_access)"
proof -
  let ?n = "nat seek" and ?l = "length bs"
  from bs(1) have l: "0 < ?l" by simp
  obtain p d where p: "fpages (fs_data s) ino (?n div 4096) = Some (p, d)"
    using holds_resident [OF bs(2), of ?n] l by auto
  from q obtain e d' where e: "fpages (fs_data s) ino ((?n + ?l) div 4096) = Some (e, d')" by auto
  have le: "?n div 4096 \<le> (?n + ?l) div 4096" by (simp add: div_le_mono)
  have nxt: "fpages (fs_data s) ino (?n div 4096 + 1) \<noteq> None \<or> (?n + ?l) div 4096 = ?n div 4096"
  proof (cases "(?n + ?l) div 4096 \<le> ?n div 4096 + 1")
    case True
    then consider "(?n + ?l) div 4096 = ?n div 4096" | "(?n + ?l) div 4096 = ?n div 4096 + 1" using le by linarith
    then show ?thesis using e by cases simp_all
  next
    case False
    let ?pos = "(?n div 4096 + 1) * 4096"
    have "?n \<le> ?pos" using mod_less_divisor [of 4096 ?n] div_mult_mod_eq [of ?n 4096] by simp
    moreover have "?pos < ?n + ?l"
    proof (rule less_le_trans)
      show "?pos < ((?n + ?l) div 4096) * 4096" using False by simp
      show "((?n + ?l) div 4096) * 4096 \<le> ?n + ?l" by (rule div_times_less_eq_dividend)
    qed
    ultimately obtain x f where "fpages (fs_data s) ino (?pos div 4096) = Some (x, f)"
      using holds_resident [OF bs(2), of ?pos] by auto
    then show ?thesis by simp
  qed
  note run = read_file_run [OF L ok pos l p e nxt, of D]
  have lp: "length p = 4096" using ok p by (auto simp: pages_ok_def)
  show ?thesis
  proof (cases "(?n + ?l) div 4096 = ?n div 4096")
    case True
    have "?n mod 4096 + ?l \<le> 4096" using pages_between [of ?n ?l 0] True mod_less_divisor [of 4096 "?n + ?l"] by simp
    then have "take ?l (drop (?n mod 4096) p) = bs"
      using holds_page [OF bs(2) ok, of 0 ?l p d] p by simp
    then show ?thesis using run True by simp
  next
    case False
    show ?thesis
    proof (cases "(?n + ?l) div 4096 = ?n div 4096 + 1")
      case True
      let ?f = "4096 - ?n mod 4096"
      have md: "?n mod 4096 < 4096" "(?n + ?l) mod 4096 < 4096" by simp_all
      have t: "?n mod 4096 + ?l = 4096 + (?n + ?l) mod 4096" using pages_between [OF True] by simp
      have f: "?f \<le> ?l" using t md by simp
      have a: "drop (?n mod 4096) p = take ?f bs"
        using holds_page [OF bs(2) ok, of 0 ?f p d] p f lp by simp
      have nf: "?n + ?f = 4096 * Suc (?n div 4096)" by (rule page_end [OF mult_div_mod_eq md(1), symmetric])
      have m: "(?n + ?f) mod 4096 = 0" unfolding nf by (rule mod_mult_self1_is_0)
      show ?thesis
      proof (cases "?l = ?f")
        case True
        then show ?thesis using run \<open>(?n + ?l) div 4096 = ?n div 4096 + 1\<close> a by simp
      next
        case False
        have dv: "(?n + ?f) div 4096 = (?n + ?l) div 4096" using True unfolding nf by simp
        have "?l - ?f = (?n + ?l) mod 4096" by (rule page_rest [OF t md(1)])
        then have "(?n + ?f) mod 4096 + (?l - ?f) \<le> 4096" using md(2) unfolding m by linarith
        from holds_page [OF bs(2) ok _ this, of e d'] f
        have "take (?l - ?f) (drop ((?n + ?f) mod 4096) e) = take (?l - ?f) (drop ?f bs)"
          unfolding dv e by simp
        then have "take (?l - ?f) e = drop ?f bs" unfolding m by simp
        then have "drop (?n mod 4096) p @ take (?l - ?f) e = bs" unfolding a by simp
        then show ?thesis using run True by simp
      qed
    next
      case F: False
      then show ?thesis using run False le by simp
    qed
  qed
qed

subsection \<open>Entries\<close>

definition entry_ok :: "string \<Rightarrow> bool" where
  "entry_ok d \<longleftrightarrow> length d = 32 \<and> NUL \<in> set (dirent_name d)"

definition entry_name :: "string \<Rightarrow> string" where
  "entry_name d = takeWhile (\<lambda>c. c \<noteq> NUL) (dirent_name d)"

definition dir_holds :: "sstate \<Rightarrow> nat \<Rightarrow> nat \<Rightarrow> string list \<Rightarrow> bool" where
  "dir_holds s vn ino ds \<longleftrightarrow> has_len s vn ino (int (32 * length ds)) \<and> pages_ok s
     \<and> holds s ino 0 (concat ds) \<and> (\<forall>b\<le>32 * length ds div 4096. fpages (fs_data s) ino b \<noteq> None)
     \<and> list_all entry_ok ds"

text \<open>The map of names to inode numbers; of two entries with one name the first counts.\<close>

definition entry_map :: "string list \<Rightarrow> string \<rightharpoonup> nat" where
  "entry_map ds = map_of (map (\<lambda>d. (entry_name d, dirent_ino d)) ds)"

lemma length_concat_entries: "list_all entry_ok ds \<Longrightarrow> length (concat ds) = 32 * length ds"
  by (induction ds) (auto simp: entry_ok_def)

lemma nth_concat_entries:
  "list_all entry_ok ds \<Longrightarrow> k < length ds \<Longrightarrow> j < 32 \<Longrightarrow> concat ds ! (32 * k + j) = ds ! k ! j"
proof (induction ds arbitrary: k)
  case (Cons d ds)
  have d: "length d = 32" using Cons.prems by (simp add: entry_ok_def)
  show ?case
  proof (cases k)
    case 0
    then show ?thesis using Cons.prems d by (simp add: nth_append)
  next
    case (Suc i)
    have "concat ds ! (32 * i + j) = ds ! i ! j" using Cons Suc by simp
    then show ?thesis using d Suc by (simp add: nth_append add.assoc)
  qed
qed simp

lemma dir_read_entry:
  assumes dir: "dir_holds s vn ino ds" and k: "k < length ds"
  shows "s5_read_file D vn (int (32 * k)) 32 s = Inr (32, ds ! k, s)"
proof -
  have L: "has_len s vn ino (int (32 * length ds))" and ok: "pages_ok s" and h: "holds s ino 0 (concat ds)"
    and e: "list_all entry_ok ds" and res: "\<And>b. b \<le> 32 * length ds div 4096 \<Longrightarrow> fpages (fs_data s) ino b \<noteq> None"
    using dir by (auto simp: dir_holds_def)
  have l: "length (ds ! k) = 32" using e k by (simp add: list_all_length entry_ok_def)
  have "holds s ino (32 * k) (ds ! k)"
    unfolding holds_def
  proof (intro allI impI)
    fix j assume "j < length (ds ! k)"
    then have j: "j < 32" using l by simp
    have "32 * k + j < length (concat ds)" using length_concat_entries [OF e] k j by simp
    then have "byte_at s ino (32 * k + j) = Some (concat ds ! (32 * k + j))"
      using h by (simp add: holds_def)
    then show "byte_at s ino (32 * k + j) = Some (ds ! k ! j)" using nth_concat_entries [OF e k j] by simp
  qed
  then have hd: "holds s ino (nat (int (32 * k))) (ds ! k)" by (simp only: nat_int)
  have "(32 * k + 32) div 4096 \<le> 32 * length ds div 4096" using k by (intro div_le_mono) simp
  then have q: "fpages (fs_data s) ino ((nat (int (32 * k)) + length (ds ! k)) div 4096) \<noteq> None"
    unfolding nat_int l by (rule res)
  have near: "(32 * k + 32) div 4096 \<le> 32 * k div 4096 + 1"
    using div_add1_eq [of "32 * k" 32 4096] by simp
  have pos: "0 \<le> int (32 * k)" "int (32 * k) + int (length (ds ! k)) \<le> int (32 * length ds)" "ds ! k \<noteq> []"
    using k l by auto
  from read_file_holds [OF L ok pos hd q, of D] near show ?thesis
    unfolding nat_int l by simp
qed

lemma dir_read_end:
  assumes "dir_holds s vn ino ds"
  shows "s5_read_file D vn (int (32 * length ds)) n s = Inr (0, [], s)"
proof -
  have L: "has_len s vn ino (int (32 * length ds))" using assms by (simp add: dir_holds_def)
  then obtain v where v: "vnodes s vn = Some v" "vn_i v = ino" "vn_len v = int (32 * length ds)"
    by (auto simp: has_len_def)
  then show ?thesis using has_len_agrees [OF L v(1)]
    by (simp add: s5_read_file_def vn_get_def vn_inode_def)
qed

subsection \<open>Searching\<close>

fun first_match :: "string list \<Rightarrow> string \<Rightarrow> nat \<Rightarrow> nat option" where
  "first_match [] nm l = None"
| "first_match (d # ds) nm l =
     (if name_match (entry_name d) nm l then Some 0 else map_option Suc (first_match ds nm l))"

lemma cstr_entry: "entry_ok d \<Longrightarrow> cstr (dirent_name d) = Inr (entry_name d)"
  by (simp add: cstr_def entry_ok_def entry_name_def)

lemma scan_entries:
  assumes dir: "dir_holds s vn ino ds" and "k \<le> length ds" and "length ds - k < fuel"
  shows "scan_dirents fuel D vn nm l (int (32 * k)) s =
    Inr (case first_match (drop k ds) nm l of None \<Rightarrow> Inl (- ENOENT)
         | Some i \<Rightarrow> Inr (ds ! (k + i), int (32 * (k + i))), s)"
  using assms(2,3)
proof (induction fuel arbitrary: k)
  case (Suc fuel)
  show ?case
  proof (cases "k = length ds")
    case True
    then show ?thesis using dir_read_end [OF dir] by (simp add: DIRENT_SIZE_def)
  next
    case False
    with Suc.prems have k: "k < length ds" by simp
    have e: "entry_ok (ds ! k)" using dir k by (simp add: dir_holds_def list_all_length)
    have d: "drop k ds = ds ! k # drop (Suc k) ds" using k by (rule Cons_nth_drop_Suc [symmetric])
    have off: "int (32 * k) + 32 = int (32 * Suc k)" by simp
    show ?thesis
    proof (cases "name_match (entry_name (ds ! k)) nm l")
      case True
      then show ?thesis using dir_read_entry [OF dir k, of D]
        by (simp add: DIRENT_SIZE_def cstr_entry [OF e] d del: of_nat_mult)
    next
      case False
      have "scan_dirents fuel D vn nm l (int (32 * Suc k)) s =
        Inr (case first_match (drop (Suc k) ds) nm l of None \<Rightarrow> Inl (- ENOENT)
         | Some i \<Rightarrow> Inr (ds ! (Suc k + i), int (32 * (Suc k + i))), s)"
        using Suc.prems k by (intro Suc.IH) simp_all
      then show ?thesis using dir_read_entry [OF dir k, of D] False
        by (cases "first_match (drop (Suc k) ds) nm l")
          (simp_all add: DIRENT_SIZE_def cstr_entry [OF e] d off del: of_nat_mult mult_Suc_right)
    qed
  qed
qed simp

lemma dir_scan:
  assumes dir: "dir_holds s vn ino ds" and v: "vnodes s vn = Some v"
  shows "scan_dirents (dir_fuel v) D vn nm l 0 s =
    Inr (case first_match ds nm l of None \<Rightarrow> Inl (- ENOENT)
         | Some i \<Rightarrow> Inr (ds ! i, int (32 * i)), s)"
proof -
  have "vn_len v = int (32 * length ds)" using dir v by (auto simp: dir_holds_def has_len_def)
  then have "length ds - 0 < dir_fuel v" by (simp add: dir_fuel_def DIRENT_SIZE_def nat_mult_distrib)
  from scan_entries [OF dir _ this, of D nm l] show ?thesis
    by (cases "first_match ds nm l") simp_all
qed

lemma first_match_map:
  assumes "list_all entry_ok ds" and "NUL \<notin> set nm"
  shows "entry_map ds nm = map_option (\<lambda>i. dirent_ino (ds ! i)) (first_match ds nm (length nm))"
  using assms(1)
proof (induction ds)
  case Nil
  then show ?case by (simp add: entry_map_def)
next
  case (Cons d ds)
  have "NUL \<notin> set (entry_name d)" by (auto simp: entry_name_def dest: set_takeWhileD)
  then have "name_match (entry_name d) nm (length nm) \<longleftrightarrow> entry_name d = nm"
    using assms(2) by (rule name_match_iff) simp
  then show ?case using Cons by (auto simp: entry_map_def option.map_comp comp_def)
qed

lemma find_dirent_looks_up:
  assumes dir: "dir_holds s vn ino ds" and n: "okname n"
  shows "s5_find_dirent D vn n (length n) s =
    Inr (case entry_map ds n of None \<Rightarrow> - ENOENT | Some i \<Rightarrow> to_off i, s)"
proof -
  have e: "list_all entry_ok ds" and L: "has_len s vn ino (int (32 * length ds))"
    using dir by (auto simp: dir_holds_def)
  from L obtain v where v: "vnodes s vn = Some v" "vn_i v = ino" by (auto simp: has_len_def)
  have n': "length n \<le> S5_NAME_LEN - 1" "length n \<noteq> 0" "NUL \<notin> set n"
    using n by (auto simp: okname_def NAME_LEN_def S5_NAME_LEN_def)
  show ?thesis
    using dir_scan [OF dir v(1), of D n "length n"] first_match_map [OF e n'(3)] has_len_agrees [OF L v(1)] n' v
    by (auto simp: s5_find_dirent_def vn_get_def vn_inode_def split: option.split)
qed

subsection \<open>Writing entries\<close>

lemma holds_entries:
  assumes e: "list_all entry_ok ds"
  shows "holds s ino 0 (concat ds) \<longleftrightarrow>
    (\<forall>k<length ds. \<forall>j<32. byte_at s ino (32 * k + j) = Some (ds ! k ! j))"
proof
  assume h: "holds s ino 0 (concat ds)"
  show "\<forall>k<length ds. \<forall>j<32. byte_at s ino (32 * k + j) = Some (ds ! k ! j)"
  proof (intro allI impI)
    fix k j :: nat assume kj: "k < length ds" "j < 32"
    then have "32 * k + j < length (concat ds)" using length_concat_entries [OF e] by simp
    with h have "byte_at s ino (32 * k + j) = Some (concat ds ! (32 * k + j))" by (simp add: holds_def)
    then show "byte_at s ino (32 * k + j) = Some (ds ! k ! j)" using nth_concat_entries [OF e kj] by simp
  qed
next
  assume a: "\<forall>k<length ds. \<forall>j<32. byte_at s ino (32 * k + j) = Some (ds ! k ! j)"
  show "holds s ino 0 (concat ds)"
    unfolding holds_def
  proof (intro allI impI)
    fix i assume "i < length (concat ds)"
    then have k: "i div 32 < length ds" using length_concat_entries [OF e] by simp
    have j: "i mod 32 < 32" by simp
    have i: "32 * (i div 32) + i mod 32 = i" by simp
    have "concat ds ! i = ds ! (i div 32) ! (i mod 32)" using nth_concat_entries [OF e k j] i by simp
    moreover have "byte_at s ino i = Some (ds ! (i div 32) ! (i mod 32))" using a k j i by metis
    ultimately show "byte_at s ino (0 + i) = Some (concat ds ! i)" by simp
  qed
qed

lemma dir_write_entry:
  assumes dir: "dir_holds s vn ino ds" and k: "k \<le> length ds"
    and run: "s5_write_file D vn (int (32 * k)) d 32 s = Inr (r, s')" and r: "0 \<le> r"
    and d: "entry_ok d" and err: "bd_err D < 0" and fits: "int (32 * Suc k) \<le> S5_MAX_FILE_SIZE"
  shows "r = 32 \<and> dir_holds s' vn ino (if k < length ds then ds[k := d] else ds @ [d]) \<and> links_kept s s'"
proof -
  let ?ds = "if k < length ds then ds[k := d] else ds @ [d]"
  have L: "has_len s vn ino (int (32 * length ds))" and ok: "pages_ok s" and h: "holds s ino 0 (concat ds)"
    and e: "list_all entry_ok ds" and res: "\<And>b. b \<le> 32 * length ds div 4096 \<Longrightarrow> fpages (fs_data s) ino b \<noteq> None"
    using dir by (auto simp: dir_holds_def)
  have ld: "length d = 32" using d by (simp add: entry_ok_def)
  have "int (32 * k) + int 32 \<le> S5_MAX_FILE_SIZE" using fits by simp
  from write_file_wrote [OF run r err L ok _ this]
  have r32: "r = 32" and w: "wrote vn ino (max (int (32 * k) + int 32) (int (32 * length ds))) (32 * k) d s s'"
    and last: "fpages (fs_data s') ino (nat ((int (32 * k) + int 32) div 4096)) \<noteq> None"
    using ld unfolding nat_int by simp_all
  have e': "list_all entry_ok ?ds"
    using e d by (auto simp: list_all_iff dest!: set_update_subset_insert [THEN subsetD])
  have len: "max (int (32 * k) + int 32) (int (32 * length ds)) = int (32 * length ?ds)"
    using k by auto
  have old: "byte_at s ino (32 * i + j) = Some (ds ! i ! j)" if "i < length ds" "j < 32" for i j
    using h that unfolding holds_entries [OF e] by blast
  have new: "byte_at s' ino (32 * i + j) = Some (?ds ! i ! j)" if i: "i < length ?ds" and j: "j < 32" for i j
  proof (cases "i = k")
    case True
    have "byte_at s' ino (32 * k + j) = Some (d ! j)"
      using w j ld by (simp add: wrote_def puts_def)
    then show ?thesis using True k by (simp add: nth_append)
  next
    case False
    then have il: "i < length ds" "?ds ! i = ds ! i" using i k by (auto simp: nth_append split: if_splits)
    have "32 * i + j < 32 * k \<or> 32 * k + length d \<le> 32 * i + j" using False j ld by linarith
    then have "byte_at s' ino (32 * i + j) = Some (ds ! i ! j)"
      using w old [OF il(1) j] unfolding wrote_def puts_def by blast
    then show ?thesis using il(2) by simp
  qed
  have pages: "fpages (fs_data s') ino b \<noteq> None" if b: "b \<le> 32 * length ?ds div 4096" for b
  proof (cases "b \<le> 32 * length ds div 4096")
    case True
    show ?thesis by (rule wrote_resident [OF w res [OF True]])
  next
    case False
    then have kl: "k = length ds" using b k by (auto split: if_splits)
    have near: "(32 * k + 32) div 4096 \<le> 32 * k div 4096 + 1"
      using div_add1_eq [of "32 * k" 32 4096] by simp
    have "length ?ds = Suc k" using kl by simp
    then have "b \<le> (32 * k + 32) div 4096" using b by (simp only: mult_Suc_right add.commute)
    then have bq: "b = (32 * k + 32) div 4096" using near False unfolding kl by (rule next_page)
    have nq: "nat ((int (32 * k) + int 32) div 4096) = (32 * k + 32) div 4096"
      by (simp add: nat_div_distrib nat_add_distrib)
    show ?thesis using last unfolding nq bq .
  qed
  have "dir_holds s' vn ino ?ds"
    using w e' pages new unfolding dir_holds_def holds_entries [OF e'] len by (auto simp: wrote_def puts_def)
  with r32 w show ?thesis by (simp add: wrote_def puts_def)
qed

subsection \<open>Linking\<close>

lemma entry_map_append:
  "entry_map (ds @ [d]) = entry_map ds ++ ([entry_name d \<mapsto> dirent_ino d] |` (- dom (entry_map ds)))"
  by (rule ext) (auto simp: entry_map_def map_add_def restrict_map_def split: option.splits)

lemma entry_map_new:
  "entry_map ds (entry_name d) = None \<Longrightarrow> entry_map (ds @ [d]) = (entry_map ds)(entry_name d \<mapsto> dirent_ino d)"
  by (rule ext) (auto simp: entry_map_def map_add_def split: option.splits)

lemma new_entry:
  assumes n: "okname n" and i: "i < 2 ^ 32" and g: "27 \<le> length (bd_garbage D)"
  shows "entry_ok (enc32 i @ name_bytes D n)" and "entry_name (enc32 i @ name_bytes D n) = n"
    and "dirent_ino (enc32 i @ name_bytes D n) = i"
proof -
  have l: "length n \<le> 27" "NUL \<notin> set n" using n by (auto simp: okname_def NAME_LEN_def)
  have nb: "name_bytes D n = n @ [NUL] @ take (27 - length n) (bd_garbage D)"
  proof -
    have "28 - length n = Suc (27 - length n)" using l(1) by simp
    then show ?thesis using l(1) by (simp add: name_bytes_def S5_NAME_LEN_def)
  qed
  have ln: "length (name_bytes D n) = 28" using l g by (simp add: nb)
  have nm: "dirent_name (enc32 i @ name_bytes D n) = name_bytes D n"
    using ln by (simp add: dirent_name_def S5_NAME_LEN_def)
  show "entry_ok (enc32 i @ name_bytes D n)" unfolding entry_ok_def nm by (simp add: ln) (simp add: nb)
  show "entry_name (enc32 i @ name_bytes D n) = n"
  proof -
    have "\<And>c. c \<in> set n \<Longrightarrow> c \<noteq> NUL" using l(2) by auto
    then show ?thesis unfolding entry_name_def nm unfolding nb by (subst takeWhile_append2) simp_all
  qed
  show "dirent_ino (enc32 i @ name_bytes D n) = i" by (simp add: dirent_ino_def dec_enc32 [OF i])
qed

lemma dir_holds_links:
  "dir_holds (fs_upd (inode_upd i (s5_linkcount_update f)) s) vn ino ds = dir_holds s vn ino ds"
  by (simp add: dir_holds_def has_len_def pages_ok_def disk_ok_def holds_def byte_at_def inode_upd_def)

lemma dir_holds_links_if:
  "dir_holds s vn ino ds \<Longrightarrow>
   dir_holds (if c then s else fs_upd (inode_upd i (s5_linkcount_update f)) s) vn ino ds"
  by (simp add: dir_holds_links)

lemma link_enters:
  assumes run: "s5_link D parent child n (length n) s = Inr (r, s')"
    and dir: "dir_holds s parent pino ds" and n: "okname n"
    and err: "bd_err D < 0" and fits: "int (32 * Suc (length ds)) \<le> S5_MAX_FILE_SIZE"
    and g: "27 \<le> length (bd_garbage D)"
    and cv: "vnodes s child = Some cv" and num: "s5_number (inodes (fs_data s) (vn_i cv)) < 2 ^ 32"
    and names: "\<And>i. entry_map ds n = Some i \<Longrightarrow> i < 2 ^ 31"
  shows "if entry_map ds n \<noteq> None then r = -1 \<and> s' = s
    else r = 0 \<longrightarrow> (\<exists>d. dir_holds s' parent pino (ds @ [d])
        \<and> entry_map (ds @ [d]) = (entry_map ds)(n \<mapsto> vn_vno cv)
        \<and> s5_linkcount (inodes (fs_data s') (vn_i cv)) =
           (let c = s5_linkcount (inodes (fs_data s) (vn_i cv)) in if n = ''.'' then c else to_s16 (c + 1)))"
proof -
  have L: "has_len s parent pino (int (32 * length ds))" using dir by (simp add: dir_holds_def)
  then obtain pv where pv: "vnodes s parent = Some pv" "vn_i pv = pino" "vn_len pv = int (32 * length ds)"
    and un: "s5_un (inodes (fs_data s) pino) = 32 * length ds" by (auto simp: has_len_def)
  note look = find_dirent_looks_up [OF dir n, of D]
  let ?d = "enc32 (s5_number (inodes (fs_data s) (vn_i cv))) @ name_bytes D n"
  have off: "to_off (32 * length ds) = int (32 * length ds)" using fits
    by (intro to_off_small) (simp add: S5_MAX_FILE_SIZE_def S5_MAX_FILE_BLOCKS_def)
  have dot: "name_match n ''.'' 1 \<longleftrightarrow> n = ''.''"
    using n by (intro name_match_iff) (auto simp: okname_def NUL_def)
  show ?thesis
  proof (cases "entry_map ds n")
    case (Some i)
    have "0 \<le> to_off i" using names [OF Some] by (simp add: to_off_small)
    then show ?thesis
      using run Some look pv cv by (auto simp: s5_link_def run_eq vn_inode_eq)
  next
    case None
    let ?w = "bnd (s5_write_file D parent (int (32 * length ds)) ?d 32 s) (\<lambda>(bytes, s).
         if bytes = 32 then
           Inr (0, if n = ''.'' then s
                   else fs_upd (inode_upd (vn_i cv) (s5_linkcount_update (\<lambda>n. to_s16 (n + 1)))) s)
         else Inr (bytes, s))"
    have eq: "s5_link D parent child n (length n) s =
        check (S_ISDIR (vn_mode pv)) Kassert_failed (
        check (len_agrees cv (inodes (fs_data s) (vn_i cv))) Kassert_failed (
        check (s5_number (inodes (fs_data s) (vn_i cv)) = vn_vno cv) Kassert_failed (
        check (name_bytes D n ! length n = NUL) Kassert_failed ?w)))"
      using None look pv(1,2) cv un off dot has_len_agrees [OF L pv(1)]
      by (simp add: s5_link_def ENOENT_def vn_inode_def vn_get_def DIRENT_SIZE_def cong: if_cong del: of_nat_mult)
    have "s5_number (inodes (fs_data s) (vn_i cv)) = vn_vno cv \<and> ?w = Inr (r, s')"
      using run unfolding eq check_eq_Inr by (elim conjE) (rule conjI)
    then have m: "s5_number (inodes (fs_data s) (vn_i cv)) = vn_vno cv" and w: "?w = Inr (r, s')" by blast+
    obtain bytes s1 where w1: "s5_write_file D parent (int (32 * length ds)) ?d 32 s = Inr (bytes, s1)"
      and rest: "(if bytes = 32 then
           Inr (0, if n = ''.'' then s1
                   else fs_upd (inode_upd (vn_i cv) (s5_linkcount_update (\<lambda>n. to_s16 (n + 1)))) s1)
         else Inr (bytes, s1)) = (Inr (r, s') :: kfault + (int \<times> sstate))"
      using w by (auto simp: bnd_eq_Inr)
    note d = new_entry [OF n num g]
    show ?thesis
    proof (cases "r = 0")
      case True
      then have "0 \<le> bytes" using rest by (auto split: if_splits)
      from dir_write_entry [OF dir order_refl w1 this d(1) err fits]
      have b: "bytes = 32" and dh: "dir_holds s1 parent pino (ds @ [?d])"
        and lk: "links_kept s s1" by simp_all
      have s': "s' = (if n = ''.'' then s1
          else fs_upd (inode_upd (vn_i cv) (s5_linkcount_update (\<lambda>n. to_s16 (n + 1)))) s1)"
        using rest b by simp
      have "dir_holds s' parent pino (ds @ [?d])" unfolding s' by (rule dir_holds_links_if [OF dh])
      moreover have "entry_map (ds @ [?d]) = (entry_map ds)(n \<mapsto> vn_vno cv)"
        using entry_map_new [of ds ?d] None d(2,3) m by simp
      moreover have "s5_linkcount (inodes (fs_data s1) (vn_i cv)) = s5_linkcount (inodes (fs_data s) (vn_i cv))"
        using lk by (simp add: links_kept_def)
      ultimately show ?thesis using None by (auto simp: s' Let_def inode_upd_def)
    next
      case False
      then show ?thesis using None by simp
    qed
  qed
qed

end
