(* ===== verification/S5unlink.thy ===== *)
theory S5unlink
  imports S5entries "HOL-Library.Multiset"
begin

text \<open>
  Removing an entry from a directory of the System V file system: the last entry takes the place of
  the one that goes, the directory becomes shorter, and the file loses a link.  Giving back the
  vnode of the file may free its inode; that leaves the pages of the directory alone.
\<close>

subsection \<open>The entries\<close>

definition without :: "string list \<Rightarrow> nat \<Rightarrow> string list" where
  "without ds k = butlast (ds[k := last ds])"

lemma mset_without:
  assumes "k < length ds" shows "mset (ds ! k # without ds k) = mset ds"
proof -
  obtain xs x where ds: "ds = xs @ [x]" using assms by (cases ds rule: rev_cases) auto
  show ?thesis
  proof (cases "k < length xs")
    case True
    then show ?thesis
      by (simp add: ds without_def list_update_append nth_append mset_update butlast_append)
  next
    case False
    then have "k = length xs" using assms ds by simp
    then show ?thesis by (simp add: ds without_def list_update_append)
  qed
qed

lemma length_without [simp]: "length (without ds k) = length ds - 1"
  by (simp add: without_def)

lemma entry_map_without:
  assumes k: "k < length ds" and d: "distinct (map entry_name ds)"
  shows "entry_map (without ds k) = (entry_map ds)(entry_name (ds ! k) := None)"
    and "distinct (map entry_name (without ds k))"
proof -
  let ?p = "\<lambda>d. (entry_name d, dirent_ino d)"
  have m: "mset (map entry_name ds) = mset (map entry_name (ds ! k # without ds k))"
    using mset_without [OF k] by (metis mset_map)
  have dd: "distinct (map entry_name (ds ! k # without ds k))"
    using mset_eq_imp_distinct_iff [OF m] d by simp
  then show "distinct (map entry_name (without ds k))" by simp
  have s: "set ds = insert (ds ! k) (set (without ds k))"
    using mset_without [OF k] by (metis list.simps(15) mset_eq_setD)
  have fst: "map fst (map ?p es) = map entry_name es" for es by (simp add: comp_def)
  have entries: "entry_map es x = Some i \<longleftrightarrow> (x, i) \<in> ?p ` set es" if "distinct (map entry_name es)" for es x i
  proof -
    have "distinct (map fst (map ?p es))" unfolding fst by (rule that)
    from map_of_eq_Some_iff [OF this, of x i] show ?thesis unfolding entry_map_def set_map .
  qed
  have in_ds: "entry_map ds x = Some i \<longleftrightarrow> (x, i) \<in> ?p ` set ds" for x i
    by (rule entries [OF d])
  have in_wo: "entry_map (without ds k) x = Some i \<longleftrightarrow> (x, i) \<in> ?p ` set (without ds k)" for x i
    by (rule entries) (use dd in simp)
  have "entry_map (without ds k) x = Some i \<longleftrightarrow> ((entry_map ds)(entry_name (ds ! k) := None)) x = Some i" for x i
    using in_ds [of x i] in_wo [of x i] dd s by auto
  then show "entry_map (without ds k) = (entry_map ds)(entry_name (ds ! k) := None)"
    by (metis option.exhaust ext)
qed

lemma butlast_entry_ok: "list_all entry_ok ds \<Longrightarrow> list_all entry_ok (butlast ds)"
  by (auto simp: list_all_iff dest: in_set_butlastD)

subsection \<open>Shortening the directory\<close>

lemma dir_shorter:
  assumes dir: "dir_holds s vn ino ds" and ne: "ds \<noteq> []"
    and run: "set_size vn (to_u32 (int (32 * length ds) - 32)) s = Inr s'"
  shows "dir_holds s' vn ino (butlast ds)" and "links_kept s s'"
proof -
  have L: "has_len s vn ino (int (32 * length ds))" and e: "list_all entry_ok ds"
    using dir by (auto simp: dir_holds_def)
  have n: "0 \<le> int (32 * length ds) - 32" "int (32 * length ds) - 32 < 2 ^ 31"
    using ne L by (auto simp: has_len_def Suc_le_eq)
  have u: "to_u32 (int (32 * length ds) - 32) = 32 * (length ds - 1)"
    using n by (subst to_u32_small) (simp_all add: nat_diff_distrib nat_mult_distrib)
  have lt: "32 * (length ds - 1) < 2 ^ 31" using n(2) ne by (simp add: nat_less_iff of_nat_diff Suc_le_eq)
  note sz = has_len_set [OF L run [unfolded u] lt]
  have e': "list_all entry_ok (butlast ds)" using e by (rule butlast_entry_ok)
  have "holds s ino 0 (concat ds)" using dir by (simp add: dir_holds_def)
  then have "holds s' ino 0 (concat (butlast ds))"
    unfolding holds_entries [OF e] holds_entries [OF e'] by (simp add: byte_at_def sz(2) nth_butlast)
  moreover have "\<forall>b\<le>32 * length (butlast ds) div 4096. fpages (fs_data s') ino b \<noteq> None"
  proof (intro allI impI)
    fix b assume "b \<le> 32 * length (butlast ds) div 4096"
    moreover have "32 * length (butlast ds) div 4096 \<le> 32 * length ds div 4096" by (intro div_le_mono) simp
    ultimately have "b \<le> 32 * length ds div 4096" by (rule le_trans)
    then show "fpages (fs_data s') ino b \<noteq> None" using dir unfolding sz(2) dir_holds_def by blast
  qed
  ultimately show "dir_holds s' vn ino (butlast ds)"
    using sz(1,3) dir e' by (simp add: dir_holds_def)
  show "links_kept s s'" using sz(4,5) by (simp add: links_kept_def)
qed

lemma move_last_entry:
  assumes dir: "dir_holds s vn ino ds" and k: "k < length ds"
    and run: "move_last D vn (int (32 * k)) s = Inr (r, s')" and r: "0 \<le> r"
    and err: "bd_err D < 0" and fits: "int (32 * length ds) \<le> S5_MAX_FILE_SIZE"
  shows "dir_holds s' vn ino (ds[k := last ds]) \<and> links_kept s s'"
proof -
  have L: "has_len s vn ino (int (32 * length ds))" using dir by (simp add: dir_holds_def)
  then obtain v where v: "vnodes s vn = Some v" "vn_len v = int (32 * length ds)" by (auto simp: has_len_def)
  have ne: "ds \<noteq> []" using k by auto
  show ?thesis
  proof (cases "Suc k < length ds")
    case False
    then have kl: "k = length ds - 1" using k by simp
    then have "ds[k := last ds] = ds" using ne by (simp add: last_conv_nth list_update_id)
    moreover have "s' = s" using run v False
      by (simp add: move_last_def vn_get_def DIRENT_SIZE_def split: if_splits)
    ultimately show ?thesis using dir by simp
  next
    case True
    let ?m = "length ds - 1"
    have m: "?m < length ds" "ds ! ?m = last ds" using ne by (simp_all add: last_conv_nth)
    have off: "int (32 * length ds) - 32 = int (32 * ?m)" using ne by (simp add: of_nat_diff Suc_le_eq)
    have rd: "s5_read_file D vn (int (32 * length ds) - 32) 32 s = Inr (32, last ds, s)"
      using dir_read_entry [OF dir m(1), of D] unfolding off m(2) .
    have lt: "int (32 * k) + 32 < int (32 * length ds)" using True by simp
    obtain b s1 where w: "s5_write_file D vn (int (32 * k)) (last ds) 32 s = Inr (b, s1)"
      and out: "r = (if b < 0 then b else 0)" "s' = s1"
      using run rd v lt by (auto simp: move_last_def vn_get_def DIRENT_SIZE_def bnd_eq_Inr simp del: of_nat_mult)
    have b: "0 \<le> b" using out r by (auto split: if_splits)
    have e: "entry_ok (last ds)" using dir ne by (simp add: dir_holds_def list_all_iff)
    have "int (32 * Suc k) \<le> S5_MAX_FILE_SIZE" using lt fits by simp
    from dir_write_entry [OF dir less_imp_le [OF k] w b e err this] k out(2) show ?thesis by simp
  qed
qed

subsection \<open>Vnodes of other files\<close>

text \<open>The vnode \<open>vn\<close> of the inode \<open>ino\<close> and its pages stay as they are.\<close>

definition aside :: "nat \<Rightarrow> nat \<Rightarrow> sstate \<Rightarrow> sstate \<Rightarrow> bool" where
  "aside vn ino s s' \<longleftrightarrow> map_option (\<lambda>v. (vn_i v, vn_len v)) (vnodes s' vn) = map_option (\<lambda>v. (vn_i v, vn_len v)) (vnodes s vn)
     \<and> fpages (fs_data s') ino = fpages (fs_data s) ino
     \<and> s5_un (inodes (fs_data s') ino) = s5_un (inodes (fs_data s) ino) \<and> (pages_ok s \<longrightarrow> pages_ok s')"

lemma aside_refl [simp]: "aside vn ino s s"
  by (simp add: aside_def)

lemma aside_trans: "aside vn ino a b \<Longrightarrow> aside vn ino b c \<Longrightarrow> aside vn ino a c"
  by (simp add: aside_def)

lemma dir_holds_aside:
  assumes dir: "dir_holds s vn ino ds" and a: "aside vn ino s s'"
  shows "dir_holds s' vn ino ds"
proof -
  from dir obtain v where v: "vnodes s vn = Some v" "vn_i v = ino" "vn_len v = int (32 * length ds)"
    by (auto simp: dir_holds_def has_len_def)
  with a obtain v' where "vnodes s' vn = Some v'" "vn_i v' = ino" "vn_len v' = int (32 * length ds)"
    by (auto simp: aside_def)
  then show ?thesis using dir a by (auto simp: dir_holds_def has_len_def aside_def holds_def byte_at_def)
qed

lemma bd_get_rest: "bd_get b fs = (r, fs') \<Longrightarrow> inodes fs' = inodes fs \<and> fpages fs' = fpages fs \<and> disk fs' = disk fs"
  by (auto simp: bd_get_def Let_def split: if_splits option.splits)

lemma free_block_rest:
  "s5_free_block b fs = Inr fs' \<Longrightarrow> inodes fs' = inodes fs \<and> fpages fs' = fpages fs \<and> disk fs' = disk fs"
  by (auto simp: s5_free_block_def bnd_eq_Inr lock_s5_eq check_eq_Inr Let_def super_upd_def unlock_s5_def
      bd_set_def dest!: bd_get_rest split: if_splits prod.splits option.splits)

text \<open>Only the inode that is freed changes.\<close>

definition inode_only :: "nat \<Rightarrow> s5fs \<Rightarrow> s5fs \<Rightarrow> bool" where
  "inode_only ino fs fs' \<longleftrightarrow> fpages fs' = fpages fs \<and> disk fs' = disk fs
     \<and> (\<forall>i. i \<noteq> ino \<longrightarrow> inodes fs' i = inodes fs i)"

lemma free_direct_rest: "free_direct ino is fs = Inr fs' \<Longrightarrow> inode_only ino fs fs'"
proof (induction "is" arbitrary: fs)
  case (Cons i "is")
  show ?case
  proof (cases "s5_direct_blocks (inodes fs ino) ! i = 0")
    case True
    then show ?thesis using Cons by simp
  next
    case False
    with Cons.prems obtain fs1 where f: "s5_free_block (s5_direct_blocks (inodes fs ino) ! i) fs = Inr fs1"
      and r: "free_direct ino is (inode_upd ino (\<lambda>n. n\<lparr>s5_direct_blocks := (s5_direct_blocks n)[i := 0]\<rparr>) fs1) = Inr fs'"
      by (auto simp: bnd_eq_Inr)
    show ?thesis using Cons.IH [OF r] free_block_rest [OF f] by (simp add: inode_only_def inode_upd_def)
  qed
qed (simp add: inode_only_def)

lemma free_words_rest:
  "free_words ind ws fs = Inr fs' \<Longrightarrow> inodes fs' = inodes fs \<and> fpages fs' = fpages fs \<and> disk fs' = disk fs"
proof (induction ws arbitrary: fs)
  case (Cons b bs)
  from Cons.prems obtain fs1 where f: "(if b \<noteq> 0 then s5_free_block b fs else Inr fs) = Inr fs1"
    and r: "free_words ind bs fs1 = Inr fs'" by (auto simp: bnd_eq_Inr check_eq_Inr simp del: if_split)
  have "inodes fs1 = inodes fs \<and> fpages fs1 = fpages fs \<and> disk fs1 = disk fs"
    using f free_block_rest by (auto split: if_splits)
  with Cons.IH [OF r] show ?case by simp
qed simp

lemma free_inode_rest:
  assumes "s5_free_inode ino fs = Inr fs'" shows "inode_only ino fs fs'"
proof -
  let ?i = "\<lambda>fs. inodes fs ino"
  from assms obtain fs1 fs2 fs3 where a: "free_direct ino [0..<S5_NDIRECT_BLOCKS] fs = Inr fs1"
    and b: "(if (s5_type (?i fs1) = S5_TYPE_DATA \<or> s5_type (?i fs1) = S5_TYPE_DIR) \<and> s5_indirect_block (?i fs1) \<noteq> 0 then
            (case bd_get (s5_indirect_block (?i fs1)) fs1 of
               (None, fs) \<Rightarrow> Inl Wild_access
             | (Some page, fs) \<Rightarrow>
                 bnd (free_words (s5_indirect_block (?i fs1)) (words S5_NIDIRECT_BLOCKS page) fs)
                   (\<lambda>fs. s5_free_block (s5_indirect_block (?i fs1)) fs))
          else Inr fs1) = Inr fs2"
    and c: "lock_s5 (inode_upd ino (\<lambda>n. n\<lparr>s5_indirect_block := 0, s5_type := S5_TYPE_FREE\<rparr>) fs2) = Inr fs3"
    and d: "fs' = unlock_s5 (super_upd (s5s_free_inode_update
        (\<lambda>_. s5_number (inodes (inode_upd ino (s5_un_update (\<lambda>_. s5s_free_inode (s5f_super fs3))) fs3) ino)))
        (inode_upd ino (s5_un_update (\<lambda>_. s5s_free_inode (s5f_super fs3))) fs3))"
    by (auto simp: s5_free_inode_def bnd_eq_Inr check_eq_Inr Let_def simp del: if_split)
  have "inodes fs2 = inodes fs1 \<and> fpages fs2 = fpages fs1 \<and> disk fs2 = disk fs1"
    using b by (auto simp: bnd_eq_Inr dest!: bd_get_rest free_words_rest free_block_rest
        split: if_splits prod.splits option.splits)
  then show ?thesis
    using free_direct_rest [OF a] c d
    by (simp add: inode_only_def lock_s5_eq unlock_s5_def super_upd_def inode_upd_def)
qed

lemma pages_ok_cong:
  "fpages (fs_data s') = fpages (fs_data s) \<Longrightarrow> disk (fs_data s') = disk (fs_data s) \<Longrightarrow> pages_ok s' = pages_ok s"
  by (simp add: pages_ok_def disk_ok_def)

lemma aside_upd: "a \<noteq> vn \<Longrightarrow> aside vn ino s (vn_upd a f t) = aside vn ino s t"
  by (simp add: aside_def pages_ok_def)

lemma aside_ref: "(\<And>v. vn_i (f v) = vn_i v \<and> vn_len (f v) = vn_len v) \<Longrightarrow> aside vn ino s (vn_upd a f t) = aside vn ino s t"
  by (auto simp: aside_def pages_ok_def option.map_comp comp_def)

lemma aside_links:
  "aside vn ino s (fs_upd (inode_upd i (s5_linkcount_update f)) t) = aside vn ino s t"
  by (simp add: aside_def inode_upd_def pages_ok_def disk_ok_def)

lemma aside_locks:
  "aside vn ino s (vn_unlock a t) = aside vn ino s t"
  "vn_lock a t = Inr t' \<Longrightarrow> aside vn ino s t' = aside vn ino s t"
  by (auto simp: aside_def vn_unlock_def vn_lock_eq pages_ok_def disk_ok_def)

lemma vnodes_locks [simp]: "vnodes (vn_unlock a t) = vnodes t"
  by (simp add: vn_unlock_def)

lemma read_vnode_aside:
  assumes "s5fs_read_vnode D a s = Inr s'" and "a \<noteq> vn"
  shows "aside vn ino s s'" and "\<exists>v v'. vnodes s a = Some v \<and> vnodes s' a = Some v' \<and> vn_i v' = vn_vno v"
proof -
  from assms(1) obtain s1 v where l: "vn_lock a s = Inr s1" and v: "vnodes s1 a = Some v"
    by (auto simp: s5fs_read_vnode_def run_eq simp del: if_split)
  let ?s2 = "fs_upd (inode_upd (vn_vno v) (s5_linkcount_update (\<lambda>n. to_s16 (n + 1)))) s1"
  have base: "aside vn ino s ?s2" using aside_locks(2) [OF l, of vn ino s] by (simp add: aside_links)
  have v0: "vnodes s a = Some v" using l v by (auto simp: vn_lock_eq)
  from assms(1) l v obtain f g where
    s': "s' = vn_unlock a (vn_upd a f (vn_upd a g ?s2))" and i: "\<And>w. vn_i (f w) = vn_i w" "vn_i (g v) = vn_vno v"
    by (auto simp: s5fs_read_vnode_def run_eq Let_def simp del: vn_upd_simps fs_upd_simps split: if_splits)
  show "aside vn ino s s'" unfolding s' using assms(2) base by (simp add: aside_locks(1) aside_upd del: fs_upd_simps)
  show "\<exists>v v'. vnodes s a = Some v \<and> vnodes s' a = Some v' \<and> vn_i v' = vn_vno v"
    using v0 v i by (auto simp: s')
qed

lemma init_special_aside:
  assumes "init_special_vnode E a s = Inr s'" and "a \<noteq> vn"
  shows "aside vn ino s s'" and "map_option vn_i (vnodes s' a) = map_option vn_i (vnodes s a)"
proof -
  from assms(1) obtain f where s': "s' = vn_upd a f s" and f: "\<And>v. vn_i (f v) = vn_i v"
    by (auto simp: init_special_vnode_def run_eq simp del: vn_upd_simps split: if_splits)
  show "aside vn ino s s'" using assms(2) by (simp add: s' aside_upd)
  show "map_option vn_i (vnodes s' a) = map_option vn_i (vnodes s a)"
    using f by (simp add: s' option.map_comp comp_def)
qed

lemma find_inuse_vno: "find_inuse n as s = Inr (Some a) \<Longrightarrow> \<exists>v. vnodes s a = Some v \<and> vn_vno v = n"
  by (induction as) (auto simp: bnd_eq_Inr check_eq_Inr split: if_splits)

lemma s5_vn_ops:
  "read_vnode (s5_vn D) = s5fs_read_vnode D" "delete_vnode (s5_vn D) = Some s5fs_delete_vnode"
  "uncache (s5_vn D) = s5_uncache"
  by (simp_all add: s5_vn_def)

lemma vget_aside:
  assumes g: "vget (s5_vn D) n s = Inr (a, s')" and fresh: "vn_fresh s"
    and w: "vnodes s vn = Some w" "vn_vno w \<noteq> n"
    and ids: "\<forall>b v. vnodes s b = Some v \<longrightarrow> vn_i v = vn_vno v"
  shows "aside vn ino s s' \<and> a \<noteq> vn \<and> (\<exists>v. vnodes s' a = Some v \<and> vn_i v = n)"
proof -
  from g obtain found where f: "find_inuse n (vnode_inuse_list s) s = Inr found"
    and rest: "(case found of
       Some vn \<Rightarrow> bnd (vref vn s) (\<lambda>s. Inr (vn, s))
     | None \<Rightarrow>
         let vn = next_vnode s;
             s = s\<lparr>vnodes := (vnodes s)(vn \<mapsto> zero_vnode\<lparr>vn_vno := n, vn_busy := True\<rparr>),
                   next_vnode := vn + 1, vnode_inuse_list := vn # vnode_inuse_list s\<rparr>
         in bnd (s5fs_read_vnode D vn s) (\<lambda>s.
            let s = vn_upd vn (vn_busy_update (\<lambda>_. False)) s in
            bnd (vn_get vn s) (\<lambda>v.
            bnd (if S_ISCHR (vn_mode v) \<or> S_ISBLK (vn_mode v) then init_special_vnode (s5_vn D) vn s
                 else Inr s) (\<lambda>s.
            Inr (vn, vn_upd vn (vn_refcount_update (\<lambda>_. 1)) s))))) = Inr (a, s')"
    unfolding vget_def s5_vn_ops by (rule bnd_InrE)
  show ?thesis
  proof (cases found)
    case (Some b)
    with rest have b: "b = a" and s': "s' = vn_upd a (vn_refcount_update (\<lambda>r. r + 1)) s"
      by (auto simp: vref_def run_eq)
    obtain v where v: "vnodes s a = Some v" "vn_vno v = n" using find_inuse_vno f Some b by blast
    have "a \<noteq> vn" using v w by auto
    moreover have "vn_i v = n" using ids v by auto
    ultimately show ?thesis using v by (simp add: s' aside_ref)
  next
    case None
    let ?a = "next_vnode s"
    let ?s = "s\<lparr>vnodes := (vnodes s)(?a \<mapsto> zero_vnode\<lparr>vn_vno := n, vn_busy := True\<rparr>),
                   next_vnode := ?a + 1, vnode_inuse_list := ?a # vnode_inuse_list s\<rparr>"
    have ne: "?a \<noteq> vn" using fresh w(1) by (auto simp: vn_fresh_def)
    note run = rest [unfolded None option.case Let_def bnd_eq_Inr vn_get_eq sum.inject prod.inject]
    from run obtain s1 s2 and v :: vnode where r: "s5fs_read_vnode D ?a ?s = Inr s1"
      and b: "(if S_ISCHR (vn_mode v) \<or> S_ISBLK (vn_mode v)
          then init_special_vnode (s5_vn D) ?a (vn_upd ?a (vn_busy_update (\<lambda>_. False)) s1)
          else Inr (vn_upd ?a (vn_busy_update (\<lambda>_. False)) s1)) = Inr s2"
      and a': "?a = a" and s'': "vn_upd ?a (vn_refcount_update (\<lambda>_. 1)) s2 = s'"
      by (elim exE conjE) (rule that; assumption)
    note a = a' [symmetric] and s' = s'' [symmetric]
    note rd = read_vnode_aside [OF r ne]
    from rd(2) have i1: "map_option vn_i (vnodes s1 ?a) = Some n" by auto
    have s2: "aside vn ino (vn_upd ?a (vn_busy_update (\<lambda>_. False)) s1) s2
        \<and> map_option vn_i (vnodes s2 ?a) = map_option vn_i (vnodes (vn_upd ?a (vn_busy_update (\<lambda>_. False)) s1) ?a)"
      using b init_special_aside [OF _ ne] by (auto simp del: vn_upd_simps split: if_splits)
    have "aside vn ino s ?s" using ne by (simp add: aside_def pages_ok_def)
    then have "aside vn ino s s1" using rd(1) by (rule aside_trans)
    then have "aside vn ino s (vn_upd ?a (vn_busy_update (\<lambda>_. False)) s1)" using ne by (simp add: aside_upd)
    then have "aside vn ino s s2" using s2 aside_trans by blast
    then have "aside vn ino s s'" using ne by (simp add: s' aside_upd)
    moreover have "map_option vn_i (vnodes s' a) = Some n"
      using s2 i1 by (auto simp: s' a option.map_comp comp_def)
    ultimately show ?thesis using ne a by auto
  qed
qed

lemma delete_vnode_aside:
  assumes "s5fs_delete_vnode a s = Inr s'" and "vnodes s a = Some v" and "vn_i v \<noteq> ino"
  shows "aside vn ino s s'"
proof -
  let ?dec = "\<lambda>n. fs_upd (inode_upd n (s5_linkcount_update (\<lambda>n. to_s16 (n - 1))))"
  note run = assms(1) [unfolded s5fs_delete_vnode_def Let_def run_eq vn_get_eq sum.inject]
  from run obtain s1 fs and v1 :: vnode where l: "vn_lock a s = Inr s1" and v1: "vnodes s1 a = Some v1"
    and i1: "vn_i v1 = vn_vno v1"
    and f1: "(if s5_linkcount (inodes (fs_data (?dec (vn_vno v1) s1)) (vn_vno v1)) = 0
      then s5_free_inode (vn_vno v1) (fs_data (?dec (vn_vno v1) s1))
      else Inr (fs_data (?dec (vn_vno v1) s1))) = Inr fs"
    and s1': "vn_unlock a ((?dec (vn_vno v1) s1)\<lparr>fs_data := fs\<rparr>) = s'"
    by (elim exE conjE) (rule that; assumption)
  have eq: "v1 = v" using v1 l assms(2) by (auto simp: vn_lock_eq)
  note i = i1 [unfolded eq] and f = f1 [unfolded eq] and s' = s1' [unfolded eq, symmetric]
  let ?t = "fs_upd (inode_upd (vn_vno v) (s5_linkcount_update (\<lambda>n. to_s16 (n - 1)))) s1"
  have t: "aside vn ino s ?t" using aside_locks(2) [OF l, of vn ino s] by (simp add: aside_links)
  have "inode_only (vn_vno v) (fs_data ?t) fs"
    using f free_inode_rest by (auto simp: inode_only_def simp del: fs_upd_simps split: if_splits)
  then have "aside vn ino ?t (?t\<lparr>fs_data := fs\<rparr>)"
    using assms(3) i by (simp add: aside_def inode_only_def pages_ok_def disk_ok_def)
  with t have "aside vn ino s (?t\<lparr>fs_data := fs\<rparr>)" by (rule aside_trans)
  then show ?thesis unfolding s' by (simp add: aside_locks(1))
qed

lemma uncache_aside:
  assumes "s5_uncache a s = Inr s'" and "vnodes s a = Some v" and "vn_i v \<noteq> ino"
  shows "aside vn ino s s'" and "map_option vn_i (vnodes s' a) = Some (vn_i v)"
proof -
  let ?n = "int (length (resident (vn_i v) (fs_data s)))"
  have s': "s' = vn_upd a (\<lambda>v. v\<lparr>vn_refcount := vn_refcount v - ?n, vn_nrespages := vn_nrespages v - ?n\<rparr>)
      (fs_upd (\<lambda>fs. fs\<lparr>fpages := (fpages fs)(vn_i v := (\<lambda>_. None))\<rparr>) s)"
    using assms(1,2) by (auto simp: s5_uncache_def bnd_eq_Inr Let_def)
  have "aside vn ino s (fs_upd (\<lambda>fs. fs\<lparr>fpages := (fpages fs)(vn_i v := (\<lambda>_. None))\<rparr>) s)"
    using assms(3) by (auto simp: aside_def pages_ok_def disk_ok_def split: if_splits)
  then show "aside vn ino s s'" unfolding s' by (simp add: aside_ref del: fs_upd_simps)
  show "map_option vn_i (vnodes s' a) = Some (vn_i v)" using assms(2) by (simp add: s')
qed

lemma vput_aside:
  assumes p: "vput (s5_vn D) a s = Inr s'" and ne: "a \<noteq> vn" and v: "vnodes s a = Some v" "vn_i v \<noteq> ino"
  shows "aside vn ino s s'"
proof -
  let ?dec = "vn_upd a (vn_refcount_update (\<lambda>r. r - 1))"
  let ?busy = "vn_upd a (vn_busy_update (\<lambda>_. True))"
  note run = p [unfolded vput_def s5_vn_ops option.case Let_def run_eq vn_get_eq]
  from run obtain linked s1 and w :: vnode where
    u: "(if linked then Inr s
          else bnd (s5_uncache a s) (\<lambda>s.
               bnd (vn_get a s) (\<lambda>v.
               check (vn_nrespages v = 0) Kassert_failed (
               check (vn_refcount v = 1) Kassert_failed (Inr s))))) = Inr s1"
    and e: "(if 0 < vn_refcount w then Inr (?dec s1)
       else check (vn_refcount w = 0) Kassert_failed (
       check (vn_nrespages w = 0) Kassert_failed (
       bnd (s5fs_delete_vnode a (?busy (?dec s1))) (\<lambda>s.
       Inr (s\<lparr>vnode_inuse_list := remove1 a (vnode_inuse_list s),
              vnodes := (vnodes s)(a := None)\<rparr>))))) = Inr s'"
    by (elim exE conjE) (rule that; assumption)
  have d: "s' = ?dec s1 \<or> (\<exists>s2. s5fs_delete_vnode a (?busy (?dec s1)) = Inr s2
        \<and> s' = s2\<lparr>vnode_inuse_list := remove1 a (vnode_inuse_list s2), vnodes := (vnodes s2)(a := None)\<rparr>)"
    using e by (auto simp: run_eq simp del: vn_upd_simps split: if_splits)
  have s1: "aside vn ino s s1 \<and> map_option vn_i (vnodes s1 a) = Some (vn_i v)"
    using u uncache_aside [OF _ v] v(1) by (auto simp: run_eq split: if_splits)
  then obtain v1 where v1: "vnodes s1 a = Some v1" "vn_i v1 = vn_i v" by auto
  have dec: "aside vn ino s (?busy (?dec s1))" "aside vn ino s (?dec s1)"
    using s1 ne by (simp_all add: aside_upd del: vn_upd_simps)
  from d show ?thesis
  proof
    assume "\<exists>s2. s5fs_delete_vnode a (?busy (?dec s1)) = Inr s2
        \<and> s' = s2\<lparr>vnode_inuse_list := remove1 a (vnode_inuse_list s2), vnodes := (vnodes s2)(a := None)\<rparr>"
    then obtain s2 where dl: "s5fs_delete_vnode a (?busy (?dec s1)) = Inr s2"
      and s': "s' = s2\<lparr>vnode_inuse_list := remove1 a (vnode_inuse_list s2), vnodes := (vnodes s2)(a := None)\<rparr>"
      by blast
    have "aside vn ino (?busy (?dec s1)) s2"
      by (rule delete_vnode_aside [OF dl, where v = "(vn_refcount_update (\<lambda>r. r - 1) v1)\<lparr>vn_busy := True\<rparr>"]) (use v1 v(2) in simp_all)
    with dec(1) have "aside vn ino s s2" by (rule aside_trans)
    then show ?thesis using ne by (simp add: s' aside_def pages_ok_def)
  qed (use dec(2) in simp)
qed

end
