(* ===== verification/S5remove.thy ===== *)
theory S5remove
  imports S5unlink
begin

text \<open>
  \<open>s5_remove_dirent\<close>, and with it \<open>s5fs_unlink\<close>, delete a name from the map of a directory.
\<close>

lemma ids_kept_fresh: "ids_kept s s' \<Longrightarrow> vn_fresh s \<Longrightarrow> vn_fresh s'"
  unfolding vn_fresh_def
proof (intro allI impI)
  fix a assume k: "ids_kept s s'" and f: "\<forall>a\<ge>next_vnode s. vnodes s a = None" and a: "next_vnode s' \<le> a"
  then have "vnodes s a = None" by (simp add: ids_kept_def)
  moreover have "map_option (\<lambda>v. (vn_i v, vn_vno v, vn_mode v)) (vnodes s' a)
      = map_option (\<lambda>v. (vn_i v, vn_vno v, vn_mode v)) (vnodes s a)"
    using k by (simp add: ids_kept_def)
  ultimately show "vnodes s' a = None" by simp
qed

lemma ids_kept_ids:
  assumes "ids_kept s s'" and "\<forall>b v. vnodes s b = Some v \<longrightarrow> vn_i v = vn_vno v"
  shows "\<forall>b v. vnodes s' b = Some v \<longrightarrow> vn_i v = vn_vno v"
proof (intro allI impI)
  fix b and v :: vnode assume v: "vnodes s' b = Some v"
  have "map_option (\<lambda>v. (vn_i v, vn_vno v, vn_mode v)) (vnodes s' b)
      = map_option (\<lambda>v. (vn_i v, vn_vno v, vn_mode v)) (vnodes s b)"
    using assms(1) by (simp add: ids_kept_def)
  with v have "map_option (\<lambda>v. (vn_i v, vn_vno v, vn_mode v)) (vnodes s b) = Some (vn_i v, vn_vno v, vn_mode v)"
    by simp
  then obtain w where "vnodes s b = Some w" "vn_i w = vn_i v" "vn_vno w = vn_vno v" by auto
  with assms(2) show "vn_i v = vn_vno v" by auto
qed

lemma first_match_Some:
  "first_match ds nm l = Some k \<Longrightarrow> k < length ds \<and> name_match (entry_name (ds ! k)) nm l"
  by (induction ds arbitrary: k) (auto split: if_splits)

lemma remove_deletes:
  assumes run: "s5_remove_dirent D vn n (length n) s = Inr (r, s')"
    and dir: "dir_holds s vn ino ds" and n: "okname n" and err: "bd_err D < 0"
    and fits: "int (32 * length ds) \<le> S5_MAX_FILE_SIZE" and dist: "distinct (map entry_name ds)"
    and fresh: "vn_fresh s" and ids: "\<forall>b v. vnodes s b = Some v \<longrightarrow> vn_i v = vn_vno v"
    and self: "entry_map ds n \<noteq> Some ino"
  shows "if entry_map ds n = None then r = - ENOENT \<and> s' = s
    else r = 0 \<longrightarrow> (\<exists>ds'. dir_holds s' vn ino ds' \<and> entry_map ds' = (entry_map ds)(n := None)
        \<and> length ds' = length ds - 1 \<and> distinct (map entry_name ds'))"
proof -
  have e: "list_all entry_ok ds" and L: "has_len s vn ino (int (32 * length ds))"
    using dir by (auto simp: dir_holds_def)
  from L obtain v where v: "vnodes s vn = Some v" "vn_i v = ino" "vn_len v = int (32 * length ds)"
    by (auto simp: has_len_def)
  have nul: "NUL \<notin> set n" and l: "length n \<le> S5_NAME_LEN - 1"
    using n by (auto simp: okname_def NAME_LEN_def S5_NAME_LEN_def)
  have em: "entry_map ds n = map_option (\<lambda>i. dirent_ino (ds ! i)) (first_match ds n (length n))"
    by (rule first_match_map [OF e nul])
  have u: "to_u32 (vn_len v) mod DIRENT_SIZE = 0"
  proof -
    have "to_u32 (int (32 * length ds)) = nat (int (32 * length ds))"
      using L by (intro to_u32_small) (auto simp: has_len_def)
    then show ?thesis using v by (simp only: nat_int DIRENT_SIZE_def mod_mult_self1_is_0)
  qed
  let ?K = "\<lambda>(r, s).
     case r of Inl err \<Rightarrow> Inr (err, s)
     | Inr (tmp, offset) \<Rightarrow>
         bnd (move_last D vn offset s) (\<lambda>(ret, s).
         if ret < 0 then Inr (ret, s)
         else
           bnd (vn_get vn s) (\<lambda>v.
           bnd (set_size vn (to_u32 (vn_len v - int DIRENT_SIZE)) s) (\<lambda>s.
           bnd (vget (s5_vn D) (dirent_ino tmp) s) (\<lambda>(a, s).
           bnd (vn_inode a s) (\<lambda>(ino, _).
           let s = fs_upd (inode_upd ino (s5_linkcount_update (\<lambda>n. to_s16 (n - 1)))) s in
           bnd (vput (s5_vn D) a s) (\<lambda>s. Inr (0, s)))))))"
  have "s5_remove_dirent D vn n (length n) s
      = ?K (case first_match ds n (length n) of None \<Rightarrow> Inl (- ENOENT) | Some i \<Rightarrow> Inr (ds ! i, int (32 * i)), s)"
    using l v has_len_agrees [OF L v(1)] u
    by (simp add: s5_remove_dirent_def vn_get_def vn_inode_def dir_scan [OF dir v(1)])
  with run have run': "?K (case first_match ds n (length n) of None \<Rightarrow> Inl (- ENOENT) | Some i \<Rightarrow> Inr (ds ! i, int (32 * i)), s)
      = Inr (r, s')" by simp
  show ?thesis
  proof (cases "first_match ds n (length n)")
    case None
    then show ?thesis using run' em by simp
  next
    case (Some k)
    then have k: "k < length ds" and nm: "entry_name (ds ! k) = n"
      using first_match_Some [OF Some] name_match_iff [OF _ nul refl, of "entry_name (ds ! k)"]
      by (auto simp: entry_name_def dest: set_takeWhileD)
    have i: "entry_map ds n = Some (dirent_ino (ds ! k))" using em Some by simp
    show ?thesis
    proof (cases "r = 0")
      case True
      have "bnd (move_last D vn (int (32 * k)) s) (\<lambda>(ret, s).
         if ret < 0 then Inr (ret, s)
         else
           bnd (vn_get vn s) (\<lambda>v.
           bnd (set_size vn (to_u32 (vn_len v - int DIRENT_SIZE)) s) (\<lambda>s.
           bnd (vget (s5_vn D) (dirent_ino (ds ! k)) s) (\<lambda>(a, s).
           bnd (vn_inode a s) (\<lambda>(ino, _).
           let s = fs_upd (inode_upd ino (s5_linkcount_update (\<lambda>n. to_s16 (n - 1)))) s in
           bnd (vput (s5_vn D) a s) (\<lambda>s. Inr (0, s))))))) = Inr (r, s')"
        using run' unfolding Some by (simp only: prod.case option.case sum.case)
      then obtain x where mv: "move_last D vn (int (32 * k)) s = Inr x" and rest: "(case x of (ret, s) \<Rightarrow>
         if ret < 0 then Inr (ret, s)
         else
           bnd (vn_get vn s) (\<lambda>v.
           bnd (set_size vn (to_u32 (vn_len v - int DIRENT_SIZE)) s) (\<lambda>s.
           bnd (vget (s5_vn D) (dirent_ino (ds ! k)) s) (\<lambda>(a, s).
           bnd (vn_inode a s) (\<lambda>(ino, _).
           let s = fs_upd (inode_upd ino (s5_linkcount_update (\<lambda>n. to_s16 (n - 1)))) s in
           bnd (vput (s5_vn D) a s) (\<lambda>s. Inr (0, s))))))) = Inr (r, s')"
        by (rule bnd_InrE)
      obtain ret s1 where x: "x = (ret, s1)" by (cases x)
      have ret: "0 \<le> ret" using rest True x by (cases "ret < 0") auto
      from move_last_entry [OF dir k mv [unfolded x] ret err fits]
      have d1: "dir_holds s1 vn ino (ds[k := last ds])" and l1: "links_kept s s1" by auto
      from d1 obtain v1 where v1: "vnodes s1 vn = Some v1" "vn_len v1 = int (32 * length ds)"
        by (auto simp: dir_holds_def has_len_def)
      from rest ret x v1 obtain s2 y where sz: "set_size vn (to_u32 (int (32 * length ds) - 32)) s1 = Inr s2"
        and g: "vget (s5_vn D) (dirent_ino (ds ! k)) s2 = Inr y"
        and fin: "(case y of (a, s) \<Rightarrow> bnd (vn_inode a s) (\<lambda>(ino, _).
           let s = fs_upd (inode_upd ino (s5_linkcount_update (\<lambda>n. to_s16 (n - 1)))) s in
           bnd (vput (s5_vn D) a s) (\<lambda>s. Inr (0, s)))) = Inr (r, s')"
        by (auto simp: vn_get_def DIRENT_SIZE_def elim!: bnd_InrE)
      have ne: "ds[k := last ds] \<noteq> []" using k by auto
      have sz': "set_size vn (to_u32 (int (32 * length (ds[k := last ds])) - 32)) s1 = Inr s2" using sz by simp
      note d2 = dir_shorter [OF d1 ne sz']
      have "links_kept s s2" by (rule links_kept_trans [OF l1 d2(2)])
      then have idk: "ids_kept s s2" by (simp add: links_kept_def)
      obtain a s3 where y: "y = (a, s3)" by (cases y)
      from d2(1) obtain w where w: "vnodes s2 vn = Some w" "vn_i w = ino" by (auto simp: dir_holds_def has_len_def)
      have wi: "vn_vno w \<noteq> dirent_ino (ds ! k)" using ids_kept_ids [OF idk ids] w self i by auto
      from vget_aside [OF g [unfolded y] ids_kept_fresh [OF idk fresh] w(1) wi ids_kept_ids [OF idk ids], of ino]
      obtain c where s3: "aside vn ino s2 s3" "a \<noteq> vn" and c: "vnodes s3 a = Some c" "vn_i c = dirent_ino (ds ! k)"
        by blast
      let ?s4 = "fs_upd (inode_upd (dirent_ino (ds ! k)) (s5_linkcount_update (\<lambda>n. to_s16 (n - 1)))) s3"
      have p: "vput (s5_vn D) a ?s4 = Inr s'"
        using fin y c by (auto simp: vn_inode_def vn_get_def Let_def simp del: fs_upd_simps elim!: bnd_InrE)
      have "aside vn ino ?s4 s'"
        by (rule vput_aside [OF p s3(2), where v = c]) (use c self i in auto)
      moreover have "aside vn ino s2 ?s4" using s3(1) by (simp add: aside_links)
      ultimately have "aside vn ino s2 s'" by (metis aside_trans)
      from dir_holds_aside [OF d2(1) this] have "dir_holds s' vn ino (without ds k)" by (simp add: without_def)
      then show ?thesis using entry_map_without [OF k dist] nm i by auto
    next
      case False
      then show ?thesis using i by simp
    qed
  qed
qed

end
