(* ===== verification/S5reach.thy ===== *)
theory S5reach
  imports S5refs Kreach
begin

text \<open>
  The kernel on a System V file system as a state machine: \<open>vfs_init\<close> mounts the disk, the first
  process starts in the root directory (\<open>main/kmain.c\<close>), and then system calls run one after the
  other.
\<close>

definition s5_kernel :: "s5fs \<Rightarrow> sstate" where
  "s5_kernel fs = \<lparr>vnodes = (\<lambda>_. None), vnode_inuse_list = [], next_vnode = 0, kfiles = (\<lambda>_. None),
     next_file = 0, p_files = (\<lambda>_. None), p_cwd = 0, vfs_root_vn = 0, fs_data = fs\<rparr>"

definition s5start :: "bdev \<Rightarrow> s5fs \<Rightarrow> kfault + sstate" where
  "s5start D fs =
     bnd (s5fs_mount D (s5_kernel fs)) (\<lambda>(err, s).
     check (0 \<le> err) Kernel_panic (
     deref (s5_root_vn (fs_data s)) Null_deref (\<lambda>root.
     let s = s\<lparr>vfs_root_vn := root\<rparr> in
     bnd (vref (vfs_root_vn s) s) (\<lambda>s.
     bnd (vref (vfs_root_vn s) s) (\<lambda>s. Inr (s\<lparr>p_cwd := vfs_root_vn s\<rparr>))))))"

inductive s5reach :: "bdev \<Rightarrow> s5fs \<Rightarrow> sstate \<Rightarrow> bool" for D fs where
  s5reach_start: "s5start D fs = Inr s \<Longrightarrow> s5reach D fs s"
| s5reach_sys: "s5reach D fs s \<Longrightarrow> sys (s5fs_env D) c s = Inr (r, s') \<Longrightarrow> s5reach D fs s'"

lemma s5_kernel_simps [simp]:
  "vnodes (s5_kernel fs) = (\<lambda>_. None)" "kfiles (s5_kernel fs) = (\<lambda>_. None)"
  "p_files (s5_kernel fs) = (\<lambda>_. None)" "fs_data (s5_kernel fs) = fs" "next_vnode (s5_kernel fs) = 0"
  "vnode_inuse_list (s5_kernel fs) = []" "next_file (s5_kernel fs) = 0"
  by (simp_all add: s5_kernel_def)

lemma s5fs_mount_moves:
  assumes "s5fs_mount D s = Inr (r, s')" and "0 \<le> r"
  shows "\<exists>root. s5_root_vn (fs_data s') = Some root \<and> moves (one root) s s'"
proof -
  let ?s = "fs_upd (\<lambda>fs. fs\<lparr>s5f_mutex := False\<rparr>) s"
  from assms obtain a s1 where g: "vget (s5_vn D) (s5s_root_inode (s5f_super (fs_data ?s))) ?s = Inr (a, s1)"
    and s': "s' = fs_upd (\<lambda>fs. fs\<lparr>s5_root_vn := Some a\<rparr>) s1"
    by (auto simp: s5fs_mount_def Let_def KEINVAL_def bnd_eq_Inr simp del: fs_upd_simps split: if_splits)
  have "moves (one a) s s1"
    by (rule moves_none_trans [OF moves_same [OF same_counts_fs_upd] s5vn.vget_moves [OF g]])
  then have "moves (one a) s s'" unfolding s' by (rule moves_fs_upd)
  then show ?thesis by (auto simp: s')
qed

lemma s5start_ok:
  assumes "s5start D fs = Inr s" shows "kernel_ok s"
proof -
  from assms obtain r s1 root s2 s3 where m: "s5fs_mount D (s5_kernel fs) = Inr (r, s1)" "0 \<le> r"
    and root: "s5_root_vn (fs_data s1) = Some root"
    and r1: "vref root (s1\<lparr>vfs_root_vn := root\<rparr>) = Inr s2" and r2: "vref (vfs_root_vn s2) s2 = Inr s3"
    and s: "s = s3\<lparr>p_cwd := vfs_root_vn s3\<rparr>"
    by (auto simp: s5start_def run_eq Let_def)
  have fr: "vn_fresh (s5_kernel fs)" by (simp add: vn_fresh_def)
  from s5fs_mount_moves [OF m] root have mv: "moves (one root) (s5_kernel fs) s1" by auto
  then have f1: "vn_fresh s1" "vfs_same (s5_kernel fs) s1" and v1: "\<And>a. vrefs s1 a = one root a"
    using fr by (auto simp: moves_def vrefs_def)
  let ?s1 = "s1\<lparr>vfs_root_vn := root\<rparr>"
  have f1': "vn_fresh ?s1" "\<And>a. vrefs ?s1 a = one root a" using f1 v1 by (auto simp: vn_fresh_def vrefs_def)
  from vref_moves [OF r1] f1' have f2: "vn_fresh s2" "vfs_same ?s1 s2" "\<And>a. vrefs s2 a = 2 * one root a"
    by (auto simp: moves_def)
  then have root2: "vfs_root_vn s2 = root" by (simp add: vfs_same_def)
  from vref_moves [OF r2] f2 root2
  have f3: "vn_fresh s3" "vfs_same s2 s3" "\<And>a. vrefs s3 a = 3 * one root a"
    by (auto simp: moves_def)
  have "vrefs s a = 3 * one root a" for a using f3(3) by (simp add: s vrefs_def)
  then show ?thesis
    using f3(1,2) f2(2) f1(2)
    by (auto simp: kernel_ok_def kinv_def s vn_fresh_def vfs_same_def files_on_def fds_of_def is_at_def
        one_def zero_def files_ok_def)
qed

lemma s5reach_ok: "s5reach D fs s \<Longrightarrow> kernel_ok s"
  by (induction rule: s5reach.induct) (auto intro: s5start_ok s5vfs.sys_kinv)

subsection \<open>A small disk\<close>

text \<open>A file system of four inodes: an empty root directory, an empty file, and two free inodes.\<close>

definition small_inode :: "nat \<Rightarrow> s5_inode" where
  "small_inode i = \<lparr>s5_un = (if i = 2 then 3 else if i = 3 then NO_INODE else 0), s5_number = i,
     s5_type = (if i = 0 then S5_TYPE_DIR else if i = 1 then S5_TYPE_DATA else S5_TYPE_FREE),
     s5_linkcount = 1, s5_direct_blocks = replicate S5_NDIRECT_BLOCKS 0, s5_indirect_block = 0\<rparr>"

definition small_super :: s5_super where
  "small_super = \<lparr>s5s_magic = S5_MAGIC, s5s_free_inode = 2, s5s_nfree = 2,
     s5s_free_blocks = (replicate S5_NBLKS_PER_FNODE 9)[0 := 5, 1 := 6], s5s_root_inode = 0,
     s5s_num_inodes = 4, s5s_version = S5_CURRENT_VERSION\<rparr>"

definition small_disk :: s5fs where
  "small_disk = \<lparr>s5f_super = small_super, s5f_mutex = False, inodes = small_inode,
     bdpages = (\<lambda>_. None), disk = (\<lambda>b. if b < 8 then Some zero_page else None),
     fpages = (\<lambda>_ _. None), vn_mutexes = {}, s5_root_vn = None\<rparr>"

definition no_drivers :: bdev where
  "no_drivers = \<lparr>bd_chars_byte = (\<lambda>_. None), bd_chars_block = (\<lambda>_. None),
     bd_char_read = (\<lambda>_ _ _. Inr (0, [])), bd_char_write = (\<lambda>_ _ _ _. Inr 0), bd_err = -22,
     bd_flush = (\<lambda>fs. fs\<lparr>disk := (\<lambda>b. case bdpages fs b of None \<Rightarrow> disk fs b
       | Some p \<Rightarrow> map_option (\<lambda>_. p) (disk fs b)), bdpages := (\<lambda>_. None)\<rparr>),
     bd_garbage = replicate 32 NUL\<rparr>"

definition s5_root :: vnode where
  "s5_root = zero_vnode\<lparr>vn_ops := Some Dir_vops, vn_mode := S_IFDIR, vn_refcount := 3\<rparr>"

definition s5booted :: sstate where
  "s5booted = (s5_kernel (small_disk\<lparr>inodes := small_inode(0 := (small_inode 0)\<lparr>s5_linkcount := 2\<rparr>),
      s5_root_vn := Some 0\<rparr>))\<lparr>vnodes := [0 \<mapsto> s5_root], vnode_inuse_list := [0], next_vnode := 1\<rparr>"

lemma s5start_small: "s5start no_drivers small_disk = Inr s5booted"
proof -
  have lc: "to_s16 2 = 2" "to_off 0 = 0" by (simp_all add: to_s16_def to_off_small signed_take_bit_int_eq_self)
  show ?thesis
    by (simp add: s5start_def s5fs_mount_def small_disk_def small_super_def s5_check_super_def Let_def
        vget_def s5_vn_def s5fs_read_vnode_def vn_lock_def vn_unlock_def vn_get_def vn_upd_def
        small_inode_def s5_types zero_vnode_def s5booted_def s5_root_def vref_def s5_kernel_def
        inode_upd_def lc fs_upd_def S5_CURRENT_VERSION_def S5_MAGIC_def fun_eq_iff)
qed

lemma s5reach_booted: "s5reach no_drivers small_disk s5booted"
  by (rule s5reach_start) (rule s5start_small)

end
