(* ===== verification/S5inode.thy ===== *)
theory S5inode
  imports S5list S5file
begin

text \<open>
  Freeing an inode puts its data blocks on the stack of free blocks and the inode at the head of the
  list of free inodes; the next allocation takes it from there.
\<close>

text \<open>What the freeing of blocks leaves alone.\<close>

definition same_list :: "nat \<Rightarrow> s5fs \<Rightarrow> s5fs \<Rightarrow> bool" where
  "same_list ino fs fs' \<longleftrightarrow> s5s_free_inode (s5f_super fs') = s5s_free_inode (s5f_super fs)
     \<and> s5s_num_inodes (s5f_super fs') = s5s_num_inodes (s5f_super fs)
     \<and> s5_number (inodes fs' ino) = s5_number (inodes fs ino) \<and> s5_type (inodes fs' ino) = s5_type (inodes fs ino)
     \<and> s5_indirect_block (inodes fs' ino) = s5_indirect_block (inodes fs ino)
     \<and> (\<forall>i. i \<noteq> ino \<longrightarrow> inodes fs' i = inodes fs i)"

lemma same_list_refl [simp]: "same_list ino fs fs"
  by (simp add: same_list_def)

lemma same_list_trans: "same_list ino a b \<Longrightarrow> same_list ino b c \<Longrightarrow> same_list ino a c"
  by (simp add: same_list_def)

lemma free_block_same:
  assumes "s5_free_block b fs = Inr fs'" and "b \<noteq> 0"
  shows "same_list ino fs fs'" and "inodes fs' = inodes fs" and "c \<noteq> b \<Longrightarrow> blk fs' c = blk fs c"
proof -
  obtain r fs1 where g: "bd_get b (fs\<lparr>s5f_mutex := True\<rparr>) = (r, fs1)"
    by (cases "bd_get b (fs\<lparr>s5f_mutex := True\<rparr>)")
  note gb = bd_get_blk [OF assms(2) g]
  let ?sb = "s5f_super fs"
  have lock: "lock_s5 fs = Inr (fs\<lparr>s5f_mutex := True\<rparr>)" "s5s_nfree ?sb < S5_NBLKS_PER_FNODE"
    using assms(1) by (auto simp: s5_free_block_def bnd_eq_Inr lock_s5_def check_eq_Inr Let_def)
  let ?f = "\<lambda>sb. sb\<lparr>s5s_nfree := 0, s5s_free_blocks := (s5s_free_blocks sb)[S5_NBLKS_PER_FNODE - 1 := b]\<rparr>"
  let ?g = "\<lambda>sb. sb\<lparr>s5s_nfree := s5s_nfree sb + 1, s5s_free_blocks := (s5s_free_blocks sb)[s5s_nfree sb := b]\<rparr>"
  have "\<exists>f. f \<in> {?f, ?g} \<and> (fs' = unlock_s5 (super_upd f (fs\<lparr>s5f_mutex := True\<rparr>))
      \<or> (\<exists>p. fs' = unlock_s5 (super_upd f (bd_set b p fs1))))"
  proof (cases "s5s_nfree ?sb = S5_NBLKS_PER_FNODE - 1")
    case True
    then have "\<exists>p. fs' = unlock_s5 (super_upd ?f (bd_set b p fs1))"
      using assms(1) lock g gb(3)
      by (auto simp: s5_free_block_def Let_def super_upd_def bd_set_def split: option.splits)
    then show ?thesis by blast
  next
    case False
    then have "fs' = unlock_s5 (super_upd ?g (fs\<lparr>s5f_mutex := True\<rparr>))"
      using assms(1) lock by (simp add: s5_free_block_def Let_def super_upd_def)
    then show ?thesis by blast
  qed
  then obtain f where fs': "fs' = unlock_s5 (super_upd f (fs\<lparr>s5f_mutex := True\<rparr>))
      \<or> (\<exists>p. fs' = unlock_s5 (super_upd f (bd_set b p fs1)))" and "f \<in> {?f, ?g}" by blast
  then have f: "s5s_free_inode (f sb) = s5s_free_inode sb" "s5s_num_inodes (f sb) = s5s_num_inodes sb" for sb
    by auto
  have "blk fs' = blk fs \<or> (\<exists>p. blk fs' = (blk fs)(b := Some p))"
    using fs' gb(2) by (auto simp: blk_bd_set)
  then show "c \<noteq> b \<Longrightarrow> blk fs' c = blk fs c" by auto
  show i: "inodes fs' = inodes fs"
    using fs' gb(6) by (auto simp: unlock_s5_def super_upd_def bd_set_def)
  show "same_list ino fs fs'" using fs' gb(3) f i by (auto simp: same_list_def)
qed

lemma blk_inode_upd: "free_list (inode_upd i g fs) xs = free_list fs xs"
  by (simp add: free_list_def)

lemma free_list_cong:
  assumes "free_list fs xs" and "blk fs' = blk fs" and "\<not> s5f_mutex fs'"
    and "s5s_free_blocks (s5f_super fs') = s5s_free_blocks (s5f_super fs)"
    and "s5s_nfree (s5f_super fs') = s5s_nfree (s5f_super fs)"
  shows "free_list fs' xs"
  using assms by (simp add: free_list_def super_ok_def)

lemma free_direct_frees:
  assumes "free_list fs xs" and "distinct is" and "\<forall>i\<in>set is. i < length (s5_direct_blocks (inodes fs ino))"
    and "distinct (filter (\<lambda>b. b \<noteq> 0) (map (\<lambda>i. s5_direct_blocks (inodes fs ino) ! i) is))"
    and "\<forall>i\<in>set is. let b = s5_direct_blocks (inodes fs ino) ! i in b \<noteq> 0 \<longrightarrow>
      b \<notin> set xs \<and> b < 2 ^ 32 \<and> (\<exists>p. blk fs b = Some p \<and> length p = S5_BLOCK_SIZE)"
  shows "\<exists>fs'. free_direct ino is fs = Inr fs' \<and> same_list ino fs fs'
    \<and> free_list fs' (rev (filter (\<lambda>b. b \<noteq> 0) (map (\<lambda>i. s5_direct_blocks (inodes fs ino) ! i) is)) @ xs)"
  using assms
proof (induction "is" arbitrary: fs xs)
  case Nil
  then show ?case by (intro exI [of _ fs]) simp
next
  case (Cons i "is")
  let ?d = "\<lambda>fs. s5_direct_blocks (inodes fs ino)"
  let ?b = "?d fs ! i"
  show ?case
  proof (cases "?b = 0")
    case True
    then show ?thesis using Cons.IH [of fs xs] Cons.prems by simp
  next
    case False
    with Cons.prems obtain p where b: "?b \<notin> set xs" "?b < 2 ^ 32" "blk fs ?b = Some p" "length p = S5_BLOCK_SIZE"
      by (auto simp: Let_def)
    from free_pushes [OF Cons.prems(1) b(1) False b(2-4)] obtain fs1 where
      f: "s5_free_block ?b fs = Inr fs1" and fl: "free_list fs1 (?b # xs)" by blast
    note same = free_block_same [OF f False]
    let ?fs = "inode_upd ino (\<lambda>n. n\<lparr>s5_direct_blocks := (s5_direct_blocks n)[i := 0]\<rparr>) fs1"
    have d: "?d ?fs = (?d fs)[i := 0]" using same(2) by (simp add: inode_upd_def)
    have other: "j \<noteq> i \<and> ?d ?fs ! j = ?d fs ! j" if "j \<in> set is" for j
    proof -
      have "j \<noteq> i" using that Cons.prems(2) by auto
      then show ?thesis by (simp add: d)
    qed
    then have m: "map (\<lambda>j. ?d ?fs ! j) is = map (\<lambda>j. ?d fs ! j) is" by simp
    have "free_list ?fs (?b # xs)" using fl by (simp add: blk_inode_upd)
    moreover have "distinct is" using Cons.prems(2) by simp
    moreover have "\<forall>j\<in>set is. j < length (?d ?fs)" using Cons.prems(3) by (simp add: d)
    moreover have "distinct (filter (\<lambda>b. b \<noteq> 0) (map (\<lambda>j. ?d ?fs ! j) is))"
      unfolding m using Cons.prems(4) False by simp
    moreover have "\<forall>j\<in>set is. let b = ?d ?fs ! j in b \<noteq> 0 \<longrightarrow>
        b \<notin> set (?b # xs) \<and> b < 2 ^ 32 \<and> (\<exists>p. blk ?fs b = Some p \<and> length p = S5_BLOCK_SIZE)"
    proof (intro ballI)
      fix j assume j: "j \<in> set is"
      let ?c = "?d fs ! j"
      have "?c \<noteq> ?b" if "?c \<noteq> 0" using Cons.prems(4) False imageI [OF j, of "\<lambda>j. ?d fs ! j"] by auto
      then show "let b = ?d ?fs ! j in b \<noteq> 0 \<longrightarrow>
          b \<notin> set (?b # xs) \<and> b < 2 ^ 32 \<and> (\<exists>p. blk ?fs b = Some p \<and> length p = S5_BLOCK_SIZE)"
        using other [OF j] Cons.prems(5) j same(3) [of ?c] by (auto simp: Let_def)
    qed
    ultimately obtain fs' where r: "free_direct ino is ?fs = Inr fs'" "same_list ino ?fs fs'"
      "free_list fs' (rev (filter (\<lambda>b. b \<noteq> 0) (map (\<lambda>j. ?d ?fs ! j) is)) @ ?b # xs)"
      using Cons.IH [of ?fs "?b # xs"] by blast
    have "same_list ino fs ?fs" using same(1) [of ino] by (auto simp: same_list_def inode_upd_def)
    then have "same_list ino fs fs'" using r(2) by (rule same_list_trans)
    then show ?thesis using r(1,3) f False unfolding m by simp
  qed
qed

lemma free_inode_frees:
  assumes fl: "free_list fs xs" and d: "length (s5_direct_blocks (inodes fs ino)) = S5_NDIRECT_BLOCKS"
    and dist: "distinct (filter (\<lambda>b. b \<noteq> 0) (s5_direct_blocks (inodes fs ino)))"
    and bs: "\<forall>b\<in>set (s5_direct_blocks (inodes fs ino)). b \<noteq> 0 \<longrightarrow>
      b \<notin> set xs \<and> b < 2 ^ 32 \<and> (\<exists>p. blk fs b = Some p \<and> length p = S5_BLOCK_SIZE)"
    and ind: "s5_indirect_block (inodes fs ino) = 0"
    and ty: "s5_type (inodes fs ino) \<in> {S5_TYPE_DATA, S5_TYPE_DIR, S5_TYPE_CHR, S5_TYPE_BLK}"
  shows "\<exists>fs'. s5_free_inode ino fs = Inr fs'
    \<and> free_list fs' (rev (filter (\<lambda>b. b \<noteq> 0) (s5_direct_blocks (inodes fs ino))) @ xs)
    \<and> s5s_free_inode (s5f_super fs') = s5_number (inodes fs ino)
    \<and> s5s_num_inodes (s5f_super fs') = s5s_num_inodes (s5f_super fs)
    \<and> s5_un (inodes fs' ino) = s5s_free_inode (s5f_super fs) \<and> s5_type (inodes fs' ino) = S5_TYPE_FREE
    \<and> s5_number (inodes fs' ino) = s5_number (inodes fs ino) \<and> (\<forall>i. i \<noteq> ino \<longrightarrow> inodes fs' i = inodes fs i)"
proof -
  let ?bs = "s5_direct_blocks (inodes fs ino)"
  have m: "map (\<lambda>i. ?bs ! i) [0..<S5_NDIRECT_BLOCKS] = ?bs" using map_nth [of ?bs] unfolding d .
  have "\<exists>fs1. free_direct ino [0..<S5_NDIRECT_BLOCKS] fs = Inr fs1 \<and> same_list ino fs fs1
    \<and> free_list fs1 (rev (filter (\<lambda>b. b \<noteq> 0) (map (\<lambda>i. ?bs ! i) [0..<S5_NDIRECT_BLOCKS])) @ xs)"
  proof (rule free_direct_frees [OF fl])
    show "distinct (filter (\<lambda>b. b \<noteq> 0) (map (\<lambda>i. ?bs ! i) [0..<S5_NDIRECT_BLOCKS]))" unfolding m by (rule dist)
    show "\<forall>i\<in>set [0..<S5_NDIRECT_BLOCKS]. let b = ?bs ! i in b \<noteq> 0 \<longrightarrow>
      b \<notin> set xs \<and> b < 2 ^ 32 \<and> (\<exists>p. blk fs b = Some p \<and> length p = S5_BLOCK_SIZE)"
    proof
      fix i assume "i \<in> set [0..<S5_NDIRECT_BLOCKS]"
      then have "?bs ! i \<in> set ?bs" using d by simp
      with bs show "let b = ?bs ! i in b \<noteq> 0 \<longrightarrow>
        b \<notin> set xs \<and> b < 2 ^ 32 \<and> (\<exists>p. blk fs b = Some p \<and> length p = S5_BLOCK_SIZE)" unfolding Let_def by blast
    qed
  qed (simp_all add: d)
  then obtain fs1 where f: "free_direct ino [0..<S5_NDIRECT_BLOCKS] fs = Inr fs1" "same_list ino fs fs1"
    and fl1: "free_list fs1 (rev (filter (\<lambda>b. b \<noteq> 0) ?bs) @ xs)" unfolding m by blast
  let ?n = "s5_number (inodes fs ino)"
  let ?fs2 = "inode_upd ino (\<lambda>n. n\<lparr>s5_indirect_block := 0, s5_type := S5_TYPE_FREE\<rparr>) fs1"
  have un: "\<not> s5f_mutex fs1" using fl1 by (simp add: free_list_def)
  let ?fs3 = "inode_upd ino (s5_un_update (\<lambda>_. s5s_free_inode (s5f_super fs1))) (?fs2\<lparr>s5f_mutex := True\<rparr>)"
  let ?fs' = "unlock_s5 (super_upd (s5s_free_inode_update (\<lambda>_. ?n)) ?fs3)"
  have num: "s5_number (inodes fs1 ino) = ?n" using f(2) by (simp add: same_list_def)
  have "s5_free_inode ino fs = Inr ?fs'"
    using f ty ind un num by (simp add: s5_free_inode_def same_list_def Let_def lock_s5_def inode_upd_def)
  moreover have "free_list ?fs' (rev (filter (\<lambda>b. b \<noteq> 0) ?bs) @ xs)"
    by (rule free_list_cong [OF fl1]) simp_all
  moreover have "s5s_free_inode (s5f_super ?fs') = ?n" by simp
  moreover have "inodes ?fs' = (inodes fs1)(ino := (inodes fs1 ino)\<lparr>s5_indirect_block := 0, s5_type := S5_TYPE_FREE,
      s5_un := s5s_free_inode (s5f_super fs1)\<rparr>)"
    by (simp add: unlock_s5_def super_upd_def inode_upd_def)
  ultimately show ?thesis using f(2) by (auto simp: same_list_def unlock_s5_def super_upd_def inode_upd_def)
qed

lemma alloc_inode_first:
  assumes "\<not> s5f_mutex fs" and "s5s_free_inode (s5f_super fs) = ino" and "ino < s5s_num_inodes (s5f_super fs)"
    and "s5s_num_inodes (s5f_super fs) < 2 ^ 32" and "s5_number (inodes fs ino) = ino"
    and "ty \<in> {S5_TYPE_DATA, S5_TYPE_DIR, S5_TYPE_CHR, S5_TYPE_BLK}"
  shows "\<exists>fs'. s5_alloc_inode ty dev fs = Inr (to_off ino, fs')
    \<and> s5s_free_inode (s5f_super fs') = s5_un (inodes fs ino)
    \<and> inodes fs' = (inodes fs)(ino := (inodes fs ino)\<lparr>s5_un := 0, s5_type := ty, s5_linkcount := 0,
          s5_direct_blocks := replicate S5_NDIRECT_BLOCKS 0,
          s5_indirect_block := (if ty = S5_TYPE_CHR \<or> ty = S5_TYPE_BLK then dev else 0)\<rparr>)
    \<and> (\<forall>xs. free_list fs xs \<longrightarrow> free_list fs' xs)"
proof -
  have no: "ino \<noteq> NO_INODE" using assms(3,4) by (simp add: NO_INODE_def)
  let ?i = "\<lambda>i. i\<lparr>s5_un := 0, s5_type := ty, s5_linkcount := 0, s5_direct_blocks := replicate S5_NDIRECT_BLOCKS 0,
          s5_indirect_block := (if ty = S5_TYPE_CHR \<or> ty = S5_TYPE_BLK then dev else 0)\<rparr>"
  let ?fs' = "unlock_s5 (inode_upd ino ?i (super_upd (s5s_free_inode_update (\<lambda>_. s5_un (inodes fs ino))) (fs\<lparr>s5f_mutex := True\<rparr>)))"
  have n: "s5_number (inodes ?fs' ino) = ino" using assms(5) by (simp add: unlock_s5_def inode_upd_def super_upd_def)
  have "s5_alloc_inode ty dev fs = Inr (to_off ino, ?fs')"
    using assms no by (simp add: s5_alloc_inode_def lock_s5_def Let_def)
  moreover have "inodes ?fs' = (inodes fs)(ino := ?i (inodes fs ino))"
    by (simp add: unlock_s5_def inode_upd_def super_upd_def)
  moreover have "free_list ?fs' xs" if "free_list fs xs" for xs
    by (rule free_list_cong [OF that]) simp_all
  ultimately show ?thesis by (intro exI [of _ ?fs']) simp
qed

end
