(* ===== verification/S5seek.thy ===== *)
theory S5seek
  imports S5list S5file
begin

text \<open>
  The map from positions in the files to blocks of the disk.  \<open>block_at fs ino b\<close> is the block of page \<open>b\<close> of a
  file, in the direct blocks or in the indirect block, 0 where there is none.  \<open>s5_seek_to_block\<close>
  looks this map up and adds to it, and leaves the entries of all other pages of all files.
\<close>

subsection \<open>Frames\<close>

lemma to_off_range: "to_off n < 2 ^ 31"
  using sint_less [of "word_of_nat n :: 32 word"] by (simp add: to_off_def)

lemma inodes_simps [simp]:
  "inodes (bd_set b p fs) = inodes fs" "inodes (super_upd f fs) = inodes fs" "inodes (unlock_s5 fs) = inodes fs"
  "disk (bd_set b p fs) = disk fs" "disk (super_upd f fs) = disk fs" "disk (unlock_s5 fs) = disk fs"
  "disk (inode_upd i g fs) = disk fs"
  by (simp_all add: bd_set_def super_upd_def unlock_s5_def inode_upd_def)

lemma bd_get_frame:
  assumes "bd_get b fs = (r, fs')"
  shows "blk fs' = blk fs" and "disk fs' = disk fs" and "inodes fs' = inodes fs" and "s5f_super fs' = s5f_super fs"
    and "s5f_mutex fs' = s5f_mutex fs"
  using assms by (auto simp: bd_get_def Let_def blk_def fun_eq_iff split: option.splits if_splits)

lemma alloc_block_frame:
  assumes "s5_alloc_block fs = Inr (r, fs')"
  shows "inodes fs' = inodes fs"
    and "blk fs' = blk fs \<and> disk fs' = disk fs \<or>
      (\<exists>b. s5s_nfree (s5f_super fs) = 0 \<and> b = s5s_free_blocks (s5f_super fs) ! (S5_NBLKS_PER_FNODE - 1)
        \<and> disk fs' = (disk fs)(b := map_option (\<lambda>_. zero_page) (disk fs b)) \<and> blk fs' = (blk fs)(b := disk fs' b))"
proof -
  let ?b = "s5s_free_blocks (s5f_super fs) ! (S5_NBLKS_PER_FNODE - 1)"
  obtain q fs1 where g: "bd_get ?b (fs\<lparr>s5f_mutex := True\<rparr>) = (q, fs1)"
    by (cases "bd_get ?b (fs\<lparr>s5f_mutex := True\<rparr>)")
  note f = bd_get_frame [OF g]
  have e: "blk fs1 = blk fs" "disk fs1 = disk fs" "inodes fs1 = inodes fs" using f by simp_all
  show "inodes fs' = inodes fs"
    using assms g e by (auto simp: s5_alloc_block_def bnd_eq_Inr lock_s5_eq check_eq_Inr Let_def
        super_upd_def unlock_s5_def split: if_splits option.splits)
  show "blk fs' = blk fs \<and> disk fs' = disk fs \<or>
      (\<exists>b. s5s_nfree (s5f_super fs) = 0 \<and> b = ?b
        \<and> disk fs' = (disk fs)(b := map_option (\<lambda>_. zero_page) (disk fs b)) \<and> blk fs' = (blk fs)(b := disk fs' b))"
  proof (cases "s5s_nfree (s5f_super fs) = 0 \<and> q \<noteq> None")
    case True
    then obtain y where fs': "fs' = unlock_s5 (fs1\<lparr>disk := (disk fs1)(?b := map_option (\<lambda>_. zero_page) (disk fs1 ?b)),
        bdpages := (bdpages fs1)(?b := None), s5f_super := y\<rparr>)"
      using assms g by (auto simp: s5_alloc_block_def bnd_eq_Inr lock_s5_eq Let_def super_upd_def)
    have "disk fs' = (disk fs1)(?b := map_option (\<lambda>_. zero_page) (disk fs1 ?b))" by (simp add: fs')
    moreover have "blk fs' = (blk fs1)(?b := disk fs' ?b)" by (auto simp: fs' blk_def unlock_s5_def fun_eq_iff split: option.split)
    ultimately show ?thesis using True e by simp
  next
    case False
    then show ?thesis
      using assms g e by (auto simp: s5_alloc_block_def bnd_eq_Inr lock_s5_eq check_eq_Inr Let_def split: if_splits)
  qed
qed

lemma free_list_bd_set:
  assumes "free_list fs xs" and "c \<notin> set xs" and "blk fs c \<noteq> None"
  shows "free_list (bd_set c p fs) xs"
proof -
  let ?b = "s5s_free_blocks (s5f_super fs) ! (S5_NBLKS_PER_FNODE - 1)"
  from assms(1) obtain ns where ch: "chain (blk fs) ?b ns" and ok: "super_ok (s5f_super fs)" "\<not> s5f_mutex fs" "distinct xs"
    and xs: "xs = rev (take (s5s_nfree (s5f_super fs)) (s5s_free_blocks (s5f_super fs))) @ chain_blocks ?b ns"
    unfolding free_list_def by blast
  have "chain (blk (bd_set c p fs)) ?b ns" unfolding blk_bd_set
    by (rule chain_upd [OF ch]) (use assms xs in auto)
  moreover have "s5f_mutex (bd_set c p fs) = s5f_mutex fs" by (simp add: bd_set_def)
  ultimately show ?thesis using ok xs by (auto simp: free_list_def)
qed

lemma free_list_same:
  "free_list fs xs \<Longrightarrow> blk fs' = blk fs \<Longrightarrow> s5f_super fs' = s5f_super fs \<Longrightarrow> s5f_mutex fs' = s5f_mutex fs \<Longrightarrow> free_list fs' xs"
  by (simp add: free_list_def)

lemma get32_zero: "4 * k + 4 \<le> S5_BLOCK_SIZE \<Longrightarrow> get32 zero_page k = 0"
proof -
  assume k: "4 * k + 4 \<le> S5_BLOCK_SIZE"
  have "take 4 (drop (4 * k) zero_page) = replicate 4 NUL"
    using k unfolding zero_page_def by (simp add: min_def)
  then show ?thesis by (simp add: get32_def dec32_def lessThan4 NUL_def)
qed

subsection \<open>The map\<close>

definition regular :: "s5fs \<Rightarrow> nat \<Rightarrow> bool" where
  "regular fs i \<longleftrightarrow> s5_type (inodes fs i) \<in> {S5_TYPE_DATA, S5_TYPE_DIR}"

definition block_at :: "s5fs \<Rightarrow> nat \<Rightarrow> nat \<Rightarrow> nat" where
  "block_at fs ino b =
     (if b < S5_NDIRECT_BLOCKS then s5_direct_blocks (inodes fs ino) ! b
      else if s5_indirect_block (inodes fs ino) = 0 then 0
      else (case blk fs (s5_indirect_block (inodes fs ino)) of None \<Rightarrow> 0 | Some p \<Rightarrow> get32 p (b - S5_NDIRECT_BLOCKS)))"

text \<open>The free blocks are a stack of blocks that the device has, and no indirect block of a file is free
  or belongs to two files.\<close>

definition map_ok :: "s5fs \<Rightarrow> nat list \<Rightarrow> bool" where
  "map_ok fs xs \<longleftrightarrow> free_list fs xs
     \<and> (\<forall>x\<in>set xs. x \<noteq> 0 \<and> x < 2 ^ 31 \<and> disk fs x \<noteq> None)
     \<and> (\<forall>b p. blk fs b = Some p \<longrightarrow> length p = S5_BLOCK_SIZE)
     \<and> (\<forall>i. regular fs i \<longrightarrow> length (s5_direct_blocks (inodes fs i)) = S5_NDIRECT_BLOCKS)
     \<and> (\<forall>i. regular fs i \<longrightarrow> s5_indirect_block (inodes fs i) \<noteq> 0 \<longrightarrow>
          s5_indirect_block (inodes fs i) \<notin> set xs \<and> blk fs (s5_indirect_block (inodes fs i)) \<noteq> None
          \<and> (\<forall>j. regular fs j \<longrightarrow> s5_indirect_block (inodes fs j) = s5_indirect_block (inodes fs i) \<longrightarrow> j = i))"

definition same_map :: "s5fs \<Rightarrow> s5fs \<Rightarrow> bool" where
  "same_map fs fs' \<longleftrightarrow> (\<forall>i. regular fs' i = regular fs i)
     \<and> (\<forall>i b. regular fs i \<longrightarrow> b < S5_MAX_FILE_BLOCKS \<longrightarrow> block_at fs' i b = block_at fs i b)"

lemma same_map_refl [simp]: "same_map fs fs"
  by (simp add: same_map_def)

lemma same_map_trans: "same_map a b \<Longrightarrow> same_map b c \<Longrightarrow> same_map a c"
  by (simp add: same_map_def)

lemma map_ok_same:
  assumes "map_ok fs xs" and "blk fs' = blk fs" and "disk fs' = disk fs" and "inodes fs' = inodes fs"
    and "s5f_super fs' = s5f_super fs" and "s5f_mutex fs' = s5f_mutex fs"
  shows "map_ok fs' xs" and "same_map fs fs'"
proof -
  have r: "regular fs' = regular fs" unfolding regular_def assms(4) ..
  show "map_ok fs' xs" using assms(1) free_list_same [OF _ assms(2,5,6)] unfolding map_ok_def r assms(2-4) by blast
  show "same_map fs fs'" unfolding same_map_def r block_at_def assms(2-4) by simp
qed

lemma map_ok_bd_get: "map_ok fs xs \<Longrightarrow> bd_get b fs = (r, fs') \<Longrightarrow> map_ok fs' xs \<and> same_map fs fs'"
  using map_ok_same [of fs xs fs'] bd_get_frame [of b fs r fs'] by blast

text \<open>An allocation takes the first free block and leaves the map.\<close>

lemma alloc_none:
  assumes "map_ok fs []"
  shows "\<exists>fs'. s5_alloc_block fs = Inr (- ENOSPC, fs') \<and> map_ok fs' [] \<and> same_map fs fs' \<and> inodes fs' = inodes fs"
proof -
  have fl: "free_list fs []" using assms by (simp add: map_ok_def)
  from alloc_empty [OF fl] obtain fs' where run: "s5_alloc_block fs = Inr (- ENOSPC, fs')" and fl': "free_list fs' []" by blast
  let ?b = "s5s_free_blocks (s5f_super fs) ! (S5_NBLKS_PER_FNODE - 1)"
  have nodisk: "disk fs ?b = None" "blk fs ?b = None"
  proof -
    from fl obtain ns where ch: "chain (blk fs) ?b ns" and e: "[] = chain_blocks ?b ns" by (auto simp: free_list_def)
    then have "blk fs ?b = None" by (cases ns) auto
    then show "disk fs ?b = None" "blk fs ?b = None" by (simp_all add: blk_def split: option.splits)
  qed
  have e: "blk fs' = blk fs" "disk fs' = disk fs"
    using alloc_block_frame(2) [OF run] nodisk by (auto simp: fun_eq_iff)
  have i: "inodes fs' = inodes fs" by (rule alloc_block_frame(1) [OF run])
  have r: "regular fs' = regular fs" unfolding regular_def i ..
  have "map_ok fs' []" using assms fl' unfolding map_ok_def r e i by blast
  moreover have "same_map fs fs'" unfolding same_map_def r block_at_def e i by simp
  ultimately show ?thesis using run i by blast
qed

lemma alloc_some:
  assumes ok: "map_ok fs (x # xs)"
  shows "\<exists>fs'. s5_alloc_block fs = Inr (int x, fs') \<and> map_ok fs' xs \<and> same_map fs fs' \<and> inodes fs' = inodes fs
    \<and> blk fs' x \<noteq> None \<and> (\<forall>c. c \<noteq> x \<longrightarrow> blk fs' c = blk fs c)"
proof -
  have fl: "free_list fs (x # xs)" and x: "x \<noteq> 0" "x < 2 ^ 31" "disk fs x \<noteq> None" and d: "distinct (x # xs)"
    using ok by (auto simp: map_ok_def free_list_def)
  from alloc_pops [OF fl] x(2) obtain fs' where run: "s5_alloc_block fs = Inr (int x, fs')" and fl': "free_list fs' xs"
    by (auto simp: to_off_small)
  have i: "inodes fs' = inodes fs" by (rule alloc_block_frame(1) [OF run])
  have r: "regular fs' = regular fs" unfolding regular_def i ..
  have first: "s5s_free_blocks (s5f_super fs) ! (S5_NBLKS_PER_FNODE - 1) = x" if "s5s_nfree (s5f_super fs) = 0"
  proof -
    from fl that obtain ns where "x # xs = chain_blocks (s5s_free_blocks (s5f_super fs) ! (S5_NBLKS_PER_FNODE - 1)) ns"
      by (auto simp: free_list_def)
    then show ?thesis by (cases ns) auto
  qed
  have bl: "blk fs' c = blk fs c \<and> disk fs' c = disk fs c" if "c \<noteq> x" for c
    using alloc_block_frame(2) [OF run] first that by auto
  have bx: "disk fs' x \<noteq> None" "blk fs' x = blk fs x \<or> blk fs' x = Some zero_page"
    using alloc_block_frame(2) [OF run] first x(3) by auto
  have "length p = S5_BLOCK_SIZE" if "blk fs' c = Some p" for c p
  proof (cases "c = x")
    case True
    then show ?thesis using bx(2) that ok by (auto simp: map_ok_def zero_page_def)
  next
    case False
    then show ?thesis using bl that ok by (simp add: map_ok_def)
  qed
  moreover have ind: "s5_indirect_block (inodes fs j) \<noteq> x" if "regular fs j" "s5_indirect_block (inodes fs j) \<noteq> 0" for j
    using ok that by (auto simp: map_ok_def)
  moreover have "y \<noteq> 0 \<and> y < 2 ^ 31 \<and> disk fs' y \<noteq> None" if "y \<in> set xs" for y
  proof -
    have "y \<noteq> x" using that d by auto
    then show ?thesis using ok that bl by (simp add: map_ok_def)
  qed
  ultimately have "map_ok fs' xs" using ok fl' bl unfolding map_ok_def r i by auto
  moreover have "same_map fs fs'" using ind bl by (auto simp: same_map_def r block_at_def i)
  moreover have "blk fs' x \<noteq> None" using bx(1) by (auto simp: blk_def split: option.split)
  ultimately show ?thesis using run i bl by blast
qed

subsection \<open>The indirect block\<close>

text \<open>The fields of an inode that are not in the map do not matter.\<close>

lemma regular_inode_upd: "s5_type (g (inodes fs ino)) = s5_type (inodes fs ino) \<Longrightarrow> regular (inode_upd ino g fs) = regular fs"
  by (auto simp: regular_def inode_upd_def fun_eq_iff)

lemma inode_at: "inodes (inode_upd ino g fs) i = (if i = ino then g (inodes fs ino) else inodes fs i)"
  by (simp add: inode_upd_def)

lemma indirect_page_spec:
  assumes ok: "map_ok fs xs" and reg: "regular fs ino"
  obtains ret page fs' ys where "indirect_page D ino fs = Inr (ret, page, fs')" and "map_ok fs' ys" and "same_map fs fs'"
    and "page = None \<Longrightarrow> ret = - ENOSPC \<and> s5_indirect_block (inodes fs ino) = 0"
    and "\<And>p. page = Some p \<Longrightarrow> s5_indirect_block (inodes fs' ino) \<noteq> 0 \<and> blk fs' (s5_indirect_block (inodes fs' ino)) = Some p"
proof -
  let ?ind = "s5_indirect_block (inodes fs ino)"
  consider (there) "?ind \<noteq> 0" | (full) "?ind = 0" "xs = []" | (new) x ys where "?ind = 0" "xs = x # ys" by (cases xs) auto
  then show ?thesis
  proof cases
    case there
    obtain r fs' where g: "bd_get ?ind fs = (r, fs')" by (cases "bd_get ?ind fs")
    have e: "r = blk fs ?ind" by (rule bd_get_blk(1) [OF there g])
    have "blk fs ?ind \<noteq> None" using ok reg there by (simp add: map_ok_def)
    then obtain p where p: "blk fs ?ind = Some p" by auto
    have "indirect_page D ino fs = Inr (0, Some p, fs')" using there g e p by (simp add: indirect_page_def)
    moreover have "inodes fs' = inodes fs" "blk fs' = blk fs" using bd_get_frame [OF g] by simp_all
    ultimately show ?thesis using that [of 0 "Some p" fs' xs] map_ok_bd_get [OF ok g] there p by simp
  next
    case full
    from alloc_none [of fs] ok full obtain fs' where a: "s5_alloc_block fs = Inr (- ENOSPC, fs')" "map_ok fs' []" "same_map fs fs'" by auto
    then have "indirect_page D ino fs = Inr (- ENOSPC, None, fs')" using full by (simp add: indirect_page_def ENOSPC_def)
    then show ?thesis using that [of "- ENOSPC" None fs' "[]"] a full by simp
  next
    case new
    from alloc_some [of fs x ys] ok new obtain fs1 where a: "s5_alloc_block fs = Inr (int x, fs1)" "map_ok fs1 ys" "same_map fs fs1"
      "inodes fs1 = inodes fs" "blk fs1 x \<noteq> None" by auto
    have x: "x \<noteq> 0" "x \<notin> set ys" using ok new by (auto simp: map_ok_def free_list_def)
    obtain r fs2 where g: "bd_get x fs1 = (r, fs2)" by (cases "bd_get x fs1")
    have r: "r \<noteq> None" using bd_get_blk(1) [OF x(1) g] a(5) by simp
    note f = bd_get_frame [OF g]
    let ?fs = "inode_upd ino (s5_indirect_block_update (\<lambda>_. x)) (bd_set x zero_page fs2)"
    have run: "indirect_page D ino fs = Inr (0, Some zero_page, ?fs)"
      using new(1) a(1) g r by (auto simp: indirect_page_def)
    have ok2: "map_ok fs2 ys" "same_map fs1 fs2" using map_ok_bd_get [OF a(2) g] by simp_all
    have i2: "inodes fs2 = inodes fs" using f a(4) by simp
    have b2: "blk fs2 x \<noteq> None" using f a(5) by simp
    have reg2: "regular ?fs = regular fs" by (simp add: regular_def inode_at i2 fun_eq_iff)
    have rfs2: "regular fs2 = regular fs" unfolding regular_def i2 ..
    have old: "s5_indirect_block (inodes fs i) \<noteq> x" if "regular fs i" "s5_indirect_block (inodes fs i) \<noteq> 0" for i
      using ok new that by (auto simp: map_ok_def)
    have "free_list (bd_set x zero_page fs2) ys" using ok2(1) x(2) b2 by (intro free_list_bd_set) (simp_all add: map_ok_def)
    then have "free_list ?fs ys" by (rule free_list_same) simp_all
    moreover have "\<forall>b p. blk ?fs b = Some p \<longrightarrow> length p = S5_BLOCK_SIZE"
      using ok2(1) by (auto simp: map_ok_def blk_bd_set zero_page_def)
    moreover have "\<forall>i. regular fs i \<longrightarrow> length (s5_direct_blocks (inodes ?fs i)) = S5_NDIRECT_BLOCKS"
      using ok by (simp add: map_ok_def inode_at i2)
    moreover have "\<forall>i. regular fs i \<longrightarrow> s5_indirect_block (inodes ?fs i) \<noteq> 0 \<longrightarrow>
          s5_indirect_block (inodes ?fs i) \<notin> set ys \<and> blk ?fs (s5_indirect_block (inodes ?fs i)) \<noteq> None
          \<and> (\<forall>j. regular fs j \<longrightarrow> s5_indirect_block (inodes ?fs j) = s5_indirect_block (inodes ?fs i) \<longrightarrow> j = i)"
    proof (intro allI impI)
      fix i assume i: "regular fs i" "s5_indirect_block (inodes ?fs i) \<noteq> 0"
      show "s5_indirect_block (inodes ?fs i) \<notin> set ys \<and> blk ?fs (s5_indirect_block (inodes ?fs i)) \<noteq> None
          \<and> (\<forall>j. regular fs j \<longrightarrow> s5_indirect_block (inodes ?fs j) = s5_indirect_block (inodes ?fs i) \<longrightarrow> j = i)"
      proof (cases "i = ino")
        case True
        then show ?thesis using x old by (auto simp: inode_at i2 blk_bd_set)
      next
        case False
        then have i3: "s5_indirect_block (inodes ?fs i) = s5_indirect_block (inodes fs i)" by (simp add: inode_at i2)
        with i old have nx: "s5_indirect_block (inodes fs i) \<noteq> x" "s5_indirect_block (inodes fs i) \<noteq> 0" by auto
        have "s5_indirect_block (inodes fs i) \<notin> set ys \<and> blk fs2 (s5_indirect_block (inodes fs i)) \<noteq> None
          \<and> (\<forall>j. regular fs j \<longrightarrow> s5_indirect_block (inodes fs j) = s5_indirect_block (inodes fs i) \<longrightarrow> j = i)"
          using ok2(1) i(1) nx(2) unfolding map_ok_def rfs2 i2 by blast
        then show ?thesis unfolding i3 using nx False by (auto simp: inode_at i2 blk_bd_set)
      qed
    qed
    moreover have "\<forall>y\<in>set ys. y \<noteq> 0 \<and> y < 2 ^ 31 \<and> disk ?fs y \<noteq> None" using ok2(1) by (simp add: map_ok_def)
    ultimately have ok3: "map_ok ?fs ys" unfolding map_ok_def reg2 by blast
    have "block_at ?fs i b = block_at fs2 i b" if "regular fs i" "b < S5_MAX_FILE_BLOCKS" for i b
    proof (cases "i = ino")
      case True
      have "b \<ge> S5_NDIRECT_BLOCKS \<Longrightarrow> get32 zero_page (b - S5_NDIRECT_BLOCKS) = 0"
        using that(2) by (intro get32_zero) (simp add: s5_sizes)
      then show ?thesis using True x(1) new(1) by (simp add: block_at_def inode_at i2 blk_bd_set)
    next
      case False
      then show ?thesis using old [OF that(1)] by (simp add: block_at_def inode_at i2 blk_bd_set)
    qed
    then have "same_map fs2 ?fs" by (simp add: same_map_def reg2 rfs2)
    then have "same_map fs ?fs" by (rule same_map_trans [OF same_map_trans [OF a(3) ok2(2)]])
    then show ?thesis using that [OF run ok3] x(1) by (simp add: inode_at blk_bd_set)
  qed
qed

subsection \<open>Looking up and allocating\<close>

text \<open>The map after a seek: page \<open>b\<close> of \<open>ino\<close> may have got a block.\<close>

definition map_with :: "s5fs \<Rightarrow> nat \<Rightarrow> nat \<Rightarrow> nat \<Rightarrow> s5fs \<Rightarrow> bool" where
  "map_with fs ino b n fs' \<longleftrightarrow> (\<forall>i. regular fs' i = regular fs i)
     \<and> (\<forall>i k. regular fs i \<longrightarrow> k < S5_MAX_FILE_BLOCKS \<longrightarrow> block_at fs' i k = (if i = ino \<and> k = b then n else block_at fs i k))"

lemma map_with_same: "same_map fs fs' \<Longrightarrow> map_with fs ino b (block_at fs ino b) fs'"
  by (auto simp: same_map_def map_with_def)

lemma map_with_trans: "same_map fs fs1 \<Longrightarrow> map_with fs1 ino b n fs' \<Longrightarrow> map_with fs ino b n fs'"
  by (auto simp: same_map_def map_with_def)

lemma set_direct:
  fixes n :: nat
  assumes ok: "map_ok fs xs" and reg: "regular fs ino" and b: "b < S5_NDIRECT_BLOCKS"
  defines "fs' \<equiv> inode_upd ino (\<lambda>i. i\<lparr>s5_direct_blocks := (s5_direct_blocks i)[b := n]\<rparr>) fs"
  shows "map_ok fs' xs" and "map_with fs ino b n fs'"
proof -
  have r: "regular fs' = regular fs" unfolding fs'_def by (rule regular_inode_upd) simp
  have i: "s5_indirect_block (inodes fs' j) = s5_indirect_block (inodes fs j)"
    "length (s5_direct_blocks (inodes fs' j)) = length (s5_direct_blocks (inodes fs j))" for j
    by (simp_all add: fs'_def inode_at)
  have e: "blk fs' = blk fs" "disk fs' = disk fs" by (simp_all add: fs'_def)
  have "free_list fs' xs" by (rule free_list_same [of fs xs]) (use ok in \<open>simp_all add: map_ok_def fs'_def\<close>)
  then show "map_ok fs' xs" using ok by (simp add: map_ok_def r i e)
  have len: "length (s5_direct_blocks (inodes fs ino)) = S5_NDIRECT_BLOCKS" using ok reg by (simp add: map_ok_def)
  have "block_at fs' j k = (if j = ino \<and> k = b then n else block_at fs j k)" for j k
  proof (cases "j = ino")
    case True
    then show ?thesis using b len unfolding block_at_def i e by (auto simp: fs'_def inode_at)
  next
    case False
    then have "inodes fs' j = inodes fs j" by (simp add: fs'_def inode_at)
    then show ?thesis using False unfolding block_at_def e by simp
  qed
  then show "map_with fs ino b n fs'" by (simp add: map_with_def r)
qed

lemma set_indirect:
  fixes n :: nat
  assumes ok: "map_ok fs xs" and reg: "regular fs ino" and b: "S5_NDIRECT_BLOCKS \<le> b" "b < S5_MAX_FILE_BLOCKS"
    and ind: "s5_indirect_block (inodes fs ino) \<noteq> 0" and p: "blk fs (s5_indirect_block (inodes fs ino)) = Some p"
    and n: "n < 2 ^ 32"
  defines "fs' \<equiv> bd_set (s5_indirect_block (inodes fs ino)) (put32 (b - S5_NDIRECT_BLOCKS) n p) fs"
  shows "map_ok fs' xs" and "map_with fs ino b n fs'"
proof -
  let ?i = "s5_indirect_block (inodes fs ino)" and ?o = "b - S5_NDIRECT_BLOCKS"
  have r: "regular fs' = regular fs" by (simp add: fs'_def regular_def fun_eq_iff)
  have e: "inodes fs' = inodes fs" "disk fs' = disk fs" by (simp_all add: fs'_def)
  have bk: "blk fs' = (blk fs)(?i \<mapsto> put32 ?o n p)" by (simp add: fs'_def blk_bd_set)
  have lp: "length p = S5_BLOCK_SIZE" and free: "?i \<notin> set xs" using ok p reg ind by (auto simp: map_ok_def)
  have o: "4 * ?o + 4 \<le> S5_BLOCK_SIZE" using b by (simp add: s5_sizes)
  have "free_list fs' xs" unfolding fs'_def using ok free p by (intro free_list_bd_set) (simp_all add: map_ok_def)
  moreover have "\<forall>c q. blk fs' c = Some q \<longrightarrow> length q = S5_BLOCK_SIZE" using ok lp o by (auto simp: bk map_ok_def)
  moreover have "\<forall>j. regular fs j \<longrightarrow> s5_indirect_block (inodes fs j) \<noteq> 0 \<longrightarrow>
      s5_indirect_block (inodes fs j) \<notin> set xs \<and> blk fs' (s5_indirect_block (inodes fs j)) \<noteq> None
      \<and> (\<forall>l. regular fs l \<longrightarrow> s5_indirect_block (inodes fs l) = s5_indirect_block (inodes fs j) \<longrightarrow> l = j)"
  proof (intro allI impI)
    fix j assume "regular fs j" "s5_indirect_block (inodes fs j) \<noteq> 0"
    then have "s5_indirect_block (inodes fs j) \<notin> set xs \<and> blk fs (s5_indirect_block (inodes fs j)) \<noteq> None
      \<and> (\<forall>l. regular fs l \<longrightarrow> s5_indirect_block (inodes fs l) = s5_indirect_block (inodes fs j) \<longrightarrow> l = j)"
      using ok unfolding map_ok_def by blast
    then show "s5_indirect_block (inodes fs j) \<notin> set xs \<and> blk fs' (s5_indirect_block (inodes fs j)) \<noteq> None
      \<and> (\<forall>l. regular fs l \<longrightarrow> s5_indirect_block (inodes fs l) = s5_indirect_block (inodes fs j) \<longrightarrow> l = j)"
      unfolding bk by auto
  qed
  moreover have "\<forall>x\<in>set xs. x \<noteq> 0 \<and> x < 2 ^ 31 \<and> disk fs x \<noteq> None"
    "\<forall>j. regular fs j \<longrightarrow> length (s5_direct_blocks (inodes fs j)) = S5_NDIRECT_BLOCKS"
    using ok by (simp_all add: map_ok_def)
  ultimately show "map_ok fs' xs" unfolding map_ok_def r e by blast
  have "block_at fs' j k = (if j = ino \<and> k = b then n else block_at fs j k)" if "regular fs j" "k < S5_MAX_FILE_BLOCKS" for j k
  proof (cases "j = ino")
    case True
    have "get32 (put32 ?o n p) (k - S5_NDIRECT_BLOCKS) = (if k = b then n else get32 p (k - S5_NDIRECT_BLOCKS))"
      if "S5_NDIRECT_BLOCKS \<le> k"
    proof (cases "k = b")
      case True
      then show ?thesis using get_put32 [of ?o p n] o lp n by simp
    next
      case False
      have "4 * (k - S5_NDIRECT_BLOCKS) + 4 \<le> S5_BLOCK_SIZE" using \<open>k < S5_MAX_FILE_BLOCKS\<close> that by (simp add: s5_sizes)
      then show ?thesis using get_put32_other [of ?o "k - S5_NDIRECT_BLOCKS" p n] False o lp b(1) that by simp
    qed
    then show ?thesis using True ind p b(1) by (auto simp: block_at_def e bk)
  next
    case False
    have "s5_indirect_block (inodes fs j) \<noteq> ?i" if "s5_indirect_block (inodes fs j) \<noteq> 0"
      using ok reg ind \<open>regular fs j\<close> False that unfolding map_ok_def by metis
    then show ?thesis using False by (simp add: block_at_def e bk)
  qed
  then show "map_with fs ino b n fs'" by (simp add: map_with_def r)
qed

text \<open>What \<open>s5_seek_to_block\<close> returns and leaves.\<close>

lemma seek_spec:
  assumes ok: "map_ok fs xs" and reg: "regular fs ino" and off: "0 \<le> off" and b: "nat off div S5_BLOCK_SIZE < S5_MAX_FILE_BLOCKS"
  shows "\<exists>r fs' ys n. s5_seek_to_block D ino off alloc fs = Inr (r, fs') \<and> map_ok fs' ys
    \<and> map_with fs ino (nat off div S5_BLOCK_SIZE) n fs'
    \<and> (if block_at fs ino (nat off div S5_BLOCK_SIZE) \<noteq> 0
       then n = block_at fs ino (nat off div S5_BLOCK_SIZE) \<and> r = to_off n
       else r = - ENOSPC \<and> n = 0 \<or> (if alloc then r = int n \<and> 0 < n \<and> n < 2 ^ 31 else r = 0 \<and> n = 0))"
proof -
  let ?b = "nat off div S5_BLOCK_SIZE"
  have lim: "\<not> S5_NIDIRECT_BLOCKS + S5_NDIRECT_BLOCKS \<le> ?b" using b by (simp add: s5_sizes)
  show ?thesis
  proof (cases "?b < S5_NDIRECT_BLOCKS")
    case True
    let ?here = "s5_direct_blocks (inodes fs ino) ! ?b"
    have at: "block_at fs ino ?b = ?here" using True by (simp add: block_at_def)
    have seek: "s5_seek_to_block D ino off alloc fs =
      (if ?here = 0 then
         if \<not> alloc then Inr (0, fs)
         else bnd (s5_alloc_block fs) (\<lambda>(block_num, fs).
           if block_num < 0 then Inr (block_num, fs)
           else Inr (block_num, inode_upd ino (\<lambda>i. i\<lparr>s5_direct_blocks := (s5_direct_blocks i)[?b := nat block_num]\<rparr>) fs))
       else Inr (to_off ?here, fs))"
      using off lim True by (simp add: s5_seek_to_block_def Let_def)
    consider (found) "?here \<noteq> 0 \<or> \<not> alloc" | (full) "?here = 0" alloc "xs = []" | (new) x ys where "?here = 0" alloc "xs = x # ys"
      by (cases xs) auto
    then show ?thesis
    proof cases
      case found
      then have "s5_seek_to_block D ino off alloc fs = Inr (if ?here = 0 then 0 else to_off ?here, fs)" unfolding seek by auto
      then show ?thesis using ok map_with_same [OF same_map_refl, of fs ino ?b] found at
        by (intro exI [of _ "if ?here = 0 then 0 else to_off ?here"] exI [of _ fs] exI [of _ xs] exI [of _ "?here"]) auto
    next
      case full
      from alloc_none [of fs] ok full obtain fs' where a: "s5_alloc_block fs = Inr (- ENOSPC, fs')" "map_ok fs' []" "same_map fs fs'" by auto
      then have "s5_seek_to_block D ino off alloc fs = Inr (- ENOSPC, fs')" unfolding seek using full by (simp add: ENOSPC_def)
      then show ?thesis using a(2) map_with_same [OF a(3), of ino ?b] full at
        by (intro exI [of _ "- ENOSPC"] exI [of _ fs'] exI [of _ "[]"] exI [of _ 0]) simp
    next
      case new
      from alloc_some [of fs x ys] ok new obtain fs1 where a: "s5_alloc_block fs = Inr (int x, fs1)" "map_ok fs1 ys" "same_map fs fs1" by auto
      have reg1: "regular fs1 ino" using a(3) reg by (simp add: same_map_def)
      note d = set_direct [OF a(2) reg1 True, of x]
      let ?fs = "inode_upd ino (\<lambda>i. i\<lparr>s5_direct_blocks := (s5_direct_blocks i)[?b := x]\<rparr>) fs1"
      have "s5_seek_to_block D ino off alloc fs = Inr (int x, ?fs)" unfolding seek using new a by simp
      moreover have "0 < x" "x < 2 ^ 31" using ok new by (auto simp: map_ok_def)
      ultimately show ?thesis using d(1) map_with_trans [OF a(3) d(2)] new at
        by (intro exI [of _ "int x"] exI [of _ ?fs] exI [of _ ys] exI [of _ x]) simp
    qed
  next
    case False
    let ?o = "?b - S5_NDIRECT_BLOCKS"
    from indirect_page_spec [OF ok reg, of D] obtain ret page fs1 ys where
      ip: "indirect_page D ino fs = Inr (ret, page, fs1)" "map_ok fs1 ys" "same_map fs fs1"
      and none: "page = None \<Longrightarrow> ret = - ENOSPC \<and> s5_indirect_block (inodes fs ino) = 0"
      and some: "\<And>p. page = Some p \<Longrightarrow> s5_indirect_block (inodes fs1 ino) \<noteq> 0
        \<and> blk fs1 (s5_indirect_block (inodes fs1 ino)) = Some p" by blast
    have seek: "s5_seek_to_block D ino off alloc fs = (case page of None \<Rightarrow> Inr (ret, fs1)
      | Some page \<Rightarrow>
          if get32 page ?o = 0 then
            if \<not> alloc then Inr (0, fs1)
            else bnd (s5_alloc_block fs1) (\<lambda>(block_num, fs).
              if block_num < 0 then Inr (block_num, fs)
              else Inr (block_num, bd_set (s5_indirect_block (inodes fs ino)) (put32 ?o (nat block_num) page) fs))
          else Inr (to_off (get32 page ?o), fs1))"
      using off lim False ip(1) by (cases page) (simp_all add: s5_seek_to_block_def Let_def)
    have reg1: "regular fs1 ino" and at1: "block_at fs1 ino ?b = block_at fs ino ?b" using ip(3) reg b by (auto simp: same_map_def)
    show ?thesis
    proof (cases page)
      case None
      then have "block_at fs ino ?b = 0" using none False by (simp add: block_at_def)
      then show ?thesis using None none seek ip(2) map_with_same [OF ip(3), of ino ?b]
        by (intro exI [of _ "- ENOSPC"] exI [of _ fs1] exI [of _ ys] exI [of _ 0]) simp
    next
      case (Some p)
      note sp = some [OF Some]
      have at: "block_at fs ino ?b = get32 p ?o" using sp False unfolding at1 [symmetric] by (simp add: block_at_def)
      consider (found) "get32 p ?o \<noteq> 0 \<or> \<not> alloc" | (full) "get32 p ?o = 0" alloc "ys = []"
        | (new) x zs where "get32 p ?o = 0" alloc "ys = x # zs" by (cases ys) auto
      then show ?thesis
      proof cases
        case found
        then have "s5_seek_to_block D ino off alloc fs = Inr (if get32 p ?o = 0 then 0 else to_off (get32 p ?o), fs1)"
          unfolding seek Some by auto
        then show ?thesis using ip(2) map_with_same [OF ip(3), of ino ?b] found at
          by (intro exI [of _ "if get32 p ?o = 0 then 0 else to_off (get32 p ?o)"] exI [of _ fs1] exI [of _ ys] exI [of _ "get32 p ?o"]) auto
      next
        case full
        from alloc_none [of fs1] ip(2) full obtain fs' where
          a: "s5_alloc_block fs1 = Inr (- ENOSPC, fs')" "map_ok fs' []" "same_map fs1 fs'" by auto
        then have "s5_seek_to_block D ino off alloc fs = Inr (- ENOSPC, fs')" unfolding seek Some using full by (simp add: ENOSPC_def)
        then show ?thesis using a(2) map_with_same [OF same_map_trans [OF ip(3) a(3)], of ino ?b] full at
          by (intro exI [of _ "- ENOSPC"] exI [of _ fs'] exI [of _ "[]"] exI [of _ 0]) simp
      next
        case new
        from alloc_some [OF ip(2) [unfolded new(3)]] obtain fs2 where
          a: "s5_alloc_block fs1 = Inr (int x, fs2)" "map_ok fs2 zs" "same_map fs1 fs2" "inodes fs2 = inodes fs1" "\<forall>c. c \<noteq> x \<longrightarrow> blk fs2 c = blk fs1 c"
          by (elim exE conjE) (rule that; assumption)
        have reg2: "regular fs2 ino" using a(3) reg1 by (simp add: same_map_def)
        have x: "0 < x" "x < 2 ^ 31" using ip(2) new by (auto simp: map_ok_def)
        let ?i = "s5_indirect_block (inodes fs2 ino)"
        have ind: "?i \<noteq> 0" using sp a(4) by simp
        have "?i \<noteq> x" using ip(2) reg1 sp a(4) new(3) by (auto simp: map_ok_def)
        then have p: "blk fs2 ?i = Some p" using a(5) sp a(4) by simp
        have "x < 2 ^ 32" using x(2) by simp
        have lo: "S5_NDIRECT_BLOCKS \<le> ?b" using False by simp
        note d = set_indirect [OF a(2) reg2 lo b ind p \<open>x < 2 ^ 32\<close>]
        let ?fs = "bd_set ?i (put32 ?o x p) fs2"
        have "s5_seek_to_block D ino off alloc fs = Inr (int x, ?fs)" unfolding seek Some using new a(1) by simp
        then show ?thesis using d(1) map_with_trans [OF same_map_trans [OF ip(3) a(3)] d(2)] new at x
          by (intro exI [of _ "int x"] exI [of _ ?fs] exI [of _ zs] exI [of _ x]) simp
      qed
    qed
  qed
qed

text \<open>Any number of seeks in any files, and of allocations.\<close>

inductive seeks :: "bdev \<Rightarrow> s5fs \<Rightarrow> s5fs \<Rightarrow> bool" for D fs where
  seeks_none: "seeks D fs fs"
| seeks_seek: "seeks D fs fs1 \<Longrightarrow> regular fs1 i \<Longrightarrow> 0 \<le> off \<Longrightarrow> s5_seek_to_block D i off alloc fs1 = Inr (r, fs2) \<Longrightarrow>
    seeks D fs fs2"
| seeks_alloc: "seeks D fs fs1 \<Longrightarrow> s5_alloc_block fs1 = Inr (r, fs2) \<Longrightarrow> seeks D fs fs2"

definition map_grows :: "s5fs \<Rightarrow> s5fs \<Rightarrow> bool" where
  "map_grows fs fs' \<longleftrightarrow> (\<forall>i. regular fs' i = regular fs i)
     \<and> (\<forall>i b. regular fs i \<longrightarrow> b < S5_MAX_FILE_BLOCKS \<longrightarrow> block_at fs i b \<noteq> 0 \<longrightarrow> block_at fs' i b = block_at fs i b)"

lemma map_grows_trans: "map_grows a b \<Longrightarrow> map_grows b c \<Longrightarrow> map_grows a c"
  by (auto simp: map_grows_def)

lemma seek_far:
  "0 \<le> off \<Longrightarrow> \<not> nat off div S5_BLOCK_SIZE < S5_MAX_FILE_BLOCKS \<Longrightarrow> s5_seek_to_block D ino off alloc fs = Inr (-1, fs)"
  by (simp add: s5_seek_to_block_def Let_def s5_sizes)

lemma seek_grows:
  assumes "map_ok fs xs" and "regular fs i" and "0 \<le> off" and run: "s5_seek_to_block D i off alloc fs = Inr (r, fs')"
  shows "\<exists>ys. map_ok fs' ys" and "map_grows fs fs'"
proof -
  have "(\<exists>ys. map_ok fs' ys) \<and> map_grows fs fs'"
  proof (cases "nat off div S5_BLOCK_SIZE < S5_MAX_FILE_BLOCKS")
    case True
    from seek_spec [OF assms(1-3) this, of D alloc] run obtain ys n where
      "map_ok fs' ys" "map_with fs i (nat off div S5_BLOCK_SIZE) n fs'"
      "block_at fs i (nat off div S5_BLOCK_SIZE) \<noteq> 0 \<Longrightarrow> n = block_at fs i (nat off div S5_BLOCK_SIZE)" by auto
    then show ?thesis by (auto simp: map_with_def map_grows_def)
  next
    case False
    then show ?thesis using seek_far [OF assms(3) False, of D i alloc fs] run assms(1) by (auto simp: map_grows_def)
  qed
  then show "\<exists>ys. map_ok fs' ys" and "map_grows fs fs'" by simp_all
qed

lemma seeks_grow:
  assumes "seeks D fs fs'" and "map_ok fs xs"
  shows "(\<exists>ys. map_ok fs' ys) \<and> map_grows fs fs'"
  using assms(1)
proof (induction rule: seeks.induct)
  case seeks_none
  then show ?case using assms(2) by (auto simp: map_grows_def)
next
  case (seeks_seek fs1 i off alloc r fs2)
  then show ?case using seek_grows [OF _ seeks_seek(2-4)] map_grows_trans by blast
next
  case (seeks_alloc fs1 r fs2)
  then obtain ys where ys: "map_ok fs1 ys" by blast
  have "(\<exists>ys. map_ok fs2 ys) \<and> same_map fs1 fs2"
  proof (cases ys)
    case Nil
    then show ?thesis using alloc_none [of fs1] ys seeks_alloc(2) by auto
  next
    case (Cons x zs)
    then show ?thesis using alloc_some [of fs1 x zs] ys seeks_alloc(2) by auto
  qed
  moreover have "map_grows fs fs1" using seeks_alloc by blast
  ultimately show ?case by (auto simp: same_map_def map_grows_def)
qed

lemma seek_stays:
  assumes ok: "map_ok fs xs" and reg: "regular fs ino" and off: "0 \<le> off"
    and run: "s5_seek_to_block D ino off alloc fs = Inr (n, fs1)" and n: "0 < n" and later: "seeks D fs1 fs2"
  shows "\<exists>fs3. s5_seek_to_block D ino off alloc' fs2 = Inr (n, fs3)"
    and "\<And>i b. regular fs i \<Longrightarrow> b < S5_MAX_FILE_BLOCKS \<Longrightarrow> (i, b) \<noteq> (ino, nat off div S5_BLOCK_SIZE) \<Longrightarrow>
      block_at fs1 i b = block_at fs i b"
proof -
  let ?b = "nat off div S5_BLOCK_SIZE"
  have b: "?b < S5_MAX_FILE_BLOCKS" using seek_far [OF off, of D ino alloc fs] run n by (cases "?b < S5_MAX_FILE_BLOCKS") auto
  from seek_spec [OF ok reg off b, of D alloc] run obtain ys m where
    ok1: "map_ok fs1 ys" and w: "map_with fs ino ?b m fs1"
    and res: "if block_at fs ino ?b \<noteq> 0 then m = block_at fs ino ?b \<and> n = to_off m
       else n = - ENOSPC \<and> m = 0 \<or> (if alloc then n = int m \<and> 0 < m \<and> m < 2 ^ 31 else n = 0 \<and> m = 0)" by auto
  have m: "m \<noteq> 0" "n = to_off m"
    using res n by (auto simp: ENOSPC_def to_off_small split: if_splits)
  have at1: "block_at fs1 ino ?b = m" "regular fs1 ino" using w reg b by (auto simp: map_with_def)
  from seeks_grow [OF later ok1] obtain zs where ok2: "map_ok fs2 zs" and g: "map_grows fs1 fs2" by blast
  have at2: "block_at fs2 ino ?b = m" "regular fs2 ino" using g at1 b m(1) by (auto simp: map_grows_def)
  from seek_spec [OF ok2 at2(2) off b, of D alloc'] at2(1) m show "\<exists>fs3. s5_seek_to_block D ino off alloc' fs2 = Inr (n, fs3)"
    by auto
  fix i c assume "regular fs i" "c < S5_MAX_FILE_BLOCKS" "(i, c) \<noteq> (ino, ?b)"
  then show "block_at fs1 i c = block_at fs i c" using w by (auto simp: map_with_def)
qed

end
