(* ===== verification/S5props.thy ===== *)
theory S5props
  imports S5remove S5reach S5inode S5seek
begin

text \<open>
  The properties of the System V file system, each with a run of the code on which its hypotheses
  hold.
\<close>

subsection \<open>A file system with one file\<close>

definition one_entry :: string where
  "one_entry = enc32 1 @ ''f'' @ replicate 27 NUL"

text \<open>The root directory holds \<open>f\<close>, an empty file; the first pages of both are resident and dirty.\<close>

definition one_data :: s5fs where
  "one_data = small_disk\<lparr>
     inodes := small_inode(0 := (small_inode 0)\<lparr>s5_un := 32, s5_linkcount := 2\<rparr>,
                           1 := (small_inode 1)\<lparr>s5_linkcount := 2\<rparr>),
     fpages := (\<lambda>i b. if i = 0 \<and> b = 0 then Some (one_entry @ replicate 4064 NUL, True)
                       else if i = 1 \<and> b < 4 then Some (zero_page, True) else None),
     s5_root_vn := Some 0\<rparr>"

definition file_vnode :: vnode where
  "file_vnode = zero_vnode\<lparr>vn_ops := Some File_vops, vn_mode := S_IFREG, vn_vno := 1, vn_i := 1,
     vn_refcount := 5, vn_nrespages := 4\<rparr>"

definition s5one :: sstate where
  "s5one = (s5_kernel one_data)\<lparr>
     vnodes := [0 \<mapsto> s5_root\<lparr>vn_len := 32, vn_refcount := 4, vn_nrespages := 1\<rparr>, 1 \<mapsto> file_vnode],
     vnode_inuse_list := [1, 0], next_vnode := 2\<rparr>"

lemma s5_root_simps [simp]:
  "vn_mode s5_root = S_IFDIR" "vn_i s5_root = 0" "vn_vno s5_root = 0" "vn_len s5_root = 0"
  "vn_refcount s5_root = 3" "vn_nrespages s5_root = 0" "vn_busy s5_root = False"
  by (simp_all add: s5_root_def zero_vnode_def)

lemma file_vnode_simps [simp]:
  "vn_mode file_vnode = S_IFREG" "vn_i file_vnode = 1" "vn_vno file_vnode = 1" "vn_len file_vnode = 0"
  "vn_refcount file_vnode = 5" "vn_nrespages file_vnode = 4" "vn_busy file_vnode = False"
  by (simp_all add: file_vnode_def zero_vnode_def)

lemma s5one_simps [simp]:
  "vnodes s5one = [0 \<mapsto> s5_root\<lparr>vn_len := 32, vn_refcount := 4, vn_nrespages := 1\<rparr>, 1 \<mapsto> file_vnode]"
  "vnode_inuse_list s5one = [1, 0]" "next_vnode s5one = 2" "fs_data s5one = one_data"
  by (simp_all add: s5one_def)

lemma one_data_simps [simp]:
  "s5_un (inodes one_data 0) = 32" "s5_un (inodes one_data (Suc 0)) = 0" "s5_number (inodes one_data (Suc 0)) = 1"
  "s5_linkcount (inodes one_data (Suc 0)) = 2" "vn_mutexes one_data = {}"
  "fpages one_data = (\<lambda>i b. if i = 0 \<and> b = 0 then Some (one_entry @ replicate 4064 NUL, True)
                       else if i = 1 \<and> b < 4 then Some (zero_page, True) else None)"
  "disk one_data = (\<lambda>b. if b < 8 then Some zero_page else None)"
  by (simp_all add: one_data_def small_disk_def small_inode_def)

lemma length_one_entry [simp]: "length one_entry = 32"
  by (simp add: one_entry_def)

lemma one_pages: "pages_ok s5one"
  by (auto simp: pages_ok_def disk_ok_def split: if_splits)

lemma one_entry_ok: "entry_ok one_entry" "entry_name one_entry = ''f''" "dirent_ino one_entry = 1"
  by (simp_all add: entry_ok_def entry_name_def dirent_name_def dirent_ino_def one_entry_def S5_NAME_LEN_def
      dec_enc32 NUL_def)

lemma one_dir: "dir_holds s5one 0 0 [one_entry]"
proof -
  have "holds s5one 0 0 (concat [one_entry])"
    by (simp add: holds_def byte_at_def nth_append)
  then show ?thesis
    using one_pages one_entry_ok by (simp add: dir_holds_def has_len_def)
qed

lemma one_map: "entry_map [one_entry] = [''f'' \<mapsto> 1]"
  by (simp add: entry_map_def one_entry_ok)

lemma one_file: "has_len s5one 1 1 0"
  by (simp add: has_len_def)

lemma err_negative: "bd_err no_drivers < 0"
  by (simp add: no_drivers_def)

subsection \<open>Reference counts\<close>

text \<open>Claim C13. In every state that the kernel reaches on a System V file system, from the mount of the
  disk by system calls that return, the reference counts are exact: the references to a vnode that
  its resident pages do not hold are the open files on it, the working directory, and on the root
  the mount and the idle process; the count of an open file is the number of its descriptors.\<close>

lemma s5_counts_exact:
  assumes "s5reach D fs s"
  shows "(\<forall>a. vrefs s a = int (card {f. \<exists>fl. kfiles s f = Some fl \<and> f_vnode fl = Some a})
            + (if p_cwd s = a then 1 else 0) + (if vfs_root_vn s = a then 2 else 0))
    \<and> (\<forall>f fl. kfiles s f = Some fl \<longrightarrow> f_vnode fl \<noteq> None \<and> 0 < f_refcount fl
            \<and> f_refcount fl = int (card {d. p_files s d = Some f}))
    \<and> (\<forall>d f. p_files s d = Some f \<longrightarrow> d < NFILES \<and> kfiles s f \<noteq> None)"
proof -
  have ok: "kinv zero zero {} {} s" using s5reach_ok [OF assms] by (simp add: kernel_ok_def)
  have a: "\<forall>f fl. kfiles s f = Some fl \<longrightarrow> f_vnode fl \<noteq> None \<and> 0 < f_refcount fl"
    using kinv_files_ok [OF ok] by blast
  have b: "\<forall>f fl. kfiles s f = Some fl \<longrightarrow> f_refcount fl = int (card {d. p_files s d = Some f})"
    using ok by (simp add: kinv_def fds_of_def zero_def)
  show ?thesis
    using ok a b unfolding kinv_def files_on_def is_at_def zero_def by auto
qed

lemma s5_counts_exact_witness:
  "(\<forall>a. vrefs s5booted a = int (card {f. \<exists>fl. kfiles s5booted f = Some fl \<and> f_vnode fl = Some a})
            + (if p_cwd s5booted = a then 1 else 0) + (if vfs_root_vn s5booted = a then 2 else 0))
    \<and> vrefs s5booted 0 = 3"
proof
  show "vrefs s5booted 0 = 3" by (simp add: vrefs_def s5booted_def)
qed (use s5_counts_exact [OF s5reach_booted] in blast)

subsection \<open>File data\<close>

text \<open>Claim C3. When \<open>s5_write_file\<close> returns a value that is not negative, it returns \<open>len\<close>; the bytes of the
  buffer stand in the file at the given position, however many blocks they span; every other
  resident byte of this and of other files is unchanged, the length of the file is the larger of
  the old length and the end of the write, and the links and types of all inodes are as before.\<close>

lemma s5_write_stores:
  assumes "s5_write_file D vn seek bytes len s = Inr (r, s')" and "0 \<le> r" and "bd_err D < 0"
    and "has_len s vn ino L" and "pages_ok s" and "0 \<le> seek" "seek + int len \<le> S5_MAX_FILE_SIZE"
  shows "r = int len \<and> len \<le> length bytes \<and> has_len s' vn ino (max (seek + int len) L)
    \<and> (\<forall>k<len. byte_at s' ino (nat seek + k) = Some (bytes ! k))
    \<and> (\<forall>pos c. byte_at s ino pos = Some c \<longrightarrow> pos < nat seek \<or> nat seek + len \<le> pos \<longrightarrow> byte_at s' ino pos = Some c)
    \<and> (\<forall>i b x. i \<noteq> ino \<longrightarrow> fpages (fs_data s) i b = Some x \<longrightarrow> fpages (fs_data s') i b = Some x)
    \<and> links_kept s s'"
proof -
  note w = write_file_wrote [OF assms]
  then have l: "length (take len bytes) = len" by simp
  from w have p: "puts ino (nat seek) (take len bytes) s s'" and h: "has_len s' vn ino (max (seek + int len) L)"
    by (simp_all add: wrote_def)
  have "\<forall>k<len. byte_at s' ino (nat seek + k) = Some (bytes ! k)"
    using p unfolding puts_def l by simp
  then show ?thesis using p h w unfolding puts_def l by (intro conjI) (simp_all del: split_paired_All)
qed

lemma one_write:
  assumes "0 \<le> seek" and "nat seek + len < 4 * 4096" and "length bytes = len"
  shows "\<exists>s'. s5_write_file no_drivers 1 seek bytes len s5one = Inr (int len, s')"
    and "seek + int len \<le> S5_MAX_FILE_SIZE"
proof -
  show le: "seek + int len \<le> S5_MAX_FILE_SIZE"
    using assms(1,2) by (simp add: S5_MAX_FILE_SIZE_def S5_MAX_FILE_BLOCKS_def)
  have "(nat seek + len) div 4096 < 4" using assms(2) by (simp add: less_mult_imp_div_less)
  then have "dirty_range s5one 1 (nat seek div 4096) ((nat seek + len) div 4096)"
    by (simp add: dirty_range_def)
  from write_file_total [OF one_file assms(1) le _ this] assms(3)
  show "\<exists>s'. s5_write_file no_drivers 1 seek bytes len s5one = Inr (int len, s')" by simp
qed

lemma s5_write_stores_witness:
  "\<exists>s'. s5_write_file no_drivers 1 4094 ''hello'' 5 s5one = Inr (5, s')
     \<and> byte_at s' 1 4098 = Some (CHR ''o'') \<and> has_len s' 1 1 4099"
proof -
  obtain s' where run: "s5_write_file no_drivers 1 4094 ''hello'' 5 s5one = Inr (5, s')"
    using one_write(1) [of 4094 5 "''hello''"] by auto
  from s5_write_stores [OF run _ err_negative one_file one_pages]
  have "\<forall>k<5. byte_at s' 1 (4094 + k) = Some (''hello'' ! k)" "has_len s' 1 1 4099"
    by (simp_all add: S5_MAX_FILE_SIZE_def S5_MAX_FILE_BLOCKS_def)
  from spec [OF this(1), of 4] this(2) run show ?thesis by auto
qed

lemma read_after_write:
  assumes run: "s5_write_file D vn seek bytes len s = Inr (r, s')" and r: "0 \<le> r" and err: "bd_err D < 0"
    and L: "has_len s vn ino L" and ok: "pages_ok s" and pos: "0 \<le> seek" "seek + int len \<le> S5_MAX_FILE_SIZE"
    and len: "0 < len"
  shows "s5_read_file D vn seek len s' =
    (if (nat seek + len) div 4096 \<le> nat seek div 4096 + 1 then Inr (int len, take len bytes, s')
     else Inl Wild_access)"
proof -
  note w = write_file_wrote [OF run r err L ok pos]
  then have l: "length (take len bytes) = len" by simp
  have ne: "take len bytes \<noteq> []" using l len by (metis length_0_conv less_numeral_extra(3))
  from w have p: "puts ino (nat seek) (take len bytes) s s'" and h: "has_len s' vn ino (max (seek + int len) L)"
    by (simp_all add: wrote_def)
  have hd: "holds s' ino (nat seek) (take len bytes)" using p unfolding puts_def holds_def by blast
  have e: "nat ((seek + int len) div 4096) = (nat seek + len) div 4096"
    using pos(1) by (simp add: nat_div_distrib nat_add_distrib)
  have q: "fpages (fs_data s') ino ((nat seek + length (take len bytes)) div 4096) \<noteq> None"
    using w unfolding l e by blast
  have le: "seek + int (length (take len bytes)) \<le> max (seek + int len) L" unfolding l by simp
  from read_file_holds [OF h puts_pages [OF p] pos(1) le ne hd q, of D] show ?thesis unfolding l .
qed

text \<open>Claim C15. What \<open>s5_write_file\<close> stored, \<open>s5_read_file\<close> returns, when the write ends in the block in
  which it begins or in the next one; reading does not change the state.\<close>

lemma s5_write_read:
  assumes "s5_write_file D vn seek bytes len s = Inr (r, s')" and "0 \<le> r" and "bd_err D < 0"
    and "has_len s vn ino L" and "pages_ok s" and "0 \<le> seek" "seek + int len \<le> S5_MAX_FILE_SIZE"
    and "0 < len" and "(nat seek + len) div 4096 \<le> nat seek div 4096 + 1"
  shows "s5_read_file D vn seek len s' = Inr (int len, take len bytes, s')"
  using read_after_write [OF assms(1-8)] assms(9) by simp

lemma s5_write_read_witness:
  "\<exists>s'. s5_write_file no_drivers 1 4094 ''hello'' 5 s5one = Inr (5, s')
     \<and> s5_read_file no_drivers 1 4094 5 s' = Inr (5, ''hello'', s')"
proof -
  obtain s' where run: "s5_write_file no_drivers 1 4094 ''hello'' 5 s5one = Inr (5, s')"
    using one_write(1) [of 4094 5 "''hello''"] by auto
  from s5_write_read [OF run _ err_negative one_file one_pages] run show ?thesis
    by (simp add: S5_MAX_FILE_SIZE_def S5_MAX_FILE_BLOCKS_def)
qed

text \<open>Claim C34. Reading back a write that spans three blocks or more overruns the caller's buffer of \<open>len\<close>
  bytes: the loop of \<open>s5_read_file\<close> never goes on to the next page and copies the second page again and
  again.\<close>

lemma s5_read_overruns:
  assumes "s5_write_file D vn seek bytes len s = Inr (r, s')" and "0 \<le> r" and "bd_err D < 0"
    and "has_len s vn ino L" and "pages_ok s" and "0 \<le> seek" "seek + int len \<le> S5_MAX_FILE_SIZE"
    and "nat seek div 4096 + 1 < (nat seek + len) div 4096"
  shows "s5_read_file D vn seek len s' = Inl Wild_access"
proof -
  have "0 < len" using assms(8) by (cases len) auto
  from read_after_write [OF assms(1-7) this] assms(8) show ?thesis by simp
qed

lemma s5_read_overruns_witness:
  "\<exists>s'. s5_write_file no_drivers 1 0 (replicate 8192 CHR ''a'') 8192 s5one = Inr (8192, s')
     \<and> s5_read_file no_drivers 1 0 8192 s' = Inl Wild_access"
proof -
  obtain s' where run: "s5_write_file no_drivers 1 0 (replicate 8192 CHR ''a'') 8192 s5one = Inr (8192, s')"
    using one_write(1) [of 0 8192 "replicate 8192 CHR ''a''"] by auto
  from s5_read_overruns [OF run _ err_negative one_file one_pages] run show ?thesis
    by (simp add: S5_MAX_FILE_SIZE_def S5_MAX_FILE_BLOCKS_def)
qed

subsection \<open>Directories\<close>

text \<open>Claim C17. \<open>s5_find_dirent\<close> looks a name up in the map that the entries of a directory represent: it
  returns the inode number of the name, or \<open>-ENOENT\<close> when no entry has it, and changes nothing.\<close>

lemma s5_find_looks_up:
  assumes "dir_holds s vn ino ds" and "okname n"
  shows "s5_find_dirent D vn n (length n) s =
    Inr (case entry_map ds n of None \<Rightarrow> - ENOENT | Some i \<Rightarrow> to_off i, s)"
  by (rule find_dirent_looks_up [OF assms])

lemma s5_find_looks_up_witness:
  "s5_find_dirent no_drivers 0 ''f'' 1 s5one = Inr (1, s5one)
   \<and> s5_find_dirent no_drivers 0 ''g'' 1 s5one = Inr (- ENOENT, s5one)"
  using s5_find_looks_up [OF one_dir, of "''f''" no_drivers] s5_find_looks_up [OF one_dir, of "''g''" no_drivers]
  by (simp add: okname_def NAME_LEN_def NUL_def one_map to_off_small)

text \<open>Claim C2. \<open>s5_link\<close> inserts a name into the map of a directory.  When the name is there already it
  returns -1 and changes nothing.  Otherwise, when it returns 0, the directory represents the old
  map with the name mapped to the inode number of the child, whose link count is one higher unless
  the name is \<open>.\<close>.\<close>

lemma s5_link_inserts:
  assumes "s5_link D parent child n (length n) s = Inr (r, s')"
    and "dir_holds s parent pino ds" and "okname n"
    and "bd_err D < 0" and "int (32 * Suc (length ds)) \<le> S5_MAX_FILE_SIZE"
    and "27 \<le> length (bd_garbage D)"
    and "vnodes s child = Some cv" and "s5_number (inodes (fs_data s) (vn_i cv)) < 2 ^ 32"
    and "\<And>i. entry_map ds n = Some i \<Longrightarrow> i < 2 ^ 31"
  shows "if entry_map ds n \<noteq> None then r = -1 \<and> s' = s
    else r = 0 \<longrightarrow> (\<exists>d. dir_holds s' parent pino (ds @ [d])
        \<and> entry_map (ds @ [d]) = (entry_map ds)(n \<mapsto> vn_vno cv)
        \<and> s5_linkcount (inodes (fs_data s') (vn_i cv)) =
           (let c = s5_linkcount (inodes (fs_data s) (vn_i cv)) in if n = ''.'' then c else to_s16 (c + 1)))"
  by (rule link_enters [OF assms])

lemma one_link:
  "\<exists>s'. s5_link no_drivers 0 1 ''g'' (length ''g'') s5one = Inr (0, s')"
proof -
  have L: "has_len s5one 0 0 32" by (simp add: has_len_def)
  have "dirty_range s5one 0 (nat 32 div 4096) ((nat 32 + 32) div 4096)" by (simp add: dirty_range_def)
  moreover have "length (enc32 1 @ name_bytes no_drivers ''g'') = 32"
    by (simp add: name_bytes_def no_drivers_def S5_NAME_LEN_def)
  ultimately obtain s' where w: "s5_write_file no_drivers 0 32 (enc32 1 @ name_bytes no_drivers ''g'') 32 s5one = Inr (32, s')"
    using write_file_total [OF L, of 32 32 "enc32 1 @ name_bytes no_drivers ''g''" no_drivers]
    by (auto simp: S5_MAX_FILE_SIZE_def S5_MAX_FILE_BLOCKS_def)
  have f: "s5_find_dirent no_drivers 0 ''g'' (Suc 0) s5one = Inr (- ENOENT, s5one)"
    using s5_find_looks_up_witness by simp
  show ?thesis using w f
    by (simp add: s5_link_def vn_get_def vn_inode_def len_agrees_def to_u32_def ENOENT_def DIRENT_SIZE_def
        to_off_small name_bytes_def S5_NAME_LEN_def)
qed

lemma s5_link_inserts_witness:
  "\<exists>s' d. s5_link no_drivers 0 1 ''g'' (length ''g'') s5one = Inr (0, s')
     \<and> dir_holds s' 0 0 [one_entry, d] \<and> entry_map [one_entry, d] = [''f'' \<mapsto> 1, ''g'' \<mapsto> 1]"
proof -
  obtain s' where run: "s5_link no_drivers 0 1 ''g'' (length ''g'') s5one = Inr (0, s')" using one_link by blast
  have n: "okname ''g''" by (simp add: okname_def NAME_LEN_def NUL_def)
  have c: "vnodes s5one 1 = Some file_vnode" by simp
  from s5_link_inserts [OF run one_dir n err_negative _ _ c] run show ?thesis
    by (auto simp: one_map S5_MAX_FILE_SIZE_def S5_MAX_FILE_BLOCKS_def no_drivers_def)
qed

text \<open>Claim C4. \<open>s5fs_unlink\<close> deletes a name from the map of a directory.  A name that is not there gives
  \<open>-ENOENT\<close>.  When the call returns 0, the directory represents the old map without the name, and
  is shorter by one entry, also when giving back the vnode of the file freed its inode and pages.\<close>

lemma s5_unlink_deletes:
  assumes run: "s5fs_unlink D vn n (length n) s = Inr (r, s')"
    and dir: "dir_holds s vn ino ds" and "okname n" and "bd_err D < 0"
    and "int (32 * length ds) \<le> S5_MAX_FILE_SIZE" and "distinct (map entry_name ds)"
    and fresh: "vn_fresh s" and ids: "\<forall>b v. vnodes s b = Some v \<longrightarrow> vn_i v = vn_vno v"
    and "entry_map ds n \<noteq> Some ino"
  shows "if entry_map ds n = None then r = - ENOENT
    else r = 0 \<longrightarrow> (\<exists>ds'. dir_holds s' vn ino ds' \<and> entry_map ds' = (entry_map ds)(n := None)
        \<and> length ds' = length ds - 1 \<and> distinct (map entry_name ds'))"
proof -
  from run obtain s1 s2 where l: "vn_lock vn s = Inr s1" and rm: "s5_remove_dirent D vn n (length n) s1 = Inr (r, s2)"
    and s': "s' = vn_unlock vn s2"
    by (auto simp: s5fs_unlink_def bnd_eq_Inr check_eq_Inr)
  have "aside vn ino s s1" using aside_locks(2) [OF l, of vn ino s] by simp
  from dir_holds_aside [OF dir this] have dir1: "dir_holds s1 vn ino ds" .
  have f1: "vn_fresh s1" "\<forall>b v. vnodes s1 b = Some v \<longrightarrow> vn_i v = vn_vno v"
    using l fresh ids by (auto simp: vn_lock_eq vn_fresh_def)
  have "dir_holds s' vn ino ds'" if "dir_holds s2 vn ino ds'" for ds'
    unfolding s' by (rule dir_holds_aside [OF that]) (simp add: aside_locks(1))
  then show ?thesis
    using remove_deletes [OF rm dir1 assms(3-6) f1 assms(9)] by (auto split: if_splits)
qed

lemma one_remove:
  "\<exists>s'. s5fs_unlink no_drivers 0 ''f'' (length ''f'') s5one = Inr (0, s')"
proof -
  let ?s = "fs_upd (\<lambda>fs. fs\<lparr>vn_mutexes := {0}\<rparr>) s5one"
  have d: "dir_holds ?s 0 0 [one_entry]"
    by (rule dir_holds_aside [OF one_dir]) (simp add: aside_def pages_ok_def disk_ok_def)
  have v: "vnodes ?s 0 = Some (s5_root\<lparr>vn_len := 32, vn_refcount := 4, vn_nrespages := 1\<rparr>)" by simp
  have "first_match [one_entry] ''f'' 1 = Some 0"
    by (simp add: one_entry_ok name_match_iff NUL_def)
  then have sc: "scan_dirents (dir_fuel (s5_root\<lparr>vn_len := 32, vn_refcount := 4, vn_nrespages := 1\<rparr>)) no_drivers 0 ''f'' (Suc 0) 0 ?s
      = Inr (Inr (one_entry, 0), ?s)"
    using dir_scan [OF d v, of no_drivers "''f''" 1] by simp
  have lk: "vn_lock 0 s5one = Inr ?s" by (simp add: vn_lock_def)
  have "\<exists>s'. s5_remove_dirent no_drivers 0 ''f'' (Suc 0) ?s = Inr (0, s')"
    using sc
    by (simp add: s5_remove_dirent_def vn_get_def vn_inode_def len_agrees_def to_u32_def S5_NAME_LEN_def
        DIRENT_SIZE_def move_last_def set_size_def one_entry_ok vget_def vref_def vput_def s5_vn_def
        inode_upd_def Let_def)
  then show ?thesis by (auto simp: s5fs_unlink_def lk S5_NAME_LEN_def)
qed

lemma s5_unlink_deletes_witness:
  "\<exists>s' ds'. s5fs_unlink no_drivers 0 ''f'' (length ''f'') s5one = Inr (0, s')
     \<and> dir_holds s' 0 0 ds' \<and> entry_map ds' = Map.empty"
proof -
  obtain s' where run: "s5fs_unlink no_drivers 0 ''f'' (length ''f'') s5one = Inr (0, s')" using one_remove by blast
  have n: "okname ''f''" by (simp add: okname_def NAME_LEN_def NUL_def)
  have fr: "vn_fresh s5one" by (simp add: vn_fresh_def)
  have ids: "\<forall>b v. vnodes s5one b = Some v \<longrightarrow> vn_i v = vn_vno v" by simp
  from s5_unlink_deletes [OF run one_dir n err_negative _ _ fr ids] run show ?thesis
    by (auto simp: one_map S5_MAX_FILE_SIZE_def S5_MAX_FILE_BLOCKS_def)
qed

subsection \<open>Free blocks and inodes\<close>

text \<open>Claim C14. The free blocks of the disk implement a stack, spread over the superblock and the free
  blocks themselves.  \<open>s5_alloc_block\<close> pops it, and returns \<open>-ENOSPC\<close> when it is empty;
  \<open>s5_free_block\<close> pushes a block that was not free.\<close>

lemma s5_blocks_stack:
  assumes "free_list fs xs"
  shows "(case xs of
        [] \<Rightarrow> \<exists>fs'. s5_alloc_block fs = Inr (- ENOSPC, fs') \<and> free_list fs' []
      | b # ys \<Rightarrow> \<exists>fs'. s5_alloc_block fs = Inr (to_off b, fs') \<and> free_list fs' ys)
    \<and> (\<forall>b p. b \<notin> set xs \<longrightarrow> b \<noteq> 0 \<longrightarrow> b < 2 ^ 32 \<longrightarrow> blk fs b = Some p \<longrightarrow> length p = S5_BLOCK_SIZE \<longrightarrow>
        (\<exists>fs'. s5_free_block b fs = Inr fs' \<and> free_list fs' (b # xs)))"
  using assms alloc_pops alloc_empty free_pushes by (auto split: list.split)

lemma small_free: "free_list small_disk [6, 5]"
proof -
  have "take 2 ((replicate S5_NBLKS_PER_FNODE 9)[0 := 5, Suc 0 := 6]) = [5, 6::nat]"
    by (simp add: S5_NBLKS_PER_FNODE_def numeral_eq_Suc)
  moreover have "(replicate S5_NBLKS_PER_FNODE 9)[0 := 5, Suc 0 := 6] ! (S5_NBLKS_PER_FNODE - Suc 0) = (9::nat)"
    by (simp add: S5_NBLKS_PER_FNODE_def)
  ultimately show ?thesis
    by (auto simp: free_list_def super_ok_def small_disk_def small_super_def blk_def
        S5_NBLKS_PER_FNODE_def dest!: set_update_subset_insert [THEN subsetD] intro!: exI [of _ "[]"])
qed

lemma s5_blocks_stack_witness:
  "\<exists>fs'. s5_alloc_block small_disk = Inr (6, fs') \<and> free_list fs' [5]"
  using s5_blocks_stack [OF small_free] by (simp add: to_off_small)

text \<open>\<open>s5_free_inode\<close> gives the data blocks of an inode back, without loss and in order, on top of the
  stack of free blocks, and puts the inode at the head of the list of free inodes; the next
  \<open>s5_alloc_inode\<close> returns this inode, cleared, and restores the list.  The blocks stay free.\<close>

lemma s5_inode_lifo:
  assumes "free_list fs xs" and "length (s5_direct_blocks (inodes fs ino)) = S5_NDIRECT_BLOCKS"
    and "distinct (filter (\<lambda>b. b \<noteq> 0) (s5_direct_blocks (inodes fs ino)))"
    and "\<forall>b\<in>set (s5_direct_blocks (inodes fs ino)). b \<noteq> 0 \<longrightarrow>
      b \<notin> set xs \<and> b < 2 ^ 32 \<and> (\<exists>p. blk fs b = Some p \<and> length p = S5_BLOCK_SIZE)"
    and "s5_indirect_block (inodes fs ino) = 0"
    and ty: "s5_type (inodes fs ino) \<in> {S5_TYPE_DATA, S5_TYPE_DIR, S5_TYPE_CHR, S5_TYPE_BLK}"
    and num: "s5_number (inodes fs ino) = ino" "ino < s5s_num_inodes (s5f_super fs)"
      "s5s_num_inodes (s5f_super fs) < 2 ^ 32"
  shows "\<exists>fs1 fs2. s5_free_inode ino fs = Inr fs1 \<and> s5_type (inodes fs1 ino) = S5_TYPE_FREE
    \<and> free_list fs1 (rev (filter (\<lambda>b. b \<noteq> 0) (s5_direct_blocks (inodes fs ino))) @ xs)
    \<and> s5_alloc_inode S5_TYPE_DATA 0 fs1 = Inr (to_off ino, fs2)
    \<and> free_list fs2 (rev (filter (\<lambda>b. b \<noteq> 0) (s5_direct_blocks (inodes fs ino))) @ xs)
    \<and> s5s_free_inode (s5f_super fs2) = s5s_free_inode (s5f_super fs)
    \<and> s5_direct_blocks (inodes fs2 ino) = replicate S5_NDIRECT_BLOCKS 0 \<and> s5_un (inodes fs2 ino) = 0
    \<and> (\<forall>i. i \<noteq> ino \<longrightarrow> inodes fs2 i = inodes fs i)"
proof -
  from free_inode_frees [OF assms(1-6)] num(1) obtain fs1 where
    f: "s5_free_inode ino fs = Inr fs1" "s5_type (inodes fs1 ino) = S5_TYPE_FREE"
    and fl: "free_list fs1 (rev (filter (\<lambda>b. b \<noteq> 0) (s5_direct_blocks (inodes fs ino))) @ xs)"
    and h: "s5s_free_inode (s5f_super fs1) = ino" "s5s_num_inodes (s5f_super fs1) = s5s_num_inodes (s5f_super fs)"
    and i: "s5_number (inodes fs1 ino) = ino" "s5_un (inodes fs1 ino) = s5s_free_inode (s5f_super fs)"
    and o: "\<forall>i. i \<noteq> ino \<longrightarrow> inodes fs1 i = inodes fs i" by auto
  have m: "\<not> s5f_mutex fs1" using fl by (simp add: free_list_def)
  from alloc_inode_first [OF m h(1) _ _ i(1), of S5_TYPE_DATA 0] num(2,3) h(2) obtain fs2 where
    a: "s5_alloc_inode S5_TYPE_DATA 0 fs1 = Inr (to_off ino, fs2)"
    and s: "\<forall>ys. free_list fs1 ys \<longrightarrow> free_list fs2 ys" "s5s_free_inode (s5f_super fs2) = s5_un (inodes fs1 ino)"
    and n: "inodes fs2 = (inodes fs1)(ino := (inodes fs1 ino)\<lparr>s5_un := 0, s5_type := S5_TYPE_DATA, s5_linkcount := 0,
          s5_direct_blocks := replicate S5_NDIRECT_BLOCKS 0, s5_indirect_block := 0\<rparr>)"
    by (auto simp: S5_TYPE_DATA_def S5_TYPE_CHR_def S5_TYPE_BLK_def)
  have "free_list fs2 (rev (filter (\<lambda>b. b \<noteq> 0) (s5_direct_blocks (inodes fs ino))) @ xs)" using s(1) fl by blast
  with f fl a s(2) i n o show ?thesis by (intro exI [of _ fs1] exI [of _ fs2]) simp
qed

definition used_disk :: s5fs where
  "used_disk = small_disk\<lparr>inodes := small_inode(1 := (small_inode 1)\<lparr>s5_direct_blocks :=
     (replicate S5_NDIRECT_BLOCKS 0)[0 := 7, 1 := 4]\<rparr>)\<rparr>"

lemma s5_inode_lifo_witness:
  "\<exists>fs1 fs2. s5_free_inode 1 used_disk = Inr fs1 \<and> free_list fs1 [4, 7, 6, 5]
     \<and> s5_alloc_inode S5_TYPE_DATA 0 fs1 = Inr (1, fs2) \<and> free_list fs2 [4, 7, 6, 5]"
proof -
  have "free_list used_disk [6, 5]"
    by (rule free_list_cong [OF small_free]) (simp_all add: used_disk_def blk_def fun_eq_iff small_disk_def)
  moreover have b: "s5_direct_blocks (inodes used_disk 1) = 7 # 4 # replicate 26 0"
    by (simp add: used_disk_def S5_NDIRECT_BLOCKS_def numeral_eq_Suc)
  moreover have "blk used_disk 7 = Some zero_page" "blk used_disk 4 = Some zero_page"
    by (simp_all add: used_disk_def blk_def small_disk_def)
  moreover have "s5_indirect_block (inodes used_disk 1) = 0" "s5_type (inodes used_disk 1) = S5_TYPE_DATA"
    "s5_number (inodes used_disk 1) = 1" "s5s_num_inodes (s5f_super used_disk) = 4"
    by (simp_all add: used_disk_def small_disk_def small_inode_def small_super_def)
  moreover have "filter (\<lambda>b. b \<noteq> (0::nat)) (replicate 26 0) = []" by (simp add: filter_replicate)
  moreover have "length zero_page = S5_BLOCK_SIZE" by simp
  ultimately show ?thesis
    using s5_inode_lifo [of used_disk "[6, 5]" 1] by (simp add: S5_NDIRECT_BLOCKS_def to_off_small) blast
qed

text \<open>Claim C16. A block that \<open>s5_seek_to_block\<close> finds or allocates for a position of a file, directly or through the
  indirect block, is the block that it finds there from then on, whether it may allocate or not: after any
  number of seeks in any files and of allocations.  The blocks of all other pages of all files stay.\<close>

lemma s5_seek_stable:
  assumes "map_ok fs xs" and "regular fs ino" and "0 \<le> off"
    and "s5_seek_to_block D ino off alloc fs = Inr (n, fs1)" and "0 < n" and "seeks D fs1 fs2"
  shows "(\<exists>fs3. s5_seek_to_block D ino off alloc' fs2 = Inr (n, fs3))
    \<and> (\<forall>i b. regular fs i \<longrightarrow> b < S5_MAX_FILE_BLOCKS \<longrightarrow> (i, b) \<noteq> (ino, nat off div S5_BLOCK_SIZE) \<longrightarrow>
        block_at fs1 i b = block_at fs i b)"
  using seek_stays [OF assms] by blast

lemma small_map: "map_ok small_disk [6, 5]"
  using small_free by (auto simp: map_ok_def small_disk_def small_inode_def blk_def split: if_splits)

lemma s5_seek_stable_witness:
  "\<exists>fs1 r fs2 fs3. s5_seek_to_block no_drivers 1 (4096 * 30) True small_disk = Inr (5, fs1)
     \<and> s5_seek_to_block no_drivers 0 0 True fs1 = Inr (r, fs2)
     \<and> s5_seek_to_block no_drivers 1 (4096 * 30) True fs2 = Inr (5, fs3)"
proof -
  have z: "get32 zero_page 2 = 0" by (rule get32_zero) (simp add: S5_BLOCK_SIZE_def)
  have "\<exists>fs1. s5_seek_to_block no_drivers 1 (4096 * 30) True small_disk = Inr (5, fs1)"
    by (simp add: s5_seek_to_block_def s5_sizes indirect_page_def s5_alloc_block_def lock_s5_def small_disk_def
        small_inode_def small_super_def Let_def bd_get_def bd_set_def inode_upd_def super_upd_def unlock_s5_def
        to_off_small S5_SUPER_BLOCK_def z)
  then obtain fs1 where run: "s5_seek_to_block no_drivers 1 (4096 * 30) True small_disk = Inr (5, fs1)" by blast
  have reg: "regular small_disk 1" "regular small_disk 0" by (simp_all add: regular_def small_disk_def small_inode_def s5_types)
  have off: "(0 :: int) \<le> 4096 * 30" by simp
  from seek_grows [OF small_map reg(1) off run] reg obtain ys where ys: "map_ok fs1 ys" and g: "regular fs1 0"
    by (auto simp: map_grows_def)
  have "nat 0 div S5_BLOCK_SIZE < S5_MAX_FILE_BLOCKS" by (simp add: s5_sizes)
  from seek_spec [OF ys g order_refl this, of no_drivers True] obtain r fs2 where
    other: "s5_seek_to_block no_drivers 0 0 True fs1 = Inr (r, fs2)" by auto
  have "seeks no_drivers fs1 fs2" by (rule seeks_seek [OF seeks_none g order_refl other])
  from s5_seek_stable [OF small_map reg(1) off run _ this, of True] run other show ?thesis by auto
qed

end
