(* ===== verification/Slist.thy ===== *)
theory Slist
  imports Prelude
begin

text \<open>
  Singly linked lists in memory: \<open>sll nx p xs\<close> says that from the pointer \<open>p\<close> the links \<open>nx\<close> lead
  through exactly \<open>xs\<close> to NULL, and \<open>sq nx h t xs\<close> that head and tail pointers delimit such a list.
  The interface \<open>fifo\<close> of a first-in first-out store follows.
\<close>

fun sll :: "('a \<Rightarrow> 'a option) \<Rightarrow> 'a option \<Rightarrow> 'a list \<Rightarrow> bool" where
  "sll nx p [] \<longleftrightarrow> p = None"
| "sll nx p (x # xs) \<longleftrightarrow> p = Some x \<and> sll nx (nx x) xs"

lemma sll_None [simp]: "sll nx None xs \<longleftrightarrow> xs = []"
  by (cases xs) auto

lemma sll_Some: "sll nx (Some x) xs \<longleftrightarrow> (\<exists>ys. xs = x # ys \<and> sll nx (nx x) ys)"
  by (cases xs) auto

lemma sll_unique: "sll nx p xs \<Longrightarrow> sll nx p ys \<Longrightarrow> xs = ys"
  by (induction xs arbitrary: p ys) (auto simp: sll_Some)

lemma sll_frame: "(\<And>x. x \<in> set xs \<Longrightarrow> nx' x = nx x) \<Longrightarrow> sll nx' p xs = sll nx p xs"
  by (induction xs arbitrary: p) auto

lemma sll_at: "sll nx p (xs @ y # ys) \<Longrightarrow> sll nx (nx y) ys"
  by (induction xs arbitrary: p) auto

lemma sll_from: "sll nx p (xs @ y # ys) \<Longrightarrow> sll nx (Some y) (y # ys)"
  using sll_at [of nx p xs y ys] by simp

lemma sll_distinct: "sll nx p xs \<Longrightarrow> distinct xs"
proof (induction xs arbitrary: p)
  case (Cons x xs)
  have "x \<notin> set xs"
  proof
    assume "x \<in> set xs"
    then obtain ys zs where xs: "xs = ys @ x # zs" by (rule in_set_splitE)
    have "sll nx (nx x) (ys @ x # zs)" using Cons.prems by (simp add: xs)
    then have "sll nx (nx x) zs" by (rule sll_at)
    with \<open>sll nx (nx x) (ys @ x # zs)\<close> have "ys @ x # zs = zs" by (rule sll_unique)
    then have "length (ys @ x # zs) = length zs" by (rule arg_cong)
    then show False by simp
  qed
  then show ?case using Cons by auto
qed simp

lemma sll_last: "sll nx p xs \<Longrightarrow> xs \<noteq> [] \<Longrightarrow> nx (last xs) = None"
  by (induction xs arbitrary: p) (auto split: if_splits)

lemma sll_snoc_upd:
  "sll nx p xs \<Longrightarrow> xs \<noteq> [] \<Longrightarrow> c \<notin> set xs \<Longrightarrow> nx c = None \<Longrightarrow> sll (nx(last xs := Some c)) p (xs @ [c])"
proof (induction xs arbitrary: p)
  case (Cons x xs)
  have d: "distinct (x # xs)" using Cons.prems(1) by (rule sll_distinct)
  show ?case
  proof (cases "xs = []")
    case False
    then have "x \<noteq> last xs" using d by auto
    then show ?thesis using Cons False by simp
  qed (use Cons.prems in simp)
qed simp

lemma sll_unlink:
  assumes "sll nx p (xs @ a # c # ys)"
  shows "sll (nx(a := nx c)) p (xs @ a # ys)"
proof -
  have d: "distinct (xs @ a # c # ys)" using assms by (rule sll_distinct)
  have c: "sll nx (nx c) ys" using sll_at [of nx p "xs @ [a]" c ys] assms by simp
  have "sll (nx(a := nx c)) (nx c) ys" using c d by (subst sll_frame [where nx = nx]) auto
  then show ?thesis using assms d
  proof (induction xs arbitrary: p)
    case (Cons x xs)
    then show ?case by auto
  qed simp
qed

definition sq :: "('a \<Rightarrow> 'a option) \<Rightarrow> 'a option \<Rightarrow> 'a option \<Rightarrow> 'a list \<Rightarrow> bool" where
  "sq nx h t xs \<longleftrightarrow> sll nx h xs \<and> t = (if xs = [] then None else Some (last xs))"

lemma sq_Nil [simp]: "sq nx h t [] \<longleftrightarrow> h = None \<and> t = None"
  by (auto simp: sq_def)

lemma sq_frame:
  assumes "\<And>x. x \<in> set xs \<Longrightarrow> nx' x = nx x"
  shows "sq nx' h t xs = sq nx h t xs"
proof -
  have "sll nx' h xs = sll nx h xs" by (rule sll_frame) (rule assms)
  then show ?thesis by (simp only: sq_def)
qed

lemma sq_unique: "sq nx h t xs \<Longrightarrow> sq nx h u ys \<Longrightarrow> xs = ys"
  unfolding sq_def by (elim conjE) (rule sll_unique)

lemma sq_distinct: "sq nx h t xs \<Longrightarrow> distinct xs"
  unfolding sq_def by (elim conjE) (rule sll_distinct)

lemma sq_head: "sq nx h t xs \<Longrightarrow> h = (case xs of [] \<Rightarrow> None | x # _ \<Rightarrow> Some x)"
  by (cases xs) (simp_all add: sq_def)

lemma sq_tail_next: "sq nx h (Some x) xs \<Longrightarrow> nx x = None"
  using sll_last [of nx h xs] by (cases "xs = []") (simp_all add: sq_def)

lemma sq_push:
  assumes "sq nx h t xs" and "c \<notin> set xs" and "nx c = None"
  shows "t = None \<Longrightarrow> sq nx (Some c) (Some c) (xs @ [c])"
    and "t = Some l \<Longrightarrow> sq (nx(l := Some c)) h (Some c) (xs @ [c])"
proof -
  show "sq nx (Some c) (Some c) (xs @ [c])" if "t = None"
    using assms(1,3) that by (cases xs) (auto simp: sq_def)
  assume t: "t = Some l"
  then have ne: "xs \<noteq> []" and l: "l = last xs" and sll: "sll nx h xs"
    using assms(1) by (auto simp: sq_def split: if_splits)
  show "sq (nx(l := Some c)) h (Some c) (xs @ [c])"
    using sll_snoc_upd [OF sll ne assms(2,3)] by (simp add: sq_def l)
qed

lemma sq_pop:
  assumes "sq nx (Some x) t xs"
  shows "\<exists>ys. xs = x # ys \<and> sq nx (nx x) (if nx x = None then None else t) ys"
proof -
  obtain ys where ys: "xs = x # ys" "sll nx (nx x) ys" using assms by (auto simp: sq_def sll_Some)
  then show ?thesis using assms by (cases ys) (auto simp: sq_def)
qed

subsection \<open>First in, first out\<close>

fun push_all :: "('v \<Rightarrow> 's \<Rightarrow> 'e + 's) \<Rightarrow> 'v list \<Rightarrow> 's \<Rightarrow> 'e + 's" where
  "push_all enq [] s = Inr s"
| "push_all enq (v # vs) s = bnd (enq v s) (push_all enq vs)"

fun pop_all :: "('s \<Rightarrow> 'e + ('v \<times> 's)) \<Rightarrow> nat \<Rightarrow> 's \<Rightarrow> 'e + ('v list \<times> 's)" where
  "pop_all deq 0 s = Inr ([], s)"
| "pop_all deq (Suc n) s = bnd (deq s) (\<lambda>(v, s). bnd (pop_all deq n s) (\<lambda>(vs, s). Inr (v # vs, s)))"

text \<open>A provider promises that it stores a sequence; its clients put in at one end and take out at the
  other.\<close>

locale fifo =
  fixes rep :: "'s \<Rightarrow> 'v list \<Rightarrow> bool"
    and enq :: "'v \<Rightarrow> 's \<Rightarrow> 'e + 's"
    and deq :: "'s \<Rightarrow> 'e + ('v \<times> 's)"
  assumes enq_rep: "rep s xs \<Longrightarrow> \<exists>s'. enq v s = Inr s' \<and> rep s' (xs @ [v])"
    and deq_rep: "rep s (v # xs) \<Longrightarrow> \<exists>s'. deq s = Inr (v, s') \<and> rep s' xs"
begin

lemma push_all_rep: "rep s xs \<Longrightarrow> \<exists>s'. push_all enq vs s = Inr s' \<and> rep s' (xs @ vs)"
proof (induction vs arbitrary: s xs)
  case (Cons v vs)
  from enq_rep [OF Cons.prems, of v] obtain s1 where s1: "enq v s = Inr s1" "rep s1 (xs @ [v])" by blast
  from Cons.IH [OF s1(2)] s1(1) show ?case by simp
qed simp

lemma pop_all_rep: "rep s (vs @ xs) \<Longrightarrow> \<exists>s'. pop_all deq (length vs) s = Inr (vs, s') \<and> rep s' xs"
proof (induction vs arbitrary: s)
  case (Cons v vs)
  from Cons.prems have "rep s (v # (vs @ xs))" by simp
  from deq_rep [OF this] obtain s1 where s1: "deq s = Inr (v, s1)" "rep s1 (vs @ xs)" by blast
  from Cons.IH [OF s1(2)] s1(1) show ?case by auto
qed simp

lemma first_in_first_out:
  assumes "rep s xs"
  shows "\<exists>s1 s2. push_all enq vs s = Inr s1 \<and> pop_all deq (length xs + length vs) s1 = Inr (xs @ vs, s2)
    \<and> rep s2 []"
proof -
  from push_all_rep [OF assms] obtain s1 where s1: "push_all enq vs s = Inr s1" "rep s1 ((xs @ vs) @ [])"
    by auto
  from pop_all_rep [OF s1(2)] s1(1) show ?thesis by auto
qed

end

end
