(* ===== verification/Snqueue.thy ===== *)
theory Snqueue
  imports Slist
begin

text \<open>
  The queue of commands of the Snowcast client, \<open>command_queue.c\<close>.  \<open>cq_nodes\<close> is the memory of the
  nodes, \<open>malloc\<close> returns the address \<open>cq_fresh\<close> and is taken to succeed.
\<close>

datatype snfault =
    Assertion     \<comment> \<open>a failed \<open>assert\<close>\<close>
  | Null_access   \<comment> \<open>an access through a NULL pointer\<close>
  | Freed_access  \<comment> \<open>an access to memory that was freed\<close>
  | Index_error   \<comment> \<open>an access outside an array\<close>
  | Overrun       \<comment> \<open>a string that does not fit its buffer\<close>
  | Endless       \<comment> \<open>a loop that does not end\<close>
  | Waits         \<comment> \<open>a call that waits for input\<close>
  | Stopped int   \<comment> \<open>\<open>exit\<close>\<close>
  | Mutex_misuse  \<comment> \<open>a lock of a destroyed mutex, or an unlock of a mutex that is not held\<close>
  | Bad_result    \<comment> \<open>the network returned what its documentation excludes\<close>

record qnode =
  q_next :: "nat option"
  q_cmd :: "8 word"

record cqueue =
  cq_nodes :: "nat \<rightharpoonup> qnode"
  cq_fresh :: nat
  cq_head :: "nat option"
  cq_tail :: "nat option"
  cq_size :: int

definition command_queue_init :: "cqueue \<Rightarrow> cqueue" where
  "command_queue_init q = q\<lparr>cq_head := None, cq_tail := None, cq_size := 0\<rparr>"

definition command_queue_empty :: "cqueue \<Rightarrow> bool" where
  "command_queue_empty q \<longleftrightarrow> cq_size q = 0 \<and> cq_head q = cq_tail q \<and> cq_head q = None"

definition new_qnode :: "8 word \<Rightarrow> cqueue \<Rightarrow> cqueue" where
  "new_qnode cmd q = q\<lparr>cq_nodes := (cq_nodes q)(cq_fresh q \<mapsto> \<lparr>q_next = None, q_cmd = cmd\<rparr>),
     cq_fresh := Suc (cq_fresh q)\<rparr>"

definition command_queue_enqueue :: "8 word \<Rightarrow> cqueue \<Rightarrow> snfault + cqueue" where
  "command_queue_enqueue cmd q =
     (if command_queue_empty q then
        Inr ((new_qnode cmd q)\<lparr>cq_head := Some (cq_fresh q), cq_tail := Some (cq_fresh q),
               cq_size := cq_size q + 1\<rparr>)
      else
        deref (cq_tail q) Null_access (\<lambda>t.
        deref (cq_nodes q t) Freed_access (\<lambda>n.
        let new = cq_fresh q; q = new_qnode cmd q in
        Inr (q\<lparr>cq_nodes := (cq_nodes q)(t \<mapsto> n\<lparr>q_next := Some new\<rparr>), cq_tail := Some new,
               cq_size := cq_size q + 1\<rparr>))))"

text \<open>The error value \<open>-1\<close> of an empty queue is 255 as a \<open>uint8_t\<close>.\<close>

definition command_queue_dequeue :: "cqueue \<Rightarrow> snfault + (8 word \<times> cqueue)" where
  "command_queue_dequeue q =
     (if command_queue_empty q then Inr (-1, q)
      else
        deref (cq_head q) Null_access (\<lambda>h.
        deref (cq_nodes q h) Freed_access (\<lambda>n.
        let q = q\<lparr>cq_head := q_next n, cq_nodes := (cq_nodes q)(h := None), cq_size := cq_size q - 1\<rparr> in
        Inr (q_cmd n, if cq_head q = None then q\<lparr>cq_tail := None\<rparr> else q))))"

definition command_queue_head :: "cqueue \<Rightarrow> snfault + 8 word" where
  "command_queue_head q =
     (if command_queue_empty q then Inr (-1)
      else
        deref (cq_head q) Null_access (\<lambda>h.
        deref (cq_nodes q h) Freed_access (\<lambda>n. Inr (q_cmd n))))"

text \<open>Each round of \<open>free_queue\<close> frees a node, so that more rounds than addresses were handed out never
  run.\<close>

fun free_nodes :: "nat \<Rightarrow> cqueue \<Rightarrow> snfault + cqueue" where
  "free_nodes 0 q = Inl Endless"
| "free_nodes (Suc fuel) q =
     (if command_queue_empty q then Inr q
      else
        deref (cq_head q) Null_access (\<lambda>h.
        deref (cq_nodes q h) Freed_access (\<lambda>n.
        let q = q\<lparr>cq_head := q_next n, cq_nodes := (cq_nodes q)(h := None)\<rparr>;
            q = (if cq_head q = None then q\<lparr>cq_tail := None\<rparr> else q) in
        free_nodes fuel (q\<lparr>cq_size := cq_size q - 1\<rparr>))))"

definition free_queue :: "cqueue \<Rightarrow> snfault + cqueue" where
  "free_queue q = free_nodes (Suc (cq_fresh q)) q"

subsection \<open>The queue is first in, first out\<close>

definition q_link :: "cqueue \<Rightarrow> nat \<Rightarrow> nat option" where
  "q_link q a = (case cq_nodes q a of None \<Rightarrow> None | Some n \<Rightarrow> q_next n)"

text \<open>The nodes \<open>as\<close> hold the commands \<open>cs\<close>.\<close>

definition q_holds :: "cqueue \<Rightarrow> nat list \<Rightarrow> 8 word list \<Rightarrow> bool" where
  "q_holds q as cs \<longleftrightarrow> sq (q_link q) (cq_head q) (cq_tail q) as \<and> cq_size q = int (length as)
     \<and> (\<forall>a. cq_fresh q \<le> a \<longrightarrow> cq_nodes q a = None)
     \<and> list_all2 (\<lambda>a c. \<exists>n. cq_nodes q a = Some n \<and> q_cmd n = c) as cs"

definition q_rep :: "cqueue \<Rightarrow> 8 word list \<Rightarrow> bool" where
  "q_rep q cs \<longleftrightarrow> (\<exists>as. q_holds q as cs)"

lemma q_rep_init: "(\<forall>a. cq_fresh q \<le> a \<longrightarrow> cq_nodes q a = None) \<Longrightarrow> q_rep (command_queue_init q) []"
  unfolding q_rep_def q_holds_def command_queue_init_def by (intro exI [of _ "[]"]) simp

lemma q_empty:
  assumes "q_holds q as cs"
  shows "command_queue_empty q \<longleftrightarrow> cs = []" and "length as = length cs"
proof -
  show l: "length as = length cs" using assms by (auto simp: q_holds_def dest: list_all2_lengthD)
  show "command_queue_empty q \<longleftrightarrow> cs = []"
    using assms l by (cases as) (auto simp: q_holds_def command_queue_empty_def)
qed

lemma q_live: "q_holds q as cs \<Longrightarrow> a \<in> set as \<Longrightarrow> \<exists>n. cq_nodes q a = Some n \<and> a < cq_fresh q"
  by (force simp: q_holds_def list_all2_conv_all_nth in_set_conv_nth not_le [symmetric])

lemma enqueue_rep:
  assumes "q_rep q cs"
  shows "\<exists>q'. command_queue_enqueue c q = Inr q' \<and> q_rep q' (cs @ [c])"
proof -
  obtain as where h: "q_holds q as cs" using assms by (auto simp: q_rep_def)
  let ?a = "cq_fresh q"
  have fresh: "?a \<notin> set as" "cq_nodes q ?a = None" using q_live [OF h] h by (auto simp: q_holds_def)
  have s: "sq (q_link q) (cq_head q) (cq_tail q) as" "q_link q ?a = None"
    using h fresh by (simp_all add: q_holds_def q_link_def)
  show ?thesis
  proof (cases "as = []")
    case True
    let ?q = "(new_qnode c q)\<lparr>cq_head := Some ?a, cq_tail := Some ?a, cq_size := cq_size q + 1\<rparr>"
    have "command_queue_enqueue c q = Inr ?q"
      using q_empty [OF h] True by (simp add: command_queue_enqueue_def)
    moreover have "q_holds ?q [?a] (cs @ [c])"
      using h True by (auto simp: q_holds_def new_qnode_def q_link_def sq_def)
    ultimately show ?thesis by (auto simp: q_rep_def)
  next
    case False
    then have t: "cq_tail q = Some (last as)" using s by (simp add: sq_def)
    from q_live [OF h, of "last as"] False obtain n where n: "cq_nodes q (last as) = Some n" "last as < ?a" by auto
    let ?q = "(new_qnode c q)\<lparr>cq_nodes := (cq_nodes (new_qnode c q))(last as \<mapsto> n\<lparr>q_next := Some ?a\<rparr>),
                cq_tail := Some ?a, cq_size := cq_size q + 1\<rparr>"
    have "command_queue_enqueue c q = Inr ?q"
      using q_empty [OF h] False t n by (auto simp: command_queue_enqueue_def Let_def new_qnode_def)
    moreover have "q_holds ?q (as @ [?a]) (cs @ [c])"
    proof -
      have "q_link ?q = (q_link q)(last as := Some ?a)"
        using n fresh by (auto simp: q_link_def new_qnode_def fun_eq_iff)
      then have "sq (q_link ?q) (cq_head q) (Some ?a) (as @ [?a])"
        using sq_push(2) [OF s(1) fresh(1) s(2) t] by simp
      moreover have "list_all2 (\<lambda>a c. \<exists>n. cq_nodes ?q a = Some n \<and> q_cmd n = c) as cs"
        using h n fresh unfolding q_holds_def by (auto simp: new_qnode_def elim!: list.rel_mono_strong)
      ultimately show ?thesis
        using h n by (auto simp: q_holds_def new_qnode_def list_all2_appendI)
    qed
    ultimately show ?thesis by (auto simp: q_rep_def)
  qed
qed

lemma dequeue_rep:
  assumes "q_rep q (c # cs)"
  shows "\<exists>q'. command_queue_dequeue q = Inr (c, q') \<and> q_rep q' cs"
proof -
  obtain as0 where h: "q_holds q as0 (c # cs)" using assms by (auto simp: q_rep_def)
  then obtain a as where as0: "as0 = a # as" by (auto simp: q_holds_def list_all2_Cons2)
  from h as0 obtain n where n: "cq_nodes q a = Some n" "q_cmd n = c" by (auto simp: q_holds_def)
  have s: "sq (q_link q) (Some a) (cq_tail q) (a # as)" and hd: "cq_head q = Some a"
    using h as0 by (auto simp: q_holds_def sq_def)
  have d: "a \<notin> set as" using sq_distinct [OF s] by simp
  have nx: "q_link q a = q_next n" using n by (simp add: q_link_def)
  let ?q = "q\<lparr>cq_head := q_next n, cq_nodes := (cq_nodes q)(a := None), cq_size := cq_size q - 1,
     cq_tail := (if q_next n = None then None else cq_tail q)\<rparr>"
  have "command_queue_dequeue q = Inr (c, ?q)"
    using q_empty [OF h] hd n by (auto simp: command_queue_dequeue_def Let_def)
  moreover have "q_holds ?q as cs"
  proof -
    have "sq (q_link q) (q_next n) (if q_next n = None then None else cq_tail q) as"
      using sq_pop [OF s] nx by auto
    then have "sq (q_link ?q) (q_next n) (if q_next n = None then None else cq_tail q) as"
      using d by (subst sq_frame [where nx = "q_link q"]) (auto simp: q_link_def)
    moreover have "list_all2 (\<lambda>a c. \<exists>n. cq_nodes ?q a = Some n \<and> q_cmd n = c) as cs"
      using h d unfolding q_holds_def as0 by (auto elim!: list.rel_mono_strong)
    ultimately show ?thesis using h as0 by (auto simp: q_holds_def)
  qed
  ultimately show ?thesis by (auto simp: q_rep_def)
qed

interpretation cmdq: fifo q_rep command_queue_enqueue command_queue_dequeue
  by unfold_locales (rule enqueue_rep dequeue_rep, assumption)+

lemma head_rep:
  assumes "q_rep q cs"
  shows "command_queue_head q = Inr (case cs of [] \<Rightarrow> -1 | c # _ \<Rightarrow> c)"
proof (cases cs)
  case (Cons c ds)
  with dequeue_rep [of q c ds] assms obtain q' where d: "command_queue_dequeue q = Inr (c, q')" by auto
  have "\<not> command_queue_empty q" using assms Cons by (auto simp: q_rep_def q_empty)
  with d Cons show ?thesis
    by (auto simp: command_queue_dequeue_def command_queue_head_def Let_def deref_eq_Inr)
qed (use assms in \<open>auto simp: q_rep_def q_empty command_queue_head_def\<close>)

lemma dequeue_empty: "q_rep q [] \<Longrightarrow> command_queue_dequeue q = Inr (-1, q)"
  by (auto simp: q_rep_def command_queue_dequeue_def q_empty)

text \<open>\<open>free_queue\<close> ends and frees all nodes.\<close>

lemma tail_size: "q\<lparr>cq_size := n, cq_tail := t\<rparr> = q\<lparr>cq_tail := t, cq_size := n\<rparr>"
  by simp

lemma free_nodes_all:
  "q_rep q cs \<Longrightarrow> length cs < fuel \<Longrightarrow> \<exists>q'. free_nodes fuel q = Inr q' \<and> q_rep q' []"
proof (induction fuel arbitrary: q cs)
  case (Suc fuel)
  show ?case
  proof (cases cs)
    case Nil
    then show ?thesis using Suc.prems(1) by (auto simp: q_rep_def q_empty)
  next
    case (Cons c ds)
    have ne: "\<not> command_queue_empty q" using Suc.prems(1) Cons by (auto simp: q_rep_def q_empty)
    from dequeue_rep [of q c ds] Suc.prems(1) Cons obtain q' where
      q': "command_queue_dequeue q = Inr (c, q')" "q_rep q' ds" by auto
    from q'(1) ne have "free_nodes (Suc fuel) q = free_nodes fuel q'"
      by (auto simp: command_queue_dequeue_def Let_def deref_eq_Inr tail_size)
    with Suc.IH [OF q'(2)] Suc.prems(2) Cons show ?thesis by simp
  qed
qed simp

lemma free_queue_all:
  assumes "q_rep q cs"
  shows "\<exists>q'. free_queue q = Inr q' \<and> q_rep q' []"
proof -
  obtain as where h: "q_holds q as cs" using assms by (auto simp: q_rep_def)
  have "set as \<subseteq> {..<cq_fresh q}" using q_live [OF h] by auto
  then have "card (set as) \<le> cq_fresh q" using card_mono [of "{..<cq_fresh q}" "set as"] by simp
  moreover have "distinct as" using h by (auto simp: q_holds_def dest: sq_distinct)
  ultimately have "length cs < Suc (cq_fresh q)" using q_empty(2) [OF h] by (simp add: distinct_card)
  from free_nodes_all [OF assms this] show ?thesis by (simp add: free_queue_def)
qed

end
