(* ===== verification/Snbase.thy ===== *)
theory Snbase
  imports Snqueue
begin

text \<open>
  The Snowcast server, \<open>snowcast_server.c\<close>: its data and the messages it sends.  The network is the
  record \<open>snet\<close>: \<open>n_send\<close> is the result of \<open>send\<close> and \<open>n_udp\<close> that of \<open>getaddrinfo\<close> and \<open>socket\<close>, both
  depend on everything that was sent before.  \<open>sn_log\<close> lists what the server did to the network, the
  newest event first.  \<open>malloc\<close> is taken to succeed.
\<close>

subsection \<open>Constants and data\<close>

definition CMD_HELLO :: nat where "CMD_HELLO = 0"
definition CMD_SETSTATION :: nat where "CMD_SETSTATION = 1"
definition CMD_REQUEST :: nat where "CMD_REQUEST = 2"
definition MSG_WELCOME :: nat where "MSG_WELCOME = 0"
definition MSG_ANNOUNCE :: nat where "MSG_ANNOUNCE = 1"
definition MSG_INVALID :: nat where "MSG_INVALID = 2"
definition TYPE_ALL :: nat where "TYPE_ALL = 0"
definition TYPE_CURRENT :: nat where "TYPE_CURRENT = 1"
definition TYPE_ALL_STATION :: nat where "TYPE_ALL_STATION = 2"
definition MAX_STATION_NUM :: nat where "MAX_STATION_NUM = 8"
definition MAX_STATION_SONG_NUM :: nat where "MAX_STATION_SONG_NUM = 10"
definition MAX_TOKENS :: nat where "MAX_TOKENS = 10"
definition BUF_SIZE :: nat where "BUF_SIZE = 1024"
definition MAX_CLIENT_NUM :: nat where "MAX_CLIENT_NUM = 10"

datatype cl_state = NO_STATE | INIT_STATE | HANDSHAKED

text \<open>What \<open>ip_address\<close> points to: nothing, the buffer \<open>remoteIP\<close> that all clients share, or the
  constant \<open>127.0.0.1\<close>.\<close>

datatype ip_ref = No_ip | Remote_ip | Local_ip

record clientinfo =
  c_state :: cl_state
  c_socket :: nat
  c_ip :: ip_ref
  c_udp_port :: nat
  c_udp_sock :: nat
  c_udp_addr :: "nat option"
  c_station :: "nat option"
  c_next :: "nat option"

definition zero_client :: clientinfo where
  "zero_client = \<lparr>c_state = NO_STATE, c_socket = 0, c_ip = No_ip, c_udp_port = 0, c_udp_sock = 0,
     c_udp_addr = None, c_station = None, c_next = None\<rparr>"

text \<open>\<open>st_songs\<close> is the used part of \<open>songs\<close>, \<open>st_head\<close>, \<open>st_tail\<close> and \<open>st_count\<close> are \<open>connected_clients\<close>,
  \<open>st_sender\<close> says that the thread runs, and \<open>st_song\<close> is its local \<open>song_counter\<close>.\<close>

record station =
  st_songs :: "string list"
  st_cur :: "string option"
  st_next :: "nat option"
  st_sender :: bool
  st_id :: nat
  st_head :: "nat option"
  st_tail :: "nat option"
  st_count :: int
  st_song :: nat

datatype snev = Sent nat string | Datagram nat nat string | Shut nat

text \<open>The globals of the server: the clients, the memory of the stations and their list with its mutex
  (\<open>sl_alive\<close> until it is destroyed), \<open>remoteIP\<close>, the descriptors in \<open>master\<close> and those that are open.\<close>

record snow =
  clients :: "nat \<Rightarrow> clientinfo"
  stations :: "nat \<rightharpoonup> station"
  fresh_station :: nat
  sl_head :: "nat option"
  sl_tail :: "nat option"
  sl_count :: int
  sl_alive :: bool
  remote_ip :: string
  master :: "nat set"
  open_fds :: "nat set"
  sn_log :: "snev list"

record snet =
  n_send :: "snev list \<Rightarrow> nat \<Rightarrow> string \<Rightarrow> int"
  n_udp :: "snev list \<Rightarrow> nat \<Rightarrow> (nat \<times> nat) option"

definition upd_cl :: "nat \<Rightarrow> (clientinfo \<Rightarrow> clientinfo) \<Rightarrow> snow \<Rightarrow> snow" where
  "upd_cl i f s = s\<lparr>clients := (clients s)(i := f (clients s i))\<rparr>"

definition upd_st :: "nat \<Rightarrow> (station \<Rightarrow> station) \<Rightarrow> snow \<Rightarrow> snow" where
  "upd_st a f s = s\<lparr>stations := (stations s)(a := map_option f (stations s a))\<rparr>"

definition logged :: "snev \<Rightarrow> snow \<Rightarrow> snow" where
  "logged e s = s\<lparr>sn_log := e # sn_log s\<rparr>"

lemma upd_cl_simps [simp]:
  "clients (upd_cl i f s) j = (if j = i then f (clients s i) else clients s j)"
  "stations (upd_cl i f s) = stations s" "fresh_station (upd_cl i f s) = fresh_station s"
  "sl_head (upd_cl i f s) = sl_head s" "sl_tail (upd_cl i f s) = sl_tail s" "sl_count (upd_cl i f s) = sl_count s"
  "sl_alive (upd_cl i f s) = sl_alive s" "remote_ip (upd_cl i f s) = remote_ip s" "master (upd_cl i f s) = master s"
  "open_fds (upd_cl i f s) = open_fds s" "sn_log (upd_cl i f s) = sn_log s"
  by (simp_all add: upd_cl_def)

lemma upd_st_simps [simp]:
  "stations (upd_st a f s) b = (if b = a then map_option f (stations s a) else stations s b)"
  "clients (upd_st a f s) = clients s" "fresh_station (upd_st a f s) = fresh_station s"
  "sl_head (upd_st a f s) = sl_head s" "sl_tail (upd_st a f s) = sl_tail s" "sl_count (upd_st a f s) = sl_count s"
  "sl_alive (upd_st a f s) = sl_alive s" "remote_ip (upd_st a f s) = remote_ip s" "master (upd_st a f s) = master s"
  "open_fds (upd_st a f s) = open_fds s" "sn_log (upd_st a f s) = sn_log s"
  by (simp_all add: upd_st_def)

lemma logged_simps [simp]:
  "clients (logged e s) = clients s" "stations (logged e s) = stations s" "fresh_station (logged e s) = fresh_station s"
  "sl_head (logged e s) = sl_head s" "sl_tail (logged e s) = sl_tail s" "sl_count (logged e s) = sl_count s"
  "sl_alive (logged e s) = sl_alive s" "remote_ip (logged e s) = remote_ip s" "master (logged e s) = master s"
  "open_fds (logged e s) = open_fds s" "sn_log (logged e s) = e # sn_log s"
  by (simp_all add: logged_def)

subsection \<open>Messages\<close>

lemma check_cong [fundef_cong]:
  "b = b' \<Longrightarrow> (b' \<Longrightarrow> m = m') \<Longrightarrow> check b e m = check b' e m'"
  by (simp add: check_def)

text \<open>\<open>send\<close> returns \<open>-1\<close> or the number of bytes it took, at least one.  With nothing to send the code
  tests a variable it never set.\<close>

function send_loop :: "snet \<Rightarrow> nat \<Rightarrow> string \<Rightarrow> snev list \<Rightarrow> snfault + (int \<times> snev list)" where
  "send_loop N s buf log =
     (if buf = [] then Inr (0, log)
      else
        let n = n_send N log s buf in
        if n = -1 then Inr (-1, log)
        else
          check (0 < n \<and> n \<le> int (length buf)) Bad_result (
          send_loop N s (drop (nat n) buf) (Sent s (take (nat n) buf) # log)))"
  by pat_completeness auto
termination by (relation "measure (\<lambda>(N, s, buf, log). length buf)") auto

declare send_loop.simps [simp del]

definition send_all :: "snet \<Rightarrow> nat \<Rightarrow> string \<Rightarrow> snow \<Rightarrow> snfault + (int \<times> snow)" where
  "send_all N s buf w =
     check (buf \<noteq> []) Bad_result (
     bnd (send_loop N s buf (sn_log w)) (\<lambda>(r, log). Inr (r, w\<lparr>sn_log := log\<rparr>)))"

text \<open>A message: its type, the length of its text as a \<open>uint8_t\<close>, the text and a newline.\<close>

definition text_message :: "nat \<Rightarrow> string \<Rightarrow> string" where
  "text_message typ message = char_of typ # char_of (length message) # message @ ''\<newline>''"

definition send_invalid_command :: "snet \<Rightarrow> nat \<Rightarrow> string \<Rightarrow> snow \<Rightarrow> snfault + (int \<times> snow)" where
  "send_invalid_command N s err_message w =
     bnd (send_all N s (text_message MSG_INVALID err_message) w) (\<lambda>(r, w).
     Inr (if r = -1 then -1 else 0, w))"

definition send_announce :: "snet \<Rightarrow> nat \<Rightarrow> string \<Rightarrow> snow \<Rightarrow> snfault + (int \<times> snow)" where
  "send_announce N s message w =
     bnd (send_all N s (text_message MSG_ANNOUNCE message) w) (\<lambda>(r, w).
     Inr (if r = -1 then -1 else 0, w))"

definition send_welcome :: "snet \<Rightarrow> nat \<Rightarrow> snow \<Rightarrow> snfault + (int \<times> snow)" where
  "send_welcome N s w =
     bnd (send_all N s (char_of MSG_WELCOME # char_of (0::nat) # char_of (0::nat) # ''\<newline>'') w) (\<lambda>(r, w).
     Inr (if r = -1 then -1 else 0, w))"

text \<open>\<open>%d\<close> of \<open>sprintf\<close>.\<close>

fun dec_digits :: "nat \<Rightarrow> string" where
  "dec_digits n = (if n < 10 then [char_of (48 + n)] else dec_digits (n div 10) @ [char_of (48 + n mod 10)])"

declare dec_digits.simps [simp del]

text \<open>The messages about songs are built in a buffer of \<open>BUF_SIZE\<close> bytes; \<open>%s\<close> of NULL is undefined.\<close>

definition song_text :: "string \<Rightarrow> station \<Rightarrow> snfault + string" where
  "song_text prefix st =
     deref (st_cur st) Null_access (\<lambda>song.
     check (length (prefix @ song) < BUF_SIZE) Overrun (Inr (prefix @ song)))"

definition send_cur_song :: "snet \<Rightarrow> nat \<Rightarrow> nat \<Rightarrow> snow \<Rightarrow> snfault + snow" where
  "send_cur_song N s a w =
     deref (stations w a) Freed_access (\<lambda>st.
     bnd (song_text ''current playing: '' st) (\<lambda>text.
     bnd (send_announce N s text w) (\<lambda>(_, w). Inr w)))"

text \<open>More rounds than addresses were handed out mean that a list of stations does not end.\<close>

fun all_cur_songs :: "nat \<Rightarrow> snet \<Rightarrow> nat \<Rightarrow> nat option \<Rightarrow> nat \<Rightarrow> snow \<Rightarrow> snfault + snow" where
  "all_cur_songs 0 N s p i w = Inl Endless"
| "all_cur_songs (Suc fuel) N s None i w = Inr w"
| "all_cur_songs (Suc fuel) N s (Some a) i w =
     deref (stations w a) Freed_access (\<lambda>st.
     bnd (song_text (''station['' @ dec_digits i @ '']:'') st) (\<lambda>text.
     bnd (send_announce N s text w) (\<lambda>(_, w).
     all_cur_songs fuel N s (st_next st) (Suc i) w)))"

definition send_all_station_cur_song :: "snet \<Rightarrow> nat \<Rightarrow> snow \<Rightarrow> snfault + snow" where
  "send_all_station_cur_song N s w = all_cur_songs (Suc (fresh_station w)) N s (sl_head w) 0 w"

fun send_songs :: "snet \<Rightarrow> nat \<Rightarrow> string list \<Rightarrow> snow \<Rightarrow> snfault + snow" where
  "send_songs N s [] w = Inr w"
| "send_songs N s (song # songs) w = bnd (send_announce N s song w) (\<lambda>(_, w). send_songs N s songs w)"

definition send_station_songs :: "snet \<Rightarrow> nat \<Rightarrow> nat \<Rightarrow> snow \<Rightarrow> snfault + snow" where
  "send_station_songs N s a w =
     deref (stations w a) Freed_access (\<lambda>st. send_songs N s (st_songs st) w)"

subsection \<open>Reading a line\<close>

text \<open>What \<open>recv\<close> of one byte returns.  At the end of the list it waits.\<close>

datatype recv = Byte char | Disconnected | Recv_error

fun read_line :: "nat \<Rightarrow> string \<Rightarrow> recv list \<Rightarrow> snfault + (int \<times> string \<times> recv list)" where
  "read_line n data inp =
     (case n of 0 \<Rightarrow> Inr (-1, data, inp)
      | Suc n \<Rightarrow>
        (case inp of [] \<Rightarrow> Inl Waits
         | Disconnected # inp \<Rightarrow> Inr (0, data, inp)
         | Recv_error # inp \<Rightarrow> Inr (-1, data, inp)
         | Byte c # inp \<Rightarrow> if c = CHR ''\<newline>'' then Inr (int (length data), data, inp)
             else read_line n (data @ [c]) inp))"

declare read_line.simps [simp del]

lemma read_line_simps [simp]:
  "read_line 0 data inp = Inr (-1, data, inp)"
  "read_line (Suc n) data [] = Inl Waits"
  "read_line (Suc n) data (Disconnected # inp) = Inr (0, data, inp)"
  "read_line (Suc n) data (Recv_error # inp) = Inr (-1, data, inp)"
  "read_line (Suc n) data (Byte c # inp) = (if c = CHR ''\<newline>'' then Inr (int (length data), data, inp)
     else read_line n (data @ [c]) inp)"
  by (simp_all add: read_line.simps)

text \<open>A byte of the zeroed buffer that holds a line.\<close>

definition byte :: "string \<Rightarrow> nat \<Rightarrow> nat" where
  "byte data k = (if k < length data then of_char (data ! k) else 0)"

text \<open>\<open>ntohs\<close> of the two bytes at \<open>k\<close>.\<close>

definition short :: "string \<Rightarrow> nat \<Rightarrow> nat" where
  "short data k = byte data k * 256 + byte data (k + 1)"

lemma read_line_line:
  assumes "CHR ''\<newline>'' \<notin> set l" and "length l < n"
  shows "read_line n data (map Byte (l @ ''\<newline>'') @ inp) = Inr (int (length (data @ l)), data @ l, inp)"
  using assms
proof (induction l arbitrary: n data)
  case Nil
  then show ?case by (cases n) auto
next
  case (Cons c l)
  then show ?case by (cases n) auto
qed

subsection \<open>What a call sends\<close>

text \<open>The bytes that a peer has got.\<close>

definition received :: "nat \<Rightarrow> snev list \<Rightarrow> string" where
  "received s log = concat (map (\<lambda>e. case e of Sent t b \<Rightarrow> if t = s then b else [] | _ \<Rightarrow> []) (rev log))"

lemma received_Cons [simp]:
  "received s (Sent t b # log) = received s log @ (if t = s then b else [])"
  "received s (Datagram t d b # log) = received s log" "received s (Shut t # log) = received s log"
  by (simp_all add: received_def)

lemma send_loop_simps:
  "send_loop N s [] log = Inr (0, log)"
  "buf \<noteq> [] \<Longrightarrow> n_send N log s buf = -1 \<Longrightarrow> send_loop N s buf log = Inr (-1, log)"
  "buf \<noteq> [] \<Longrightarrow> n_send N log s buf \<noteq> -1 \<Longrightarrow> send_loop N s buf log =
     check (0 < n_send N log s buf \<and> n_send N log s buf \<le> int (length buf)) Bad_result
       (send_loop N s (drop (nat (n_send N log s buf)) buf) (Sent s (take (nat (n_send N log s buf)) buf) # log))"
  by (subst send_loop.simps, simp add: Let_def)+

lemma send_loop_sends:
  "send_loop N s buf log = Inr (r, log') \<Longrightarrow>
     \<exists>k\<le>length buf. received s log' = received s log @ take k buf \<and> (r = 0 \<longrightarrow> k = length buf) \<and> r \<in> {0, -1}
       \<and> (\<forall>t. t \<noteq> s \<longrightarrow> received t log' = received t log)"
proof (induction N s buf log rule: send_loop.induct)
  case (1 N s buf log)
  let ?n = "n_send N log s buf"
  show ?case
  proof (cases "buf = [] \<or> ?n = -1")
    case True
    then show ?thesis using 1(2) by (cases "buf = []") (auto simp: send_loop_simps)
  next
    case False
    then have ne: "buf \<noteq> []" "?n \<noteq> -1" by simp_all
    from 1(2) [unfolded send_loop_simps(3) [OF ne]] have n: "0 < ?n \<and> ?n \<le> int (length buf)"
      and rec: "send_loop N s (drop (nat ?n) buf) (Sent s (take (nat ?n) buf) # log) = Inr (r, log')"
      unfolding check_eq_Inr by blast+
    from 1(1) [OF _ refl _ n rec] False obtain k where
      k: "k \<le> length (drop (nat ?n) buf)" "r = 0 \<longrightarrow> k = length (drop (nat ?n) buf)" "r \<in> {0, -1}"
        "received s log' = received s (Sent s (take (nat ?n) buf) # log) @ take k (drop (nat ?n) buf)"
        "\<forall>t. t \<noteq> s \<longrightarrow> received t log' = received t (Sent s (take (nat ?n) buf) # log)" by blast
    have "take (nat ?n) buf @ take k (drop (nat ?n) buf) = take (nat ?n + k) buf" by (simp add: take_add)
    then show ?thesis using k n by (intro exI [of _ "nat ?n + k"]) auto
  qed
qed

lemma send_all_sends:
  assumes "send_all N s buf w = Inr (r, w')"
  shows "\<exists>log. w' = w\<lparr>sn_log := log\<rparr>" and "r \<in> {0, -1}"
    and "r = 0 \<Longrightarrow> received s (sn_log w') = received s (sn_log w) @ buf"
    and "t \<noteq> s \<Longrightarrow> received t (sn_log w') = received t (sn_log w)"
proof -
  from assms obtain log where l: "send_loop N s buf (sn_log w) = Inr (r, log)" and w': "w' = w\<lparr>sn_log := log\<rparr>"
    by (auto simp: send_all_def bnd_eq_Inr check_eq_Inr)
  show "\<exists>log. w' = w\<lparr>sn_log := log\<rparr>" using w' by blast
  from send_loop_sends [OF l] w' show "r \<in> {0, -1}"
    and "r = 0 \<Longrightarrow> received s (sn_log w') = received s (sn_log w) @ buf"
    and "t \<noteq> s \<Longrightarrow> received t (sn_log w') = received t (sn_log w)" by auto
qed

text \<open>A network that keeps its documented results; no call on it stops the server.\<close>

definition net_ok :: "snet \<Rightarrow> bool" where
  "net_ok N \<longleftrightarrow> (\<forall>log s buf. buf \<noteq> [] \<longrightarrow> n_send N log s buf = -1 \<or>
       0 < n_send N log s buf \<and> n_send N log s buf \<le> int (length buf))
     \<and> (\<forall>log port addr sock. n_udp N log port = Some (addr, sock) \<longrightarrow> sock \<noteq> 0)"

lemma send_loop_ends: "net_ok N \<Longrightarrow> \<exists>r log'. send_loop N s buf log = Inr (r, log')"
proof (induction N s buf log rule: send_loop.induct)
  case (1 N s buf log)
  let ?n = "n_send N log s buf"
  show ?case
  proof (cases "buf = [] \<or> ?n = -1")
    case True
    then show ?thesis by (cases "buf = []") (auto simp: send_loop_simps)
  next
    case False
    then have n: "0 < ?n \<and> ?n \<le> int (length buf)" using 1(2) unfolding net_ok_def by blast
    with 1(1) [OF _ refl _ n 1(2)] False show ?thesis by (simp add: send_loop_simps(3))
  qed
qed

lemma send_all_ends:
  assumes "net_ok N" and "buf \<noteq> []"
  shows "\<exists>r log. send_all N s buf w = Inr (r, w\<lparr>sn_log := log\<rparr>)"
  using send_loop_ends [OF assms(1), of s buf "sn_log w"] assms(2) by (auto simp: send_all_def)

end
