(* ===== verification/Snstation.thy ===== *)
theory Snstation
  imports Snbase
begin

text \<open>
  Stations and their clients: the list functions of \<open>snowcast_server.c\<close>.  A station is reached by its
  address, a client by its index.  The mutexes of the stations guard single calls and are left out;
  each call below runs as one step.  The loops over clients have a fuel of one more than there are
  clients, those over stations of one more than addresses were handed out: a loop that only follows
  links and runs longer goes round in a circle.
\<close>

definition CLIENT_FUEL :: nat where "CLIENT_FUEL = Suc MAX_CLIENT_NUM"

definition find_first_client :: "snow \<Rightarrow> nat option" where
  "find_first_client s = find (\<lambda>i. c_state (clients s i) = NO_STATE) [0..<MAX_CLIENT_NUM]"

definition find_client :: "nat \<Rightarrow> snow \<Rightarrow> nat option" where
  "find_client fd s = find (\<lambda>i. c_socket (clients s i) = fd) [0..<MAX_CLIENT_NUM]"

fun find_id :: "nat \<Rightarrow> snow \<Rightarrow> int \<Rightarrow> nat option \<Rightarrow> snfault + nat option" where
  "find_id 0 s sid p = Inl Endless"
| "find_id (Suc fuel) s sid None = Inr None"
| "find_id (Suc fuel) s sid (Some a) =
     deref (stations s a) Freed_access (\<lambda>st.
     if int (st_id st) = sid then Inr (Some a) else find_id fuel s sid (st_next st))"

definition find_station_from_id :: "int \<Rightarrow> snow \<Rightarrow> snfault + nat option" where
  "find_station_from_id sid s = check (sl_alive s) Mutex_misuse (find_id (Suc (fresh_station s)) s sid (sl_head s))"

subsection \<open>Clients of a station\<close>

text \<open>The loop of \<open>remove_client_from_station\<close>, from a client \<open>c\<close> of the list that is not \<open>i\<close>.\<close>

fun unlink_client :: "nat \<Rightarrow> nat \<Rightarrow> nat \<Rightarrow> nat \<Rightarrow> snow \<Rightarrow> snfault + snow" where
  "unlink_client 0 i a c s = Inl Endless"
| "unlink_client (Suc fuel) i a c s =
     (case c_next (clients s c) of
        None \<Rightarrow> Inr s
      | Some d \<Rightarrow>
          if d = i then
            let s = upd_cl c (c_next_update (\<lambda>_. c_next (clients s i))) s in
            Inr (if c_next (clients s c) = None then upd_st a (st_tail_update (\<lambda>_. Some c)) s else s)
          else unlink_client fuel i a d s)"

definition remove_client_from_station :: "nat \<Rightarrow> snow \<Rightarrow> snfault + snow" where
  "remove_client_from_station i s =
     (case c_station (clients s i) of
        None \<Rightarrow> Inr s
      | Some a \<Rightarrow>
          deref (stations s a) Freed_access (\<lambda>st.
          deref (st_head st) Assertion (\<lambda>c.
          if i = c then
            let h = c_next (clients s c) in
            if st_tail st = Some i then
              check (h = None) Assertion (Inr (upd_st a (\<lambda>st. st\<lparr>st_head := h, st_tail := h\<rparr>) s))
            else Inr (upd_st a (st_head_update (\<lambda>_. h)) s)
          else unlink_client CLIENT_FUEL i a c s)))"

definition append_client_to_station :: "nat \<Rightarrow> nat \<Rightarrow> snow \<Rightarrow> snfault + snow" where
  "append_client_to_station i a s =
     deref (stations s a) Freed_access (\<lambda>st.
     if c_station (clients s i) = Some a then Inr s
     else
       bnd (if st_head st = None then
              Inr (upd_st a (\<lambda>st. st\<lparr>st_head := Some i, st_tail := Some i\<rparr>) s)
            else
              deref (st_tail st) Null_access (\<lambda>t.
              let s = upd_cl t (c_next_update (\<lambda>_. Some i)) s in
              Inr (upd_st a (st_tail_update (\<lambda>_. c_next (clients s t))) s))) (\<lambda>s.
       Inr (upd_cl i (c_station_update (\<lambda>_. Some a)) (upd_st a (\<lambda>st. st\<lparr>st_count := st_count st + 1\<rparr>) s))))"

text \<open>\<open>close_client\<close> of the index that \<open>find_client\<close> found; \<open>-1\<close> fails the first assertion.\<close>

definition close_client :: "nat option \<Rightarrow> snow \<Rightarrow> snfault + snow" where
  "close_client index s =
     deref index Assertion (\<lambda>i.
     let c = clients s i in
     check (c_socket c \<noteq> 0) Assertion (
     let s = logged (Shut (c_socket c)) (s\<lparr>open_fds := open_fds s - {c_socket c}\<rparr>) in
     check (c_udp_sock c \<noteq> 0) Assertion (
     let s = logged (Shut (c_udp_sock c)) s;
         s = s\<lparr>master := master s - {c_socket c}\<rparr> in
     bnd (remove_client_from_station i s) (\<lambda>s.
     Inr (upd_cl i (\<lambda>_. zero_client) s)))))"

subsection \<open>The list of stations\<close>

definition zero_station :: station where
  "zero_station = \<lparr>st_songs = [], st_cur = None, st_next = None, st_sender = False, st_id = 0,
     st_head = None, st_tail = None, st_count = 0, st_song = 0\<rparr>"

definition alloc_station :: "snow \<Rightarrow> nat \<times> snow" where
  "alloc_station s = (fresh_station s, s\<lparr>stations := (stations s)(fresh_station s \<mapsto> zero_station),
     fresh_station := Suc (fresh_station s)\<rparr>)"

text \<open>The first position in the list whose station does not have it as its number.\<close>

fun next_id :: "nat \<Rightarrow> snow \<Rightarrow> nat option \<Rightarrow> nat \<Rightarrow> snfault + nat" where
  "next_id 0 s p n = Inl Endless"
| "next_id (Suc fuel) s None n = Inr n"
| "next_id (Suc fuel) s (Some a) n =
     deref (stations s a) Freed_access (\<lambda>st. if st_id st \<noteq> n then Inr n else next_id fuel s (st_next st) (Suc n))"

definition push_station_to_list :: "nat \<Rightarrow> snow \<Rightarrow> snfault + snow" where
  "push_station_to_list a s =
     check (sl_alive s) Mutex_misuse (
     bnd (next_id (Suc (fresh_station s)) s (sl_head s) 0) (\<lambda>n.
     let s = upd_st a (st_id_update (\<lambda>_. n)) s in
     bnd (if sl_head s = None then Inr (s\<lparr>sl_head := Some a, sl_tail := Some a\<rparr>)
          else
            deref (sl_tail s) Null_access (\<lambda>t.
            check (stations s t \<noteq> None) Freed_access (
            Inr ((upd_st t (st_next_update (\<lambda>_. Some a)) s)\<lparr>sl_tail := Some a\<rparr>)))) (\<lambda>s.
     Inr (s\<lparr>sl_count := sl_count s + 1\<rparr>))))"

definition spawn_sender :: "nat \<Rightarrow> snow \<Rightarrow> snfault + snow" where
  "spawn_sender a s =
     deref (stations s a) Freed_access (\<lambda>st.
     check (\<not> st_sender st) Assertion (Inr (upd_st a (st_sender_update (\<lambda>_. True)) s)))"

text \<open>The loop over the clients of a station that is removed; the result is the counter.\<close>

fun dismiss_clients :: "nat \<Rightarrow> snet \<Rightarrow> nat option \<Rightarrow> int \<Rightarrow> snow \<Rightarrow> snfault + (int \<times> snow)" where
  "dismiss_clients 0 N p n s = Inl Endless"
| "dismiss_clients (Suc fuel) N None n s = Inr (n, s)"
| "dismiss_clients (Suc fuel) N (Some c) n s =
     bnd (send_announce N (c_socket (clients s c)) ''Station is closed.'' s) (\<lambda>(_, s).
     let next = c_next (clients s c);
         s = upd_cl c (\<lambda>c. c\<lparr>c_next := None, c_station := None\<rparr>) s in
     dismiss_clients fuel N next (n - 1) s)"

text \<open>What \<open>remove_station\<close> does to the station before it unlinks it, on both branches.\<close>

definition close_station :: "snet \<Rightarrow> nat \<Rightarrow> station \<Rightarrow> snow \<Rightarrow> snfault + snow" where
  "close_station N a st s =
     bnd (dismiss_clients CLIENT_FUEL N (st_head st) (st_count st) s) (\<lambda>(n, s).
     check (n = 0) Assertion (
     Inr (s\<lparr>sl_count := sl_count s - 1\<rparr>)))"

text \<open>The search for the station before \<open>a\<close>.\<close>

fun unlink_station :: "nat \<Rightarrow> snet \<Rightarrow> nat \<Rightarrow> nat \<Rightarrow> snow \<Rightarrow> snfault + snow" where
  "unlink_station 0 N a p s = Inl Endless"
| "unlink_station (Suc fuel) N a p s =
     deref (stations s p) Freed_access (\<lambda>pst.
     case st_next pst of
       None \<Rightarrow> Inl Assertion
     | Some b \<Rightarrow>
         if b = a then
           deref (stations s a) Freed_access (\<lambda>st.
           bnd (close_station N a st s) (\<lambda>s.
           let s = upd_st p (st_next_update (\<lambda>_. st_next st)) s;
               s = (if st_next st = None then s\<lparr>sl_tail := Some p\<rparr> else s) in
           Inr (s\<lparr>stations := (stations s)(a := None)\<rparr>)))
         else unlink_station fuel N a b s)"

definition remove_station :: "snet \<Rightarrow> nat \<Rightarrow> snow \<Rightarrow> snfault + snow" where
  "remove_station N a s =
     check (sl_alive s) Mutex_misuse (
     if sl_head s = Some a then
       deref (stations s a) Freed_access (\<lambda>st.
       bnd (close_station N a st s) (\<lambda>s.
       let s = (if sl_count s = 0 then s\<lparr>sl_head := None, sl_tail := None\<rparr>
                else s\<lparr>sl_head := st_next st\<rparr>) in
       Inr (s\<lparr>stations := (stations s)(a := None)\<rparr>)))
     else
       deref (sl_head s) Null_access (\<lambda>p.
       unlink_station (Suc (fresh_station s)) N a p s))"

fun shutdown_loop :: "nat \<Rightarrow> snet \<Rightarrow> snow \<Rightarrow> snfault + snow" where
  "shutdown_loop 0 N s = Inl Endless"
| "shutdown_loop (Suc fuel) N s =
     (case sl_head s of None \<Rightarrow> Inr s | Some a \<Rightarrow> bnd (remove_station N a s) (shutdown_loop fuel N))"

definition shutdown_all :: "snet \<Rightarrow> snow \<Rightarrow> snfault + snow" where
  "shutdown_all N s =
     bnd (shutdown_loop (Suc (fresh_station s)) N s) (\<lambda>s.
     check (sl_count s = 0 \<and> sl_head s = None \<and> sl_tail s = None) Assertion (Inr s))"

text \<open>\<open>release_stations\<close>, which sends nothing and destroys the mutex of the list.\<close>

fun drop_clients :: "nat \<Rightarrow> nat option \<Rightarrow> int \<Rightarrow> snow \<Rightarrow> snfault + (int \<times> snow)" where
  "drop_clients 0 p n s = Inl Endless"
| "drop_clients (Suc fuel) None n s = Inr (n, s)"
| "drop_clients (Suc fuel) (Some c) n s =
     drop_clients fuel (c_next (clients s c)) (n - 1) (upd_cl c (\<lambda>c. c\<lparr>c_next := None, c_station := None\<rparr>) s)"

fun drop_stations :: "nat \<Rightarrow> nat option \<Rightarrow> snow \<Rightarrow> snfault + snow" where
  "drop_stations 0 p s = Inl Endless"
| "drop_stations (Suc fuel) None s = Inr s"
| "drop_stations (Suc fuel) (Some a) s =
     deref (stations s a) Freed_access (\<lambda>st.
     bnd (drop_clients CLIENT_FUEL (st_head st) (st_count st) s) (\<lambda>(n, s).
     check (n = 0) Assertion (
     drop_stations fuel (st_next st)
       (s\<lparr>stations := (stations s)(a := None), sl_count := sl_count s - 1\<rparr>))))"

definition release_stations :: "snow \<Rightarrow> snfault + snow" where
  "release_stations s =
     check (sl_alive s) Mutex_misuse (
     bnd (drop_stations (Suc (fresh_station s)) (sl_head s) s) (\<lambda>s.
     let s = s\<lparr>sl_alive := False\<rparr> in
     check (sl_count s = 0) Assertion (
     Inr (s\<lparr>sl_head := None, sl_tail := None\<rparr>))))"

subsection \<open>Adding a station\<close>

text \<open>What \<open>lstat\<close> and \<open>readdir\<close> find at a path: a file, a directory with its entries, or a directory that
  \<open>opendir\<close> refuses.\<close>

datatype fsn = Plain | Folder "(string \<times> fsn) list" | Refused

definition is_directory :: "fsn \<Rightarrow> bool" where
  "is_directory f \<longleftrightarrow> f \<noteq> Plain"

definition is_end_mp3 :: "string \<Rightarrow> bool" where
  "is_end_mp3 str \<longleftrightarrow> \<not> length str \<le> 4 \<and> drop (length str - 4) str = ''.mp3''"

text \<open>The songs of the station are passed through; the result 0 or \<open>-1\<close> comes first.\<close>

definition read_song :: "string \<Rightarrow> string list \<Rightarrow> snfault + (int \<times> string list)" where
  "read_song str songs =
     check (is_end_mp3 str) Assertion (
     if length songs < MAX_STATION_SONG_NUM then
       check (length str < BUF_SIZE) Overrun (Inr (0, songs @ [str]))
     else Inr (-1, songs))"

fun read_song_dir :: "string \<Rightarrow> fsn \<Rightarrow> string list \<Rightarrow> snfault + (int \<times> string list)"
  and read_entries :: "string \<Rightarrow> (string \<times> fsn) list \<Rightarrow> string list \<Rightarrow> snfault + (int \<times> string list)" where
  "read_song_dir path Plain songs = Inl Assertion"
| "read_song_dir path Refused songs = check (length path + 1 < BUF_SIZE) Overrun (Inr (-1, songs))"
| "read_song_dir path (Folder es) songs =
     check (length path + 1 < BUF_SIZE) Overrun (read_entries (path @ ''/'') es songs)"
| "read_entries prefix [] songs = Inr (0, songs)"
| "read_entries prefix ((name, f) # es) songs =
     (if take 1 name = ''.'' then read_entries prefix es songs
      else
        let next_path = prefix @ name in
        check (length next_path < BUF_SIZE) Overrun (
        if is_directory f then
          bnd (read_song_dir next_path f songs) (\<lambda>(ret, songs).
          if ret = -1 then Inr (-1, songs) else read_entries prefix es songs)
        else if is_end_mp3 next_path then
          bnd (read_song next_path songs) (\<lambda>(ret, songs).
          if ret = -1 then Inr (-1, songs) else read_entries prefix es songs)
        else read_entries prefix es songs))"

text \<open>\<open>fs\<close> is what a path names; \<open>lstat\<close> fails on other paths and ends the program.\<close>

definition add_station :: "(string \<Rightarrow> fsn option) \<Rightarrow> string \<Rightarrow> snow \<Rightarrow> snfault + snow" where
  "add_station fs file s =
     check (sl_alive s) Mutex_misuse (
     if sl_count s = int MAX_STATION_NUM then Inr s
     else
       let (a, s) = alloc_station s in
       bnd (if is_end_mp3 file then read_song file []
            else deref (fs file) (Stopped 1) (\<lambda>f.
              if is_directory f then read_song_dir file f [] else Inr (0, []))) (\<lambda>(_, songs).
       if songs = [] then Inr (s\<lparr>stations := (stations s)(a := None)\<rparr>)
       else
         let s = upd_st a (st_songs_update (\<lambda>_. songs)) s in
         bnd (push_station_to_list a s) (spawn_sender a)))"

fun read_station :: "(string \<Rightarrow> fsn option) \<Rightarrow> string list \<Rightarrow> snow \<Rightarrow> snfault + snow" where
  "read_station fs [] s = Inr s"
| "read_station fs (file # files) s = bnd (add_station fs file s) (read_station fs files)"

subsection \<open>Printing\<close>

definition ip_text :: "ip_ref \<Rightarrow> snow \<Rightarrow> snfault + string" where
  "ip_text ip s = (case ip of No_ip \<Rightarrow> Inl Null_access | Remote_ip \<Rightarrow> Inr (remote_ip s) | Local_ip \<Rightarrow> Inr ''127.0.0.1'')"

fun station_clients :: "nat \<Rightarrow> nat \<Rightarrow> nat option \<Rightarrow> snow \<Rightarrow> snfault + string list" where
  "station_clients 0 sid p s = Inl Endless"
| "station_clients (Suc fuel) sid None s = Inr []"
| "station_clients (Suc fuel) sid (Some c) s =
     bnd (ip_text (c_ip (clients s c)) s) (\<lambda>ip.
     bnd (station_clients fuel sid (c_next (clients s c)) s) (\<lambda>ls.
     Inr ((''station['' @ dec_digits sid @ '']: clients['' @ ip @ '':'' @ dec_digits (c_udp_port (clients s c)) @ '']'') # ls)))"

fun print_list :: "nat \<Rightarrow> nat option \<Rightarrow> snow \<Rightarrow> snfault + string list" where
  "print_list 0 p s = Inl Endless"
| "print_list (Suc fuel) None s = Inr []"
| "print_list (Suc fuel) (Some a) s =
     deref (stations s a) Freed_access (\<lambda>st.
     bnd (station_clients CLIENT_FUEL (st_id st) (st_head st) s) (\<lambda>ls.
     bnd (print_list fuel (st_next st) s) (\<lambda>rest.
     Inr (map (\<lambda>song. ''station['' @ dec_digits (st_id st) @ '']: '' @ song) (st_songs st) @ ls @ rest))))"

definition print_stations :: "snow \<Rightarrow> snfault + string list" where
  "print_stations s =
     check (sl_alive s) Mutex_misuse (
     if sl_head s = None then check (sl_count s = 0) Assertion (Inr [''There are 0 stations.'', ''Empty!''])
     else
       check (0 < sl_count s) Assertion (
       bnd (print_list (Suc (fresh_station s)) (sl_head s) s) (\<lambda>ls.
       Inr ((''There are '' @ dec_digits (nat (sl_count s)) @ '' stations.'') # ls))))"

definition state_to_string :: "cl_state \<Rightarrow> string" where
  "state_to_string st = (case st of NO_STATE \<Rightarrow> ''NO_STATE'' | INIT_STATE \<Rightarrow> ''INIT_STATE'' | HANDSHAKED \<Rightarrow> ''HAND_SHAKED'')"

fun client_lines :: "nat list \<Rightarrow> snow \<Rightarrow> snfault + string list" where
  "client_lines [] s = Inr []"
| "client_lines (i # is) s =
     (if c_state (clients s i) \<noteq> NO_STATE then
        bnd (ip_text (c_ip (clients s i)) s) (\<lambda>ip.
        bnd (client_lines is s) (\<lambda>ls.
        Inr ((''clients['' @ dec_digits i @ '']: [state '' @ state_to_string (c_state (clients s i)) @ ''], [ip:'' @ ip
              @ ''],[udp port: '' @ dec_digits (c_udp_port (clients s i)) @ '']'') # ls)))
      else client_lines is s)"

definition print_clients :: "snow \<Rightarrow> snfault + string list" where
  "print_clients s =
     bnd (client_lines [0..<MAX_CLIENT_NUM] s) (\<lambda>ls.
     Inr (if \<forall>i\<in>{0..<MAX_CLIENT_NUM}. c_state (clients s i) = NO_STATE then [''No clients.''] else ls))"

end
