(* ===== verification/Snserver.thy ===== *)
theory Snserver
  imports Snstation
begin

text \<open>
  The threads of \<open>snowcast_server.c\<close>: the listener (\<open>parse_and_send\<close>, \<open>server_listen\<close>), the user
  (\<open>user_input\<close>) and the senders (\<open>loop_song\<close>).  One message of a client, one line of the user and one
  round of a sender each run as one step; the steps of the threads interleave in any order.
\<close>

subsection \<open>Messages of a client\<close>

text \<open>The tests that end a reply early: \<open>if (send_invalid_command(...) == -1) return -1\<close>.\<close>

definition refuse :: "snet \<Rightarrow> nat \<Rightarrow> string \<Rightarrow> (snow \<Rightarrow> snfault + (int \<times> snow)) \<Rightarrow> snow \<Rightarrow> snfault + (int \<times> snow)" where
  "refuse N fd message rest s =
     bnd (send_invalid_command N fd message s) (\<lambda>(r, s). if r = -1 then Inr (-1, s) else rest s)"

definition build_udpconnection :: "snet \<Rightarrow> nat \<Rightarrow> nat \<Rightarrow> snow \<Rightarrow> snfault + (int \<times> snow)" where
  "build_udpconnection N udp_port i s =
     (let c = clients s i in
      check (c_ip c \<noteq> No_ip \<and> c_socket c \<noteq> 0 \<and> c_state c \<noteq> NO_STATE) Assertion (
      let s = upd_cl i (c_ip_update (\<lambda>_. Local_ip)) s in
      case n_udp N (sn_log s) udp_port of
        None \<Rightarrow> Inr (-1, s)
      | Some (addr, sock) \<Rightarrow> Inr (0, upd_cl i (\<lambda>c. c\<lparr>c_udp_addr := Some addr, c_udp_sock := sock\<rparr>) s)))"

definition hello :: "snet \<Rightarrow> nat \<Rightarrow> nat \<Rightarrow> snow \<Rightarrow> snfault + (int \<times> snow)" where
  "hello N fd port s =
     deref (find_client fd s) Index_error (\<lambda>i.
     if c_state (clients s i) = HANDSHAKED then refuse N fd ''Already hand shaked.'' (\<lambda>s. Inr (0, s)) s
     else
       bnd (send_welcome N fd s) (\<lambda>(r, s).
       if r = -1 then Inr (-1, s)
       else
         bnd (build_udpconnection N port i (upd_cl i (c_state_update (\<lambda>_. HANDSHAKED)) s)) (\<lambda>(r, s).
         Inr (0, if r = -1 then s else upd_cl i (c_udp_port_update (\<lambda>_. port)) s))))"

definition set_station :: "snet \<Rightarrow> nat \<Rightarrow> nat \<Rightarrow> snow \<Rightarrow> snfault + (int \<times> snow)" where
  "set_station N fd station_num s =
     deref (find_client fd s) Index_error (\<lambda>i.
     let go = (\<lambda>s.
       bnd (find_station_from_id (int station_num) s) (\<lambda>target.
       case target of
         None \<Rightarrow> bnd (send_invalid_command N fd ''Invalid station number.'' s) (\<lambda>(_, s). Inr (0, s))
       | Some a \<Rightarrow>
           bnd (if c_station (clients s i) \<noteq> None then remove_client_from_station i s else Inr s) (\<lambda>s.
           bnd (append_client_to_station i a s) (\<lambda>s.
           bnd (send_announce N (c_socket (clients s i)) ''Set Station Confirmed'' s) (\<lambda>(_, s).
           deref (c_station (clients s i)) Assertion (\<lambda>b.
           bnd (send_cur_song N fd b s) (\<lambda>s. Inr (0, s))))))))
     in if c_state (clients s i) = INIT_STATE then refuse N fd ''Not yet hand shaked.'' go s else go s)"

text \<open>The requests \<open>TYPE_ALL\<close> and \<open>TYPE_CURRENT\<close> differ in what they send.\<close>

definition station_request :: "snet \<Rightarrow> nat \<Rightarrow> (nat \<Rightarrow> snow \<Rightarrow> snfault + snow) \<Rightarrow> snow \<Rightarrow> snfault + (int \<times> snow)" where
  "station_request N fd reply s =
     deref (find_client fd s) Index_error (\<lambda>i.
     let go = (\<lambda>s.
       case c_station (clients s i) of
         None \<Rightarrow> refuse N fd ''Not yet set station.'' (\<lambda>s. Inr (0, s)) s
       | Some a \<Rightarrow>
           bnd (send_announce N fd ''Request Confirmed'' s) (\<lambda>(_, s).
           bnd (reply a s) (\<lambda>s. Inr (0, s))))
     in if c_state (clients s i) = INIT_STATE then refuse N fd ''Not yet hand shaked.'' go s else go s)"

definition parse_and_send :: "snet \<Rightarrow> nat \<Rightarrow> string \<Rightarrow> snow \<Rightarrow> snfault + (int \<times> snow)" where
  "parse_and_send N fd buf s =
     (let cmd = byte buf 0 in
      if cmd = CMD_HELLO then hello N fd (short buf 1) s
      else if cmd = CMD_SETSTATION then set_station N fd (short buf 1) s
      else if cmd = CMD_REQUEST then
        let req_type = byte buf 1 in
        if req_type = TYPE_ALL then station_request N fd (send_station_songs N fd) s
        else if req_type = TYPE_CURRENT then station_request N fd (send_cur_song N fd) s
        else if req_type = TYPE_ALL_STATION then
          bnd (send_announce N fd ''Request Confirmed'' s) (\<lambda>(_, s).
          bnd (send_all_station_cur_song N fd s) (\<lambda>s. Inr (0, s)))
        else Inr (0, s)
      else Inr (0, s))"

subsection \<open>The loop of the listener\<close>

text \<open>\<open>select\<close> fails when \<open>master\<close> has a closed descriptor; the server then ends.\<close>

definition selected :: "snow \<Rightarrow> snfault + 'a \<Rightarrow> snfault + 'a" where
  "selected s m = check (master s \<subseteq> open_fds s) (Stopped 1) m"

definition accept_client :: "snet \<Rightarrow> nat \<Rightarrow> string \<Rightarrow> snow \<Rightarrow> snfault + snow" where
  "accept_client N newfd ip s =
     (let s = s\<lparr>master := insert newfd (master s), open_fds := insert newfd (open_fds s)\<rparr> in
      case find_first_client s of
        None \<Rightarrow>
          let messg = ''Busy, close the connection''; n = n_send N (sn_log s) newfd messg;
              s = (if 0 < n then logged (Sent newfd (take (nat n) messg)) s else s) in
          Inr (logged (Shut newfd) (s\<lparr>open_fds := open_fds s - {newfd}\<rparr>))
      | Some first \<Rightarrow>
          Inr (upd_cl first (\<lambda>c. c\<lparr>c_state := INIT_STATE, c_socket := newfd, c_ip := Remote_ip\<rparr>)
            (s\<lparr>remote_ip := ip\<rparr>)))"

text \<open>The reply to a line: \<open>result\<close> is that of \<open>read_line\<close>.  After 0 the listener of the client is told to stop.\<close>

definition serve :: "snet \<Rightarrow> nat \<Rightarrow> int \<Rightarrow> string \<Rightarrow> snow \<Rightarrow> snfault + snow" where
  "serve N fd result buf s =
     (if result \<le> 0 then
        let index = find_client fd s in
        bnd (if result = 0 then
               deref index Index_error (\<lambda>i.
               bnd (ip_text (c_ip (clients s i)) s) (\<lambda>_.
               deref (c_udp_addr (clients s i)) Null_access (\<lambda>addr.
               Inr (logged (Datagram (c_udp_sock (clients s i)) addr ''STOP'') s))))
             else Inr s) (close_client index)
      else bnd (parse_and_send N fd buf s) (\<lambda>(_, s). Inr s))"

text \<open>A client is served from the bytes that have come from it; the rest stays.\<close>

definition listen_round :: "snet \<Rightarrow> nat \<Rightarrow> recv list \<Rightarrow> snow \<Rightarrow> snfault + (recv list \<times> snow)" where
  "listen_round N fd inp s =
     bnd (read_line (BUF_SIZE - 1) [] inp) (\<lambda>(result, buf, rest).
     bnd (serve N fd result buf s) (\<lambda>s. Inr (rest, s)))"

subsection \<open>The senders\<close>

text \<open>The datagrams of one round to all clients of a station.\<close>

fun stream_to :: "nat \<Rightarrow> nat option \<Rightarrow> string \<Rightarrow> snow \<Rightarrow> snfault + snow" where
  "stream_to 0 p data s = Inl Endless"
| "stream_to (Suc fuel) None data s = Inr s"
| "stream_to (Suc fuel) (Some c) data s =
     check (c_state (clients s c) = HANDSHAKED) Assertion (
     check (c_udp_sock (clients s c) \<noteq> 0) Assertion (
     deref (c_udp_addr (clients s c)) Null_access (\<lambda>addr.
     stream_to fuel (c_next (clients s c)) data (logged (Datagram (c_udp_sock (clients s c)) addr data) s))))"

fun announce_to :: "nat \<Rightarrow> snet \<Rightarrow> nat option \<Rightarrow> station \<Rightarrow> snow \<Rightarrow> snfault + snow" where
  "announce_to 0 N p st s = Inl Endless"
| "announce_to (Suc fuel) N None st s = Inr s"
| "announce_to (Suc fuel) N (Some c) st s =
     check (c_state (clients s c) = HANDSHAKED) Assertion (
     check (c_socket (clients s c) \<noteq> 0) Assertion (
     bnd (song_text ''Next song:'' st) (\<lambda>text.
     bnd (send_announce N (c_socket (clients s c)) text s) (\<lambda>(_, s).
     announce_to fuel N (c_next (clients s c)) st s))))"

text \<open>\<open>loop_song\<close> up to its loop; \<open>opened\<close> tells whether the first song could be opened.\<close>

definition start_song :: "nat \<Rightarrow> bool \<Rightarrow> snow \<Rightarrow> snfault + snow" where
  "start_song a opened s =
     deref (stations s a) Freed_access (\<lambda>st.
     if st_songs st = [] \<or> \<not> opened then Inr s
     else Inr (upd_st a (\<lambda>st. st\<lparr>st_cur := Some (st_songs st ! 0), st_song := 0\<rparr>) s))"

text \<open>One \<open>read\<close> of the loop: \<open>None\<close> is an error, no bytes the end of the song, after which the next one is
  opened and announced.\<close>

definition loop_song :: "snet \<Rightarrow> nat \<Rightarrow> string option \<Rightarrow> bool \<Rightarrow> snow \<Rightarrow> snfault + snow" where
  "loop_song N a data opened s =
     deref (stations s a) Freed_access (\<lambda>st.
     case data of
       None \<Rightarrow> Inl (Stopped 1)
     | Some bytes \<Rightarrow>
         if bytes = [] then
           if \<not> opened then Inr s
           else
             let k = (st_song st + 1) mod length (st_songs st);
                 st = st\<lparr>st_cur := Some (st_songs st ! k), st_song := k\<rparr>;
                 s = upd_st a (\<lambda>_. st) s in
             bnd (stream_to CLIENT_FUEL (st_head st) [] s) (announce_to CLIENT_FUEL N (st_head st) st)
         else stream_to CLIENT_FUEL (st_head st) bytes s)"

subsection \<open>The user\<close>

text \<open>\<open>strtok\<close> with blanks and tabs, and \<open>atoi\<close>, which skips white space; the tokens have none.\<close>

definition is_sep :: "char \<Rightarrow> bool" where
  "is_sep c \<longleftrightarrow> c = CHR '' '' \<or> c = CHR 0x09"

fun tokens :: "string \<Rightarrow> string \<Rightarrow> string list" where
  "tokens t [] = (if t = [] then [] else [t])"
| "tokens t (c # cs) = (if is_sep c then (if t = [] then tokens [] cs else t # tokens [] cs) else tokens (t @ [c]) cs)"

definition is_digit :: "char \<Rightarrow> bool" where
  "is_digit c \<longleftrightarrow> 48 \<le> (of_char c :: nat) \<and> (of_char c :: nat) < 58"

definition digits_value :: "string \<Rightarrow> int" where
  "digits_value cs = foldl (\<lambda>n c. 10 * n + (of_char c - 48)) 0 (takeWhile is_digit cs)"

definition atoi :: "string \<Rightarrow> int" where
  "atoi cs = (case cs of [] \<Rightarrow> 0 | c # cs' \<Rightarrow>
     if c = CHR ''-'' then - digits_value cs' else if c = CHR ''+'' then digits_value cs' else digits_value cs)"

fun announce_added :: "snet \<Rightarrow> nat list \<Rightarrow> snow \<Rightarrow> snfault + snow" where
  "announce_added N [] s = Inr s"
| "announce_added N (i # is) s =
     bnd (if c_state (clients s i) = HANDSHAKED then
            bnd (send_announce N (c_socket (clients s i)) ''New station is added.'' s) (\<lambda>(_, s). Inr s)
          else Inr s) (announce_added N is)"

fun delete_stations :: "snet \<Rightarrow> string list \<Rightarrow> snow \<Rightarrow> snfault + snow" where
  "delete_stations N [] s = Inr s"
| "delete_stations N (tok # toks) s =
     (let sid = atoi tok in
      check (sl_alive s) Mutex_misuse (
      if sid < 0 \<or> sl_count s \<le> sid then delete_stations N toks s
      else
        bnd (find_station_from_id sid s) (\<lambda>st.
        case st of None \<Rightarrow> delete_stations N toks s
        | Some a \<Rightarrow> bnd (remove_station N a s) (delete_stations N toks))))"

text \<open>A line without its newline.  The lines that are printed are only computed.\<close>

definition user_input :: "snet \<Rightarrow> (string \<Rightarrow> fsn option) \<Rightarrow> string \<Rightarrow> snow \<Rightarrow> snfault + snow" where
  "user_input N fs line s =
     (let toks = take MAX_TOKENS (tokens [] line) in
      case line of
        [] \<Rightarrow> Inr s
      | c # rest \<Rightarrow>
          if c = CHR ''h'' then Inr s
          else if c = CHR ''q'' then
            if rest \<noteq> [] then Inr s
            else bnd (release_stations s) (\<lambda>s. bnd (print_stations s) (\<lambda>_. Inr s))
          else if c = CHR ''l'' then
            if rest \<noteq> [] then Inr s else bnd (print_stations s) (\<lambda>_. Inr s)
          else if c = CHR ''c'' then
            if rest \<noteq> [] then Inr s else bnd (print_clients s) (\<lambda>_. Inr s)
          else if c = CHR ''a'' then
            if hd toks \<noteq> ''a'' \<or> length toks \<noteq> 2 then Inr s
            else bnd (add_station fs (toks ! 1) s) (announce_added N [0..<MAX_CLIENT_NUM])
          else if c = CHR ''d'' then
            if hd toks \<noteq> ''d'' then Inr s else delete_stations N (tl toks) s
          else if c = CHR ''s'' then shutdown_all N s
          else Inr s)"

subsection \<open>Start\<close>

definition init_globals :: "nat \<Rightarrow> snow" where
  "init_globals sockfd =
     \<lparr>clients = (\<lambda>_. zero_client), stations = Map.empty, fresh_station = 0, sl_head = None, sl_tail = None,
      sl_count = 0, sl_alive = True, remote_ip = [], master = {sockfd}, open_fds = {sockfd}, sn_log = []\<rparr>"

definition server_main :: "nat \<Rightarrow> (string \<Rightarrow> fsn option) \<Rightarrow> string list \<Rightarrow> snfault + snow" where
  "server_main sockfd fs files = read_station fs files (init_globals sockfd)"

end
