(* ===== verification/Snlinks.thy ===== *)
theory Snlinks
  imports Snserver
begin

text \<open>
  What the list operations of the server do to the lists of clients: removing a client deletes it from
  the list of its station, appending puts it at the end of the list, together with whatever its own
  link leads to.
\<close>

definition cl_nx :: "snow \<Rightarrow> nat \<Rightarrow> nat option" where
  "cl_nx s i = c_next (clients s i)"

definition st_nx :: "snow \<Rightarrow> nat \<Rightarrow> nat option" where
  "st_nx s a = (case stations s a of None \<Rightarrow> None | Some st \<Rightarrow> st_next st)"

lemma cl_nx_simps [simp]:
  "cl_nx (upd_st a g s) = cl_nx s" "cl_nx (logged e s) = cl_nx s"
  "cl_nx (upd_cl i (c_next_update (\<lambda>_. p)) s) = (cl_nx s)(i := p)"
  "cl_nx (upd_cl i (c_station_update (\<lambda>_. p)) s) = cl_nx s"
  by (simp_all add: cl_nx_def fun_eq_iff)

text \<open>The clients that a station serves, in order.\<close>

definition serves :: "snow \<Rightarrow> nat \<Rightarrow> nat list \<Rightarrow> bool" where
  "serves s a xs \<longleftrightarrow> (\<exists>st. stations s a = Some st \<and> sq (cl_nx s) (st_head st) (st_tail st) xs)"

text \<open>The links of the list alone, wherever the tail pointer stands.\<close>

definition reaches :: "snow \<Rightarrow> nat \<Rightarrow> nat list \<Rightarrow> bool" where
  "reaches s a xs \<longleftrightarrow> (\<exists>st. stations s a = Some st \<and> sll (cl_nx s) (st_head st) xs)"

lemma serves_reaches: "serves s a xs \<Longrightarrow> reaches s a xs"
  by (auto simp: serves_def reaches_def sq_def)

subsection \<open>Removing a client\<close>

text \<open>The loop, from the client \<open>c\<close> at the position before \<open>ys\<close>.\<close>

lemma unlink_client_run:
  assumes "sll (cl_nx s) (Some c) (c # xs @ i # ys)" and "length xs < fuel"
  shows "unlink_client fuel i a c s =
    (let p = last (c # xs); s' = upd_cl p (c_next_update (\<lambda>_. c_next (clients s i))) s in
     Inr (if ys = [] then upd_st a (st_tail_update (\<lambda>_. Some p)) s' else s'))"
  using assms
proof (induction xs arbitrary: c fuel)
  case Nil
  then obtain f where f: "fuel = Suc f" by (cases fuel) auto
  have c: "c_next (clients s c) = Some i" using Nil by (simp add: cl_nx_def)
  have "sll (cl_nx s) (cl_nx s i) ys" using Nil by simp
  then have "c_next (clients s i) = None \<longleftrightarrow> ys = []" by (cases ys) (auto simp: cl_nx_def)
  moreover have "c \<noteq> i" using sll_distinct [OF Nil(1)] by simp
  ultimately show ?case using c by (simp add: f Let_def)
next
  case (Cons d xs)
  then obtain f where f: "fuel = Suc f" by (cases fuel) auto
  have c: "c_next (clients s c) = Some d" using Cons.prems by (simp add: cl_nx_def)
  have "d \<noteq> i" using sll_distinct [OF Cons.prems(1)] by auto
  moreover have "unlink_client f i a d s =
    (let p = last (d # xs); s' = upd_cl p (c_next_update (\<lambda>_. c_next (clients s i))) s in
     Inr (if ys = [] then upd_st a (st_tail_update (\<lambda>_. Some p)) s' else s'))"
    by (rule Cons.IH) (use Cons.prems f in auto)
  ultimately show ?case using c by (simp add: f)
qed

text \<open>Removal touches the list of one station and the link of one client before \<open>i\<close>, nothing else.\<close>

lemma remove_client_run:
  assumes "c_station (clients s i) = Some a" and "stations s a = Some st"
    and "sq (cl_nx s) (st_head st) (st_tail st) (xs @ i # ys)" and "length xs \<le> MAX_CLIENT_NUM"
  shows "\<exists>h t s'. remove_client_from_station i s = Inr s'
    \<and> s' = upd_st a (\<lambda>st. st\<lparr>st_head := h, st_tail := t\<rparr>)
        (if xs = [] then s else upd_cl (last xs) (c_next_update (\<lambda>_. c_next (clients s i))) s)
    \<and> sq (cl_nx s') h t (xs @ ys)"
proof -
  note sq = assms(3)
  have d: "distinct (xs @ i # ys)" using sq by (rule sq_distinct)
  have links: "sll (cl_nx s) (st_head st) (xs @ i # ys)" and tl: "st_tail st = Some (last (i # ys))"
    using sq by (auto simp: sq_def)
  have after: "sll (cl_nx s) (cl_nx s i) ys" using links by (rule sll_at)
  then have nx: "cl_nx s i = None \<longleftrightarrow> ys = []" by (cases ys) auto
  show ?thesis
  proof (cases xs)
    case Nil
    have hd: "st_head st = Some i" using links Nil by simp
    have t: "st_tail st = Some i \<longleftrightarrow> ys = []" using tl d by (auto split: if_splits)
    let ?t = "if ys = [] then None else st_tail st"
    let ?s = "upd_st a (\<lambda>st. st\<lparr>st_head := cl_nx s i, st_tail := ?t\<rparr>) s"
    have "(upd_st a (st_head_update (\<lambda>_. c_next (clients s i))) s) =
      upd_st a (\<lambda>st. st\<lparr>st_head := cl_nx s i, st_tail := st_tail st\<rparr>) s"
      by (simp add: upd_st_def cl_nx_def assms(2))
    moreover have "upd_st a (\<lambda>st'. st'\<lparr>st_head := cl_nx s i, st_tail := st_tail st'\<rparr>) s
        = upd_st a (\<lambda>st'. st'\<lparr>st_head := cl_nx s i, st_tail := st_tail st\<rparr>) s"
      by (simp add: upd_st_def assms(2))
    ultimately have "remove_client_from_station i s = Inr ?s"
      using assms(1,2) hd t nx by (auto simp: remove_client_from_station_def Let_def cl_nx_def)
    moreover have "sq (cl_nx ?s) (cl_nx s i) ?t ys" using after tl by (auto simp: sq_def)
    ultimately show ?thesis using Nil
      by (intro exI [of _ "cl_nx s i"] exI [of _ ?t] exI [of _ ?s]) simp
  next
    case (Cons c xs')
    have hd: "st_head st = Some c" and ci: "c \<noteq> i" using links d Cons by auto
    let ?p = "last xs"
    let ?t = "if ys = [] then Some ?p else st_tail st"
    let ?s1 = "upd_cl ?p (c_next_update (\<lambda>_. c_next (clients s i))) s"
    let ?s = "upd_st a (\<lambda>st. st\<lparr>st_head := Some c, st_tail := ?t\<rparr>) ?s1"
    have "sll (cl_nx s) (Some c) (c # xs' @ i # ys)" using links hd Cons by simp
    moreover have "length xs' < CLIENT_FUEL" using assms(4) Cons by (simp add: CLIENT_FUEL_def)
    ultimately have "unlink_client CLIENT_FUEL i a c s =
        Inr (if ys = [] then upd_st a (st_tail_update (\<lambda>_. Some ?p)) ?s1 else ?s1)"
      unfolding Cons by (subst unlink_client_run) (auto simp: Let_def)
    moreover have "(if ys = [] then upd_st a (st_tail_update (\<lambda>_. Some ?p)) ?s1 else ?s1) = ?s"
      using assms(2) hd by (auto simp: upd_st_def upd_cl_def fun_eq_iff)
    ultimately have run: "remove_client_from_station i s = Inr ?s"
      using assms(1,2) hd ci by (simp add: remove_client_from_station_def)
    have x: "xs = butlast xs @ [?p]" using Cons by simp
    have "sll (cl_nx s) (Some c) (butlast xs @ ?p # i # ys)"
      using links hd by (subst (asm) x) simp
    from sll_unlink [OF this] have "sll ((cl_nx s)(?p := cl_nx s i)) (Some c) (xs @ ys)"
      by (subst x) simp
    then have "sq (cl_nx ?s) (Some c) ?t (xs @ ys)" using tl Cons by (simp add: sq_def cl_nx_def)
    then show ?thesis using run Cons by (intro exI [of _ "Some c"] exI [of _ ?t] exI [of _ ?s]) simp
  qed
qed

lemma remove_client_none: "c_station (clients s i) = None \<Longrightarrow> remove_client_from_station i s = Inr s"
  by (simp add: remove_client_from_station_def)

subsection \<open>Appending a client\<close>

text \<open>The list grows by \<open>i\<close> and by the clients \<open>ys\<close> to which the link of \<open>i\<close> leads.\<close>

lemma append_client_run:
  assumes "stations s a = Some st" and "sq (cl_nx s) (st_head st) (st_tail st) xs"
    and "c_station (clients s i) \<noteq> Some a" and "sll (cl_nx s) (cl_nx s i) ys"
    and "set xs \<inter> set (i # ys) = {}"
  shows "\<exists>h s'. append_client_to_station i a s = Inr s'
    \<and> s' = upd_cl i (c_station_update (\<lambda>_. Some a)) (upd_st a (\<lambda>st. st\<lparr>st_head := h, st_tail := Some i, st_count := st_count st + 1\<rparr>)
        (if xs = [] then s else upd_cl (last xs) (c_next_update (\<lambda>_. Some i)) s))
    \<and> sll (cl_nx s') h (xs @ i # ys)"
proof (cases "xs = []")
  case True
  let ?s = "upd_cl i (c_station_update (\<lambda>_. Some a))
     (upd_st a (\<lambda>st. st\<lparr>st_head := Some i, st_tail := Some i, st_count := st_count st + 1\<rparr>) s)"
  have "append_client_to_station i a s = Inr ?s"
    using assms(1-3) True by (simp add: append_client_to_station_def upd_st_def)
  then show ?thesis using assms(4) True by auto
next
  case False
  let ?l = "last xs"
  have t: "st_tail st = Some ?l" and links: "sll (cl_nx s) (st_head st) xs"
    using assms(2) False by (auto simp: sq_def)
  have h: "st_head st \<noteq> None" using links False by (cases xs) auto
  let ?s1 = "upd_cl ?l (c_next_update (\<lambda>_. Some i)) s"
  let ?s = "upd_cl i (c_station_update (\<lambda>_. Some a))
     (upd_st a (\<lambda>st'. st'\<lparr>st_head := st_head st, st_tail := Some i, st_count := st_count st' + 1\<rparr>) ?s1)"
  have "append_client_to_station i a s = Inr ?s"
    using assms(1,3) t h by (auto simp: append_client_to_station_def upd_st_def Let_def upd_cl_def fun_eq_iff)
  moreover have "sll ((cl_nx s)(?l := Some i)) (st_head st) (xs @ i # ys)"
  proof -
    have "?l \<in> set xs" using False by simp
    have x: "xs = butlast xs @ [?l]" using False by simp
    have d: "distinct (butlast xs @ [?l])" using sll_distinct [OF links] x by simp
    have "sll ((cl_nx s)(?l := Some i)) (cl_nx s i) ys"
      using assms(4,5) \<open>?l \<in> set xs\<close> by (subst sll_frame [where nx = "cl_nx s"]) auto
    then have "sll ((cl_nx s)(?l := Some i)) (Some i) (i # ys)" using assms(5) \<open>?l \<in> set xs\<close> by auto
    moreover have "sll (cl_nx s) p (zs @ [?l]) \<Longrightarrow> ?l \<notin> set zs \<Longrightarrow> sll ((cl_nx s)(?l := Some i)) (Some i) (i # ys) \<Longrightarrow>
        sll ((cl_nx s)(?l := Some i)) p (zs @ ?l # i # ys)" for p zs
      by (induction zs arbitrary: p) auto
    ultimately show ?thesis using links d by (subst x) (subst (asm) x, simp)
  qed
  ultimately show ?thesis using False by (intro exI [of _ "st_head st"] exI [of _ ?s]) simp
qed

end
