(* ===== verification/Sninv.thy ===== *)
theory Sninv
  imports Snlinks
begin

text \<open>
  The invariant \<open>sninv\<close> of the Snowcast server, and the operations that keep it.  \<open>okrun P m\<close> says that
  \<open>m\<close> returns a value with \<open>P\<close> or stops for a reason that lies outside the server: a name that does
  not fit its buffer or a file that cannot be read.
\<close>

subsection \<open>Runs\<close>

definition okrun :: "('a \<Rightarrow> bool) \<Rightarrow> snfault + 'a \<Rightarrow> bool" where
  "okrun P m \<longleftrightarrow> (case m of Inr x \<Rightarrow> P x | Inl f \<Rightarrow> f = Overrun \<or> f = Stopped 1)"

lemma okrun_simps [simp]:
  "okrun P (Inr x) = P x" "okrun P (Inl Overrun)" "okrun P (Inl (Stopped 1))"
  by (simp_all add: okrun_def)

lemma okrun_bnd: "okrun Q m \<Longrightarrow> (\<And>x. Q x \<Longrightarrow> okrun P (f x)) \<Longrightarrow> okrun P (bnd m f)"
  by (cases m) (auto simp: okrun_def)

lemma okrun_check: "b \<Longrightarrow> okrun P m \<Longrightarrow> okrun P (check b e m)"
  by simp

lemma okrun_overrun: "(b \<Longrightarrow> okrun P m) \<Longrightarrow> okrun P (check b Overrun m)"
  by (cases b) simp_all

lemma okrun_deref: "p = Some x \<Longrightarrow> okrun P (f x) \<Longrightarrow> okrun P (deref p e f)"
  by simp

lemma okrun_mono: "okrun Q m \<Longrightarrow> (\<And>x. Q x \<Longrightarrow> P x) \<Longrightarrow> okrun P m"
  by (auto simp: okrun_def split: sum.splits)

lemma okrun_InrD: "okrun P m \<Longrightarrow> m = Inr x \<Longrightarrow> P x"
  by (simp add: okrun_def)

subsection \<open>The invariant\<close>

definition client_ok :: "snow \<Rightarrow> nat \<Rightarrow> bool" where
  "client_ok s i \<longleftrightarrow> (let c = clients s i in
     (MAX_CLIENT_NUM \<le> i \<or> c_state c = NO_STATE \<longrightarrow> c = zero_client)
     \<and> (c_state c \<noteq> NO_STATE \<longrightarrow> c_socket c \<noteq> 0 \<and> c_ip c \<noteq> No_ip \<and> c_socket c \<in> master s)
     \<and> (c_station c = None \<longrightarrow> c_next c = None)
     \<and> (\<forall>a. c_station c = Some a \<longrightarrow> stations s a \<noteq> None \<and> c_state c = HANDSHAKED \<and> c_udp_addr c \<noteq> None)
     \<and> (c_udp_addr c \<noteq> None \<longrightarrow> c_udp_sock c \<noteq> 0))"

definition sockets_ok :: "nat \<Rightarrow> snow \<Rightarrow> bool" where
  "sockets_ok L s \<longleftrightarrow> L \<in> master s \<and> master s \<subseteq> open_fds s
     \<and> (\<forall>i. c_socket (clients s i) \<noteq> L \<or> c_state (clients s i) = NO_STATE)
     \<and> (\<forall>i j. c_socket (clients s i) = c_socket (clients s j) \<longrightarrow> c_socket (clients s i) \<noteq> 0 \<longrightarrow> i = j)
     \<and> (\<forall>fd\<in>master s. fd = L \<or> fd \<noteq> 0 \<and> (\<exists>i. c_socket (clients s i) = fd))"

definition station_ok :: "snow \<Rightarrow> nat \<Rightarrow> bool" where
  "station_ok s a \<longleftrightarrow> (\<forall>st. stations s a = Some st \<longrightarrow> a < fresh_station s \<and> st_songs st \<noteq> []
     \<and> (\<exists>xs. serves s a xs \<and> (\<forall>i. i \<in> set xs \<longleftrightarrow> c_station (clients s i) = Some a)
           \<and> int (length xs) \<le> st_count st))"

definition list_ok :: "snow \<Rightarrow> bool" where
  "list_ok s \<longleftrightarrow> (\<exists>as. sq (st_nx s) (sl_head s) (sl_tail s) as \<and> set as = dom (stations s)
     \<and> sl_count s = int (length as))"

definition sninv :: "nat \<Rightarrow> snow \<Rightarrow> bool" where
  "sninv L s \<longleftrightarrow> sl_alive s \<and> (\<forall>i. client_ok s i) \<and> sockets_ok L s \<and> (\<forall>a. station_ok s a) \<and> list_ok s"

lemma st_nx_simps [simp]:
  "st_nx (upd_cl i f s) = st_nx s" "st_nx (logged e s) = st_nx s" "st_nx (s\<lparr>sn_log := l\<rparr>) = st_nx s"
  "cl_nx (s\<lparr>sn_log := l\<rparr>) = cl_nx s"
  by (simp_all add: st_nx_def cl_nx_def fun_eq_iff)

lemma st_nx_upd_st [simp]: "(\<And>st. st_next (f st) = st_next st) \<Longrightarrow> st_nx (upd_st a f s) = st_nx s"
  by (auto simp: st_nx_def fun_eq_iff split: option.splits)

lemma sninv_log [simp]: "sninv L (s\<lparr>sn_log := l\<rparr>) = sninv L s"
  by (simp add: sninv_def client_ok_def sockets_ok_def station_ok_def list_ok_def serves_def)

lemma logged_log: "logged e s = s\<lparr>sn_log := e # sn_log s\<rparr>"
  by (simp add: logged_def)

text \<open>Two states that differ in what was sent.\<close>

definition talked :: "snow \<Rightarrow> snow \<Rightarrow> bool" where
  "talked s s' \<longleftrightarrow> (\<exists>l. s' = s\<lparr>sn_log := l\<rparr>)"

lemma talked_refl [simp]: "talked s s"
  unfolding talked_def by (intro exI [of _ "sn_log s"]) simp

lemma talked_logged [simp]: "talked s (logged e s)"
  unfolding talked_def logged_log by blast

lemma talked_trans: "talked s t \<Longrightarrow> talked t u \<Longrightarrow> talked s u"
  by (auto simp: talked_def)

lemma talked_inv: "talked s t \<Longrightarrow> sninv L s \<Longrightarrow> sninv L t"
  by (auto simp: talked_def)

lemma talkedD:
  assumes "talked s t"
  shows "clients t = clients s" "stations t = stations s" "sl_head t = sl_head s" "sl_tail t = sl_tail s"
    "sl_count t = sl_count s" "sl_alive t = sl_alive s" "fresh_station t = fresh_station s"
    "master t = master s" "open_fds t = open_fds s" "cl_nx t = cl_nx s" "st_nx t = st_nx s"
  using assms by (auto simp: talked_def)

lemma send_all_okrun: "net_ok N \<Longrightarrow> buf \<noteq> [] \<Longrightarrow> okrun (\<lambda>(r, s'). talked s s') (send_all N fd buf s)"
  using send_all_ends [of N buf fd s] by (auto simp: talked_def)

lemma announce_okrun: "net_ok N \<Longrightarrow> okrun (\<lambda>(r, s'). talked s s') (send_announce N fd msg s)"
  unfolding send_announce_def
  by (rule okrun_bnd [OF send_all_okrun]) (auto simp: text_message_def)

lemma invalid_okrun: "net_ok N \<Longrightarrow> okrun (\<lambda>(r, s'). talked s s') (send_invalid_command N fd msg s)"
  unfolding send_invalid_command_def
  by (rule okrun_bnd [OF send_all_okrun]) (auto simp: text_message_def)

lemma welcome_okrun: "net_ok N \<Longrightarrow> okrun (\<lambda>(r, s'). talked s s') (send_welcome N fd s)"
  unfolding send_welcome_def by (rule okrun_bnd [OF send_all_okrun]) auto

lemma refuse_okrun:
  assumes "net_ok N" and "\<And>s'. talked s s' \<Longrightarrow> okrun P (rest s')" and "\<And>s'. talked s s' \<Longrightarrow> P (-1, s')"
  shows "okrun P (refuse N fd msg rest s)"
  unfolding refuse_def by (rule okrun_bnd [OF invalid_okrun [OF assms(1)]]) (auto simp: assms(2,3))

subsection \<open>What the invariant gives\<close>

lemma live_client:
  assumes "client_ok s i" and "clients s i \<noteq> zero_client"
  shows "i < MAX_CLIENT_NUM" and "c_state (clients s i) \<noteq> NO_STATE"
proof -
  have "\<not> (MAX_CLIENT_NUM \<le> i \<or> c_state (clients s i) = NO_STATE)"
    using assms unfolding client_ok_def Let_def by blast
  then show "i < MAX_CLIENT_NUM" and "c_state (clients s i) \<noteq> NO_STATE" by simp_all
qed

lemma zero_client_simps [simp]:
  "c_state zero_client = NO_STATE" "c_socket zero_client = 0" "c_station zero_client = None"
  "c_next zero_client = None" "c_udp_addr zero_client = None"
  by (simp_all add: zero_client_def)

lemma st_nx_at: "stations s a = Some st \<Longrightarrow> st_nx s a = st_next st"
  by (simp add: st_nx_def)

lemma client_index:
  assumes "sninv L s" and "fd \<in> master s" and "fd \<noteq> L"
  obtains i where "find_client fd s = Some i" and "i < MAX_CLIENT_NUM" and "c_socket (clients s i) = fd"
    and "c_state (clients s i) \<noteq> NO_STATE"
proof -
  have sock: "sockets_ok L s" using assms(1) by (simp add: sninv_def)
  then obtain j where j: "c_socket (clients s j) = fd" "fd \<noteq> 0" using assms(2,3) by (auto simp: sockets_ok_def)
  have ok: "client_ok s j" using assms(1) by (simp add: sninv_def)
  have nz: "clients s j \<noteq> zero_client" using j by auto
  note st = live_client(2,1) [OF ok nz]
  have "find_client fd s = Some j"
    unfolding find_client_def find_Some_iff
  proof (intro exI [of _ j] conjI allI impI)
    fix k assume "k < j"
    show "c_socket (clients s ([0..<MAX_CLIENT_NUM] ! k)) \<noteq> fd"
    proof
      assume "c_socket (clients s ([0..<MAX_CLIENT_NUM] ! k)) = fd"
      then have "c_socket (clients s k) = fd" using \<open>k < j\<close> st(2) by simp
      then have "k = j" using sock j unfolding sockets_ok_def by metis
      then show False using \<open>k < j\<close> by simp
    qed
  qed (use st j in simp_all)
  with st j show ?thesis using that by blast
qed

lemma station_serves:
  assumes "sninv L s" and "stations s a = Some st"
  obtains xs where "sq (cl_nx s) (st_head st) (st_tail st) xs" and "length xs \<le> MAX_CLIENT_NUM"
    and "\<forall>i. i \<in> set xs \<longleftrightarrow> c_station (clients s i) = Some a" and "int (length xs) \<le> st_count st"
    and "\<forall>i\<in>set xs. c_state (clients s i) = HANDSHAKED \<and> c_udp_sock (clients s i) \<noteq> 0
           \<and> c_udp_addr (clients s i) \<noteq> None \<and> c_socket (clients s i) \<noteq> 0"
proof -
  have "station_ok s a" using assms(1) by (simp add: sninv_def)
  then obtain xs where sv: "sq (cl_nx s) (st_head st) (st_tail st) xs"
    and m: "\<forall>i. i \<in> set xs \<longleftrightarrow> c_station (clients s i) = Some a" "int (length xs) \<le> st_count st"
    using assms(2) by (auto simp: station_ok_def serves_def)
  have ok: "client_ok s i" for i using assms(1) by (simp add: sninv_def)
  have h: "\<forall>i\<in>set xs. c_state (clients s i) = HANDSHAKED \<and> c_udp_sock (clients s i) \<noteq> 0
           \<and> c_udp_addr (clients s i) \<noteq> None \<and> c_socket (clients s i) \<noteq> 0"
  proof
    fix i assume "i \<in> set xs"
    with m(1) ok [of i] show "c_state (clients s i) = HANDSHAKED \<and> c_udp_sock (clients s i) \<noteq> 0
           \<and> c_udp_addr (clients s i) \<noteq> None \<and> c_socket (clients s i) \<noteq> 0" by (auto simp: client_ok_def Let_def)
  qed
  have "i < MAX_CLIENT_NUM" if "i \<in> set xs" for i
  proof -
    have "clients s i \<noteq> zero_client" using h that by auto
    from live_client(1) [OF ok this] show ?thesis .
  qed
  then have "set xs \<subseteq> {..<MAX_CLIENT_NUM}" by auto
  then have "card (set xs) \<le> MAX_CLIENT_NUM" using card_mono [of "{..<MAX_CLIENT_NUM}" "set xs"] by simp
  then have "length xs \<le> MAX_CLIENT_NUM" using sq_distinct [OF sv] by (simp add: distinct_card)
  with that sv m h show ?thesis by blast
qed

lemma station_list:
  assumes "sninv L s"
  obtains as where "sq (st_nx s) (sl_head s) (sl_tail s) as" and "set as = dom (stations s)"
    and "sl_count s = int (length as)" and "length as \<le> fresh_station s"
proof -
  from assms obtain as where as: "sq (st_nx s) (sl_head s) (sl_tail s) as" "set as = dom (stations s)"
    "sl_count s = int (length as)" by (auto simp: sninv_def list_ok_def)
  have "set as \<subseteq> {..<fresh_station s}" using assms as(2) by (auto simp: sninv_def station_ok_def)
  then have "card (set as) \<le> fresh_station s" using card_mono [of "{..<fresh_station s}" "set as"] by simp
  then have "length as \<le> fresh_station s" using sq_distinct [OF as(1)] by (simp add: distinct_card)
  with that as show ?thesis by blast
qed

lemma find_id_run:
  assumes "sll (st_nx s) p as" and "set as \<subseteq> dom (stations s)" and "length as < fuel"
  shows "\<exists>r. find_id fuel s sid p = Inr r \<and> (\<forall>a. r = Some a \<longrightarrow> stations s a \<noteq> None)"
  using assms
proof (induction fuel arbitrary: p as)
  case (Suc fuel)
  show ?case
  proof (cases as)
    case Nil
    with Suc.prems show ?thesis by simp
  next
    case (Cons a bs)
    with Suc.prems obtain st where st: "stations s a = Some st" "p = Some a" by auto
    have "sll (st_nx s) (st_next st) bs" using Suc.prems(1) Cons st by (simp add: st_nx_at)
    from Suc.IH [OF this] Suc.prems Cons st show ?thesis by auto
  qed
qed simp

lemma find_station_run:
  assumes "sninv L s"
  shows "\<exists>r. find_station_from_id sid s = Inr r \<and> (\<forall>a. r = Some a \<longrightarrow> stations s a \<noteq> None)"
proof -
  obtain as where "sq (st_nx s) (sl_head s) (sl_tail s) as" "set as = dom (stations s)" "length as \<le> fresh_station s"
    using station_list [OF assms] by metis
  then have "\<exists>r. find_id (Suc (fresh_station s)) s sid (sl_head s) = Inr r \<and> (\<forall>a. r = Some a \<longrightarrow> stations s a \<noteq> None)"
    by (intro find_id_run) (auto simp: sq_def)
  then show ?thesis using assms by (simp add: find_station_from_id_def sninv_def)
qed

end
