(* ===== verification/Snkeep.thy ===== *)
theory Snkeep
  imports Sninv
begin

text \<open>
  The messages of clients keep the invariant: greeting, setting a station for the first time, requests
  and hanging up, and the arrival of a client.
\<close>

lemma dom_upd_st [simp]: "dom (stations (upd_st a f s)) = dom (stations s)"
  by (auto simp: upd_st_def dom_def)

text \<open>Changes that leave the list of stations alone.\<close>

lemma list_ok_cong:
  assumes "list_ok s" and "st_nx s' = st_nx s" and "dom (stations s') = dom (stations s)"
    and "sl_head s' = sl_head s" and "sl_tail s' = sl_tail s" and "sl_count s' = sl_count s"
  shows "list_ok s'"
  using assms by (simp add: list_ok_def)

subsection \<open>Changes of one client\<close>

lemma sninv_upd_cl:
  assumes inv: "sninv L s" and live: "c_state (clients s i) \<noteq> NO_STATE"
    and same: "c_station (f (clients s i)) = c_station (clients s i)" "c_next (f (clients s i)) = c_next (clients s i)"
      "c_socket (f (clients s i)) = c_socket (clients s i)"
    and ok: "client_ok (upd_cl i f s) i"
  shows "sninv L (upd_cl i f s)"
proof -
  let ?s = "upd_cl i f s"
  have nx: "cl_nx ?s = cl_nx s" using same(2) by (simp add: cl_nx_def fun_eq_iff)
  have st: "c_station (clients ?s j) = c_station (clients s j)" for j using same(1) by simp
  have sk: "c_socket (clients ?s j) = c_socket (clients s j)" for j using same(3) by simp
  have "client_ok ?s j" for j
  proof (cases "j = i")
    case False
    have "client_ok s j" using inv by (simp add: sninv_def)
    then show ?thesis using False by (simp add: client_ok_def)
  qed (use ok in simp)
  moreover have "sockets_ok L ?s"
  proof -
    have so: "sockets_ok L s" using inv by (simp add: sninv_def)
    have "c_socket (clients ?s j) \<noteq> L \<or> c_state (clients ?s j) = NO_STATE" for j
      using so live same(3) by (auto simp: sockets_ok_def)
    then show ?thesis using so unfolding sockets_ok_def sk by simp
  qed
  moreover have "station_ok ?s a" for a
  proof -
    have "station_ok s a" using inv by (simp add: sninv_def)
    then show ?thesis unfolding station_ok_def serves_def nx st by simp
  qed
  moreover have "list_ok ?s" using inv by (auto simp: sninv_def intro: list_ok_cong)
  ultimately show ?thesis using inv by (simp add: sninv_def)
qed

lemma hello_keeps:
  assumes inv: "sninv L s" and net: "net_ok N" and fd: "fd \<in> master s" "fd \<noteq> L"
  shows "okrun (\<lambda>(r, s'). sninv L s') (hello N fd port s)"
proof -
  obtain i where i: "find_client fd s = Some i" "i < MAX_CLIENT_NUM" "c_state (clients s i) \<noteq> NO_STATE"
    using client_index [OF inv fd] by metis
  have ok: "client_ok s i" using inv by (simp add: sninv_def)
  show ?thesis
  proof (cases "c_state (clients s i) = HANDSHAKED")
    case True
    then show ?thesis using i inv unfolding hello_def
      by (auto intro!: refuse_okrun [OF net] dest: talked_inv)
  next
    case False
    show ?thesis unfolding hello_def
    proof (rule okrun_deref [OF i(1)], simp only: False if_False, rule okrun_bnd [OF welcome_okrun [OF net]])
      fix x :: "int \<times> snow" assume x: "case x of (r, s') \<Rightarrow> talked s s'"
      obtain r s1 where xe: "x = (r, s1)" by (cases x)
      have t: "talked s s1" using x xe by simp
      note td = talkedD [OF t]
      have inv1: "sninv L s1" by (rule talked_inv [OF t inv])
      let ?f = "c_state_update (\<lambda>_. HANDSHAKED)"
      let ?s2 = "upd_cl i (c_ip_update (\<lambda>_. Local_ip)) (upd_cl i ?f s1)"
      have live1: "c_state (clients s1 i) \<noteq> NO_STATE" using td i by simp
      have ok1: "client_ok s1 i" using inv1 by (simp add: sninv_def)
      have nos: "c_station (clients s1 i) = None" using ok1 td False by (auto simp: client_ok_def Let_def)
      have inv2: "sninv L (upd_cl i ?f s1)"
        by (rule sninv_upd_cl [OF inv1 live1]) (use ok1 live1 i(2) in \<open>auto simp: client_ok_def Let_def\<close>)
      have ok2: "client_ok (upd_cl i ?f s1) i" using inv2 by (simp add: sninv_def)
      have inv3: "sninv L ?s2"
        by (rule sninv_upd_cl [OF inv2]) (use ok2 i(2) in \<open>auto simp: client_ok_def Let_def\<close>)
      have ok3: "client_ok ?s2 i" using inv3 by (simp add: sninv_def)
      have assertion: "c_ip (clients (upd_cl i ?f s1) i) \<noteq> No_ip \<and> c_socket (clients (upd_cl i ?f s1) i) \<noteq> 0
          \<and> c_state (clients (upd_cl i ?f s1) i) \<noteq> NO_STATE"
        using ok2 by (auto simp: client_ok_def Let_def)
      have port: "sninv L (upd_cl i (c_udp_port_update (\<lambda>_. port)) t)" if "sninv L t" "c_state (clients t i) = HANDSHAKED" for t
      proof -
        have okt: "client_ok t i" using that by (simp add: sninv_def)
        show ?thesis
          by (rule sninv_upd_cl [OF that(1)]) (use that(2) okt i(2) in \<open>auto simp: client_ok_def Let_def\<close>)
      qed
      have udp: "sninv L (upd_cl i (\<lambda>c. c\<lparr>c_udp_addr := Some addr, c_udp_sock := sock\<rparr>) ?s2)"
        if "n_udp N (sn_log ?s2) port = Some (addr, sock)" for addr sock
      proof -
        have "sock \<noteq> 0" using that net unfolding net_ok_def by metis
        then show ?thesis
          by (intro sninv_upd_cl [OF inv3]) (use ok3 i(2) in \<open>auto simp: client_ok_def Let_def\<close>)
      qed
      show "okrun (\<lambda>(r, s'). sninv L s') (case x of (r, s) \<Rightarrow> if r = -1 then Inr (-1, s)
         else bnd (build_udpconnection N port i (upd_cl i ?f s)) (\<lambda>(r, s).
              Inr (0, if r = -1 then s else upd_cl i (c_udp_port_update (\<lambda>_. port)) s)))"
        unfolding xe prod.case build_udpconnection_def Let_def
        using inv1 assertion inv3 udp port
        by (auto split: option.split)
    qed
  qed
qed

subsection \<open>Setting a station for the first time\<close>

definition playing :: "snow \<Rightarrow> bool" where
  "playing s \<longleftrightarrow> (\<forall>a st. stations s a = Some st \<longrightarrow> st_cur st \<noteq> None)"

lemma song_text_okrun: "st_cur st \<noteq> None \<Longrightarrow> okrun (\<lambda>_. True) (song_text p st)"
  by (auto simp: song_text_def okrun_overrun)

lemma send_cur_song_keeps:
  assumes "net_ok N" and "stations s a = Some st" and "st_cur st \<noteq> None"
  shows "okrun (talked s) (send_cur_song N fd a s)"
  unfolding send_cur_song_def
  by (rule okrun_deref [OF assms(2)], rule okrun_bnd [OF song_text_okrun [OF assms(3)]],
      rule okrun_bnd [OF announce_okrun [OF assms(1)]]) auto

lemma append_keeps:
  assumes inv: "sninv L s" and a: "stations s a \<noteq> None" and none: "c_station (clients s i) = None"
    and live: "c_state (clients s i) = HANDSHAKED" and udp: "c_udp_addr (clients s i) \<noteq> None"
  shows "\<exists>s'. append_client_to_station i a s = Inr s' \<and> sninv L s' \<and> c_station (clients s' i) = Some a
    \<and> (\<exists>xs. serves s a xs \<and> serves s' a (xs @ [i]))
    \<and> (\<forall>j. c_socket (clients s' j) = c_socket (clients s j))
    \<and> (\<forall>b. map_option st_cur (stations s' b) = map_option st_cur (stations s b)) \<and> sn_log s' = sn_log s"
proof -
  obtain st where st: "stations s a = Some st" using a by auto
  obtain xs where sq: "sq (cl_nx s) (st_head st) (st_tail st) xs"
    and m: "\<forall>j. j \<in> set xs \<longleftrightarrow> c_station (clients s j) = Some a" "int (length xs) \<le> st_count st"
    using station_serves [OF inv st] by metis
  have ok: "client_ok s j" for j using inv by (simp add: sninv_def)
  have nx: "cl_nx s i = None" using ok [of i] none by (simp add: client_ok_def cl_nx_def Let_def)
  have "sll (cl_nx s) (cl_nx s i) []" using nx by simp
  moreover have "set xs \<inter> set [i] = {}" using m none by simp
  moreover have "c_station (clients s i) \<noteq> Some a" using none by simp
  ultimately obtain h s' where run: "append_client_to_station i a s = Inr s'"
    and s': "s' = upd_cl i (c_station_update (\<lambda>_. Some a)) (upd_st a (\<lambda>st. st\<lparr>st_head := h, st_tail := Some i, st_count := st_count st + 1\<rparr>)
        (if xs = [] then s else upd_cl (last xs) (c_next_update (\<lambda>_. Some i)) s))"
    and links: "sll (cl_nx s') h (xs @ [i])"
    using append_client_run [OF st sq, of i "[]"] by auto
  have li: "last xs \<noteq> i" if "xs \<noteq> []" using that m none last_in_set [OF that] by auto
  have cl: "clients s' j = (if j = i then (clients s i)\<lparr>c_station := Some a\<rparr>
      else if xs \<noteq> [] \<and> j = last xs then (clients s j)\<lparr>c_next := Some i\<rparr> else clients s j)" for j
    using li by (cases "xs = []"; cases "j = i"; cases "j = last xs") (simp_all add: s')
  have sts: "stations s' b = (if b = a then Some (st\<lparr>st_head := h, st_tail := Some i, st_count := st_count st + 1\<rparr>)
      else stations s b)" for b using st by (simp add: s')
  have nx': "cl_nx s' j = cl_nx s j" if "j \<notin> set xs" for j
  proof -
    have "\<not> (xs \<noteq> [] \<and> j = last xs)" using that by auto
    then show ?thesis unfolding cl_nx_def cl by (simp only: if_False) simp
  qed
  have fld: "sl_alive s' = sl_alive s" "master s' = master s" "open_fds s' = open_fds s" "sl_head s' = sl_head s"
    "sl_tail s' = sl_tail s" "sl_count s' = sl_count s" "fresh_station s' = fresh_station s" "sn_log s' = sn_log s"
    by (simp_all add: s')
  have sv: "serves s' a (xs @ [i])" using links by (simp add: serves_def sts sq_def)
  have "sninv L s'"
    unfolding sninv_def fld
  proof (intro conjI allI)
    show "sl_alive s" using inv by (simp add: sninv_def)
    fix j
    have lst: "c_station (clients s (last xs)) = Some a" if "xs \<noteq> []" using m(1) last_in_set [OF that] by blast
    show "client_ok s' j"
      using ok [of j] ok [of i] live udp lst st unfolding client_ok_def fld
      by (auto simp: Let_def cl sts)
    show "sockets_ok L s'"
    proof -
      have "sockets_ok L s" using inv by (simp add: sninv_def)
      moreover have "c_socket (clients s' k) = c_socket (clients s k)" "c_state (clients s' k) = c_state (clients s k)" for k
        by (simp_all add: cl)
      ultimately show ?thesis by (simp add: sockets_ok_def fld)
    qed
    show "list_ok s'"
    proof (rule list_ok_cong)
      show "list_ok s" using inv by (simp add: sninv_def)
      show "st_nx s' = st_nx s" using st by (auto simp: st_nx_def fun_eq_iff sts)
      show "dom (stations s') = dom (stations s)" using st by (auto simp: sts dom_def split: if_splits)
    qed (simp_all add: fld)
    fix b
    have sb: "station_ok s b" using inv by (simp add: sninv_def)
    show "station_ok s' b"
    proof (cases "b = a")
      case True
      have "\<forall>j. j \<in> set (xs @ [i]) \<longleftrightarrow> c_station (clients s' j) = Some a" using m(1) by (auto simp: cl)
      with sv m(2) sb True st show ?thesis
        by (auto simp: station_ok_def sts fld intro!: exI [of _ "xs @ [i]"])
    next
      case False
      show ?thesis unfolding station_ok_def
      proof (intro allI impI)
        fix st' assume "stations s' b = Some st'"
        then have st': "stations s b = Some st'" using False by (simp add: sts)
        with sb obtain ys where ys: "serves s b ys" "\<forall>j. j \<in> set ys \<longleftrightarrow> c_station (clients s j) = Some b"
          "int (length ys) \<le> st_count st'" "b < fresh_station s" "st_songs st' \<noteq> []"
          by (auto simp: station_ok_def)
        have dis: "j \<notin> set xs" "j \<noteq> i" if "j \<in> set ys" for j using ys(2) m(1) none False that by auto
        have "serves s' b ys"
          using ys(1) False unfolding serves_def sts by (auto simp: sq_frame [of ys, OF nx'] dis)
        moreover have "\<forall>j. j \<in> set ys \<longleftrightarrow> c_station (clients s' j) = Some b"
          using ys(2) none False by (auto simp: cl)
        ultimately show "b < fresh_station s' \<and> st_songs st' \<noteq> [] \<and> (\<exists>xs. serves s' b xs
            \<and> (\<forall>i. (i \<in> set xs) = (c_station (clients s' i) = Some b)) \<and> int (length xs) \<le> st_count st')"
          using ys by (auto simp: fld)
      qed
    qed
  qed
  moreover have "serves s a xs" using sq st by (simp add: serves_def)
  ultimately show ?thesis using run sv st by (auto simp: cl sts fld intro!: exI [of _ xs])
qed

end
