(* ===== verification/Snmsgs.thy ===== *)
theory Snmsgs
  imports Snkeep
begin

text \<open>
  The rest of the steps of the listener: setting a station, requests, the arrival and the departure of
  a client.
\<close>

lemma playing_talked: "talked s t \<Longrightarrow> playing t = playing s"
  by (auto simp: talked_def playing_def)

lemma send_cur_song_inv:
  assumes "net_ok N" and "sninv L s" and "stations s a \<noteq> None" and "playing s"
  shows "okrun (sninv L) (send_cur_song N fd a s)"
proof -
  obtain st where st: "stations s a = Some st" using assms(3) by auto
  then have "st_cur st \<noteq> None" using assms(4) by (auto simp: playing_def)
  from okrun_mono [OF send_cur_song_keeps [OF assms(1) st this]] show ?thesis
    using talked_inv [OF _ assms(2)] by blast
qed

lemma set_station_keeps:
  assumes inv: "sninv L s" and net: "net_ok N" and fd: "fd \<in> master s" "fd \<noteq> L" and play: "playing s"
    and i: "find_client fd s = Some i"
    and good: "c_state (clients s i) = HANDSHAKED" "c_udp_addr (clients s i) \<noteq> None" "c_station (clients s i) = None"
  shows "okrun (\<lambda>(r, s'). sninv L s') (set_station N fd num s)"
proof -
  obtain r where r: "find_station_from_id (int num) s = Inr r" "\<forall>a. r = Some a \<longrightarrow> stations s a \<noteq> None"
    using find_station_run [OF inv] by blast
  show ?thesis
  proof (cases r)
    case None
    then show ?thesis using i good r(1) unfolding set_station_def
      by (auto simp: Let_def intro!: okrun_bnd [OF invalid_okrun [OF net]] dest: talked_inv [OF _ inv])
  next
    case (Some a)
    with r have a: "stations s a \<noteq> None" by simp
    obtain s1 where s1: "append_client_to_station i a s = Inr s1" "sninv L s1" "c_station (clients s1 i) = Some a"
      and cur: "\<forall>b. map_option st_cur (stations s1 b) = map_option st_cur (stations s b)"
      using append_keeps [OF inv a good(3,1,2)] by blast
    have play1: "playing s1"
      unfolding playing_def
    proof (intro allI impI)
      fix b st assume st: "stations s1 b = Some st"
      with cur have "map_option st_cur (stations s b) = Some (st_cur st)" by (metis option.simps(9))
      then obtain st0 where "stations s b = Some st0" "st_cur st0 = st_cur st" by auto
      with play show "st_cur st \<noteq> None" unfolding playing_def by metis
    qed
    have tail: "okrun (\<lambda>(r, s'). sninv L s')
        (bnd (send_announce N (c_socket (clients s1 i)) ''Set Station Confirmed'' s1) (\<lambda>(_, s).
         deref (c_station (clients s i)) Assertion (\<lambda>b. bnd (send_cur_song N fd b s) (\<lambda>s. Inr (0, s)))))"
    proof (rule okrun_bnd [OF announce_okrun [OF net]])
      fix x :: "int \<times> snow" assume x: "case x of (r, s') \<Rightarrow> talked s1 s'"
      obtain q s2 where xe: "x = (q, s2)" by (cases x)
      have t: "talked s1 s2" using x xe by simp
      have "client_ok s1 i" using s1(2) by (simp add: sninv_def)
      then have "stations s2 a \<noteq> None" using s1(3) talkedD [OF t] by (simp add: client_ok_def Let_def)
      from send_cur_song_inv [OF net talked_inv [OF t s1(2)] this] play1 playing_talked [OF t]
      have "okrun (sninv L) (send_cur_song N fd a s2)" by simp
      then have "okrun (\<lambda>(r, s'). sninv L s') (bnd (send_cur_song N fd a s2) (\<lambda>s. Inr (0, s)))"
        by (rule okrun_bnd) simp
      then show "okrun (\<lambda>(r, s'). sninv L s') (case x of (_, s) \<Rightarrow>
         deref (c_station (clients s i)) Assertion (\<lambda>b. bnd (send_cur_song N fd b s) (\<lambda>s. Inr (0, s))))"
        using s1(3) talkedD [OF t] xe by simp
    qed
    show ?thesis using i good r(1) Some s1(1) tail unfolding set_station_def by (simp add: Let_def)
  qed
qed

lemma songs_okrun: "net_ok N \<Longrightarrow> okrun (talked s) (send_songs N fd songs s)"
proof (induction songs arbitrary: s)
  case (Cons song songs)
  show ?case unfolding send_songs.simps
  proof (rule okrun_bnd [OF announce_okrun [OF Cons.prems]])
    fix x :: "int \<times> snow" assume x: "case x of (r, s') \<Rightarrow> talked s s'"
    obtain q s2 where xe: "x = (q, s2)" by (cases x)
    have "okrun (talked s) (send_songs N fd songs s2)"
      by (rule okrun_mono [OF Cons.IH [OF Cons.prems]]) (use x xe talked_trans in auto)
    then show "okrun (talked s) (case x of (_, w) \<Rightarrow> send_songs N fd songs w)" using xe by simp
  qed
qed simp

lemma all_songs_okrun:
  assumes "net_ok N" and "sll (st_nx s) p as" and "set as \<subseteq> dom (stations s)" and "length as < fuel" and "playing s"
  shows "okrun (talked s) (all_cur_songs fuel N fd p k s)"
  using assms(2-5)
proof (induction fuel arbitrary: p as k s)
  case (Suc fuel)
  show ?case
  proof (cases as)
    case Nil
    with Suc.prems show ?thesis by simp
  next
    case (Cons a bs)
    with Suc.prems obtain st where st: "stations s a = Some st" "p = Some a" by auto
    have nx: "sll (st_nx s) (st_next st) bs" using Suc.prems(1) Cons st by (simp add: st_nx_at)
    have cur: "st_cur st \<noteq> None" using Suc.prems(4) st by (auto simp: playing_def)
    have "okrun (talked s) (all_cur_songs fuel N fd (st_next st) (Suc k) t)" if t: "talked s t" for t
    proof (rule okrun_mono)
      show "okrun (talked t) (all_cur_songs fuel N fd (st_next st) (Suc k) t)"
        by (rule Suc.IH) (use nx Suc.prems Cons talkedD [OF t] playing_talked [OF t] in auto)
    qed (rule talked_trans [OF t])
    then show ?thesis using st
      by (auto intro!: okrun_bnd [OF song_text_okrun [OF cur]] okrun_bnd [OF announce_okrun [OF assms(1)]])
  qed
qed simp

lemma station_request_keeps:
  assumes inv: "sninv L s" and net: "net_ok N" and fd: "fd \<in> master s" "fd \<noteq> L"
    and reply: "\<And>a t. talked s t \<Longrightarrow> stations t a \<noteq> None \<Longrightarrow> okrun (sninv L) (reply a t)"
  shows "okrun (\<lambda>(r, s'). sninv L s') (station_request N fd reply s)"
proof -
  obtain i where i: "find_client fd s = Some i" using client_index [OF inv fd] by metis
  have ok: "client_ok s i" using inv by (simp add: sninv_def)
  have body: "okrun (\<lambda>(r, s'). sninv L s') (case c_station (clients t i) of
         None \<Rightarrow> refuse N fd ''Not yet set station.'' (\<lambda>s. Inr (0, s)) t
       | Some a \<Rightarrow> bnd (send_announce N fd ''Request Confirmed'' t) (\<lambda>(_, s). bnd (reply a s) (\<lambda>s. Inr (0, s))))"
    if t: "talked s t" for t
  proof (cases "c_station (clients t i)")
    case None
    then show ?thesis
      by (auto intro!: refuse_okrun [OF net] dest: talked_inv [OF _ talked_inv [OF t inv]])
  next
    case (Some a)
    then have a: "stations s a \<noteq> None" using ok talkedD [OF t] by (simp add: client_ok_def Let_def)
    have "okrun (\<lambda>(r, s'). sninv L s') (bnd (reply a u) (\<lambda>s. Inr (0, s)))" if u: "talked t u" for u
      by (rule okrun_bnd [OF reply]) (use talked_trans [OF t u] talkedD [OF talked_trans [OF t u]] a in auto)
    then show ?thesis using Some by (auto intro!: okrun_bnd [OF announce_okrun [OF net]])
  qed
  show ?thesis unfolding station_request_def Let_def
    by (rule okrun_deref [OF i]) (auto intro: body refuse_okrun [OF net] dest: talked_inv [OF _ inv])
qed

lemma parse_keeps:
  assumes inv: "sninv L s" and net: "net_ok N" and fd: "fd \<in> master s" "fd \<noteq> L"
    and play: "byte buf 0 \<noteq> CMD_HELLO \<Longrightarrow> playing s"
    and good: "byte buf 0 = CMD_SETSTATION \<Longrightarrow> \<exists>i. find_client fd s = Some i \<and> c_state (clients s i) = HANDSHAKED
      \<and> c_udp_addr (clients s i) \<noteq> None \<and> c_station (clients s i) = None"
  shows "okrun (\<lambda>(r, s'). sninv L s') (parse_and_send N fd buf s)"
proof (cases "byte buf 0 = CMD_HELLO")
  case True
  then show ?thesis using hello_keeps [OF inv net fd] by (simp add: parse_and_send_def)
next
  case False
  note pl = play [OF False]
  have cur: "okrun (sninv L) (send_cur_song N fd a t)" if "talked s t" "stations t a \<noteq> None" for a t
    by (rule send_cur_song_inv [OF net talked_inv [OF that(1) inv] that(2)]) (use playing_talked [OF that(1)] pl in simp)
  have songs: "okrun (sninv L) (send_station_songs N fd a t)" if t: "talked s t" and "stations t a \<noteq> None" for a t
    using that by (auto simp: send_station_songs_def intro!: okrun_mono [OF songs_okrun [OF net]]
      dest: talked_inv [OF _ talked_inv [OF t inv]])
  have all: "okrun (\<lambda>(r, s'). sninv L s') (bnd (send_all_station_cur_song N fd t) (\<lambda>s. Inr (0 :: int, s)))" if t: "talked s t" for t
  proof -
    obtain as where as: "sq (st_nx t) (sl_head t) (sl_tail t) as" "set as = dom (stations t)" "length as \<le> fresh_station t"
      using station_list [OF talked_inv [OF t inv]] by metis
    have "okrun (talked t) (send_all_station_cur_song N fd t)" unfolding send_all_station_cur_song_def
      by (rule all_songs_okrun [OF net, of _ _ as]) (use as playing_talked [OF t] pl in \<open>auto simp: sq_def\<close>)
    then show ?thesis by (rule okrun_bnd) (auto dest: talked_inv [OF _ talked_inv [OF t inv]])
  qed
  show ?thesis
  proof (cases "byte buf 0 = CMD_SETSTATION")
    case True
    with good obtain i where "find_client fd s = Some i" "c_state (clients s i) = HANDSHAKED"
      "c_udp_addr (clients s i) \<noteq> None" "c_station (clients s i) = None" by blast
    from set_station_keeps [OF inv net fd pl this] True False show ?thesis by (simp add: parse_and_send_def)
  next
    case nset: False
    have "okrun (\<lambda>(r, s'). sninv L s') (bnd (send_announce N fd ''Request Confirmed'' s) (\<lambda>(_, s).
          bnd (send_all_station_cur_song N fd s) (\<lambda>s. Inr (0 :: int, s))))"
      by (rule okrun_bnd [OF announce_okrun [OF net]]) (auto intro: all)
    moreover have "okrun (\<lambda>(r, s'). sninv L s') (station_request N fd (send_cur_song N fd) s)"
      by (rule station_request_keeps [OF inv net fd]) (rule cur)
    moreover have "okrun (\<lambda>(r, s'). sninv L s') (station_request N fd (send_station_songs N fd) s)"
      by (rule station_request_keeps [OF inv net fd]) (rule songs)
    ultimately show ?thesis using False nset inv unfolding parse_and_send_def Let_def
      by (simp del: split_paired_All)
  qed
qed

end
