(* ===== verification/Snconn.thy ===== *)
theory Snconn
  imports Snkeep
begin

text \<open>
  The arrival and the departure of a client, and the rounds of the senders.
\<close>

subsection \<open>A client arrives\<close>

lemma accept_keeps:
  assumes inv: "sninv L s" and fd: "newfd \<notin> open_fds s" "newfd \<noteq> 0" and room: "find_first_client s = Some k"
  shows "\<exists>s'. accept_client N newfd ip s = Inr s' \<and> sninv L s' \<and> find_client newfd s' = Some k"
proof -
  let ?f = "\<lambda>c. c\<lparr>c_state := INIT_STATE, c_socket := newfd, c_ip := Remote_ip\<rparr>"
  let ?s' = "upd_cl k ?f (s\<lparr>master := insert newfd (master s), open_fds := insert newfd (open_fds s), remote_ip := ip\<rparr>)"
  have k: "k < MAX_CLIENT_NUM" "c_state (clients s k) = NO_STATE"
    using room by (auto simp: find_first_client_def find_Some_iff)
  have ok: "client_ok s j" for j using inv by (simp add: sninv_def)
  have so: "sockets_ok L s" using inv by (simp add: sninv_def)
  have z: "clients s k = zero_client" using ok [of k] k by (simp add: client_ok_def Let_def)
  have L: "newfd \<noteq> L" using so fd by (auto simp: sockets_ok_def)
  have other: "c_socket (clients s j) \<noteq> newfd" for j
  proof
    assume e: "c_socket (clients s j) = newfd"
    then have nz: "clients s j \<noteq> zero_client" using fd by auto
    from live_client(2) [OF ok nz] ok [of j] e have "newfd \<in> master s" by (simp add: client_ok_def Let_def)
    then show False using so fd by (auto simp: sockets_ok_def)
  qed
  have run: "accept_client N newfd ip s = Inr ?s'"
    using room by (simp add: accept_client_def Let_def find_first_client_def)
  have nx: "cl_nx ?s' = cl_nx s" by (simp add: cl_nx_def fun_eq_iff)
  have cs: "c_station (clients ?s' j) = c_station (clients s j)" for j by simp
  have "sninv L ?s'"
    unfolding sninv_def
  proof (intro conjI allI)
    show "sl_alive ?s'" using inv by (simp add: sninv_def)
    show "client_ok ?s' j" for j
    proof (cases "j = k")
      case True
      then show ?thesis using fd k by (simp add: client_ok_def Let_def z)
    next
      case False
      then show ?thesis using ok [of j] by (auto simp: client_ok_def Let_def)
    qed
    show "sockets_ok L ?s'"
      unfolding sockets_ok_def
    proof (intro conjI allI impI ballI)
      show "L \<in> master ?s'" "master ?s' \<subseteq> open_fds ?s'" using so by (auto simp: sockets_ok_def)
      fix i j
      show "c_socket (clients ?s' i) \<noteq> L \<or> c_state (clients ?s' i) = NO_STATE"
        using so L by (auto simp: sockets_ok_def)
      assume "c_socket (clients ?s' i) = c_socket (clients ?s' j)" "c_socket (clients ?s' i) \<noteq> 0"
      then have "i = k \<and> j = k \<or> c_socket (clients s i) = c_socket (clients s j) \<and> c_socket (clients s i) \<noteq> 0"
        using other [of i] other [of j] by (cases "i = k"; cases "j = k") simp_all
      then show "i = j" using so unfolding sockets_ok_def by metis
    next
      fix fd' assume "fd' \<in> master ?s'"
      then show "fd' = L \<or> fd' \<noteq> 0 \<and> (\<exists>i. c_socket (clients ?s' i) = fd')"
      proof (cases "fd' = newfd")
        case True
        have "c_socket (clients ?s' k) = fd'" using True by simp
        moreover have "fd' \<noteq> 0" using True fd by simp
        ultimately show ?thesis by blast
      next
        case False
        with \<open>fd' \<in> master ?s'\<close> have "fd' \<in> master s" by simp
        with so have "fd' = L \<or> fd' \<noteq> 0 \<and> (\<exists>i. c_socket (clients s i) = fd')" by (auto simp: sockets_ok_def)
        moreover have "c_socket (clients ?s' i) = c_socket (clients s i)" if "c_socket (clients s i) = fd'" "fd' \<noteq> 0" for i
          using that z by auto
        ultimately show ?thesis by metis
      qed
    qed
    show "station_ok ?s' a" for a
    proof -
      have "station_ok s a" using inv by (simp add: sninv_def)
      then show ?thesis unfolding station_ok_def serves_def nx cs by simp
    qed
    have "list_ok s" using inv by (simp add: sninv_def)
    then show "list_ok ?s'" by (rule list_ok_cong) (simp_all add: st_nx_def fun_eq_iff)
  qed
  moreover have "find_client newfd ?s' = Some k"
    unfolding find_client_def find_Some_iff using k other by (intro exI [of _ k]) auto
  ultimately show ?thesis using run by blast
qed

subsection \<open>A client leaves\<close>

lemma drop_client_inv:
  assumes inv: "sninv L s" and live: "c_socket (clients s i) \<noteq> 0"
    and z: "clients s' i = zero_client"
    and cl: "\<And>j. j \<noteq> i \<Longrightarrow> \<exists>p. clients s' j = (clients s j)\<lparr>c_next := p\<rparr>
        \<and> (c_station (clients s j) = None \<longrightarrow> p = c_next (clients s j))"
    and fld: "master s' = master s - {c_socket (clients s i)}" "open_fds s' = open_fds s - {c_socket (clients s i)}"
      "sl_alive s' = sl_alive s" "fresh_station s' = fresh_station s" "sl_head s' = sl_head s" "sl_tail s' = sl_tail s"
      "sl_count s' = sl_count s" "st_nx s' = st_nx s" "dom (stations s') = dom (stations s)"
    and sv: "\<And>b st. stations s' b = Some st \<Longrightarrow> st_songs st \<noteq> [] \<and> (\<exists>xs. serves s' b xs
        \<and> (\<forall>j. j \<in> set xs \<longleftrightarrow> j \<noteq> i \<and> c_station (clients s j) = Some b) \<and> int (length xs) \<le> st_count st)"
  shows "sninv L s'"
proof -
  have ok: "client_ok s j" for j using inv by (simp add: sninv_def)
  have so: "sockets_ok L s" using inv by (simp add: sninv_def)
  have ni: "clients s i \<noteq> zero_client" using live by auto
  have same: "c_state (clients s' j) = c_state (clients s j)" "c_socket (clients s' j) = c_socket (clients s j)"
    "c_station (clients s' j) = c_station (clients s j)" "c_ip (clients s' j) = c_ip (clients s j)"
    "c_udp_addr (clients s' j) = c_udp_addr (clients s j)" "c_udp_sock (clients s' j) = c_udp_sock (clients s j)"
    "c_station (clients s j) = None \<Longrightarrow> clients s' j = clients s j" if ij: "j \<noteq> i" for j
    using cl [OF ij] by auto
  have ne: "c_socket (clients s j) \<noteq> c_socket (clients s i)" if "j \<noteq> i" for j
    using so live that unfolding sockets_ok_def by metis
  have domb: "stations s' a \<noteq> None \<longleftrightarrow> stations s a \<noteq> None" for a using fld(9) by (auto simp: dom_def set_eq_iff)
  show ?thesis unfolding sninv_def
  proof (intro conjI allI)
    show "sl_alive s'" using inv fld by (simp add: sninv_def)
    fix j
    show "client_ok s' j"
    proof (cases "j = i")
      case True
      then show ?thesis using z by (simp add: client_ok_def)
    next
      case False
      note same = same [OF False]
      show ?thesis
      proof (cases "clients s j = zero_client")
        case True
        then have "clients s' j = zero_client" using same(7) by simp
        then show ?thesis by (simp add: client_ok_def)
      next
        case nz: False
        note lv = live_client [OF ok nz]
        have nn: "c_station (clients s' j) = None \<Longrightarrow> c_next (clients s' j) = None"
          using ok [of j] same(3,7) by (auto simp: client_ok_def Let_def)
        have mm: "c_socket (clients s j) \<in> master s'"
          using ok [of j] lv(2) ne [OF False] fld(1) by (simp add: client_ok_def Let_def)
        show ?thesis using ok [of j] lv nn mm domb unfolding client_ok_def Let_def same(1-6) by auto
      qed
    qed
    show "sockets_ok L s'"
      unfolding sockets_ok_def
    proof (intro conjI allI impI ballI)
      have "c_socket (clients s i) \<noteq> L" using so live_client(2) [OF ok ni] by (auto simp: sockets_ok_def)
      then show "L \<in> master s'" using so fld by (auto simp: sockets_ok_def)
      show "master s' \<subseteq> open_fds s'" using so fld by (auto simp: sockets_ok_def)
      fix k l
      show "c_socket (clients s' k) \<noteq> L \<or> c_state (clients s' k) = NO_STATE"
      proof (cases "k = i")
        case False
        show ?thesis using so unfolding same(1,2) [OF False] by (simp add: sockets_ok_def)
      qed (use z in simp)
      assume e: "c_socket (clients s' k) = c_socket (clients s' l)" "c_socket (clients s' k) \<noteq> 0"
      then have "k \<noteq> i" "l \<noteq> i" using z by auto
      then show "k = l" using e so unfolding same(2) [OF \<open>k \<noteq> i\<close>] same(2) [OF \<open>l \<noteq> i\<close>] sockets_ok_def by blast
    next
      fix fd assume fd: "fd \<in> master s'"
      then have "fd = L \<or> fd \<noteq> 0 \<and> (\<exists>k. c_socket (clients s k) = fd)" "fd \<noteq> c_socket (clients s i)"
        using so fld(1) by (auto simp: sockets_ok_def)
      then show "fd = L \<or> fd \<noteq> 0 \<and> (\<exists>k. c_socket (clients s' k) = fd)" using same(2) by metis
    qed
    show "list_ok s'" using inv fld by (auto simp: sninv_def intro: list_ok_cong)
    show "station_ok s' j"
      unfolding station_ok_def
    proof (intro allI impI)
      fix st assume st: "stations s' j = Some st"
      then have "stations s j \<noteq> None" using domb by auto
      then have "j < fresh_station s'" using inv fld by (auto simp: sninv_def station_ok_def)
      moreover obtain xs where "st_songs st \<noteq> []" and xs: "serves s' j xs" "int (length xs) \<le> st_count st"
        and m: "\<forall>k. k \<in> set xs \<longleftrightarrow> k \<noteq> i \<and> c_station (clients s k) = Some j" using sv [OF st] by blast
      moreover have "\<forall>k. k \<in> set xs \<longleftrightarrow> c_station (clients s' k) = Some j"
      proof
        fix k show "k \<in> set xs \<longleftrightarrow> c_station (clients s' k) = Some j"
        proof (cases "k = i")
          case False
          then show ?thesis using m same(3) [OF False] by simp
        qed (use m z in simp)
      qed
      ultimately show "j < fresh_station s' \<and> st_songs st \<noteq> [] \<and> (\<exists>xs. serves s' j xs
          \<and> (\<forall>i. (i \<in> set xs) = (c_station (clients s' i) = Some j)) \<and> int (length xs) \<le> st_count st)" by blast
    qed
  qed
qed

lemma close_keeps:
  assumes inv: "sninv L s" and sock: "c_socket (clients s i) \<noteq> 0" and udp: "c_udp_sock (clients s i) \<noteq> 0"
  shows "\<exists>s'. close_client (Some i) s = Inr s' \<and> sninv L s' \<and> clients s' i = zero_client
    \<and> (\<forall>a xs. c_station (clients s i) = Some a \<longrightarrow> serves s a xs \<longrightarrow> serves s' a (remove1 i xs))"
proof -
  let ?c = "clients s i"
  let ?s1 = "(logged (Shut (c_udp_sock ?c)) (logged (Shut (c_socket ?c)) (s\<lparr>open_fds := open_fds s - {c_socket ?c}\<rparr>)))
    \<lparr>master := master s - {c_socket ?c}\<rparr>"
  have c1: "clients ?s1 = clients s" "stations ?s1 = stations s" by simp_all
  have n1: "cl_nx ?s1 = cl_nx s" "st_nx ?s1 = st_nx s" by (simp_all add: cl_nx_def st_nx_def fun_eq_iff)
  have sok: "station_ok s b" for b using inv by (simp add: sninv_def)
  have close: "close_client (Some i) s = bnd (remove_client_from_station i ?s1) (\<lambda>s. Inr (upd_cl i (\<lambda>_. zero_client) s))"
    using sock udp by (simp add: close_client_def Let_def)
  show ?thesis
  proof (cases "c_station ?c")
    case None
    let ?s' = "upd_cl i (\<lambda>_. zero_client) ?s1"
    have run: "close_client (Some i) s = Inr ?s'"
      using None unfolding close by (subst remove_client_none) simp_all
    have "client_ok s i" using inv by (simp add: sninv_def)
    then have "cl_nx s i = None" using None by (simp add: client_ok_def Let_def cl_nx_def)
    then have nx: "cl_nx ?s' = cl_nx s" by (auto simp: cl_nx_def fun_eq_iff)
    have "sninv L ?s'"
    proof (rule drop_client_inv [OF inv sock])
      fix b st assume "stations ?s' b = Some st"
      then have st: "stations s b = Some st" by simp
      with sok [of b] obtain xs where xs: "serves s b xs" "\<forall>j. j \<in> set xs \<longleftrightarrow> c_station (clients s j) = Some b"
        "int (length xs) \<le> st_count st" "st_songs st \<noteq> []" unfolding station_ok_def by blast
      have "serves ?s' b xs" using xs(1) unfolding serves_def nx by simp
      moreover have "\<forall>j. j \<in> set xs \<longleftrightarrow> j \<noteq> i \<and> c_station (clients s j) = Some b" using xs(2) None by auto
      ultimately show "st_songs st \<noteq> [] \<and> (\<exists>xs. serves ?s' b xs
        \<and> (\<forall>j. j \<in> set xs \<longleftrightarrow> j \<noteq> i \<and> c_station (clients s j) = Some b) \<and> int (length xs) \<le> st_count st)"
        using xs by blast
    next
      fix j assume "j \<noteq> i"
      then show "\<exists>p. clients ?s' j = (clients s j)\<lparr>c_next := p\<rparr> \<and> (c_station (clients s j) = None \<longrightarrow> p = c_next (clients s j))"
        by (intro exI [of _ "c_next (clients s j)"]) simp
    qed (use n1(2) in simp_all)
    then show ?thesis using run None by auto
  next
    case (Some a)
    have "client_ok s i" using inv by (simp add: sninv_def)
    then obtain st where st: "stations s a = Some st" using Some by (auto simp: client_ok_def Let_def)
    obtain zs where sq: "sq (cl_nx s) (st_head st) (st_tail st) zs" and len: "length zs \<le> MAX_CLIENT_NUM"
      and m: "\<forall>j. j \<in> set zs \<longleftrightarrow> c_station (clients s j) = Some a" and cnt: "int (length zs) \<le> st_count st"
      using station_serves [OF inv st] by metis
    have "i \<in> set zs" using m Some by simp
    then obtain xs ys where zs: "zs = xs @ i # ys" by (rule in_set_splitE)
    have d: "distinct (xs @ i # ys)" using sq_distinct [OF sq] zs by simp
    have "c_station (clients ?s1 i) = Some a" "stations ?s1 a = Some st"
      "sq (cl_nx ?s1) (st_head st) (st_tail st) (xs @ i # ys)" "length xs \<le> MAX_CLIENT_NUM"
      using Some st sq zs len unfolding n1 by simp_all
    from remove_client_run [OF this] obtain h t s2 where r: "remove_client_from_station i ?s1 = Inr s2"
      and s2: "s2 = upd_st a (\<lambda>st. st\<lparr>st_head := h, st_tail := t\<rparr>)
        (if xs = [] then ?s1 else upd_cl (last xs) (c_next_update (\<lambda>_. c_next (clients ?s1 i))) ?s1)"
      and sq2: "sq (cl_nx s2) h t (xs @ ys)" by blast
    let ?s' = "upd_cl i (\<lambda>_. zero_client) s2"
    have run: "close_client (Some i) s = Inr ?s'" unfolding close by (simp add: r)
    have cl: "clients ?s' j = (if j = i then zero_client
       else if xs \<noteq> [] \<and> j = last xs then (clients s j)\<lparr>c_next := c_next ?c\<rparr> else clients s j)" for j
      by (cases "xs = []"; cases "j = i"; cases "j = last xs") (simp_all add: s2)
    have sts: "stations s2 b = (if b = a then Some (st\<lparr>st_head := h, st_tail := t\<rparr>) else stations s b)" for b
      using st by (simp add: s2)
    have nx: "cl_nx ?s' j = cl_nx s j" if "j \<notin> set zs" for j
    proof -
      have "j \<noteq> i" "\<not> (xs \<noteq> [] \<and> j = last xs)" using that zs by auto
      then show ?thesis unfolding cl_nx_def cl by (simp only: if_False)
    qed
    have sva: "serves ?s' a (xs @ ys)"
    proof -
      have "sq (cl_nx ?s') h t (xs @ ys) = sq (cl_nx s2) h t (xs @ ys)"
        by (rule sq_frame) (use d in \<open>auto simp: cl_nx_def\<close>)
      then show ?thesis using sq2 by (simp add: serves_def sts)
    qed
    have "sninv L ?s'"
    proof (rule drop_client_inv [OF inv sock])
      fix b st' assume st': "stations ?s' b = Some st'"
      show "st_songs st' \<noteq> [] \<and> (\<exists>xs. serves ?s' b xs
        \<and> (\<forall>j. j \<in> set xs \<longleftrightarrow> j \<noteq> i \<and> c_station (clients s j) = Some b) \<and> int (length xs) \<le> st_count st')"
      proof (cases "b = a")
        case True
        then have e: "st' = st\<lparr>st_head := h, st_tail := t\<rparr>" using st' by (simp add: sts)
        have "\<forall>j. j \<in> set (xs @ ys) \<longleftrightarrow> j \<noteq> i \<and> c_station (clients s j) = Some a"
          using m d unfolding zs by auto
        moreover have "int (length (xs @ ys)) \<le> st_count st'" using cnt zs e by simp
        moreover have "st_songs st' \<noteq> []" using sok [of a] st e by (simp add: station_ok_def)
        ultimately show ?thesis using sva True by blast
      next
        case False
        then have e: "stations s b = Some st'" using st' by (simp add: sts)
        with sok [of b] obtain us where us: "serves s b us" "\<forall>j. j \<in> set us \<longleftrightarrow> c_station (clients s j) = Some b"
          "int (length us) \<le> st_count st'" "st_songs st' \<noteq> []" unfolding station_ok_def by blast
        have dis: "j \<notin> set zs" if "j \<in> set us" for j using that us(2) m False by auto
        have "sq (cl_nx ?s') (st_head st') (st_tail st') us = sq (cl_nx s) (st_head st') (st_tail st') us"
          by (rule sq_frame) (rule nx, rule dis)
        then have "serves ?s' b us" using us(1) e False by (simp add: serves_def sts)
        moreover have "\<forall>j. j \<in> set us \<longleftrightarrow> j \<noteq> i \<and> c_station (clients s j) = Some b" using us(2) Some False by auto
        ultimately show ?thesis using us by blast
      qed
    next
      fix j assume j: "j \<noteq> i"
      have "c_station (clients s (last xs)) = Some a" if "xs \<noteq> []" using m last_in_set [OF that] zs by auto
      then show "\<exists>p. clients ?s' j = (clients s j)\<lparr>c_next := p\<rparr> \<and> (c_station (clients s j) = None \<longrightarrow> p = c_next (clients s j))"
        unfolding cl using j
        by (cases "xs \<noteq> [] \<and> j = last xs") (auto intro: exI [of _ "c_next (clients s j)"])
    next
      show "st_nx ?s' = st_nx s" using st by (auto simp: st_nx_def fun_eq_iff sts)
      show "dom (stations ?s') = dom (stations s)" using st by (auto simp: sts dom_def split: if_splits)
      show "clients ?s' i = zero_client" by simp
      show "master ?s' = master s - {c_socket ?c}" "open_fds ?s' = open_fds s - {c_socket ?c}" by (simp_all add: s2)
    qed (simp_all add: s2)
    moreover have "us = zs" if "serves s a us" for us
      using that sq st by (auto simp: serves_def dest: sq_unique)
    moreover have "remove1 i zs = xs @ ys" using d zs by (simp add: remove1_split)
    moreover have "clients ?s' i = zero_client" by simp
    ultimately show ?thesis using run sva Some by (intro exI [of _ ?s'] conjI) auto
  qed
qed

end
