(* ===== verification/Snuser.thy ===== *)
theory Snuser
  imports Snconn
begin

text \<open>
  The senders and the commands of the user keep the invariant: streaming, adding and removing stations.
\<close>

subsection \<open>The senders\<close>

definition ready :: "clientinfo \<Rightarrow> bool" where
  "ready c \<longleftrightarrow> c_state c = HANDSHAKED \<and> c_udp_sock c \<noteq> 0 \<and> c_udp_addr c \<noteq> None \<and> c_socket c \<noteq> 0"

lemma cl_nx_at: "c_next (clients s c) = cl_nx s c"
  by (simp add: cl_nx_def)

lemma stream_okrun:
  assumes "sll (cl_nx s) p xs" and "length xs < fuel" and "\<forall>i\<in>set xs. ready (clients s i)"
  shows "okrun (talked s) (stream_to fuel p data s)"
  using assms
proof (induction fuel arbitrary: p xs s)
  case (Suc fuel)
  show ?case
  proof (cases xs)
    case Nil
    with Suc.prems show ?thesis by simp
  next
    case (Cons c ys)
    with Suc.prems have c: "p = Some c" "ready (clients s c)" "sll (cl_nx s) (c_next (clients s c)) ys"
      by (auto simp: cl_nx_at)
    then obtain addr where addr: "c_udp_addr (clients s c) = Some addr" by (auto simp: ready_def)
    let ?t = "logged (Datagram (c_udp_sock (clients s c)) addr data) s"
    have "okrun (talked ?t) (stream_to fuel (c_next (clients s c)) data ?t)"
      by (rule Suc.IH) (use c Suc.prems Cons in auto)
    then have "okrun (talked s) (stream_to fuel (c_next (clients s c)) data ?t)"
      by (rule okrun_mono) (rule talked_trans [OF talked_logged])
    then show ?thesis using c addr by (simp add: ready_def)
  qed
qed simp

lemma announce_to_okrun:
  assumes "net_ok N" and "st_cur st \<noteq> None" and "sll (cl_nx s) p xs" and "length xs < fuel"
    and "\<forall>i\<in>set xs. ready (clients s i)"
  shows "okrun (talked s) (announce_to fuel N p st s)"
  using assms(3-5)
proof (induction fuel arbitrary: p xs s)
  case (Suc fuel)
  show ?case
  proof (cases xs)
    case Nil
    with Suc.prems show ?thesis by simp
  next
    case (Cons c ys)
    with Suc.prems have c: "p = Some c" "ready (clients s c)" "sll (cl_nx s) (cl_nx s c) ys" by auto
    have "okrun (talked s) (announce_to fuel N (c_next (clients t c)) st t)" if t: "talked s t" for t
    proof -
      have "okrun (talked t) (announce_to fuel N (cl_nx t c) st t)"
        by (rule Suc.IH) (use c Suc.prems Cons talkedD [OF t] in auto)
      then have "okrun (talked t) (announce_to fuel N (c_next (clients t c)) st t)" by (simp add: cl_nx_def)
      then show ?thesis by (rule okrun_mono) (rule talked_trans [OF t])
    qed
    then show ?thesis using c
      by (auto simp: ready_def intro!: okrun_bnd [OF song_text_okrun [OF assms(2)]] okrun_bnd [OF announce_okrun [OF assms(1)]])
  qed
qed simp

lemma sockets_ok_cong:
  assumes "sockets_ok L s" and "master s' = master s" and "open_fds s' = open_fds s"
    and "\<And>i. c_socket (clients s' i) = c_socket (clients s i)" and "\<And>i. c_state (clients s' i) = c_state (clients s i)"
  shows "sockets_ok L s'"
  using assms(1) unfolding sockets_ok_def assms(2-5) .

text \<open>Changes of a station that leave its list of clients and its place alone.\<close>

lemma sninv_upd_st:
  assumes inv: "sninv L s" and st: "stations s a = Some st"
    and f: "st_next (f st) = st_next st" "st_head (f st) = st_head st" "st_tail (f st) = st_tail st"
      "st_count (f st) = st_count st" "st_songs (f st) = st_songs st"
  shows "sninv L (upd_st a f s)"
proof -
  let ?s = "upd_st a f s"
  have a: "station_ok ?s b" for b
  proof -
    have "station_ok s b" using inv by (simp add: sninv_def)
    then show ?thesis using st f by (auto simp: station_ok_def serves_def)
  qed
  have b: "client_ok ?s j" for j
  proof -
    have "client_ok s j" using inv by (simp add: sninv_def)
    then show ?thesis by (auto simp: client_ok_def Let_def)
  qed
  have nx: "st_nx ?s = st_nx s" using st f by (auto simp: st_nx_def fun_eq_iff)
  have "list_ok s" using inv by (simp add: sninv_def)
  then have c: "list_ok ?s" by (rule list_ok_cong) (simp_all add: nx)
  have "sockets_ok L s" using inv by (simp add: sninv_def)
  then have d: "sockets_ok L ?s" by (rule sockets_ok_cong) simp_all
  have "sl_alive ?s" using inv by (simp add: sninv_def)
  then show ?thesis using a b c d unfolding sninv_def by blast
qed

lemma start_song_keeps:
  assumes "sninv L s" and "stations s a \<noteq> None"
  shows "okrun (sninv L) (start_song a opened s)"
  using assms sninv_upd_st [OF assms(1)] by (auto simp: start_song_def)

lemma loop_song_keeps:
  assumes inv: "sninv L s" and net: "net_ok N" and a: "stations s a \<noteq> None"
  shows "okrun (sninv L) (loop_song N a data opened s)"
proof (cases data)
  case None
  then show ?thesis using a by (auto simp: loop_song_def)
next
  case (Some bytes)
  obtain st where st: "stations s a = Some st" using a by auto
  obtain xs where xs: "sll (cl_nx s) (st_head st) xs" "length xs < CLIENT_FUEL" "\<forall>i\<in>set xs. ready (clients s i)"
    using station_serves [OF inv st] unfolding sq_def ready_def CLIENT_FUEL_def by (metis less_Suc_eq_le)
  have stream: "okrun (talked t) (stream_to CLIENT_FUEL (st_head st) d t)" if "clients t = clients s" for t d
  proof -
    have "cl_nx t = cl_nx s" using that by (simp add: cl_nx_def fun_eq_iff)
    then show ?thesis using xs that by (intro stream_okrun) auto
  qed
  show ?thesis
  proof (cases "bytes = [] \<and> opened")
    case False
    have "okrun (sninv L) (stream_to CLIENT_FUEL (st_head st) bytes s)"
      by (rule okrun_mono [OF stream]) (auto dest: talked_inv [OF _ inv])
    then show ?thesis using st Some False inv by (auto simp: loop_song_def)
  next
    case True
    let ?k = "(st_song st + 1) mod length (st_songs st)"
    let ?st = "st\<lparr>st_cur := Some (st_songs st ! ?k), st_song := ?k\<rparr>"
    let ?s = "upd_st a (\<lambda>_. ?st) s"
    have inv1: "sninv L ?s" by (rule sninv_upd_st [OF inv st]) simp_all
    have "okrun (sninv L) (bnd (stream_to CLIENT_FUEL (st_head st) [] ?s) (announce_to CLIENT_FUEL N (st_head st) ?st))"
    proof (rule okrun_bnd [OF stream])
      fix t assume t: "talked ?s t"
      have "cl_nx t = cl_nx s" "clients t = clients s" using talkedD [OF t] by (simp_all add: cl_nx_def fun_eq_iff)
      then have "okrun (talked t) (announce_to CLIENT_FUEL N (st_head st) ?st t)"
        using xs by (intro announce_to_okrun [OF net, of _ _ _ xs]) simp_all
      then show "okrun (sninv L) (announce_to CLIENT_FUEL N (st_head st) ?st t)"
        by (rule okrun_mono) (rule talked_inv [OF _ talked_inv [OF t inv1]])
    qed simp
    then show ?thesis using st Some True by (simp add: loop_song_def Let_def)
  qed
qed

subsection \<open>Removing stations\<close>

definition dismissed :: "nat set \<Rightarrow> snow \<Rightarrow> snow" where
  "dismissed X s = s\<lparr>clients := (\<lambda>j. if j \<in> X then (clients s j)\<lparr>c_next := None, c_station := None\<rparr> else clients s j)\<rparr>"

lemma dismissed_simps [simp]:
  "stations (dismissed X s) = stations s" "fresh_station (dismissed X s) = fresh_station s"
  "sl_head (dismissed X s) = sl_head s" "sl_tail (dismissed X s) = sl_tail s" "sl_count (dismissed X s) = sl_count s"
  "sl_alive (dismissed X s) = sl_alive s" "master (dismissed X s) = master s" "open_fds (dismissed X s) = open_fds s"
  "st_nx (dismissed X s) = st_nx s" "dismissed {} s = s"
  by (simp_all add: dismissed_def st_nx_def fun_eq_iff)

lemma dismiss_run:
  assumes "net_ok N" and "sll (cl_nx s) p xs" and "length xs < fuel"
  shows "okrun (\<lambda>(k, s'). k = n - int (length xs) \<and> talked (dismissed (set xs) s) s') (dismiss_clients fuel N p n s)"
  using assms(2,3)
proof (induction fuel arbitrary: p xs n s)
  case (Suc fuel)
  show ?case
  proof (cases xs)
    case Nil
    with Suc.prems show ?thesis by simp
  next
    case (Cons c ys)
    with Suc.prems have c: "p = Some c" "sll (cl_nx s) (c_next (clients s c)) ys" "c \<notin> set ys"
      using sll_distinct [OF Suc.prems(1)] by (auto simp: cl_nx_at)
    let ?f = "\<lambda>c. c\<lparr>c_next := None, c_station := None\<rparr>"
    have "okrun (\<lambda>(k, s'). k = n - int (length xs) \<and> talked (dismissed (set xs) s) s')
        (dismiss_clients fuel N (c_next (clients t c)) (n - 1) (upd_cl c ?f t))" if t: "talked s t" for t
    proof (rule okrun_mono)
      have "sll (cl_nx (upd_cl c ?f t)) (c_next (clients t c)) ys"
        using c talkedD [OF t] by (subst sll_frame [where nx = "cl_nx s"]) (auto simp: cl_nx_at [symmetric] cl_nx_def)
      from Suc.IH [OF this, of "n - 1"] Suc.prems(2) Cons
      show "okrun (\<lambda>(k, s'). k = n - 1 - int (length ys) \<and> talked (dismissed (set ys) (upd_cl c ?f t)) s')
        (dismiss_clients fuel N (c_next (clients t c)) (n - 1) (upd_cl c ?f t))" by simp
    next
      fix x :: "int \<times> snow"
      have "dismissed (set ys) (upd_cl c ?f t) = (dismissed (set xs) s)\<lparr>sn_log := sn_log t\<rparr>"
        using t Cons by (auto simp: talked_def dismissed_def upd_cl_def fun_eq_iff)
      moreover assume "case x of (k, s') \<Rightarrow> k = n - 1 - int (length ys) \<and> talked (dismissed (set ys) (upd_cl c ?f t)) s'"
      ultimately show "case x of (k, s') \<Rightarrow> k = n - int (length xs) \<and> talked (dismissed (set xs) s) s'"
        using Cons by (auto simp: talked_def)
    qed
    then show ?thesis using c
      by (auto simp: Let_def intro!: okrun_bnd [OF announce_okrun [OF assms(1)]])
  qed
qed simp

text \<open>No client of a station has left it.\<close>

definition nobody_left :: "snow \<Rightarrow> bool" where
  "nobody_left s \<longleftrightarrow> (\<forall>a st xs. stations s a = Some st \<longrightarrow> serves s a xs \<longrightarrow> st_count st = int (length xs))"

lemma close_station_run:
  assumes inv: "sninv L s" and net: "net_ok N" and st: "stations s a = Some st" and cnt: "nobody_left s"
  shows "okrun (talked ((dismissed {i. c_station (clients s i) = Some a} s)\<lparr>sl_count := sl_count s - 1\<rparr>)) (close_station N a st s)"
proof -
  obtain xs where sq: "sq (cl_nx s) (st_head st) (st_tail st) xs" and len: "length xs \<le> MAX_CLIENT_NUM"
    and m: "\<forall>i. i \<in> set xs \<longleftrightarrow> c_station (clients s i) = Some a"
    using station_serves [OF inv st] by metis
  have "serves s a xs" using sq st by (simp add: serves_def)
  with cnt st have c: "st_count st = int (length xs)" by (simp add: nobody_left_def)
  have e: "{i. c_station (clients s i) = Some a} = set xs" using m by auto
  have run: "okrun (\<lambda>(k, s'). k = st_count st - int (length xs) \<and> talked (dismissed (set xs) s) s')
      (dismiss_clients CLIENT_FUEL N (st_head st) (st_count st) s)"
    by (rule dismiss_run [OF net]) (use sq len in \<open>auto simp: sq_def CLIENT_FUEL_def\<close>)
  show ?thesis unfolding close_station_def
  proof (rule okrun_bnd [OF run])
    fix x :: "int \<times> snow"
    assume x: "case x of (k, s') \<Rightarrow> k = st_count st - int (length xs) \<and> talked (dismissed (set xs) s) s'"
    obtain k s1 where xe: "x = (k, s1)" by (cases x)
    from x xe c obtain l where "k = 0" "s1 = (dismissed (set xs) s)\<lparr>sn_log := l\<rparr>" by (auto simp: talked_def)
    then show "okrun (talked ((dismissed {i. c_station (clients s i) = Some a} s)\<lparr>sl_count := sl_count s - 1\<rparr>))
       (case x of (n, s) \<Rightarrow> check (n = 0) Assertion (Inr (s\<lparr>sl_count := sl_count s - 1\<rparr>)))"
      unfolding xe e by (auto simp: talked_def intro!: exI [of _ l])
  qed
qed

text \<open>A state in which the station \<open>a\<close> is gone.\<close>

lemma gone_inv:
  assumes inv: "sninv L s" and cnt: "nobody_left s"
    and cl: "clients s' = clients (dismissed {i. c_station (clients s i) = Some a} s)"
    and sts: "\<And>b. stations s' b = None \<longleftrightarrow> b = a \<or> stations s b = None"
      "\<And>b st'. stations s' b = Some st' \<Longrightarrow> \<exists>p st. stations s b = Some st \<and> st' = st\<lparr>st_next := p\<rparr>"
    and fld: "sl_alive s' = sl_alive s" "fresh_station s' = fresh_station s" "master s' = master s" "open_fds s' = open_fds s"
    and l: "list_ok s'"
  shows "sninv L s'" and "nobody_left s'"
proof -
  have ok: "client_ok s j" for j using inv by (simp add: sninv_def)
  have so: "sockets_ok L s" using inv by (simp add: sninv_def)
  have clj: "clients s' j = (if c_station (clients s j) = Some a then (clients s j)\<lparr>c_next := None, c_station := None\<rparr> else clients s j)" for j
    by (simp add: cl dismissed_def)
  have sv: "\<exists>st xs. stations s b = Some st \<and> st_songs st' = st_songs st \<and> st_count st' = st_count st \<and> b < fresh_station s
      \<and> st_songs st \<noteq> [] \<and> serves s b xs \<and> serves s' b xs \<and> (\<forall>i. i \<in> set xs \<longleftrightarrow> c_station (clients s' i) = Some b)
      \<and> int (length xs) \<le> st_count st" if "stations s' b = Some st'" for b st'
  proof -
    have ba: "b \<noteq> a" using sts(1) [of b] that by auto
    from sts(2) [OF that] obtain p st where st: "stations s b = Some st" and e: "st' = st\<lparr>st_next := p\<rparr>" by blast
    have "station_ok s b" using inv by (simp add: sninv_def)
    with st obtain xs where xs: "serves s b xs" "\<forall>i. i \<in> set xs \<longleftrightarrow> c_station (clients s i) = Some b"
      "int (length xs) \<le> st_count st" "b < fresh_station s" "st_songs st \<noteq> []" by (auto simp: station_ok_def)
    have "sq (cl_nx s') (st_head st) (st_tail st) xs = sq (cl_nx s) (st_head st) (st_tail st) xs"
      by (rule sq_frame) (use xs(2) ba in \<open>simp add: cl_nx_def clj\<close>)
    then have "serves s' b xs" using xs(1) st that e by (simp add: serves_def)
    moreover have "\<forall>i. i \<in> set xs \<longleftrightarrow> c_station (clients s' i) = Some b" using xs(2) ba by (auto simp: clj)
    ultimately show ?thesis using st e xs by auto
  qed
  show "nobody_left s'"
    unfolding nobody_left_def
  proof (intro allI impI)
    fix b st' ys assume st': "stations s' b = Some st'" and ys: "serves s' b ys"
    from sv [OF st'] obtain st xs where st: "stations s b = Some st" "st_count st' = st_count st"
      and xs: "serves s b xs" "serves s' b xs" by blast
    have "xs = ys" using xs(2) ys by (auto simp: serves_def dest: sq_unique)
    then show "st_count st' = int (length ys)" using cnt st xs(1) unfolding nobody_left_def by metis
  qed
  show "sninv L s'"
    unfolding sninv_def
  proof (intro conjI allI)
    show "sl_alive s'" using inv fld by (simp add: sninv_def)
    show "list_ok s'" by (rule l)
    show "sockets_ok L s'" by (rule sockets_ok_cong [OF so]) (simp_all add: clj fld)
    show "station_ok s' b" for b
      unfolding station_ok_def fld
    proof (intro allI impI)
      fix st' assume "stations s' b = Some st'"
      from sv [OF this] obtain st :: station and xs where "st_songs st' = st_songs st" "st_count st' = st_count st" "b < fresh_station s"
        "st_songs st \<noteq> []" "serves s' b xs" "\<forall>i. i \<in> set xs \<longleftrightarrow> c_station (clients s' i) = Some b"
        "int (length xs) \<le> st_count st" by (elim exE conjE) (rule that; assumption)
      then show "b < fresh_station s \<and> st_songs st' \<noteq> [] \<and> (\<exists>xs. serves s' b xs
          \<and> (\<forall>i. (i \<in> set xs) = (c_station (clients s' i) = Some b)) \<and> int (length xs) \<le> st_count st')" by auto
    qed
    fix j
    show "client_ok s' j"
    proof (cases "c_station (clients s j) = Some a")
      case True
      then show ?thesis using ok [of j] unfolding client_ok_def fld by (auto simp: Let_def clj)
    next
      case False
      then have e: "clients s' j = clients s j" by (simp add: clj)
      have "stations s' b \<noteq> None" if "c_station (clients s j) = Some b" for b
        using ok [of j] that False sts(1) [of b] by (auto simp: client_ok_def Let_def)
      then show ?thesis using ok [of j] unfolding client_ok_def fld e Let_def by blast
    qed
  qed
qed

lemma st_nx_none: "stations s a = None \<Longrightarrow> st_nx s a = None"
  by (simp add: st_nx_def)

lemma unlink_station_run:
  assumes inv: "sninv L s" and net: "net_ok N" and st: "stations s a = Some st" and cnt: "nobody_left s"
    and as: "sll (st_nx s) (Some p) (p # xs @ a # ys)" and whole: "sq (st_nx s) (sl_head s) (sl_tail s) (ws @ p # xs @ a # ys)"
    and dom: "set (ws @ p # xs @ a # ys) = dom (stations s)" and c: "sl_count s = int (length (ws @ p # xs @ a # ys))"
    and fuel: "length xs < fuel"
  shows "okrun (\<lambda>s'. sninv L s' \<and> nobody_left s' \<and> dom (stations s') = dom (stations s) - {a})
    (unlink_station fuel N a p s)"
  using as whole dom c fuel
proof (induction xs arbitrary: p ws fuel)
  case Nil
  then obtain f where f: "fuel = Suc f" by (cases fuel) auto
  have d: "distinct (ws @ p # a # ys)" using sq_distinct [OF Nil(2)] by simp
  have "p \<in> dom (stations s)" using Nil(3) by auto
  then obtain pst where pst: "stations s p = Some pst" by auto
  have nxp: "st_next pst = Some a" using Nil(1) pst by (simp add: st_nx_at)
  let ?D = "(dismissed {i. c_station (clients s i) = Some a} s)\<lparr>sl_count := sl_count s - 1\<rparr>"
  have "okrun (\<lambda>s'. sninv L s' \<and> nobody_left s' \<and> dom (stations s') = dom (stations s) - {a})
    (bnd (close_station N a st s) (\<lambda>s.
           let s = upd_st p (st_next_update (\<lambda>_. st_next st)) s;
               s = (if st_next st = None then s\<lparr>sl_tail := Some p\<rparr> else s) in
           Inr (s\<lparr>stations := (stations s)(a := None)\<rparr>)))"
  proof (rule okrun_bnd [OF close_station_run [OF inv net st cnt]])
    fix t assume t: "talked ?D t"
    let ?t1 = "upd_st p (st_next_update (\<lambda>_. st_next st)) t"
    let ?t2 = "if st_next st = None then ?t1\<lparr>sl_tail := Some p\<rparr> else ?t1"
    define u where "u = ?t2\<lparr>stations := (stations ?t2)(a := None)\<rparr>"
    have cl: "clients u = clients (dismissed {i. c_station (clients s i) = Some a} s)" using talkedD [OF t] by (simp add: u_def)
    have sts: "stations u b = (if b = a then None else if b = p then Some (pst\<lparr>st_next := st_next st\<rparr>) else stations s b)" for b
      using talkedD [OF t] pst by (simp add: u_def)
    have fld: "sl_alive u = sl_alive s" "fresh_station u = fresh_station s" "master u = master s" "open_fds u = open_fds s"
      "sl_head u = sl_head s" "sl_count u = sl_count s - 1" "sl_tail u = (if st_next st = None then Some p else sl_tail s)"
      using talkedD [OF t] by (simp_all add: u_def)
    have nx: "st_nx u b = ((st_nx s)(p := st_nx s a)) b" if "b \<noteq> a" for b
      using that pst st by (auto simp: st_nx_def sts)
    have "sll (st_nx s) (sl_head s) (ws @ p # a # ys)" using Nil(2) by (simp add: sq_def)
    from sll_unlink [OF this] have "sll ((st_nx s)(p := st_nx s a)) (sl_head s) (ws @ p # ys)" .
    then have links: "sll (st_nx u) (sl_head s) (ws @ p # ys)"
    proof (subst sll_frame [where nx = "(st_nx s)(p := st_nx s a)"])
      fix x assume "x \<in> set (ws @ p # ys)"
      then have "x \<noteq> a" using d by auto
      then show "st_nx u x = ((st_nx s)(p := st_nx s a)) x" by (rule nx)
    qed
    have "sll (st_nx s) (st_nx s a) ys" using sll_at [of "st_nx s" "sl_head s" "ws @ [p]" a ys] Nil(2) by (simp add: sq_def)
    then have last: "st_next st = None \<longleftrightarrow> ys = []" using st by (cases ys) (auto simp: st_nx_at)
    have "list_ok u"
      unfolding list_ok_def
    proof (intro exI [of _ "ws @ p # ys"] conjI)
      show "sq (st_nx u) (sl_head u) (sl_tail u) (ws @ p # ys)"
        using links last Nil(2) unfolding sq_def fld by (auto split: if_splits)
      show "set (ws @ p # ys) = dom (stations u)"
      proof -
        have "dom (stations u) = dom (stations s) - {a}"
          using pst d by (auto simp: dom_def sts split: if_splits)
        then show ?thesis using Nil(3) d by auto
      qed
      show "sl_count u = int (length (ws @ p # ys))" using Nil(4) unfolding fld by simp
    qed
    note g = gone_inv [OF inv cnt cl _ _ fld(1-4) this]
    have "sninv L u" and "nobody_left u"
    proof -
      have none: "stations u b = None \<longleftrightarrow> b = a \<or> stations s b = None" for b using pst by (simp add: sts)
      have some: "\<exists>q st0. stations s b = Some st0 \<and> st' = st0\<lparr>st_next := q\<rparr>" if "stations u b = Some st'" for b st'
      proof (cases "b = p")
        case True
        then show ?thesis using that pst by (auto simp: sts split: if_splits)
      next
        case False
        then have "stations s b = Some st'" using that by (simp add: sts split: if_splits)
        then show ?thesis by (intro exI [of _ "st_next st'"] exI [of _ st']) simp
      qed
      show "sninv L u" and "nobody_left u"
        by (rule g(1) [OF none some] g(2) [OF none some], assumption)+
    qed
    moreover have "dom (stations u) = dom (stations s) - {a}" using pst d by (auto simp: dom_def sts split: if_splits)
    ultimately show "okrun (\<lambda>s'. sninv L s' \<and> nobody_left s' \<and> dom (stations s') = dom (stations s) - {a})
      (let s = ?t1; s = if st_next st = None then s\<lparr>sl_tail := Some p\<rparr> else s in Inr (s\<lparr>stations := (stations s)(a := None)\<rparr>))"
      by (simp add: Let_def u_def)
  qed
  then show ?case using pst nxp st f by simp
next
  case (Cons q xs)
  then obtain f where f: "fuel = Suc f" by (cases fuel) auto
  have "p \<in> dom (stations s)" using Cons.prems by auto
  then obtain pst where pst: "stations s p = Some pst" by auto
  have nxp: "st_next pst = Some q" using Cons.prems(1) pst by (simp add: st_nx_at)
  have "q \<noteq> a" using sll_distinct [OF Cons.prems(1)] by auto
  moreover have "okrun (\<lambda>s'. sninv L s' \<and> nobody_left s' \<and> dom (stations s') = dom (stations s) - {a})
      (unlink_station f N a q s)"
    by (rule Cons.IH [of q "ws @ [p]"]) (use Cons.prems f in auto)
  ultimately show ?case using pst nxp f by simp
qed

end
