(* ===== verification/Snadmin.thy ===== *)
theory Snadmin
  imports Snuser
begin

text \<open>
  The commands of the user keep the invariant: removing stations, one or all, and adding one.
\<close>

subsection \<open>Removing\<close>

lemma remove_station_keeps:
  assumes inv: "sninv L s" and net: "net_ok N" and a: "stations s a \<noteq> None" and cnt: "nobody_left s"
  shows "okrun (\<lambda>s'. sninv L s' \<and> nobody_left s' \<and> dom (stations s') = dom (stations s) - {a}) (remove_station N a s)"
proof -
  have alive: "sl_alive s" using inv by (simp add: sninv_def)
  obtain st where st: "stations s a = Some st" using a by auto
  obtain as where sq: "sq (st_nx s) (sl_head s) (sl_tail s) as" and dom: "set as = dom (stations s)"
    and c: "sl_count s = int (length as)" and len: "length as \<le> fresh_station s"
    using station_list [OF inv] by metis
  have "a \<in> set as" using dom st by auto
  then obtain p bs where as: "as = p # bs" by (cases as) auto
  have hd: "sl_head s = Some p" using sq as by (simp add: sq_def)
  show ?thesis
  proof (cases "p = a")
    case True
    let ?D = "(dismissed {i. c_station (clients s i) = Some a} s)\<lparr>sl_count := sl_count s - 1\<rparr>"
    have pop: "sq (st_nx s) (st_next st) (if st_next st = None then None else sl_tail s) bs"
    proof -
      have "sq (st_nx s) (Some a) (sl_tail s) (a # bs)" using sq hd as True by simp
      from sq_pop [OF this] st show ?thesis by (auto simp: st_nx_at)
    qed
    then have last: "st_next st = None \<longleftrightarrow> bs = []" by (cases bs) (auto simp: sq_def)
    have "okrun (\<lambda>s'. sninv L s' \<and> nobody_left s' \<and> dom (stations s') = dom (stations s) - {a})
      (bnd (close_station N a st s) (\<lambda>s.
         let s = (if sl_count s = 0 then s\<lparr>sl_head := None, sl_tail := None\<rparr> else s\<lparr>sl_head := st_next st\<rparr>) in
         Inr (s\<lparr>stations := (stations s)(a := None)\<rparr>)))"
    proof (rule okrun_bnd [OF close_station_run [OF inv net st cnt]])
      fix t assume t: "talked ?D t"
      let ?t1 = "if sl_count t = 0 then t\<lparr>sl_head := None, sl_tail := None\<rparr> else t\<lparr>sl_head := st_next st\<rparr>"
      define u where "u = ?t1\<lparr>stations := (stations ?t1)(a := None)\<rparr>"
      have cl: "clients u = clients (dismissed {i. c_station (clients s i) = Some a} s)"
        using talkedD [OF t] by (simp add: u_def)
      have sts: "stations u b = (if b = a then None else stations s b)" for b
        using talkedD [OF t] by (simp add: u_def)
      have cz: "sl_count s - 1 = 0 \<longleftrightarrow> bs = []" using c as by simp
      have fld: "sl_alive u = sl_alive s" "fresh_station u = fresh_station s" "master u = master s" "open_fds u = open_fds s"
        "sl_count u = sl_count s - 1"
        using talkedD [OF t] by (simp_all add: u_def)
      have ends: "sl_head u = st_next st \<and> sl_tail u = (if st_next st = None then None else sl_tail s)"
      proof (cases "bs = []")
        case True
        then have "sl_count t = 0" "st_next st = None" using cz last talkedD(5) [OF t] by simp_all
        then show ?thesis by (simp add: u_def)
      next
        case False
        then have "sl_count t \<noteq> 0" "st_next st \<noteq> None" using cz last talkedD(5) [OF t] by simp_all
        then show ?thesis using talkedD(4) [OF t] by (auto simp: u_def)
      qed
      have "list_ok u"
        unfolding list_ok_def
      proof (intro exI [of _ bs] conjI)
        have d: "a \<notin> set bs" using sq_distinct [OF sq] as True by simp
        have "sq (st_nx u) (sl_head u) (sl_tail u) bs = sq (st_nx s) (sl_head u) (sl_tail u) bs"
          by (rule sq_frame) (use d in \<open>auto simp: st_nx_def sts\<close>)
        then show "sq (st_nx u) (sl_head u) (sl_tail u) bs" using pop ends by simp
        show "set bs = dom (stations u)" using dom as True d by (auto simp: dom_def sts split: if_splits)
        show "sl_count u = int (length bs)" using c as unfolding fld by simp
      qed
      note g = gone_inv [OF inv cnt cl _ _ fld(1-4) this]
      have none: "stations u b = None \<longleftrightarrow> b = a \<or> stations s b = None" for b by (simp add: sts)
      have some: "\<exists>q st0. stations s b = Some st0 \<and> st' = st0\<lparr>st_next := q\<rparr>" if "stations u b = Some st'" for b st'
        using that by (intro exI [of _ "st_next st'"] exI [of _ st']) (simp add: sts split: if_splits)
      have "sninv L u" and "nobody_left u"
        by (rule g(1) [OF none some] g(2) [OF none some], assumption)+
      moreover have "dom (stations u) = dom (stations s) - {a}" by (auto simp: dom_def sts split: if_splits)
      ultimately show "okrun (\<lambda>s'. sninv L s' \<and> nobody_left s' \<and> dom (stations s') = dom (stations s) - {a})
        (let s = ?t1 in Inr (s\<lparr>stations := (stations s)(a := None)\<rparr>))"
        by (simp add: Let_def u_def)
    qed
    then show ?thesis using hd True st alive by (simp add: remove_station_def)
  next
    case False
    with \<open>a \<in> set as\<close> as obtain xs ys where bs: "bs = xs @ a # ys" by (auto elim: in_set_splitE)
    have "okrun (\<lambda>s'. sninv L s' \<and> nobody_left s' \<and> dom (stations s') = dom (stations s) - {a})
      (unlink_station (Suc (fresh_station s)) N a p s)"
    proof (rule unlink_station_run [OF inv net st cnt])
      show "sll (st_nx s) (Some p) (p # xs @ a # ys)" using sq hd as bs by (simp add: sq_def)
      show "sq (st_nx s) (sl_head s) (sl_tail s) ([] @ p # xs @ a # ys)" using sq as bs by simp
      show "set ([] @ p # xs @ a # ys) = dom (stations s)" using dom as bs by simp
      show "sl_count s = int (length ([] @ p # xs @ a # ys))" using c as bs by simp
      show "length xs < Suc (fresh_station s)" using len as bs by simp
    qed
    then show ?thesis using hd False alive by (simp add: remove_station_def)
  qed
qed

lemma delete_keeps:
  assumes "sninv L s" and "net_ok N" and "nobody_left s"
  shows "okrun (\<lambda>s'. sninv L s' \<and> nobody_left s') (delete_stations N toks s)"
  using assms
proof (induction toks arbitrary: s)
  case (Cons tok toks)
  obtain r where r: "find_station_from_id (atoi tok) s = Inr r" "\<forall>a. r = Some a \<longrightarrow> stations s a \<noteq> None"
    using find_station_run [OF Cons.prems(1)] by blast
  have alive: "sl_alive s" using Cons.prems(1) by (simp add: sninv_def)
  have rest: "okrun (\<lambda>s'. sninv L s' \<and> nobody_left s') (delete_stations N toks s)"
    by (rule Cons.IH) (use Cons.prems in auto)
  have "okrun (\<lambda>s'. sninv L s' \<and> nobody_left s') (bnd (remove_station N a s) (delete_stations N toks))" if "r = Some a" for a
    by (rule okrun_bnd [OF remove_station_keeps [OF Cons.prems(1,2) _ Cons.prems(3)]])
      (use r that Cons.IH Cons.prems(2) in auto)
  then show ?case using rest r alive by (auto simp: Let_def split: option.split)
qed simp

lemma shutdown_keeps:
  assumes inv: "sninv L s" and net: "net_ok N" and cnt: "nobody_left s"
  shows "okrun (\<lambda>s'. sninv L s' \<and> stations s' = Map.empty) (shutdown_all N s)"
proof -
  have loop: "okrun (\<lambda>s'. sninv L s' \<and> sl_head s' = None) (shutdown_loop fuel N t)"
    if "sninv L t" "nobody_left t" "card (dom (stations t)) < fuel" for fuel t
    using that
  proof (induction fuel arbitrary: t)
    case (Suc fuel)
    show ?case
    proof (cases "sl_head t")
      case None
      then show ?thesis using Suc.prems by simp
    next
      case (Some a)
      obtain as where as: "sq (st_nx t) (sl_head t) (sl_tail t) as" "set as = dom (stations t)"
        using station_list [OF Suc.prems(1)] by metis
      have "a \<in> set as" using as(1) Some by (cases as) (auto simp: sq_def)
      then have a: "a \<in> dom (stations t)" "stations t a \<noteq> None" and fin: "finite (dom (stations t))"
        using as(2) by (auto simp del: dom_def) (metis List.finite_set)
      have "card (dom (stations t) - {a}) < card (dom (stations t))" using a(1) fin by (rule card_Diff1_less [rotated])
      then have "okrun (\<lambda>s'. sninv L s' \<and> sl_head s' = None) (bnd (remove_station N a t) (shutdown_loop fuel N))"
        by (intro okrun_bnd [OF remove_station_keeps [OF Suc.prems(1) net a(2) Suc.prems(2)]])
          (use Suc in auto)
      then show ?thesis using Some by simp
    qed
  qed simp
  have "dom (stations s) \<subseteq> {..<fresh_station s}" using inv by (auto simp: sninv_def station_ok_def)
  then have "card (dom (stations s)) \<le> fresh_station s" using card_mono [of "{..<fresh_station s}"] by fastforce
  then have "card (dom (stations s)) < Suc (fresh_station s)" by simp
  from loop [OF inv cnt this] show ?thesis
    unfolding shutdown_all_def
  proof (rule okrun_bnd)
    fix t assume t: "sninv L t \<and> sl_head t = None"
    then obtain as where as: "sq (st_nx t) (sl_head t) (sl_tail t) as" "set as = dom (stations t)" "sl_count t = int (length as)"
      using station_list [of L t] by metis
    then have "as = []" using t by (simp add: sq_def)
    then have "sl_tail t = None" "sl_count t = 0" "dom (stations t) = {}" using as by (simp_all add: sq_def)
    then have "sl_tail t = None" "sl_count t = 0" "stations t = Map.empty" by simp_all
    then show "okrun (\<lambda>s'. sninv L s' \<and> stations s' = Map.empty)
      (check (sl_count t = 0 \<and> sl_head t = None \<and> sl_tail t = None) Assertion (Inr t))" using t by simp
  qed
qed

subsection \<open>Adding\<close>

lemma read_song_okrun: "is_end_mp3 str \<Longrightarrow> okrun (\<lambda>_. True) (read_song str songs)"
  by (auto simp: read_song_def intro: okrun_overrun)

lemma read_entries_okrun:
  assumes "\<And>name f path songs. (name, f) \<in> set es \<Longrightarrow> f \<noteq> Plain \<Longrightarrow> okrun (\<lambda>_. True) (read_song_dir path f songs)"
  shows "okrun (\<lambda>_. True) (read_entries prefix es songs)"
  using assms
proof (induction es arbitrary: songs)
  case (Cons e es)
  obtain name f where e: "e = (name, f)" by (cases e)
  have rest: "okrun (\<lambda>_. True) (read_entries prefix es songs')" for songs'
    by (rule Cons.IH) (use Cons.prems in auto)
  have after: "okrun (\<lambda>_. True) (case x of (ret, songs) \<Rightarrow> if ret = -1 then Inr (-1, songs) else read_entries prefix es songs)"
    for x :: "int \<times> string list"
    using rest by (cases x) auto
  have dir: "okrun (\<lambda>_. True) (read_song_dir path f songs)" if "f \<noteq> Plain" for path
    by (rule Cons.prems [of name]) (use e that in auto)
  show ?case unfolding e
    using rest by (auto simp: Let_def is_directory_def split: if_splits
      intro!: okrun_overrun okrun_bnd [OF dir after] okrun_bnd [OF read_song_okrun after])
qed simp

lemma read_dir_okrun: "f \<noteq> Plain \<Longrightarrow> okrun (\<lambda>_. True) (read_song_dir path f songs)"
proof (induction f arbitrary: path songs)
  case (Folder es)
  have "okrun (\<lambda>_. True) (read_entries (path @ ''/'') es songs)"
    by (rule read_entries_okrun) (rule Folder.IH, assumption, auto)
  then show ?case by (auto intro: okrun_overrun)
qed (auto intro: okrun_overrun)

end
