(* ===== verification/Snadd.thy ===== *)
theory Snadd
  imports Snadmin
begin

text \<open>
  Adding a station: it gets a number and goes to the end of the list.
\<close>

lemma next_id_run:
  assumes "sll (st_nx s) p as" and "set as \<subseteq> dom (stations s)" and "length as < fuel"
  shows "\<exists>n. next_id fuel s p k = Inr n"
  using assms
proof (induction fuel arbitrary: p as k)
  case (Suc fuel)
  show ?case
  proof (cases as)
    case Nil
    with Suc.prems show ?thesis by simp
  next
    case (Cons a bs)
    with Suc.prems obtain st where st: "stations s a = Some st" "p = Some a" by auto
    have "sll (st_nx s) (st_next st) bs" using Suc.prems(1) Cons st by (simp add: st_nx_at)
    from Suc.IH [OF this] Suc.prems Cons st show ?thesis by auto
  qed
qed simp

text \<open>When the numbers count up along the list, the next one follows.\<close>

lemma next_id_counts:
  assumes "sll (st_nx s) p as" and "length as < fuel"
    and "\<forall>j<length as. \<exists>st. stations s (as ! j) = Some st \<and> st_id st = k + j"
  shows "next_id fuel s p k = Inr (k + length as)"
  using assms
proof (induction fuel arbitrary: p as k)
  case (Suc fuel)
  show ?case
  proof (cases as)
    case Nil
    with Suc.prems show ?thesis by simp
  next
    case (Cons a bs)
    from Suc.prems(3) Cons obtain st where st: "stations s a = Some st" "st_id st = k" by auto
    have p: "p = Some a" using Suc.prems(1) Cons by simp
    have "sll (st_nx s) (st_next st) bs" using Suc.prems(1) Cons st by (simp add: st_nx_at)
    moreover have "\<forall>j<length bs. \<exists>st. stations s (bs ! j) = Some st \<and> st_id st = Suc k + j"
      using Suc.prems(3) Cons by fastforce
    ultimately have "next_id fuel s (st_next st) (Suc k) = Inr (Suc k + length bs)"
      using Suc.IH [of "st_next st" bs "Suc k"] Suc.prems(2) Cons by simp
    then show ?thesis using st p Cons by simp
  qed
qed simp

lemma push_run:
  assumes alive: "sl_alive t" and sq: "sq (st_nx t) (sl_head t) (sl_tail t) as" and dom: "set as \<subseteq> dom (stations t)"
    and a: "a \<notin> set as" "stations t a = Some st" "st_next st = None" and len: "length as \<le> fresh_station t"
  shows "\<exists>n u. push_station_to_list a t = Inr u \<and> next_id (Suc (fresh_station t)) t (sl_head t) 0 = Inr n
    \<and> (\<forall>b. stations u b = (if b = a then Some (st\<lparr>st_id := n\<rparr>) else if as \<noteq> [] \<and> b = last as
          then map_option (st_next_update (\<lambda>_. Some a)) (stations t b) else stations t b))
    \<and> sq (st_nx u) (sl_head u) (sl_tail u) (as @ [a]) \<and> sl_count u = sl_count t + 1
    \<and> clients u = clients t \<and> sl_alive u \<and> master u = master t \<and> open_fds u = open_fds t
    \<and> fresh_station u = fresh_station t \<and> sn_log u = sn_log t"
proof -
  have links: "sll (st_nx t) (sl_head t) as" using sq by (simp add: sq_def)
  from next_id_run [OF links dom, of "Suc (fresh_station t)" 0] len obtain n where
    n: "next_id (Suc (fresh_station t)) t (sl_head t) 0 = Inr n" by auto
  let ?t1 = "upd_st a (st_id_update (\<lambda>_. n)) t"
  have nx1: "st_nx ?t1 = st_nx t" by simp
  have nxa: "st_nx t a = None" using a by (simp add: st_nx_at)
  show ?thesis
  proof (cases "as = []")
    case True
    then have e: "sl_head t = None" "sl_tail t = None" using sq by simp_all
    let ?u = "?t1\<lparr>sl_head := Some a, sl_tail := Some a, sl_count := sl_count t + 1\<rparr>"
    have run: "push_station_to_list a t = Inr ?u"
      using alive n e by (simp add: push_station_to_list_def Let_def)
    have "st_nx ?u a = None" using a by (simp add: st_nx_def)
    then have "sq (st_nx ?u) (sl_head ?u) (sl_tail ?u) (as @ [a])" using True by (simp add: sq_def)
    then show ?thesis using run n a True alive by (intro exI [of _ n] exI [of _ ?u]) simp
  next
    case False
    let ?l = "last as"
    have tl: "sl_tail t = Some ?l" using sq False by (simp add: sq_def)
    have hd: "sl_head t \<noteq> None" using links False by (cases as) auto
    have la: "?l \<noteq> a" "?l \<in> set as" using a(1) False last_in_set [OF False] by auto
    then obtain lst where lst: "stations t ?l = Some lst" using dom by auto
    let ?u = "(upd_st ?l (st_next_update (\<lambda>_. Some a)) ?t1)\<lparr>sl_tail := Some a, sl_count := sl_count t + 1\<rparr>"
    have run: "push_station_to_list a t = Inr ?u"
      using alive n hd tl la lst by (auto simp: push_station_to_list_def Let_def)
    have nxu: "st_nx ?u = (st_nx t)(?l := Some a)"
      using la lst a by (auto simp: st_nx_def fun_eq_iff split: option.split)
    have "sq ((st_nx t)(?l := Some a)) (sl_head t) (Some a) (as @ [a])"
      by (rule sq_push(2) [OF sq a(1) nxa tl])
    then have "sq (st_nx ?u) (sl_head ?u) (sl_tail ?u) (as @ [a])" unfolding nxu by simp
    then show ?thesis using run n a False alive la by (intro exI [of _ n] exI [of _ ?u]) simp
  qed
qed

lemma sninvI:
  "sl_alive s \<Longrightarrow> (\<And>i. client_ok s i) \<Longrightarrow> sockets_ok L s \<Longrightarrow> (\<And>a. station_ok s a) \<Longrightarrow> list_ok s \<Longrightarrow> sninv L s"
  by (simp add: sninv_def)

lemma spare_address: "sninv L s \<Longrightarrow> stations s (fresh_station s) = None"
  by (cases "stations s (fresh_station s)") (auto simp: sninv_def station_ok_def)

lemma add_station_keeps:
  assumes inv: "sninv L s"
  shows "okrun (sninv L) (add_station fs file s)"
proof -
  let ?a = "fresh_station s"
  have alive: "sl_alive s" using inv by (simp add: sninv_def)
  have free: "stations s ?a = None" by (rule spare_address [OF inv])
  have ok: "client_ok s j" for j using inv by (simp add: sninv_def)
  have so: "sockets_ok L s" using inv by (simp add: sninv_def)
  have sta: "station_ok s b" for b using inv by (simp add: sninv_def)
  let ?s1 = "s\<lparr>stations := (stations s)(?a \<mapsto> zero_station), fresh_station := Suc ?a\<rparr>"
  have unused: "sninv L (?s1\<lparr>stations := (stations ?s1)(?a := None)\<rparr>)"
  proof -
    let ?u = "?s1\<lparr>stations := (stations ?s1)(?a := None)\<rparr>"
    have e: "stations ?u = stations s" using free by (simp add: fun_eq_iff)
    have nx: "st_nx ?u = st_nx s" "cl_nx ?u = cl_nx s" unfolding st_nx_def cl_nx_def e by simp_all
    have "client_ok ?u j" for j using ok [of j] unfolding client_ok_def e by simp
    moreover have "sockets_ok L ?u" by (rule sockets_ok_cong [OF so]) simp_all
    moreover have "station_ok ?u b" for b
      using sta [of b] unfolding station_ok_def serves_def e nx by auto
    moreover have "list_ok ?u"
    proof -
      have "list_ok s" using inv by (simp add: sninv_def)
      then show ?thesis unfolding list_ok_def e nx by simp
    qed
    moreover have "sl_alive ?u" using alive by simp
    ultimately show ?thesis by (intro sninvI)
  qed
  have used: "okrun (sninv L) (let s = upd_st ?a (st_songs_update (\<lambda>_. songs)) ?s1 in
         bnd (push_station_to_list ?a s) (spawn_sender ?a))" if songs: "songs \<noteq> []" for songs
  proof -
    let ?t = "upd_st ?a (st_songs_update (\<lambda>_. songs)) ?s1"
    obtain as where sq: "sq (st_nx s) (sl_head s) (sl_tail s) as" and dom: "set as = dom (stations s)"
      and c: "sl_count s = int (length as)" and len: "length as \<le> fresh_station s"
      using station_list [OF inv] by metis
    have a: "?a \<notin> set as" using dom free by auto
    have "sq (st_nx ?t) (sl_head ?t) (sl_tail ?t) as = sq (st_nx s) (sl_head ?t) (sl_tail ?t) as"
      by (rule sq_frame) (use a in \<open>auto simp: st_nx_def\<close>)
    then have sqt: "sq (st_nx ?t) (sl_head ?t) (sl_tail ?t) as" using sq by simp
    have "\<exists>n u. push_station_to_list ?a ?t = Inr u \<and> next_id (Suc (fresh_station ?t)) ?t (sl_head ?t) 0 = Inr n
      \<and> (\<forall>b. stations u b = (if b = ?a then Some ((zero_station\<lparr>st_songs := songs\<rparr>)\<lparr>st_id := n\<rparr>) else if as \<noteq> [] \<and> b = last as
          then map_option (st_next_update (\<lambda>_. Some ?a)) (stations ?t b) else stations ?t b))
      \<and> sq (st_nx u) (sl_head u) (sl_tail u) (as @ [?a]) \<and> sl_count u = sl_count ?t + 1
      \<and> clients u = clients ?t \<and> sl_alive u \<and> master u = master ?t \<and> open_fds u = open_fds ?t
      \<and> fresh_station u = fresh_station ?t \<and> sn_log u = sn_log ?t"
      by (rule push_run [OF _ sqt]) (use alive dom a len in \<open>auto simp: zero_station_def\<close>)
    then obtain n and u :: snow where p: "push_station_to_list ?a ?t = Inr u"
      and su0: "\<forall>b. stations u b = (if b = ?a then Some ((zero_station\<lparr>st_songs := songs\<rparr>)\<lparr>st_id := n\<rparr>) else if as \<noteq> [] \<and> b = last as
          then map_option (st_next_update (\<lambda>_. Some ?a)) (stations ?t b) else stations ?t b)"
      and squ: "sq (st_nx u) (sl_head u) (sl_tail u) (as @ [?a])"
      and cu0: "sl_count u = sl_count ?t + 1" and fu0: "clients u = clients ?t" "sl_alive u" "master u = master ?t"
        "open_fds u = open_fds ?t" "fresh_station u = fresh_station ?t"
      by (elim exE conjE) (rule that; assumption)
    have cu: "sl_count u = sl_count s + 1" using cu0 by simp
    have fu: "clients u = clients s" "sl_alive u" "master u = master s" "open_fds u = open_fds s"
        "fresh_station u = Suc ?a" using fu0 by simp_all
    have tb: "stations ?t b = stations s b" if "b \<noteq> ?a" for b using that by simp
    have su: "stations u b = (if b = ?a then Some ((zero_station\<lparr>st_songs := songs\<rparr>)\<lparr>st_id := n\<rparr>) else if as \<noteq> [] \<and> b = last as
          then map_option (st_next_update (\<lambda>_. Some ?a)) (stations s b) else stations s b)" for b
      using su0 [rule_format, of b] tb [of b] by (cases "b = ?a") simp_all
    let ?v = "upd_st ?a (st_sender_update (\<lambda>_. True)) u"
    have run: "spawn_sender ?a u = Inr ?v" using su [of ?a] by (simp add: spawn_sender_def zero_station_def)
    have nxu: "st_nx ?v = st_nx u" "cl_nx ?v = cl_nx s" using fu by (auto simp: cl_nx_def fun_eq_iff)
    have some: "stations ?v b \<noteq> None \<longleftrightarrow> b = ?a \<or> stations s b \<noteq> None" for b by (simp add: su)
    have "client_ok ?v j" for j
    proof -
      have "\<exists>st. stations ?v b = Some st" if "c_station (clients s j) = Some b" for b
        using ok [of j] that some [of b] by (auto simp: client_ok_def Let_def)
      then show ?thesis using ok [of j] unfolding client_ok_def by (auto simp: fu Let_def)
    qed
    moreover have "sockets_ok L ?v" by (rule sockets_ok_cong [OF so]) (simp_all add: fu)
    moreover have "station_ok ?v b" for b
    proof (cases "b = ?a")
      case True
      have none: "c_station (clients s i) \<noteq> Some ?a" for i
        using ok [of i] free by (auto simp: client_ok_def Let_def)
      have "serves ?v b []" using True su [of ?a] by (simp add: serves_def zero_station_def)
      then show ?thesis using True su [of ?a] songs none fu
        by (auto simp: station_ok_def zero_station_def intro!: exI [of _ "[]"])
    next
      case False
      show ?thesis unfolding station_ok_def
      proof (intro allI impI)
        fix st' assume "stations ?v b = Some st'"
        then have "\<exists>st q. stations s b = Some st \<and> st' = st\<lparr>st_next := q\<rparr>"
        proof (cases "as \<noteq> [] \<and> b = last as")
          case True
          then show ?thesis using \<open>stations ?v b = Some st'\<close> False by (auto simp: su)
        next
          case other: False
          have "stations ?v b = stations s b" using False other by (simp add: su del: not_None_eq) auto
          then show ?thesis using \<open>stations ?v b = Some st'\<close>
            by (intro exI [of _ st'] exI [of _ "st_next st'"]) simp
        qed
        then obtain st q where st: "stations s b = Some st" and e: "st' = st\<lparr>st_next := q\<rparr>" by blast
        obtain xs where xs: "serves s b xs" "\<forall>i. i \<in> set xs \<longleftrightarrow> c_station (clients s i) = Some b"
          "int (length xs) \<le> st_count st" "b < fresh_station s" "st_songs st \<noteq> []"
          using sta [of b] st by (auto simp: station_ok_def)
        have "serves ?v b xs"
          using xs(1) st e \<open>stations ?v b = Some st'\<close> unfolding serves_def nxu(2) by simp
        then show "b < fresh_station ?v \<and> st_songs st' \<noteq> [] \<and> (\<exists>xs. serves ?v b xs
            \<and> (\<forall>i. (i \<in> set xs) = (c_station (clients ?v i) = Some b)) \<and> int (length xs) \<le> st_count st')"
          using xs e fu by auto
      qed
    qed
    moreover have "list_ok ?v"
      unfolding list_ok_def
    proof (intro exI [of _ "as @ [?a]"] conjI)
      show "sq (st_nx ?v) (sl_head ?v) (sl_tail ?v) (as @ [?a])" using squ unfolding nxu by simp
      show "set (as @ [?a]) = dom (stations ?v)"
        using dom some by (auto simp: dom_def set_eq_iff)
      show "sl_count ?v = int (length (as @ [?a]))" using cu c by simp
    qed
    moreover have "sl_alive ?v" using fu by simp
    ultimately have "sninv L ?v" by (intro sninvI)
    then show ?thesis using p run by (simp add: Let_def)
  qed
  have finish: "okrun (sninv L) (case x of (_, songs) \<Rightarrow>
       if songs = [] then Inr (?s1\<lparr>stations := (stations ?s1)(?a := None)\<rparr>)
       else let s = upd_st ?a (st_songs_update (\<lambda>_. songs)) ?s1 in bnd (push_station_to_list ?a s) (spawn_sender ?a))"
    for x :: "int \<times> string list"
    using unused used by (cases x) auto
  have read: "okrun (\<lambda>_. True) (if is_end_mp3 file then read_song file []
            else deref (fs file) (Stopped 1) (\<lambda>f. if is_directory f then read_song_dir file f [] else Inr (0, [])))"
    by (cases "fs file") (auto intro: read_song_okrun read_dir_okrun simp: is_directory_def)
  show ?thesis
    using alive inv okrun_bnd [OF read finish] unfolding add_station_def alloc_station_def
    by (cases "sl_count s = int MAX_STATION_NUM") (simp_all add: Let_def)
qed

lemma announce_added_keeps:
  assumes "sninv L s" and "net_ok N"
  shows "okrun (sninv L) (announce_added N is s)"
  using assms(1)
proof (induction "is" arbitrary: s)
  case (Cons i "is")
  have "okrun (sninv L) (bnd (send_announce N (c_socket (clients s i)) ''New station is added.'' s) (\<lambda>(_, s). Inr s))"
    by (rule okrun_bnd [OF announce_okrun [OF assms(2)]]) (auto dest: talked_inv [OF _ Cons.prems])
  then have "okrun (sninv L) (if c_state (clients s i) = HANDSHAKED then
            bnd (send_announce N (c_socket (clients s i)) ''New station is added.'' s) (\<lambda>(_, s). Inr s)
          else Inr s)" using Cons.prems by simp
  then show ?case unfolding announce_added.simps by (rule okrun_bnd) (rule Cons.IH)
qed simp

end
