(* ===== verification/Snreach.thy ===== *)
theory Snreach
  imports Snmsgs Snadd
begin

text \<open>
  The Snowcast server as a state machine.  A step is an arrival, a line of a client, a round of a sender
  or a command of the user.  \<open>sn_good\<close> is the use of the server that keeps it alive: a free slot for every
  arrival, a station set at most once and by a client that was greeted, no departure before the
  greeting, no \<open>q\<close>, and no removal of stations after a client has left one.
\<close>

subsection \<open>Printing returns\<close>

lemma station_clients_okrun:
  assumes "sll (cl_nx s) p xs" and "length xs < fuel" and "\<forall>i\<in>set xs. c_ip (clients s i) \<noteq> No_ip"
  shows "okrun (\<lambda>_. True) (station_clients fuel k p s)"
  using assms
proof (induction fuel arbitrary: p xs)
  case (Suc fuel)
  show ?case
  proof (cases xs)
    case (Cons c ys)
    with Suc.prems have c: "p = Some c" "sll (cl_nx s) (cl_nx s c) ys" "c_ip (clients s c) \<noteq> No_ip" by auto
    have "okrun (\<lambda>_. True) (station_clients fuel k (cl_nx s c) s)"
      by (rule Suc.IH) (use c Suc.prems Cons in auto)
    moreover obtain ip where "ip_text (c_ip (clients s c)) s = Inr ip"
      using c(3) by (cases "c_ip (clients s c)") (auto simp: ip_text_def)
    ultimately show ?thesis using c(1) by (auto simp: cl_nx_at intro: okrun_bnd)
  qed (use Suc.prems in simp)
qed simp

lemma print_list_okrun:
  assumes inv: "sninv L s" and "sll (st_nx s) p as" and "set as \<subseteq> dom (stations s)" and "length as < fuel"
  shows "okrun (\<lambda>_. True) (print_list fuel p s)"
  using assms(2-4)
proof (induction fuel arbitrary: p as)
  case (Suc fuel)
  show ?case
  proof (cases as)
    case (Cons a bs)
    with Suc.prems obtain st where st: "stations s a = Some st" "p = Some a" by auto
    obtain xs where xs: "sq (cl_nx s) (st_head st) (st_tail st) xs" "length xs \<le> MAX_CLIENT_NUM"
      and h: "\<forall>i\<in>set xs. c_state (clients s i) = HANDSHAKED \<and> c_udp_sock (clients s i) \<noteq> 0
           \<and> c_udp_addr (clients s i) \<noteq> None \<and> c_socket (clients s i) \<noteq> 0"
      using station_serves [OF inv st(1)] by metis
    have "c_ip (clients s i) \<noteq> No_ip" if "i \<in> set xs" for i
    proof -
      have "client_ok s i" using inv by (simp add: sninv_def)
      then show ?thesis using h that by (auto simp: client_ok_def Let_def)
    qed
    then have a: "okrun (\<lambda>_. True) (station_clients CLIENT_FUEL (st_id st) (st_head st) s)"
      by (intro station_clients_okrun) (use xs in \<open>auto simp: sq_def CLIENT_FUEL_def\<close>)
    have "sll (st_nx s) (st_next st) bs" using Suc.prems(1) Cons st by (simp add: st_nx_at)
    then have b: "okrun (\<lambda>_. True) (print_list fuel (st_next st) s)"
      by (rule Suc.IH) (use Suc.prems Cons in auto)
    show ?thesis using st by (auto intro!: okrun_bnd [OF a] okrun_bnd [OF b])
  qed (use Suc.prems in simp)
qed simp

lemma print_stations_okrun: "sninv L s \<Longrightarrow> okrun (\<lambda>_. True) (print_stations s)"
proof -
  assume inv: "sninv L s"
  obtain as where sq: "sq (st_nx s) (sl_head s) (sl_tail s) as" and as: "set as = dom (stations s)"
    "sl_count s = int (length as)" "length as \<le> fresh_station s" using station_list [OF inv] by metis
  have "okrun (\<lambda>_. True) (print_list (Suc (fresh_station s)) (sl_head s) s)"
    by (rule print_list_okrun [OF inv]) (use sq as in \<open>auto simp: sq_def\<close>)
  then show ?thesis using inv sq as
    by (cases as) (auto simp: print_stations_def sninv_def sq_def intro: okrun_bnd)
qed

lemma print_clients_okrun:
  assumes inv: "sninv L s"
  shows "okrun (\<lambda>_. True) (print_clients s)"
proof -
  have "okrun (\<lambda>_. True) (client_lines is s)" for "is"
  proof (induction "is")
    case (Cons i "is")
    have "client_ok s i" using inv by (simp add: sninv_def)
    then have "c_state (clients s i) \<noteq> NO_STATE \<Longrightarrow> okrun (\<lambda>_. True) (ip_text (c_ip (clients s i)) s)"
      by (cases "c_ip (clients s i)") (auto simp: client_ok_def Let_def ip_text_def)
    then show ?case using Cons by (auto intro!: okrun_bnd)
  qed simp
  then show ?thesis by (auto simp: print_clients_def intro!: okrun_bnd)
qed

subsection \<open>Steps\<close>

datatype snevent =
    Arrive nat string
  | Serve nat int string
  | Start nat bool
  | Play nat "string option" bool
  | Command string

definition sn_handle :: "snet \<Rightarrow> (string \<Rightarrow> fsn option) \<Rightarrow> snevent \<Rightarrow> snow \<Rightarrow> snfault + snow" where
  "sn_handle N fs e s =
     (case e of
        Arrive fd ip \<Rightarrow> selected s (accept_client N fd ip s)
      | Serve fd result buf \<Rightarrow> selected s (serve N fd result buf s)
      | Start a opened \<Rightarrow> start_song a opened s
      | Play a data opened \<Rightarrow> loop_song N a data opened s
      | Command line \<Rightarrow> user_input N fs line s)"

definition greeted :: "clientinfo \<Rightarrow> bool" where
  "greeted c \<longleftrightarrow> c_state c = HANDSHAKED \<and> c_udp_addr c \<noteq> None"

definition sn_good :: "nat \<Rightarrow> snevent \<Rightarrow> snow \<Rightarrow> bool" where
  "sn_good L e s =
     (case e of
        Arrive fd ip \<Rightarrow> fd \<notin> open_fds s \<and> fd \<noteq> 0 \<and> find_first_client s \<noteq> None
      | Serve fd result buf \<Rightarrow> fd \<in> master s \<and> fd \<noteq> L \<and> (\<exists>i. find_client fd s = Some i \<and>
          (if result \<le> 0 then c_udp_addr (clients s i) \<noteq> None
           else (byte buf 0 \<noteq> CMD_HELLO \<longrightarrow> playing s)
             \<and> (byte buf 0 = CMD_SETSTATION \<longrightarrow> greeted (clients s i) \<and> c_station (clients s i) = None)))
      | Start a opened \<Rightarrow> stations s a \<noteq> None
      | Play a data opened \<Rightarrow> stations s a \<noteq> None
      | Command line \<Rightarrow> take 1 line \<noteq> ''q'' \<and> (take 1 line = ''d'' \<or> take 1 line = ''s'' \<longrightarrow> nobody_left s))"

inductive snreach :: "nat \<Rightarrow> snet \<Rightarrow> (string \<Rightarrow> fsn option) \<Rightarrow> string list \<Rightarrow> snow \<Rightarrow> bool"
  for L N fs files where
  snreach_start: "server_main L fs files = Inr s \<Longrightarrow> snreach L N fs files s"
| snreach_step: "snreach L N fs files s \<Longrightarrow> sn_good L e s \<Longrightarrow> sn_handle N fs e s = Inr s' \<Longrightarrow> snreach L N fs files s'"

lemma init_inv: "sninv L (init_globals L)"
proof (rule sninvI)
  show "client_ok (init_globals L) i" for i by (simp add: client_ok_def init_globals_def)
  show "sockets_ok L (init_globals L)" by (simp add: sockets_ok_def init_globals_def)
  show "station_ok (init_globals L) a" for a by (simp add: station_ok_def init_globals_def)
  show "list_ok (init_globals L)"
    by (auto simp: list_ok_def init_globals_def intro: exI [of _ "[]"])
qed (simp add: init_globals_def)

lemma read_station_keeps: "sninv L s \<Longrightarrow> okrun (sninv L) (read_station fs files s)"
proof (induction files arbitrary: s)
  case (Cons f files)
  show ?case unfolding read_station.simps
    by (rule okrun_bnd [OF add_station_keeps [OF Cons.prems]]) (rule Cons.IH)
qed simp

lemma selected_ok: "sninv L s \<Longrightarrow> selected s m = m"
  by (simp add: selected_def sninv_def sockets_ok_def)

lemma serve_keeps:
  assumes inv: "sninv L s" and net: "net_ok N" and good: "sn_good L (Serve fd result buf) s"
  shows "okrun (sninv L) (serve N fd result buf s)"
proof -
  from good obtain i where fd: "fd \<in> master s" "fd \<noteq> L" and i: "find_client fd s = Some i"
    and g: "result \<le> 0 \<Longrightarrow> c_udp_addr (clients s i) \<noteq> None"
      "0 < result \<Longrightarrow> (byte buf 0 \<noteq> CMD_HELLO \<longrightarrow> playing s)
             \<and> (byte buf 0 = CMD_SETSTATION \<longrightarrow> greeted (clients s i) \<and> c_station (clients s i) = None)"
    by (auto simp: sn_good_def split: if_splits)
  have live: "c_socket (clients s i) = fd" "c_state (clients s i) \<noteq> NO_STATE"
    using client_index [OF inv fd] i by (metis option.inject)+
  have ok: "client_ok s i" using inv by (simp add: sninv_def)
  show ?thesis
  proof (cases "result \<le> 0")
    case True
    obtain addr where addr: "c_udp_addr (clients s i) = Some addr" using g(1) [OF True] by auto
    have sock: "c_socket (clients s i) \<noteq> 0" "c_udp_sock (clients s i) \<noteq> 0" "c_ip (clients s i) \<noteq> No_ip"
      using ok live addr by (auto simp: client_ok_def Let_def)
    have close: "okrun (sninv L) (close_client (Some i) t)" if "talked s t" for t
    proof -
      have "sninv L t" by (rule talked_inv [OF that inv])
      from close_keeps [OF this, of i] sock talkedD [OF that] show ?thesis by auto
    qed
    obtain ip where "ip_text (c_ip (clients s i)) s = Inr ip"
      using sock(3) by (cases "c_ip (clients s i)") (auto simp: ip_text_def)
    then show ?thesis using True i addr close by (auto simp: serve_def Let_def)
  next
    case False
    have "okrun (\<lambda>(r, s'). sninv L s') (parse_and_send N fd buf s)"
      by (rule parse_keeps [OF inv net fd]) (use g(2) False i in \<open>auto simp: greeted_def\<close>)
    then have "okrun (sninv L) (bnd (parse_and_send N fd buf s) (\<lambda>(_, s). Inr s))" by (rule okrun_bnd) auto
    then show ?thesis using False by (simp add: serve_def)
  qed
qed

lemma user_keeps:
  assumes inv: "sninv L s" and net: "net_ok N" and good: "sn_good L (Command line) s"
  shows "okrun (sninv L) (user_input N fs line s)"
proof (cases line)
  case Nil
  then show ?thesis using inv by (simp add: user_input_def)
next
  case (Cons c rest)
  have q: "c \<noteq> CHR ''q''" and left: "c = CHR ''d'' \<or> c = CHR ''s'' \<Longrightarrow> nobody_left s"
    using good Cons by (auto simp: sn_good_def)
  have l: "okrun (sninv L) (bnd (print_stations s) (\<lambda>_. Inr s))"
    by (rule okrun_bnd [OF print_stations_okrun [OF inv]]) (simp add: inv)
  have k: "okrun (sninv L) (bnd (print_clients s) (\<lambda>_. Inr s))"
    by (rule okrun_bnd [OF print_clients_okrun [OF inv]]) (simp add: inv)
  have a: "okrun (sninv L) (bnd (add_station fs f s) (announce_added N [0..<MAX_CLIENT_NUM]))" for f
    by (rule okrun_bnd [OF add_station_keeps [OF inv]]) (rule announce_added_keeps [OF _ net])
  have d: "okrun (sninv L) (delete_stations N toks s)" if "c = CHR ''d''" for toks
    using okrun_mono [OF delete_keeps [OF inv net left]] that by blast
  have x: "okrun (sninv L) (shutdown_all N s)" if "c = CHR ''s''"
    using okrun_mono [OF shutdown_keeps [OF inv net left]] that by blast
  show ?thesis unfolding user_input_def Let_def Cons list.case using inv q l k a d x by simp
qed

lemma sn_step_keeps:
  assumes "sninv L s" and "net_ok N" and "sn_good L e s"
  shows "okrun (sninv L) (sn_handle N fs e s)"
proof (cases e)
  case (Arrive fd ip)
  then obtain k where "fd \<notin> open_fds s" "fd \<noteq> 0" "find_first_client s = Some k"
    using assms(3) by (auto simp: sn_good_def)
  from accept_keeps [OF assms(1) this, of N ip] show ?thesis
    using Arrive by (auto simp: sn_handle_def selected_ok [OF assms(1)])
next
  case (Serve fd result buf)
  then show ?thesis using serve_keeps [OF assms(1,2)] assms(3) by (simp add: sn_handle_def selected_ok [OF assms(1)])
next
  case (Start a opened)
  then show ?thesis using start_song_keeps [OF assms(1)] assms(3) by (simp add: sn_handle_def sn_good_def)
next
  case (Play a data opened)
  then show ?thesis using loop_song_keeps [OF assms(1,2)] assms(3) by (simp add: sn_handle_def sn_good_def)
next
  case (Command line)
  then show ?thesis using user_keeps [OF assms(1,2)] assms(3) by (simp add: sn_handle_def)
qed

lemma snreach_inv:
  assumes "snreach L N fs files s" and net: "net_ok N"
  shows "sninv L s"
  using assms(1)
proof (induction rule: snreach.induct)
  case (snreach_start s)
  then show ?case using okrun_InrD [OF read_station_keeps [OF init_inv]] by (simp add: server_main_def)
next
  case (snreach_step s e s')
  then show ?case using okrun_InrD [OF sn_step_keeps [OF _ net]] by blast
qed

end
