(* ===== verification/Sncontrol.thy ===== *)
theory Sncontrol
  imports Snserver
begin

text \<open>
  The Snowcast client, \<open>snowcast_control.c\<close>, and the listener for the stream, \<open>snowcast_listener.c\<close>.  The
  client keeps the queue of commands it has sent; \<open>k_wait\<close> is \<open>wait_for_announce\<close>, \<open>k_log\<close> what it
  sent.  The threads for sending and receiving take the mutex of the queue around each access; a line of
  the user and a message of the server each run as one step.  What is printed is not kept.
\<close>

definition CONTROL_BUF_SIZE :: nat where "CONTROL_BUF_SIZE = 256"

record control =
  k_queue :: cqueue
  k_wait :: bool
  k_log :: "snev list"

subsection \<open>Sending\<close>

text \<open>The client's \<open>send_all\<close> differs from the server's in that it sets \<open>n\<close> before the loop.\<close>

definition control_send_all :: "snet \<Rightarrow> nat \<Rightarrow> string \<Rightarrow> control \<Rightarrow> snfault + (int \<times> control)" where
  "control_send_all N s buf k =
     bnd (send_loop N s buf (k_log k)) (\<lambda>(r, log). Inr (r, k\<lparr>k_log := log\<rparr>))"

definition queue_command :: "nat \<Rightarrow> control \<Rightarrow> snfault + control" where
  "queue_command cmd k =
     bnd (command_queue_enqueue (word_of_nat cmd) (k_queue k)) (\<lambda>q. Inr (k\<lparr>k_queue := q\<rparr>))"

text \<open>The bytes of a \<open>uint16_t\<close> after \<open>htons\<close>.\<close>

definition htons_bytes :: "int \<Rightarrow> string" where
  "htons_bytes n = (let w = nat (n mod 65536) in [char_of (w div 256), char_of (w mod 256)])"

definition station_message :: "string \<Rightarrow> string" where
  "station_message st = char_of CMD_SETSTATION # htons_bytes (atoi st) @ ''\<newline>''"

definition hello_message :: "string \<Rightarrow> string" where
  "hello_message port = char_of CMD_HELLO # htons_bytes (atoi port) @ ''\<newline>''"

definition request_message :: "nat \<Rightarrow> string" where
  "request_message typ = char_of CMD_REQUEST # char_of typ # ''\<newline>''"

definition send_set_station :: "snet \<Rightarrow> nat \<Rightarrow> string \<Rightarrow> control \<Rightarrow> snfault + (int \<times> control)" where
  "send_set_station N s st k =
     bnd (queue_command CMD_SETSTATION k) (control_send_all N s (station_message st))"

definition send_request :: "snet \<Rightarrow> nat \<Rightarrow> nat \<Rightarrow> control \<Rightarrow> snfault + (int \<times> control)" where
  "send_request N s typ k =
     check (typ = TYPE_ALL \<or> typ = TYPE_CURRENT \<or> typ = TYPE_ALL_STATION) Assertion (
     bnd (queue_command CMD_REQUEST k) (control_send_all N s (request_message typ)))"

definition send_hello :: "snet \<Rightarrow> nat \<Rightarrow> string \<Rightarrow> control \<Rightarrow> snfault + (int \<times> control)" where
  "send_hello N s udp_port k =
     check (0 < s) Assertion (
     if udp_port = [] then Inr (-1, k)
     else bnd (queue_command CMD_HELLO k) (control_send_all N s (hello_message udp_port)))"

text \<open>One line of the user; \<open>assert(0)\<close> stops the client on a word it does not know.\<close>

definition control_parse_and_send :: "snet \<Rightarrow> nat \<Rightarrow> string \<Rightarrow> control \<Rightarrow> snfault + (int \<times> control)" where
  "control_parse_and_send N s line k =
     check (0 < s) Assertion (
     case take MAX_TOKENS (tokens [] line) of
       [] \<Rightarrow> Inr (0, k)
     | [w] \<Rightarrow>
         if w = ''Exit'' then Inl (Stopped 0)
         else
           let sent = (\<lambda>typ. bnd (send_request N s typ k) (\<lambda>(_, k). Inr (-1, k))) in
           if w = ''Reqall'' then sent TYPE_ALL
           else if w = ''Reqast'' then sent TYPE_ALL_STATION
           else if w = ''Reqcur'' then sent TYPE_CURRENT
           else Inl Assertion
     | w # args \<Rightarrow>
         if w = ''Set'' then
           if length args \<noteq> 1 then Inr (-1, k)
           else if k_wait k then Inr (-1, k)
           else bnd (send_set_station N s (hd args) k) (\<lambda>(r, k). Inr (if r = -1 then -1 else 0, k))
         else Inr (-1, k))"

subsection \<open>Receiving\<close>

definition drop_command :: "control \<Rightarrow> snfault + control" where
  "drop_command k = bnd (command_queue_dequeue (k_queue k)) (\<lambda>(_, q). Inr (k\<lparr>k_queue := q\<rparr>))"

text \<open>A text of a message: its length stands in byte 1.  The buffer that is read is as large as the one that
  it is copied to.\<close>

definition message_text :: "string \<Rightarrow> snfault + string" where
  "message_text buf =
     (let n = byte buf 1 in
      check (n + 2 \<le> CONTROL_BUF_SIZE) Index_error (
      Inr (takeWhile (\<lambda>c. c \<noteq> CHR 0x00) (map (\<lambda>j. char_of (byte buf (j + 2))) [0..<n]))))"

text \<open>The last branch unlocks a mutex that it has not locked, which is undefined.\<close>

definition receiver_parser :: "string \<Rightarrow> control \<Rightarrow> snfault + control" where
  "receiver_parser buf k =
     (let first_byte = byte buf 0 in
      if first_byte = MSG_WELCOME then
        bnd (command_queue_head (k_queue k)) (\<lambda>head.
        if head = word_of_nat CMD_HELLO then drop_command k else Inr k)
      else if first_byte = MSG_ANNOUNCE then
        bnd (message_text buf) (\<lambda>tmp.
        if tmp = ''Set Station Confirmed'' then
          bnd (command_queue_head (k_queue k)) (\<lambda>head.
          if head = word_of_nat CMD_SETSTATION then drop_command (k\<lparr>k_wait := False\<rparr>) else Inr k)
        else if tmp = ''Request Confirmed'' then
          bnd (command_queue_head (k_queue k)) (\<lambda>head.
          if head = word_of_nat CMD_REQUEST then drop_command k else Inr k)
        else Inr k)
      else if first_byte = MSG_INVALID then
        bnd (command_queue_head (k_queue k)) (\<lambda>head.
        let k = (if head = word_of_nat CMD_SETSTATION then k\<lparr>k_wait := False\<rparr> else k) in
        bnd (message_text buf) (\<lambda>_. drop_command k))
      else bnd (drop_command k) (\<lambda>_. Inl Mutex_misuse))"

text \<open>\<open>recv_message\<close>: a closed connection and an error end the client.\<close>

definition recv_message :: "recv list \<Rightarrow> control \<Rightarrow> snfault + (recv list \<times> control)" where
  "recv_message inp k =
     bnd (read_line (CONTROL_BUF_SIZE - 1) [] inp) (\<lambda>(numbytes, buf, rest).
     if numbytes \<le> 0 then Inl (Stopped 1)
     else bnd (receiver_parser buf k) (\<lambda>k. Inr (rest, k)))"

subsection \<open>The listener for the stream\<close>

text \<open>One datagram of \<open>receive\<close>: \<open>written\<close> tells whether all of it could be written; the result is the
  output.\<close>

definition receive :: "string \<Rightarrow> bool \<Rightarrow> string \<Rightarrow> snfault + string" where
  "receive data written out =
     (if 4 \<le> length data \<and> take 4 data = ''STOP'' then Inl (Stopped 0)
      else if \<not> written then Inl (Stopped 1)
      else Inr (out @ data))"

subsection \<open>What crosses the connection\<close>

lemma short_htons: "short (c # htons_bytes n @ rest) 1 = nat (n mod 65536)"
proof -
  let ?w = "nat (n mod 65536)"
  have "?w < 65536" by (simp add: nat_less_iff)
  then have "?w div 256 < 256" by (simp add: less_mult_imp_div_less)
  then show ?thesis by (simp add: short_def byte_def htons_bytes_def Let_def)
qed

lemma newline_char: "k < 256 \<Longrightarrow> CHR ''\<newline>'' = char_of k \<longleftrightarrow> k = 10" for k :: nat
proof
  assume k: "k < 256" and "CHR ''\<newline>'' = char_of k"
  then have "of_char CHR ''\<newline>'' = (of_char (char_of k) :: nat)" by simp
  then show "k = 10" using k by simp
next
  assume "k = 10"
  moreover have "char_of (of_char CHR ''\<newline>'' :: nat) = CHR ''\<newline>''" by (rule char_of_char)
  ultimately show "CHR ''\<newline>'' = char_of k" by simp
qed

lemma htons_newline:
  "CHR ''\<newline>'' \<in> set (htons_bytes n) \<longleftrightarrow> nat (n mod 65536) div 256 = 10 \<or> nat (n mod 65536) mod 256 = 10"
proof -
  let ?w = "nat (n mod 65536)"
  have "?w < 65536" by (simp add: nat_less_iff)
  then have "?w div 256 < 256" by (simp add: less_mult_imp_div_less)
  with newline_char [of "?w div 256"] newline_char [of "?w mod 256"] show ?thesis
    by (simp add: htons_bytes_def Let_def)
qed

end
