(* ===== verification/Snmessage.thy ===== *)
theory Snmessage
  imports Sncontrol
begin

text \<open>
  The messages between the client and the server: the bytes that one side writes and what the other side
  reads from them.  A message ends with a newline, although a byte of its numbers can be one as well.
\<close>

lemma byte_Cons [simp]: "byte (c # cs) 0 = of_char c" "byte (c # cs) (Suc k) = byte cs k"
  by (simp_all add: byte_def)

lemma map_byte_all: "map (\<lambda>j. char_of (byte m j)) [0..<length m] = m"
  by (rule nth_equalityI) (auto simp: byte_def)

lemma takeWhile_all: "(\<And>x. x \<in> set xs \<Longrightarrow> P x) \<Longrightarrow> takeWhile P xs = xs"
  by (rule takeWhile_eq_all_conv [THEN iffD2]) blast

lemma message_text_of:
  assumes "CHR 0x00 \<notin> set m" and "length m \<le> 254"
  shows "message_text (c # char_of (length m) # m) = Inr m"
proof -
  have "takeWhile (\<lambda>c. c \<noteq> CHR 0x00) m = m" using assms(1) by (intro takeWhile_all) auto
  then show ?thesis using assms(2) by (simp add: message_text_def Let_def CONTROL_BUF_SIZE_def map_byte_all)
qed

definition plain_text :: "string \<Rightarrow> bool" where
  "plain_text m \<longleftrightarrow> CHR 0x00 \<notin> set m \<and> CHR ''\<newline>'' \<notin> set m \<and> length m \<noteq> 10 \<and> length m \<le> 252"

lemma read_text:
  assumes "plain_text m" and "typ < 10"
  shows "read_line (CONTROL_BUF_SIZE - 1) [] (map Byte (text_message typ m) @ rest) =
    Inr (int (length m + 2), char_of typ # char_of (length m) # m, rest)"
proof -
  let ?l = "char_of typ # char_of (length m) # m"
  have "CHR ''\<newline>'' \<notin> set ?l" "length ?l < CONTROL_BUF_SIZE - 1"
    using assms by (auto simp: plain_text_def newline_char CONTROL_BUF_SIZE_def)
  from read_line_line [OF this, of "[]" rest] show ?thesis by (simp add: text_message_def)
qed

text \<open>A command with a number.\<close>

lemma length_htons [simp]: "length (htons_bytes n) = 2"
  by (simp add: htons_bytes_def Let_def)

definition no_newline :: "int \<Rightarrow> bool" where
  "no_newline n \<longleftrightarrow> nat (n mod 65536) div 256 \<noteq> 10 \<and> nat (n mod 65536) mod 256 \<noteq> 10"

lemma read_number:
  assumes "no_newline n" and "(cmd :: nat) < 10"
  shows "read_line (BUF_SIZE - 1) [] (map Byte (char_of cmd # htons_bytes n @ ''\<newline>'') @ rest) =
    Inr (3, char_of cmd # htons_bytes n, rest)"
proof -
  let ?l = "char_of cmd # htons_bytes n"
  have "CHR ''\<newline>'' \<notin> set ?l" "length ?l < BUF_SIZE - 1"
    using assms by (auto simp: no_newline_def htons_newline newline_char BUF_SIZE_def)
  from read_line_line [OF this, of "[]" rest] show ?thesis by simp
qed

lemma short_number: "short (c # htons_bytes n) 1 = nat (n mod 65536)" "short (c # htons_bytes n) (Suc 0) = nat (n mod 65536)"
  using short_htons [of c n "[]"] by simp_all


text \<open>A newline inside a message breaks it.  When the low byte of the number of a station is 10 the server
  reads the station with 10 less, and the rest of the message is an empty line, which it cannot tell from
  a hang-up.  When the high byte is 10 it reads station 0.  An announcement of ten characters reaches
  the client as an empty one, and its text is read as a message of its own.\<close>

lemma newline_cuts:
  "(nat (atoi num mod 65536) mod 256 = 10 \<and> nat (atoi num mod 65536) div 256 \<noteq> 10 \<longrightarrow>
      (\<exists>buf. read_line (BUF_SIZE - 1) [] (map Byte (station_message num) @ rest) = Inr (2, buf, Byte CHR ''\<newline>'' # rest)
        \<and> byte buf 0 = CMD_SETSTATION \<and> short buf 1 = nat (atoi num mod 65536) - 10)
      \<and> read_line (BUF_SIZE - 1) [] (Byte CHR ''\<newline>'' # rest) = read_line (BUF_SIZE - 1) [] (Disconnected # rest))
   \<and> (nat (atoi num mod 65536) div 256 = 10 \<longrightarrow>
      (\<exists>buf. read_line (BUF_SIZE - 1) [] (map Byte (station_message num) @ rest)
          = Inr (1, buf, Byte (char_of (nat (atoi num mod 65536))) # Byte CHR ''\<newline>'' # rest)
        \<and> byte buf 0 = CMD_SETSTATION \<and> short buf 1 = 0))
   \<and> (length m = 10 \<longrightarrow>
      (\<exists>buf. read_line (CONTROL_BUF_SIZE - 1) [] (map Byte (text_message MSG_ANNOUNCE m) @ rest)
          = Inr (1, buf, map Byte m @ Byte CHR ''\<newline>'' # rest)
        \<and> byte buf 0 = MSG_ANNOUNCE \<and> message_text buf = Inr []))"
proof (intro conjI impI; (elim conjE)?)
  let ?w = "nat (atoi num mod 65536)"
  have "?w < 65536" by (simp add: nat_less_iff)
  then have hi: "?w div 256 < 256" by (simp add: less_mult_imp_div_less)
  have msg: "station_message num = char_of CMD_SETSTATION # char_of (?w div 256) # char_of ?w # ''\<newline>''"
    by (simp add: station_message_def htons_bytes_def Let_def)
  have nl: "char_of (10::nat) = CHR ''\<newline>''" using newline_char [of 10] by simp
  {
    assume low: "?w mod 256 = 10" and high: "?w div 256 \<noteq> 10"
    have w: "char_of ?w = CHR ''\<newline>''" using low nl by (metis char_of_mod_256)
    let ?l = "[char_of CMD_SETSTATION, char_of (?w div 256)]"
    have l: "CHR ''\<newline>'' \<notin> set ?l" "length ?l < BUF_SIZE - 1"
      using hi high by (auto simp: newline_char CMD_SETSTATION_def BUF_SIZE_def)
    have "?w div 256 * 256 = ?w - 10" using low by (metis minus_mod_eq_div_mult)
    then have "short ?l 1 = ?w - 10" using hi by (simp add: short_def byte_def)
    with read_line_line [OF l, of "[]" "Byte CHR ''\<newline>'' # rest"]
    show "\<exists>buf. read_line (BUF_SIZE - 1) [] (map Byte (station_message num) @ rest) = Inr (2, buf, Byte CHR ''\<newline>'' # rest)
        \<and> byte buf 0 = CMD_SETSTATION \<and> short buf 1 = ?w - 10"
      by (intro exI [of _ ?l]) (simp add: msg w CMD_SETSTATION_def del: read_line_simps)
  next
    assume high: "?w div 256 = 10"
    let ?l = "[char_of CMD_SETSTATION]"
    have l: "CHR ''\<newline>'' \<notin> set ?l" "length ?l < BUF_SIZE - 1"
      by (auto simp: newline_char CMD_SETSTATION_def BUF_SIZE_def)
    have "short ?l 1 = 0" by (simp add: short_def byte_def)
    with read_line_line [OF l, of "[]" "Byte (char_of ?w) # Byte CHR ''\<newline>'' # rest"]
    show "\<exists>buf. read_line (BUF_SIZE - 1) [] (map Byte (station_message num) @ rest) = Inr (1, buf, Byte (char_of ?w) # Byte CHR ''\<newline>'' # rest)
        \<and> byte buf 0 = CMD_SETSTATION \<and> short buf 1 = 0"
      by (intro exI [of _ ?l]) (simp add: msg high nl CMD_SETSTATION_def del: read_line_simps)
  }
  show "read_line (BUF_SIZE - 1) [] (Byte CHR ''\<newline>'' # rest) = read_line (BUF_SIZE - 1) [] (Disconnected # rest)"
    by (simp add: BUF_SIZE_def read_line.simps)
  assume m: "length m = 10"
  let ?l = "[char_of MSG_ANNOUNCE]"
  have l: "CHR ''\<newline>'' \<notin> set ?l" "length ?l < CONTROL_BUF_SIZE - 1"
    by (auto simp: newline_char MSG_ANNOUNCE_def CONTROL_BUF_SIZE_def)
  have "message_text ?l = Inr []" by (simp add: message_text_def byte_def CONTROL_BUF_SIZE_def)
  with read_line_line [OF l, of "[]" "map Byte m @ Byte CHR ''\<newline>'' # rest"] m
  show "\<exists>buf. read_line (CONTROL_BUF_SIZE - 1) [] (map Byte (text_message MSG_ANNOUNCE m) @ rest)
      = Inr (1, buf, map Byte m @ Byte CHR ''\<newline>'' # rest) \<and> byte buf 0 = MSG_ANNOUNCE \<and> message_text buf = Inr []"
    by (intro exI [of _ ?l]) (simp add: text_message_def nl MSG_ANNOUNCE_def del: read_line_simps)
qed

text \<open>Claim C30. The queue of commands of the client is first in, first out: the commands put in come out in their order
  after those that were there, the head is the one that comes out next, and freeing
  the queue ends and leaves it empty.\<close>

lemma command_queue_fifo:
  assumes "q_rep q cs"
  shows "(\<exists>q1 q2. push_all command_queue_enqueue ds q = Inr q1 \<and> command_queue_head q1 = Inr (hd (cs @ ds @ [-1]))
      \<and> pop_all command_queue_dequeue (length cs + length ds) q1 = Inr (cs @ ds, q2) \<and> command_queue_empty q2)
    \<and> (\<exists>q'. free_queue q = Inr q' \<and> command_queue_empty q')"
proof (intro conjI)
  from cmdq.push_all_rep [OF assms, of ds] obtain q1 where q1: "push_all command_queue_enqueue ds q = Inr q1" "q_rep q1 (cs @ ds)"
    by blast
  have "command_queue_head q1 = Inr (hd (cs @ ds @ [-1]))"
    using head_rep [OF q1(2)] by (cases cs; cases ds) simp_all
  moreover obtain q2 where "pop_all command_queue_dequeue (length cs + length ds) q1 = Inr (cs @ ds, q2)" "q_rep q2 []"
    using cmdq.first_in_first_out [OF assms, of ds] q1(1) by auto
  ultimately show "\<exists>q1 q2. push_all command_queue_enqueue ds q = Inr q1 \<and> command_queue_head q1 = Inr (hd (cs @ ds @ [-1]))
      \<and> pop_all command_queue_dequeue (length cs + length ds) q1 = Inr (cs @ ds, q2) \<and> command_queue_empty q2"
    using q1(1) by (auto simp: q_rep_def q_empty)
  show "\<exists>q'. free_queue q = Inr q' \<and> command_queue_empty q'"
    using free_queue_all [OF assms] by (auto simp: q_rep_def q_empty)
qed

subsection \<open>Examples\<close>


lemma newline_cuts_witness:
  "(\<exists>buf. read_line (BUF_SIZE - 1) [] (map Byte (station_message ''10'') @ []) = Inr (2, buf, [Byte CHR ''\<newline>''])
      \<and> byte buf 0 = CMD_SETSTATION \<and> short buf 1 = 0)
   \<and> (\<exists>buf. read_line (BUF_SIZE - 1) [] (map Byte (station_message ''2561'') @ [])
        = Inr (1, buf, [Byte (char_of (2561::nat)), Byte CHR ''\<newline>'']) \<and> byte buf 0 = CMD_SETSTATION \<and> short buf 1 = 0)
   \<and> (\<exists>buf. read_line (CONTROL_BUF_SIZE - 1) [] (map Byte (text_message MSG_ANNOUNCE ''ten bytes.'') @ [])
        = Inr (1, buf, map Byte ''ten bytes.'' @ [Byte CHR ''\<newline>'']) \<and> byte buf 0 = MSG_ANNOUNCE \<and> message_text buf = Inr [])"
proof -
  have n: "atoi ''10'' = 10" "atoi ''2561'' = 2561" by (simp_all add: atoi_def digits_value_def is_digit_def)
  have l: "length ''ten bytes.'' = 10" by simp
  from newline_cuts [of "''10''" "[]" "''ten bytes.''"] l have
    "\<exists>buf. read_line (BUF_SIZE - 1) [] (map Byte (station_message ''10'') @ []) = Inr (2, buf, [Byte CHR ''\<newline>''])
      \<and> byte buf 0 = CMD_SETSTATION \<and> short buf 1 = 0" by (simp only: n) simp
  moreover from newline_cuts [of "''2561''" "[]" "''ten bytes.''"] have
    "\<exists>buf. read_line (BUF_SIZE - 1) [] (map Byte (station_message ''2561'') @ [])
        = Inr (1, buf, [Byte (char_of (2561::nat)), Byte CHR ''\<newline>'']) \<and> byte buf 0 = CMD_SETSTATION \<and> short buf 1 = 0"
    by (simp only: n) simp
  moreover from newline_cuts [of "''10''" "[]" "''ten bytes.''"] l have
    "\<exists>buf. read_line (CONTROL_BUF_SIZE - 1) [] (map Byte (text_message MSG_ANNOUNCE ''ten bytes.'') @ [])
        = Inr (1, buf, map Byte ''ten bytes.'' @ [Byte CHR ''\<newline>'']) \<and> byte buf 0 = MSG_ANNOUNCE \<and> message_text buf = Inr []"
    by simp
  ultimately show ?thesis by blast
qed

lemma command_queue_fifo_witness:
  "\<exists>q q1 q2. command_queue_enqueue 1 (command_queue_init \<lparr>cq_nodes = Map.empty, cq_fresh = 0, cq_head = Some 5, cq_tail = None, cq_size = 7\<rparr>) = Inr q
    \<and> push_all command_queue_enqueue [2, 0] q = Inr q1 \<and> command_queue_head q1 = Inr 1
    \<and> pop_all command_queue_dequeue 3 q1 = Inr ([1, 2, 0], q2)"
proof -
  let ?q = "command_queue_init \<lparr>cq_nodes = Map.empty, cq_fresh = 0, cq_head = Some 5, cq_tail = None, cq_size = 7\<rparr>"
  have "q_rep ?q []" by (rule q_rep_init) simp
  from cmdq.enq_rep [OF this, of 1] obtain q where q: "command_queue_enqueue 1 ?q = Inr q" "q_rep q [1]" by auto
  from command_queue_fifo [OF q(2), of "[2, 0]"] q(1) show ?thesis by (auto simp: numeral_eq_Suc)
qed

end
