(* ===== verification/Snprops.thy ===== *)
theory Snprops
  imports Snreach Snmessage
begin

text \<open>
  The properties of Snowcast, each with a run of the code on which its hypotheses hold.
\<close>

subsection \<open>A network that takes everything\<close>

definition reliable :: "snet \<Rightarrow> bool" where
  "reliable N \<longleftrightarrow> (\<forall>log s buf. n_send N log s buf = int (length buf))"

lemma reliable_send_loop:
  assumes "reliable N" and "buf \<noteq> []"
  shows "send_loop N s buf log = Inr (0, Sent s buf # log)"
proof -
  have n: "n_send N log s buf = int (length buf)" using assms(1) by (simp add: reliable_def)
  have "int (length buf) \<noteq> -1" by linarith
  then show ?thesis using assms(2) n by (simp add: send_loop_simps(3) send_loop_simps(1))
qed

lemma reliable_send_all: "reliable N \<Longrightarrow> buf \<noteq> [] \<Longrightarrow> send_all N s buf w = Inr (0, logged (Sent s buf) w)"
  by (simp add: send_all_def logged_def reliable_send_loop)

lemma reliable_announce:
  "reliable N \<Longrightarrow> send_announce N s m w = Inr (0, logged (Sent s (text_message MSG_ANNOUNCE m)) w)"
  by (simp add: send_announce_def reliable_send_all text_message_def)

lemma reliable_welcome: "reliable N \<Longrightarrow>
    send_welcome N s w = Inr (0, logged (Sent s (char_of MSG_WELCOME # char_of (0::nat) # char_of (0::nat) # ''\<newline>'')) w)"
  by (simp add: send_welcome_def reliable_send_all)

text \<open>The end of the reply to a client that sets its station.\<close>

lemma confirm_run:
  assumes "reliable N" and "c_station (clients s i) = Some b" and "stations s b = Some st" and "st_cur st = Some song"
    and "length song < 1000" and "c_socket (clients s i) = fd"
  shows "bnd (send_announce N (c_socket (clients s i)) ''Set Station Confirmed'' s) (\<lambda>(_, s).
      deref (c_station (clients s i)) Assertion (\<lambda>b. bnd (send_cur_song N fd b s) (\<lambda>s. Inr (0 :: int, s)))) =
    Inr (0, logged (Sent fd (text_message MSG_ANNOUNCE (''current playing: '' @ song)))
              (logged (Sent fd (text_message MSG_ANNOUNCE ''Set Station Confirmed'')) s))"
  using assms by (simp add: reliable_announce send_cur_song_def song_text_def BUF_SIZE_def)

text \<open>A state with two stations and three clients that have been greeted; the first two listen to station 0.\<close>

definition all_sent :: snet where
  "all_sent = \<lparr>n_send = (\<lambda>_ _ buf. int (length buf)), n_udp = (\<lambda>_ port. Some (port, 9))\<rparr>"

lemma all_sent_ok [simp]: "reliable all_sent" "net_ok all_sent"
  by (auto simp: reliable_def net_ok_def all_sent_def)

definition no_files :: "string \<Rightarrow> fsn option" where
  "no_files = (\<lambda>_. None)"

definition two_songs :: "string list" where
  "two_songs = [''a.mp3'', ''b.mp3'']"

lemma started:
  "\<exists>s. snreach 3 all_sent no_files two_songs s \<and> clients s = (\<lambda>_. zero_client)
     \<and> stations s = [0 \<mapsto> zero_station\<lparr>st_songs := [''a.mp3''], st_next := Some 1, st_sender := True\<rparr>,
                     1 \<mapsto> zero_station\<lparr>st_songs := [''b.mp3''], st_id := 1, st_sender := True\<rparr>]
     \<and> fresh_station s = 2 \<and> sl_head s = Some 0 \<and> sl_alive s \<and> master s = {3} \<and> open_fds s = {3}"
proof -
  have "\<exists>s. server_main 3 no_files two_songs = Inr s \<and> clients s = (\<lambda>_. zero_client)
     \<and> stations s = [0 \<mapsto> zero_station\<lparr>st_songs := [''a.mp3''], st_next := Some 1, st_sender := True\<rparr>,
                     1 \<mapsto> zero_station\<lparr>st_songs := [''b.mp3''], st_id := 1, st_sender := True\<rparr>]
     \<and> fresh_station s = 2 \<and> sl_head s = Some 0 \<and> sl_alive s \<and> master s = {3} \<and> open_fds s = {3}"
    by (simp add: server_main_def two_songs_def init_globals_def add_station_def alloc_station_def is_end_mp3_def
        read_song_def MAX_STATION_NUM_def MAX_STATION_SONG_NUM_def BUF_SIZE_def push_station_to_list_def Let_def
        upd_st_def zero_station_def spawn_sender_def fun_eq_iff numeral_eq_Suc)
  then show ?thesis by (auto intro: snreach_start)
qed


definition greeted_client :: "nat \<Rightarrow> nat option \<Rightarrow> nat option \<Rightarrow> clientinfo" where
  "greeted_client fd st nx = \<lparr>c_state = HANDSHAKED, c_socket = fd, c_ip = Local_ip, c_udp_port = 7, c_udp_sock = 9,
     c_udp_addr = Some 7, c_station = st, c_next = nx\<rparr>"

lemma arrive_hello:
  assumes reach: "snreach 3 all_sent no_files two_songs s" and room: "find_first_client s = Some k"
    and fd: "fd \<notin> open_fds s" "fd \<noteq> 0"
  shows "\<exists>s'. snreach 3 all_sent no_files two_songs s' \<and> clients s' = (clients s)(k := greeted_client fd None None)
     \<and> stations s' = stations s \<and> fresh_station s' = fresh_station s \<and> sl_head s' = sl_head s \<and> sl_alive s' = sl_alive s
     \<and> master s' = insert fd (master s) \<and> open_fds s' = insert fd (open_fds s)"
proof -
  have inv: "sninv 3 s" by (rule snreach_inv [OF reach]) simp
  from accept_keeps [OF inv fd room, of all_sent "''ip''"] obtain s1 where
    a: "accept_client all_sent fd ''ip'' s = Inr s1" and inv1: "sninv 3 s1" and i: "find_client fd s1 = Some k" by blast
  have ok: "client_ok s k" using inv by (simp add: sninv_def)
  have "c_state (clients s k) = NO_STATE" using room by (auto simp: find_first_client_def find_Some_iff)
  then have z: "clients s k = zero_client" using ok by (simp add: client_ok_def Let_def)
  have s1: "s1 = upd_cl k (\<lambda>c. c\<lparr>c_state := INIT_STATE, c_socket := fd, c_ip := Remote_ip\<rparr>)
      (s\<lparr>master := insert fd (master s), open_fds := insert fd (open_fds s), remote_ip := ''ip''\<rparr>)"
    using a room by (simp add: accept_client_def find_first_client_def Let_def)
  have r1: "snreach 3 all_sent no_files two_songs s1"
    by (rule snreach_step [OF reach, of "Arrive fd ''ip''"])
      (use fd room a in \<open>auto simp: sn_good_def sn_handle_def selected_ok [OF inv]\<close>)
  have m: "fd \<in> master s1" "fd \<noteq> 3" using fd inv by (auto simp: s1 sninv_def sockets_ok_def)
  let ?buf = "[char_of (0::nat), char_of (0::nat), char_of (7::nat)]"
  have b: "byte ?buf 0 = CMD_HELLO" "short ?buf 1 = 7" by (simp_all add: byte_def short_def CMD_HELLO_def)
  have "\<exists>s2. serve all_sent fd 3 ?buf s1 = Inr s2 \<and> clients s2 = (clients s)(k := greeted_client fd None None)
     \<and> stations s2 = stations s \<and> fresh_station s2 = fresh_station s \<and> sl_head s2 = sl_head s \<and> sl_alive s2 = sl_alive s
     \<and> master s2 = insert fd (master s) \<and> open_fds s2 = insert fd (open_fds s)"
    using i fd(2) b by (simp add: serve_def parse_and_send_def hello_def reliable_welcome build_udpconnection_def Let_def
        all_sent_def [THEN arg_cong, of n_udp] greeted_client_def s1 z zero_client_def fun_eq_iff)
  then obtain s2 where h: "serve all_sent fd 3 ?buf s1 = Inr s2" and r: "clients s2 = (clients s)(k := greeted_client fd None None)"
     "stations s2 = stations s" "fresh_station s2 = fresh_station s" "sl_head s2 = sl_head s" "sl_alive s2 = sl_alive s"
     "master s2 = insert fd (master s)" "open_fds s2 = insert fd (open_fds s)" by blast
  have "snreach 3 all_sent no_files two_songs s2"
    by (rule snreach_step [OF r1, of "Serve fd 3 ?buf"])
      (use m i b h in \<open>auto simp: sn_good_def sn_handle_def selected_ok [OF inv1] CMD_HELLO_def CMD_SETSTATION_def\<close>)
  then show ?thesis using r by blast
qed


subsection \<open>Setting a station\<close>

lemma set_station_run:
  assumes "reliable N" and "find_client fd s = Some i" and "c_state (clients s i) = HANDSHAKED"
    and "find_station_from_id (int num) s = Inr (Some a)"
    and "(if c_station (clients s i) \<noteq> None then remove_client_from_station i s else Inr s) = Inr s1"
    and "append_client_to_station i a s1 = Inr s2"
    and "c_station (clients s2 i) = Some b" and "stations s2 b = Some st" and "st_cur st = Some song"
    and "length song < 1000" and "c_socket (clients s2 i) = fd"
  shows "set_station N fd num s = Inr (0, logged (Sent fd (text_message MSG_ANNOUNCE (''current playing: '' @ song)))
              (logged (Sent fd (text_message MSG_ANNOUNCE ''Set Station Confirmed'')) s2))"
proof -
  from confirm_run [OF assms(1,7,8,9,10,11)] show ?thesis
    using assms(2-6) by (simp add: set_station_def Let_def)
qed

lemma serve_set_station:
  assumes "sninv L s" and "byte buf 0 = CMD_SETSTATION"
  shows "sn_handle N fs (Serve fd 3 buf) s = bnd (set_station N fd (short buf 1) s) (\<lambda>(_, s). Inr s)"
  using assms by (simp add: sn_handle_def selected_ok serve_def parse_and_send_def CMD_HELLO_def CMD_SETSTATION_def)

text \<open>The first time a greeted client sets a station, the server puts it at the end of the list of that
  station, and it gets the confirmation and the song that plays.\<close>

lemma set_station_joins:
  assumes reach: "snreach L N fs files s" and net: "net_ok N" "reliable N" and fd: "fd \<in> master s" "fd \<noteq> L"
    and msg: "byte buf 0 = CMD_SETSTATION" "find_station_from_id (int (short buf 1)) s = Inr (Some a)"
    and i: "find_client fd s = Some i" "greeted (clients s i)" "c_station (clients s i) = None"
    and song: "stations s a = Some st" "st_cur st = Some song" "length song < 1000"
  shows "\<exists>s' xs. sn_handle N fs (Serve fd 3 buf) s = Inr s' \<and> serves s a xs \<and> serves s' a (xs @ [i])
    \<and> c_station (clients s' i) = Some a \<and> received fd (sn_log s') = received fd (sn_log s)
        @ text_message MSG_ANNOUNCE ''Set Station Confirmed'' @ text_message MSG_ANNOUNCE (''current playing: '' @ song)"
proof -
  have inv: "sninv L s" by (rule snreach_inv [OF reach net(1)])
  have sock: "c_socket (clients s i) = fd" using client_index [OF inv fd] i(1) by (metis option.inject)
  have g: "c_state (clients s i) = HANDSHAKED" "c_udp_addr (clients s i) \<noteq> None" using i(2) by (simp_all add: greeted_def)
  have a: "stations s a \<noteq> None" using song by simp
  from append_keeps [OF inv a i(3) g] obtain s2 xs where ap: "append_client_to_station i a s = Inr s2"
    and c: "c_station (clients s2 i) = Some a" and xs: "serves s a xs" "serves s2 a (xs @ [i])"
    and sk: "\<forall>j. c_socket (clients s2 j) = c_socket (clients s j)"
    and cur: "\<forall>b. map_option st_cur (stations s2 b) = map_option st_cur (stations s b)" and lg: "sn_log s2 = sn_log s"
    by blast
  from cur song obtain st2 where st2: "stations s2 a = Some st2" "st_cur st2 = Some song"
    by (metis (no_types, lifting) map_option_eq_Some)
  have none: "(if c_station (clients s i) \<noteq> None then remove_client_from_station i s else Inr s) = Inr s" using i(3) by simp
  note r = set_station_run [OF net(2) i(1) g(1) msg(2) none ap c st2 song(3)]
  let ?s' = "logged (Sent fd (text_message MSG_ANNOUNCE (''current playing: '' @ song)))
              (logged (Sent fd (text_message MSG_ANNOUNCE ''Set Station Confirmed'')) s2)"
  have run: "sn_handle N fs (Serve fd 3 buf) s = Inr ?s'"
    using r sk sock by (simp add: serve_set_station [OF inv msg(1)])
  have "serves ?s' a (xs @ [i])" using xs(2) by (simp add: serves_def)
  then show ?thesis using run xs(1) c lg by (intro exI [of _ ?s'] exI [of _ xs]) simp
qed

text \<open>A client that sets the station it already listens to is taken off the list of that station and is
  not put back, though it gets the confirmation and keeps the station in its own record: it receives
  nothing from then on.  If it was alone, setting the station once more stops the server with a failed assertion.\<close>

lemma set_station_again:
  assumes reach: "snreach L N fs files s" and net: "net_ok N" "reliable N" and fd: "fd \<in> master s" "fd \<noteq> L"
    and msg: "byte buf 0 = CMD_SETSTATION" "find_station_from_id (int (short buf 1)) s = Inr (Some a)"
    and i: "find_client fd s = Some i" "c_station (clients s i) = Some a"
    and song: "stations s a = Some st" "st_cur st = Some song" "length song < 1000"
    and xs: "serves s a xs"
  shows "\<exists>s'. sn_handle N fs (Serve fd 3 buf) s = Inr s' \<and> serves s' a (remove1 i xs) \<and> i \<notin> set (remove1 i xs)
    \<and> c_station (clients s' i) = Some a \<and> received fd (sn_log s') = received fd (sn_log s)
        @ text_message MSG_ANNOUNCE ''Set Station Confirmed'' @ text_message MSG_ANNOUNCE (''current playing: '' @ song)
    \<and> (xs = [i] \<longrightarrow> sn_handle N fs (Serve fd 3 buf) s' = Inl Assertion)"
proof -
  have inv: "sninv L s" by (rule snreach_inv [OF reach net(1)])
  have sock: "c_socket (clients s i) = fd" using client_index [OF inv fd] i(1) by (metis option.inject)
  have ok: "client_ok s i" using inv by (simp add: sninv_def)
  have g: "c_state (clients s i) = HANDSHAKED" using ok i(2) by (simp add: client_ok_def Let_def)
  obtain zs where sq: "sq (cl_nx s) (st_head st) (st_tail st) zs" and len: "length zs \<le> MAX_CLIENT_NUM"
    and m: "\<forall>j. j \<in> set zs \<longleftrightarrow> c_station (clients s j) = Some a"
    using station_serves [OF inv song(1)] by metis
  have "xs = zs" using xs sq song(1) by (auto simp: serves_def dest: sq_unique)
  have "i \<in> set zs" using m i(2) by simp
  then obtain us ys where zs: "zs = us @ i # ys" by (rule in_set_splitE)
  have d: "distinct (us @ i # ys)" using sq_distinct [OF sq] zs by simp
  from remove_client_run [OF i(2) song(1) sq [unfolded zs]] len zs obtain h t s1 where
    rm: "remove_client_from_station i s = Inr s1"
    and s1: "s1 = upd_st a (\<lambda>st. st\<lparr>st_head := h, st_tail := t\<rparr>)
        (if us = [] then s else upd_cl (last us) (c_next_update (\<lambda>_. c_next (clients s i))) s)"
    and sq1: "sq (cl_nx s1) h t (us @ ys)" by auto
  have li: "last us \<noteq> i" if "us \<noteq> []" using d last_in_set [OF that] by auto
  have c1: "clients s1 i = clients s i" using li by (cases "us = []") (simp_all add: s1)
  have st1: "stations s1 a = Some (st\<lparr>st_head := h, st_tail := t\<rparr>)" using song(1) by (simp add: s1)
  have lg: "sn_log s1 = sn_log s" by (simp add: s1)
  have ap: "append_client_to_station i a s1 = Inr s1" using c1 i(2) st1 by (simp add: append_client_to_station_def)
  have cs: "c_station (clients s1 i) = Some a" "c_socket (clients s1 i) = fd" using c1 i(2) sock by simp_all
  have some: "(if c_station (clients s i) \<noteq> None then remove_client_from_station i s else Inr s) = Inr s1"
    using i(2) rm by simp
  have "st_cur (st\<lparr>st_head := h, st_tail := t\<rparr>) = Some song" using song(2) by simp
  note r = set_station_run [OF net(2) i(1) g msg(2) some ap cs(1) st1 this song(3) cs(2)]
  let ?s' = "logged (Sent fd (text_message MSG_ANNOUNCE (''current playing: '' @ song)))
              (logged (Sent fd (text_message MSG_ANNOUNCE ''Set Station Confirmed'')) s1)"
  have run: "sn_handle N fs (Serve fd 3 buf) s = Inr ?s'" using r by (simp add: serve_set_station [OF inv msg(1)])
  have rem: "remove1 i xs = us @ ys" unfolding \<open>xs = zs\<close> zs using d by (rule remove1_split)
  have sv: "serves ?s' a (us @ ys)" using sq1 st1 by (simp add: serves_def)
  have crash: "sn_handle N fs (Serve fd 3 buf) ?s' = Inl Assertion" if "xs = [i]"
  proof -
    have e: "us = []" "ys = []" using that \<open>xs = zs\<close> zs by (auto simp: append_eq_Cons_conv)
    then have s1e: "s1 = upd_st a (\<lambda>st. st\<lparr>st_head := h, st_tail := t\<rparr>) s" and h: "h = None" using s1 sq1 by simp_all
    have fc: "find_client fd ?s' = Some i" using i(1) by (simp add: find_client_def s1e)
    have cl: "clients ?s' = clients s" by (simp add: s1e)
    have fid: "find_id n ?s' k p = find_id n s k p" for n k p
    proof (induction n arbitrary: p)
      case (Suc n)
      then show ?case by (cases p; cases "stations s (the p)") (auto simp: s1e)
    qed simp
    have fst: "find_station_from_id (int (short buf 1)) ?s' = Inr (Some a)"
      using msg(2) unfolding find_station_from_id_def fid by (simp add: s1e)
    have rm2: "remove_client_from_station i ?s' = Inl Assertion"
      using cs(1) st1 h by (simp add: remove_client_from_station_def)
    have "set_station N fd (short buf 1) ?s' = Inl Assertion"
      unfolding set_station_def fc deref_Some Let_def cl using g fst rm2 i(2) by simp
    moreover have "master ?s' \<subseteq> open_fds ?s'" using inv by (simp add: s1e sninv_def sockets_ok_def)
    ultimately show ?thesis using msg(1)
      by (simp add: sn_handle_def selected_def serve_def parse_and_send_def CMD_HELLO_def CMD_SETSTATION_def)
  qed
  show ?thesis unfolding rem
  proof (intro exI [of _ ?s'] conjI)
    show "sn_handle N fs (Serve fd 3 buf) s = Inr ?s'" by (rule run)
    show "serves ?s' a (us @ ys)" by (rule sv)
    show "i \<notin> set (us @ ys)" using d by auto
    show "c_station (clients ?s' i) = Some a" using cs(1) by simp
    show "received fd (sn_log ?s') = received fd (sn_log s) @ text_message MSG_ANNOUNCE ''Set Station Confirmed''
        @ text_message MSG_ANNOUNCE (''current playing: '' @ song)" using lg by simp
    show "xs = [i] \<longrightarrow> sn_handle N fs (Serve fd 3 buf) ?s' = Inl Assertion" using crash by blast
  qed
qed


text \<open>A client in the middle of a list leaves it, and its own link still leads to the clients behind it.\<close>

lemma leave_run:
  assumes sta: "stations s a = Some sta" and ia: "c_station (clients s i) = Some a"
    and sqa: "sq (cl_nx s) (st_head sta) (st_tail sta) (xs @ i # ys)" "length xs \<le> MAX_CLIENT_NUM"
    and sqb: "stations s b = Some st" "sq (cl_nx s) (st_head st) (st_tail st) zs" and dis: "set (xs @ i # ys) \<inter> set zs = {}" and ab: "a \<noteq> b"
  shows "\<exists>h t s1. remove_client_from_station i s = Inr s1 \<and> sq (cl_nx s1) h t (xs @ ys) \<and> sll (cl_nx s1) (cl_nx s1 i) ys
    \<and> sq (cl_nx s1) (st_head st) (st_tail st) zs \<and> stations s1 b = Some st \<and> stations s1 a = Some (sta\<lparr>st_head := h, st_tail := t\<rparr>)
    \<and> c_station (clients s1 i) = Some a \<and> c_socket (clients s1 i) = c_socket (clients s i)"
proof -
  have d: "distinct (xs @ i # ys)" using sqa(1) by (rule sq_distinct)
  from remove_client_run [OF ia sta sqa] obtain h t s1 where
    rm: "remove_client_from_station i s = Inr s1"
    and s1: "s1 = upd_st a (\<lambda>st. st\<lparr>st_head := h, st_tail := t\<rparr>)
        (if xs = [] then s else upd_cl (last xs) (c_next_update (\<lambda>_. c_next (clients s i))) s)"
    and sq1: "sq (cl_nx s1) h t (xs @ ys)" by blast
  have nx1: "cl_nx s1 j = cl_nx s j" if "j \<notin> set xs" for j
  proof -
    have "\<not> (xs \<noteq> [] \<and> j = last xs)" using that by auto
    then show ?thesis by (cases "xs = []") (simp_all add: s1)
  qed
  have "sq (cl_nx s1) (st_head st) (st_tail st) zs = sq (cl_nx s) (st_head st) (st_tail st) zs"
    by (rule sq_frame) (rule nx1, use dis in auto)
  then have sqb1: "sq (cl_nx s1) (st_head st) (st_tail st) zs" using sqb(2) by simp
  have "sll (cl_nx s) (cl_nx s i) ys" by (rule sll_at [of _ "st_head sta" xs]) (use sqa in \<open>simp add: sq_def\<close>)
  moreover have "sll (cl_nx s1) (cl_nx s i) ys = sll (cl_nx s) (cl_nx s i) ys"
    by (rule sll_frame) (rule nx1, use d in auto)
  moreover have "cl_nx s1 i = cl_nx s i" by (rule nx1) (use d in auto)
  ultimately have li: "sll (cl_nx s1) (cl_nx s1 i) ys" by simp
  have "c_station (clients s1 i) = Some a" "c_socket (clients s1 i) = c_socket (clients s i)"
    using ia unfolding s1 by auto
  moreover have "stations s1 b = Some st" "stations s1 a = Some (sta\<lparr>st_head := h, st_tail := t\<rparr>)"
    using sqb(1) sta ab by (simp_all add: s1)
  ultimately show ?thesis by (intro exI conjI) (rule rm sq1 li sqb1; assumption?)+
qed

text \<open>It joins the end of another list with the clients behind it; the list it left stays.\<close>

lemma join_list_run:
  assumes st: "stations s b = Some st" "sq (cl_nx s) (st_head st) (st_tail st) zs" and sta: "stations s a = Some sta" "sq (cl_nx s) h t ws"
    and i: "c_station (clients s i) \<noteq> Some b" "sll (cl_nx s) (cl_nx s i) ys" and dis: "set zs \<inter> set (i # ys) = {}" "set ws \<inter> set zs = {}" and ab: "a \<noteq> b"
  shows "\<exists>h' s'. append_client_to_station i b s = Inr s' \<and> sll (cl_nx s') h' (zs @ i # ys) \<and> sll (cl_nx s') h ws
    \<and> stations s' b = Some (st\<lparr>st_head := h', st_tail := Some i, st_count := st_count st + 1\<rparr>) \<and> stations s' a = Some sta
    \<and> c_station (clients s' i) = Some b \<and> c_socket (clients s' i) = c_socket (clients s i)"
proof -
  from append_client_run [OF st i dis(1)] obtain h' s2 where ap: "append_client_to_station i b s = Inr s2"
    and s2: "s2 = upd_cl i (c_station_update (\<lambda>_. Some b)) (upd_st b (\<lambda>st. st\<lparr>st_head := h', st_tail := Some i, st_count := st_count st + 1\<rparr>)
        (if zs = [] then s else upd_cl (last zs) (c_next_update (\<lambda>_. Some i)) s))"
    and links: "sll (cl_nx s2) h' (zs @ i # ys)" by auto
  have nx2: "cl_nx s2 j = cl_nx s j" if "j \<notin> set zs" for j
  proof -
    have "\<not> (zs \<noteq> [] \<and> j = last zs)" using that by auto
    then show ?thesis by (cases "zs = []") (simp_all add: s2)
  qed
  have "sq (cl_nx s2) h t ws = sq (cl_nx s) h t ws" by (rule sq_frame) (rule nx2, use dis in auto)
  then have "sll (cl_nx s2) h ws" using sta(2) by (simp add: sq_def)
  moreover have "stations s2 b = Some (st\<lparr>st_head := h', st_tail := Some i, st_count := st_count st + 1\<rparr>)" "stations s2 a = Some sta"
    using st(1) sta(1) ab by (cases "zs = []"; simp add: s2)+
  moreover have "c_station (clients s2 i) = Some b" by (simp add: s2)
  moreover have "c_socket (clients s2 i) = c_socket (clients s i)" by (cases "zs = []") (auto simp: s2)
  ultimately show ?thesis using ap links by blast
qed

text \<open>Claim C31. A client that moves to another station takes the clients behind it in its list along: they stay on the
  old list and are reached through the new one as well, so both stations stream to them; the
  moved client is the tail of its new list although others follow it.\<close>

lemma set_station_merges:
  assumes reach: "snreach L N fs files s" and net: "net_ok N" "reliable N" and fd: "fd \<in> master s" "fd \<noteq> L"
    and msg: "byte buf 0 = CMD_SETSTATION" "find_station_from_id (int (short buf 1)) s = Inr (Some b)"
    and i: "find_client fd s = Some i"
    and song: "stations s b = Some st" "st_cur st = Some song" "length song < 1000"
    and xs: "serves s a (xs @ i # ys)" and zs: "serves s b zs" and ab: "a \<noteq> b"
  shows "\<exists>s' st'. sn_handle N fs (Serve fd 3 buf) s = Inr s' \<and> reaches s' a (xs @ ys) \<and> reaches s' b (zs @ i # ys)
    \<and> stations s' b = Some st' \<and> st_tail st' = Some i"
proof -
  have inv: "sninv L s" by (rule snreach_inv [OF reach net(1)])
  have sock: "c_socket (clients s i) = fd" using client_index [OF inv fd] i by (metis option.inject)
  obtain sta where sta: "stations s a = Some sta" and sqa: "sq (cl_nx s) (st_head sta) (st_tail sta) (xs @ i # ys)"
    using xs by (auto simp: serves_def)
  obtain xs' where "sq (cl_nx s) (st_head sta) (st_tail sta) xs'" and len: "length xs' \<le> MAX_CLIENT_NUM"
    and ma: "\<forall>j. j \<in> set xs' \<longleftrightarrow> c_station (clients s j) = Some a"
    using station_serves [OF inv sta] by metis
  then have xs': "xs' = xs @ i # ys" using sqa by (auto dest: sq_unique)
  obtain zs' where "sq (cl_nx s) (st_head st) (st_tail st) zs'"
    and mb: "\<forall>j. j \<in> set zs' \<longleftrightarrow> c_station (clients s j) = Some b"
    using station_serves [OF inv song(1)] by metis
  then have zs': "zs' = zs" and sqb: "sq (cl_nx s) (st_head st) (st_tail st) zs"
    using zs song(1) by (auto simp: serves_def dest: sq_unique)
  have ia: "c_station (clients s i) = Some a" using ma xs' by auto
  have dis: "set (xs @ i # ys) \<inter> set zs = {}" using ma mb xs' zs' ab by fastforce
  have "length xs \<le> MAX_CLIENT_NUM" using len xs' by simp
  from leave_run [OF sta ia sqa this song(1) sqb dis ab] obtain h t s1 where
    s1: "remove_client_from_station i s = Inr s1" "sq (cl_nx s1) h t (xs @ ys)" "sll (cl_nx s1) (cl_nx s1 i) ys"
      "sq (cl_nx s1) (st_head st) (st_tail st) zs" "stations s1 b = Some st" "stations s1 a = Some (sta\<lparr>st_head := h, st_tail := t\<rparr>)"
      "c_station (clients s1 i) = Some a" "c_socket (clients s1 i) = c_socket (clients s i)" by blast
  have out: "c_station (clients s1 i) \<noteq> Some b" "set zs \<inter> set (i # ys) = {}" "set (xs @ ys) \<inter> set zs = {}" using s1(7) ab dis by auto
  from join_list_run [OF s1(5,4,6,2) out(1) s1(3) out(2,3) ab] obtain h' s2 where
    s2: "append_client_to_station i b s1 = Inr s2" "sll (cl_nx s2) h' (zs @ i # ys)" "sll (cl_nx s2) h (xs @ ys)"
      "stations s2 b = Some (st\<lparr>st_head := h', st_tail := Some i, st_count := st_count st + 1\<rparr>)"
      "stations s2 a = Some (sta\<lparr>st_head := h, st_tail := t\<rparr>)" "c_station (clients s2 i) = Some b" "c_socket (clients s2 i) = fd"
    using s1(8) sock by auto
  let ?st2 = "st\<lparr>st_head := h', st_tail := Some i, st_count := st_count st + 1\<rparr>"
  have some: "(if c_station (clients s i) \<noteq> None then remove_client_from_station i s else Inr s) = Inr s1" using ia s1(1) by simp
  have "client_ok s i" using inv by (simp add: sninv_def)
  then have g: "c_state (clients s i) = HANDSHAKED" using ia by (simp add: client_ok_def Let_def)
  have "st_cur ?st2 = Some song" using song(2) by simp
  note r = set_station_run [OF net(2) i g msg(2) some s2(1,6,4) this song(3) s2(7)]
  let ?s' = "logged (Sent fd (text_message MSG_ANNOUNCE (''current playing: '' @ song)))
              (logged (Sent fd (text_message MSG_ANNOUNCE ''Set Station Confirmed'')) s2)"
  show ?thesis
  proof (intro exI [of _ ?s'] exI [of _ ?st2] conjI)
    show "sn_handle N fs (Serve fd 3 buf) s = Inr ?s'" using r by (simp add: serve_set_station [OF inv msg(1)])
    show "reaches ?s' a (xs @ ys)" "reaches ?s' b (zs @ i # ys)" using s2 by (simp_all add: reaches_def)
  qed (use s2 in simp_all)
qed

subsection \<open>Safety\<close>



end
