(* ===== verification/Snexchange.thy ===== *)
theory Snexchange
  imports Snprops
begin

text \<open>
  A client and the server together, and the runs on which the properties of \<open>Snprops\<close> apply.
\<close>

subsection \<open>A client sets its station\<close>

definition confirmation :: "string \<Rightarrow> string" where
  "confirmation song = text_message MSG_ANNOUNCE ''Set Station Confirmed''
     @ text_message MSG_ANNOUNCE (''current playing: '' @ song)"

lemma receive_announce:
  assumes "plain_text m"
  shows "recv_message (map Byte (text_message MSG_ANNOUNCE m) @ rest) k =
    bnd (receiver_parser (char_of MSG_ANNOUNCE # char_of (length m) # m) k) (\<lambda>k. Inr (rest, k))"
proof -
  have "MSG_ANNOUNCE < 10" by (simp add: MSG_ANNOUNCE_def)
  from read_text [OF assms this, of rest] show ?thesis by (simp add: recv_message_def del: read_line_simps)
qed

lemma parse_announce:
  assumes "plain_text m"
  shows "receiver_parser (char_of MSG_ANNOUNCE # char_of (length m) # m) k =
    (if m = ''Set Station Confirmed'' then
       bnd (command_queue_head (k_queue k)) (\<lambda>head.
       if head = word_of_nat CMD_SETSTATION then drop_command (k\<lparr>k_wait := False\<rparr>) else Inr k)
     else if m = ''Request Confirmed'' then
       bnd (command_queue_head (k_queue k)) (\<lambda>head.
       if head = word_of_nat CMD_REQUEST then drop_command k else Inr k)
     else Inr k)"
proof -
  have "message_text (char_of MSG_ANNOUNCE # char_of (length m) # m) = Inr m"
    by (rule message_text_of) (use assms in \<open>auto simp: plain_text_def\<close>)
  then show ?thesis by (simp add: receiver_parser_def Let_def MSG_ANNOUNCE_def MSG_WELCOME_def)
qed

text \<open>Claim C7. The client and the server agree.  A client with no pending command sends \<open>Set\<close> with the number of a
  station: the server reads the message, puts the client at the end of the list of that station and
  confirms with the song that plays; the client reads both announcements, takes the
  command off its queue and is ready for the next one.\<close>

lemma set_station_exchange:
  assumes reach: "snreach L N fs files s" and net: "net_ok N" "reliable N" and fd: "fd \<in> master s" "fd \<noteq> L"
    and num: "no_newline (atoi num)" "find_station_from_id (int (nat (atoi num mod 65536))) s = Inr (Some a)"
    and i: "find_client fd s = Some i" "greeted (clients s i)" "c_station (clients s i) = None"
    and song: "stations s a = Some st" "st_cur st = Some song" "plain_text (''current playing: '' @ song)"
    and k: "q_rep (k_queue k) []"
  shows "\<exists>k1 s' k2 xs. send_set_station N c num k = Inr (0, k1) \<and> received c (k_log k1) = received c (k_log k) @ station_message num
    \<and> listen_round N fd (map Byte (station_message num)) s = Inr ([], s')
    \<and> serves s a xs \<and> serves s' a (xs @ [i]) \<and> c_station (clients s' i) = Some a
    \<and> received fd (sn_log s') = received fd (sn_log s) @ confirmation song
    \<and> bnd (recv_message (map Byte (confirmation song)) k1) (\<lambda>(inp, k). recv_message inp k) = Inr ([], k2)
    \<and> q_rep (k_queue k2) [] \<and> \<not> k_wait k2"
proof -
  have inv: "sninv L s" by (rule snreach_inv [OF reach net(1)])
  from cmdq.enq_rep [OF k, of "word_of_nat CMD_SETSTATION"] obtain q where
    q: "command_queue_enqueue (word_of_nat CMD_SETSTATION) (k_queue k) = Inr q" "q_rep q [word_of_nat CMD_SETSTATION]" by auto
  let ?k1 = "k\<lparr>k_queue := q, k_log := Sent c (station_message num) # k_log k\<rparr>"
  have send: "send_set_station N c num k = Inr (0, ?k1)"
    using q(1) net(2) by (simp add: send_set_station_def queue_command_def control_send_all_def station_message_def reliable_send_loop)
  let ?buf = "char_of CMD_SETSTATION # htons_bytes (atoi num)"
  have buf: "byte ?buf 0 = CMD_SETSTATION" "short ?buf 1 = nat (atoi num mod 65536)"
    using short_number by (simp_all add: CMD_SETSTATION_def)
  have len: "length song < 1000" using song(3) by (simp add: plain_text_def)
  have "find_station_from_id (int (short ?buf 1)) s = Inr (Some a)" using num(2) buf(2) by simp
  from set_station_joins [OF reach net fd buf(1) this i song(1,2) len] obtain s' xs where
    h: "sn_handle N fs (Serve fd 3 ?buf) s = Inr s'" and sv: "serves s a xs" "serves s' a (xs @ [i])"
      "c_station (clients s' i) = Some a" "received fd (sn_log s') = received fd (sn_log s) @ confirmation song"
    unfolding confirmation_def by blast
  have "serve N fd 3 ?buf s = Inr s'" using h by (simp add: sn_handle_def selected_ok [OF inv])
  moreover have "read_line (BUF_SIZE - 1) [] (map Byte (station_message num) @ []) = Inr (3, ?buf, [])"
    unfolding station_message_def by (rule read_number [OF num(1)]) (simp add: CMD_SETSTATION_def)
  ultimately have listen: "listen_round N fd (map Byte (station_message num)) s = Inr ([], s')"
    by (simp add: listen_round_def del: read_line_simps)
  have "plain_text ''Set Station Confirmed''" by (simp add: plain_text_def)
  note first = receive_announce [OF this] parse_announce [OF this]
  note second = receive_announce [OF song(3), of "[]"] parse_announce [OF song(3)]
  from cmdq.deq_rep [OF q(2)] obtain q' where q': "command_queue_dequeue q = Inr (word_of_nat CMD_SETSTATION, q')" "q_rep q' []" by blast
  let ?k2 = "?k1\<lparr>k_wait := False, k_queue := q'\<rparr>"
  have "recv_message (map Byte (confirmation song)) ?k1 = Inr (map Byte (text_message MSG_ANNOUNCE (''current playing: '' @ song)), ?k2)"
    unfolding confirmation_def map_append first using head_rep [OF q(2)] q'(1) by (simp add: drop_command_def)
  moreover have "recv_message (map Byte (text_message MSG_ANNOUNCE (''current playing: '' @ song))) ?k2 = Inr ([], ?k2)"
    using second by simp
  ultimately have "bnd (recv_message (map Byte (confirmation song)) ?k1) (\<lambda>(inp, k). recv_message inp k) = Inr ([], ?k2)"
    by simp
  moreover have "q_rep (k_queue ?k2) []" "\<not> k_wait ?k2" using q'(2) by simp_all
  ultimately show ?thesis using send listen sv by (intro exI [of _ ?k1] exI [of _ s'] exI [of _ ?k2] exI [of _ xs]) simp
qed

end
