(* ===== verification/Snruns.thy ===== *)
theory Snruns
  imports Snexchange
begin

text \<open>
  Runs of the server with two stations and three clients on which the properties of Snowcast apply.
\<close>

definition st_a :: "nat option \<Rightarrow> nat option \<Rightarrow> int \<Rightarrow> station" where
  "st_a h t n = zero_station\<lparr>st_songs := [''a.mp3''], st_next := Some 1, st_sender := True, st_cur := Some ''a.mp3'',
     st_head := h, st_tail := t, st_count := n\<rparr>"

definition st_b :: station where
  "st_b = zero_station\<lparr>st_songs := [''b.mp3''], st_id := 1, st_sender := True, st_cur := Some ''b.mp3''\<rparr>"

definition three_fds :: "nat option \<Rightarrow> nat option \<Rightarrow> nat option \<Rightarrow> snow \<Rightarrow> bool" where
  "three_fds a0 a1 n0 s \<longleftrightarrow> clients s = (\<lambda>_. zero_client)(0 := greeted_client 4 a0 n0, 1 := greeted_client 5 a1 None,
       2 := greeted_client 6 None None)
     \<and> fresh_station s = 2 \<and> sl_head s = Some 0 \<and> sl_alive s \<and> master s = {3, 4, 5, 6}"

lemma first_client_at:
  assumes "\<And>j. j < k \<Longrightarrow> c_state (clients s j) \<noteq> NO_STATE" and "c_state (clients s k) = NO_STATE" and "k < MAX_CLIENT_NUM"
  shows "find_first_client s = Some k"
  unfolding find_first_client_def find_Some_iff using assms by (intro exI [of _ k]) auto

lemma playing_run:
  "\<exists>s. snreach 3 all_sent no_files two_songs s \<and> clients s = (\<lambda>_. zero_client)
     \<and> stations s = [0 \<mapsto> st_a None None 0, 1 \<mapsto> st_b]
     \<and> fresh_station s = 2 \<and> sl_head s = Some 0 \<and> sl_alive s \<and> master s = {3} \<and> open_fds s = {3}"
proof -
  obtain s where r: "snreach 3 all_sent no_files two_songs s" and s: "clients s = (\<lambda>_. zero_client)"
     "stations s = [0 \<mapsto> zero_station\<lparr>st_songs := [''a.mp3''], st_next := Some 1, st_sender := True\<rparr>,
                     1 \<mapsto> zero_station\<lparr>st_songs := [''b.mp3''], st_id := 1, st_sender := True\<rparr>]"
     "fresh_station s = 2" "sl_head s = Some 0" "sl_alive s" "master s = {3}" "open_fds s = {3}"
    using started by blast
  let ?s1 = "upd_st 0 (\<lambda>st. st\<lparr>st_cur := Some ''a.mp3'', st_song := 0\<rparr>) s"
  let ?s2 = "upd_st 1 (\<lambda>st. st\<lparr>st_cur := Some ''b.mp3'', st_song := 0\<rparr>) ?s1"
  have "snreach 3 all_sent no_files two_songs ?s1"
    by (rule snreach_step [OF r, of "Start 0 True"])
      (auto simp: sn_good_def sn_handle_def start_song_def s upd_st_def)
  then have "snreach 3 all_sent no_files two_songs ?s2"
    by (rule snreach_step [of _ _ _ _ _ "Start 1 True"])
      (auto simp: sn_good_def sn_handle_def start_song_def s upd_st_def)
  moreover have "stations ?s2 = [0 \<mapsto> st_a None None 0, 1 \<mapsto> st_b]"
    by (simp add: fun_eq_iff s st_a_def st_b_def zero_station_def)
  moreover have "clients ?s2 = (\<lambda>_. zero_client)" using s by simp
  ultimately show ?thesis using s by (intro exI [of _ ?s2]) simp
qed

lemma greeted_run:
  "\<exists>s. snreach 3 all_sent no_files two_songs s \<and> three_fds None None None s \<and> stations s = [0 \<mapsto> st_a None None 0, 1 \<mapsto> st_b]"
proof -
  obtain s0 where r0: "snreach 3 all_sent no_files two_songs s0" and s0: "clients s0 = (\<lambda>_. zero_client)"
     "stations s0 = [0 \<mapsto> st_a None None 0, 1 \<mapsto> st_b]"
     "fresh_station s0 = 2" "sl_head s0 = Some 0" "sl_alive s0" "master s0 = {3}" "open_fds s0 = {3}"
    using playing_run by blast
  have z: "c_state zero_client = NO_STATE" "c_state (greeted_client fd a n) \<noteq> NO_STATE" for fd a n
    by (simp_all add: zero_client_def greeted_client_def)
  have "find_first_client s0 = Some 0" by (rule first_client_at) (simp_all add: s0 z MAX_CLIENT_NUM_def)
  from arrive_hello [OF r0 this, of 4] s0 obtain s1 where r1: "snreach 3 all_sent no_files two_songs s1"
    and s1: "clients s1 = (\<lambda>_. zero_client)(0 := greeted_client 4 None None)" "stations s1 = [0 \<mapsto> st_a None None 0, 1 \<mapsto> st_b]"
     "fresh_station s1 = 2" "sl_head s1 = Some 0" "sl_alive s1" "master s1 = {4, 3}" "open_fds s1 = {4, 3}" by auto
  have "find_first_client s1 = Some 1" by (rule first_client_at) (simp_all add: s1 z MAX_CLIENT_NUM_def)
  from arrive_hello [OF r1 this, of 5] s1 obtain s2 where r2: "snreach 3 all_sent no_files two_songs s2"
    and s2: "clients s2 = (\<lambda>_. zero_client)(0 := greeted_client 4 None None, 1 := greeted_client 5 None None)"
     "stations s2 = [0 \<mapsto> st_a None None 0, 1 \<mapsto> st_b]"
     "fresh_station s2 = 2" "sl_head s2 = Some 0" "sl_alive s2" "master s2 = {5, 4, 3}" "open_fds s2 = {5, 4, 3}" by auto
  have "find_first_client s2 = Some 2" by (rule first_client_at) (auto simp: s2 z MAX_CLIENT_NUM_def less_2_cases_iff)
  from arrive_hello [OF r2 this, of 6] s2 show ?thesis by (auto simp: three_fds_def insert_commute)
qed

lemma find_client_fds:
  assumes "three_fds a0 a1 n0 s"
  shows "find_client 4 s = Some 0" "find_client 5 s = Some 1" "find_client 6 s = Some 2"
  using assms by (simp_all add: three_fds_def find_client_def MAX_CLIENT_NUM_def greeted_client_def upt_rec)

lemma find_station_two:
  assumes "three_fds a0 a1 n0 s" and "stations s = [0 \<mapsto> st_a h t n, 1 \<mapsto> st_b]"
  shows "find_station_from_id 0 s = Inr (Some 0)" "find_station_from_id 1 s = Inr (Some 1)"
  using assms by (simp_all add: three_fds_def find_station_from_id_def st_a_def st_b_def zero_station_def numeral_eq_Suc)

lemma playing_two: "stations s = [0 \<mapsto> st_a h t n, 1 \<mapsto> st_b] \<Longrightarrow> playing s"
  by (auto simp: playing_def st_a_def st_b_def split: if_splits)

text \<open>The first client sets station 0.\<close>

definition set_0 :: string where
  "set_0 = [char_of CMD_SETSTATION, char_of (0::nat), char_of (0::nat)]"

lemma set_0 [simp]: "byte set_0 0 = CMD_SETSTATION" "short set_0 1 = 0" "short set_0 (Suc 0) = 0"
  by (simp_all add: set_0_def byte_def short_def CMD_SETSTATION_def)

lemma one_listens:
  "\<exists>s. snreach 3 all_sent no_files two_songs s \<and> three_fds (Some 0) None None s
     \<and> stations s = [0 \<mapsto> st_a (Some 0) (Some 0) 1, 1 \<mapsto> st_b]"
proof -
  obtain s where r: "snreach 3 all_sent no_files two_songs s" and t: "three_fds None None None s"
    and st: "stations s = [0 \<mapsto> st_a None None 0, 1 \<mapsto> st_b]" using greeted_run by blast
  have inv: "sninv 3 s" by (rule snreach_inv [OF r]) simp
  have f: "find_client 4 s = Some 0" by (rule find_client_fds [OF t])
  have c: "clients s 0 = greeted_client 4 None None" "4 \<in> master s" using t by (simp_all add: three_fds_def)
  let ?s1 = "upd_cl 0 (c_station_update (\<lambda>_. Some 0)) (upd_st 0 (\<lambda>_. st_a (Some 0) (Some 0) 1) s)"
  have ap: "append_client_to_station 0 0 s = Inr ?s1"
    by (simp add: append_client_to_station_def st c greeted_client_def st_a_def upd_st_def zero_station_def)
  let ?s2 = "logged (Sent 4 (text_message MSG_ANNOUNCE (''current playing: '' @ ''a.mp3'')))
              (logged (Sent 4 (text_message MSG_ANNOUNCE ''Set Station Confirmed'')) ?s1)"
  have "set_station all_sent 4 0 s = Inr (0, ?s2)"
    by (rule set_station_run [OF _ f _ _ _ ap])
      (auto simp: c greeted_client_def find_station_two [OF t st] st st_a_def)
  then have h: "sn_handle all_sent no_files (Serve 4 3 set_0) s = Inr ?s2" by (simp add: serve_set_station [OF inv])
  have "sn_good 3 (Serve 4 3 set_0) s"
    using c f playing_two [OF st] by (simp add: sn_good_def greeted_def greeted_client_def)
  from snreach_step [OF r this h] have "snreach 3 all_sent no_files two_songs ?s2" .
  moreover have "three_fds (Some 0) None None ?s2"
    using t by (auto simp: three_fds_def fun_eq_iff greeted_client_def)
  moreover have "stations ?s2 = [0 \<mapsto> st_a (Some 0) (Some 0) 1, 1 \<mapsto> st_b]" by (simp add: st fun_eq_iff)
  ultimately show ?thesis by blast
qed

lemma two_listen:
  "\<exists>s. snreach 3 all_sent no_files two_songs s \<and> three_fds (Some 0) (Some 0) (Some 1) s
     \<and> stations s = [0 \<mapsto> st_a (Some 0) (Some 1) 2, 1 \<mapsto> st_b]"
proof -
  obtain s where r: "snreach 3 all_sent no_files two_songs s" and t: "three_fds (Some 0) None None s"
    and st: "stations s = [0 \<mapsto> st_a (Some 0) (Some 0) 1, 1 \<mapsto> st_b]" using one_listens by blast
  have inv: "sninv 3 s" by (rule snreach_inv [OF r]) simp
  have f: "find_client 5 s = Some 1" by (rule find_client_fds [OF t])
  have c: "clients s 1 = greeted_client 5 None None" "5 \<in> master s" using t by (simp_all add: three_fds_def)
  let ?s1 = "upd_cl 1 (c_station_update (\<lambda>_. Some 0)) (upd_st 0 (\<lambda>_. st_a (Some 0) (Some 1) 2)
     (upd_cl 0 (c_next_update (\<lambda>_. Some 1)) s))"
  have ap: "append_client_to_station 1 0 s = Inr ?s1"
    using c by (simp add: append_client_to_station_def Let_def st greeted_client_def st_a_def upd_st_def upd_cl_def zero_station_def)
  let ?s2 = "logged (Sent 5 (text_message MSG_ANNOUNCE (''current playing: '' @ ''a.mp3'')))
              (logged (Sent 5 (text_message MSG_ANNOUNCE ''Set Station Confirmed'')) ?s1)"
  have "set_station all_sent 5 0 s = Inr (0, ?s2)"
    by (rule set_station_run [OF _ f _ _ _ ap])
      (use c in \<open>auto simp: greeted_client_def find_station_two [OF t st] st st_a_def\<close>)
  then have h: "sn_handle all_sent no_files (Serve 5 3 set_0) s = Inr ?s2" by (simp add: serve_set_station [OF inv])
  have "sn_good 3 (Serve 5 3 set_0) s"
    using c f playing_two [OF st] by (simp add: sn_good_def greeted_def greeted_client_def)
  from snreach_step [OF r this h] have "snreach 3 all_sent no_files two_songs ?s2" .
  moreover have "three_fds (Some 0) (Some 0) (Some 1) ?s2"
    using t by (auto simp: three_fds_def fun_eq_iff greeted_client_def)
  moreover have "stations ?s2 = [0 \<mapsto> st_a (Some 0) (Some 1) 2, 1 \<mapsto> st_b]" by (simp add: st fun_eq_iff)
  ultimately show ?thesis by blast
qed

text \<open>The same with station 1.\<close>

definition set_1 :: string where
  "set_1 = [char_of CMD_SETSTATION, char_of (0::nat), char_of (1::nat)]"

lemma set_1 [simp]: "byte set_1 0 = CMD_SETSTATION" "short set_1 1 = 1" "short set_1 (Suc 0) = 1"
  by (simp_all add: set_1_def byte_def short_def CMD_SETSTATION_def)

subsection \<open>The properties at these states\<close>



lemma set_station_exchange_witness:
  "\<exists>s s' k k1 k2 xs. snreach 3 all_sent no_files two_songs s \<and> send_set_station all_sent 8 ''0'' k = Inr (0, k1)
    \<and> listen_round all_sent 4 (map Byte (station_message ''0'')) s = Inr ([], s') \<and> serves s' 0 (xs @ [0])
    \<and> bnd (recv_message (map Byte (confirmation ''a.mp3'')) k1) (\<lambda>(inp, k). recv_message inp k) = Inr ([], k2)
    \<and> q_rep (k_queue k2) []"
proof -
  obtain s where r: "snreach 3 all_sent no_files two_songs s" and t: "three_fds None None None s"
    and st: "stations s = [0 \<mapsto> st_a None None 0, 1 \<mapsto> st_b]" using greeted_run by blast
  let ?k = "\<lparr>k_queue = command_queue_init \<lparr>cq_nodes = Map.empty, cq_fresh = 0, cq_head = None, cq_tail = None, cq_size = 0\<rparr>,
     k_wait = False, k_log = []\<rparr>"
  have k: "q_rep (k_queue ?k) []" by (simp add: q_rep_init)
  have n: "atoi ''0'' = 0" by (simp add: atoi_def digits_value_def is_digit_def)
  have num: "no_newline (atoi ''0'')" "find_station_from_id (int (nat (atoi ''0'' mod 65536))) s = Inr (Some 0)"
    using find_station_two [OF t st] by (simp_all add: n no_newline_def)
  have c: "4 \<in> master s" "(4 :: nat) \<noteq> 3" "find_client 4 s = Some 0" "greeted (clients s 0)" "c_station (clients s 0) = None"
    using t find_client_fds [OF t] by (simp_all add: three_fds_def greeted_def greeted_client_def)
  have song: "stations s 0 = Some (st_a None None 0)" "st_cur (st_a None None 0) = Some ''a.mp3''"
    "plain_text (''current playing: '' @ ''a.mp3'')" using st by (simp_all add: st_a_def plain_text_def)
  from set_station_exchange [OF r _ _ c(1,2) num c(3-5) song k, of 8] obtain k1 s' k2 xs where
    "send_set_station all_sent 8 ''0'' ?k = Inr (0, k1)" "listen_round all_sent 4 (map Byte (station_message ''0'')) s = Inr ([], s')"
    "serves s' 0 (xs @ [0])" "q_rep (k_queue k2) []"
    "bnd (recv_message (map Byte (confirmation ''a.mp3'')) k1) (\<lambda>(inp, k). recv_message inp k) = Inr ([], k2)" by auto
  with r show ?thesis by blast
qed

lemma set_station_again_witness:
  "\<exists>s s'. snreach 3 all_sent no_files two_songs s \<and> serves s 0 [0] \<and> sn_handle all_sent no_files (Serve 4 3 set_0) s = Inr s'
    \<and> serves s' 0 [] \<and> c_station (clients s' 0) = Some 0 \<and> sn_handle all_sent no_files (Serve 4 3 set_0) s' = Inl Assertion"
proof -
  obtain s where r: "snreach 3 all_sent no_files two_songs s" and t: "three_fds (Some 0) None None s"
    and st: "stations s = [0 \<mapsto> st_a (Some 0) (Some 0) 1, 1 \<mapsto> st_b]" using one_listens by blast
  have c: "4 \<in> master s" "(4 :: nat) \<noteq> 3" "find_client 4 s = Some 0" "c_station (clients s 0) = Some 0"
    using t find_client_fds [OF t] by (simp_all add: three_fds_def greeted_client_def)
  have f: "find_station_from_id (int (short set_0 1)) s = Inr (Some 0)" using find_station_two [OF t st] by simp
  have song: "stations s 0 = Some (st_a (Some 0) (Some 0) 1)" "st_cur (st_a (Some 0) (Some 0) 1) = Some ''a.mp3''"
    "length ''a.mp3'' < 1000" using st by (simp_all add: st_a_def)
  have xs: "serves s 0 [0]" using t song(1) by (simp add: serves_def sq_def cl_nx_def three_fds_def greeted_client_def st_a_def)
  from set_station_again [OF r _ _ c(1,2) set_0(1) f c(3,4) song xs] r xs show ?thesis by auto
qed

lemma set_station_merges_witness:
  "\<exists>s s' st'. snreach 3 all_sent no_files two_songs s \<and> serves s 0 [0, 1] \<and> serves s 1 []
    \<and> sn_handle all_sent no_files (Serve 4 3 set_1) s = Inr s' \<and> reaches s' 0 [1] \<and> reaches s' 1 [0, 1]
    \<and> stations s' 1 = Some st' \<and> st_tail st' = Some 0"
proof -
  obtain s where r: "snreach 3 all_sent no_files two_songs s" and t: "three_fds (Some 0) (Some 0) (Some 1) s"
    and st: "stations s = [0 \<mapsto> st_a (Some 0) (Some 1) 2, 1 \<mapsto> st_b]" using two_listen by blast
  have c: "4 \<in> master s" "(4 :: nat) \<noteq> 3" "find_client 4 s = Some 0"
    using t find_client_fds [OF t] by (simp_all add: three_fds_def greeted_client_def)
  have f: "find_station_from_id (int (short set_1 1)) s = Inr (Some 1)" using find_station_two [OF t st] by simp
  have song: "stations s 1 = Some st_b" "st_cur st_b = Some ''b.mp3''" "length ''b.mp3'' < 1000"
    using st by (simp_all add: st_b_def)
  have xs: "serves s 0 ([] @ 0 # [1])" "serves s 1 []"
    using t st by (simp_all add: serves_def sq_def cl_nx_def three_fds_def greeted_client_def st_a_def st_b_def zero_station_def)
  from set_station_merges [OF r _ _ c(1,2) set_1(1) f c(3) song xs] r xs show ?thesis by auto
qed

end
