(* ===== verification/Snfaults.thy ===== *)
theory Snfaults
  imports Snruns
begin

text \<open>
  Uses of the Snowcast server outside the contract \<open>sn_good\<close>, and what they do.
\<close>

text \<open>Claim C32. The eleventh client stops the server: it is told that the server is busy and its connection is
  closed, but the descriptor stays in the set that is selected, so that the next \<open>select\<close> fails
  and the server exits, whatever comes next.\<close>

lemma full_table_ends:
  assumes "master s \<subseteq> open_fds s" and "find_first_client s = None"
  shows "\<exists>s'. sn_handle N fs (Arrive fd ip) s = Inr s' \<and> clients s' = clients s \<and> fd \<in> master s' - open_fds s'
    \<and> sn_handle N fs (Arrive fd' ip') s' = Inl (Stopped 1) \<and> sn_handle N fs (Serve fd' n buf) s' = Inl (Stopped 1)"
proof -
  have "sn_handle N fs (Arrive fd ip) s = accept_client N fd ip s"
    using assms(1) by (simp add: sn_handle_def selected_def)
  moreover have "\<exists>s'. accept_client N fd ip s = Inr s' \<and> clients s' = clients s \<and> fd \<in> master s' - open_fds s'"
    using assms(2) by (simp add: accept_client_def Let_def find_first_client_def)
  ultimately obtain s' where s': "sn_handle N fs (Arrive fd ip) s = Inr s'" "clients s' = clients s" "fd \<in> master s' - open_fds s'"
    by auto
  then have "\<not> master s' \<subseteq> open_fds s'" by blast
  then have "selected s' m = Inl (Stopped 1)" for m :: "snfault + snow" by (simp add: selected_def)
  with s' show ?thesis by (intro exI [of _ s']) (simp add: sn_handle_def)
qed

lemma crowd:
  "k \<le> 10 \<Longrightarrow> \<exists>s. snreach 3 all_sent no_files two_songs s \<and> (\<forall>j. c_state (clients s j) \<noteq> NO_STATE \<longleftrightarrow> j < k)
     \<and> (\<forall>fd\<in>open_fds s. fd < 4 + k)"
proof (induction k)
  case 0
  obtain s where "snreach 3 all_sent no_files two_songs s" "clients s = (\<lambda>_. zero_client)" "open_fds s = {3}"
    using playing_run by blast
  then show ?case by (intro exI [of _ s]) (simp add: zero_client_def)
next
  case (Suc k)
  then obtain s where r: "snreach 3 all_sent no_files two_songs s" and c: "\<And>j. c_state (clients s j) \<noteq> NO_STATE \<longleftrightarrow> j < k"
    and o: "\<And>fd. fd \<in> open_fds s \<Longrightarrow> fd < 4 + k" by auto
  have inv: "sninv 3 s" by (rule snreach_inv [OF r]) simp
  have f: "find_first_client s = Some k"
    by (rule first_client_at) (use c Suc.prems in \<open>auto simp: MAX_CLIENT_NUM_def\<close>)
  have fd: "4 + k \<notin> open_fds s" using o by blast
  let ?s1 = "upd_cl k (\<lambda>c. c\<lparr>c_state := INIT_STATE, c_socket := 4 + k, c_ip := Remote_ip\<rparr>)
      (s\<lparr>master := insert (4 + k) (master s), open_fds := insert (4 + k) (open_fds s), remote_ip := ''ip''\<rparr>)"
  have "sn_handle all_sent no_files (Arrive (4 + k) ''ip'') s = Inr ?s1"
    using f by (simp add: sn_handle_def selected_ok [OF inv] accept_client_def find_first_client_def Let_def)
  moreover have "sn_good 3 (Arrive (4 + k) ''ip'') s" using f fd by (simp add: sn_good_def)
  ultimately have "snreach 3 all_sent no_files two_songs ?s1" using snreach_step [OF r] by blast
  moreover have "c_state (clients ?s1 j) \<noteq> NO_STATE \<longleftrightarrow> j < Suc k" for j using c [of j] by (auto simp: less_Suc_eq)
  moreover have "fd < 4 + Suc k" if "fd \<in> open_fds ?s1" for fd using o [of fd] that by auto
  ultimately show ?case by (intro exI [of _ ?s1]) blast
qed

lemma full_table_ends_witness:
  "\<exists>s s'. snreach 3 all_sent no_files two_songs s \<and> sn_handle all_sent no_files (Arrive 14 ''ip'') s = Inr s'
    \<and> sn_handle all_sent no_files (Serve 4 0 []) s' = Inl (Stopped 1)"
proof -
  obtain s where r: "snreach 3 all_sent no_files two_songs s" and c: "\<forall>j. c_state (clients s j) \<noteq> NO_STATE \<longleftrightarrow> j < 10"
    using crowd [of 10] by auto
  have "sninv 3 s" by (rule snreach_inv [OF r]) simp
  then have "master s \<subseteq> open_fds s" by (simp add: sninv_def sockets_ok_def)
  moreover have "find_first_client s = None"
    using c by (auto simp: find_first_client_def find_None_iff MAX_CLIENT_NUM_def)
  ultimately show ?thesis
    using full_table_ends [of s all_sent no_files 14 "''ip''" 4 "[]" 0 "[]"] r by blast
qed

text \<open>A client that hangs up before it was greeted stops the server: the order to stop is sent to the address
  of its listener, which is NULL; and when its connection breaks instead, the assertion on the socket
  of the listener fails.\<close>

lemma early_hangup_ends:
  assumes reach: "snreach L N fs files s" and net: "net_ok N" and room: "find_first_client s = Some k"
    and fd: "fd \<notin> open_fds s" "fd \<noteq> 0"
  shows "\<exists>s'. sn_handle N fs (Arrive fd ip) s = Inr s' \<and> sn_handle N fs (Serve fd 0 buf) s' = Inl Null_access
    \<and> sn_handle N fs (Serve fd (-1) buf) s' = Inl Assertion"
proof -
  have inv: "sninv L s" by (rule snreach_inv [OF reach net])
  from accept_keeps [OF inv fd room, of N ip] obtain s1 where
    a: "accept_client N fd ip s = Inr s1" and inv1: "sninv L s1" and i: "find_client fd s1 = Some k" by blast
  have ok: "client_ok s k" using inv by (simp add: sninv_def)
  have "c_state (clients s k) = NO_STATE" using room by (auto simp: find_first_client_def find_Some_iff)
  then have z: "clients s k = zero_client" using ok by (simp add: client_ok_def Let_def)
  have s1: "clients s1 k = zero_client\<lparr>c_state := INIT_STATE, c_socket := fd, c_ip := Remote_ip\<rparr>"
    using a room z by (auto simp: accept_client_def find_first_client_def Let_def)
  have "serve N fd 0 buf s1 = Inl Null_access" "serve N fd (-1) buf s1 = Inl Assertion"
    using i s1 fd by (simp_all add: serve_def Let_def ip_text_def close_client_def zero_client_def)
  then show ?thesis using a by (intro exI [of _ s1]) (simp add: sn_handle_def selected_ok [OF inv] selected_ok [OF inv1])
qed

lemma early_hangup_ends_witness:
  "\<exists>s s'. snreach 3 all_sent no_files two_songs s \<and> sn_handle all_sent no_files (Arrive 4 ''ip'') s = Inr s'
    \<and> sn_handle all_sent no_files (Serve 4 0 []) s' = Inl Null_access"
proof -
  obtain s where r: "snreach 3 all_sent no_files two_songs s" and s: "clients s = (\<lambda>_. zero_client)" "open_fds s = {3}"
    using playing_run by blast
  have "find_first_client s = Some 0"
    by (rule first_client_at) (simp_all add: s zero_client_def MAX_CLIENT_NUM_def)
  from early_hangup_ends [OF r _ this, of 4 "''ip''" "[]"] s r show ?thesis by auto
qed

text \<open>After the first station was removed, two stations that are added get the same number: the
  first one without a station at its position, 0, is given again and again, since the station that
  gets it goes to the end of the list.\<close>

lemma ids_repeat:
  assumes "sl_alive s" and "sl_head s = Some h" and "sl_tail s = Some t" and "stations s h = Some sth" and "st_id sth \<noteq> 0"
    and "stations s t \<noteq> None" and "stations s a = Some sta" and "stations s b = Some stb" and "distinct [a, b, h]" "a \<noteq> t" "b \<noteq> t"
  shows "\<exists>s1 s2. push_station_to_list a s = Inr s1 \<and> push_station_to_list b s1 = Inr s2
    \<and> map_option st_id (stations s2 a) = Some 0 \<and> map_option st_id (stations s2 b) = Some 0
    \<and> st_nx s2 t = Some a \<and> st_nx s2 a = Some b"
proof -
  let ?s1 = "(upd_st t (st_next_update (\<lambda>_. Some a)) (upd_st a (st_id_update (\<lambda>_. 0)) s))\<lparr>sl_tail := Some a, sl_count := sl_count s + 1\<rparr>"
  let ?s2 = "(upd_st a (st_next_update (\<lambda>_. Some b)) (upd_st b (st_id_update (\<lambda>_. 0)) ?s1))\<lparr>sl_tail := Some b, sl_count := sl_count s + 2\<rparr>"
  have ab: "a \<noteq> b" "a \<noteq> h" "b \<noteq> h" using assms(9) by auto
  have h1: "\<exists>st. stations ?s1 h = Some st \<and> st_id st \<noteq> 0" using assms(4,5) ab by (cases "h = t") auto
  have "push_station_to_list a s = Inr ?s1"
    using assms by (simp add: push_station_to_list_def Let_def)
  moreover have "push_station_to_list b ?s1 = Inr ?s2"
    using h1 assms(1,2,7) ab by (auto simp: push_station_to_list_def Let_def)
  ultimately show ?thesis using assms(6-8,10,11) ab
    by (intro exI [of _ ?s1] exI [of _ ?s2]) (auto simp: st_nx_def)
qed

lemma ids_repeat_witness:
  "\<exists>s s1 s2. sl_head s = Some 0 \<and> map_option st_id (stations s 0) = Some 1
    \<and> push_station_to_list 1 s = Inr s1 \<and> push_station_to_list 2 s1 = Inr s2
    \<and> map_option st_id (stations s2 1) = Some 0 \<and> map_option st_id (stations s2 2) = Some 0"
proof -
  let ?s = "(init_globals 3)\<lparr>stations := [0 \<mapsto> zero_station\<lparr>st_id := 1\<rparr>, 1 \<mapsto> zero_station, 2 \<mapsto> zero_station],
     fresh_station := 3, sl_head := Some 0, sl_tail := Some 0, sl_count := 1\<rparr>"
  from ids_repeat [of ?s 0 0 "zero_station\<lparr>st_id := 1\<rparr>" 1 zero_station 2 zero_station] obtain s1 s2 where
    "push_station_to_list 1 ?s = Inr s1" "push_station_to_list 2 s1 = Inr s2"
    "map_option st_id (stations s2 1) = Some 0" "map_option st_id (stations s2 2) = Some 0"
    by (auto simp: init_globals_def)
  moreover have "sl_head ?s = Some 0" "map_option st_id (stations ?s 0) = Some 1" by simp_all
  ultimately show ?thesis by blast
qed

text \<open>Leaving with \<open>q\<close> prints the stations, for which the destroyed mutex is locked.\<close>

lemma quit_misuses_mutex:
  assumes "release_stations s = Inr s'"
  shows "user_input N fs ''q'' s = Inl Mutex_misuse"
proof -
  have "\<not> sl_alive s'" using assms by (auto simp: release_stations_def bnd_eq_Inr check_eq_Inr Let_def)
  then show ?thesis using assms by (simp add: user_input_def print_stations_def)
qed

end
