(* ===== verification/Pgbase.thy ===== *)
theory Pgbase
  imports Kbase
begin

text \<open>
  The allocator of physical pages, \<open>mm/page.c\<close>: a buddy allocator.  A group manages a range of pages.
  For each order \<open>k\<close> it has a list of free blocks of \<open>2 ^ k\<close> pages, kept here as the list of their addresses,
  head first, and a map with one bit for each pair of buddies of order \<open>k - 1\<close>.  \<open>pg_bits\<close> is the number
  of bits for which a map has room; an access beyond them, into the next map, stops the model, and so
  does \<open>list_remove\<close> of a page that is on no list of its group.  What the pages hold is not kept.
\<close>

subsection \<open>Data\<close>

definition PAGE_SHIFT :: nat where "PAGE_SHIFT = 12"
definition PAGE_NSIZES :: nat where "PAGE_NSIZES = 8"

text \<open>\<open>sizeof(struct pagegroup)\<close>: eight list heads, eight pointers, two addresses and a link.\<close>

definition PAGEGROUP_SIZE :: nat where "PAGEGROUP_SIZE = 112"

record pagegroup =
  pg_freelist :: "nat \<Rightarrow> nat list"
  pg_map :: "nat \<Rightarrow> nat \<Rightarrow> 32 word"
  pg_bits :: "nat \<Rightarrow> nat"
  pg_baseaddr :: nat
  pg_endaddr :: nat

record pages =
  pagegroup_list :: "pagegroup list"
  page_freecount :: int

definition page_init :: pages where
  "page_init = \<lparr>pagegroup_list = [], page_freecount = 0\<rparr>"

definition page_align_down :: "nat \<Rightarrow> nat" where
  "page_align_down x = x div PAGE_SIZE * PAGE_SIZE"

definition set_freelist :: "nat \<Rightarrow> nat list \<Rightarrow> pagegroup \<Rightarrow> pagegroup" where
  "set_freelist k xs g = g\<lparr>pg_freelist := (pg_freelist g)(k := xs)\<rparr>"

definition push_free :: "nat \<Rightarrow> nat \<Rightarrow> pagegroup \<Rightarrow> pagegroup" where
  "push_free k a g = set_freelist k (a # pg_freelist g k) g"

text \<open>\<open>list_remove\<close> takes a page off the list it is on.\<close>

definition list_of :: "nat \<Rightarrow> pagegroup \<Rightarrow> nat option" where
  "list_of a g = find (\<lambda>k. a \<in> set (pg_freelist g k)) [0..<PAGE_NSIZES]"

definition unlink_page :: "nat \<Rightarrow> pagegroup \<Rightarrow> kfault + pagegroup" where
  "unlink_page a g = deref (list_of a g) Wild_access (\<lambda>k. Inr (set_freelist k (remove1 a (pg_freelist g k)) g))"

subsection \<open>Bits\<close>

definition bit_flip :: "nat \<Rightarrow> nat \<Rightarrow> pagegroup \<Rightarrow> kfault + pagegroup" where
  "bit_flip k n g =
     check (n < pg_bits g k) Wild_access (
     let m = pg_map g k in
     Inr (g\<lparr>pg_map := (pg_map g)(k := m(n div 32 := m (n div 32) XOR push_bit (n mod 32) 1))\<rparr>))"

definition bit_check :: "nat \<Rightarrow> nat \<Rightarrow> pagegroup \<Rightarrow> kfault + bool" where
  "bit_check k n g =
     check (n < pg_bits g k) Wild_access (
     Inr (pg_map g k (n div 32) AND push_bit (n mod 32) 1 \<noteq> 0))"

subsection \<open>Groups\<close>

text \<open>The bytes of the map of an order; \<open>count - 1\<close> wraps.\<close>

definition map_bytes :: "nat \<Rightarrow> nat \<Rightarrow> nat" where
  "map_bytes npages order =
     (let count = word_of_nat (npages div 2 ^ order) :: 32 word in
      unat (drop_bit 3 (((count - 1) AND NOT 7) + 8)))"

text \<open>The blocks that do not fit the largest order, from the end of the range down; the result is the end
  of what is left.\<close>

fun small_blocks :: "nat list \<Rightarrow> nat \<Rightarrow> nat \<Rightarrow> pagegroup \<Rightarrow> nat \<times> pagegroup" where
  "small_blocks [] npages e g = (e, g)"
| "small_blocks (k # ks) npages e g =
     (let g = set_freelist k [] g in
      if bit npages k then
        let e = e - 2 ^ k * PAGE_SIZE in small_blocks ks npages e (push_free k e g)
      else small_blocks ks npages e g)"

text \<open>The loop that fills the list of the largest order.\<close>

fun big_blocks :: "nat \<Rightarrow> nat \<Rightarrow> pagegroup \<Rightarrow> pagegroup" where
  "big_blocks 0 a g = g"
| "big_blocks (Suc n) a g = big_blocks n (a + 2 ^ (PAGE_NSIZES - 1) * PAGE_SIZE) (push_free (PAGE_NSIZES - 1) a g)"

text \<open>The group and its maps stand at the end of the range; where they do not fit the code would write before
  its start.\<close>

definition pagegroup_create :: "nat \<Rightarrow> nat \<Rightarrow> kfault + pagegroup" where
  "pagegroup_create start e =
     (let all = (e - start) div PAGE_SIZE;
          used = PAGEGROUP_SIZE + (\<Sum>k\<leftarrow>[1..<PAGE_NSIZES]. map_bytes all k) in
      check (start + used \<le> e) Wild_access (
      let e = page_align_down (e - used);
          npages = (e - start) div PAGE_SIZE;
          g = \<lparr>pg_freelist = (\<lambda>_. []), pg_map = (\<lambda>_ _. 0),
               pg_bits = (\<lambda>k. if k = 0 then 0 else 8 * map_bytes all k),
               pg_baseaddr = start, pg_endaddr = e\<rparr>;
          (e, g) = small_blocks [0..<PAGE_NSIZES - 1] npages e g in
      check ((e - start) mod 2 ^ (PAGE_NSIZES - 1) = 0) Kassert_failed (
      Inr (big_blocks ((e - start) div (2 ^ (PAGE_NSIZES - 1) * PAGE_SIZE)) start (set_freelist (PAGE_NSIZES - 1) [] g)))))"

definition page_add_range :: "nat \<Rightarrow> nat \<Rightarrow> pages \<Rightarrow> kfault + pages" where
  "page_add_range start e s =
     bnd (pagegroup_create (page_align_down start) (page_align_down e)) (\<lambda>g.
     if pg_baseaddr g < pg_endaddr g then
       Inr (s\<lparr>pagegroup_list := pagegroup_list s @ [g],
              page_freecount := page_freecount s + int ((pg_endaddr g - pg_baseaddr g) div PAGE_SIZE)\<rparr>)
     else Inr s)"

definition calculate_index :: "nat \<Rightarrow> nat \<Rightarrow> pagegroup \<Rightarrow> kfault + nat" where
  "calculate_index order addr g =
     check (addr mod PAGE_SIZE = 0) Kassert_failed (
     check (order < PAGE_NSIZES) Kassert_failed (
     check (pg_baseaddr g \<le> addr \<and> addr < pg_endaddr g) Kassert_failed (
     let offset = addr - pg_baseaddr g in
     check (offset mod 2 ^ order = 0) Kassert_failed (
     Inr (offset div 2 ^ order div 2 ^ PAGE_SHIFT)))))"

text \<open>The bit of the pair that the block at \<open>addr\<close> belongs to, flipped.\<close>

definition flip_at :: "nat \<Rightarrow> nat \<Rightarrow> pagegroup \<Rightarrow> kfault + pagegroup" where
  "flip_at order addr g = bnd (calculate_index order addr g) (\<lambda>n. bit_flip order n g)"

definition check_at :: "nat \<Rightarrow> nat \<Rightarrow> pagegroup \<Rightarrow> kfault + bool" where
  "check_at order addr g = bnd (calculate_index order addr g) (\<lambda>n. bit_check order n g)"

subsection \<open>Splitting and allocating\<close>

text \<open>A block of an order that changes between free and in use flips the bit of its pair, unless it is of the
  largest order.\<close>

definition mark :: "nat \<Rightarrow> nat \<Rightarrow> pagegroup \<Rightarrow> kfault + pagegroup" where
  "mark order addr g = (if order < PAGE_NSIZES - 1 then flip_at (order + 1) addr g else Inr g)"

definition pop_block :: "nat \<Rightarrow> pagegroup \<Rightarrow> kfault + pagegroup" where
  "pop_block order g =
     (case pg_freelist g order of
        [] \<Rightarrow> Inl Kassert_failed
      | addr # rest \<Rightarrow> mark order addr (set_freelist order rest g))"

text \<open>\<open>__page_split\<close>\<close>

definition split_block :: "nat \<Rightarrow> pagegroup \<Rightarrow> kfault + pagegroup" where
  "split_block order g =
     check (0 < order) Kassert_failed (
     check (order < PAGE_NSIZES) Kassert_failed (
     check (pg_freelist g order \<noteq> []) Kassert_failed (
     let target = hd (pg_freelist g order) in
     bnd (pop_block order g) (\<lambda>g.
     bnd (check_at order target g) (\<lambda>b.
     check (\<not> b) Kassert_failed (
     let buddy = target + 2 ^ (order - 1) * PAGE_SIZE in
     Inr (push_free (order - 1) buddy (push_free (order - 1) target g))))))))"

text \<open>The loop that splits down from order \<open>order + n\<close> to \<open>order\<close>.\<close>

fun split_down :: "nat \<Rightarrow> nat \<Rightarrow> pagegroup \<Rightarrow> kfault + pagegroup" where
  "split_down 0 order g = Inr g"
| "split_down (Suc n) order g = bnd (split_block (order + Suc n) g) (split_down n order)"

text \<open>The first group with a free block of an order, by its position in the list.\<close>

definition group_with :: "nat \<Rightarrow> pages \<Rightarrow> nat option" where
  "group_with k s = find (\<lambda>i. pg_freelist (pagegroup_list s ! i) k \<noteq> []) [0..<length (pagegroup_list s)]"

definition on_group :: "nat \<Rightarrow> (pagegroup \<Rightarrow> kfault + pagegroup) \<Rightarrow> pages \<Rightarrow> kfault + pages" where
  "on_group i f s = bnd (f (pagegroup_list s ! i)) (\<lambda>g. Inr (s\<lparr>pagegroup_list := (pagegroup_list s)[i := g]\<rparr>))"

text \<open>The search of \<open>_page_split\<close> through the larger orders.\<close>

fun split_larger :: "nat list \<Rightarrow> nat \<Rightarrow> pages \<Rightarrow> kfault + (nat option \<times> pages)" where
  "split_larger [] order s = Inr (None, s)"
| "split_larger (k # ks) order s =
     (case group_with k s of
        None \<Rightarrow> split_larger ks order s
      | Some i \<Rightarrow>
          bnd (on_group i (split_down (k - order) order) s) (\<lambda>s.
          check (pg_freelist (pagegroup_list s ! i) order \<noteq> []) Kassert_failed (Inr (Some i, s))))"

text \<open>\<open>_page_alloc_order\<close> up to the point where no block is found; then \<open>_page_split\<close> asks the slab allocator
  for pages and gives up.\<close>

definition take_block :: "nat \<Rightarrow> nat \<Rightarrow> pages \<Rightarrow> kfault + (nat \<times> pages)" where
  "take_block order i s =
     (let addr = hd (pg_freelist (pagegroup_list s ! i) order) in
      bnd (on_group i (pop_block order) s) (\<lambda>s.
      Inr (addr, s\<lparr>page_freecount := page_freecount s - 2 ^ order\<rparr>)))"

definition find_block :: "nat \<Rightarrow> pages \<Rightarrow> kfault + (nat option \<times> pages)" where
  "find_block order s =
     (case group_with order s of
        Some i \<Rightarrow> bnd (take_block order i s) (\<lambda>(a, s). Inr (Some a, s))
      | None \<Rightarrow>
          bnd (split_larger [order + 1..<PAGE_NSIZES] order s) (\<lambda>(r, s).
          case r of
            None \<Rightarrow> Inr (None, s)
          | Some i \<Rightarrow>
              check (pg_freelist (pagegroup_list s ! i) order \<noteq> []) Kassert_failed (
              bnd (take_block order i s) (\<lambda>(a, s). Inr (Some a, s)))))"

subsection \<open>Freeing and joining\<close>

definition buddy_of :: "nat \<Rightarrow> nat \<Rightarrow> pagegroup \<Rightarrow> nat" where
  "buddy_of order addr g =
     (let offset = addr - pg_baseaddr g in
      if odd (offset div 2 ^ PAGE_SHIFT div 2 ^ order) then addr - 2 ^ order * PAGE_SIZE else addr + 2 ^ order * PAGE_SIZE)"

function page_join :: "nat \<Rightarrow> nat \<Rightarrow> pagegroup \<Rightarrow> kfault + pagegroup" where
  "page_join order addr g =
     (if order < PAGE_NSIZES - 1 then
        bnd (check_at (order + 1) addr g) (\<lambda>b.
        if b then Inr g
        else
          let buddy = buddy_of order addr g in
          check ((addr - pg_baseaddr g) mod 2 ^ order = 0) Kassert_failed (
          bnd (unlink_page addr g) (\<lambda>g.
          bnd (unlink_page buddy g) (\<lambda>g.
          let addr = min addr buddy; order = order + 1;
              g = push_free order addr g in
          bnd (mark order addr g) (page_join order addr)))))
      else Inr g)"
  by pat_completeness auto
termination by (relation "measure (\<lambda>(order, addr, g). PAGE_NSIZES - order)") auto

declare page_join.simps [simp del]

text \<open>\<open>_pagegroup_from_address\<close>, as a position in the list.\<close>

definition group_of :: "nat \<Rightarrow> pages \<Rightarrow> nat option" where
  "group_of addr s = find (\<lambda>i. let g = pagegroup_list s ! i in pg_baseaddr g \<le> addr \<and> addr < pg_endaddr g)
     [0..<length (pagegroup_list s)]"

definition page_free_order :: "nat \<Rightarrow> nat \<Rightarrow> pages \<Rightarrow> kfault + pages" where
  "page_free_order addr order s =
     (case group_of addr s of
        None \<Rightarrow> Inr s
      | Some i \<Rightarrow>
          bnd (on_group i (\<lambda>g. let g = push_free order addr g in
                 if order < PAGE_NSIZES - 1 then bnd (flip_at (order + 1) addr g) (page_join order addr) else Inr g) s) (\<lambda>s.
          Inr (s\<lparr>page_freecount := page_freecount s + 2 ^ order\<rparr>)))"

text \<open>The smallest order that holds \<open>npages\<close>, which the code compares as an \<open>int\<close>.\<close>

definition order_for :: "32 word \<Rightarrow> kfault + nat" where
  "order_for npages = deref (find (\<lambda>k. sint npages \<le> 2 ^ k) [0..<PAGE_NSIZES]) Kernel_panic Inr"

definition page_free :: "nat \<Rightarrow> pages \<Rightarrow> kfault + pages" where
  "page_free addr s = page_free_order addr 0 s"

definition page_free_n :: "nat \<Rightarrow> 32 word \<Rightarrow> pages \<Rightarrow> kfault + pages" where
  "page_free_n start npages s = bnd (order_for npages) (\<lambda>order. page_free_order start order s)"

definition page_free_count :: "pages \<Rightarrow> int" where
  "page_free_count s = page_freecount s"

end
