(* ===== verification/Slbase.thy ===== *)
theory Slbase
  imports Pgbase
begin

text \<open>
  The slab allocator, \<open>mm/slab.c\<close>, on top of the pages: allocators of objects of one size, each with a list of
  slabs.  A slab is a block of pages cut into objects, each followed by its \<open>slab_bufctl\<close>; the slab structure
  stands behind the last object.  The chain of free objects of a slab is kept as the list of their addresses, head
  first; of a \<open>slab_bufctl\<close> the pointer to the slab and the flag are kept, by its address.  Red zones are taken to be intact,
  and what the objects hold is not kept but for the allocator that \<open>kmalloc\<close> writes in front of an object.
  A slab that does not fit its pages would be written beyond them; there the model stops.
\<close>

subsection \<open>Data\<close>

text \<open>\<open>sizeof\<close> of \<open>struct slab\<close>, \<open>struct slab_bufctl\<close>, \<open>struct slab_allocator\<close> and of a red zone.\<close>

definition SLAB_SIZE :: nat where "SLAB_SIZE = 16"
definition BUFCTL_SIZE :: nat where "BUFCTL_SIZE = 8"
definition SLAB_ALLOCATOR_SIZE :: nat where "SLAB_ALLOCATOR_SIZE = 24"
definition REDZONE_SIZE :: nat where "REDZONE_SIZE = 4"
definition SLAB_MAX_ORDER :: nat where "SLAB_MAX_ORDER = 5"
definition KMALLOC_SIZE_MIN_ORDER :: nat where "KMALLOC_SIZE_MIN_ORDER = 6"
definition KMALLOC_SIZE_MAX_ORDER :: nat where "KMALLOC_SIZE_MAX_ORDER = 18"

text \<open>An allocator: the static one, for the allocators themselves, or one at an address.\<close>

datatype sa_ref = Slab_allocator_allocator | Sa nat

record slab =
  s_self :: nat
  s_inuse :: int
  s_free :: "nat list"
  s_addr :: nat

record slab_allocator =
  sa_name :: string
  sa_objsize :: nat
  sa_slabs :: "slab list"
  sa_order :: nat
  sa_slab_nobjs :: nat

record bufctl =
  sb_slab :: nat
  sb_free :: bool

record kmem =
  km_pages :: pages
  allocator :: "sa_ref \<Rightarrow> slab_allocator option"
  slab_allocators :: "sa_ref list"
  bufctls :: "nat \<Rightarrow> bufctl option"
  kmalloc_allocators :: "sa_ref list"
  kmalloc_tag :: "nat \<Rightarrow> sa_ref option"

definition upd_sa :: "sa_ref \<Rightarrow> slab_allocator \<Rightarrow> kmem \<Rightarrow> kmem" where
  "upd_sa r a s = s\<lparr>allocator := (allocator s)(r \<mapsto> a)\<rparr>"

definition sa_get :: "sa_ref \<Rightarrow> kmem \<Rightarrow> kfault + slab_allocator" where
  "sa_get r s = deref (allocator s r) Wild_access Inr"

subsection \<open>The size of a slab\<close>

definition slab_size :: "32 word \<Rightarrow> 32 word \<Rightarrow> 32 word" where
  "slab_size objsize nobjs = nobjs * (objsize + word_of_nat BUFCTL_SIZE) + word_of_nat SLAB_SIZE"

definition slab_nobjs :: "32 word \<Rightarrow> nat \<Rightarrow> 32 word" where
  "slab_nobjs objsize order =
     (push_bit order (word_of_nat PAGE_SIZE) - word_of_nat SLAB_SIZE) div (objsize + word_of_nat BUFCTL_SIZE)"

definition slab_waste :: "32 word \<Rightarrow> nat \<Rightarrow> int" where
  "slab_waste objsize order = sint (push_bit order (word_of_nat PAGE_SIZE) - slab_size objsize (slab_nobjs objsize order))"

text \<open>The loop that looks for a size with less waste.\<close>

fun best_size :: "nat list \<Rightarrow> 32 word \<Rightarrow> nat \<Rightarrow> int \<Rightarrow> nat" where
  "best_size [] objsize best_order best_waste = best_order"
| "best_size (order # orders) objsize best_order best_waste =
     (let waste = slab_waste objsize order in
      if waste < best_waste then best_size orders objsize order waste
      else best_size orders objsize best_order best_waste)"

definition calc_slab_size :: "32 word \<Rightarrow> kfault + (nat \<times> nat)" where
  "calc_slab_size objsize =
     (let minsize = sint (slab_size objsize 1) in
      deref (find (\<lambda>k. minsize \<le> sint (push_bit k (word_of_nat PAGE_SIZE :: 32 word))) [0..<PAGE_NSIZES]) Kernel_panic (\<lambda>minorder.
      let order = best_size [minorder + 1..<SLAB_MAX_ORDER] objsize minorder (slab_waste objsize minorder) in
      Inr (order, unat (slab_nobjs objsize order))))"

definition allocator_init :: "sa_ref \<Rightarrow> string option \<Rightarrow> 32 word \<Rightarrow> kmem \<Rightarrow> kfault + kmem" where
  "allocator_init r name sz s =
     (let sz = sz + 2 * word_of_nat REDZONE_SIZE;
          name = (case name of None \<Rightarrow> ''<unnamed>'' | Some n \<Rightarrow> n) in
      bnd (calc_slab_size sz) (\<lambda>(order, nobjs).
      Inr (upd_sa r \<lparr>sa_name = name, sa_objsize = unat sz, sa_slabs = [], sa_order = order, sa_slab_nobjs = nobjs\<rparr>
        (s\<lparr>slab_allocators := r # slab_allocators s\<rparr>))))"

subsection \<open>Giving back pages\<close>

text \<open>The slabs of one allocator, with the number of pages freed so far; \<open>True\<close> when the target was met.\<close>

fun reclaim_slabs :: "int \<Rightarrow> nat \<Rightarrow> slab list \<Rightarrow> int \<Rightarrow> pages \<Rightarrow> kfault + (slab list \<times> int \<times> bool \<times> pages)" where
  "reclaim_slabs target order [] npages_freed p = Inr ([], npages_freed, False, p)"
| "reclaim_slabs target order (sl # sls) npages_freed p =
     bnd (if s_inuse sl = 0 then
            bnd (page_free_n (s_addr sl) (push_bit order 1) p) (\<lambda>p. Inr ([], npages_freed + 2 ^ order, p))
          else Inr ([sl], npages_freed, p)) (\<lambda>(kept, npages_freed, p).
     if 0 < target \<and> target \<le> npages_freed then Inr (kept @ sls, npages_freed, True, p)
     else bnd (reclaim_slabs target order sls npages_freed p) (\<lambda>(sls, npages_freed, met, p).
       Inr (kept @ sls, npages_freed, met, p)))"

fun reclaim_from :: "int \<Rightarrow> sa_ref list \<Rightarrow> int \<Rightarrow> kmem \<Rightarrow> kfault + (int \<times> kmem)" where
  "reclaim_from target [] npages_freed s = Inr (npages_freed, s)"
| "reclaim_from target (r # rs) npages_freed s =
     bnd (sa_get r s) (\<lambda>a.
     bnd (reclaim_slabs target (sa_order a) (sa_slabs a) npages_freed (km_pages s)) (\<lambda>(sls, npages_freed, met, p).
     let s = upd_sa r (a\<lparr>sa_slabs := sls\<rparr>) (s\<lparr>km_pages := p\<rparr>) in
     if met then Inr (npages_freed, s) else reclaim_from target rs npages_freed s))"

definition slab_allocators_reclaim :: "int \<Rightarrow> kmem \<Rightarrow> kfault + (int \<times> kmem)" where
  "slab_allocators_reclaim target s = reclaim_from target (slab_allocators s) 0 s"

subsection \<open>Allocating pages\<close>

text \<open>\<open>_page_alloc_order\<close>: after a search without success \<open>_page_split\<close> asks for pages, and gives up.\<close>

definition page_alloc_order :: "nat \<Rightarrow> kmem \<Rightarrow> kfault + (nat option \<times> kmem)" where
  "page_alloc_order order s =
     bnd (find_block order (km_pages s)) (\<lambda>(r, p).
     let s = s\<lparr>km_pages := p\<rparr> in
     case r of
       Some addr \<Rightarrow> Inr (Some addr, s)
     | None \<Rightarrow> bnd (slab_allocators_reclaim 0 s) (\<lambda>(n, s). Inr (None, s)))"

definition page_alloc :: "kmem \<Rightarrow> kfault + (nat option \<times> kmem)" where
  "page_alloc s = page_alloc_order 0 s"

definition page_alloc_n :: "32 word \<Rightarrow> kmem \<Rightarrow> kfault + (nat option \<times> kmem)" where
  "page_alloc_n npages s = bnd (order_for npages) (\<lambda>order. page_alloc_order order s)"

subsection \<open>Objects\<close>

definition next_obj :: "slab_allocator \<Rightarrow> nat \<Rightarrow> nat" where
  "next_obj a obj = obj + sa_objsize a + BUFCTL_SIZE"

definition obj_bufctl :: "slab_allocator \<Rightarrow> nat \<Rightarrow> nat" where
  "obj_bufctl a obj = obj + sa_objsize a"

text \<open>The chain of the free objects of a new slab.\<close>

fun objects :: "nat \<Rightarrow> slab_allocator \<Rightarrow> nat \<Rightarrow> nat list" where
  "objects 0 a obj = []"
| "objects (Suc n) a obj = obj # objects n a (next_obj a obj)"

definition slab_allocator_grow :: "sa_ref \<Rightarrow> kmem \<Rightarrow> kfault + (bool \<times> kmem)" where
  "slab_allocator_grow r s =
     bnd (sa_get r s) (\<lambda>a.
     bnd (page_alloc_n (push_bit (sa_order a) 1) s) (\<lambda>(addr, s).
     case addr of
       None \<Rightarrow> Inr (False, s)
     | Some addr \<Rightarrow>
         bnd (sa_get r s) (\<lambda>a.
         let objs = objects (sa_slab_nobjs a) a addr;
             self = addr + sa_slab_nobjs a * (sa_objsize a + BUFCTL_SIZE) in
         check (objs \<noteq> [] \<and> self + SLAB_SIZE \<le> addr + 2 ^ sa_order a * PAGE_SIZE) Wild_access (
         Inr (True, upd_sa r (a\<lparr>sa_slabs := \<lparr>s_self = self, s_inuse = 0, s_free = objs, s_addr = addr\<rparr> # sa_slabs a\<rparr>)
           (s\<lparr>bufctls := (\<lambda>b. if b \<in> obj_bufctl a ` set objs then Some \<lparr>sb_slab = 0, sb_free = True\<rparr> else bufctls s b)\<rparr>))))))"

text \<open>The search for a slab with a free object, by its position.\<close>

definition find_slab :: "slab_allocator \<Rightarrow> nat option" where
  "find_slab a = (case find (\<lambda>i. s_inuse (sa_slabs a ! i) \<noteq> int (sa_slab_nobjs a)) [0..<length (sa_slabs a)] of
     None \<Rightarrow> None
   | Some i \<Rightarrow> if s_inuse (sa_slabs a ! i) < int (sa_slab_nobjs a) then Some i else None)"

text \<open>Taking the first object of the slab at a position.\<close>

definition take_object :: "sa_ref \<Rightarrow> slab_allocator \<Rightarrow> nat \<Rightarrow> kmem \<Rightarrow> kfault + (nat \<times> kmem)" where
  "take_object r a i s =
     (let sl = sa_slabs a ! i in
      case s_free sl of
        [] \<Rightarrow> Inl Wild_access
      | obj # rest \<Rightarrow>
          Inr (obj + REDZONE_SIZE,
            upd_sa r (a\<lparr>sa_slabs := (sa_slabs a)[i := sl\<lparr>s_free := rest, s_inuse := s_inuse sl + 1\<rparr>]\<rparr>)
              (s\<lparr>bufctls := (bufctls s)(obj_bufctl a obj \<mapsto> \<lparr>sb_slab = s_self sl, sb_free = False\<rparr>)\<rparr>)))"

text \<open>A new slab has a free object, so the loop searches at most twice.\<close>

definition slab_obj_alloc :: "sa_ref \<Rightarrow> kmem \<Rightarrow> kfault + (nat option \<times> kmem)" where
  "slab_obj_alloc r s =
     bnd (sa_get r s) (\<lambda>a.
     case find_slab a of
       Some i \<Rightarrow> bnd (take_object r a i s) (\<lambda>(obj, s). Inr (Some obj, s))
     | None \<Rightarrow>
         bnd (slab_allocator_grow r s) (\<lambda>(grown, s).
         if \<not> grown then Inr (None, s)
         else bnd (sa_get r s) (\<lambda>a.
           case find_slab a of
             None \<Rightarrow> Inl Loops_forever
           | Some i \<Rightarrow> bnd (take_object r a i s) (\<lambda>(obj, s). Inr (Some obj, s)))))"

definition slab_obj_free :: "sa_ref \<Rightarrow> nat \<Rightarrow> kmem \<Rightarrow> kfault + kmem" where
  "slab_obj_free r obj s =
     bnd (sa_get r s) (\<lambda>a.
     check (REDZONE_SIZE \<le> obj) Wild_access (
     let obj = obj - REDZONE_SIZE in
     deref (bufctls s (obj_bufctl a obj)) Wild_access (\<lambda>b.
     check (\<not> sb_free b) Kassert_failed (
     deref (find (\<lambda>i. s_self (sa_slabs a ! i) = sb_slab b) [0..<length (sa_slabs a)]) Wild_access (\<lambda>i.
     let sl = sa_slabs a ! i in
     Inr (upd_sa r (a\<lparr>sa_slabs := (sa_slabs a)[i := sl\<lparr>s_free := obj # s_free sl, s_inuse := s_inuse sl - 1\<rparr>]\<rparr>)
       (s\<lparr>bufctls := (bufctls s)(obj_bufctl a obj \<mapsto> b\<lparr>sb_free := True\<rparr>)\<rparr>)))))))"

definition slab_allocator_create :: "string option \<Rightarrow> 32 word \<Rightarrow> kmem \<Rightarrow> kfault + (sa_ref option \<times> kmem)" where
  "slab_allocator_create name sz s =
     bnd (slab_obj_alloc Slab_allocator_allocator s) (\<lambda>(obj, s).
     case obj of
       None \<Rightarrow> Inr (None, s)
     | Some obj \<Rightarrow> bnd (allocator_init (Sa obj) name sz s) (\<lambda>s. Inr (Some (Sa obj), s)))"

subsection \<open>kmalloc and kfree\<close>

definition kmalloc_allocator_names :: "string list" where
  "kmalloc_allocator_names =
     [''size-64'', ''size-128'', ''size-256'', ''size-512'', ''size-1024'', ''size-2048'', ''size-4096'', ''size-8192'',
      ''size-16384'', ''size-32768'', ''size-65536'', ''size-131072'', ''size-262144'']"

text \<open>\<open>size\<close> grows by the size of a pointer, and wraps.\<close>

definition kmalloc :: "32 word \<Rightarrow> kmem \<Rightarrow> kfault + (nat option \<times> kmem)" where
  "kmalloc sz s =
     (let sz = sz + 4 in
      deref (find (\<lambda>order. sz \<le> push_bit order 1) [KMALLOC_SIZE_MIN_ORDER..<KMALLOC_SIZE_MAX_ORDER + 1]) Kernel_panic (\<lambda>order.
      let i = order - KMALLOC_SIZE_MIN_ORDER in
      check (i < length (kmalloc_allocators s)) Null_deref (
      let cs = kmalloc_allocators s ! i in
      bnd (slab_obj_alloc cs s) (\<lambda>(addr, s).
      case addr of
        None \<Rightarrow> Inr (None, s)
      | Some addr \<Rightarrow> Inr (Some (addr + 4), s\<lparr>kmalloc_tag := (kmalloc_tag s)(addr \<mapsto> cs)\<rparr>)))))"

definition kfree :: "nat \<Rightarrow> kmem \<Rightarrow> kfault + kmem" where
  "kfree addr s =
     check (4 \<le> addr) Wild_access (
     let addr = addr - 4 in
     deref (kmalloc_tag s addr) Wild_access (\<lambda>sa. slab_obj_free sa addr s))"

text \<open>The loop of \<open>slab_init\<close> over the orders.\<close>

fun create_buckets :: "nat list \<Rightarrow> kmem \<Rightarrow> kfault + kmem" where
  "create_buckets [] s = Inr s"
| "create_buckets (order # orders) s =
     bnd (slab_allocator_create (Some (kmalloc_allocator_names ! (order - KMALLOC_SIZE_MIN_ORDER))) (push_bit order 1) s) (\<lambda>(c, s).
     case c of
       None \<Rightarrow> Inl Kernel_panic
     | Some c \<Rightarrow> create_buckets orders (s\<lparr>kmalloc_allocators := kmalloc_allocators s @ [c]\<rparr>))"

definition slab_init :: "kmem \<Rightarrow> kfault + kmem" where
  "slab_init s =
     bnd (allocator_init Slab_allocator_allocator (Some ''slab_allocators'') (word_of_nat SLAB_ALLOCATOR_SIZE) s)
       (create_buckets [KMALLOC_SIZE_MIN_ORDER..<KMALLOC_SIZE_MAX_ORDER + 1])"

definition kmem_boot :: "pages \<Rightarrow> kmem" where
  "kmem_boot p = \<lparr>km_pages = p, allocator = (\<lambda>_. None), slab_allocators = [], bufctls = (\<lambda>_. None),
     kmalloc_allocators = [], kmalloc_tag = (\<lambda>_. None)\<rparr>"

end
