(* ===== verification/Pginv.thy ===== *)
theory Pginv
  imports Pgbase
begin

text \<open>
  The invariant of a group of pages.  Blocks are pairs of a page number, counted from the start of the
  group, and an order.  The free and the allocated blocks tile the group; a bit of a map tells whether exactly
  one of the two buddies is free; and no two buddies are free, but for an exception that a
  running operation is about to repair.
\<close>

subsection \<open>Tilings\<close>

definition span :: "nat \<times> nat \<Rightarrow> nat set" where
  "span b = {fst b..<fst b + 2 ^ snd b}"

lemma span_simps: "span (p, k) = {p..<p + 2 ^ k}"
  by (simp add: span_def)

definition tiles :: "nat \<Rightarrow> (nat \<times> nat) set \<Rightarrow> bool" where
  "tiles N S \<longleftrightarrow> (\<forall>(p, k)\<in>S. 2 ^ k dvd p \<and> p + 2 ^ k \<le> N) \<and> (\<Union>b\<in>S. span b) = {..<N}
     \<and> (\<forall>b\<in>S. \<forall>c\<in>S. b \<noteq> c \<longrightarrow> span b \<inter> span c = {})"

lemma tilesD:
  assumes "tiles N S" and "(p, k) \<in> S"
  shows "2 ^ k dvd p" "p + 2 ^ k \<le> N" "p < N"
proof -
  show a: "2 ^ k dvd p" "p + 2 ^ k \<le> N" using assms by (auto simp: tiles_def)
  have "(0 :: nat) < 2 ^ k" by simp
  with a(2) show "p < N" by linarith
qed

lemma tiles_unique: "tiles N S \<Longrightarrow> b \<in> S \<Longrightarrow> c \<in> S \<Longrightarrow> x \<in> span b \<Longrightarrow> x \<in> span c \<Longrightarrow> b = c"
  unfolding tiles_def by blast

lemma span_start: "p \<in> span (p, k)"
  by (simp add: span_def)

lemma tiles_start: "tiles N S \<Longrightarrow> (p, j) \<in> S \<Longrightarrow> (p, k) \<in> S \<Longrightarrow> j = k"
  using tiles_unique [of N S "(p, j)" "(p, k)" p] by (simp add: span_start)

lemma span_split: "span (p, Suc k) = span (p, k) \<union> span (p + 2 ^ k, k)"
  by (auto simp: span_def)

lemma span_halves: "span (p, k) \<inter> span (p + 2 ^ k, k) = {}"
  by (auto simp: span_def)

lemma tiles_split_new:
  assumes "tiles N S" and "(p, Suc k) \<in> S"
  shows "(p, k) \<notin> S" "(p + 2 ^ k, k) \<notin> S"
proof -
  show "(p, k) \<notin> S" using tiles_start [OF assms, of k] by auto
  show "(p + 2 ^ k, k) \<notin> S"
  proof
    assume "(p + 2 ^ k, k) \<in> S"
    from tiles_unique [OF assms(1,2) this, of "p + 2 ^ k"] show False by (simp add: span_def)
  qed
qed

lemma tiles_split:
  assumes t: "tiles N S" and b: "(p, Suc k) \<in> S"
  shows "tiles N (S - {(p, Suc k)} \<union> {(p, k), (p + 2 ^ k, k)})"
proof -
  let ?S = "S - {(p, Suc k)}"
  have al: "2 ^ Suc k dvd p" "p + 2 ^ Suc k \<le> N" using tilesD [OF t b] by simp_all
  have "2 ^ k dvd p" using al(1) power_le_dvd [of 2 "Suc k" p k] by simp
  then have "2 ^ k dvd p + 2 ^ k" by (simp add: dvd_add)
  have out: "span c \<inter> span (p, k) = {}" "span c \<inter> span (p + 2 ^ k, k) = {}" if "c \<in> ?S" for c
  proof -
    have "span c \<inter> span (p, Suc k) = {}" using t b that unfolding tiles_def by blast
    then show "span c \<inter> span (p, k) = {}" "span c \<inter> span (p + 2 ^ k, k) = {}" by (auto simp: span_split)
  qed
  have "(\<Union>c\<in>?S \<union> {(p, k), (p + 2 ^ k, k)}. span c) = (\<Union>c\<in>?S. span c) \<union> span (p, Suc k)"
    by (auto simp: span_split)
  also have "\<dots> = (\<Union>c\<in>S. span c)" using b by auto
  finally have cover: "(\<Union>c\<in>?S \<union> {(p, k), (p + 2 ^ k, k)}. span c) = {..<N}" using t by (simp add: tiles_def)
  have "\<forall>(q, j)\<in>?S \<union> {(p, k), (p + 2 ^ k, k)}. 2 ^ j dvd q \<and> q + 2 ^ j \<le> N"
    using t al \<open>2 ^ k dvd p\<close> \<open>2 ^ k dvd p + 2 ^ k\<close> by (auto simp: tiles_def)
  moreover have "\<forall>c\<in>?S \<union> {(p, k), (p + 2 ^ k, k)}. \<forall>d\<in>?S \<union> {(p, k), (p + 2 ^ k, k)}. c \<noteq> d \<longrightarrow> span c \<inter> span d = {}"
  proof (intro ballI impI)
    fix c d assume cd: "c \<in> ?S \<union> {(p, k), (p + 2 ^ k, k)}" "d \<in> ?S \<union> {(p, k), (p + 2 ^ k, k)}" "c \<noteq> d"
    show "span c \<inter> span d = {}"
    proof (cases "c \<in> ?S \<and> d \<in> ?S")
      case True
      then show ?thesis using t cd(3) unfolding tiles_def by blast
    next
      case False
      then show ?thesis using cd out [of c] out [of d] span_halves [of p k] by (auto simp: Int_commute)
    qed
  qed
  ultimately show ?thesis using cover unfolding tiles_def by blast
qed

lemma tiles_join:
  assumes t: "tiles N S" and b: "(p, k) \<in> S" "(p + 2 ^ k, k) \<in> S" and al: "2 ^ Suc k dvd p"
  shows "tiles N (S - {(p, k), (p + 2 ^ k, k)} \<union> {(p, Suc k)})"
proof -
  let ?S = "S - {(p, k), (p + 2 ^ k, k)}"
  have e: "p + 2 ^ Suc k \<le> N" using tilesD [OF t b(2)] by simp
  have out: "span c \<inter> span (p, Suc k) = {}" if "c \<in> ?S" for c
  proof -
    have "span c \<inter> span (p, k) = {}" "span c \<inter> span (p + 2 ^ k, k) = {}" using t b that unfolding tiles_def by blast+
    then show ?thesis by (auto simp: span_split)
  qed
  have "(\<Union>c\<in>?S \<union> {(p, Suc k)}. span c) = (\<Union>c\<in>?S. span c) \<union> span (p, k) \<union> span (p + 2 ^ k, k)"
    by (auto simp: span_split)
  also have "\<dots> = (\<Union>c\<in>S. span c)" using b by auto
  finally have cover: "(\<Union>c\<in>?S \<union> {(p, Suc k)}. span c) = {..<N}" using t by (simp add: tiles_def)
  have "\<forall>(q, j)\<in>?S \<union> {(p, Suc k)}. 2 ^ j dvd q \<and> q + 2 ^ j \<le> N"
    using t al e by (auto simp: tiles_def)
  moreover have "\<forall>c\<in>?S \<union> {(p, Suc k)}. \<forall>d\<in>?S \<union> {(p, Suc k)}. c \<noteq> d \<longrightarrow> span c \<inter> span d = {}"
  proof (intro ballI impI)
    fix c d assume cd: "c \<in> ?S \<union> {(p, Suc k)}" "d \<in> ?S \<union> {(p, Suc k)}" "c \<noteq> d"
    show "span c \<inter> span d = {}"
    proof (cases "c \<in> ?S \<and> d \<in> ?S")
      case True
      then show ?thesis using t cd(3) unfolding tiles_def by blast
    next
      case False
      then show ?thesis using cd out [of c] out [of d] by (auto simp: Int_commute)
    qed
  qed
  ultimately show ?thesis using cover unfolding tiles_def by blast
qed

subsection \<open>Buddies\<close>

definition buddy :: "nat \<Rightarrow> nat \<Rightarrow> nat" where
  "buddy k p = (if odd (p div 2 ^ k) then p - 2 ^ k else p + 2 ^ k)"

lemma buddy_cases:
  assumes "2 ^ k dvd p"
  obtains (low) n where "p = 2 * n * 2 ^ k" "buddy k p = (2 * n + 1) * 2 ^ k" "p div 2 ^ Suc k = n"
    | (high) n where "p = (2 * n + 1) * 2 ^ k" "buddy k p = 2 * n * 2 ^ k" "p div 2 ^ Suc k = n"
proof -
  obtain m where m: "p = m * 2 ^ k" using assms by (metis dvdE mult.commute)
  have "p div 2 ^ Suc k = p div 2 ^ k div 2" by (metis div_mult2_eq mult.commute power_Suc)
  then have d: "p div 2 ^ Suc k = m div 2" by (simp add: m)
  show ?thesis
  proof (cases "even m")
    case True
    then obtain n where "m = 2 * n" by blast
    then show ?thesis using m d by (intro low [of n]) (auto simp: buddy_def algebra_simps)
  next
    case False
    then obtain n where "m = 2 * n + 1" using oddE by blast
    then show ?thesis using m d by (intro high [of n]) (auto simp: buddy_def algebra_simps)
  qed
qed

lemma halves:
  fixes n m :: nat
  shows "(2 * n * 2 ^ j, j) = (2 * m * 2 ^ k, k) \<longleftrightarrow> j = k \<and> n = m"
    and "((2 * n + 1) * 2 ^ j, j) = ((2 * m + 1) * 2 ^ k, k) \<longleftrightarrow> j = k \<and> n = m"
    and "(2 * n * 2 ^ j, j) \<noteq> ((2 * m + 1) * 2 ^ k, k)" and "((2 * n + 1) * 2 ^ j, j) \<noteq> (2 * m * 2 ^ k, k)"
proof -
  have odd: "2 * n \<noteq> 2 * m + 1" "2 * n + 1 \<noteq> 2 * m" by presburger+
  have cancel: "a * 2 ^ k = b * 2 ^ k \<longleftrightarrow> a = b" for a b :: nat by simp
  show "(2 * n * 2 ^ j, j) = (2 * m * 2 ^ k, k) \<longleftrightarrow> j = k \<and> n = m"
    "((2 * n + 1) * 2 ^ j, j) = ((2 * m + 1) * 2 ^ k, k) \<longleftrightarrow> j = k \<and> n = m"
    "(2 * n * 2 ^ j, j) \<noteq> ((2 * m + 1) * 2 ^ k, k)" "((2 * n + 1) * 2 ^ j, j) \<noteq> (2 * m * 2 ^ k, k)"
    using odd cancel by (cases "j = k"; simp only: prod.inject simp_thms mult_left_cancel; auto)+
qed

lemma buddy_buddy: "2 ^ k dvd p \<Longrightarrow> buddy k (buddy k p) = p"
  by (erule buddy_cases [of k p]) (simp_all add: buddy_def algebra_simps)

lemma buddy_neq: "buddy k p \<noteq> p"
  by (simp add: buddy_def) (metis diff_less dvd_0_right gr0I less_irrefl odd_pos zero_less_numeral zero_less_power div_0 even_zero)

subsection \<open>Bits\<close>

definition npages :: "pagegroup \<Rightarrow> nat" where
  "npages g = (pg_endaddr g - pg_baseaddr g) div PAGE_SIZE"

definition page_addr :: "pagegroup \<Rightarrow> nat \<Rightarrow> nat" where
  "page_addr g p = pg_baseaddr g + p * PAGE_SIZE"

definition pair_bit :: "pagegroup \<Rightarrow> nat \<Rightarrow> nat \<Rightarrow> bool" where
  "pair_bit g k n \<longleftrightarrow> bit (pg_map g k (n div 32)) (n mod 32)"

definition range_ok :: "pagegroup \<Rightarrow> bool" where
  "range_ok g \<longleftrightarrow> PAGE_SIZE dvd pg_baseaddr g \<and> pg_endaddr g = pg_baseaddr g + npages g * PAGE_SIZE
     \<and> 2 ^ (PAGE_NSIZES - 1) dvd npages g"

lemma PAGE_SIZE_power: "PAGE_SIZE = 2 ^ PAGE_SHIFT"
  by (simp add: PAGE_SIZE_def PAGE_SHIFT_def)

lemma PAGE_SIZE_pos [simp]: "0 < PAGE_SIZE"
  by (simp add: PAGE_SIZE_def)

lemma page_addr_inj [simp]: "page_addr g p = page_addr g q \<longleftrightarrow> p = q"
  by (simp add: page_addr_def PAGE_SIZE_def)

lemma calculate_index_run:
  assumes "range_ok g" and "p < npages g" and "k < PAGE_NSIZES"
  shows "calculate_index k (page_addr g p) g = Inr (p div 2 ^ k)"
proof -
  have "(2 :: nat) ^ k dvd 2 ^ PAGE_SHIFT"
    using assms(3) by (intro le_imp_power_dvd) (simp add: PAGE_NSIZES_def PAGE_SHIFT_def)
  then have "p * PAGE_SIZE mod 2 ^ k = 0" by (simp add: PAGE_SIZE_power)
  moreover have "p * PAGE_SIZE div 2 ^ k div 2 ^ PAGE_SHIFT = p div 2 ^ k"
    by (simp add: PAGE_SIZE_power div_mult2_eq [symmetric] mult.commute)
  moreover have "p * PAGE_SIZE < npages g * PAGE_SIZE" using assms(2) by simp
  moreover have "pg_baseaddr g mod PAGE_SIZE = 0" using assms(1) by (simp add: range_ok_def)
  ultimately show ?thesis
    using assms(1,3) by (simp add: calculate_index_def page_addr_def Let_def range_ok_def)
qed

lemma push_bit_one: "m < 32 \<Longrightarrow> j < 32 \<Longrightarrow> bit (push_bit m 1 :: 32 word) j \<longleftrightarrow> j = m"
  by (auto simp: bit_simps)

lemma bit_check_run: "n < pg_bits g k \<Longrightarrow> bit_check k n g = Inr (pair_bit g k n)"
proof -
  assume n: "n < pg_bits g k"
  let ?w = "pg_map g k (n div 32)" and ?m = "n mod 32"
  have m: "?m < 32" by simp
  have "(?w AND push_bit ?m 1 \<noteq> 0) = bit ?w ?m"
  proof
    assume "?w AND push_bit ?m 1 \<noteq> 0"
    then obtain j where "bit (?w AND push_bit ?m 1) j" by (auto simp: bit_eq_iff)
    moreover from this have "j < 32" using bit_imp_le_length by force
    ultimately show "bit ?w ?m" using push_bit_one [OF m] by (auto simp: bit_and_iff)
  next
    assume "bit ?w ?m"
    then have "bit (?w AND push_bit ?m 1) ?m" using push_bit_one [OF m m] by (simp add: bit_and_iff)
    then show "?w AND push_bit ?m 1 \<noteq> 0" by auto
  qed
  then show ?thesis using n by (simp add: bit_check_def pair_bit_def)
qed

lemma bit_flip_run:
  assumes "n < pg_bits g k"
  shows "\<exists>m. bit_flip k n g = Inr (g\<lparr>pg_map := m\<rparr>)
    \<and> (\<forall>j i. pair_bit (g\<lparr>pg_map := m\<rparr>) j i = (pair_bit g j i \<noteq> (j = k \<and> i = n)))"
proof -
  let ?f = "pg_map g k"
  let ?m = "(pg_map g)(k := ?f(n div 32 := ?f (n div 32) XOR push_bit (n mod 32) 1))"
  have "pair_bit (g\<lparr>pg_map := ?m\<rparr>) j i = (pair_bit g j i \<noteq> (j = k \<and> i = n))" for j i
  proof (cases "j = k \<and> i div 32 = n div 32")
    case True
    have "i = n \<longleftrightarrow> i mod 32 = n mod 32" using True by (metis div_mult_mod_eq)
    then show ?thesis using True push_bit_one [of "n mod 32" "i mod 32"] by (simp add: pair_bit_def bit_xor_iff)
  next
    case False
    then show ?thesis by (auto simp: pair_bit_def)
  qed
  moreover have "bit_flip k n g = Inr (g\<lparr>pg_map := ?m\<rparr>)" using assms by (simp add: bit_flip_def Let_def)
  ultimately show ?thesis by blast
qed

text \<open>The bits of a group agree with the set of its free blocks.\<close>

definition bits_ok :: "pagegroup \<Rightarrow> (nat \<times> nat) set \<Rightarrow> bool" where
  "bits_ok g F \<longleftrightarrow> (\<forall>k n. Suc k < PAGE_NSIZES \<longrightarrow> (n + 1) * 2 ^ Suc k \<le> npages g \<longrightarrow>
     n < pg_bits g (Suc k) \<and> pair_bit g (Suc k) n = (((2 * n * 2 ^ k, k) \<in> F) \<noteq> (((2 * n + 1) * 2 ^ k, k) \<in> F)))"

lemma pair_complete:
  assumes "range_ok g" and "2 ^ k dvd p" and "p + 2 ^ k \<le> npages g" and "Suc k < PAGE_NSIZES"
  shows "(p div 2 ^ Suc k + 1) * 2 ^ Suc k \<le> npages g"
proof -
  have "(2 :: nat) ^ Suc k dvd 2 ^ (PAGE_NSIZES - 1)" using assms(4) by (intro le_imp_power_dvd) simp
  then have "2 ^ Suc k dvd npages g" using assms(1) by (auto simp: range_ok_def dest: dvd_trans)
  then obtain m where m: "npages g = m * 2 ^ Suc k" by (metis dvdE mult.commute)
  have "(0 :: nat) < 2 ^ k" by simp
  then have "p < m * 2 ^ Suc k" using assms(3) m by linarith
  then have "p div 2 ^ Suc k < m" by (rule less_mult_imp_div_less)
  then have "(p div 2 ^ Suc k + 1) * 2 ^ Suc k \<le> m * 2 ^ Suc k" by (intro mult_right_mono) simp_all
  then show ?thesis using m by simp
qed

lemma bits_buddy:
  assumes "range_ok g" and "bits_ok g F" and "2 ^ k dvd p" and "p + 2 ^ k \<le> npages g" and "Suc k < PAGE_NSIZES"
  shows "p div 2 ^ Suc k < pg_bits g (Suc k)"
    and "pair_bit g (Suc k) (p div 2 ^ Suc k) = (((p, k) \<in> F) \<noteq> ((buddy k p, k) \<in> F))"
proof -
  let ?n = "p div 2 ^ Suc k"
  have "(?n + 1) * 2 ^ Suc k \<le> npages g" by (rule pair_complete [OF assms(1,3,4,5)])
  then have b: "?n < pg_bits g (Suc k)"
    "pair_bit g (Suc k) ?n = (((2 * ?n * 2 ^ k, k) \<in> F) \<noteq> (((2 * ?n + 1) * 2 ^ k, k) \<in> F))"
    using assms(2,5) unfolding bits_ok_def by blast+
  show "?n < pg_bits g (Suc k)" by (rule b)
  show "pair_bit g (Suc k) ?n = (((p, k) \<in> F) \<noteq> ((buddy k p, k) \<in> F))"
    by (rule buddy_cases [OF assms(3)]) (use b(2) in auto)
qed

lemma bits_ok_toggle:
  assumes ok: "bits_ok g F" and p: "2 ^ k dvd p" and bits: "\<forall>j i. pair_bit g' j i = (pair_bit g j i \<noteq> (j = Suc k \<and> i = p div 2 ^ Suc k))"
    and same: "npages g' = npages g" "pg_bits g' = pg_bits g"
    and F: "\<forall>b. b \<in> F' \<longleftrightarrow> (b \<in> F) \<noteq> (b = (p, k))"
  shows "bits_ok g' F'"
  unfolding bits_ok_def
proof (intro allI impI)
  fix j n assume j: "Suc j < PAGE_NSIZES" and n: "(n + 1) * 2 ^ Suc j \<le> npages g'"
  then have o: "n < pg_bits g (Suc j)"
    "pair_bit g (Suc j) n = (((2 * n * 2 ^ j, j) \<in> F) \<noteq> (((2 * n + 1) * 2 ^ j, j) \<in> F))"
    using ok same unfolding bits_ok_def by auto
  have "((2 * n * 2 ^ j, j) = (p, k) \<or> ((2 * n + 1) * 2 ^ j, j) = (p, k) \<longleftrightarrow> j = k \<and> n = p div 2 ^ Suc k)
    \<and> \<not> ((2 * n * 2 ^ j, j) = (p, k) \<and> ((2 * n + 1) * 2 ^ j, j) = (p, k))"
  proof (rule buddy_cases [OF p])
    fix m assume m: "p = 2 * m * 2 ^ k" "p div 2 ^ Suc k = m"
    show ?thesis unfolding m(2) unfolding m(1) by (simp only: halves simp_thms)
  next
    fix m assume m: "p = (2 * m + 1) * 2 ^ k" "p div 2 ^ Suc k = m"
    show ?thesis unfolding m(2) unfolding m(1) by (simp only: halves simp_thms)
  qed
  moreover have "pair_bit g' (Suc j) n \<longleftrightarrow> pair_bit g (Suc j) n \<noteq> (j = k \<and> n = p div 2 ^ Suc k)" using bits by simp
  moreover have "(2 * n * 2 ^ j, j) \<in> F' \<longleftrightarrow> ((2 * n * 2 ^ j, j) \<in> F) \<noteq> ((2 * n * 2 ^ j, j) = (p, k))"
    "((2 * n + 1) * 2 ^ j, j) \<in> F' \<longleftrightarrow> (((2 * n + 1) * 2 ^ j, j) \<in> F) \<noteq> (((2 * n + 1) * 2 ^ j, j) = (p, k))"
    using F by blast+
  moreover have "n < pg_bits g' (Suc j)" using o(1) same by simp
  ultimately show "n < pg_bits g' (Suc j) \<and> pair_bit g' (Suc j) n = (((2 * n * 2 ^ j, j) \<in> F') \<noteq> (((2 * n + 1) * 2 ^ j, j) \<in> F'))"
    using o(2) by argo
qed

text \<open>Two buddies that become free, or stop being free, together leave the bits alone.\<close>

lemma bits_ok_pair:
  assumes ok: "bits_ok g F" and p: "2 ^ Suc k dvd p"
    and F: "\<forall>b. b \<in> F' \<longleftrightarrow> (b \<in> F) \<noteq> (b = (p, k) \<or> b = (p + 2 ^ k, k))"
  shows "bits_ok g F'"
  unfolding bits_ok_def
proof (intro allI impI)
  fix j n assume j: "Suc j < PAGE_NSIZES" and n: "(n + 1) * 2 ^ Suc j \<le> npages g"
  then have o: "n < pg_bits g (Suc j)"
    "pair_bit g (Suc j) n = (((2 * n * 2 ^ j, j) \<in> F) \<noteq> (((2 * n + 1) * 2 ^ j, j) \<in> F))"
    using ok unfolding bits_ok_def by auto
  obtain m where m: "p = m * 2 ^ Suc k" using p by (metis dvdE mult.commute)
  have p: "p = 2 * m * 2 ^ k" "p + 2 ^ k = (2 * m + 1) * 2 ^ k" using m by (simp_all add: algebra_simps)
  have "(2 * n * 2 ^ j, j) = (p, k) \<or> (2 * n * 2 ^ j, j) = (p + 2 ^ k, k) \<longleftrightarrow> j = k \<and> n = m"
    and "((2 * n + 1) * 2 ^ j, j) = (p, k) \<or> ((2 * n + 1) * 2 ^ j, j) = (p + 2 ^ k, k) \<longleftrightarrow> j = k \<and> n = m"
    unfolding p(2) unfolding p(1) by (simp_all only: halves simp_thms)
  moreover have "(2 * n * 2 ^ j, j) \<in> F' \<longleftrightarrow> ((2 * n * 2 ^ j, j) \<in> F) \<noteq> ((2 * n * 2 ^ j, j) = (p, k) \<or> (2 * n * 2 ^ j, j) = (p + 2 ^ k, k))"
    "((2 * n + 1) * 2 ^ j, j) \<in> F' \<longleftrightarrow> (((2 * n + 1) * 2 ^ j, j) \<in> F) \<noteq> (((2 * n + 1) * 2 ^ j, j) = (p, k) \<or> ((2 * n + 1) * 2 ^ j, j) = (p + 2 ^ k, k))"
    using F by blast+
  ultimately show "n < pg_bits g (Suc j) \<and> pair_bit g (Suc j) n = (((2 * n * 2 ^ j, j) \<in> F') \<noteq> (((2 * n + 1) * 2 ^ j, j) \<in> F'))"
    using o by argo
qed

end
