(* ===== verification/Pgops.thy ===== *)
theory Pgops
  imports Pginv
begin

text \<open>
  What the operations on a group do to its free and allocated blocks.  \<open>L k\<close> lists the page numbers of the
  free blocks of order \<open>k\<close>, \<open>A\<close> is the set of the allocated blocks.
\<close>

lemma group_simps [simp]:
  "npages (set_freelist k xs g) = npages g" "npages (g\<lparr>pg_map := m\<rparr>) = npages g"
  "page_addr (set_freelist k xs g) = page_addr g" "page_addr (g\<lparr>pg_map := m\<rparr>) = page_addr g"
  "range_ok (set_freelist k xs g) = range_ok g" "range_ok (g\<lparr>pg_map := m\<rparr>) = range_ok g"
  "pair_bit (set_freelist k xs g) = pair_bit g" "bits_ok (set_freelist k xs g) = bits_ok g"
  "pg_freelist (set_freelist k xs g) = (pg_freelist g)(k := xs)"
  "pg_map (set_freelist k xs g) = pg_map g" "pg_bits (set_freelist k xs g) = pg_bits g"
  "pg_baseaddr (set_freelist k xs g) = pg_baseaddr g" "pg_endaddr (set_freelist k xs g) = pg_endaddr g"
  by (simp_all add: set_freelist_def npages_def page_addr_def range_ok_def pair_bit_def bits_ok_def fun_eq_iff)

lemma push_free_simps [simp]:
  "npages (push_free k a g) = npages g" "page_addr (push_free k a g) = page_addr g" "range_ok (push_free k a g) = range_ok g"
  "bits_ok (push_free k a g) = bits_ok g" "pg_freelist (push_free k a g) = (pg_freelist g)(k := a # pg_freelist g k)"
  "pg_baseaddr (push_free k a g) = pg_baseaddr g" "pg_endaddr (push_free k a g) = pg_endaddr g"
  by (simp_all add: push_free_def)

definition same_range :: "pagegroup \<Rightarrow> pagegroup \<Rightarrow> bool" where
  "same_range g g' \<longleftrightarrow> pg_baseaddr g' = pg_baseaddr g \<and> pg_endaddr g' = pg_endaddr g"

lemma same_range_refl [simp]: "same_range g g"
  by (simp add: same_range_def)

lemma same_range_trans: "same_range g h \<Longrightarrow> same_range h i \<Longrightarrow> same_range g i"
  by (simp add: same_range_def)

lemma same_rangeD: "same_range g g' \<Longrightarrow> npages g' = npages g" "same_range g g' \<Longrightarrow> page_addr g' = page_addr g"
  by (simp_all add: same_range_def npages_def page_addr_def fun_eq_iff)

subsection \<open>Bits at an address\<close>

lemma mark_run:
  assumes r: "range_ok g" and b: "bits_ok g F" and p: "2 ^ k dvd p" "p + 2 ^ k \<le> npages g" and k: "k < PAGE_NSIZES"
    and F: "\<forall>b. b \<in> F' \<longleftrightarrow> (b \<in> F) \<noteq> (b = (p, k))"
  shows "\<exists>m. mark k (page_addr g p) g = Inr (g\<lparr>pg_map := m\<rparr>) \<and> bits_ok (g\<lparr>pg_map := m\<rparr>) F'"
proof (cases "Suc k < PAGE_NSIZES")
  case True
  have "(0 :: nat) < 2 ^ k" by simp
  then have "p < npages g" using p(2) by linarith
  from calculate_index_run [OF r this True]
  have i: "calculate_index (Suc k) (page_addr g p) g = Inr (p div 2 ^ Suc k)" .
  from bit_flip_run [OF bits_buddy(1) [OF r b p True]] obtain m where m: "bit_flip (Suc k) (p div 2 ^ Suc k) g = Inr (g\<lparr>pg_map := m\<rparr>)"
    and pb: "\<forall>j i. pair_bit (g\<lparr>pg_map := m\<rparr>) j i = (pair_bit g j i \<noteq> (j = Suc k \<and> i = p div 2 ^ Suc k))" by blast
  have "bits_ok (g\<lparr>pg_map := m\<rparr>) F'" by (rule bits_ok_toggle [OF b p(1) pb _ _ F]) simp_all
  then show ?thesis using i m True by (intro exI [of _ m]) (simp add: mark_def flip_at_def)
next
  case False
  have "bits_ok g F'" unfolding bits_ok_def
  proof (intro allI impI)
    fix j n assume j: "Suc j < PAGE_NSIZES" "(n + 1) * 2 ^ Suc j \<le> npages g"
    then have "j \<noteq> k" using False by auto
    then have "(x, j) \<in> F' \<longleftrightarrow> (x, j) \<in> F" for x using F by auto
    then show "n < pg_bits g (Suc j) \<and> pair_bit g (Suc j) n = (((2 * n * 2 ^ j, j) \<in> F') \<noteq> (((2 * n + 1) * 2 ^ j, j) \<in> F'))"
      using b j unfolding bits_ok_def by auto
  qed
  moreover have "\<not> k < PAGE_NSIZES - 1" using False by linarith
  ultimately show ?thesis by (intro exI [of _ "pg_map g"]) (simp add: mark_def)
qed

lemma check_at_run:
  assumes r: "range_ok g" and b: "bits_ok g F" and p: "2 ^ k dvd p" "p + 2 ^ k \<le> npages g" and k: "Suc k < PAGE_NSIZES"
  shows "check_at (Suc k) (page_addr g p) g = Inr (((p, k) \<in> F) \<noteq> ((buddy k p, k) \<in> F))"
proof -
  have "(0 :: nat) < 2 ^ k" by simp
  then have "p < npages g" using p(2) by linarith
  from calculate_index_run [OF r this k] bit_check_run [OF bits_buddy(1) [OF r b p k]] bits_buddy(2) [OF r b p k]
  show ?thesis by (simp add: check_at_def)
qed

subsection \<open>The representation\<close>

definition free_blocks :: "(nat \<Rightarrow> nat list) \<Rightarrow> (nat \<times> nat) set" where
  "free_blocks L = {(p, k). k < PAGE_NSIZES \<and> p \<in> set (L k)}"

text \<open>No two buddies are free, but for the exception \<open>X\<close>.\<close>

definition lone :: "(nat \<times> nat) set \<Rightarrow> (nat \<times> nat) set \<Rightarrow> bool" where
  "lone F X \<longleftrightarrow> (\<forall>k p. Suc k < PAGE_NSIZES \<longrightarrow> (p, k) \<in> F \<longrightarrow> (buddy k p, k) \<in> F \<longrightarrow> (p, k) \<in> X \<or> (buddy k p, k) \<in> X)"

definition grp :: "pagegroup \<Rightarrow> (nat \<Rightarrow> nat list) \<Rightarrow> (nat \<times> nat) set \<Rightarrow> (nat \<times> nat) set \<Rightarrow> bool" where
  "grp g L A X \<longleftrightarrow> range_ok g
     \<and> (\<forall>k<PAGE_NSIZES. pg_freelist g k = map (page_addr g) (L k) \<and> distinct (L k))
     \<and> (\<forall>(p, k)\<in>A. k < PAGE_NSIZES) \<and> free_blocks L \<inter> A = {} \<and> tiles (npages g) (free_blocks L \<union> A)
     \<and> bits_ok g (free_blocks L) \<and> lone (free_blocks L) X"

lemma free_blocks_iff: "(p, k) \<in> free_blocks L \<longleftrightarrow> k < PAGE_NSIZES \<and> p \<in> set (L k)"
  by (simp add: free_blocks_def)

lemma lone_mono: "lone F X \<Longrightarrow> X \<inter> F \<subseteq> Y \<Longrightarrow> lone F Y"
  unfolding lone_def by blast

lemma lone_sub: "lone F X \<Longrightarrow> F' \<subseteq> F \<Longrightarrow> X \<inter> F' \<subseteq> Y \<Longrightarrow> lone F' Y"
  unfolding lone_def by blast

lemma grpD:
  assumes "grp g L A X"
  shows "range_ok g" "free_blocks L \<inter> A = {}" "tiles (npages g) (free_blocks L \<union> A)" "bits_ok g (free_blocks L)"
    "lone (free_blocks L) X" "\<And>k. k < PAGE_NSIZES \<Longrightarrow> pg_freelist g k = map (page_addr g) (L k)"
    "\<And>k. k < PAGE_NSIZES \<Longrightarrow> distinct (L k)" "\<And>p k. (p, k) \<in> A \<Longrightarrow> k < PAGE_NSIZES"
  using assms by (auto simp: grp_def)

subsection \<open>Taking the first block of a list\<close>

lemma pop_run:
  assumes g: "grp g L A X" and k: "k < PAGE_NSIZES" and L: "L k = t # rest" and X: "X \<subseteq> {(t, k)}"
  shows "\<exists>g'. pop_block k g = Inr g' \<and> grp g' (L(k := rest)) (insert (t, k) A) {} \<and> same_range g g'
    \<and> pg_freelist g' = (pg_freelist g)(k := tl (pg_freelist g k))"
proof -
  note d = grpD [OF g]
  let ?F = "free_blocks (L(k := rest))"
  have nt: "t \<notin> set rest" using d(7) [OF k] L by simp
  have F: "\<forall>b. b \<in> ?F \<longleftrightarrow> (b \<in> free_blocks L) \<noteq> (b = (t, k))"
    using nt L k by (auto simp: free_blocks_def)
  have tF: "(t, k) \<in> free_blocks L" using L k by (simp add: free_blocks_iff)
  have eq: "?F = free_blocks L - {(t, k)}" using F tF by blast
  from tF have "(t, k) \<in> free_blocks L \<union> A" by blast
  from tilesD [OF d(3) this] have p: "2 ^ k dvd t" "t + 2 ^ k \<le> npages g" by simp_all
  let ?h = "set_freelist k (map (page_addr g) rest) g"
  have "range_ok ?h" "bits_ok ?h (free_blocks L)" "t + 2 ^ k \<le> npages ?h" using d p by simp_all
  from mark_run [OF this(1,2) p(1) this(3) k F] obtain m where
    m: "mark k (page_addr g t) ?h = Inr (?h\<lparr>pg_map := m\<rparr>)" "bits_ok (?h\<lparr>pg_map := m\<rparr>) ?F" by auto
  let ?g = "?h\<lparr>pg_map := m\<rparr>"
  have fl: "pg_freelist g k = page_addr g t # map (page_addr g) rest" using d(6) [OF k] L by simp
  have run: "pop_block k g = Inr ?g" using fl m(1) by (simp add: pop_block_def)
  have "?F \<union> insert (t, k) A = free_blocks L \<union> A" using eq tF by blast
  moreover have "lone ?F {}" by (rule lone_sub [OF d(5)]) (use eq X in auto)
  moreover have "\<forall>j<PAGE_NSIZES. pg_freelist ?g j = map (page_addr ?g) ((L(k := rest)) j) \<and> distinct ((L(k := rest)) j)"
    using d(6,7) d(7) [OF k] L by simp
  ultimately have "grp ?g (L(k := rest)) (insert (t, k) A) {}"
    using d(1-3) d(8) k m(2) eq unfolding grp_def by auto
  then show ?thesis using run fl by (intro exI [of _ ?g]) (simp add: same_range_def)
qed

subsection \<open>Splitting\<close>

lemma halves_buddy:
  assumes "2 ^ Suc k dvd t"
  shows "buddy k t = t + 2 ^ k" "buddy k (t + 2 ^ k) = t"
proof -
  obtain m where "t = m * 2 ^ Suc k" using assms by (metis dvdE mult.commute)
  then have t: "t = 2 * m * 2 ^ k" "t + 2 ^ k = (2 * m + 1) * 2 ^ k" by (simp_all add: algebra_simps)
  have "t div 2 ^ k = 2 * m" "(t + 2 ^ k) div 2 ^ k = 2 * m + 1" unfolding t(2) unfolding t(1) by simp_all
  then show "buddy k t = t + 2 ^ k" "buddy k (t + 2 ^ k) = t" by (simp_all add: buddy_def)
qed

lemma split_run:
  assumes g: "grp g L A X" and k: "Suc k < PAGE_NSIZES" and L: "L (Suc k) = t # rest" and X: "X \<subseteq> {(t, Suc k)}"
  shows "\<exists>g'. split_block (Suc k) g = Inr g' \<and> grp g' (L(Suc k := rest, k := (t + 2 ^ k) # t # L k)) A {(t + 2 ^ k, k)}
    \<and> same_range g g'"
proof -
  note d = grpD [OF g]
  have tF: "(t, Suc k) \<in> free_blocks L" using L k by (simp add: free_blocks_iff)
  then have tA: "(t, Suc k) \<notin> A" using d(2) by blast
  from pop_run [OF g k L X] obtain h where h: "pop_block (Suc k) g = Inr h"
    and gh: "grp h (L(Suc k := rest)) (insert (t, Suc k) A) {}" and sr: "same_range g h" by blast
  note e = grpD [OF gh]
  note same = same_rangeD [OF sr]
  let ?L = "L(Suc k := rest)" and ?u = "t + 2 ^ k"
  let ?S = "free_blocks ?L \<union> insert (t, Suc k) A"
  have tS: "(t, Suc k) \<in> ?S" by blast
  note al = tilesD [OF e(3) tS]
  have new: "(t, k) \<notin> ?S" "(?u, k) \<notin> ?S" by (rule tiles_split_new [OF e(3) tS])+
  have bu: "buddy k t = ?u" "buddy k ?u = t" by (rule halves_buddy [OF al(1)])+
  have "2 ^ k dvd t" using al(1) power_le_dvd [of 2 "Suc k" t k] by simp
  moreover have "t + 2 ^ k \<le> npages h" using al(2) by simp
  ultimately have "check_at (Suc k) (page_addr h t) h = Inr (((t, k) \<in> free_blocks ?L) \<noteq> ((buddy k t, k) \<in> free_blocks ?L))"
    by (rule check_at_run [OF e(1,4) _ _ k])
  then have chk: "check_at (Suc k) (page_addr h t) h = Inr False" using new bu by simp
  let ?g = "push_free k (page_addr h ?u) (push_free k (page_addr h t) h)"
  let ?M = "L(Suc k := rest, k := ?u # t # L k)"
  have "page_addr g t + 2 ^ k * PAGE_SIZE = page_addr h ?u" using same by (simp add: page_addr_def algebra_simps)
  then have run: "split_block (Suc k) g = Inr ?g"
    using h chk k same d(6) [OF k] L by (simp add: split_block_def Let_def)
  have FM: "free_blocks ?M = free_blocks ?L \<union> {(t, k), (?u, k)}" using k by (auto simp: free_blocks_def)
  have "free_blocks ?M \<union> A = ?S - {(t, Suc k)} \<union> {(t, k), (?u, k)}"
    using tA FM e(2) by auto
  then have "tiles (npages ?g) (free_blocks ?M \<union> A)" using tiles_split [OF e(3) tS] same by simp
  moreover have "free_blocks ?M \<inter> A = {}" using FM new e(2) by auto
  moreover have "bits_ok ?g (free_blocks ?M)"
    using bits_ok_pair [OF e(4) al(1), of "free_blocks ?M"] FM new by auto
  moreover have "lone (free_blocks ?M) {(?u, k)}"
    unfolding lone_def
  proof (intro allI impI)
    fix j p assume j: "Suc j < PAGE_NSIZES" and p: "(p, j) \<in> free_blocks ?M" "(buddy j p, j) \<in> free_blocks ?M"
    show "(p, j) \<in> {(?u, k)} \<or> (buddy j p, j) \<in> {(?u, k)}"
    proof (cases "(p, j) \<in> free_blocks ?L")
      case True
      then have "(buddy j p, j) \<notin> free_blocks ?L" using e(5) j unfolding lone_def by blast
      then have b: "(buddy j p, j) \<in> {(t, k), (?u, k)}" using p(2) FM by blast
      show ?thesis
      proof (cases "(buddy j p, j) = (t, k)")
        case True
        then have "j = k" "buddy k p = t" by auto
        then have "buddy k (buddy k p) = ?u" using bu by simp
        moreover have "2 ^ j dvd p" using tilesD [OF e(3), of p j] \<open>(p, j) \<in> free_blocks ?L\<close> by blast
        ultimately show ?thesis using True buddy_buddy [of k p] by auto
      qed (use b in auto)
    next
      case False
      then have "(p, j) \<in> {(t, k), (?u, k)}" using p(1) FM by blast
      then show ?thesis using bu by auto
    qed
  qed
  moreover have "\<forall>j<PAGE_NSIZES. pg_freelist ?g j = map (page_addr ?g) (?M j) \<and> distinct (?M j)"
  proof (intro allI impI)
    fix j assume j: "j < PAGE_NSIZES"
    have "t \<notin> set (L k)" "?u \<notin> set (L k)" using new k by (auto simp: free_blocks_iff)
    moreover have "pg_freelist h j = map (page_addr h) (?L j)" "distinct (?L j)" using e(6,7) j by blast+
    moreover have "pg_freelist h k = map (page_addr h) (L k)" "distinct (L k)" using e(6,7) [of k] k by simp_all
    ultimately show "pg_freelist ?g j = map (page_addr ?g) (?M j) \<and> distinct (?M j)" by auto
  qed
  ultimately have "grp ?g ?M A {(?u, k)}" using e(1) d(8) unfolding grp_def by auto
  then show ?thesis using run sr by (intro exI [of _ ?g]) (auto simp: same_range_def)
qed

section \<open>Splitting down, freeing and joining\<close>

text \<open>
  Splitting down to an order, freeing a block and joining it with its buddies; the number of free pages.
\<close>

subsection \<open>Free pages\<close>

definition list_pages :: "(nat \<Rightarrow> 'a list) \<Rightarrow> nat" where
  "list_pages L = (\<Sum>k<PAGE_NSIZES. length (L k) * 2 ^ k)"

lemma list_pages_upd:
  assumes "k < PAGE_NSIZES"
  shows "list_pages (L(k := xs)) + length (L k) * 2 ^ k = list_pages L + length xs * 2 ^ k"
proof -
  have "list_pages M = length (M k) * 2 ^ k + (\<Sum>j\<in>{..<PAGE_NSIZES} - {k}. length (M j) * 2 ^ j)" for M :: "nat \<Rightarrow> 'a list"
    unfolding list_pages_def by (rule sum.remove) (use assms in auto)
  from this [of L] this [of "L(k := xs)"] show ?thesis by simp
qed

lemma grp_pages: "grp g L A X \<Longrightarrow> list_pages (pg_freelist g) = list_pages L"
  unfolding list_pages_def by (rule sum.cong) (auto dest: grpD(6))

subsection \<open>Splitting down\<close>

lemma split_down_run:
  assumes "grp g L A X" and "order + n < PAGE_NSIZES" and "L (order + n) = t # rest" and "X \<subseteq> {(t, order + n)}"
  shows "\<exists>g' L' u r. split_down n order g = Inr g' \<and> grp g' L' A {(u, order)} \<and> L' order = u # r \<and> same_range g g'
    \<and> list_pages L' = list_pages L"
  using assms
proof (induction n arbitrary: g L t rest X)
  case 0
  have "grp g L A {(t, order)}" using 0 lone_mono [of "free_blocks L" X "{(t, order)}"] by (auto simp: grp_def)
  then show ?case using 0 by auto
next
  case (Suc n)
  let ?k = "order + n" and ?L = "L(Suc (order + n) := rest, order + n := (t + 2 ^ (order + n)) # t # L (order + n))"
  have k: "Suc ?k < PAGE_NSIZES" "L (Suc ?k) = t # rest" "X \<subseteq> {(t, Suc ?k)}" using Suc.prems by simp_all
  from split_run [OF Suc.prems(1) k] obtain h where h: "split_block (Suc ?k) g = Inr h" "grp h ?L A {(t + 2 ^ ?k, ?k)}" "same_range g h"
    by blast
  have "order + n < PAGE_NSIZES" "?L (order + n) = (t + 2 ^ ?k) # (t # L ?k)" "{(t + 2 ^ ?k, ?k)} \<subseteq> {(t + 2 ^ ?k, order + n)}"
    using k by simp_all
  from Suc.IH [OF h(2) this] obtain g' L' u r where g': "split_down n order h = Inr g'" "grp g' L' A {(u, order)}" "L' order = u # r"
    "same_range h g'" "list_pages L' = list_pages ?L" by blast
  have "list_pages ?L = list_pages L"
  proof -
    have "list_pages (L(Suc ?k := rest)) + length (L (Suc ?k)) * 2 ^ Suc ?k = list_pages L + length rest * 2 ^ Suc ?k"
      by (rule list_pages_upd) (use k in simp)
    moreover have "list_pages ?L + length (L ?k) * 2 ^ ?k = list_pages (L(Suc ?k := rest)) + (length (L ?k) + 2) * 2 ^ ?k"
      using list_pages_upd [of ?k "L(Suc ?k := rest)" "(t + 2 ^ ?k) # t # L ?k"] k by simp
    ultimately show ?thesis using k(2) by (simp add: algebra_simps)
  qed
  then show ?case using h g' by (auto intro: same_range_trans)
qed

subsection \<open>Unlinking\<close>

lemma list_of_run:
  assumes "k < PAGE_NSIZES" and "a \<in> set (pg_freelist g k)" and "\<And>j. j < PAGE_NSIZES \<Longrightarrow> a \<in> set (pg_freelist g j) \<Longrightarrow> j = k"
  shows "list_of a g = Some k"
  unfolding list_of_def find_Some_iff
proof (intro exI conjI allI impI)
  show "k < length [0..<PAGE_NSIZES]" "a \<in> set (pg_freelist g ([0..<PAGE_NSIZES] ! k))" "k = [0..<PAGE_NSIZES] ! k"
    using assms(1,2) by simp_all
  fix j assume "j < k"
  then show "a \<notin> set (pg_freelist g ([0..<PAGE_NSIZES] ! j))" using assms(1) assms(3) [of j] by auto
qed

lemma set_freelist_twice: "set_freelist k xs (set_freelist k ys g) = set_freelist k xs g"
  by (simp add: set_freelist_def)

lemma remove1_page_addr: "remove1 (page_addr g p) (map (page_addr g) ps) = map (page_addr g) (remove1 p ps)"
  by (induction ps) auto

lemma unlink_run:
  assumes fl: "\<And>j. j < PAGE_NSIZES \<Longrightarrow> pg_freelist g j = map (page_addr g) (L j)" and p: "p \<in> set (L k)" and k: "k < PAGE_NSIZES"
    and u: "\<And>j. j < PAGE_NSIZES \<Longrightarrow> p \<in> set (L j) \<Longrightarrow> j = k"
  shows "unlink_page (page_addr g p) g = Inr (set_freelist k (map (page_addr g) (remove1 p (L k))) g)"
proof -
  have "list_of (page_addr g p) g = Some k"
  proof (rule list_of_run [OF k])
    show "page_addr g p \<in> set (pg_freelist g k)" using fl [OF k] p by simp
    show "j = k" if "j < PAGE_NSIZES" "page_addr g p \<in> set (pg_freelist g j)" for j
      using u [OF that(1)] that(2) unfolding fl [OF that(1)] by auto
  qed
  then show ?thesis by (simp add: unlink_page_def fl [OF k] remove1_page_addr)
qed

lemma free_unique: "grp g L A X \<Longrightarrow> (p, j) \<in> free_blocks L \<Longrightarrow> (p, k) \<in> free_blocks L \<Longrightarrow> j = k"
  using tiles_start [of "npages g" "free_blocks L \<union> A" p j k] by (auto dest: grpD(3))

subsection \<open>Joining\<close>

lemma buddy_of_run:
  assumes "2 ^ k dvd p"
  shows "buddy_of k (page_addr g p) g = page_addr g (buddy k p)"
proof -
  have "p * PAGE_SIZE div 2 ^ PAGE_SHIFT div 2 ^ k = p div 2 ^ k" by (simp add: PAGE_SIZE_power)
  moreover have "pg_baseaddr g + p * PAGE_SIZE - 2 ^ k * PAGE_SIZE = pg_baseaddr g + (p - 2 ^ k) * PAGE_SIZE" if "odd (p div 2 ^ k)"
  proof -
    have "p div 2 ^ k \<noteq> 0" using that by (metis even_zero)
    then have "2 ^ k \<le> p" by (metis div_less not_le)
    then show ?thesis by (simp add: diff_mult_distrib)
  qed
  ultimately show ?thesis by (auto simp: buddy_of_def buddy_def page_addr_def Let_def algebra_simps)
qed

lemma page_join_simps:
  "\<not> k < PAGE_NSIZES - 1 \<Longrightarrow> page_join k a g = Inr g"
  "k < PAGE_NSIZES - 1 \<Longrightarrow> check_at (Suc k) a g = Inr True \<Longrightarrow> page_join k a g = Inr g"
  "k < PAGE_NSIZES - 1 \<Longrightarrow> check_at (Suc k) a g = Inr False \<Longrightarrow> (a - pg_baseaddr g) mod 2 ^ k = 0 \<Longrightarrow>
     page_join k a g = bnd (unlink_page a g) (\<lambda>h. bnd (unlink_page (buddy_of k a g) h) (\<lambda>h.
       let lo = min a (buddy_of k a g) in bnd (mark (Suc k) lo (push_free (Suc k) lo h)) (page_join (Suc k) lo)))"
  by (subst page_join.simps, simp add: Let_def)+

text \<open>One round: two free buddies become one free block.\<close>

lemma join_round:
  assumes g: "grp g L A {(p, k)}" and p: "(p, k) \<in> free_blocks L" "(buddy k p, k) \<in> free_blocks L" and k: "Suc k < PAGE_NSIZES"
  shows "\<exists>g' L' lo. lo = min p (buddy k p)
    \<and> page_join k (page_addr g p) g = page_join (Suc k) (page_addr g' lo) g' \<and> grp g' L' A {(lo, Suc k)} \<and> (lo, Suc k) \<in> free_blocks L'
    \<and> same_range g g' \<and> list_pages L' = list_pages L"
proof -
  note d = grpD [OF g]
  let ?b = "buddy k p"
  let ?lo = "min p ?b"
  let ?S = "free_blocks L \<union> A"
  have S: "(p, k) \<in> ?S" "(?b, k) \<in> ?S" using p by simp_all
  have al: "2 ^ k dvd p" "p + 2 ^ k \<le> npages g" using tilesD [OF d(3) S(1)] by simp_all
  have lo: "2 ^ Suc k dvd ?lo" "{(p, k), (?b, k)} = {(?lo, k), (?lo + 2 ^ k, k)}"
    by (rule buddy_cases [OF al(1)]; simp add: min_def; auto simp: algebra_simps)+
  have ps: "p \<in> set (L k)" "?b \<in> set (L k)" using p by (simp_all add: free_blocks_iff)
  have k': "k < PAGE_NSIZES" using k by simp
  have u1: "j = k" if "j < PAGE_NSIZES" "p \<in> set (L j)" for j
    using free_unique [OF g, of p j k] p that by (simp add: free_blocks_iff)
  have u2: "j = k" if "j < PAGE_NSIZES" "?b \<in> set (L j)" for j
    using free_unique [OF g, of ?b j k] p that by (simp add: free_blocks_iff)
  let ?L1 = "L(k := remove1 p (L k))"
  let ?xs = "remove1 ?b (remove1 p (L k))"
  let ?h1 = "set_freelist k (map (page_addr g) (remove1 p (L k))) g"
  let ?h2 = "set_freelist k (map (page_addr g) ?xs) g"
  have "unlink_page (page_addr g p) g = Inr ?h1" by (rule unlink_run [OF d(6) ps(1) k' u1])
  moreover have "unlink_page (page_addr ?h1 ?b) ?h1 = Inr (set_freelist k (map (page_addr ?h1) (remove1 ?b (?L1 k))) ?h1)"
  proof (rule unlink_run [where L = ?L1 and k = k and g = ?h1, OF _ _ k'])
    show "pg_freelist ?h1 j = map (page_addr ?h1) (?L1 j)" if "j < PAGE_NSIZES" for j using d(6) that by simp
    show "?b \<in> set (?L1 k)" using ps buddy_neq [of k p] by simp
    show "j = k" if "j < PAGE_NSIZES" "?b \<in> set (?L1 j)" for j
      using u2 [of j] that by (auto split: if_splits dest: set_remove1_subset [THEN subsetD])
  qed
  then have "unlink_page (page_addr g ?b) ?h1 = Inr ?h2" by (simp add: set_freelist_twice)
  moreover have mn: "min (page_addr g p) (page_addr g ?b) = page_addr g ?lo"
    by (simp add: min_def page_addr_def)
  moreover have "check_at (Suc k) (page_addr g p) g = Inr False"
    using check_at_run [OF d(1,4) al k] p by simp
  moreover have "(page_addr g p - pg_baseaddr g) mod 2 ^ k = 0" using al(1) by (simp add: page_addr_def)
  moreover have "k < PAGE_NSIZES - 1" using k by linarith
  ultimately have run: "page_join k (page_addr g p) g =
      bnd (mark (Suc k) (page_addr g ?lo) (push_free (Suc k) (page_addr g ?lo) ?h2)) (page_join (Suc k) (page_addr g ?lo))"
    by (simp add: page_join_simps(3) buddy_of_run [OF al(1)] Let_def)
  let ?F = "free_blocks L - {(p, k), (?b, k)}"
  let ?M = "L(k := ?xs, Suc k := ?lo # L (Suc k))"
  have xs: "set ?xs = set (L k) - {p, ?b}" "distinct ?xs" using d(7) [OF k'] by (auto simp: set_remove1_eq distinct_remove1)
  have FM: "free_blocks ?M = ?F \<union> {(?lo, Suc k)}"
  proof -
    have "(q, j) \<in> free_blocks ?M \<longleftrightarrow> (q, j) \<in> ?F \<union> {(?lo, Suc k)}" for q j
    proof (cases "j = k")
      case True
      then show ?thesis using xs(1) k' by (simp add: free_blocks_iff)
    next
      case False
      then show ?thesis using k by (cases "j = Suc k") (auto simp: free_blocks_iff)
    qed
    then show ?thesis by auto
  qed
  have S2: "(?lo, k) \<in> ?S" "(?lo + 2 ^ k, k) \<in> ?S"
  proof -
    have "{(p, k), (?b, k)} \<subseteq> ?S" using S by simp
    then have "{(?lo, k), (?lo + 2 ^ k, k)} \<subseteq> ?S" unfolding lo(2) .
    then show "(?lo, k) \<in> ?S" "(?lo + 2 ^ k, k) \<in> ?S" by simp_all
  qed
  have new: "(?lo, Suc k) \<notin> ?S" using tiles_start [OF d(3) S2(1), of "Suc k"] by auto
  have "?S - {(?lo, k), (?lo + 2 ^ k, k)} \<union> {(?lo, Suc k)} = free_blocks ?M \<union> A"
    unfolding FM lo(2) [symmetric] using p d(2) by blast
  then have tl: "tiles (npages g) (free_blocks ?M \<union> A)" using tiles_join [OF d(3) S2 lo(1)] by simp
  have "\<forall>b. b \<in> ?F \<longleftrightarrow> (b \<in> free_blocks L) \<noteq> (b \<in> {(?lo, k), (?lo + 2 ^ k, k)})"
    unfolding lo(2) [symmetric] using p by blast
  then have bF: "bits_ok (push_free (Suc k) (page_addr g ?lo) ?h2) ?F" using bits_ok_pair [OF d(4) lo(1)] by simp
  let ?h3 = "push_free (Suc k) (page_addr g ?lo) ?h2"
  have e1: "?lo + 2 ^ Suc k \<le> npages ?h3" using tilesD [OF d(3) S2(2)] by simp
  have e2: "\<forall>b. b \<in> free_blocks ?M \<longleftrightarrow> (b \<in> ?F) \<noteq> (b = (?lo, Suc k))" using new unfolding FM by blast
  have e3: "range_ok ?h3" using d(1) by simp
  have "page_addr ?h3 = page_addr g" by simp
  with mark_run [OF e3 bF lo(1) e1 k e2] obtain m where m: "mark (Suc k) (page_addr g ?lo) ?h3 = Inr (?h3\<lparr>pg_map := m\<rparr>)"
      "bits_ok (?h3\<lparr>pg_map := m\<rparr>) (free_blocks ?M)"
    by metis
  let ?g = "(push_free (Suc k) (page_addr g ?lo) ?h2)\<lparr>pg_map := m\<rparr>"
  have "lone (free_blocks ?M) {(?lo, Suc k)}"
    unfolding lone_def
  proof (intro allI impI)
    fix j q assume j: "Suc j < PAGE_NSIZES" and q: "(q, j) \<in> free_blocks ?M" "(buddy j q, j) \<in> free_blocks ?M"
    show "(q, j) \<in> {(?lo, Suc k)} \<or> (buddy j q, j) \<in> {(?lo, Suc k)}"
    proof (rule ccontr)
      assume "\<not> ?thesis"
      then have "(q, j) \<in> ?F" "(buddy j q, j) \<in> ?F" using q FM by blast+
      moreover from this have "(q, j) \<in> {(p, k)} \<or> (buddy j q, j) \<in> {(p, k)}" using d(5) j unfolding lone_def by blast
      ultimately show False by blast
    qed
  qed
  moreover have "free_blocks ?M \<inter> A = {}" using FM d(2) new by blast
  moreover have "\<forall>j<PAGE_NSIZES. pg_freelist ?g j = map (page_addr ?g) (?M j) \<and> distinct (?M j)"
  proof (intro allI impI)
    fix j assume j: "j < PAGE_NSIZES"
    have "?lo \<notin> set (L (Suc k))" using new k by (auto simp: free_blocks_iff)
    then show "pg_freelist ?g j = map (page_addr ?g) (?M j) \<and> distinct (?M j)"
      using d(6,7) j k xs(2) by auto
  qed
  ultimately have gg: "grp ?g ?M A {(?lo, Suc k)}" using d(1,8) m(2) tl unfolding grp_def by auto
  have "list_pages (L(k := ?xs)) + length (L k) * 2 ^ k = list_pages L + length ?xs * 2 ^ k"
    by (rule list_pages_upd [OF k'])
  moreover have "list_pages ?M + length (L (Suc k)) * 2 ^ Suc k = list_pages (L(k := ?xs)) + Suc (length (L (Suc k))) * 2 ^ Suc k"
    using list_pages_upd [OF k, of "L(k := ?xs)" "?lo # L (Suc k)"] by simp
  moreover have "length (L k) = length ?xs + 2"
  proof -
    have b: "?b \<in> set (remove1 p (L k))" using ps buddy_neq [of k p] by simp
    show ?thesis using length_remove1 [of ?b "remove1 p (L k)"] length_remove1 [of p "L k"] ps b
        length_pos_if_in_set [OF ps(1)] length_pos_if_in_set [OF b] by simp
  qed
  ultimately have "list_pages ?M = list_pages L" by (simp add: algebra_simps)
  then show ?thesis using run m(1) gg FM by (intro exI [of _ ?g] exI [of _ ?M] exI [of _ ?lo]) (simp add: same_range_def)
qed

lemma join_run:
  assumes "grp g L A {(p, k)}" and "(p, k) \<in> free_blocks L"
  shows "\<exists>g' L'. page_join k (page_addr g p) g = Inr g' \<and> grp g' L' A {} \<and> same_range g g' \<and> list_pages L' = list_pages L"
  using assms
proof (induction "PAGE_NSIZES - k" arbitrary: k p g L rule: less_induct)
  case less
  note d = grpD [OF less.prems(1)]
  have k: "k < PAGE_NSIZES" using less.prems(2) by (simp add: free_blocks_iff)
  show ?case
  proof (cases "Suc k < PAGE_NSIZES")
    case False
    then have "page_join k (page_addr g p) g = Inr g" by (intro page_join_simps(1)) linarith
    moreover have "lone (free_blocks L) {}" using d(5) False unfolding lone_def by blast
    ultimately show ?thesis using less.prems(1) by (intro exI [of _ g] exI [of _ L]) (simp add: grp_def)
  next
    case True
    have "(p, k) \<in> free_blocks L \<union> A" using less.prems(2) by simp
    from tilesD [OF d(3) this] have al: "2 ^ k dvd p" "p + 2 ^ k \<le> npages g" by simp_all
    show ?thesis
    proof (cases "(buddy k p, k) \<in> free_blocks L")
      case False
      then have "check_at (Suc k) (page_addr g p) g = Inr True"
        using check_at_run [OF d(1,4) al True] less.prems(2) by simp
      then have "page_join k (page_addr g p) g = Inr g" using True by (intro page_join_simps(2)) simp_all
      moreover have "lone (free_blocks L) {}"
        unfolding lone_def
      proof (intro allI impI)
        fix j q assume j: "Suc j < PAGE_NSIZES" and q: "(q, j) \<in> free_blocks L" "(buddy j q, j) \<in> free_blocks L"
        then have "(q, j) = (p, k) \<or> (buddy j q, j) = (p, k)" using d(5) unfolding lone_def by blast
        moreover have "2 ^ j dvd q" using tilesD [OF d(3), of q j] q(1) by blast
        ultimately have "(buddy k p, k) \<in> free_blocks L" using q buddy_buddy [of j q] by auto
        then show "(q, j) \<in> {} \<or> (buddy j q, j) \<in> {}" using False by simp
      qed
      ultimately show ?thesis using less.prems(1) by (intro exI [of _ g] exI [of _ L]) (simp add: grp_def)
    next
      case b: True
      from join_round [OF less.prems b True] obtain h M lo where
        h: "page_join k (page_addr g p) g = page_join (Suc k) (page_addr h lo) h" "grp h M A {(lo, Suc k)}" "(lo, Suc k) \<in> free_blocks M"
          "same_range g h" "list_pages M = list_pages L" by blast
      have "PAGE_NSIZES - Suc k < PAGE_NSIZES - k" using True by linarith
      from less.hyps [OF this h(2,3)] obtain g' L' where "page_join (Suc k) (page_addr h lo) h = Inr g'" "grp g' L' A {}"
        "same_range h g'" "list_pages L' = list_pages M" by blast
      then show ?thesis using h by (auto intro: same_range_trans)
    qed
  qed
qed

subsection \<open>Freeing a block\<close>

lemma free_run:
  assumes g: "grp g L A {}" and p: "(p, k) \<in> A"
  shows "\<exists>g' L'. bnd (mark k (page_addr g p) (push_free k (page_addr g p) g)) (page_join k (page_addr g p)) = Inr g'
    \<and> grp g' L' (A - {(p, k)}) {} \<and> same_range g g' \<and> list_pages L' = list_pages L + 2 ^ k"
proof -
  note d = grpD [OF g]
  have k: "k < PAGE_NSIZES" using d(8) p by blast
  have pS: "(p, k) \<in> free_blocks L \<union> A" using p by simp
  have al: "2 ^ k dvd p" "p + 2 ^ k \<le> npages g" using tilesD [OF d(3) pS] by simp_all
  have new: "(p, k) \<notin> free_blocks L" using d(2) p by blast
  let ?h = "push_free k (page_addr g p) g" and ?M = "L(k := p # L k)"
  have FM: "free_blocks ?M = insert (p, k) (free_blocks L)" using k by (auto simp: free_blocks_def)
  have "\<forall>b. b \<in> free_blocks ?M \<longleftrightarrow> (b \<in> free_blocks L) \<noteq> (b = (p, k))" using FM new by blast
  moreover have "range_ok ?h" "bits_ok ?h (free_blocks L)" "p + 2 ^ k \<le> npages ?h" using d al by simp_all
  ultimately obtain m where m: "mark k (page_addr g p) ?h = Inr (?h\<lparr>pg_map := m\<rparr>)" "bits_ok (?h\<lparr>pg_map := m\<rparr>) (free_blocks ?M)"
    using mark_run [of ?h "free_blocks L" k p "free_blocks ?M"] al(1) k by auto
  let ?g = "?h\<lparr>pg_map := m\<rparr>"
  have "free_blocks ?M \<union> (A - {(p, k)}) = free_blocks L \<union> A" unfolding FM using p by blast
  moreover have "lone (free_blocks ?M) {(p, k)}" using d(5) unfolding FM lone_def by blast
  moreover have "\<forall>j<PAGE_NSIZES. pg_freelist ?g j = map (page_addr ?g) (?M j) \<and> distinct (?M j)"
    using d(6,7) k new by (auto simp: free_blocks_iff)
  ultimately have gg: "grp ?g ?M (A - {(p, k)}) {(p, k)}"
    using d(1,2,3,8) m(2) FM new unfolding grp_def by auto
  have "(p, k) \<in> free_blocks ?M" using FM by simp
  from join_run [OF gg this] obtain g' L' where j: "page_join k (page_addr ?g p) ?g = Inr g'" "grp g' L' (A - {(p, k)}) {}"
    "same_range ?g g'" "list_pages L' = list_pages ?M" by blast
  have "list_pages ?M = list_pages L + 2 ^ k" using list_pages_upd [OF k, of L "p # L k"] by simp
  then show ?thesis using m(1) j by (intro exI [of _ g'] exI [of _ L']) (simp add: same_range_def)
qed

end
