(* ===== verification/Pgstate.thy ===== *)
theory Pgstate
  imports Pgops
begin

text \<open>
  The page allocator as a whole: groups with disjoint ranges, and the set \<open>U\<close> of the blocks in use, each an
  address with an order.  What allocation and freeing promise; what is left when all blocks are
  freed; how a range becomes a group.
\<close>

subsection \<open>The invariant\<close>

definition in_group :: "nat \<Rightarrow> pagegroup \<Rightarrow> bool" where
  "in_group a g \<longleftrightarrow> pg_baseaddr g \<le> a \<and> a < pg_endaddr g"

definition alloc_in :: "pagegroup \<Rightarrow> (nat \<times> nat) set \<Rightarrow> (nat \<times> nat) set" where
  "alloc_in g U = {(p, k). p < npages g \<and> (page_addr g p, k) \<in> U}"

definition groups_ok :: "pages \<Rightarrow> (nat \<times> nat) set \<Rightarrow> bool" where
  "groups_ok s U \<longleftrightarrow>
     (\<forall>g\<in>set (pagegroup_list s). \<exists>L. grp g L (alloc_in g U) {})
     \<and> (\<forall>i j a. i < length (pagegroup_list s) \<longrightarrow> j < length (pagegroup_list s) \<longrightarrow>
          in_group a (pagegroup_list s ! i) \<longrightarrow> in_group a (pagegroup_list s ! j) \<longrightarrow> i = j)
     \<and> (\<forall>(a, k)\<in>U. (\<exists>g\<in>set (pagegroup_list s). in_group a g)
          \<and> (\<forall>g\<in>set (pagegroup_list s). in_group a g \<longrightarrow> (\<exists>p<npages g. a = page_addr g p)))
     \<and> page_freecount s = int (\<Sum>g\<leftarrow>pagegroup_list s. list_pages (pg_freelist g))"

lemma page_in_group: "range_ok g \<Longrightarrow> p < npages g \<Longrightarrow> in_group (page_addr g p) g"
  by (simp add: in_group_def page_addr_def range_ok_def)

lemma same_range_group: "same_range g g' \<Longrightarrow> in_group a g' = in_group a g"
  by (simp add: same_range_def in_group_def)

text \<open>An operation on one group.\<close>

lemma pages_upd:
  assumes ok: "groups_ok s U" and i: "i < length (pagegroup_list s)" and g: "g = pagegroup_list s ! i" and sr: "same_range g g'"
    and grp': "grp g' L' (alloc_in g' U') {}"
    and U': "\<And>a k. \<not> in_group a g \<Longrightarrow> (a, k) \<in> U' \<longleftrightarrow> (a, k) \<in> U"
    and pg: "\<And>a k. (a, k) \<in> U' \<Longrightarrow> in_group a g \<Longrightarrow> \<exists>p<npages g. a = page_addr g p"
    and n: "n = page_freecount s - int (list_pages (pg_freelist g)) + int (list_pages (pg_freelist g'))"
  shows "groups_ok (s\<lparr>pagegroup_list := (pagegroup_list s)[i := g'], page_freecount := n\<rparr>) U'"
proof -
  let ?gs = "pagegroup_list s"
  note same = same_rangeD [OF sr]
  have one: "\<And>i j a. i < length ?gs \<Longrightarrow> j < length ?gs \<Longrightarrow> in_group a (?gs ! i) \<Longrightarrow> in_group a (?gs ! j) \<Longrightarrow> i = j"
    using ok unfolding groups_ok_def by blast
  have inv: "\<And>h. h \<in> set ?gs \<Longrightarrow> \<exists>L. grp h L (alloc_in h U) {}" using ok unfolding groups_ok_def by blast
  have gi: "in_group a (?gs[i := g'] ! j) = in_group a (?gs ! j)" if "j < length ?gs" for a j
    using that same_range_group [OF sr] g by (cases "j = i") simp_all
  have c1: "\<exists>L. grp h L (alloc_in h U') {}" if h: "h \<in> set (?gs[i := g'])" for h
  proof -
    obtain j where j: "j < length ?gs" "h = ?gs[i := g'] ! j" using h by (auto simp: in_set_conv_nth)
    show ?thesis
    proof (cases "j = i")
      case True
      then show ?thesis using j grp' by auto
    next
      case False
      then have hj: "h = ?gs ! j" "h \<in> set ?gs" using j by simp_all
      from inv [OF hj(2)] obtain L where L: "grp h L (alloc_in h U) {}" by blast
      have "\<not> in_group (page_addr h p) g" if "p < npages h" for p
        using one [OF j(1) i, of "page_addr h p"] page_in_group [OF grpD(1) [OF L] that] hj(1) g False by blast
      then have "alloc_in h U' = alloc_in h U" using U' by (auto simp: alloc_in_def)
      then show ?thesis using L by auto
    qed
  qed
  have c2: "i1 = j1" if "i1 < length ?gs" "j1 < length ?gs" "in_group a (?gs[i := g'] ! i1)" "in_group a (?gs[i := g'] ! j1)" for i1 j1 a
    using one that gi by blast
  have c3: "(\<exists>h\<in>set (?gs[i := g']). in_group a h) \<and> (\<forall>h\<in>set (?gs[i := g']). in_group a h \<longrightarrow> (\<exists>p<npages h. a = page_addr h p))"
    if u: "(a, k) \<in> U'" for a k
  proof (cases "in_group a g")
    case True
    have "g' \<in> set (?gs[i := g'])" using i by (simp add: set_update_memI)
    moreover have "\<exists>p<npages h. a = page_addr h p" if h: "h \<in> set (?gs[i := g'])" "in_group a h" for h
    proof -
      obtain j where j: "j < length ?gs" "h = ?gs[i := g'] ! j" using h(1) by (auto simp: in_set_conv_nth)
      have "j = i" using one [OF j(1) i, of a] gi [OF j(1)] h(2) j(2) True g by simp
      then show ?thesis using j i pg [OF u True] same by simp
    qed
    ultimately show ?thesis using True same_range_group [OF sr] by blast
  next
    case False
    then have "(a, k) \<in> U" using U' u by blast
    then have o: "\<exists>h\<in>set ?gs. in_group a h" "\<And>h. h \<in> set ?gs \<Longrightarrow> in_group a h \<Longrightarrow> \<exists>p<npages h. a = page_addr h p"
      using ok unfolding groups_ok_def by blast+
    from o(1) obtain j where j: "j < length ?gs" "in_group a (?gs ! j)" by (auto simp: in_set_conv_nth)
    then have "in_group a (?gs[i := g'] ! j)" "?gs[i := g'] ! j \<in> set (?gs[i := g'])" using gi by simp_all
    moreover have "\<exists>p<npages h. a = page_addr h p" if h: "h \<in> set (?gs[i := g'])" "in_group a h" for h
    proof -
      obtain l where l: "l < length ?gs" "h = ?gs[i := g'] ! l" using h(1) by (auto simp: in_set_conv_nth)
      have "l \<noteq> i" using h(2) l False same_range_group [OF sr] by auto
      then show ?thesis using l h o(2) by simp
    qed
    ultimately show ?thesis by blast
  qed
  have c4: "n = int (\<Sum>h\<leftarrow>?gs[i := g']. list_pages (pg_freelist h))"
  proof -
    let ?f = "\<lambda>h. list_pages (pg_freelist h)"
    have "sum_list (map ?f (?gs[i := g'])) = sum_list (map ?f ?gs) + ?f g' - ?f g"
      using i g by (simp add: map_update sum_list_update)
    moreover have "?f g \<le> sum_list (map ?f ?gs)" using i g by (auto intro!: member_le_sum_list)
    ultimately have "int (sum_list (map ?f (?gs[i := g']))) = int (sum_list (map ?f ?gs)) + int (?f g') - int (?f g)" by simp
    then show ?thesis using n ok by (simp add: groups_ok_def)
  qed
  show ?thesis unfolding groups_ok_def
  proof (intro conjI)
    let ?s' = "s\<lparr>pagegroup_list := ?gs[i := g'], page_freecount := n\<rparr>"
    show "\<forall>h\<in>set (pagegroup_list ?s'). \<exists>L. grp h L (alloc_in h U') {}" using c1 by simp
    show "\<forall>i1 j1 a. i1 < length (pagegroup_list ?s') \<longrightarrow> j1 < length (pagegroup_list ?s') \<longrightarrow>
        in_group a (pagegroup_list ?s' ! i1) \<longrightarrow> in_group a (pagegroup_list ?s' ! j1) \<longrightarrow> i1 = j1" using c2 by simp
    show "\<forall>(a, k)\<in>U'. (\<exists>h\<in>set (pagegroup_list ?s'). in_group a h) \<and>
        (\<forall>h\<in>set (pagegroup_list ?s'). in_group a h \<longrightarrow> (\<exists>p<npages h. a = page_addr h p))" using c3 by auto
    show "page_freecount ?s' = int (\<Sum>h\<leftarrow>pagegroup_list ?s'. list_pages (pg_freelist h))" using c4 by simp
  qed
qed

lemma grp_at:
  assumes "groups_ok s U" and "i < length (pagegroup_list s)"
  obtains L where "grp (pagegroup_list s ! i) L (alloc_in (pagegroup_list s ! i) U) {}"
  using assms unfolding groups_ok_def by (metis nth_mem)

subsection \<open>Allocation\<close>

lemma alloc_run:
  assumes g: "grp g L A {}" and k: "order + n < PAGE_NSIZES" and ne: "pg_freelist g (order + n) \<noteq> []"
  shows "\<exists>g1 g2 L2 u. split_down n order g = Inr g1 \<and> pg_freelist g1 order \<noteq> [] \<and> hd (pg_freelist g1 order) = page_addr g u
    \<and> pop_block order g1 = Inr g2 \<and> grp g2 L2 (insert (u, order) A) {} \<and> same_range g g2 \<and> u < npages g
    \<and> list_pages (pg_freelist g2) + 2 ^ order = list_pages (pg_freelist g) \<and> (u, order) \<notin> A"
proof -
  have "L (order + n) \<noteq> []" using ne grpD(6) [OF g k] by simp
  then obtain t rest where L: "L (order + n) = t # rest" by (cases "L (order + n)") auto
  from split_down_run [OF g k L] obtain g1 L1 u r where g1: "split_down n order g = Inr g1" "grp g1 L1 A {(u, order)}"
    "L1 order = u # r" "same_range g g1" "list_pages L1 = list_pages L" by auto
  have o: "order < PAGE_NSIZES" using k by simp
  from pop_run [OF g1(2) o g1(3)] obtain g2 where g2: "pop_block order g1 = Inr g2" "grp g2 (L1(order := r)) (insert (u, order) A) {}"
    "same_range g1 g2" by auto
  note same = same_rangeD [OF g1(4)]
  have F: "(u, order) \<in> free_blocks L1" using g1(3) o by (simp add: free_blocks_iff)
  then have "(u, order) \<notin> A" using grpD(2) [OF g1(2)] by blast
  moreover have "(u, order) \<in> free_blocks L1 \<union> A" using F by simp
  from tilesD(3) [OF grpD(3) [OF g1(2)] this] same have "u < npages g" by simp
  moreover have "list_pages (L1(order := r)) + 2 ^ order = list_pages L1"
    using list_pages_upd [OF o, of L1 r] g1(3) by simp
  then have "list_pages (pg_freelist g2) + 2 ^ order = list_pages (pg_freelist g)"
    using grp_pages [OF g2(2)] grp_pages [OF g] g1(5) by simp
  moreover have "pg_freelist g1 order = page_addr g u # map (page_addr g) r" using grpD(6) [OF g1(2) o] g1(3) same by simp
  ultimately show ?thesis using g1 g2 by (auto intro: same_range_trans)
qed

lemma group_withD:
  "group_with k s = Some i \<Longrightarrow> i < length (pagegroup_list s) \<and> pg_freelist (pagegroup_list s ! i) k \<noteq> []"
  "group_with k s = None \<Longrightarrow> g \<in> set (pagegroup_list s) \<Longrightarrow> pg_freelist g k = []"
  by (auto simp: group_with_def find_Some_iff find_None_iff in_set_conv_nth)

lemma split_larger_cases:
  "(split_larger ks k s = Inr (None, s) \<and> (\<forall>j\<in>set ks. group_with j s = None)) \<or>
   (\<exists>j\<in>set ks. \<exists>i. group_with j s = Some i \<and> split_larger ks k s =
      bnd (on_group i (split_down (j - k) k) s) (\<lambda>s.
          check (pg_freelist (pagegroup_list s ! i) k \<noteq> []) Kassert_failed (Inr (Some i, s))))"
proof (induction ks)
  case (Cons j ks)
  then show ?case by (cases "group_with j s") auto
qed simp

lemma alloc_insert:
  assumes "u < npages g'" "same_range g g'"
  shows "alloc_in g' (insert (page_addr g u, k) U) = insert (u, k) (alloc_in g U)"
  using assms same_rangeD [OF assms(2)] by (auto simp: alloc_in_def)

text \<open>Taking a block from group \<open>i\<close>, after it was split down from order \<open>k + n\<close>.\<close>

lemma take_run:
  assumes ok: "groups_ok s U" and i: "i < length (pagegroup_list s)" and k: "k + n < PAGE_NSIZES"
    and ne: "pg_freelist (pagegroup_list s ! i) (k + n) \<noteq> []"
  shows "\<exists>s1 a s'. on_group i (split_down n k) s = Inr s1 \<and> pg_freelist (pagegroup_list s1 ! i) k \<noteq> []
    \<and> take_block k i s1 = Inr (a, s') \<and> groups_ok s' (insert (a, k) U) \<and> (a, k) \<notin> U
    \<and> page_freecount s' = page_freecount s - 2 ^ k \<and> map pg_baseaddr (pagegroup_list s') = map pg_baseaddr (pagegroup_list s)
    \<and> map pg_endaddr (pagegroup_list s') = map pg_endaddr (pagegroup_list s)"
proof -
  let ?g = "pagegroup_list s ! i"
  obtain L where L: "grp ?g L (alloc_in ?g U) {}" by (rule grp_at [OF ok i])
  from alloc_run [OF L k ne] obtain g1 g2 L2 u where r: "split_down n k ?g = Inr g1" "pg_freelist g1 k \<noteq> []"
      "hd (pg_freelist g1 k) = page_addr ?g u" "pop_block k g1 = Inr g2" "grp g2 L2 (insert (u, k) (alloc_in ?g U)) {}"
      "same_range ?g g2" "u < npages ?g" "list_pages (pg_freelist g2) + 2 ^ k = list_pages (pg_freelist ?g)"
      "(u, k) \<notin> alloc_in ?g U" by blast
  let ?a = "page_addr ?g u" and ?n = "page_freecount s - 2 ^ k"
  let ?s1 = "s\<lparr>pagegroup_list := (pagegroup_list s)[i := g1]\<rparr>"
  let ?s' = "s\<lparr>pagegroup_list := (pagegroup_list s)[i := g2], page_freecount := ?n\<rparr>"
  have "on_group i (split_down n k) s = Inr ?s1" using r(1) by (simp add: on_group_def)
  moreover have "take_block k i ?s1 = Inr (?a, ?s')" using r(3,4) i by (simp add: take_block_def on_group_def)
  moreover have "groups_ok ?s' (insert (?a, k) U)"
  proof (rule pages_upd [OF ok i refl r(6)])
    show "grp g2 L2 (alloc_in g2 (insert (?a, k) U)) {}"
      using r(5,7) alloc_insert [OF _ r(6), of u k U] same_rangeD [OF r(6)] by simp
    show "(a, j) \<in> insert (?a, k) U \<longleftrightarrow> (a, j) \<in> U" if "\<not> in_group a ?g" for a j
      using that page_in_group [OF grpD(1) [OF L] r(7)] by auto
    show "\<exists>p<npages ?g. a = page_addr ?g p" if "(a, j) \<in> insert (?a, k) U" "in_group a ?g" for a j
    proof (cases "a = ?a")
      case False
      then have "(a, j) \<in> U" using that(1) by auto
      then show ?thesis using ok that(2) nth_mem [OF i] unfolding groups_ok_def by blast
    qed (use r(7) in blast)
    have "int (list_pages (pg_freelist ?g)) = int (list_pages (pg_freelist g2)) + 2 ^ k"
      using r(8) [symmetric] by simp
    then show "?n = page_freecount s - int (list_pages (pg_freelist ?g)) + int (list_pages (pg_freelist g2))" by simp
  qed
  moreover have "(?a, k) \<notin> U" using r(7,9) by (simp add: alloc_in_def)
  moreover have "map pg_baseaddr (pagegroup_list ?s') = map pg_baseaddr (pagegroup_list s)"
    "map pg_endaddr (pagegroup_list ?s') = map pg_endaddr (pagegroup_list s)"
    using r(6) i by (simp_all add: map_update same_range_def list_update_same_conv)
  ultimately show ?thesis using r(2) i by (intro exI [of _ ?s1] exI [of _ ?a] exI [of _ ?s']) simp
qed

lemma find_block_run:
  assumes ok: "groups_ok s U" and k: "k < PAGE_NSIZES"
  shows "(find_block k s = Inr (None, s) \<and> (\<forall>g\<in>set (pagegroup_list s). \<forall>j<PAGE_NSIZES. k \<le> j \<longrightarrow> pg_freelist g j = []))
    \<or> (\<exists>a s'. find_block k s = Inr (Some a, s') \<and> groups_ok s' (insert (a, k) U) \<and> (a, k) \<notin> U
        \<and> page_freecount s' = page_freecount s - 2 ^ k \<and> map pg_baseaddr (pagegroup_list s') = map pg_baseaddr (pagegroup_list s)
        \<and> map pg_endaddr (pagegroup_list s') = map pg_endaddr (pagegroup_list s))"
proof (cases "group_with k s")
  case (Some i)
  note w = group_withD(1) [OF Some]
  have "pg_freelist (pagegroup_list s ! i) (k + 0) \<noteq> []" "k + 0 < PAGE_NSIZES" using w k by simp_all
  from take_run [OF ok _ this(2,1)] w obtain s1 a s' where t: "on_group i (split_down 0 k) s = Inr s1" "take_block k i s1 = Inr (a, s')"
    "groups_ok s' (insert (a, k) U)" "(a, k) \<notin> U" "page_freecount s' = page_freecount s - 2 ^ k"
    "map pg_baseaddr (pagegroup_list s') = map pg_baseaddr (pagegroup_list s)"
    "map pg_endaddr (pagegroup_list s') = map pg_endaddr (pagegroup_list s)" by blast
  have "s1 = s" using t(1) by (simp add: on_group_def)
  then show ?thesis using t Some by (simp add: find_block_def)
next
  case None
  let ?ks = "[k + 1..<PAGE_NSIZES]"
  from split_larger_cases [of ?ks k s] show ?thesis
  proof (elim disjE conjE bexE exE)
    assume n: "split_larger ?ks k s = Inr (None, s)" "\<forall>j\<in>set ?ks. group_with j s = None"
    have "pg_freelist g j = []" if "g \<in> set (pagegroup_list s)" "j < PAGE_NSIZES" "k \<le> j" for g j
      using group_withD(2) [OF _ that(1), of j] None n(2) that by (cases "j = k") auto
    then show ?thesis using None n(1) by (simp add: find_block_def)
  next
    fix j i assume j: "j \<in> set ?ks" and i: "group_with j s = Some i" and run: "split_larger ?ks k s =
      bnd (on_group i (split_down (j - k) k) s) (\<lambda>s.
          check (pg_freelist (pagegroup_list s ! i) k \<noteq> []) Kassert_failed (Inr (Some i, s)))"
    have jk: "k + (j - k) = j" "k + (j - k) < PAGE_NSIZES" using j by auto
    note w = group_withD(1) [OF i]
    have "pg_freelist (pagegroup_list s ! i) (k + (j - k)) \<noteq> []" using w jk by simp
    from take_run [OF ok _ jk(2) this] w obtain s1 a s' where t: "on_group i (split_down (j - k) k) s = Inr s1"
      "pg_freelist (pagegroup_list s1 ! i) k \<noteq> []" "take_block k i s1 = Inr (a, s')" "groups_ok s' (insert (a, k) U)" "(a, k) \<notin> U"
      "page_freecount s' = page_freecount s - 2 ^ k" "map pg_baseaddr (pagegroup_list s') = map pg_baseaddr (pagegroup_list s)"
      "map pg_endaddr (pagegroup_list s') = map pg_endaddr (pagegroup_list s)" by blast
    then show ?thesis using None run by (simp add: find_block_def)
  qed
qed

subsection \<open>Freeing\<close>

lemma free_order_run:
  assumes ok: "groups_ok s U" and a: "(a, k) \<in> U"
  shows "\<exists>s'. page_free_order a k s = Inr s' \<and> groups_ok s' (U - {(a, k)}) \<and> page_freecount s' = page_freecount s + 2 ^ k
    \<and> map pg_baseaddr (pagegroup_list s') = map pg_baseaddr (pagegroup_list s)
    \<and> map pg_endaddr (pagegroup_list s') = map pg_endaddr (pagegroup_list s)"
proof -
  have "\<exists>g\<in>set (pagegroup_list s). in_group a g" using ok a unfolding groups_ok_def by blast
  then obtain i where "group_of a s = Some i"
    by (cases "group_of a s") (auto simp: group_of_def find_None_iff in_set_conv_nth in_group_def Let_def)
  then have i: "group_of a s = Some i" "i < length (pagegroup_list s)" "in_group a (pagegroup_list s ! i)"
    by (auto simp: group_of_def find_Some_iff in_group_def Let_def)
  let ?g = "pagegroup_list s ! i"
  obtain L where L: "grp ?g L (alloc_in ?g U) {}" by (rule grp_at [OF ok i(2)])
  obtain p where p: "p < npages ?g" "a = page_addr ?g p"
    using ok a i(3) nth_mem [OF i(2)] unfolding groups_ok_def by blast
  then have pA: "(p, k) \<in> alloc_in ?g U" using a by (simp add: alloc_in_def)
  from free_run [OF L pA] obtain g' L' where g': "bnd (mark k a (push_free k a ?g)) (page_join k a) = Inr g'"
    "grp g' L' (alloc_in ?g U - {(p, k)}) {}" "same_range ?g g'" "list_pages L' = list_pages L + 2 ^ k" using p(2) by blast
  let ?n = "page_freecount s + 2 ^ k"
  let ?s' = "s\<lparr>pagegroup_list := (pagegroup_list s)[i := g'], page_freecount := ?n\<rparr>"
  have "(if k < PAGE_NSIZES - 1 then bnd (flip_at (k + 1) a (push_free k a ?g)) (page_join k a) else Inr (push_free k a ?g)) = Inr g'"
    using g'(1) by (cases "k < PAGE_NSIZES - 1") (simp_all add: mark_def page_join_simps(1))
  then have "page_free_order a k s = Inr ?s'" using i(1) by (simp add: page_free_order_def on_group_def Let_def)
  moreover have "groups_ok ?s' (U - {(a, k)})"
  proof (rule pages_upd [OF ok i(2) refl g'(3)])
    have "alloc_in g' (U - {(a, k)}) = alloc_in ?g U - {(p, k)}"
      using p same_rangeD [OF g'(3)] by (auto simp: alloc_in_def)
    then show "grp g' L' (alloc_in g' (U - {(a, k)})) {}" using g'(2) by simp
    show "(b, j) \<in> U - {(a, k)} \<longleftrightarrow> (b, j) \<in> U" if "\<not> in_group b ?g" for b j using that i(3) by auto
    show "\<exists>p<npages ?g. b = page_addr ?g p" if "(b, j) \<in> U - {(a, k)}" "in_group b ?g" for b j
      using ok that nth_mem [OF i(2)] unfolding groups_ok_def by blast
    show "?n = page_freecount s - int (list_pages (pg_freelist ?g)) + int (list_pages (pg_freelist g'))"
      using g'(4) grp_pages [OF L] grp_pages [OF g'(2)] by simp
  qed
  moreover have "map pg_baseaddr (pagegroup_list ?s') = map pg_baseaddr (pagegroup_list s)"
    "map pg_endaddr (pagegroup_list ?s') = map pg_endaddr (pagegroup_list s)"
    using g'(3) i by (simp_all add: map_update same_range_def list_update_same_conv)
  ultimately show ?thesis by (intro exI [of _ ?s']) simp
qed

end
