(* ===== verification/Pgrange.thy ===== *)
theory Pgrange
  imports Pgstate
begin

text \<open>How a range becomes a group, and what is left when all blocks have been freed.\<close>

subsection \<open>Maps\<close>

lemma word_drop_bit_unat: "unat (drop_bit 3 (y :: 32 word)) = unat y div 8"
  by (simp add: drop_bit_eq_div unat_div_distrib)

lemma and_not_mask: "unat ((w :: 32 word) AND NOT 7) = unat w div 8 * 8"
proof -
  have "w AND NOT 7 = push_bit 3 (drop_bit 3 w)"
  proof (rule bit_word_eqI)
    fix i assume "i < LENGTH(32)"
    have "bit (7 :: 32 word) i \<longleftrightarrow> i < 3 \<and> i < 32"
      using bit_mask_iff [of 3 i, where 'a = "32 word"] by (simp add: mask_eq_exp_minus_1 conj_commute)
    then show "bit (w AND NOT 7) i = bit (push_bit 3 (drop_bit 3 w)) i" by (auto simp: bit_simps \<open>i < LENGTH(32)\<close>)
  qed
  moreover have "unat w < 2 ^ LENGTH(32)" by (rule unsigned_less)
  then have "unat w div 8 * 8 < 2 ^ 32" by (intro le_less_trans [OF div_times_less_eq_dividend]) simp
  then have "unat (push_bit 3 (drop_bit 3 w)) = unat w div 8 * 8"
    by (simp only: unsigned_push_bit_eq word_drop_bit_unat) (simp add: push_bit_eq_mult take_bit_nat_eq_self)
  with \<open>w AND NOT 7 = _\<close> show ?thesis by simp
qed

lemma map_bytes_eq:
  assumes "n < 2 ^ 31" and "0 < n div 2 ^ k"
  shows "map_bytes n k = (n div 2 ^ k - 1) div 8 + 1"
proof -
  let ?c = "n div 2 ^ k"
  have c: "?c < 2 ^ 31" using assms(1) div_le_dividend [of n "2 ^ k"] by linarith
  let ?w = "(word_of_nat ?c :: 32 word) - 1"
  have "unat (word_of_nat ?c :: 32 word) = ?c" using c by (simp add: unsigned_of_nat take_bit_nat_eq_self)
  moreover have "(1 :: 32 word) \<le> word_of_nat ?c" using assms(2) calculation by (simp add: word_le_nat_alt)
  ultimately have w: "unat ?w = ?c - 1" by (simp add: unat_sub)
  let ?x = "?w AND NOT 7"
  have x: "unat ?x = (?c - 1) div 8 * 8" using and_not_mask [of ?w] w by simp
  have "unat ?x + unat (8 :: 32 word) < 2 ^ LENGTH(32)" using x c by simp
  then have "unat (?x + 8) = (?c - 1) div 8 * 8 + 8" using iffD1 [OF unat_add_lem] x by fastforce
  then have "map_bytes n k = ((?c - 1) div 8 * 8 + 8) div 8"
    by (simp only: map_bytes_def Let_def word_drop_bit_unat)
  then show ?thesis by simp
qed

lemma map_bytes_enough: "n < 2 ^ 31 \<Longrightarrow> 0 < n div 2 ^ k \<Longrightarrow> n div 2 ^ k \<le> 8 * map_bytes n k"
proof -
  have "c \<le> 8 * ((c - 1) div 8 + 1)" for c :: nat by presburger
  then show "n < 2 ^ 31 \<Longrightarrow> 0 < n div 2 ^ k \<Longrightarrow> n div 2 ^ k \<le> 8 * map_bytes n k" using map_bytes_eq by metis
qed

subsection \<open>Blocks of a new group\<close>

lemma small_blocks_other:
  "j \<notin> set ks \<Longrightarrow> pg_freelist (snd (small_blocks ks n e g)) j = pg_freelist g j"
  by (induction ks n e g rule: small_blocks.induct) (auto simp: Let_def)

lemma small_blocks_same:
  assumes "small_blocks ks n e g = (e', g')"
  shows "pg_map g' = pg_map g \<and> pg_bits g' = pg_bits g \<and> pg_baseaddr g' = pg_baseaddr g \<and> pg_endaddr g' = pg_endaddr g
    \<and> e' \<le> e \<and> (PAGE_SIZE dvd e \<longrightarrow> PAGE_SIZE dvd e')"
  using assms
proof (induction ks n e g rule: small_blocks.induct)
  case (2 k ks n e g)
  have "PAGE_SIZE dvd e - 2 ^ k * PAGE_SIZE" if "PAGE_SIZE dvd e" using that by (simp add: dvd_diff_nat)
  then show ?case using 2 by (fastforce simp: Let_def push_free_def split: if_splits)
qed simp

lemma small_blocks_below:
  assumes "small_blocks ks n e g = (e', g')" and "0 < E" "e \<le> E" and "\<And>j a. a \<in> set (pg_freelist g j) \<Longrightarrow> a < E"
  shows "a \<in> set (pg_freelist g' j) \<Longrightarrow> a < E"
  using assms
proof (induction ks n e g rule: small_blocks.induct)
  case (2 k ks n e g)
  have "e - 2 ^ k * PAGE_SIZE < E" using 2(5,6) PAGE_SIZE_pos by (cases "e = 0") (auto intro: less_le_trans [OF diff_less])
  then have "\<And>j a. a \<in> set (pg_freelist (push_free k (e - 2 ^ k * PAGE_SIZE) (set_freelist k [] g)) j) \<Longrightarrow> a < E"
    "\<And>j a. a \<in> set (pg_freelist (set_freelist k [] g) j) \<Longrightarrow> a < E" "e - 2 ^ k * PAGE_SIZE \<le> E"
    using 2(7) by (auto split: if_splits)
  then show ?case using 2(1) [OF refl _ refl 2(3) _ 2(5)] 2(2) [OF refl _ 2(3) _ 2(5,6)] 2(4) by (cases "bit n k") (simp_all add: Let_def)
qed auto

lemma small_blocks_none:
  assumes "\<And>k. k \<in> set ks \<Longrightarrow> \<not> bit n k" and "\<And>k. pg_freelist g k = []"
  shows "small_blocks ks n e g = (e, g)"
proof -
  have "set_freelist k [] g = g" for k
  proof -
    have "(pg_freelist g)(k := []) = pg_freelist g" using assms(2) by (auto simp: fun_eq_iff)
    then show ?thesis by (simp add: set_freelist_def)
  qed
  with assms show ?thesis by (induction ks) (auto simp: Let_def)
qed

lemma big_blocks_run:
  "big_blocks n a g = set_freelist (PAGE_NSIZES - 1)
     (rev (map (\<lambda>i. a + i * (2 ^ (PAGE_NSIZES - 1) * PAGE_SIZE)) [0..<n]) @ pg_freelist g (PAGE_NSIZES - 1)) g"
proof (induction n arbitrary: a g)
  case (Suc n)
  let ?d = "2 ^ (PAGE_NSIZES - 1) * PAGE_SIZE"
  have "map (\<lambda>i. a + i * ?d) [0..<Suc n] = a # map (\<lambda>i. a + ?d + i * ?d) [0..<n]"
    by (simp add: upt_conv_Cons map_Suc_upt [symmetric] algebra_simps del: upt_Suc)
  then show ?case by (simp add: Suc push_free_def set_freelist_def del: upt_Suc)
qed (simp add: set_freelist_def)

subsection \<open>A range of whole blocks\<close>

definition map_space :: "nat \<Rightarrow> nat \<Rightarrow> nat" where
  "map_space start e = PAGEGROUP_SIZE + (\<Sum>k\<leftarrow>[1..<PAGE_NSIZES]. map_bytes ((e - start) div PAGE_SIZE) k)"

text \<open>The pages that are left for blocks.\<close>

definition usable :: "nat \<Rightarrow> nat \<Rightarrow> nat" where
  "usable start e = (page_align_down (e - map_space start e) - start) div PAGE_SIZE"

definition new_group :: "nat \<Rightarrow> nat \<Rightarrow> pagegroup" where
  "new_group start e = \<lparr>pg_freelist = (\<lambda>_. []), pg_map = (\<lambda>_ _. 0),
     pg_bits = (\<lambda>k. if k = 0 then 0 else 8 * map_bytes ((e - start) div PAGE_SIZE) k),
     pg_baseaddr = start, pg_endaddr = start + usable start e * PAGE_SIZE\<rparr>"

lemma usable_end:
  assumes "PAGE_SIZE dvd start" and "start + map_space start e \<le> e"
  shows "page_align_down (e - map_space start e) = start + usable start e * PAGE_SIZE" and "start + usable start e * PAGE_SIZE \<le> e"
proof -
  let ?x = "page_align_down (e - map_space start e)"
  obtain m where m: "start = PAGE_SIZE * m" using assms(1) by blast
  have "m \<le> (e - map_space start e) div PAGE_SIZE"
    using assms(2) m by (simp add: less_eq_div_iff_mult_less_eq mult.commute)
  then have "start \<le> ?x" using m by (simp add: page_align_down_def)
  moreover have "PAGE_SIZE dvd ?x - start" using assms(1) by (simp add: page_align_down_def dvd_diff_nat)
  ultimately show *: "?x = start + usable start e * PAGE_SIZE" by (simp add: usable_def)
  have "?x \<le> e - map_space start e" by (simp add: page_align_down_def)
  with * show "start + usable start e * PAGE_SIZE \<le> e" by linarith
qed

lemma create_run:
  assumes "PAGE_SIZE dvd start" and "start + map_space start e \<le> e"
    and "small_blocks [0..<PAGE_NSIZES - 1] (usable start e) (start + usable start e * PAGE_SIZE) (new_group start e) = (e', g)"
  shows "pagegroup_create start e = Inr (big_blocks ((e' - start) div (2 ^ (PAGE_NSIZES - 1) * PAGE_SIZE)) start (set_freelist (PAGE_NSIZES - 1) [] g))"
proof -
  have E: "PAGE_SIZE dvd start + usable start e * PAGE_SIZE" using assms(1) by simp
  then have "PAGE_SIZE dvd e' - start" using small_blocks_same [OF assms(3)] assms(1) by (simp add: dvd_diff_nat)
  moreover have "(2 :: nat) ^ (PAGE_NSIZES - 1) dvd PAGE_SIZE" by (simp add: PAGE_NSIZES_def PAGE_SIZE_def)
  ultimately have "(e' - start) mod 2 ^ (PAGE_NSIZES - 1) = 0" using dvd_trans mod_eq_0_iff_dvd by blast
  moreover have "start + (PAGEGROUP_SIZE + (\<Sum>k\<leftarrow>[1..<PAGE_NSIZES]. map_bytes ((e - start) div PAGE_SIZE) k)) \<le> e"
    using assms(2) by (simp add: map_space_def)
  moreover have "page_align_down (e - (PAGEGROUP_SIZE + (\<Sum>k\<leftarrow>[1..<PAGE_NSIZES]. map_bytes ((e - start) div PAGE_SIZE) k)))
      = start + usable start e * PAGE_SIZE" using usable_end(1) [OF assms(1,2)] by (simp add: map_space_def)
  ultimately show ?thesis using assms(3)
    by (simp only: simp_thms pagegroup_create_def Let_def check_def new_group_def if_True add_diff_cancel_left' nonzero_mult_div_cancel_right [OF PAGE_SIZE_pos [THEN less_imp_neq, symmetric]] prod.case)
qed

lemma tiles_multiples:
  "tiles (n * 2 ^ k) ((\<lambda>i. (i * 2 ^ k, k)) ` {..<n})"
proof -
  have fits: "i * 2 ^ k + 2 ^ k \<le> n * 2 ^ k" if "i < n" for i
    using mult_le_mono1 [of "Suc i" n "2 ^ k"] that by simp
  have at: "x \<in> span (i * 2 ^ k, k) \<longleftrightarrow> x div 2 ^ k = i" for x i
  proof
    assume "x \<in> span (i * 2 ^ k, k)"
    then have "i * 2 ^ k \<le> x" "x < Suc i * 2 ^ k" by (simp_all add: span_def)
    then show "x div 2 ^ k = i" by (intro div_nat_eqI) (simp_all add: mult.commute)
  next
    assume "x div 2 ^ k = i"
    then have "x = i * 2 ^ k + x mod 2 ^ k" using div_mult_mod_eq [of x "2 ^ k"] by simp
    moreover have "x mod 2 ^ k < 2 ^ k" by simp
    ultimately show "x \<in> span (i * 2 ^ k, k)" unfolding span_simps atLeastLessThan_iff by linarith
  qed
  have "x < n * 2 ^ k \<longleftrightarrow> x div 2 ^ k < n" for x :: nat by (simp add: div_less_iff_less_mult)
  then have "(\<Union>b\<in>(\<lambda>i. (i * 2 ^ k, k)) ` {..<n}. span b) = {..<n * 2 ^ k}" using at by auto
  moreover have "span (i * 2 ^ k, k) \<inter> span (j * 2 ^ k, k) = {}" if "i \<noteq> j" for i j
    using that by (auto simp: at)
  ultimately show ?thesis using fits by (auto simp: tiles_def)
qed

text \<open>The group of a range whose usable pages are whole blocks of the largest order: all its blocks
  are on that list.\<close>

lemma create_whole:
  assumes st: "PAGE_SIZE dvd start" "start + map_space start e \<le> e" "e < 2 ^ 32" and whole: "usable start e = n * 2 ^ (PAGE_NSIZES - 1)"
  shows "\<exists>g L. pagegroup_create start e = Inr g \<and> grp g L {} {} \<and> pg_baseaddr g = start
    \<and> pg_endaddr g = start + usable start e * PAGE_SIZE \<and> list_pages (pg_freelist g) = usable start e"
proof -
  let ?K = "PAGE_NSIZES - 1" and ?N = "usable start e" and ?all = "(e - start) div PAGE_SIZE" and ?new = "new_group start e"
  have K: "?K < PAGE_NSIZES" "0 < PAGE_NSIZES" by (simp_all add: PAGE_NSIZES_def)
  let ?g = "set_freelist ?K (rev (map (\<lambda>i. start + i * (2 ^ ?K * PAGE_SIZE)) [0..<n])) ?new"
  let ?L = "(\<lambda>k. if k = ?K then rev (map (\<lambda>i. i * 2 ^ ?K) [0..<n]) else []) :: nat \<Rightarrow> nat list"
  have sz: "npages ?g = ?N" by (simp add: npages_def new_group_def)
  have "\<not> bit ?N k" if "k \<in> set [0..<?K]" for k
  proof -
    have "(2 :: nat) ^ Suc k dvd 2 ^ ?K" using that by (intro le_imp_power_dvd) simp
    then have "2 ^ Suc k dvd ?N" using whole by (simp add: dvd_trans)
    then show ?thesis by (auto simp: bit_iff_odd elim!: dvdE)
  qed
  moreover have "pg_freelist ?new k = []" for k by (simp add: new_group_def)
  ultimately have sb: "small_blocks [0..<?K] ?N (start + ?N * PAGE_SIZE) ?new = (start + ?N * PAGE_SIZE, ?new)"
    by (rule small_blocks_none)
  have "(start + ?N * PAGE_SIZE - start) div (2 ^ ?K * PAGE_SIZE) = n" using whole by (simp add: mult.assoc)
  then have "pagegroup_create start e = Inr ?g"
    using create_run [OF st(1,2) sb] by (simp add: big_blocks_run)
  moreover have "grp ?g ?L {} {}"
    unfolding grp_def
  proof (intro conjI allI impI)
    have F: "free_blocks ?L = (\<lambda>i. (i * 2 ^ ?K, ?K)) ` {..<n}" using K by (auto simp: free_blocks_def split: if_splits)
    show "range_ok ?g" using st(1) whole sz by (simp add: range_ok_def) (simp add: new_group_def)
    have addr: "page_addr ?new p = start + p * PAGE_SIZE" "pg_freelist ?new k = []" for p k by (simp_all add: page_addr_def new_group_def)
    show "pg_freelist ?g k = map (page_addr ?g) (?L k)" for k
      by (cases "k = ?K") (simp_all add: addr rev_map [symmetric] comp_def mult.assoc)
    show "distinct (?L k)" for k by (simp add: distinct_map inj_on_def)
    show "tiles (npages ?g) (free_blocks ?L \<union> {})" using tiles_multiples [of n ?K] F sz whole by simp
    show "lone (free_blocks ?L) {}" using F by (auto simp: lone_def)
    show "bits_ok ?g (free_blocks ?L)"
      unfolding bits_ok_def
    proof (intro allI impI conjI)
      fix k m assume k: "Suc k < PAGE_NSIZES" and m: "(m + 1) * 2 ^ Suc k \<le> npages ?g"
      have "start + ?N * PAGE_SIZE \<le> e" by (rule usable_end(2) [OF st(1,2)])
      then have "?N \<le> ?all" by (simp add: less_eq_div_iff_mult_less_eq)
      then have m': "(m + 1) * 2 ^ Suc k \<le> ?all" using m sz by simp
      then have "m + 1 \<le> ?all div 2 ^ Suc k" by (simp add: less_eq_div_iff_mult_less_eq del: power_Suc)
      moreover have "?all < 2 ^ 31" using st(3) by (intro div_less_iff_less_mult [THEN iffD2]) (simp_all add: PAGE_SIZE_def)
      ultimately show "m < pg_bits ?g (Suc k)" using map_bytes_enough [of ?all "Suc k"] by (simp add: new_group_def del: power_Suc)
      show "pair_bit ?g (Suc k) m = (((2 * m * 2 ^ k, k) \<in> free_blocks ?L) \<noteq> (((2 * m + 1) * 2 ^ k, k) \<in> free_blocks ?L))"
        using k F by (auto simp: pair_bit_def new_group_def)
    qed
  qed auto
  moreover have "list_pages (pg_freelist ?g) = ?N"
  proof -
    have "list_pages ?L = ?N"
      using list_pages_upd [OF K(1), of "\<lambda>_. []" "rev (map (\<lambda>i. i * 2 ^ ?K) [0..<n])"] whole
      by (simp add: list_pages_def if_distrib [of length] fun_upd_def cong: if_cong)
    then show ?thesis using grp_pages [OF calculation(2)] by simp
  qed
  ultimately show ?thesis by (intro exI [of _ ?g] exI [of _ ?L]) (simp add: new_group_def)
qed

subsection \<open>Free regions\<close>

text \<open>An aligned block that meets a larger one lies inside it.\<close>

lemma nest:
  assumes "2 ^ j dvd q" and "2 ^ k dvd p" and "j \<le> k" and "x \<in> span (q, j)" and "x \<in> span (p, k)"
  shows "span (q, j) \<subseteq> span (p, k)"
proof -
  have "(2 :: nat) ^ j dvd 2 ^ k" using assms(3) by (rule le_imp_power_dvd)
  then have "2 ^ j dvd p" "2 ^ j dvd p + 2 ^ k" using assms(2) by (auto intro: dvd_trans)
  then obtain u v w where uvw: "q = u * 2 ^ j" "p = v * 2 ^ j" "p + 2 ^ k = w * 2 ^ j" using assms(1) by (metis dvdE mult.commute)
  have x: "q \<le> x" "x < q + 2 ^ j" "p \<le> x" "x < p + 2 ^ k" using assms(4,5) by (simp_all add: span_simps)
  have "v * 2 ^ j < (u + 1) * 2 ^ j" using x(2,3) uvw(1,2) by simp
  moreover have "u * 2 ^ j < w * 2 ^ j" using x(1,4) uvw(1,3) by linarith
  ultimately have "v \<le> u" "u + 1 \<le> w" unfolding mult_less_cancel2 by simp_all
  then have "v * 2 ^ j \<le> u * 2 ^ j" "(u + 1) * 2 ^ j \<le> w * 2 ^ j" by (intro mult_le_mono1; simp)+
  then have "p \<le> q" "q + 2 ^ j \<le> p + 2 ^ k" using uvw by simp_all
  then show ?thesis by (auto simp: span_simps)
qed

text \<open>The pair a block forms with its buddy.\<close>

lemma pair_span:
  assumes "2 ^ j dvd q"
  shows "q \<in> span (q div 2 ^ Suc j * 2 ^ Suc j, Suc j)" "buddy j q \<in> span (q div 2 ^ Suc j * 2 ^ Suc j, Suc j)" "2 ^ j dvd buddy j q"
  by (rule buddy_cases [OF assms]; simp add: span_simps algebra_simps)+

text \<open>A region of pages, aligned to its size, that no block in use meets is part of one free block.\<close>

lemma free_region:
  assumes g: "grp g L A {}" and k: "k < PAGE_NSIZES" and p: "2 ^ k dvd p" "p + 2 ^ k \<le> npages g" and un: "\<And>b. b \<in> A \<Longrightarrow> span b \<inter> span (p, k) = {}"
  shows "\<exists>q j. (q, j) \<in> free_blocks L \<and> k \<le> j \<and> span (p, k) \<subseteq> span (q, j)"
proof -
  note d = grpD [OF g]
  let ?F = "free_blocks L"
  note T = d(3)
  have cover: "\<exists>q i. (q, i) \<in> ?F \<and> x \<in> span (q, i)" if x: "x \<in> span (p, k)" for x
  proof -
    have "x < npages g" using x p(2) by (auto simp: span_simps)
    then obtain c where "c \<in> ?F \<union> A" "x \<in> span c" using T unfolding tiles_def by blast
    then show ?thesis using un x by (cases c) blast
  qed
  define j where "j = (LEAST j. \<exists>q. (q, j) \<in> ?F \<and> span (q, j) \<inter> span (p, k) \<noteq> {})"
  obtain q0 i0 where q0: "(q0, i0) \<in> ?F" "p \<in> span (q0, i0)" using cover [OF span_start] by blast
  then have "\<exists>q. (q, i0) \<in> ?F \<and> span (q, i0) \<inter> span (p, k) \<noteq> {}" using span_start [of p k] by blast
  then have "\<exists>q. (q, j) \<in> ?F \<and> span (q, j) \<inter> span (p, k) \<noteq> {}" unfolding j_def by (rule LeastI)
  then obtain q x where q: "(q, j) \<in> ?F" "x \<in> span (q, j)" "x \<in> span (p, k)" by blast
  have least: "j \<le> i" if "(r, i) \<in> ?F" "y \<in> span (r, i)" "y \<in> span (p, k)" for r i y unfolding j_def using that by (intro Least_le) blast
  have al: "2 ^ i dvd r" if "(r, i) \<in> ?F" for r i using tilesD(1) [OF T, of r i] that by blast
  have "k \<le> j"
  proof (rule ccontr)
    assume "\<not> k \<le> j"
    then have jk: "Suc j \<le> k" by simp
    let ?P = "span (q div 2 ^ Suc j * 2 ^ Suc j, Suc j)"
    note pr = pair_span [OF al [OF q(1)]]
    have inside: "span (q, j) \<subseteq> span (p, k)" using nest [OF al [OF q(1)] p(1) _ q(2,3)] jk by simp
    have P: "?P \<subseteq> span (p, k)" using nest [OF _ p(1) jk pr(1)] inside span_start [of q j] by auto
    then have "buddy j q \<in> span (p, k)" using pr(2) by blast
    from cover [OF this] obtain r i where r: "(r, i) \<in> ?F" "buddy j q \<in> span (r, i)" by blast
    show False
    proof (cases "i = j")
      case True
      have "span (r, j) \<subseteq> span (buddy j q, j)" using nest [OF al pr(3) order_refl] r True span_start by blast
      moreover have "span (buddy j q, j) \<subseteq> span (r, j)" using nest [OF pr(3) al order_refl] r True span_start by blast
      ultimately have "r = buddy j q" using span_start [of r j] span_start [of "buddy j q" j] by (force simp: span_simps)
      then show False using d(5) q(1) r(1) True jk k by (auto simp: lone_def)
    next
      case False
      then have "Suc j \<le> i" using least [OF r] \<open>buddy j q \<in> span (p, k)\<close> by simp
      then have "?P \<subseteq> span (r, i)" using nest [OF _ al [OF r(1)] _ pr(2) r(2)] by simp
      then have "(r, i) = (q, j)" using tiles_unique [OF T, of "(r, i)" "(q, j)" q] pr(1) r(1) q(1) span_start by blast
      then show False using False by simp
    qed
  qed
  then have "k \<le> i0" using least [OF q0 span_start] by simp
  then have "span (p, k) \<subseteq> span (q0, i0)" using nest [OF p(1) al [OF q0(1)] _ span_start q0(2)] by simp
  then show ?thesis using q0(1) \<open>k \<le> i0\<close> by blast
qed

lemma all_joined:
  assumes g: "grp g L {} {}" and k: "k < PAGE_NSIZES - 1"
  shows "L k = []"
proof (rule ccontr)
  let ?K = "PAGE_NSIZES - 1"
  note d = grpD [OF g]
  have T: "tiles (npages g) (free_blocks L)" using d(3) by simp
  assume "L k \<noteq> []"
  then have "hd (L k) \<in> set (L k)" by (rule hd_in_set)
  then have "(hd (L k), k) \<in> free_blocks L" using k by (simp add: free_blocks_iff)
  then obtain q where q: "(q, k) \<in> free_blocks L" by blast
  let ?p = "q div 2 ^ ?K * 2 ^ ?K"
  obtain m where m: "npages g = m * 2 ^ ?K" using d(1) by (auto simp: range_ok_def mult.commute elim!: dvdE)
  have "q div 2 ^ ?K < m" using tilesD(3) [OF T q] m by (simp add: div_less_iff_less_mult)
  then have "?p + 2 ^ ?K \<le> npages g" using mult_le_mono1 [of "Suc (q div 2 ^ ?K)" m "2 ^ ?K"] m by simp
  moreover have "?K < PAGE_NSIZES" "2 ^ ?K dvd ?p" by (simp_all add: PAGE_NSIZES_def)
  ultimately obtain r j where r: "(r, j) \<in> free_blocks L" "?K \<le> j" "span (?p, ?K) \<subseteq> span (r, j)" using free_region [OF g, of ?K ?p] by blast
  have "q \<in> span (?p, ?K)" 
  proof -
    have "q mod 2 ^ ?K < 2 ^ ?K" by simp
    then show ?thesis using div_mult_mod_eq [of q "2 ^ ?K"] unfolding span_simps atLeastLessThan_iff by linarith
  qed
  then have "(r, j) = (q, k)" using tiles_unique [OF T r(1) q] r(3) span_start by blast
  then show False using r(2) k by simp
qed

section \<open>Left-over blocks\<close>

text \<open>
  A range whose size is no multiple of the largest block: the blocks left over at its end start on the lists with
  the bit of their pair clear, as if their buddies were free as well.  Freeing the last of them
  after it was allocated makes \<open>__page_join\<close> look for a buddy that lies beyond the group.
\<close>

lemma small_blocks_append:
  "small_blocks (ks @ js) n e g = (case small_blocks ks n e g of (e, g) \<Rightarrow> small_blocks js n e g)"
  by (induction ks n e g rule: small_blocks.induct) (simp_all add: Let_def)

lemma lowest_bit:
  assumes "(n :: nat) mod 2 ^ Suc k = 2 ^ k"
  shows "bit n k" "i < k \<Longrightarrow> \<not> bit n i"
proof -
  have t: "take_bit (Suc k) n = 2 ^ k" using assms by (simp add: take_bit_eq_mod)
  have "bit n i \<longleftrightarrow> i = k" if "i < Suc k" for i
    using that bit_take_bit_iff [of "Suc k" n i] bit_exp_iff [of k i, where 'a = nat] unfolding t by auto
  then show "bit n k" "i < k \<Longrightarrow> \<not> bit n i" by auto
qed

text \<open>The last block that is left over.\<close>

lemma leftover_block:
  assumes st: "PAGE_SIZE dvd start" "start + map_space start e \<le> e"
    and k: "k < PAGE_NSIZES - 1" and n: "usable start e mod 2 ^ Suc k = 2 ^ k"
  shows "\<exists>g. pagegroup_create start e = Inr g \<and> pg_map g = (\<lambda>_ _. 0) \<and> pg_baseaddr g = start
    \<and> pg_endaddr g = start + usable start e * PAGE_SIZE
    \<and> pg_freelist g k = [start + (usable start e - 2 ^ k) * PAGE_SIZE]
    \<and> (\<forall>j. start + usable start e * PAGE_SIZE \<notin> set (pg_freelist g j))"
proof -
  let ?N = "usable start e" and ?h = "new_group start e" and ?K = "PAGE_NSIZES - 1"
  let ?E = "start + ?N * PAGE_SIZE" and ?a = "start + (?N - 2 ^ k) * PAGE_SIZE"
  have Nk: "2 ^ k \<le> ?N" using n mod_less_eq_dividend [of ?N "2 ^ Suc k"] by simp
  have "[0..<?K] = [0..<k] @ k # [Suc k..<?K]"
    using upt_add_eq_append [of 0 k "?K - k"] upt_conv_Cons [of k ?K] k by simp
  moreover have "small_blocks [0..<k] ?N ?E ?h = (?E, ?h)"
    by (rule small_blocks_none) (auto simp: lowest_bit(2) [OF n] new_group_def)
  moreover have "?E - 2 ^ k * PAGE_SIZE = ?a" using Nk by (simp add: diff_mult_distrib)
  ultimately have sb: "small_blocks [0..<?K] ?N ?E ?h = small_blocks [Suc k..<?K] ?N ?a (push_free k ?a (set_freelist k [] ?h))"
    using lowest_bit(1) [OF n] by (simp add: small_blocks_append Let_def)
  obtain e' g where g: "small_blocks [0..<?K] ?N ?E ?h = (e', g)" by fastforce
  let ?n = "(e' - start) div (2 ^ ?K * PAGE_SIZE)"
  let ?g = "big_blocks ?n start (set_freelist ?K [] g)"
  have cr: "pagegroup_create start e = Inr ?g" by (rule create_run [OF st g])
  have E: "0 < ?E" using Nk by (metis add_is_0 gr0I mult_is_0 PAGE_SIZE_pos le_zero_eq power_not_zero less_numeral_extra(3) zero_neq_numeral)
  note same = small_blocks_same [OF g]
  have "pg_freelist g k = [?a]"
    using small_blocks_other [of k "[Suc k..<?K]" ?N ?a "push_free k ?a (set_freelist k [] ?h)"] g unfolding sb by simp
  then have one: "pg_freelist ?g k = [?a]" using k by (simp add: big_blocks_run)
  have below: "x < ?E" if "x \<in> set (pg_freelist g j)" for x j
    by (rule small_blocks_below [OF g E order_refl _ that]) (simp add: new_group_def)
  have "x < ?E" if x: "x \<in> set (pg_freelist ?g j)" for x j
  proof (cases "x \<in> set (pg_freelist g j)")
    case False
    then obtain i where i: "i < ?n" "x = start + i * (2 ^ ?K * PAGE_SIZE)" using x by (auto simp: big_blocks_run split: if_splits)
    have "i * (2 ^ ?K * PAGE_SIZE) < e' - start"
    proof -
      have "?n * (2 ^ ?K * PAGE_SIZE) \<le> e' - start" by (rule div_times_less_eq_dividend)
      moreover have "i * (2 ^ ?K * PAGE_SIZE) < ?n * (2 ^ ?K * PAGE_SIZE)" using i(1) by simp
      ultimately show ?thesis by linarith
    qed
    then show ?thesis using i(2) same by linarith
  qed (rule below)
  then have "?E \<notin> set (pg_freelist ?g j)" for j by blast
  with cr one same show ?thesis by (intro exI [of _ ?g]) (simp add: big_blocks_run new_group_def)
qed

lemma join_missing:
  assumes "k < PAGE_NSIZES - 1" and "check_at (Suc k) a g = Inr False" and "(a - pg_baseaddr g) mod 2 ^ k = 0"
    and "\<And>j. buddy_of k a g \<notin> set (pg_freelist g j)"
  shows "page_join k a g = Inl Wild_access"
proof (cases "list_of a g")
  case (Some j)
  let ?h = "set_freelist j (remove1 a (pg_freelist g j)) g"
  have "buddy_of k a g \<notin> set (pg_freelist ?h i)" for i using assms(4) by (auto dest: notin_set_remove1)
  then have "list_of (buddy_of k a g) ?h = None" by (simp add: list_of_def find_None_iff)
  then show ?thesis using Some by (simp add: page_join_simps(3) [OF assms(1-3)] unlink_page_def)
qed (simp add: page_join_simps(3) [OF assms(1-3)] unlink_page_def)

lemma leftover_index:
  assumes "PAGE_SIZE dvd start" and "pg_baseaddr h = start" and "pg_endaddr h = start + N * PAGE_SIZE" and "2 ^ k \<le> N" and "Suc k < PAGE_NSIZES"
  shows "calculate_index (Suc k) (start + (N - 2 ^ k) * PAGE_SIZE) h = Inr ((N - 2 ^ k) div 2 ^ Suc k)"
proof -
  let ?p = "N - 2 ^ k"
  have "(2 :: nat) ^ Suc k dvd PAGE_SIZE"
    unfolding PAGE_SIZE_power using assms(5) by (intro le_imp_power_dvd) (simp add: PAGE_NSIZES_def PAGE_SHIFT_def)
  then have "?p * PAGE_SIZE mod 2 ^ Suc k = 0" by (simp add: dvd_mult del: power_Suc)
  moreover have "?p * PAGE_SIZE div 2 ^ Suc k div 2 ^ PAGE_SHIFT = ?p div 2 ^ Suc k"
    by (simp add: PAGE_SIZE_power div_mult2_eq [symmetric] mult.commute [of "2 ^ Suc k"] del: power_Suc)
  moreover have "?p < N" using assms(4) by (metis diff_less le_less_trans le_zero_eq not_gr_zero power_not_zero zero_neq_numeral zero_less_power zero_less_numeral)
  ultimately show ?thesis using assms by (simp add: calculate_index_def check_def del: power_Suc)
qed

lemma leftover_run:
  assumes st: "PAGE_SIZE dvd start" and b: "pg_baseaddr g = start" "pg_endaddr g = start + N * PAGE_SIZE" "pg_map g = (\<lambda>_ _. 0)"
    and k: "k < PAGE_NSIZES - 1" and n: "N mod 2 ^ Suc k = 2 ^ k"
    and l: "pg_freelist g k = [start + (N - 2 ^ k) * PAGE_SIZE]" "\<And>j. start + N * PAGE_SIZE \<notin> set (pg_freelist g j)"
  shows "bnd (find_block k \<lparr>pagegroup_list = [g], page_freecount = c\<rparr>)
    (\<lambda>(r, s). case r of None \<Rightarrow> Inr s | Some a \<Rightarrow> page_free_order a k s) = Inl Wild_access"
proof -
  let ?p = "N - 2 ^ k" and ?i = "(N - 2 ^ k) div 2 ^ Suc k"
  let ?a = "start + ?p * PAGE_SIZE"
  have Nk: "2 ^ k \<le> N" using n mod_less_eq_dividend [of N "2 ^ Suc k"] by simp
  have "(0 :: nat) < 2 ^ k" by simp
  then have lt: "?p < N" using Nk by linarith
  have K: "Suc k < PAGE_NSIZES" using k by simp
  have idx: "calculate_index (Suc k) ?a h = Inr ?i" if "pg_baseaddr h = start" "pg_endaddr h = start + N * PAGE_SIZE" for h
    by (rule leftover_index [OF st that Nk K])
  have with0: "group_with k \<lparr>pagegroup_list = [g], page_freecount = c\<rparr> = Some 0" using l(1) by (simp add: group_with_def)
  let ?g1 = "set_freelist k [] g"
  have pop: "pop_block k g = bit_flip (Suc k) ?i ?g1" using l(1) k idx [of ?g1] b by (simp add: pop_block_def mark_def flip_at_def)
  show ?thesis
  proof (cases "?i < pg_bits g (Suc k)")
    case False
    then have "pop_block k g = Inl Wild_access" using pop by (simp add: bit_flip_def check_def)
    then show ?thesis using with0 by (simp add: find_block_def take_block_def on_group_def)
  next
    case True
    from bit_flip_run [of ?i ?g1 "Suc k"] True obtain m where m: "bit_flip (Suc k) ?i ?g1 = Inr (?g1\<lparr>pg_map := m\<rparr>)"
      "\<And>j i. pair_bit (?g1\<lparr>pg_map := m\<rparr>) j i = (pair_bit ?g1 j i \<noteq> (j = Suc k \<and> i = ?i))" by auto
    let ?g2 = "push_free k ?a (?g1\<lparr>pg_map := m\<rparr>)"
    have bits: "pg_bits ?g2 = pg_bits g" by (simp add: push_free_def)
    from bit_flip_run [of ?i ?g2 "Suc k"] True obtain m' where m': "bit_flip (Suc k) ?i ?g2 = Inr (?g2\<lparr>pg_map := m'\<rparr>)"
      "\<And>j i. pair_bit (?g2\<lparr>pg_map := m'\<rparr>) j i = (pair_bit ?g2 j i \<noteq> (j = Suc k \<and> i = ?i))" unfolding bits by auto
    let ?g3 = "?g2\<lparr>pg_map := m'\<rparr>"
    have f: "find_block k \<lparr>pagegroup_list = [g], page_freecount = c\<rparr> =
        Inr (Some ?a, \<lparr>pagegroup_list = [?g1\<lparr>pg_map := m\<rparr>], page_freecount = c - 2 ^ k\<rparr>)"
      using with0 pop m(1) l(1) by (simp add: find_block_def take_block_def on_group_def)
    have base: "pg_baseaddr ?g3 = start" "pg_endaddr ?g3 = start + N * PAGE_SIZE" using b by simp_all
    have "\<not> pair_bit ?g3 (Suc k) ?i" using m(2) m'(2) b(3) by (simp add: pair_bit_def push_free_def)
    then have "check_at (Suc k) ?a ?g3 = Inr False"
      using idx [OF base] bit_check_run [of ?i ?g3 "Suc k"] True bits by (simp add: check_at_def)
    moreover have odd: "odd (N div 2 ^ k)" using lowest_bit(1) [OF n] by (simp add: bit_iff_odd)
    have "?p div 2 ^ k = N div 2 ^ k - 1" using le_div_geq [of "2 ^ k" N] Nk by simp
    then have "even (?p div 2 ^ k)" using odd by simp
    then have "buddy_of k ?a ?g3 = start + N * PAGE_SIZE"
      using base Nk by (simp add: buddy_of_def Let_def PAGE_SIZE_power [symmetric] add_mult_distrib [symmetric])
    moreover have "?a \<noteq> start + N * PAGE_SIZE" using lt by (simp add: PAGE_SIZE_def)
    then have "start + N * PAGE_SIZE \<notin> set (pg_freelist ?g3 j)" for j using l(2) by simp
    moreover have "(?a - pg_baseaddr ?g3) mod 2 ^ k = 0"
    proof -
      have "(2 :: nat) ^ k dvd PAGE_SIZE"
        unfolding PAGE_SIZE_power using k by (intro le_imp_power_dvd) (simp add: PAGE_NSIZES_def PAGE_SHIFT_def)
      then show ?thesis using base by simp
    qed
    ultimately have "page_join k ?a ?g3 = Inl Wild_access" by (intro join_missing [OF k]) auto
    moreover have "group_of ?a \<lparr>pagegroup_list = [?g1\<lparr>pg_map := m\<rparr>], page_freecount = c - 2 ^ k\<rparr> = Some 0"
      using b lt by (simp add: group_of_def Let_def PAGE_SIZE_def)
    ultimately show ?thesis using f m'(1) idx [of ?g2] b k by (simp add: page_free_order_def on_group_def flip_at_def Let_def)
  qed
qed

end
