(* ===== verification/Pgreach.thy ===== *)
theory Pgreach
  imports Pgrange
begin

text \<open>
  The page allocator in use: ranges are added, blocks are allocated and freed with the order they were
  allocated with.  \<open>page_reach s U\<close>: the allocator may be in state \<open>s\<close> with the blocks \<open>U\<close> in use.
  A range is \<open>whole\<close> if the pages left beside the maps are blocks of the largest order; \<open>Pgrange\<close> shows what other
  ranges do.
\<close>

subsection \<open>The contract of an allocator\<close>

text \<open>
  What the allocators of pages and of objects promise their users.  \<open>inv s U\<close>: the allocator is in state
  \<open>s\<close> with the pieces \<open>U\<close> in use; \<open>bytes\<close> are the bytes of a piece, \<open>get\<close> takes one, \<open>give\<close> gives one back;
  \<open>able\<close> are the requests a user may make.
\<close>

locale pool =
  fixes inv :: "'s \<Rightarrow> 'o set \<Rightarrow> bool"
    and bytes :: "'s \<Rightarrow> 'o \<Rightarrow> nat set"
    and able :: "'r \<Rightarrow> 's \<Rightarrow> bool"
    and get :: "'r \<Rightarrow> 's \<Rightarrow> kfault + ('o option \<times> 's)"
    and give :: "'o \<Rightarrow> 's \<Rightarrow> kfault + 's"
  assumes apart: "inv s U \<Longrightarrow> b \<in> U \<Longrightarrow> c \<in> U \<Longrightarrow> b \<noteq> c \<Longrightarrow> bytes s b \<inter> bytes s c = {}"
    and total: "inv s U \<Longrightarrow> able r s \<Longrightarrow> \<exists>b s'. get r s = Inr (b, s')"
    and got: "inv s U \<Longrightarrow> able r s \<Longrightarrow> get r s = Inr (Some b, s') \<Longrightarrow> b \<notin> U \<and> inv s' (insert b U)"
    and none: "inv s U \<Longrightarrow> able r s \<Longrightarrow> get r s = Inr (None, s') \<Longrightarrow> inv s' U"
    and given: "inv s U \<Longrightarrow> b \<in> U \<Longrightarrow> \<exists>s'. give b s = Inr s' \<and> inv s' (U - {b})"
begin

lemma got_apart: "inv s U \<Longrightarrow> able r s \<Longrightarrow> get r s = Inr (Some b, s') \<Longrightarrow> c \<in> U \<Longrightarrow> bytes s' b \<inter> bytes s' c = {}"
  using got [of s U r b s'] apart [of s' "insert b U" b c] by blast

lemma get_give: "inv s U \<Longrightarrow> able r s \<Longrightarrow> get r s = Inr (Some b, s') \<Longrightarrow> \<exists>s''. give b s' = Inr s'' \<and> inv s'' U"
  using got [of s U r b s'] given [of s' "insert b U" b] by fastforce

text \<open>Pieces can be given back in any order; afterwards the others are in use.\<close>

lemma give_all:
  "inv s U \<Longrightarrow> set bs \<subseteq> U \<Longrightarrow> distinct bs \<Longrightarrow> \<exists>s'. foldl (\<lambda>m b. bnd m (give b)) (Inr s) bs = Inr s' \<and> inv s' (U - set bs)"
proof (induction bs arbitrary: s U)
  case (Cons b bs)
  from given [OF Cons.prems(1), of b] Cons.prems(2) obtain s1 where s1: "give b s = Inr s1" "inv s1 (U - {b})" by auto
  have "set bs \<subseteq> U - {b}" "distinct bs" using Cons.prems(2,3) by auto
  from Cons.IH [OF s1(2) this] obtain s' where s': "foldl (\<lambda>m b. bnd m (give b)) (Inr s1) bs = Inr s'" "inv s' (U - {b} - set bs)" by blast
  have "U - {b} - set bs = U - set (b # bs)" by auto
  with s' s1(1) show ?case by auto
qed auto

end

subsection \<open>States of the page allocator\<close>

definition whole_range :: "nat \<Rightarrow> nat \<Rightarrow> bool" where
  "whole_range start e \<longleftrightarrow> 0 < start \<and> start mod PAGE_SIZE = 0 \<and> e mod PAGE_SIZE = 0 \<and> e < 2 ^ 32
     \<and> start + map_space start e \<le> e \<and> usable start e mod 2 ^ (PAGE_NSIZES - 1) = 0"

definition apart :: "nat \<Rightarrow> nat \<Rightarrow> pages \<Rightarrow> bool" where
  "apart start e s \<longleftrightarrow> (\<forall>g\<in>set (pagegroup_list s). e \<le> pg_baseaddr g \<or> pg_endaddr g \<le> start)"

inductive page_reach :: "pages \<Rightarrow> (nat \<times> nat) set \<Rightarrow> bool" where
  boot: "page_reach page_init {}"
| range: "page_reach s U \<Longrightarrow> whole_range start e \<Longrightarrow> apart start e s \<Longrightarrow> page_add_range start e s = Inr s' \<Longrightarrow> page_reach s' U"
| alloc: "page_reach s U \<Longrightarrow> k < PAGE_NSIZES \<Longrightarrow> find_block k s = Inr (Some a, s') \<Longrightarrow> page_reach s' (insert (a, k) U)"
| free: "page_reach s U \<Longrightarrow> (a, k) \<in> U \<Longrightarrow> page_free_order a k s = Inr s' \<Longrightarrow> page_reach s' (U - {(a, k)})"

definition pages_total :: "pages \<Rightarrow> nat" where
  "pages_total s = (\<Sum>g\<leftarrow>pagegroup_list s. npages g)"

subsection \<open>Adding a range\<close>

lemma add_range_run:
  assumes ok: "groups_ok s U" and w: "whole_range start e" and ap: "apart start e s"
  shows "\<exists>s'. page_add_range start e s = Inr s' \<and> groups_ok s' U \<and> page_freecount s' = page_freecount s + int (usable start e)
    \<and> pages_total s' = pages_total s + usable start e"
proof -
  have st: "PAGE_SIZE dvd start" "start + map_space start e \<le> e" "e < 2 ^ 32" "page_align_down start = start" "page_align_down e = e"
    using w by (auto simp: whole_range_def page_align_down_def)
  have whole: "usable start e = usable start e div 2 ^ (PAGE_NSIZES - 1) * 2 ^ (PAGE_NSIZES - 1)"
    using w by (auto simp: whole_range_def)
  from create_whole [OF st(1-3) whole] obtain g L where g: "pagegroup_create start e = Inr g" "grp g L {} {}" "pg_baseaddr g = start"
    "pg_endaddr g = start + usable start e * PAGE_SIZE" "list_pages (pg_freelist g) = usable start e" by blast
  have np: "npages g = usable start e" using g(3,4) by (simp add: npages_def)
  show ?thesis
  proof (cases "usable start e = 0")
    case True
    then show ?thesis using g ok st by (simp add: page_add_range_def)
  next
    case False
    let ?gs = "pagegroup_list s"
    let ?s' = "s\<lparr>pagegroup_list := ?gs @ [g], page_freecount := page_freecount s + int (usable start e)\<rparr>"
    have run: "page_add_range start e s = Inr ?s'" using g False st by (simp add: page_add_range_def)
    have end': "pg_endaddr g \<le> e" using usable_end(2) [OF st(1,2)] g(4) by simp
    have out: "\<not> (in_group a h \<and> in_group a g)" if "h \<in> set ?gs" for a h
      using bspec [OF ap [unfolded apart_def] that] end' g(3) unfolding in_group_def by linarith
    have used: "\<not> in_group a g" if "(a, k) \<in> U" for a k
      using ok that out unfolding groups_ok_def by blast
    have "alloc_in g U = {}" using used page_in_group [OF grpD(1) [OF g(2)]] by (auto simp: alloc_in_def)
    then have "\<exists>L. grp g L (alloc_in g U) {}" using g(2) by auto
    moreover have "i = j" if "i < length (?gs @ [g])" "j < length (?gs @ [g])" "in_group a ((?gs @ [g]) ! i)" "in_group a ((?gs @ [g]) ! j)" for i j a
    proof -
      have one: "i = j" if "i < length ?gs" "j < length ?gs" "in_group a (?gs ! i)" "in_group a (?gs ! j)" for i j
        using ok that unfolding groups_ok_def by blast
      show ?thesis using that one out [OF nth_mem, of i a] out [OF nth_mem, of j a] by (auto simp: nth_append less_Suc_eq split: if_splits)
    qed
    ultimately have "groups_ok ?s' U" using ok used g(5) by (auto simp: groups_ok_def)
    then show ?thesis using run np by (simp add: pages_total_def)
  qed
qed

subsection \<open>The invariant on reachable states\<close>

lemma init_ok: "groups_ok page_init {}"
  by (simp add: groups_ok_def page_init_def)

lemma same_total:
  assumes "map pg_baseaddr (pagegroup_list s') = map pg_baseaddr (pagegroup_list s)"
    and "map pg_endaddr (pagegroup_list s') = map pg_endaddr (pagegroup_list s)"
  shows "pages_total s' = pages_total s"
proof -
  have l: "length (pagegroup_list s') = length (pagegroup_list s)" using assms(1) by (rule map_eq_imp_length_eq)
  have "map npages (pagegroup_list s') = map npages (pagegroup_list s)"
  proof (rule nth_equalityI)
    fix i assume "i < length (map npages (pagegroup_list s'))"
    then have i: "i < length (pagegroup_list s')" "i < length (pagegroup_list s)" using l by simp_all
    have "pg_baseaddr (pagegroup_list s' ! i) = pg_baseaddr (pagegroup_list s ! i)"
      "pg_endaddr (pagegroup_list s' ! i) = pg_endaddr (pagegroup_list s ! i)"
      using arg_cong [OF assms(1), of "\<lambda>xs. xs ! i"] arg_cong [OF assms(2), of "\<lambda>xs. xs ! i"] i by simp_all
    then show "map npages (pagegroup_list s') ! i = map npages (pagegroup_list s) ! i" using i by (simp add: npages_def)
  qed (simp add: l)
  then show ?thesis by (simp add: pages_total_def)
qed

lemma find_some_run:
  assumes "groups_ok s U" and "k < PAGE_NSIZES" and "find_block k s = Inr (Some a, s')"
  shows "groups_ok s' (insert (a, k) U)" "(a, k) \<notin> U" "page_freecount s' = page_freecount s - 2 ^ k" "pages_total s' = pages_total s"
  using find_block_run [OF assms(1,2)] assms(3) same_total [of s' s] by auto

lemma free_some_run:
  assumes "groups_ok s U" and "(a, k) \<in> U" and "page_free_order a k s = Inr s'"
  shows "groups_ok s' (U - {(a, k)})" "page_freecount s' = page_freecount s + 2 ^ k" "pages_total s' = pages_total s"
  using free_order_run [OF assms(1,2)] assms(3) same_total [of s' s] by auto

lemma reach_ok: "page_reach s U \<Longrightarrow> groups_ok s U"
proof (induction rule: page_reach.induct)
  case (range s U start e s')
  then show ?case using add_range_run [of s U start e] by auto
qed (simp_all add: init_ok find_some_run free_some_run)

lemma reach_pages: "page_reach s U \<Longrightarrow> finite U \<and> page_freecount s + (\<Sum>(a, k)\<in>U. 2 ^ k) = int (pages_total s)"
proof (induction rule: page_reach.induct)
  case boot
  then show ?case by (simp add: page_init_def pages_total_def)
next
  case (range s U start e s')
  then show ?case using add_range_run [OF reach_ok [OF range(1)] range(2,3)] by auto
next
  case (alloc s U k a s')
  note r = find_some_run [OF reach_ok [OF alloc(1)] alloc(2,3)]
  have "(\<Sum>(a, k)\<in>insert (a, k) U. 2 ^ k :: int) = 2 ^ k + (\<Sum>(a, k)\<in>U. 2 ^ k)"
    using r(2) alloc(4) by (subst sum.insert) simp_all
  then show ?case using r alloc(4) by simp
next
  case (free s U a k s')
  note r = free_some_run [OF reach_ok [OF free(1)] free(2,3)]
  have "(\<Sum>(a, k)\<in>U. 2 ^ k :: int) = 2 ^ k + (\<Sum>(a, k)\<in>U - {(a, k)}. 2 ^ k)"
    using free(2,4) by (subst sum.remove [of U "(a, k)"]) simp_all
  then show ?case using r free(4) by simp
qed

subsection \<open>Blocks in use\<close>

definition block_bytes :: "nat \<Rightarrow> nat \<Rightarrow> nat set" where
  "block_bytes a k = {a..<a + 2 ^ k * PAGE_SIZE}"

lemma block_place:
  assumes "groups_ok s U" and "(a, k) \<in> U"
  obtains i p where "i < length (pagegroup_list s)" "a = page_addr (pagegroup_list s ! i) p" "(p, k) \<in> alloc_in (pagegroup_list s ! i) U"
    "p + 2 ^ k \<le> npages (pagegroup_list s ! i)" "range_ok (pagegroup_list s ! i)"
proof -
  obtain g where g: "g \<in> set (pagegroup_list s)" "in_group a g" using assms unfolding groups_ok_def by blast
  then obtain p where p: "p < npages g" "a = page_addr g p" using assms unfolding groups_ok_def by blast
  then have A: "(p, k) \<in> alloc_in g U" using assms(2) by (simp add: alloc_in_def)
  obtain L where L: "grp g L (alloc_in g U) {}" using assms(1) g(1) unfolding groups_ok_def by blast
  have "(p, k) \<in> free_blocks L \<union> alloc_in g U" using A by simp
  note t = tilesD(2) [OF grpD(3) [OF L] this]
  obtain i where "i < length (pagegroup_list s)" "pagegroup_list s ! i = g" using g(1) by (auto simp: in_set_conv_nth)
  with that p(2) A t grpD(1) [OF L] show ?thesis by blast
qed

lemma block_bytes_page:
  assumes "x \<in> block_bytes (page_addr g p) k" and "p + 2 ^ k \<le> npages g" and "range_ok g"
  shows "in_group x g" "(x - pg_baseaddr g) div PAGE_SIZE \<in> span (p, k)"
proof -
  have x: "pg_baseaddr g + p * PAGE_SIZE \<le> x" "x < pg_baseaddr g + (p + 2 ^ k) * PAGE_SIZE"
    using assms(1) by (simp_all add: block_bytes_def page_addr_def algebra_simps)
  moreover have "(p + 2 ^ k) * PAGE_SIZE \<le> npages g * PAGE_SIZE" using assms(2) by (rule mult_le_mono1)
  ultimately show "in_group x g" using assms(3) unfolding in_group_def range_ok_def by linarith
  have "p * PAGE_SIZE \<le> x - pg_baseaddr g" "x - pg_baseaddr g < (p + 2 ^ k) * PAGE_SIZE" using x by linarith+
  then show "(x - pg_baseaddr g) div PAGE_SIZE \<in> span (p, k)"
    by (simp add: span_simps less_eq_div_iff_mult_less_eq div_less_iff_less_mult)
qed

lemma blocks_apart:
  assumes ok: "groups_ok s U" and u: "(a, j) \<in> U" "(b, k) \<in> U" "(a, j) \<noteq> (b, k)"
  shows "block_bytes a j \<inter> block_bytes b k = {}"
proof (rule ccontr)
  assume "block_bytes a j \<inter> block_bytes b k \<noteq> {}"
  then obtain x where x: "x \<in> block_bytes a j" "x \<in> block_bytes b k" by blast
  obtain i p where p: "i < length (pagegroup_list s)" "a = page_addr (pagegroup_list s ! i) p" "(p, j) \<in> alloc_in (pagegroup_list s ! i) U"
    "p + 2 ^ j \<le> npages (pagegroup_list s ! i)" "range_ok (pagegroup_list s ! i)" by (rule block_place [OF ok u(1)])
  obtain l q where q: "l < length (pagegroup_list s)" "b = page_addr (pagegroup_list s ! l) q" "(q, k) \<in> alloc_in (pagegroup_list s ! l) U"
    "q + 2 ^ k \<le> npages (pagegroup_list s ! l)" "range_ok (pagegroup_list s ! l)" by (rule block_place [OF ok u(2)])
  let ?g = "pagegroup_list s ! i"
  note xp = block_bytes_page [OF x(1) [unfolded p(2)] p(4,5)] and xq = block_bytes_page [OF x(2) [unfolded q(2)] q(4,5)]
  have il: "i = l" using ok p(1) q(1) xp(1) xq(1) unfolding groups_ok_def by blast
  obtain L where L: "grp ?g L (alloc_in ?g U) {}" by (rule grp_at [OF ok p(1)])
  have "(p, j) \<in> free_blocks L \<union> alloc_in ?g U" "(q, k) \<in> free_blocks L \<union> alloc_in ?g U" using p(3) q(3) il by simp_all
  from tiles_unique [OF grpD(3) [OF L] this xp(2)] xq(2) il have "(p, j) = (q, k)" by simp
  then show False using p(2) q(2) il u(3) by simp
qed

subsection \<open>The pages as an allocator\<close>

definition page_get :: "nat \<Rightarrow> pages \<Rightarrow> kfault + ((nat \<times> nat) option \<times> pages)" where
  "page_get k s = bnd (find_block k s) (\<lambda>(a, s). Inr (map_option (\<lambda>a. (a, k)) a, s))"

lemma page_get_eq:
  "page_get k s = Inr (Some b, s') \<longleftrightarrow> (\<exists>a. b = (a, k) \<and> find_block k s = Inr (Some a, s'))"
  "page_get k s = Inr (None, s') \<longleftrightarrow> find_block k s = Inr (None, s')"
  by (auto simp: page_get_def bnd_eq_Inr)

interpretation page_pool: pool page_reach "\<lambda>s (a, k). block_bytes a k" "\<lambda>k s. k < PAGE_NSIZES" page_get "\<lambda>(a, k). page_free_order a k"
proof
  fix s U b c assume "page_reach s U" "b \<in> U" "c \<in> U" "b \<noteq> c"
  then show "(case b of (a, k) \<Rightarrow> block_bytes a k) \<inter> (case c of (a, k) \<Rightarrow> block_bytes a k) = {}"
    using blocks_apart [OF reach_ok] by (cases b, cases c) auto
next
  fix s U k assume "page_reach s U" "k < PAGE_NSIZES"
  from find_block_run [OF reach_ok [OF this(1)] this(2)] show "\<exists>b s'. page_get k s = Inr (b, s')" by (auto simp: page_get_def)
next
  fix s U k b s' assume h: "page_reach s U" "k < PAGE_NSIZES" "page_get k s = Inr (Some b, s')"
  then obtain a where a: "b = (a, k)" "find_block k s = Inr (Some a, s')" by (auto simp: page_get_eq)
  show "b \<notin> U \<and> page_reach s' (insert b U)"
    using find_some_run(2) [OF reach_ok [OF h(1)] h(2) a(2)] page_reach.alloc [OF h(1,2) a(2)] a(1) by simp
next
  fix s U k s' assume h: "page_reach s U" "k < PAGE_NSIZES" "page_get k s = Inr (None, s')"
  then have "s' = s" using find_block_run [OF reach_ok [OF h(1)] h(2)] by (auto simp: page_get_eq)
  then show "page_reach s' U" using h(1) by simp
next
  fix s U b assume h: "page_reach s U" "b \<in> U"
  obtain a k where b: "b = (a, k)" by (cases b)
  then show "\<exists>s'. (case b of (a, k) \<Rightarrow> page_free_order a k) s = Inr s' \<and> page_reach s' (U - {b})"
    using free_order_run [OF reach_ok [OF h(1)]] page_reach.free [OF h(1)] h(2) by fastforce
qed

end
