(* ===== verification/Slinv.thy ===== *)
theory Slinv
  imports Slbase Pgreach
begin

text \<open>
  The invariant of the kernel memory: every slab is a block of pages in use, of its own; its free
  objects are a part of its objects, its counter counts the others, and the flags and pointers of the objects tell the same.  \<open>V\<close>
  are the blocks that others than the slab allocator have in use.
\<close>

subsection \<open>The objects of a slab\<close>

definition step :: "slab_allocator \<Rightarrow> nat" where
  "step a = sa_objsize a + BUFCTL_SIZE"

definition objs :: "slab_allocator \<Rightarrow> nat \<Rightarrow> nat set" where
  "objs a b = (\<lambda>i. b + i * step a) ` {..<sa_slab_nobjs a}"

lemma step_pos [simp]: "0 < step a" "step a \<noteq> 0"
  by (simp_all add: step_def BUFCTL_SIZE_def)

lemma objects_map: "objects n a b = map (\<lambda>i. b + i * step a) [0..<n]"
proof (induction n arbitrary: b)
  case (Suc n)
  have "map (\<lambda>i. b + i * step a) [0..<Suc n] = b # map (\<lambda>i. b + step a + i * step a) [0..<n]"
    by (simp add: upt_conv_Cons map_Suc_upt [symmetric] algebra_simps del: upt_Suc)
  then show ?case by (simp add: Suc next_obj_def step_def add.assoc del: upt_Suc)
qed simp

lemma set_objects: "set (objects (sa_slab_nobjs a) a b) = objs a b"
  by (simp add: objects_map objs_def lessThan_atLeast0)

lemma distinct_objects: "distinct (objects n a b)"
  by (simp add: objects_map distinct_map inj_on_def)

lemma card_objs: "finite (objs a b) \<and> card (objs a b) = sa_slab_nobjs a"
proof -
  have "inj_on (\<lambda>i. b + i * step a) {..<sa_slab_nobjs a}" by (simp add: inj_on_def)
  then show ?thesis by (simp add: objs_def card_image)
qed

definition sa_ok :: "slab_allocator \<Rightarrow> bool" where
  "sa_ok a \<longleftrightarrow> 0 < sa_slab_nobjs a \<and> sa_slab_nobjs a * step a + SLAB_SIZE \<le> 2 ^ sa_order a * PAGE_SIZE
     \<and> sa_order a < PAGE_NSIZES \<and> 2 * REDZONE_SIZE \<le> sa_objsize a"

definition same_sizes :: "slab_allocator \<Rightarrow> slab_allocator \<Rightarrow> bool" where
  "same_sizes a b \<longleftrightarrow> sa_objsize b = sa_objsize a \<and> sa_order b = sa_order a \<and> sa_slab_nobjs b = sa_slab_nobjs a"

lemma same_sizes_refl [simp]: "same_sizes a a" "same_sizes a (a\<lparr>sa_slabs := sls\<rparr>)"
  by (simp_all add: same_sizes_def)

lemma same_sizes_trans: "same_sizes a b \<Longrightarrow> same_sizes b c \<Longrightarrow> same_sizes a c"
  by (simp add: same_sizes_def)

lemma same_sizesD:
  assumes "same_sizes a b"
  shows "objs b = objs a" "step b = step a" "sa_ok b = sa_ok a" "obj_bufctl b = obj_bufctl a" "sa_order b = sa_order a"
    "sa_slab_nobjs b = sa_slab_nobjs a" "sa_objsize b = sa_objsize a"
  using assms by (simp_all add: same_sizes_def objs_def step_def sa_ok_def obj_bufctl_def fun_eq_iff)

text \<open>An object with its \<open>slab_bufctl\<close> lies inside the block.\<close>

lemma obj_inside:
  assumes "sa_ok a" and "ob \<in> objs a b"
  shows "{ob..<ob + step a} \<subseteq> block_bytes b (sa_order a)"
proof -
  obtain i where i: "i < sa_slab_nobjs a" "ob = b + i * step a" using assms(2) by (auto simp: objs_def)
  have "(i + 1) * step a \<le> sa_slab_nobjs a * step a" using i(1) by (intro mult_le_mono1) simp
  then have "ob + step a \<le> b + 2 ^ sa_order a * PAGE_SIZE" using assms(1) i(2) unfolding sa_ok_def by (simp add: algebra_simps)
  then show ?thesis using i(2) by (auto simp: block_bytes_def)
qed

lemma bufctl_inside: "sa_ok a \<Longrightarrow> ob \<in> objs a b \<Longrightarrow> obj_bufctl a ob \<in> block_bytes b (sa_order a)"
  using obj_inside [of a ob b] by (auto simp: obj_bufctl_def step_def BUFCTL_SIZE_def)

lemma objs_apart:
  assumes "x \<in> objs a b" and "y \<in> objs a b" and "x \<noteq> y"
  shows "{x..<x + step a} \<inter> {y..<y + step a} = {}"
proof -
  obtain i j where ij: "x = b + i * step a" "y = b + j * step a" using assms(1,2) by (auto simp: objs_def)
  then have "i < j \<or> j < i" using assms(3) by (cases i j rule: linorder_cases) auto
  then have "(i + 1) * step a \<le> j * step a \<or> (j + 1) * step a \<le> i * step a" by (auto intro!: mult_le_mono1 simp del: mult_Suc)
  then show ?thesis using ij by (auto simp: algebra_simps)
qed

definition slab_ok :: "(nat \<Rightarrow> bufctl option) \<Rightarrow> slab_allocator \<Rightarrow> slab \<Rightarrow> bool" where
  "slab_ok B a sl \<longleftrightarrow> distinct (s_free sl) \<and> set (s_free sl) \<subseteq> objs a (s_addr sl)
     \<and> s_inuse sl = int (sa_slab_nobjs a) - int (length (s_free sl)) \<and> s_self sl = s_addr sl + sa_slab_nobjs a * step a
     \<and> (\<forall>ob\<in>objs a (s_addr sl). \<exists>b. B (obj_bufctl a ob) = Some b \<and> (sb_free b \<longleftrightarrow> ob \<in> set (s_free sl))
          \<and> (ob \<notin> set (s_free sl) \<longrightarrow> sb_slab b = s_self sl))"

lemma slab_ok_same: "same_sizes a b \<Longrightarrow> slab_ok B b sl = slab_ok B a sl"
  by (simp add: slab_ok_def same_sizesD)

lemma slab_ok_local:
  assumes "slab_ok B a sl" and "sa_ok a" and "\<And>b. b \<in> block_bytes (s_addr sl) (sa_order a) \<Longrightarrow> B' b = B b"
  shows "slab_ok B' a sl"
proof -
  have "B' (obj_bufctl a ob) = B (obj_bufctl a ob)" if "ob \<in> objs a (s_addr sl)" for ob
    by (rule assms(3) [OF bufctl_inside [OF assms(2) that]])
  then show ?thesis using assms(1) unfolding slab_ok_def by (metis (no_types, lifting))
qed

lemma slab_counts:
  assumes "slab_ok B a sl"
  shows "length (s_free sl) \<le> sa_slab_nobjs a" "s_inuse sl \<le> int (sa_slab_nobjs a)" "0 \<le> s_inuse sl"
    "s_inuse sl = 0 \<longleftrightarrow> set (s_free sl) = objs a (s_addr sl)" "s_inuse sl = int (sa_slab_nobjs a) \<longleftrightarrow> s_free sl = []"
proof -
  have s: "set (s_free sl) \<subseteq> objs a (s_addr sl)" "card (set (s_free sl)) = length (s_free sl)"
    "s_inuse sl = int (sa_slab_nobjs a) - int (length (s_free sl))" using assms by (auto simp: slab_ok_def distinct_card)
  show l: "length (s_free sl) \<le> sa_slab_nobjs a" using card_mono [OF _ s(1)] card_objs s(2) by metis
  show "s_inuse sl \<le> int (sa_slab_nobjs a)" "0 \<le> s_inuse sl" using l s(3) by simp_all
  show "s_inuse sl = 0 \<longleftrightarrow> set (s_free sl) = objs a (s_addr sl)"
    using s card_objs [of a "s_addr sl"] card_subset_eq [OF _ s(1)] by auto
  show "s_inuse sl = int (sa_slab_nobjs a) \<longleftrightarrow> s_free sl = []" using s(3) by simp
qed

subsection \<open>The invariant\<close>

definition sl_blocks :: "slab_allocator \<Rightarrow> (nat \<times> nat) set" where
  "sl_blocks a = (\<lambda>sl. (s_addr sl, sa_order a)) ` set (sa_slabs a)"

definition slab_blocks :: "kmem \<Rightarrow> (nat \<times> nat) set" where
  "slab_blocks s = {b. \<exists>r a. allocator s r = Some a \<and> b \<in> sl_blocks a}"

definition in_use :: "kmem \<Rightarrow> (nat \<times> sa_ref) set" where
  "in_use s = {(x, r). \<exists>a sl ob. allocator s r = Some a \<and> sl \<in> set (sa_slabs a) \<and> ob \<in> objs a (s_addr sl) - set (s_free sl)
     \<and> x = ob + REDZONE_SIZE}"

definition kmem_ok :: "kmem \<Rightarrow> (nat \<times> nat) set \<Rightarrow> bool" where
  "kmem_ok s V \<longleftrightarrow> page_reach (km_pages s) (V \<union> slab_blocks s) \<and> V \<inter> slab_blocks s = {}
     \<and> distinct (slab_allocators s) \<and> (\<forall>r. r \<in> set (slab_allocators s) \<longleftrightarrow> allocator s r \<noteq> None)
     \<and> (\<forall>r a. allocator s r = Some a \<longrightarrow> sa_ok a \<and> distinct (map s_addr (sa_slabs a)) \<and> (\<forall>sl\<in>set (sa_slabs a). slab_ok (bufctls s) a sl))
     \<and> (\<forall>r r' a a' sl sl'. allocator s r = Some a \<longrightarrow> allocator s r' = Some a' \<longrightarrow> sl \<in> set (sa_slabs a) \<longrightarrow> sl' \<in> set (sa_slabs a') \<longrightarrow>
          s_addr sl = s_addr sl' \<longrightarrow> r = r')"

lemma kmem_okD:
  assumes "kmem_ok s V"
  shows "page_reach (km_pages s) (V \<union> slab_blocks s)" "V \<inter> slab_blocks s = {}" "distinct (slab_allocators s)"
    "r \<in> set (slab_allocators s) \<longleftrightarrow> allocator s r \<noteq> None"
    "allocator s r = Some a \<Longrightarrow> sa_ok a" "allocator s r = Some a \<Longrightarrow> distinct (map s_addr (sa_slabs a))"
    "allocator s r = Some a \<Longrightarrow> sl \<in> set (sa_slabs a) \<Longrightarrow> slab_ok (bufctls s) a sl"
    "allocator s r = Some a \<Longrightarrow> allocator s r' = Some a' \<Longrightarrow> sl \<in> set (sa_slabs a) \<Longrightarrow> sl' \<in> set (sa_slabs a') \<Longrightarrow> s_addr sl = s_addr sl' \<Longrightarrow> r = r'"
  using assms unfolding kmem_ok_def by blast+

lemma upd_sa_simps [simp]:
  "allocator (upd_sa r a s) = (allocator s)(r \<mapsto> a)" "slab_allocators (upd_sa r a s) = slab_allocators s"
  "km_pages (upd_sa r a s) = km_pages s" "bufctls (upd_sa r a s) = bufctls s"
  "kmalloc_allocators (upd_sa r a s) = kmalloc_allocators s" "kmalloc_tag (upd_sa r a s) = kmalloc_tag s"
  by (simp_all add: upd_sa_def)

lemma slab_blocks_upd:
  "slab_blocks (upd_sa r a s) = sl_blocks a \<union> {b. \<exists>r' a'. r' \<noteq> r \<and> allocator s r' = Some a' \<and> b \<in> sl_blocks a'}"
  by (auto simp: slab_blocks_def split: if_splits)

text \<open>An operation on the slabs of one allocator, which writes to the block at \<open>x\<close> only.\<close>

lemma kmem_upd:
  assumes ok: "kmem_ok s V" and a: "allocator s r = Some a" "same_sizes a a'"
    and p: "page_reach p' (V' \<union> slab_blocks (upd_sa r a' s))" "V' \<inter> slab_blocks (upd_sa r a' s) = {}"
    and d: "distinct (map s_addr (sa_slabs a'))"
    and sl: "\<And>sl. sl \<in> set (sa_slabs a') \<Longrightarrow> s_addr sl = x \<Longrightarrow> slab_ok B' a sl"
      "\<And>sl. sl \<in> set (sa_slabs a') \<Longrightarrow> s_addr sl \<noteq> x \<Longrightarrow> slab_ok (bufctls s) a sl"
    and other: "\<And>r' a2 sl sl'. r' \<noteq> r \<Longrightarrow> allocator s r' = Some a2 \<Longrightarrow> sl \<in> set (sa_slabs a') \<Longrightarrow> sl' \<in> set (sa_slabs a2) \<Longrightarrow> s_addr sl \<noteq> s_addr sl'"
    and loc: "\<And>b. B' b \<noteq> bufctls s b \<Longrightarrow> x \<in> s_addr ` set (sa_slabs a') \<and> b \<in> block_bytes x (sa_order a)"
  shows "kmem_ok (upd_sa r a' (s\<lparr>km_pages := p', bufctls := B'\<rparr>)) V'"
proof -
  let ?s' = "upd_sa r a' (s\<lparr>km_pages := p', bufctls := B'\<rparr>)"
  have blocks: "slab_blocks ?s' = slab_blocks (upd_sa r a' s)" by (simp add: slab_blocks_def)
  note P = reach_ok [OF p(1)]
  have keep: "slab_ok B' a2 sl" if s: "slab_ok (bufctls s) a2 sl" "sa_ok a2" "(s_addr sl, sa_order a2) \<in> slab_blocks (upd_sa r a' s)" "s_addr sl \<noteq> x" for a2 sl
  proof (rule slab_ok_local [OF s(1,2)])
    fix b assume b: "b \<in> block_bytes (s_addr sl) (sa_order a2)"
    show "B' b = bufctls s b"
    proof (rule ccontr)
      assume n: "B' b \<noteq> bufctls s b"
      have "(x, sa_order a) \<in> slab_blocks (upd_sa r a' s)" using loc [OF n] a(2) by (auto simp: slab_blocks_upd sl_blocks_def same_sizes_def)
      then have "block_bytes x (sa_order a) \<inter> block_bytes (s_addr sl) (sa_order a2) = {}"
        using blocks_apart [OF P, of x "sa_order a" "s_addr sl" "sa_order a2"] s(3,4) by auto
      then show False using loc [OF n] b by blast
    qed
  qed
  have own: "slab_ok B' a' t" if t: "t \<in> set (sa_slabs a')" for t
  proof (cases "s_addr t = x")
    case True
    then show ?thesis using sl(1) [OF t] slab_ok_same [OF a(2)] by simp
  next
    case False
    have "(s_addr t, sa_order a) \<in> slab_blocks (upd_sa r a' s)" using t a(2) by (auto simp: slab_blocks_upd sl_blocks_def same_sizes_def)
    from keep [OF sl(2) [OF t False] kmem_okD(5) [OF ok a(1)] this False] show ?thesis using slab_ok_same [OF a(2)] by simp
  qed
  have rest: "slab_ok B' a2 t" if t: "r' \<noteq> r" "allocator s r' = Some a2" "t \<in> set (sa_slabs a2)" for r' a2 t
  proof (cases "s_addr t = x")
    case True
    have "B' b = bufctls s b" for b
    proof (rule ccontr)
      assume "B' b \<noteq> bufctls s b"
      then obtain sl where "sl \<in> set (sa_slabs a')" "s_addr sl = s_addr t" using loc True by fastforce
      then show False using other [OF t(1,2) _ t(3)] by blast
    qed
    then show ?thesis using kmem_okD(7) [OF ok t(2,3)] slab_ok_local [OF _ kmem_okD(5) [OF ok t(2)]] by blast
  next
    case False
    have "(s_addr t, sa_order a2) \<in> slab_blocks (upd_sa r a' s)" using t by (auto simp: slab_blocks_upd sl_blocks_def)
    from keep [OF kmem_okD(7) [OF ok t(2,3)] kmem_okD(5) [OF ok t(2)] this False] show ?thesis .
  qed
  show ?thesis
    unfolding kmem_ok_def blocks
  proof (intro conjI allI impI ballI)
    show "page_reach (km_pages ?s') (V' \<union> slab_blocks (upd_sa r a' s))" "V' \<inter> slab_blocks (upd_sa r a' s) = {}" using p by simp_all
    show "distinct (slab_allocators ?s')" using kmem_okD(3) [OF ok] by simp
    show "r' \<in> set (slab_allocators ?s') \<longleftrightarrow> allocator ?s' r' \<noteq> None" for r' using kmem_okD(4) [OF ok] a(1) by auto
  next
    fix r' a2 assume a2: "allocator ?s' r' = Some a2"
    show "sa_ok a2" using a2 kmem_okD(5) [OF ok] same_sizesD(3) [OF a(2)] a(1) by (auto split: if_splits)
    show "distinct (map s_addr (sa_slabs a2))" using a2 kmem_okD(6) [OF ok] d by (auto split: if_splits)
    show "slab_ok (bufctls ?s') a2 t" if "t \<in> set (sa_slabs a2)" for t using a2 that own rest by (auto split: if_splits)
  next
    fix r1 r2 a1 a2 t1 t2
    assume h: "allocator ?s' r1 = Some a1" "allocator ?s' r2 = Some a2" "t1 \<in> set (sa_slabs a1)" "t2 \<in> set (sa_slabs a2)" "s_addr t1 = s_addr t2"
    show "r1 = r2"
    proof (cases "r1 = r \<or> r2 = r")
      case True
      then show ?thesis using h other [of r2 a2 t1 t2] other [of r1 a1 t2 t1] by (auto split: if_splits)
    next
      case False
      then show ?thesis using h kmem_okD(8) [OF ok] by auto
    qed
  qed
qed

section \<open>Giving back pages\<close>

text \<open>
  Giving back the pages of unused slabs, and the allocation of pages that does so when its search has failed.
\<close>

lemma order_for_power:
  assumes "k < PAGE_NSIZES"
  shows "order_for (push_bit k 1) = Inr k"
proof -
  have "k \<in> {0, 1, 2, 3, 4, 5, 6, 7}" using assms by (auto simp: PAGE_NSIZES_def)
  then show ?thesis by (auto simp: order_for_def PAGE_NSIZES_def upt_rec)
qed

lemma page_free_n_power:
  assumes "page_reach p U" and "(a, k) \<in> U" and "k < PAGE_NSIZES"
  shows "\<exists>p'. page_free_n a (push_bit k 1) p = Inr p' \<and> page_reach p' (U - {(a, k)}) \<and> page_freecount p' = page_freecount p + 2 ^ k"
proof -
  have "page_free_n a (push_bit k 1) p = page_free_order a k p" by (simp only: page_free_n_def order_for_power [OF assms(3)] bnd_Inr)
  then show ?thesis using free_order_run [OF reach_ok [OF assms(1)] assms(2)] page_reach.free [OF assms(1,2)] by auto
qed

lemma reclaim_slabs_run:
  assumes "page_reach p (W \<union> (\<lambda>sl. (s_addr sl, k)) ` set sls)" and "W \<inter> (\<lambda>sl. (s_addr sl, k)) ` set sls = {}"
    and "distinct (map s_addr sls)" and "k < PAGE_NSIZES"
  shows "\<exists>kept n' met p'. reclaim_slabs target k sls n p = Inr (kept, n', met, p')
    \<and> page_reach p' (W \<union> (\<lambda>sl. (s_addr sl, k)) ` set kept) \<and> set kept \<subseteq> set sls \<and> distinct (map s_addr kept)
    \<and> (\<forall>sl\<in>set sls. s_inuse sl \<noteq> 0 \<longrightarrow> sl \<in> set kept) \<and> (target \<le> 0 \<longrightarrow> \<not> met \<and> (\<forall>sl\<in>set kept. s_inuse sl \<noteq> 0))
    \<and> page_freecount p' = page_freecount p + (n' - n)"
  using assms
proof (induction sls arbitrary: n p W)
  case Nil
  then show ?case by (intro exI [of _ "[]"] exI [of _ n] exI [of _ False] exI [of _ p]) simp
next
  case (Cons sl sls)
  let ?blk = "\<lambda>sl. (s_addr sl, k)"
  let ?b = "?blk sl"
  have new: "?b \<notin> W" "?b \<notin> ?blk ` set sls" using Cons.prems(2,3) by auto
  show ?case
  proof (cases "s_inuse sl = 0")
    case True
    from page_free_n_power [OF Cons.prems(1) _ Cons.prems(4), of "s_addr sl"] obtain p1 where p1: "page_free_n (s_addr sl) (push_bit k 1) p = Inr p1"
      "page_reach p1 ((W \<union> ?blk ` set (sl # sls)) - {?b})" "page_freecount p1 = page_freecount p + 2 ^ k" by auto
    have "(W \<union> ?blk ` set (sl # sls)) - {?b} = W \<union> ?blk ` set sls" using new by auto
    then have r: "page_reach p1 (W \<union> ?blk ` set sls)" using p1(2) by simp
    show ?thesis
    proof (cases "0 < target \<and> target \<le> n + 2 ^ k")
      case met: True
      then show ?thesis using True p1(1,3) r Cons.prems(3) by auto
    next
      case False
      have "W \<inter> ?blk ` set sls = {}" "distinct (map s_addr sls)" using Cons.prems(2,3) by auto
      from Cons.IH [OF r this Cons.prems(4), of "n + 2 ^ k"] obtain kept n' met p' where h: "reclaim_slabs target k sls (n + 2 ^ k) p1 = Inr (kept, n', met, p')"
        "page_reach p' (W \<union> ?blk ` set kept)" "set kept \<subseteq> set sls" "distinct (map s_addr kept)"
        "\<forall>sl\<in>set sls. s_inuse sl \<noteq> 0 \<longrightarrow> sl \<in> set kept" "target \<le> 0 \<longrightarrow> \<not> met \<and> (\<forall>sl\<in>set kept. s_inuse sl \<noteq> 0)"
        "page_freecount p' = page_freecount p1 + (n' - (n + 2 ^ k))" by blast
      have "reclaim_slabs target k (sl # sls) n p = Inr (kept, n', met, p')" using h(1) True p1(1) False by auto
      moreover have "page_freecount p' = page_freecount p + (n' - n)" using h(7) p1(3) by simp
      moreover have "set kept \<subseteq> set (sl # sls)" "\<forall>sl\<in>set (sl # sls). s_inuse sl \<noteq> 0 \<longrightarrow> sl \<in> set kept" using h(3,5) True by auto
      ultimately show ?thesis using h(2,4,6) by blast
    qed
  next
    case inuse: False
    show ?thesis
    proof (cases "0 < target \<and> target \<le> n")
      case True
      then show ?thesis using inuse Cons.prems(1,3) by auto
    next
      case False
      have r: "page_reach p (insert ?b W \<union> ?blk ` set sls)" using Cons.prems(1) by simp
      have "insert ?b W \<inter> ?blk ` set sls = {}" "distinct (map s_addr sls)" using Cons.prems(2,3) new by auto
      from Cons.IH [OF r this Cons.prems(4), of n] obtain kept n' met p' where h: "reclaim_slabs target k sls n p = Inr (kept, n', met, p')"
        "page_reach p' (insert ?b W \<union> ?blk ` set kept)" "set kept \<subseteq> set sls" "distinct (map s_addr kept)"
        "\<forall>sl\<in>set sls. s_inuse sl \<noteq> 0 \<longrightarrow> sl \<in> set kept" "target \<le> 0 \<longrightarrow> \<not> met \<and> (\<forall>sl\<in>set kept. s_inuse sl \<noteq> 0)"
        "page_freecount p' = page_freecount p + (n' - n)" by blast
      have "s_addr sl \<notin> s_addr ` set kept" using h(3) Cons.prems(3) by auto
      then have "distinct (map s_addr (sl # kept))" using h(4) by simp
      moreover have "reclaim_slabs target k (sl # sls) n p = Inr (sl # kept, n', met, p')" using h(1) inuse False by auto
      moreover have "page_reach p' (W \<union> ?blk ` set (sl # kept))" using h(2) by simp
      moreover have "set (sl # kept) \<subseteq> set (sl # sls)" "\<forall>t\<in>set (sl # sls). s_inuse t \<noteq> 0 \<longrightarrow> t \<in> set (sl # kept)"
        "target \<le> 0 \<longrightarrow> \<not> met \<and> (\<forall>t\<in>set (sl # kept). s_inuse t \<noteq> 0)" using h(3,5,6) inuse by auto
      ultimately show ?thesis using h(7) by blast
    qed
  qed
qed

definition same_setup :: "kmem \<Rightarrow> kmem \<Rightarrow> bool" where
  "same_setup s s' \<longleftrightarrow> slab_allocators s' = slab_allocators s \<and> kmalloc_allocators s' = kmalloc_allocators s \<and> kmalloc_tag s' = kmalloc_tag s
     \<and> (\<forall>r a. allocator s r = Some a \<longrightarrow> (\<exists>a'. allocator s' r = Some a' \<and> same_sizes a a')) \<and> (\<forall>r. allocator s r = None \<longrightarrow> allocator s' r = None)"

lemma same_setup_refl [simp]: "same_setup s s"
  by (simp add: same_setup_def)

lemma same_setup_trans: "same_setup s t \<Longrightarrow> same_setup t u \<Longrightarrow> same_setup s u"
proof -
  assume st: "same_setup s t" and tu: "same_setup t u"
  have "\<exists>c. allocator u r = Some c \<and> same_sizes a c" if a: "allocator s r = Some a" for r a
  proof -
    obtain b where b: "allocator t r = Some b" "same_sizes a b" using st a unfolding same_setup_def by blast
    then obtain c where "allocator u r = Some c" "same_sizes b c" using tu unfolding same_setup_def by blast
    with b(2) show ?thesis using same_sizes_trans by blast
  qed
  with st tu show "same_setup s u" by (simp add: same_setup_def)
qed

lemma same_setup_upd:
  "allocator s r = Some a \<Longrightarrow> same_sizes a a' \<Longrightarrow> same_setup s (upd_sa r a' (s\<lparr>km_pages := p, bufctls := B\<rparr>))"
  by (auto simp: same_setup_def)

lemma reclaim_one:
  assumes ok: "kmem_ok s V" and a: "allocator s r = Some a"
  shows "\<exists>kept n' met p'. reclaim_slabs target (sa_order a) (sa_slabs a) n (km_pages s) = Inr (kept, n', met, p')
    \<and> kmem_ok (upd_sa r (a\<lparr>sa_slabs := kept\<rparr>) (s\<lparr>km_pages := p'\<rparr>)) V
    \<and> in_use (upd_sa r (a\<lparr>sa_slabs := kept\<rparr>) (s\<lparr>km_pages := p'\<rparr>)) = in_use s
    \<and> (target \<le> 0 \<longrightarrow> \<not> met \<and> (\<forall>sl\<in>set kept. s_inuse sl \<noteq> 0)) \<and> page_freecount p' = page_freecount (km_pages s) + (n' - n)"
proof -
  let ?blk = "\<lambda>sl. (s_addr sl, sa_order a)"
  let ?W = "V \<union> {b. \<exists>r' a'. r' \<noteq> r \<and> allocator s r' = Some a' \<and> b \<in> sl_blocks a'}"
  have self: "upd_sa r a s = s" using a by (auto simp: upd_sa_def fun_upd_idem)
  have B: "V \<union> slab_blocks s = ?W \<union> ?blk ` set (sa_slabs a)" using slab_blocks_upd [of r a s] unfolding self by (auto simp: sl_blocks_def)
  have "?W \<inter> ?blk ` set (sa_slabs a) = {}"
  proof -
    have "V \<inter> ?blk ` set (sa_slabs a) = {}" using kmem_okD(2) [OF ok] a by (auto simp: slab_blocks_def sl_blocks_def)
    then show ?thesis using kmem_okD(8) [OF ok a] by (fastforce simp: sl_blocks_def)
  qed
  moreover have "sa_order a < PAGE_NSIZES" using kmem_okD(5) [OF ok a] by (simp add: sa_ok_def)
  ultimately obtain kept n' met p' where h: "reclaim_slabs target (sa_order a) (sa_slabs a) n (km_pages s) = Inr (kept, n', met, p')"
    "page_reach p' (?W \<union> ?blk ` set kept)" "set kept \<subseteq> set (sa_slabs a)" "distinct (map s_addr kept)"
    "\<forall>sl\<in>set (sa_slabs a). s_inuse sl \<noteq> 0 \<longrightarrow> sl \<in> set kept" "target \<le> 0 \<longrightarrow> \<not> met \<and> (\<forall>sl\<in>set kept. s_inuse sl \<noteq> 0)"
    "page_freecount p' = page_freecount (km_pages s) + (n' - n)"
    using reclaim_slabs_run [OF kmem_okD(1) [OF ok, unfolded B] _ kmem_okD(6) [OF ok a], of target n] by blast
  let ?a = "a\<lparr>sa_slabs := kept\<rparr>"
  let ?s = "upd_sa r ?a (s\<lparr>km_pages := p'\<rparr>)"
  have bl: "slab_blocks (upd_sa r ?a s) = ?blk ` set kept \<union> {b. \<exists>r' a'. r' \<noteq> r \<and> allocator s r' = Some a' \<and> b \<in> sl_blocks a'}"
    by (simp add: slab_blocks_upd sl_blocks_def)
  have "kmem_ok (upd_sa r ?a (s\<lparr>km_pages := p', bufctls := bufctls s\<rparr>)) V"
  proof (rule kmem_upd [OF ok a, where x = 0])
    show "page_reach p' (V \<union> slab_blocks (upd_sa r ?a s))" using h(2) unfolding bl by (simp add: Un_ac)
    show "V \<inter> slab_blocks (upd_sa r ?a s) = {}" 
    proof -
      have "?blk ` set kept \<subseteq> ?blk ` set (sa_slabs a)" using h(3) by (rule image_mono)
      then show ?thesis using kmem_okD(2) [OF ok] slab_blocks_upd [of r a s] unfolding self bl sl_blocks_def [of a] by blast
    qed
    show "slab_ok (bufctls s) a sl" if "sl \<in> set (sa_slabs ?a)" for sl using that h(3) kmem_okD(7) [OF ok a] by auto
    then show "slab_ok (bufctls s) a sl" if "sl \<in> set (sa_slabs ?a)" for sl using that .
    show "s_addr sl \<noteq> s_addr sl'" if "r' \<noteq> r" "allocator s r' = Some a2" "sl \<in> set (sa_slabs ?a)" "sl' \<in> set (sa_slabs a2)" for r' a2 sl sl'
      using kmem_okD(8) [OF ok a that(2), of sl sl'] that h(3) by auto
  qed (use h(4) in simp_all)
  moreover have "s\<lparr>km_pages := p', bufctls := bufctls s\<rparr> = s\<lparr>km_pages := p'\<rparr>" by simp
  moreover have "in_use ?s = in_use s"
  proof -
    have "sl \<in> set kept" if "sl \<in> set (sa_slabs a)" "ob \<in> objs a (s_addr sl) - set (s_free sl)" for sl ob
      using that h(5) slab_counts(4) [OF kmem_okD(7) [OF ok a that(1)]] by blast
    moreover have "objs ?a = objs a" by (simp add: same_sizesD)
    ultimately show ?thesis using a h(3) by (fastforce simp: in_use_def split: if_splits)
  qed
  ultimately show ?thesis using h by auto
qed

lemma reclaim_run:
  assumes "kmem_ok s V" and "set rs \<subseteq> set (slab_allocators s)"
  shows "\<exists>n' s'. reclaim_from target rs n s = Inr (n', s') \<and> kmem_ok s' V \<and> in_use s' = in_use s \<and> same_setup s s'
    \<and> page_freecount (km_pages s') = page_freecount (km_pages s) + (n' - n)
    \<and> (\<forall>r. r \<notin> set rs \<longrightarrow> allocator s' r = allocator s r)
    \<and> (target \<le> 0 \<longrightarrow> (\<forall>r\<in>set rs. \<forall>a. allocator s' r = Some a \<longrightarrow> (\<forall>sl\<in>set (sa_slabs a). s_inuse sl \<noteq> 0)))"
  using assms
proof (induction rs arbitrary: s n)
  case Nil
  then show ?case by simp
next
  case (Cons r rs)
  obtain a where a: "allocator s r = Some a" using kmem_okD(4) [OF Cons.prems(1), of r] Cons.prems(2) by auto
  from reclaim_one [OF Cons.prems(1) a, of target n] obtain kept n1 met p where k: "reclaim_slabs target (sa_order a) (sa_slabs a) n (km_pages s) = Inr (kept, n1, met, p)"
    "kmem_ok (upd_sa r (a\<lparr>sa_slabs := kept\<rparr>) (s\<lparr>km_pages := p\<rparr>)) V" "in_use (upd_sa r (a\<lparr>sa_slabs := kept\<rparr>) (s\<lparr>km_pages := p\<rparr>)) = in_use s"
    "target \<le> 0 \<longrightarrow> \<not> met \<and> (\<forall>sl\<in>set kept. s_inuse sl \<noteq> 0)" "page_freecount p = page_freecount (km_pages s) + (n1 - n)" by blast
  let ?s = "upd_sa r (a\<lparr>sa_slabs := kept\<rparr>) (s\<lparr>km_pages := p\<rparr>)"
  have su: "same_setup s ?s" using a by (auto simp: same_setup_def)
  have run: "reclaim_from target (r # rs) n s = (if met then Inr (n1, ?s) else reclaim_from target rs n1 ?s)"
    using a k(1) by (simp add: sa_get_def)
  show ?case
  proof (cases met)
    case True
    then show ?thesis using run k su by auto
  next
    case False
    have "set rs \<subseteq> set (slab_allocators ?s)" using Cons.prems(2) by simp
    from Cons.IH [OF k(2) this, of n1] obtain n' s' where h: "reclaim_from target rs n1 ?s = Inr (n', s')" "kmem_ok s' V" "in_use s' = in_use ?s"
      "same_setup ?s s'" "page_freecount (km_pages s') = page_freecount (km_pages ?s) + (n' - n1)"
      "\<forall>r'. r' \<notin> set rs \<longrightarrow> allocator s' r' = allocator ?s r'"
      "target \<le> 0 \<longrightarrow> (\<forall>r\<in>set rs. \<forall>a. allocator s' r = Some a \<longrightarrow> (\<forall>sl\<in>set (sa_slabs a). s_inuse sl \<noteq> 0))" by blast
    have "\<forall>sl\<in>set (sa_slabs a'). s_inuse sl \<noteq> 0" if "target \<le> 0" "r' \<in> set (r # rs)" "allocator s' r' = Some a'" for r' a'
    proof (cases "r' \<in> set rs")
      case False
      then have "a' = a\<lparr>sa_slabs := kept\<rparr>" using that h(6) by auto
      then show ?thesis using k(4) that(1) by simp
    qed (use h(7) that in blast)
    moreover have "page_freecount (km_pages s') = page_freecount (km_pages s) + (n' - n)" using h(5) k(5) by simp
    ultimately show ?thesis using run False h k(3) same_setup_trans [OF su h(4)] by auto
  qed
qed

definition none_empty :: "kmem \<Rightarrow> bool" where
  "none_empty s \<longleftrightarrow> (\<forall>r a. allocator s r = Some a \<longrightarrow> (\<forall>sl\<in>set (sa_slabs a). s_inuse sl \<noteq> 0))"

lemma allocators_reclaim_run:
  assumes "kmem_ok s V"
  shows "\<exists>n s'. slab_allocators_reclaim target s = Inr (n, s') \<and> kmem_ok s' V \<and> in_use s' = in_use s \<and> same_setup s s'
    \<and> page_freecount (km_pages s') = page_freecount (km_pages s) + n \<and> (target \<le> 0 \<longrightarrow> none_empty s')"
proof -
  from reclaim_run [OF assms order_refl, of target 0] obtain n s' where h: "reclaim_from target (slab_allocators s) 0 s = Inr (n, s')"
    "kmem_ok s' V" "in_use s' = in_use s" "same_setup s s'" "page_freecount (km_pages s') = page_freecount (km_pages s) + (n - 0)"
    "target \<le> 0 \<longrightarrow> (\<forall>r\<in>set (slab_allocators s). \<forall>a. allocator s' r = Some a \<longrightarrow> (\<forall>sl\<in>set (sa_slabs a). s_inuse sl \<noteq> 0))" by blast
  have "none_empty s'" if "target \<le> 0"
    unfolding none_empty_def
  proof (intro allI impI)
    fix r a assume a: "allocator s' r = Some a"
    then have "r \<in> set (slab_allocators s)" using kmem_okD(4) [OF h(2), of r] h(4) by (simp add: same_setup_def)
    then show "\<forall>sl\<in>set (sa_slabs a). s_inuse sl \<noteq> 0" using h(6) that a by blast
  qed
  then show ?thesis using h by (auto simp: slab_allocators_reclaim_def)
qed

subsection \<open>Allocating pages\<close>

lemma slab_blocks_cong: "allocator s' = allocator s \<Longrightarrow> slab_blocks s' = slab_blocks s"
  by (simp add: slab_blocks_def)

lemma in_use_cong: "allocator s' = allocator s \<Longrightarrow> in_use s' = in_use s"
  by (simp add: in_use_def)

definition no_block :: "nat \<Rightarrow> pages \<Rightarrow> bool" where
  "no_block k p \<longleftrightarrow> (\<forall>g\<in>set (pagegroup_list p). \<forall>j<PAGE_NSIZES. k \<le> j \<longrightarrow> pg_freelist g j = [])"

lemma page_alloc_run:
  assumes ok: "kmem_ok s V" and k: "k < PAGE_NSIZES"
  shows "(\<exists>a p. page_alloc_order k s = Inr (Some a, s\<lparr>km_pages := p\<rparr>) \<and> kmem_ok (s\<lparr>km_pages := p\<rparr>) (insert (a, k) V)
      \<and> find_block k (km_pages s) = Inr (Some a, p) \<and> (a, k) \<notin> V \<union> slab_blocks s \<and> page_freecount p = page_freecount (km_pages s) - 2 ^ k)
    \<or> (\<exists>s'. page_alloc_order k s = Inr (None, s') \<and> kmem_ok s' V \<and> in_use s' = in_use s \<and> same_setup s s' \<and> none_empty s' \<and> no_block k (km_pages s))"
  using find_block_run [OF reach_ok [OF kmem_okD(1) [OF ok]] k]
proof (elim disjE exE conjE)
  assume n: "find_block k (km_pages s) = Inr (None, km_pages s)"
    and "\<forall>g\<in>set (pagegroup_list (km_pages s)). \<forall>j<PAGE_NSIZES. k \<le> j \<longrightarrow> pg_freelist g j = []"
  then have "no_block k (km_pages s)" by (simp add: no_block_def)
  moreover have "s\<lparr>km_pages := km_pages s\<rparr> = s" by simp
  then have "page_alloc_order k s = bnd (slab_allocators_reclaim 0 s) (\<lambda>(n, s). Inr (None, s))"
    using n by (simp add: page_alloc_order_def)
  moreover obtain n s' where "slab_allocators_reclaim 0 s = Inr (n, s')" "kmem_ok s' V" "in_use s' = in_use s" "same_setup s s'" "none_empty s'"
    using allocators_reclaim_run [OF ok, of 0] by auto
  ultimately show ?thesis by auto
next
  fix a p assume h: "find_block k (km_pages s) = Inr (Some a, p)" "(a, k) \<notin> V \<union> slab_blocks s" "page_freecount p = page_freecount (km_pages s) - 2 ^ k"
  let ?s = "s\<lparr>km_pages := p\<rparr>"
  have b: "slab_blocks ?s = slab_blocks s" by (rule slab_blocks_cong) simp
  have "page_reach p (insert (a, k) V \<union> slab_blocks ?s)" using page_reach.alloc [OF kmem_okD(1) [OF ok] k h(1)] b by simp
  moreover have "insert (a, k) V \<inter> slab_blocks ?s = {}" using kmem_okD(2) [OF ok] h(2) b by auto
  ultimately have "kmem_ok ?s (insert (a, k) V)" using ok unfolding kmem_ok_def by simp
  then show ?thesis using h by (auto simp: page_alloc_order_def)
qed

end
