(* ===== verification/Slobj.thy ===== *)
theory Slobj
  imports Slinv
begin

text \<open>Growing an allocator, taking an object and giving it back.\<close>

lemma page_alloc_n_power: "k < PAGE_NSIZES \<Longrightarrow> page_alloc_n (push_bit k 1) s = page_alloc_order k s"
  by (simp only: page_alloc_n_def order_for_power bnd_Inr)

lemma block_start: "a \<in> block_bytes a k"
  by (simp add: block_bytes_def PAGE_SIZE_def)

lemma block_unique: "page_reach p U \<Longrightarrow> (a, j) \<in> U \<Longrightarrow> (a, k) \<in> U \<Longrightarrow> j = k"
  using blocks_apart [OF reach_ok, of p U a j a k] block_start by blast

subsection \<open>Growing\<close>

lemma new_slab_ok:
  assumes "sa_ok a"
  shows "slab_ok (\<lambda>b. if b \<in> obj_bufctl a ` set (objects (sa_slab_nobjs a) a ad) then Some \<lparr>sb_slab = 0, sb_free = True\<rparr> else B b) a
    \<lparr>s_self = ad + sa_slab_nobjs a * step a, s_inuse = 0, s_free = objects (sa_slab_nobjs a) a ad, s_addr = ad\<rparr>"
  by (auto simp: slab_ok_def distinct_objects set_objects) (simp add: objects_map)

lemma grow_run:
  assumes ok: "kmem_ok s V" and a: "allocator s r = Some a"
  shows "(\<exists>s'. slab_allocator_grow r s = Inr (False, s') \<and> kmem_ok s' V \<and> in_use s' = in_use s \<and> same_setup s s' \<and> none_empty s'
        \<and> no_block (sa_order a) (km_pages s))
    \<or> (\<exists>s' sl. slab_allocator_grow r s = Inr (True, s') \<and> kmem_ok s' V \<and> in_use s' = in_use s \<and> same_setup s s'
        \<and> allocator s' r = Some (a\<lparr>sa_slabs := sl # sa_slabs a\<rparr>) \<and> s_inuse sl = 0 \<and> length (s_free sl) = sa_slab_nobjs a
        \<and> (\<exists>ad. find_block (sa_order a) (km_pages s) = Inr (Some ad, km_pages s')))"
proof -
  let ?k = "sa_order a"
  have sa: "sa_ok a" by (rule kmem_okD(5) [OF ok a])
  then have k: "?k < PAGE_NSIZES" by (simp add: sa_ok_def)
  note pn = page_alloc_n_power [OF k]
  from page_alloc_run [OF ok k] show ?thesis
  proof (elim disjE exE conjE)
    fix s' assume h: "page_alloc_order ?k s = Inr (None, s')" "kmem_ok s' V" "in_use s' = in_use s" "same_setup s s'" "none_empty s'" "no_block ?k (km_pages s)"
    have "slab_allocator_grow r s = Inr (False, s')" by (simp only: slab_allocator_grow_def sa_get_def a deref_Some bnd_Inr pn h(1) prod.case option.case)
    then show ?thesis using h by blast
  next
    fix ad p assume h: "page_alloc_order ?k s = Inr (Some ad, s\<lparr>km_pages := p\<rparr>)" "kmem_ok (s\<lparr>km_pages := p\<rparr>) (insert (ad, ?k) V)"
      "(ad, ?k) \<notin> V \<union> slab_blocks s" "find_block ?k (km_pages s) = Inr (Some ad, p)"
    let ?s = "s\<lparr>km_pages := p\<rparr>"
    let ?os = "objects (sa_slab_nobjs a) a ad"
    let ?sl = "\<lparr>s_self = ad + sa_slab_nobjs a * step a, s_inuse = 0, s_free = ?os, s_addr = ad\<rparr>"
    let ?a = "a\<lparr>sa_slabs := ?sl # sa_slabs a\<rparr>"
    let ?B = "\<lambda>b. if b \<in> obj_bufctl a ` set ?os then Some \<lparr>sb_slab = 0, sb_free = True\<rparr> else bufctls s b"
    let ?s' = "upd_sa r ?a (s\<lparr>km_pages := p, bufctls := ?B\<rparr>)"
    have a': "allocator ?s r = Some a" using a by simp
    have bs: "slab_blocks ?s = slab_blocks s" by (rule slab_blocks_cong) simp
    have "?os \<noteq> []" using sa by (simp add: sa_ok_def objects_map)
    moreover have "ad + sa_slab_nobjs a * step a + SLAB_SIZE \<le> ad + 2 ^ ?k * PAGE_SIZE" using sa by (simp add: sa_ok_def)
    ultimately have run: "slab_allocator_grow r s = Inr (True, ?s')"
      using a by (simp only: slab_allocator_grow_def sa_get_def a a' deref_Some bnd_Inr pn h(1) prod.case option.case Let_def step_def check_True simp_thms)
        (simp add: step_def cong: if_cong)
    have u: "slab_blocks (upd_sa r ?a ?s) = insert (ad, ?k) (slab_blocks s)"
    proof -
      have self: "upd_sa r a s = s" using a by (auto simp: upd_sa_def fun_upd_idem)
      have "slab_blocks s = sl_blocks a \<union> {b. \<exists>r' a'. r' \<noteq> r \<and> allocator s r' = Some a' \<and> b \<in> sl_blocks a'}"
        using slab_blocks_upd [of r a s] unfolding self .
      moreover have "sl_blocks ?a = insert (ad, ?k) (sl_blocks a)" by (simp add: sl_blocks_def)
      ultimately show ?thesis by (simp add: slab_blocks_upd)
    qed
    have "kmem_ok (upd_sa r ?a (?s\<lparr>km_pages := p, bufctls := ?B\<rparr>)) V"
    proof (rule kmem_upd [OF h(2) a', where x = ad])
      have "insert (ad, ?k) V \<union> slab_blocks s = V \<union> insert (ad, ?k) (slab_blocks s)" by blast
      then show "page_reach p (V \<union> slab_blocks (upd_sa r ?a ?s))" using kmem_okD(1) [OF h(2)] unfolding bs u by simp
      show "V \<inter> slab_blocks (upd_sa r ?a ?s) = {}" using kmem_okD(2) [OF ok] h(3) unfolding u by blast
      have "ad \<notin> s_addr ` set (sa_slabs a)"
      proof
        assume "ad \<in> s_addr ` set (sa_slabs a)"
        then have "(ad, ?k) \<in> slab_blocks s" using a by (auto simp: slab_blocks_def sl_blocks_def)
        then show False using h(3) by blast
      qed
      then show "distinct (map s_addr (sa_slabs ?a))" using kmem_okD(6) [OF ok a] by simp
      show "slab_ok ?B a sl" if "sl \<in> set (sa_slabs ?a)" "s_addr sl = ad" for sl
        using that \<open>ad \<notin> s_addr ` set (sa_slabs a)\<close> new_slab_ok [OF sa, of ad "bufctls s"] by auto
      show "slab_ok (bufctls ?s) a sl" if "sl \<in> set (sa_slabs ?a)" "s_addr sl \<noteq> ad" for sl
        using that kmem_okD(7) [OF ok a] by auto
      show "s_addr sl \<noteq> s_addr sl'" if o: "r' \<noteq> r" "allocator ?s r' = Some a2" "sl \<in> set (sa_slabs ?a)" "sl' \<in> set (sa_slabs a2)" for r' a2 sl sl'
      proof
        assume e: "s_addr sl = s_addr sl'"
        show False
        proof (cases "sl \<in> set (sa_slabs a)")
          case True
          then show False using kmem_okD(8) [OF ok a _ True o(4) e] o(1,2) by simp
        next
          case False
          then have "s_addr sl' = ad" using o(3) e by auto
          then have "(ad, sa_order a2) \<in> slab_blocks s" using o(2,4) by (force simp: slab_blocks_def sl_blocks_def)
          then show False using block_unique [OF kmem_okD(1) [OF h(2)], of ad ?k "sa_order a2"] h(3) unfolding bs by auto
        qed
      qed
      show "ad \<in> s_addr ` set (sa_slabs ?a) \<and> b \<in> block_bytes ad ?k" if "?B b \<noteq> bufctls ?s b" for b
        using that bufctl_inside [OF sa, of _ ad] by (auto simp: set_objects split: if_splits)
    qed simp
    moreover have "in_use ?s' = in_use s"
    proof -
      have "objs ?a = objs a" by (simp add: same_sizesD)
      then show ?thesis using a by (fastforce simp: in_use_def set_objects split: if_splits)
    qed
    moreover have "same_setup s ?s'" by (rule same_setup_upd [OF a]) simp
    moreover have "allocator ?s' r = Some ?a" "s_inuse ?sl = 0" "length (s_free ?sl) = sa_slab_nobjs a"
      "find_block ?k (km_pages s) = Inr (Some ad, km_pages ?s')" using h(4) by (simp_all add: objects_map)
    ultimately show ?thesis using run by auto
  qed
qed

subsection \<open>One slab changes\<close>

definition used :: "sa_ref \<Rightarrow> slab_allocator \<Rightarrow> slab \<Rightarrow> (nat \<times> sa_ref) set" where
  "used r a sl = (\<lambda>ob. (ob + REDZONE_SIZE, r)) ` (objs a (s_addr sl) - set (s_free sl))"

lemma in_use_iff: "z \<in> in_use s \<longleftrightarrow> (\<exists>r a sl. allocator s r = Some a \<and> sl \<in> set (sa_slabs a) \<and> z \<in> used r a sl)"
  by (cases z) (auto simp: in_use_def used_def)

lemma used_in_use:
  assumes "allocator s r = Some a" and "sl \<in> set (sa_slabs a)"
  shows "used r a sl \<subseteq> in_use s"
  unfolding subset_iff in_use_iff using assms by blast

lemma distinct_map_eq: "distinct (map f xs) \<Longrightarrow> x \<in> set xs \<Longrightarrow> y \<in> set xs \<Longrightarrow> f x = f y \<Longrightarrow> x = y"
  unfolding distinct_map by (blast dest: inj_onD)

lemma find_unique:
  assumes "i < n" and "P i" and "\<And>j. j < n \<Longrightarrow> P j \<Longrightarrow> j = i"
  shows "find P [0..<n] = Some i"
proof (cases "find P [0..<n]")
  case None
  then show ?thesis using assms(1,2) by (auto simp: find_None_iff)
next
  case (Some j)
  then have "j < n" "P j" by (auto simp: find_Some_iff)
  then show ?thesis using Some assms(3) by simp
qed

lemma objs_start: "sa_ok a \<Longrightarrow> ob \<in> objs a b \<Longrightarrow> ob \<in> block_bytes b (sa_order a)"
  using obj_inside [of a ob b] by auto

lemma slabs_disjoint:
  assumes ok: "kmem_ok s V" and a: "allocator s r = Some a" "allocator s r' = Some a'" and sl: "sl \<in> set (sa_slabs a)" "sl' \<in> set (sa_slabs a')"
    and ne: "s_addr sl \<noteq> s_addr sl'"
  shows "block_bytes (s_addr sl) (sa_order a) \<inter> block_bytes (s_addr sl') (sa_order a') = {}"
proof (rule blocks_apart [OF reach_ok [OF kmem_okD(1) [OF ok]]])
  show "(s_addr sl, sa_order a) \<in> V \<union> slab_blocks s" "(s_addr sl', sa_order a') \<in> V \<union> slab_blocks s"
    using a sl by (auto simp: slab_blocks_def sl_blocks_def)
qed (use ne in simp)

lemma slab_upd:
  assumes ok: "kmem_ok s V" and a: "allocator s r = Some a" and i: "i < length (sa_slabs a)" and x: "s_addr sl' = s_addr (sa_slabs a ! i)"
    and sl: "slab_ok B' a sl'" and loc: "\<And>b. B' b \<noteq> bufctls s b \<Longrightarrow> b \<in> block_bytes (s_addr sl') (sa_order a)"
  shows "kmem_ok (upd_sa r (a\<lparr>sa_slabs := (sa_slabs a)[i := sl']\<rparr>) (s\<lparr>bufctls := B'\<rparr>)) V"
    "in_use (upd_sa r (a\<lparr>sa_slabs := (sa_slabs a)[i := sl']\<rparr>) (s\<lparr>bufctls := B'\<rparr>)) = (in_use s - used r a (sa_slabs a ! i)) \<union> used r a sl'"
    "same_setup s (upd_sa r (a\<lparr>sa_slabs := (sa_slabs a)[i := sl']\<rparr>) (s\<lparr>bufctls := B'\<rparr>))"
proof -
  let ?o = "sa_slabs a ! i" and ?sls = "(sa_slabs a)[i := sl']"
  let ?a = "a\<lparr>sa_slabs := ?sls\<rparr>"
  let ?s' = "upd_sa r ?a (s\<lparr>bufctls := B'\<rparr>)"
  have o: "?o \<in> set (sa_slabs a)" using i by simp
  have addrs: "map s_addr ?sls = map s_addr (sa_slabs a)" using x i by (simp add: map_update list_update_same_conv)
  have addr_set: "s_addr ` set ?sls = s_addr ` set (sa_slabs a)" using arg_cong [OF addrs, of set] by simp
  have "sl_blocks ?a = (\<lambda>x. (x, sa_order a)) ` s_addr ` set ?sls" by (simp add: sl_blocks_def image_image)
  also have "\<dots> = sl_blocks a" unfolding addr_set by (simp add: sl_blocks_def image_image)
  finally have "sl_blocks ?a = sl_blocks a" .
  moreover have self: "upd_sa r a s = s" using a by (auto simp: upd_sa_def fun_upd_idem)
  ultimately have bl: "slab_blocks (upd_sa r ?a s) = slab_blocks s" using slab_blocks_upd [of r a s] unfolding self by (simp add: slab_blocks_upd)
  have d: "distinct (map s_addr ?sls)" using addrs kmem_okD(6) [OF ok a] by simp
  have mem: "t \<in> set ?sls \<longleftrightarrow> t = sl' \<or> (t \<in> set (sa_slabs a) \<and> s_addr t \<noteq> s_addr sl')" for t
  proof
    assume t: "t \<in> set ?sls"
    have "t = sl'" if "s_addr t = s_addr sl'"
      using d t set_update_memI [OF i, of sl'] that by (auto simp: distinct_map dest: inj_onD)
    then show "t = sl' \<or> (t \<in> set (sa_slabs a) \<and> s_addr t \<noteq> s_addr sl')"
      using t set_update_subset_insert [of "sa_slabs a" i sl'] by blast
  next
    assume "t = sl' \<or> (t \<in> set (sa_slabs a) \<and> s_addr t \<noteq> s_addr sl')"
    then show "t \<in> set ?sls"
    proof (elim disjE conjE)
      assume t: "t \<in> set (sa_slabs a)" "s_addr t \<noteq> s_addr sl'"
      then obtain j where j: "j < length (sa_slabs a)" "sa_slabs a ! j = t" by (auto simp: in_set_conv_nth)
      then have "j \<noteq> i" using t(2) x by auto
      then have "?sls ! j = t" "j < length ?sls" using j by simp_all
      then show ?thesis by (metis nth_mem)
    qed (use set_update_memI [OF i] in simp)
  qed
  have "kmem_ok (upd_sa r ?a (s\<lparr>km_pages := km_pages s, bufctls := B'\<rparr>)) V"
  proof (rule kmem_upd [OF ok a, where x = "s_addr sl'"])
    show "page_reach (km_pages s) (V \<union> slab_blocks (upd_sa r ?a s))" "V \<inter> slab_blocks (upd_sa r ?a s) = {}"
      using kmem_okD(1,2) [OF ok] unfolding bl by simp_all
    show "slab_ok B' a t" if "t \<in> set (sa_slabs ?a)" "s_addr t = s_addr sl'" for t using that mem sl by auto
    show "slab_ok (bufctls s) a t" if "t \<in> set (sa_slabs ?a)" "s_addr t \<noteq> s_addr sl'" for t using that mem kmem_okD(7) [OF ok a] by auto
    show "s_addr t \<noteq> s_addr t'" if o: "r' \<noteq> r" "allocator s r' = Some a2" "t \<in> set (sa_slabs ?a)" "t' \<in> set (sa_slabs a2)" for r' a2 t t'
    proof
      assume e: "s_addr t = s_addr t'"
      have "s_addr t \<in> s_addr ` set (sa_slabs a)" unfolding addr_set [symmetric] using o(3) by simp
      then obtain u where u: "u \<in> set (sa_slabs a)" "s_addr u = s_addr t'" using e by auto
      show False using kmem_okD(8) [OF ok a o(2) u(1) o(4) u(2)] o(1) by simp
    qed
    show "s_addr sl' \<in> s_addr ` set (sa_slabs ?a) \<and> b \<in> block_bytes (s_addr sl') (sa_order a)" if "B' b \<noteq> bufctls s b" for b
      using loc [OF that] mem by auto
  qed (use d in simp_all)
  then show "kmem_ok ?s' V" by simp
  show "same_setup s ?s'" using a by (auto simp: same_setup_def)
  have "objs ?a = objs a" by (rule same_sizesD) simp
  then have us: "used r' ?a = used r' a" for r' by (simp add: used_def fun_eq_iff)
  have apart: "used r' a2 t \<inter> used r a ?o = {}" if t: "allocator s r' = Some a2" "t \<in> set (sa_slabs a2)" "r' \<noteq> r \<or> s_addr t \<noteq> s_addr ?o" for r' a2 t
  proof (cases "r' = r")
    case True
    then have "a2 = a" "s_addr t \<noteq> s_addr ?o" using t a by simp_all
    then have "block_bytes (s_addr t) (sa_order a) \<inter> block_bytes (s_addr ?o) (sa_order a) = {}" using slabs_disjoint [OF ok a a _ o] t(2) by blast
    then have "objs a (s_addr t) \<inter> objs a (s_addr ?o) = {}" using objs_start [OF kmem_okD(5) [OF ok a]] by blast
    then show ?thesis using \<open>a2 = a\<close> by (auto simp: used_def)
  qed (auto simp: used_def)
  show "in_use ?s' = (in_use s - used r a ?o) \<union> used r a sl'"
  proof (rule set_eqI)
    fix z
    have "z \<in> in_use ?s' \<longleftrightarrow> z \<in> used r a sl' \<or> (\<exists>t. t \<in> set (sa_slabs a) \<and> s_addr t \<noteq> s_addr sl' \<and> z \<in> used r a t)
        \<or> (\<exists>r' a2 t. r' \<noteq> r \<and> allocator s r' = Some a2 \<and> t \<in> set (sa_slabs a2) \<and> z \<in> used r' a2 t)"
      unfolding in_use_iff by (auto simp: mem us split: if_splits)
    moreover have "z \<in> in_use s \<longleftrightarrow> z \<in> used r a ?o \<or> (\<exists>t. t \<in> set (sa_slabs a) \<and> s_addr t \<noteq> s_addr sl' \<and> z \<in> used r a t)
        \<or> (\<exists>r' a2 t. r' \<noteq> r \<and> allocator s r' = Some a2 \<and> t \<in> set (sa_slabs a2) \<and> z \<in> used r' a2 t)"
    proof -
      have "t = ?o" if "t \<in> set (sa_slabs a)" "s_addr t = s_addr sl'" for t
        using that x o kmem_okD(6) [OF ok a] by (auto simp: distinct_map dest: inj_onD)
      then show ?thesis unfolding in_use_iff using a o by (metis option.inject)
    qed
    ultimately show "z \<in> in_use ?s' \<longleftrightarrow> z \<in> (in_use s - used r a ?o) \<union> used r a sl'"
      using apart [of r a] apart a x by (metis (no_types, lifting) Diff_iff IntI Un_iff empty_iff)
  qed
qed

subsection \<open>Taking an object\<close>

definition free_count :: "slab_allocator \<Rightarrow> nat" where
  "free_count a = (\<Sum>sl\<leftarrow>sa_slabs a. length (s_free sl))"

lemma take_object_run:
  assumes ok: "kmem_ok s V" and a: "allocator s r = Some a" and i: "i < length (sa_slabs a)" and room: "s_inuse (sa_slabs a ! i) < int (sa_slab_nobjs a)"
  shows "\<exists>x s'. take_object r a i s = Inr (x, s') \<and> kmem_ok s' V \<and> in_use s' = insert (x, r) (in_use s) \<and> (x, r) \<notin> in_use s
    \<and> same_setup s s' \<and> km_pages s' = km_pages s \<and> (\<exists>a'. allocator s' r = Some a' \<and> free_count a' + 1 = free_count a)"
proof -
  let ?sl = "sa_slabs a ! i"
  have mem: "?sl \<in> set (sa_slabs a)" using i by simp
  have sa: "sa_ok a" by (rule kmem_okD(5) [OF ok a])
  have slk: "slab_ok (bufctls s) a ?sl" by (rule kmem_okD(7) [OF ok a mem])
  have "s_free ?sl \<noteq> []" using slab_counts(5) [OF slk] room by auto
  then obtain ob rest where f: "s_free ?sl = ob # rest" by (cases "s_free ?sl") auto
  let ?sl' = "?sl\<lparr>s_free := rest, s_inuse := s_inuse ?sl + 1\<rparr>"
  let ?B = "(bufctls s)(obj_bufctl a ob \<mapsto> \<lparr>sb_slab = s_self ?sl, sb_free = False\<rparr>)"
  let ?s' = "upd_sa r (a\<lparr>sa_slabs := (sa_slabs a)[i := ?sl']\<rparr>) (s\<lparr>bufctls := ?B\<rparr>)"
  have ob: "ob \<in> objs a (s_addr ?sl)" "ob \<notin> set rest" using slk f by (auto simp: slab_ok_def)
  have ne: "obj_bufctl a x = obj_bufctl a ob \<longleftrightarrow> x = ob" for x by (simp add: obj_bufctl_def)
  have "slab_ok ?B a ?sl'" using slk f ob(2) by (auto simp: slab_ok_def ne)
  moreover have "b \<in> block_bytes (s_addr ?sl') (sa_order a)" if "?B b \<noteq> bufctls s b" for b
    using that bufctl_inside [OF sa ob(1)] by (auto split: if_splits)
  ultimately have u: "kmem_ok ?s' V" "in_use ?s' = (in_use s - used r a ?sl) \<union> used r a ?sl'" "same_setup s ?s'"
    using slab_upd [OF ok a i, of ?sl' ?B] by simp_all
  have "used r a ?sl' = insert (ob + REDZONE_SIZE, r) (used r a ?sl)" using f ob by (auto simp: used_def)
  moreover have "used r a ?sl \<subseteq> in_use s" by (rule used_in_use [OF a mem])
  ultimately have "in_use ?s' = insert (ob + REDZONE_SIZE, r) (in_use s)" using u(2) by blast
  moreover have "(ob + REDZONE_SIZE, r) \<notin> in_use s"
  proof
    assume "(ob + REDZONE_SIZE, r) \<in> in_use s"
    then obtain t where t: "t \<in> set (sa_slabs a)" "ob \<in> objs a (s_addr t)" "ob \<notin> set (s_free t)" using a by (auto simp: in_use_def)
    have "t \<noteq> ?sl" using t(3) f by auto
    then have "s_addr t \<noteq> s_addr ?sl" using distinct_map_eq [OF kmem_okD(6) [OF ok a] t(1) mem] by blast
    then show False using slabs_disjoint [OF ok a a t(1) mem] objs_start [OF sa t(2)] objs_start [OF sa ob(1)] by blast
  qed
  moreover have "take_object r a i s = Inr (ob + REDZONE_SIZE, ?s')" using f by (simp add: take_object_def Let_def)
  moreover have "km_pages ?s' = km_pages s" by simp
  moreover have "\<exists>a'. allocator ?s' r = Some a' \<and> free_count a' + 1 = free_count a"
  proof -
    let ?f = "\<lambda>sl. length (s_free sl)"
    have "?f ?sl \<le> sum_list (map ?f (sa_slabs a))" using mem by (auto intro!: member_le_sum_list)
    then have "sum_list (map ?f ((sa_slabs a)[i := ?sl'])) + 1 = sum_list (map ?f (sa_slabs a))"
      using i f by (simp add: map_update sum_list_update)
    then show ?thesis by (simp add: free_count_def)
  qed
  ultimately show ?thesis using u(1,3) by blast
qed

lemma find_slab_run:
  assumes "kmem_ok s V" and "allocator s r = Some a"
  shows "find_slab a = Some i \<Longrightarrow> i < length (sa_slabs a) \<and> s_inuse (sa_slabs a ! i) < int (sa_slab_nobjs a)"
    "find_slab a = None \<Longrightarrow> sl \<in> set (sa_slabs a) \<Longrightarrow> s_free sl = []"
proof -
  note c = slab_counts(2,5) [OF kmem_okD(7) [OF assms]]
  show "find_slab a = Some i \<Longrightarrow> i < length (sa_slabs a) \<and> s_inuse (sa_slabs a ! i) < int (sa_slab_nobjs a)"
    by (auto simp: find_slab_def find_Some_iff split: option.splits if_splits)
  assume n: "find_slab a = None" and sl: "sl \<in> set (sa_slabs a)"
  have "s_inuse (sa_slabs a ! j) < int (sa_slab_nobjs a)" if "j < length (sa_slabs a)" "s_inuse (sa_slabs a ! j) \<noteq> int (sa_slab_nobjs a)" for j
    using c(1) [OF nth_mem [OF that(1)]] that(2) by simp
  then have "find (\<lambda>i. s_inuse (sa_slabs a ! i) \<noteq> int (sa_slab_nobjs a)) [0..<length (sa_slabs a)] = None"
    using n by (auto simp: find_slab_def find_Some_iff split: option.splits if_splits)
  then have "s_inuse sl = int (sa_slab_nobjs a)" using sl by (auto simp: find_None_iff in_set_conv_nth)
  then show "s_free sl = []" using c(2) [OF sl] by simp
qed

text \<open>An allocation succeeds, or no page block was left and every empty slab is given back.\<close>

definition took :: "sa_ref \<Rightarrow> (nat \<times> nat) set \<Rightarrow> nat \<Rightarrow> kmem \<Rightarrow> nat \<Rightarrow> kmem \<Rightarrow> bool" where
  "took r V x s n s' \<longleftrightarrow> kmem_ok s' V \<and> in_use s' = insert (x, r) (in_use s) \<and> (x, r) \<notin> in_use s \<and> same_setup s s'
     \<and> (\<exists>a'. allocator s' r = Some a' \<and> free_count a' + 1 = n)"

lemma obj_alloc_room:
  assumes ok: "kmem_ok s V" and a: "allocator s r = Some a" and n: "0 < free_count a"
  shows "\<exists>x s'. slab_obj_alloc r s = Inr (Some x, s') \<and> took r V x s (free_count a) s' \<and> km_pages s' = km_pages s"
proof (cases "find_slab a")
  case (Some i)
  from find_slab_run(1) [OF ok a Some] take_object_run [OF ok a, of i] obtain x s' a' where t: "take_object r a i s = Inr (x, s')" "kmem_ok s' V"
    "in_use s' = insert (x, r) (in_use s)" "(x, r) \<notin> in_use s" "same_setup s s'" "allocator s' r = Some a'" "free_count a' + 1 = free_count a" "km_pages s' = km_pages s" by blast
  then have "slab_obj_alloc r s = Inr (Some x, s')" using Some a by (simp add: slab_obj_alloc_def sa_get_def)
  with t show ?thesis unfolding took_def by blast
next
  case None
  have "map (\<lambda>sl. length (s_free sl)) (sa_slabs a) = map (\<lambda>sl. 0) (sa_slabs a)" using find_slab_run(2) [OF ok a None] by simp
  then have "free_count a = 0" by (simp add: free_count_def)
  then show ?thesis using n by simp
qed

lemma obj_alloc_full:
  assumes ok: "kmem_ok s V" and a: "allocator s r = Some a" and n: "free_count a = 0"
  shows "(\<exists>x s' ad. slab_obj_alloc r s = Inr (Some x, s') \<and> took r V x s (sa_slab_nobjs a) s'
        \<and> find_block (sa_order a) (km_pages s) = Inr (Some ad, km_pages s'))
    \<or> (\<exists>s'. slab_obj_alloc r s = Inr (None, s') \<and> kmem_ok s' V \<and> in_use s' = in_use s \<and> same_setup s s' \<and> none_empty s'
        \<and> no_block (sa_order a) (km_pages s))"
proof -
  have "find_slab a = None"
  proof (rule ccontr)
    assume "find_slab a \<noteq> None"
    then obtain i where "find_slab a = Some i" by blast
    then have i: "i < length (sa_slabs a)" "s_inuse (sa_slabs a ! i) < int (sa_slab_nobjs a)" using find_slab_run(1) [OF ok a] by blast+
    have "s_free (sa_slabs a ! i) = []" using n i(1) by (auto simp: free_count_def)
    then show False using slab_counts(5) [OF kmem_okD(7) [OF ok a nth_mem [OF i(1)]]] i(2) by simp
  qed
  note None = this
  from grow_run [OF ok a] show ?thesis
  proof (elim disjE exE conjE)
    fix s' assume "slab_allocator_grow r s = Inr (False, s')" "kmem_ok s' V" "in_use s' = in_use s" "same_setup s s'" "none_empty s'"
      "no_block (sa_order a) (km_pages s)"
    then show ?thesis using None a by (simp add: slab_obj_alloc_def sa_get_def)
  next
    fix s1 sl ad assume h: "slab_allocator_grow r s = Inr (True, s1)" "kmem_ok s1 V" "in_use s1 = in_use s" "same_setup s s1"
      "allocator s1 r = Some (a\<lparr>sa_slabs := sl # sa_slabs a\<rparr>)" "s_inuse sl = 0" "length (s_free sl) = sa_slab_nobjs a" "find_block (sa_order a) (km_pages s) = Inr (Some ad, km_pages s1)"
    let ?a = "a\<lparr>sa_slabs := sl # sa_slabs a\<rparr>"
    have p: "0 < sa_slab_nobjs a" using kmem_okD(5) [OF ok a] by (simp add: sa_ok_def)
    have c: "free_count ?a = sa_slab_nobjs a" using n h(7) by (simp add: free_count_def)
    then have "0 < free_count ?a" using p by simp
    from obj_alloc_room [OF h(2,5) this] obtain x s' where o: "slab_obj_alloc r s1 = Inr (Some x, s')" "took r V x s1 (sa_slab_nobjs a) s'"
      "km_pages s' = km_pages s1" unfolding c by blast
    have f: "find_slab ?a = Some 0" using h(6) p by (simp add: find_slab_def upt_conv_Cons del: upt_Suc)
    then have "slab_obj_alloc r s = slab_obj_alloc r s1" using None a h(1,5) by (simp add: slab_obj_alloc_def sa_get_def)
    moreover have "took r V x s (sa_slab_nobjs a) s'" using o(2) h(3) same_setup_trans [OF h(4)] by (simp add: took_def)
    ultimately show ?thesis using o(1,3) h(8) by auto
  qed
qed

lemma obj_alloc_run:
  assumes ok: "kmem_ok s V" and a: "allocator s r = Some a"
  shows "(\<exists>x s' n. slab_obj_alloc r s = Inr (Some x, s') \<and> took r V x s n s')
    \<or> (\<exists>s'. slab_obj_alloc r s = Inr (None, s') \<and> kmem_ok s' V \<and> in_use s' = in_use s \<and> same_setup s s' \<and> none_empty s'
        \<and> no_block (sa_order a) (km_pages s) \<and> free_count a = 0)"
  using obj_alloc_room [OF ok a] obj_alloc_full [OF ok a] by (cases "free_count a = 0") blast+

subsection \<open>Giving an object back\<close>

lemma obj_free_run:
  assumes ok: "kmem_ok s V" and x: "(x, r) \<in> in_use s"
  shows "\<exists>s'. slab_obj_free r x s = Inr s' \<and> kmem_ok s' V \<and> in_use s' = in_use s - {(x, r)} \<and> same_setup s s' \<and> km_pages s' = km_pages s
    \<and> slab_obj_free r x s' = Inl Kassert_failed"
proof -
  obtain a sl ob where a: "allocator s r = Some a" and sl: "sl \<in> set (sa_slabs a)" and ob: "ob \<in> objs a (s_addr sl)" "ob \<notin> set (s_free sl)"
    and xo: "x = ob + REDZONE_SIZE" using x by (auto simp: in_use_def)
  obtain i where i: "i < length (sa_slabs a)" "sa_slabs a ! i = sl" using sl by (auto simp: in_set_conv_nth)
  have sa: "sa_ok a" by (rule kmem_okD(5) [OF ok a])
  have slk: "slab_ok (bufctls s) a sl" by (rule kmem_okD(7) [OF ok a sl])
  then obtain b where b: "bufctls s (obj_bufctl a ob) = Some b" "\<not> sb_free b" "sb_slab b = s_self sl" using ob unfolding slab_ok_def by blast
  let ?sl' = "sl\<lparr>s_free := ob # s_free sl, s_inuse := s_inuse sl - 1\<rparr>"
  let ?B = "(bufctls s)(obj_bufctl a ob \<mapsto> b\<lparr>sb_free := True\<rparr>)"
  let ?a = "a\<lparr>sa_slabs := (sa_slabs a)[i := ?sl']\<rparr>"
  let ?s' = "upd_sa r ?a (s\<lparr>bufctls := ?B\<rparr>)"
  have ne: "obj_bufctl a y = obj_bufctl a ob \<longleftrightarrow> y = ob" for y by (simp add: obj_bufctl_def)
  have "slab_ok ?B a ?sl'" using slk ob by (auto simp: slab_ok_def ne)
  moreover have "c \<in> block_bytes (s_addr ?sl') (sa_order a)" if "?B c \<noteq> bufctls s c" for c
    using that bufctl_inside [OF sa ob(1)] by (auto split: if_splits)
  ultimately have u: "kmem_ok ?s' V" "in_use ?s' = (in_use s - used r a sl) \<union> used r a ?sl'" "same_setup s ?s'"
    using slab_upd [OF ok a i(1), of ?sl' ?B] i(2) by simp_all
  have "used r a ?sl' = used r a sl - {(x, r)}" using xo by (auto simp: used_def)
  moreover have "used r a sl \<subseteq> in_use s" "(x, r) \<in> used r a sl" using used_in_use [OF a sl] ob xo by (auto simp: used_def)
  ultimately have "in_use ?s' = in_use s - {(x, r)}" using u(2) by blast
  moreover have "find (\<lambda>j. s_self (sa_slabs a ! j) = s_self sl) [0..<length (sa_slabs a)] = Some i"
  proof -
    have self: "s_self t = s_addr t + sa_slab_nobjs a * step a" if "t \<in> set (sa_slabs a)" for t
      using kmem_okD(7) [OF ok a that] by (simp add: slab_ok_def)
    have "j = i" if "j < length (sa_slabs a)" "s_self (sa_slabs a ! j) = s_self sl" for j
    proof -
      have "s_addr (sa_slabs a ! j) = s_addr (sa_slabs a ! i)" using that self [OF nth_mem [OF that(1)]] self [OF sl] i(2) by simp
      then have "map s_addr (sa_slabs a) ! j = map s_addr (sa_slabs a) ! i" using that(1) i(1) by simp
      then show ?thesis using nth_eq_iff_index_eq [OF kmem_okD(6) [OF ok a], of j i] that(1) i(1) by simp
    qed
    then show ?thesis by (intro find_unique) (simp_all add: i)
  qed
  then have "slab_obj_free r x s = Inr ?s'"
    by (simp only: slab_obj_free_def sa_get_def xo a deref_Some bnd_Inr Let_def add_diff_cancel_right' le_add2 check_True b simp_thms i(2))
  moreover have "slab_obj_free r x ?s' = Inl Kassert_failed"
  proof -
    have "obj_bufctl ?a ob = obj_bufctl a ob" by (simp add: obj_bufctl_def)
    then show ?thesis using xo by (simp add: slab_obj_free_def sa_get_def Let_def)
  qed
  moreover have "km_pages ?s' = km_pages s" by simp
  ultimately show ?thesis using u(1,3) by blast
qed

end
