(* ===== verification/Slmain.thy ===== *)
theory Slmain
  imports Slobj
begin

text \<open>Allocators of a size that fits, the start of the slab allocator, \<open>kmalloc\<close> and \<open>kfree\<close>.\<close>

subsection \<open>The size of a slab\<close>

lemma block_words:
  assumes "k < PAGE_NSIZES"
  shows "unat (push_bit k (word_of_nat PAGE_SIZE) :: 32 word) = 2 ^ k * PAGE_SIZE" "sint (push_bit k (word_of_nat PAGE_SIZE) :: 32 word) = 2 ^ k * int PAGE_SIZE"
proof -
  have "k \<in> {0, 1, 2, 3, 4, 5, 6, 7}" using assms by (auto simp: PAGE_NSIZES_def)
  then show "unat (push_bit k (word_of_nat PAGE_SIZE) :: 32 word) = 2 ^ k * PAGE_SIZE" "sint (push_bit k (word_of_nat PAGE_SIZE) :: 32 word) = 2 ^ k * int PAGE_SIZE"
    by (auto simp: PAGE_SIZE_def)
qed

lemma sint_small: "unat w < 2 ^ 31 \<Longrightarrow> sint (w :: 32 word) = int (unat w)"
proof -
  assume w: "unat w < 2 ^ 31"
  have u: "uint w = int (unat w)" by simp
  have "int (unat w) < 2 ^ 31" using w by (metis of_nat_less_iff of_nat_numeral of_nat_power)
  then show "sint w = int (unat w)" unfolding sint_uint u by (intro signed_take_bit_int_eq_self) (simp_all del: of_nat_unat)
qed

lemma slab_nobjs_run:
  assumes k: "k < PAGE_NSIZES" and o: "unat objsize + 24 \<le> 2 ^ k * PAGE_SIZE"
  shows "unat (slab_nobjs objsize k) = (2 ^ k * PAGE_SIZE - SLAB_SIZE) div (unat objsize + BUFCTL_SIZE)"
    "0 < unat (slab_nobjs objsize k)" "unat (slab_nobjs objsize k) * (unat objsize + BUFCTL_SIZE) + SLAB_SIZE \<le> 2 ^ k * PAGE_SIZE"
proof -
  let ?M = "2 ^ k * PAGE_SIZE" and ?n = "(2 ^ k * PAGE_SIZE - SLAB_SIZE) div (unat objsize + BUFCTL_SIZE)"
  have "?M \<le> 2 ^ 7 * PAGE_SIZE" using k by (intro mult_le_mono1 power_increasing) (simp_all add: PAGE_NSIZES_def)
  then have M: "?M \<le> 524288" by (simp add: PAGE_SIZE_def)
  have "unat (word_of_nat SLAB_SIZE :: 32 word) = SLAB_SIZE" by (simp add: SLAB_SIZE_def)
  moreover have "SLAB_SIZE \<le> ?M" using o by (simp add: SLAB_SIZE_def)
  ultimately have "unat (push_bit k (word_of_nat PAGE_SIZE) - word_of_nat SLAB_SIZE :: 32 word) = ?M - SLAB_SIZE"
    using block_words(1) [OF k] by (simp add: unat_sub word_le_nat_alt)
  moreover have "unat (objsize + word_of_nat BUFCTL_SIZE) = unat objsize + BUFCTL_SIZE"
  proof -
    have "unat (word_of_nat BUFCTL_SIZE :: 32 word) = BUFCTL_SIZE" by (simp add: BUFCTL_SIZE_def)
    moreover have "unat objsize + BUFCTL_SIZE < 2 ^ LENGTH(32)" using o M by (simp add: BUFCTL_SIZE_def)
    ultimately show ?thesis using iffD1 [OF unat_add_lem, of objsize "word_of_nat BUFCTL_SIZE"] by simp
  qed
  ultimately show e: "unat (slab_nobjs objsize k) = ?n" by (simp add: slab_nobjs_def unat_div_distrib)
  have "unat objsize + BUFCTL_SIZE \<le> ?M - SLAB_SIZE" using o by (simp add: BUFCTL_SIZE_def SLAB_SIZE_def)
  then show "0 < unat (slab_nobjs objsize k)" unfolding e by (intro div_greater_zero_iff [THEN iffD2]) (simp add: BUFCTL_SIZE_def)
  have "?n * (unat objsize + BUFCTL_SIZE) \<le> ?M - SLAB_SIZE" by (rule div_times_less_eq_dividend)
  then show "unat (slab_nobjs objsize k) * (unat objsize + BUFCTL_SIZE) + SLAB_SIZE \<le> ?M"
    unfolding e using \<open>SLAB_SIZE \<le> ?M\<close> by linarith
qed

lemma best_size_in: "best_size ks objsize b w \<in> insert b (set ks)"
  by (induction ks objsize b w rule: best_size.induct) (auto simp: Let_def)

lemma calc_run:
  assumes o: "unat objsize + 24 \<le> 2 ^ (PAGE_NSIZES - 1) * PAGE_SIZE"
  shows "\<exists>k. calc_slab_size objsize = Inr (k, unat (slab_nobjs objsize k)) \<and> k < PAGE_NSIZES \<and> unat objsize + 24 \<le> 2 ^ k * PAGE_SIZE
    \<and> (unat objsize + 24 \<le> PAGE_SIZE \<longrightarrow> k < SLAB_MAX_ORDER)"
proof -
  have o': "unat objsize + 24 \<le> 524288" using o by (simp add: PAGE_NSIZES_def PAGE_SIZE_def)
  have "unat (slab_size objsize 1) = unat objsize + 24"
  proof -
    have "slab_size objsize 1 = objsize + 24" by (simp add: slab_size_def BUFCTL_SIZE_def SLAB_SIZE_def add.assoc)
    moreover have "unat objsize + unat (24 :: 32 word) < 2 ^ LENGTH(32)" using o' by simp
    ultimately show ?thesis using iffD1 [OF unat_add_lem, of objsize 24] by simp
  qed
  then have m: "sint (slab_size objsize 1) = int (unat objsize + 24)"
    using o' sint_small [of "slab_size objsize 1"] by simp
  let ?P = "\<lambda>k. sint (slab_size objsize 1) \<le> sint (push_bit k (word_of_nat PAGE_SIZE :: 32 word))"
  have P: "?P k \<longleftrightarrow> unat objsize + 24 \<le> 2 ^ k * PAGE_SIZE" if "k < PAGE_NSIZES" for k
  proof -
    have "(2 :: int) ^ k * int PAGE_SIZE = int (2 ^ k * PAGE_SIZE)" by simp
    then show ?thesis using block_words(2) [OF that] m by (metis of_nat_le_iff)
  qed
  have K: "PAGE_NSIZES - 1 \<in> set [0..<PAGE_NSIZES]" by (simp add: PAGE_NSIZES_def)
  then have "?P (PAGE_NSIZES - 1)" using P [of "PAGE_NSIZES - 1"] o by simp
  then have "find ?P [0..<PAGE_NSIZES] \<noteq> None" using K unfolding find_None_iff by blast
  then obtain k0 where k0: "find ?P [0..<PAGE_NSIZES] = Some k0" by blast
  then have f: "k0 < PAGE_NSIZES" "?P k0" "\<And>j. j < k0 \<Longrightarrow> \<not> ?P j" unfolding find_Some_iff by auto
  let ?k = "best_size [k0 + 1..<SLAB_MAX_ORDER] objsize k0 (slab_waste objsize k0)"
  have in': "?k = k0 \<or> (k0 < ?k \<and> ?k < SLAB_MAX_ORDER)" using best_size_in [of "[k0 + 1..<SLAB_MAX_ORDER]" objsize k0 "slab_waste objsize k0"] by auto
  then have k: "k0 \<le> ?k" "?k < PAGE_NSIZES" using f(1) by (auto simp: SLAB_MAX_ORDER_def PAGE_NSIZES_def)
  have "(2 :: nat) ^ k0 * PAGE_SIZE \<le> 2 ^ ?k * PAGE_SIZE" using k(1) by (intro mult_le_mono1 power_increasing) simp_all
  then have "unat objsize + 24 \<le> 2 ^ ?k * PAGE_SIZE" using P [OF f(1)] f(2) by linarith
  moreover have "?k < SLAB_MAX_ORDER" if "unat objsize + 24 \<le> PAGE_SIZE"
  proof -
    have "?P 0" using P [of 0] that by (simp add: PAGE_NSIZES_def)
    then have "k0 = 0" using f(3) [of 0] by blast
    then show ?thesis using in' by (auto simp: SLAB_MAX_ORDER_def)
  qed
  moreover have "calc_slab_size objsize = Inr (?k, unat (slab_nobjs objsize ?k))" using k0 by (simp add: calc_slab_size_def Let_def)
  ultimately show ?thesis using k(2) by blast
qed

subsection \<open>New allocators\<close>

lemma objsize_word:
  fixes sz :: "32 word"
  assumes "unat sz + 32 \<le> 2 ^ (PAGE_NSIZES - 1) * PAGE_SIZE"
  shows "unat (sz + 2 * word_of_nat REDZONE_SIZE) = unat sz + 2 * REDZONE_SIZE"
proof -
  have "unat sz + unat (8 :: 32 word) < 2 ^ LENGTH(32)" using assms by (simp add: PAGE_NSIZES_def PAGE_SIZE_def)
  then show ?thesis using iffD1 [OF unat_add_lem, of sz 8] by (simp add: REDZONE_SIZE_def)
qed

definition fresh_allocator :: "slab_allocator \<Rightarrow> 32 word \<Rightarrow> bool" where
  "fresh_allocator a sz \<longleftrightarrow> sa_slabs a = [] \<and> sa_objsize a = unat sz + 2 * REDZONE_SIZE \<and> sa_ok a
     \<and> (unat sz + 32 \<le> PAGE_SIZE \<longrightarrow> sa_order a < SLAB_MAX_ORDER) \<and> sa_slab_nobjs a = (2 ^ sa_order a * PAGE_SIZE - SLAB_SIZE) div (step a)"

lemma init_run:
  assumes sz: "unat sz + 32 \<le> 2 ^ (PAGE_NSIZES - 1) * PAGE_SIZE"
  shows "\<exists>a. allocator_init r name sz s = Inr (upd_sa r a (s\<lparr>slab_allocators := r # slab_allocators s\<rparr>)) \<and> fresh_allocator a sz"
proof -
  let ?o = "sz + 2 * word_of_nat REDZONE_SIZE"
  have o: "unat ?o = unat sz + 2 * REDZONE_SIZE" by (rule objsize_word [OF sz])
  have "unat ?o + 24 \<le> 2 ^ (PAGE_NSIZES - 1) * PAGE_SIZE" using sz unfolding o by (simp add: REDZONE_SIZE_def)
  from calc_run [OF this] obtain k where k: "calc_slab_size ?o = Inr (k, unat (slab_nobjs ?o k))" "k < PAGE_NSIZES" "unat ?o + 24 \<le> 2 ^ k * PAGE_SIZE"
    "unat ?o + 24 \<le> PAGE_SIZE \<longrightarrow> k < SLAB_MAX_ORDER" by blast
  let ?a = "\<lparr>sa_name = (case name of None \<Rightarrow> ''<unnamed>'' | Some n \<Rightarrow> n), sa_objsize = unat ?o, sa_slabs = [], sa_order = k, sa_slab_nobjs = unat (slab_nobjs ?o k)\<rparr>"
  have "fresh_allocator ?a sz"
    using slab_nobjs_run [OF k(2,3)] k(2,4) o by (simp add: fresh_allocator_def sa_ok_def step_def REDZONE_SIZE_def)
  moreover have "allocator_init r name sz s = Inr (upd_sa r ?a (s\<lparr>slab_allocators := r # slab_allocators s\<rparr>))"
    using k(1) by (simp add: allocator_init_def Let_def)
  ultimately show ?thesis by blast
qed

lemma add_allocator:
  assumes ok: "kmem_ok s V" and r: "allocator s r = None" and a: "sa_slabs a = []" "sa_ok a"
  shows "kmem_ok (upd_sa r a (s\<lparr>slab_allocators := r # slab_allocators s\<rparr>)) V"
    "in_use (upd_sa r a (s\<lparr>slab_allocators := r # slab_allocators s\<rparr>)) = in_use s"
proof -
  let ?s = "upd_sa r a (s\<lparr>slab_allocators := r # slab_allocators s\<rparr>)"
  have n: "allocator s r' = Some a' \<Longrightarrow> r' \<noteq> r" for r' a' using r by auto
  have "sl_blocks a = {}" using a(1) by (simp add: sl_blocks_def)
  then have b: "slab_blocks ?s = slab_blocks s" unfolding slab_blocks_upd using n by (simp add: slab_blocks_def) blast
  have "r \<notin> set (slab_allocators s)" using kmem_okD(4) [OF ok, of r] r by simp
  then show "kmem_ok ?s V" using ok a r unfolding kmem_ok_def b by auto
  show "in_use ?s = in_use s" using r a(1) by (auto simp: in_use_def split: if_splits)
qed

subsection \<open>Kernel memory after its start\<close>

text \<open>The allocators are objects of the static one, the buckets of \<open>kmalloc\<close> have their sizes.\<close>

definition buckets_ok :: "kmem \<Rightarrow> bool" where
  "buckets_ok s \<longleftrightarrow> (\<forall>i<length (kmalloc_allocators s). \<exists>a. kmalloc_allocators s ! i \<noteq> Slab_allocator_allocator
     \<and> allocator s (kmalloc_allocators s ! i) = Some a \<and> sa_objsize a = 2 ^ (i + KMALLOC_SIZE_MIN_ORDER) + 2 * REDZONE_SIZE)"

definition mem_ok :: "kmem \<Rightarrow> (nat \<times> nat) set \<Rightarrow> bool" where
  "mem_ok s V \<longleftrightarrow> kmem_ok s V \<and> allocator s Slab_allocator_allocator \<noteq> None
     \<and> (\<forall>x. allocator s (Sa x) \<noteq> None \<longrightarrow> (x, Slab_allocator_allocator) \<in> in_use s) \<and> buckets_ok s"

lemma same_setup_buckets: "same_setup s s' \<Longrightarrow> buckets_ok s \<Longrightarrow> buckets_ok s'"
  unfolding buckets_ok_def
proof (intro allI impI)
  fix i assume su: "same_setup s s'" and b: "\<forall>i<length (kmalloc_allocators s). \<exists>a. kmalloc_allocators s ! i \<noteq> Slab_allocator_allocator
     \<and> allocator s (kmalloc_allocators s ! i) = Some a \<and> sa_objsize a = 2 ^ (i + KMALLOC_SIZE_MIN_ORDER) + 2 * REDZONE_SIZE"
    and i: "i < length (kmalloc_allocators s')"
  have ks: "kmalloc_allocators s' = kmalloc_allocators s" using su by (simp add: same_setup_def)
  then obtain a where a: "kmalloc_allocators s ! i \<noteq> Slab_allocator_allocator" "allocator s (kmalloc_allocators s ! i) = Some a"
    "sa_objsize a = 2 ^ (i + KMALLOC_SIZE_MIN_ORDER) + 2 * REDZONE_SIZE" using b i by auto
  then obtain a' where "allocator s' (kmalloc_allocators s ! i) = Some a'" "same_sizes a a'" using su unfolding same_setup_def by blast
  then show "\<exists>a. kmalloc_allocators s' ! i \<noteq> Slab_allocator_allocator
     \<and> allocator s' (kmalloc_allocators s' ! i) = Some a \<and> sa_objsize a = 2 ^ (i + KMALLOC_SIZE_MIN_ORDER) + 2 * REDZONE_SIZE"
    using a ks by (auto simp: same_sizes_def)
qed

lemma same_setup_None: "same_setup s s' \<Longrightarrow> allocator s' r = None \<longleftrightarrow> allocator s r = None"
proof (cases "allocator s r")
  case (Some a)
  assume "same_setup s s'"
  then have "\<exists>a'. allocator s' r = Some a' \<and> same_sizes a a'" using Some unfolding same_setup_def by blast
  then show ?thesis using Some by auto
qed (simp add: same_setup_def)

lemma mem_same:
  assumes "mem_ok s V" and "same_setup s s'" and "kmem_ok s' V'"
    and "\<And>x. (x, Slab_allocator_allocator) \<in> in_use s \<Longrightarrow> (x, Slab_allocator_allocator) \<in> in_use s'"
  shows "mem_ok s' V'"
  using assms(1,3,4) same_setup_buckets [OF assms(2)] unfolding mem_ok_def same_setup_None [OF assms(2)] by blast

lemma allocator_create_run:
  assumes ok: "mem_ok s V" and sz: "unat sz + 32 \<le> 2 ^ (PAGE_NSIZES - 1) * PAGE_SIZE"
    and x: "slab_obj_alloc Slab_allocator_allocator s = Inr (Some x, s1)" "took Slab_allocator_allocator V x s n s1"
  shows "\<exists>a s'. slab_allocator_create name sz s = Inr (Some (Sa x), s') \<and> mem_ok s' V \<and> in_use s' = insert (x, Slab_allocator_allocator) (in_use s)
    \<and> s' = upd_sa (Sa x) a (s1\<lparr>slab_allocators := Sa x # slab_allocators s1\<rparr>) \<and> fresh_allocator a sz \<and> allocator s1 (Sa x) = None"
proof -
  let ?r = "Slab_allocator_allocator"
  have t: "kmem_ok s1 V" "in_use s1 = insert (x, ?r) (in_use s)" "(x, ?r) \<notin> in_use s" "same_setup s s1" using x(2) by (simp_all add: took_def)
  have m1: "mem_ok s1 V" by (rule mem_same [OF ok t(4,1)]) (simp add: t(2))
  have "allocator s (Sa x) = None" using ok t(3) unfolding mem_ok_def by blast
  then have new: "allocator s1 (Sa x) = None" using same_setup_None [OF t(4)] by simp
  from init_run [OF sz, of "Sa x" name s1] obtain a where a: "allocator_init (Sa x) name sz s1 = Inr (upd_sa (Sa x) a (s1\<lparr>slab_allocators := Sa x # slab_allocators s1\<rparr>))"
    "fresh_allocator a sz" by blast
  let ?s' = "upd_sa (Sa x) a (s1\<lparr>slab_allocators := Sa x # slab_allocators s1\<rparr>)"
  have f: "sa_slabs a = []" "sa_ok a" using a(2) by (simp_all add: fresh_allocator_def)
  note u = add_allocator [OF t(1) new f]
  have "buckets_ok ?s'"
  proof -
    have "kmalloc_allocators s1 ! i \<noteq> Sa x" if "i < length (kmalloc_allocators s1)" for i using m1 that new unfolding mem_ok_def buckets_ok_def by fastforce
    then show ?thesis using m1 unfolding mem_ok_def buckets_ok_def by simp
  qed
  then have "mem_ok ?s' V" using m1 u t(2) by (auto simp: mem_ok_def)
  moreover have "slab_allocator_create name sz s = Inr (Some (Sa x), ?s')" using x(1) a(1) by (simp add: slab_allocator_create_def)
  moreover have "in_use ?s' = insert (x, ?r) (in_use s)" using u(2) t(2) by simp
  ultimately show ?thesis using a(2) new by blast
qed

end
