(* ===== verification/Pgprops.thy ===== *)
theory Pgprops
  imports Pgreach
begin

text \<open>The properties of the page allocator, each with a run of the code on which its hypotheses hold.\<close>

subsection \<open>The lists of the largest order\<close>

lemma all_joined_largest:
  assumes g: "grp g L {} {}"
  shows "set (L (PAGE_NSIZES - 1)) = {p. 2 ^ (PAGE_NSIZES - 1) dvd p \<and> p < npages g}"
proof -
  let ?K = "PAGE_NSIZES - 1"
  have T: "tiles (npages g) (free_blocks L)" using grpD(3) [OF g] by simp
  have K: "?K < PAGE_NSIZES" by (simp add: PAGE_NSIZES_def)
  have "p \<in> set (L ?K)" if p: "2 ^ ?K dvd p" "p < npages g" for p
  proof -
    obtain q i where q: "(q, i) \<in> free_blocks L" "p \<in> span (q, i)" using T p(2) unfolding tiles_def by (metis UN_iff lessThan_iff surj_pair)
    have i: "i = ?K" using all_joined [OF g, of i] q(1) by (cases "i < ?K") (auto simp: free_blocks_iff)
    obtain u v where uv: "p = u * 2 ^ ?K" "q = v * 2 ^ ?K" using p(1) tilesD(1) [OF T q(1)] i by (metis dvdE mult.commute)
    have "v * 2 ^ ?K \<le> u * 2 ^ ?K" "u * 2 ^ ?K < (v + 1) * 2 ^ ?K" using q(2) uv i by (simp_all add: span_simps)
    then have "v \<le> u" "u < v + 1" unfolding mult_less_cancel2 mult_le_cancel2 by auto
    then have "u = v" by simp
    then show ?thesis using q(1) uv i by (simp add: free_blocks_iff)
  qed
  moreover have "2 ^ ?K dvd p \<and> p < npages g" if "p \<in> set (L ?K)" for p
    using tilesD [OF T, of p ?K] that K by (simp add: free_blocks_iff)
  ultimately show ?thesis by blast
qed

lemma find_block_empty:
  assumes "\<And>g j. g \<in> set (pagegroup_list s) \<Longrightarrow> j < PAGE_NSIZES \<Longrightarrow> k \<le> j \<Longrightarrow> pg_freelist g j = []" and "k < PAGE_NSIZES"
  shows "find_block k s = Inr (None, s)"
proof -
  have none: "group_with j s = None" if "j < PAGE_NSIZES" "k \<le> j" for j
    using assms(1) that by (auto simp: group_with_def find_None_iff)
  have "split_larger js k s = Inr (None, s)" if "set js \<subseteq> {k..<PAGE_NSIZES}" for js
    using that by (induction js) (auto simp: none)
  from this [of "[k + 1..<PAGE_NSIZES]"] show ?thesis using none assms(2) by (simp add: find_block_def)
qed

subsection \<open>A range\<close>

lemma range_run:
  assumes "page_reach s U" and "whole_range start e" and "apart start e s"
  shows "\<exists>s'. page_add_range start e s = Inr s' \<and> page_reach s' U \<and> page_freecount s' = page_freecount s + int (usable start e)"
  using add_range_run [OF reach_ok [OF assms(1)] assms(2,3)] page_reach.range [OF assms] by blast

lemma block_run:
  assumes r: "page_reach s U" and c: "0 < page_freecount s"
  shows "\<exists>a s'. find_block 0 s = Inr (Some a, s') \<and> page_reach s' (insert (a, 0) U) \<and> (a, 0) \<notin> U \<and> page_freecount s' = page_freecount s - 1"
proof -
  have "page_freecount s = 0" if "\<forall>g\<in>set (pagegroup_list s). \<forall>j<PAGE_NSIZES. pg_freelist g j = []"
  proof -
    have "list_pages (pg_freelist g) = 0" if "g \<in> set (pagegroup_list s)" for g
      using that \<open>\<forall>g\<in>_. _\<close> by (simp add: list_pages_def)
    then have "(\<Sum>g\<leftarrow>pagegroup_list s. list_pages (pg_freelist g)) = 0" by simp
    then show ?thesis using reach_ok [OF r] by (simp add: groups_ok_def)
  qed
  moreover have o: "(0 :: nat) < PAGE_NSIZES" by (simp add: PAGE_NSIZES_def)
  ultimately show ?thesis using find_block_run [OF reach_ok [OF r] o] c page_reach.alloc [OF r o] by fastforce
qed

lemma first_space: "map_space 4096 532480 = 130" "map_space 4096 536576 = 131"
proof -
  have o: "[1..<PAGE_NSIZES] = [1, 2, 3, 4, 5, 6, 7]" by (simp add: PAGE_NSIZES_def upt_rec)
  show "map_space 4096 532480 = 130" unfolding map_space_def o by (simp add: map_bytes_eq PAGE_SIZE_def PAGEGROUP_SIZE_def)
  show "map_space 4096 536576 = 131" unfolding map_space_def o by (simp add: map_bytes_eq PAGE_SIZE_def PAGEGROUP_SIZE_def)
qed

lemma first_usable: "usable 4096 532480 = 128" "usable 4096 536576 = 129"
  by (simp_all add: usable_def first_space page_align_down_def PAGE_SIZE_def)

lemma first_range: "\<exists>s. page_add_range 4096 532480 page_init = Inr s \<and> page_reach s {} \<and> page_freecount s = 128"
proof -
  have "whole_range 4096 532480" by (simp add: whole_range_def first_space first_usable PAGE_SIZE_def PAGE_NSIZES_def)
  moreover have "apart 4096 532480 page_init" by (simp add: apart_def page_init_def)
  ultimately show ?thesis using range_run [OF page_reach.boot] by (fastforce simp: first_usable page_init_def)
qed

lemma two_blocks: "\<exists>s a b. page_reach s {(a, 0), (b, 0)} \<and> a \<noteq> b"
proof -
  obtain s where s: "page_reach s {}" "page_freecount s = 128" using first_range by blast
  obtain a t where t: "page_reach t {(a, 0)}" "page_freecount t = 127" using block_run [OF s(1)] s(2) by auto
  obtain b u where "page_reach u (insert (b, 0) {(a, 0)})" "(b, 0) \<notin> {(a, 0 :: nat)}" using block_run [OF t(1)] t(2) by auto
  then have "page_reach u {(b, 0), (a, 0)} \<and> b \<noteq> a" by simp
  then show ?thesis by blast
qed

text \<open>Aligned pages that meet no block in use are part of a free block of their order or a larger one.\<close>

lemma region_block:
  assumes ok: "groups_ok s U" and g: "g \<in> set (pagegroup_list s)" and k: "k < PAGE_NSIZES" and p: "2 ^ k dvd p" "p + 2 ^ k \<le> npages g"
    and un: "\<And>a j. (a, j) \<in> U \<Longrightarrow> block_bytes a j \<inter> block_bytes (page_addr g p) k = {}"
  shows "\<exists>j. k \<le> j \<and> j < PAGE_NSIZES \<and> pg_freelist g j \<noteq> []"
proof -
  obtain L where L: "grp g L (alloc_in g U) {}" using ok g unfolding groups_ok_def by blast
  have "span b \<inter> span (p, k) = {}" if b: "b \<in> alloc_in g U" for b
  proof (rule ccontr)
    obtain q j where qj: "b = (q, j)" "(page_addr g q, j) \<in> U" using b by (auto simp: alloc_in_def)
    assume "span b \<inter> span (p, k) \<noteq> {}"
    then obtain x where "x \<in> span (q, j)" "x \<in> span (p, k)" using qj(1) by blast
    then have x: "q \<le> x" "x + 1 \<le> q + 2 ^ j" "p \<le> x" "x + 1 \<le> p + 2 ^ k" by (simp_all add: span_simps)
    have m: "q * PAGE_SIZE \<le> x * PAGE_SIZE" "(x + 1) * PAGE_SIZE \<le> (q + 2 ^ j) * PAGE_SIZE"
      "p * PAGE_SIZE \<le> x * PAGE_SIZE" "(x + 1) * PAGE_SIZE \<le> (p + 2 ^ k) * PAGE_SIZE" using x by (intro mult_le_mono1; simp)+
    have "page_addr g x \<in> block_bytes (page_addr g q) j \<inter> block_bytes (page_addr g p) k"
      unfolding block_bytes_def page_addr_def Int_iff atLeastLessThan_iff using m [unfolded add_mult_distrib] PAGE_SIZE_pos
      by (intro conjI; linarith)
    then show False using un [OF qj(2)] by blast
  qed
  from free_region [OF L k p this] obtain q j where q: "(q, j) \<in> free_blocks L" "k \<le> j" by blast
  then show ?thesis using grpD(6) [OF L, of j] by (auto simp: free_blocks_iff)
qed

subsection \<open>Requests in pages\<close>

lemma order_for_run:
  assumes "order_for n = Inr k"
  shows "k < PAGE_NSIZES" "sint n \<le> 2 ^ k" "j < k \<Longrightarrow> 2 ^ j < sint n"
proof -
  have "find (\<lambda>k. sint n \<le> 2 ^ k) [0..<PAGE_NSIZES] = Some k"
    using assms by (cases "find (\<lambda>k. sint n \<le> 2 ^ k) [0..<PAGE_NSIZES]") (simp_all add: order_for_def)
  then show "k < PAGE_NSIZES" "sint n \<le> 2 ^ k" "j < k \<Longrightarrow> 2 ^ j < sint n"
    unfolding find_Some_iff by (auto simp: not_le)
qed

text \<open>A request of \<open>2 ^ 31\<close> pages or more is negative as an \<open>int\<close> and asks for one page.\<close>

lemma order_for_huge: "sint n < 0 \<Longrightarrow> order_for n = Inr 0"
  by (simp add: order_for_def PAGE_NSIZES_def upt_rec)

lemma page_free_n_run:
  assumes "page_reach s U" and "order_for n = Inr k" and "(a, k) \<in> U"
  shows "\<exists>s'. page_free_n a n s = Inr s' \<and> page_reach s' (U - {(a, k)})"
  using free_order_run [OF reach_ok [OF assms(1)] assms(3)] page_reach.free [OF assms(1,3)] assms(2) by (auto simp: page_free_n_def)

subsection \<open>The properties\<close>

text \<open>Claim C19. No two blocks in use overlap, after any sequence of ranges added, blocks allocated and blocks freed,
  with all splits and joins these cause: their bytes are disjoint, and all lie in one group.\<close>

theorem page_blocks_disjoint:
  assumes "page_reach s U" and "(a, j) \<in> U" and "(b, k) \<in> U" and "(a, j) \<noteq> (b, k)"
  shows "block_bytes a j \<inter> block_bytes b k = {} \<and> (\<exists>g\<in>set (pagegroup_list s). \<forall>x\<in>block_bytes a j. pg_baseaddr g \<le> x \<and> x < pg_endaddr g)"
proof
  show "block_bytes a j \<inter> block_bytes b k = {}" by (rule blocks_apart [OF reach_ok [OF assms(1)] assms(2-4)])
  obtain i p where p: "i < length (pagegroup_list s)" "a = page_addr (pagegroup_list s ! i) p"
    "p + 2 ^ j \<le> npages (pagegroup_list s ! i)" "range_ok (pagegroup_list s ! i)" by (rule block_place [OF reach_ok [OF assms(1)] assms(2)])
  have "pg_baseaddr (pagegroup_list s ! i) \<le> x \<and> x < pg_endaddr (pagegroup_list s ! i)" if "x \<in> block_bytes a j" for x
    using block_bytes_page(1) [OF _ p(3,4)] that p(2) by (simp add: in_group_def)
  then show "\<exists>g\<in>set (pagegroup_list s). \<forall>x\<in>block_bytes a j. pg_baseaddr g \<le> x \<and> x < pg_endaddr g" using nth_mem [OF p(1)] by blast
qed

theorem page_blocks_disjoint_witness:
  "\<exists>s a b. page_reach s {(a, 0), (b, 0)} \<and> a \<noteq> b \<and> block_bytes a 0 \<inter> block_bytes b 0 = {}"
proof -
  obtain s a b where s: "page_reach s {(a, 0), (b, 0)}" "a \<noteq> b" using two_blocks by blast
  have "block_bytes a 0 \<inter> block_bytes b 0 = {}" using page_blocks_disjoint [OF s(1), of a 0 b 0] s(2) by simp
  with s show ?thesis by blast
qed

text \<open>No page is lost: the free pages and the pages of the blocks in use are together all the pages of the
  groups, in every reachable state.\<close>

theorem page_count_exact:
  assumes "page_reach s U"
  shows "page_free_count s + (\<Sum>(a, k)\<in>U. 2 ^ k) = int (pages_total s)"
  using reach_pages [OF assms] by (simp add: page_free_count_def)

theorem page_count_exact_witness:
  "\<exists>s a b. page_reach s {(a, 0), (b, 0)} \<and> a \<noteq> b \<and> page_free_count s + 2 = int (pages_total s)"
proof -
  obtain s a b where s: "page_reach s {(a, 0), (b, 0)}" "a \<noteq> b" using two_blocks by blast
  have "page_free_count s + 2 = int (pages_total s)" using page_count_exact [OF s(1)] s(2) by simp
  with s show ?thesis by blast
qed

text \<open>Claim C20. An allocation finds a block as soon as some group has a free block of the order or of a larger one, and
  no assertion fails while that block is split; the block overlaps no block in use, and as many pages as it has
  leave the count.  If there is none the search changes nothing.\<close>

theorem page_alloc_result:
  assumes "page_reach s U" and "k < PAGE_NSIZES"
  shows "if \<exists>g\<in>set (pagegroup_list s). \<exists>j\<in>{k..<PAGE_NSIZES}. pg_freelist g j \<noteq> []
    then \<exists>a s'. find_block k s = Inr (Some a, s') \<and> page_reach s' (insert (a, k) U) \<and> page_freecount s' = page_freecount s - 2 ^ k
      \<and> (\<forall>(b, j)\<in>U. block_bytes a k \<inter> block_bytes b j = {})
    else find_block k s = Inr (None, s)"
proof (cases "\<exists>g\<in>set (pagegroup_list s). \<exists>j\<in>{k..<PAGE_NSIZES}. pg_freelist g j \<noteq> []")
  case True
  note ok = reach_ok [OF assms(1)]
  from find_block_run [OF ok assms(2)] True obtain a s' where r: "find_block k s = Inr (Some a, s')" "(a, k) \<notin> U"
    "groups_ok s' (insert (a, k) U)" "page_freecount s' = page_freecount s - 2 ^ k" by auto
  have "page_get k s = Inr (Some (a, k), s')" using r(1) by (simp add: page_get_eq)
  then have "block_bytes a k \<inter> block_bytes b j = {}" if "(b, j) \<in> U" for b j
    using page_pool.got_apart [OF assms(1,2) _ that] by simp
  then show ?thesis using True r page_reach.alloc [OF assms r(1)] by auto
next
  case False
  then show ?thesis using find_block_empty [of s k] assms(2) by auto
qed

theorem page_alloc_result_witness:
  "\<exists>s a s'. page_add_range 4096 532480 page_init = Inr s \<and> find_block 0 s = Inr (Some a, s') \<and> page_reach s' {(a, 0)}"
proof -
  obtain s where s: "page_add_range 4096 532480 page_init = Inr s" "page_reach s {}" "page_freecount s = 128" using first_range by blast
  have o: "(0 :: nat) < PAGE_NSIZES" by (simp add: PAGE_NSIZES_def)
  have "find_block 0 s \<noteq> Inr (None, s)" using block_run [OF s(2)] s(3) by auto
  then have "\<exists>a s'. find_block 0 s = Inr (Some a, s') \<and> page_reach s' {(a, 0)}"
    using page_alloc_result [OF s(2) o] by (auto split: if_splits)
  with s(1) show ?thesis by blast
qed

text \<open>Claim C21. Freeing a block in use runs through all its joins without a failed assertion and without touching a page
  that is on no list; the other blocks stay in use and the pages are counted again.\<close>

theorem page_free_result:
  assumes "page_reach s U" and "(a, k) \<in> U"
  shows "\<exists>s'. page_free_order a k s = Inr s' \<and> page_reach s' (U - {(a, k)}) \<and> page_freecount s' = page_freecount s + 2 ^ k"
  using free_order_run [OF reach_ok [OF assms(1)] assms(2)] page_reach.free [OF assms] by blast

theorem page_free_result_witness:
  "\<exists>s a b s'. page_reach s {(a, 0), (b, 0)} \<and> a \<noteq> b \<and> page_free_order a 0 s = Inr s' \<and> page_reach s' {(b, 0)}"
proof -
  obtain s a b where s: "page_reach s {(a, 0), (b, 0)}" "a \<noteq> b" using two_blocks by blast
  have m: "{(a, 0), (b, 0)} - {(a, 0)} = {(b, 0 :: nat)}" using s(2) by auto
  have "\<exists>s'. page_free_order a 0 s = Inr s' \<and> page_reach s' {(b, 0)}" using page_free_result [OF s(1), of a 0] unfolding m by auto
  with s show ?thesis by blast
qed

text \<open>Claim C22. Nothing stays fragmented: once every block has been freed, whatever the order, all lists below the largest order
  are empty and the list of the largest order holds exactly the aligned blocks of the group.\<close>

theorem page_all_freed:
  assumes "page_reach s {}" and "g \<in> set (pagegroup_list s)"
  shows "(\<forall>k<PAGE_NSIZES - 1. pg_freelist g k = [])
    \<and> set (pg_freelist g (PAGE_NSIZES - 1)) = {page_addr g p |p. 2 ^ (PAGE_NSIZES - 1) dvd p \<and> p < npages g}"
proof -
  obtain L where "grp g L (alloc_in g {}) {}" using reach_ok [OF assms(1)] assms(2) unfolding groups_ok_def by blast
  then have L: "grp g L {} {}" by (simp add: alloc_in_def)
  have K: "PAGE_NSIZES - 1 < PAGE_NSIZES" by (simp add: PAGE_NSIZES_def)
  have "pg_freelist g k = []" if "k < PAGE_NSIZES - 1" for k
    using grpD(6) [OF L, of k] all_joined [OF L that] that by simp
  then show ?thesis using grpD(6) [OF L K] all_joined_largest [OF L] by auto
qed

theorem page_all_freed_witness:
  "\<exists>s a s' s''. page_reach s {} \<and> find_block 0 s = Inr (Some a, s') \<and> page_free_order a 0 s' = Inr s''
    \<and> (\<forall>g\<in>set (pagegroup_list s''). pg_freelist g 0 = [])"
proof -
  obtain s where s: "page_reach s {}" "page_freecount s = 128" using first_range by blast
  obtain a s' where a: "find_block 0 s = Inr (Some a, s')" "page_reach s' {(a, 0)}" using block_run [OF s(1)] s(2) by auto
  obtain s'' where f: "page_free_order a 0 s' = Inr s''" using free_order_run [OF reach_ok [OF a(2)], of a 0] by auto
  have e: "page_reach s'' {}" using page_reach.free [OF a(2) _ f] by simp
  have "\<forall>g\<in>set (pagegroup_list s''). pg_freelist g 0 = []" using page_all_freed [OF e] by (auto simp: PAGE_NSIZES_def)
  with s(1) a(1) f show ?thesis by blast
qed

text \<open>Claim C23. Memory that is free can be allocated: if some group has \<open>2 ^ k\<close> pages, aligned to their number, that no block in
  use meets, an allocation of order \<open>k\<close> succeeds, whatever was allocated and freed before.\<close>

theorem page_alloc_complete:
  assumes "page_reach s U" and "g \<in> set (pagegroup_list s)" and "k < PAGE_NSIZES" and "2 ^ k dvd p" and "p + 2 ^ k \<le> npages g"
    and "\<forall>(a, j)\<in>U. block_bytes a j \<inter> block_bytes (page_addr g p) k = {}"
  shows "\<exists>a s'. find_block k s = Inr (Some a, s')"
proof -
  obtain j where "k \<le> j" "j < PAGE_NSIZES" "pg_freelist g j \<noteq> []"
    using region_block [OF reach_ok [OF assms(1)] assms(2-5)] assms(6) by blast
  then show ?thesis using find_block_run [OF reach_ok [OF assms(1)] assms(3)] assms(2) by blast
qed

theorem page_alloc_complete_witness:
  "\<exists>s a s'. page_add_range 4096 532480 page_init = Inr s \<and> find_block 7 s = Inr (Some a, s')"
proof -
  obtain s where s: "page_add_range 4096 532480 page_init = Inr s" "page_reach s {}" "page_freecount s = 128" using first_range by blast
  obtain g where g: "g \<in> set (pagegroup_list s)" "128 \<le> npages g"
  proof -
    have t: "int (pages_total s) = 128" using reach_pages [OF s(2)] s(3) by simp
    have "\<exists>h\<in>set (pagegroup_list s). npages h \<noteq> 0"
    proof (rule ccontr)
      assume "\<not> (\<exists>h\<in>set (pagegroup_list s). npages h \<noteq> 0)"
      then have "pages_total s = 0" by (simp add: pages_total_def)
      then show False using t by simp
    qed
    then obtain h where h: "h \<in> set (pagegroup_list s)" "npages h \<noteq> 0" by blast
    have "range_ok h" using reach_ok [OF s(2)] h(1) grpD(1) unfolding groups_ok_def by blast
    then have "128 dvd npages h" by (simp add: range_ok_def PAGE_NSIZES_def)
    then have "128 \<le> npages h" using h(2) by (intro dvd_imp_le) simp_all
    then show ?thesis using that h(1) by blast
  qed
  have "\<exists>a s'. find_block 7 s = Inr (Some a, s')" by (rule page_alloc_complete [OF s(2) g(1), where p = 0]) (use g(2) in \<open>simp_all add: PAGE_NSIZES_def\<close>)
  with s(1) show ?thesis by blast
qed

text \<open>Claim C33. A range whose usable pages are no multiple of the largest block gives out a block that cannot be freed: the
  lowest left-over block, allocated and freed, is joined with a buddy beyond the end of the group, where the maps are.\<close>

theorem page_leftover_stops:
  assumes "PAGE_SIZE dvd start" and "PAGE_SIZE dvd e" and "start + map_space start e \<le> e" and "k < PAGE_NSIZES - 1"
    and "usable start e mod 2 ^ Suc k = 2 ^ k"
  shows "bnd (page_add_range start e page_init) (\<lambda>s. bnd (find_block k s)
    (\<lambda>(r, s). case r of None \<Rightarrow> Inr s | Some a \<Rightarrow> page_free_order a k s)) = Inl Wild_access"
proof -
  let ?N = "usable start e"
  obtain g where g: "pagegroup_create start e = Inr g" "pg_map g = (\<lambda>_ _. 0)" "pg_baseaddr g = start"
    "pg_endaddr g = start + ?N * PAGE_SIZE" "pg_freelist g k = [start + (?N - 2 ^ k) * PAGE_SIZE]"
    "\<And>j. start + ?N * PAGE_SIZE \<notin> set (pg_freelist g j)" using leftover_block [OF assms(1,3-5)] by blast
  have "0 < ?N" using assms(5) by (intro gr0I) simp
  then have lt: "start < start + ?N * PAGE_SIZE" by simp
  have al: "page_align_down start = start" "page_align_down e = e" using assms(1,2) by (simp_all add: page_align_down_def)
  have run: "page_add_range start e page_init = Inr \<lparr>pagegroup_list = [g], page_freecount = int ?N\<rparr>"
    using g(1,3,4) lt by (simp add: page_add_range_def al page_init_def)
  show ?thesis using leftover_run [OF assms(1) g(3,4,2) assms(4,5) g(5,6), of "int ?N"] run by simp
qed

theorem page_leftover_stops_witness:
  "bnd (page_add_range 4096 536576 page_init) (\<lambda>s. bnd (find_block 0 s)
    (\<lambda>(r, s). case r of None \<Rightarrow> Inr s | Some a \<Rightarrow> page_free_order a 0 s)) = Inl Wild_access"
  by (rule page_leftover_stops) (simp_all add: first_space first_usable PAGE_SIZE_def PAGE_NSIZES_def)

end
