(* ===== verification/Slreach.thy ===== *)
theory Slreach
  imports Slmain Pgprops
begin

text \<open>The start of the slab allocator, \<open>kmalloc\<close> and \<open>kfree\<close>, and the states that calls which keep the contract reach.\<close>

subsection \<open>The start\<close>

lemma unat_power:
  assumes "k \<in> {KMALLOC_SIZE_MIN_ORDER..<KMALLOC_SIZE_MAX_ORDER + 1}"
  shows "unat (push_bit k 1 :: 32 word) = 2 ^ k" "(2 :: nat) ^ k \<le> 262144"
proof -
  have "6 \<le> k" "k < 19" using assms by (simp_all add: KMALLOC_SIZE_MIN_ORDER_def KMALLOC_SIZE_MAX_ORDER_def)
  then have "k = 6 \<or> k = 7 \<or> k = 8 \<or> k = 9 \<or> k = 10 \<or> k = 11 \<or> k = 12 \<or> k = 13 \<or> k = 14 \<or> k = 15 \<or> k = 16 \<or> k = 17 \<or> k = 18"
    by presburger
  then show "unat (push_bit k 1 :: 32 word) = 2 ^ k" "(2 :: nat) ^ k \<le> 262144" by auto
qed

definition static_room :: "kmem \<Rightarrow> nat \<Rightarrow> bool" where
  "static_room s n \<longleftrightarrow> (\<exists>a. allocator s Slab_allocator_allocator = Some a \<and> n \<le> free_count a)"

lemma add_bucket:
  assumes ok: "mem_ok s V" and k: "k = length (kmalloc_allocators s) + KMALLOC_SIZE_MIN_ORDER" "k < KMALLOC_SIZE_MAX_ORDER + 1"
    and x: "slab_obj_alloc Slab_allocator_allocator s = Inr (Some x, s1)" "took Slab_allocator_allocator V x s (Suc n) s1"
  shows "\<exists>s'. slab_allocator_create name (push_bit k 1) s = Inr (Some (Sa x), s')
    \<and> mem_ok (s'\<lparr>kmalloc_allocators := kmalloc_allocators s' @ [Sa x]\<rparr>) V \<and> static_room s' n \<and> kmalloc_allocators s' = kmalloc_allocators s
    \<and> km_pages s' = km_pages s1"
proof -
  let ?r = "Slab_allocator_allocator"
  note kw = unat_power [of k]
  have u: "unat (push_bit k 1 :: 32 word) = 2 ^ k" "(2 :: nat) ^ k \<le> 262144" using kw k by auto
  then have "unat (push_bit k 1 :: 32 word) + 32 \<le> 2 ^ (PAGE_NSIZES - 1) * PAGE_SIZE" by (simp add: PAGE_NSIZES_def PAGE_SIZE_def)
  from allocator_create_run [OF ok this x] obtain a s' where s': "slab_allocator_create name (push_bit k 1) s = Inr (Some (Sa x), s')" "mem_ok s' V"
    "s' = upd_sa (Sa x) a (s1\<lparr>slab_allocators := Sa x # slab_allocators s1\<rparr>)" "fresh_allocator a (push_bit k 1)" "allocator s1 (Sa x) = None" by blast
  have ks: "kmalloc_allocators s' = kmalloc_allocators s" using s'(3) x(2) by (simp add: took_def same_setup_def)
  let ?s = "s'\<lparr>kmalloc_allocators := kmalloc_allocators s' @ [Sa x]\<rparr>"
  have "kmem_ok ?s V" using s'(2) by (simp add: mem_ok_def kmem_ok_def slab_blocks_def)
  moreover have "in_use ?s = in_use s'" by (rule in_use_cong) simp
  moreover have "buckets_ok ?s"
    unfolding buckets_ok_def
  proof (intro allI impI)
    fix i assume i: "i < length (kmalloc_allocators ?s)"
    show "\<exists>a. kmalloc_allocators ?s ! i \<noteq> ?r \<and> allocator ?s (kmalloc_allocators ?s ! i) = Some a
        \<and> sa_objsize a = 2 ^ (i + KMALLOC_SIZE_MIN_ORDER) + 2 * REDZONE_SIZE"
    proof (cases "i < length (kmalloc_allocators s')")
      case True
      then show ?thesis using s'(2) by (simp add: mem_ok_def buckets_ok_def nth_append)
    next
      case False
      then have "i + KMALLOC_SIZE_MIN_ORDER = k" "kmalloc_allocators ?s ! i = Sa x" using i k(1) ks by (auto simp: nth_append less_Suc_eq)
      then show ?thesis using s'(3,4) u(1) by (simp add: fresh_allocator_def)
    qed
  qed
  ultimately have "mem_ok ?s V" using s'(2) by (simp add: mem_ok_def)
  moreover have "static_room s' n"
  proof -
    obtain b where "allocator s1 ?r = Some b" "free_count b + 1 = Suc n" using x(2) by (auto simp: took_def)
    then show ?thesis using s'(3) by (simp add: static_room_def)
  qed
  ultimately show ?thesis using s'(1,3) ks by simp
qed

lemma static_room_cong: "allocator s' = allocator s \<Longrightarrow> static_room s' n = static_room s n"
  by (simp add: static_room_def)

lemma create_buckets_run:
  assumes "mem_ok s V" and "k = length (kmalloc_allocators s) + KMALLOC_SIZE_MIN_ORDER" and "k + n = KMALLOC_SIZE_MAX_ORDER + 1" and "static_room s n"
  shows "\<exists>s'. create_buckets [k..<KMALLOC_SIZE_MAX_ORDER + 1] s = Inr s' \<and> mem_ok s' V
    \<and> length (kmalloc_allocators s') + KMALLOC_SIZE_MIN_ORDER = KMALLOC_SIZE_MAX_ORDER + 1 \<and> km_pages s' = km_pages s"
  using assms
proof (induction n arbitrary: k s)
  case 0
  then show ?case by simp
next
  case (Suc n)
  let ?r = "Slab_allocator_allocator"
  have ok: "kmem_ok s V" using Suc.prems(1) by (simp add: mem_ok_def)
  obtain a where a: "allocator s ?r = Some a" "Suc n \<le> free_count a" using Suc.prems(4) by (auto simp: static_room_def)
  then have "0 < free_count a" by simp
  from obj_alloc_room [OF ok a(1) this] obtain x s1 where x: "slab_obj_alloc ?r s = Inr (Some x, s1)" "took ?r V x s (free_count a) s1" "km_pages s1 = km_pages s" by blast
  obtain m where m: "free_count a = Suc m" "n \<le> m" using a(2) by (cases "free_count a") auto
  have k: "k < KMALLOC_SIZE_MAX_ORDER + 1" using Suc.prems(3) by simp
  from add_bucket [OF Suc.prems(1,2) k x(1) x(2) [unfolded m(1)]] obtain s2 where s2: "slab_allocator_create (Some (kmalloc_allocator_names ! (k - KMALLOC_SIZE_MIN_ORDER))) (push_bit k 1) s = Inr (Some (Sa x), s2)"
    "mem_ok (s2\<lparr>kmalloc_allocators := kmalloc_allocators s2 @ [Sa x]\<rparr>) V" "static_room s2 m" "kmalloc_allocators s2 = kmalloc_allocators s"
    "km_pages s2 = km_pages s1" by blast
  let ?s = "s2\<lparr>kmalloc_allocators := kmalloc_allocators s2 @ [Sa x]\<rparr>"
  have "static_room ?s n" using s2(3) m(2) by (auto simp: static_room_def)
  moreover have "Suc k = length (kmalloc_allocators ?s) + KMALLOC_SIZE_MIN_ORDER" "Suc k + n = KMALLOC_SIZE_MAX_ORDER + 1"
    using Suc.prems(2,3) s2(4) by simp_all
  ultimately obtain s' where s': "create_buckets [Suc k..<KMALLOC_SIZE_MAX_ORDER + 1] ?s = Inr s'" "mem_ok s' V"
    "length (kmalloc_allocators s') + KMALLOC_SIZE_MIN_ORDER = KMALLOC_SIZE_MAX_ORDER + 1" "km_pages s' = km_pages ?s"
    using Suc.IH [OF s2(2)] by blast
  have "[k..<KMALLOC_SIZE_MAX_ORDER + 1] = k # [Suc k..<KMALLOC_SIZE_MAX_ORDER + 1]" using k by (simp add: upt_conv_Cons)
  then have "create_buckets [k..<KMALLOC_SIZE_MAX_ORDER + 1] s = Inr s'" using s2(1) s'(1) by (simp del: upt_Suc)
  then show ?case using s' s2(5) x(3) by auto
qed

lemma static_fresh:
  assumes "fresh_allocator a (word_of_nat SLAB_ALLOCATOR_SIZE)"
  shows "sa_order a < SLAB_MAX_ORDER" "13 \<le> sa_slab_nobjs a" "free_count a = 0"
proof -
  have f: "sa_slabs a = []" "sa_objsize a = 32" "sa_order a < SLAB_MAX_ORDER" "sa_slab_nobjs a = (2 ^ sa_order a * PAGE_SIZE - SLAB_SIZE) div (step a)"
    using assms by (simp_all add: fresh_allocator_def SLAB_ALLOCATOR_SIZE_def REDZONE_SIZE_def PAGE_SIZE_def)
  show "sa_order a < SLAB_MAX_ORDER" "free_count a = 0" using f by (simp_all add: free_count_def)
  have "(1 :: nat) \<le> 2 ^ sa_order a" by simp
  then have "4096 \<le> 2 ^ sa_order a * PAGE_SIZE" by (simp add: PAGE_SIZE_def)
  then have "13 * step a \<le> 2 ^ sa_order a * PAGE_SIZE - SLAB_SIZE" using f(2) by (simp add: step_def BUFCTL_SIZE_def SLAB_SIZE_def)
  then show "13 \<le> sa_slab_nobjs a" unfolding f(4) by (simp add: less_eq_div_iff_mult_less_eq)
qed

definition started :: "kmem \<Rightarrow> (nat \<times> nat) set \<Rightarrow> bool" where
  "started s V \<longleftrightarrow> mem_ok s V \<and> length (kmalloc_allocators s) + KMALLOC_SIZE_MIN_ORDER = KMALLOC_SIZE_MAX_ORDER + 1"

lemma slab_init_run:
  assumes p: "page_reach p V" and room: "\<not> no_block (SLAB_MAX_ORDER - 1) p"
  shows "\<exists>s k ad. slab_init (kmem_boot p) = Inr s \<and> started s V \<and> k < SLAB_MAX_ORDER \<and> find_block k p = Inr (Some ad, km_pages s)"
proof -
  let ?r = "Slab_allocator_allocator" and ?boot = "kmem_boot p"
  have ok0: "kmem_ok ?boot V" using p by (simp add: kmem_ok_def kmem_boot_def slab_blocks_def)
  have "unat (word_of_nat SLAB_ALLOCATOR_SIZE :: 32 word) + 32 \<le> 2 ^ (PAGE_NSIZES - 1) * PAGE_SIZE"
    by (simp add: SLAB_ALLOCATOR_SIZE_def PAGE_NSIZES_def PAGE_SIZE_def)
  from init_run [OF this, of ?r "Some ''slab_allocators''" ?boot] obtain a where a: "allocator_init ?r (Some ''slab_allocators'') (word_of_nat SLAB_ALLOCATOR_SIZE) ?boot
      = Inr (upd_sa ?r a (?boot\<lparr>slab_allocators := ?r # slab_allocators ?boot\<rparr>))" "fresh_allocator a (word_of_nat SLAB_ALLOCATOR_SIZE)" by blast
  let ?fst = "upd_sa ?r a (?boot\<lparr>slab_allocators := ?r # slab_allocators ?boot\<rparr>)"
  have f: "sa_slabs a = []" "sa_ok a" using a(2) by (simp_all add: fresh_allocator_def)
  have n0: "allocator ?boot ?r = None" by (simp add: kmem_boot_def)
  note u = add_allocator [OF ok0 n0 f]
  have m1: "mem_ok ?fst V" using u(1) by (simp add: mem_ok_def buckets_ok_def kmem_boot_def)
  have a1: "allocator ?fst ?r = Some a" by simp
  have nb: "\<not> no_block (sa_order a) (km_pages ?fst)"
  proof -
    obtain g j where "g \<in> set (pagegroup_list p)" "j < PAGE_NSIZES" "SLAB_MAX_ORDER - 1 \<le> j" "pg_freelist g j \<noteq> []"
      using room unfolding no_block_def by blast
    moreover have "sa_order a \<le> j" using static_fresh(1) [OF a(2)] \<open>SLAB_MAX_ORDER - 1 \<le> j\<close> by linarith
    ultimately show ?thesis by (auto simp: no_block_def kmem_boot_def)
  qed
  from obj_alloc_full [OF u(1) a1 static_fresh(3) [OF a(2)]] nb obtain x s2 ad where x: "slab_obj_alloc ?r ?fst = Inr (Some x, s2)" "took ?r V x ?fst (sa_slab_nobjs a) s2"
    "find_block (sa_order a) (km_pages ?fst) = Inr (Some ad, km_pages s2)" by blast
  obtain m where m: "sa_slab_nobjs a = Suc m" "12 \<le> m" using static_fresh(2) [OF a(2)] by (cases "sa_slab_nobjs a") auto
  let ?k = KMALLOC_SIZE_MIN_ORDER
  have k: "?k = length (kmalloc_allocators ?fst) + KMALLOC_SIZE_MIN_ORDER" "?k < KMALLOC_SIZE_MAX_ORDER + 1"
    by (simp_all add: kmem_boot_def KMALLOC_SIZE_MIN_ORDER_def KMALLOC_SIZE_MAX_ORDER_def)
  from add_bucket [OF m1 k x(1) x(2) [unfolded m(1)]] obtain s3 where s3: "slab_allocator_create (Some (kmalloc_allocator_names ! (?k - KMALLOC_SIZE_MIN_ORDER))) (push_bit ?k 1) ?fst = Inr (Some (Sa x), s3)"
    "mem_ok (s3\<lparr>kmalloc_allocators := kmalloc_allocators s3 @ [Sa x]\<rparr>) V" "static_room s3 m" "kmalloc_allocators s3 = kmalloc_allocators ?fst"
    "km_pages s3 = km_pages s2" by blast
  let ?s = "s3\<lparr>kmalloc_allocators := kmalloc_allocators s3 @ [Sa x]\<rparr>"
  have "static_room ?s 12" using s3(3) m(2) by (auto simp: static_room_def)
  moreover have "Suc ?k = length (kmalloc_allocators ?s) + KMALLOC_SIZE_MIN_ORDER" "Suc ?k + 12 = KMALLOC_SIZE_MAX_ORDER + 1"
    using s3(4) by (simp_all add: kmem_boot_def KMALLOC_SIZE_MIN_ORDER_def KMALLOC_SIZE_MAX_ORDER_def)
  ultimately obtain s' where s': "create_buckets [Suc ?k..<KMALLOC_SIZE_MAX_ORDER + 1] ?s = Inr s'" "mem_ok s' V"
    "length (kmalloc_allocators s') + KMALLOC_SIZE_MIN_ORDER = KMALLOC_SIZE_MAX_ORDER + 1" "km_pages s' = km_pages ?s"
    using create_buckets_run [OF s3(2)] by blast
  have "[?k..<KMALLOC_SIZE_MAX_ORDER + 1] = ?k # [Suc ?k..<KMALLOC_SIZE_MAX_ORDER + 1]" using k(2) by (simp add: upt_conv_Cons)
  then have "create_buckets [?k..<KMALLOC_SIZE_MAX_ORDER + 1] ?fst = Inr s'" using s3(1) s'(1) by (simp del: upt_Suc)
  then have "slab_init ?boot = Inr s'" using a(1) by (simp add: slab_init_def del: upt_Suc)
  moreover have "km_pages ?fst = p" by (simp add: kmem_boot_def)
  ultimately show ?thesis using s' s3(5) x(3) static_fresh(1) [OF a(2)] by (auto simp: started_def)
qed

subsection \<open>kmalloc and kfree\<close>

lemma four_more:
  assumes "unat sz + 4 \<le> 262144"
  shows "unat (sz + 4 :: 32 word) = unat sz + 4"
proof -
  have "unat sz + unat (4 :: 32 word) < 2 ^ LENGTH(32)" using assms by simp
  then show ?thesis using iffD1 [OF unat_add_lem, of sz 4] by simp
qed

lemma kmalloc_order:
  assumes "unat sz + 4 \<le> 262144"
  shows "\<exists>k. find (\<lambda>order. (sz + 4 :: 32 word) \<le> push_bit order 1) [KMALLOC_SIZE_MIN_ORDER..<KMALLOC_SIZE_MAX_ORDER + 1] = Some k
    \<and> KMALLOC_SIZE_MIN_ORDER \<le> k \<and> k < KMALLOC_SIZE_MAX_ORDER + 1 \<and> unat sz + 4 \<le> 2 ^ k"
proof -
  let ?xs = "[KMALLOC_SIZE_MIN_ORDER..<KMALLOC_SIZE_MAX_ORDER + 1]" and ?P = "\<lambda>order. (sz + 4 :: 32 word) \<le> push_bit order 1"
  have P: "?P k \<longleftrightarrow> unat sz + 4 \<le> 2 ^ k" if "k \<in> {KMALLOC_SIZE_MIN_ORDER..<KMALLOC_SIZE_MAX_ORDER + 1}" for k
    unfolding word_le_nat_alt unat_power(1) [OF that] four_more [OF assms] ..
  have K: "KMALLOC_SIZE_MAX_ORDER \<in> {KMALLOC_SIZE_MIN_ORDER..<KMALLOC_SIZE_MAX_ORDER + 1}" by (simp add: KMALLOC_SIZE_MIN_ORDER_def KMALLOC_SIZE_MAX_ORDER_def)
  have "?P KMALLOC_SIZE_MAX_ORDER" using P [OF K] assms by (simp add: KMALLOC_SIZE_MAX_ORDER_def)
  then have "find ?P ?xs \<noteq> None" using K unfolding find_None_iff by auto
  then obtain k where k: "find ?P ?xs = Some k" by blast
  then have "k \<in> set ?xs" "?P k" unfolding find_Some_iff by (auto simp del: upt_Suc)
  then show ?thesis using P [of k] k by auto
qed

lemma kmalloc_eq:
  assumes "find (\<lambda>order. (sz + 4 :: 32 word) \<le> push_bit order 1) [KMALLOC_SIZE_MIN_ORDER..<KMALLOC_SIZE_MAX_ORDER + 1] = Some k"
    and "k - KMALLOC_SIZE_MIN_ORDER < length (kmalloc_allocators s)" and "r = kmalloc_allocators s ! (k - KMALLOC_SIZE_MIN_ORDER)"
  shows "kmalloc sz s = bnd (slab_obj_alloc r s) (\<lambda>(addr, s'). case addr of None \<Rightarrow> Inr (None, s')
      | Some addr \<Rightarrow> Inr (Some (addr + 4), s'\<lparr>kmalloc_tag := (kmalloc_tag s')(addr \<mapsto> r)\<rparr>))"
  unfolding kmalloc_def Let_def assms(1) deref_Some assms(3) using assms(2) by simp

lemma kmalloc_run:
  assumes r: "started s V" and sz: "unat sz + 4 \<le> 262144"
  shows "(\<exists>x r a s' n. kmalloc sz s = Inr (Some (x + 4), s') \<and> started s' V \<and> took r V x s n (s'\<lparr>kmalloc_tag := kmalloc_tag s\<rparr>) \<and> r \<noteq> Slab_allocator_allocator
        \<and> in_use s' = insert (x, r) (in_use s) \<and> (x, r) \<notin> in_use s
        \<and> kmalloc_tag s' x = Some r \<and> allocator s' r = Some a \<and> unat sz + 4 \<le> sa_objsize a - 2 * REDZONE_SIZE)
    \<or> (\<exists>s'. kmalloc sz s = Inr (None, s') \<and> started s' V \<and> in_use s' = in_use s \<and> none_empty s')"
proof -
  from kmalloc_order [OF sz] obtain k where k: "find (\<lambda>order. (sz + 4 :: 32 word) \<le> push_bit order 1) [KMALLOC_SIZE_MIN_ORDER..<KMALLOC_SIZE_MAX_ORDER + 1] = Some k"
    "KMALLOC_SIZE_MIN_ORDER \<le> k" "k < KMALLOC_SIZE_MAX_ORDER + 1" "unat sz + 4 \<le> 2 ^ k" by blast
  let ?i = "k - KMALLOC_SIZE_MIN_ORDER" and ?r = "kmalloc_allocators s ! (k - KMALLOC_SIZE_MIN_ORDER)"
  have m: "mem_ok s V" "kmem_ok s V" using r by (simp_all add: started_def mem_ok_def)
  have i: "?i < length (kmalloc_allocators s)" using r k by (auto simp: started_def)
  then obtain a where a: "?r \<noteq> Slab_allocator_allocator" "allocator s ?r = Some a" "sa_objsize a = 2 ^ (?i + KMALLOC_SIZE_MIN_ORDER) + 2 * REDZONE_SIZE"
    using m(1) by (auto simp: mem_ok_def buckets_ok_def)
  have run: "kmalloc sz s = bnd (slab_obj_alloc ?r s) (\<lambda>(addr, s'). case addr of None \<Rightarrow> Inr (None, s')
      | Some addr \<Rightarrow> Inr (Some (addr + 4), s'\<lparr>kmalloc_tag := (kmalloc_tag s')(addr \<mapsto> ?r)\<rparr>))"
    by (rule kmalloc_eq [OF k(1) i refl])
  from obj_alloc_run [OF m(2) a(2)] show ?thesis
  proof (elim disjE exE conjE)
    fix s' assume h: "slab_obj_alloc ?r s = Inr (None, s')" "kmem_ok s' V" "in_use s' = in_use s" "same_setup s s'" "none_empty s'"
    have "mem_ok s' V" by (rule mem_same [OF m(1) h(4,2)]) (simp add: h(3))
    then have "started s' V" using r h(4) by (simp add: started_def same_setup_def)
    then show ?thesis using run h by auto
  next
    fix x s1 n assume h: "slab_obj_alloc ?r s = Inr (Some x, s1)" "took ?r V x s n s1"
    let ?s' = "s1\<lparr>kmalloc_tag := (kmalloc_tag s1)(x \<mapsto> ?r)\<rparr>"
    have t: "kmem_ok s1 V" "in_use s1 = insert (x, ?r) (in_use s)" "(x, ?r) \<notin> in_use s" "same_setup s s1" using h(2) by (simp_all add: took_def)
    have m1: "mem_ok s1 V" by (rule mem_same [OF m(1) t(4,1)]) (simp add: t(2))
    have iu: "in_use ?s' = in_use s1" by (rule in_use_cong) simp
    have "mem_ok ?s' V" using m1 iu by (simp add: mem_ok_def kmem_ok_def slab_blocks_def buckets_ok_def)
    then have "started ?s' V" using r t(4) by (simp add: started_def same_setup_def)
    moreover obtain b where "allocator s1 ?r = Some b" "same_sizes a b" using t(4) a(2) unfolding same_setup_def by blast
    then have "allocator ?s' ?r = Some b" "unat sz + 4 \<le> sa_objsize b - 2 * REDZONE_SIZE" using a(3) k(2,4) by (simp_all add: same_sizes_def)
    moreover have "?s'\<lparr>kmalloc_tag := kmalloc_tag s\<rparr> = s1" using t(4) by (simp add: same_setup_def)
    moreover have "kmalloc sz s = Inr (Some (x + 4), ?s')" using run h(1) by simp
    moreover have "kmalloc_tag ?s' x = Some ?r" by simp
    ultimately show ?thesis using h(2) t(2,3) iu a(1) by metis
  qed
qed

lemma kfree_run:
  assumes r: "started s V" and t: "kmalloc_tag s x = Some c" "(x, c) \<in> in_use s" "c \<noteq> Slab_allocator_allocator"
  shows "\<exists>s'. kfree (x + 4) s = Inr s' \<and> started s' V \<and> in_use s' = in_use s - {(x, c)}"
proof -
  have m: "mem_ok s V" "kmem_ok s V" using r by (simp_all add: started_def mem_ok_def)
  from obj_free_run [OF m(2) t(2)] obtain s' where s': "slab_obj_free c x s = Inr s'" "kmem_ok s' V" "in_use s' = in_use s - {(x, c)}" "same_setup s s'" by blast
  have "mem_ok s' V" by (rule mem_same [OF m(1) s'(4,2)]) (use t(3) in \<open>simp add: s'(3)\<close>)
  then show ?thesis using s' t(1) r by (simp add: kfree_def started_def same_setup_def)
qed

subsection \<open>Reachable states\<close>

text \<open>Calls of the page allocator, the slab allocator and \<open>kmalloc\<close> in any order; what is freed was allocated the same way and
  was not freed since, and the objects of the static allocator, the allocators, are never freed.\<close>

inductive kmem_reach :: "kmem \<Rightarrow> (nat \<times> nat) set \<Rightarrow> bool" where
  start: "page_reach p V \<Longrightarrow> \<not> no_block (SLAB_MAX_ORDER - 1) p \<Longrightarrow> slab_init (kmem_boot p) = Inr s \<Longrightarrow> kmem_reach s V"
| page_got: "kmem_reach s V \<Longrightarrow> k < PAGE_NSIZES \<Longrightarrow> page_alloc_order k s = Inr (Some a, s') \<Longrightarrow> kmem_reach s' (insert (a, k) V)"
| page_none: "kmem_reach s V \<Longrightarrow> k < PAGE_NSIZES \<Longrightarrow> page_alloc_order k s = Inr (None, s') \<Longrightarrow> kmem_reach s' V"
| page_given: "kmem_reach s V \<Longrightarrow> (a, k) \<in> V \<Longrightarrow> page_free_order a k (km_pages s) = Inr p \<Longrightarrow> kmem_reach (s\<lparr>km_pages := p\<rparr>) (V - {(a, k)})"
| created: "kmem_reach s V \<Longrightarrow> unat sz + 32 \<le> 2 ^ (PAGE_NSIZES - 1) * PAGE_SIZE \<Longrightarrow> slab_allocator_create name sz s = Inr (c, s') \<Longrightarrow> kmem_reach s' V"
| obj_got: "kmem_reach s V \<Longrightarrow> allocator s r = Some a \<Longrightarrow> slab_obj_alloc r s = Inr (x, s') \<Longrightarrow> kmem_reach s' V"
| obj_given: "kmem_reach s V \<Longrightarrow> (x, r) \<in> in_use s \<Longrightarrow> r \<noteq> Slab_allocator_allocator \<Longrightarrow> slab_obj_free r x s = Inr s' \<Longrightarrow> kmem_reach s' V"
| reclaimed: "kmem_reach s V \<Longrightarrow> slab_allocators_reclaim t s = Inr (n, s') \<Longrightarrow> kmem_reach s' V"
| kmalloced: "kmem_reach s V \<Longrightarrow> unat sz + 4 \<le> 262144 \<Longrightarrow> kmalloc sz s = Inr (x, s') \<Longrightarrow> kmem_reach s' V"
| kfreed: "kmem_reach s V \<Longrightarrow> kmalloc_tag s x = Some c \<Longrightarrow> (x, c) \<in> in_use s \<Longrightarrow> c \<noteq> Slab_allocator_allocator \<Longrightarrow> kfree (x + 4) s = Inr s' \<Longrightarrow> kmem_reach s' V"

lemma readyD: "started s V \<Longrightarrow> mem_ok s V" "started s V \<Longrightarrow> kmem_ok s V"
  by (simp_all add: started_def mem_ok_def)

lemma ready_same:
  assumes "started s V" and "same_setup s s'" and "kmem_ok s' V'"
    and "\<And>x. (x, Slab_allocator_allocator) \<in> in_use s \<Longrightarrow> (x, Slab_allocator_allocator) \<in> in_use s'"
  shows "started s' V'"
  using mem_same [OF readyD(1) [OF assms(1)] assms(2-4)] assms(1,2) by (simp add: started_def same_setup_def)

lemma reach_ready: "kmem_reach s V \<Longrightarrow> started s V"
proof (induction rule: kmem_reach.induct)
  case (start p V s)
  then show ?case using slab_init_run [OF start(1,2)] by auto
next
  case (page_got s V k a s')
  from page_alloc_run [OF readyD(2) [OF page_got(4)] page_got(2)] page_got(3) obtain p where p: "s' = s\<lparr>km_pages := p\<rparr>" "kmem_ok s' (insert (a, k) V)" by auto
  have "in_use s' = in_use s" by (rule in_use_cong) (simp add: p(1))
  moreover have "same_setup s s'" by (simp add: p(1) same_setup_def)
  ultimately show ?case using ready_same [OF page_got(4) _ p(2)] by simp
next
  case (page_none s V k s')
  from page_alloc_run [OF readyD(2) [OF page_none(4)] page_none(2)] page_none(3) have "kmem_ok s' V" "in_use s' = in_use s" "same_setup s s'" by auto
  then show ?case using ready_same [OF page_none(4)] by simp
next
  case (page_given s V a k p)
  note ok = readyD(2) [OF page_given(4)]
  let ?s = "s\<lparr>km_pages := p\<rparr>"
  have b: "slab_blocks ?s = slab_blocks s" by (rule slab_blocks_cong) simp
  have "(a, k) \<notin> slab_blocks s" using kmem_okD(2) [OF ok] page_given(2) by blast
  then have "(V \<union> slab_blocks s) - {(a, k)} = (V - {(a, k)}) \<union> slab_blocks ?s" unfolding b by blast
  then have "page_reach p ((V - {(a, k)}) \<union> slab_blocks ?s)" using page_reach.free [OF kmem_okD(1) [OF ok] _ page_given(3)] page_given(2) by simp
  moreover have "(V - {(a, k)}) \<inter> slab_blocks ?s = {}" using kmem_okD(2) [OF ok] unfolding b by blast
  ultimately have "kmem_ok ?s (V - {(a, k)})" using ok unfolding kmem_ok_def by simp
  moreover have "in_use ?s = in_use s" by (rule in_use_cong) simp
  moreover have "same_setup s ?s" by (simp add: same_setup_def)
  ultimately show ?case using ready_same [OF page_given(4)] by simp
next
  case (created s V sz name c s')
  let ?r = "Slab_allocator_allocator"
  note m = readyD [OF created(4)]
  obtain a where a: "allocator s ?r = Some a" using m(1) by (auto simp: mem_ok_def)
  from obj_alloc_run [OF m(2) a] show ?case
  proof (elim disjE exE conjE)
    fix s1 assume h: "slab_obj_alloc ?r s = Inr (None, s1)" "kmem_ok s1 V" "in_use s1 = in_use s" "same_setup s s1"
    then have "s' = s1" using created(3) by (simp add: slab_allocator_create_def)
    then show ?thesis using ready_same [OF created(4) h(4,2)] h(3) by simp
  next
    fix x s1 n assume h: "slab_obj_alloc ?r s = Inr (Some x, s1)" "took ?r V x s n s1"
    from allocator_create_run [OF m(1) created(2) h, of name] created(3) obtain b where s': "mem_ok s' V" "s' = upd_sa (Sa x) b (s1\<lparr>slab_allocators := Sa x # slab_allocators s1\<rparr>)" by auto
    then have "kmalloc_allocators s' = kmalloc_allocators s" using h(2) by (simp add: took_def same_setup_def)
    then show ?thesis using s'(1) created(4) by (simp add: started_def)
  qed
next
  case (obj_got s V r a x s')
  from obj_alloc_run [OF readyD(2) [OF obj_got(4)] obj_got(2)] obj_got(3)
  have "kmem_ok s' V" "same_setup s s'" "in_use s \<subseteq> in_use s'" by (auto simp: took_def)
  then show ?case using ready_same [OF obj_got(4)] by blast
next
  case (obj_given s V x r s')
  from obj_free_run [OF readyD(2) [OF obj_given(5)] obj_given(2)] obj_given(4)
  have "kmem_ok s' V" "same_setup s s'" "in_use s' = in_use s - {(x, r)}" by auto
  then show ?case using ready_same [OF obj_given(5)] obj_given(3) by simp
next
  case (reclaimed s V t n s')
  from allocators_reclaim_run [OF readyD(2) [OF reclaimed(3)], of t] reclaimed(2) have "kmem_ok s' V" "same_setup s s'" "in_use s' = in_use s" by auto
  then show ?case using ready_same [OF reclaimed(3)] by simp
next
  case (kmalloced s V sz x s')
  from kmalloc_run [OF kmalloced(4,2)] kmalloced(3) show ?case by auto
next
  case (kfreed s V x c s')
  from kfree_run [OF kfreed(6,2,3,4)] kfreed(5) show ?case by auto
qed

end
