(* ===== verification/Slprops.thy ===== *)
theory Slprops
  imports Slreach
begin

text \<open>The properties of the slab allocator and of \<open>kmalloc\<close>, each with a run of the code on which its hypotheses hold.\<close>

subsection \<open>A start with room\<close>

lemma second_range: "\<exists>p g. page_add_range 4096 1056768 page_init = Inr p \<and> page_reach p {} \<and> pagegroup_list p = [g] \<and> npages g = 256"
proof -
  have o: "[1..<PAGE_NSIZES] = [1, 2, 3, 4, 5, 6, 7]" by (simp add: PAGE_NSIZES_def upt_rec)
  have m: "map_space 4096 1056768 = 145" unfolding map_space_def o by (simp add: map_bytes_eq PAGE_SIZE_def PAGEGROUP_SIZE_def)
  have u: "usable 4096 1056768 = 256" by (simp add: usable_def m page_align_down_def PAGE_SIZE_def)
  have "whole_range 4096 1056768" by (simp add: whole_range_def m u PAGE_SIZE_def PAGE_NSIZES_def)
  moreover have "apart 4096 1056768 page_init" by (simp add: apart_def page_init_def)
  ultimately obtain p where p: "page_add_range 4096 1056768 page_init = Inr p" "page_reach p {}" "page_freecount p = 256"
    using range_run [OF page_reach.boot] by (fastforce simp: u page_init_def)
  have "length (pagegroup_list p) \<le> 1" using p(1) by (auto simp: page_add_range_def bnd_eq_Inr page_init_def split: if_splits)
  moreover have t: "pages_total p = 256" using reach_pages [OF p(2)] p(3) by simp
  ultimately obtain g where "pagegroup_list p = [g]" by (cases "pagegroup_list p") (auto simp: pages_total_def)
  then show ?thesis using p t by (simp add: pages_total_def)
qed

lemma kmem_start: "\<exists>s. kmem_reach s {} \<and> \<not> no_block (PAGE_NSIZES - 1) (km_pages s)"
proof -
  let ?K = "PAGE_NSIZES - 1"
  have K: "?K < PAGE_NSIZES" "(2 :: nat) ^ ?K = 128" by (simp_all add: PAGE_NSIZES_def)
  obtain p g where p: "page_reach p {}" "pagegroup_list p = [g]" "npages g = 256" using second_range by blast
  have "\<exists>j. ?K \<le> j \<and> j < PAGE_NSIZES \<and> pg_freelist g j \<noteq> []"
    by (rule region_block [OF reach_ok [OF p(1)] _ K(1), where p = 0]) (use p(2,3) K in auto)
  then have "\<not> no_block (SLAB_MAX_ORDER - 1) p" using p(2) by (auto simp: no_block_def SLAB_MAX_ORDER_def PAGE_NSIZES_def)
  note start = this
  from slab_init_run [OF p(1) start] obtain s k ad where s: "slab_init (kmem_boot p) = Inr s" "k < SLAB_MAX_ORDER" "find_block k p = Inr (Some ad, km_pages s)" by blast
  let ?p = "km_pages s"
  have k: "k < PAGE_NSIZES" "k \<le> ?K" using s(2) by (simp_all add: SLAB_MAX_ORDER_def PAGE_NSIZES_def)
  have ok: "groups_ok ?p {(ad, k)}" using find_some_run(1) [OF reach_ok [OF p(1)] k(1) s(3)] by simp
  have "map pg_baseaddr (pagegroup_list ?p) = map pg_baseaddr (pagegroup_list p)" using find_block_run [OF reach_ok [OF p(1)] k(1)] s(3) by auto
  then obtain h where h: "pagegroup_list ?p = [h]" using p(2) by (cases "pagegroup_list ?p") auto
  have "pages_total ?p = pages_total p" by (rule find_some_run(4) [OF reach_ok [OF p(1)] k(1) s(3)])
  then have np: "npages h = 256" using h p(2,3) by (simp add: pages_total_def)
  obtain i q where "i < length (pagegroup_list ?p)" "ad = page_addr (pagegroup_list ?p ! i) q" "(q, k) \<in> alloc_in (pagegroup_list ?p ! i) {(ad, k)}"
    "range_ok (pagegroup_list ?p ! i)" by (rule block_place [OF ok, of ad k]) auto
  then have q: "ad = page_addr h q" "(q, k) \<in> alloc_in h {(ad, k)}" using h by simp_all
  obtain L where "grp h L (alloc_in h {(ad, k)}) {}" using ok h unfolding groups_ok_def by auto
  then have al: "2 ^ k dvd q" using tilesD(1) [OF grpD(3), of h L "alloc_in h {(ad, k)}" "{}" q k] q(2) by auto
  define r where "r = (if q < 128 then 128 else 0 :: nat)"
  have r: "2 ^ ?K dvd r" "r + 2 ^ ?K \<le> npages h" unfolding r_def K(2) using np by simp_all
  have far: "q + 2 ^ k \<le> r \<or> r + 128 \<le> q"
  proof (cases "q < 128")
    case True
    have "q \<in> span (0, ?K)" using True K(2) by (simp add: span_simps)
    then have "span (q, k) \<subseteq> span (0, ?K)" using nest [OF al _ k(2) span_start, of 0] by simp
    moreover have "(0 :: nat) < 2 ^ k" by simp
    then have "q + 2 ^ k - 1 \<in> span (q, k)" unfolding span_simps atLeastLessThan_iff by linarith
    ultimately have "q + 2 ^ k - 1 < 128" using K(2) by (auto simp: span_simps)
    then show ?thesis using True by (simp add: r_def)
  qed (simp add: r_def)
  have "block_bytes ad k \<inter> block_bytes (page_addr h r) ?K = {}"
  proof -
    have "(q + 2 ^ k) * PAGE_SIZE \<le> r * PAGE_SIZE \<or> (r + 128) * PAGE_SIZE \<le> q * PAGE_SIZE" using far by (auto intro: mult_le_mono1 simp del: mult_le_cancel2)
    then show ?thesis unfolding q(1) block_bytes_def page_addr_def K(2) by (auto simp: algebra_simps)
  qed
  then have "\<exists>j. ?K \<le> j \<and> j < PAGE_NSIZES \<and> pg_freelist h j \<noteq> []"
    by (intro region_block [OF ok _ K(1) r]) (use h in auto)
  then have "\<not> no_block ?K ?p" using h by (auto simp: no_block_def)
  then show ?thesis using kmem_reach.start [OF p(1) start s(1)] by blast
qed

lemma bucket_object:
  "\<exists>s x c s'. kmem_reach s {} \<and> kmalloc 100 s = Inr (Some (x + 4), s') \<and> kmem_reach s' {} \<and> (x, c) \<in> in_use s' \<and> (x, c) \<notin> in_use s
     \<and> c \<noteq> Slab_allocator_allocator"
proof -
  obtain s where s: "kmem_reach s {}" "\<not> no_block (PAGE_NSIZES - 1) (km_pages s)" using kmem_start by blast
  note r = reach_ready [OF s(1)]
  have "kmalloc 100 s = Inr (None, s') \<Longrightarrow> False" for s'
  proof -
    assume n: "kmalloc 100 s = Inr (None, s')"
    obtain k where k: "find (\<lambda>order. (100 + 4 :: 32 word) \<le> push_bit order 1) [KMALLOC_SIZE_MIN_ORDER..<KMALLOC_SIZE_MAX_ORDER + 1] = Some k"
      "k < KMALLOC_SIZE_MAX_ORDER + 1" "KMALLOC_SIZE_MIN_ORDER \<le> k" using kmalloc_order [of 100] by auto
    let ?r = "kmalloc_allocators s ! (k - KMALLOC_SIZE_MIN_ORDER)"
    have i: "k - KMALLOC_SIZE_MIN_ORDER < length (kmalloc_allocators s)" using r k by (auto simp: started_def)
    then obtain a where a: "allocator s ?r = Some a" using readyD(1) [OF r] by (auto simp: mem_ok_def buckets_ok_def)
    have "slab_obj_alloc ?r s = Inr (None, s')"
      using n unfolding kmalloc_eq [OF k(1) i refl] by (auto simp: bnd_eq_Inr split: option.splits)
    then have "no_block (sa_order a) (km_pages s)" using obj_alloc_run [OF readyD(2) [OF r] a] by auto
    moreover have "sa_order a < PAGE_NSIZES" using kmem_okD(5) [OF readyD(2) [OF r] a] by (simp add: sa_ok_def)
    then have "sa_order a \<le> PAGE_NSIZES - 1" by linarith
    ultimately show False using s(2) by (auto simp: no_block_def)
  qed
  then obtain x c s' where k: "kmalloc 100 s = Inr (Some (x + 4), s')" "in_use s' = insert (x, c) (in_use s)" "(x, c) \<notin> in_use s" "c \<noteq> Slab_allocator_allocator"
    using kmalloc_run [OF r, of 100] by auto
  moreover have "kmem_reach s' {}" using kmem_reach.kmalloced [OF s(1) _ k(1)] by simp
  ultimately show ?thesis using s(1) by blast
qed

subsection \<open>Memory of an object\<close>

text \<open>The bytes of an object between its red zones.\<close>

definition object_bytes :: "kmem \<Rightarrow> nat \<Rightarrow> sa_ref \<Rightarrow> nat set" where
  "object_bytes s x r = (case allocator s r of None \<Rightarrow> {} | Some a \<Rightarrow> {x..<x + (sa_objsize a - 2 * REDZONE_SIZE)})"

lemma object_place:
  assumes ok: "kmem_ok s V" and x: "(x, r) \<in> in_use s"
  obtains a sl ob where "allocator s r = Some a" "sl \<in> set (sa_slabs a)" "ob \<in> objs a (s_addr sl)" "x = ob + REDZONE_SIZE"
    "object_bytes s x r \<subseteq> {ob..<ob + step a}" "{ob..<ob + step a} \<subseteq> block_bytes (s_addr sl) (sa_order a)"
proof -
  obtain a sl ob where h: "allocator s r = Some a" "sl \<in> set (sa_slabs a)" "ob \<in> objs a (s_addr sl)" "x = ob + REDZONE_SIZE"
    using x by (auto simp: in_use_def)
  have "sa_ok a" by (rule kmem_okD(5) [OF ok h(1)])
  then have "object_bytes s x r \<subseteq> {ob..<ob + step a}" using h by (auto simp: object_bytes_def step_def sa_ok_def BUFCTL_SIZE_def)
  with that h obj_inside [OF \<open>sa_ok a\<close> h(3)] show ?thesis by blast
qed

lemma objects_disjoint:
  assumes ok: "kmem_ok s V" and x: "(x, r) \<in> in_use s" and y: "(y, r') \<in> in_use s" and ne: "(x, r) \<noteq> (y, r')"
  shows "object_bytes s x r \<inter> object_bytes s y r' = {}"
proof -
  obtain a sl ob where h: "allocator s r = Some a" "sl \<in> set (sa_slabs a)" "ob \<in> objs a (s_addr sl)" "x = ob + REDZONE_SIZE"
    "object_bytes s x r \<subseteq> {ob..<ob + step a}" "{ob..<ob + step a} \<subseteq> block_bytes (s_addr sl) (sa_order a)" by (rule object_place [OF ok x])
  obtain a' sl' ob' where h': "allocator s r' = Some a'" "sl' \<in> set (sa_slabs a')" "ob' \<in> objs a' (s_addr sl')" "y = ob' + REDZONE_SIZE"
    "object_bytes s y r' \<subseteq> {ob'..<ob' + step a'}" "{ob'..<ob' + step a'} \<subseteq> block_bytes (s_addr sl') (sa_order a')" by (rule object_place [OF ok y])
  show ?thesis
  proof (cases "s_addr sl = s_addr sl'")
    case True
    then have "r = r'" using kmem_okD(8) [OF ok h(1) h'(1) h(2) h'(2)] by blast
    then have "a' = a" "ob \<noteq> ob'" using h h' ne by auto
    then have "{ob..<ob + step a} \<inter> {ob'..<ob' + step a'} = {}" using objs_apart [OF h(3), of ob'] h'(3) True by simp
    then show ?thesis using h(5) h'(5) by blast
  next
    case False
    then show ?thesis using slabs_disjoint [OF ok h(1) h'(1) h(2) h'(2)] h(5,6) h'(5,6) by blast
  qed
qed

lemma object_pages_disjoint:
  assumes ok: "kmem_ok s V" and x: "(x, r) \<in> in_use s" and b: "(b, k) \<in> V"
  shows "object_bytes s x r \<inter> block_bytes b k = {}"
proof -
  obtain a sl ob where h: "allocator s r = Some a" "sl \<in> set (sa_slabs a)" "ob \<in> objs a (s_addr sl)" "x = ob + REDZONE_SIZE"
    "object_bytes s x r \<subseteq> {ob..<ob + step a}" "{ob..<ob + step a} \<subseteq> block_bytes (s_addr sl) (sa_order a)" by (rule object_place [OF ok x])
  have m: "(s_addr sl, sa_order a) \<in> slab_blocks s" using h(1,2) by (auto simp: slab_blocks_def sl_blocks_def)
  then have "(s_addr sl, sa_order a) \<noteq> (b, k)" using b kmem_okD(2) [OF ok] by blast
  then have "block_bytes (s_addr sl) (sa_order a) \<inter> block_bytes b k = {}"
    using blocks_apart [OF reach_ok [OF kmem_okD(1) [OF ok]]] m b by blast
  then show ?thesis using h(5,6) by blast
qed

subsection \<open>The objects as an allocator\<close>

definition own_objects :: "kmem \<Rightarrow> (nat \<times> sa_ref) set" where
  "own_objects s = {(x, r). (x, r) \<in> in_use s \<and> r \<noteq> Slab_allocator_allocator}"

definition obj_get :: "sa_ref \<Rightarrow> kmem \<Rightarrow> kfault + ((nat \<times> sa_ref) option \<times> kmem)" where
  "obj_get r s = bnd (slab_obj_alloc r s) (\<lambda>(x, s). Inr (map_option (\<lambda>x. (x, r)) x, s))"

lemma obj_get_eq:
  "obj_get r s = Inr (Some b, s') \<longleftrightarrow> (\<exists>x. b = (x, r) \<and> slab_obj_alloc r s = Inr (Some x, s'))"
  "obj_get r s = Inr (None, s') \<longleftrightarrow> slab_obj_alloc r s = Inr (None, s')"
  by (auto simp: obj_get_def bnd_eq_Inr)

text \<open>The user of an allocator other than the one for the allocators.\<close>

interpretation obj_pool: pool "\<lambda>s U. kmem_reach s V \<and> U = own_objects s" "\<lambda>s (x, r). object_bytes s x r"
    "\<lambda>r s. r \<noteq> Slab_allocator_allocator \<and> allocator s r \<noteq> None" obj_get "\<lambda>(x, r). slab_obj_free r x" for V
proof
  fix s U b c assume h: "kmem_reach s V \<and> U = own_objects s" "b \<in> U" "c \<in> U" "b \<noteq> c"
  obtain x r y r' where "b = (x, r)" "c = (y, r')" by (cases b, cases c)
  then show "(case b of (x, r) \<Rightarrow> object_bytes s x r) \<inter> (case c of (x, r) \<Rightarrow> object_bytes s x r) = {}"
    using objects_disjoint [OF readyD(2) [OF reach_ready [OF conjunct1 [OF h(1)]]], of x r y r'] h by (simp add: own_objects_def)
next
  fix s U r assume h: "kmem_reach s V \<and> U = own_objects s" "r \<noteq> Slab_allocator_allocator \<and> allocator s r \<noteq> None"
  then obtain a where a: "allocator s r = Some a" by blast
  from obj_alloc_run [OF readyD(2) [OF reach_ready [OF conjunct1 [OF h(1)]]] a] show "\<exists>b s'. obj_get r s = Inr (b, s')" by (auto simp: obj_get_def)
next
  fix s U r b s' assume h: "kmem_reach s V \<and> U = own_objects s" "r \<noteq> Slab_allocator_allocator \<and> allocator s r \<noteq> None" "obj_get r s = Inr (Some b, s')"
  then obtain a x where a: "allocator s r = Some a" "b = (x, r)" "slab_obj_alloc r s = Inr (Some x, s')" by (auto simp: obj_get_eq)
  from obj_alloc_run [OF readyD(2) [OF reach_ready [OF conjunct1 [OF h(1)]]] a(1)] a(3)
  have "in_use s' = insert (x, r) (in_use s)" "(x, r) \<notin> in_use s" by (auto simp: took_def)
  then show "b \<notin> U \<and> kmem_reach s' V \<and> insert b U = own_objects s'"
    using h(1,2) a kmem_reach.obj_got [OF _ a(1,3)] by (auto simp: own_objects_def)
next
  fix s U r s' assume h: "kmem_reach s V \<and> U = own_objects s" "r \<noteq> Slab_allocator_allocator \<and> allocator s r \<noteq> None" "obj_get r s = Inr (None, s')"
  then obtain a where a: "allocator s r = Some a" "slab_obj_alloc r s = Inr (None, s')" by (auto simp: obj_get_eq)
  from obj_alloc_run [OF readyD(2) [OF reach_ready [OF conjunct1 [OF h(1)]]] a(1)] a(2) have "in_use s' = in_use s" by auto
  then show "kmem_reach s' V \<and> U = own_objects s'" using h(1) kmem_reach.obj_got [OF _ a] by (simp add: own_objects_def)
next
  fix s U b assume h: "kmem_reach s V \<and> U = own_objects s" "b \<in> U"
  then obtain x r where b: "b = (x, r)" "(x, r) \<in> in_use s" "r \<noteq> Slab_allocator_allocator" by (auto simp: own_objects_def)
  from obj_free_run [OF readyD(2) [OF reach_ready [OF conjunct1 [OF h(1)]]] b(2)] obtain s' where s': "slab_obj_free r x s = Inr s'" "in_use s' = in_use s - {(x, r)}" by blast
  have "kmem_reach s' V" using kmem_reach.obj_given [OF _ b(2,3) s'(1)] h(1) by blast
  then show "\<exists>s'. (case b of (x, r) \<Rightarrow> slab_obj_free r x) s = Inr s' \<and> kmem_reach s' V \<and> U - {b} = own_objects s'"
    using h(1) b(1) s' by (auto simp: own_objects_def)
qed

subsection \<open>The properties\<close>

text \<open>Claim C24. No two objects in use overlap, whichever allocators they come from, and no object overlaps pages that were
  allocated directly, after any sequence of calls that free what they allocated at most once.\<close>

theorem slab_objects_disjoint:
  assumes "kmem_reach s V" and "(x, r) \<in> in_use s" and "(y, r') \<in> in_use s" and "(x, r) \<noteq> (y, r')"
  shows "object_bytes s x r \<inter> object_bytes s y r' = {} \<and> (\<forall>(b, k)\<in>V. object_bytes s x r \<inter> block_bytes b k = {})"
  using objects_disjoint [OF readyD(2) [OF reach_ready [OF assms(1)]] assms(2-4)]
    object_pages_disjoint [OF readyD(2) [OF reach_ready [OF assms(1)]] assms(2)] by blast

theorem slab_objects_disjoint_witness:
  "\<exists>s x y. kmem_reach s {} \<and> x \<noteq> y \<and> object_bytes s x Slab_allocator_allocator \<inter> object_bytes s y Slab_allocator_allocator = {}"
proof -
  let ?r = "Slab_allocator_allocator"
  obtain s where s: "kmem_reach s {}" using kmem_start by blast
  have m: "mem_ok s {}" "length (kmalloc_allocators s) = 13"
    using reach_ready [OF s] by (simp_all add: started_def KMALLOC_SIZE_MIN_ORDER_def KMALLOC_SIZE_MAX_ORDER_def)
  have b: "\<exists>a. kmalloc_allocators s ! i \<noteq> ?r \<and> allocator s (kmalloc_allocators s ! i) = Some a \<and> sa_objsize a = 2 ^ (i + 6) + 8" if "i < 13" for i
    using m that by (auto simp: mem_ok_def buckets_ok_def KMALLOC_SIZE_MIN_ORDER_def REDZONE_SIZE_def)
  obtain x a where x: "kmalloc_allocators s ! 0 = Sa x" "allocator s (Sa x) = Some a" "sa_objsize a = 72" using b [of 0] by (cases "kmalloc_allocators s ! 0") auto
  obtain y c where y: "kmalloc_allocators s ! 1 = Sa y" "allocator s (Sa y) = Some c" "sa_objsize c = 136" using b [of 1] by (cases "kmalloc_allocators s ! 1") auto
  have "x \<noteq> y" using x y by auto
  moreover have "(x, ?r) \<in> in_use s" "(y, ?r) \<in> in_use s" using m(1) x(2) y(2) unfolding mem_ok_def by blast+
  ultimately have "object_bytes s x ?r \<inter> object_bytes s y ?r = {}" using slab_objects_disjoint [OF s, of x ?r y ?r] by simp
  with s \<open>x \<noteq> y\<close> show ?thesis by blast
qed

text \<open>Claim C25. \<open>slab_obj_alloc\<close> never faults: it returns an object that was not in use, or NULL when no slab of the allocator
  has a free object and no block of the size of a slab is free; then the empty slabs of all allocators have been given back.\<close>

theorem slab_alloc_result:
  assumes "kmem_reach s V" and "allocator s r = Some a"
  shows "(\<exists>x s'. slab_obj_alloc r s = Inr (Some x, s') \<and> kmem_reach s' V \<and> in_use s' = insert (x, r) (in_use s) \<and> (x, r) \<notin> in_use s)
    \<or> (\<exists>s'. slab_obj_alloc r s = Inr (None, s') \<and> kmem_reach s' V \<and> in_use s' = in_use s \<and> free_count a = 0
        \<and> (\<forall>g\<in>set (pagegroup_list (km_pages s)). \<forall>j<PAGE_NSIZES. sa_order a \<le> j \<longrightarrow> pg_freelist g j = [])
        \<and> (\<forall>r b sl. allocator s' r = Some b \<longrightarrow> sl \<in> set (sa_slabs b) \<longrightarrow> s_inuse sl \<noteq> 0))"
  using obj_alloc_run [OF readyD(2) [OF reach_ready [OF assms(1)]] assms(2)]
proof (elim disjE exE conjE)
  fix x s' n assume h: "slab_obj_alloc r s = Inr (Some x, s')" "took r V x s n s'"
  then show ?thesis using kmem_reach.obj_got [OF assms h(1)] by (auto simp: took_def)
next
  fix s' assume h: "slab_obj_alloc r s = Inr (None, s')" "in_use s' = in_use s" "none_empty s'" "no_block (sa_order a) (km_pages s)" "free_count a = 0"
  then show ?thesis using kmem_reach.obj_got [OF assms h(1)] by (auto simp: none_empty_def no_block_def)
qed

theorem slab_alloc_result_witness:
  "\<exists>s a. kmem_reach s {} \<and> allocator s Slab_allocator_allocator = Some a
     \<and> ((\<exists>x s'. slab_obj_alloc Slab_allocator_allocator s = Inr (Some x, s') \<and> kmem_reach s' {})
        \<or> (\<exists>s'. slab_obj_alloc Slab_allocator_allocator s = Inr (None, s') \<and> free_count a = 0))"
proof -
  obtain s where s: "kmem_reach s {}" using kmem_start by blast
  obtain a where a: "allocator s Slab_allocator_allocator = Some a" using readyD(1) [OF reach_ready [OF s]] by (auto simp: mem_ok_def)
  show ?thesis using slab_alloc_result [OF s a] s a by blast
qed

text \<open>Claim C27. \<open>slab_obj_free\<close> gives back exactly the object it is called with, and a second call with the same object fails
  the assertion against invalid frees.\<close>

theorem slab_free_once:
  assumes "kmem_reach s V" and "(x, r) \<in> in_use s" and "r \<noteq> Slab_allocator_allocator"
  shows "\<exists>s'. slab_obj_free r x s = Inr s' \<and> kmem_reach s' V \<and> in_use s' = in_use s - {(x, r)} \<and> slab_obj_free r x s' = Inl Kassert_failed"
  using obj_free_run [OF readyD(2) [OF reach_ready [OF assms(1)]] assms(2)] kmem_reach.obj_given [OF assms] by blast

theorem slab_free_once_witness:
  "\<exists>s x r s'. kmem_reach s {} \<and> slab_obj_free r x s = Inr s' \<and> slab_obj_free r x s' = Inl Kassert_failed"
proof -
  obtain s x c where s: "kmem_reach s {}" "(x, c) \<in> in_use s" "c \<noteq> Slab_allocator_allocator" using bucket_object by blast
  show ?thesis using slab_free_once [OF s] s(1) by blast
qed

text \<open>Claim C26. What \<open>kmalloc\<close> returns are as many bytes as were asked for, inside an object that was not in use; \<open>kfree\<close>
  finds the allocator again and leaves the objects in use as they were before.\<close>

theorem kmalloc_roundtrip:
  assumes "kmem_reach s V" and "unat sz + 4 \<le> 262144" and "kmalloc sz s = Inr (Some p, s')"
  shows "\<exists>x r s''. (x, r) \<notin> in_use s \<and> in_use s' = insert (x, r) (in_use s) \<and> {p..<p + unat sz} \<subseteq> object_bytes s' x r
    \<and> kfree p s' = Inr s'' \<and> kmem_reach s'' V \<and> in_use s'' = in_use s"
proof -
  from kmalloc_run [OF reach_ready [OF assms(1)] assms(2)] assms(3) obtain x r a where h: "p = x + 4" "started s' V" "r \<noteq> Slab_allocator_allocator"
    "in_use s' = insert (x, r) (in_use s)" "(x, r) \<notin> in_use s" "kmalloc_tag s' x = Some r" "allocator s' r = Some a"
    "unat sz + 4 \<le> sa_objsize a - 2 * REDZONE_SIZE" by auto
  have r': "kmem_reach s' V" by (rule kmem_reach.kmalloced [OF assms])
  have u: "(x, r) \<in> in_use s'" using h(4) by simp
  from kfree_run [OF h(2,6) u h(3)] obtain s'' where s'': "kfree (x + 4) s' = Inr s''" "in_use s'' = in_use s' - {(x, r)}" by blast
  have "kmem_reach s'' V" by (rule kmem_reach.kfreed [OF r' h(6) u h(3) s''(1)])
  moreover have "in_use s'' = in_use s" using s''(2) h(4,5) by auto
  moreover have "{p..<p + unat sz} \<subseteq> object_bytes s' x r" using h(1,7,8) by (auto simp: object_bytes_def)
  ultimately show ?thesis using h(1,4,5) s''(1) by blast
qed

theorem kmalloc_roundtrip_witness:
  "\<exists>s p s' s''. kmem_reach s {} \<and> kmalloc 100 s = Inr (Some p, s') \<and> kfree p s' = Inr s'' \<and> in_use s'' = in_use s"
proof -
  obtain s x c s' where s: "kmem_reach s {}" "kmalloc 100 s = Inr (Some (x + 4), s')" using bucket_object by blast
  show ?thesis using kmalloc_roundtrip [OF s(1) _ s(2)] s by fastforce
qed

text \<open>Claim C28. \<open>slab_allocators_reclaim\<close> gives back pages of unused slabs only: the objects in use stay in use, its result is
  the number of pages that are free in addition, and without a target no empty slab remains.\<close>

theorem slab_reclaim_result:
  assumes "kmem_reach s V"
  shows "\<exists>n s'. slab_allocators_reclaim target s = Inr (n, s') \<and> kmem_reach s' V \<and> in_use s' = in_use s
    \<and> page_freecount (km_pages s') = page_freecount (km_pages s) + n
    \<and> (target \<le> 0 \<longrightarrow> (\<forall>r b sl. allocator s' r = Some b \<longrightarrow> sl \<in> set (sa_slabs b) \<longrightarrow> s_inuse sl \<noteq> 0))"
  using allocators_reclaim_run [OF readyD(2) [OF reach_ready [OF assms]], of target] kmem_reach.reclaimed [OF assms]
  unfolding none_empty_def by blast

theorem slab_reclaim_result_witness:
  "\<exists>s n s'. kmem_reach s {} \<and> slab_allocators_reclaim 0 s = Inr (n, s') \<and> in_use s' = in_use s"
proof -
  obtain s where s: "kmem_reach s {}" using kmem_start by blast
  show ?thesis using slab_reclaim_result [OF s, of 0] s by blast
qed

subsection \<open>Requests that are too large\<close>

text \<open>The size grows by four before it is compared, and wraps: a request of nearly four gigabytes is served with 64 bytes.\<close>

lemma kmalloc_wraps:
  assumes "2 ^ 32 - 4 \<le> unat sz"
  shows "kmalloc sz s = kmalloc 0 s"
proof -
  have w: "(n :: 32 word) \<le> 64 \<Longrightarrow> find (\<lambda>order. n \<le> push_bit order 1) [KMALLOC_SIZE_MIN_ORDER..<KMALLOC_SIZE_MAX_ORDER + 1] = Some KMALLOC_SIZE_MIN_ORDER" for n
    by (simp add: KMALLOC_SIZE_MIN_ORDER_def KMALLOC_SIZE_MAX_ORDER_def upt_conv_Cons del: upt_Suc)
  have "unat sz < 2 ^ LENGTH(32)" by (rule unsigned_less)
  then have lt: "unat sz + 4 - 2 ^ 32 < 4" by simp
  have "(unat sz + 4) mod 2 ^ 32 = (unat sz + 4 - 2 ^ 32) mod 2 ^ 32" by (rule le_mod_geq) (use assms in simp)
  also have "\<dots> = unat sz + 4 - 2 ^ 32" by (rule mod_less) (use lt in simp)
  finally have "(unat sz + 4) mod 2 ^ 32 \<le> 64" using lt by linarith
  then have "unat (sz + 4) \<le> 64" by (simp add: unat_word_ariths(1))
  then have "sz + 4 \<le> 64" by (simp add: word_le_nat_alt)
  then show ?thesis using w [of "sz + 4"] w [of "0 + 4"] by (simp add: kmalloc_def Let_def word_le_nat_alt del: upt_Suc)
qed

end
